(* ===== verification/Prelude.thy ===== *)
theory Prelude
  imports Main "HOL-Library.Char_ord" "HOL-Library.List_Lexorder"
begin

text \<open>
  Shared vocabulary of the development: Python values as they cross the untyped
  boundaries of the program (decoded JSON documents, keyword arguments), exceptions as
  values of a sum type, the decimal and JSON printers of the standard library that the
  program's canonical encodings use, and the generic lemmas and locales on them.

  A Python \<open>str\<close> is a \<^typ>\<open>string\<close> whose characters stand for the code points
  0 to 255; a \<open>frozenset[str]\<close> is a set of strings; a \<open>dict\<close> with string keys is an
  association list in insertion order.
\<close>

named_theorems res_simps \<open>unfolding rules for the result combinators\<close>

section \<open>Values and exceptions\<close>

datatype pyval =
    PNone
  | PBool bool
  | PInt int
  | PFloat string
  | PStr string
  | PList "pyval list"
  | PDict "(string \<times> pyval) list"

datatype py_error =
    ValueError string
  | TypeError string
  | KeyError string
  | AssertionError string
  | OverflowError string
  | RuntimeError string
  | IntegrityError string
  | ConfigError string
  | ToolError string string
  | EvidenceError string
  | EvidenceConflictError string
  | EvidenceTamperError string

type_synonym 'a result = "py_error + 'a"

type_synonym digest_fn = "string \<Rightarrow> string"

definition is_ok :: "'a result \<Rightarrow> bool" where
  "is_ok r = (case r of Inl _ \<Rightarrow> False | Inr _ \<Rightarrow> True)"

definition bind_result :: "'a result \<Rightarrow> ('a \<Rightarrow> 'b result) \<Rightarrow> 'b result" where
  "bind_result r f = (case r of Inl e \<Rightarrow> Inl e | Inr x \<Rightarrow> f x)"

definition ensure :: "bool \<Rightarrow> py_error \<Rightarrow> unit result" where
  "ensure b e = (if b then Inr () else Inl e)"

lemma is_ok_simps [simp]: "is_ok (Inr x) = True" "is_ok (Inl e) = False"
  by (simp_all add: is_ok_def)

lemma bind_result_simps [simp]:
  "bind_result (Inr x) f = f x" "bind_result (Inl e) f = Inl e"
  by (simp_all add: bind_result_def)

lemma bind_result_Inr_iff [res_simps]:
  "bind_result r f = Inr y \<longleftrightarrow> (\<exists>x. r = Inr x \<and> f x = Inr y)"
  by (cases r) simp_all

lemma bind_result_InrE:
  assumes "bind_result r f = Inr y"
  obtains x where "r = Inr x" "f x = Inr y"
  using assms by (cases r) simp_all

lemma ensure_Inr_iff [simp]: "ensure b e = Inr u \<longleftrightarrow> b"
  by (simp add: ensure_def)

lemma ensure_simps [simp]: "ensure True e = Inr ()" "ensure False e = Inl e"
  by (simp_all add: ensure_def)

text \<open>A loop that collects results and stops at the first exception.\<close>

fun traverse :: "('a \<Rightarrow> 'b result) \<Rightarrow> 'a list \<Rightarrow> 'b list result" where
  "traverse f [] = Inr []"
| "traverse f (x # xs) =
     (case f x of
        Inl e \<Rightarrow> Inl e
      | Inr y \<Rightarrow> (case traverse f xs of Inl e \<Rightarrow> Inl e | Inr ys \<Rightarrow> Inr (y # ys)))"

lemma traverse_Inr_iff [res_simps]:
  "traverse f xs = Inr ys \<longleftrightarrow> list_all2 (\<lambda>x y. f x = Inr y) xs ys"
proof (induction xs arbitrary: ys)
  case Nil
  then show ?case by auto
next
  case (Cons x xs)
  show ?case
  proof (cases "traverse f xs")
    case (Inl e)
    with Cons.IH have "\<not> list_all2 (\<lambda>x y. f x = Inr y) xs zs" for zs by simp
    with Inl show ?thesis by (cases ys) (auto split: sum.split)
  next
    case (Inr ws)
    with Cons.IH have "list_all2 (\<lambda>x y. f x = Inr y) xs zs \<longleftrightarrow> ws = zs" for zs by simp
    with Inr show ?thesis by (cases ys) (auto split: sum.split)
  qed
qed

lemma traverse_Cons_Inr_iff:
  "traverse f (x # xs) = Inr ys \<longleftrightarrow> (\<exists>y zs. f x = Inr y \<and> traverse f xs = Inr zs \<and> ys = y # zs)"
  by (auto split: sum.splits)

lemma traverse_map_Inr: "(\<And>x. x \<in> set xs \<Longrightarrow> f x = Inr (g x)) \<Longrightarrow> traverse f xs = Inr (map g xs)"
  by (induction xs) simp_all

lemma traverse_Inr_map_id:
  "traverse f (map g xs) = Inr xs" if "\<And>x. x \<in> set xs \<Longrightarrow> f (g x) = Inr x"
  using that by (induction xs) simp_all

lemma traverse_Inr_all:
  assumes "traverse f xs = Inr ys" "\<And>x y. f x = Inr y \<Longrightarrow> P y"
  shows "\<forall>y \<in> set ys. P y"
  using assms(1) by (induction xs arbitrary: ys) (auto dest: assms(2) split: sum.splits)

section \<open>Dictionaries\<close>

definition dict_get :: "(string \<times> pyval) list \<Rightarrow> string \<Rightarrow> pyval" where
  "dict_get d k = (case map_of d k of None \<Rightarrow> PNone | Some v \<Rightarrow> v)"

definition has_key :: "(string \<times> pyval) list \<Rightarrow> string \<Rightarrow> bool" where
  "has_key d k \<longleftrightarrow> k \<in> set (map fst d)"

definition keys_are :: "(string \<times> pyval) list \<Rightarrow> string set \<Rightarrow> bool" where
  "keys_are d ks \<longleftrightarrow> set (map fst d) = ks"

lemma dict_get_Cons [simp]:
  "dict_get ((k, v) # d) k' = (if k = k' then v else dict_get d k')"
  by (simp add: dict_get_def)

lemma dict_get_Nil [simp]: "dict_get [] k = PNone"
  by (simp add: dict_get_def)

text \<open>Reading a decoded document: subscription, iteration and the string sets of the code. A
  dictionary has distinct keys; iterating a string yields its characters, a dictionary its keys.\<close>

definition py_item :: "pyval \<Rightarrow> string \<Rightarrow> pyval result" where
  "py_item v k =
     (case v of
        PDict d \<Rightarrow> (case map_of d k of None \<Rightarrow> Inl (KeyError k) | Some x \<Rightarrow> Inr x)
      | _ \<Rightarrow> Inl (TypeError ''indices''))"

definition py_elements :: "pyval \<Rightarrow> pyval list result" where
  "py_elements v =
     (case v of
        PList xs \<Rightarrow> Inr xs
      | PStr s \<Rightarrow> Inr (map (\<lambda>ch. PStr [ch]) s)
      | PDict d \<Rightarrow> Inr (map (\<lambda>kv. PStr (fst kv)) d)
      | _ \<Rightarrow> Inl (TypeError ''not iterable''))"

definition py_hashable :: "pyval \<Rightarrow> bool" where
  "py_hashable v = (case v of PList _ \<Rightarrow> False | PDict _ \<Rightarrow> False | _ \<Rightarrow> True)"

definition py_items :: "pyval \<Rightarrow> (string \<times> pyval) list result" where
  "py_items v = (case v of PDict d \<Rightarrow> Inr d | _ \<Rightarrow> Inl (TypeError ''items''))"

definition py_string :: "pyval \<Rightarrow> string result" where
  "py_string v = (case v of PStr s \<Rightarrow> Inr s | _ \<Rightarrow> Inl (TypeError ''str''))"

definition py_int :: "pyval \<Rightarrow> int result" where
  "py_int v = (case v of PInt i \<Rightarrow> Inr i | PBool b \<Rightarrow> Inr (if b then 1 else 0) | _ \<Rightarrow> Inl (TypeError ''int''))"

text \<open>\<open>set(v) <= s\<close> for a set of strings \<open>s\<close>.\<close>

definition py_subset :: "pyval \<Rightarrow> string set \<Rightarrow> bool result" where
  "py_subset v s =
     bind_result (py_elements v) (\<lambda>xs.
       if \<forall>x \<in> set xs. py_hashable x
       then Inr (\<forall>x \<in> set xs. case x of PStr t \<Rightarrow> t \<in> s | _ \<Rightarrow> False)
       else Inl (TypeError ''unhashable''))"

lemma py_item_Cons [simp]:
  "py_item (PDict ((k, v) # d)) k' = (if k = k' then Inr v else py_item (PDict d) k')"
  by (simp add: py_item_def)

lemma py_readers [simp]:
  "py_elements (PList xs) = Inr xs" "py_items (PDict d) = Inr d" "py_string (PStr s) = Inr s"
  "py_int (PInt i) = Inr i"
  by (simp_all add: py_elements_def py_items_def py_string_def py_int_def)

lemma py_subset_strings [simp]: "py_subset (PList (map PStr xs)) s = Inr (set xs \<subseteq> s)"
  by (auto simp: py_subset_def py_hashable_def)

section \<open>Decimal numerals: Python's \<open>str(int)\<close>\<close>

definition digit_char :: "nat \<Rightarrow> char" where
  "digit_char n = char_of (48 + n)"

fun dec_digits :: "nat \<Rightarrow> string" where
  "dec_digits n = (if n < 10 then [digit_char n] else dec_digits (n div 10) @ [digit_char (n mod 10)])"

declare dec_digits.simps [simp del]

definition show_int :: "int \<Rightarrow> string" where
  "show_int i = (if i < 0 then CHR ''-'' # dec_digits (nat (- i)) else dec_digits (nat i))"

definition is_digit :: "char \<Rightarrow> bool" where
  "is_digit c \<longleftrightarrow> 48 \<le> (of_char c :: nat) \<and> (of_char c :: nat) \<le> 57"

definition dec_value :: "string \<Rightarrow> nat" where
  "dec_value s = foldl (\<lambda>acc c. acc * 10 + (of_char c - 48)) 0 s"

lemma of_digit_char [simp]: "n < 10 \<Longrightarrow> (of_char (digit_char n) :: nat) = 48 + n"
  by (simp add: digit_char_def)

lemma is_digit_digit_char [simp]: "n < 10 \<Longrightarrow> is_digit (digit_char n)"
  by (simp add: is_digit_def)

lemma dec_digits_all_digits: "c \<in> set (dec_digits n) \<Longrightarrow> is_digit c"
proof (induction n rule: dec_digits.induct)
  case (1 n)
  then show ?case
    by (subst (asm) dec_digits.simps) (auto split: if_splits)
qed

lemma dec_digits_not_Nil [simp]: "dec_digits n \<noteq> []"
  by (subst dec_digits.simps) simp

lemma dec_value_append_digit [simp]:
  "dec_value (s @ [c]) = dec_value s * 10 + (of_char c - 48)"
  by (simp add: dec_value_def)

lemma dec_value_dec_digits [simp]: "dec_value (dec_digits n) = n"
proof (induction n rule: dec_digits.induct)
  case (1 n)
  show ?case
  proof (cases "n < 10")
    case True
    then show ?thesis by (subst dec_digits.simps) (simp add: dec_value_def)
  next
    case False
    with "1.IH" show ?thesis by (subst dec_digits.simps) simp
  qed
qed

lemma length_dec_digits_bound: "n < 10 ^ k \<Longrightarrow> 0 < k \<Longrightarrow> length (dec_digits n) \<le> k"
proof (induction n arbitrary: k rule: dec_digits.induct)
  case (1 n)
  show ?case
  proof (cases "n < 10")
    case True
    then show ?thesis using "1.prems" by (subst dec_digits.simps) simp
  next
    case False
    with "1.prems" obtain j where k: "k = Suc j" "0 < j"
      by (metis Suc_pred gr0I power_0 power_one_right power_Suc mult.right_neutral)
    then have "n div 10 < 10 ^ j" using "1.prems"(1) by (simp add: less_mult_imp_div_less mult.commute)
    with "1.IH" [OF False] k False show ?thesis by (subst dec_digits.simps) simp
  qed
qed

lemma dec_digits_inject [simp]: "dec_digits m = dec_digits n \<longleftrightarrow> m = n"
  by (metis dec_value_dec_digits)

lemma not_is_digit_minus [simp]: "\<not> is_digit (CHR ''-'')"
  by (simp add: is_digit_def)

lemma minus_not_dec_digits: "CHR ''-'' # s \<noteq> dec_digits n"
  using dec_digits_all_digits [of "CHR ''-''" n] by (metis list.set_intros(1) not_is_digit_minus)

lemma show_int_inject [simp]: "show_int i = show_int j \<longleftrightarrow> i = j"
  using minus_not_dec_digits minus_not_dec_digits [symmetric]
  by (auto simp: show_int_def split: if_splits)

lemma show_int_chars: "c \<in> set (show_int i) \<Longrightarrow> is_digit c \<or> c = CHR ''-''"
  by (auto simp: show_int_def dest: dec_digits_all_digits split: if_splits)

section \<open>Canonical JSON: \<open>json.dumps(..., sort_keys=True, separators=(",", ":"))\<close>\<close>

definition hex_char :: "nat \<Rightarrow> char" where
  "hex_char n = (if n < 10 then char_of (48 + n) else char_of (87 + n))"

definition json_escape :: "char \<Rightarrow> string" where
  "json_escape c =
     (let n = of_char c :: nat in
      if n = 34 then [CHR 0x5C, CHR 0x22]
      else if n = 92 then [CHR 0x5C, CHR 0x5C]
      else if n = 8 then [CHR 0x5C, CHR ''b'']
      else if n = 12 then [CHR 0x5C, CHR ''f'']
      else if n = 10 then [CHR 0x5C, CHR ''n'']
      else if n = 13 then [CHR 0x5C, CHR ''r'']
      else if n = 9 then [CHR 0x5C, CHR ''t'']
      else if 32 \<le> n \<and> n \<le> 126 then [c]
      else [CHR 0x5C, CHR ''u'', CHR ''0'', CHR ''0'', hex_char (n div 16), hex_char (n mod 16)])"

definition json_string :: "string \<Rightarrow> string" where
  "json_string s = CHR 0x22 # concat (map json_escape s) @ [CHR 0x22]"

definition join :: "string \<Rightarrow> string list \<Rightarrow> string" where
  "join sep xs = (case xs of [] \<Rightarrow> [] | y # ys \<Rightarrow> y @ concat (map (\<lambda>x. sep @ x) ys))"

function json_dumps :: "pyval \<Rightarrow> string" where
  "json_dumps PNone = ''null''"
| "json_dumps (PBool b) = (if b then ''true'' else ''false'')"
| "json_dumps (PInt i) = show_int i"
| "json_dumps (PFloat s) = s"
| "json_dumps (PStr s) = json_string s"
| "json_dumps (PList xs) = ''['' @ join '','' (map json_dumps xs) @ '']''"
| "json_dumps (PDict kvs) =
     ''{'' @ join '','' (map (\<lambda>kv. json_string (fst kv) @ '':'' @ json_dumps (snd kv)) (sort_key fst kvs))
     @ ''}''"
  by pat_completeness auto

lemma size_snd_less_PDict:
  "kv \<in> set kvs \<Longrightarrow> size (snd kv) < size (PDict kvs)"
proof (induction kvs)
  case Nil
  then show ?case by simp
next
  case (Cons a kvs)
  then show ?case by (cases a) auto
qed

termination json_dumps
proof (relation "measure size", goal_cases)
  case 1
  show ?case by simp
next
  case (2 xs x)
  then show ?case by (simp add: less_Suc_eq_le size_list_estimation')
next
  case (3 kvs kv)
  then have "kv \<in> set kvs" by simp
  then show ?case using size_snd_less_PDict by simp
qed

text \<open>\<open>json.loads(json.dumps(v, sort_keys=True))\<close>: the same document with sorted keys.\<close>

function canonical_value :: "pyval \<Rightarrow> pyval" where
  "canonical_value PNone = PNone"
| "canonical_value (PBool b) = PBool b"
| "canonical_value (PInt i) = PInt i"
| "canonical_value (PFloat s) = PFloat s"
| "canonical_value (PStr s) = PStr s"
| "canonical_value (PList xs) = PList (map canonical_value xs)"
| "canonical_value (PDict kvs) = PDict (map (\<lambda>kv. (fst kv, canonical_value (snd kv))) (sort_key fst kvs))"
  by pat_completeness auto

termination canonical_value
proof (relation "measure size", goal_cases)
  case 1
  show ?case by simp
next
  case (2 xs x)
  then show ?case by (simp add: less_Suc_eq_le size_list_estimation')
next
  case (3 kvs kv)
  then have "kv \<in> set kvs" by simp
  then show ?case using size_snd_less_PDict by simp
qed

text \<open>The escape of a character is never empty, never starts with a quote, and no escape is a
  proper prefix of another: the encoding of a string can be read back unambiguously.\<close>

lemma of_hex_char: "n < 16 \<Longrightarrow> (of_char (hex_char n) :: nat) = (if n < 10 then 48 + n else 87 + n)"
  by (simp add: hex_char_def)

text \<open>Reading one escaped character back: the escape is uniquely decodable, hence prefix-free.\<close>

definition hex_value :: "char \<Rightarrow> nat" where
  "hex_value c = (let n = of_char c in if n < 58 then n - 48 else n - 87)"

lemma hex_value_hex_char [simp]: "n < 16 \<Longrightarrow> hex_value (hex_char n) = n"
  by (simp add: hex_value_def of_hex_char)

definition simple_unescape :: "char \<Rightarrow> char" where
  "simple_unescape k =
     (if k = CHR ''b'' then char_of (8::nat) else if k = CHR ''f'' then char_of (12::nat)
      else if k = CHR ''n'' then char_of (10::nat) else if k = CHR ''r'' then char_of (13::nat)
      else if k = CHR ''t'' then char_of (9::nat) else k)"

fun json_unescape :: "string \<Rightarrow> (char \<times> string) option" where
  "json_unescape [] = None"
| "json_unescape (c # r) =
     (if c \<noteq> CHR 0x5C then Some (c, r)
      else case r of
        [] \<Rightarrow> None
      | k # r' \<Rightarrow>
          (if k = CHR ''u'' then
             (case r' of
                a # b # x # y # r'' \<Rightarrow> Some (char_of (16 * hex_value x + hex_value y), r'')
              | _ \<Rightarrow> None)
           else Some (simple_unescape k, r')))"

lemma char_eq_of_char: "(of_char c :: nat) = n \<Longrightarrow> c = char_of n"
  by auto

lemma json_unescape_escape: "json_unescape (json_escape c @ r) = Some (c, r)"
proof -
  define n where "n = (of_char c :: nat)"
  have c: "c = char_of n" by (simp add: n_def)
  have n256: "n < 256" by (simp add: n_def)
  have lits: "char_of (34::nat) = CHR 0x22" "char_of (92::nat) = CHR 0x5C"
    by (rule char_eq_of_char [symmetric], simp)+
  have d: "n div 16 < 16" using n256 by (simp add: less_mult_imp_div_less)
  consider (special) "n \<in> {34, 92, 8, 12, 10, 13, 9}"
    | (plain) "n \<notin> {34, 92, 8, 12, 10, 13, 9}" "32 \<le> n" "n \<le> 126"
    | (hex) "n \<notin> {34, 92, 8, 12, 10, 13, 9}" "\<not> (32 \<le> n \<and> n \<le> 126)"
    by blast
  then show ?thesis
  proof cases
    case special
    then show ?thesis
      by (elim insertE emptyE)
        (simp_all add: json_escape_def simple_unescape_def n_def [symmetric] c lits)
  next
    case plain
    then have "c \<noteq> CHR 0x5C" by (auto simp: n_def)
    with plain show ?thesis by (simp add: json_escape_def n_def [symmetric])
  next
    case hex
    then have "json_escape c =
        [CHR 0x5C, CHR ''u'', CHR ''0'', CHR ''0'', hex_char (n div 16), hex_char (n mod 16)]"
      by (simp add: json_escape_def n_def [symmetric])
    then show ?thesis by (simp add: d c)
  qed
qed

lemma json_escape_prefix_free:
  assumes "json_escape c @ xs = json_escape d @ ys"
  shows "c = d \<and> xs = ys"
proof -
  have "json_unescape (json_escape c @ xs) = json_unescape (json_escape d @ ys)"
    using assms by (rule arg_cong)
  then show ?thesis by (simp only: json_unescape_escape option.inject prod.inject)
qed

lemma json_escape_not_quote: "json_escape c @ xs \<noteq> CHR 0x22 # ys"
proof
  assume "json_escape c @ xs = CHR 0x22 # ys"
  then have "json_unescape (json_escape c @ xs) = json_unescape (CHR 0x22 # ys)"
    by (rule arg_cong)
  then have "c = CHR 0x22" by (simp add: json_unescape_escape)
  then have "json_escape c = [CHR 0x5C, CHR 0x22]" by (simp add: json_escape_def)
  with \<open>json_escape c @ xs = CHR 0x22 # ys\<close> show False by simp
qed

lemma json_body_inject:
  assumes "concat (map json_escape s) @ CHR 0x22 # xs = concat (map json_escape t) @ CHR 0x22 # ys"
  shows "s = t \<and> xs = ys"
  using assms
proof (induction s arbitrary: t)
  case Nil
  then show ?case
    using json_escape_not_quote by (cases t) (auto, metis)
next
  case (Cons c s)
  show ?case
  proof (cases t)
    case Nil
    with Cons.prems json_escape_not_quote show ?thesis by auto
  next
    case (Cons d t')
    with Cons.prems have "json_escape c @ (concat (map json_escape s) @ CHR 0x22 # xs) =
        json_escape d @ (concat (map json_escape t') @ CHR 0x22 # ys)" by simp
    then have "c = d" "concat (map json_escape s) @ CHR 0x22 # xs =
        concat (map json_escape t') @ CHR 0x22 # ys"
      using json_escape_prefix_free by blast+
    with Cons.IH Cons show ?thesis by simp
  qed
qed

lemma json_string_append_inject [simp]:
  "json_string s @ xs = json_string t @ ys \<longleftrightarrow> s = t \<and> xs = ys"
  using json_body_inject [of s xs t ys] by (auto simp: json_string_def)

lemma json_string_inject [simp]: "json_string s = json_string t \<longleftrightarrow> s = t"
  using json_string_append_inject [of s "[]" t "[]"] by simp

text \<open>A decimal numeral is delimited by the first character that is no digit and no minus.\<close>

definition num_char :: "char \<Rightarrow> bool" where
  "num_char c \<longleftrightarrow> is_digit c \<or> c = CHR ''-''"

lemma show_int_append_inject:
  assumes "show_int i @ c # xs = show_int j @ d # ys" "\<not> num_char c" "\<not> num_char d"
  shows "i = j \<and> c # xs = d # ys"
proof -
  have all: "\<forall>x \<in> set (show_int k). num_char x" for k
    using show_int_chars by (auto simp: num_char_def)
  have "takeWhile num_char (show_int k @ z # zs) = show_int k" if "\<not> num_char z" for k z zs
    using all that by (simp add: takeWhile_append2)
  with assms have "show_int i = show_int j" by metis
  with assms(1) show ?thesis by simp
qed

section \<open>Interfaces shared by the components\<close>

text \<open>A record with a validating reader: \<open>from_dict\<close> undoes \<open>as_dict\<close> on valid records and
  accepts nothing else.\<close>

locale document_codec =
  fixes enc :: "'a \<Rightarrow> pyval"
    and dec :: "pyval \<Rightarrow> 'a result"
    and valid :: "'a \<Rightarrow> bool"
  assumes dec_enc: "valid x \<Longrightarrow> dec (enc x) = Inr x"
    and dec_valid: "dec v = Inr x \<Longrightarrow> valid x"
begin

lemma dec_enc_iff: "dec (enc x) = Inr x \<longleftrightarrow> valid x"
  using dec_enc dec_valid by blast

lemma enc_inject: "valid x \<Longrightarrow> valid y \<Longrightarrow> enc x = enc y \<Longrightarrow> x = y"
  by (metis dec_enc sum.inject(2))

lemma reread: "dec v = Inr x \<Longrightarrow> dec (enc x) = Inr x"
  using dec_enc dec_valid by blast

lemma traverse_dec_valid: "traverse dec vs = Inr xs \<Longrightarrow> \<forall>x \<in> set xs. valid x"
  by (erule traverse_Inr_all) (rule dec_valid)

lemma traverse_dec_enc: "\<forall>x \<in> set xs. valid x \<Longrightarrow> traverse dec (map enc xs) = Inr xs"
  by (rule traverse_Inr_map_id) (simp add: dec_enc)

end

text \<open>An injective canonical text: its digests are identities for every digest that does not
  collide on the texts in question.\<close>

locale canonical_text =
  fixes text_of :: "'a \<Rightarrow> string"
  assumes text_inject: "text_of x = text_of y \<Longrightarrow> x = y"
begin

lemma digest_eq_iff:
  "inj_on sha (text_of ` A) \<Longrightarrow> x \<in> A \<Longrightarrow> y \<in> A \<Longrightarrow> sha (text_of x) = sha (text_of y) \<longleftrightarrow> x = y"
  by (auto dest: inj_onD text_inject)

end

end
