(* ===== verification/State_Tables.thy ===== *)
theory State_Tables
  imports Complex_Main Prelude
begin

text \<open>
  The durable state of \<open>src/rapido/state.py\<close>: the tables of the SQLite schema that
  \<open>StateStore.__init__\<close> creates, as lists of records in row order, and the transaction that every
  writing operation runs in. A \<open>SELECT\<close> is a filter, an \<open>UPDATE\<close> a map, an \<open>INSERT\<close> appends a row after
  its constraints are checked; \<open>NULL\<close> is \<^term>\<open>None\<close>, so the null-safe \<open>IS\<close> of SQL is equality of
  options. An \<open>AUTOINCREMENT\<close> sequence counts the rows of its table, which are never deleted. The
  clock readings of one operation are a function from the position of the statement that takes
  the reading to its text.
\<close>

section \<open>Rows\<close>

record run_row =
  rn_id :: string
  rn_started :: string
  rn_finished :: "string option"
  rn_status :: string
  rn_config :: "pyval option"   \<comment> \<open>the document of \<open>config_json\<close>; \<open>None\<close> is text that is not JSON\<close>

record challenge_row =
  ch_id :: int
  ch_name :: string
  ch_category :: string
  ch_type :: string
  ch_value :: int
  ch_status :: string
  ch_updated :: string

record attempt_row =
  at_id :: string
  at_run :: string
  at_challenge :: int
  at_episode :: int
  at_lane :: int
  at_started :: string
  at_finished :: "string option"
  at_status :: string
  at_model :: string
  at_effort :: string
  at_summary :: string
  at_candidate :: "string option"
  at_confidence :: "rat option"   \<comment> \<open>a finite \<open>REAL\<close>\<close>
  at_evidence :: "string list"
  at_next_steps :: "string list"
  at_observations :: "pyval list"
  at_tool_count :: int
  at_failure :: "string option"

record event_row =
  ev_run :: string
  ev_at :: string
  ev_kind :: string
  ev_data :: pyval

record submission_row =
  sb_run :: string
  sb_challenge :: int
  sb_at :: string
  sb_sha :: string
  sb_episode :: int
  sb_provenance :: string
  sb_outcome :: string
  sb_http :: int

record intent_row =
  it_challenge :: int
  it_sha :: string
  it_run :: string
  it_episode :: int
  it_context :: "string option"
  it_provenance :: string
  it_reserved :: string
  it_status :: string
  it_updated :: string

record instance_row =
  in_challenge :: int
  in_run :: string
  in_status :: string
  in_receipt :: "string option"
  in_updated :: string

record catalogue_row =
  ct_run :: string
  ct_challenge :: int
  ct_rank :: int
  ct_executable :: bool
  ct_context :: "string option"
  ct_episode :: int

record control_event =
  ce_run :: string
  ce_kind :: string
  ce_job :: "string option"
  ce_data :: pyval

record route_row =
  rt_run :: string
  rt_challenge :: int
  rt_fingerprint :: string
  rt_first_episode :: int
  rt_document :: pyval

record job_row =
  jb_id :: string
  jb_run :: string
  jb_challenge :: int
  jb_episode :: int
  jb_rank :: int
  jb_phase :: string
  jb_role :: string
  jb_agent_role :: string
  jb_model :: string
  jb_effort :: string
  jb_lane :: int
  jb_state :: string
  jb_fingerprint :: string
  jb_admitted :: nat
  jb_started :: "nat option"
  jb_closed :: "nat option"

record origin_row =
  og_run :: string
  og_challenge :: int
  og_episode :: int
  og_origin :: string
  og_reason :: string
  og_sequence :: nat

record verification_row =
  vf_run :: string
  vf_challenge :: int
  vf_key :: string
  vf_producer :: string
  vf_producer_role :: string
  vf_verifier :: string
  vf_verifier_role :: string
  vf_recipe :: string
  vf_scope :: string
  vf_context :: string
  vf_receipt :: "string option"
  vf_at :: string

record history_row =
  hs_verification :: verification_row
  hs_episode :: int
  hs_retired :: string

record proposal_row =
  pp_attempt :: string
  pp_run :: string
  pp_challenge :: int
  pp_episode :: int
  pp_lane :: int
  pp_role :: string
  pp_recipe :: string
  pp_context :: string
  pp_receipt :: "string option"
  pp_key :: string   \<comment> \<open>the 32 bytes of the \<open>BLOB\<close>, by their lower case hexadecimal text\<close>
  pp_candidate :: string
  pp_at :: string

record proof_row =
  pf_attempt :: string
  pf_run :: string
  pf_challenge :: int
  pf_key :: string
  pf_manifest :: string
  pf_at :: string

record decision_row =
  dc_sequence :: nat
  dc_run :: string
  dc_challenge :: int
  dc_episode :: int
  dc_kind :: string
  dc_subreason :: string
  dc_disposition :: string
  dc_rule :: string
  dc_source :: string
  dc_successor :: "string option"
  dc_axes :: "string list"
  dc_reason :: string

text \<open>The evidence tables, which \<open>src/rapido/evidence.py\<close> adds to the schema. A \<open>BLOB\<close> of them is the
  canonical text of a document, or bytes that are the canonical text of none.\<close>

datatype blob = Canonical pyval | Opaque string

record evidence_run_row =
  er_run :: string
  er_version :: int
  er_digest :: string
  er_limits :: blob
  er_created :: string

record object_row =
  eo_run :: string
  eo_digest :: string
  eo_version :: int
  eo_tool :: string
  eo_bytes :: int
  eo_payload :: blob
  eo_created :: string

record manifest_row =
  mf_run :: string
  mf_attempt :: string
  mf_digest :: string
  mf_challenge :: int
  mf_episode :: int
  mf_lane :: int
  mf_complete :: bool
  mf_gap :: "string option"
  mf_observations :: int
  mf_committed :: int
  mf_omitted :: int
  mf_bytes :: int
  mf_payload :: blob
  mf_created :: string

record item_row =
  ei_run :: string
  ei_manifest :: string
  ei_ordinal :: int
  ei_object :: string

text \<open>The recorded comparisons of routing policies; a \<open>TEXT\<close> column with a document is the document.\<close>

record fact_row =
  cf_sequence :: nat
  cf_run :: string
  cf_challenge :: int
  cf_episode :: int
  cf_fact_id :: string
  cf_type :: string
  cf_scope :: string
  cf_value :: string
  cf_event :: int
  cf_origin :: string
  cf_protocol :: string

record comparison_row =
  cd_sequence :: nat
  cd_run :: string
  cd_challenge :: int
  cd_episode :: int
  cd_arm :: string
  cd_config_digest :: string
  cd_input :: pyval
  cd_input_digest :: string
  cd_kind :: "string option"
  cd_subreason :: "string option"
  cd_disposition :: string
  cd_recipe :: "string option"
  cd_source :: string
  cd_successor :: "string option"
  cd_axes :: pyval
  cd_operations :: int
  cd_config_bytes :: int
  cd_metadata :: string
  cd_protocol :: string
  cd_operation_protocol :: string
  cd_decision :: pyval
  cd_digest :: string

record link_row =
  lk_decision :: nat
  lk_fact :: nat
  lk_ordinal :: nat

record db =
  runs :: "run_row list"
  challenges :: "challenge_row list"
  attempts :: "attempt_row list"
  events :: "event_row list"
  submissions :: "submission_row list"
  intents :: "intent_row list"
  instances :: "instance_row list"
  identity :: "(int \<times> int) option"
  catalogue :: "catalogue_row list"
  control_events :: "control_event list"
  control_routes :: "route_row list"
  control_jobs :: "job_row list"
  failure_origins :: "origin_row list"
  verifications :: "verification_row list"
  verification_history :: "history_row list"
  proposals :: "proposal_row list"
  proofs :: "proof_row list"
  route_decisions :: "decision_row list"
  manifests :: "manifest_row list option"   \<comment> \<open>\<open>None\<close> while the evidence module has not created its tables\<close>
  evidence_runs :: "evidence_run_row list"
  evidence_objects :: "object_row list"
  evidence_items :: "item_row list"
  comparison_facts :: "fact_row list"
  comparison_decisions :: "comparison_row list"
  comparison_links :: "link_row list"
  leased :: bool

definition empty_db :: db where
  "empty_db = \<lparr>runs = [], challenges = [], attempts = [], events = [], submissions = [], intents = [],
     instances = [], identity = None, catalogue = [], control_events = [], control_routes = [],
     control_jobs = [], failure_origins = [], verifications = [], verification_history = [], proposals = [], proofs = [],
     route_decisions = [], manifests = None, evidence_runs = [], evidence_objects = [], evidence_items = [],
     comparison_facts = [], comparison_decisions = [], comparison_links = [], leased = False\<rparr>"

section \<open>Transactions and statements\<close>

type_synonym clock = "nat \<Rightarrow> string"

text \<open>The body of a transaction either raises, and everything is rolled back, or returns a value and
  the state to commit.\<close>

type_synonym 'a tx = "db \<Rightarrow> ('a \<times> db) result"

definition transaction :: "'a tx \<Rightarrow> db \<Rightarrow> 'a result \<times> db" where
  "transaction body d = (case body d of Inl e \<Rightarrow> (Inl e, d) | Inr (x, d') \<Rightarrow> (Inr x, d'))"

definition foreign_key :: "bool \<Rightarrow> unit result" where
  "foreign_key found = ensure found (IntegrityError ''FOREIGN KEY constraint failed'')"

definition unique_key :: "bool \<Rightarrow> unit result" where
  "unique_key free = ensure free (IntegrityError ''UNIQUE constraint failed'')"

definition has_run :: "db \<Rightarrow> string \<Rightarrow> bool" where
  "has_run d r \<longleftrightarrow> r \<in> set (map rn_id (runs d))"

definition has_challenge :: "db \<Rightarrow> int \<Rightarrow> bool" where
  "has_challenge d c \<longleftrightarrow> c \<in> set (map ch_id (challenges d))"

definition where_update :: "('a \<Rightarrow> bool) \<Rightarrow> ('a \<Rightarrow> 'a) \<Rightarrow> 'a list \<Rightarrow> 'a list" where
  "where_update p f rows = map (\<lambda>r. if p r then f r else r) rows"

definition count_rows :: "('a \<Rightarrow> bool) \<Rightarrow> 'a list \<Rightarrow> nat" where
  "count_rows p rows = length (filter p rows)"

definition first_row :: "('a \<Rightarrow> bool) \<Rightarrow> 'a list \<Rightarrow> 'a option" where
  "first_row p rows = find p rows"

lemma foreign_key_Inr [simp]: "foreign_key b = Inr u \<longleftrightarrow> b"
  by (simp add: foreign_key_def)

lemma unique_key_Inr [simp]: "unique_key b = Inr u \<longleftrightarrow> b"
  by (simp add: unique_key_def)

lemma foreign_key_True [simp]: "foreign_key True = Inr ()"
  by (simp add: foreign_key_def)

lemma unique_key_True [simp]: "unique_key True = Inr ()"
  by (simp add: unique_key_def)

lemma set_where_update: "set (where_update p f rows) = (\<lambda>r. if p r then f r else r) ` set rows"
  by (simp add: where_update_def)

lemma length_where_update [simp]: "length (where_update p f rows) = length rows"
  by (simp add: where_update_def)

lemma map_where_update [simp]:
  "(\<And>r. g (f r) = g r) \<Longrightarrow> map g (where_update p f rows) = map g rows"
  by (simp add: where_update_def comp_def if_distrib)

lemma first_row_Some: "first_row p rows = Some r \<Longrightarrow> r \<in> set rows \<and> p r"
  by (auto simp: first_row_def find_Some_iff)

lemma first_row_None: "first_row p rows = None \<longleftrightarrow> (\<forall>r \<in> set rows. \<not> p r)"
  by (auto simp: first_row_def find_None_iff)

lemma count_rows_simps [simp]:
  "count_rows p [] = 0" "count_rows p (xs @ ys) = count_rows p xs + count_rows p ys"
  "count_rows p (x # xs) = (if p x then Suc (count_rows p xs) else count_rows p xs)"
  by (simp_all add: count_rows_def)

lemma count_rows_0_iff: "count_rows p rows = 0 \<longleftrightarrow> (\<forall>r \<in> set rows. \<not> p r)"
  by (simp add: count_rows_def filter_empty_conv)

lemma transaction_error [simp]: "body d = Inl e \<Longrightarrow> transaction body d = (Inl e, d)"
  by (simp add: transaction_def)

lemma transaction_ok [simp]: "body d = Inr (x, d') \<Longrightarrow> transaction body d = (Inr x, d')"
  by (simp add: transaction_def)

lemma first_row_where_update:
  "(\<And>r. key (f r) = key r) \<Longrightarrow>
     first_row (\<lambda>r. key r = k) (where_update p f rows)
     = map_option (\<lambda>r. if p r then f r else r) (first_row (\<lambda>r. key r = k) rows)"
  by (induction rows) (auto simp: first_row_def where_update_def)

lemma first_row_append:
  "first_row p (xs @ ys) = (case first_row p xs of None \<Rightarrow> first_row p ys | Some r \<Rightarrow> Some r)"
  by (induction xs) (auto simp: first_row_def)

lemma first_row_key:
  "distinct (map key rows) \<Longrightarrow>
     first_row (\<lambda>r. key r = k) rows = Some r \<longleftrightarrow> r \<in> set rows \<and> key r = k"
  by (induction rows) (auto simp: first_row_def)

lemma where_update_id: "\<forall>r \<in> set rows. \<not> p r \<Longrightarrow> where_update p f rows = rows"
  by (induction rows) (auto simp: where_update_def)

lemma count_rows_le_one:
  "distinct (map key rows) \<Longrightarrow> (\<And>r. p r \<Longrightarrow> key r = k) \<Longrightarrow> count_rows p rows \<le> 1"
proof (induction rows)
  case (Cons r rows)
  show ?case
  proof (cases "p r")
    case True
    then have "\<forall>q \<in> set rows. \<not> p q" using Cons.prems by (metis distinct.simps(2) image_eqI list.simps(9) list.set_map)
    with True show ?thesis by (simp add: count_rows_0_iff [THEN iffD2])
  next
    case False
    with Cons show ?thesis by simp
  qed
qed simp

lemma count_rows_pos: "r \<in> set rows \<Longrightarrow> p r \<Longrightarrow> 0 < count_rows p rows"
  using count_rows_0_iff [of p rows] by auto

section \<open>Stores whose steps keep an invariant\<close>

text \<open>What a component of the store promises to the rest: a start state and steps under which its
  invariant is never lost, whatever sequence of operations the program performs.\<close>

locale guarded_store =
  fixes start :: "'s \<Rightarrow> bool" and step :: "'s \<Rightarrow> 's \<Rightarrow> bool" and inv :: "'s \<Rightarrow> bool"
  assumes start_inv: "start s \<Longrightarrow> inv s"
    and step_inv: "inv s \<Longrightarrow> step s s' \<Longrightarrow> inv s'"
begin

lemma run_inv: "step\<^sup>*\<^sup>* s s' \<Longrightarrow> inv s \<Longrightarrow> inv s'"
  by (induction rule: rtranclp_induct) (auto intro: step_inv)

lemma reachable_inv: "start s \<Longrightarrow> step\<^sup>*\<^sup>* s s' \<Longrightarrow> inv s'"
  by (rule run_inv) (auto intro: start_inv)

end

end
