(* ===== verification/Float_Division.thy ===== *)
theory Float_Division
  imports Prelude "HOL-Library.Log_Nat"
begin

text \<open>
  \<open>math.ceil(a / b)\<close> on two positive integers, as \<^verbatim>\<open>rapido/routing.py\<close> uses it. The division of two
  Python integers is the binary64 number nearest to the quotient, ties to even, and an \<open>OverflowError\<close>
  when that number is out of range. A result is kept as its significand and exponent.
\<close>

text \<open>The integer nearest to \<open>n / m\<close>, and the exponent of the leading bit of \<open>a / b\<close>.\<close>

definition round_even :: "int \<Rightarrow> int \<Rightarrow> int" where
  "round_even n m =
     (let q = n div m; r = n mod m in if 2 * r < m \<or> (2 * r = m \<and> even q) then q else q + 1)"

definition quotient_exponent :: "int \<Rightarrow> int \<Rightarrow> int" where
  "quotient_exponent a b =
     (let e = bitlen a - bitlen b in
      if (if 0 \<le> e then b * 2 ^ nat e \<le> a else b \<le> a * 2 ^ nat (- e)) then e else e - 1)"

text \<open>53 bits of significand, and no bit below \<open>2^-1074\<close>.\<close>

definition float_quotient :: "int \<Rightarrow> int \<Rightarrow> (int \<times> int) result" where
  "float_quotient a b =
     (let x = max (quotient_exponent a b - 52) (- 1074);
          m = (if 0 \<le> x then round_even a (b * 2 ^ nat x) else round_even (a * 2 ^ nat (- x)) b) in
      if 0 \<le> x \<and> 2 ^ 1024 \<le> m * 2 ^ nat x
      then Inl (OverflowError ''integer division result too large for a float'')
      else Inr (m, x))"

definition float_ceil :: "int \<Rightarrow> int \<Rightarrow> int result" where
  "float_ceil a b =
     bind_result (float_quotient a b) (\<lambda>(m, x).
     Inr (if 0 \<le> x then m * 2 ^ nat x else - ((- m) div 2 ^ nat (- x))))"

text \<open>The exact ceiling.\<close>

definition ceil_div :: "int \<Rightarrow> int \<Rightarrow> int" where
  "ceil_div a b = - ((- a) div b)"

lemma ceil_div_bounds:
  assumes "b \<ge> 1"
  shows "a \<le> ceil_div a b * b" "ceil_div a b * b < a + b"
proof -
  have e: "- a = b * (- a div b) + (- a mod b)" by (rule mult_div_mod_eq [symmetric])
  have m: "0 \<le> - a mod b" "- a mod b < b" using assms by simp_all
  have "ceil_div a b * b = - (b * (- a div b))" by (simp add: ceil_div_def)
  with e m show "a \<le> ceil_div a b * b" "ceil_div a b * b < a + b" by linarith+
qed

lemma round_even_le: "n \<le> c * m \<Longrightarrow> 0 < m \<Longrightarrow> round_even n m \<le> c"
proof -
  assume n: "n \<le> c * m" and m: "0 < m"
  have q: "n = m * (n div m) + n mod m" "0 \<le> n mod m" using m by simp_all
  have "n div m \<le> c" using zdiv_mono1 [OF n m] m by simp
  moreover have "n mod m = 0" if "n div m = c"
    using q n that by (simp add: mult.commute)
  ultimately show ?thesis using m by (cases "n div m = c") (auto simp: round_even_def Let_def)
qed

lemma round_even_gt: "2 * (c * m) + m < 2 * n \<Longrightarrow> 0 < m \<Longrightarrow> c < round_even n m"
proof -
  assume n: "2 * (c * m) + m < 2 * n" and m: "0 < m"
  have "c * m \<le> n" using n m by linarith
  then have c: "c \<le> n div m" using zdiv_mono1 [of "c * m" n m] m by simp
  have "m < 2 * (n mod m)" if "n div m = c"
  proof -
    have "n = m * c + n mod m" using that mult_div_mod_eq [of m n] by simp
    with n show ?thesis by (simp add: mult.commute)
  qed
  with c show ?thesis by (cases "n div m = c") (auto simp: round_even_def Let_def)
qed


lemma bitlen_range:
  assumes "0 < a"
  obtains p where "bitlen a = int p + 1" "2 ^ p \<le> a" "a < 2 ^ (p + 1)"
proof -
  have "1 \<le> bitlen a" using assms by (simp add: bitlen_ge_iff_power)
  then have "bitlen a = int (nat (bitlen a - 1)) + 1" "nat (bitlen a) = nat (bitlen a - 1) + 1" by simp_all
  with bitlen_bounds [OF assms] show thesis by (intro that [of "nat (bitlen a - 1)"]) simp_all
qed

lemma exponent_bounds:
  assumes "0 < a" "0 < b"
  defines "e \<equiv> quotient_exponent a b"
  shows "if 0 \<le> e then b * 2 ^ nat e \<le> a \<and> a < b * 2 ^ (nat e + 1) else a < b"
proof -
  obtain p q where p: "bitlen a = int p + 1" "2 ^ p \<le> a" "a < 2 ^ (p + 1)"
    and q: "bitlen b = int q + 1" "2 ^ q \<le> b" "b < 2 ^ (q + 1)"
    using assms(1,2) by (auto elim!: bitlen_range)
  show ?thesis
  proof (cases "q \<le> p")
    case True
    then obtain n where n: "p = q + n" using le_Suc_ex by blast
    have up: "(2 :: int) ^ (p + 1) \<le> b * 2 ^ (n + 1)" using mult_right_mono [OF q(2), of "2 ^ (n + 1)"] by (simp add: n power_add)
    show ?thesis
    proof (cases "b * 2 ^ n \<le> a")
      case True
      then have "e = int n" by (simp add: e_def quotient_exponent_def p q n)
      with True up p(3) show ?thesis by simp
    next
      case False
      then have e: "e = int n - 1" by (simp add: e_def quotient_exponent_def p q n)
      show ?thesis
      proof (cases n)
        case 0
        with e False show ?thesis by simp
      next
        case (Suc m)
        have "b * 2 ^ m \<le> 2 ^ (q + 1) * 2 ^ m" using q(3) by (intro mult_right_mono) simp_all
        also have "\<dots> = 2 ^ p" by (simp add: n Suc power_add)
        finally show ?thesis using e Suc False p(2) by simp
      qed
    qed
  next
    case False
    then have "a < b" using p(3) q(2) power_increasing [of "p + 1" q "2 :: int"] by simp
    moreover have "e < 0" using False by (auto simp: e_def quotient_exponent_def p q Let_def)
    ultimately show ?thesis by simp
  qed
qed

text \<open>The division stays in range when the dividend does.\<close>

lemma float_ceil_total:
  assumes "0 < a" "a < 2 ^ 1023" "1 \<le> b"
  shows "\<exists>w. float_ceil a b = Inr w"
proof -
  define x where "x = max (quotient_exponent a b - 52) (- 1074)"
  define m where "m = (if 0 \<le> x then round_even a (b * 2 ^ nat x) else round_even (a * 2 ^ nat (- x)) b)"
  have "m * 2 ^ nat x < 2 ^ 1024" if x: "0 \<le> x"
  proof -
    define k where "k = nat x"
    have e: "quotient_exponent a b = int k + 52" using x by (simp add: x_def k_def)
    have b: "0 < b" using assms(3) by simp
    have lo: "b * 2 ^ (k + 52) \<le> a" and up: "a < b * 2 ^ (k + 53)"
      using exponent_bounds [OF assms(1) b] by (simp_all add: e nat_add_distrib add.commute)
    have "a \<le> 2 ^ 53 * (b * 2 ^ k)" using up by (simp add: power_add)
    then have "m \<le> 2 ^ 53" using x b by (simp add: m_def k_def round_even_le)
    then have "m * 2 ^ k \<le> 2 ^ (k + 53)" using mult_right_mono [of m "2 ^ 53" "2 ^ k"] by (simp add: power_add)
    moreover have "(2 :: int) ^ (k + 52) < 2 ^ 1023"
    proof -
      have "1 * (2 :: int) ^ (k + 52) \<le> b * 2 ^ (k + 52)" using assms(3) by (intro mult_right_mono) simp_all
      with lo assms(2) show ?thesis by linarith
    qed
    then have "k + 52 < 1023" by (rule power_less_imp_less_exp [rotated]) simp
    then have "(2 :: int) ^ (k + 53) < 2 ^ 1024" by (intro power_strict_increasing) simp_all
    ultimately show ?thesis by (simp add: k_def)
  qed
  then have "\<not> (0 \<le> x \<and> 2 ^ 1024 \<le> m * 2 ^ nat x)" by (meson not_le)
  then have "float_quotient a b = Inr (m, x)"
    by (simp only: float_quotient_def Let_def x_def [symmetric] m_def [symmetric] if_False)
  then show ?thesis by (simp add: float_ceil_def)
qed

text \<open>Below \<open>2^53\<close> the rounding is never seen: what is left after the maximum with one is the ceiling.\<close>

lemma float_ceil_exact:
  assumes "0 < a" "a < 2 ^ 53" "1 \<le> b" "float_ceil a b = Inr w"
  shows "max 1 w = ceil_div a b"
proof -
  define x where "x = max (quotient_exponent a b - 52) (- 1074)"
  define m where "m = (if 0 \<le> x then round_even a (b * 2 ^ nat x) else round_even (a * 2 ^ nat (- x)) b)"
  define n where "n = ceil_div a b"
  have b: "0 < b" using assms(3) by simp
  have n: "a \<le> n * b" "n * b < a + b" using ceil_div_bounds [OF assms(3), of a] by (simp_all add: n_def)
  have n1: "1 \<le> n"
  proof (rule ccontr)
    assume "\<not> 1 \<le> n"
    then have "n * b \<le> 0" using b by (simp add: mult_le_0_iff)
    with n(1) assms(1) show False by simp
  qed
  have w: "w = (if 0 \<le> x then m * 2 ^ nat x else ceil_div m (2 ^ nat (- x)))"
    using assms(4) by (auto simp: float_ceil_def float_quotient_def Let_def x_def [symmetric] m_def [symmetric] ceil_div_def
        elim!: bind_result_InrE split: if_split_asm)
  note e = exponent_bounds [OF assms(1) b]
  show ?thesis
  proof (cases "0 \<le> x")
    case True
    define k where "k = nat x"
    have "quotient_exponent a b = int k + 52" using True by (simp add: x_def k_def)
    then have "b * 2 ^ (k + 52) \<le> a" using e by (simp add: nat_add_distrib)
    then have "(b * 2 ^ k) * 2 ^ 52 < 2 * 2 ^ 52" using assms(2) by (simp add: power_add)
    then have one: "b * 2 ^ k < 2" by simp
    have ge: "b \<le> b * 2 ^ k" "2 ^ k \<le> b * 2 ^ k" using b by simp_all
    have "b = 1" using one ge(1) b by linarith
    have "(2 :: int) ^ k < 2 ^ 1" using le_less_trans [OF ge(2) one] by simp
    then have "k < 1" by (intro power_less_imp_less_exp [of "2 :: int"]) simp_all
    then show ?thesis using True assms(1) \<open>b = 1\<close>
      by (simp add: w m_def k_def [symmetric] round_even_def ceil_div_def)
  next
    case False
    define k where "k = nat (- x)"
    have m: "m = round_even (a * 2 ^ k) b" using False by (simp add: m_def k_def)
    have "a * 2 ^ k \<le> (n * 2 ^ k) * b" using mult_right_mono [OF n(1), of "2 ^ k"] by (simp add: mult_ac)
    then have up: "m \<le> n * 2 ^ k" using b by (simp add: m round_even_le)
    have cw: "m \<le> w * 2 ^ k" "w * 2 ^ k < m + 2 ^ k"
      using ceil_div_bounds [of "2 ^ k" m] False by (simp_all add: w k_def)
    with up have "w * 2 ^ k < (n + 1) * 2 ^ k" by (simp add: distrib_right)
    then have wn: "w \<le> n" by simp
    show ?thesis
    proof (cases "n = 1")
      case True
      with wn show ?thesis by (simp add: n_def)
    next
      case big: False
      have low: "(n - 1) * b < a" using n(2) by (simp add: left_diff_distrib)
      have "1 * b \<le> (n - 1) * b" using n1 big b by (intro mult_right_mono) simp_all
      with low have "\<not> a < b" by simp
      with e have pos: "0 \<le> quotient_exponent a b" and le: "b * 2 ^ nat (quotient_exponent a b) \<le> a" by (auto split: if_split_asm)
      have k: "nat (quotient_exponent a b) + k = 52" using pos False by (simp add: x_def k_def)
      have "(b * 2 ^ nat (quotient_exponent a b)) * 2 ^ k < 2 ^ 53 * 2 ^ k" using le assms(2) by (intro mult_strict_right_mono) simp_all
      then have "b * 2 ^ 52 < (2 * 2 ^ k) * 2 ^ 52" by (simp add: k power_add [symmetric] mult.assoc)
      then have bk: "b < 2 * 2 ^ k" by simp
      have "2 * ((n - 1) * 2 ^ k * b) + b < 2 * (((n - 1) * b + 1) * 2 ^ k)" using bk by (simp add: algebra_simps)
      also have "\<dots> \<le> 2 * (a * 2 ^ k)" using low by (intro mult_left_mono mult_right_mono) simp_all
      finally have "(n - 1) * 2 ^ k < m" using b by (simp add: m round_even_gt)
      from less_le_trans [OF this cw(1)] have "n - 1 < w" by simp
      with wn n1 show ?thesis by (simp add: n_def)
    qed
  qed
qed

end
