(* ===== verification/Routing.thy ===== *)
theory Routing
  imports Float_Division
begin

text \<open>
  \<^verbatim>\<open>rapido/routing.py\<close>: the closed, deterministic failure routing of the durable control
  path. A route is a frozen twelve-field record whose constructor validates every field; a
  failure signal is classified from private outcomes and then mapped either to containment
  or to one materially changed successor route.

  Fingerprints are \<open>sha256(canonical JSON)\<close>: the digest is the argument \<open>sha\<close> of every
  definition that uses it, so each theorem holds for every digest function.
\<close>

section \<open>Closed vocabularies\<close>

definition FAILURE_KINDS :: "string set" where
  "FAILURE_KINDS = {''board'', ''container'', ''disagreement'', ''policy'', ''provenance'',
     ''quota'', ''timeout'', ''tool''}"

definition FAILURE_ORIGINS :: "string set" where
  "FAILURE_ORIGINS = {''board'', ''container''}"

definition ROLES :: "string set" where
  "ROLES = {''recovery'', ''specialist'', ''verifier''}"

definition POLICY_FAILURES :: "string set" where
  "POLICY_FAILURES = {''cyber_policy'', ''misalignment_policy_violation''}"

definition PROVENANCE_FAILURES :: "string set" where
  "PROVENANCE_FAILURES = {''candidate_provenance''}"

definition TIMEOUT_FAILURES :: "string set" where
  "TIMEOUT_FAILURES = {''timeout''}"

definition QUOTA_FAILURES :: "string set" where
  "QUOTA_FAILURES = {''rate_limit_exceeded'', ''response_too_many_failed_attempts'',
     ''server_overloaded'', ''session_budget_exceeded'', ''usage_limit_exceeded''}"

definition CONTAINER_FAILURES :: "string set" where
  "CONTAINER_FAILURES = {''native_runtime'', ''operating_system'', ''process_restart''}"

definition ROUTABLE_TOOL_FAILURES :: "string set" where
  "ROUTABLE_TOOL_FAILURES = {''active_turn_not_steerable'', ''bad_request'',
     ''context_window_exceeded'', ''invalid_value'', ''no_progress'',
     ''response_stream_connection_failed'', ''response_stream_disconnected'',
     ''sandbox_error'', ''solver_output'', ''thread_rollback_failed''}"

definition UNSAFE_NATIVE_FAILURES :: "string set" where
  "UNSAFE_NATIVE_FAILURES = {''cancelled'', ''http_connection_failed'',
     ''internal_server_error'', ''interrupted'', ''other'', ''unauthorized'', ''unknown''}"

definition KNOWN_FAILURE_CLASSES :: "string set" where
  "KNOWN_FAILURE_CLASSES = POLICY_FAILURES \<union> PROVENANCE_FAILURES \<union> TIMEOUT_FAILURES
     \<union> QUOTA_FAILURES \<union> CONTAINER_FAILURES \<union> ROUTABLE_TOOL_FAILURES \<union> UNSAFE_NATIVE_FAILURES"

definition ROUTE_FIELDS :: "string list" where
  "ROUTE_FIELDS = [''role'', ''tactic'', ''context_profile'', ''tool_policy'',
     ''verification_recipe'', ''backoff_policy'', ''attempt_seconds'', ''deadline_policy'',
     ''effect_policy'', ''model'', ''effort'', ''workspace_generation'']"

definition ROUTE_AXES :: "string set" where
  "ROUTE_AXES = set ROUTE_FIELDS"

definition MIN_MEANINGFUL_ATTEMPT_SECONDS :: int where
  "MIN_MEANINGFUL_ATTEMPT_SECONDS = 600"

definition ADAPTIVE_ATTEMPT_CAP_SECONDS :: int where
  "ADAPTIVE_ATTEMPT_CAP_SECONDS = 1800"

definition RUN_CLEANUP_GUARD_SECONDS :: int where
  "RUN_CLEANUP_GUARD_SECONDS = 60"

lemmas budget_constants =
  MIN_MEANINGFUL_ATTEMPT_SECONDS_def ADAPTIVE_ATTEMPT_CAP_SECONDS_def RUN_CLEANUP_GUARD_SECONDS_def

lemmas failure_vocabulary =
  POLICY_FAILURES_def PROVENANCE_FAILURES_def TIMEOUT_FAILURES_def QUOTA_FAILURES_def
  CONTAINER_FAILURES_def ROUTABLE_TOOL_FAILURES_def UNSAFE_NATIVE_FAILURES_def

section \<open>Routes\<close>

text \<open>The text guard shared by every string field: at most 100 code points, no control
  character and no brace, so a flag-shaped candidate cannot hide in a route.\<close>

definition bounded_text :: "string \<Rightarrow> bool" where
  "bounded_text s \<longleftrightarrow>
     s \<noteq> [] \<and> length s \<le> 100 \<and> (\<forall>c \<in> set s. 32 \<le> (of_char c :: nat))
     \<and> CHR ''{'' \<notin> set s \<and> CHR ''}'' \<notin> set s"

definition bounded :: "pyval \<Rightarrow> string \<Rightarrow> string result" where
  "bounded v field =
     (case v of
        PStr s \<Rightarrow> if bounded_text s then Inr s
                  else Inl (ValueError (''route '' @ field @ '' is invalid''))
      | _ \<Rightarrow> Inl (ValueError (''route '' @ field @ '' is invalid'')))"

record route_spec =
  role :: string
  route_tactic :: string
  context_profile :: string
  tool_policy :: string
  verification_recipe :: string
  backoff_policy :: string
  attempt_seconds :: int
  deadline_policy :: string
  effect_policy :: string
  model :: string
  effort :: string
  workspace_generation :: int

definition route_dict :: "route_spec \<Rightarrow> (string \<times> pyval) list" where
  "route_dict r =
     [(''role'', PStr (role r)), (''tactic'', PStr (route_tactic r)),
      (''context_profile'', PStr (context_profile r)), (''tool_policy'', PStr (tool_policy r)),
      (''verification_recipe'', PStr (verification_recipe r)),
      (''backoff_policy'', PStr (backoff_policy r)),
      (''attempt_seconds'', PInt (attempt_seconds r)),
      (''deadline_policy'', PStr (deadline_policy r)),
      (''effect_policy'', PStr (effect_policy r)), (''model'', PStr (model r)),
      (''effort'', PStr (effort r)), (''workspace_generation'', PInt (workspace_generation r))]"

text \<open>\<open>__post_init__\<close> on the attribute values \<open>g\<close>: the role is checked first (an
  unhashable role raises \<open>TypeError\<close>), then the string fields in field order, then the two
  integers. The result is the constructed record.\<close>

definition str_of :: "pyval \<Rightarrow> string" where
  "str_of v = (case v of PStr s \<Rightarrow> s | _ \<Rightarrow> [])"

definition int_of :: "pyval \<Rightarrow> int" where
  "int_of v = (case v of PInt i \<Rightarrow> i | _ \<Rightarrow> 0)"

definition int_in_range :: "pyval \<Rightarrow> int \<Rightarrow> int \<Rightarrow> bool" where
  "int_in_range v lo hi = (case v of PInt i \<Rightarrow> lo \<le> i \<and> i \<le> hi | _ \<Rightarrow> False)"

definition route_role_check :: "pyval \<Rightarrow> unit result" where
  "route_role_check v =
     (case v of
        PStr s \<Rightarrow> ensure (s \<in> ROLES) (ValueError ''route role is invalid'')
      | PList _ \<Rightarrow> Inl (TypeError ''unhashable type'')
      | PDict _ \<Rightarrow> Inl (TypeError ''unhashable type'')
      | _ \<Rightarrow> Inl (ValueError ''route role is invalid''))"

definition route_post_init :: "(string \<Rightarrow> pyval) \<Rightarrow> route_spec result" where
  "route_post_init g =
     bind_result (route_role_check (g ''role'')) (\<lambda>_.
     bind_result (traverse (\<lambda>f. bounded (g f) f)
        (filter (\<lambda>f. f \<notin> {''attempt_seconds'', ''workspace_generation''}) ROUTE_FIELDS)) (\<lambda>_.
     bind_result (ensure (int_in_range (g ''attempt_seconds'') 1 19800)
        (ValueError ''route attempt_seconds is invalid'')) (\<lambda>_.
     bind_result (ensure (int_in_range (g ''workspace_generation'') 0 10000)
        (ValueError ''route workspace_generation is invalid'')) (\<lambda>_.
     Inr \<lparr>role = str_of (g ''role''), route_tactic = str_of (g ''tactic''),
          context_profile = str_of (g ''context_profile''), tool_policy = str_of (g ''tool_policy''),
          verification_recipe = str_of (g ''verification_recipe''),
          backoff_policy = str_of (g ''backoff_policy''),
          attempt_seconds = int_of (g ''attempt_seconds''),
          deadline_policy = str_of (g ''deadline_policy''),
          effect_policy = str_of (g ''effect_policy''), model = str_of (g ''model''),
          effort = str_of (g ''effort''),
          workspace_generation = int_of (g ''workspace_generation'')\<rparr>))))"

definition route_from_dict :: "pyval \<Rightarrow> route_spec result" where
  "route_from_dict v =
     (case v of
        PDict d \<Rightarrow> if keys_are d (set ROUTE_FIELDS) then route_post_init (dict_get d)
                   else Inl (ValueError ''durable route has an invalid shape'')
      | _ \<Rightarrow> Inl (ValueError ''durable route has an invalid shape''))"

definition route_as_dict :: "route_spec \<Rightarrow> pyval" where
  "route_as_dict r = PDict (route_dict r)"

text \<open>\<open>dataclasses.replace\<close> constructs a new instance, so the constructor's checks run again
  on the changed record.\<close>

definition construct_route :: "route_spec \<Rightarrow> route_spec result" where
  "construct_route r = route_post_init (dict_get (route_dict r))"

definition route_json :: "route_spec \<Rightarrow> string" where
  "route_json r = json_dumps (route_as_dict r)"

definition fingerprint :: "digest_fn \<Rightarrow> route_spec \<Rightarrow> string" where
  "fingerprint sha r = sha (route_json r)"

definition changed_axes :: "route_spec \<Rightarrow> route_spec \<Rightarrow> string list" where
  "changed_axes r s =
     filter (\<lambda>f. dict_get (route_dict r) f \<noteq> dict_get (route_dict s) f) ROUTE_FIELDS"

definition route_valid :: "route_spec \<Rightarrow> bool" where
  "route_valid r \<longleftrightarrow>
     role r \<in> ROLES \<and> bounded_text (route_tactic r) \<and> bounded_text (context_profile r)
     \<and> bounded_text (tool_policy r) \<and> bounded_text (verification_recipe r)
     \<and> bounded_text (backoff_policy r) \<and> bounded_text (deadline_policy r)
     \<and> bounded_text (effect_policy r) \<and> bounded_text (model r) \<and> bounded_text (effort r)
     \<and> 1 \<le> attempt_seconds r \<and> attempt_seconds r \<le> 19800
     \<and> 0 \<le> workspace_generation r \<and> workspace_generation r \<le> 10000"

definition baseline_route :: "string \<Rightarrow> string \<Rightarrow> int \<Rightarrow> int \<Rightarrow> route_spec result" where
  "baseline_route mdl eff secs gen =
     construct_route
       \<lparr>role = ''specialist'', route_tactic = ''baseline'',
        context_profile = ''fresh_lane_with_typed_same_run_history'',
        tool_policy = ''bounded_registry'', verification_recipe = ''none'',
        backoff_policy = ''none'', attempt_seconds = secs,
        deadline_policy = ''minimum_of_attempt_and_run_deadline'',
        effect_policy = ''controller_only'', model = mdl, effort = eff,
        workspace_generation = gen\<rparr>"

section \<open>Attempt budgets and derived routes\<close>

definition adaptive_attempt_seconds :: "int \<Rightarrow> int \<Rightarrow> int \<Rightarrow> int \<Rightarrow> int result" where
  "adaptive_attempt_seconds configured remaining_ms unresolved parallel =
     (if \<not> (1 \<le> configured \<and> configured \<le> 19800) \<or> remaining_ms < 0 \<or> unresolved < 0
         \<or> parallel < 1
      then Inl (ValueError ''adaptive attempt budget input is invalid'')
      else if unresolved = 0 then Inr configured
      else
        bind_result (float_ceil unresolved parallel) (\<lambda>lanes.
        let usable = max 1 (remaining_ms div 1000 - RUN_CLEANUP_GUARD_SECONDS);
            waves = max 1 lanes;
            fair = max 1 (usable div waves)
        in if fair < MIN_MEANINGFUL_ATTEMPT_SECONDS then Inr configured
           else Inr (min (max configured ADAPTIVE_ATTEMPT_CAP_SECONDS) (max configured fair))))"

definition instance_follow_on_route :: "route_spec \<Rightarrow> route_spec result" where
  "instance_follow_on_route current =
     construct_route
       (current\<lparr>role := ''recovery'',
          route_tactic := take 100 (''instance_enabled_follow_on_'' @ route_tactic current),
          context_profile := ''typed_local_history_with_fresh_target'',
          tool_policy := ''bounded_registry_with_assigned_target'',
          verification_recipe := ''source_reobservation_after_local_analysis'',
          workspace_generation := workspace_generation current + 1\<rparr>)"

definition CONTINUATION_PERSPECTIVES :: "string list" where
  "CONTINUATION_PERSPECTIVES =
     [''independent_reconstruction'', ''input_to_output_dataflow'', ''output_to_input_reversal'',
      ''assumption_falsification'', ''minimal_reproducer'', ''state_machine_reconstruction'',
      ''format_and_parser_audit'', ''peer_hypothesis_counterexample'']"

definition CONTINUATION_METHODS :: "string list" where
  "CONTINUATION_METHODS =
     [''alternate_toolchain'', ''constrained_enumeration'', ''differential_experiment'',
      ''manual_derivation'']"

definition continuation_strategy :: "int \<Rightarrow> string" where
  "continuation_strategy episode =
     (let i = nat (episode - 1);
          perspective = CONTINUATION_PERSPECTIVES ! (i mod length CONTINUATION_PERSPECTIVES);
          approach = CONTINUATION_METHODS !
            ((i div length CONTINUATION_PERSPECTIVES) mod length CONTINUATION_METHODS)
      in perspective @ ''_via_'' @ approach)"

definition continued_solve_route :: "route_spec \<Rightarrow> int \<Rightarrow> int \<Rightarrow> route_spec result" where
  "continued_solve_route current episode secs =
     (if episode < 1 then Inl (ValueError ''continuation episode is invalid'')
      else if \<not> (1 \<le> secs \<and> secs \<le> 19800)
      then Inl (ValueError ''continuation attempt budget is invalid'')
      else construct_route
        (current\<lparr>role := ''recovery'', route_tactic := continuation_strategy episode,
           context_profile := ''semantic_memory_carried_artifacts_and_rejection_ledger'',
           verification_recipe := ''none'', backoff_policy := ''none'', attempt_seconds := secs,
           workspace_generation := workspace_generation current + 1\<rparr>))"

section \<open>Classification\<close>

record failure_signal =
  kind :: string
  subreason :: string

definition construct_signal :: "string \<Rightarrow> string \<Rightarrow> failure_signal result" where
  "construct_signal k s =
     (if k \<notin> FAILURE_KINDS then Inl (ValueError ''failure kind is invalid'')
      else bind_result (bounded (PStr s) ''failure subreason'') (\<lambda>_. Inr \<lparr>kind = k, subreason = s\<rparr>))"

definition FAILURE_GROUPS :: "(string \<times> string set) list" where
  "FAILURE_GROUPS =
     [(''policy'', POLICY_FAILURES), (''provenance'', PROVENANCE_FAILURES),
      (''timeout'', TIMEOUT_FAILURES), (''quota'', QUOTA_FAILURES),
      (''tool'', UNSAFE_NATIVE_FAILURES), (''tool'', ROUTABLE_TOOL_FAILURES),
      (''container'', CONTAINER_FAILURES)]"

text \<open>The first group that meets the classes wins; inside it the least name does.\<close>

fun first_group :: "(string \<times> string set) list \<Rightarrow> string set \<Rightarrow> (string \<times> string) option" where
  "first_group [] classes = None"
| "first_group ((k, members) # groups) classes =
     (case sorted_list_of_set (classes \<inter> members) of
        m # _ \<Rightarrow> Some (k, m)
      | [] \<Rightarrow> first_group groups classes)"

definition classify_failure ::
  "string \<Rightarrow> string option \<Rightarrow> string set \<Rightarrow> int \<Rightarrow> int \<Rightarrow> failure_signal option result" where
  "classify_failure terminal origin classes candidates attempts =
     (if \<not> classes \<subseteq> KNOWN_FAILURE_CLASSES
      then Inl (ValueError ''unrecognized durable failure class'')
      else if origin \<noteq> None \<and> the origin \<notin> FAILURE_ORIGINS
      then Inl (ValueError ''failure origin is invalid'')
      else if terminal = ''error'' \<and> origin \<noteq> None
      then bind_result (construct_signal (the origin) (the origin @ ''_catch_boundary_failure''))
             (\<lambda>s. Inr (Some s))
      else if terminal = ''solved'' \<or> (terminal = ''candidate'' \<and> candidates = 0) then Inr None
      else if candidates > 0
      then bind_result (construct_signal ''disagreement''
             (if candidates > 1 then ''distinct_source_candidates''
              else ''retained_candidate_requires_verification'')) (\<lambda>s. Inr (Some s))
      else case first_group FAILURE_GROUPS classes of
          Some (k, m) \<Rightarrow> bind_result (construct_signal k m) (\<lambda>s. Inr (Some s))
        | None \<Rightarrow>
            if terminal = ''error'' \<and> attempts = 0
            then bind_result (construct_signal ''container'' ''unclassified_pre_lane_failure'')
                   (\<lambda>s. Inr (Some s))
            else if terminal = ''unsolved'' \<and> attempts > 0
            then bind_result (construct_signal ''tool'' ''stalled_without_candidate'')
                   (\<lambda>s. Inr (Some s))
            else Inr None)"

section \<open>Routing\<close>

record route_request =
  failure :: failure_signal
  current :: route_spec
  used_fingerprints :: "string set"
  attempts_remaining :: bool
  remaining_milliseconds :: int
  effects_safe :: bool
  instances_safe :: bool
  durable_observation_count :: int
  timeout_recovery_used :: bool
  unresolved_challenge_count :: int
  parallel_challenge_count :: int

datatype disposition = Contain | Dispatch

record route_decision =
  disposition :: disposition
  rule_id :: string
  decision_failure :: failure_signal
  source_fingerprint :: string
  successor :: "route_spec option"
  decision_axes :: "string list"
  reason :: string

definition terminal_decision ::
  "digest_fn \<Rightarrow> route_request \<Rightarrow> string \<Rightarrow> string \<Rightarrow> route_decision" where
  "terminal_decision sha req rule why =
     \<lparr>disposition = Contain, rule_id = rule, decision_failure = failure req,
      source_fingerprint = fingerprint sha (current req), successor = None,
      decision_axes = [], reason = why\<rparr>"

text \<open>What the body has established when it reaches the final checks: an early return, or a
  rule with its constructed successor.\<close>

datatype proposal = Terminal string string | Proposed string route_spec

definition propose :: "string \<Rightarrow> route_spec result \<Rightarrow> proposal result" where
  "propose rule r = bind_result r (\<lambda>s. Inr (Proposed rule s))"

definition propose_disagreement :: "route_request \<Rightarrow> proposal result" where
  "propose_disagreement req =
     (let sub = subreason (failure req); cur = current req in
      if sub \<notin> {''board_rejected_candidate'', ''distinct_source_candidates'',
                 ''retained_candidate_requires_verification''}
      then Inr (Terminal ''disagreement_verifier_unavailable''
             ''no durable private candidate fact authorizes verifier dispatch'')
      else if sub = ''board_rejected_candidate''
      then propose ''board_rejection_recovery_v1'' (construct_route
             (cur\<lparr>role := ''recovery'', route_tactic := ''alternate_candidate_after_board_rejection'',
                context_profile := ''typed_facts_without_rejected_candidate'',
                workspace_generation := workspace_generation cur + 1\<rparr>))
      else if role cur = ''verifier''
      then propose ''verifier_mismatch_recovery_v1'' (construct_route
             (cur\<lparr>role := ''recovery'', route_tactic := ''alternate_candidate_after_verifier_mismatch'',
                context_profile := ''typed_facts_without_unverified_candidate'',
                verification_recipe := ''none'',
                workspace_generation := workspace_generation cur + 1\<rparr>))
      else propose ''private_source_reobservation_v1'' (construct_route
             (cur\<lparr>role := ''verifier'', route_tactic := ''independent_source_reobservation'',
                context_profile := ''fresh_source_only_no_candidate_carry'',
                verification_recipe := ''fresh_source_reobservation_v1''\<rparr>)))"

definition propose_timeout :: "route_request \<Rightarrow> proposal result" where
  "propose_timeout req =
     (let cur = current req in
      if durable_observation_count req = 0
      then Inr (Terminal ''timeout_without_checkpoint''
             ''no committed and restorable checkpoint fact exists'')
      else if \<not> effects_safe req \<or> \<not> instances_safe req
      then Inr (Terminal ''timeout_effect_fenced''
             ''pending effects or instances prevent timeout recovery'')
      else if role cur = ''verifier''
      then Inr (Terminal ''verifier_timeout_unresolved''
             ''a verifier timeout cannot authorize a solving route'')
      else if timeout_recovery_used req \<or> route_tactic cur = ''typed_timeout_recovery''
      then Inr (Terminal ''timeout_recovery_exhausted''
             ''the evidence-earned timeout recovery was already attempted'')
      else if remaining_milliseconds req
                < (MIN_MEANINGFUL_ATTEMPT_SECONDS + RUN_CLEANUP_GUARD_SECONDS) * 1000
      then Inr (Terminal ''timeout_recovery_below_meaningful_budget''
             ''too little run time remains for a productive recovery'')
      else bind_result
             (adaptive_attempt_seconds (attempt_seconds cur) (remaining_milliseconds req)
                (unresolved_challenge_count req) (parallel_challenge_count req)) (\<lambda>secs.
           propose ''typed_timeout_recovery_v1'' (construct_route
             (cur\<lparr>role := ''recovery'', route_tactic := ''typed_timeout_recovery'',
                context_profile := ''durable_timeout_facts_with_changed_strategy'',
                attempt_seconds := secs,
                workspace_generation := workspace_generation cur + 1\<rparr>))))"

definition propose_quota :: "route_request \<Rightarrow> proposal result" where
  "propose_quota req =
     (if remaining_milliseconds req < 61000
      then Inr (Terminal ''quota_wait_exceeds_run_deadline''
             ''the bounded quota wait cannot fit inside the original run deadline'')
      else propose ''quota_bounded_wait_v1'' (construct_route
             ((current req)\<lparr>route_tactic := ''resume_after_quota_backoff'',
                backoff_policy := ''bounded_60_seconds''\<rparr>)))"

definition propose_tool :: "route_request \<Rightarrow> proposal result" where
  "propose_tool req =
     (let sub = subreason (failure req); cur = current req in
      if sub \<in> UNSAFE_NATIVE_FAILURES
      then Inr (Terminal ''tool_unsafe_native_failure''
             ''authorization or unclassified provider failure is not retryable'')
      else if sub = ''stalled_without_candidate''
      then propose ''typed_peer_recovery_v1'' (construct_route
             (cur\<lparr>role := ''recovery'', route_tactic := ''typed_peer_recovery'',
                context_profile := ''durable_facts_only'',
                workspace_generation := workspace_generation cur + 1\<rparr>))
      else propose ''tool_alternate_representation_v1'' (construct_route
             (cur\<lparr>route_tactic := ''alternate_representation'',
                context_profile := ''fresh_without_failed_tool_assumption''\<rparr>)))"

definition propose_container :: "route_request \<Rightarrow> proposal result" where
  "propose_container req =
     (let sub = subreason (failure req); cur = current req in
      if sub = ''unclassified_pre_lane_failure''
      then Inr (Terminal ''container_origin_unknown''
             ''no typed catch-boundary origin proves a local recovery route'')
      else if \<not> effects_safe req \<or> \<not> instances_safe req
      then Inr (Terminal ''container_effect_fenced''
             ''pending effects or instances prevent recovery dispatch'')
      else propose ''container_fresh_workspace_v1'' (construct_route
             (cur\<lparr>role := ''recovery'', route_tactic := ''fresh_workspace_recovery'',
                context_profile := ''durable_facts_only'',
                workspace_generation :=
                  (if sub = ''process_restart'' then workspace_generation cur + 1 else 1)\<rparr>)))"

definition propose_route :: "route_request \<Rightarrow> proposal result" where
  "propose_route req =
     (let k = kind (failure req) in
      if k = ''policy''
      then Inr (Terminal ''policy_unapproved'' ''no validated authorized route fact exists'')
      else if k = ''provenance''
      then Inr (Terminal ''provenance_rejected''
             ''unproven candidate material cannot enter the private verifier path'')
      else if k = ''disagreement'' then propose_disagreement req
      else if k = ''timeout'' then propose_timeout req
      else if k = ''quota'' then propose_quota req
      else if k = ''board''
      then Inr (Terminal ''board_contract_unapproved''
             ''no validated mutation-safe Board route fact exists'')
      else if k = ''tool'' then propose_tool req
      else if k = ''container'' then propose_container req
      else Inl (AssertionError ''unreachable failure kind''))"

definition settle_route ::
  "digest_fn \<Rightarrow> route_request \<Rightarrow> string \<Rightarrow> route_spec \<Rightarrow> route_decision result" where
  "settle_route sha req rule succ =
     (let cur = current req; axes = changed_axes cur succ in
      if model succ \<noteq> model cur \<or> effort succ \<noteq> effort cur
      then Inl (ValueError ''routing cannot change exact model or effort'')
      else if effect_policy succ \<noteq> effect_policy cur
      then Inl (ValueError ''routing cannot change effect authority'')
      else if axes = [] \<or> fingerprint sha succ = fingerprint sha cur
      then Inr (terminal_decision sha req ''no_changed_route''
             ''proposed route changed no material axis'')
      else if fingerprint sha succ \<in> used_fingerprints req
      then Inr (terminal_decision sha req ''duplicate_route'' ''proposed route was already admitted'')
      else if remaining_milliseconds req < 1000
      then Inr (terminal_decision sha req ''run_deadline'' ''insufficient run time remains'')
      else Inr \<lparr>disposition = Dispatch, rule_id = rule, decision_failure = failure req,
                source_fingerprint = fingerprint sha cur, successor = Some succ,
                decision_axes = axes, reason = ''sanctioned material route change''\<rparr>)"

definition request_check :: "route_request \<Rightarrow> unit result" where
  "request_check req =
     (if remaining_milliseconds req < 0 then Inl (ValueError ''remaining_milliseconds is invalid'')
      else if durable_observation_count req < 0
      then Inl (ValueError ''durable_observation_count is invalid'')
      else if unresolved_challenge_count req < 0 \<or> parallel_challenge_count req < 1
      then Inl (ValueError ''challenge budget state is invalid'')
      else Inr ())"

definition route_failure :: "digest_fn \<Rightarrow> route_request \<Rightarrow> route_decision result" where
  "route_failure sha req =
     bind_result (request_check req) (\<lambda>_.
       if \<not> attempts_remaining req
       then Inr (terminal_decision sha req ''route_budget_exhausted'' ''no successor episode remains'')
       else bind_result (propose_route req) (\<lambda>p.
         case p of
           Terminal rule why \<Rightarrow> Inr (terminal_decision sha req rule why)
         | Proposed rule succ \<Rightarrow> settle_route sha req rule succ))"

lemmas propose_defs =
  propose_disagreement_def propose_timeout_def propose_quota_def propose_tool_def
  propose_container_def propose_route_def propose_def

section \<open>Lemmas on routes\<close>

lemma bounded_Inr_iff [simp]:
  "bounded v f = Inr s \<longleftrightarrow> v = PStr s \<and> bounded_text s"
  by (auto simp: bounded_def split: pyval.splits)

lemma bounded_PStr [simp]:
  "bounded (PStr s) f = (if bounded_text s then Inr s else Inl (ValueError (''route '' @ f @ '' is invalid'')))"
  by (simp add: bounded_def)

lemma string_fields:
  "filter (\<lambda>f. f \<notin> {''attempt_seconds'', ''workspace_generation''}) ROUTE_FIELDS =
     [''role'', ''tactic'', ''context_profile'', ''tool_policy'', ''verification_recipe'',
      ''backoff_policy'', ''deadline_policy'', ''effect_policy'', ''model'', ''effort'']"
  by (simp add: ROUTE_FIELDS_def)

lemma roles_bounded: "s \<in> ROLES \<Longrightarrow> bounded_text s"
  by (auto simp: ROLES_def bounded_text_def)

lemma route_role_check_Inr_iff:
  "route_role_check v = Inr u \<longleftrightarrow> (\<exists>s. v = PStr s \<and> s \<in> ROLES)"
  by (auto simp: route_role_check_def split: pyval.splits)

lemma int_in_range_iff: "int_in_range v lo hi \<longleftrightarrow> (\<exists>i. v = PInt i \<and> lo \<le> i \<and> i \<le> hi)"
  by (auto simp: int_in_range_def split: pyval.splits)

lemma route_post_init_valid: "route_post_init g = Inr r \<Longrightarrow> route_valid r"
  unfolding route_post_init_def string_fields
  by (clarsimp simp: bind_result_Inr_iff route_role_check_Inr_iff traverse_Cons_Inr_iff
      int_in_range_iff route_valid_def str_of_def int_of_def simp del: traverse.simps(2))

lemma route_post_init_dict:
  "route_valid r \<Longrightarrow> route_post_init (dict_get (route_dict r)) = Inr r"
  unfolding route_post_init_def string_fields
  by (simp add: route_dict_def route_valid_def route_role_check_def roles_bounded int_in_range_def
      str_of_def int_of_def)

lemma construct_route_Inr_iff [simp]: "construct_route r = Inr s \<longleftrightarrow> route_valid r \<and> s = r"
proof
  assume "construct_route r = Inr s"
  then have "route_post_init (dict_get (route_dict r)) = Inr s" by (simp add: construct_route_def)
  then have "s = r"
    unfolding route_post_init_def string_fields
    by (auto simp: bind_result_Inr_iff route_dict_def str_of_def int_of_def)
  moreover have "route_valid s"
    using \<open>construct_route r = Inr s\<close> route_post_init_valid by (simp add: construct_route_def)
  ultimately show "route_valid r \<and> s = r" by simp
next
  assume "route_valid r \<and> s = r"
  then show "construct_route r = Inr s" by (simp add: construct_route_def route_post_init_dict)
qed

lemma keys_route_dict: "keys_are (route_dict r) (set ROUTE_FIELDS)"
  by (simp add: keys_are_def route_dict_def ROUTE_FIELDS_def)

interpretation route_doc: document_codec route_as_dict route_from_dict route_valid
proof unfold_locales
  fix r
  assume "route_valid r"
  then show "route_from_dict (route_as_dict r) = Inr r"
    by (simp add: route_from_dict_def route_as_dict_def keys_route_dict route_post_init_dict)
next
  fix v r
  assume "route_from_dict v = Inr r"
  then show "route_valid r"
    by (auto simp: route_from_dict_def route_post_init_valid split: pyval.splits if_splits)
qed

lemma route_eq_iff: "r = s \<longleftrightarrow> (\<forall>f \<in> set ROUTE_FIELDS. dict_get (route_dict r) f = dict_get (route_dict s) f)"
  by (cases r; cases s) (auto simp: ROUTE_FIELDS_def route_dict_def)

lemma changed_axes_Nil_iff: "changed_axes r s = [] \<longleftrightarrow> r = s"
  unfolding route_eq_iff [of r s] by (simp add: changed_axes_def filter_empty_conv)

lemma set_changed_axes: "set (changed_axes r s) \<subseteq> ROUTE_AXES"
  by (auto simp: changed_axes_def ROUTE_AXES_def)

definition json_member :: "string \<Rightarrow> string \<Rightarrow> string" where
  "json_member k v = CHR '','' # json_string k @ CHR '':'' # json_string v"

definition route_json_tail :: "route_spec \<Rightarrow> string" where
  "route_json_tail r =
     json_string ''backoff_policy'' @ CHR '':'' # json_string (backoff_policy r)
     @ json_member ''context_profile'' (context_profile r)
     @ json_member ''deadline_policy'' (deadline_policy r)
     @ json_member ''effect_policy'' (effect_policy r)
     @ json_member ''effort'' (effort r) @ json_member ''model'' (model r)
     @ json_member ''role'' (role r) @ json_member ''tactic'' (route_tactic r)
     @ json_member ''tool_policy'' (tool_policy r)
     @ json_member ''verification_recipe'' (verification_recipe r)
     @ CHR '','' # json_string ''workspace_generation'' @ CHR '':''
     # show_int (workspace_generation r) @ [CHR ''}'']"

lemma route_json_text:
  "route_json r = CHR ''{'' # json_string ''attempt_seconds'' @ CHR '':''
     # show_int (attempt_seconds r) @ CHR '','' # route_json_tail r"
  by (simp add: route_json_def route_as_dict_def route_dict_def join_def sort_key_def
      route_json_tail_def json_member_def)

lemma json_member_append_inject:
  "json_member k v @ xs = json_member k w @ ys \<longleftrightarrow> v = w \<and> xs = ys"
  by (simp add: json_member_def)

lemma route_json_inject:
  assumes "route_json r = route_json s"
  shows "r = s"
proof -
  have comma: "\<not> num_char (CHR '','')" by (simp add: num_char_def is_digit_def)
  from assms have "show_int (attempt_seconds r) @ CHR '','' # route_json_tail r =
      show_int (attempt_seconds s) @ CHR '','' # route_json_tail s"
    by (simp only: route_json_text list.inject append_same_eq same_append_eq simp_thms)
  then have "attempt_seconds r = attempt_seconds s"
    and tail: "route_json_tail r = route_json_tail s"
    using show_int_append_inject [OF _ comma comma] by blast+
  from tail have "backoff_policy r = backoff_policy s \<and> context_profile r = context_profile s
      \<and> deadline_policy r = deadline_policy s \<and> effect_policy r = effect_policy s
      \<and> effort r = effort s \<and> model r = model s \<and> role r = role s \<and> route_tactic r = route_tactic s
      \<and> tool_policy r = tool_policy s \<and> verification_recipe r = verification_recipe s
      \<and> workspace_generation r = workspace_generation s"
    by (simp only: route_json_tail_def append_assoc append_Cons json_member_append_inject
        json_string_append_inject list.inject append_same_eq same_append_eq show_int_inject simp_thms)
  with \<open>attempt_seconds r = attempt_seconds s\<close> show ?thesis
    by (simp add: route_spec.equality)
qed

interpretation route_text: canonical_text route_json
  by unfold_locales (rule route_json_inject)

lemma propose_Inr_iff [simp]:
  "propose rule r = Inr p \<longleftrightarrow> (\<exists>s. r = Inr s \<and> p = Proposed rule s)"
  by (auto simp: propose_def bind_result_Inr_iff)

text \<open>What every proposed successor keeps from the current route.\<close>

definition same_authority :: "route_spec \<Rightarrow> route_spec \<Rightarrow> bool" where
  "same_authority r s \<longleftrightarrow>
     model s = model r \<and> effort s = effort r \<and> effect_policy s = effect_policy r
     \<and> tool_policy s = tool_policy r \<and> deadline_policy s = deadline_policy r"

lemma propose_route_Proposed:
  assumes "propose_route req = Inr (Proposed rule s)"
  shows "route_valid s \<and> same_authority (current req) s
    \<and> kind (failure req) \<in> {''disagreement'', ''timeout'', ''quota'', ''tool'', ''container''}"
  using assms
  by (auto simp: propose_route_def propose_disagreement_def propose_timeout_def propose_quota_def
      propose_tool_def propose_container_def Let_def same_authority_def bind_result_Inr_iff
      split: if_splits)

lemma route_failure_cases:
  assumes "route_failure sha req = Inr d"
  obtains (contained) rule why where "d = terminal_decision sha req rule why"
  | (proposed) rule s where "attempts_remaining req" "propose_route req = Inr (Proposed rule s)"
      "settle_route sha req rule s = Inr d"
proof (cases "attempts_remaining req")
  case False
  with assms contained show ?thesis by (auto simp: route_failure_def bind_result_Inr_iff)
next
  case True
  with assms obtain p where p: "propose_route req = Inr p"
    "(case p of Terminal rule why \<Rightarrow> Inr (terminal_decision sha req rule why)
      | Proposed rule succ \<Rightarrow> settle_route sha req rule succ) = Inr d"
    by (auto simp: route_failure_def bind_result_Inr_iff)
  show ?thesis
  proof (cases p)
    case (Terminal rule why)
    with p(2) have "d = terminal_decision sha req rule why" by simp
    then show ?thesis by (rule contained)
  next
    case (Proposed rule s)
    with p True proposed show ?thesis by simp
  qed
qed

lemma settle_route_Dispatch:
  assumes "settle_route sha req rule s = Inr d" "disposition d = Dispatch"
  shows "successor d = Some s \<and> rule_id d = rule \<and> decision_axes d = changed_axes (current req) s
    \<and> source_fingerprint d = fingerprint sha (current req)
    \<and> changed_axes (current req) s \<noteq> [] \<and> fingerprint sha s \<noteq> fingerprint sha (current req)
    \<and> fingerprint sha s \<notin> used_fingerprints req \<and> 1000 \<le> remaining_milliseconds req"
  using assms by (auto simp: settle_route_def Let_def terminal_decision_def split: if_splits)

lemma dispatch_origin:
  assumes "route_failure sha req = Inr d" "disposition d = Dispatch"
  obtains s where "attempts_remaining req" "propose_route req = Inr (Proposed (rule_id d) s)"
    "settle_route sha req (rule_id d) s = Inr d" "successor d = Some s"
  using assms
proof (cases rule: route_failure_cases [OF assms(1)])
  case (1 rule why)
  with assms(2) show ?thesis by (simp add: terminal_decision_def)
next
  case (2 rule s)
  with settle_route_Dispatch [OF 2(3) assms(2)] that show ?thesis by auto
qed

section \<open>Lemmas on budgets, classification and proposals\<close>

lemma adaptive_bounds:
  assumes "adaptive_attempt_seconds configured ms unresolved parallel = Inr r"
  shows "configured \<le> r \<and> r \<le> max configured ADAPTIVE_ATTEMPT_CAP_SECONDS \<and> 1 \<le> r \<and> r \<le> 19800
    \<and> (configured < r \<longrightarrow> (\<exists>lanes. float_ceil unresolved parallel = Inr lanes \<and> MIN_MEANINGFUL_ATTEMPT_SECONDS \<le> r
         \<and> (r * max 1 lanes + RUN_CLEANUP_GUARD_SECONDS) * 1000 \<le> ms))"
proof -
  from assms have ok: "1 \<le> configured" "configured \<le> 19800" "0 \<le> ms"
    by (auto simp: adaptive_attempt_seconds_def split: if_splits)
  show ?thesis
  proof (cases "r = configured")
    case True
    with ok show ?thesis by (simp add: budget_constants)
  next
    case False
    with assms obtain lanes where lanes: "float_ceil unresolved parallel = Inr lanes"
      by (auto simp: adaptive_attempt_seconds_def elim!: bind_result_InrE split: if_splits)
    define usable where "usable = max 1 (ms div 1000 - RUN_CLEANUP_GUARD_SECONDS)"
    define waves where "waves = max 1 lanes"
    define fair where "fair = max 1 (usable div waves)"
    have "adaptive_attempt_seconds configured ms unresolved parallel =
        (if \<not> (1 \<le> configured \<and> configured \<le> 19800) \<or> ms < 0 \<or> unresolved < 0 \<or> parallel < 1
         then Inl (ValueError ''adaptive attempt budget input is invalid'')
         else if unresolved = 0 then Inr configured
         else if fair < MIN_MEANINGFUL_ATTEMPT_SECONDS then Inr configured
         else Inr (min (max configured ADAPTIVE_ATTEMPT_CAP_SECONDS) (max configured fair)))"
      by (simp only: adaptive_attempt_seconds_def Let_def usable_def waves_def fair_def lanes bind_result_def sum.case)
    with assms False have scaled: "MIN_MEANINGFUL_ATTEMPT_SECONDS \<le> fair"
      "r = min (max configured ADAPTIVE_ATTEMPT_CAP_SECONDS) (max configured fair)"
      by (auto split: if_splits)
    have "(r * waves + RUN_CLEANUP_GUARD_SECONDS) * 1000 \<le> ms"
    proof -
      have r: "r \<le> fair" "0 < r" using scaled(2) False ok by auto
      have w: "1 \<le> waves" by (simp add: waves_def)
      have f: "fair = usable div waves" using scaled(1) by (simp add: fair_def budget_constants)
      have "usable div waves * waves \<le> usable" using w by (metis div_mod_decomp_int
            add.commute le_add_same_cancel2 pos_mod_sign order_less_le_trans zero_less_one)
      then have "r * waves \<le> usable"
        using r w f by (meson mult_right_mono order_trans zero_le_one)
      moreover have "600 * 1 \<le> fair * waves"
        using scaled(1) w by (intro mult_mono) (simp_all add: budget_constants)
      then have "usable \<noteq> 1" using \<open>usable div waves * waves \<le> usable\<close> f by auto
      ultimately have "r * waves \<le> ms div 1000 - RUN_CLEANUP_GUARD_SECONDS"
        by (simp add: usable_def max_def split: if_splits)
      then show ?thesis by (simp add: budget_constants)
    qed
    then have "(r * max 1 lanes + RUN_CLEANUP_GUARD_SECONDS) * 1000 \<le> ms" by (simp add: waves_def)
    with lanes ok scaled False show ?thesis by (auto simp: budget_constants)
  qed
qed

lemma construct_route_valid [simp]: "route_valid r \<Longrightarrow> construct_route r = Inr r"
  by simp

lemma construct_signal_Inr_iff [simp]:
  "construct_signal k s = Inr x \<longleftrightarrow> k \<in> FAILURE_KINDS \<and> bounded_text s \<and> x = \<lparr>kind = k, subreason = s\<rparr>"
  by (auto simp: construct_signal_def bind_result_Inr_iff)

definition finite_members :: "(string \<times> string set) list \<Rightarrow> bool" where
  "finite_members gs \<longleftrightarrow> (\<forall>(k, ms) \<in> set gs. finite ms)"

lemma finite_groups: "finite_members FAILURE_GROUPS"
  by (simp add: finite_members_def FAILURE_GROUPS_def failure_vocabulary)

lemma FAILURE_GROUPS_cover: "(\<Union>(k, members) \<in> set FAILURE_GROUPS. members) = KNOWN_FAILURE_CLASSES"
  by (auto simp: FAILURE_GROUPS_def KNOWN_FAILURE_CLASSES_def)

lemma first_group_Some:
  assumes "first_group gs classes = Some (k, m)" "finite_members gs"
  shows "\<exists>ms. (k, ms) \<in> set gs \<and> m \<in> ms \<and> m \<in> classes \<and> (\<forall>x \<in> classes \<inter> ms. m \<le> x)"
  using assms
proof (induction gs classes rule: first_group.induct)
  case (1 classes)
  then show ?case by simp
next
  case (2 k' ms gs classes)
  have fin: "finite (classes \<inter> ms)" "finite_members gs"
    using "2.prems"(2) by (auto simp: finite_members_def)
  show ?case
  proof (cases "sorted_list_of_set (classes \<inter> ms)")
    case Nil
    with "2.prems"(1) have "first_group gs classes = Some (k, m)" by simp
    from "2.IH" [OF Nil this fin(2)] show ?thesis by auto
  next
    case (Cons a xs)
    with "2.prems"(1) have km: "k = k'" "m = a" by simp_all
    have "set (a # xs) = classes \<inter> ms" using fin(1) Cons by (metis set_sorted_list_of_set)
    moreover have "sorted (a # xs)" using Cons by (metis sorted_sorted_list_of_set)
    ultimately show ?thesis using km by (intro exI [of _ ms]) auto
  qed
qed

lemma first_group_None_iff:
  assumes "finite_members gs"
  shows "first_group gs classes = None \<longleftrightarrow> (\<forall>(k, ms) \<in> set gs. classes \<inter> ms = {})"
  using assms
proof (induction gs classes rule: first_group.induct)
  case (1 classes)
  then show ?case by simp
next
  case (2 k' ms gs classes)
  have fin: "finite (classes \<inter> ms)" "finite_members gs"
    using "2.prems" by (auto simp: finite_members_def)
  show ?case
  proof (cases "sorted_list_of_set (classes \<inter> ms)")
    case Nil
    with fin have "classes \<inter> ms = {}" by simp
    with "2.IH" [OF Nil fin(2)] Nil show ?thesis by simp
  next
    case (Cons a xs)
    with fin have "classes \<inter> ms \<noteq> {}" by auto
    with Cons show ?thesis by simp
  qed
qed

lemma first_group_bounded:
  assumes "first_group FAILURE_GROUPS classes = Some (k, m)"
  shows "k \<in> FAILURE_KINDS \<and> bounded_text m"
proof -
  obtain ms where "(k, ms) \<in> set FAILURE_GROUPS" "m \<in> ms"
    using first_group_Some [OF assms finite_groups] by auto
  then show ?thesis
    by (auto simp: FAILURE_GROUPS_def FAILURE_KINDS_def failure_vocabulary bounded_text_def)
qed

lemma fixed_subreasons:
  "bounded_text ''distinct_source_candidates''" "bounded_text ''retained_candidate_requires_verification''"
  "bounded_text ''unclassified_pre_lane_failure''" "bounded_text ''stalled_without_candidate''"
  "x \<in> FAILURE_ORIGINS \<Longrightarrow> x \<in> FAILURE_KINDS \<and> bounded_text (x @ ''_catch_boundary_failure'')"
  by (auto simp: bounded_text_def FAILURE_ORIGINS_def FAILURE_KINDS_def)

lemma fixed_kinds: "''disagreement'' \<in> FAILURE_KINDS" "''container'' \<in> FAILURE_KINDS" "''tool'' \<in> FAILURE_KINDS"
  by (simp_all add: FAILURE_KINDS_def)

definition well_formed_request :: "route_request \<Rightarrow> bool" where
  "well_formed_request req \<longleftrightarrow>
     route_valid (current req) \<and> kind (failure req) \<in> FAILURE_KINDS
     \<and> 0 \<le> remaining_milliseconds req \<and> 0 \<le> durable_observation_count req
     \<and> 0 \<le> unresolved_challenge_count req \<and> 1 \<le> parallel_challenge_count req"

lemma well_formed_request_check: "well_formed_request req \<Longrightarrow> request_check req = Inr ()"
  by (auto simp: request_check_def well_formed_request_def)

lemma dispatch_intro:
  assumes "request_check req = Inr ()" "attempts_remaining req"
    "propose_route req = Inr (Proposed rule s)" "current req \<noteq> s"
    "fingerprint sha s \<notin> insert (fingerprint sha (current req)) (used_fingerprints req)"
    "1000 \<le> remaining_milliseconds req"
  shows "\<exists>d. route_failure sha req = Inr d \<and> disposition d = Dispatch \<and> successor d = Some s
     \<and> rule_id d = rule"
  using assms propose_route_Proposed [OF assms(3)]
  by (auto simp: route_failure_def settle_route_def Let_def changed_axes_Nil_iff same_authority_def)

lemma timeout_or_container_fenced:
  assumes "propose_route req = Inr (Proposed rule s)"
  shows "(kind (failure req) \<in> {''timeout'', ''container''} \<longrightarrow> effects_safe req \<and> instances_safe req)
   \<and> (kind (failure req) = ''timeout'' \<longrightarrow> durable_observation_count req \<noteq> 0 \<and> \<not> timeout_recovery_used req
        \<and> role (current req) \<noteq> ''verifier'' \<and> 660000 \<le> remaining_milliseconds req
        \<and> role s = ''recovery''
        \<and> adaptive_attempt_seconds (attempt_seconds (current req)) (remaining_milliseconds req)
            (unresolved_challenge_count req) (parallel_challenge_count req) = Inr (attempt_seconds s))"
  using assms
  by (auto simp: propose_route_def propose_timeout_def propose_container_def Let_def bind_result_Inr_iff
      budget_constants split: if_splits)

lemma fixed_texts:
  "bounded_text ''alternate_candidate_after_board_rejection''"
  "bounded_text ''typed_facts_without_rejected_candidate''"
  "bounded_text ''alternate_candidate_after_verifier_mismatch''"
  "bounded_text ''typed_facts_without_unverified_candidate''"
  "bounded_text ''independent_source_reobservation''"
  "bounded_text ''fresh_source_only_no_candidate_carry''"
  "bounded_text ''fresh_source_reobservation_v1''"
  "bounded_text ''typed_timeout_recovery''" "bounded_text ''durable_timeout_facts_with_changed_strategy''"
  "bounded_text ''resume_after_quota_backoff''" "bounded_text ''bounded_60_seconds''"
  "bounded_text ''typed_peer_recovery''" "bounded_text ''durable_facts_only''"
  "bounded_text ''alternate_representation''" "bounded_text ''fresh_without_failed_tool_assumption''"
  "bounded_text ''fresh_workspace_recovery''" "bounded_text ''none''"
  "''recovery'' \<in> ROLES" "''verifier'' \<in> ROLES"
  by (simp_all add: bounded_text_def ROLES_def)

lemma propose_construct:
  "route_valid s \<Longrightarrow> propose rule (construct_route s) = Inr (Proposed rule s)"
  by simp

lemma adaptive_total:
  assumes "1 \<le> configured" "configured \<le> 19800" "0 \<le> ms" "0 \<le> unresolved" "1 \<le> parallel" "unresolved < 2 ^ 1023"
  shows "\<exists>r. adaptive_attempt_seconds configured ms unresolved parallel = Inr r"
proof (cases "unresolved = 0")
  case False
  with assms obtain lanes where "float_ceil unresolved parallel = Inr lanes" using float_ceil_total [of unresolved parallel] by auto
  with assms show ?thesis by (simp add: adaptive_attempt_seconds_def Let_def)
qed (use assms in \<open>simp add: adaptive_attempt_seconds_def\<close>)

lemma propose_route_total:
  assumes "well_formed_request req" "workspace_generation (current req) < 10000" "unresolved_challenge_count req < 2 ^ 1023"
  shows "\<exists>p. propose_route req = Inr p"
proof -
  let ?cur = "current req"
  have v: "route_valid ?cur" using assms(1) by (simp add: well_formed_request_def)
  have k: "kind (failure req) \<in> FAILURE_KINDS" using assms(1) by (simp add: well_formed_request_def)
  have d: "\<exists>p. propose_disagreement req = Inr p"
    using v assms(2) by (auto simp: propose_disagreement_def Let_def propose_construct route_valid_def fixed_texts)
  obtain secs where secs: "adaptive_attempt_seconds (attempt_seconds ?cur) (remaining_milliseconds req)
      (unresolved_challenge_count req) (parallel_challenge_count req) = Inr secs"
    using adaptive_total [of "attempt_seconds ?cur" "remaining_milliseconds req" "unresolved_challenge_count req"
        "parallel_challenge_count req"] assms(1,3) v by (auto simp: well_formed_request_def route_valid_def)
  have t: "\<exists>p. propose_timeout req = Inr p"
    using v assms(2) adaptive_bounds [OF secs]
    by (auto simp: propose_timeout_def Let_def secs propose_construct route_valid_def fixed_texts)
  have q: "\<exists>p. propose_quota req = Inr p"
    using v by (auto simp: propose_quota_def Let_def propose_construct route_valid_def fixed_texts)
  have tl: "\<exists>p. propose_tool req = Inr p"
    using v assms(2) by (auto simp: propose_tool_def Let_def propose_construct route_valid_def fixed_texts)
  have c: "\<exists>p. propose_container req = Inr p"
    using v assms(2) by (auto simp: propose_container_def Let_def propose_construct route_valid_def fixed_texts)
  from k show ?thesis
    by (auto simp: propose_route_def Let_def d t q tl c FAILURE_KINDS_def)
qed

lemma continuation_strategy_periodic:
  assumes "1 \<le> e"
  shows "continuation_strategy e = continuation_strategy ((e - 1) mod 32 + 1)"
proof -
  define i where "i = nat (e - 1)"
  have "nat ((e - 1) mod 32) = i mod 32" using assms by (simp add: i_def nat_mod_distrib)
  moreover have "i mod 32 mod 8 = i mod 8" "i mod 32 div 8 mod 4 = i div 8 mod 4"
    using mod_mult2_eq [of i 8 4] by (simp_all add: mod_mod_cancel)
  ultimately show ?thesis
    by (simp add: continuation_strategy_def CONTINUATION_PERSPECTIVES_def
        CONTINUATION_METHODS_def Let_def i_def)
qed

lemma continuation_strategies_distinct:
  "distinct (map (\<lambda>i. continuation_strategy (int i + 1)) [0..<32])"
proof -
  have u: "[0..<32] = [0,1,2,3,4,5,6,7,8,9,10,11,12,13,14,15,16,17,18,19,20,21,22,23,24,25,26,27,28,29,30,31::nat]"
    by (simp add: upt_rec)
  show ?thesis
    unfolding u by (simp add: continuation_strategy_def CONTINUATION_PERSPECTIVES_def
        CONTINUATION_METHODS_def Let_def nat_add_distrib)
qed

section \<open>Concrete inputs for the witnesses\<close>

definition sample_route :: route_spec where
  "sample_route =
     \<lparr>role = ''specialist'', route_tactic = ''baseline'', context_profile = ''fresh'',
      tool_policy = ''bounded_registry'', verification_recipe = ''none'', backoff_policy = ''none'',
      attempt_seconds = 800, deadline_policy = ''minimum'', effect_policy = ''controller_only'',
      model = ''gpt'', effort = ''xhigh'', workspace_generation = 0\<rparr>"

definition sample_request :: "string \<Rightarrow> string \<Rightarrow> route_request" where
  "sample_request k s =
     \<lparr>failure = \<lparr>kind = k, subreason = s\<rparr>, current = sample_route, used_fingerprints = {},
      attempts_remaining = True, remaining_milliseconds = 7200000, effects_safe = True,
      instances_safe = True, durable_observation_count = 2, timeout_recovery_used = False,
      unresolved_challenge_count = 3, parallel_challenge_count = 2\<rparr>"

lemma sample_route_valid [simp]: "route_valid sample_route"
  by (simp add: sample_route_def route_valid_def bounded_text_def ROLES_def)

lemma sample_request_well_formed [simp]:
  "k \<in> FAILURE_KINDS \<Longrightarrow> well_formed_request (sample_request k s)"
  by (simp add: well_formed_request_def sample_request_def)

lemma sample_waves: "float_ceil 3 2 = Inr 2"
  by code_simp

definition sample_timeout_successor :: route_spec where
  "sample_timeout_successor =
     sample_route\<lparr>role := ''recovery'', route_tactic := ''typed_timeout_recovery'',
       context_profile := ''durable_timeout_facts_with_changed_strategy'', attempt_seconds := 1800,
       workspace_generation := 1\<rparr>"

lemma sample_timeout_dispatch:
  "\<exists>d. route_failure (\<lambda>s. s) (sample_request ''timeout'' ''timeout'') = Inr d
     \<and> disposition d = Dispatch \<and> successor d = Some sample_timeout_successor
     \<and> rule_id d = ''typed_timeout_recovery_v1''"
proof (rule dispatch_intro)
  have v: "route_valid sample_timeout_successor"
    by (simp add: sample_timeout_successor_def sample_route_def route_valid_def bounded_text_def ROLES_def)
  have a: "adaptive_attempt_seconds 800 7200000 3 2 = Inr 1800"
    by (simp add: adaptive_attempt_seconds_def budget_constants sample_waves)
  show "propose_route (sample_request ''timeout'' ''timeout'') =
      Inr (Proposed ''typed_timeout_recovery_v1'' sample_timeout_successor)"
    using v a
    by (simp add: propose_route_def propose_timeout_def Let_def sample_request_def
        sample_timeout_successor_def budget_constants) (simp add: sample_route_def)
  show "current (sample_request ''timeout'' ''timeout'') \<noteq> sample_timeout_successor"
    by (simp add: sample_request_def sample_timeout_successor_def sample_route_def)
  then show "fingerprint (\<lambda>s. s) sample_timeout_successor
      \<notin> insert (fingerprint (\<lambda>s. s) (current (sample_request ''timeout'' ''timeout'')))
          (used_fingerprints (sample_request ''timeout'' ''timeout''))"
    by (auto simp: fingerprint_def sample_request_def dest: route_json_inject)
qed (simp_all add: sample_request_def request_check_def)


section \<open>Properties of the routing rules\<close>

text \<open>C26. A dispatched route is always a valid, unused, materially changed successor: the episode and
  time budgets remain, the exact model, effort, effect authority, tool policy and deadline policy
  are those of the current route, the fingerprint is new, the recorded axes are the fields that
  differ, and only the five recoverable failure kinds can lead to it.\<close>

theorem route_failure_dispatch_sound:
  assumes "route_failure sha req = Inr d" and "disposition d = Dispatch"
  shows "attempts_remaining req \<and> 1000 \<le> remaining_milliseconds req
    \<and> kind (failure req) \<in> {''disagreement'', ''timeout'', ''quota'', ''tool'', ''container''}
    \<and> (\<exists>s. successor d = Some s \<and> route_valid s
          \<and> model s = model (current req) \<and> effort s = effort (current req)
          \<and> effect_policy s = effect_policy (current req)
          \<and> tool_policy s = tool_policy (current req)
          \<and> deadline_policy s = deadline_policy (current req)
          \<and> fingerprint sha s \<notin> used_fingerprints req
          \<and> fingerprint sha s \<noteq> fingerprint sha (current req)
          \<and> decision_axes d = changed_axes (current req) s \<and> decision_axes d \<noteq> [])"
proof -
  obtain s where s: "attempts_remaining req" "propose_route req = Inr (Proposed (rule_id d) s)"
    "settle_route sha req (rule_id d) s = Inr d" "successor d = Some s"
    using dispatch_origin [OF assms] .
  with settle_route_Dispatch [OF s(3) assms(2)] propose_route_Proposed [OF s(2)] show ?thesis
    by (simp add: same_authority_def)
qed

theorem route_failure_dispatch_sound_witness:
  "\<exists>d s. route_failure (\<lambda>s. s) (sample_request ''timeout'' ''timeout'') = Inr d
     \<and> disposition d = Dispatch \<and> successor d = Some s \<and> route_valid s
     \<and> model s = model sample_route \<and> decision_axes d \<noteq> []"
proof -
  obtain d where d: "route_failure (\<lambda>s. s) (sample_request ''timeout'' ''timeout'') = Inr d"
    "disposition d = Dispatch"
    using sample_timeout_dispatch by blast
  from route_failure_dispatch_sound [OF d] d show ?thesis
    by (auto simp: sample_request_def)
qed

text \<open>C27. Routing never fails on a well-formed request whose workspace generation is below the largest one,
  10000, and whose count of unresolved challenges is below \<open>2^1023\<close>, beyond which the division by the parallel
  challenges may leave the range of a float: it returns a decision on every branch, and a contained
  decision carries neither a successor nor axes.\<close>

theorem route_failure_total:
  assumes "well_formed_request req" and "workspace_generation (current req) < 10000"
    and "unresolved_challenge_count req < 2 ^ 1023"
  shows "\<exists>d. route_failure sha req = Inr d
    \<and> (disposition d = Contain \<longrightarrow> successor d = None \<and> decision_axes d = [])"
proof -
  have rc: "request_check req = Inr ()" using assms(1) by (rule well_formed_request_check)
  obtain p where p: "propose_route req = Inr p" using propose_route_total [OF assms] by auto
  show ?thesis
  proof (cases p)
    case (Terminal rule why)
    with rc p show ?thesis by (auto simp: route_failure_def terminal_decision_def)
  next
    case (Proposed rule s)
    with propose_route_Proposed [of req rule s] p have "same_authority (current req) s" by simp
    with rc p Proposed show ?thesis
      by (auto simp: route_failure_def terminal_decision_def settle_route_def Let_def same_authority_def)
  qed
qed

theorem route_failure_total_witness:
  "\<exists>d. route_failure (\<lambda>s. s) (sample_request ''quota'' ''rate_limit_exceeded'') = Inr d"
proof -
  have w: "well_formed_request (sample_request ''quota'' ''rate_limit_exceeded'')"
    by (simp add: FAILURE_KINDS_def)
  have g: "workspace_generation (current (sample_request ''quota'' ''rate_limit_exceeded'')) < 10000"
    by (simp add: sample_request_def sample_route_def)
  have "unresolved_challenge_count (sample_request ''quota'' ''rate_limit_exceeded'') < 2 ^ 1023"
    by (simp add: sample_request_def)
  with w g show ?thesis using route_failure_total by blast
qed

text \<open>C28. A timeout or container failure is dispatched only while no submission effect and no instance is
  pending; a timeout recovery also needs a committed observation, happens at most once, never
  replaces a verifier, needs a meaningful remaining budget, and never shrinks the lane budget nor
  lifts it above the adaptive cap.\<close>

theorem route_failure_effect_fence:
  assumes "route_failure sha req = Inr d" and "disposition d = Dispatch"
    and "kind (failure req) \<in> {''timeout'', ''container''}"
  shows "effects_safe req \<and> instances_safe req
    \<and> (kind (failure req) = ''timeout'' \<longrightarrow>
         durable_observation_count req \<noteq> 0 \<and> \<not> timeout_recovery_used req
         \<and> role (current req) \<noteq> ''verifier'' \<and> 660000 \<le> remaining_milliseconds req
         \<and> (\<exists>s. successor d = Some s \<and> role s = ''recovery''
               \<and> attempt_seconds (current req) \<le> attempt_seconds s
               \<and> attempt_seconds s \<le> max (attempt_seconds (current req)) ADAPTIVE_ATTEMPT_CAP_SECONDS))"
proof -
  obtain s where s: "propose_route req = Inr (Proposed (rule_id d) s)" "successor d = Some s"
    using dispatch_origin [OF assms(1,2)] by metis
  from timeout_or_container_fenced [OF s(1)] assms(3) s(2) show ?thesis
    by (auto dest: adaptive_bounds)
qed

theorem route_failure_effect_fence_witness:
  "\<exists>d s. route_failure (\<lambda>s. s) (sample_request ''timeout'' ''timeout'') = Inr d
     \<and> disposition d = Dispatch \<and> successor d = Some s
     \<and> attempt_seconds sample_route \<le> attempt_seconds s \<and> attempt_seconds s \<le> 1800"
proof -
  obtain d where d: "route_failure (\<lambda>s. s) (sample_request ''timeout'' ''timeout'') = Inr d"
    "disposition d = Dispatch"
    using sample_timeout_dispatch by blast
  from route_failure_effect_fence [OF d] d show ?thesis
    by (auto simp: sample_request_def sample_route_def budget_constants)
qed

text \<open>A lane whose failure classes contain a policy failure, with no retained candidate and no typed
  origin, is classified as a policy failure whatever other classes it has, and the routing of that
  signal is contained: it is never dispatched again.\<close>

theorem policy_failure_never_dispatched:
  assumes "classify_failure terminal origin classes 0 attempts = Inr (Some s)"
    and "origin = None" and "classes \<inter> POLICY_FAILURES \<noteq> {}"
    and "failure req = s" and "route_failure sha req = Inr d"
  shows "kind s = ''policy'' \<and> disposition d = Contain \<and> successor d = None \<and> decision_axes d = []"
proof -
  have fin: "finite (classes \<inter> POLICY_FAILURES)" by (simp add: POLICY_FAILURES_def)
  with assms(3) obtain m ms where "sorted_list_of_set (classes \<inter> POLICY_FAILURES) = m # ms"
    by (cases "sorted_list_of_set (classes \<inter> POLICY_FAILURES)") auto
  then have "first_group FAILURE_GROUPS classes = Some (''policy'', m)"
    by (simp add: FAILURE_GROUPS_def)
  with assms(1,2) have k: "kind s = ''policy''"
    by (auto simp: classify_failure_def bind_result_Inr_iff split: if_splits)
  with assms(4,5) show ?thesis
    by (auto simp: route_failure_def bind_result_Inr_iff propose_route_def terminal_decision_def
        split: if_splits)
qed

theorem policy_failure_never_dispatched_witness:
  "\<exists>s d. classify_failure ''unsolved'' None {''cyber_policy'', ''timeout''} 0 4 = Inr (Some s)
     \<and> route_failure (\<lambda>s. s) (sample_request ''policy'' ''cyber_policy'') = Inr d
     \<and> kind s = ''policy'' \<and> disposition d = Contain"
proof -
  have c: "classify_failure ''unsolved'' None {''cyber_policy'', ''timeout''} 0 4 =
      Inr (Some \<lparr>kind = ''policy'', subreason = ''cyber_policy''\<rparr>)"
    by (simp add: classify_failure_def KNOWN_FAILURE_CLASSES_def failure_vocabulary
        FAILURE_GROUPS_def construct_signal_def FAILURE_KINDS_def bounded_text_def)
  have r: "failure (sample_request ''policy'' ''cyber_policy'') =
      \<lparr>kind = ''policy'', subreason = ''cyber_policy''\<rparr>"
    by (simp add: sample_request_def)
  have "well_formed_request (sample_request ''policy'' ''cyber_policy'')"
    by (simp add: FAILURE_KINDS_def)
  then obtain d where d: "route_failure (\<lambda>s. s) (sample_request ''policy'' ''cyber_policy'') = Inr d"
    by (auto simp: route_failure_def well_formed_request_check propose_route_def sample_request_def)
  have p: "{''cyber_policy'', ''timeout''} \<inter> POLICY_FAILURES \<noteq> {}" by (simp add: POLICY_FAILURES_def)
  from policy_failure_never_dispatched [OF c refl p r d] c d show ?thesis by auto
qed

text \<open>Classification is total on known classes and origins, and yields only registered kinds with
  bounded subreasons; it yields no signal exactly in the settled cases: solved, or no candidate
  identity and either a candidate terminal or no class with nothing to recover.\<close>

theorem classify_failure_total:
  assumes "classes \<subseteq> KNOWN_FAILURE_CLASSES" and "origin = None \<or> the origin \<in> FAILURE_ORIGINS"
    and "0 \<le> candidates"
  shows "\<exists>r. classify_failure terminal origin classes candidates attempts = Inr r
     \<and> (case r of
          Some s \<Rightarrow> kind s \<in> FAILURE_KINDS \<and> bounded_text (subreason s)
        | None \<Rightarrow> \<not> (terminal = ''error'' \<and> origin \<noteq> None)
            \<and> (terminal = ''solved''
               \<or> candidates = 0 \<and> (terminal = ''candidate''
                   \<or> classes = {} \<and> (terminal = ''error'' \<longrightarrow> attempts \<noteq> 0)
                      \<and> (terminal = ''unsolved'' \<longrightarrow> attempts \<le> 0))))"
proof -
  have none: "first_group FAILURE_GROUPS classes = None \<Longrightarrow> classes = {}"
    using assms(1) FAILURE_GROUPS_cover first_group_None_iff [OF finite_groups] by fastforce
  have cs: "construct_signal k s = Inr \<lparr>kind = k, subreason = s\<rparr>"
    if "k \<in> FAILURE_KINDS" "bounded_text s" for k s
    using that by simp
  show ?thesis
  proof (cases "terminal = ''error'' \<and> origin \<noteq> None")
    case True
    with assms(1,2) show ?thesis by (auto simp: classify_failure_def cs fixed_subreasons)
  next
    case no_origin: False
    show ?thesis
    proof (cases "terminal = ''solved'' \<or> terminal = ''candidate'' \<and> candidates = 0 \<or> 0 < candidates")
      case True
      with assms no_origin show ?thesis
        by (auto simp: classify_failure_def cs fixed_subreasons fixed_kinds)
    next
      case open_case: False
      with assms no_origin have body:
        "classify_failure terminal origin classes candidates attempts =
          (case first_group FAILURE_GROUPS classes of
             Some (k, m) \<Rightarrow> Inr (Some \<lparr>kind = k, subreason = m\<rparr>)
           | None \<Rightarrow>
               if terminal = ''error'' \<and> attempts = 0
               then Inr (Some \<lparr>kind = ''container'', subreason = ''unclassified_pre_lane_failure''\<rparr>)
               else if terminal = ''unsolved'' \<and> attempts > 0
               then Inr (Some \<lparr>kind = ''tool'', subreason = ''stalled_without_candidate''\<rparr>)
               else Inr None)"
        using first_group_bounded
        by (auto simp: classify_failure_def cs fixed_subreasons fixed_kinds split: option.split)
      show ?thesis
      proof (cases "first_group FAILURE_GROUPS classes")
        case None
        show ?thesis
          unfolding body None using none [OF None] open_case no_origin assms(3)
          by (cases "terminal = ''error''"; cases "terminal = ''unsolved''")
            (simp_all add: fixed_subreasons fixed_kinds)
      next
        case (Some km)
        obtain k m where km: "km = (k, m)" by (cases km)
        from first_group_bounded [OF Some [unfolded km]] show ?thesis
          unfolding body Some km by simp
      qed
    qed
  qed
qed

theorem classify_failure_total_witness:
  "\<exists>r. classify_failure ''error'' (Some ''board'') {''timeout''} 0 2 = Inr r"
  using classify_failure_total [of "{''timeout''}" "Some ''board''" 0 "''error''" 2]
  by (auto simp: KNOWN_FAILURE_CLASSES_def TIMEOUT_FAILURES_def FAILURE_ORIGINS_def)

text \<open>C29. A stalled lane is recovered: with an episode and a second left, a tool failure without candidate
  is dispatched to the typed peer recovery in the next workspace generation, unless that very
  route was admitted before.\<close>

theorem stalled_lane_recovers:
  assumes "well_formed_request req" and "workspace_generation (current req) < 10000"
    and "attempts_remaining req" and "1000 \<le> remaining_milliseconds req"
    and "kind (failure req) = ''tool''" and "subreason (failure req) = ''stalled_without_candidate''"
    and "s = (current req)\<lparr>role := ''recovery'', route_tactic := ''typed_peer_recovery'',
           context_profile := ''durable_facts_only'',
           workspace_generation := workspace_generation (current req) + 1\<rparr>"
    and "fingerprint sha s \<notin> insert (fingerprint sha (current req)) (used_fingerprints req)"
  shows "\<exists>d. route_failure sha req = Inr d \<and> disposition d = Dispatch \<and> successor d = Some s
     \<and> rule_id d = ''typed_peer_recovery_v1''"
proof -
  have rc: "request_check req = Inr ()" using assms(1) by (rule well_formed_request_check)
  have v: "route_valid s" using assms(1,2,7)
    by (simp add: well_formed_request_def route_valid_def fixed_texts)
  have "''stalled_without_candidate'' \<notin> UNSAFE_NATIVE_FAILURES" by (simp add: UNSAFE_NATIVE_FAILURES_def)
  with assms(5-7) v have p: "propose_route req = Inr (Proposed ''typed_peer_recovery_v1'' s)"
    by (simp add: propose_route_def propose_tool_def Let_def)
  have "current req \<noteq> s" using assms(7) by (metis (no_types, lifting) add_cancel_right_right
     route_spec.select_convs(12) route_spec.surjective route_spec.update_convs(12) zero_neq_one)
  with rc p assms(3,4,7,8) show ?thesis
    by (auto simp: route_failure_def settle_route_def Let_def changed_axes_Nil_iff)
qed

theorem stalled_lane_recovers_witness:
  "\<exists>d. route_failure (\<lambda>s. s) (sample_request ''tool'' ''stalled_without_candidate'') = Inr d
     \<and> disposition d = Dispatch \<and> rule_id d = ''typed_peer_recovery_v1''"
proof -
  let ?req = "sample_request ''tool'' ''stalled_without_candidate''"
  let ?s = "(current ?req)\<lparr>role := ''recovery'', route_tactic := ''typed_peer_recovery'',
           context_profile := ''durable_facts_only'',
           workspace_generation := workspace_generation (current ?req) + 1\<rparr>"
  have w: "well_formed_request ?req" by (simp add: FAILURE_KINDS_def)
  have "current ?req \<noteq> ?s" by (simp add: sample_request_def sample_route_def)
  then have f: "fingerprint (\<lambda>s. s) ?s \<notin> insert (fingerprint (\<lambda>s. s) (current ?req)) (used_fingerprints ?req)"
    by (auto simp: fingerprint_def sample_request_def dest: route_json_inject)
  show ?thesis
    using stalled_lane_recovers [OF w _ _ _ _ _ refl f] by (auto simp: sample_request_def sample_route_def)
qed

text \<open>The adaptive lane budget never shrinks the configured one, never exceeds the larger of the
  configured budget and the adaptive cap, stays a legal route budget, and when it grows then every
  remaining challenge wave (of fewer than \<open>2^53\<close> challenges) still fits, with the cleanup guard, into the remaining run time.\<close>

theorem adaptive_attempt_seconds_bounds:
  assumes "adaptive_attempt_seconds configured ms unresolved parallel = Inr r"
  shows "configured \<le> r \<and> r \<le> max configured ADAPTIVE_ATTEMPT_CAP_SECONDS \<and> 1 \<le> r \<and> r \<le> 19800
    \<and> (configured < r \<longrightarrow>
         MIN_MEANINGFUL_ATTEMPT_SECONDS \<le> r
         \<and> (unresolved < 2 ^ 53 \<longrightarrow> (r * ceil_div unresolved parallel + RUN_CLEANUP_GUARD_SECONDS) * 1000 \<le> ms))"
proof -
  note bounds = adaptive_bounds [OF assms]
  have "(r * ceil_div unresolved parallel + RUN_CLEANUP_GUARD_SECONDS) * 1000 \<le> ms"
    if r: "configured < r" and small: "unresolved < 2 ^ 53"
  proof -
    have "0 < unresolved" "1 \<le> parallel" using assms r by (auto simp: adaptive_attempt_seconds_def split: if_splits)
    with bounds r small float_ceil_exact show ?thesis by fastforce
  qed
  with bounds show ?thesis by blast
qed

theorem adaptive_attempt_seconds_bounds_witness:
  "adaptive_attempt_seconds 800 7200000 3 2 = Inr 1800 \<and> (1800 * 2 + 60) * 1000 \<le> (7200000::int)"
proof -
  have a: "adaptive_attempt_seconds 800 7200000 3 2 = Inr 1800"
    by (simp add: adaptive_attempt_seconds_def budget_constants sample_waves)
  from adaptive_attempt_seconds_bounds [OF a] a show ?thesis
    by (simp add: budget_constants ceil_div_def)
qed

text \<open>Continued solving cycles through all 32 pairs of perspective and method before a strategy comes
  back: two episodes have the same strategy exactly when they are congruent modulo 32.\<close>

theorem continuation_strategy_cycle:
  assumes "1 \<le> e" and "1 \<le> e'"
  shows "continuation_strategy e = continuation_strategy e' \<longleftrightarrow> (e - 1) mod 32 = (e' - 1) mod 32"
proof
  assume "(e - 1) mod 32 = (e' - 1) mod 32"
  then show "continuation_strategy e = continuation_strategy e'"
    using continuation_strategy_periodic assms by metis
next
  let ?f = "\<lambda>i. continuation_strategy (int i + 1)"
  let ?m = "\<lambda>e. nat ((e - 1) mod 32)"
  assume "continuation_strategy e = continuation_strategy e'"
  then have "?f (?m e) = ?f (?m e')"
    using continuation_strategy_periodic [OF assms(1)] continuation_strategy_periodic [OF assms(2)]
    by simp
  moreover have "inj_on ?f {0..<32}"
    using continuation_strategies_distinct by (simp only: distinct_map set_upt)
  moreover have "?m e \<in> {0..<32}" "?m e' \<in> {0..<32}" by (simp_all add: nat_less_iff)
  ultimately have "?m e = ?m e'" by (meson inj_onD)
  then show "(e - 1) mod 32 = (e' - 1) mod 32" by simp
qed

theorem continuation_strategy_cycle_witness:
  "continuation_strategy 2 = continuation_strategy 34 \<and> continuation_strategy 2 \<noteq> continuation_strategy 3"
  using continuation_strategy_cycle [of 2 34] continuation_strategy_cycle [of 2 3] by simp

text \<open>C30. The durable route document can be read back: every valid route survives \<open>as_dict\<close> and
  \<open>from_dict\<close> unchanged, and \<open>from_dict\<close> accepts only documents of valid routes.\<close>

theorem route_document_roundtrip:
  "(route_from_dict (route_as_dict r) = Inr r) = route_valid r
   \<and> (is_ok (route_from_dict v) \<longrightarrow> (\<exists>s. route_from_dict v = Inr s \<and> route_valid s
        \<and> route_from_dict (route_as_dict s) = Inr s))"
  using route_doc.dec_enc_iff [of r] route_doc.dec_valid [of v] route_doc.reread [of v]
  by (cases "route_from_dict v") auto

theorem route_document_roundtrip_witness:
  "is_ok (route_from_dict (route_as_dict sample_route))
   \<and> (\<exists>s. route_from_dict (route_as_dict sample_route) = Inr s \<and> route_valid s)"
  using route_document_roundtrip [of sample_route "route_as_dict sample_route"] by simp

text \<open>Fingerprints are identities: the canonical JSON of a route determines every field, so for a
  digest without collisions on the routes in question two fingerprints agree exactly when no
  routing axis differs.\<close>

theorem fingerprint_identifies_route:
  assumes "inj_on sha (route_json ` A)" and "r \<in> A" and "s \<in> A"
  shows "fingerprint sha r = fingerprint sha s \<longleftrightarrow> changed_axes r s = []"
  using route_text.digest_eq_iff [OF assms] by (simp add: fingerprint_def changed_axes_Nil_iff)

theorem fingerprint_identifies_route_witness:
  "fingerprint (\<lambda>s. s) sample_route \<noteq> fingerprint (\<lambda>s. s) sample_timeout_successor
   \<and> changed_axes sample_route sample_timeout_successor \<noteq> []"
proof -
  have "sample_route \<noteq> sample_timeout_successor"
    by (simp add: sample_timeout_successor_def sample_route_def)
  then have "changed_axes sample_route sample_timeout_successor \<noteq> []" by (simp add: changed_axes_Nil_iff)
  with fingerprint_identifies_route [of "\<lambda>s. s" UNIV sample_route sample_timeout_successor]
  show ?thesis by simp
qed

end
