(* ===== verification/Control_Waves.thy ===== *)
theory Control_Waves
  imports State_Tables Routing
begin

text \<open>
  The durable control plane of \<open>src/rapido/state.py\<close>: the frozen catalogue of a run, its routes, and
  the waves of jobs that are admitted, started and closed in one append-only event log. Routes are
  those of \<open>src/rapido/routing.py\<close>, stored as their documents. A method that runs inside a caller's
  transaction is a \<open>tx\<close>; a public method wraps it in \<open>transaction\<close>.
\<close>

section \<open>Statements in sequence\<close>

definition tx_return :: "'a \<Rightarrow> 'a tx" where
  "tx_return x d = Inr (x, d)"

definition tx_bind :: "'a tx \<Rightarrow> ('a \<Rightarrow> 'b tx) \<Rightarrow> 'b tx" where
  "tx_bind m f d = bind_result (m d) (\<lambda>(x, d'). f x d')"

definition tx_check :: "unit result \<Rightarrow> unit tx" where
  "tx_check r d = bind_result r (\<lambda>_. Inr ((), d))"

definition tx_modify :: "(db \<Rightarrow> db) \<Rightarrow> unit tx" where
  "tx_modify f d = Inr ((), f d)"

fun tx_each :: "('a \<Rightarrow> unit tx) \<Rightarrow> 'a list \<Rightarrow> unit tx" where
  "tx_each f [] = tx_return ()"
| "tx_each f (x # xs) = tx_bind (f x) (\<lambda>_. tx_each f xs)"

section \<open>The control log and admission\<close>

definition insert_control_event :: "string \<Rightarrow> string \<Rightarrow> string option \<Rightarrow> pyval \<Rightarrow> nat tx" where
  "insert_control_event run what job data d =
     bind_result (foreign_key (has_run d run)) (\<lambda>_.
     Inr (length (control_events d) + 1,
       d\<lparr>control_events := control_events d @ [\<lparr>ce_run = run, ce_kind = what, ce_job = job, ce_data = data\<rparr>]\<rparr>))"

type_synonym assignment = "string \<times> string \<times> string"

definition AGENT_ROLES :: "string list" where
  "AGENT_ROLES = [''lead'', ''specialist'', ''verifier'', ''recovery'']"

definition assignment_ok :: "assignment \<Rightarrow> bool" where
  "assignment_ok a = (case a of (agent, m, e) \<Rightarrow> agent \<in> set AGENT_ROLES \<and> m \<noteq> [] \<and> e \<noteq> [])"

definition job_id :: "string \<Rightarrow> int \<Rightarrow> int \<Rightarrow> string \<Rightarrow> nat \<Rightarrow> string" where
  "job_id run c ep wave_role lane =
     run @ '':'' @ show_int c @ '':'' @ show_int ep @ '':'' @ wave_role @ '':'' @ show_int (int lane)"

definition same_route :: "string \<Rightarrow> int \<Rightarrow> string \<Rightarrow> route_row \<Rightarrow> bool" where
  "same_route run c fp r \<longleftrightarrow> rt_run r = run \<and> rt_challenge r = c \<and> rt_fingerprint r = fp"

definition in_wave :: "string \<Rightarrow> int \<Rightarrow> int \<Rightarrow> job_row \<Rightarrow> bool" where
  "in_wave run c ep j \<longleftrightarrow> jb_run j = run \<and> jb_challenge j = c \<and> jb_episode j = ep"

definition phase_of :: "int \<Rightarrow> string" where
  "phase_of ep = (if ep = 0 then ''initial'' else ''retry'')"

definition insert_job :: "job_row \<Rightarrow> unit tx" where
  "insert_job j d =
     bind_result (unique_key (jb_id j \<notin> set (map jb_id (control_jobs d))
       \<and> (\<forall>k \<in> set (control_jobs d). \<not> (in_wave (jb_run j) (jb_challenge j) (jb_episode j) k
             \<and> jb_role k = jb_role j \<and> jb_lane k = jb_lane j)))) (\<lambda>_.
     bind_result (foreign_key (has_run d (jb_run j) \<and> has_challenge d (jb_challenge j)
       \<and> (\<exists>r \<in> set (control_routes d). same_route (jb_run j) (jb_challenge j) (jb_fingerprint j) r))) (\<lambda>_.
     Inr ((), d\<lparr>control_jobs := control_jobs d @ [j]\<rparr>)))"

definition admit_lane ::
  "string \<Rightarrow> int \<Rightarrow> int \<Rightarrow> int \<Rightarrow> string \<Rightarrow> string \<Rightarrow> nat \<times> assignment \<Rightarrow> unit tx" where
  "admit_lane run c ep rank wave_role fp la =
     (case la of (lane, (agent, m, e)) \<Rightarrow>
      tx_bind (insert_control_event run ''job_admitted'' (Some (job_id run c ep wave_role lane))
        (PDict [(''catalogue_rank'', PInt rank), (''challenge_id'', PInt c), (''episode'', PInt ep),
          (''lane'', PInt (int lane)), (''phase'', PStr (phase_of ep)), (''role'', PStr wave_role)])) (\<lambda>seq.
      insert_job \<lparr>jb_id = job_id run c ep wave_role lane, jb_run = run, jb_challenge = c, jb_episode = ep,
        jb_rank = rank, jb_phase = phase_of ep, jb_role = wave_role, jb_agent_role = agent, jb_model = m,
        jb_effort = e, jb_lane = int lane, jb_state = ''queued'', jb_fingerprint = fp, jb_admitted = seq,
        jb_started = None, jb_closed = None\<rparr>))"

text \<open>\<open>assignments\<close> is optional; without it every lane takes the role, model and effort of the route.\<close>

definition wave_assignments :: "nat \<Rightarrow> route_spec \<Rightarrow> assignment list option \<Rightarrow> assignment list" where
  "wave_assignments lanes r assignments =
     (case assignments of None \<Rightarrow> replicate lanes (role r, model r, effort r) | Some xs \<Rightarrow> xs)"

definition insert_route :: "digest_fn \<Rightarrow> string \<Rightarrow> int \<Rightarrow> int \<Rightarrow> route_spec \<Rightarrow> bool tx" where
  "insert_route sha run c ep r d =
     (if \<exists>x \<in> set (control_routes d). same_route run c (fingerprint sha r) x then Inr (False, d)
      else bind_result (foreign_key (has_run d run \<and> has_challenge d c)) (\<lambda>_.
        Inr (True, d\<lparr>control_routes := control_routes d @
          [\<lparr>rt_run = run, rt_challenge = c, rt_fingerprint = fingerprint sha r, rt_first_episode = ep,
            rt_document = route_as_dict r\<rparr>]\<rparr>)))"

definition admit_wave ::
  "digest_fn \<Rightarrow> string \<Rightarrow> int \<Rightarrow> int \<Rightarrow> int \<Rightarrow> nat \<Rightarrow> route_spec \<Rightarrow> assignment list option \<Rightarrow> bool \<Rightarrow> unit tx" where
  "admit_wave sha run c ep rank lanes r assignments require_unused =
     (let xs = wave_assignments lanes r assignments in
      tx_bind (tx_check (ensure (length xs = lanes) (ValueError ''control assignments do not match the wave''))) (\<lambda>_.
      tx_bind (tx_check (ensure (list_all assignment_ok xs) (ValueError ''control assignment is invalid''))) (\<lambda>_.
      tx_bind (insert_route sha run c ep r) (\<lambda>inserted.
      tx_bind (tx_check (ensure (require_unused \<longrightarrow> inserted) (ValueError ''control route was already admitted''))) (\<lambda>_.
      tx_each (admit_lane run c ep rank (role r) (fingerprint sha r)) (enumerate 0 xs))))))"

definition admit_control_wave ::
  "digest_fn \<Rightarrow> string \<Rightarrow> int \<Rightarrow> int \<Rightarrow> int \<Rightarrow> nat \<Rightarrow> route_spec \<Rightarrow> assignment list option \<Rightarrow> db \<Rightarrow> unit result \<times> db" where
  "admit_control_wave sha run c ep rank lanes r assignments =
     transaction (admit_wave sha run c ep rank lanes r assignments False)"

section \<open>The catalogue\<close>

definition insert_catalogue :: "catalogue_row \<Rightarrow> unit tx" where
  "insert_catalogue r d =
     bind_result (unique_key (\<forall>x \<in> set (catalogue d). ct_run x = ct_run r \<longrightarrow>
        ct_challenge x \<noteq> ct_challenge r \<and> ct_rank x \<noteq> ct_rank r)) (\<lambda>_.
     bind_result (foreign_key (has_run d (ct_run r) \<and> has_challenge d (ct_challenge r))) (\<lambda>_.
     Inr ((), d\<lparr>catalogue := catalogue d @ [r]\<rparr>)))"

type_synonym catalogue_entry = "int \<times> int \<times> bool"

definition entry_row :: "string \<Rightarrow> (int \<Rightarrow> string option) \<Rightarrow> catalogue_entry \<Rightarrow> catalogue_row" where
  "entry_row run contexts e = (case e of (rank, c, executable) \<Rightarrow>
     \<lparr>ct_run = run, ct_challenge = c, ct_rank = rank, ct_executable = executable, ct_context = contexts c, ct_episode = 0\<rparr>)"

definition record_control_catalogue :: "string \<Rightarrow> catalogue_entry list \<Rightarrow> db \<Rightarrow> unit result \<times> db" where
  "record_control_catalogue run entries =
     transaction (tx_each (\<lambda>e. insert_catalogue (entry_row run (\<lambda>_. None) e)) entries)"

definition sha_text :: "string \<Rightarrow> bool" where
  "sha_text s \<longleftrightarrow> length s = 64 \<and> list_all (\<lambda>c. c \<in> set ''0123456789abcdef'') s"

text \<open>The routes of the initial waves: one for all challenges, or one per executable challenge.\<close>

datatype wave_routes = OneRoute route_spec | RouteOf "(int \<times> route_spec) list"

definition route_for :: "wave_routes \<Rightarrow> int \<Rightarrow> route_spec option" where
  "route_for routes c = (case routes of OneRoute r \<Rightarrow> Some r | RouteOf rs \<Rightarrow> map_of rs c)"

definition routes_complete :: "wave_routes \<Rightarrow> catalogue_entry list \<Rightarrow> bool" where
  "routes_complete routes entries =
     (case routes of OneRoute _ \<Rightarrow> True
      | RouteOf rs \<Rightarrow> set (map fst rs) = set (map (\<lambda>(rank, c, x). c) (filter (\<lambda>(rank, c, x). x) entries)))"

definition admit_entry ::
  "digest_fn \<Rightarrow> string \<Rightarrow> nat \<Rightarrow> wave_routes \<Rightarrow> assignment list \<Rightarrow> catalogue_entry \<Rightarrow> unit tx" where
  "admit_entry sha run lanes routes assignments e =
     (case e of (rank, c, executable) \<Rightarrow>
        if executable
        then (case route_for routes c of
            None \<Rightarrow> (\<lambda>d. Inl (KeyError (show_int c)))
          | Some r \<Rightarrow> admit_wave sha run c 0 rank lanes r (Some assignments) False)
        else tx_return ())"

definition initialize_control_catalogue ::
  "digest_fn \<Rightarrow> string \<Rightarrow> catalogue_entry list \<Rightarrow> nat \<Rightarrow> wave_routes \<Rightarrow> assignment list
     \<Rightarrow> (int \<times> string) list \<Rightarrow> db \<Rightarrow> unit result \<times> db" where
  "initialize_control_catalogue sha run entries lanes routes assignments contexts d =
     (if contexts \<noteq> [] \<and> set (map fst contexts) \<noteq> set (map (\<lambda>(rank, c, x). c) entries)
      then (Inl (ValueError ''catalogue context identities are incomplete''), d)
      else if \<not> list_all sha_text (map snd contexts)
      then (Inl (ValueError ''catalogue context identity is invalid''), d)
      else if \<not> routes_complete routes entries
      then (Inl (ValueError ''catalogue routes are incomplete''), d)
      else transaction
        (tx_bind (tx_each (\<lambda>e. insert_catalogue (entry_row run (map_of contexts) e)) entries) (\<lambda>_.
         tx_each (admit_entry sha run lanes routes assignments) entries)) d)"

section \<open>Starting and closing a wave\<close>

definition set_job :: "string \<Rightarrow> (job_row \<Rightarrow> job_row) \<Rightarrow> unit tx" where
  "set_job job f = tx_modify (\<lambda>d. d\<lparr>control_jobs := where_update (\<lambda>j. jb_id j = job) f (control_jobs d)\<rparr>)"

definition start_job :: "string \<Rightarrow> int \<Rightarrow> int \<Rightarrow> job_row \<Rightarrow> unit tx" where
  "start_job run c ep j =
     tx_bind (insert_control_event run ''job_started'' (Some (jb_id j))
       (PDict [(''challenge_id'', PInt c), (''episode'', PInt ep), (''lane'', PInt (jb_lane j))])) (\<lambda>seq.
     set_job (jb_id j) (\<lambda>k. k\<lparr>jb_state := ''running'', jb_started := Some seq\<rparr>))"

definition queued_jobs :: "db \<Rightarrow> string \<Rightarrow> int \<Rightarrow> int \<Rightarrow> job_row list" where
  "queued_jobs d run c ep = sort_key jb_lane (filter (\<lambda>j. in_wave run c ep j \<and> jb_state j = ''queued'') (control_jobs d))"

definition start_wave :: "string \<Rightarrow> int \<Rightarrow> int \<Rightarrow> nat tx" where
  "start_wave run c ep d =
     (let rows = queued_jobs d run c ep in
      if rows = [] then Inl (ValueError ''control wave is absent or not queued'')
      else tx_bind (tx_each (start_job run c ep) rows) (\<lambda>_. tx_return (length rows)) d)"

definition start_control_wave :: "string \<Rightarrow> int \<Rightarrow> int \<Rightarrow> db \<Rightarrow> nat result \<times> db" where
  "start_control_wave run c ep = transaction (start_wave run c ep)"

definition control_wave_lane_count :: "db \<Rightarrow> string \<Rightarrow> int \<Rightarrow> int \<Rightarrow> nat result" where
  "control_wave_lane_count d run c ep =
     (let n = count_rows (\<lambda>j. in_wave run c ep j \<and> jb_state j = ''queued'') (control_jobs d) in
      if n < 1 then Inl (ValueError ''control wave is absent or not queued'') else Inr n)"

definition running_lane :: "string \<Rightarrow> int \<Rightarrow> int \<Rightarrow> int \<Rightarrow> job_row \<Rightarrow> bool" where
  "running_lane run c ep lane j \<longleftrightarrow> in_wave run c ep j \<and> jb_lane j = lane \<and> jb_state j = ''running''"

definition control_assignment :: "db \<Rightarrow> string \<Rightarrow> int \<Rightarrow> int \<Rightarrow> int \<Rightarrow> assignment result" where
  "control_assignment d run c ep lane =
     (case first_row (running_lane run c ep lane) (control_jobs d) of
        None \<Rightarrow> Inl (ValueError ''running control assignment is absent'')
      | Some j \<Rightarrow> Inr (jb_agent_role j, jb_model j, jb_effort j))"

definition record_comparison_lane_completion :: "string \<Rightarrow> int \<Rightarrow> int \<Rightarrow> int \<Rightarrow> db \<Rightarrow> nat result \<times> db" where
  "record_comparison_lane_completion run c ep lane d =
     (if lane < 0 then (Inl (ValueError ''comparison lane is invalid''), d)
      else case first_row (running_lane run c ep lane) (control_jobs d) of
        None \<Rightarrow> (Inl (ValueError ''comparison lane is absent or not running''), d)
      | Some j \<Rightarrow> transaction (insert_control_event run ''comparison_lane_completed'' (Some (jb_id j))
          (PDict [(''challenge_id'', PInt c), (''episode'', PInt ep), (''lane'', PInt lane)])) d)"

definition attempt_status :: "db \<Rightarrow> string \<Rightarrow> int \<Rightarrow> int \<Rightarrow> int \<Rightarrow> string option" where
  "attempt_status d run c ep lane =
     map_option at_status (first_row (\<lambda>a. at_run a = run \<and> at_challenge a = c \<and> at_episode a = ep \<and> at_lane a = lane) (attempts d))"

definition open_state :: "string \<Rightarrow> bool" where
  "open_state s \<longleftrightarrow> s = ''queued'' \<or> s = ''running''"

definition open_jobs :: "db \<Rightarrow> string \<Rightarrow> int \<Rightarrow> int \<Rightarrow> job_row list" where
  "open_jobs d run c ep = sort_key jb_lane (filter (\<lambda>j. in_wave run c ep j \<and> open_state (jb_state j)) (control_jobs d))"

definition closed_lane_state :: "db \<Rightarrow> string \<Rightarrow> int \<Rightarrow> int \<Rightarrow> string \<Rightarrow> int \<Rightarrow> string" where
  "closed_lane_state d run c ep terminal lane =
     (case attempt_status d run c ep lane of
        Some s \<Rightarrow> s | None \<Rightarrow> if terminal = ''error'' then ''failed'' else ''cancelled'')"

definition close_job :: "string \<Rightarrow> int \<Rightarrow> int \<Rightarrow> string \<Rightarrow> job_row \<Rightarrow> unit tx" where
  "close_job run c ep terminal j d =
     (let lane_state = closed_lane_state d run c ep terminal (jb_lane j) in
      tx_bind (insert_control_event run ''job_closed'' (Some (jb_id j))
        (PDict [(''challenge_id'', PInt c), (''episode'', PInt ep), (''lane'', PInt (jb_lane j)),
          (''lane_state'', PStr lane_state), (''terminal'', PStr terminal)])) (\<lambda>seq.
      set_job (jb_id j) (\<lambda>k. k\<lparr>jb_state := lane_state, jb_closed := Some seq\<rparr>)) d)"

definition finish_wave :: "string \<Rightarrow> int \<Rightarrow> int \<Rightarrow> string \<Rightarrow> unit tx" where
  "finish_wave run c ep terminal d =
     (let rows = open_jobs d run c ep in
      if rows = [] then Inl (ValueError ''control wave is absent or already closed'')
      else tx_each (close_job run c ep terminal) rows d)"

definition finish_control_wave :: "string \<Rightarrow> int \<Rightarrow> int \<Rightarrow> string \<Rightarrow> db \<Rightarrow> unit result \<times> db" where
  "finish_control_wave run c ep terminal = transaction (finish_wave run c ep terminal)"

definition finish_and_admit_control_wave ::
  "digest_fn \<Rightarrow> string \<Rightarrow> int \<Rightarrow> int \<Rightarrow> int \<Rightarrow> int \<Rightarrow> string \<Rightarrow> route_spec \<Rightarrow> assignment list \<Rightarrow> string
     \<Rightarrow> db \<Rightarrow> unit result \<times> db" where
  "finish_and_admit_control_wave sha run c source_ep next_ep rank terminal r assignments why =
     transaction
       (tx_bind (finish_wave run c source_ep terminal) (\<lambda>_.
        tx_bind (insert_control_event run ''phase_transition'' None
          (PDict [(''challenge_id'', PInt c), (''source_episode'', PInt source_ep), (''next_episode'', PInt next_ep),
            (''reason'', PStr why), (''successor_route_fingerprint'', PStr (fingerprint sha r))])) (\<lambda>_.
        admit_wave sha run c next_ep rank (length assignments) r (Some assignments) True)))"

section \<open>Failure origins\<close>

definition same_origin :: "string \<Rightarrow> int \<Rightarrow> int \<Rightarrow> origin_row \<Rightarrow> bool" where
  "same_origin run c ep o' \<longleftrightarrow> og_run o' = run \<and> og_challenge o' = c \<and> og_episode o' = ep"

definition insert_origin :: "origin_row \<Rightarrow> unit tx" where
  "insert_origin o' d =
     bind_result (foreign_key (has_run d (og_run o') \<and> has_challenge d (og_challenge o'))) (\<lambda>_.
     Inr ((), d\<lparr>failure_origins := failure_origins d @ [o']\<rparr>))"

definition failure_origin_body :: "string \<Rightarrow> int \<Rightarrow> int \<Rightarrow> string \<Rightarrow> unit tx" where
  "failure_origin_body run c ep new_origin d =
     (case first_row (same_origin run c ep) (failure_origins d) of
        Some row \<Rightarrow>
          if og_origin row = new_origin \<or> og_origin row = ''board'' then Inr ((), d)
          else if og_origin row \<noteq> ''container'' \<or> new_origin \<noteq> ''board''
          then Inl (ValueError ''control failure origin transition is invalid'')
          else tx_bind (insert_control_event run ''failure_origin_escalated'' None
            (PDict [(''challenge_id'', PInt c), (''episode'', PInt ep), (''from'', PStr (og_origin row)),
              (''to'', PStr new_origin)])) (\<lambda>seq.
            tx_modify (\<lambda>d. d\<lparr>failure_origins := where_update (same_origin run c ep)
              (\<lambda>x. x\<lparr>og_origin := new_origin, og_sequence := seq\<rparr>) (failure_origins d)\<rparr>)) d
      | None \<Rightarrow>
          tx_bind (insert_control_event run ''failure_origin_recorded'' None
            (PDict [(''challenge_id'', PInt c), (''episode'', PInt ep), (''origin'', PStr new_origin)])) (\<lambda>seq.
          insert_origin \<lparr>og_run = run, og_challenge = c, og_episode = ep, og_origin = new_origin,
            og_reason = [], og_sequence = seq\<rparr>) d)"

definition record_control_failure_origin :: "string \<Rightarrow> int \<Rightarrow> int \<Rightarrow> string \<Rightarrow> db \<Rightarrow> unit result \<times> db" where
  "record_control_failure_origin run c ep new_origin d =
     (if new_origin \<notin> FAILURE_ORIGINS then (Inl (ValueError ''control failure origin is invalid''), d)
      else transaction (failure_origin_body run c ep new_origin) d)"

section \<open>Reasoning on transaction bodies\<close>

named_theorems tx_simps \<open>evaluation of transaction bodies\<close>

lemma tx_bind_Inr [tx_simps]:
  "tx_bind m f d = Inr (y, d2) \<longleftrightarrow> (\<exists>x d1. m d = Inr (x, d1) \<and> f x d1 = Inr (y, d2))"
  by (cases "m d") (auto simp: tx_bind_def)

lemma tx_bind_InrE:
  assumes "tx_bind m f d = Inr (y, d2)"
  obtains x d1 where "m d = Inr (x, d1)" "f x d1 = Inr (y, d2)"
  using assms by (auto simp: tx_bind_Inr)

lemma tx_return_Inr [tx_simps]: "tx_return x d = Inr (y, d') \<longleftrightarrow> y = x \<and> d' = d"
  by (auto simp: tx_return_def)

lemma tx_modify_Inr [tx_simps]: "tx_modify f d = Inr (u, d') \<longleftrightarrow> d' = f d"
  by (auto simp: tx_modify_def)

lemma tx_check_Inr [tx_simps]: "tx_check r d = Inr (u, d') \<longleftrightarrow> r = Inr () \<and> d' = d"
  by (cases r) (auto simp: tx_check_def)

text \<open>A relation kept by every step of a body is kept by the body.\<close>

definition tx_keeps :: "(db \<Rightarrow> db \<Rightarrow> bool) \<Rightarrow> 'a tx \<Rightarrow> bool" where
  "tx_keeps R m \<longleftrightarrow> (\<forall>d x d'. m d = Inr (x, d') \<longrightarrow> R d d')"

lemma tx_keepsD: "tx_keeps R m \<Longrightarrow> m d = Inr (x, d') \<Longrightarrow> R d d'"
  by (auto simp: tx_keeps_def)

lemma tx_keepsI: "(\<And>d x d'. m d = Inr (x, d') \<Longrightarrow> R d d') \<Longrightarrow> tx_keeps R m"
  by (auto simp: tx_keeps_def)

lemma tx_keeps_bind:
  assumes "transp R" "tx_keeps R m" "\<And>x. tx_keeps R (f x)"
  shows "tx_keeps R (tx_bind m f)"
  using assms unfolding tx_keeps_def tx_bind_Inr by (meson transpE)

lemma tx_keeps_return: "reflp R \<Longrightarrow> tx_keeps R (tx_return x)"
  by (auto simp: tx_keeps_def tx_return_Inr reflp_def)

lemma tx_keeps_check: "reflp R \<Longrightarrow> tx_keeps R (tx_check r)"
  by (auto simp: tx_keeps_def tx_check_Inr reflp_def)

lemma tx_keeps_each:
  assumes "reflp R" "transp R" "\<And>x. tx_keeps R (f x)"
  shows "tx_keeps R (tx_each f xs)"
  using assms by (induction xs) (auto intro: tx_keeps_bind tx_keeps_return)

lemma transaction_keeps:
  "reflp R \<Longrightarrow> tx_keeps R m \<Longrightarrow> transaction m d = (r, d') \<Longrightarrow> R d d'"
  by (cases "m d") (auto simp: transaction_def reflp_def dest: tx_keepsD)

section \<open>What the operations leave alone\<close>

text \<open>The control operations only append to the log and to the routes, never remove a job, and leave every
  other table as it is.\<close>

definition same_job :: "job_row \<Rightarrow> job_row \<Rightarrow> bool" where
  "same_job j k \<longleftrightarrow> jb_id j = jb_id k \<and> jb_run j = jb_run k \<and> jb_challenge j = jb_challenge k
     \<and> jb_episode j = jb_episode k \<and> jb_rank j = jb_rank k \<and> jb_role j = jb_role k
     \<and> jb_agent_role j = jb_agent_role k \<and> jb_model j = jb_model k \<and> jb_effort j = jb_effort k
     \<and> jb_lane j = jb_lane k \<and> jb_fingerprint j = jb_fingerprint k \<and> jb_admitted j = jb_admitted k"

definition grows :: "db \<Rightarrow> db \<Rightarrow> bool" where
  "grows d d' \<longleftrightarrow> (\<exists>es. control_events d' = control_events d @ es) \<and> (\<exists>rs. control_routes d' = control_routes d @ rs)
     \<and> list_all2 same_job (control_jobs d) (take (length (control_jobs d)) (control_jobs d'))
     \<and> length (control_jobs d) \<le> length (control_jobs d')
     \<and> runs d' = runs d \<and> challenges d' = challenges d \<and> attempts d' = attempts d \<and> catalogue d' = catalogue d
     \<and> events d' = events d \<and> failure_origins d' = failure_origins d \<and> leased d' = leased d
     \<and> intents d' = intents d \<and> submissions d' = submissions d \<and> route_decisions d' = route_decisions d
     \<and> instances d' = instances d"

lemma same_job_refl [simp]: "same_job j j"
  by (simp add: same_job_def)

lemma same_job_trans: "same_job a b \<Longrightarrow> same_job b c \<Longrightarrow> same_job a c"
  by (simp add: same_job_def)

lemma reflp_grows: "reflp grows"
  by (auto simp: reflp_def grows_def intro: list_all2_refl)

lemma transp_grows: "transp grows"
proof (rule transpI)
  fix a b c assume "grows a b" "grows b c"
  then have ab: "list_all2 same_job (control_jobs a) (take (length (control_jobs a)) (control_jobs b))"
    "length (control_jobs a) \<le> length (control_jobs b)"
    and bc: "list_all2 same_job (control_jobs b) (take (length (control_jobs b)) (control_jobs c))"
    "length (control_jobs b) \<le> length (control_jobs c)"
    by (simp_all add: grows_def)
  have "list_all2 same_job (take (length (control_jobs a)) (control_jobs b))
      (take (length (control_jobs a)) (take (length (control_jobs b)) (control_jobs c)))"
    using bc(1) by (rule list_all2_takeI)
  then have "list_all2 same_job (control_jobs a) (take (length (control_jobs a)) (control_jobs c))"
    using ab bc by (auto intro: list_all2_trans [of same_job same_job same_job] same_job_trans simp: min_def)
  with \<open>grows a b\<close> \<open>grows b c\<close> ab(2) bc(2) show "grows a c" by (auto simp: grows_def)
qed

lemma grows_event: "tx_keeps grows (insert_control_event run what job data)"
  by (rule tx_keepsI) (auto simp: insert_control_event_def grows_def list_all2_refl elim!: bind_result_InrE)

lemma grows_set_job: "(\<And>k. same_job k (f k)) \<Longrightarrow> tx_keeps grows (set_job job f)"
  by (rule tx_keepsI) (auto simp: set_job_def tx_modify_Inr grows_def where_update_def list_all2_map2 intro!: list_all2_refl)

lemma grows_insert_job: "tx_keeps grows (insert_job j)"
  by (rule tx_keepsI) (auto simp: insert_job_def grows_def list_all2_refl elim!: bind_result_InrE)

lemma grows_insert_route: "tx_keeps grows (insert_route sha run c ep r)"
  by (rule tx_keepsI) (auto simp: insert_route_def grows_def list_all2_refl split: if_split_asm elim!: bind_result_InrE)

lemmas grows_rules = tx_keeps_bind [OF transp_grows] tx_keeps_each [OF reflp_grows transp_grows]
  tx_keeps_return [OF reflp_grows] tx_keeps_check [OF reflp_grows] grows_event grows_set_job grows_insert_job
  grows_insert_route

lemma grows_admit_wave: "tx_keeps grows (admit_wave sha run c ep rank lanes r xs u)"
  unfolding admit_wave_def Let_def admit_lane_def
  by (intro grows_rules; auto split: prod.split intro!: grows_rules)

lemma grows_start_wave: "tx_keeps grows (start_wave run c ep)"
proof (rule tx_keepsI)
  fix d x d' assume "start_wave run c ep d = Inr (x, d')"
  moreover have "tx_keeps grows (tx_bind (tx_each (start_job run c ep) rows) (\<lambda>_. tx_return (length rows)))" for rows
    unfolding start_job_def by (intro grows_rules) (simp add: same_job_def)
  ultimately show "grows d d'" by (auto simp: start_wave_def Let_def dest: tx_keepsD split: if_split_asm)
qed

lemma grows_close_job: "tx_keeps grows (close_job run c ep terminal j)"
proof (rule tx_keepsI)
  fix d x d' assume *: "close_job run c ep terminal j d = Inr (x, d')"
  have "tx_keeps grows (tx_bind (insert_control_event run w i data)
      (\<lambda>seq. set_job (jb_id j) (\<lambda>k. k\<lparr>jb_state := s, jb_closed := Some seq\<rparr>)))" for w i data s
    by (intro grows_rules) (simp add: same_job_def)
  from tx_keepsD [OF this] * show "grows d d'" unfolding close_job_def Let_def by blast
qed

lemma grows_finish_wave: "tx_keeps grows (finish_wave run c ep terminal)"
proof (rule tx_keepsI)
  fix d x d' assume "finish_wave run c ep terminal d = Inr (x, d')"
  moreover have "tx_keeps grows (tx_each (close_job run c ep terminal) rows)" for rows
    by (intro grows_rules grows_close_job)
  ultimately show "grows d d'" by (auto simp: finish_wave_def Let_def dest: tx_keepsD split: if_split_asm)
qed

section \<open>The effect of a loop over jobs\<close>

text \<open>Each step logs and rewrites one job; together they rewrite exactly the listed jobs.\<close>

lemma each_job_effect:
  assumes step: "\<And>j d u d'. m j d = Inr ((), d') \<Longrightarrow> attempts d' = attempts d \<and>
      (\<exists>f. control_jobs d' = where_update (\<lambda>k. jb_id k = jb_id j) f (control_jobs d)
         \<and> (\<forall>k. same_job (f k) k \<and> jb_state (f k) = S (attempts d) j))"
    and loop: "tx_each m rows d = Inr (u, d')" and dist: "distinct (map jb_id rows)"
  shows "attempts d' = attempts d \<and> (\<exists>g. control_jobs d' = map g (control_jobs d) \<and> (\<forall>k. same_job (g k) k)
    \<and> (\<forall>k. jb_id k \<notin> jb_id ` set rows \<longrightarrow> g k = k)
    \<and> (\<forall>j \<in> set rows. \<forall>k. jb_id k = jb_id j \<longrightarrow> jb_state (g k) = S (attempts d) j))"
  using loop dist
proof (induction rows arbitrary: d)
  case Nil
  then show ?case by (intro conjI exI [of _ id]) (auto simp: tx_return_Inr)
next
  case (Cons j rows)
  from Cons.prems(1) obtain d1 where d1: "m j d = Inr ((), d1)" "tx_each m rows d1 = Inr (u, d')"
    by (auto elim!: tx_bind_InrE)
  from step [OF d1(1)] obtain f where f: "attempts d1 = attempts d"
    "control_jobs d1 = where_update (\<lambda>k. jb_id k = jb_id j) f (control_jobs d)"
    "\<And>k. same_job (f k) k" "\<And>k. jb_state (f k) = S (attempts d) j" by blast
  have "distinct (map jb_id rows)" using Cons.prems(2) by simp
  from Cons.IH [OF d1(2) this] obtain g where g: "attempts d' = attempts d1"
    "control_jobs d' = map g (control_jobs d1)" "\<And>k. same_job (g k) k"
    "\<And>k. jb_id k \<notin> jb_id ` set rows \<Longrightarrow> g k = k"
    "\<And>i k. i \<in> set rows \<Longrightarrow> jb_id k = jb_id i \<Longrightarrow> jb_state (g k) = S (attempts d1) i" by blast
  define h where "h k = g (if jb_id k = jb_id j then f k else k)" for k
  have id_f: "jb_id (f k) = jb_id k" for k using f(3) [of k] by (simp add: same_job_def)
  have "control_jobs d' = map h (control_jobs d)" by (simp add: g(2) f(2) where_update_def h_def)
  moreover have "same_job (h k) k" for k
    using same_job_trans [OF g(3) f(3)] g(3) by (simp add: h_def)
  moreover have "h k = k" if "jb_id k \<notin> jb_id ` set (j # rows)" for k using that g(4) by (simp add: h_def)
  moreover have "jb_state (h k) = S (attempts d) i" if "i \<in> set (j # rows)" "jb_id k = jb_id i" for i k
  proof (cases "i = j")
    case True
    then have "jb_id k = jb_id j" using that(2) by simp
    moreover from this have "jb_id (f k) \<notin> jb_id ` set rows" using Cons.prems(2) by (simp add: id_f)
    ultimately show ?thesis using True f(4) g(4) by (simp add: h_def)
  next
    case False
    then have i: "i \<in> set rows" using that(1) by simp
    then have "jb_id k \<noteq> jb_id j" using that(2) Cons.prems(2) by (auto simp: image_iff)
    then show ?thesis using g(5) [OF i that(2)] f(1) by (simp add: h_def)
  qed
  ultimately show ?case using f(1) g(1) by (intro conjI exI [of _ h]) auto
qed

lemma listed_jobs:
  assumes dist: "distinct (map jb_id jobs)" and g: "\<And>k. jb_id k \<notin> jb_id ` set (filter p jobs) \<Longrightarrow> g k = k"
    and st: "\<And>j k. j \<in> set (filter p jobs) \<Longrightarrow> jb_id k = jb_id j \<Longrightarrow> jb_state (g k) = s j"
    and k: "k \<in> set jobs"
  shows "if p k then jb_state (g k) = s k else g k = k"
proof (cases "p k")
  case True
  then show ?thesis using st k by simp
next
  case False
  then have "jb_id k \<notin> jb_id ` set (filter p jobs)"
    using k dist by (auto simp: distinct_map inj_on_def)
  with False g show ?thesis by simp
qed

lemma log_and_set:
  assumes "tx_bind (insert_control_event run w i data) (\<lambda>seq. set_job (jb_id j) (f seq)) d = Inr (u, d')"
  shows "attempts d' = attempts d
    \<and> (\<exists>seq. control_jobs d' = where_update (\<lambda>k. jb_id k = jb_id j) (f seq) (control_jobs d))"
  using assms by (auto simp: insert_control_event_def set_job_def tx_modify_Inr elim!: tx_bind_InrE bind_result_InrE) blast

lemma finish_wave_effect:
  assumes "finish_wave run c ep terminal d = Inr (u, d')" "distinct (map jb_id (control_jobs d))"
  shows "\<exists>g. control_jobs d' = map g (control_jobs d) \<and> (\<forall>k. same_job (g k) k)
    \<and> (\<forall>k \<in> set (control_jobs d). if in_wave run c ep k \<and> open_state (jb_state k)
         then jb_state (g k) = closed_lane_state d run c ep terminal (jb_lane k) else g k = k)"
proof -
  let ?p = "\<lambda>k. in_wave run c ep k \<and> open_state (jb_state k)"
  let ?rows = "open_jobs d run c ep"
  have loop: "tx_each (close_job run c ep terminal) ?rows d = Inr (u, d')"
    using assms(1) by (simp add: finish_wave_def Let_def split: if_split_asm)
  have rows: "set ?rows = set (filter ?p (control_jobs d))" "distinct (map jb_id ?rows)"
    using assms(2) by (simp_all add: open_jobs_def distinct_map inj_on_def)
  have "attempts d' = attempts d \<and>
      (\<exists>f. control_jobs d' = where_update (\<lambda>k. jb_id k = jb_id j) f (control_jobs d) \<and> (\<forall>k. same_job (f k) k
        \<and> jb_state (f k) = closed_lane_state (empty_db\<lparr>attempts := attempts d\<rparr>) run c ep terminal (jb_lane j)))"
    if "close_job run c ep terminal j d = Inr ((), d')" for j d d'
    using log_and_set [OF that [unfolded close_job_def Let_def]]
    by (auto simp: same_job_def closed_lane_state_def attempt_status_def)
  from each_job_effect [where S = "\<lambda>a j. closed_lane_state (empty_db\<lparr>attempts := a\<rparr>) run c ep terminal (jb_lane j)", OF this loop rows(2)]
  obtain g where g: "control_jobs d' = map g (control_jobs d)" "\<And>k. same_job (g k) k"
    "\<And>k. jb_id k \<notin> jb_id ` set (filter ?p (control_jobs d)) \<Longrightarrow> g k = k"
    "\<And>j k. j \<in> set (filter ?p (control_jobs d)) \<Longrightarrow> jb_id k = jb_id j \<Longrightarrow>
       jb_state (g k) = closed_lane_state (empty_db\<lparr>attempts := attempts d\<rparr>) run c ep terminal (jb_lane j)"
    unfolding rows(1) by blast
  have "if ?p k then jb_state (g k) = closed_lane_state d run c ep terminal (jb_lane k) else g k = k"
    if "k \<in> set (control_jobs d)" for k
    using listed_jobs [OF assms(2) g(3,4) that] by (simp add: closed_lane_state_def attempt_status_def)
  with g(1,2) show ?thesis by blast
qed

lemma start_wave_effect:
  assumes "start_wave run c ep d = Inr (n, d')" "distinct (map jb_id (control_jobs d))"
  shows "n = count_rows (\<lambda>k. in_wave run c ep k \<and> jb_state k = ''queued'') (control_jobs d)
    \<and> (\<exists>g. control_jobs d' = map g (control_jobs d) \<and> (\<forall>k. same_job (g k) k)
    \<and> (\<forall>k \<in> set (control_jobs d). if in_wave run c ep k \<and> jb_state k = ''queued''
         then jb_state (g k) = ''running'' else g k = k))"
proof -
  let ?p = "\<lambda>k. in_wave run c ep k \<and> jb_state k = ''queued''"
  let ?rows = "queued_jobs d run c ep"
  obtain u where loop: "tx_each (start_job run c ep) ?rows d = Inr (u, d')" and n: "n = length ?rows"
    using assms(1) by (auto simp: start_wave_def Let_def tx_return_Inr elim!: tx_bind_InrE split: if_split_asm)
  have rows: "set ?rows = set (filter ?p (control_jobs d))" "distinct (map jb_id ?rows)"
    using assms(2) by (simp_all add: queued_jobs_def distinct_map inj_on_def)
  have "attempts d' = attempts d \<and>
      (\<exists>f. control_jobs d' = where_update (\<lambda>k. jb_id k = jb_id j) f (control_jobs d) \<and> (\<forall>k. same_job (f k) k
        \<and> jb_state (f k) = ''running''))"
    if "start_job run c ep j d = Inr ((), d')" for j d d'
    using log_and_set [OF that [unfolded start_job_def]] by (auto simp: same_job_def)
  from each_job_effect [where S = "\<lambda>a j. ''running''", OF this loop rows(2)]
  obtain g where g: "control_jobs d' = map g (control_jobs d)" "\<And>k. same_job (g k) k"
    "\<And>k. jb_id k \<notin> jb_id ` set (filter ?p (control_jobs d)) \<Longrightarrow> g k = k"
    "\<And>j k. j \<in> set (filter ?p (control_jobs d)) \<Longrightarrow> jb_id k = jb_id j \<Longrightarrow> jb_state (g k) = ''running''"
    unfolding rows(1) by blast
  from listed_jobs [OF assms(2) g(3,4)] g(1,2) n show ?thesis
    by (auto simp: queued_jobs_def count_rows_def)
qed

section \<open>The invariant of the control plane\<close>

text \<open>Sequences are positions in the log: a job is admitted before it is started or closed. Job ids are
  distinct and every job's route is on record.\<close>

definition job_ok :: "nat \<Rightarrow> job_row \<Rightarrow> bool" where
  "job_ok n j \<longleftrightarrow> 1 \<le> jb_admitted j \<and> jb_admitted j \<le> n
     \<and> (\<forall>s. jb_started j = Some s \<longrightarrow> jb_admitted j < s \<and> s \<le> n)
     \<and> (\<forall>t. jb_closed j = Some t \<longrightarrow> jb_admitted j < t \<and> t \<le> n)"

definition route_known :: "db \<Rightarrow> job_row \<Rightarrow> bool" where
  "route_known d j \<longleftrightarrow> (\<exists>r \<in> set (control_routes d). same_route (jb_run j) (jb_challenge j) (jb_fingerprint j) r)"

definition control_inv :: "db \<Rightarrow> bool" where
  "control_inv d \<longleftrightarrow> distinct (map jb_id (control_jobs d))
     \<and> (\<forall>j \<in> set (control_jobs d). job_ok (length (control_events d)) j \<and> route_known d j)"

definition inv_kept :: "db \<Rightarrow> db \<Rightarrow> bool" where
  "inv_kept d d' \<longleftrightarrow> (control_inv d \<longrightarrow> control_inv d')"

lemma reflp_inv_kept: "reflp inv_kept" and transp_inv_kept: "transp inv_kept"
  by (auto simp: inv_kept_def reflp_def transp_def)

lemma job_ok_mono: "job_ok m j \<Longrightarrow> m \<le> n \<Longrightarrow> job_ok n j"
  unfolding job_ok_def by (meson le_trans)

lemma control_inv_more:
  assumes "control_inv d" "control_jobs d' = control_jobs d" "set (control_routes d) \<subseteq> set (control_routes d')"
    "length (control_events d) \<le> length (control_events d')"
  shows "control_inv d'"
  using assms job_ok_mono unfolding control_inv_def route_known_def by (metis subsetD)

lemma inv_event: "tx_keeps inv_kept (insert_control_event run what job data)"
  by (rule tx_keepsI)
    (auto simp: insert_control_event_def inv_kept_def intro: control_inv_more elim!: bind_result_InrE)

lemma inv_insert_route: "tx_keeps inv_kept (insert_route sha run c ep r)"
  by (rule tx_keepsI)
    (auto simp: insert_route_def inv_kept_def intro: control_inv_more split: if_split_asm elim!: bind_result_InrE)

lemma inv_log_and_set:
  assumes f: "\<And>seq k. same_job (f seq k) k \<and> jb_started (f seq k) \<in> {jb_started k, Some seq}
      \<and> jb_closed (f seq k) \<in> {jb_closed k, Some seq}"
  shows "tx_keeps inv_kept (tx_bind (insert_control_event run w i data) (\<lambda>seq. set_job job (f seq)))"
proof (rule tx_keepsI)
  fix d u d' assume step: "tx_bind (insert_control_event run w i data) (\<lambda>seq. set_job job (f seq)) d = Inr (u, d')"
  let ?n = "length (control_events d)"
  have d': "control_jobs d' = where_update (\<lambda>k. jb_id k = job) (f (?n + 1)) (control_jobs d)"
    "length (control_events d') = ?n + 1" "control_routes d' = control_routes d"
    using step by (auto simp: insert_control_event_def set_job_def tx_modify_Inr elim!: tx_bind_InrE bind_result_InrE)
  show "inv_kept d d'"
    unfolding inv_kept_def
  proof
    assume inv: "control_inv d"
    have "jb_id (f (?n + 1) k) = jb_id k" for k using f [of "?n + 1" k] by (simp add: same_job_def)
    then have "map jb_id (control_jobs d') = map jb_id (control_jobs d)" by (simp add: d'(1))
    moreover have "job_ok (?n + 1) k' \<and> route_known d' k'" if "k' \<in> set (control_jobs d')" for k'
    proof -
      from that obtain k where k: "k \<in> set (control_jobs d)" "k' = k \<or> k' = f (?n + 1) k"
        by (auto simp: d'(1) set_where_update split: if_split_asm)
      have ok: "job_ok ?n k" "route_known d k" using inv k(1) by (simp_all add: control_inv_def)
      have fk: "jb_admitted (f (?n + 1) k) = jb_admitted k"
        "jb_started (f (?n + 1) k) = jb_started k \<or> jb_started (f (?n + 1) k) = Some (?n + 1)"
        "jb_closed (f (?n + 1) k) = jb_closed k \<or> jb_closed (f (?n + 1) k) = Some (?n + 1)"
        using f [of "?n + 1" k] by (simp_all add: same_job_def)
      have "job_ok (?n + 1) (f (?n + 1) k)"
        using ok(1) fk(2,3) unfolding job_ok_def fk(1) by (elim disjE) (simp_all add: le_Suc_eq less_Suc_eq_le)
      moreover have "route_known d' k" using ok(2) by (simp add: route_known_def d'(3))
      moreover from this have "route_known d' (f (?n + 1) k)"
        using f [of "?n + 1" k] by (simp add: route_known_def same_job_def)
      ultimately show ?thesis using k(2) job_ok_mono [OF ok(1)] by auto
    qed
    ultimately show "control_inv d'" using inv by (simp add: control_inv_def d'(2))
  qed
qed

lemma inv_admit_lane: "tx_keeps inv_kept (admit_lane run c ep rank wave_role fp la)"
proof (rule tx_keepsI)
  fix d u d' assume step: "admit_lane run c ep rank wave_role fp la d = Inr (u, d')"
  obtain lane agent m e where la: "la = (lane, agent, m, e)" by (metis prod_cases4)
  from step obtain j where d': "control_jobs d' = control_jobs d @ [j]" "jb_id j \<notin> set (map jb_id (control_jobs d))"
    "length (control_events d') = length (control_events d) + 1" "control_routes d' = control_routes d"
    "jb_admitted j = length (control_events d) + 1" "jb_started j = None" "jb_closed j = None" "route_known d j"
    by (auto simp: admit_lane_def la insert_control_event_def insert_job_def route_known_def elim!: tx_bind_InrE bind_result_InrE)
  show "inv_kept d d'"
    unfolding inv_kept_def
  proof
    assume inv: "control_inv d"
    have "job_ok (length (control_events d')) j" by (simp add: job_ok_def d')
    moreover have "job_ok (length (control_events d')) k" if "k \<in> set (control_jobs d)" for k
      using inv that d'(3) by (auto simp: control_inv_def intro: job_ok_mono)
    ultimately show "control_inv d'" using inv d' by (auto simp: control_inv_def route_known_def)
  qed
qed

lemmas inv_rules = tx_keeps_bind [OF transp_inv_kept] tx_keeps_each [OF reflp_inv_kept transp_inv_kept]
  tx_keeps_return [OF reflp_inv_kept] tx_keeps_check [OF reflp_inv_kept] inv_event inv_insert_route inv_admit_lane

lemma inv_admit_wave: "tx_keeps inv_kept (admit_wave sha run c ep rank lanes r xs u)"
  unfolding admit_wave_def Let_def by (intro inv_rules)

lemma inv_start_wave: "tx_keeps inv_kept (start_wave run c ep)"
proof (rule tx_keepsI)
  fix d x d' assume *: "start_wave run c ep d = Inr (x, d')"
  have "tx_keeps inv_kept (start_job run c ep j)" for j
    unfolding start_job_def by (rule inv_log_and_set) (simp add: same_job_def)
  then have "tx_keeps inv_kept (tx_bind (tx_each (start_job run c ep) rows) (\<lambda>_. tx_return (length rows)))" for rows
    by (intro inv_rules)
  from tx_keepsD [OF this] * show "inv_kept d d'" by (simp add: start_wave_def Let_def split: if_split_asm)
qed

lemma inv_close_job: "tx_keeps inv_kept (close_job run c ep terminal j)"
proof (rule tx_keepsI)
  fix d x d' assume *: "close_job run c ep terminal j d = Inr (x, d')"
  have "tx_keeps inv_kept (tx_bind (insert_control_event run w i data)
      (\<lambda>seq. set_job (jb_id j) (\<lambda>k. k\<lparr>jb_state := s, jb_closed := Some seq\<rparr>)))" for w i data s
    by (rule inv_log_and_set) (simp add: same_job_def)
  from tx_keepsD [OF this] * show "inv_kept d d'" unfolding close_job_def Let_def by blast
qed

lemma inv_finish_wave: "tx_keeps inv_kept (finish_wave run c ep terminal)"
proof (rule tx_keepsI)
  fix d x d' assume *: "finish_wave run c ep terminal d = Inr (x, d')"
  have "tx_keeps inv_kept (tx_each (close_job run c ep terminal) rows)" for rows
    by (intro inv_rules inv_close_job)
  from tx_keepsD [OF this] * show "inv_kept d d'" by (simp add: finish_wave_def Let_def split: if_split_asm)
qed

lemma inv_insert_catalogue: "tx_keeps inv_kept (insert_catalogue r)"
  by (rule tx_keepsI) (auto simp: insert_catalogue_def inv_kept_def intro: control_inv_more elim!: bind_result_InrE)

lemma failure_origin_tables:
  assumes "failure_origin_body run c ep o' d = Inr (x, d')"
  shows "control_jobs d' = control_jobs d \<and> control_routes d' = control_routes d
    \<and> length (control_events d) \<le> length (control_events d')"
  using assms
  by (auto simp: failure_origin_body_def insert_control_event_def insert_origin_def tx_modify_Inr
      elim!: tx_bind_InrE bind_result_InrE split: option.split_asm if_split_asm)

lemma inv_failure_origin: "tx_keeps inv_kept (failure_origin_body run c ep o')"
proof (rule tx_keepsI)
  fix d x d' assume "failure_origin_body run c ep o' d = Inr (x, d')"
  then show "inv_kept d d'"
    unfolding inv_kept_def using failure_origin_tables by (metis control_inv_more subset_refl)
qed

definition sample_plane :: db where
  "sample_plane = empty_db
     \<lparr>runs := [\<lparr>rn_id = ''r'', rn_started = ''t0'', rn_finished = None, rn_status = ''running'', rn_config = None\<rparr>],
      challenges := [\<lparr>ch_id = 7, ch_name = ''n'', ch_category = ''c'', ch_type = ''standard'', ch_value = 100,
        ch_status = ''running'', ch_updated = ''t0''\<rparr>]\<rparr>"

definition sample_lanes :: "assignment list" where
  "sample_lanes = [(''lead'', ''m'', ''high''), (''verifier'', ''m'', ''low'')]"

definition sample_job :: "string \<Rightarrow> int \<Rightarrow> nat \<Rightarrow> assignment \<Rightarrow> nat \<Rightarrow> job_row" where
  "sample_job fp ep lane a seq = (case a of (agent, m, e) \<Rightarrow>
     \<lparr>jb_id = job_id ''r'' 7 ep (role sample_route) lane, jb_run = ''r'', jb_challenge = 7, jb_episode = ep, jb_rank = 0,
      jb_phase = phase_of ep, jb_role = role sample_route, jb_agent_role = agent, jb_model = m, jb_effort = e,
      jb_lane = int lane, jb_state = ''queued'', jb_fingerprint = fp, jb_admitted = seq, jb_started = None,
      jb_closed = None\<rparr>)"

lemmas sample_plane_defs = sample_plane_def sample_lanes_def empty_db_def sample_job_def

lemmas run_tx = tx_bind_def tx_check_def tx_return_def tx_modify_def bind_result_def ensure_def

lemma sample_admit:
  assumes "fp = fingerprint sha sample_route"
  shows "\<exists>d. admit_control_wave sha ''r'' 7 0 0 2 sample_route (Some sample_lanes) sample_plane = (Inr (), d)
    \<and> control_jobs d = [sample_job fp 0 0 (''lead'', ''m'', ''high'') 1, sample_job fp 0 1 (''verifier'', ''m'', ''low'') 2]
    \<and> attempts d = []"
proof -
  have ids: "job_id ''r'' 7 0 x 1 \<noteq> job_id ''r'' 7 0 x 0" for x
    by (simp add: job_id_def show_int_def)
  show ?thesis
    using ids assms
    by (simp add: admit_control_wave_def admit_wave_def wave_assignments_def sample_plane_defs assignment_ok_def
        AGENT_ROLES_def insert_route_def admit_lane_def insert_control_event_def insert_job_def run_tx
        has_run_def has_challenge_def transaction_def enumerate_eq_zip same_route_def in_wave_def)
qed

section \<open>The transition between waves\<close>

definition lane_row :: "string \<Rightarrow> int \<Rightarrow> int \<Rightarrow> int \<Rightarrow> string \<Rightarrow> nat \<times> assignment \<Rightarrow> job_row \<Rightarrow> bool" where
  "lane_row run c ep rank fp la j \<longleftrightarrow> in_wave run c ep j \<and> jb_rank j = rank \<and> jb_fingerprint j = fp
     \<and> jb_state j = ''queued'' \<and> jb_lane j = int (fst la) \<and> (jb_agent_role j, jb_model j, jb_effort j) = snd la"

lemma sort_key_Nil [simp]: "sort_key f xs = [] \<longleftrightarrow> xs = []"
  by (metis length_0_conv length_sort)

lemma control_event_tables:
  "insert_control_event run what job data d = Inr (seq, d') \<Longrightarrow>
     control_jobs d' = control_jobs d \<and> control_routes d' = control_routes d \<and> attempts d' = attempts d"
  by (auto simp: insert_control_event_def elim!: bind_result_InrE)

lemma admit_lane_effect:
  assumes "admit_lane run c ep rank wave_role fp la d = Inr (u, d')"
  shows "\<exists>j. control_jobs d' = control_jobs d @ [j] \<and> lane_row run c ep rank fp la j
    \<and> control_routes d' = control_routes d"
  using assms by (cases la)
    (auto simp: admit_lane_def insert_control_event_def insert_job_def lane_row_def in_wave_def
      elim!: tx_bind_InrE bind_result_InrE)

lemma admit_lanes_effect:
  assumes "tx_each (admit_lane run c ep rank wave_role fp) las d = Inr (u, d')"
  shows "\<exists>new. control_jobs d' = control_jobs d @ new \<and> list_all2 (lane_row run c ep rank fp) las new
    \<and> control_routes d' = control_routes d"
  using assms
proof (induction las arbitrary: d)
  case Nil
  then show ?case by (simp add: tx_return_Inr)
next
  case (Cons la las)
  then obtain v d1 where d1: "admit_lane run c ep rank wave_role fp la d = Inr (v, d1)"
    "tx_each (admit_lane run c ep rank wave_role fp) las d1 = Inr (u, d')" by (auto elim!: tx_bind_InrE)
  from Cons.IH [OF d1(2)] obtain new where new: "control_jobs d' = control_jobs d1 @ new"
    "list_all2 (lane_row run c ep rank fp) las new" "control_routes d' = control_routes d1" by blast
  from admit_lane_effect [OF d1(1)] obtain j where "control_jobs d1 = control_jobs d @ [j]"
    "lane_row run c ep rank fp la j" "control_routes d1 = control_routes d" by blast
  with new show ?case by (intro exI [of _ "j # new"]) simp
qed

lemma admit_wave_effect:
  assumes "admit_wave sha run c ep rank lanes r xs unused d = Inr (u, d')"
  defines "fp \<equiv> fingerprint sha r"
  shows "\<exists>new. control_jobs d' = control_jobs d @ new
    \<and> list_all2 (lane_row run c ep rank fp) (enumerate 0 (wave_assignments lanes r xs)) new
    \<and> (\<exists>x \<in> set (control_routes d'). same_route run c fp x)
    \<and> (unused \<longrightarrow> \<not> (\<exists>x \<in> set (control_routes d). same_route run c fp x))"
proof -
  from assms(1) obtain b d1 where d1: "insert_route sha run c ep r d = Inr (b, d1)" "unused \<longrightarrow> b"
    "tx_each (admit_lane run c ep rank (role r) fp) (enumerate 0 (wave_assignments lanes r xs)) d1 = Inr (u, d')"
    by (auto simp: admit_wave_def Let_def tx_check_Inr fp_def elim!: tx_bind_InrE)
  have "control_jobs d1 = control_jobs d \<and> (\<exists>x \<in> set (control_routes d1). same_route run c fp x)
      \<and> (b \<longrightarrow> \<not> (\<exists>x \<in> set (control_routes d). same_route run c fp x))"
    using d1(1) by (auto simp: insert_route_def fp_def same_route_def split: if_split_asm elim!: bind_result_InrE)
  with admit_lanes_effect [OF d1(3)] d1(2) show ?thesis by auto
qed

text \<open>C22. The transition between waves is one transaction: it fails and leaves the state as it was, or the
  successor route was never admitted before for this challenge, every open lane of the source wave takes
  the status of its attempt (\<open>failed\<close> or \<open>cancelled\<close> without one), no other job changes, and exactly one
  queued job per assignment is appended, in lane order, on the successor route.\<close>

theorem wave_transition_atomic:
  assumes "finish_and_admit_control_wave sha run c ep ep' rank terminal r xs why d = (res, d')"
    "distinct (map jb_id (control_jobs d))"
  shows "(\<exists>e. res = Inl e \<and> d' = d) \<or>
    (res = Inr () \<and> \<not> (\<exists>x \<in> set (control_routes d). same_route run c (fingerprint sha r) x)
     \<and> open_jobs d run c ep \<noteq> []
     \<and> (\<exists>g new. control_jobs d' = map g (control_jobs d) @ new
        \<and> (\<forall>k \<in> set (control_jobs d). same_job (g k) k \<and> (if in_wave run c ep k \<and> open_state (jb_state k)
             then jb_state (g k) = closed_lane_state d run c ep terminal (jb_lane k) else g k = k))
        \<and> list_all2 (lane_row run c ep' rank (fingerprint sha r)) (enumerate 0 xs) new))"
proof (cases res)
  case (Inl e)
  with assms(1) show ?thesis
    by (auto simp: finish_and_admit_control_wave_def transaction_def split: sum.split_asm)
next
  case (Inr u)
  with assms(1) obtain d1 d2 where d1: "finish_wave run c ep terminal d = Inr ((), d1)"
    and d2: "control_jobs d2 = control_jobs d1" "control_routes d2 = control_routes d1"
    and ad: "admit_wave sha run c ep' rank (length xs) r (Some xs) True d2 = Inr (u, d')"
    by (auto simp: finish_and_admit_control_wave_def transaction_def
        split: sum.split_asm elim!: tx_bind_InrE dest!: control_event_tables)
  obtain rs where rs: "control_routes d1 = control_routes d @ rs"
    using tx_keepsD [OF grows_finish_wave d1] by (auto simp: grows_def)
  obtain g where g: "control_jobs d1 = map g (control_jobs d)" "\<And>k. same_job (g k) k"
    "\<forall>k \<in> set (control_jobs d). if in_wave run c ep k \<and> open_state (jb_state k)
       then jb_state (g k) = closed_lane_state d run c ep terminal (jb_lane k) else g k = k"
    using finish_wave_effect [OF d1 assms(2)] by blast
  obtain new where new: "control_jobs d' = control_jobs d2 @ new"
    "list_all2 (lane_row run c ep' rank (fingerprint sha r)) (enumerate 0 xs) new"
    "\<not> (\<exists>x \<in> set (control_routes d2). same_route run c (fingerprint sha r) x)"
    using admit_wave_effect [OF ad] by (auto simp: wave_assignments_def)
  have "open_jobs d run c ep \<noteq> []" using d1 by (auto simp: finish_wave_def Let_def)
  with g new rs d2 Inr show ?thesis by auto
qed

section \<open>Draining the admitted waves\<close>

text \<open>Without an admission only starts and finishes are left. An attempt that still runs keeps its lane
  open, so the drain is over attempts that have ended.\<close>

inductive drain_step :: "db \<Rightarrow> db \<Rightarrow> bool" where
  Start: "start_control_wave run c ep d = (Inr n, d') \<Longrightarrow> drain_step d d'"
| Finish: "finish_control_wave run c ep terminal d = (Inr u, d') \<Longrightarrow> drain_step d d'"

definition job_work :: "job_row \<Rightarrow> nat" where
  "job_work j = (if jb_state j = ''queued'' then 2 else if jb_state j = ''running'' then 1 else 0)"

definition drain_work :: "db \<Rightarrow> nat" where
  "drain_work d = sum_list (map job_work (control_jobs d))"

definition attempts_ended :: "db \<Rightarrow> bool" where
  "attempts_ended d \<longleftrightarrow> (\<forall>a \<in> set (attempts d). \<not> open_state (at_status a))"

lemma closed_lane_work:
  assumes "attempts_ended d"
  shows "\<not> open_state (closed_lane_state d run c ep terminal lane)"
proof (cases "attempt_status d run c ep lane")
  case None
  then show ?thesis by (simp add: closed_lane_state_def open_state_def)
next
  case (Some s)
  then obtain a where "a \<in> set (attempts d)" "at_status a = s"
    by (auto simp: attempt_status_def dest: first_row_Some)
  with assms Some show ?thesis by (auto simp: attempts_ended_def closed_lane_state_def)
qed

lemma sum_list_map_less:
  "\<forall>k \<in> set xs. f k \<le> (g k :: nat) \<Longrightarrow> k \<in> set xs \<Longrightarrow> f k < g k \<Longrightarrow> sum_list (map f xs) < sum_list (map g xs)"
proof (induction xs)
  case (Cons x xs)
  have "sum_list (map f xs) \<le> sum_list (map g xs)" using Cons.prems(1) by (intro sum_list_mono) simp
  with Cons show ?case by (cases "k = x") (auto simp: add_less_le_mono add_le_less_mono)
qed simp

lemma mapped_work_less:
  assumes "control_jobs d' = map g (control_jobs d)" "\<forall>k \<in> set (control_jobs d). job_work (g k) \<le> job_work k"
    "k \<in> set (control_jobs d)" "job_work (g k) < job_work k"
  shows "drain_work d' < drain_work d"
  using sum_list_map_less [OF assms(2-4)] by (simp add: drain_work_def assms(1) comp_def)

lemma drain_step_decreases:
  assumes "drain_step d d'" "attempts_ended d" "distinct (map jb_id (control_jobs d))"
  shows "drain_work d' < drain_work d \<and> attempts d' = attempts d
    \<and> map jb_id (control_jobs d') = map jb_id (control_jobs d)"
  using assms(1)
proof cases
  case (Start run c ep n)
  then have *: "start_wave run c ep d = Inr (n, d')"
    by (auto simp: start_control_wave_def transaction_def split: sum.split_asm)
  obtain g where g: "control_jobs d' = map g (control_jobs d)" "\<And>k. same_job (g k) k"
    "\<forall>k \<in> set (control_jobs d). if in_wave run c ep k \<and> jb_state k = ''queued''
         then jb_state (g k) = ''running'' else g k = k"
    using start_wave_effect [OF * assms(3)] by blast
  obtain k where k: "k \<in> set (control_jobs d)" "in_wave run c ep k" "jb_state k = ''queued''"
    using * by (auto simp: start_wave_def Let_def queued_jobs_def filter_empty_conv split: if_split_asm)
  have "\<forall>k \<in> set (control_jobs d). job_work (g k) \<le> job_work k"
    using g(3) by (auto simp: job_work_def split: if_split_asm)
  moreover have "job_work (g k) < job_work k" using g(3) k by (simp add: job_work_def)
  ultimately have "drain_work d' < drain_work d" using mapped_work_less [OF g(1)] k(1) by blast
  moreover have "attempts d' = attempts d" using tx_keepsD [OF grows_start_wave *] by (simp add: grows_def)
  moreover have "map jb_id (control_jobs d') = map jb_id (control_jobs d)" using g(1,2) by (simp add: same_job_def)
  ultimately show ?thesis by blast
next
  case (Finish run c ep terminal u)
  then have *: "finish_wave run c ep terminal d = Inr ((), d')"
    by (auto simp: finish_control_wave_def transaction_def split: sum.split_asm)
  obtain g where g: "control_jobs d' = map g (control_jobs d)" "\<And>k. same_job (g k) k"
    "\<forall>k \<in> set (control_jobs d). if in_wave run c ep k \<and> open_state (jb_state k)
         then jb_state (g k) = closed_lane_state d run c ep terminal (jb_lane k) else g k = k"
    using finish_wave_effect [OF * assms(3)] by blast
  obtain k where k: "k \<in> set (control_jobs d)" "in_wave run c ep k" "open_state (jb_state k)"
    using * by (auto simp: finish_wave_def Let_def open_jobs_def filter_empty_conv split: if_split_asm)
  have closed: "\<not> open_state (jb_state (g k))"
    if "k \<in> set (control_jobs d)" "in_wave run c ep k" "open_state (jb_state k)" for k
    using g(3) that closed_lane_work [OF assms(2)] by auto
  have "job_work (g k) \<le> job_work k" if "k \<in> set (control_jobs d)" for k
  proof (cases "in_wave run c ep k \<and> open_state (jb_state k)")
    case True
    then show ?thesis using closed [OF that] by (simp add: job_work_def open_state_def)
  next
    case False
    with bspec [OF g(3) that] have "g k = k" by (simp only: if_False)
    then show ?thesis by simp
  qed
  then have "\<forall>k \<in> set (control_jobs d). job_work (g k) \<le> job_work k" by blast
  moreover have "job_work (g k) < job_work k" using closed [OF k] k(3) by (auto simp: job_work_def open_state_def)
  ultimately have "drain_work d' < drain_work d" using mapped_work_less [OF g(1)] k(1) by blast
  moreover have "attempts d' = attempts d" using tx_keepsD [OF grows_finish_wave *] by (simp add: grows_def)
  moreover have "map jb_id (control_jobs d') = map jb_id (control_jobs d)" using g(1,2) by (simp add: same_job_def)
  ultimately show ?thesis by blast
qed

lemma drain_work_counts:
  "drain_work d = 2 * count_rows (\<lambda>j. jb_state j = ''queued'') (control_jobs d)
      + count_rows (\<lambda>j. jb_state j = ''running'') (control_jobs d)"
proof -
  have "sum_list (map job_work js) = 2 * count_rows (\<lambda>j. jb_state j = ''queued'') js
      + count_rows (\<lambda>j. jb_state j = ''running'') js" for js
    by (induction js) (auto simp: job_work_def)
  then show ?thesis by (simp add: drain_work_def)
qed

text \<open>C24. In a store whose job ids are distinct and in which no attempt is queued or running, and as long as
  nothing new is admitted, starting and finishing waves terminates: at most two operations per queued and one
  per running job can succeed. An attempt that still runs would keep its lane open, see below.\<close>

theorem admitted_waves_drain:
  assumes "(drain_step ^^ n) d d'" "attempts_ended d" "distinct (map jb_id (control_jobs d))"
  shows "n \<le> 2 * count_rows (\<lambda>j. jb_state j = ''queued'') (control_jobs d)
      + count_rows (\<lambda>j. jb_state j = ''running'') (control_jobs d)"
proof -
  have "n + drain_work d' \<le> drain_work d \<and> attempts_ended d' \<and> distinct (map jb_id (control_jobs d'))"
    using assms(1)
  proof (induction n arbitrary: d')
    case 0
    then show ?case using assms(2,3) by simp
  next
    case (Suc n)
    then obtain d1 where "(drain_step ^^ n) d d1" and step: "drain_step d1 d'" by auto
    with Suc.IH drain_step_decreases [OF step] show ?case by (fastforce simp: attempts_ended_def)
  qed
  then show ?thesis by (simp add: drain_work_counts)
qed


section \<open>A wave in flight\<close>

definition sample_wave :: "string \<Rightarrow> db" where
  "sample_wave s = sample_plane
     \<lparr>control_routes := [\<lparr>rt_run = ''r'', rt_challenge = 7, rt_fingerprint = fingerprint id sample_route,
        rt_first_episode = 0, rt_document = PNone\<rparr>],
      control_jobs := [(sample_job (fingerprint id sample_route) 0 0 (''lead'', ''m'', ''high'') 1)\<lparr>jb_state := s\<rparr>]\<rparr>"

lemma sample_start:
  "\<exists>d. start_control_wave ''r'' 7 0 (sample_wave ''queued'') = (Inr 1, d) \<and> attempts d = []
     \<and> runs d = runs sample_plane
     \<and> (\<exists>j. control_jobs d = [j] \<and> in_wave ''r'' 7 0 j \<and> jb_state j = ''running'')"
  by (simp add: start_control_wave_def start_wave_def queued_jobs_def sample_wave_def sample_plane_defs in_wave_def
      start_job_def insert_control_event_def set_job_def where_update_def run_tx has_run_def transaction_def)

lemma finish_one:
  assumes "control_jobs d = [j]" "in_wave run c ep j" "open_state (jb_state j)" "has_run d run"
  shows "\<exists>d'. finish_control_wave run c ep terminal d = (Inr (), d')"
  using assms by (simp add: finish_control_wave_def finish_wave_def open_jobs_def close_job_def
      insert_control_event_def set_job_def run_tx transaction_def Let_def)

theorem admitted_waves_drain_witness:
  "\<exists>d. (drain_step ^^ 2) (sample_wave ''queued'') d
     \<and> 2 \<le> 2 * count_rows (\<lambda>j. jb_state j = ''queued'') (control_jobs (sample_wave ''queued''))
        + count_rows (\<lambda>j. jb_state j = ''running'') (control_jobs (sample_wave ''queued''))"
proof -
  obtain d j where d: "start_control_wave ''r'' 7 0 (sample_wave ''queued'') = (Inr 1, d)" "runs d = runs sample_plane"
    "control_jobs d = [j]" "in_wave ''r'' 7 0 j" "jb_state j = ''running''" using sample_start by blast
  obtain d' where d': "finish_control_wave ''r'' 7 0 ''solved'' d = (Inr (), d')"
    using finish_one [OF d(3,4)] d(2,5) by (auto simp: open_state_def has_run_def sample_plane_defs)
  have two: "(drain_step ^^ 2) (sample_wave ''queued'') d'"
    using drain_step.Start [OF d(1)] drain_step.Finish [OF d'] by (auto simp: numeral_2_eq_2)
  from admitted_waves_drain [OF this] two show ?thesis
    by (intro exI [of _ d']) (simp add: sample_wave_def sample_plane_defs attempts_ended_def)
qed

lemma sample_fresh_route:
  "fingerprint id sample_route \<noteq> fingerprint id sample_timeout_successor"
  by (auto simp: fingerprint_def sample_timeout_successor_def sample_route_def dest: route_json_inject)

lemma sample_digits: "dec_digits 0 = ''0''" "dec_digits (Suc 0) = ''1''"
  by code_simp+

lemma sample_transition:
  "\<exists>d. finish_and_admit_control_wave id ''r'' 7 0 1 0 ''unsolved'' sample_timeout_successor sample_lanes ''timeout''
     (sample_wave ''running'') = (Inr (), d)"
proof -
  have ids: "job_id ''r'' 7 1 x i \<noteq> job_id ''r'' 7 0 y k" "job_id ''r'' 7 1 x 1 \<noteq> job_id ''r'' 7 1 x 0" for x y i k
    by (simp_all add: job_id_def show_int_def sample_digits)
  show ?thesis
    using ids sample_fresh_route
    by (simp add: finish_and_admit_control_wave_def finish_wave_def open_jobs_def close_job_def sample_wave_def
        admit_wave_def wave_assignments_def sample_plane_defs assignment_ok_def in_wave_def open_state_def set_job_def
        AGENT_ROLES_def insert_route_def admit_lane_def insert_control_event_def insert_job_def run_tx Let_def where_update_def
        has_run_def has_challenge_def transaction_def enumerate_eq_zip same_route_def closed_lane_state_def)
qed

theorem wave_transition_atomic_witness:
  "\<exists>d. finish_and_admit_control_wave id ''r'' 7 0 1 0 ''unsolved'' sample_timeout_successor sample_lanes ''timeout''
     (sample_wave ''running'') = (Inr (), d)
     \<and> \<not> (\<exists>x \<in> set (control_routes (sample_wave ''running'')).
           same_route ''r'' 7 (fingerprint id sample_timeout_successor) x)
     \<and> length (control_jobs d) = 3"
proof -
  obtain d where d: "finish_and_admit_control_wave id ''r'' 7 0 1 0 ''unsolved'' sample_timeout_successor
    sample_lanes ''timeout'' (sample_wave ''running'') = (Inr (), d)" using sample_transition by blast
  from wave_transition_atomic [OF this] d show ?thesis
    by (intro exI [of _ d]) (auto simp: sample_wave_def sample_plane_defs dest!: list_all2_lengthD)
qed

text \<open>A lane whose attempt still runs is logged as closed but stays open, unlike in the interruption
  of a run.\<close>

lemma finish_keeps_running_lane:
  assumes "finish_control_wave run c ep terminal d = (Inr u, d')" "distinct (map jb_id (control_jobs d))"
    "j \<in> set (control_jobs d)" "in_wave run c ep j" "open_state (jb_state j)"
    "attempt_status d run c ep (jb_lane j) = Some ''running''"
  shows "\<exists>k \<in> set (control_jobs d'). jb_id k = jb_id j \<and> jb_state k = ''running''"
proof -
  from assms(1) have "finish_wave run c ep terminal d = Inr ((), d')"
    by (auto simp: finish_control_wave_def transaction_def split: sum.split_asm)
  from finish_wave_effect [OF this assms(2)] assms(3-6) show ?thesis
    by (force simp: closed_lane_state_def same_job_def)
qed

end
