(* ===== verification/Run_Lifecycle.thy ===== *)
theory Run_Lifecycle
  imports Control_Waves "HOL-Library.Product_Lexorder"
begin

text \<open>
  Runs, attempts and their recovery in \<open>src/rapido/state.py\<close>: starting, resuming and finishing a run
  under the supervisor lease, the binding of the Board identity, the challenge and attempt rows, the
  interruption of the control plane, the operator stop, and the recovery after a restart.
\<close>

section \<open>Rows written outside the control plane\<close>

definition insert_run :: "run_row \<Rightarrow> unit tx" where
  "insert_run r d =
     bind_result (unique_key (\<not> has_run d (rn_id r))) (\<lambda>_. Inr ((), d\<lparr>runs := runs d @ [r]\<rparr>))"

definition insert_event :: "string \<Rightarrow> string \<Rightarrow> string \<Rightarrow> pyval \<Rightarrow> nat tx" where
  "insert_event run stamp what data d =
     bind_result (foreign_key (has_run d run)) (\<lambda>_.
     Inr (length (events d) + 1, d\<lparr>events := events d @ [\<lparr>ev_run = run, ev_at = stamp, ev_kind = what, ev_data = data\<rparr>]\<rparr>))"

definition start_run :: "clock \<Rightarrow> string \<Rightarrow> pyval \<Rightarrow> db \<Rightarrow> unit result \<times> db" where
  "start_run now run config = transaction (insert_run
     \<lparr>rn_id = run, rn_started = now 0, rn_finished = None, rn_status = ''running'', rn_config = Some config\<rparr>)"

definition RUN_END :: "string list" where
  "RUN_END = [''completed'', ''deadline'', ''failed'', ''interrupted'']"

definition live_run :: "string \<Rightarrow> run_row \<Rightarrow> bool" where
  "live_run run r \<longleftrightarrow> rn_id r = run \<and> rn_status r = ''running''"

definition end_run :: "string \<Rightarrow> string \<Rightarrow> run_row \<Rightarrow> run_row" where
  "end_run stamp status r = r\<lparr>rn_finished := Some stamp, rn_status := status\<rparr>"

definition finish_run_body :: "clock \<Rightarrow> string \<Rightarrow> string \<Rightarrow> unit tx" where
  "finish_run_body now run status d =
     (if count_rows (live_run run) (runs d) \<noteq> 1 then Inl (ValueError ''run is absent or not running'')
      else Inr ((), d\<lparr>runs := where_update (live_run run) (end_run (now 0) status) (runs d)\<rparr>))"

definition finish_run :: "clock \<Rightarrow> string \<Rightarrow> string \<Rightarrow> db \<Rightarrow> unit result \<times> db" where
  "finish_run now run status d =
     (if status \<notin> set RUN_END then (Inl (ValueError ''invalid run status''), d)
      else transaction (finish_run_body now run status) d)"

definition bind_identity_body :: "int \<Rightarrow> int \<Rightarrow> unit tx" where
  "bind_identity_body user team d =
     (case identity d of
        None \<Rightarrow>
          if intents d \<noteq> [] \<or> list_ex (\<lambda>r. in_status r \<in> {''creating'', ''owned'', ''cleanup_pending''}) (instances d)
          then Inl (RuntimeError (''legacy state has unbound external effects; use its original identity ''
            @ ''or a new state''))
          else Inr ((), d\<lparr>identity := Some (user, team)\<rparr>)
      | Some bound \<Rightarrow>
          if bound \<noteq> (user, team) then Inl (RuntimeError ''state is bound to a different qualified Board identity'')
          else Inr ((), d))"

definition bind_board_identity :: "int \<Rightarrow> int \<Rightarrow> db \<Rightarrow> unit result \<times> db" where
  "bind_board_identity user team d =
     (if user \<le> 0 \<or> team \<le> 0 then (Inl (ValueError ''Board identity must contain positive user and team ids''), d)
      else transaction (bind_identity_body user team) d)"

definition upsert_challenge :: "clock \<Rightarrow> int \<Rightarrow> string \<Rightarrow> string \<Rightarrow> string \<Rightarrow> int \<Rightarrow> db \<Rightarrow> unit result \<times> db" where
  "upsert_challenge now c name category ctype v = transaction (tx_modify (\<lambda>d.
     let new = \<lparr>ch_id = c, ch_name = name, ch_category = category, ch_type = ctype, ch_value = v,
                ch_status = ''queued'', ch_updated = now 0\<rparr> in
     d\<lparr>challenges := (if has_challenge d c
        then where_update (\<lambda>r. ch_id r = c) (\<lambda>r. new\<lparr>ch_status := ch_status r\<rparr>) (challenges d)
        else challenges d @ [new])\<rparr>))"

definition CHALLENGE_STATUS :: "string list" where
  "CHALLENGE_STATUS = [''queued'', ''running'', ''candidate'', ''solved'', ''unsolved'', ''unsupported'', ''error'']"

definition set_challenge_status :: "clock \<Rightarrow> int \<Rightarrow> string \<Rightarrow> db \<Rightarrow> unit result \<times> db" where
  "set_challenge_status now c status d =
     (if status \<notin> set CHALLENGE_STATUS then (Inl (ValueError ''invalid challenge status''), d)
      else transaction (\<lambda>d.
        if count_rows (\<lambda>r. ch_id r = c) (challenges d) \<noteq> 1 then Inl (ValueError ''challenge is absent'')
        else Inr ((), d\<lparr>challenges := where_update (\<lambda>r. ch_id r = c)
          (\<lambda>r. r\<lparr>ch_status := status, ch_updated := now 0\<rparr>) (challenges d)\<rparr>)) d)"

section \<open>Attempts\<close>

definition insert_attempt :: "attempt_row \<Rightarrow> unit tx" where
  "insert_attempt a d =
     bind_result (unique_key (\<forall>b \<in> set (attempts d). at_id b \<noteq> at_id a
       \<and> \<not> (at_run b = at_run a \<and> at_challenge b = at_challenge a \<and> at_episode b = at_episode a \<and> at_lane b = at_lane a))) (\<lambda>_.
     bind_result (foreign_key (has_run d (at_run a) \<and> has_challenge d (at_challenge a))) (\<lambda>_.
     Inr ((), d\<lparr>attempts := attempts d @ [a]\<rparr>)))"

definition check_assignment :: "string \<Rightarrow> int \<Rightarrow> int \<Rightarrow> int \<Rightarrow> string \<Rightarrow> string \<Rightarrow> unit tx" where
  "check_assignment run c ep lane m e d =
     (case first_row (running_lane run c ep lane) (control_jobs d) of
        None \<Rightarrow> Inl (ValueError ''attempt has no running control assignment'')
      | Some j \<Rightarrow>
          if (jb_model j, jb_effort j) \<noteq> (m, e)
          then Inl (ValueError ''attempt model or effort differs from control assignment'')
          else Inr ((), d))"

definition start_attempt ::
  "clock \<Rightarrow> string \<Rightarrow> string \<Rightarrow> int \<Rightarrow> int \<Rightarrow> int \<Rightarrow> string \<Rightarrow> string \<Rightarrow> bool \<Rightarrow> db \<Rightarrow> unit result \<times> db" where
  "start_attempt now attempt run c ep lane m e require_assignment d =
     (if ep < 0 then (Inl (ValueError ''episode must be a nonnegative integer''), d)
      else if m = [] \<or> e = [] then (Inl (ValueError ''invalid attempt identity''), d)
      else transaction
        (tx_bind (if require_assignment then check_assignment run c ep lane m e else tx_return ()) (\<lambda>_.
         insert_attempt \<lparr>at_id = attempt, at_run = run, at_challenge = c, at_episode = ep, at_lane = lane,
           at_started = now 0, at_finished = None, at_status = ''running'', at_model = m, at_effort = e,
           at_summary = [], at_candidate = None, at_confidence = None, at_evidence = [], at_next_steps = [],
           at_observations = [], at_tool_count = 0, at_failure = None\<rparr>)) d)"

definition active_attempts :: "db \<Rightarrow> attempt_row list" where
  "active_attempts d = sort_key at_started (sort_key at_id (filter (\<lambda>a. at_status a = ''running'') (attempts d)))"

definition attempts_for_challenge :: "db \<Rightarrow> string \<Rightarrow> int \<Rightarrow> attempt_row list" where
  "attempts_for_challenge d run c =
     sort_key at_lane (sort_key at_started (sort_key at_id
       (filter (\<lambda>a. at_run a = run \<and> at_challenge a = c) (attempts d))))"

text \<open>The interruption of running attempts: their summary is kept when there is one.\<close>

definition interrupt_attempt :: "string \<Rightarrow> string \<Rightarrow> string \<Rightarrow> attempt_row \<Rightarrow> attempt_row" where
  "interrupt_attempt stamp text failure_class a =
     a\<lparr>at_finished := Some stamp, at_status := ''interrupted'',
       at_summary := (if at_summary a = [] then text else at_summary a), at_failure := Some failure_class\<rparr>"

definition live_attempt :: "string \<Rightarrow> attempt_row \<Rightarrow> bool" where
  "live_attempt run a \<longleftrightarrow> at_run a = run \<and> at_status a = ''running''"

definition interrupt_attempts :: "string \<Rightarrow> string \<Rightarrow> string \<Rightarrow> string \<Rightarrow> unit tx" where
  "interrupt_attempts run stamp text failure_class = tx_modify (\<lambda>d.
     d\<lparr>attempts := where_update (live_attempt run) (interrupt_attempt stamp text failure_class) (attempts d)\<rparr>)"

section \<open>Interrupting the control plane\<close>

definition interrupted_state :: "db \<Rightarrow> job_row \<Rightarrow> string" where
  "interrupted_state d j =
     (case attempt_status d (jb_run j) (jb_challenge j) (jb_episode j) (jb_lane j) of
        None \<Rightarrow> ''interrupted'' | Some s \<Rightarrow> if s = ''running'' then ''interrupted'' else s)"

definition interrupt_job :: "string \<Rightarrow> string \<Rightarrow> job_row \<Rightarrow> unit tx" where
  "interrupt_job run why j d =
     (let job_state = interrupted_state d j in
      tx_bind (insert_control_event run (if job_state \<noteq> ''interrupted'' then ''job_closed'' else ''job_interrupted'')
        (Some (jb_id j))
        (PDict [(''challenge_id'', PInt (jb_challenge j)), (''episode'', PInt (jb_episode j)),
          (''lane_state'', PStr job_state), (''lane'', PInt (jb_lane j)), (''reason'', PStr why)])) (\<lambda>seq.
      set_job (jb_id j) (\<lambda>k. k\<lparr>jb_state := job_state, jb_closed := Some seq\<rparr>)) d)"

definition interrupt_control_jobs :: "string \<Rightarrow> string \<Rightarrow> nat tx" where
  "interrupt_control_jobs run why d =
     (let rows = sort_key jb_admitted (filter (\<lambda>j. jb_run j = run \<and> open_state (jb_state j)) (control_jobs d)) in
      tx_bind (tx_each (interrupt_job run why) rows) (\<lambda>_. tx_return (length rows)) d)"

definition ENDED_TEXT :: string where
  "ENDED_TEXT = ''run ended before lane finalization''"

definition interrupt_control_run :: "clock \<Rightarrow> string \<Rightarrow> string \<Rightarrow> db \<Rightarrow> nat result \<times> db" where
  "interrupt_control_run now run why = transaction
     (tx_bind (interrupt_attempts run (now 0) ENDED_TEXT ''interrupted'') (\<lambda>_. interrupt_control_jobs run why))"

definition operator_stop_body :: "clock \<Rightarrow> string \<Rightarrow> string tx" where
  "operator_stop_body now run d =
     (case first_row (\<lambda>r. rn_id r = run) (runs d) of
        None \<Rightarrow> Inl (ValueError ''run is absent'')
      | Some r \<Rightarrow>
          if rn_status r \<noteq> ''running'' then Inr (rn_status r, d)
          else tx_bind (interrupt_attempts run (now 0) ENDED_TEXT ''interrupted'') (\<lambda>_.
               tx_bind (interrupt_control_jobs run ''operator_stop'') (\<lambda>_.
               tx_bind (\<lambda>d. if count_rows (live_run run) (runs d) \<noteq> 1
                   then Inl (RuntimeError ''running run changed during operator stop finalization'')
                   else Inr ((), d\<lparr>runs := where_update (live_run run) (end_run (now 0) ''interrupted'') (runs d)\<rparr>)) (\<lambda>_.
               tx_bind (insert_event run (now 0) ''operator_stop''
                 (PDict [(''external_effects_settled'', PBool False), (''status'', PStr ''interrupted'')])) (\<lambda>_.
               tx_return ''interrupted'')))) d)"

definition finalize_operator_stop :: "clock \<Rightarrow> string \<Rightarrow> db \<Rightarrow> string result \<times> db" where
  "finalize_operator_stop now run d =
     (if \<not> leased d then (Inl (RuntimeError ''operator stop finalization requires the supervisor lease''), d)
      else transaction (operator_stop_body now run) d)"

section \<open>Recovery after a restart\<close>

definition requeue_challenges :: "string \<Rightarrow> unit tx" where
  "requeue_challenges stamp = tx_modify (\<lambda>d. d\<lparr>challenges := where_update (\<lambda>r. ch_status r = ''running'')
     (\<lambda>r. r\<lparr>ch_status := ''queued'', ch_updated := stamp\<rparr>) (challenges d)\<rparr>)"

definition recovery_event :: "string \<Rightarrow> string \<times> nat \<Rightarrow> unit tx" where
  "recovery_event stamp rc = tx_bind (insert_event (fst rc) stamp ''recovery''
     (PDict [(''interrupted_attempts'', PInt (int (snd rc)))])) (\<lambda>_. tx_return ())"

text \<open>\<open>SELECT run_id, COUNT(*) ... GROUP BY run_id\<close>: the groups in the order of their keys.\<close>

definition running_counts :: "db \<Rightarrow> (string \<times> nat) list" where
  "running_counts d =
     map (\<lambda>r. (r, count_rows (live_attempt r) (attempts d)))
       (sort (remdups (map at_run (filter (\<lambda>a. at_status a = ''running'') (attempts d)))))"

definition recover_body :: "clock \<Rightarrow> nat tx" where
  "recover_body now d =
     (let live = map rn_id (sort_key rn_started (sort_key rn_id (filter (\<lambda>r. rn_status r = ''running'') (runs d)))) in
      tx_bind (tx_each (\<lambda>r. tx_bind (interrupt_control_jobs r ''supervisor_restart'') (\<lambda>_. tx_return ())) live) (\<lambda>_ d.
      let rows = running_counts d; n = count_rows (\<lambda>a. at_status a = ''running'') (attempts d) in
      tx_bind (tx_modify (\<lambda>d. d\<lparr>attempts := where_update (\<lambda>a. at_status a = ''running'')
        (\<lambda>a. a\<lparr>at_finished := Some (now 0), at_status := ''interrupted'',
              at_summary := ''process ended before restart''\<rparr>) (attempts d)\<rparr>)) (\<lambda>_.
      tx_bind (tx_each (recovery_event (now 0)) rows) (\<lambda>_.
      tx_bind (requeue_challenges (now 0)) (\<lambda>_.
      tx_bind (tx_modify (\<lambda>d. d\<lparr>runs := where_update (\<lambda>r. rn_status r = ''running'') (end_run (now 0) ''interrupted'') (runs d)\<rparr>)) (\<lambda>_.
      tx_return n)))) d) d)"

definition recover_interrupted :: "clock \<Rightarrow> db \<Rightarrow> nat result \<times> db" where
  "recover_interrupted now d =
     (if \<not> leased d then (Inl (RuntimeError ''state recovery requires the supervisor lease''), d)
      else transaction (recover_body now) d)"

section \<open>Resuming the same run\<close>

text \<open>The Board and phase a configuration is bound to; both fields or neither.\<close>

definition run_scope :: "(string \<times> pyval) list \<Rightarrow> (pyval \<times> pyval) result" where
  "run_scope config =
     (let scope = (dict_get config ''board_url'', dict_get config ''profile'');
          whole = (\<lambda>v. case v of PStr s \<Rightarrow> s \<noteq> [] | _ \<Rightarrow> False) in
      if scope \<noteq> (PNone, PNone) \<and> \<not> (whole (fst scope) \<and> whole (snd scope))
      then Inl (RuntimeError ''run has an incomplete Board/phase scope; use a new empty state'')
      else Inr scope)"

definition check_history :: "pyval \<times> pyval \<Rightarrow> run_row \<Rightarrow> unit result" where
  "check_history requested r =
     (case rn_config r of
        Some (PDict previous) \<Rightarrow>
          bind_result (run_scope previous) (\<lambda>scope.
          ensure (scope = requested)
            (RuntimeError ''state is bound to a different Board or phase; use a new empty state''))
      | _ \<Rightarrow> Inl (RuntimeError ''state has an unreadable Board/phase scope''))"

record run_session =
  rs_run :: string
  rs_started :: string
  rs_resumed :: bool

definition running_waves :: "db \<Rightarrow> string \<Rightarrow> (int \<times> int) list" where
  "running_waves d run = sort (remdups (map (\<lambda>j. (jb_challenge j, jb_episode j))
     (filter (\<lambda>j. jb_run j = run \<and> jb_state j = ''running'') (control_jobs d))))"

definition restart_origin :: "string \<Rightarrow> int \<Rightarrow> int \<Rightarrow> unit tx" where
  "restart_origin run c ep d =
     (let known = first_row (same_origin run c ep) (failure_origins d) \<noteq> None in
      tx_bind (insert_control_event run (if known then ''process_restart_recorded'' else ''failure_origin_recorded'') None
        (PDict [(''challenge_id'', PInt c), (''episode'', PInt ep), (''origin'', PStr ''container''),
          (''reason'', PStr ''process_restart'')])) (\<lambda>seq.
      if known
      then tx_modify (\<lambda>d. d\<lparr>failure_origins := where_update (same_origin run c ep)
        (\<lambda>x. x\<lparr>og_origin := ''container'', og_reason := ''process_restart'', og_sequence := seq\<rparr>) (failure_origins d)\<rparr>)
      else insert_origin \<lparr>og_run = run, og_challenge = c, og_episode = ep, og_origin = ''container'',
        og_reason = ''process_restart'', og_sequence = seq\<rparr>) d)"

definition seal_wave :: "string \<Rightarrow> int \<times> int \<Rightarrow> unit tx" where
  "seal_wave run w = tx_bind (finish_wave run (fst w) (snd w) ''error'') (\<lambda>_. restart_origin run (fst w) (snd w))"

definition resume_run :: "string \<Rightarrow> run_row \<Rightarrow> run_session tx" where
  "resume_run stamp r d =
     (let run = rn_id r; waves = running_waves d run; n = count_rows (live_attempt run) (attempts d) in
      tx_bind (interrupt_attempts run stamp ''process ended before restart'' ''process_restart'') (\<lambda>_.
      tx_bind (tx_each (seal_wave run) waves) (\<lambda>_.
      tx_bind (tx_each (recovery_event stamp) (if n = 0 then [] else [(run, n)])) (\<lambda>_.
      tx_bind (requeue_challenges stamp) (\<lambda>_.
      tx_bind (insert_event run stamp ''run_resumed''
        (PDict [(''interrupted_attempts'', PInt (int n)), (''interrupted_waves'', PInt (int (length waves)))])) (\<lambda>_.
      tx_return \<lparr>rs_run = run, rs_started = rn_started r, rs_resumed = True\<rparr>))))) d)"

definition start_or_resume_body :: "clock \<Rightarrow> string \<Rightarrow> (string \<times> pyval) list \<Rightarrow> run_session tx" where
  "start_or_resume_body now run config d =
     bind_result (run_scope config) (\<lambda>requested.
     bind_result (traverse (check_history requested) (runs d)) (\<lambda>_.
     case sort_key rn_started (sort_key rn_id (filter (\<lambda>r. rn_status r = ''running'') (runs d))) of
       [] \<Rightarrow> tx_bind (insert_run \<lparr>rn_id = run, rn_started = now 0, rn_finished = None, rn_status = ''running'',
                rn_config = Some (PDict config)\<rparr>) (\<lambda>_.
              tx_return \<lparr>rs_run = run, rs_started = now 0, rs_resumed = False\<rparr>) d
     | [r] \<Rightarrow>
         if map_option json_dumps (rn_config r) \<noteq> Some (json_dumps (PDict config))
         then Inl (RuntimeError ''running run configuration differs from requested configuration'')
         else resume_run (now 0) r d
     | _ \<Rightarrow> Inl (RuntimeError ''state contains multiple running runs'')))"

definition start_or_resume_run :: "clock \<Rightarrow> string \<Rightarrow> (string \<times> pyval) list \<Rightarrow> db \<Rightarrow> run_session result \<times> db" where
  "start_or_resume_run now run config d =
     (if \<not> leased d then (Inl (RuntimeError ''run ownership requires the supervisor lease''), d)
      else transaction (start_or_resume_body now run config) d)"

section \<open>The effect of an interruption\<close>

lemma grows_interrupt_jobs: "tx_keeps grows (interrupt_control_jobs run why)"
proof (rule tx_keepsI)
  fix d n d' assume *: "interrupt_control_jobs run why d = Inr (n, d')"
  have "tx_keeps grows (interrupt_job run why j)" for j
  proof (rule tx_keepsI)
    fix d u d' assume *: "interrupt_job run why j d = Inr (u, d')"
    have "tx_keeps grows (tx_bind (insert_control_event run w i data)
        (\<lambda>seq. set_job (jb_id j) (\<lambda>k. k\<lparr>jb_state := s, jb_closed := Some seq\<rparr>)))" for w i data s
      by (intro grows_rules) (simp add: same_job_def)
    from tx_keepsD [OF this] * show "grows d d'" unfolding interrupt_job_def Let_def by blast
  qed
  then have "tx_keeps grows (tx_bind (tx_each (interrupt_job run why) rows) (\<lambda>_. tx_return (length rows)))" for rows
    by (intro grows_rules)
  from tx_keepsD [OF this] * show "grows d d'" unfolding interrupt_control_jobs_def Let_def by blast
qed

lemma interrupt_jobs_effect:
  assumes "interrupt_control_jobs run why d = Inr (n, d')" "distinct (map jb_id (control_jobs d))"
  shows "n = count_rows (\<lambda>j. jb_run j = run \<and> open_state (jb_state j)) (control_jobs d)
    \<and> (\<exists>g. control_jobs d' = map g (control_jobs d) \<and> (\<forall>k. same_job (g k) k)
    \<and> (\<forall>k \<in> set (control_jobs d). if jb_run k = run \<and> open_state (jb_state k)
         then jb_state (g k) = interrupted_state d k else g k = k))"
proof -
  let ?p = "\<lambda>k. jb_run k = run \<and> open_state (jb_state k)"
  let ?rows = "sort_key jb_admitted (filter ?p (control_jobs d))"
  let ?S = "\<lambda>a. interrupted_state (empty_db\<lparr>attempts := a\<rparr>)"
  obtain u where loop: "tx_each (interrupt_job run why) ?rows d = Inr (u, d')" and n: "n = length ?rows"
    using assms(1) by (auto simp: interrupt_control_jobs_def Let_def tx_return_Inr elim!: tx_bind_InrE)
  have rows: "set ?rows = set (filter ?p (control_jobs d))" "distinct (map jb_id ?rows)"
    using assms(2) by (simp_all add: distinct_map inj_on_def)
  have "attempts d' = attempts d \<and>
      (\<exists>f. control_jobs d' = where_update (\<lambda>k. jb_id k = jb_id j) f (control_jobs d) \<and> (\<forall>k. same_job (f k) k
        \<and> jb_state (f k) = ?S (attempts d) j))"
    if "interrupt_job run why j d = Inr ((), d')" for j d d'
    using log_and_set [OF that [unfolded interrupt_job_def Let_def]]
    by (auto simp: same_job_def interrupted_state_def attempt_status_def)
  from each_job_effect [where S = ?S, OF this loop rows(2)]
  obtain g where g: "control_jobs d' = map g (control_jobs d)" "\<And>k. same_job (g k) k"
    "\<And>k. jb_id k \<notin> jb_id ` set (filter ?p (control_jobs d)) \<Longrightarrow> g k = k"
    "\<And>j k. j \<in> set (filter ?p (control_jobs d)) \<Longrightarrow> jb_id k = jb_id j \<Longrightarrow> jb_state (g k) = ?S (attempts d) j"
    unfolding rows(1) by blast
  have "if ?p k then jb_state (g k) = interrupted_state d k else g k = k" if "k \<in> set (control_jobs d)" for k
    using listed_jobs [OF assms(2) g(3,4) that] by (simp add: interrupted_state_def attempt_status_def)
  with g(1,2) n show ?thesis by (auto simp: count_rows_def)
qed

text \<open>A run is quiet when none of its attempts runs and none of its jobs is open.\<close>

definition quiet_run :: "string \<Rightarrow> db \<Rightarrow> bool" where
  "quiet_run run d \<longleftrightarrow> (\<forall>a \<in> set (attempts d). at_run a = run \<longrightarrow> at_status a \<noteq> ''running'')
     \<and> (\<forall>j \<in> set (control_jobs d). jb_run j = run \<longrightarrow> \<not> open_state (jb_state j))"

lemma interrupted_state_closed:
  assumes "\<forall>a \<in> set (attempts d). at_status a \<noteq> ''queued''"
  shows "\<not> open_state (interrupted_state d k)"
proof (cases "attempt_status d (jb_run k) (jb_challenge k) (jb_episode k) (jb_lane k)")
  case None
  then show ?thesis by (simp add: interrupted_state_def open_state_def)
next
  case (Some s)
  then obtain a where "a \<in> set (attempts d)" "at_status a = s" by (auto simp: attempt_status_def dest: first_row_Some)
  with assms Some show ?thesis by (auto simp: interrupted_state_def open_state_def)
qed

lemma interrupt_jobs_closed:
  assumes "interrupt_control_jobs run why d = Inr (n, d')" "distinct (map jb_id (control_jobs d))"
    "\<forall>a \<in> set (attempts d). at_status a \<noteq> ''queued''"
  shows "(\<forall>j \<in> set (control_jobs d'). jb_run j = run \<longrightarrow> \<not> open_state (jb_state j))
    \<and> filter (\<lambda>j. jb_run j \<noteq> run) (control_jobs d') = filter (\<lambda>j. jb_run j \<noteq> run) (control_jobs d)"
proof -
  obtain g where g: "control_jobs d' = map g (control_jobs d)" "\<And>k. same_job (g k) k"
    "\<forall>k \<in> set (control_jobs d). if jb_run k = run \<and> open_state (jb_state k)
         then jb_state (g k) = interrupted_state d k else g k = k"
    using interrupt_jobs_effect [OF assms(1,2)] by blast
  have run_g: "jb_run (g k) = jb_run k" for k using g(2) [of k] by (simp add: same_job_def)
  have "\<not> open_state (jb_state (g k))" if "k \<in> set (control_jobs d)" "jb_run k = run" for k
    using bspec [OF g(3) that(1)] that(2) interrupted_state_closed [OF assms(3)]
    by (cases "open_state (jb_state k)") auto
  then have "\<forall>j \<in> set (control_jobs d'). jb_run j = run \<longrightarrow> \<not> open_state (jb_state j)"
    by (auto simp: g(1) run_g)
  moreover have "map g (filter (\<lambda>k. jb_run k \<noteq> run) (control_jobs d)) = filter (\<lambda>k. jb_run k \<noteq> run) (control_jobs d)"
    using g(3) by (intro map_idI) auto
  ultimately show ?thesis by (simp add: g(1) filter_map comp_def run_g)
qed

lemma ball_where_update: "(\<forall>r \<in> set (where_update p f rows). Q r) \<longleftrightarrow> (\<forall>r \<in> set rows. Q (if p r then f r else r))"
  by (induction rows) (auto simp: where_update_def)

lemma interrupt_attempts_state:
  assumes "interrupt_attempts run stamp text cls d = Inr (u, d1)"
  shows "d1 = d\<lparr>attempts := where_update (live_attempt run) (interrupt_attempt stamp text cls) (attempts d)\<rparr>"
  using assms by (simp add: interrupt_attempts_def tx_modify_Inr)

lemma interrupted_attempts:
  assumes "d1 = d\<lparr>attempts := where_update (live_attempt run) (interrupt_attempt stamp text cls) (attempts d)\<rparr>"
  shows "(\<forall>a \<in> set (attempts d1). at_run a = run \<longrightarrow> at_status a \<noteq> ''running'')
    \<and> filter (\<lambda>a. at_run a \<noteq> run) (attempts d1) = filter (\<lambda>a. at_run a \<noteq> run) (attempts d)
    \<and> ((\<forall>a \<in> set (attempts d). at_status a \<noteq> ''queued'') \<longrightarrow> (\<forall>a \<in> set (attempts d1). at_status a \<noteq> ''queued''))"
proof -
  have "filter (\<lambda>a. at_run a \<noteq> run) (where_update (live_attempt run) (interrupt_attempt stamp text cls) as)
      = filter (\<lambda>a. at_run a \<noteq> run) as" for as
    by (induction as) (auto simp: where_update_def live_attempt_def interrupt_attempt_def)
  moreover have "attempts d1 = where_update (live_attempt run) (interrupt_attempt stamp text cls) (attempts d)"
    by (simp add: assms)
  ultimately show ?thesis
    by (simp add: ball_where_update live_attempt_def interrupt_attempt_def)
qed

lemma interrupted_run_quiet:
  assumes "d1 = d\<lparr>attempts := where_update (live_attempt run) (interrupt_attempt stamp text cls) (attempts d)\<rparr>"
    "interrupt_control_jobs run why d1 = Inr (n, d')" "distinct (map jb_id (control_jobs d))"
    "\<forall>a \<in> set (attempts d). at_status a \<noteq> ''queued''"
  shows "quiet_run run d' \<and> runs d' = runs d
    \<and> n = count_rows (\<lambda>j. jb_run j = run \<and> open_state (jb_state j)) (control_jobs d)
    \<and> filter (\<lambda>a. at_run a \<noteq> run) (attempts d') = filter (\<lambda>a. at_run a \<noteq> run) (attempts d)
    \<and> filter (\<lambda>j. jb_run j \<noteq> run) (control_jobs d') = filter (\<lambda>j. jb_run j \<noteq> run) (control_jobs d)"
proof -
  have jobs: "control_jobs d1 = control_jobs d" and runs: "runs d1 = runs d" by (simp_all add: assms(1))
  have at: "attempts d' = attempts d1" "runs d' = runs d1"
    using tx_keepsD [OF grows_interrupt_jobs assms(2)] by (simp_all add: grows_def)
  note 1 = interrupted_attempts [OF assms(1)]
  have "\<forall>a \<in> set (attempts d1). at_status a \<noteq> ''queued''" using 1 assms(4) by blast
  from interrupt_jobs_closed [OF assms(2) assms(3) [folded jobs] this]
    interrupt_jobs_effect [OF assms(2) assms(3) [folded jobs]] 1
  show ?thesis unfolding quiet_run_def at runs jobs by blast
qed

text \<open>An operator stop of a running run ends it and everything in it at once: no attempt of the run
  runs, none of its jobs is open, the run is interrupted with its end on record, and the attempts and
  jobs of the other runs are as before. A run that was not running is reported and nothing is touched.\<close>

theorem operator_stop_seals_run:
  assumes "finalize_operator_stop now run d = (Inr s, d')" "distinct (map jb_id (control_jobs d))"
    "\<forall>a \<in> set (attempts d). at_status a \<noteq> ''queued''" "distinct (map rn_id (runs d))"
  shows "\<exists>r \<in> set (runs d). rn_id r = run \<and>
    (if rn_status r \<noteq> ''running'' then s = rn_status r \<and> d' = d
     else s = ''interrupted'' \<and> quiet_run run d'
      \<and> (\<exists>r' \<in> set (runs d'). rn_id r' = run \<and> rn_status r' = ''interrupted'' \<and> rn_finished r' = Some (now 0))
      \<and> filter (\<lambda>a. at_run a \<noteq> run) (attempts d') = filter (\<lambda>a. at_run a \<noteq> run) (attempts d)
      \<and> filter (\<lambda>j. jb_run j \<noteq> run) (control_jobs d') = filter (\<lambda>j. jb_run j \<noteq> run) (control_jobs d)
      \<and> length (events d') = length (events d) + 1)"
proof -
  from assms(1) have body: "operator_stop_body now run d = Inr (s, d')"
    by (auto simp: finalize_operator_stop_def transaction_def split: if_split_asm sum.split_asm)
  then obtain r where r: "first_row (\<lambda>r. rn_id r = run) (runs d) = Some r" "r \<in> set (runs d)" "rn_id r = run"
    by (auto simp: operator_stop_body_def split: option.split_asm dest: first_row_Some)
  show ?thesis
  proof (cases "rn_status r = ''running''")
    case False
    with body r show ?thesis by (intro bexI [of _ r]) (auto simp: operator_stop_body_def)
  next
    case True
    define d1 where "d1 = d\<lparr>attempts := where_update (live_attempt run) (interrupt_attempt (now 0) ENDED_TEXT ''interrupted'') (attempts d)\<rparr>"
    from body True r obtain n d2 where d2: "interrupt_control_jobs run ''operator_stop'' d1 = Inr (n, d2)"
      and s: "s = ''interrupted''"
      and d': "runs d' = where_update (live_run run) (end_run (now 0) ''interrupted'') (runs d2)"
        "attempts d' = attempts d2" "control_jobs d' = control_jobs d2" "length (events d') = length (events d2) + 1"
      by (auto simp: operator_stop_body_def tx_return_Inr insert_event_def d1_def
          elim!: tx_bind_InrE bind_result_InrE split: if_split_asm dest!: interrupt_attempts_state)
    note q = interrupted_run_quiet [OF d1_def d2 assms(2,3)]
    have ev: "events d2 = events d" using tx_keepsD [OF grows_interrupt_jobs d2] by (simp add: grows_def d1_def)
    have "end_run (now 0) ''interrupted'' r \<in> set (runs d')"
      using r True q by (auto simp: d' set_where_update live_run_def image_iff intro!: bexI [of _ r])
    then have "\<exists>r' \<in> set (runs d'). rn_id r' = run \<and> rn_status r' = ''interrupted'' \<and> rn_finished r' = Some (now 0)"
      using r by (intro bexI) (auto simp: end_run_def)
    with q s r True d' ev show ?thesis by (intro bexI [of _ r]) (auto simp: quiet_run_def)
  qed
qed

definition sample_attempt :: attempt_row where
  "sample_attempt = \<lparr>at_id = ''a'', at_run = ''r'', at_challenge = 7, at_episode = 0, at_lane = 0, at_started = ''t0'',
     at_finished = None, at_status = ''running'', at_model = ''m'', at_effort = ''high'', at_summary = [], at_candidate = None,
     at_confidence = None, at_evidence = [], at_next_steps = [], at_observations = [], at_tool_count = 0, at_failure = None\<rparr>"

definition sample_live :: db where
  "sample_live = (sample_wave ''running'')\<lparr>attempts := [sample_attempt], leased := True\<rparr>"

lemma sample_stop:
  "\<exists>d. finalize_operator_stop (\<lambda>_. ''t1'') ''r'' sample_live = (Inr ''interrupted'', d)"
  by (simp add: finalize_operator_stop_def operator_stop_body_def sample_live_def sample_wave_def sample_plane_defs
      interrupt_attempts_def interrupt_control_jobs_def interrupt_job_def interrupted_state_def open_state_def
      insert_control_event_def insert_event_def set_job_def run_tx transaction_def Let_def has_run_def first_row_def
      where_update_def count_rows_def live_run_def end_run_def)

theorem operator_stop_seals_run_witness:
  "\<exists>d. finalize_operator_stop (\<lambda>_. ''t1'') ''r'' sample_live = (Inr ''interrupted'', d) \<and> \<not> quiet_run ''r'' sample_live
     \<and> quiet_run ''r'' d"
proof -
  obtain d where d: "finalize_operator_stop (\<lambda>_. ''t1'') ''r'' sample_live = (Inr ''interrupted'', d)"
    using sample_stop by blast
  have "quiet_run ''r'' d"
    using operator_stop_seals_run [OF d]
    by (simp add: sample_live_def sample_wave_def sample_plane_defs sample_attempt_def)
  then show ?thesis using d
    by (intro exI [of _ d]) (simp add: quiet_run_def sample_live_def sample_attempt_def)
qed

section \<open>What recovery and resumption leave open\<close>

text \<open>The jobs still open afterwards are open jobs from before that \<open>p\<close> does not select, unchanged.\<close>

definition only_open :: "(job_row \<Rightarrow> bool) \<Rightarrow> db \<Rightarrow> db \<Rightarrow> bool" where
  "only_open p d d' \<longleftrightarrow> map jb_id (control_jobs d') = map jb_id (control_jobs d)
     \<and> (\<forall>j \<in> set (control_jobs d'). open_state (jb_state j) \<longrightarrow> j \<in> set (control_jobs d) \<and> \<not> p j)"

lemma only_open_trans: "only_open p a b \<Longrightarrow> only_open q b c \<Longrightarrow> only_open (\<lambda>j. p j \<or> q j) a c"
  by (simp add: only_open_def)

lemma only_open_mapped:
  assumes "control_jobs d' = map g (control_jobs d)" "\<And>k. same_job (g k) k"
    "\<forall>k \<in> set (control_jobs d). if p k \<and> open_state (jb_state k) then \<not> open_state (jb_state (g k)) else g k = k"
  shows "only_open p d d'"
proof -
  have "map jb_id (control_jobs d') = map jb_id (control_jobs d)"
    using assms(2) by (simp add: assms(1) same_job_def)
  moreover have "g k \<in> set (control_jobs d) \<and> \<not> p (g k)"
    if "k \<in> set (control_jobs d)" "open_state (jb_state (g k))" for k
  proof (cases "p k \<and> open_state (jb_state k)")
    case True
    with bspec [OF assms(3) that(1)] that(2) show ?thesis by simp
  next
    case False
    with bspec [OF assms(3) that(1)] have "g k = k" by (simp only: if_False)
    with False that show ?thesis by auto
  qed
  ultimately show ?thesis by (auto simp: only_open_def assms(1))
qed

lemma interrupt_jobs_open:
  assumes "interrupt_control_jobs run why d = Inr (n, d')" "distinct (map jb_id (control_jobs d))"
    "\<forall>a \<in> set (attempts d). at_status a \<noteq> ''queued''"
  shows "only_open (\<lambda>j. jb_run j = run) d d' \<and> grows d d'"
proof -
  obtain g where g: "control_jobs d' = map g (control_jobs d)" "\<And>k. same_job (g k) k"
    "\<forall>k \<in> set (control_jobs d). if jb_run k = run \<and> open_state (jb_state k)
         then jb_state (g k) = interrupted_state d k else g k = k"
    using interrupt_jobs_effect [OF assms(1,2)] by blast
  have "only_open (\<lambda>j. jb_run j = run) d d'"
    using g(3) interrupted_state_closed [OF assms(3)] by (intro only_open_mapped [OF g(1,2)]) simp
  then show ?thesis using tx_keepsD [OF grows_interrupt_jobs assms(1)] by blast
qed

lemma interrupt_runs_open:
  assumes "tx_each (\<lambda>r. tx_bind (interrupt_control_jobs r why) (\<lambda>_. tx_return ())) rs d = Inr (u, d')"
    "distinct (map jb_id (control_jobs d))" "\<forall>a \<in> set (attempts d). at_status a \<noteq> ''queued''"
  shows "only_open (\<lambda>j. jb_run j \<in> set rs) d d' \<and> grows d d'"
  using assms
proof (induction rs arbitrary: d)
  case Nil
  then show ?case using reflp_grows by (simp add: tx_return_Inr only_open_def reflp_def)
next
  case (Cons r rs)
  then obtain n d1 where d1: "interrupt_control_jobs r why d = Inr (n, d1)"
    "tx_each (\<lambda>r. tx_bind (interrupt_control_jobs r why) (\<lambda>_. tx_return ())) rs d1 = Inr (u, d')"
    by (auto simp: tx_return_Inr elim!: tx_bind_InrE)
  note 1 = interrupt_jobs_open [OF d1(1) Cons.prems(2,3)]
  then have "distinct (map jb_id (control_jobs d1))" "\<forall>a \<in> set (attempts d1). at_status a \<noteq> ''queued''"
    using Cons.prems(2,3) by (simp_all add: only_open_def grows_def)
  from Cons.IH [OF d1(2) this] 1 show ?case
    using only_open_trans [of "\<lambda>j. jb_run j = r" d d1 "\<lambda>j. jb_run j \<in> set rs" d'] transpD [OF transp_grows, of d d1 d']
    by (auto simp: only_open_def)
qed

definition same_tables :: "db \<Rightarrow> db \<Rightarrow> bool" where
  "same_tables d d' \<longleftrightarrow> runs d' = runs d \<and> attempts d' = attempts d \<and> challenges d' = challenges d
     \<and> control_jobs d' = control_jobs d \<and> failure_origins d' = failure_origins d \<and> leased d' = leased d"

lemma same_tables_event: "insert_event run stamp what data d = Inr (x, d') \<Longrightarrow> same_tables d d'"
  by (auto simp: insert_event_def same_tables_def elim!: bind_result_InrE)

lemma same_tables_recovery: "recovery_event stamp rc d = Inr (u, d') \<Longrightarrow> same_tables d d'"
  by (auto simp: recovery_event_def tx_return_Inr elim!: tx_bind_InrE dest: same_tables_event)

lemma recovery_events_tables:
  "tx_each (recovery_event stamp) rows d = Inr (u, d') \<Longrightarrow> same_tables d d'"
proof (induction rows arbitrary: d)
  case (Cons rc rows)
  then obtain d1 where "recovery_event stamp rc d = Inr ((), d1)" "tx_each (recovery_event stamp) rows d1 = Inr (u, d')"
    by (auto elim!: tx_bind_InrE)
  from same_tables_recovery [OF this(1)] Cons.IH [OF this(2)] show ?case by (simp add: same_tables_def)
qed (simp add: tx_return_Inr same_tables_def)

text \<open>Nothing runs: no run, no attempt, no challenge.\<close>

definition at_rest :: "db \<Rightarrow> bool" where
  "at_rest d \<longleftrightarrow> (\<forall>r \<in> set (runs d). rn_status r \<noteq> ''running'') \<and> (\<forall>a \<in> set (attempts d). at_status a \<noteq> ''running'')
     \<and> (\<forall>c \<in> set (challenges d). ch_status c \<noteq> ''running'')"

lemma recover_at_rest: "at_rest d \<Longrightarrow> leased d \<Longrightarrow> recover_interrupted now d = (Inr 0, d)"
proof -
  assume rest: "at_rest d" and lease: "leased d"
  have no: "filter (\<lambda>r. rn_status r = ''running'') (runs d) = []" "filter (\<lambda>a. at_status a = ''running'') (attempts d) = []"
    using rest by (auto simp: at_rest_def filter_empty_conv)
  have "d\<lparr>attempts := attempts d\<rparr> = d" "d\<lparr>challenges := challenges d\<rparr> = d" "d\<lparr>runs := runs d\<rparr> = d" by simp_all
  then have "recover_body now d = Inr (0, d)"
    using rest no by (simp add: recover_body_def running_counts_def run_tx count_rows_def requeue_challenges_def
        where_update_id at_rest_def)
  then show ?thesis using lease by (simp add: recover_interrupted_def)
qed

lemma recover_effect:
  assumes "recover_body now d = Inr (n, d')" "distinct (map jb_id (control_jobs d))"
    "\<forall>a \<in> set (attempts d). at_status a \<noteq> ''queued''"
  shows "n = count_rows (\<lambda>a. at_status a = ''running'') (attempts d) \<and> at_rest d' \<and> leased d' = leased d
    \<and> only_open (\<lambda>j. \<exists>r \<in> set (runs d). rn_id r = jb_run j \<and> rn_status r = ''running'') d d'"
proof -
  let ?live = "map rn_id (sort_key rn_started (sort_key rn_id (filter (\<lambda>r. rn_status r = ''running'') (runs d))))"
  obtain u d1 where d1: "tx_each (\<lambda>r. tx_bind (interrupt_control_jobs r ''supervisor_restart'') (\<lambda>_. tx_return ())) ?live d = Inr (u, d1)"
    and rest: "tx_bind (tx_modify (\<lambda>d. d\<lparr>attempts := where_update (\<lambda>a. at_status a = ''running'')
        (\<lambda>a. a\<lparr>at_finished := Some (now 0), at_status := ''interrupted'',
              at_summary := ''process ended before restart''\<rparr>) (attempts d)\<rparr>)) (\<lambda>_.
      tx_bind (tx_each (recovery_event (now 0)) (running_counts d1)) (\<lambda>_.
      tx_bind (requeue_challenges (now 0)) (\<lambda>_.
      tx_bind (tx_modify (\<lambda>d. d\<lparr>runs := where_update (\<lambda>r. rn_status r = ''running'') (end_run (now 0) ''interrupted'') (runs d)\<rparr>)) (\<lambda>_.
      tx_return (count_rows (\<lambda>a. at_status a = ''running'') (attempts d1)))))) d1 = Inr (n, d')"
    using assms(1) unfolding recover_body_def Let_def by (rule tx_bind_InrE)
  note 1 = interrupt_runs_open [OF d1 assms(2,3)]
  define d2 where "d2 = d1\<lparr>attempts := where_update (\<lambda>a. at_status a = ''running'')
        (\<lambda>a. a\<lparr>at_finished := Some (now 0), at_status := ''interrupted'',
              at_summary := ''process ended before restart''\<rparr>) (attempts d1)\<rparr>"
  obtain v d3 where d3: "tx_each (recovery_event (now 0)) (running_counts d1) d2 = Inr (v, d3)"
    and n: "n = count_rows (\<lambda>a. at_status a = ''running'') (attempts d1)"
    and d': "d' = d3\<lparr>challenges := where_update (\<lambda>r. ch_status r = ''running'')
        (\<lambda>r. r\<lparr>ch_status := ''queued'', ch_updated := now 0\<rparr>) (challenges d3),
      runs := where_update (\<lambda>r. rn_status r = ''running'') (end_run (now 0) ''interrupted'') (runs d3)\<rparr>"
    using rest by (auto simp: tx_modify_Inr tx_return_Inr requeue_challenges_def d2_def elim!: tx_bind_InrE)
  have "attempts d3 = attempts d2" "control_jobs d3 = control_jobs d2" "leased d3 = leased d2"
    using recovery_events_tables [OF d3] by (simp_all add: same_tables_def)
  then have t: "attempts d' = attempts d2" "control_jobs d' = control_jobs d1" "leased d' = leased d1"
    by (simp_all add: d' d2_def)
  have "\<forall>a \<in> set (attempts d'). at_status a \<noteq> ''running''"
    by (simp add: t d2_def ball_where_update)
  moreover have "\<forall>c \<in> set (challenges d'). ch_status c \<noteq> ''running''"
    by (simp add: d' ball_where_update)
  moreover have "\<forall>r \<in> set (runs d'). rn_status r \<noteq> ''running''"
    by (simp add: d' ball_where_update end_run_def)
  ultimately have "at_rest d'" by (simp add: at_rest_def)
  moreover have "only_open (\<lambda>j. \<exists>r \<in> set (runs d). rn_id r = jb_run j \<and> rn_status r = ''running'') d d'"
  proof -
    have "jb_run j \<in> set ?live \<longleftrightarrow> (\<exists>r \<in> set (runs d). rn_id r = jb_run j \<and> rn_status r = ''running'')" for j :: job_row
      by (force simp: image_iff)
    then show ?thesis using 1 unfolding only_open_def t by blast
  qed
  ultimately show ?thesis using 1 n t by (simp add: grows_def)
qed

text \<open>C21. Recovery after a restart reports the attempts it interrupted and leaves nothing running: no run,
  attempt or challenge runs, every job still open was open before and belongs to a run that was not
  running, and recovering once more changes nothing.\<close>

theorem recovery_idempotent:
  assumes "recover_interrupted now d = (Inr n, d')" "distinct (map jb_id (control_jobs d))"
    "\<forall>a \<in> set (attempts d). at_status a \<noteq> ''queued''"
  shows "n = count_rows (\<lambda>a. at_status a = ''running'') (attempts d)
    \<and> (\<forall>r \<in> set (runs d'). rn_status r \<noteq> ''running'') \<and> (\<forall>a \<in> set (attempts d'). at_status a \<noteq> ''running'')
    \<and> (\<forall>c \<in> set (challenges d'). ch_status c \<noteq> ''running'')
    \<and> (\<forall>j \<in> set (control_jobs d'). open_state (jb_state j) \<longrightarrow> j \<in> set (control_jobs d)
        \<and> \<not> (\<exists>r \<in> set (runs d). rn_id r = jb_run j \<and> rn_status r = ''running''))
    \<and> recover_interrupted now' d' = (Inr 0, d')"
proof -
  from assms(1) have body: "recover_body now d = Inr (n, d')" and lease: "leased d"
    by (auto simp: recover_interrupted_def transaction_def split: if_split_asm sum.split_asm)
  note eff = recover_effect [OF body assms(2,3)]
  then have "recover_interrupted now' d' = (Inr 0, d')" using recover_at_rest lease by blast
  with eff show ?thesis by (simp add: at_rest_def only_open_def)
qed

lemma sample_recover: "\<exists>d. recover_interrupted (\<lambda>_. ''t1'') sample_live = (Inr 1, d)"
  by (simp add: recover_interrupted_def recover_body_def sample_live_def sample_wave_def sample_plane_defs sample_attempt_def
      interrupt_control_jobs_def interrupt_job_def interrupted_state_def attempt_status_def open_state_def
      insert_control_event_def insert_event_def set_job_def run_tx transaction_def Let_def has_run_def first_row_def
      where_update_def count_rows_def end_run_def running_counts_def live_attempt_def recovery_event_def requeue_challenges_def)

theorem recovery_idempotent_witness:
  "\<exists>d. recover_interrupted (\<lambda>_. ''t1'') sample_live = (Inr 1, d) \<and> recover_interrupted (\<lambda>_. ''t2'') d = (Inr 0, d)"
proof -
  obtain d where d: "recover_interrupted (\<lambda>_. ''t1'') sample_live = (Inr 1, d)" using sample_recover by blast
  have "distinct (map jb_id (control_jobs sample_live))" "\<forall>a \<in> set (attempts sample_live). at_status a \<noteq> ''queued''"
    by (simp_all add: sample_live_def sample_wave_def sample_attempt_def)
  from recovery_idempotent [OF d this, of "\<lambda>_. ''t2''"] d show ?thesis by blast
qed

section \<open>Resuming the run\<close>

definition run_ended :: "string \<Rightarrow> db \<Rightarrow> bool" where
  "run_ended run d \<longleftrightarrow> (\<forall>a \<in> set (attempts d). at_run a = run \<longrightarrow> \<not> open_state (at_status a))"

text \<open>No attempt of the run at the challenge is open.\<close>

definition challenge_ended :: "string \<Rightarrow> int \<Rightarrow> db \<Rightarrow> bool" where
  "challenge_ended run c d \<longleftrightarrow> (\<forall>a \<in> set (attempts d). at_run a = run \<and> at_challenge a = c \<longrightarrow> \<not> open_state (at_status a))"

lemma run_challenge_ended: "run_ended run d \<Longrightarrow> challenge_ended run c d"
  by (simp add: run_ended_def challenge_ended_def)

lemma finish_wave_open:
  assumes "finish_wave run c ep terminal d = Inr (u, d')" "distinct (map jb_id (control_jobs d))" "challenge_ended run c d"
  shows "only_open (in_wave run c ep) d d' \<and> grows d d'"
proof -
  obtain g where g: "control_jobs d' = map g (control_jobs d)" "\<And>k. same_job (g k) k"
    "\<forall>k \<in> set (control_jobs d). if in_wave run c ep k \<and> open_state (jb_state k)
         then jb_state (g k) = closed_lane_state d run c ep terminal (jb_lane k) else g k = k"
    using finish_wave_effect [OF assms(1,2)] by blast
  have "\<not> open_state (closed_lane_state d run c ep terminal lane)" for lane
  proof (cases "attempt_status d run c ep lane")
    case (Some s)
    then obtain a where "a \<in> set (attempts d)" "at_status a = s" "at_run a = run" "at_challenge a = c"
      by (auto simp: attempt_status_def dest: first_row_Some)
    with assms(3) Some show ?thesis by (auto simp: challenge_ended_def closed_lane_state_def)
  qed (simp add: closed_lane_state_def open_state_def)
  then have "only_open (in_wave run c ep) d d'" using g(3) by (intro only_open_mapped [OF g(1,2)]) simp
  then show ?thesis using tx_keepsD [OF grows_finish_wave assms(1)] by blast
qed

text \<open>The origin on record after the restart of a wave.\<close>

definition restarted :: "string \<Rightarrow> int \<times> int \<Rightarrow> origin_row \<Rightarrow> bool" where
  "restarted run w x \<longleftrightarrow> same_origin run (fst w) (snd w) x \<and> og_origin x = ''container'' \<and> og_reason x = ''process_restart''"

lemma restart_origin_effect:
  assumes "restart_origin run c ep d = Inr (u, d')"
  shows "control_jobs d' = control_jobs d \<and> attempts d' = attempts d \<and> runs d' = runs d \<and> challenges d' = challenges d
    \<and> (\<exists>x \<in> set (failure_origins d'). restarted run (c, ep) x)
    \<and> (\<forall>w. (\<exists>x \<in> set (failure_origins d). restarted run w x) \<longrightarrow> (\<exists>x \<in> set (failure_origins d'). restarted run w x))"
proof (cases "first_row (same_origin run c ep) (failure_origins d)")
  case None
  with assms show ?thesis
    by (auto simp: restart_origin_def insert_control_event_def insert_origin_def restarted_def same_origin_def
        elim!: tx_bind_InrE bind_result_InrE)
next
  case (Some x0)
  define f where "f = (\<lambda>x :: origin_row. x\<lparr>og_origin := ''container'', og_reason := ''process_restart'',
    og_sequence := length (control_events d) + 1\<rparr>)"
  have t: "control_jobs d' = control_jobs d" "attempts d' = attempts d" "runs d' = runs d"
    "challenges d' = challenges d"
    "failure_origins d' = where_update (same_origin run c ep) f (failure_origins d)"
    using assms Some by (auto simp: restart_origin_def insert_control_event_def tx_modify_Inr f_def
        elim!: tx_bind_InrE bind_result_InrE)
  have keep: "restarted run w (f x)" if "restarted run w x" for w x
    using that by (simp add: restarted_def same_origin_def f_def)
  have "x0 \<in> set (failure_origins d)" "same_origin run c ep x0" using first_row_Some [OF Some] by blast+
  then have "f x0 \<in> set (failure_origins d')" "restarted run (c, ep) (f x0)"
    by (auto simp: t set_where_update restarted_def same_origin_def f_def)
  moreover have "\<exists>x \<in> set (failure_origins d'). restarted run w x" if "x \<in> set (failure_origins d)" "restarted run w x" for w x
    using that keep [OF that(2)] by (cases "same_origin run c ep x") (auto simp: t set_where_update)
  ultimately show ?thesis using t by blast
qed

lemma seal_waves_effect:
  assumes "tx_each (seal_wave run) ws d = Inr (u, d')" "distinct (map jb_id (control_jobs d))" "run_ended run d"
  shows "only_open (\<lambda>j. \<exists>w \<in> set ws. in_wave run (fst w) (snd w) j) d d'
    \<and> (\<forall>w. w \<in> set ws \<or> (\<exists>x \<in> set (failure_origins d). restarted run w x) \<longrightarrow> (\<exists>x \<in> set (failure_origins d'). restarted run w x))
    \<and> attempts d' = attempts d \<and> runs d' = runs d \<and> challenges d' = challenges d"
  using assms
proof (induction ws arbitrary: d)
  case Nil
  then show ?case by (simp add: tx_return_Inr only_open_def)
next
  case (Cons w ws)
  from Cons.prems(1) obtain d2 where w: "seal_wave run w d = Inr ((), d2)" and d': "tx_each (seal_wave run) ws d2 = Inr (u, d')"
    by (auto elim!: tx_bind_InrE)
  from w obtain d1 where d1: "finish_wave run (fst w) (snd w) ''error'' d = Inr ((), d1)"
    and d2: "restart_origin run (fst w) (snd w) d1 = Inr ((), d2)"
    by (auto simp: seal_wave_def elim!: tx_bind_InrE)
  note f = finish_wave_open [OF d1 Cons.prems(2) run_challenge_ended [OF Cons.prems(3)]]
  note r = restart_origin_effect [OF d2]
  have o1: "failure_origins d1 = failure_origins d" using f by (simp add: grows_def)
  have o: "only_open (in_wave run (fst w) (snd w)) d d2" and t: "attempts d2 = attempts d" "runs d2 = runs d" "challenges d2 = challenges d"
    using f r by (simp_all add: only_open_def grows_def)
  then have "distinct (map jb_id (control_jobs d2))" "run_ended run d2"
    using Cons.prems(2,3) by (simp_all add: only_open_def run_ended_def)
  note ih = Cons.IH [OF d' this]
  define P where "P e v \<longleftrightarrow> (\<exists>x \<in> set (failure_origins e). restarted run v x)" for e :: db and v
  have "P d2 w" "\<And>v. P d v \<Longrightarrow> P d2 v" using r by (auto simp: P_def o1)
  moreover have "\<And>v. v \<in> set ws \<or> P d2 v \<Longrightarrow> P d' v" using ih unfolding P_def by blast
  ultimately have "\<forall>v. v \<in> set (w # ws) \<or> P d v \<longrightarrow> P d' v" by auto
  moreover have "only_open (\<lambda>j. \<exists>w \<in> set (w # ws). in_wave run (fst w) (snd w) j) d d'"
    using o ih by (auto simp: only_open_def)
  ultimately show ?case using ih t unfolding P_def by simp
qed

text \<open>C19. Starting over a run that is still recorded as running resumes that very run under its first start
  time: the runs are unchanged, no attempt of it runs, no lane that was running is open, each such wave
  has a container failure by process restart on record, and no challenge is running. Otherwise a new run
  is recorded, and there was none running.\<close>

theorem resume_seals_lost_work:
  assumes "start_or_resume_run now run config d = (Inr s, d')" "distinct (map jb_id (control_jobs d))"
    "\<forall>a \<in> set (attempts d). at_status a \<noteq> ''queued''"
  shows "if rs_resumed s
    then runs d' = runs d \<and> (\<exists>r \<in> set (runs d). rn_status r = ''running'' \<and> rn_id r = rs_run s \<and> rn_started r = rs_started s)
      \<and> (\<forall>a \<in> set (attempts d'). at_run a = rs_run s \<longrightarrow> at_status a \<noteq> ''running'')
      \<and> (\<forall>j \<in> set (control_jobs d'). jb_run j = rs_run s \<longrightarrow> jb_state j \<noteq> ''running'')
      \<and> (\<forall>j \<in> set (control_jobs d). jb_run j = rs_run s \<and> jb_state j = ''running''
           \<longrightarrow> (\<exists>x \<in> set (failure_origins d'). restarted (rs_run s) (jb_challenge j, jb_episode j) x))
      \<and> (\<forall>c \<in> set (challenges d'). ch_status c \<noteq> ''running'')
    else rs_run s = run \<and> (\<forall>r \<in> set (runs d). rn_status r \<noteq> ''running'')
      \<and> (\<exists>r. runs d' = runs d @ [r] \<and> rn_id r = run \<and> rn_status r = ''running'' \<and> rn_config r = Some (PDict config))"
proof -
  from assms(1) have body: "start_or_resume_body now run config d = Inr (s, d')"
    by (auto simp: start_or_resume_run_def transaction_def split: if_split_asm sum.split_asm)
  let ?live = "sort_key rn_started (sort_key rn_id (filter (\<lambda>r. rn_status r = ''running'') (runs d)))"
  show ?thesis
  proof (cases ?live)
    case Nil
    then have "\<forall>r \<in> set (runs d). rn_status r \<noteq> ''running''" by (simp add: filter_empty_conv)
    moreover have "s = \<lparr>rs_run = run, rs_started = now 0, rs_resumed = False\<rparr>" "runs d' = runs d @ [\<lparr>rn_id = run, rn_started = now 0, rn_finished = None, rn_status = ''running'',
                rn_config = Some (PDict config)\<rparr>]"
      using body Nil by (auto simp: start_or_resume_body_def insert_run_def tx_return_Inr elim!: bind_result_InrE tx_bind_InrE)
    ultimately show ?thesis by simp
  next
    case (Cons r rest)
    with body have live: "?live = [r]" and res: "resume_run (now 0) r d = Inr (s, d')"
      by (auto simp: start_or_resume_body_def elim!: bind_result_InrE split: list.split_asm if_split_asm)
    have "set ?live = {r}" by (simp only: live) simp
    then have r: "r \<in> set (runs d)" "rn_status r = ''running''" by auto
    let ?run = "rn_id r"
    define d1 where "d1 = d\<lparr>attempts := where_update (live_attempt ?run)
      (interrupt_attempt (now 0) ''process ended before restart'' ''process_restart'') (attempts d)\<rparr>"
    from res obtain u d2 d3 d4 where d2: "tx_each (seal_wave ?run) (running_waves d ?run) d1 = Inr (u, d2)"
      and d3: "same_tables d2 d3" and d4: "requeue_challenges (now 0) d3 = Inr ((), d4)" and d': "same_tables d4 d'"
      and s: "s = \<lparr>rs_run = ?run, rs_started = rn_started r, rs_resumed = True\<rparr>"
      unfolding resume_run_def Let_def d1_def
      by (auto simp: tx_return_Inr elim!: tx_bind_InrE dest!: interrupt_attempts_state
          same_tables_event recovery_events_tables simp del: tx_each.simps)
    note 1 = interrupted_attempts [OF d1_def]
    have jobs: "control_jobs d1 = control_jobs d" by (simp add: d1_def)
    have "run_ended ?run d1" using 1 assms(3) by (auto simp: run_ended_def open_state_def)
    note 2 = seal_waves_effect [OF d2 assms(2) [folded jobs] this]
    have w: "(jb_challenge j, jb_episode j) \<in> set (running_waves d ?run)"
      if "j \<in> set (control_jobs d)" "jb_run j = ?run" "jb_state j = ''running''" for j
      using that by (auto simp: running_waves_def)
    have t: "runs d' = runs d" "attempts d' = attempts d1" "control_jobs d' = control_jobs d2"
      "failure_origins d' = failure_origins d2"
      "challenges d' = where_update (\<lambda>c. ch_status c = ''running'') (\<lambda>c. c\<lparr>ch_status := ''queued'', ch_updated := now 0\<rparr>) (challenges d3)"
      using d3 d4 d' 2 by (auto simp: same_tables_def requeue_challenges_def tx_modify_Inr d1_def)
    have "jb_state j \<noteq> ''running''" if "j \<in> set (control_jobs d')" "jb_run j = ?run" for j
    proof
      assume run: "jb_state j = ''running''"
      then have "j \<in> set (control_jobs d)" "\<not> (\<exists>w \<in> set (running_waves d ?run). in_wave ?run (fst w) (snd w) j)"
        using 2 that(1) by (auto simp: only_open_def t jobs open_state_def)
      with w [OF this(1) that(2) run] that(2) show False by (auto simp: in_wave_def)
    qed
    then have "\<forall>j \<in> set (control_jobs d'). jb_run j = ?run \<longrightarrow> jb_state j \<noteq> ''running''" by blast
    moreover have "\<forall>j \<in> set (control_jobs d). jb_run j = ?run \<and> jb_state j = ''running''
           \<longrightarrow> (\<exists>x \<in> set (failure_origins d'). restarted ?run (jb_challenge j, jb_episode j) x)"
      using 2 w t(4) by metis
    moreover have "\<forall>c \<in> set (challenges d'). ch_status c \<noteq> ''running''" by (simp add: t ball_where_update)
    moreover have "\<forall>a \<in> set (attempts d'). at_run a = ?run \<longrightarrow> at_status a \<noteq> ''running''" using 1 t by simp
    ultimately show ?thesis using r s t(1) by auto
  qed
qed

lemma sample_resume:
  "\<exists>d. start_or_resume_run (\<lambda>_. ''t1'') ''r2'' []
      (sample_live\<lparr>runs := [\<lparr>rn_id = ''r'', rn_started = ''t0'', rn_finished = None, rn_status = ''running'', rn_config = Some (PDict [])\<rparr>]\<rparr>)
    = (Inr \<lparr>rs_run = ''r'', rs_started = ''t0'', rs_resumed = True\<rparr>, d)"
  by (simp add: start_or_resume_run_def start_or_resume_body_def check_history_def run_scope_def dict_get_def
      resume_run_def running_waves_def seal_wave_def finish_wave_def open_jobs_def close_job_def in_wave_def restart_origin_def
      insert_origin_def same_origin_def interrupt_attempts_def interrupt_attempt_def closed_lane_state_def
      sample_live_def sample_wave_def sample_plane_defs sample_attempt_def attempt_status_def open_state_def
      insert_control_event_def insert_event_def set_job_def run_tx transaction_def Let_def has_run_def has_challenge_def
      first_row_def where_update_def count_rows_def live_attempt_def recovery_event_def requeue_challenges_def)

theorem resume_seals_lost_work_witness:
  "\<exists>d. start_or_resume_run (\<lambda>_. ''t1'') ''r2'' []
      (sample_live\<lparr>runs := [\<lparr>rn_id = ''r'', rn_started = ''t0'', rn_finished = None, rn_status = ''running'', rn_config = Some (PDict [])\<rparr>]\<rparr>)
    = (Inr \<lparr>rs_run = ''r'', rs_started = ''t0'', rs_resumed = True\<rparr>, d)
    \<and> (\<exists>x \<in> set (failure_origins d). restarted ''r'' (7, 0) x)"
proof -
  obtain d where d: "start_or_resume_run (\<lambda>_. ''t1'') ''r2'' []
      (sample_live\<lparr>runs := [\<lparr>rn_id = ''r'', rn_started = ''t0'', rn_finished = None, rn_status = ''running'', rn_config = Some (PDict [])\<rparr>]\<rparr>)
    = (Inr \<lparr>rs_run = ''r'', rs_started = ''t0'', rs_resumed = True\<rparr>, d)" using sample_resume by blast
  then show ?thesis using resume_seals_lost_work [OF d]
    by (intro exI [of _ d]) (simp add: sample_live_def sample_wave_def sample_plane_defs sample_attempt_def)
qed

section \<open>One scope and one live run\<close>

definition scope_of :: "run_row \<Rightarrow> (pyval \<times> pyval) option" where
  "scope_of r = (case rn_config r of
     Some (PDict config) \<Rightarrow> (case run_scope config of Inr scope \<Rightarrow> Some scope | Inl e \<Rightarrow> None)
   | _ \<Rightarrow> None)"

lemma check_history_scope: "check_history scope r = Inr u \<longleftrightarrow> scope_of r = Some scope"
  by (auto simp: check_history_def scope_of_def bind_result_def split: option.split pyval.split sum.split)

text \<open>A store is bound to a scope when every run in it is, with at most one run running.\<close>

definition run_inv :: "pyval \<times> pyval \<Rightarrow> db \<Rightarrow> bool" where
  "run_inv scope d \<longleftrightarrow> runs d \<noteq> [] \<and> distinct (map rn_id (runs d))
     \<and> count_rows (\<lambda>r. rn_status r = ''running'') (runs d) \<le> 1 \<and> (\<forall>r \<in> set (runs d). scope_of r = Some scope)"

text \<open>The operations that write the table of runs are these five and \<open>start_run\<close>; every other operation of
  the store is a step that leaves the runs as they are. \<open>start_run\<close> records a running run without any
  check; a supervised step is any step but that one.\<close>

inductive supervised_step :: "db \<Rightarrow> db \<Rightarrow> bool" where
  Begin: "start_or_resume_run now run config d = (s, d') \<Longrightarrow> supervised_step d d'"
| Finish: "finish_run now run status d = (r, d') \<Longrightarrow> supervised_step d d'"
| Stop: "finalize_operator_stop now run d = (t, d') \<Longrightarrow> supervised_step d d'"
| Interrupt: "interrupt_control_run now run why d = (n, d') \<Longrightarrow> supervised_step d d'"
| Recover: "recover_interrupted now d = (n, d') \<Longrightarrow> supervised_step d d'"
| Other: "runs d' = runs d \<Longrightarrow> supervised_step d d'"

inductive run_step :: "db \<Rightarrow> db \<Rightarrow> bool" where
  Supervised: "supervised_step d d' \<Longrightarrow> run_step d d'"
| Start: "start_run now run config d = (r, d') \<Longrightarrow> run_step d d'"

lemma run_inv_ended:
  assumes "run_inv scope d" "runs d' = where_update p (end_run stamp status) (runs d)" "status \<noteq> ''running''"
  shows "run_inv scope d'"
proof -
  have c: "count_rows (\<lambda>r. rn_status r = ''running'') (where_update p (end_run stamp status) rs)
      \<le> count_rows (\<lambda>r. rn_status r = ''running'') rs" for rs
    using assms(3) by (induction rs) (auto simp: where_update_def end_run_def)
  then have "count_rows (\<lambda>r. rn_status r = ''running'') (runs d') \<le> 1"
    using assms(1) c [of "runs d"] unfolding run_inv_def assms(2) by linarith
  moreover have "scope_of (end_run stamp status r) = scope_of r" "rn_id (end_run stamp status r) = rn_id r" for r
    by (simp_all add: scope_of_def end_run_def)
  moreover have "runs d' \<noteq> []" using assms(1,2) by (simp add: run_inv_def where_update_def)
  ultimately show ?thesis using assms(1) by (auto simp: run_inv_def assms(2) ball_where_update)
qed

definition same_runs :: "db \<Rightarrow> db \<Rightarrow> bool" where
  "same_runs d d' \<longleftrightarrow> runs d' = runs d"

lemma reflp_same_runs: "reflp same_runs" and transp_same_runs: "transp same_runs"
  by (auto simp: same_runs_def reflp_def transp_def)

lemma same_runs_interrupt: "tx_keeps same_runs (interrupt_attempts run stamp text cls)"
  by (rule tx_keepsI) (auto simp: same_runs_def dest!: interrupt_attempts_state)

lemma same_runs_jobs: "tx_keeps same_runs (interrupt_control_jobs run why)"
  by (rule tx_keepsI) (auto simp: same_runs_def grows_def dest!: tx_keepsD [OF grows_interrupt_jobs])

lemma same_runs_finish: "tx_keeps same_runs (finish_wave run c ep terminal)"
  by (rule tx_keepsI) (auto simp: same_runs_def grows_def dest!: tx_keepsD [OF grows_finish_wave])

lemma same_runs_origin: "tx_keeps same_runs (restart_origin run c ep)"
  by (rule tx_keepsI) (simp add: same_runs_def restart_origin_effect)

lemma same_runs_event: "tx_keeps same_runs (insert_event run stamp what data)"
  by (rule tx_keepsI) (auto simp: same_runs_def same_tables_def dest!: same_tables_event)

lemma same_runs_requeue: "tx_keeps same_runs (requeue_challenges stamp)"
  by (rule tx_keepsI) (simp add: same_runs_def requeue_challenges_def tx_modify_Inr)

lemmas same_runs_rules = tx_keeps_bind [OF transp_same_runs] tx_keeps_each [OF reflp_same_runs transp_same_runs]
  tx_keeps_return [OF reflp_same_runs] same_runs_interrupt same_runs_jobs same_runs_finish same_runs_origin
  same_runs_event same_runs_requeue

lemma resume_same_runs:
  assumes "resume_run stamp r d = Inr (s, d')"
  shows "runs d' = runs d"
proof -
  have "tx_keeps same_runs (tx_bind (interrupt_attempts run stamp msg cls) (\<lambda>_.
      tx_bind (tx_each (seal_wave run) waves) (\<lambda>_. tx_bind (tx_each (recovery_event stamp) rows) (\<lambda>_.
      tx_bind (requeue_challenges stamp) (\<lambda>_. tx_bind (insert_event run stamp what data) (\<lambda>_. tx_return s))))))"
    for run msg cls waves rows what data and s :: run_session
    unfolding seal_wave_def recovery_event_def by (intro same_runs_rules)
  from tx_keepsD [OF this] assms show ?thesis unfolding resume_run_def Let_def same_runs_def by blast
qed

lemma begin_runs:
  assumes "start_or_resume_body now run config d = Inr (s, d')"
  obtains (resumed) scope r where "run_scope config = Inr scope" "\<forall>q \<in> set (runs d). scope_of q = Some scope"
      "runs d' = runs d" "filter (\<lambda>r. rn_status r = ''running'') (runs d) = [r]" "rn_id r = rs_run s"
  | (started) scope r where "run_scope config = Inr scope" "\<forall>q \<in> set (runs d). scope_of q = Some scope"
      "\<forall>q \<in> set (runs d). rn_status q \<noteq> ''running''" "\<not> has_run d (rn_id r)" "runs d' = runs d @ [r]"
      "scope_of r = Some scope" "rn_status r = ''running''" "rn_id r = rs_run s"
proof -
  from assms obtain scope xs where scope: "run_scope config = Inr scope"
    and hist: "traverse (check_history scope) (runs d) = Inr xs"
    by (auto simp: start_or_resume_body_def elim!: bind_result_InrE)
  have same: "\<forall>q \<in> set (runs d). scope_of q = Some scope"
    using hist by (auto simp: traverse_Inr_iff list_all2_conv_all_nth in_set_conv_nth check_history_scope)
  let ?live = "sort_key rn_started (sort_key rn_id (filter (\<lambda>r. rn_status r = ''running'') (runs d)))"
  show thesis
  proof (cases ?live)
    case Nil
    then have none: "\<forall>r \<in> set (runs d). rn_status r \<noteq> ''running''" by (simp add: filter_empty_conv)
    define r where "r = \<lparr>rn_id = run, rn_started = now 0, rn_finished = None, rn_status = ''running'', rn_config = Some (PDict config)\<rparr>"
    have "runs d' = runs d @ [r]" "\<not> has_run d run" "rs_run s = run"
      using assms Nil by (auto simp: start_or_resume_body_def insert_run_def tx_return_Inr r_def elim!: bind_result_InrE tx_bind_InrE)
    then show thesis by (intro started [of scope r] scope same none) (simp_all add: r_def scope_of_def scope)
  next
    case (Cons r rest)
    with assms have live: "?live = [r]" and res: "resume_run (now 0) r d = Inr (s, d')"
      by (auto simp: start_or_resume_body_def elim!: bind_result_InrE split: list.split_asm if_split_asm)
    have "length (filter (\<lambda>r. rn_status r = ''running'') (runs d)) = 1" using arg_cong [OF live, of length] by simp
    then obtain q where q: "filter (\<lambda>r. rn_status r = ''running'') (runs d) = [q]" by (auto simp: length_Suc_conv)
    with live have "filter (\<lambda>r. rn_status r = ''running'') (runs d) = [r]" by simp
    moreover have "rs_run s = rn_id r"
      using res by (auto simp: resume_run_def Let_def tx_return_Inr elim!: tx_bind_InrE)
    ultimately show thesis by (intro resumed [OF scope same resume_same_runs [OF res]]) simp_all
  qed
qed

lemma begin_bound:
  assumes "start_or_resume_body now run config d = Inr (s, d')" "distinct (map rn_id (runs d))"
  shows "\<exists>scope. run_scope config = Inr scope \<and> run_inv scope d'
    \<and> map rn_id (filter (\<lambda>r. rn_status r = ''running'') (runs d')) = [rs_run s]"
  using assms(1)
proof (cases rule: begin_runs)
  case (resumed scope r)
  then have "runs d \<noteq> []" by auto
  with resumed assms(2) show ?thesis by (intro exI [of _ scope]) (simp add: run_inv_def count_rows_def)
next
  case (started scope r)
  have "filter (\<lambda>r. rn_status r = ''running'') (runs d) = []" using started(3) by (simp add: filter_empty_conv)
  with started assms(2) show ?thesis
    by (intro exI [of _ scope]) (auto simp: run_inv_def count_rows_def has_run_def)
qed

lemma run_inv_begin:
  assumes "run_inv scope d" "start_or_resume_body now run config d = Inr (s, d')"
  shows "run_inv scope d'"
proof -
  obtain x where x: "run_inv x d'" using begin_bound [OF assms(2)] assms(1) by (auto simp: run_inv_def)
  have "set (runs d) \<subseteq> set (runs d')" using assms(2) by (cases rule: begin_runs) auto
  moreover obtain r where "r \<in> set (runs d)" "scope_of r = Some scope" using assms(1) by (cases "runs d") (auto simp: run_inv_def)
  ultimately have "x = scope" using x by (auto simp: run_inv_def)
  with x show ?thesis by simp
qed

lemma operator_stop_runs:
  assumes "operator_stop_body now run d = Inr (t, d')"
  shows "d' = d \<or> runs d' = where_update (live_run run) (end_run (now 0) ''interrupted'') (runs d)"
proof (cases "\<exists>r. first_row (\<lambda>r. rn_id r = run) (runs d) = Some r \<and> rn_status r = ''running''")
  case False
  then show ?thesis using assms by (auto simp: operator_stop_body_def split: option.split_asm if_split_asm)
next
  case True
  then obtain r where "first_row (\<lambda>r. rn_id r = run) (runs d) = Some r" "rn_status r = ''running''" by blast
  with assms obtain d1 n d2 where d1: "interrupt_attempts run (now 0) ENDED_TEXT ''interrupted'' d = Inr ((), d1)"
    and d2: "interrupt_control_jobs run ''operator_stop'' d1 = Inr (n, d2)"
    and d': "runs d' = where_update (live_run run) (end_run (now 0) ''interrupted'') (runs d2)"
    by (auto simp: operator_stop_body_def tx_return_Inr insert_event_def elim!: tx_bind_InrE bind_result_InrE split: if_split_asm)
  show ?thesis
    using d' tx_keepsD [OF same_runs_interrupt d1] tx_keepsD [OF same_runs_jobs d2] by (simp add: same_runs_def)
qed

lemma recover_runs:
  assumes "recover_body now d = Inr (n, d')"
  shows "runs d' = where_update (\<lambda>r. rn_status r = ''running'') (end_run (now 0) ''interrupted'') (runs d)"
proof -
  obtain u d1 where loop: "tx_each (\<lambda>r. tx_bind (interrupt_control_jobs r ''supervisor_restart'') (\<lambda>_. tx_return ()))
      (map rn_id (sort_key rn_started (sort_key rn_id (filter (\<lambda>r. rn_status r = ''running'') (runs d))))) d = Inr (u, d1)"
    and rest: "tx_bind (tx_modify (\<lambda>d. d\<lparr>attempts := where_update (\<lambda>a. at_status a = ''running'')
        (\<lambda>a. a\<lparr>at_finished := Some (now 0), at_status := ''interrupted'',
              at_summary := ''process ended before restart''\<rparr>) (attempts d)\<rparr>)) (\<lambda>_.
      tx_bind (tx_each (recovery_event (now 0)) (running_counts d1)) (\<lambda>_.
      tx_bind (requeue_challenges (now 0)) (\<lambda>_.
      tx_bind (tx_modify (\<lambda>d. d\<lparr>runs := where_update (\<lambda>r. rn_status r = ''running'') (end_run (now 0) ''interrupted'') (runs d)\<rparr>)) (\<lambda>_.
      tx_return (count_rows (\<lambda>a. at_status a = ''running'') (attempts d1)))))) d1 = Inr (n, d')"
    using assms unfolding recover_body_def Let_def by (rule tx_bind_InrE)
  have keeps: "tx_keeps same_runs (tx_each (\<lambda>r. tx_bind (interrupt_control_jobs r why) (\<lambda>_. tx_return ())) rs)" for rs why
    by (intro same_runs_rules)
  have "runs d1 = runs d" using tx_keepsD [OF keeps loop] by (simp add: same_runs_def)
  then show ?thesis
    using rest by (auto simp: tx_modify_Inr tx_return_Inr requeue_challenges_def same_tables_def
        elim!: tx_bind_InrE dest!: recovery_events_tables)
qed

text \<open>A supervised step keeps the runs, ends some of them, or begins one.\<close>

lemma supervised_runs:
  assumes "supervised_step d d'"
  obtains (same) "runs d' = runs d"
  | (ended) p stamp status where "runs d' = where_update p (end_run stamp status) (runs d)" "status \<noteq> ''running''"
  | (begun) now run config s where "start_or_resume_body now run config d = Inr (s, d')"
  using assms
proof cases
  case (Begin now run config s)
  then show ?thesis using same begun
    by (auto simp: start_or_resume_run_def transaction_def split: if_split_asm sum.split_asm)
next
  case (Finish now run status r)
  then have "d' = d \<or> (status \<noteq> ''running'' \<and> runs d' = where_update (live_run run) (end_run (now 0) status) (runs d))"
    by (auto simp: finish_run_def finish_run_body_def transaction_def RUN_END_def split: if_split_asm sum.split_asm)
  then show ?thesis using same ended by blast
next
  case (Stop now run t)
  then have "d' = d \<or> (\<exists>t'. operator_stop_body now run d = Inr (t', d'))"
    by (auto simp: finalize_operator_stop_def transaction_def split: if_split_asm sum.split_asm)
  then show ?thesis using same ended [of _ "now 0" "''interrupted''"] operator_stop_runs by fastforce
next
  case (Interrupt now run why n)
  have "tx_keeps same_runs (tx_bind (interrupt_attempts run (now 0) ENDED_TEXT ''interrupted'') (\<lambda>_. interrupt_control_jobs run why))"
    by (intro same_runs_rules)
  from transaction_keeps [OF reflp_same_runs this] Interrupt show ?thesis
    by (intro same) (auto simp: interrupt_control_run_def same_runs_def)
next
  case (Recover now n)
  then have "d' = d \<or> (\<exists>m. recover_body now d = Inr (m, d'))"
    by (auto simp: recover_interrupted_def transaction_def split: if_split_asm sum.split_asm)
  then show ?thesis using same ended [of _ "now 0" "''interrupted''"] recover_runs by fastforce
next
  case Other
  then show ?thesis by (rule same)
qed

interpretation supervised: guarded_store "run_inv scope" supervised_step "run_inv scope" for scope
proof
  show "run_inv scope d'" if inv: "run_inv scope d" and "supervised_step d d'" for d d'
    using that(2)
  proof (cases rule: supervised_runs)
    case same
    with inv show ?thesis by (simp add: run_inv_def)
  next
    case ended
    with inv show ?thesis by (rule run_inv_ended)
  next
    case begun
    with inv show ?thesis by (rule run_inv_begin)
  qed
qed

lemma run_step_distinct:
  assumes "run_step d d'" "distinct (map rn_id (runs d))"
  shows "distinct (map rn_id (runs d'))"
  using assms(1)
proof cases
  case Supervised
  then show ?thesis
  proof (cases rule: supervised_runs)
    case (ended p stamp status)
    have "map rn_id (where_update p (end_run stamp status) rs) = map rn_id rs" for rs
      by (induction rs) (simp_all add: where_update_def end_run_def)
    with ended assms(2) show ?thesis by simp
  next
    case (begun now run config s)
    with begin_bound [OF begun assms(2)] show ?thesis by (auto simp: run_inv_def)
  qed (use assms(2) in simp)
next
  case (Start now run config r)
  with assms(2) show ?thesis
    by (auto simp: start_run_def insert_run_def transaction_def has_run_def bind_result_def unique_key_def ensure_def
        split: sum.split_asm if_split_asm)
qed

interpretation all_runs: guarded_store "\<lambda>d. runs d = []" run_step "\<lambda>d. distinct (map rn_id (runs d))"
proof
  show "distinct (map rn_id (runs d'))" if "distinct (map rn_id (runs d))" "run_step d d'" for d d'
    using run_step_distinct [OF that(2,1)] .
qed simp

text \<open>C20. Whatever a store went through before, runs recorded directly by \<open>start_run\<close> included, a supervisor that
  starts or resumes a run is given the only running run of the store, and every run on record is bound to the
  Board and phase of its configuration. From there on, as long as no run is recorded by \<open>start_run\<close>, run ids
  are distinct, at most one run is running and all runs stay bound to that Board and phase, whatever
  sequence of starts, resumptions, finishes, stops, interruptions, recoveries and other operations follows,
  failed ones included.\<close>

theorem one_live_run_one_scope:
  assumes "runs d0 = []" "run_step\<^sup>*\<^sup>* d0 d1" "start_or_resume_run now run config d1 = (Inr s, d2)"
    "supervised_step\<^sup>*\<^sup>* d2 d"
  shows "map rn_id (filter (\<lambda>r. rn_status r = ''running'') (runs d2)) = [rs_run s]
    \<and> count_rows (\<lambda>r. rn_status r = ''running'') (runs d) \<le> 1 \<and> distinct (map rn_id (runs d))
    \<and> (\<exists>scope. run_scope config = Inr scope
        \<and> (\<forall>r \<in> set (runs d). \<exists>c. rn_config r = Some (PDict c) \<and> run_scope c = Inr scope))"
proof -
  have "start_or_resume_body now run config d1 = Inr (s, d2)"
    using assms(3) by (auto simp: start_or_resume_run_def transaction_def split: if_split_asm sum.split_asm)
  from begin_bound [OF this all_runs.reachable_inv [OF assms(1,2)]] obtain scope where scope: "run_scope config = Inr scope"
    "run_inv scope d2" "map rn_id (filter (\<lambda>r. rn_status r = ''running'') (runs d2)) = [rs_run s]" by (elim exE conjE)
  have inv: "run_inv scope d" by (rule supervised.run_inv [OF assms(4) scope(2)])
  have "\<exists>c. rn_config r = Some (PDict c) \<and> run_scope c = Inr scope" if "scope_of r = Some scope" for r
    using that by (auto simp: scope_of_def split: option.split_asm pyval.split_asm sum.split_asm)
  with inv scope show ?thesis unfolding run_inv_def by blast
qed

text \<open>A run recorded directly and finished, then a supervised one, which is finished too.\<close>

theorem one_live_run_one_scope_witness:
  "\<exists>d1 s d2 d. run_step\<^sup>*\<^sup>* (empty_db\<lparr>leased := True\<rparr>) d1
     \<and> start_or_resume_run (\<lambda>_. ''t'') ''b'' [] d1 = (Inr s, d2) \<and> supervised_step\<^sup>*\<^sup>* d2 d
     \<and> map rn_id (filter (\<lambda>r. rn_status r = ''running'') (runs d2)) = [''b''] \<and> length (runs d) = 2
     \<and> distinct (map rn_id (runs d))"
proof -
  let ?now = "\<lambda>_. ''t''"
  let ?r = "\<lambda>x. \<lparr>rn_id = x, rn_started = ''t'', rn_finished = None, rn_status = ''running'', rn_config = Some (PDict [])\<rparr>"
  let ?over = "end_run ''t'' ''completed''"
  define d1 where "d1 = empty_db\<lparr>leased := True, runs := [?r ''a'']\<rparr>"
  define d2 where "d2 = empty_db\<lparr>leased := True, runs := [?over (?r ''a'')]\<rparr>"
  define d3 where "d3 = empty_db\<lparr>leased := True, runs := [?over (?r ''a''), ?r ''b'']\<rparr>"
  define d4 where "d4 = empty_db\<lparr>leased := True, runs := [?over (?r ''a''), ?over (?r ''b'')]\<rparr>"
  note defs = empty_db_def d1_def d2_def d3_def d4_def start_or_resume_run_def start_or_resume_body_def check_history_def
    run_scope_def dict_get_def insert_run_def run_tx transaction_def has_run_def finish_run_def finish_run_body_def
    RUN_END_def where_update_def live_run_def end_run_def start_run_def
  have steps: "start_run ?now ''a'' (PDict []) (empty_db\<lparr>leased := True\<rparr>) = (Inr (), d1)"
    "finish_run ?now ''a'' ''completed'' d1 = (Inr (), d2)"
    "start_or_resume_run ?now ''b'' [] d2 = (Inr \<lparr>rs_run = ''b'', rs_started = ''t'', rs_resumed = False\<rparr>, d3)"
    "finish_run ?now ''b'' ''completed'' d3 = (Inr (), d4)"
    by (simp_all add: defs)
  have run: "run_step\<^sup>*\<^sup>* (empty_db\<lparr>leased := True\<rparr>) d2"
    using run_step.Start [OF steps(1)] run_step.Supervised [OF supervised_step.Finish [OF steps(2)]] by simp
  have after: "supervised_step\<^sup>*\<^sup>* d3 d4" using supervised_step.Finish [OF steps(4)] by simp
  from one_live_run_one_scope [OF _ run steps(3) after] run steps(3) after show ?thesis
    by (intro exI [of _ d2] exI [of _ "\<lparr>rs_run = ''b'', rs_started = ''t'', rs_resumed = False\<rparr>"] exI [of _ d3] exI [of _ d4])
      (simp add: empty_db_def d4_def)
qed

end
