(* ===== verification/Submission_Ledger.thy ===== *)
theory Submission_Ledger
  imports State_Tables
begin

text \<open>
  The no-retry ledger of Board effects in \<open>src/rapido/state.py\<close>: an intent is made durable before a
  candidate is sent (\<open>reserve_submission\<close>), settled by the Board's answer (\<open>finalize_submission\<close>) or
  by an operator (\<open>reconcile_submission_intent\<close>), and never deleted; and the ownership of challenge
  instances (\<open>mark_instance\<close>). The hexadecimal SHA-256 of a candidate's UTF-8 encoding is a
  parameter. The lemmas carry the ledger's invariant through every operation; the abstract ledger
  keeps, per challenge, only which effects are in flight.
\<close>

section \<open>Identities\<close>

definition PROVENANCE :: "string list" where
  "PROVENANCE = [''unknown'', ''board_description_candidate'', ''source_observed_candidate'']"

definition SETTLED :: "string list" where
  "SETTLED = [''correct'', ''incorrect'', ''already_solved'']"

definition UNRESOLVED :: "string list" where
  "UNRESOLVED = [''pending'', ''unread'']"

definition OUTCOMES_OF_BOARD :: "string list" where
  "OUTCOMES_OF_BOARD = [''correct'', ''incorrect'', ''already_solved'', ''paused'', ''ratelimited'', ''unread'']"

definition candidate_fingerprint :: "digest_fn \<Rightarrow> string \<Rightarrow> string result" where
  "candidate_fingerprint sha candidate =
     (if candidate = [] \<or> 600 < length candidate then Inl (ValueError ''invalid candidate'')
      else Inr (sha candidate))"

text \<open>The context of a challenge in a run: episode 0 and no digest while it is not catalogued.\<close>

definition current_context :: "db \<Rightarrow> string \<Rightarrow> int \<Rightarrow> int \<times> string option" where
  "current_context d run c =
     (case first_row (\<lambda>r. ct_run r = run \<and> ct_challenge r = c) (catalogue d) of
        None \<Rightarrow> (0, None)
      | Some r \<Rightarrow> (ct_episode r, ct_context r))"

section \<open>Reserving an effect\<close>

definition settled_same_context :: "string \<Rightarrow> int \<Rightarrow> string \<Rightarrow> int \<Rightarrow> string option \<Rightarrow> intent_row \<Rightarrow> bool" where
  "settled_same_context run c fp ep ctx i \<longleftrightarrow>
     it_run i = run \<and> it_challenge i = c \<and> it_sha i = fp \<and> it_status i \<in> set SETTLED
     \<and> (ctx \<noteq> None \<and> it_context i = ctx \<or> it_episode i = ep \<and> it_context i = ctx)"

definition unresolved_of :: "int \<Rightarrow> intent_row \<Rightarrow> bool" where
  "unresolved_of c i \<longleftrightarrow> it_challenge i = c \<and> it_status i \<in> set UNRESOLVED"

definition same_key :: "int \<Rightarrow> string \<Rightarrow> string \<Rightarrow> int \<Rightarrow> intent_row \<Rightarrow> bool" where
  "same_key c fp run ep i \<longleftrightarrow>
     it_challenge i = c \<and> it_sha i = fp \<and> it_run i = run \<and> it_episode i = ep"

definition retryable :: "int \<Rightarrow> string \<Rightarrow> string \<Rightarrow> int \<Rightarrow> string option \<Rightarrow> intent_row \<Rightarrow> bool" where
  "retryable c fp run ep ctx i \<longleftrightarrow> same_key c fp run ep i \<and> it_context i = ctx \<and> it_status i = ''not_delivered''"

definition reserve_body :: "clock \<Rightarrow> string \<Rightarrow> int \<Rightarrow> string \<Rightarrow> string \<Rightarrow> bool tx" where
  "reserve_body now run c fp provenance d =
     (let (ep, ctx) = current_context d run c in
      if \<exists>i \<in> set (intents d). settled_same_context run c fp ep ctx i then Inr (False, d)
      else if \<exists>i \<in> set (intents d). unresolved_of c i then Inr (False, d)
      else if \<exists>i \<in> set (intents d). same_key c fp run ep i
      then Inr (count_rows (retryable c fp run ep ctx) (intents d) = 1,
        d\<lparr>intents := where_update (retryable c fp run ep ctx)
            (\<lambda>i. i\<lparr>it_reserved := now 0, it_provenance := provenance, it_status := ''pending'', it_updated := now 0\<rparr>)
            (intents d)\<rparr>)
      else bind_result (foreign_key (has_challenge d c \<and> has_run d run)) (\<lambda>_.
        Inr (True, d\<lparr>intents := intents d @
          [\<lparr>it_challenge = c, it_sha = fp, it_run = run, it_episode = ep, it_context = ctx,
            it_provenance = provenance, it_reserved = now 0, it_status = ''pending'', it_updated = now 0\<rparr>]\<rparr>)))"

definition reserve_submission :: "digest_fn \<Rightarrow> clock \<Rightarrow> string \<Rightarrow> int \<Rightarrow> string \<Rightarrow> string \<Rightarrow> db \<Rightarrow> bool result \<times> db" where
  "reserve_submission sha now run c candidate provenance d =
     (if provenance \<notin> set PROVENANCE then (Inl (ValueError ''invalid submission provenance''), d)
      else case candidate_fingerprint sha candidate of
        Inl e \<Rightarrow> (Inl e, d)
      | Inr fp \<Rightarrow> transaction (reserve_body now run c fp provenance) d)"

section \<open>Settling an effect\<close>

definition own_pending :: "int \<Rightarrow> string \<Rightarrow> string \<Rightarrow> int \<Rightarrow> string option \<Rightarrow> intent_row \<Rightarrow> bool" where
  "own_pending c fp run ep ctx i \<longleftrightarrow> same_key c fp run ep i \<and> it_context i = ctx \<and> it_status i = ''pending''"

definition finalize_body ::
  "clock \<Rightarrow> string \<Rightarrow> int \<Rightarrow> string \<Rightarrow> string \<Rightarrow> int \<Rightarrow> string \<Rightarrow> nat tx" where
  "finalize_body now run c fp outcome http provenance d =
     (let (ep, ctx) = current_context d run c in
      case first_row (own_pending c fp run ep ctx) (intents d) of
        None \<Rightarrow> Inl (ValueError ''submission intent is absent, settled, or owned by a prior effect'')
      | Some i \<Rightarrow>
          if it_provenance i \<noteq> provenance
          then Inl (ValueError ''submission provenance differs from the durable intent'')
          else if count_rows (own_pending c fp run ep ctx) (intents d) \<noteq> 1
          then Inl (ValueError ''submission intent is absent, settled, or owned by a prior effect'')
          else Inr (length (submissions d) + 1,
            d\<lparr>intents := where_update (own_pending c fp run ep ctx)
                (\<lambda>i. i\<lparr>it_status := outcome, it_updated := now 0\<rparr>) (intents d),
              submissions := submissions d @
                [\<lparr>sb_run = run, sb_challenge = c, sb_at = now 1, sb_sha = fp, sb_episode = it_episode i,
                  sb_provenance = provenance, sb_outcome = outcome, sb_http = http\<rparr>]\<rparr>))"

definition finalize_submission ::
  "digest_fn \<Rightarrow> clock \<Rightarrow> string \<Rightarrow> int \<Rightarrow> string \<Rightarrow> string \<Rightarrow> int \<Rightarrow> string \<Rightarrow> db \<Rightarrow> nat result \<times> db" where
  "finalize_submission sha now run c candidate outcome http provenance d =
     (if outcome \<notin> set OUTCOMES_OF_BOARD then (Inl (ValueError ''invalid submission outcome''), d)
      else if provenance \<notin> set PROVENANCE then (Inl (ValueError ''invalid submission provenance''), d)
      else case candidate_fingerprint sha candidate of
        Inl e \<Rightarrow> (Inl e, d)
      | Inr fp \<Rightarrow> transaction (finalize_body now run c fp outcome http provenance) d)"

definition record_submission ::
  "digest_fn \<Rightarrow> clock \<Rightarrow> clock \<Rightarrow> string \<Rightarrow> int \<Rightarrow> string \<Rightarrow> string \<Rightarrow> int \<Rightarrow> db \<Rightarrow> nat result \<times> db" where
  "record_submission sha now now' run c candidate outcome http d =
     (case reserve_submission sha now run c candidate ''unknown'' d of
        (Inl e, d') \<Rightarrow> (Inl e, d')
      | (Inr False, d') \<Rightarrow> (Inl (ValueError ''submission candidate was already reserved''), d')
      | (Inr True, d') \<Rightarrow> finalize_submission sha now' run c candidate outcome http ''unknown'' d')"

definition hex_digest :: "string \<Rightarrow> bool" where
  "hex_digest s \<longleftrightarrow> length s = 64 \<and> list_all (\<lambda>c. c \<in> set ''0123456789abcdef'') s"

definition effect_in_flight :: "int \<Rightarrow> string \<Rightarrow> intent_row \<Rightarrow> bool" where
  "effect_in_flight c fp i \<longleftrightarrow> it_challenge i = c \<and> it_sha i = fp \<and> it_status i \<in> set UNRESOLVED"

definition reconcile_body :: "clock \<Rightarrow> int \<Rightarrow> string \<Rightarrow> string \<Rightarrow> unit tx" where
  "reconcile_body now c fp outcome d =
     (case first_row (effect_in_flight c fp) (intents d) of
        None \<Rightarrow> Inl (ValueError ''pending submission intent was not found'')
      | Some i \<Rightarrow> Inr ((),
          d\<lparr>intents := where_update (effect_in_flight c fp)
              (\<lambda>i. i\<lparr>it_status := outcome, it_updated := now 0\<rparr>) (intents d),
            challenges := (if outcome = ''correct''
              then where_update (\<lambda>r. ch_id r = c) (\<lambda>r. r\<lparr>ch_status := ''solved'', ch_updated := now 1\<rparr>) (challenges d)
              else challenges d),
            submissions := (if outcome \<in> {''correct'', ''incorrect''}
              then submissions d @
                [\<lparr>sb_run = it_run i, sb_challenge = c, sb_at = now 2, sb_sha = fp, sb_episode = it_episode i,
                  sb_provenance = it_provenance i, sb_outcome = outcome, sb_http = 0\<rparr>]
              else submissions d),
            events := events d @
              [\<lparr>ev_run = it_run i, ev_at = now 3, ev_kind = ''submission_reconciliation'',
                ev_data = PDict [(''challenge_id'', PInt c), (''candidate_sha256'', PStr fp),
                  (''outcome'', PStr outcome), (''source'', PStr ''explicit_operator_input'')]\<rparr>]\<rparr>))"

definition reconcile_submission_intent :: "clock \<Rightarrow> int \<Rightarrow> string \<Rightarrow> string \<Rightarrow> db \<Rightarrow> unit result \<times> db" where
  "reconcile_submission_intent now c fp outcome d =
     (if c \<le> 0 \<or> \<not> hex_digest fp then (Inl (ValueError ''invalid submission reconciliation identity''), d)
      else if outcome \<notin> {''correct'', ''incorrect'', ''not_delivered''}
      then (Inl (ValueError ''invalid submission reconciliation outcome''), d)
      else transaction (reconcile_body now c fp outcome) d)"

section \<open>Reading the ledger\<close>

definition pending_submission_intents ::
  "db \<Rightarrow> (int \<times> string \<times> string \<times> string \<times> string \<times> string \<times> string) list" where
  "pending_submission_intents d =
     map (\<lambda>i. (it_challenge i, it_sha i, it_run i, it_status i, it_provenance i, it_reserved i, it_updated i))
       (sort_key it_reserved (sort_key it_challenge (sort_key it_sha
         (filter (\<lambda>i. it_status i \<in> set UNRESOLVED) (intents d)))))"

definition incorrect_submission_count :: "db \<Rightarrow> nat" where
  "incorrect_submission_count d = count_rows (\<lambda>i. it_status i = ''incorrect'') (intents d)"

definition submission_risk_count :: "db \<Rightarrow> nat" where
  "submission_risk_count d = count_rows (\<lambda>i. it_status i \<in> {''incorrect'', ''pending'', ''unread''}) (intents d)"

text \<open>The join with the catalogue: the row is absent and the intent unscoped, or the contexts have
  the same digest, or the same episode and the same (possibly absent) digest.\<close>

definition context_matches :: "catalogue_row option \<Rightarrow> intent_row \<Rightarrow> bool" where
  "context_matches row i =
     (case row of
        None \<Rightarrow> it_episode i = 0 \<and> it_context i = None
      | Some r \<Rightarrow> ct_context r \<noteq> None \<and> it_context i = ct_context r
                 \<or> it_episode i = ct_episode r \<and> it_context i = ct_context r)"

definition catalogued :: "db \<Rightarrow> string \<Rightarrow> int \<Rightarrow> catalogue_row option" where
  "catalogued d run c = first_row (\<lambda>r. ct_run r = run \<and> ct_challenge r = c) (catalogue d)"

definition challenge_incorrect_submission_count :: "db \<Rightarrow> string \<Rightarrow> int \<Rightarrow> nat" where
  "challenge_incorrect_submission_count d run c =
     count_rows (\<lambda>i. it_run i = run \<and> it_challenge i = c \<and> context_matches (catalogued d run c) i
       \<and> it_status i = ''incorrect'') (intents d)"

definition challenge_unresolved_submission_count :: "db \<Rightarrow> int \<Rightarrow> nat" where
  "challenge_unresolved_submission_count d c = count_rows (unresolved_of c) (intents d)"

text \<open>The \<open>ORDER BY\<close>: intents of the current episode first, then the latest reservation.\<close>

definition status_order :: "catalogue_row option \<Rightarrow> intent_row list \<Rightarrow> intent_row list" where
  "status_order row rows =
     (let latest = rev (sort_key it_reserved rows);
          current = (\<lambda>i. case row of None \<Rightarrow> False | Some r \<Rightarrow> it_episode i = ct_episode r) in
      filter current latest @ filter (\<lambda>i. \<not> current i) latest)"

definition candidate_submission_status ::
  "digest_fn \<Rightarrow> db \<Rightarrow> string \<Rightarrow> int \<Rightarrow> string \<Rightarrow> (string \<times> string \<times> int \<times> string option) option result" where
  "candidate_submission_status sha d run c candidate =
     bind_result (candidate_fingerprint sha candidate) (\<lambda>fp.
     let row = catalogued d run c;
         rows = filter (\<lambda>i. it_run i = run \<and> it_challenge i = c \<and> it_sha i = fp \<and> context_matches row i) (intents d) in
     Inr (case status_order row rows of
        [] \<Rightarrow> None
      | i # _ \<Rightarrow> Some (it_status i, it_run i, it_episode i, it_context i)))"

definition control_catalogue_context_identity :: "db \<Rightarrow> string \<Rightarrow> int \<Rightarrow> (int \<times> string option) result" where
  "control_catalogue_context_identity d run c =
     (case catalogued d run c of
        None \<Rightarrow> Inl (ValueError ''durable catalogue context is absent'')
      | Some r \<Rightarrow> if ct_episode r < 0 then Inl (ValueError ''durable catalogue context episode is invalid'')
                 else Inr (ct_episode r, ct_context r))"

definition challenge_has_correct_submission :: "db \<Rightarrow> string \<Rightarrow> int \<Rightarrow> bool" where
  "challenge_has_correct_submission d run c =
     (case catalogued d run c of
        None \<Rightarrow> False
      | Some r \<Rightarrow>
          0 < count_rows (\<lambda>s. sb_run s = run \<and> sb_challenge s = c \<and> sb_episode s = ct_episode r
                \<and> sb_outcome s = ''correct'') (submissions d)
            + count_rows (\<lambda>i. it_run i = run \<and> it_challenge i = c \<and> it_episode i = ct_episode r
                \<and> it_context i = ct_context r \<and> it_status i = ''correct'') (intents d))"

section \<open>Instances\<close>

definition same_verification :: "verification_row \<Rightarrow> verification_row \<Rightarrow> bool" where
  "same_verification v w \<longleftrightarrow> vf_run v = vf_run w \<and> vf_challenge v = vf_challenge w \<and> vf_key v = vf_key w
     \<and> vf_producer v = vf_producer w \<and> vf_verifier v = vf_verifier w"

fun retire_all :: "int \<Rightarrow> string \<Rightarrow> verification_row list \<Rightarrow> history_row list \<Rightarrow> history_row list" where
  "retire_all ep stamp [] hs = hs"
| "retire_all ep stamp (v # vs) hs =
     retire_all ep stamp vs
       (if \<exists>h \<in> set hs. same_verification (hs_verification h) v then hs
        else hs @ [\<lparr>hs_verification = v, hs_episode = ep, hs_retired = stamp\<rparr>])"

definition upsert_instance :: "instance_row \<Rightarrow> instance_row list \<Rightarrow> instance_row list" where
  "upsert_instance new rows =
     (if in_challenge new \<in> set (map in_challenge rows)
      then where_update (\<lambda>r. in_challenge r = in_challenge new)
        (\<lambda>r. new\<lparr>in_receipt := if in_status new = ''creating'' then None
                else case in_receipt new of None \<Rightarrow> in_receipt r | Some x \<Rightarrow> Some x\<rparr>) rows
      else rows @ [new])"

definition mark_instance_body :: "clock \<Rightarrow> string \<Rightarrow> int \<Rightarrow> string \<Rightarrow> string option \<Rightarrow> unit tx" where
  "mark_instance_body now run c status receipt d =
     (let changed = status = ''creating'' \<or> status = ''owned''
            \<and> (case first_row (\<lambda>r. in_challenge r = c) (instances d) of
                 None \<Rightarrow> False
               | Some p \<Rightarrow> in_run p \<noteq> run \<or> in_receipt p \<noteq> receipt);
          mine = (\<lambda>v. vf_run v = run \<and> vf_challenge v = c);
          retired = (if changed
            then d\<lparr>verification_history := retire_all (fst (current_context d run c)) (now 0)
                       (filter mine (verifications d)) (verification_history d),
                   verifications := filter (\<lambda>v. \<not> mine v) (verifications d)\<rparr>
            else d) in
      bind_result (foreign_key (has_challenge d c \<and> has_run d run)) (\<lambda>_.
      Inr ((), retired\<lparr>instances := upsert_instance
        \<lparr>in_challenge = c, in_run = run, in_status = status, in_receipt = receipt,
         in_updated = now (if changed then 1 else 0)\<rparr> (instances retired)\<rparr>)))"

definition mark_instance :: "clock \<Rightarrow> string \<Rightarrow> int \<Rightarrow> string \<Rightarrow> string option \<Rightarrow> db \<Rightarrow> unit result \<times> db" where
  "mark_instance now run c status receipt d =
     (if status \<notin> {''creating'', ''owned'', ''cleanup_pending'', ''removed''}
      then (Inl (ValueError ''invalid instance status''), d)
      else if status = ''owned'' \<and> (case receipt of None \<Rightarrow> True | Some r \<Rightarrow> \<not> hex_digest r)
      then (Inl (ValueError ''owned instance requires a generation receipt''), d)
      else transaction (mark_instance_body now run c status receipt) d)"

definition owned_instances :: "db \<Rightarrow> instance_row list" where
  "owned_instances d = sort_key in_challenge
     (filter (\<lambda>r. in_status r \<in> {''creating'', ''owned'', ''cleanup_pending''}) (instances d))"

section \<open>The ledger as a map\<close>

datatype effect_key = EffectKey (ek_challenge: int) (ek_sha: string) (ek_run: string) (ek_episode: int)

definition intent_key :: "intent_row \<Rightarrow> effect_key" where
  "intent_key i = EffectKey (it_challenge i) (it_sha i) (it_run i) (it_episode i)"

definition row_at :: "db \<Rightarrow> effect_key \<Rightarrow> intent_row option" where
  "row_at d k = first_row (\<lambda>i. intent_key i = k) (intents d)"

definition status_at :: "db \<Rightarrow> effect_key \<Rightarrow> string option" where
  "status_at d k = map_option it_status (row_at d k)"

definition unresolved_status :: "string option \<Rightarrow> bool" where
  "unresolved_status s \<longleftrightarrow> s \<in> {Some ''pending'', Some ''unread''}"

text \<open>The invariant: rows have distinct keys, a challenge has at most one effect in flight, and every
  effect whose outcome the ledger states has a logged submission with that outcome.\<close>

definition logged :: "db \<Rightarrow> effect_key \<Rightarrow> string \<Rightarrow> bool" where
  "logged d k s \<longleftrightarrow> (\<exists>b \<in> set (submissions d). EffectKey (sb_challenge b) (sb_sha b) (sb_run b) (sb_episode b) = k \<and> sb_outcome b = s)"

definition ledger_inv :: "db \<Rightarrow> bool" where
  "ledger_inv d \<longleftrightarrow>
     distinct (map intent_key (intents d))
     \<and> (\<forall>k l. ek_challenge k = ek_challenge l \<longrightarrow> unresolved_status (status_at d k) \<longrightarrow> unresolved_status (status_at d l) \<longrightarrow> k = l)
     \<and> (\<forall>k s. status_at d k = Some s \<longrightarrow> s \<noteq> ''pending'' \<longrightarrow> s \<noteq> ''not_delivered'' \<longrightarrow> logged d k s)"

lemma row_at_iff:
  "ledger_inv d \<Longrightarrow> row_at d k = Some i \<longleftrightarrow> i \<in> set (intents d) \<and> intent_key i = k"
  by (simp add: row_at_def ledger_inv_def first_row_key)

lemma status_at_iff:
  "ledger_inv d \<Longrightarrow> status_at d k = Some s \<longleftrightarrow> (\<exists>i \<in> set (intents d). intent_key i = k \<and> it_status i = s)"
  by (auto simp: status_at_def row_at_iff)

lemma unresolved_of_iff:
  assumes "ledger_inv d"
  shows "(\<exists>i \<in> set (intents d). unresolved_of c i) \<longleftrightarrow> (\<exists>k. ek_challenge k = c \<and> unresolved_status (status_at d k))"
proof
  assume "\<exists>i \<in> set (intents d). unresolved_of c i"
  then obtain i where i: "i \<in> set (intents d)" "unresolved_of c i" by blast
  then have "status_at d (intent_key i) = Some (it_status i)" using status_at_iff [OF assms] by blast
  with i show "\<exists>k. ek_challenge k = c \<and> unresolved_status (status_at d k)"
    by (intro exI [of _ "intent_key i"]) (auto simp: unresolved_of_def unresolved_status_def UNRESOLVED_def intent_key_def)
next
  assume "\<exists>k. ek_challenge k = c \<and> unresolved_status (status_at d k)"
  then obtain k s where k: "ek_challenge k = c" "status_at d k = Some s" "s \<in> {''pending'', ''unread''}"
    by (auto simp: unresolved_status_def)
  then obtain i where "i \<in> set (intents d)" "intent_key i = k" "it_status i = s"
    using status_at_iff [OF assms] by blast
  with k show "\<exists>i \<in> set (intents d). unresolved_of c i"
    by (intro bexI [of _ i]) (auto simp: unresolved_of_def UNRESOLVED_def intent_key_def)
qed

lemma status_at_update:
  assumes "\<And>i. intent_key (f i) = intent_key i" "intents d' = where_update p f (intents d)"
  shows "status_at d' k = map_option (\<lambda>i. it_status (if p i then f i else i)) (row_at d k)"
  by (simp add: status_at_def row_at_def assms first_row_where_update [where key = intent_key, OF assms(1)]
      option.map_comp comp_def)

text \<open>One operation sets the status of at most one key.\<close>

lemma status_set_one:
  assumes inv: "ledger_inv d" and row: "row_at d k = Some i" "p i"
    and only: "\<And>j. p j \<Longrightarrow> j \<in> set (intents d) \<Longrightarrow> intent_key j = k"
    and f: "\<And>j. intent_key (f j) = intent_key j" "\<And>j. it_status (f j) = s"
    and upd: "intents d' = where_update p f (intents d)"
  shows "status_at d' = (status_at d)(k \<mapsto> s)"
proof
  fix l
  have new: "status_at d' l = map_option (\<lambda>j. it_status (if p j then f j else j)) (row_at d l)"
    by (rule status_at_update [OF f(1) upd])
  have old: "status_at d l = map_option it_status (row_at d l)" by (simp add: status_at_def)
  show "status_at d' l = ((status_at d)(k \<mapsto> s)) l"
  proof (cases "l = k")
    case True
    with row new f(2) show ?thesis by simp
  next
    case False
    then have "\<not> p j" if "row_at d l = Some j" for j
      using that only row_at_iff [OF inv, of l j] by auto
    with False show ?thesis by (cases "row_at d l") (simp_all add: new old)
  qed
qed

lemma inv_set_status:
  assumes inv: "ledger_inv d" and keys: "distinct (map intent_key (intents d'))"
    and st: "status_at d' = (status_at d)(k \<mapsto> s)"
    and subs: "set (submissions d) \<subseteq> set (submissions d')"
    and log: "s = ''pending'' \<or> s = ''not_delivered'' \<or> logged d' k s"
    and free: "s \<in> {''pending'', ''unread''} \<Longrightarrow>
      \<forall>l. ek_challenge l = ek_challenge k \<longrightarrow> unresolved_status (status_at d l) \<longrightarrow> l = k"
  shows "ledger_inv d'"
  unfolding ledger_inv_def
proof (intro conjI allI impI)
  show "distinct (map intent_key (intents d'))" by (rule keys)
next
  fix a b assume *: "ek_challenge a = ek_challenge b" "unresolved_status (status_at d' a)" "unresolved_status (status_at d' b)"
  have uniq: "unresolved_status (status_at d x) \<Longrightarrow> unresolved_status (status_at d y) \<Longrightarrow> ek_challenge x = ek_challenge y \<Longrightarrow> x = y" for x y
    using inv unfolding ledger_inv_def by blast
  have moved: "x \<noteq> k \<Longrightarrow> status_at d' x = status_at d x" for x by (simp add: st)
  have at: "unresolved_status (status_at d' k) \<Longrightarrow> s \<in> {''pending'', ''unread''}"
    by (simp add: st unresolved_status_def)
  show "a = b"
  proof (cases "a = k \<or> b = k")
    case True
    with * at have "s \<in> {''pending'', ''unread''}" by blast
    from free [OF this] True * moved show ?thesis by metis
  next
    case False
    with * moved uniq show ?thesis by metis
  qed
next
  fix l t assume *: "status_at d' l = Some t" "t \<noteq> ''pending''" "t \<noteq> ''not_delivered''"
  show "logged d' l t"
  proof (cases "l = k")
    case True with * log show ?thesis by (auto simp: st)
  next
    case False
    with * have "status_at d l = Some t" by (simp add: st)
    with * inv have "logged d l t" unfolding ledger_inv_def by blast
    with subs show ?thesis by (auto simp: logged_def)
  qed
qed

section \<open>The operations on the map\<close>

lemma ledger_inv_same:
  "ledger_inv d \<Longrightarrow> intents d' = intents d \<Longrightarrow> submissions d' = submissions d \<Longrightarrow> ledger_inv d'"
  unfolding ledger_inv_def status_at_def row_at_def logged_def by simp

lemma inv_distinct: "ledger_inv d \<Longrightarrow> distinct (map intent_key (intents d))"
  unfolding ledger_inv_def by blast

lemma inv_one_flight:
  "ledger_inv d \<Longrightarrow> ek_challenge k = ek_challenge l \<Longrightarrow> unresolved_status (status_at d k) \<Longrightarrow> unresolved_status (status_at d l) \<Longrightarrow> k = l"
  unfolding ledger_inv_def by blast

lemma same_key_iff: "same_key c fp run ep i \<longleftrightarrow> intent_key i = EffectKey c fp run ep"
  by (auto simp: same_key_def intent_key_def)

lemma first_row_single: "first_row p [x] = (if p x then Some x else None)"
  by (simp add: first_row_def)

lemma status_at_append:
  assumes "ledger_inv d" "intents d' = intents d @ [i]" "intent_key i = k" "status_at d k = None" "it_status i = s"
  shows "status_at d' = (status_at d)(k \<mapsto> s)"
proof
  fix l
  have "row_at d k = None" using assms(4) by (simp add: status_at_def)
  moreover have "row_at d' l = (case row_at d l of None \<Rightarrow> if intent_key i = l then Some i else None | Some r \<Rightarrow> Some r)"
    by (simp add: row_at_def assms(2) first_row_append first_row_single split: option.split)
  ultimately show "status_at d' l = ((status_at d)(k \<mapsto> s)) l"
    using assms(3,5) by (auto simp: status_at_def split: option.splits)
qed

text \<open>A reservation either changes nothing and is not granted, or is granted for a challenge without
  an effect in flight and marks exactly its key pending.\<close>

lemma reserve_body_cases:
  assumes inv: "ledger_inv d" and res: "reserve_body now run c fp provenance d = Inr (granted, d')"
  defines "k \<equiv> EffectKey c fp run (fst (current_context d run c))"
  shows "\<not> granted \<and> d' = d \<or>
    granted \<and> status_at d' = (status_at d)(k \<mapsto> ''pending'') \<and> status_at d k \<in> {None, Some ''not_delivered''}
      \<and> (\<forall>l. ek_challenge l = c \<longrightarrow> \<not> unresolved_status (status_at d l)) \<and> submissions d' = submissions d
      \<and> distinct (map intent_key (intents d')) \<and> catalogue d' = catalogue d"
proof -
  obtain ep ctx where ctx: "current_context d run c = (ep, ctx)" by fastforce
  then have k: "k = EffectKey c fp run ep" by (simp add: k_def)
  show ?thesis
  proof (cases "(\<exists>i \<in> set (intents d). settled_same_context run c fp ep ctx i) \<or> (\<exists>i \<in> set (intents d). unresolved_of c i)")
    case True
    then have "granted = False \<and> d' = d" using res by (auto simp: reserve_body_def ctx split: if_split_asm)
    then show ?thesis by simp
  next
    case False
    then have free: "\<forall>l. ek_challenge l = c \<longrightarrow> \<not> unresolved_status (status_at d l)"
      using unresolved_of_iff [OF inv] by blast
    show ?thesis
    proof (cases "\<exists>i \<in> set (intents d). same_key c fp run ep i")
      case True
      let ?f = "\<lambda>i. i\<lparr>it_reserved := now 0, it_provenance := provenance, it_status := ''pending'', it_updated := now 0\<rparr>"
      have out: "granted = (count_rows (retryable c fp run ep ctx) (intents d) = 1)"
        "d' = d\<lparr>intents := where_update (retryable c fp run ep ctx) ?f (intents d)\<rparr>"
        using res False True by (simp_all add: reserve_body_def ctx)
      show ?thesis
      proof (cases "\<exists>i \<in> set (intents d). retryable c fp run ep ctx i")
        case True
        then obtain i where i: "i \<in> set (intents d)" "retryable c fp run ep ctx i" by blast
        then have ik: "intent_key i = k" "it_status i = ''not_delivered''" by (simp_all add: retryable_def same_key_iff k)
        with i(1) have row: "row_at d k = Some i" by (simp add: row_at_iff [OF inv])
        have "count_rows (retryable c fp run ep ctx) (intents d) \<le> 1"
          by (rule count_rows_le_one [OF inv_distinct [OF inv], of _ k]) (simp add: retryable_def same_key_iff k)
        moreover have "0 < count_rows (retryable c fp run ep ctx) (intents d)" using i by (intro count_rows_pos)
        ultimately have granted using out(1) by simp
        moreover have "status_at d' = (status_at d)(k \<mapsto> ''pending'')"
          by (rule status_set_one [where p = "retryable c fp run ep ctx" and f = ?f, OF inv row i(2)])
            (simp_all add: out(2) retryable_def same_key_iff k, simp add: intent_key_def)
        moreover have "status_at d k = Some ''not_delivered''" using row ik(2) by (simp add: status_at_def)
        moreover have "map intent_key (intents d') = map intent_key (intents d)"
          by (simp add: out(2) intent_key_def)
        ultimately show ?thesis using free inv_distinct [OF inv] by (simp add: out(2))
      next
        case False
        then have "d' = d" by (simp add: out(2) where_update_id)
        moreover have "count_rows (retryable c fp run ep ctx) (intents d) = 0"
          using False by (simp add: count_rows_0_iff)
        ultimately show ?thesis by (simp add: out(1))
      qed
    next
      case fresh: False
      let ?new = "\<lparr>it_challenge = c, it_sha = fp, it_run = run, it_episode = ep, it_context = ctx,
            it_provenance = provenance, it_reserved = now 0, it_status = ''pending'', it_updated = now 0\<rparr>"
      have out: granted "d' = d\<lparr>intents := intents d @ [?new]\<rparr>"
        using res False fresh by (auto simp: reserve_body_def ctx elim!: bind_result_InrE)
      have none: "status_at d k = None"
        using fresh by (auto simp: status_at_def row_at_def first_row_None same_key_iff k)
      have key: "intent_key ?new = k" by (simp add: intent_key_def k)
      have "status_at d' = (status_at d)(k \<mapsto> ''pending'')"
        by (rule status_at_append [OF inv _ key none]) (simp_all add: out(2))
      moreover have "distinct (map intent_key (intents d'))"
        using inv_distinct [OF inv] fresh by (auto simp: out(2) key same_key_iff k)
      ultimately show ?thesis using out free none by simp
    qed
  qed
qed

lemma reserve_body_inv:
  assumes "ledger_inv d" "reserve_body now run c fp provenance d = Inr (granted, d')"
  shows "ledger_inv d'"
  using reserve_body_cases [OF assms]
proof
  assume *: "granted \<and> status_at d' = (status_at d)(EffectKey c fp run (fst (current_context d run c)) \<mapsto> ''pending'')
    \<and> status_at d (EffectKey c fp run (fst (current_context d run c))) \<in> {None, Some ''not_delivered''}
    \<and> (\<forall>l. ek_challenge l = c \<longrightarrow> \<not> unresolved_status (status_at d l)) \<and> submissions d' = submissions d
    \<and> distinct (map intent_key (intents d')) \<and> catalogue d' = catalogue d"
  show ?thesis
    by (rule inv_set_status [OF assms(1)]) (use * in auto)
qed (use assms in simp)

text \<open>Settling moves exactly the pending intent of the current context to the outcome and logs it.\<close>

lemma finalize_body_cases:
  assumes inv: "ledger_inv d" and res: "finalize_body now run c fp outcome http provenance d = Inr (n, d')"
  defines "k \<equiv> EffectKey c fp run (fst (current_context d run c))"
  shows "status_at d k = Some ''pending'' \<and> status_at d' = (status_at d)(k \<mapsto> outcome)
    \<and> map intent_key (intents d') = map intent_key (intents d)
    \<and> set (submissions d) \<subseteq> set (submissions d') \<and> logged d' k outcome \<and> n = length (submissions d')
    \<and> catalogue d' = catalogue d"
proof -
  obtain ep ctx where ctx: "current_context d run c = (ep, ctx)" by fastforce
  then have k: "k = EffectKey c fp run ep" by (simp add: k_def)
  let ?f = "\<lambda>i. i\<lparr>it_status := outcome, it_updated := now 0\<rparr>"
  define sub where "sub i = \<lparr>sb_run = run, sb_challenge = c, sb_at = now 1, sb_sha = fp,
     sb_episode = it_episode i, sb_provenance = provenance, sb_outcome = outcome, sb_http = http\<rparr>" for i :: intent_row
  obtain i where i: "first_row (own_pending c fp run ep ctx) (intents d) = Some i"
    using res by (cases "first_row (own_pending c fp run ep ctx) (intents d)") (simp_all add: finalize_body_def ctx)
  have "n = length (submissions d) + 1 \<and> d' = d\<lparr>intents := where_update (own_pending c fp run ep ctx) ?f (intents d),
      submissions := submissions d @ [sub i]\<rparr>"
    using res by (simp add: finalize_body_def ctx i sub_def split: if_split_asm)
  then have out: "n = length (submissions d) + 1"
      "intents d' = where_update (own_pending c fp run ep ctx) ?f (intents d)"
      "submissions d' = submissions d @ [sub i]" "catalogue d' = catalogue d"
    by simp_all
  from i have member: "i \<in> set (intents d)" and own: "own_pending c fp run ep ctx i"
    using first_row_Some [OF i] by simp_all
  then have ik: "intent_key i = k" "it_status i = ''pending''" "it_episode i = ep"
    by (simp_all add: own_pending_def same_key_iff k) (simp add: intent_key_def)
  with member have row: "row_at d k = Some i" by (simp add: row_at_iff [OF inv])
  have "status_at d' = (status_at d)(k \<mapsto> outcome)"
    by (rule status_set_one [where p = "own_pending c fp run ep ctx" and f = ?f, OF inv row own])
      (simp_all add: out(2) own_pending_def same_key_iff k, simp add: intent_key_def)
  moreover have "status_at d k = Some ''pending''" using row ik(2) by (simp add: status_at_def)
  moreover have "map intent_key (intents d') = map intent_key (intents d)" by (simp add: out(2) intent_key_def)
  moreover have "logged d' k outcome" using ik(3) by (simp add: logged_def out(3) k sub_def)
  ultimately show ?thesis by (auto simp: out)
qed

lemma finalize_body_inv:
  assumes "ledger_inv d" "finalize_body now run c fp outcome http provenance d = Inr (n, d')"
  shows "ledger_inv d'"
proof -
  let ?k = "EffectKey c fp run (fst (current_context d run c))"
  note * = finalize_body_cases [OF assms]
  have "\<forall>l. ek_challenge l = ek_challenge ?k \<longrightarrow> unresolved_status (status_at d l) \<longrightarrow> l = ?k"
    using inv_one_flight [OF assms(1), of _ ?k] * by (simp add: unresolved_status_def)
  then show ?thesis
    by (intro inv_set_status [where k = ?k and s = outcome, OF assms(1)])
      (use * inv_distinct [OF assms(1)] in auto)
qed

text \<open>An operator's finding applies to the one effect of the challenge that is in flight.\<close>

lemma reconcile_body_cases:
  assumes inv: "ledger_inv d" and res: "reconcile_body now c fp outcome d = Inr (u, d')"
  shows "\<exists>k. ek_challenge k = c \<and> ek_sha k = fp \<and> unresolved_status (status_at d k)
    \<and> status_at d' = (status_at d)(k \<mapsto> outcome)
    \<and> map intent_key (intents d') = map intent_key (intents d)
    \<and> set (submissions d) \<subseteq> set (submissions d')
    \<and> (outcome \<in> {''correct'', ''incorrect''} \<longrightarrow> logged d' k outcome) \<and> catalogue d' = catalogue d"
proof -
  let ?f = "\<lambda>i. i\<lparr>it_status := outcome, it_updated := now 0\<rparr>"
  define sub where "sub i = \<lparr>sb_run = it_run i, sb_challenge = c, sb_at = now 2, sb_sha = fp,
     sb_episode = it_episode i, sb_provenance = it_provenance i, sb_outcome = outcome, sb_http = 0\<rparr>" for i :: intent_row
  obtain i where i: "first_row (effect_in_flight c fp) (intents d) = Some i"
    using res by (cases "first_row (effect_in_flight c fp) (intents d)") (simp_all add: reconcile_body_def)
  have out: "intents d' = where_update (effect_in_flight c fp) ?f (intents d)"
      "submissions d' = (if outcome \<in> {''correct'', ''incorrect''} then submissions d @ [sub i] else submissions d)"
      "catalogue d' = catalogue d"
    using res by (auto simp: reconcile_body_def i sub_def)
  from i have member: "i \<in> set (intents d)" and own: "effect_in_flight c fp i"
    using first_row_Some [OF i] by simp_all
  define k where "k = intent_key i"
  then have row: "row_at d k = Some i" using member by (simp add: row_at_iff [OF inv])
  have k: "k = EffectKey c fp (it_run i) (it_episode i)" using own by (simp add: k_def intent_key_def effect_in_flight_def)
  have unresolved: "unresolved_status (status_at d k)"
    using row own by (auto simp: status_at_def unresolved_status_def effect_in_flight_def UNRESOLVED_def)
  have only: "intent_key j = k" if "effect_in_flight c fp j" "j \<in> set (intents d)" for j
  proof -
    have "row_at d (intent_key j) = Some j" using that(2) by (simp add: row_at_iff [OF inv])
    then have "unresolved_status (status_at d (intent_key j))"
      using that(1) by (auto simp: status_at_def unresolved_status_def effect_in_flight_def UNRESOLVED_def)
    then show ?thesis
      using inv_one_flight [OF inv _ _ unresolved, of "intent_key j"] that(1) k
      by (simp add: intent_key_def effect_in_flight_def)
  qed
  have "status_at d' = (status_at d)(k \<mapsto> outcome)"
    by (rule status_set_one [where p = "effect_in_flight c fp" and f = ?f, OF inv row own])
      (simp_all add: out(1) only, simp add: intent_key_def)
  moreover have "map intent_key (intents d') = map intent_key (intents d)" by (simp add: out(1) intent_key_def)
  moreover have "outcome \<in> {''correct'', ''incorrect''} \<longrightarrow> logged d' k outcome" by (auto simp: logged_def out(2) k sub_def)
  ultimately show ?thesis using unresolved k out by (intro exI [of _ k]) auto
qed

lemma reconcile_body_inv:
  assumes "ledger_inv d" "reconcile_body now c fp outcome d = Inr (u, d')"
    "outcome \<in> {''correct'', ''incorrect'', ''not_delivered''}"
  shows "ledger_inv d'"
proof -
  from reconcile_body_cases [OF assms(1,2)] obtain k where *: "ek_challenge k = c" "unresolved_status (status_at d k)"
    "status_at d' = (status_at d)(k \<mapsto> outcome)" "map intent_key (intents d') = map intent_key (intents d)"
    "set (submissions d) \<subseteq> set (submissions d')" "outcome \<in> {''correct'', ''incorrect''} \<longrightarrow> logged d' k outcome"
    by blast
  show ?thesis
    by (rule inv_set_status [where k = k and s = outcome, OF assms(1)])
      (use * inv_distinct [OF assms(1)] assms(3) in auto)
qed

lemma mark_instance_body_same:
  "mark_instance_body now run c status receipt d = Inr (u, d') \<Longrightarrow>
     intents d' = intents d \<and> submissions d' = submissions d \<and> catalogue d' = catalogue d"
  by (auto simp: mark_instance_body_def Let_def elim!: bind_result_InrE)

section \<open>Histories of the ledger\<close>

text \<open>What a step of the ledger means to the Board: an effect is started when a reservation is granted,
  reported undelivered when an operator says so, and otherwise nothing is sent.\<close>

datatype effect = Started effect_key | Undelivered int string | Quiet

text \<open>Everything the program does to the ledger: the four writing operations with any arguments, and any
  operation of another component, which leaves intents and submissions alone (the catalogue may move a
  challenge to another context).\<close>

inductive ledger_step :: "digest_fn \<Rightarrow> db \<Rightarrow> effect \<Rightarrow> db \<Rightarrow> bool" for sha where
  Reserve: "reserve_submission sha now run c candidate provenance d = (r, d') \<Longrightarrow>
    ledger_step sha d (if r = Inr True then Started (EffectKey c (sha candidate) run (fst (current_context d run c))) else Quiet) d'"
| Finalize: "finalize_submission sha now run c candidate outcome http provenance d = (r, d') \<Longrightarrow>
    ledger_step sha d Quiet d'"
| Reconcile: "reconcile_submission_intent now c fp outcome d = (r, d') \<Longrightarrow>
    ledger_step sha d (if r = Inr () \<and> outcome = ''not_delivered'' then Undelivered c fp else Quiet) d'"
| Instance: "mark_instance now run c status receipt d = (r, d') \<Longrightarrow> ledger_step sha d Quiet d'"
| Other: "intents d' = intents d \<Longrightarrow> submissions d' = submissions d \<Longrightarrow> ledger_step sha d Quiet d'"

inductive ledger_history :: "digest_fn \<Rightarrow> effect list \<Rightarrow> db \<Rightarrow> bool" for sha where
  Fresh: "intents d = [] \<Longrightarrow> submissions d = [] \<Longrightarrow> ledger_history sha [] d"
| Step: "ledger_history sha es d \<Longrightarrow> ledger_step sha d e d' \<Longrightarrow> ledger_history sha (e # es) d'"

lemma transaction_cases:
  assumes "transaction body d = (r, d')"
  obtains e where "body d = Inl e" "r = Inl e" "d' = d" | x where "body d = Inr (x, d')" "r = Inr x"
  using assms by (cases "body d") (auto simp: transaction_def)

lemma fresh_inv: "intents d = [] \<Longrightarrow> submissions d = [] \<Longrightarrow> ledger_inv d"
  by (simp add: ledger_inv_def status_at_def row_at_def first_row_def unresolved_status_def)

lemma reserve_submission_cases:
  assumes "reserve_submission sha now run c candidate provenance d = (r, d')"
  obtains "d' = d" "r \<noteq> Inr True"
  | granted where "r = Inr granted" "reserve_body now run c (sha candidate) provenance d = Inr (granted, d')"
  using assms unfolding reserve_submission_def candidate_fingerprint_def
  by (auto split: if_split_asm elim: transaction_cases)

lemma finalize_submission_cases:
  assumes "finalize_submission sha now run c candidate outcome http provenance d = (r, d')"
  obtains "d' = d" | n where "r = Inr n" "outcome \<in> set OUTCOMES_OF_BOARD"
    "finalize_body now run c (sha candidate) outcome http provenance d = Inr (n, d')"
  using assms unfolding finalize_submission_def candidate_fingerprint_def
  by (auto split: if_split_asm elim: transaction_cases)

lemma reconcile_cases:
  assumes "reconcile_submission_intent now c fp outcome d = (r, d')"
  obtains "d' = d" "r \<noteq> Inr ()" | "r = Inr ()" "outcome \<in> {''correct'', ''incorrect'', ''not_delivered''}"
    "reconcile_body now c fp outcome d = Inr ((), d')"
  using assms unfolding reconcile_submission_intent_def
  by (auto split: if_split_asm elim!: transaction_cases)

lemma mark_instance_same:
  assumes "mark_instance now run c status receipt d = (r, d')"
  shows "intents d' = intents d \<and> submissions d' = submissions d"
  using assms unfolding mark_instance_def
  by (auto split: if_split_asm elim!: transaction_cases dest: mark_instance_body_same)

lemma ledger_step_inv: "ledger_step sha d e d' \<Longrightarrow> ledger_inv d \<Longrightarrow> ledger_inv d'"
proof (induction rule: ledger_step.induct)
  case (Reserve now run c candidate provenance d r d')
  then show ?case by (auto elim!: reserve_submission_cases intro: reserve_body_inv)
next
  case (Finalize now run c candidate outcome http provenance d r d')
  then show ?case by (auto elim!: finalize_submission_cases intro: finalize_body_inv)
next
  case (Reconcile now c fp outcome d r d')
  then show ?case by (auto elim!: reconcile_cases intro: reconcile_body_inv)
next
  case (Instance now run c status receipt d r d')
  then show ?case using mark_instance_same by (blast intro: ledger_inv_same)
next
  case (Other d' d)
  then show ?case by (blast intro: ledger_inv_same)
qed

interpretation ledger: guarded_store "\<lambda>d. intents d = [] \<and> submissions d = []"
  "\<lambda>d d'. \<exists>e. ledger_step sha d e d'" ledger_inv for sha
  by unfold_locales (auto intro: fresh_inv ledger_step_inv)

lemma ledger_history_reachable:
  "ledger_history sha es d \<Longrightarrow>
     \<exists>d0. (intents d0 = [] \<and> submissions d0 = []) \<and> (\<lambda>d d'. \<exists>e. ledger_step sha d e d')\<^sup>*\<^sup>* d0 d"
  by (induction rule: ledger_history.induct) (blast intro: rtranclp.intros)+

lemma ledger_history_inv: "ledger_history sha es d \<Longrightarrow> ledger_inv d"
  using ledger_history_reachable ledger.reachable_inv by blast

section \<open>What the ledger promises\<close>

lemma unresolved_le_one:
  assumes "ledger_inv d"
  shows "challenge_unresolved_submission_count d c \<le> 1"
proof (cases "\<exists>i \<in> set (intents d). unresolved_of c i")
  case False
  then show ?thesis by (simp add: challenge_unresolved_submission_count_def count_rows_0_iff [THEN iffD2])
next
  case True
  have unresolved: "unresolved_status (status_at d (intent_key j))" if "unresolved_of c j" "j \<in> set (intents d)" for j
  proof -
    have "row_at d (intent_key j) = Some j" using that(2) by (simp add: row_at_iff [OF assms])
    then show ?thesis using that(1)
      by (auto simp: status_at_def unresolved_of_def unresolved_status_def UNRESOLVED_def)
  qed
  from True obtain i where i: "i \<in> set (intents d)" "unresolved_of c i" by blast
  have "intent_key j = intent_key i" if "unresolved_of c j" "j \<in> set (intents d)" for j
    using inv_one_flight [OF assms _ unresolved [OF that] unresolved [OF i(2,1)]] that i(2)
    by (simp add: intent_key_def unresolved_of_def)
  then have "filter (unresolved_of c) (intents d)
      = filter (\<lambda>j. unresolved_of c j \<and> intent_key j = intent_key i) (intents d)"
    by (intro filter_cong) auto
  then show ?thesis
    using count_rows_le_one [OF inv_distinct [OF assms], of "\<lambda>j. unresolved_of c j \<and> intent_key j = intent_key i" "intent_key i"]
    by (simp add: challenge_unresolved_submission_count_def count_rows_def)
qed

text \<open>C2. After any history of reservations, answers, operator findings and other work, every challenge
  has at most one effect in flight, no two rows describe the same effect, and every effect with a
  known outcome has a logged submission with exactly that outcome.\<close>

theorem ledger_always_sound:
  assumes "ledger_history sha es d"
  shows "challenge_unresolved_submission_count d c \<le> 1 \<and> distinct (map intent_key (intents d))
    \<and> (\<forall>i \<in> set (intents d). it_status i \<notin> {''pending'', ''not_delivered''} \<longrightarrow>
         (\<exists>b \<in> set (submissions d). sb_challenge b = it_challenge i \<and> sb_sha b = it_sha i
            \<and> sb_run b = it_run i \<and> sb_episode b = it_episode i \<and> sb_outcome b = it_status i))"
proof (intro conjI ballI impI)
  have inv: "ledger_inv d" by (rule ledger_history_inv [OF assms])
  show "challenge_unresolved_submission_count d c \<le> 1" by (rule unresolved_le_one [OF inv])
  show "distinct (map intent_key (intents d))" by (rule inv_distinct [OF inv])
  fix i assume i: "i \<in> set (intents d)" "it_status i \<notin> {''pending'', ''not_delivered''}"
  then have "status_at d (intent_key i) = Some (it_status i)" using status_at_iff [OF inv] by blast
  with i(2) inv have "logged d (intent_key i) (it_status i)" unfolding ledger_inv_def by blast
  then show "\<exists>b \<in> set (submissions d). sb_challenge b = it_challenge i \<and> sb_sha b = it_sha i
      \<and> sb_run b = it_run i \<and> sb_episode b = it_episode i \<and> sb_outcome b = it_status i"
    by (auto simp: logged_def intent_key_def)
qed

text \<open>How one step changes the status of one key.\<close>

lemma ledger_step_status:
  assumes step: "ledger_step sha d e d'" and inv: "ledger_inv d"
  obtains (idle) "status_at d' = status_at d" "e = Quiet"
  | (started) k where "e = Started k" "status_at d k \<in> {None, Some ''not_delivered''}"
      "\<forall>l. ek_challenge l = ek_challenge k \<longrightarrow> \<not> unresolved_status (status_at d l)"
      "status_at d' = (status_at d)(k \<mapsto> ''pending'')"
  | (answered) k s where "e = Quiet" "status_at d k = Some ''pending''" "s \<in> set OUTCOMES_OF_BOARD"
      "status_at d' = (status_at d)(k \<mapsto> s)"
  | (found) k s where "unresolved_status (status_at d k)" "status_at d' = (status_at d)(k \<mapsto> s)"
      "s \<in> {''correct'', ''incorrect''}" "e = Quiet"
  | (undelivered) k where "unresolved_status (status_at d k)" "status_at d' = (status_at d)(k \<mapsto> ''not_delivered'')"
      "e = Undelivered (ek_challenge k) (ek_sha k)"
  using step
proof cases
  case (Reserve now run c candidate provenance r)
  from Reserve(2) show ?thesis
  proof (cases rule: reserve_submission_cases)
    case 1
    with Reserve(1) show ?thesis by (intro idle) simp_all
  next
    case (2 granted)
    from reserve_body_cases [OF inv 2(2)] show ?thesis
    proof
      assume "\<not> granted \<and> d' = d"
      with 2(1) Reserve(1) show ?thesis by (intro idle) simp_all
    next
      let ?k = "EffectKey c (sha candidate) run (fst (current_context d run c))"
      assume "granted \<and> status_at d' = (status_at d)(?k \<mapsto> ''pending'')
        \<and> status_at d ?k \<in> {None, Some ''not_delivered''}
        \<and> (\<forall>l. ek_challenge l = c \<longrightarrow> \<not> unresolved_status (status_at d l)) \<and> submissions d' = submissions d
        \<and> distinct (map intent_key (intents d')) \<and> catalogue d' = catalogue d"
      with 2(1) Reserve(1) show ?thesis by (intro started [of ?k]) simp_all
    qed
  qed
next
  case (Finalize now run c candidate outcome http provenance r)
  from Finalize(2) show ?thesis
  proof (cases rule: finalize_submission_cases)
    case 1
    with Finalize(1) show ?thesis by (intro idle) simp_all
  next
    case (2 n)
    with finalize_body_cases [OF inv 2(3)] Finalize(1) show ?thesis by (intro answered) blast+
  qed
next
  case (Reconcile now c fp outcome r)
  from Reconcile(2) show ?thesis
  proof (cases rule: reconcile_cases)
    case 1
    with Reconcile(1) show ?thesis by (intro idle) simp_all
  next
    case 2
    from reconcile_body_cases [OF inv 2(3)] obtain k where k: "ek_challenge k = c" "ek_sha k = fp"
      "unresolved_status (status_at d k)" "status_at d' = (status_at d)(k \<mapsto> outcome)" by blast
    show ?thesis
    proof (cases "outcome = ''not_delivered''")
      case True
      with k 2 Reconcile(1) show ?thesis by (intro undelivered [of k]) simp_all
    next
      case False
      with k 2 Reconcile(1) show ?thesis by (intro found [of k outcome]) simp_all
    qed
  qed
next
  case (Instance now run c status receipt r)
  with mark_instance_same have "intents d' = intents d" by blast
  with Instance(1) show ?thesis by (intro idle) (simp_all add: status_at_def row_at_def fun_eq_iff)
next
  case Other
  then show ?thesis by (intro idle) (simp_all add: status_at_def row_at_def fun_eq_iff)
qed

definition sent :: "string option \<Rightarrow> nat" where
  "sent s = (if s \<in> {None, Some ''not_delivered''} then 0 else 1)"

lemma ledger_step_sent:
  assumes "ledger_step sha d e d'" "ledger_inv d"
  shows "sent (status_at d k) + (if e = Started k then 1 else 0)
    \<le> sent (status_at d' k) + (if e = Undelivered (ek_challenge k) (ek_sha k) then 1 else 0)"
  using assms
proof (cases rule: ledger_step_status)
  case (started l)
  then show ?thesis by (cases "l = k") (auto simp: sent_def)
next
  case (answered l s)
  then show ?thesis by (cases "l = k") (auto simp: sent_def OUTCOMES_OF_BOARD_def)
next
  case (found l s)
  then show ?thesis by (cases "l = k") (auto simp: sent_def)
next
  case (undelivered l)
  then show ?thesis by (cases "l = k") (auto simp: sent_def)
qed simp

lemma history_sent:
  "ledger_history sha es d \<Longrightarrow>
     count_list es (Started k) \<le> count_list es (Undelivered (ek_challenge k) (ek_sha k)) + sent (status_at d k)"
proof (induction rule: ledger_history.induct)
  case (Step es d e d')
  with ledger_step_sent [OF Step(2) ledger_history_inv [OF Step(1)], of k] show ?case by auto
qed simp

lemma settled_step:
  assumes "ledger_step sha d e d'" "ledger_inv d" "status_at d k = Some s"
    and "s \<in> {''correct'', ''incorrect'', ''already_solved'', ''paused'', ''ratelimited''}"
  shows "status_at d' k = Some s"
  using assms(1,2)
proof (cases rule: ledger_step_status)
  case (started l)
  with assms(3,4) show ?thesis by (cases "l = k") auto
next
  case (answered l s)
  with assms(3,4) show ?thesis by (cases "l = k") auto
next
  case (found l s)
  with assms(3,4) show ?thesis by (cases "l = k") (auto simp: unresolved_status_def)
next
  case (undelivered l)
  with assms(3,4) show ?thesis by (cases "l = k") (auto simp: unresolved_status_def)
qed (simp add: assms(3))

text \<open>C1. No automatic retry: over any history, the effect of one candidate in one context of a run is
  started at most once more often than an operator reported that candidate undelivered for the
  challenge. Without such a report it reaches the Board at most once.\<close>

theorem effects_started_once:
  assumes "ledger_history sha es d"
  shows "count_list es (Started (EffectKey c fp run ep)) \<le> 1 + count_list es (Undelivered c fp)"
  using history_sent [OF assms, of "EffectKey c fp run ep"] by (simp add: sent_def split: if_splits)

text \<open>C4. What the ledger states about an effect is final: once a candidate is correct, incorrect, already
  solved, paused or rate limited in a context, no later operation of any component changes that row's
  status, and a reservation of the same candidate in that context is refused without an effect.\<close>

theorem settled_effects_final:
  assumes "ledger_history sha es d" "status_at d k = Some s"
    and "s \<in> {''correct'', ''incorrect'', ''already_solved'', ''paused'', ''ratelimited''}"
    and "(\<lambda>a b. \<exists>e. ledger_step sha a e b)\<^sup>*\<^sup>* d d'"
  shows "status_at d' k = Some s"
proof -
  have "ledger_inv d" by (rule ledger_history_inv [OF assms(1)])
  with assms(4) show ?thesis using assms(2)
  proof (induction rule: converse_rtranclp_induct)
    case (step a b)
    then obtain e where e: "ledger_step sha a e b" by blast
    have "status_at b k = Some s" by (rule settled_step [OF e step.prems assms(3)])
    with step ledger_step_inv [OF e step.prems(1)] show ?case by blast
  qed simp
qed

section \<open>The abstract gate\<close>

text \<open>The abstract ledger: per challenge, the fingerprint of the effect in flight.\<close>

definition gate :: "db \<Rightarrow> int \<Rightarrow> string option" where
  "gate d c = map_option it_sha (first_row (unresolved_of c) (intents d))"

inductive gate_step :: "(int \<Rightarrow> string option) \<Rightarrow> effect \<Rightarrow> (int \<Rightarrow> string option) \<Rightarrow> bool" where
  Acquire: "g c = None \<Longrightarrow> gate_step g (Started (EffectKey c fp run ep)) (g(c \<mapsto> fp))"
| Release: "g c = Some fp \<Longrightarrow> e = Quiet \<or> e = Undelivered c fp \<Longrightarrow> gate_step g e (g(c := None))"
| Idle: "gate_step g Quiet g"

inductive_cases gate_startE: "gate_step g (Started k) g'"

lemma gate_row:
  assumes "ledger_inv d" "i \<in> set (intents d)"
  shows "unresolved_status (status_at d (intent_key i)) \<longleftrightarrow> unresolved_of (it_challenge i) i"
proof -
  have "row_at d (intent_key i) = Some i" using assms by (simp add: row_at_iff)
  then show ?thesis by (auto simp: status_at_def unresolved_status_def unresolved_of_def UNRESOLVED_def)
qed

lemma gate_Some:
  assumes inv: "ledger_inv d" and u: "unresolved_status (status_at d k)"
  shows "gate d (ek_challenge k) = Some (ek_sha k)"
proof -
  obtain s where "status_at d k = Some s" using u by (auto simp: unresolved_status_def)
  then obtain i where i: "i \<in> set (intents d)" "intent_key i = k" using status_at_iff [OF inv] by blast
  then have "unresolved_of (ek_challenge k) i" using gate_row [OF inv i(1)] u by (auto simp: intent_key_def)
  then obtain j where j: "first_row (unresolved_of (ek_challenge k)) (intents d) = Some j"
    using i(1) first_row_None [of "unresolved_of (ek_challenge k)" "intents d"]
    by (cases "first_row (unresolved_of (ek_challenge k)) (intents d)") auto
  then have jm: "j \<in> set (intents d)" "unresolved_of (ek_challenge k) j" using first_row_Some [OF j] by simp_all
  then have "unresolved_status (status_at d (intent_key j))" using gate_row [OF inv jm(1)] by (simp add: unresolved_of_def)
  then have "intent_key j = k"
    using inv_one_flight [OF inv _ _ u] jm(2) by (simp add: intent_key_def unresolved_of_def)
  with j show ?thesis by (auto simp: gate_def intent_key_def)
qed

lemma gate_None:
  assumes inv: "ledger_inv d"
  shows "gate d c = None \<longleftrightarrow> (\<forall>k. ek_challenge k = c \<longrightarrow> \<not> unresolved_status (status_at d k))"
proof
  assume "gate d c = None"
  then show "\<forall>k. ek_challenge k = c \<longrightarrow> \<not> unresolved_status (status_at d k)" using gate_Some [OF inv] by auto
next
  assume none: "\<forall>k. ek_challenge k = c \<longrightarrow> \<not> unresolved_status (status_at d k)"
  have "\<not> unresolved_of c i" if "i \<in> set (intents d)" for i
    using none gate_row [OF inv that] by (auto simp: unresolved_of_def intent_key_def)
  then show "gate d c = None" by (simp add: gate_def first_row_None)
qed

lemma gate_update:
  assumes inv: "ledger_inv d" "ledger_inv d'" and st: "status_at d' = (status_at d)(k \<mapsto> s)"
    and only: "\<forall>l. ek_challenge l = ek_challenge k \<longrightarrow> unresolved_status (status_at d l) \<longrightarrow> l = k"
  shows "gate d' = (gate d)(ek_challenge k := if s \<in> {''pending'', ''unread''} then Some (ek_sha k) else None)"
proof
  fix x
  show "gate d' x = ((gate d)(ek_challenge k := if s \<in> {''pending'', ''unread''} then Some (ek_sha k) else None)) x"
  proof (cases "x = ek_challenge k")
    case True
    show ?thesis
    proof (cases "s \<in> {''pending'', ''unread''}")
      case flight: True
      then have "unresolved_status (status_at d' k)" by (auto simp: st unresolved_status_def)
      from gate_Some [OF inv(2) this] flight True show ?thesis by simp
    next
      case False
      have "\<not> unresolved_status (status_at d' l)" if "ek_challenge l = x" for l
        using that True only False by (cases "l = k") (auto simp: st unresolved_status_def)
      then have "gate d' x = None" using gate_None [OF inv(2)] by blast
      with False True show ?thesis by simp
    qed
  next
    case other: False
    then have same: "status_at d' l = status_at d l" if "ek_challenge l = x" for l using that by (auto simp: st)
    show ?thesis
    proof (cases "gate d x")
      case None
      then have "gate d' x = None" using same by (simp add: gate_None [OF inv(1)] gate_None [OF inv(2)])
      with None other show ?thesis by simp
    next
      case (Some fp)
      then obtain l where l: "ek_challenge l = x" "unresolved_status (status_at d l)"
        using gate_None [OF inv(1), of x] by auto
      with gate_Some [OF inv(1) l(2)] gate_Some [OF inv(2), of l] same [OF l(1)] other show ?thesis by simp
    qed
  qed
qed

text \<open>C3. The store refines the abstract gate: every step of any reachable ledger is a step of a gate that
  holds at most one effect per challenge, opens only when the store grants a reservation and closes
  only by a settled outcome or an operator's finding.\<close>

theorem ledger_refines_gate:
  assumes "ledger_history sha es d" "ledger_step sha d e d'"
  shows "gate_step (gate d) e (gate d')"
proof -
  have inv: "ledger_inv d" by (rule ledger_history_inv [OF assms(1)])
  note inv' = ledger_step_inv [OF assms(2) inv]
  have update: "gate d' = (gate d)(ek_challenge k := if s \<in> {''pending'', ''unread''} then Some (ek_sha k) else None)"
    if "status_at d' = (status_at d)(k \<mapsto> s)" "unresolved_status (status_at d k)" for k s
    using gate_update [OF inv inv' that(1)] inv_one_flight [OF inv _ _ that(2)] by blast
  from assms(2) inv show ?thesis
  proof (cases rule: ledger_step_status)
    case idle
    have "gate d' x = gate d x" for x
      using gate_None [OF inv, of x] gate_None [OF inv', of x] gate_Some [OF inv] gate_Some [OF inv'] idle(1)
      by (metis not_Some_eq)
    then have "gate d' = gate d" by blast
    with idle(2) show ?thesis by (simp add: gate_step.Idle)
  next
    case (started k)
    have "gate d (ek_challenge k) = None" using started(3) gate_None [OF inv] by blast
    moreover have "gate d' = (gate d)(ek_challenge k \<mapsto> ek_sha k)"
      using gate_update [OF inv inv' started(4)] started(3) by simp
    ultimately show ?thesis
      using gate_step.Acquire [of "gate d" "ek_challenge k" "ek_sha k" "ek_run k" "ek_episode k"] by (simp add: started(1))
  next
    case (answered k s)
    have u: "unresolved_status (status_at d k)" using answered(2) by (simp add: unresolved_status_def)
    show ?thesis
    proof (cases "s \<in> {''pending'', ''unread''}")
      case True
      then have "gate d' = gate d" using update [OF answered(4) u] gate_Some [OF inv u] by (simp add: fun_upd_idem)
      with answered(1) show ?thesis by (simp add: gate_step.Idle)
    next
      case False
      then have "gate d' = (gate d)(ek_challenge k := None)" using update [OF answered(4) u] by simp
      with answered(1) gate_Some [OF inv u] show ?thesis by (simp add: gate_step.Release)
    qed
  next
    case (found k s)
    then have "gate d' = (gate d)(ek_challenge k := None)" using update [OF found(2,1)] by auto
    with found(4) gate_Some [OF inv found(1)] show ?thesis by (simp add: gate_step.Release)
  next
    case (undelivered k)
    then have "gate d' = (gate d)(ek_challenge k := None)" using update [OF undelivered(2,1)] by simp
    with undelivered(3) gate_Some [OF inv undelivered(1)] show ?thesis by (simp add: gate_step.Release)
  qed
qed

section \<open>A sample history\<close>

definition sample_run :: run_row where
  "sample_run = \<lparr>rn_id = ''r'', rn_started = ''t0'', rn_finished = None, rn_status = ''running'', rn_config = None\<rparr>"

definition sample_challenge :: challenge_row where
  "sample_challenge = \<lparr>ch_id = 7, ch_name = ''n'', ch_category = ''crypto'', ch_type = ''standard'', ch_value = 100,
     ch_status = ''running'', ch_updated = ''t0''\<rparr>"

definition sample_store :: db where
  "sample_store = empty_db\<lparr>runs := [sample_run], challenges := [sample_challenge]\<rparr>"

definition sample_clock :: clock where
  "sample_clock n = ''t1''"

definition sample_intent :: "string \<Rightarrow> intent_row" where
  "sample_intent status = \<lparr>it_challenge = 7, it_sha = ''f'', it_run = ''r'', it_episode = 0, it_context = None,
     it_provenance = ''unknown'', it_reserved = ''t1'', it_status = status, it_updated = ''t1''\<rparr>"

definition sample_reserved :: db where
  "sample_reserved = sample_store\<lparr>intents := [sample_intent ''pending'']\<rparr>"

definition sample_settled :: db where
  "sample_settled = sample_store\<lparr>intents := [sample_intent ''incorrect''],
     submissions := [\<lparr>sb_run = ''r'', sb_challenge = 7, sb_at = ''t1'', sb_sha = ''f'', sb_episode = 0,
       sb_provenance = ''unknown'', sb_outcome = ''incorrect'', sb_http = 200\<rparr>]\<rparr>"

lemmas sample_defs = sample_run_def sample_challenge_def sample_store_def sample_clock_def sample_intent_def
  sample_reserved_def sample_settled_def empty_db_def

lemma sample_reserve:
  "reserve_submission id sample_clock ''r'' 7 ''f'' ''unknown'' sample_store = (Inr True, sample_reserved)"
  by (simp add: reserve_submission_def PROVENANCE_def candidate_fingerprint_def transaction_def reserve_body_def
      current_context_def first_row_def sample_defs has_challenge_def has_run_def)

lemma sample_finalize:
  "finalize_submission id sample_clock ''r'' 7 ''f'' ''incorrect'' 200 ''unknown'' sample_reserved = (Inr 1, sample_settled)"
  by (simp add: finalize_submission_def PROVENANCE_def OUTCOMES_OF_BOARD_def candidate_fingerprint_def transaction_def
      finalize_body_def current_context_def first_row_def own_pending_def same_key_def sample_defs where_update_def)

lemma sample_steps:
  "ledger_step id sample_store (Started (EffectKey 7 ''f'' ''r'' 0)) sample_reserved"
  "ledger_step id sample_reserved Quiet sample_settled"
proof -
  have "fst (current_context sample_store ''r'' 7) = 0" by (simp add: current_context_def first_row_def sample_defs)
  with ledger_step.Reserve [OF sample_reserve] show "ledger_step id sample_store (Started (EffectKey 7 ''f'' ''r'' 0)) sample_reserved"
    by simp
  show "ledger_step id sample_reserved Quiet sample_settled" by (rule ledger_step.Finalize [OF sample_finalize])
qed

lemma sample_histories:
  "ledger_history id [] sample_store"
  "ledger_history id [Started (EffectKey 7 ''f'' ''r'' 0)] sample_reserved"
  "ledger_history id [Quiet, Started (EffectKey 7 ''f'' ''r'' 0)] sample_settled"
proof -
  show h: "ledger_history id [] sample_store" by (rule ledger_history.Fresh) (simp_all add: sample_defs)
  show h2: "ledger_history id [Started (EffectKey 7 ''f'' ''r'' 0)] sample_reserved"
    by (rule ledger_history.Step [OF h sample_steps(1)])
  show "ledger_history id [Quiet, Started (EffectKey 7 ''f'' ''r'' 0)] sample_settled"
    by (rule ledger_history.Step [OF h2 sample_steps(2)])
qed

theorem ledger_always_sound_witness:
  "\<exists>b \<in> set (submissions sample_settled). sb_sha b = ''f'' \<and> sb_outcome b = ''incorrect''"
proof -
  have "sample_intent ''incorrect'' \<in> set (intents sample_settled)" by (simp add: sample_settled_def)
  with ledger_always_sound [OF sample_histories(3)] show ?thesis by (force simp: sample_intent_def)
qed

theorem effects_started_once_witness:
  "count_list [Quiet, Started (EffectKey 7 ''f'' ''r'' 0)] (Started (EffectKey 7 ''f'' ''r'' 0))
     \<le> 1 + count_list [Quiet, Started (EffectKey 7 ''f'' ''r'' 0)] (Undelivered 7 ''f'')"
  by (rule effects_started_once [OF sample_histories(3)])

theorem settled_effects_final_witness:
  "\<exists>d. reserve_submission id sample_clock ''r'' 7 ''f'' ''unknown'' sample_settled = (Inr False, d)
     \<and> status_at d (EffectKey 7 ''f'' ''r'' 0) = Some ''incorrect''"
proof -
  have res: "reserve_submission id sample_clock ''r'' 7 ''f'' ''unknown'' sample_settled = (Inr False, sample_settled)"
    by (simp add: reserve_submission_def PROVENANCE_def candidate_fingerprint_def transaction_def reserve_body_def
        current_context_def first_row_def settled_same_context_def SETTLED_def sample_defs)
  have at: "status_at sample_settled (EffectKey 7 ''f'' ''r'' 0) = Some ''incorrect''"
    by (simp add: status_at_def row_at_def first_row_def intent_key_def sample_defs)
  have "(\<lambda>a b. \<exists>e. ledger_step id a e b)\<^sup>*\<^sup>* sample_settled sample_settled"
    using ledger_step.Reserve [OF res] by (intro r_into_rtranclp) blast
  from settled_effects_final [OF sample_histories(3) at _ this] res show ?thesis by simp
qed

theorem ledger_refines_gate_witness:
  "gate_step (gate sample_store) (Started (EffectKey 7 ''f'' ''r'' 0)) (gate sample_reserved)
   \<and> gate sample_reserved 7 = Some ''f''"
  using ledger_refines_gate [OF sample_histories(1) sample_steps(1)]
  by (simp add: gate_def first_row_def unresolved_of_def UNRESOLVED_def sample_defs)

section \<open>Reading back\<close>

lemma distinct_singleton: "distinct xs \<Longrightarrow> set xs = {x} \<Longrightarrow> xs = [x]"
  by (cases xs; cases "tl xs") (auto dest: subset_singletonD)

lemma status_read:
  assumes inv: "ledger_inv d" and i: "i \<in> set (intents d)" "intent_key i = EffectKey c fp run ep"
    and ctx: "current_context d run c = (ep, it_context i)"
    and fp: "candidate_fingerprint sha candidate = Inr fp"
  shows "candidate_submission_status sha d run c candidate = Inr (Some (it_status i, run, ep, it_context i))"
proof -
  define row where "row = catalogued d run c"
  define rows where "rows = filter (\<lambda>j. it_run j = run \<and> it_challenge j = c \<and> it_sha j = fp \<and> context_matches row j) (intents d)"
  have current: "(case row of None \<Rightarrow> (0, None) | Some r \<Rightarrow> (ct_episode r, ct_context r)) = (ep, it_context i)"
    using ctx by (simp add: current_context_def row_def catalogued_def)
  have ik: "it_challenge i = c" "it_sha i = fp" "it_run i = run" "it_episode i = ep"
    using i(2) by (simp_all add: intent_key_def)
  have "context_matches row i" using current ik by (auto simp: context_matches_def split: option.splits)
  then have mem: "i \<in> set rows" using i(1) ik by (simp add: rows_def)
  have dist: "distinct rows" using inv_distinct [OF inv] unfolding rows_def by (simp add: distinct_map)
  have same: "j = i" if "j \<in> set rows" "it_episode j = ep" for j
  proof -
    have "intent_key j = intent_key i" "j \<in> set (intents d)" using that ik by (auto simp: rows_def intent_key_def)
    then show ?thesis using i(1) inv_distinct [OF inv] by (meson distinct_map inj_onD)
  qed
  have "hd (status_order row rows) = i \<and> status_order row rows \<noteq> []"
  proof (cases row)
    case None
    then have "\<forall>j \<in> set rows. it_episode j = ep" using current by (simp add: rows_def context_matches_def)
    then have "set rows = {i}" using same mem by blast
    then have "rows = [i]" by (rule distinct_singleton [OF dist])
    with None show ?thesis by (simp add: status_order_def)
  next
    case (Some r)
    let ?latest = "rev (sort_key it_reserved rows)"
    have ep: "ct_episode r = ep" using current Some by simp
    have "{j \<in> set rows. it_episode j = ep} = {i}"
    proof
      show "{j \<in> set rows. it_episode j = ep} \<subseteq> {i}" using same by blast
      show "{i} \<subseteq> {j \<in> set rows. it_episode j = ep}" using mem ik(4) by simp
    qed
    then have "set (filter (\<lambda>j. it_episode j = ct_episode r) ?latest) = {i}" by (simp add: ep)
    moreover have "distinct (filter (\<lambda>j. it_episode j = ct_episode r) ?latest)" using dist by simp
    ultimately have "filter (\<lambda>j. it_episode j = ct_episode r) ?latest = [i]" by (intro distinct_singleton)
    with Some show ?thesis by (simp add: status_order_def Let_def)
  qed
  then obtain rest where "status_order row rows = i # rest" by (cases "status_order row rows") auto
  then show ?thesis using fp ik
    by (simp add: candidate_submission_status_def row_def [symmetric] rows_def [symmetric])
qed

lemma reserve_row:
  assumes "reserve_body now run c fp provenance d = Inr (True, d')" "current_context d run c = (ep, ctx)"
  shows "\<exists>i \<in> set (intents d'). intent_key i = EffectKey c fp run ep \<and> it_context i = ctx \<and> it_status i = ''pending''
    \<and> it_provenance i = provenance"
proof (cases "\<exists>i \<in> set (intents d). same_key c fp run ep i")
  case True
  have out: "count_rows (retryable c fp run ep ctx) (intents d) = 1"
    "intents d' = where_update (retryable c fp run ep ctx)
      (\<lambda>i. i\<lparr>it_reserved := now 0, it_provenance := provenance, it_status := ''pending'', it_updated := now 0\<rparr>) (intents d)"
    using assms True by (auto simp: reserve_body_def split: if_split_asm)
  then obtain i where "i \<in> set (intents d)" "retryable c fp run ep ctx i"
    using count_rows_0_iff [of "retryable c fp run ep ctx" "intents d"] by auto
  moreover from this
  have "i\<lparr>it_reserved := now 0, it_provenance := provenance, it_status := ''pending'', it_updated := now 0\<rparr> \<in> set (intents d')"
    unfolding out(2) set_where_update by (intro image_eqI [of _ _ i]) simp_all
  ultimately show ?thesis
    by (intro bexI [of _ "i\<lparr>it_reserved := now 0, it_provenance := provenance, it_status := ''pending'', it_updated := now 0\<rparr>"])
      (simp_all add: retryable_def same_key_def intent_key_def)
next
  case False
  then show ?thesis using assms
    by (auto simp: reserve_body_def intent_key_def split: if_split_asm elim!: bind_result_InrE)
qed

text \<open>C5. Reading back what was written: after a granted reservation the candidate's status is pending in
  the current context of the challenge, and after the Board's answer it is exactly that answer, also
  when the same candidate has rows from other contexts.\<close>

theorem submission_status_roundtrip:
  assumes "ledger_history sha es d"
    and "reserve_submission sha now run c candidate provenance d = (Inr True, d1)"
    and "finalize_submission sha now' run c candidate outcome http provenance d1 = (Inr n, d2)"
  shows "candidate_submission_status sha d1 run c candidate
      = Inr (Some (''pending'', run, fst (current_context d run c), snd (current_context d run c)))
    \<and> candidate_submission_status sha d2 run c candidate
      = Inr (Some (outcome, run, fst (current_context d run c), snd (current_context d run c)))
    \<and> n = length (submissions d2)"
proof -
  obtain ep ctx where cur: "current_context d run c = (ep, ctx)" by fastforce
  have inv: "ledger_inv d" by (rule ledger_history_inv [OF assms(1)])
  have fp: "candidate_fingerprint sha candidate = Inr (sha candidate)"
    using assms(2) by (auto simp: reserve_submission_def candidate_fingerprint_def split: if_splits)
  have body: "reserve_body now run c (sha candidate) provenance d = Inr (True, d1)"
    using assms(2) by (auto elim: reserve_submission_cases)
  have inv1: "ledger_inv d1" by (rule reserve_body_inv [OF inv body])
  have "catalogue d1 = catalogue d" using reserve_body_cases [OF inv body] by auto
  then have cur1: "current_context d1 run c = (ep, ctx)" using cur by (simp add: current_context_def)
  obtain i where i: "i \<in> set (intents d1)" "intent_key i = EffectKey c (sha candidate) run ep" "it_context i = ctx"
    "it_status i = ''pending''" "it_provenance i = provenance"
    using reserve_row [OF body cur] by blast
  have first: "candidate_submission_status sha d1 run c candidate = Inr (Some (''pending'', run, ep, ctx))"
    using status_read [OF inv1 i(1,2) _ fp] cur1 i(3,4) by simp
  have fin: "finalize_body now' run c (sha candidate) outcome http provenance d1 = Inr (n, d2)"
    using assms(3) fp by (auto simp: finalize_submission_def transaction_def split: if_splits sum.splits)
  have inv2: "ledger_inv d2" by (rule finalize_body_inv [OF inv1 fin])
  note settled = finalize_body_cases [OF inv1 fin]
  have own: "own_pending c (sha candidate) run ep ctx i" using i by (simp add: own_pending_def same_key_iff)
  have "intents d2 = where_update (own_pending c (sha candidate) run ep ctx)
      (\<lambda>i. i\<lparr>it_status := outcome, it_updated := now' 0\<rparr>) (intents d1)"
    using fin by (auto simp: finalize_body_def cur1 split: option.split_asm if_split_asm)
  then have "i\<lparr>it_status := outcome, it_updated := now' 0\<rparr> \<in> set (intents d2)"
    using i(1) own by (auto simp: set_where_update intro!: image_eqI [of _ _ i])
  moreover have "current_context d2 run c = (ep, ctx)" using settled cur1 by (simp add: current_context_def)
  ultimately have "candidate_submission_status sha d2 run c candidate = Inr (Some (outcome, run, ep, ctx))"
    using status_read [OF inv2 _ _ _ fp, of "i\<lparr>it_status := outcome, it_updated := now' 0\<rparr>" c run ep] i(2,3)
    by (simp add: intent_key_def)
  with first settled cur show ?thesis by simp
qed

theorem submission_status_roundtrip_witness:
  "candidate_submission_status id sample_settled ''r'' 7 ''f'' = Inr (Some (''incorrect'', ''r'', 0, None))"
proof -
  have "current_context sample_store ''r'' 7 = (0, None)" by (simp add: current_context_def first_row_def sample_defs)
  with submission_status_roundtrip [OF sample_histories(1) sample_reserve sample_finalize] show ?thesis by simp
qed

section \<open>Instances keep their generation\<close>

lemma retire_all_spec:
  "set hs \<subseteq> set (retire_all ep stamp vs hs)
   \<and> (\<forall>v \<in> set vs. \<exists>h \<in> set (retire_all ep stamp vs hs). same_verification (hs_verification h) v)"
proof (induction ep stamp vs hs rule: retire_all.induct)
  case (2 ep stamp v vs hs)
  let ?hs = "if \<exists>h \<in> set hs. same_verification (hs_verification h) v then hs
        else hs @ [\<lparr>hs_verification = v, hs_episode = ep, hs_retired = stamp\<rparr>]"
  have "set hs \<subseteq> set ?hs" by auto
  moreover have "\<exists>h \<in> set ?hs. same_verification (hs_verification h) v"
    by (auto simp: same_verification_def)
  ultimately show ?case using 2 by (simp only: retire_all.simps list.set ball_simps) blast
qed simp

definition instances_inv :: "db \<Rightarrow> bool" where
  "instances_inv d \<longleftrightarrow> distinct (map in_challenge (instances d))
     \<and> (\<forall>r \<in> set (instances d). in_status r = ''owned'' \<longrightarrow> (\<exists>x. in_receipt r = Some x \<and> hex_digest x))"

lemma upsert_instance_keys:
  "distinct (map in_challenge rows) \<Longrightarrow> distinct (map in_challenge (upsert_instance new rows))"
proof -
  have "map in_challenge (where_update (\<lambda>r. in_challenge r = in_challenge new) (\<lambda>r. new\<lparr>in_receipt := x r\<rparr>) rows)
      = map in_challenge rows" for x
    by (auto simp: where_update_def)
  then show "distinct (map in_challenge rows) \<Longrightarrow> ?thesis" by (simp add: upsert_instance_def)
qed

lemma upsert_instance_rows:
  "r \<in> set (upsert_instance new rows) \<Longrightarrow>
     r \<in> set rows \<and> in_challenge r \<noteq> in_challenge new
     \<or> in_challenge r = in_challenge new \<and> in_status r = in_status new \<and> in_run r = in_run new
       \<and> (in_status new \<noteq> ''creating'' \<longrightarrow> in_receipt new \<noteq> None \<longrightarrow> in_receipt r = in_receipt new)"
  by (cases "in_challenge new \<in> in_challenge ` set rows")
    (auto simp: upsert_instance_def set_where_update image_iff split: if_split_asm option.splits)

lemma mark_instance_cases:
  assumes "mark_instance now run c status receipt d = (r, d')"
  obtains "d' = d" | "r = Inr ()" "status = ''owned'' \<Longrightarrow> \<exists>x. receipt = Some x \<and> hex_digest x"
    "mark_instance_body now run c status receipt d = Inr ((), d')"
  using assms unfolding mark_instance_def
  by (auto split: if_split_asm option.split_asm elim!: transaction_cases)

lemma mark_instance_body_rows:
  "mark_instance_body now run c status receipt d = Inr (u, d') \<Longrightarrow>
     \<exists>t. instances d' = upsert_instance
       \<lparr>in_challenge = c, in_run = run, in_status = status, in_receipt = receipt, in_updated = t\<rparr> (instances d)"
  by (auto simp: mark_instance_body_def Let_def elim!: bind_result_InrE)

lemma mark_instance_inv:
  assumes "mark_instance now run c status receipt d = (r, d')" "instances_inv d"
  shows "instances_inv d'"
  using assms(1)
proof (cases rule: mark_instance_cases)
  case 2
  let ?new = "\<lambda>t. \<lparr>in_challenge = c, in_run = run, in_status = status, in_receipt = receipt, in_updated = t\<rparr>"
  obtain t where rows: "instances d' = upsert_instance (?new t) (instances d)"
    using mark_instance_body_rows [OF 2(3)] by blast
  have "\<exists>x. in_receipt q = Some x \<and> hex_digest x" if "q \<in> set (instances d')" "in_status q = ''owned''" for q
    using upsert_instance_rows [OF that(1) [unfolded rows]] that(2) 2(2) assms(2)
    by (auto simp: instances_inv_def)
  moreover have "distinct (map in_challenge (instances d'))"
    unfolding rows using assms(2) by (intro upsert_instance_keys) (simp add: instances_inv_def)
  ultimately show ?thesis by (simp add: instances_inv_def)
qed (use assms in simp)

interpretation instance_store: guarded_store "\<lambda>d. instances d = []"
  "\<lambda>d d'. \<exists>now run c status receipt r. mark_instance now run c status receipt d = (r, d')" instances_inv
  by unfold_locales (simp add: instances_inv_def, blast intro: mark_instance_inv)

text \<open>C6. After any sequence of instance updates there is one row per challenge, and every instance the run
  claims to own carries a well-formed generation receipt.\<close>

theorem owned_instances_receipted:
  assumes "instances d0 = []"
    and "(\<lambda>d d'. \<exists>now run c status receipt r. mark_instance now run c status receipt d = (r, d'))\<^sup>*\<^sup>* d0 d"
  shows "distinct (map in_challenge (owned_instances d))
    \<and> (\<forall>r \<in> set (owned_instances d). in_status r = ''owned'' \<longrightarrow> (\<exists>x. in_receipt r = Some x \<and> hex_digest x))"
proof -
  have inv: "instances_inv d" by (rule instance_store.reachable_inv [OF assms])
  then have "distinct (map in_challenge (owned_instances d))"
    by (auto simp: instances_inv_def owned_instances_def distinct_map inj_on_def)
  with inv show ?thesis by (auto simp: instances_inv_def owned_instances_def)
qed

text \<open>A new generation of a challenge's instance retires the run's verifications of that challenge: none
  stays current, each is kept in the history, and nothing is removed from the history.\<close>

theorem instance_generation_retires:
  assumes "mark_instance now run c status receipt d = (Inr (), d')" "instances_inv d"
    and "status = ''creating'' \<or> status = ''owned'' \<and> (\<exists>p \<in> set (instances d). in_challenge p = c
      \<and> (in_run p \<noteq> run \<or> in_receipt p \<noteq> receipt))"
  shows "(\<forall>v \<in> set (verifications d'). \<not> (vf_run v = run \<and> vf_challenge v = c))
    \<and> (\<forall>v \<in> set (verifications d). v \<in> set (verifications d')
         \<or> (\<exists>h \<in> set (verification_history d'). same_verification (hs_verification h) v))
    \<and> set (verification_history d) \<subseteq> set (verification_history d')"
proof -
  have changed: "status = ''creating'' \<or> status = ''owned'' \<and> (case first_row (\<lambda>r. in_challenge r = c) (instances d) of
      None \<Rightarrow> False | Some p \<Rightarrow> in_run p \<noteq> run \<or> in_receipt p \<noteq> receipt)"
  proof (cases "status = ''creating''")
    case False
    with assms(3) obtain p where "status = ''owned''" "p \<in> set (instances d)" "in_challenge p = c"
      "in_run p \<noteq> run \<or> in_receipt p \<noteq> receipt" by blast
    moreover from this have "first_row (\<lambda>r. in_challenge r = c) (instances d) = Some p"
      using assms(2) by (simp add: instances_inv_def first_row_key)
    ultimately show ?thesis by simp
  qed simp
  let ?mine = "\<lambda>v. vf_run v = run \<and> vf_challenge v = c"
  have body: "mark_instance_body now run c status receipt d = Inr ((), d')"
    using assms(1) by (auto simp: mark_instance_def split: if_split_asm elim!: transaction_cases)
  then have "verifications d' = filter (\<lambda>v. \<not> ?mine v) (verifications d)"
    "verification_history d' = retire_all (fst (current_context d run c)) (now 0) (filter ?mine (verifications d))
       (verification_history d)"
    using changed by (auto simp: mark_instance_body_def Let_def elim!: bind_result_InrE)
  with retire_all_spec [of "verification_history d" "fst (current_context d run c)" "now 0" "filter ?mine (verifications d)"]
  show ?thesis by auto
qed

definition sample_verification :: verification_row where
  "sample_verification = \<lparr>vf_run = ''r'', vf_challenge = 7, vf_key = ''k'', vf_producer = ''a1'',
     vf_producer_role = ''specialist'', vf_verifier = ''a2'', vf_verifier_role = ''verifier'', vf_recipe = ''x'',
     vf_scope = ''dynamic_instance'', vf_context = [], vf_receipt = None, vf_at = ''t0''\<rparr>"

definition sample_marked :: db where
  "sample_marked = snd (mark_instance sample_clock ''r'' 7 ''creating'' None
     (sample_store\<lparr>verifications := [sample_verification]\<rparr>))"

lemma sample_mark:
  "mark_instance sample_clock ''r'' 7 ''creating'' None (sample_store\<lparr>verifications := [sample_verification]\<rparr>)
   = (Inr (), sample_marked)"
  by (simp add: sample_marked_def mark_instance_def transaction_def mark_instance_body_def has_challenge_def
      has_run_def sample_defs)

theorem instance_generation_retires_witness:
  "\<exists>h \<in> set (verification_history sample_marked). same_verification (hs_verification h) sample_verification"
proof -
  have "instances_inv (sample_store\<lparr>verifications := [sample_verification]\<rparr>)"
    by (simp add: instances_inv_def sample_defs)
  moreover have "vf_run sample_verification = ''r'' \<and> vf_challenge sample_verification = 7"
    by (simp add: sample_verification_def)
  ultimately show ?thesis using instance_generation_retires [OF sample_mark] by auto
qed

theorem owned_instances_receipted_witness:
  "distinct (map in_challenge (owned_instances sample_marked))"
proof -
  have "(\<lambda>d d'. \<exists>now run c status receipt r. mark_instance now run c status receipt d = (r, d'))\<^sup>*\<^sup>*
      (sample_store\<lparr>verifications := [sample_verification]\<rparr>) sample_marked"
    using sample_mark by blast
  then show ?thesis using owned_instances_receipted [of "sample_store\<lparr>verifications := [sample_verification]\<rparr>" sample_marked]
    by (simp add: sample_defs)
qed

end
