(* ===== verification/Control_Catalogue.thy ===== *)
theory Control_Catalogue
  imports Run_Lifecycle Submission_Ledger
begin

text \<open>
  The catalogue of a run in \<open>src/rapido/state.py\<close>: material revisions, which atomically append a
  challenge or refresh it with a new wave, the binding of attachment bytes, the identity queries, the
  rebuilt queue of admitted waves and the terminal outcomes of a run.
\<close>

section \<open>Queries\<close>

definition run_catalogue :: "db \<Rightarrow> string \<Rightarrow> catalogue_row list" where
  "run_catalogue d run = sort_key ct_rank (filter (\<lambda>r. ct_run r = run) (catalogue d))"

definition control_catalogue_entries :: "db \<Rightarrow> string \<Rightarrow> catalogue_entry list" where
  "control_catalogue_entries d run = map (\<lambda>r. (ct_rank r, ct_challenge r, ct_executable r)) (run_catalogue d run)"

definition challenge_by_id :: "db \<Rightarrow> int \<Rightarrow> challenge_row option" where
  "challenge_by_id d c = first_row (\<lambda>x. ch_id x = c) (challenges d)"

definition control_catalogue_signature :: "db \<Rightarrow> string \<Rightarrow> (int \<times> string \<times> string \<times> string \<times> int \<times> bool) list" where
  "control_catalogue_signature d run =
     concat (map (\<lambda>r. case challenge_by_id d (ct_challenge r) of
         None \<Rightarrow> []
       | Some x \<Rightarrow> [(ct_challenge r, ch_name x, ch_category x, ch_type x, ch_value x, ct_executable r)])
       (filter (\<lambda>r. ct_run r = run) (catalogue d)))"

definition control_catalogue_contexts :: "db \<Rightarrow> string \<Rightarrow> (int \<times> string) list result" where
  "control_catalogue_contexts d run =
     (let rows = run_catalogue d run in
      if list_all (\<lambda>r. ct_context r = None) rows then Inr []
      else if list_ex (\<lambda>r. ct_context r = None) rows
      then Inl (ValueError ''durable catalogue context identities are incomplete'')
      else let contexts = map (\<lambda>r. (ct_challenge r, the (ct_context r))) rows in
      if \<not> list_all (\<lambda>p. sha_text (snd p)) contexts
      then Inl (ValueError ''durable catalogue context identity is invalid'')
      else Inr contexts)"

definition control_catalogue_context_episode :: "db \<Rightarrow> string \<Rightarrow> int \<Rightarrow> int result" where
  "control_catalogue_context_episode d run c =
     (case catalogued d run c of
        None \<Rightarrow> Inl (ValueError ''durable catalogue context episode is invalid'')
      | Some r \<Rightarrow> if ct_episode r < 0 then Inl (ValueError ''durable catalogue context episode is invalid'')
                 else Inr (ct_episode r))"

section \<open>Material\<close>

definition bind_material_body :: "string \<Rightarrow> int \<Rightarrow> string \<Rightarrow> string \<Rightarrow> bool tx" where
  "bind_material_body run c expected material d =
     (let hit = (\<lambda>r. ct_run r = run \<and> ct_challenge r = c \<and> ct_context r = Some expected) in
      if list_ex hit (catalogue d)
      then tx_bind (tx_modify (\<lambda>d. d\<lparr>catalogue := where_update hit (\<lambda>r. r\<lparr>ct_context := Some material\<rparr>) (catalogue d)\<rparr>)) (\<lambda>_.
           tx_bind (insert_control_event run ''catalogue_material_bound'' None (PDict [(''challenge_id'', PInt c)])) (\<lambda>_.
           tx_return True)) d
      else case catalogued d run c of
        None \<Rightarrow> Inl (ValueError ''catalogue material challenge is absent'')
      | Some r \<Rightarrow> if ct_context r = Some material then Inr (False, d)
                 else Inl (ValueError ''challenge attachment bytes changed within one material generation''))"

definition bind_control_catalogue_material :: "string \<Rightarrow> int \<Rightarrow> string \<Rightarrow> string \<Rightarrow> db \<Rightarrow> bool result \<times> db" where
  "bind_control_catalogue_material run c expected material d =
     (if \<not> sha_text expected \<or> \<not> sha_text material
      then (Inl (ValueError ''catalogue material identity is invalid''), d)
      else transaction (bind_material_body run c expected material) d)"

section \<open>Revisions\<close>

definition upsert_challenge_row :: "challenge_row \<Rightarrow> bool \<Rightarrow> challenge_row list \<Rightarrow> challenge_row list" where
  "upsert_challenge_row new requeue rows =
     (if ch_id new \<in> set (map ch_id rows)
      then where_update (\<lambda>r. ch_id r = ch_id new)
        (\<lambda>r. if requeue then new else new\<lparr>ch_status := ch_status r\<rparr>) rows
      else rows @ [new])"

definition next_episode :: "db \<Rightarrow> string \<Rightarrow> int \<Rightarrow> int" where
  "next_episode d run c =
     Max (insert (- 1) (set (map jb_episode (filter (\<lambda>j. jb_run j = run \<and> jb_challenge j = c) (control_jobs d))))) + 1"

definition outstanding_episodes :: "db \<Rightarrow> string \<Rightarrow> int \<Rightarrow> int list" where
  "outstanding_episodes d run c =
     sort (remdups (map jb_episode
       (filter (\<lambda>j. jb_run j = run \<and> jb_challenge j = c \<and> open_state (jb_state j)) (control_jobs d))))"

definition retire_verifications :: "clock \<Rightarrow> nat \<Rightarrow> string \<Rightarrow> int \<Rightarrow> int \<Rightarrow> unit tx" where
  "retire_verifications now n run c ep =
     tx_modify (\<lambda>d. let mine = (\<lambda>v. vf_run v = run \<and> vf_challenge v = c) in
       d\<lparr>verification_history := retire_all ep (now n) (filter mine (verifications d)) (verification_history d),
         verifications := filter (\<lambda>v. \<not> mine v) (verifications d)\<rparr>)"

definition supersede_waves :: "string \<Rightarrow> int \<Rightarrow> unit tx" where
  "supersede_waves run c d =
     (let eps = outstanding_episodes d run c in
      tx_bind (tx_each (\<lambda>ep. finish_wave run c ep ''error'') eps) (\<lambda>_.
      if eps = [] then tx_return ()
      else tx_bind (insert_control_event run ''catalogue_revision_superseded'' None
        (PDict [(''challenge_id'', PInt c), (''episodes'', PList (map PInt eps))])) (\<lambda>_. tx_return ())) d)"

record revision =
  rv_challenge :: int
  rv_name :: string
  rv_category :: string
  rv_type :: string
  rv_value :: int
  rv_executable :: bool
  rv_context :: string
  rv_rank :: int
  rv_lanes :: nat
  rv_route :: route_spec
  rv_assignments :: "assignment list"

text \<open>The kind of the revision with the episode and rank it uses, after the catalogue row is written.\<close>

definition revise_catalogue :: "clock \<Rightarrow> string \<Rightarrow> revision \<Rightarrow> catalogue_row option \<Rightarrow> (string \<times> int \<times> int) tx" where
  "revise_catalogue now run v existing =
     (case existing of
        None \<Rightarrow>
          tx_bind (insert_catalogue \<lparr>ct_run = run, ct_challenge = rv_challenge v, ct_rank = rv_rank v,
            ct_executable = rv_executable v, ct_context = Some (rv_context v), ct_episode = 0\<rparr>) (\<lambda>_.
          tx_return (''appended'', 0, rv_rank v))
      | Some row \<Rightarrow> (\<lambda>d. let ep = next_episode d run (rv_challenge v) in
          tx_bind (supersede_waves run (rv_challenge v)) (\<lambda>_.
          tx_bind (retire_verifications now 1 run (rv_challenge v) ep) (\<lambda>_.
          tx_bind (tx_modify (\<lambda>d. d\<lparr>catalogue :=
              where_update (\<lambda>r. ct_run r = run \<and> ct_challenge r = rv_challenge v)
                (\<lambda>r. r\<lparr>ct_executable := rv_executable v, ct_context := Some (rv_context v), ct_episode := ep\<rparr>)
                (catalogue d)\<rparr>)) (\<lambda>_.
          tx_return (''refreshed'', ep, ct_rank row)))) d))"

definition admit_revision :: "digest_fn \<Rightarrow> string \<Rightarrow> revision \<Rightarrow> string \<times> int \<times> int \<Rightarrow> unit tx" where
  "admit_revision sha run v ker =
     (case ker of (k, ep, rank) \<Rightarrow>
      if \<not> rv_executable v then tx_return ()
      else case construct_route ((rv_route v)\<lparr>workspace_generation := ep\<rparr>) of
        Inl e \<Rightarrow> (\<lambda>d. Inl e)
      | Inr r \<Rightarrow> admit_wave sha run (rv_challenge v) ep rank (rv_lanes v) r (Some (rv_assignments v)) (k = ''refreshed''))"

definition change_catalogue ::
  "digest_fn \<Rightarrow> clock \<Rightarrow> string \<Rightarrow> revision \<Rightarrow> catalogue_row option \<Rightarrow> (string \<times> int option \<times> int) tx" where
  "change_catalogue sha now run v existing =
     tx_bind (tx_modify (\<lambda>d. d\<lparr>challenges := upsert_challenge_row
        \<lparr>ch_id = rv_challenge v, ch_name = rv_name v, ch_category = rv_category v, ch_type = rv_type v,
         ch_value = rv_value v, ch_status = ''queued'', ch_updated = now 0\<rparr> True (challenges d)\<rparr>)) (\<lambda>_.
     tx_bind (revise_catalogue now run v existing) (\<lambda>(k, ep, rank).
     tx_bind (admit_revision sha run v (k, ep, rank)) (\<lambda>_.
     tx_bind (insert_control_event run (''catalogue_'' @ k) None
       (PDict [(''challenge_id'', PInt (rv_challenge v)), (''catalogue_rank'', PInt rank),
         (''episode'', if rv_executable v then PInt ep else PNone), (''executable'', PBool (rv_executable v))])) (\<lambda>_.
     tx_return (k, if rv_executable v then Some ep else None, rank)))))"

definition revision_body ::
  "digest_fn \<Rightarrow> clock \<Rightarrow> string \<Rightarrow> revision \<Rightarrow> (string \<times> int option \<times> int) tx" where
  "revision_body sha now run v d =
     (let existing = catalogued d run (rv_challenge v) in
      if \<not> list_ex (\<lambda>r. rn_id r = run \<and> rn_status r = ''running'') (runs d)
      then Inl (ValueError ''catalogue revision requires a running run'')
      else case existing of
        None \<Rightarrow> change_catalogue sha now run v None d
      | Some row \<Rightarrow>
          if ct_context row = Some (rv_context v) then Inr ((''unchanged'', None, ct_rank row), d)
          else change_catalogue sha now run v (Some row) d)"

definition admit_control_catalogue_revision ::
  "digest_fn \<Rightarrow> clock \<Rightarrow> string \<Rightarrow> revision \<Rightarrow> db \<Rightarrow> (string \<times> int option \<times> int) result \<times> db" where
  "admit_control_catalogue_revision sha now run v d =
     (if rv_challenge v \<le> 0 \<or> rv_rank v < 0 \<or> \<not> sha_text (rv_context v)
      then (Inl (ValueError ''catalogue revision is invalid''), d)
      else transaction (revision_body sha now run v) d)"

section \<open>The rebuilt queue\<close>

record queued_wave =
  qw_challenge :: int
  qw_rank :: int
  qw_episode :: int
  qw_route :: route_spec

definition route_of_job :: "db \<Rightarrow> job_row \<Rightarrow> route_row option" where
  "route_of_job d j = first_row (same_route (jb_run j) (jb_challenge j) (jb_fingerprint j)) (control_routes d)"

definition queue_jobs :: "db \<Rightarrow> string \<Rightarrow> bool \<Rightarrow> job_row list" where
  "queue_jobs d run exclude_pending =
     filter (\<lambda>j. jb_run j = run \<and> jb_state j = ''queued'' \<and> route_of_job d j \<noteq> None
       \<and> (exclude_pending \<longrightarrow> \<not> list_ex (unresolved_of (jb_challenge j)) (intents d))) (control_jobs d)"

definition wave_key :: "job_row \<Rightarrow> int \<times> int \<times> int" where
  "wave_key j = (jb_challenge j, jb_rank j, jb_episode j)"

text \<open>One group of the \<open>GROUP BY\<close>: its key, the smallest admitted sequence, the number of distinct
  routes, and the document of its first route.\<close>

definition wave_group :: "db \<Rightarrow> job_row list \<Rightarrow> int \<times> int \<times> int \<Rightarrow> (int \<times> int \<times> int) \<times> nat \<times> nat \<times> pyval" where
  "wave_group d js k =
     (let mine = filter (\<lambda>j. wave_key j = k) js in
      (k, Min (set (map jb_admitted mine)), length (remdups (map jb_fingerprint mine)),
       rt_document (the (route_of_job d (hd mine)))))"

definition wave_groups :: "db \<Rightarrow> job_row list \<Rightarrow> ((int \<times> int \<times> int) \<times> nat \<times> nat \<times> pyval) list" where
  "wave_groups d js =
     sort_key (\<lambda>((c, rank, ep), _). rank) (sort_key (\<lambda>(_, first_seq, _). first_seq)
       (map (wave_group d js) (remdups (map wave_key js))))"

fun queue_waves :: "int list \<Rightarrow> ((int \<times> int \<times> int) \<times> nat \<times> nat \<times> pyval) list \<Rightarrow> queued_wave list result" where
  "queue_waves seen [] = Inr []"
| "queue_waves seen (((c, rank, ep), first_seq, routes, document) # groups) =
     (if c \<in> set seen \<or> routes \<noteq> 1
      then Inl (ValueError ''durable queue has overlapping or mixed-route waves'')
      else case route_from_dict document of
        Inl _ \<Rightarrow> Inl (ValueError ''durable queued route is invalid'')
      | Inr r \<Rightarrow> bind_result (queue_waves (c # seen) groups) (\<lambda>ws.
          Inr (\<lparr>qw_challenge = c, qw_rank = rank, qw_episode = ep, qw_route = r\<rparr> # ws)))"

definition queued_control_waves :: "db \<Rightarrow> string \<Rightarrow> bool \<Rightarrow> queued_wave list result" where
  "queued_control_waves d run exclude_pending =
     queue_waves [] (wave_groups d (queue_jobs d run exclude_pending))"

section \<open>Terminal outcomes\<close>

definition TERMINAL :: "string list" where
  "TERMINAL = [''solved'', ''candidate'', ''unsolved'', ''unsupported'', ''error'']"

definition correct_in_context :: "db \<Rightarrow> catalogue_row \<Rightarrow> bool" where
  "correct_in_context d r \<longleftrightarrow>
     list_ex (\<lambda>s. sb_run s = ct_run r \<and> sb_challenge s = ct_challenge r \<and> sb_episode s = ct_episode r
       \<and> sb_outcome s = ''correct'') (submissions d)
     \<or> list_ex (\<lambda>i. it_run i = ct_run r \<and> it_challenge i = ct_challenge r \<and> it_episode i = ct_episode r
       \<and> it_context i = ct_context r \<and> it_status i = ''correct'') (intents d)"

definition has_open_job :: "db \<Rightarrow> string \<Rightarrow> int \<Rightarrow> bool" where
  "has_open_job d run c = list_ex (\<lambda>j. jb_run j = run \<and> jb_challenge j = c \<and> open_state (jb_state j)) (control_jobs d)"

definition run_terminal_outcomes :: "db \<Rightarrow> string \<Rightarrow> (int \<times> string) list" where
  "run_terminal_outcomes d run =
     concat (map (\<lambda>r. case challenge_by_id d (ct_challenge r) of
         None \<Rightarrow> []
       | Some x \<Rightarrow>
           let terminal = if correct_in_context d r then ''solved'' else ch_status x in
           if has_open_job d run (ct_challenge r) \<or> terminal \<notin> set TERMINAL then []
           else [(ct_challenge r, terminal)])
       (run_catalogue d run))"

section \<open>The queue is the queued jobs\<close>

definition group_wave :: "((int \<times> int \<times> int) \<times> nat \<times> nat \<times> pyval) \<Rightarrow> queued_wave \<Rightarrow> bool" where
  "group_wave g w \<longleftrightarrow> fst g = (qw_challenge w, qw_rank w, qw_episode w) \<and> fst (snd (snd g)) = 1
     \<and> route_from_dict (snd (snd (snd g))) = Inr (qw_route w)"

lemma queue_waves_read:
  "queue_waves seen gs = Inr ws \<Longrightarrow> distinct (map qw_challenge ws)
     \<and> set (map qw_challenge ws) \<inter> set seen = {} \<and> list_all2 group_wave gs ws"
proof (induction seen gs arbitrary: ws rule: queue_waves.induct)
  case (2 seen c rank ep first_seq routes document groups)
  from "2.prems" obtain r vs where r: "c \<notin> set seen" "routes = 1" "route_from_dict document = Inr r"
    and vs: "queue_waves (c # seen) groups = Inr vs"
    and ws: "ws = \<lparr>qw_challenge = c, qw_rank = rank, qw_episode = ep, qw_route = r\<rparr> # vs"
    by (auto split: if_split_asm sum.split_asm elim!: bind_result_InrE)
  from "2.IH" [OF _ r(3) vs] r vs show ?case by (auto simp: ws group_wave_def)
qed simp

lemma one_element: "length (remdups xs) = 1 \<Longrightarrow> x \<in> set xs \<Longrightarrow> y \<in> set xs \<Longrightarrow> x = y"
  by (metis (no_types) One_nat_def length_0_conv length_Suc_conv set_remdups set_ConsD empty_iff list.set(1))

lemma all2_right: "list_all2 P xs ys \<Longrightarrow> y \<in> set ys \<Longrightarrow> \<exists>x \<in> set xs. P x y"
  and all2_left: "list_all2 P xs ys \<Longrightarrow> x \<in> set xs \<Longrightarrow> \<exists>y \<in> set ys. P x y"
  by (induction rule: list_all2_induct) auto

lemma wave_groups_facts:
  "set (wave_groups d js) = wave_group d js ` wave_key ` set js"
  "sorted (map (\<lambda>g. fst (snd (fst g))) (wave_groups d js))"
proof -
  show "set (wave_groups d js) = wave_group d js ` wave_key ` set js" by (simp add: wave_groups_def)
  have "sorted (map (\<lambda>((c, rank, ep), _). rank) (wave_groups d js))" by (simp add: wave_groups_def)
  moreover have "(\<lambda>((c, rank, ep), _). rank) = (\<lambda>g :: (int \<times> int \<times> int) \<times> nat \<times> nat \<times> pyval. fst (snd (fst g)))"
    by (simp add: fun_eq_iff split: prod.split)
  ultimately show "sorted (map (\<lambda>g. fst (snd (fst g))) (wave_groups d js))" by simp
qed

lemma queued_job_route:
  assumes "j \<in> set (queue_jobs d run x)" "group_wave (wave_group d (queue_jobs d run x) (wave_key j)) w"
  shows "\<exists>row. route_of_job d j = Some row \<and> route_from_dict (rt_document row) = Inr (qw_route w)"
proof -
  let ?js = "queue_jobs d run x"
  let ?mine = "filter (\<lambda>i. wave_key i = wave_key j) ?js"
  have mine: "j \<in> set ?mine" using assms(1) by simp
  then have hd: "hd ?mine \<in> set ?mine" by (metis list.set_sel(1) list.distinct(1) list.set(1) empty_iff)
  have one: "length (remdups (map jb_fingerprint ?mine)) = 1"
    and doc: "route_from_dict (rt_document (the (route_of_job d (hd ?mine)))) = Inr (qw_route w)"
    using assms(2) unfolding group_wave_def wave_group_def Let_def fst_conv snd_conv by blast+
  have "jb_fingerprint (hd ?mine) = jb_fingerprint j"
    using one_element [OF one, of "jb_fingerprint (hd ?mine)" "jb_fingerprint j"] hd mine by simp
  moreover have "jb_run (hd ?mine) = jb_run j" "jb_challenge (hd ?mine) = jb_challenge j" "route_of_job d (hd ?mine) \<noteq> None"
    using hd mine by (auto simp: queue_jobs_def wave_key_def)
  ultimately have "route_of_job d j = route_of_job d (hd ?mine)" by (simp add: route_of_job_def)
  with doc \<open>route_of_job d (hd ?mine) \<noteq> None\<close> show ?thesis by auto
qed

text \<open>A rebuilt queue is exact: its challenges are distinct and in catalogue order, every wave stems from
  a queued job, and every queued job of the run that is not held back by a pending effect is in a wave
  whose route is the one read back from the job's own route document.\<close>

theorem rebuilt_queue_exact:
  assumes "queued_control_waves d run x = Inr ws"
  shows "distinct (map qw_challenge ws) \<and> sorted (map qw_rank ws)
    \<and> (\<forall>w \<in> set ws. \<exists>j \<in> set (queue_jobs d run x). wave_key j = (qw_challenge w, qw_rank w, qw_episode w))
    \<and> (\<forall>j \<in> set (queue_jobs d run x). \<exists>w \<in> set ws. wave_key j = (qw_challenge w, qw_rank w, qw_episode w)
         \<and> (\<exists>row. route_of_job d j = Some row \<and> route_from_dict (rt_document row) = Inr (qw_route w)))"
proof -
  let ?js = "queue_jobs d run x"
  let ?gs = "wave_groups d ?js"
  note read = queue_waves_read [OF assms [unfolded queued_control_waves_def]]
  have all2: "list_all2 group_wave ?gs ws" using read by blast
  have key: "fst (wave_group d ?js k) = k" for k by (simp add: wave_group_def Let_def)
  have "map (\<lambda>g. fst (snd (fst g))) ?gs = map qw_rank ws"
    using all2 by (induction rule: list_all2_induct) (simp_all add: group_wave_def)
  then have sorted: "sorted (map qw_rank ws)" using wave_groups_facts(2) by metis
  have from_job: "\<exists>j \<in> set ?js. wave_key j = (qw_challenge w, qw_rank w, qw_episode w)" if w: "w \<in> set ws" for w
  proof -
    obtain g where g: "g \<in> set ?gs" "group_wave g w"
      using all2_right [OF all2 w] by blast
    from g(1) obtain j where "j \<in> set ?js" "g = wave_group d ?js (wave_key j)"
      unfolding wave_groups_facts(1) by blast
    with g(2) key show ?thesis by (metis group_wave_def)
  qed
  have "\<exists>w \<in> set ws. wave_key j = (qw_challenge w, qw_rank w, qw_episode w)
      \<and> (\<exists>row. route_of_job d j = Some row \<and> route_from_dict (rt_document row) = Inr (qw_route w))" if j: "j \<in> set ?js" for j
  proof -
    have g: "wave_group d ?js (wave_key j) \<in> set ?gs" using j by (simp add: wave_groups_facts(1))
    then obtain w where w: "w \<in> set ws" "group_wave (wave_group d ?js (wave_key j)) w"
      using all2_left [OF all2 g] by blast
    with queued_job_route [OF j w(2)] key show ?thesis by (auto simp: group_wave_def)
  qed
  with read sorted from_job show ?thesis by blast
qed

section \<open>A refreshed challenge\<close>

lemma superseded_open:
  assumes "tx_each (\<lambda>ep. finish_wave run c ep ''error'') eps d = Inr (u, d')"
    "distinct (map jb_id (control_jobs d))" "challenge_ended run c d"
  shows "only_open (\<lambda>j. \<exists>ep \<in> set eps. in_wave run c ep j) d d' \<and> grows d d'"
  using assms
proof (induction eps arbitrary: d)
  case Nil
  then show ?case using reflp_grows by (simp add: tx_return_Inr only_open_def reflp_def)
next
  case (Cons ep eps)
  then obtain d1 where d1: "finish_wave run c ep ''error'' d = Inr ((), d1)"
    "tx_each (\<lambda>ep. finish_wave run c ep ''error'') eps d1 = Inr (u, d')" by (auto elim!: tx_bind_InrE)
  note 1 = finish_wave_open [OF d1(1) Cons.prems(2,3)]
  then have "distinct (map jb_id (control_jobs d1))" "challenge_ended run c d1"
    using Cons.prems(2,3) by (simp_all add: only_open_def grows_def challenge_ended_def)
  from Cons.IH [OF d1(2) this] 1 show ?case
    using transpD [OF transp_grows, of d d1 d'] by (auto simp: only_open_def)
qed

lemma supersede_waves_open:
  assumes "supersede_waves run c d = Inr (u, d')" "distinct (map jb_id (control_jobs d))" "challenge_ended run c d"
  shows "only_open (\<lambda>j. jb_run j = run \<and> jb_challenge j = c) d d' \<and> catalogue d' = catalogue d"
proof -
  let ?eps = "outstanding_episodes d run c"
  from assms(1) obtain v d1 where d1: "tx_each (\<lambda>ep. finish_wave run c ep ''error'') ?eps d = Inr (v, d1)"
    and d': "control_jobs d' = control_jobs d1" "catalogue d' = catalogue d1"
    by (auto simp: supersede_waves_def Let_def tx_return_Inr insert_control_event_def
        elim!: tx_bind_InrE bind_result_InrE split: if_split_asm)
  note 1 = superseded_open [OF d1 assms(2,3)]
  have "\<exists>ep \<in> set ?eps. in_wave run c ep j"
    if "j \<in> set (control_jobs d)" "open_state (jb_state j)" "jb_run j = run" "jb_challenge j = c" for j
    using that by (auto simp: outstanding_episodes_def in_wave_def)
  with 1 show ?thesis unfolding only_open_def d' by (auto simp: grows_def)
qed

text \<open>C25. When changed material refreshes a challenge that has no open attempt in the run, every wave the
  challenge had open is closed, the catalogue row carries the new material and an episode after all earlier
  ones, and only an executable revision opens a wave again: one queued job per assignment, on the revised
  route, in that episode. A revision that is not executable admits nothing.\<close>

theorem refresh_replaces_waves:
  assumes "admit_control_catalogue_revision sha now run v d = (Inr (''refreshed'', ep, rank), d')"
    "challenge_ended run (rv_challenge v) d" "distinct (map jb_id (control_jobs d))"
  shows "\<exists>e old new. (\<forall>j \<in> set (control_jobs d). jb_run j = run \<and> jb_challenge j = rv_challenge v \<longrightarrow> jb_episode j < e)
    \<and> control_jobs d' = old @ new \<and> map jb_id old = map jb_id (control_jobs d)
    \<and> (\<forall>j \<in> set old. jb_run j = run \<and> jb_challenge j = rv_challenge v \<longrightarrow> \<not> open_state (jb_state j))
    \<and> (\<exists>x \<in> set (catalogue d'). ct_run x = run \<and> ct_challenge x = rv_challenge v
         \<and> ct_context x = Some (rv_context v) \<and> ct_episode x = e)
    \<and> (if rv_executable v
       then ep = Some e \<and> (\<exists>r. construct_route ((rv_route v)\<lparr>workspace_generation := e\<rparr>) = Inr r
         \<and> list_all2 (lane_row run (rv_challenge v) e rank (fingerprint sha r)) (enumerate 0 (rv_assignments v)) new)
       else ep = None \<and> new = [])"
proof -
  let ?c = "rv_challenge v"
  from assms(1) obtain row where row: "catalogued d run ?c = Some row"
    and ch: "change_catalogue sha now run v (Some row) d = Inr ((''refreshed'', ep, rank), d')"
    by (auto simp: admit_control_catalogue_revision_def revision_body_def transaction_def change_catalogue_def
        revise_catalogue_def tx_return_Inr Let_def split: if_split_asm sum.split_asm option.split_asm elim!: tx_bind_InrE)
  define d1 where "d1 = d\<lparr>challenges := upsert_challenge_row \<lparr>ch_id = ?c, ch_name = rv_name v,
      ch_category = rv_category v, ch_type = rv_type v, ch_value = rv_value v, ch_status = ''queued'', ch_updated = now 0\<rparr> True (challenges d)\<rparr>"
  let ?e = "next_episode d run ?c"
  let ?upd = "where_update (\<lambda>r. ct_run r = run \<and> ct_challenge r = ?c)
      (\<lambda>r. r\<lparr>ct_executable := rv_executable v, ct_context := Some (rv_context v), ct_episode := ?e\<rparr>)"
  have same: "next_episode d1 run ?c = ?e" "control_jobs d1 = control_jobs d" "catalogue d1 = catalogue d" "challenge_ended run ?c d1"
    using assms(2) by (simp_all add: d1_def next_episode_def challenge_ended_def)
  from ch obtain k e0 rk u d3 d4 seq where rev: "revise_catalogue now run v (Some row) d1 = Inr ((k, e0, rk), d3)"
    and d4: "admit_revision sha run v (k, e0, rk) d3 = Inr (u, d4)"
    and ev: "insert_control_event run (''catalogue_'' @ k) None (PDict [(''challenge_id'', PInt ?c), (''catalogue_rank'', PInt rk),
         (''episode'', if rv_executable v then PInt e0 else PNone), (''executable'', PBool (rv_executable v))]) d4 = Inr (seq, d')"
    and res: "ep = (if rv_executable v then Some e0 else None)" "rank = rk"
    by (auto simp: change_catalogue_def d1_def tx_modify_Inr tx_return_Inr elim!: tx_bind_InrE)
  from rev obtain d2 where d2: "supersede_waves run ?c d1 = Inr ((), d2)"
    and d3: "control_jobs d3 = control_jobs d2" "catalogue d3 = ?upd (catalogue d2)"
    and k: "k = ''refreshed''" "e0 = ?e" "rk = ct_rank row"
    by (auto simp: revise_catalogue_def same(1) Let_def retire_verifications_def tx_modify_Inr tx_return_Inr elim!: tx_bind_InrE)
  have "distinct (map jb_id (control_jobs d1))" using assms(3) by (simp add: same)
  note sup = supersede_waves_open [OF d2 this same(4)]
  obtain new where new: "control_jobs d4 = control_jobs d3 @ new" "if rv_executable v
       then (\<exists>r. construct_route ((rv_route v)\<lparr>workspace_generation := ?e\<rparr>) = Inr r
         \<and> list_all2 (lane_row run ?c ?e rank (fingerprint sha r)) (enumerate 0 (rv_assignments v)) new)
       else new = []" and grow: "grows d3 d4"
  proof (cases "rv_executable v")
    case True
    with d4 obtain r where r: "construct_route ((rv_route v)\<lparr>workspace_generation := ?e\<rparr>) = Inr r"
      and ad: "admit_wave sha run ?c ?e rank (rv_lanes v) r (Some (rv_assignments v)) True d3 = Inr (u, d4)"
      by (auto simp: admit_revision_def k res split: sum.split_asm)
    with admit_wave_effect [OF ad] tx_keepsD [OF grows_admit_wave ad] True that show thesis
      by (auto simp: wave_assignments_def)
  next
    case False
    with d4 reflpD [OF reflp_grows] that [of "[]"] show thesis by (auto simp: admit_revision_def k tx_return_Inr)
  qed
  have cat: "catalogue d' = ?upd (catalogue d)" and jobs: "control_jobs d' = control_jobs d4"
    using grow tx_keepsD [OF grows_event ev] control_event_tables [OF ev] d3(2) sup same(3)
    by (simp_all add: grows_def)
  have old: "map jb_id (control_jobs d3) = map jb_id (control_jobs d)"
    "\<forall>j \<in> set (control_jobs d3). jb_run j = run \<and> jb_challenge j = ?c \<longrightarrow> \<not> open_state (jb_state j)"
    using sup by (auto simp: d3(1) only_open_def same(2))
  have "\<exists>x \<in> set (catalogue d'). ct_run x = run \<and> ct_challenge x = ?c \<and> ct_context x = Some (rv_context v) \<and> ct_episode x = ?e"
  proof -
    have "row \<in> set (catalogue d)" "ct_run row = run" "ct_challenge row = ?c"
      using first_row_Some [OF row [unfolded catalogued_def]] by auto
    then show ?thesis
      by (intro bexI [of _ "row\<lparr>ct_executable := rv_executable v, ct_context := Some (rv_context v), ct_episode := ?e\<rparr>"])
        (auto simp: cat set_where_update image_iff intro!: bexI [of _ row])
  qed
  moreover have "jb_episode j < ?e" if "j \<in> set (control_jobs d)" "jb_run j = run" "jb_challenge j = ?c" for j
  proof -
    have "jb_episode j \<le> Max (insert (- 1) (set (map jb_episode (filter (\<lambda>j. jb_run j = run \<and> jb_challenge j = ?c) (control_jobs d)))))"
      using that by (intro Max_ge) auto
    then show ?thesis by (simp add: next_episode_def)
  qed
  ultimately show ?thesis using new old jobs res k
    by - (rule exI [of _ ?e], rule exI [of _ "control_jobs d3"], rule exI [of _ new], cases "rv_executable v", simp_all)
qed

section \<open>A queued wave, and a refresh of it\<close>

definition sample_queue :: db where
  "sample_queue = (sample_wave ''queued'')
     \<lparr>control_routes := [\<lparr>rt_run = ''r'', rt_challenge = 7, rt_fingerprint = fingerprint id sample_route,
        rt_first_episode = 0, rt_document = route_as_dict sample_route\<rparr>],
      catalogue := [\<lparr>ct_run = ''r'', ct_challenge = 7, ct_rank = 0, ct_executable = True, ct_context = None, ct_episode = 0\<rparr>]\<rparr>"

lemma sample_queue_jobs:
  "queue_jobs sample_queue ''r'' False = control_jobs (sample_wave ''queued'')"
  "route_of_job sample_queue (hd (control_jobs (sample_wave ''queued''))) =
     Some \<lparr>rt_run = ''r'', rt_challenge = 7, rt_fingerprint = fingerprint id sample_route,
        rt_first_episode = 0, rt_document = route_as_dict sample_route\<rparr>"
  by (simp_all add: queue_jobs_def route_of_job_def sample_queue_def sample_wave_def sample_job_def first_row_def same_route_def)

lemma sample_rebuilt:
  "queued_control_waves sample_queue ''r'' False
     = Inr [\<lparr>qw_challenge = 7, qw_rank = 0, qw_episode = 0, qw_route = sample_route\<rparr>]"
proof -
  define j where "j = hd (control_jobs (sample_wave ''queued''))"
  have j: "control_jobs (sample_wave ''queued'') = [j]" "wave_key j = (7, 0, 0)"
    by (simp_all add: j_def sample_wave_def sample_job_def wave_key_def)
  have "route_from_dict (route_as_dict sample_route) = Inr sample_route" by (rule route_doc.dec_enc) simp
  then show ?thesis
    using sample_queue_jobs(2)
    by (simp add: queued_control_waves_def sample_queue_jobs(1) j wave_groups_def wave_group_def Let_def bind_result_def)
qed

theorem rebuilt_queue_exact_witness:
  "\<exists>ws. queued_control_waves sample_queue ''r'' False = Inr ws \<and> length ws = 1 \<and> distinct (map qw_challenge ws)
     \<and> (\<forall>j \<in> set (queue_jobs sample_queue ''r'' False). \<exists>w \<in> set ws. wave_key j = (qw_challenge w, qw_rank w, qw_episode w))"
  using rebuilt_queue_exact [OF sample_rebuilt] sample_rebuilt
  by (intro exI [of _ "[\<lparr>qw_challenge = 7, qw_rank = 0, qw_episode = 0, qw_route = sample_route\<rparr>]"]) auto

definition sample_revision :: revision where
  "sample_revision = \<lparr>rv_challenge = 7, rv_name = ''n'', rv_category = ''c'', rv_type = ''standard'', rv_value = 100,
     rv_executable = True, rv_context = replicate 64 CHR ''a'', rv_rank = 0, rv_lanes = 1, rv_route = sample_route,
     rv_assignments = [(''lead'', ''m'', ''high'')]\<rparr>"

lemma sample_refresh:
  "\<exists>d. admit_control_catalogue_revision id (\<lambda>_. ''t1'') ''r'' sample_revision sample_queue
     = (Inr (''refreshed'', Some 1, 0), d)"
proof -
  have valid: "construct_route (sample_route\<lparr>workspace_generation := 1\<rparr>) = Inr (sample_route\<lparr>workspace_generation := 1\<rparr>)"
    by (simp add: sample_route_def route_valid_def bounded_text_def ROLES_def)
  have new: "fingerprint id sample_route \<noteq> fingerprint id (sample_route\<lparr>workspace_generation := 1\<rparr>)"
    by (auto simp: fingerprint_def sample_route_def dest: route_json_inject)
  have ids: "job_id ''r'' 7 1 x i \<noteq> job_id ''r'' 7 0 y k" for x y i k
    by (simp add: job_id_def show_int_def sample_digits)
  have sha: "sha_text (replicate 64 CHR ''a'')" by (simp add: sha_text_def list_all_iff)
  show ?thesis
    using valid new ids sha
    by (simp add: admit_control_catalogue_revision_def revision_body_def change_catalogue_def revise_catalogue_def
        admit_revision_def sample_revision_def sample_queue_def sample_wave_def sample_plane_defs
        catalogued_def first_row_def upsert_challenge_row_def next_episode_def in_wave_def open_state_def set_job_def
        supersede_waves_def outstanding_episodes_def finish_wave_def open_jobs_def close_job_def closed_lane_state_def
        attempt_status_def retire_verifications_def where_update_def admit_wave_def wave_assignments_def
        assignment_ok_def AGENT_ROLES_def insert_route_def admit_lane_def insert_control_event_def insert_job_def
        run_tx Let_def has_run_def has_challenge_def transaction_def enumerate_eq_zip same_route_def)
qed

theorem refresh_replaces_waves_witness:
  "\<exists>d. admit_control_catalogue_revision id (\<lambda>_. ''t1'') ''r'' sample_revision sample_queue
     = (Inr (''refreshed'', Some 1, 0), d) \<and> length (control_jobs d) = 2"
proof -
  obtain d where d: "admit_control_catalogue_revision id (\<lambda>_. ''t1'') ''r'' sample_revision sample_queue
     = (Inr (''refreshed'', Some 1, 0), d)" using sample_refresh by blast
  have "challenge_ended ''r'' (rv_challenge sample_revision) sample_queue" "distinct (map jb_id (control_jobs sample_queue))"
    by (simp_all add: sample_revision_def challenge_ended_def sample_queue_def sample_wave_def sample_plane_defs)
  moreover have "rv_executable sample_revision" by (simp add: sample_revision_def)
  ultimately obtain old new where "control_jobs d = old @ new"
    "map jb_id old = map jb_id (control_jobs sample_queue)" "length new = length (rv_assignments sample_revision)"
    using refresh_replaces_waves [OF d] by (auto dest!: list_all2_lengthD)
  moreover from arg_cong [OF this(2), of length] have "length old = 1"
    by (simp add: sample_queue_def sample_wave_def)
  ultimately show ?thesis using d by (auto simp: sample_revision_def)
qed

end
