(* ===== verification/Routing_Policy.thy ===== *)
theory Routing_Policy
  imports Routing "HOL-Library.Product_Lexorder"
begin

text \<open>
  \<^verbatim>\<open>rapido/routing_policy.py\<close>, first part: the private facts and the policy input of the
  routing comparison, their validating readers and their documents. \<open>Routing_Comparison\<close> holds
  the frozen contract, the four policy arms and the authorisation.
\<close>

section \<open>Facts and policy inputs\<close>

definition fact_bounded :: "pyval \<Rightarrow> string \<Rightarrow> string result" where
  "fact_bounded v label =
     (case v of
        PStr s \<Rightarrow> if bounded_text s then Inr s
                  else Inl (ValueError (''routing fact '' @ label @ '' is invalid''))
      | _ \<Rightarrow> Inl (ValueError (''routing fact '' @ label @ '' is invalid'')))"

record route_fact =
  fact_id :: string
  fact_type :: string
  fact_scope :: string
  fact_value :: string
  event_sequence :: int

definition fact_from_dict :: "pyval \<Rightarrow> route_fact result" where
  "fact_from_dict v =
     (case v of
        PDict d \<Rightarrow>
          if \<not> keys_are d {''event_sequence'', ''fact_id'', ''fact_type'', ''scope'', ''value''}
          then Inl (ValueError ''routing fact shape is invalid'')
          else (case dict_get d ''event_sequence'' of
              PInt n \<Rightarrow>
                if n < 1 then Inl (ValueError ''routing fact event sequence is invalid'')
                else bind_result (fact_bounded (dict_get d ''fact_id'') ''id'') (\<lambda>i.
                  bind_result (fact_bounded (dict_get d ''fact_type'') ''type'') (\<lambda>t.
                  bind_result (fact_bounded (dict_get d ''scope'') ''scope'') (\<lambda>s.
                  bind_result (fact_bounded (dict_get d ''value'') ''value'') (\<lambda>x.
                  Inr \<lparr>fact_id = i, fact_type = t, fact_scope = s, fact_value = x,
                       event_sequence = n\<rparr>))))
            | _ \<Rightarrow> Inl (ValueError ''routing fact event sequence is invalid''))
      | _ \<Rightarrow> Inl (ValueError ''routing fact shape is invalid''))"

definition fact_as_dict :: "route_fact \<Rightarrow> pyval" where
  "fact_as_dict f =
     PDict [(''event_sequence'', PInt (event_sequence f)), (''fact_id'', PStr (fact_id f)),
            (''fact_type'', PStr (fact_type f)), (''scope'', PStr (fact_scope f)),
            (''value'', PStr (fact_value f))]"

definition fact_valid :: "route_fact \<Rightarrow> bool" where
  "fact_valid f \<longleftrightarrow> 1 \<le> event_sequence f \<and> bounded_text (fact_id f) \<and> bounded_text (fact_type f)
     \<and> bounded_text (fact_scope f) \<and> bounded_text (fact_value f)"

definition fact_key :: "route_fact \<Rightarrow> int \<times> string" where
  "fact_key f = (event_sequence f, fact_id f)"

record policy_input =
  failure_kind :: "string option"
  failure_subreason :: "string option"
  facts :: "route_fact list"
  current_route_id :: string
  used_recipe_ids :: "string set"
  input_attempts_remaining :: bool
  input_remaining_milliseconds :: int
  input_effects_safe :: bool
  input_instances_safe :: bool

definition POLICY_INPUT_FIELDS :: "string list" where
  "POLICY_INPUT_FIELDS =
     [''failure_kind'', ''failure_subreason'', ''facts'', ''current_route_id'',
      ''used_successor_recipe_ids'', ''attempts_remaining'', ''remaining_milliseconds'',
      ''effects_safe'', ''instances_safe'']"

definition optional_bounded :: "pyval \<Rightarrow> string \<Rightarrow> string option result" where
  "optional_bounded v label =
     (if v = PNone then Inr None else bind_result (fact_bounded v label) (\<lambda>s. Inr (Some s)))"

definition read_facts :: "pyval \<Rightarrow> route_fact list result" where
  "read_facts v =
     (case v of
        PList xs \<Rightarrow> bind_result (traverse fact_from_dict xs) (\<lambda>fs.
          let order = map fact_key fs in
          if order \<noteq> sort order \<or> card (set order) \<noteq> length order
          then Inl (ValueError ''routing fact order is invalid'')
          else Inr fs)
      | _ \<Rightarrow> Inl (TypeError ''policy input facts are invalid''))"

definition is_str :: "pyval \<Rightarrow> bool" where
  "is_str v = (case v of PStr _ \<Rightarrow> True | _ \<Rightarrow> False)"

definition read_used :: "pyval \<Rightarrow> string list result" where
  "read_used v =
     (case v of
        PList xs \<Rightarrow>
          if \<exists>x \<in> set xs. \<not> is_str x then Inl (ValueError ''policy used route ids are invalid'')
          else bind_result (traverse (\<lambda>x. fact_bounded x ''used recipe id'') xs) (\<lambda>ids.
            if card (set ids) \<noteq> length ids
            then Inl (ValueError ''policy used route ids are invalid'') else Inr ids)
      | _ \<Rightarrow> Inl (ValueError ''policy used route ids are invalid''))"

definition bool_of :: "pyval \<Rightarrow> bool" where
  "bool_of v = (case v of PBool b \<Rightarrow> b | _ \<Rightarrow> False)"

definition is_bool :: "pyval \<Rightarrow> bool" where
  "is_bool v = (case v of PBool _ \<Rightarrow> True | _ \<Rightarrow> False)"

definition nonnegative_int :: "pyval \<Rightarrow> bool" where
  "nonnegative_int v = (case v of PInt i \<Rightarrow> 0 \<le> i | _ \<Rightarrow> False)"

definition input_from_dict :: "pyval \<Rightarrow> policy_input result" where
  "input_from_dict v =
     (case v of
        PDict d \<Rightarrow>
          if \<not> keys_are d (set POLICY_INPUT_FIELDS)
          then Inl (ValueError ''policy input shape is invalid'')
          else bind_result (optional_bounded (dict_get d ''failure_kind'') ''failure kind'') (\<lambda>k.
            bind_result (optional_bounded (dict_get d ''failure_subreason'') ''failure subreason'') (\<lambda>s.
            if (k = None) \<noteq> (s = None)
            then Inl (ValueError ''policy failure projection is invalid'')
            else bind_result (read_facts (dict_get d ''facts'')) (\<lambda>fs.
            bind_result (read_used (dict_get d ''used_successor_recipe_ids'')) (\<lambda>used.
            if \<not> (is_bool (dict_get d ''attempts_remaining'') \<and> is_bool (dict_get d ''effects_safe'')
                   \<and> is_bool (dict_get d ''instances_safe''))
            then Inl (TypeError ''policy safety and budget gates must be boolean'')
            else if \<not> nonnegative_int (dict_get d ''remaining_milliseconds'')
            then Inl (ValueError ''policy remaining milliseconds are invalid'')
            else bind_result (fact_bounded (dict_get d ''current_route_id'') ''current route id'') (\<lambda>c.
            Inr \<lparr>failure_kind = k, failure_subreason = s, facts = fs, current_route_id = c,
                 used_recipe_ids = set used,
                 input_attempts_remaining = bool_of (dict_get d ''attempts_remaining''),
                 input_remaining_milliseconds = int_of (dict_get d ''remaining_milliseconds''),
                 input_effects_safe = bool_of (dict_get d ''effects_safe''),
                 input_instances_safe = bool_of (dict_get d ''instances_safe'')\<rparr>)))))
      | _ \<Rightarrow> Inl (ValueError ''policy input shape is invalid''))"

definition opt_str :: "string option \<Rightarrow> pyval" where
  "opt_str x = (case x of None \<Rightarrow> PNone | Some s \<Rightarrow> PStr s)"

definition input_as_dict :: "policy_input \<Rightarrow> pyval" where
  "input_as_dict p =
     PDict [(''failure_kind'', opt_str (failure_kind p)),
            (''failure_subreason'', opt_str (failure_subreason p)),
            (''facts'', PList (map fact_as_dict (facts p))),
            (''current_route_id'', PStr (current_route_id p)),
            (''used_successor_recipe_ids'', PList (map PStr (sorted_list_of_set (used_recipe_ids p)))),
            (''attempts_remaining'', PBool (input_attempts_remaining p)),
            (''remaining_milliseconds'', PInt (input_remaining_milliseconds p)),
            (''effects_safe'', PBool (input_effects_safe p)),
            (''instances_safe'', PBool (input_instances_safe p))]"

definition input_digest :: "digest_fn \<Rightarrow> policy_input \<Rightarrow> string" where
  "input_digest sha p = sha (json_dumps (input_as_dict p))"

definition fact_types :: "policy_input \<Rightarrow> string set" where
  "fact_types p = set (map fact_type (facts p))"

definition source_fact_digest :: "digest_fn \<Rightarrow> policy_input \<Rightarrow> string" where
  "source_fact_digest sha p = sha (json_dumps (PList (map fact_as_dict (facts p))))"

definition input_valid :: "policy_input \<Rightarrow> bool" where
  "input_valid p \<longleftrightarrow>
     ((failure_kind p = None) = (failure_subreason p = None))
     \<and> (\<forall>k. failure_kind p = Some k \<longrightarrow> bounded_text k)
     \<and> (\<forall>s. failure_subreason p = Some s \<longrightarrow> bounded_text s)
     \<and> (\<forall>f \<in> set (facts p). fact_valid f)
     \<and> sorted (map fact_key (facts p)) \<and> distinct (map fact_key (facts p))
     \<and> bounded_text (current_route_id p)
     \<and> finite (used_recipe_ids p) \<and> (\<forall>u \<in> used_recipe_ids p. bounded_text u)
     \<and> 0 \<le> input_remaining_milliseconds p"

section \<open>The documents are read back\<close>

lemma fact_bounded_Inr_iff [simp]:
  "fact_bounded v label = Inr s \<longleftrightarrow> v = PStr s \<and> bounded_text s"
  by (auto simp: fact_bounded_def split: pyval.splits if_splits)

lemma optional_bounded_Inr_iff:
  "optional_bounded v label = Inr x \<longleftrightarrow> v = opt_str x \<and> (\<forall>s. x = Some s \<longrightarrow> bounded_text s)"
  by (cases x) (auto simp: optional_bounded_def opt_str_def res_simps)

interpretation fact_doc: document_codec fact_as_dict fact_from_dict fact_valid
proof
  fix f
  show "fact_valid f \<Longrightarrow> fact_from_dict (fact_as_dict f) = Inr f"
    by (auto simp: fact_from_dict_def fact_as_dict_def fact_valid_def keys_are_def fact_bounded_def)
next
  fix v f
  show "fact_from_dict v = Inr f \<Longrightarrow> fact_valid f"
    by (auto simp: fact_from_dict_def fact_valid_def res_simps split: pyval.splits if_splits)
qed

lemma eq_sort_iff: "xs = sort xs \<longleftrightarrow> sorted xs"
  by (metis sorted_sort sorted_sort_id)

lemma card_set_eq_length: "card (set xs) = length xs \<longleftrightarrow> distinct xs"
  by (metis card_distinct distinct_card)

lemma read_facts_Inr_iff:
  "read_facts v = Inr fs \<longleftrightarrow>
     (\<exists>xs. v = PList xs \<and> traverse fact_from_dict xs = Inr fs)
     \<and> sorted (map fact_key fs) \<and> distinct (map fact_key fs)"
proof (cases v)
  case (PList xs)
  then show ?thesis
    by (cases "traverse fact_from_dict xs")
      (auto simp: read_facts_def Let_def card_set_eq_length eq_sort_iff simp del: map_map)
qed (simp_all add: read_facts_def)

lemma read_used_strings:
  assumes "\<forall>x \<in> set xs. bounded_text x" "distinct xs"
  shows "read_used (PList (map PStr xs)) = Inr xs"
proof -
  have "traverse (\<lambda>x. fact_bounded x ''used recipe id'') (map PStr xs) = Inr xs"
    using assms(1) by (intro traverse_Inr_map_id) simp
  then show ?thesis using assms(2) by (auto simp: read_used_def is_str_def distinct_card)
qed

lemma read_used_valid:
  "read_used v = Inr xs \<Longrightarrow> \<forall>x \<in> set xs. bounded_text x"
  by (auto simp: read_used_def bind_result_Inr_iff dest!: traverse_Inr_all [where P = bounded_text]
      split: pyval.splits if_splits)

lemma read_facts_valid: "read_facts v = Inr fs \<Longrightarrow> \<forall>f \<in> set fs. fact_valid f"
  by (auto simp: read_facts_Inr_iff dest: fact_doc.traverse_dec_valid)

lemma read_facts_ordered:
  "read_facts v = Inr fs \<Longrightarrow> sorted (map fact_key fs) \<and> distinct (map fact_key fs)"
  by (simp add: read_facts_Inr_iff)

interpretation input_doc: document_codec input_as_dict input_from_dict input_valid
proof
  fix p
  assume valid: "input_valid p"
  then have facts: "read_facts (PList (map fact_as_dict (facts p))) = Inr (facts p)"
    by (auto simp: read_facts_Inr_iff input_valid_def intro!: fact_doc.traverse_dec_enc)
  from valid have used: "read_used (PList (map PStr (sorted_list_of_set (used_recipe_ids p)))) =
      Inr (sorted_list_of_set (used_recipe_ids p))"
    by (intro read_used_strings) (simp_all add: input_valid_def)
  from valid have opts: "optional_bounded (opt_str (failure_kind p)) l = Inr (failure_kind p)"
    "optional_bounded (opt_str (failure_subreason p)) l = Inr (failure_subreason p)" for l
    by (simp_all add: optional_bounded_Inr_iff input_valid_def)
  from valid show "input_from_dict (input_as_dict p) = Inr p"
    by (simp add: input_from_dict_def input_as_dict_def keys_are_def POLICY_INPUT_FIELDS_def facts
        used opts input_valid_def fact_bounded_def is_bool_def bool_of_def nonnegative_int_def
        int_of_def insert_commute)
next
  fix v p
  show "input_from_dict v = Inr p \<Longrightarrow> input_valid p"
    by (auto simp: input_from_dict_def input_valid_def bind_result_Inr_iff optional_bounded_Inr_iff
        nonnegative_int_def int_of_def dest: read_facts_valid read_facts_ordered read_used_valid
        split: pyval.splits if_splits)
qed

section \<open>Properties\<close>

definition sample_fact :: "string \<Rightarrow> route_fact" where
  "sample_fact t =
     \<lparr>fact_id = ''f1'', fact_type = t, fact_scope = ''same_run_challenge_episode'',
      fact_value = ''observed'', event_sequence = 4\<rparr>"

definition sample_input :: "string \<Rightarrow> string \<Rightarrow> policy_input" where
  "sample_input k t =
     \<lparr>failure_kind = Some k, failure_subreason = Some ''stalled'', facts = [sample_fact t],
      current_route_id = ''baseline_v1'', used_recipe_ids = {}, input_attempts_remaining = True,
      input_remaining_milliseconds = 60000, input_effects_safe = True, input_instances_safe = True\<rparr>"

lemma sample_input_valid:
  "bounded_text k \<Longrightarrow> bounded_text t \<Longrightarrow> input_valid (sample_input k t)"
  by (simp add: sample_input_def sample_fact_def input_valid_def fact_valid_def bounded_text_def)

text \<open>Reading a policy input: whatever document the reader accepts yields an input that
  satisfies the class's invariant (failure kind and subreason are given together, every text is
  bounded, the facts are strictly ordered by event sequence and id, the remaining time is not
  negative), and writing that input out and reading it back returns the same input.\<close>

theorem policy_input_reread:
  assumes "input_from_dict v = Inr p"
  shows "input_valid p \<and> input_from_dict (input_as_dict p) = Inr p"
  using assms input_doc.dec_valid input_doc.reread by blast

theorem policy_input_reread_witness:
  "input_valid (sample_input ''timeout'' ''compatible_checkpoint'')"
proof -
  have "input_valid (sample_input ''timeout'' ''compatible_checkpoint'')"
    by (rule sample_input_valid) (simp_all add: bounded_text_def)
  then have "input_from_dict (input_as_dict (sample_input ''timeout'' ''compatible_checkpoint'')) =
      Inr (sample_input ''timeout'' ''compatible_checkpoint'')"
    by (rule input_doc.dec_enc)
  then show ?thesis using policy_input_reread by blast
qed

end
