(* ===== verification/Routing_Comparison.thy ===== *)
theory Routing_Comparison
  imports Routing_Policy
begin

text \<open>
  \<^verbatim>\<open>rapido/routing_policy.py\<close>, second part: the contract read from the two frozen protocol
  documents, the pre-containment check, the four policy arms with their operation counts, and
  the authorisation that turns an evaluation into a decision.

  The contract keeps the documents it was read from, as the class does, and every arm reads its
  entries from them when it needs them. The fact types of the documents are strings (the type
  annotation of the class); \<open>str()\<close> of a recipe id and \<open>int()\<close> of a weight or a budget are
  modelled on the JSON types the documents use, a string and an integer or boolean.
\<close>

section \<open>The frozen contract\<close>

definition PARENT_PROTOCOL_SHA256 :: string where
  "PARENT_PROTOCOL_SHA256 = ''bc7a219c92e893b188584c4567bbb04b97d9be4ffaeaee90aa12d749ce5b5ef6''"

definition POLICY_ARMS :: "string list" where
  "POLICY_ARMS = [''fifo_unchanged'', ''closed_rule_table'', ''graph_reducer'', ''scored_policy'']"

record comparison_contract =
  arms :: "string list"
  policy_configs :: "(string \<times> pyval) list"
  route_recipes :: "(string \<times> pyval) list"
  route_templates :: "(string \<times> route_spec) list"
  recipe_budgets :: "pyval"
  authorizing_fact_types :: "string set"
  recognized_non_authorizing_fact_types :: "string set"
  policy_config_bytes :: "(string \<times> pyval) list"
  integrity_digest :: string

definition lookup :: "(string \<times> 'a) list \<Rightarrow> string \<Rightarrow> 'a result" where
  "lookup d k = (case map_of d k of None \<Rightarrow> Inl (KeyError k) | Some v \<Rightarrow> Inr v)"

definition digest_of :: "digest_fn \<Rightarrow> pyval \<Rightarrow> string" where
  "digest_of sha v = sha (json_dumps v)"

definition string_list :: "string list \<Rightarrow> pyval" where
  "string_list xs = PList (map PStr xs)"

definition observed_integrity_digest :: "digest_fn \<Rightarrow> comparison_contract \<Rightarrow> string" where
  "observed_integrity_digest sha c =
     digest_of sha (PDict
       [(''arms'', string_list (arms c)),
        (''authorizing_fact_types'', string_list (sorted_list_of_set (authorizing_fact_types c))),
        (''policy_config_bytes'', PDict (policy_config_bytes c)),
        (''policy_configs'', PDict (policy_configs c)),
        (''recipe_budgets'', recipe_budgets c),
        (''recognized_non_authorizing_fact_types'',
          string_list (sorted_list_of_set (recognized_non_authorizing_fact_types c))),
        (''route_recipes'', PDict (route_recipes c)),
        (''route_templates'',
          PDict (map (\<lambda>(k, r). (k, route_as_dict r)) (route_templates c)))])"

definition validate_integrity :: "digest_fn \<Rightarrow> comparison_contract \<Rightarrow> unit result" where
  "validate_integrity sha c =
     ensure (observed_integrity_digest sha c = integrity_digest c)
       (ValueError ''frozen routing comparison contract changed'')"

definition EVALUATION_KEYS :: "string list" where
  "EVALUATION_KEYS =
     [''common_authority_gate'', ''disabled_surfaces'', ''fixture_execution'',
      ''observation_fields'', ''observation_schema'', ''selection_gate'',
      ''raw_derivation_contract'', ''required_measurement_tests'', ''result_provenance_contract'',
      ''tamper_gates'', ''prerequisite_status'', ''fifo_comparator_contract'']"

definition FIXTURE_KEYS :: "(string \<times> string) list" where
  "FIXTURE_KEYS =
     [(''manifest'', ''fixture_manifest''), (''defaults'', ''fixture_payload_defaults''),
      (''overrides'', ''fixture_payload_overrides''),
      (''failure_subreason_by_case'', ''failure_subreason_by_case''),
      (''evaluator_contract'', ''evaluator_contract'')]"

definition pick_items :: "pyval \<Rightarrow> (string \<times> string) list \<Rightarrow> (string \<times> pyval) list result" where
  "pick_items doc ks =
     traverse (\<lambda>(name, k). bind_result (py_item doc k) (\<lambda>x. Inr (name, x))) ks"

definition validate_parent_digests :: "digest_fn \<Rightarrow> pyval \<Rightarrow> unit result" where
  "validate_parent_digests sha parent =
     bind_result (pick_items parent FIXTURE_KEYS) (\<lambda>fixture.
     bind_result (pick_items parent [(''cases'', ''cases''), (''common_config'', ''common_config'')]) (\<lambda>v1.
     bind_result (pick_items parent (map (\<lambda>k. (k, k)) EVALUATION_KEYS)) (\<lambda>evaluation.
     bind_result (pick_items parent
         [(''policy_configs'', ''policy_configs''), (''recipe_budgets'', ''recipe_budgets''),
          (''route_recipes'', ''route_recipes''), (''route_templates'', ''route_templates'')]) (\<lambda>v2.
     bind_result (py_item parent ''frozen_digests'') (\<lambda>frozen.
       let values = v1 @ [(''evaluation_contract'', PDict evaluation),
                          (''fixture_payload'', PDict fixture)] @ v2;
           digests = PDict (map (\<lambda>(k, v). (k, PStr (digest_of sha v))) values)
       in ensure (canonical_value digests = canonical_value frozen)
            (ValueError ''frozen routing comparison section changed''))))))"

definition config_sizes :: "(string \<times> pyval) list \<Rightarrow> pyval" where
  "config_sizes configs = PDict (map (\<lambda>(k, v). (k, PInt (int (length (json_dumps v))))) configs)"

definition check_recipe ::
  "(string \<times> route_spec) list \<Rightarrow> route_spec \<Rightarrow> string \<times> pyval \<Rightarrow> unit result" where
  "check_recipe templates baseline = (\<lambda>(recipe_id, recipe).
     case map_of templates recipe_id of
       None \<Rightarrow> Inl (ValueError ''frozen route template changed'')
     | Some target \<Rightarrow> bind_result (py_item recipe ''changed_axes'') (\<lambda>axes.
         ensure (axes = string_list (changed_axes baseline target))
           (ValueError ''frozen route template changed'')))"

definition fact_type_set :: "pyval \<Rightarrow> string set result" where
  "fact_type_set v =
     bind_result (py_elements v) (\<lambda>xs. bind_result (traverse py_string xs) (\<lambda>ts. Inr (set ts)))"

definition read_template :: "string \<times> pyval \<Rightarrow> (string \<times> route_spec) result" where
  "read_template = (\<lambda>(k, v). bind_result (route_from_dict v) (\<lambda>r. Inr (k, r)))"

definition is_dict :: "pyval \<Rightarrow> bool" where
  "is_dict v = (case v of PDict _ \<Rightarrow> True | _ \<Rightarrow> False)"

definition dict_field :: "pyval \<Rightarrow> string \<Rightarrow> pyval" where
  "dict_field v k = (case v of PDict d \<Rightarrow> dict_get d k | _ \<Rightarrow> PNone)"

definition contract_from_documents ::
  "digest_fn \<Rightarrow> pyval \<Rightarrow> pyval \<Rightarrow> comparison_contract result" where
  "contract_from_documents sha parent_value operation_value =
     (if \<not> is_dict parent_value \<or> \<not> is_dict operation_value
      then Inl (TypeError ''routing comparison protocol is invalid'')
      else let parent = canonical_value parent_value; operation = canonical_value operation_value in
      if dict_field parent ''protocol_id'' \<noteq> PStr ''issue-19-routing-comparison-v1''
         \<or> dict_field operation ''protocol_id'' \<noteq> PStr ''issue-19-routing-operation-count-v1''
         \<or> dict_field operation ''parent_protocol_sha256'' \<noteq> PStr PARENT_PROTOCOL_SHA256
      then Inl (ValueError ''routing comparison protocol identity is invalid'')
      else bind_result (validate_parent_digests sha parent) (\<lambda>_.
        bind_result (bind_result (py_item parent ''policy_configs'') py_items) (\<lambda>configs.
        bind_result (bind_result (py_item operation ''canonical_config_bytes'')
            (\<lambda>v. py_item v ''expected_by_arm'')) (\<lambda>expected.
        if config_sizes configs \<noteq> expected
        then Inl (ValueError ''frozen policy config bytes changed'')
        else bind_result (bind_result (bind_result (py_item parent ''route_templates'') py_items)
            (traverse read_template)) (\<lambda>templates.
        bind_result (bind_result (py_item parent ''route_recipes'') py_items) (\<lambda>recipes.
        bind_result (lookup templates ''baseline_v1'') (\<lambda>baseline.
        bind_result (traverse (check_recipe templates baseline) recipes) (\<lambda>_.
        bind_result (bind_result (py_item parent ''arms'') py_elements) (\<lambda>arm_values.
        if arm_values \<noteq> map PStr POLICY_ARMS
        then Inl (ValueError ''frozen policy arms changed'')
        else bind_result (bind_result (py_item operation ''policy_invocation_contract'')
            (\<lambda>v. py_item v ''input_derived_predicate'')) (\<lambda>invocation.
        bind_result (py_item parent ''recipe_budgets'') (\<lambda>budgets.
        bind_result (bind_result (py_item parent ''fact_types'') fact_type_set) (\<lambda>authorizing.
        bind_result (bind_result (py_item invocation ''recognized_non_authorizing_fact_types'')
            fact_type_set) (\<lambda>recognized.
        bind_result (py_items expected) (\<lambda>sizes.
          let c = \<lparr>arms = POLICY_ARMS, policy_configs = configs, route_recipes = recipes,
                    route_templates = templates, recipe_budgets = budgets,
                    authorizing_fact_types = authorizing,
                    recognized_non_authorizing_fact_types = recognized,
                    policy_config_bytes = sizes, integrity_digest = []\<rparr>
          in Inr (c\<lparr>integrity_digest := observed_integrity_digest sha c\<rparr>)))))))))))))))"

section \<open>Evaluation\<close>

record policy_evaluation =
  evaluation_arm :: string
  invoked :: bool
  evaluation_recipe :: "string option"
  operation_count :: int
  policy_config_digest :: string
  evaluation_config_bytes :: pyval
  precontain_reason :: "string option"

definition SCOPE :: string where
  "SCOPE = ''same_run_challenge_episode''"

definition frozen_authority :: "route_spec \<Rightarrow> bool" where
  "frozen_authority r \<longleftrightarrow>
     model r = ''gpt-daybreak-blue-latest'' \<and> effort r = ''xhigh''
     \<and> effect_policy r = ''controller_only''"

definition precontain :: "policy_input \<Rightarrow> comparison_contract \<Rightarrow> string option" where
  "precontain v c =
     (case failure_kind v of
        None \<Rightarrow> Some ''completed''
      | Some k \<Rightarrow>
          if k \<notin> FAILURE_KINDS then Some ''unrecognized_or_mixed_failure''
          else if \<not> fact_types v \<subseteq> authorizing_fact_types c \<union> recognized_non_authorizing_fact_types c
          then Some ''malformed_fact_type''
          else if \<exists>f \<in> set (facts v). fact_scope f \<noteq> SCOPE then Some ''foreign_fact_scope''
          else if {''private_candidate_proposal'', ''unsafe_native_failure''} \<subseteq> fact_types v
          then Some ''conflicting_failure_facts''
          else if \<exists>f \<in> set (facts v). fact_type f = ''private_candidate_proposal''
                    \<and> fact_value f = ''multiple_verified_identities''
          then Some ''conflicting_verified_identities''
          else if k = ''board'' \<and> ''indeterminate_board_observation'' \<in> fact_types v
          then Some ''indeterminate_board''
          else if \<not> input_attempts_remaining v then Some ''episode_budget_exhausted''
          else if input_remaining_milliseconds v < 1000 then Some ''run_deadline_exhausted''
          else (case map_of (route_templates c) (current_route_id v) of
              None \<Rightarrow> Some ''unknown_current_route''
            | Some cur \<Rightarrow>
                if \<not> frozen_authority cur
                then Some ''model_effort_or_effect_mismatch''
                else if (\<not> input_effects_safe v \<or> \<not> input_instances_safe v) \<and> k \<noteq> ''board''
                then Some ''unsafe_effect_or_instance_state''
                else None))"

text \<open>The loop of \<open>_ordered_choice\<close> from the current operation count.\<close>

fun ordered_loop ::
  "policy_input \<Rightarrow> bool \<Rightarrow> int \<Rightarrow> pyval list \<Rightarrow> (string option \<times> int) result" where
  "ordered_loop v graph n [] = Inr (None, n)"
| "ordered_loop v graph n (e # es) =
     (let n1 = n + (if graph then 3 else 2) in
      bind_result (py_item e ''failure_kind'') (\<lambda>k.
      if k \<noteq> opt_str (failure_kind v) then ordered_loop v graph n1 es
      else bind_result (py_item e ''requires_all'') (\<lambda>req.
        bind_result (py_elements req) (\<lambda>required.
        let n2 = n1 + int (length required) in
        bind_result (py_subset req (fact_types v)) (\<lambda>present.
        if present
        then bind_result (bind_result (py_item e ''recipe_id'') py_string) (\<lambda>r. Inr (Some r, n2 + 1))
        else ordered_loop v graph n2 es)))))"

definition ordered_choice ::
  "policy_input \<Rightarrow> pyval \<Rightarrow> bool \<Rightarrow> (string option \<times> int) result" where
  "ordered_choice v entries graph =
     bind_result (py_elements entries) (\<lambda>es.
       ordered_loop v graph (if graph then 1 + 2 * int (length (facts v)) else 0) es)"

text \<open>The loop of \<open>_scored_choice\<close> over the sorted recipe ids: a recipe that matches the kind
  but has no weight is the \<open>KeyError\<close> of \<open>weights[recipe_id]\<close>.\<close>

fun scored_loop ::
  "policy_input \<Rightarrow> comparison_contract \<Rightarrow> pyval \<Rightarrow> pyval \<Rightarrow> int \<Rightarrow> (int \<times> string) list \<Rightarrow> string list
     \<Rightarrow> ((int \<times> string) list \<times> int) result" where
  "scored_loop v c config weights n scores [] = Inr (scores, n)"
| "scored_loop v c config weights n scores (r # rs) =
     bind_result (lookup (route_recipes c) r) (\<lambda>recipe.
       let n1 = n + 2 in
       bind_result (py_item recipe ''failure_kind'') (\<lambda>k.
       if k \<noteq> opt_str (failure_kind v) then scored_loop v c config weights n1 scores rs
       else bind_result (py_item recipe ''required_facts'') (\<lambda>req.
         bind_result (py_elements req) (\<lambda>required.
         let n2 = n1 + int (length required) in
         bind_result (py_subset req (fact_types v)) (\<lambda>present.
         if present
         then bind_result (bind_result (py_item config ''failure_match_weight'') py_int) (\<lambda>w0.
           bind_result (bind_result (py_item weights r) py_int) (\<lambda>w.
           scored_loop v c config weights (n2 + 3) (scores @ [(w0 + w, r)]) rs))
         else scored_loop v c config weights n2 scores rs)))))"

definition select_winner :: "(int \<times> string) list \<Rightarrow> string option" where
  "select_winner scores =
     (if scores = [] then None
      else let maximum = Max (set (map fst scores));
               winners = map snd (filter (\<lambda>s. fst s = maximum) scores)
           in if length winners = 1 then Some (hd winners) else None)"

definition scored_choice ::
  "policy_input \<Rightarrow> comparison_contract \<Rightarrow> (string option \<times> int) result" where
  "scored_choice v c =
     bind_result (lookup (policy_configs c) ''scored_policy'') (\<lambda>config.
     bind_result (py_item config ''recipe_weights'') (\<lambda>weights.
     bind_result (scored_loop v c config weights 0 [] (sort (map fst (route_recipes c)))) (\<lambda>(scores, n).
       Inr (select_winner scores, n + 1))))"

definition arm_choice ::
  "string \<Rightarrow> policy_input \<Rightarrow> pyval \<Rightarrow> comparison_contract \<Rightarrow> (string option \<times> int) result" where
  "arm_choice arm v config c =
     (if arm = ''fifo_unchanged'' then Inr (Some ''repeat_source_route_comparator_v1'', 1)
      else if arm = ''closed_rule_table''
      then bind_result (py_item config ''rules'') (\<lambda>es. ordered_choice v es False)
      else if arm = ''graph_reducer''
      then bind_result (py_item config ''transitions'') (\<lambda>es. ordered_choice v es True)
      else scored_choice v c)"

definition evaluate_policy ::
  "digest_fn \<Rightarrow> string \<Rightarrow> policy_input \<Rightarrow> comparison_contract \<Rightarrow> policy_evaluation result" where
  "evaluate_policy sha arm v c =
     bind_result (validate_integrity sha c) (\<lambda>_.
     if arm \<notin> set (arms c) then Inl (ValueError ''routing comparison arm is invalid'')
     else bind_result (lookup (policy_configs c) arm) (\<lambda>config.
       case precontain v c of
         Some why \<Rightarrow> bind_result (lookup (policy_config_bytes c) arm) (\<lambda>size.
           Inr \<lparr>evaluation_arm = arm, invoked = False, evaluation_recipe = None,
                operation_count = 0, policy_config_digest = digest_of sha config,
                evaluation_config_bytes = size, precontain_reason = Some why\<rparr>)
       | None \<Rightarrow> bind_result (arm_choice arm v config c) (\<lambda>(recipe, n).
           bind_result (lookup (policy_config_bytes c) arm) (\<lambda>size.
           Inr \<lparr>evaluation_arm = arm, invoked = True, evaluation_recipe = recipe,
                operation_count = n, policy_config_digest = digest_of sha config,
                evaluation_config_bytes = size, precontain_reason = None\<rparr>))))"

section \<open>Authorisation\<close>

record comparison_decision =
  decided :: string
  decided_kind :: "string option"
  decided_subreason :: "string option"
  decided_recipe :: "string option"
  source_fp :: string
  successor_fp :: "string option"
  decided_successor :: "route_spec option"
  decided_axes :: "string list"
  decided_reason :: string

definition contain ::
  "digest_fn \<Rightarrow> policy_input \<Rightarrow> route_spec \<Rightarrow> string option \<Rightarrow> string \<Rightarrow> comparison_decision" where
  "contain sha v source recipe why =
     \<lparr>decided = ''contain'', decided_kind = failure_kind v, decided_subreason = failure_subreason v,
      decided_recipe = recipe, source_fp = fingerprint sha source, successor_fp = None,
      decided_successor = None, decided_axes = [], decided_reason = why\<rparr>"

definition no_route :: "digest_fn \<Rightarrow> route_spec \<Rightarrow> comparison_decision" where
  "no_route sha source =
     \<lparr>decided = ''no_route'', decided_kind = None, decided_subreason = None, decided_recipe = None,
      source_fp = fingerprint sha source, successor_fp = None, decided_successor = None,
      decided_axes = [], decided_reason = ''completed without successor''\<rparr>"

definition dispatch ::
  "digest_fn \<Rightarrow> policy_input \<Rightarrow> route_spec \<Rightarrow> string \<Rightarrow> route_spec \<Rightarrow> string list
     \<Rightarrow> comparison_decision" where
  "dispatch sha v source recipe target axes =
     \<lparr>decided = ''dispatch'', decided_kind = failure_kind v, decided_subreason = failure_subreason v,
      decided_recipe = Some recipe, source_fp = fingerprint sha source,
      successor_fp = Some (fingerprint sha target), decided_successor = Some target,
      decided_axes = axes, decided_reason = ''frozen comparison route authorized''\<rparr>"

text \<open>The middle part of the function: either a containment reason or the successor, its
  budget document and the changed axes.\<close>

definition COMPARATOR :: string where
  "COMPARATOR = ''repeat_source_route_comparator_v1''"

definition spent_fingerprints :: "digest_fn \<Rightarrow> policy_input \<Rightarrow> comparison_contract \<Rightarrow> string set" where
  "spent_fingerprints sha v c =
     (\<lambda>(k, r). fingerprint sha r) ` set (filter (\<lambda>(k, r). k \<in> used_recipe_ids v) (route_templates c))"

definition choose_successor ::
  "digest_fn \<Rightarrow> policy_input \<Rightarrow> policy_evaluation \<Rightarrow> comparison_contract \<Rightarrow> route_spec \<Rightarrow> string
     \<Rightarrow> (string + route_spec \<times> pyval \<times> string list) result" where
  "choose_successor sha v ev c source recipe_id =
     (if recipe_id = COMPARATOR
      then if evaluation_arm ev \<noteq> ''fifo_unchanged''
        then Inr (Inl ''comparator recipe is not selectable'')
        else bind_result (py_item (recipe_budgets c) recipe_id) (\<lambda>budget. Inr (Inr (source, budget, [])))
      else (case map_of (route_recipes c) recipe_id of
          None \<Rightarrow> Inr (Inl ''recipe does not match failure'')
        | Some recipe \<Rightarrow> bind_result (py_item recipe ''failure_kind'') (\<lambda>k.
            if k \<noteq> opt_str (failure_kind v) then Inr (Inl ''recipe does not match failure'')
            else bind_result (py_item recipe ''required_facts'') (\<lambda>req.
              bind_result (py_subset req (fact_types v)) (\<lambda>present.
              if \<not> present then Inr (Inl ''recipe facts are absent'')
              else bind_result (lookup (route_templates c) recipe_id) (\<lambda>target.
                bind_result (py_item (recipe_budgets c) recipe_id) (\<lambda>budget.
                let axes = changed_axes source target in
                if axes = [] \<or> fingerprint sha target = fingerprint sha source
                then Inr (Inl ''route did not materially change'')
                else bind_result (py_item recipe ''changed_axes'') (\<lambda>frozen_axes.
                  if string_list axes \<noteq> frozen_axes
                  then Inr (Inl ''route axes differ from frozen recipe'')
                  else if fingerprint sha target \<in> spent_fingerprints sha v c
                  then Inr (Inl ''route fingerprint was already used'')
                  else Inr (Inr (target, budget, axes))))))))))"

definition authorize ::
  "digest_fn \<Rightarrow> policy_input \<Rightarrow> policy_evaluation \<Rightarrow> comparison_contract \<Rightarrow> comparison_decision result"
where
  "authorize sha v ev c =
     bind_result (validate_integrity sha c) (\<lambda>_.
     bind_result (case map_of (route_templates c) (current_route_id v) of
                    Some r \<Rightarrow> Inr r | None \<Rightarrow> lookup (route_templates c) ''baseline_v1'') (\<lambda>source.
     if failure_kind v = None then Inr (no_route sha source)
     else if \<not> invoked ev
     then Inr (contain sha v source None
            (case precontain_reason ev of Some why \<Rightarrow> if why = [] then ''precontained'' else why
             | None \<Rightarrow> ''precontained''))
     else (case evaluation_recipe ev of
         None \<Rightarrow> Inr (contain sha v source None ''policy selected no eligible recipe'')
       | Some recipe_id \<Rightarrow> bind_result (choose_successor sha v ev c source recipe_id) (\<lambda>choice.
           case choice of
             Inl why \<Rightarrow> Inr (contain sha v source (Some recipe_id) why)
           | Inr (target, budget, axes) \<Rightarrow>
               bind_result (bind_result (py_item budget ''minimum_remaining_milliseconds'') py_int)
                 (\<lambda>minimum.
               if input_remaining_milliseconds v < minimum
               then Inr (contain sha v source (Some recipe_id) ''recipe time budget is exhausted'')
               else if model target \<noteq> model source \<or> effort target \<noteq> effort source
                 \<or> effect_policy target \<noteq> effect_policy source \<or> \<not> frozen_authority target
               then Inr (contain sha v source (Some recipe_id) ''route changed immutable authority'')
               else if (\<not> input_effects_safe v \<or> \<not> input_instances_safe v)
                 \<and> recipe_id \<noteq> ''board_contract_recheck_v1''
               then Inr (contain sha v source (Some recipe_id) ''unsafe effect or instance state'')
               else Inr (dispatch sha v source recipe_id target axes))))))"

section \<open>Facts about the contract\<close>

lemma lookup_Inr_iff: "lookup d k = Inr x \<longleftrightarrow> map_of d k = Some x"
  by (simp add: lookup_def split: option.split)

lemma observed_digest_update [simp]:
  "observed_integrity_digest sha (c\<lparr>integrity_digest := x\<rparr>) = observed_integrity_digest sha c"
  by (simp add: observed_integrity_digest_def)

lemma traverse_unit_all:
  "traverse f xs = Inr us \<Longrightarrow> \<forall>x \<in> set xs. \<exists>u. f x = Inr u"
  by (induction xs arbitrary: us) (auto split: sum.splits)

lemma read_template_valid:
  "traverse read_template kvs = Inr ts \<Longrightarrow> \<forall>(k, r) \<in> set ts. route_valid r"
  by (erule traverse_Inr_all)
    (auto simp: read_template_def bind_result_Inr_iff dest: route_doc.dec_valid)

definition recipe_axes_ok :: "(string \<times> route_spec) list \<Rightarrow> route_spec \<Rightarrow> string \<times> pyval \<Rightarrow> bool" where
  "recipe_axes_ok templates baseline = (\<lambda>(k, recipe).
     \<exists>t. map_of templates k = Some t
       \<and> py_item recipe ''changed_axes'' = Inr (string_list (changed_axes baseline t)))"

lemma check_recipe_Inr_iff:
  "check_recipe templates baseline kr = Inr u \<longleftrightarrow> recipe_axes_ok templates baseline kr"
  by (cases kr) (auto simp: check_recipe_def recipe_axes_ok_def bind_result_Inr_iff split: option.splits)

lemma check_recipes_ok:
  "traverse (check_recipe templates baseline) rs = Inr us \<Longrightarrow>
     \<forall>kr \<in> set rs. recipe_axes_ok templates baseline kr"
  by (drule traverse_unit_all) (simp add: check_recipe_Inr_iff)

lemma contract_from_documents_cases:
  assumes "contract_from_documents sha parent operation = Inr c"
  obtains baseline kvs where
    "validate_integrity sha c = Inr ()" "arms c = POLICY_ARMS"
    "map_of (route_templates c) ''baseline_v1'' = Some baseline"
    "\<forall>kr \<in> set (route_recipes c). recipe_axes_ok (route_templates c) baseline kr"
    "traverse read_template kvs = Inr (route_templates c)"
    "config_sizes (policy_configs c) = PDict (policy_config_bytes c)"
  using assms
  by (auto simp: contract_from_documents_def Let_def lookup_Inr_iff validate_integrity_def
      observed_integrity_digest_def py_items_def dest!: check_recipes_ok
      elim!: bind_result_InrE split: if_split_asm pyval.split_asm)

lemma choose_successor_cases:
  assumes "choose_successor sha v ev c source r = Inr (Inr (target, budget, axes))"
  shows "if r = COMPARATOR
    then evaluation_arm ev = ''fifo_unchanged'' \<and> target = source \<and> axes = []
    else map_of (route_templates c) r = Some target \<and> axes = changed_axes source target \<and> axes \<noteq> []
      \<and> fingerprint sha target \<noteq> fingerprint sha source
      \<and> fingerprint sha target \<notin> spent_fingerprints sha v c
      \<and> (\<exists>doc req. map_of (route_recipes c) r = Some doc
          \<and> py_item doc ''failure_kind'' = Inr (opt_str (failure_kind v))
          \<and> py_item doc ''required_facts'' = Inr req \<and> py_subset req (fact_types v) = Inr True
          \<and> py_item doc ''changed_axes'' = Inr (string_list axes))"
  using assms
  by (auto simp: choose_successor_def Let_def bind_result_Inr_iff lookup_Inr_iff split: if_splits option.splits)

lemma choose_successor_budget:
  "choose_successor sha v ev c source r = Inr (Inr (target, budget, axes)) \<Longrightarrow>
     py_item (recipe_budgets c) r = Inr budget"
  by (auto simp: choose_successor_def Let_def bind_result_Inr_iff lookup_Inr_iff split: if_splits option.splits)

lemma not_dispatched [simp]:
  "decided (contain sha v s r w) = ''contain''" "decided (no_route sha s) = ''no_route''"
  "decided (dispatch sha v s k t a) = ''dispatch''"
  by (simp_all add: contain_def no_route_def dispatch_def)

lemma authorize_dispatch_cases:
  assumes "authorize sha v ev c = Inr d" "decided d = ''dispatch''"
  obtains source target recipe budget axes minimum where
    "failure_kind v \<noteq> None" "invoked ev" "evaluation_recipe ev = Some recipe"
    "choose_successor sha v ev c source recipe = Inr (Inr (target, budget, axes))"
    "d = dispatch sha v source recipe target axes"
    "bind_result (py_item budget ''minimum_remaining_milliseconds'') py_int = Inr minimum"
    "minimum \<le> input_remaining_milliseconds v"
    "frozen_authority source" "frozen_authority target"
    "input_effects_safe v \<and> input_instances_safe v \<or> recipe = ''board_contract_recheck_v1''"
  using assms
  by (auto simp: authorize_def frozen_authority_def
      elim!: bind_result_InrE split: if_split_asm option.split_asm sum.split_asm prod.split_asm)

lemma precontained_evaluation:
  "evaluate_policy sha arm v c = Inr ev \<Longrightarrow> precontain v c = Some why \<Longrightarrow>
     \<not> invoked ev \<and> evaluation_recipe ev = None \<and> operation_count ev = 0
     \<and> precontain_reason ev = Some why"
  by (auto simp: evaluate_policy_def bind_result_Inr_iff split: if_splits)

section \<open>The three selecting arms implement one choice\<close>

text \<open>The specification: a list of rules, one per failure kind, and the recipe of the rule whose
  kind is the input's and whose required facts are all present.\<close>

type_synonym rule_spec = "string \<times> string list \<times> string"

definition rule_matches :: "policy_input \<Rightarrow> rule_spec \<Rightarrow> bool" where
  "rule_matches v = (\<lambda>(k, req, r). failure_kind v = Some k \<and> set req \<subseteq> fact_types v)"

definition chosen :: "policy_input \<Rightarrow> rule_spec list \<Rightarrow> string option" where
  "chosen v rs = (case filter (rule_matches v) rs of [] \<Rightarrow> None | (k, req, r) # _ \<Rightarrow> Some r)"

definition entry_reads :: "pyval \<Rightarrow> rule_spec \<Rightarrow> bool" where
  "entry_reads e = (\<lambda>(k, req, r).
     py_item e ''failure_kind'' = Inr (PStr k) \<and> py_item e ''requires_all'' = Inr (string_list req)
     \<and> py_item e ''recipe_id'' = Inr (PStr r))"

definition recipe_reads :: "comparison_contract \<Rightarrow> pyval \<Rightarrow> rule_spec \<Rightarrow> bool" where
  "recipe_reads c weights = (\<lambda>(k, req, r).
     \<exists>doc w wi. map_of (route_recipes c) r = Some doc \<and> py_item doc ''failure_kind'' = Inr (PStr k)
       \<and> py_item doc ''required_facts'' = Inr (string_list req)
       \<and> py_item weights r = Inr w \<and> py_int w = Inr wi)"

definition ordered_reads :: "comparison_contract \<Rightarrow> string \<Rightarrow> string \<Rightarrow> rule_spec list \<Rightarrow> bool" where
  "ordered_reads c arm key rs \<longleftrightarrow>
     (\<exists>config es. map_of (policy_configs c) arm = Some config \<and> py_item config key = Inr (PList es)
        \<and> list_all2 entry_reads es rs)"

definition scored_reads :: "comparison_contract \<Rightarrow> rule_spec list \<Rightarrow> bool" where
  "scored_reads c rs \<longleftrightarrow>
     (\<exists>config weights w wi. map_of (policy_configs c) ''scored_policy'' = Some config
        \<and> py_item config ''recipe_weights'' = Inr weights
        \<and> py_item config ''failure_match_weight'' = Inr w \<and> py_int w = Inr wi
        \<and> distinct (map fst (route_recipes c))
        \<and> set (map fst (route_recipes c)) = (\<lambda>(k, req, r). r) ` set rs
        \<and> (\<forall>x \<in> set rs. recipe_reads c weights x))"

definition aligned :: "comparison_contract \<Rightarrow> rule_spec list \<Rightarrow> bool" where
  "aligned c rs \<longleftrightarrow> distinct (map fst rs) \<and> distinct (map (\<lambda>(k, req, r). r) rs)
     \<and> ordered_reads c ''closed_rule_table'' ''rules'' rs
     \<and> ordered_reads c ''graph_reducer'' ''transitions'' rs
     \<and> scored_reads c rs"

lemma lookup_Some: "map_of d k = Some x \<Longrightarrow> lookup d k = Inr x"
  by (simp add: lookup_Inr_iff)

lemma opt_str_kind: "PStr k = opt_str x \<longleftrightarrow> x = Some k"
  by (cases x) (auto simp: opt_str_def)

lemma ordered_loop_chosen:
  "list_all2 entry_reads es rs \<Longrightarrow> \<exists>n'. ordered_loop v g n es = Inr (chosen v rs, n') \<and> n \<le> n'"
proof (induction es rs arbitrary: n rule: list_all2_induct)
  case Nil
  then show ?case by (simp add: chosen_def)
next
  case (Cons e es x rs)
  obtain k req r where x: "x = (k, req, r)" by (cases x)
  from Cons.hyps x have reads: "py_item e ''failure_kind'' = Inr (PStr k)"
    "py_item e ''requires_all'' = Inr (string_list req)" "py_item e ''recipe_id'' = Inr (PStr r)"
    by (simp_all add: entry_reads_def)
  note kind = opt_str_kind [of k "failure_kind v"]
  show ?case
  proof (cases "rule_matches v x")
    case True
    with reads x kind show ?thesis
      by (simp add: Let_def rule_matches_def string_list_def chosen_def)
  next
    case False
    have "\<exists>n'. ordered_loop v g m es = Inr (chosen v rs, n') \<and> n \<le> n'" if "n \<le> m" for m
      using Cons.IH [of m] that order_trans by blast
    moreover from False have "chosen v (x # rs) = chosen v rs" by (simp add: chosen_def)
    ultimately show ?thesis using False reads x kind
      by (auto simp: Let_def rule_matches_def string_list_def)
  qed
qed

lemma ordered_choice_chosen:
  "list_all2 entry_reads es rs \<Longrightarrow>
     \<exists>n. ordered_choice v (PList es) g = Inr (chosen v rs, n) \<and> 0 \<le> n"
  using ordered_loop_chosen [of es rs v g "if g then 1 + 2 * int (length (facts v)) else 0"]
  by (auto simp: ordered_choice_def intro: order_trans [rotated])

lemma scored_loop_matches:
  assumes "py_item config ''failure_match_weight'' = Inr w0" "py_int w0 = Inr wi"
    and "\<forall>r \<in> set ids. \<exists>k req. (k, req, r) \<in> S \<and> recipe_reads c weights (k, req, r)"
    and "\<forall>k req k' req' r. (k, req, r) \<in> S \<longrightarrow> (k', req', r) \<in> S \<longrightarrow> k = k' \<and> req = req'"
  shows "\<exists>more n'. scored_loop v c config weights n scores ids = Inr (scores @ more, n') \<and> n \<le> n'
           \<and> map snd more = filter (\<lambda>r. \<exists>k req. (k, req, r) \<in> S \<and> rule_matches v (k, req, r)) ids"
  using assms(3)
proof (induction ids arbitrary: n scores)
  case Nil
  then show ?case by simp
next
  case (Cons r ids)
  let ?m = "\<lambda>r. \<exists>k req. (k, req, r) \<in> S \<and> rule_matches v (k, req, r)"
  obtain k req where kr: "(k, req, r) \<in> S" "recipe_reads c weights (k, req, r)"
    using Cons.prems by auto
  then obtain doc w wr where reads: "map_of (route_recipes c) r = Some doc"
    "py_item doc ''failure_kind'' = Inr (PStr k)"
    "py_item doc ''required_facts'' = Inr (string_list req)"
    "py_item weights r = Inr w" "py_int w = Inr wr"
    by (auto simp: recipe_reads_def)
  note kind = opt_str_kind [of k "failure_kind v"]
  have m: "?m r \<longleftrightarrow> rule_matches v (k, req, r)" using kr assms(4) by blast
  note step = lookup_Some [OF reads(1)]
  have match: "rule_matches v (k, req, r) \<longleftrightarrow> failure_kind v = Some k \<and> set req \<subseteq> fact_types v"
    by (simp add: rule_matches_def)
  have rest: "\<exists>more n'. scored_loop v c config weights j (scores @ s) ids = Inr (scores @ s @ more, n')
      \<and> n \<le> n' \<and> map snd more = filter ?m ids" if "n \<le> j" for j s
  proof -
    obtain more n' where "scored_loop v c config weights j (scores @ s) ids = Inr ((scores @ s) @ more, n')"
      "j \<le> n'" "map snd more = filter ?m ids"
      using Cons.IH [of j "scores @ s"] Cons.prems by auto
    with that show ?thesis by auto
  qed
  show ?case
  proof (cases "rule_matches v (k, req, r)")
    case True
    obtain more n' where "scored_loop v c config weights (n + 2 + int (length req) + 3)
        (scores @ [(wi + wr, r)]) ids = Inr (scores @ [(wi + wr, r)] @ more, n')"
      "n \<le> n'" "map snd more = filter ?m ids"
      using rest [of "n + 2 + int (length req) + 3" "[(wi + wr, r)]"] by auto
    moreover from True match kind have "PStr k = opt_str (failure_kind v)" "set req \<subseteq> fact_types v"
      by simp_all
    moreover from True m have "?m r" by simp
    ultimately show ?thesis using reads(2-) step assms(1,2)
      by (intro exI [of _ "(wi + wr, r) # more"] exI [of _ n'])
        (simp add: string_list_def Let_def algebra_simps)
  next
    case False
    define j where "j = (if PStr k = opt_str (failure_kind v) then n + 2 + int (length req) else n + 2)"
    from False match kind have no: "PStr k = opt_str (failure_kind v) \<Longrightarrow> \<not> set req \<subseteq> fact_types v"
      by simp
    have "scored_loop v c config weights n scores (r # ids) = scored_loop v c config weights j scores ids"
      using reads(2-) step no by (simp add: string_list_def Let_def j_def)
    moreover have "n \<le> j" by (simp add: j_def)
    moreover from False m have "filter ?m (r # ids) = filter ?m ids" by simp
    ultimately show ?thesis using rest [of j "[]"] by simp
  qed
qed

lemma filter_unique:
  assumes "distinct xs" "x \<in> set xs" "\<And>y. y \<in> set xs \<Longrightarrow> P y \<longleftrightarrow> y = x"
  shows "filter P xs = [x]"
proof -
  have "filter P xs = filter (\<lambda>y. y = x) xs" using assms(3) by (intro filter_cong) auto
  also have "\<dots> = [x]" using assms(1,2)
    by (induction xs) (auto simp: filter_empty_conv)
  finally show ?thesis .
qed

lemma select_winner_single [simp]: "select_winner [] = None" "select_winner [s] = Some (snd s)"
  by (simp_all add: select_winner_def)

lemma chosen_unique:
  assumes "distinct (map fst rs)" "(k, req, r) \<in> set rs" "rule_matches v (k, req, r)"
  shows "chosen v rs = Some r"
proof -
  have "filter (rule_matches v) rs = [(k, req, r)]"
  proof (rule filter_unique)
    show "distinct rs" using assms(1) by (simp add: distinct_map)
    fix y assume y: "y \<in> set rs"
    obtain k' req' r' where y': "y = (k', req', r')" by (cases y)
    have "k' = k \<Longrightarrow> y = (k, req, r)"
      using y y' assms(1,2) eq_key_imp_eq_value [of rs k "(req, r)" "(req', r')"] by auto
    then show "rule_matches v y \<longleftrightarrow> y = (k, req, r)"
      using assms(3) y' by (auto simp: rule_matches_def)
  qed (rule assms(2))
  then show ?thesis by (simp add: chosen_def)
qed

lemma chosen_none: "(\<And>x. x \<in> set rs \<Longrightarrow> \<not> rule_matches v x) \<Longrightarrow> chosen v rs = None"
  by (simp add: chosen_def filter_False)

lemma scored_choice_chosen:
  assumes "aligned c rs"
  shows "\<exists>n. scored_choice v c = Inr (chosen v rs, n) \<and> 0 \<le> n"
proof -
  from assms have dk: "distinct (map fst rs)" and dr: "distinct (map (\<lambda>(k, req, r). r) rs)"
    by (simp_all add: aligned_def)
  from assms obtain config weights w wi where reads:
    "map_of (policy_configs c) ''scored_policy'' = Some config"
    "py_item config ''recipe_weights'' = Inr weights"
    "py_item config ''failure_match_weight'' = Inr w" "py_int w = Inr wi"
    "distinct (map fst (route_recipes c))"
    "set (map fst (route_recipes c)) = (\<lambda>(k, req, r). r) ` set rs"
    "\<forall>x \<in> set rs. recipe_reads c weights x"
    by (auto simp: aligned_def scored_reads_def)
  define ids where "ids = sort (map fst (route_recipes c))"
  have ids: "set ids = (\<lambda>(k, req, r). r) ` set rs" "distinct ids"
    using reads(5,6) by (simp_all add: ids_def)
  have uniq: "x = y" if "x \<in> set rs" "y \<in> set rs" "snd (snd x) = snd (snd y)" for x y
  proof -
    have "inj_on (\<lambda>(k, req, r). r) (set rs)" using dr by (simp add: distinct_map)
    moreover have "(\<lambda>(k, req, r). r) x = (\<lambda>(k, req, r). r) y"
      using that(3) by (simp add: case_prod_beta)
    ultimately show ?thesis using that(1,2) by (rule inj_onD)
  qed
  let ?m = "\<lambda>r. \<exists>k req. (k, req, r) \<in> set rs \<and> rule_matches v (k, req, r)"
  have "\<forall>r \<in> set ids. \<exists>k req. (k, req, r) \<in> set rs \<and> recipe_reads c weights (k, req, r)"
    using ids(1) reads(7) by fastforce
  moreover have "\<forall>k req k' req' r. (k, req, r) \<in> set rs \<longrightarrow> (k', req', r) \<in> set rs \<longrightarrow> k = k' \<and> req = req'"
    using uniq by fastforce
  ultimately obtain more n where loop: "scored_loop v c config weights 0 [] ids = Inr (more, n)"
    "0 \<le> n" "map snd more = filter ?m ids"
    using scored_loop_matches [OF reads(3,4), of ids "set rs" c weights v 0 "[]"] by auto
  have "select_winner more = chosen v rs"
  proof (cases "\<exists>x \<in> set rs. rule_matches v x")
    case True
    then obtain k req r where x: "(k, req, r) \<in> set rs" "rule_matches v (k, req, r)" by auto
    have "filter ?m ids = [r]"
    proof (rule filter_unique [OF ids(2)])
      show "r \<in> set ids" using x ids(1) by force
      fix r' assume "r' \<in> set ids"
      have "r' = r" if "(k', req', r') \<in> set rs" "rule_matches v (k', req', r')" for k' req'
        using chosen_unique [OF dk that] chosen_unique [OF dk x] by simp
      with x show "?m r' \<longleftrightarrow> r' = r" by blast
    qed
    with loop(3) obtain s where "more = [(s, r)]" by (cases more) auto
    then show ?thesis using chosen_unique [OF dk x] by simp
  next
    case False
    then have "filter ?m ids = []" by (auto simp: filter_empty_conv)
    with loop(3) have "more = []" by simp
    moreover have "chosen v rs = None" using False by (intro chosen_none) auto
    ultimately show ?thesis by simp
  qed
  with loop reads(2) lookup_Some [OF reads(1)] show ?thesis
    by (auto simp: scored_choice_def ids_def [symmetric])
qed

lemma arm_choice_chosen:
  assumes "aligned c rs" "map_of (policy_configs c) arm = Some config"
    and "arm \<in> {''closed_rule_table'', ''graph_reducer'', ''scored_policy''}"
  shows "\<exists>n. arm_choice arm v config c = Inr (chosen v rs, n) \<and> 0 \<le> n"
proof -
  consider "arm = ''closed_rule_table''" | "arm = ''graph_reducer''" | "arm = ''scored_policy''"
    using assms(3) by blast
  then show ?thesis
  proof cases
    case 1
    with assms(1,2) ordered_choice_chosen [of _ rs v False] show ?thesis
      by (fastforce simp: aligned_def ordered_reads_def arm_choice_def)
  next
    case 2
    with assms(1,2) ordered_choice_chosen [of _ rs v True] show ?thesis
      by (fastforce simp: aligned_def ordered_reads_def arm_choice_def)
  next
    case 3
    with assms(1) scored_choice_chosen show ?thesis by (simp add: arm_choice_def)
  qed
qed

section \<open>A concrete contract for the witnesses\<close>

definition frozen_baseline :: route_spec where
  "frozen_baseline = sample_route\<lparr>model := ''gpt-daybreak-blue-latest''\<rparr>"

definition frozen_timeout_route :: route_spec where
  "frozen_timeout_route = frozen_baseline\<lparr>route_tactic := ''checkpoint_resume''\<rparr>"

definition sample_rules :: "rule_spec list" where
  "sample_rules =
     [(''timeout'', [''compatible_checkpoint''], ''timeout_checkpoint_resume_v1''),
      (''quota'', [''validated_reset_window''], ''quota_bounded_wait_v1'')]"

definition entry_doc :: "rule_spec \<Rightarrow> pyval" where
  "entry_doc = (\<lambda>(k, req, r). PDict [(''failure_kind'', PStr k), (''recipe_id'', PStr r),
     (''requires_all'', string_list req)])"

definition recipe_doc :: "rule_spec \<Rightarrow> pyval" where
  "recipe_doc = (\<lambda>(k, req, r). PDict [(''changed_axes'', string_list [''tactic'']),
     (''failure_kind'', PStr k), (''required_facts'', string_list req)])"

definition unsealed_contract :: comparison_contract where
  "unsealed_contract =
     \<lparr>arms = POLICY_ARMS,
      policy_configs =
        [(''closed_rule_table'', PDict [(''rules'', PList (map entry_doc sample_rules))]),
         (''graph_reducer'', PDict [(''transitions'', PList (map entry_doc sample_rules))]),
         (''scored_policy'', PDict [(''failure_match_weight'', PInt 1000),
           (''recipe_weights'', PDict [(''timeout_checkpoint_resume_v1'', PInt 104),
             (''quota_bounded_wait_v1'', PInt 106)])])],
      route_recipes = map (\<lambda>x. (snd (snd x), recipe_doc x)) sample_rules,
      route_templates = [(''baseline_v1'', frozen_baseline),
        (''timeout_checkpoint_resume_v1'', frozen_timeout_route)],
      recipe_budgets = PDict [(''timeout_checkpoint_resume_v1'',
        PDict [(''minimum_remaining_milliseconds'', PInt 1000)])],
      authorizing_fact_types = {''compatible_checkpoint''},
      recognized_non_authorizing_fact_types = {},
      policy_config_bytes = [(''closed_rule_table'', PInt 1), (''graph_reducer'', PInt 2),
        (''scored_policy'', PInt 3)],
      integrity_digest = []\<rparr>"

definition sample_contract :: comparison_contract where
  "sample_contract =
     unsealed_contract\<lparr>integrity_digest := observed_integrity_digest (\<lambda>s. s) unsealed_contract\<rparr>"

abbreviation stalled_input :: policy_input where
  "stalled_input \<equiv> sample_input ''timeout'' ''compatible_checkpoint''"

lemma sample_contract_intact [simp]: "validate_integrity (\<lambda>s. s) sample_contract = Inr ()"
  by (simp add: validate_integrity_def sample_contract_def)

lemma sample_aligned: "aligned sample_contract sample_rules"
  by (simp add: aligned_def ordered_reads_def scored_reads_def recipe_reads_def entry_reads_def
      sample_contract_def unsealed_contract_def sample_rules_def entry_doc_def recipe_doc_def)

lemma sample_not_precontained: "precontain stalled_input sample_contract = None"
  by (simp add: precontain_def sample_input_def sample_fact_def fact_types_def FAILURE_KINDS_def
      sample_contract_def unsealed_contract_def SCOPE_def frozen_authority_def frozen_baseline_def
      sample_route_def)

section \<open>Properties\<close>

text \<open>C32. The three selecting arms of the comparison are implementations of one specification: on a
  contract whose rule table, transition graph and scored recipes state the same rules, one per
  failure kind, every arm that is consulted returns, and it returns the recipe of the matching
  rule whose required facts are all present, or no recipe when there is none.\<close>

theorem selecting_arms_agree:
  assumes "aligned c rs" "validate_integrity sha c = Inr ()" "precontain v c = None"
    and "arm \<in> set (arms c)" "arm \<in> {''closed_rule_table'', ''graph_reducer'', ''scored_policy''}"
    and "map_of (policy_config_bytes c) arm = Some nbytes"
  shows "\<exists>ev. evaluate_policy sha arm v c = Inr ev \<and> invoked ev
    \<and> evaluation_recipe ev = chosen v rs \<and> 0 \<le> operation_count ev"
proof -
  obtain config where config: "map_of (policy_configs c) arm = Some config"
    using assms(1,5) by (auto simp: aligned_def ordered_reads_def scored_reads_def)
  with arm_choice_chosen [OF assms(1) config assms(5)] obtain n where
    "arm_choice arm v config c = Inr (chosen v rs, n)" "0 \<le> n" by blast
  with assms(2-4) lookup_Some [OF config] lookup_Some [OF assms(6)] show ?thesis
    by (simp add: evaluate_policy_def)
qed

theorem selecting_arms_agree_witness:
  "\<exists>ev. evaluate_policy (\<lambda>s. s) ''graph_reducer'' stalled_input sample_contract = Inr ev \<and> invoked ev
    \<and> evaluation_recipe ev = Some ''timeout_checkpoint_resume_v1'' \<and> 0 \<le> operation_count ev"
proof -
  have "chosen stalled_input sample_rules = Some ''timeout_checkpoint_resume_v1''"
    by (simp add: chosen_def rule_matches_def sample_rules_def sample_input_def sample_fact_def
        fact_types_def)
  moreover have "''graph_reducer'' \<in> set (arms sample_contract)"
    "map_of (policy_config_bytes sample_contract) ''graph_reducer'' = Some (PInt 2)"
    by (simp_all add: sample_contract_def unsealed_contract_def POLICY_ARMS_def)
  ultimately show ?thesis
    using selecting_arms_agree [OF sample_aligned sample_contract_intact sample_not_precontained]
    by fastforce
qed

text \<open>C31. A comparison route is dispatched only on full authority: the policy was consulted and chose
  the recipe, the recipe's own failure kind is the input's and its required facts are all
  observed, the successor is the frozen template with exactly the frozen changed axes and an
  unused fingerprint (or the unchanged source, for the comparator arm alone), source and successor
  hold the frozen model, effort and effect authority, the recipe's minimum time remains, and no
  unsafe effect or instance is live except for the board recheck.\<close>

theorem authorize_dispatch_sound:
  assumes "authorize sha v ev c = Inr d" "decided d = ''dispatch''"
  shows "\<exists>source target recipe budget m minimum.
    failure_kind v \<noteq> None \<and> invoked ev \<and> evaluation_recipe ev = Some recipe
    \<and> d = dispatch sha v source recipe target (decided_axes d)
    \<and> frozen_authority source \<and> frozen_authority target
    \<and> (if recipe = COMPARATOR then evaluation_arm ev = ''fifo_unchanged'' \<and> target = source
       else map_of (route_templates c) recipe = Some target
         \<and> decided_axes d = changed_axes source target \<and> target \<noteq> source
         \<and> fingerprint sha target \<notin> spent_fingerprints sha v c
         \<and> (\<exists>doc req. map_of (route_recipes c) recipe = Some doc
             \<and> py_item doc ''failure_kind'' = Inr (opt_str (failure_kind v))
             \<and> py_item doc ''required_facts'' = Inr req \<and> py_subset req (fact_types v) = Inr True
             \<and> py_item doc ''changed_axes'' = Inr (string_list (decided_axes d))))
    \<and> py_item (recipe_budgets c) recipe = Inr budget
    \<and> py_item budget ''minimum_remaining_milliseconds'' = Inr m \<and> py_int m = Inr minimum
    \<and> minimum \<le> input_remaining_milliseconds v
    \<and> (input_effects_safe v \<and> input_instances_safe v \<or> recipe = ''board_contract_recheck_v1'')"
proof -
  from assms obtain source target recipe budget axes minimum where *:
    "failure_kind v \<noteq> None" "invoked ev" "evaluation_recipe ev = Some recipe"
    "choose_successor sha v ev c source recipe = Inr (Inr (target, budget, axes))"
    "d = dispatch sha v source recipe target axes"
    "bind_result (py_item budget ''minimum_remaining_milliseconds'') py_int = Inr minimum"
    "minimum \<le> input_remaining_milliseconds v"
    "frozen_authority source" "frozen_authority target"
    "input_effects_safe v \<and> input_instances_safe v \<or> recipe = ''board_contract_recheck_v1''"
    by (rule authorize_dispatch_cases)
  have axes: "decided_axes d = axes" using *(5) by (simp add: dispatch_def)
  from *(6) obtain m where "py_item budget ''minimum_remaining_milliseconds'' = Inr m" "py_int m = Inr minimum"
    by (rule bind_result_InrE)
  moreover note choose_successor_budget [OF *(4)] choose_successor_cases [OF *(4)]
  ultimately show ?thesis
    using *(1-3,5,7-10) unfolding axes
    by (intro exI [of _ source] exI [of _ target] exI [of _ recipe] exI [of _ budget]
        exI [of _ m] exI [of _ minimum]) (auto split: if_splits)
qed

lemma sample_choice:
  "choose_successor (\<lambda>s. s) stalled_input ev sample_contract frozen_baseline ''timeout_checkpoint_resume_v1'' =
     Inr (Inr (frozen_timeout_route, PDict [(''minimum_remaining_milliseconds'', PInt 1000)], [''tactic'']))"
proof -
  have "frozen_timeout_route \<noteq> frozen_baseline"
    by (simp add: frozen_timeout_route_def frozen_baseline_def sample_route_def)
  then have "fingerprint (\<lambda>s. s) frozen_timeout_route \<noteq> fingerprint (\<lambda>s. s) frozen_baseline"
    by (auto simp: fingerprint_def dest: route_json_inject)
  moreover have "changed_axes frozen_baseline frozen_timeout_route = [''tactic'']"
    by (simp add: changed_axes_def frozen_timeout_route_def frozen_baseline_def sample_route_def
        route_dict_def ROUTE_FIELDS_def)
  moreover have "spent_fingerprints (\<lambda>s. s) stalled_input sample_contract = {}"
    by (simp add: spent_fingerprints_def sample_input_def filter_empty_conv)
  moreover have "map_of (route_recipes sample_contract) ''timeout_checkpoint_resume_v1'' =
      Some (recipe_doc (''timeout'', [''compatible_checkpoint''], ''timeout_checkpoint_resume_v1''))"
    "lookup (route_templates sample_contract) ''timeout_checkpoint_resume_v1'' = Inr frozen_timeout_route"
    "recipe_budgets sample_contract = PDict [(''timeout_checkpoint_resume_v1'',
        PDict [(''minimum_remaining_milliseconds'', PInt 1000)])]"
    by (simp_all add: sample_contract_def unsealed_contract_def sample_rules_def lookup_def)
  moreover have "fact_types stalled_input = {''compatible_checkpoint''}"
    "opt_str (failure_kind stalled_input) = PStr ''timeout''"
    by (simp_all add: sample_input_def sample_fact_def fact_types_def opt_str_def)
  ultimately show ?thesis
    by (simp add: choose_successor_def COMPARATOR_def recipe_doc_def string_list_def
        py_subset_def py_hashable_def)
qed

definition stalled_evaluation :: policy_evaluation where
  "stalled_evaluation =
     \<lparr>evaluation_arm = ''closed_rule_table'', invoked = True,
      evaluation_recipe = Some ''timeout_checkpoint_resume_v1'', operation_count = 4,
      policy_config_digest = ''d'', evaluation_config_bytes = PInt 1, precontain_reason = None\<rparr>"

lemma sample_authorized:
  "authorize (\<lambda>s. s) stalled_input stalled_evaluation sample_contract =
     Inr (dispatch (\<lambda>s. s) stalled_input frozen_baseline ''timeout_checkpoint_resume_v1''
       frozen_timeout_route [''tactic''])"
proof -
  have "map_of (route_templates sample_contract) (current_route_id stalled_input) = Some frozen_baseline"
    by (simp add: sample_contract_def unsealed_contract_def sample_input_def)
  moreover have "frozen_authority frozen_timeout_route" "model frozen_timeout_route = model frozen_baseline"
    "effort frozen_timeout_route = effort frozen_baseline"
    "effect_policy frozen_timeout_route = effect_policy frozen_baseline"
    by (simp_all add: frozen_authority_def frozen_timeout_route_def frozen_baseline_def sample_route_def)
  moreover have "failure_kind stalled_input = Some ''timeout''" "input_effects_safe stalled_input"
    "input_instances_safe stalled_input" "input_remaining_milliseconds stalled_input = 60000"
    by (simp_all add: sample_input_def)
  ultimately show ?thesis
    by (simp add: authorize_def stalled_evaluation_def sample_choice)
qed

theorem authorize_dispatch_sound_witness:
  "invoked stalled_evaluation
     \<and> evaluation_recipe stalled_evaluation = Some ''timeout_checkpoint_resume_v1''"
  using authorize_dispatch_sound [OF sample_authorized not_dispatched(3)]
  by (auto simp: dispatch_def)

text \<open>Pre-containment is final: when the input is contained before the policy is consulted, every
  arm, the comparator included, reports no recipe and no operations, and the authorisation of its
  evaluation never dispatches.\<close>

theorem precontained_never_dispatched:
  assumes "evaluate_policy sha arm v c = Inr ev" "precontain v c = Some why"
    and "authorize sha v ev c = Inr d"
  shows "\<not> invoked ev \<and> operation_count ev = 0 \<and> evaluation_recipe ev = None
    \<and> precontain_reason ev = Some why \<and> decided d \<noteq> ''dispatch''"
  using precontained_evaluation [OF assms(1,2)] authorize_dispatch_cases [OF assms(3)] by blast

theorem precontained_never_dispatched_witness:
  "\<exists>ev d. evaluate_policy (\<lambda>s. s) ''closed_rule_table'' (stalled_input\<lparr>input_attempts_remaining := False\<rparr>)
       sample_contract = Inr ev
     \<and> authorize (\<lambda>s. s) (stalled_input\<lparr>input_attempts_remaining := False\<rparr>) ev sample_contract = Inr d
     \<and> decided d \<noteq> ''dispatch''"
proof -
  let ?v = "stalled_input\<lparr>input_attempts_remaining := False\<rparr>"
  have why: "precontain ?v sample_contract = Some ''episode_budget_exhausted''"
    by (simp add: precontain_def sample_input_def sample_fact_def fact_types_def FAILURE_KINDS_def
        sample_contract_def unsealed_contract_def SCOPE_def)
  have "''closed_rule_table'' \<in> set (arms sample_contract)"
    "\<exists>x. lookup (policy_configs sample_contract) ''closed_rule_table'' = Inr x"
    "\<exists>x. lookup (policy_config_bytes sample_contract) ''closed_rule_table'' = Inr x"
    by (simp_all add: sample_contract_def unsealed_contract_def POLICY_ARMS_def lookup_def)
  with why obtain ev where ev: "evaluate_policy (\<lambda>s. s) ''closed_rule_table'' ?v sample_contract = Inr ev"
    by (auto simp: evaluate_policy_def)
  have "map_of (route_templates sample_contract) (current_route_id ?v) = Some frozen_baseline"
    by (simp add: sample_contract_def unsealed_contract_def sample_input_def)
  moreover have "\<not> invoked ev" using precontained_evaluation [OF ev why] by simp
  ultimately obtain d where d: "authorize (\<lambda>s. s) ?v ev sample_contract = Inr d"
    by (cases "failure_kind stalled_input = None") (auto simp: authorize_def)
  from precontained_never_dispatched [OF ev why d] ev d show ?thesis by blast
qed

definition sample_parent :: pyval where
  "sample_parent = PDict
     [(''arms'', string_list POLICY_ARMS), (''cases'', PNone), (''common_authority_gate'', PNone),
      (''common_config'', PNone), (''disabled_surfaces'', PNone), (''evaluator_contract'', PNone),
      (''fact_types'', string_list []), (''failure_subreason_by_case'', PNone),
      (''fifo_comparator_contract'', PNone), (''fixture_execution'', PNone),
      (''fixture_manifest'', PNone), (''fixture_payload_defaults'', PNone),
      (''fixture_payload_overrides'', PNone),
      (''frozen_digests'', PDict [(''cases'', PStr ''d''), (''common_config'', PStr ''d''),
         (''evaluation_contract'', PStr ''d''), (''fixture_payload'', PStr ''d''),
         (''policy_configs'', PStr ''d''), (''recipe_budgets'', PStr ''d''),
         (''route_recipes'', PStr ''d''), (''route_templates'', PStr ''d'')]),
      (''observation_fields'', PNone), (''observation_schema'', PNone),
      (''policy_configs'', PDict []), (''prerequisite_status'', PNone),
      (''protocol_id'', PStr ''issue-19-routing-comparison-v1''), (''raw_derivation_contract'', PNone),
      (''recipe_budgets'', PDict []), (''required_measurement_tests'', PNone),
      (''result_provenance_contract'', PNone), (''route_recipes'', PDict []),
      (''route_templates'', PDict [(''baseline_v1'', canonical_value (route_as_dict sample_route))]),
      (''selection_gate'', PNone), (''tamper_gates'', PNone)]"

definition sample_operation :: pyval where
  "sample_operation = PDict
     [(''canonical_config_bytes'', PDict [(''expected_by_arm'', PDict [])]),
      (''parent_protocol_sha256'', PStr PARENT_PROTOCOL_SHA256),
      (''policy_invocation_contract'', PDict [(''input_derived_predicate'',
         PDict [(''recognized_non_authorizing_fact_types'', string_list [])])]),
      (''protocol_id'', PStr ''issue-19-routing-operation-count-v1'')]"

lemma canonical_route:
  "canonical_value (route_as_dict r) = PDict (sort_key fst (route_dict r))"
proof -
  have "\<forall>kv \<in> set (route_dict r). canonical_value (snd kv) = snd kv"
    by (simp add: route_dict_def)
  then show ?thesis
    by (auto simp: route_as_dict_def intro!: map_idI) (metis snd_conv)
qed

lemma canonical_route_again [simp]:
  "canonical_value (canonical_value (route_as_dict r)) = canonical_value (route_as_dict r)"
proof -
  have "\<forall>kv \<in> set (route_dict r). canonical_value (snd kv) = snd kv"
    by (simp add: route_dict_def)
  then show ?thesis
    by (auto simp: canonical_route sort_key_id_if_sorted intro!: map_idI) (metis snd_conv)
qed

lemma canonical_route_read:
  assumes "route_valid r"
  shows "route_from_dict (canonical_value (route_as_dict r)) = Inr r"
proof -
  have "distinct (map fst (route_dict r))" by (simp add: route_dict_def)
  then have "map_of (sort_key fst (route_dict r)) = map_of (route_dict r)"
    by (subst map_of_inject_set) (simp_all add: distinct_map)
  then have "dict_get (sort_key fst (route_dict r)) = dict_get (route_dict r)"
    "keys_are (sort_key fst (route_dict r)) ks = keys_are (route_dict r) ks" for ks
    by (simp_all add: dict_get_def fun_eq_iff keys_are_def)
  then have "route_from_dict (PDict (sort_key fst (route_dict r))) = route_from_dict (route_as_dict r)"
    by (simp add: route_from_dict_def route_as_dict_def)
  with route_doc.dec_enc [OF assms] show ?thesis by (simp add: canonical_route)
qed

lemma sample_parent_canonical: "canonical_value sample_parent = sample_parent"
  by (simp add: sample_parent_def string_list_def POLICY_ARMS_def del: canonical_value.simps(7))
    (simp add: canonical_value.simps(7))

lemma sample_operation_canonical: "canonical_value sample_operation = sample_operation"
  by (simp add: sample_operation_def string_list_def)

lemma sample_digests: "validate_parent_digests (\<lambda>_. ''d'') sample_parent = Inr ()"
  by (simp add: validate_parent_digests_def sample_parent_def pick_items_def FIXTURE_KEYS_def
      EVALUATION_KEYS_def digest_of_def)

lemma sample_documents_accepted:
  "\<exists>c. contract_from_documents (\<lambda>_. ''d'') sample_parent sample_operation = Inr c"
proof -
  have parent: "is_dict sample_parent" "dict_field sample_parent ''protocol_id'' = PStr ''issue-19-routing-comparison-v1''"
    "py_item sample_parent ''policy_configs'' = Inr (PDict [])"
    "py_item sample_parent ''route_templates'' =
       Inr (PDict [(''baseline_v1'', canonical_value (route_as_dict sample_route))])"
    "py_item sample_parent ''route_recipes'' = Inr (PDict [])"
    "py_item sample_parent ''recipe_budgets'' = Inr (PDict [])"
    "py_item sample_parent ''arms'' = Inr (string_list POLICY_ARMS)"
    "py_item sample_parent ''fact_types'' = Inr (string_list [])"
    by (simp_all add: sample_parent_def is_dict_def dict_field_def)
  have operation: "is_dict sample_operation"
    "dict_field sample_operation ''protocol_id'' = PStr ''issue-19-routing-operation-count-v1''"
    "dict_field sample_operation ''parent_protocol_sha256'' = PStr PARENT_PROTOCOL_SHA256"
    "py_item sample_operation ''canonical_config_bytes'' = Inr (PDict [(''expected_by_arm'', PDict [])])"
    "py_item sample_operation ''policy_invocation_contract'' = Inr (PDict [(''input_derived_predicate'',
         PDict [(''recognized_non_authorizing_fact_types'', string_list [])])])"
    by (simp_all add: sample_operation_def is_dict_def dict_field_def)
  have templates: "read_template (''baseline_v1'', canonical_value (route_as_dict sample_route)) =
      Inr (''baseline_v1'', sample_route)"
    by (simp add: read_template_def canonical_route_read)
  show ?thesis
    unfolding contract_from_documents_def Let_def sample_parent_canonical sample_operation_canonical
    by (simp add: parent operation sample_digests config_sizes_def templates lookup_def
        string_list_def fact_type_set_def)
qed

text \<open>A contract is accepted only intact: whatever pair of documents the reader accepts, the
  contract passes its own integrity check, has exactly the four arms, sizes its policy
  configurations as the operation document says, holds valid routes with a baseline among them,
  and every recipe has a template that differs from the baseline in exactly the recipe's axes.\<close>

theorem accepted_contract_intact:
  assumes "contract_from_documents sha parent operation = Inr c"
  shows "validate_integrity sha c = Inr () \<and> arms c = POLICY_ARMS
    \<and> config_sizes (policy_configs c) = PDict (policy_config_bytes c)
    \<and> (\<forall>(k, r) \<in> set (route_templates c). route_valid r)
    \<and> (\<exists>baseline. map_of (route_templates c) ''baseline_v1'' = Some baseline
        \<and> (\<forall>(k, recipe) \<in> set (route_recipes c). \<exists>t. map_of (route_templates c) k = Some t
            \<and> py_item recipe ''changed_axes'' = Inr (string_list (changed_axes baseline t))))"
proof -
  from assms obtain baseline kvs where *:
    "validate_integrity sha c = Inr ()" "arms c = POLICY_ARMS"
    "map_of (route_templates c) ''baseline_v1'' = Some baseline"
    "\<forall>kr \<in> set (route_recipes c). recipe_axes_ok (route_templates c) baseline kr"
    "traverse read_template kvs = Inr (route_templates c)"
    "config_sizes (policy_configs c) = PDict (policy_config_bytes c)"
    by (rule contract_from_documents_cases)
  from *(4) have "\<forall>(k, recipe) \<in> set (route_recipes c). \<exists>t. map_of (route_templates c) k = Some t
      \<and> py_item recipe ''changed_axes'' = Inr (string_list (changed_axes baseline t))"
    by (auto simp: recipe_axes_ok_def)
  with * read_template_valid [OF *(5)] show ?thesis by simp
qed

theorem accepted_contract_intact_witness:
  "\<exists>c. contract_from_documents (\<lambda>_. ''d'') sample_parent sample_operation = Inr c \<and> arms c = POLICY_ARMS"
  using sample_documents_accepted accepted_contract_intact by blast

end
