(* ===== verification/Comparison_Store.thy ===== *)
theory Comparison_Store
  imports Control_Catalogue Routing_Comparison
begin

text \<open>
  The recorded comparison of routing policies in \<open>src/rapido/state.py\<close>: public facts and used routes
  are committed to the control log, a wave is closed, compared and continued in one transaction that
  touches nothing outside the control plane, and a recorded decision is replayed from its durable
  inputs and compared with every column and every log entry it left. The policies are those of
  \<open>src/rapido/routing_policy.py\<close>.
\<close>

section \<open>Traces\<close>

definition OPERATION_PROTOCOL_SHA256 :: string where
  "OPERATION_PROTOCOL_SHA256 = ''c7e5147fbe9d4367b9f4bc40850faf3011c50d0d586ee22a69f3d792726e75bf''"

text \<open>A contract with the digests of the two protocols it was read from.\<close>

record frozen_contract =
  fz_contract :: comparison_contract
  fz_parent :: string
  fz_operation :: string

record comparison_trace =
  tr_sequence :: "nat option"
  tr_facts :: "nat list"
  tr_evaluation :: policy_evaluation
  tr_decision :: comparison_decision
  tr_digest :: string

definition decision_value :: "comparison_decision \<Rightarrow> pyval" where
  "decision_value x =
     PDict [(''disposition'', PStr (decided x)), (''failure_kind'', opt_str (decided_kind x)),
       (''failure_subreason'', opt_str (decided_subreason x)), (''recipe_id'', opt_str (decided_recipe x)),
       (''source_fingerprint'', PStr (source_fp x)), (''successor_fingerprint'', opt_str (successor_fp x)),
       (''successor'', case decided_successor x of None \<Rightarrow> PNone | Some r \<Rightarrow> route_as_dict r),
       (''changed_axes'', string_list (decided_axes x)), (''reason'', PStr (decided_reason x))]"

definition evaluation_value :: "policy_evaluation \<Rightarrow> pyval" where
  "evaluation_value x =
     PDict [(''arm'', PStr (evaluation_arm x)), (''invoked'', PBool (invoked x)), (''recipe_id'', opt_str (evaluation_recipe x)),
       (''operation_count'', PInt (operation_count x)), (''policy_config_digest'', PStr (policy_config_digest x)),
       (''policy_config_bytes'', evaluation_config_bytes x), (''precontain_reason'', opt_str (precontain_reason x))]"

definition trace_of ::
  "digest_fn \<Rightarrow> nat option \<Rightarrow> nat list \<Rightarrow> policy_evaluation \<Rightarrow> comparison_decision \<Rightarrow> comparison_trace" where
  "trace_of sha seq fs ev dec =
     \<lparr>tr_sequence = seq, tr_facts = fs, tr_evaluation = ev, tr_decision = dec,
      tr_digest = digest_of sha (PDict [(''decision'', decision_value dec), (''evaluation'', evaluation_value ev)])\<rparr>"

section \<open>Facts and used routes\<close>

definition tx_read :: "(db \<Rightarrow> 'a result) \<Rightarrow> 'a tx" where
  "tx_read f d = bind_result (f d) (\<lambda>x. Inr (x, d))"

fun tx_collect :: "('a \<Rightarrow> 'b tx) \<Rightarrow> 'a list \<Rightarrow> 'b list tx" where
  "tx_collect f [] = tx_return []"
| "tx_collect f (x # xs) = tx_bind (f x) (\<lambda>y. tx_bind (tx_collect f xs) (\<lambda>ys. tx_return (y # ys)))"

definition set_event_data :: "nat \<Rightarrow> pyval \<Rightarrow> db \<Rightarrow> db" where
  "set_event_data seq data d =
     d\<lparr>control_events := (control_events d)[seq - 1 := (control_events d ! (seq - 1))\<lparr>ce_data := data\<rparr>]\<rparr>"

definition used_route_body :: "digest_fn \<Rightarrow> string \<Rightarrow> int \<Rightarrow> route_spec \<Rightarrow> unit tx" where
  "used_route_body sha run c r =
     tx_bind (insert_control_event run ''comparison_used_route_recorded'' None
       (PDict [(''challenge_id'', PInt c), (''route_fingerprint'', PStr (fingerprint sha r))])) (\<lambda>seq.
     tx_bind (insert_route sha run c 0 r) (\<lambda>inserted.
     tx_bind (tx_check (ensure inserted (ValueError ''comparison used route was already present''))) (\<lambda>_.
     tx_modify (set_event_data seq (PDict [(''challenge_id'', PInt c), (''route_fingerprint'', PStr (fingerprint sha r)),
       (''route_recorded'', PBool True)])))))"

definition record_comparison_used_route :: "digest_fn \<Rightarrow> string \<Rightarrow> int \<Rightarrow> route_spec \<Rightarrow> db \<Rightarrow> unit result \<times> db" where
  "record_comparison_used_route sha run c r = transaction (used_route_body sha run c r)"

definition fact_items :: "route_fact \<Rightarrow> (string \<times> pyval) list" where
  "fact_items f = (case fact_as_dict f of PDict kvs \<Rightarrow> kvs | _ \<Rightarrow> [])"

definition fact_event_value :: "int \<Rightarrow> int \<Rightarrow> route_fact \<Rightarrow> pyval" where
  "fact_event_value c ep f = PDict ([(''challenge_id'', PInt c), (''episode'', PInt ep)] @ fact_items f)"

definition in_fact_wave :: "string \<Rightarrow> int \<Rightarrow> int \<Rightarrow> fact_row \<Rightarrow> bool" where
  "in_fact_wave run c ep x \<longleftrightarrow> cf_run x = run \<and> cf_challenge x = c \<and> cf_episode x = ep"

definition insert_fact :: "fact_row \<Rightarrow> unit tx" where
  "insert_fact r d =
     bind_result (unique_key (\<forall>x \<in> set (comparison_facts d). cf_sequence x \<noteq> cf_sequence r
       \<and> \<not> (in_fact_wave (cf_run r) (cf_challenge r) (cf_episode r) x \<and> cf_fact_id x = cf_fact_id r))) (\<lambda>_.
     bind_result (foreign_key (has_run d (cf_run r) \<and> has_challenge d (cf_challenge r)
       \<and> 1 \<le> cf_sequence r \<and> cf_sequence r \<le> length (control_events d))) (\<lambda>_.
     Inr ((), d\<lparr>comparison_facts := comparison_facts d @ [r]\<rparr>)))"

definition record_fact :: "string \<Rightarrow> int \<Rightarrow> int \<Rightarrow> string \<Rightarrow> route_fact \<Rightarrow> nat tx" where
  "record_fact run c ep digest f =
     tx_bind (insert_control_event run ''comparison_route_fact_recorded'' None (fact_event_value c ep f)) (\<lambda>seq.
     tx_bind (insert_fact \<lparr>cf_sequence = seq, cf_run = run, cf_challenge = c, cf_episode = ep, cf_fact_id = fact_id f,
       cf_type = fact_type f, cf_scope = fact_scope f, cf_value = fact_value f, cf_event = event_sequence f,
       cf_origin = ''comparison_fixture'', cf_protocol = digest\<rparr>) (\<lambda>_.
     tx_return seq))"

definition record_comparison_route_facts ::
  "string \<Rightarrow> int \<Rightarrow> int \<Rightarrow> route_fact list \<Rightarrow> string \<Rightarrow> db \<Rightarrow> nat list result \<times> db" where
  "record_comparison_route_facts run c ep fs digest d =
     (let order = map fact_key fs in
      if digest \<noteq> PARENT_PROTOCOL_SHA256 then (Inl (ValueError ''comparison fact protocol binding is invalid''), d)
      else if order \<noteq> sort order \<or> card (set order) \<noteq> length order
      then (Inl (ValueError ''comparison fact order is invalid''), d)
      else transaction (tx_collect (record_fact run c ep digest) fs) d)"

section \<open>The facts a policy input rests on\<close>

definition event_at :: "db \<Rightarrow> nat \<Rightarrow> control_event option" where
  "event_at d seq = (if 1 \<le> seq \<and> seq \<le> length (control_events d) then Some (control_events d ! (seq - 1)) else None)"

definition fact_rows :: "db \<Rightarrow> string \<Rightarrow> int \<Rightarrow> int \<Rightarrow> (fact_row \<times> control_event) list" where
  "fact_rows d run c ep =
     concat (map (\<lambda>r. case event_at d (cf_sequence r) of None \<Rightarrow> [] | Some e \<Rightarrow> [(r, e)])
       (sort_key cf_event (sort_key cf_fact_id (filter (in_fact_wave run c ep) (comparison_facts d)))))"

definition fact_of_row :: "fact_row \<Rightarrow> route_fact" where
  "fact_of_row r = \<lparr>fact_id = cf_fact_id r, fact_type = cf_type r, fact_scope = cf_scope r, fact_value = cf_value r,
     event_sequence = cf_event r\<rparr>"

definition check_fact :: "frozen_contract \<Rightarrow> int \<Rightarrow> int \<Rightarrow> (fact_row \<times> control_event) \<times> route_fact \<Rightarrow> unit result" where
  "check_fact z c ep = (\<lambda>((r, e), f).
     bind_result (ensure (cf_origin r = ''comparison_fixture'' \<and> cf_protocol r = fz_parent z)
       (ValueError ''comparison fact protocol binding is invalid'')) (\<lambda>_.
     ensure (fact_as_dict (fact_of_row r) = fact_as_dict f \<and> ce_kind e = ''comparison_route_fact_recorded''
         \<and> canonical_value (ce_data e) = canonical_value (fact_event_value c ep f))
       (ValueError ''comparison fact host binding does not match policy input'')))"

definition comparison_fact_rows ::
  "db \<Rightarrow> string \<Rightarrow> int \<Rightarrow> int \<Rightarrow> policy_input \<Rightarrow> frozen_contract \<Rightarrow> fact_row list result" where
  "comparison_fact_rows d run c ep v z =
     (let rows = fact_rows d run c ep in
      bind_result (ensure (length rows = length (facts v)) (ValueError ''comparison fact host binding is incomplete'')) (\<lambda>_.
      bind_result (traverse (check_fact z c ep) (zip rows (facts v))) (\<lambda>_.
      Inr (map fst rows))))"

definition comparison_source_route :: "db \<Rightarrow> string \<Rightarrow> int \<Rightarrow> int \<Rightarrow> route_spec result" where
  "comparison_source_route d run c ep =
     (case remdups (concat (map (\<lambda>j. case route_of_job d j of None \<Rightarrow> [] | Some r \<Rightarrow> [rt_document r])
            (filter (in_wave run c ep) (control_jobs d)))) of
        [document] \<Rightarrow> (case route_from_dict document of
            Inl _ \<Rightarrow> Inl (ValueError ''comparison source route is invalid'') | Inr r \<Rightarrow> Inr r)
      | _ \<Rightarrow> Inl (ValueError ''comparison source wave has no unique route''))"

section \<open>Comparing and recording\<close>

text \<open>The recipe ids of the input in a fixed order; the order only matters for which missing template is reported.\<close>

definition used_templates :: "policy_input \<Rightarrow> frozen_contract \<Rightarrow> route_spec list result" where
  "used_templates v z = traverse (lookup (route_templates (fz_contract z))) (sorted_list_of_set (used_recipe_ids v))"

definition challenge_routes :: "db \<Rightarrow> string \<Rightarrow> int \<Rightarrow> route_row list" where
  "challenge_routes d run c = filter (\<lambda>x. rt_run x = run \<and> rt_challenge x = c) (control_routes d)"

definition check_source :: "digest_fn \<Rightarrow> db \<Rightarrow> string \<Rightarrow> int \<Rightarrow> int \<Rightarrow> policy_input \<Rightarrow> frozen_contract \<Rightarrow> unit result" where
  "check_source sha d run c ep v z =
     bind_result (comparison_source_route d run c ep) (\<lambda>source.
     bind_result (ensure (case map_of (route_templates (fz_contract z)) (current_route_id v) of
          None \<Rightarrow> False | Some r \<Rightarrow> fingerprint sha source = fingerprint sha r)
        (ValueError ''comparison source route does not match policy input'')) (\<lambda>_.
     bind_result (used_templates v z) (\<lambda>used.
     ensure (set (map rt_fingerprint (challenge_routes d run c)) - {fingerprint sha source} = fingerprint sha ` set used)
       (ValueError ''comparison used routes do not match policy input''))))"

definition compare_policy ::
  "digest_fn \<Rightarrow> string \<Rightarrow> policy_input \<Rightarrow> frozen_contract \<Rightarrow> (policy_evaluation \<times> comparison_decision) result" where
  "compare_policy sha arm v z =
     bind_result (evaluate_policy sha arm v (fz_contract z)) (\<lambda>ev.
     bind_result (authorize sha v ev (fz_contract z)) (\<lambda>dec. Inr (ev, dec)))"

definition decision_event_value :: "int \<Rightarrow> int \<Rightarrow> comparison_decision \<Rightarrow> pyval" where
  "decision_event_value c ep x =
     PDict [(''challenge_id'', PInt c), (''changed_axes'', string_list (decided_axes x)), (''disposition'', PStr (decided x)),
       (''failure_kind'', opt_str (decided_kind x)), (''failure_subreason'', opt_str (decided_subreason x)),
       (''recipe_id'', opt_str (decided_recipe x)), (''source_episode'', PInt ep),
       (''source_route_fingerprint'', PStr (source_fp x)), (''successor_route_fingerprint'', opt_str (successor_fp x))]"

definition comparison_row_of ::
  "digest_fn \<Rightarrow> nat \<Rightarrow> string \<Rightarrow> int \<Rightarrow> int \<Rightarrow> string \<Rightarrow> policy_input \<Rightarrow> frozen_contract \<Rightarrow> comparison_trace \<Rightarrow> int \<Rightarrow> comparison_row" where
  "comparison_row_of sha seq run c ep arm v z tr nbytes =
     (let ev = tr_evaluation tr; x = tr_decision tr in
      \<lparr>cd_sequence = seq, cd_run = run, cd_challenge = c, cd_episode = ep, cd_arm = arm,
       cd_config_digest = policy_config_digest ev, cd_input = input_as_dict v, cd_input_digest = input_digest sha v,
       cd_kind = decided_kind x, cd_subreason = decided_subreason x, cd_disposition = decided x, cd_recipe = decided_recipe x,
       cd_source = source_fp x, cd_successor = successor_fp x, cd_axes = string_list (decided_axes x),
       cd_operations = operation_count ev, cd_config_bytes = nbytes, cd_metadata = source_fact_digest sha v,
       cd_protocol = fz_parent z, cd_operation_protocol = fz_operation z, cd_decision = decision_value x,
       cd_digest = tr_digest tr\<rparr>)"

definition insert_comparison :: "comparison_row \<Rightarrow> unit tx" where
  "insert_comparison r d =
     bind_result (unique_key (\<forall>x \<in> set (comparison_decisions d). cd_sequence x \<noteq> cd_sequence r
       \<and> \<not> (cd_run x = cd_run r \<and> cd_challenge x = cd_challenge r \<and> cd_episode x = cd_episode r))) (\<lambda>_.
     bind_result (ensure (cd_disposition r \<in> {''contain'', ''dispatch''}) (IntegrityError ''CHECK constraint failed'')) (\<lambda>_.
     bind_result (foreign_key (has_run d (cd_run r) \<and> has_challenge d (cd_challenge r)
       \<and> 1 \<le> cd_sequence r \<and> cd_sequence r \<le> length (control_events d))) (\<lambda>_.
     Inr ((), d\<lparr>comparison_decisions := comparison_decisions d @ [r]\<rparr>))))"

definition insert_link :: "link_row \<Rightarrow> unit tx" where
  "insert_link r d =
     bind_result (unique_key (\<forall>x \<in> set (comparison_links d). lk_decision x = lk_decision r
       \<longrightarrow> lk_ordinal x \<noteq> lk_ordinal r \<and> lk_fact x \<noteq> lk_fact r)) (\<lambda>_.
     bind_result (foreign_key (lk_decision r \<in> set (map cd_sequence (comparison_decisions d))
       \<and> lk_fact r \<in> set (map cf_sequence (comparison_facts d)))) (\<lambda>_.
     Inr ((), d\<lparr>comparison_links := comparison_links d @ [r]\<rparr>)))"

definition record_comparison ::
  "digest_fn \<Rightarrow> string \<Rightarrow> int \<Rightarrow> int \<Rightarrow> string \<Rightarrow> policy_input \<Rightarrow> frozen_contract \<Rightarrow> comparison_trace \<Rightarrow> nat tx" where
  "record_comparison sha run c ep arm v z tr =
     tx_bind (insert_control_event run ''comparison_failure_route_decision'' None
       (decision_event_value c ep (tr_decision tr))) (\<lambda>seq.
     tx_bind (tx_read (\<lambda>_. py_int (evaluation_config_bytes (tr_evaluation tr)))) (\<lambda>nbytes.
     tx_bind (insert_comparison (comparison_row_of sha seq run c ep arm v z tr nbytes)) (\<lambda>_.
     tx_bind (tx_each (\<lambda>(i, fact). insert_link \<lparr>lk_decision = seq, lk_fact = fact, lk_ordinal = i\<rparr>)
       (enumerate 0 (tr_facts tr))) (\<lambda>_.
     tx_return seq))))"

definition admit_compared ::
  "digest_fn \<Rightarrow> string \<Rightarrow> int \<Rightarrow> int \<Rightarrow> int \<Rightarrow> nat \<Rightarrow> string \<Rightarrow> comparison_decision \<Rightarrow> unit tx" where
  "admit_compared sha run c next_ep rank lanes arm x =
     (if decided x \<noteq> ''dispatch'' then tx_return ()
      else case decided_successor x of
        None \<Rightarrow> (\<lambda>d. Inl (AssertionError ''comparison dispatch has no successor''))
      | Some r \<Rightarrow> admit_wave sha run c next_ep rank lanes r None (arm \<noteq> ''fifo_unchanged''))"

definition compare_wave ::
  "digest_fn \<Rightarrow> string \<Rightarrow> int \<Rightarrow> int \<Rightarrow> int \<Rightarrow> int \<Rightarrow> nat \<Rightarrow> policy_input \<Rightarrow> string \<Rightarrow> frozen_contract \<Rightarrow> comparison_trace tx" where
  "compare_wave sha run c ep next_ep rank lanes v arm z =
     tx_bind (tx_read (\<lambda>d. comparison_fact_rows d run c ep v z)) (\<lambda>rows.
     tx_bind (tx_read (\<lambda>d. check_source sha d run c ep v z)) (\<lambda>_.
     tx_bind (tx_read (\<lambda>_. compare_policy sha arm v z)) (\<lambda>(ev, x).
     tx_bind (finish_wave run c ep (if decided x = ''no_route'' then ''completed'' else ''error'')) (\<lambda>_.
     let tr = trace_of sha None (map cf_sequence rows) ev x in
     if decided x = ''no_route'' then tx_return tr
     else tx_bind (record_comparison sha run c ep arm v z tr) (\<lambda>seq.
       tx_bind (admit_compared sha run c next_ep rank lanes arm x) (\<lambda>_.
       tx_return (tr\<lparr>tr_sequence := Some seq\<rparr>)))))))"

definition finish_and_compare_control_wave ::
  "digest_fn \<Rightarrow> string \<Rightarrow> int \<Rightarrow> int \<Rightarrow> int \<Rightarrow> int \<Rightarrow> nat \<Rightarrow> policy_input \<Rightarrow> string \<Rightarrow> frozen_contract \<Rightarrow> db
     \<Rightarrow> comparison_trace result \<times> db" where
  "finish_and_compare_control_wave sha run c ep next_ep rank lanes v arm z d =
     (if fz_parent z \<noteq> PARENT_PROTOCOL_SHA256 \<or> fz_operation z \<noteq> OPERATION_PROTOCOL_SHA256
      then (Inl (ValueError ''comparison contract protocol binding is invalid''), d)
      else if next_ep \<noteq> ep + 1 \<or> rank \<noteq> 1 \<or> lanes \<noteq> 2
      then (Inl (ValueError ''comparison admission shape differs from the frozen fixture''), d)
      else transaction (compare_wave sha run c ep next_ep rank lanes v arm z) d)"

section \<open>Replaying a recorded decision\<close>

definition replay_links :: "db \<Rightarrow> nat \<Rightarrow> nat list \<Rightarrow> unit result" where
  "replay_links d seq fs =
     (let links = sort_key lk_ordinal (filter (\<lambda>x. lk_decision x = seq) (comparison_links d)) in
      ensure (map lk_ordinal links = [0..<length fs] \<and> map lk_fact links = fs) (ValueError ''comparison replay fact links changed''))"

definition replay_event :: "db \<Rightarrow> comparison_row \<Rightarrow> comparison_decision \<Rightarrow> unit result" where
  "replay_event d row x =
     (case event_at d (cd_sequence row) of
        None \<Rightarrow> Inl (ValueError ''comparison replay decision event is absent'')
      | Some e \<Rightarrow> ensure (ce_run e = cd_run row \<and> ce_kind e = ''comparison_failure_route_decision'' \<and> ce_job e = None
            \<and> canonical_value (ce_data e) = canonical_value (decision_event_value (cd_challenge row) (cd_episode row) x))
          (ValueError ''comparison replay decision event changed''))"

text \<open>The dictionary of expected routes by fingerprint, the latest entry first.\<close>

definition expected_routes :: "digest_fn \<Rightarrow> policy_input \<Rightarrow> frozen_contract \<Rightarrow> comparison_decision \<Rightarrow> (string \<times> route_spec) list result" where
  "expected_routes sha v z x =
     bind_result (lookup (route_templates (fz_contract z)) (current_route_id v)) (\<lambda>source.
     bind_result (used_templates v z) (\<lambda>used.
     bind_result (if decided x \<noteq> ''dispatch'' then Inr []
        else case decided_successor x of None \<Rightarrow> Inl (ValueError ''comparison replay successor is absent'') | Some r \<Rightarrow> Inr [r]) (\<lambda>more.
     Inr (rev (map (\<lambda>r. (fingerprint sha r, r)) (source # used @ more))))))"

definition replay_routes :: "db \<Rightarrow> comparison_row \<Rightarrow> (string \<times> route_spec) list \<Rightarrow> unit result" where
  "replay_routes d row expected =
     (let observed = rev (map (\<lambda>r. (rt_fingerprint r, rt_document r)) (challenge_routes d (cd_run row) (cd_challenge row))) in
      bind_result (ensure (set (map fst observed) = set (map fst expected)) (ValueError ''comparison replay route set changed'')) (\<lambda>_.
      ensure (\<forall>fp \<in> set (map fst expected).
           map_option json_dumps (map_of observed fp) = map_option (\<lambda>r. json_dumps (route_as_dict r)) (map_of expected fp))
        (ValueError ''comparison replay route changed'')))"

definition replay_lanes :: "db \<Rightarrow> comparison_row \<Rightarrow> comparison_decision \<Rightarrow> unit result" where
  "replay_lanes d row x =
     (let jobs = sort_key jb_lane (filter (in_wave (cd_run row) (cd_challenge row) (cd_episode row + 1)) (control_jobs d)) in
      if decided x = ''dispatch''
      then ensure (map jb_lane jobs = [0, 1] \<and> list_all (\<lambda>j. Some (jb_fingerprint j) = successor_fp x) jobs)
        (ValueError ''comparison replay successor admission changed'')
      else ensure (jobs = []) (ValueError ''comparison replay has an unauthorized successor admission''))"

definition replay_agrees ::
  "digest_fn \<Rightarrow> comparison_row \<Rightarrow> policy_input \<Rightarrow> comparison_trace \<Rightarrow> bool" where
  "replay_agrees sha row v tr \<longleftrightarrow>
     (let ev = tr_evaluation tr; x = tr_decision tr in
      policy_config_digest ev = cd_config_digest row \<and> operation_count ev = cd_operations row
      \<and> py_int (evaluation_config_bytes ev) = Inr (cd_config_bytes row) \<and> source_fact_digest sha v = cd_metadata row
      \<and> decided_kind x = cd_kind row \<and> decided_subreason x = cd_subreason row \<and> decided x = cd_disposition row
      \<and> decided_recipe x = cd_recipe row \<and> source_fp x = cd_source row \<and> successor_fp x = cd_successor row
      \<and> json_dumps (string_list (decided_axes x)) = json_dumps (cd_axes row)
      \<and> json_dumps (decision_value x) = json_dumps (cd_decision row) \<and> tr_digest tr = cd_digest row)"

definition replay_comparison_route_decision ::
  "digest_fn \<Rightarrow> db \<Rightarrow> nat option \<Rightarrow> frozen_contract \<Rightarrow> comparison_trace result" where
  "replay_comparison_route_decision sha d which z =
     (case which of
        None \<Rightarrow> Inl (ValueError ''comparison decision sequence is absent'')
      | Some seq \<Rightarrow> (case first_row (\<lambda>x. cd_sequence x = seq) (comparison_decisions d) of
          None \<Rightarrow> Inl (ValueError ''comparison decision is absent'')
        | Some row \<Rightarrow>
            bind_result (ensure (cd_protocol row = fz_parent z \<and> cd_operation_protocol row = fz_operation z)
              (ValueError ''comparison replay protocol binding changed'')) (\<lambda>_.
            bind_result (input_from_dict (cd_input row)) (\<lambda>v.
            bind_result (ensure (input_digest sha v = cd_input_digest row) (ValueError ''comparison replay input digest changed'')) (\<lambda>_.
            bind_result (compare_policy sha (cd_arm row) v z) (\<lambda>(ev, x).
            bind_result (comparison_fact_rows d (cd_run row) (cd_challenge row) (cd_episode row) v z) (\<lambda>rows.
            let tr = trace_of sha (Some seq) (map cf_sequence rows) ev x in
            bind_result (replay_links d seq (tr_facts tr)) (\<lambda>_.
            bind_result (replay_event d row x) (\<lambda>_.
            bind_result (expected_routes sha v z x) (\<lambda>expected.
            bind_result (replay_routes d row expected) (\<lambda>_.
            bind_result (replay_lanes d row x) (\<lambda>_.
            bind_result (ensure (replay_agrees sha row v tr) (ValueError ''comparison replay diverged'')) (\<lambda>_.
            Inr tr)))))))))))))"

end
