(* ===== verification/Comparison_Replay.thy ===== *)
theory Comparison_Replay
  imports Comparison_Store
begin

text \<open>
  A comparison that \<open>finish_and_compare_control_wave\<close> recorded is reproduced by
  \<open>replay_comparison_route_decision\<close> (\<open>src/rapido/state.py\<close>): the replay reads the decision's row back,
  decides again from the stored input, and finds its facts, its log entry, its routes and its successor
  jobs as the recording left them.
\<close>


section \<open>What closing, recording and admitting leave alone\<close>

lemma tx_read_Inr [tx_simps]: "tx_read f d = Inr (x, d') \<longleftrightarrow> f d = Inr x \<and> d' = d"
  by (auto simp: tx_read_def bind_result_Inr_iff)

definition same_comparisons :: "db \<Rightarrow> db \<Rightarrow> bool" where
  "same_comparisons d d' \<longleftrightarrow> comparison_facts d' = comparison_facts d \<and> comparison_decisions d' = comparison_decisions d
     \<and> comparison_links d' = comparison_links d"

lemma same_comparisons_order: "reflp same_comparisons" "transp same_comparisons"
  by (auto simp: same_comparisons_def intro!: reflpI transpI)

definition same_compared :: "db \<Rightarrow> db \<Rightarrow> bool" where
  "same_compared d d' \<longleftrightarrow> same_comparisons d d' \<and> control_routes d' = control_routes d"

lemma same_compared_order: "reflp same_compared" "transp same_compared"
  by (auto simp: same_compared_def same_comparisons_def intro!: reflpI transpI)

lemma same_compared_finish: "tx_keeps same_compared (finish_wave run c ep terminal)"
proof (rule tx_keepsI)
  fix d x d' assume run: "finish_wave run c ep terminal d = Inr (x, d')"
  have "tx_keeps same_compared (close_job run c ep terminal j)" for j
    by (rule tx_keepsI)
      (auto simp: close_job_def Let_def insert_control_event_def set_job_def tx_modify_Inr same_compared_def same_comparisons_def
        elim!: tx_bind_InrE bind_result_InrE)
  then have "tx_keeps same_compared (tx_each (close_job run c ep terminal) rows)" for rows
    by (intro tx_keeps_each same_compared_order)
  with run show "same_compared d d'" by (auto simp: finish_wave_def Let_def dest: tx_keepsD split: if_split_asm)
qed

lemma same_comparisons_admit: "tx_keeps same_comparisons (admit_wave sha run c ep rank lanes r xs unused)"
proof -
  have "tx_keeps same_comparisons (insert_route sha run c ep r)"
    by (rule tx_keepsI) (auto simp: insert_route_def same_comparisons_def split: if_split_asm elim!: bind_result_InrE)
  moreover have "tx_keeps same_comparisons (admit_lane run c ep rank w fp la)" for w fp la
    by (rule tx_keepsI) (cases la,
      auto simp: admit_lane_def insert_control_event_def insert_job_def same_comparisons_def elim!: tx_bind_InrE bind_result_InrE)
  ultimately show ?thesis unfolding admit_wave_def Let_def
    by (intro tx_keeps_bind tx_keeps_each tx_keeps_check same_comparisons_order)
qed

text \<open>An admission adds the route of the wave unless it is there.\<close>

lemma admit_routes:
  assumes "admit_wave sha run c ep rank lanes r xs unused d = Inr (u, d')"
  shows "control_routes d' = control_routes d \<and> (\<exists>x \<in> set (control_routes d). same_route run c (fingerprint sha r) x)
    \<or> (\<exists>x. control_routes d' = control_routes d @ [x] \<and> same_route run c (fingerprint sha r) x \<and> rt_document x = route_as_dict r)"
proof -
  from assms obtain b d1 where d1: "insert_route sha run c ep r d = Inr (b, d1)"
    "tx_each (admit_lane run c ep rank (role r) (fingerprint sha r)) (enumerate 0 (wave_assignments lanes r xs)) d1 = Inr (u, d')"
    by (auto simp: admit_wave_def Let_def tx_check_Inr elim!: tx_bind_InrE)
  have "control_routes d' = control_routes d1" using admit_lanes_effect [OF d1(2)] by blast
  with d1(1) show ?thesis by (auto simp: insert_route_def same_route_def split: if_split_asm elim!: bind_result_InrE)
qed

text \<open>The links of a decision are appended in order.\<close>

lemma insert_link_effect: "insert_link r d = Inr (u, d') \<Longrightarrow> d' = d\<lparr>comparison_links := comparison_links d @ [r]\<rparr>"
  by (auto simp: insert_link_def elim!: bind_result_InrE)

lemma insert_links_effect:
  assumes "tx_each (\<lambda>(i, fact). insert_link \<lparr>lk_decision = seq, lk_fact = fact, lk_ordinal = i\<rparr>) (enumerate n fs) d = Inr (u, d')"
  shows "d' = d\<lparr>comparison_links := comparison_links d
    @ map (\<lambda>(i, fact). \<lparr>lk_decision = seq, lk_fact = fact, lk_ordinal = i\<rparr>) (enumerate n fs)\<rparr>"
  using assms
proof (induction fs arbitrary: n d)
  case Nil
  then show ?case by (simp add: tx_return_Inr)
next
  case (Cons f fs)
  let ?r = "\<lparr>lk_decision = seq, lk_fact = f, lk_ordinal = n\<rparr>"
  from Cons.prems obtain w d1 where d1: "insert_link ?r d = Inr (w, d1)"
    "tx_each (\<lambda>(i, fact). insert_link \<lparr>lk_decision = seq, lk_fact = fact, lk_ordinal = i\<rparr>) (enumerate (Suc n) fs) d1 = Inr (u, d')"
    by (auto simp only: enumerate_simps tx_each.simps prod.case elim!: tx_bind_InrE)
  from Cons.IH [OF d1(2)] insert_link_effect [OF d1(1)] show ?case by simp
qed

lemma record_comparison_effect:
  assumes "record_comparison sha run c ep arm v z tr d = Inr (seq, d')"
  obtains bytes where "py_int (evaluation_config_bytes (tr_evaluation tr)) = Inr bytes" "seq = length (control_events d) + 1"
    "d' = d\<lparr>control_events := control_events d @ [\<lparr>ce_run = run, ce_kind = ''comparison_failure_route_decision'', ce_job = None,
          ce_data = decision_event_value c ep (tr_decision tr)\<rparr>],
        comparison_decisions := comparison_decisions d @ [comparison_row_of sha seq run c ep arm v z tr bytes],
        comparison_links := comparison_links d
          @ map (\<lambda>(i, fact). \<lparr>lk_decision = seq, lk_fact = fact, lk_ordinal = i\<rparr>) (enumerate 0 (tr_facts tr))\<rparr>"
    "decided (tr_decision tr) \<in> {''contain'', ''dispatch''}"
    "\<forall>x \<in> set (comparison_decisions d). \<not> (cd_run x = run \<and> cd_challenge x = c \<and> cd_episode x = ep)"
proof -
  define ins where "ins = (\<lambda>s :: nat. \<lambda>(i, fact). insert_link \<lparr>lk_decision = s, lk_fact = fact, lk_ordinal = i\<rparr>)"
  from assms obtain d1 bytes d2 u where *: "seq = length (control_events d) + 1"
    "d1 = d\<lparr>control_events := control_events d @ [\<lparr>ce_run = run, ce_kind = ''comparison_failure_route_decision'', ce_job = None,
          ce_data = decision_event_value c ep (tr_decision tr)\<rparr>]\<rparr>"
    "py_int (evaluation_config_bytes (tr_evaluation tr)) = Inr bytes"
    "insert_comparison (comparison_row_of sha seq run c ep arm v z tr bytes) d1 = Inr ((), d2)"
    "tx_each (ins seq) (enumerate 0 (tr_facts tr)) d2 = Inr (u, d')"
    by (auto simp: record_comparison_def insert_control_event_def tx_read_Inr tx_return_Inr ins_def
        elim!: tx_bind_InrE bind_result_InrE)
  have d2: "d2 = d1\<lparr>comparison_decisions := comparison_decisions d1 @ [comparison_row_of sha seq run c ep arm v z tr bytes]\<rparr>"
    "decided (tr_decision tr) \<in> {''contain'', ''dispatch''}"
    "\<forall>x \<in> set (comparison_decisions d). \<not> (cd_run x = run \<and> cd_challenge x = c \<and> cd_episode x = ep)"
    using *(2,4) by (auto simp: insert_comparison_def comparison_row_of_def Let_def elim!: bind_result_InrE)
  from insert_links_effect [OF *(5) [unfolded ins_def]] show thesis
    by (intro that [OF *(3,1) _ d2(2,3)]) (simp add: d2(1) *(2))
qed

section \<open>What a comparison decides\<close>

text \<open>A dispatched successor is a template of the contract and its fingerprint is the recorded one.\<close>

lemma chosen_template:
  assumes "choose_successor sha v ev k source recipe = Inr (Inr (r, budget, axes))"
  shows "r = source \<or> (\<exists>recipe. lookup (route_templates k) recipe = Inr r)"
proof (cases "recipe = COMPARATOR")
  case True
  with assms show ?thesis by (auto simp: choose_successor_def bind_result_Inr_iff split: if_split_asm)
next
  case False
  then obtain spec where "map_of (route_recipes k) recipe = Some spec" using assms
    by (cases "map_of (route_recipes k) recipe") (simp_all add: choose_successor_def)
  with assms False show ?thesis
    by (simp add: choose_successor_def) (auto simp: Let_def elim!: bind_result_InrE split: if_split_asm)
qed

lemma authorize_shape:
  assumes "authorize sha v ev k = Inr x"
  obtains source where "source \<in> snd ` set (route_templates k)" "failure_kind v = None" "x = no_route sha source"
  | source recipe why where "source \<in> snd ` set (route_templates k)" "failure_kind v \<noteq> None" "x = contain sha v source recipe why"
  | source recipe r budget axes where "source \<in> snd ` set (route_templates k)" "failure_kind v \<noteq> None" "x = dispatch sha v source recipe r axes"
      "choose_successor sha v ev k source recipe = Inr (Inr (r, budget, axes))"
proof -
  have found: "r \<in> snd ` set ts" if "map_of ts k = Some r" for ts :: "(string \<times> route_spec) list" and k r
    using map_of_SomeD [OF that] by force
  from assms obtain source where read: "(case map_of (route_templates k) (current_route_id v) of
        Some r \<Rightarrow> Inr r | None \<Rightarrow> lookup (route_templates k) ''baseline_v1'') = Inr source"
    and rest: "(if failure_kind v = None then Inr (no_route sha source)
     else if \<not> invoked ev
     then Inr (contain sha v source None
            (case precontain_reason ev of Some why \<Rightarrow> if why = [] then ''precontained'' else why
             | None \<Rightarrow> ''precontained''))
     else (case evaluation_recipe ev of
         None \<Rightarrow> Inr (contain sha v source None ''policy selected no eligible recipe'')
       | Some recipe_id \<Rightarrow> bind_result (choose_successor sha v ev k source recipe_id) (\<lambda>choice.
           case choice of
             Inl why \<Rightarrow> Inr (contain sha v source (Some recipe_id) why)
           | Inr (target, budget, axes) \<Rightarrow>
               bind_result (bind_result (py_item budget ''minimum_remaining_milliseconds'') py_int)
                 (\<lambda>minimum.
               if input_remaining_milliseconds v < minimum
               then Inr (contain sha v source (Some recipe_id) ''recipe time budget is exhausted'')
               else if model target \<noteq> model source \<or> effort target \<noteq> effort source
                 \<or> effect_policy target \<noteq> effect_policy source \<or> \<not> frozen_authority target
               then Inr (contain sha v source (Some recipe_id) ''route changed immutable authority'')
               else if (\<not> input_effects_safe v \<or> \<not> input_instances_safe v)
                 \<and> recipe_id \<noteq> ''board_contract_recheck_v1''
               then Inr (contain sha v source (Some recipe_id) ''unsafe effect or instance state'')
               else Inr (dispatch sha v source recipe_id target axes))))) = Inr x"
    unfolding authorize_def by (elim bind_result_InrE) blast
  have source: "source \<in> snd ` set (route_templates k)"
    using read by (auto simp: lookup_Inr_iff dest: found split: option.split_asm)
  show thesis
  proof (cases "failure_kind v = None")
    case True
    with rest show thesis by (intro that(1) [OF source]) simp_all
  next
    case False
    show thesis
    proof (cases "invoked ev \<and> evaluation_recipe ev \<noteq> None")
      case True
      then obtain recipe where recipe: "evaluation_recipe ev = Some recipe" by auto
      with rest False True obtain choice where choice: "choose_successor sha v ev k source recipe = Inr choice"
        by (auto elim!: bind_result_InrE)
      show thesis
      proof (cases choice)
        case (Inl why)
        with rest False True recipe choice that(2) [OF source False, of "Some recipe" why] show thesis by simp
      next
        case (Inr y)
        obtain r budget axes where y: "y = (r, budget, axes)" by (cases y) auto
        have "(\<exists>why. x = contain sha v source (Some recipe) why) \<or> x = dispatch sha v source recipe r axes"
          using rest False True recipe choice Inr y by (auto elim!: bind_result_InrE split: if_split_asm)
        then show thesis using that(2,3) [OF source False] choice Inr y by blast
      qed
    next
      case other: False
      then have "\<exists>why. x = contain sha v source None why" using rest False by (auto split: if_split_asm)
      then show thesis using that(2) [OF source False] by blast
    qed
  qed
qed

lemma authorize_decision:
  assumes "authorize sha v ev k = Inr x"
  shows "decided x \<in> {''no_route'', ''contain'', ''dispatch''}
    \<and> (decided x = ''no_route'' \<longleftrightarrow> failure_kind v = None)
    \<and> (case decided_successor x of
         None \<Rightarrow> decided x \<noteq> ''dispatch''
       | Some r \<Rightarrow> decided x = ''dispatch'' \<and> successor_fp x = Some (fingerprint sha r) \<and> r \<in> snd ` set (route_templates k))"
  using assms
proof (cases rule: authorize_shape)
  case (3 source recipe r budget axes)
  have "r \<in> snd ` set (route_templates k)"
    using chosen_template [OF 3(4)] 3(1) by (auto simp: lookup_Inr_iff dest!: map_of_SomeD intro: rev_image_eqI)
  with 3 show ?thesis by (simp add: dispatch_def)
qed (simp_all add: no_route_def contain_def)

section \<open>A recorded comparison can be replayed\<close>

lemma compare_wave_cases:
  assumes "compare_wave sha run c ep next_ep rank lanes v arm z d = Inr (tr, d')"
  obtains rows ev x where "comparison_fact_rows d run c ep v z = Inr rows" "check_source sha d run c ep v z = Inr ()"
      "compare_policy sha arm v z = Inr (ev, x)" "decided x = ''no_route''" "finish_wave run c ep ''completed'' d = Inr ((), d')"
      "tr = trace_of sha None (map cf_sequence rows) ev x"
  | rows ev x d1 d2 seq where "comparison_fact_rows d run c ep v z = Inr rows" "check_source sha d run c ep v z = Inr ()"
      "compare_policy sha arm v z = Inr (ev, x)" "decided x \<noteq> ''no_route''" "finish_wave run c ep ''error'' d = Inr ((), d1)"
      "record_comparison sha run c ep arm v z (trace_of sha None (map cf_sequence rows) ev x) d1 = Inr (seq, d2)"
      "admit_compared sha run c next_ep rank lanes arm x d2 = Inr ((), d')"
      "tr = trace_of sha (Some seq) (map cf_sequence rows) ev x"
proof -
  from assms obtain rows y w d1 where *: "comparison_fact_rows d run c ep v z = Inr rows" "check_source sha d run c ep v z = Inr ()"
    "compare_policy sha arm v z = Inr y"
    "finish_wave run c ep (if decided (snd y) = ''no_route'' then ''completed'' else ''error'') d = Inr (w, d1)"
    "(let tr = trace_of sha None (map cf_sequence rows) (fst y) (snd y) in
       if decided (snd y) = ''no_route'' then tx_return tr
       else tx_bind (record_comparison sha run c ep arm v z tr) (\<lambda>seq.
         tx_bind (admit_compared sha run c next_ep rank lanes arm (snd y)) (\<lambda>_. tx_return (tr\<lparr>tr_sequence := Some seq\<rparr>)))) d1 = Inr (tr, d')"
    unfolding compare_wave_def case_prod_unfold by (elim tx_bind_InrE) (simp add: tx_read_Inr)
  obtain ev x where y: "y = (ev, x)" by (cases y)
  note * = * [unfolded y fst_conv snd_conv]
  show thesis
  proof (cases "decided x = ''no_route''")
    case True
    with * show thesis by (intro that(1) [OF *(1-3)]) (simp_all add: tx_return_Inr)
  next
    case False
    from *(5) False obtain seq d2 where "record_comparison sha run c ep arm v z (trace_of sha None (map cf_sequence rows) ev x) d1 = Inr (seq, d2)"
      "admit_compared sha run c next_ep rank lanes arm x d2 = Inr ((), d')" "tr = (trace_of sha None (map cf_sequence rows) ev x)\<lparr>tr_sequence := Some seq\<rparr>"
      by (auto simp: Let_def tx_return_Inr elim!: tx_bind_InrE)
    with *(4) False show thesis by (intro that(2) [OF *(1-3)]) (simp_all add: trace_of_def)
  qed
qed

text \<open>A store whose comparison rows point into the log and whose routes are stored under their own fingerprint.\<close>

definition honest_route :: "digest_fn \<Rightarrow> route_row \<Rightarrow> bool" where
  "honest_route sha x \<longleftrightarrow> (\<exists>r. route_valid r \<and> rt_document x = route_as_dict r \<and> rt_fingerprint x = fingerprint sha r)"

definition comparable :: "digest_fn \<Rightarrow> db \<Rightarrow> bool" where
  "comparable sha d \<longleftrightarrow> distinct (map jb_id (control_jobs d)) \<and> list_all (honest_route sha) (control_routes d)
     \<and> list_all (\<lambda>x. cf_sequence x \<le> length (control_events d)) (comparison_facts d)
     \<and> list_all (\<lambda>x. cd_sequence x \<le> length (control_events d)) (comparison_decisions d)
     \<and> list_all (\<lambda>x. lk_decision x \<le> length (control_events d)) (comparison_links d)"

lemma event_at_more: "seq \<le> length (control_events d) \<Longrightarrow> control_events d' = control_events d @ es \<Longrightarrow> event_at d' seq = event_at d seq"
  by (auto simp: event_at_def nth_append)

lemma comparison_fact_rows_more:
  assumes "comparison_facts d' = comparison_facts d" "control_events d' = control_events d @ es"
    "list_all (\<lambda>x. cf_sequence x \<le> length (control_events d)) (comparison_facts d)"
  shows "comparison_fact_rows d' run c ep v z = comparison_fact_rows d run c ep v z"
proof -
  have "fact_rows d' run c ep = fact_rows d run c ep"
    unfolding fact_rows_def assms(1)
    by (intro arg_cong [where f = concat] map_cong refl) (use assms(3) in \<open>simp add: event_at_more [OF _ assms(2)] list_all_iff\<close>)
  then show ?thesis by (simp add: comparison_fact_rows_def)
qed

lemma sort_key_sorted: "sorted (map f xs) \<Longrightarrow> sort_key f xs = xs"
  by (rule sort_key_id_if_sorted)

lemma replay_links_new:
  assumes "comparison_links d' = links @ map (\<lambda>(i, fact). \<lparr>lk_decision = seq, lk_fact = fact, lk_ordinal = i\<rparr>) (enumerate 0 fs)"
    "\<forall>x \<in> set links. lk_decision x \<noteq> seq"
  shows "replay_links d' seq fs = Inr ()"
proof -
  let ?new = "map (\<lambda>(i, fact). \<lparr>lk_decision = seq, lk_fact = fact, lk_ordinal = i\<rparr>) (enumerate 0 fs)"
  have ordinals: "map lk_ordinal ?new = [0..<length fs]" and facts: "map lk_fact ?new = fs"
    by (simp_all add: comp_def case_prod_beta map_fst_enumerate [unfolded comp_def] map_snd_enumerate [unfolded comp_def])
  have "filter (\<lambda>x. lk_decision x = seq) (comparison_links d') = ?new"
  proof -
    have "filter (\<lambda>x. lk_decision x = seq) links = []" using assms(2) by (simp add: filter_empty_conv)
    moreover have "filter (\<lambda>x. lk_decision x = seq) ?new = ?new" by (rule filter_True) auto
    ultimately show ?thesis by (simp add: assms(1) del: filter_map)
  qed
  moreover have "sort_key lk_ordinal ?new = ?new" by (rule sort_key_sorted) (simp only: ordinals sorted_upt)
  ultimately show ?thesis using ordinals facts by (simp add: replay_links_def Let_def del: map_map)
qed

lemma map_of_member: "k \<in> set (map fst xs) \<Longrightarrow> \<exists>v. map_of xs k = Some v"
  by (induction xs) auto

lemma replay_routes_honest:
  assumes inj: "inj_on sha (route_json ` A)"
    and rows: "\<And>x. x \<in> set (challenge_routes d (cd_run row) (cd_challenge row)) \<Longrightarrow>
      \<exists>r \<in> A. rt_document x = route_as_dict r \<and> rt_fingerprint x = fingerprint sha r"
    and "\<And>fp r. (fp, r) \<in> set expected \<Longrightarrow> r \<in> A \<and> fp = fingerprint sha r"
    and "rt_fingerprint ` set (challenge_routes d (cd_run row) (cd_challenge row)) = fst ` set expected"
  shows "replay_routes d row expected = Inr ()"
proof -
  let ?observed = "rev (map (\<lambda>r. (rt_fingerprint r, rt_document r)) (challenge_routes d (cd_run row) (cd_challenge row)))"
  have keys: "set (map fst ?observed) = set (map fst expected)" using assms(4) by (simp add: image_image)
  have "map_option json_dumps (map_of ?observed fp) = map_option (\<lambda>r. json_dumps (route_as_dict r)) (map_of expected fp)"
    if fp: "fp \<in> set (map fst expected)" for fp
  proof -
    obtain r where r: "map_of expected fp = Some r" using map_of_member [OF fp] by blast
    obtain document where doc: "map_of ?observed fp = Some document" using map_of_member [OF fp [folded keys]] by blast
    obtain s where s: "s \<in> A" "document = route_as_dict s" "fp = fingerprint sha s" using map_of_SomeD [OF doc] rows by auto
    moreover have "r \<in> A" "fp = fingerprint sha r" using assms(3) [OF map_of_SomeD [OF r]] by simp_all
    ultimately have "sha (route_json s) = sha (route_json r)" "route_json s \<in> route_json ` A" "route_json r \<in> route_json ` A"
      by (simp_all add: fingerprint_def)
    then have "route_json s = route_json r" by (rule inj_onD [OF inj])
    with r doc s(2) show ?thesis by (simp add: route_json_def)
  qed
  with keys show ?thesis by (simp add: replay_routes_def Let_def)
qed

lemma in_wave_same_job: "same_job j k \<Longrightarrow> in_wave run c ep j = in_wave run c ep k"
  by (simp add: same_job_def in_wave_def)

lemma finish_wave_waves:
  assumes "finish_wave run c ep terminal d = Inr (u, d')" "distinct (map jb_id (control_jobs d))"
    "\<forall>j \<in> set (control_jobs d). \<not> in_wave run' c' ep' j"
  shows "\<forall>j \<in> set (control_jobs d'). \<not> in_wave run' c' ep' j"
  using finish_wave_effect [OF assms(1,2)] assms(3) in_wave_same_job by fastforce

lemma replay_lanes_dispatched:
  assumes "control_jobs d' = old @ new" "\<forall>j \<in> set old. \<not> in_wave (cd_run row) (cd_challenge row) (cd_episode row + 1) j"
    "list_all2 (lane_row (cd_run row) (cd_challenge row) (cd_episode row + 1) rank fp) (enumerate 0 [a, b]) new"
    "decided x = ''dispatch''" "successor_fp x = Some fp"
  shows "replay_lanes d' row x = Inr ()"
proof -
  obtain i j where new: "new = [i, j]" "lane_row (cd_run row) (cd_challenge row) (cd_episode row + 1) rank fp (0, a) i"
    "lane_row (cd_run row) (cd_challenge row) (cd_episode row + 1) rank fp (1, b) j"
    using assms(3) by (auto simp: list_all2_Cons1)
  have "filter (in_wave (cd_run row) (cd_challenge row) (cd_episode row + 1)) old = []" using assms(2) by (simp add: filter_empty_conv)
  with new assms show ?thesis by (simp add: replay_lanes_def lane_row_def)
qed

text \<open>The route fingerprints of the challenge before and after, and the expected ones.\<close>

lemma source_route_row:
  assumes "comparison_source_route d run c ep = Inr r"
  shows "\<exists>x \<in> set (challenge_routes d run c). route_from_dict (rt_document x) = Inr r"
proof -
  let ?docs = "concat (map (\<lambda>j. case route_of_job d j of None \<Rightarrow> [] | Some r \<Rightarrow> [rt_document r]) (filter (in_wave run c ep) (control_jobs d)))"
  from assms obtain document where doc: "remdups ?docs = [document]" "route_from_dict document = Inr r"
    by (auto simp: comparison_source_route_def split: list.split_asm sum.split_asm)
  then have "document \<in> set ?docs" by (metis list.set_intros(1) set_remdups)
  then obtain j x where "in_wave run c ep j" "route_of_job d j = Some x" "document = rt_document x"
    by (auto dest!: sym [of "Some _"] split: option.split_asm)
  with doc(2) show ?thesis
    by (auto simp: route_of_job_def challenge_routes_def same_route_def in_wave_def dest!: first_row_Some)
qed

lemma honest_read: "honest_route sha x \<Longrightarrow> route_from_dict (rt_document x) = Inr r \<Longrightarrow> rt_fingerprint x = fingerprint sha r"
  by (auto simp: honest_route_def route_doc.dec_enc)

lemma used_templates_set:
  assumes "used_templates v z = Inr used"
  shows "set used \<subseteq> snd ` set (route_templates (fz_contract z))"
  using traverse_Inr_all [OF assms [unfolded used_templates_def], where P = "\<lambda>r. r \<in> snd ` set (route_templates (fz_contract z))"]
  by (force simp: lookup_Inr_iff dest!: map_of_SomeD)

lemma checked_routes:
  assumes "check_source sha d run c ep v z = Inr ()" "list_all (honest_route sha) (control_routes d)"
  obtains cur used where "lookup (route_templates (fz_contract z)) (current_route_id v) = Inr cur" "used_templates v z = Inr used"
    "rt_fingerprint ` set (challenge_routes d run c) = fingerprint sha ` set (cur # used)"
proof -
  from assms(1) obtain source cur used where *: "comparison_source_route d run c ep = Inr source"
    "lookup (route_templates (fz_contract z)) (current_route_id v) = Inr cur" "fingerprint sha source = fingerprint sha cur"
    "used_templates v z = Inr used"
    "set (map rt_fingerprint (challenge_routes d run c)) - {fingerprint sha source} = fingerprint sha ` set used"
    by (auto simp: check_source_def lookup_Inr_iff elim!: bind_result_InrE split: option.split_asm)
  obtain x where x: "x \<in> set (challenge_routes d run c)" "route_from_dict (rt_document x) = Inr source"
    using source_route_row [OF *(1)] by blast
  then have "honest_route sha x" using assms(2) by (auto simp: challenge_routes_def list_all_iff)
  with x have "fingerprint sha source \<in> rt_fingerprint ` set (challenge_routes d run c)" by (metis honest_read image_eqI)
  with *(3,5) have "rt_fingerprint ` set (challenge_routes d run c) = fingerprint sha ` set (cur # used)" by auto
  with * show thesis by (intro that)
qed

lemma expected_routes_ok:
  assumes "lookup (route_templates (fz_contract z)) (current_route_id v) = Inr cur" "used_templates v z = Inr used"
    "authorize sha v ev (fz_contract z) = Inr x"
  obtains expected more where "expected_routes sha v z x = Inr expected"
    "set expected = (\<lambda>r. (fingerprint sha r, r)) ` set (cur # used @ more)"
    "set (cur # used @ more) \<subseteq> snd ` set (route_templates (fz_contract z))"
    "decided_successor x = (case more of [] \<Rightarrow> None | r # _ \<Rightarrow> Some r)" "length more \<le> 1"
proof -
  define more where "more = (case decided_successor x of None \<Rightarrow> [] | Some r \<Rightarrow> [r])"
  have "cur \<in> snd ` set (route_templates (fz_contract z))" using assms(1) by (force simp: lookup_Inr_iff dest!: map_of_SomeD)
  with used_templates_set [OF assms(2)] authorize_decision [OF assms(3)] assms(1,2) show thesis
    by (intro that [of "rev (map (\<lambda>r. (fingerprint sha r, r)) (cur # used @ more))" more])
      (auto simp: expected_routes_def more_def split: option.splits)
qed

text \<open>What the recording part of the transaction leaves behind.\<close>

lemma recorded_store:
  assumes "record_comparison sha run c ep arm v z tr d1 = Inr (seq, d2)"
    "admit_compared sha run c (ep + 1) rank 2 arm x d2 = Inr (u, d')" "tr_decision tr = x" "authorize sha v ev k = Inr x"
    "\<forall>j \<in> set (control_jobs d1). \<not> in_wave run c (ep + 1) j"
  obtains es where "control_events d' = control_events d2 @ es" "same_comparisons d2 d'"
    "rt_fingerprint ` set (challenge_routes d' run c) = rt_fingerprint ` set (challenge_routes d1 run c)
       \<union> (case decided_successor x of None \<Rightarrow> {} | Some r \<Rightarrow> {fingerprint sha r})"
    "\<forall>y \<in> set (control_routes d'). y \<in> set (control_routes d1)
       \<or> (\<exists>r. decided_successor x = Some r \<and> rt_document y = route_as_dict r \<and> rt_fingerprint y = fingerprint sha r)"
    "\<forall>row. cd_run row = run \<and> cd_challenge row = c \<and> cd_episode row = ep \<longrightarrow> replay_lanes d' row x = Inr ()"
proof -
  have d2: "control_routes d2 = control_routes d1" "control_jobs d2 = control_jobs d1"
    by (rule record_comparison_effect [OF assms(1)], simp)+
  note shape = authorize_decision [OF assms(4)]
  show thesis
  proof (cases "decided_successor x")
    case None
    then have "decided x \<noteq> ''dispatch''" using shape by simp
    then have "d' = d2" using assms(2) by (simp add: admit_compared_def tx_return_Inr)
    moreover have "filter (in_wave run c (ep + 1)) (control_jobs d1) = []" using assms(5) by (simp add: filter_empty_conv)
    ultimately show thesis
      using None \<open>decided x \<noteq> ''dispatch''\<close> d2 same_comparisons_order(1)
      by (intro that [of "[]"]) (auto simp: replay_lanes_def challenge_routes_def reflp_def)
  next
    case (Some r)
    then have x: "decided x = ''dispatch''" "successor_fp x = Some (fingerprint sha r)" using shape by simp_all
    have admit: "admit_wave sha run c (ep + 1) rank 2 r None (arm \<noteq> ''fifo_unchanged'') d2 = Inr (u, d')"
      using assms(2) Some x by (simp add: admit_compared_def)
    obtain es where es: "control_events d' = control_events d2 @ es" using tx_keepsD [OF grows_admit_wave admit] by (auto simp: grows_def)
    obtain new where new: "control_jobs d' = control_jobs d1 @ new"
      "list_all2 (lane_row run c (ep + 1) rank (fingerprint sha r)) (enumerate 0 (wave_assignments 2 r None)) new"
      using admit_wave_effect [OF admit] d2 by auto
    have "wave_assignments 2 r None = [(role r, model r, effort r), (role r, model r, effort r)]"
      by (simp add: wave_assignments_def numeral_2_eq_2)
    with new(2) have new2: "list_all2 (lane_row run c (ep + 1) rank (fingerprint sha r))
      (enumerate 0 [(role r, model r, effort r), (role r, model r, effort r)]) new" by simp
    show thesis
    proof (rule that [OF es tx_keepsD [OF same_comparisons_admit admit]])
      show "rt_fingerprint ` set (challenge_routes d' run c) = rt_fingerprint ` set (challenge_routes d1 run c)
         \<union> (case decided_successor x of None \<Rightarrow> {} | Some r \<Rightarrow> {fingerprint sha r})"
        using admit_routes [OF admit]
      proof
        assume kept: "control_routes d' = control_routes d2 \<and> (\<exists>y \<in> set (control_routes d2). same_route run c (fingerprint sha r) y)"
        then obtain y where y: "y \<in> set (challenge_routes d1 run c)" "rt_fingerprint y = fingerprint sha r"
          using d2 by (auto simp: challenge_routes_def same_route_def)
        then have "fingerprint sha r \<in> rt_fingerprint ` set (challenge_routes d1 run c)" by (metis image_eqI)
        with kept Some d2 show ?thesis by (auto simp: challenge_routes_def)
      next
        assume "\<exists>y. control_routes d' = control_routes d2 @ [y] \<and> same_route run c (fingerprint sha r) y \<and> rt_document y = route_as_dict r"
        then obtain y where "control_routes d' = control_routes d2 @ [y]" "same_route run c (fingerprint sha r) y" by blast
        then have "challenge_routes d' run c = challenge_routes d1 run c @ [y]" "rt_fingerprint y = fingerprint sha r"
          using d2 by (simp_all add: challenge_routes_def same_route_def)
        with Some show ?thesis by simp
      qed
      show "\<forall>y \<in> set (control_routes d'). y \<in> set (control_routes d1)
          \<or> (\<exists>r. decided_successor x = Some r \<and> rt_document y = route_as_dict r \<and> rt_fingerprint y = fingerprint sha r)"
        using admit_routes [OF admit] d2 Some by (auto simp: same_route_def)
      show "\<forall>row. cd_run row = run \<and> cd_challenge row = c \<and> cd_episode row = ep \<longrightarrow> replay_lanes d' row x = Inr ()"
        using replay_lanes_dispatched [OF new(1) _ _ x] assms(5) new2 by simp
    qed
  qed
qed

lemma first_row_snoc: "\<not> (\<exists>y \<in> set xs. p y) \<Longrightarrow> p r \<Longrightarrow> first_row p (xs @ [r]) = Some r"
  by (induction xs) (auto simp: first_row_def)

text \<open>The store after the recording part, with the row that was written.\<close>

lemma compared_store:
  assumes "compare_wave sha run c ep (ep + 1) rank 2 v arm z d = Inr (tr, d')" "tr_sequence tr = Some seq"
    "comparable sha d" "\<forall>j \<in> set (control_jobs d). \<not> in_wave run c (ep + 1) j"
  obtains rows ev x bytes es es' where "comparison_fact_rows d run c ep v z = Inr rows" "check_source sha d run c ep v z = Inr ()"
    "compare_policy sha arm v z = Inr (ev, x)" "tr = trace_of sha (Some seq) (map cf_sequence rows) ev x"
    "seq = length (control_events d @ es) + 1" "py_int (evaluation_config_bytes ev) = Inr bytes"
    "control_events d' = (control_events d @ es)
       @ \<lparr>ce_run = run, ce_kind = ''comparison_failure_route_decision'', ce_job = None, ce_data = decision_event_value c ep x\<rparr> # es'"
    "comparison_facts d' = comparison_facts d"
    "comparison_decisions d' = comparison_decisions d
       @ [comparison_row_of sha seq run c ep arm v z (trace_of sha None (map cf_sequence rows) ev x) bytes]"
    "comparison_links d' = comparison_links d
       @ map (\<lambda>(i, fact). \<lparr>lk_decision = seq, lk_fact = fact, lk_ordinal = i\<rparr>) (enumerate 0 (map cf_sequence rows))"
    "rt_fingerprint ` set (challenge_routes d' run c) = rt_fingerprint ` set (challenge_routes d run c)
       \<union> (case decided_successor x of None \<Rightarrow> {} | Some r \<Rightarrow> {fingerprint sha r})"
    "\<forall>y \<in> set (control_routes d'). y \<in> set (control_routes d)
       \<or> (\<exists>r. decided_successor x = Some r \<and> rt_document y = route_as_dict r \<and> rt_fingerprint y = fingerprint sha r)"
    "\<forall>row. cd_run row = run \<and> cd_challenge row = c \<and> cd_episode row = ep \<longrightarrow> replay_lanes d' row x = Inr ()"
  using assms(1)
proof (cases rule: compare_wave_cases)
  case 1
  with assms(2) show thesis by (simp add: trace_of_def)
next
  case (2 rows ev x d1 d2 n)
  have n: "n = seq" using 2(8) assms(2) by (simp add: trace_of_def)
  obtain es where es: "control_events d1 = control_events d @ es"
    using tx_keepsD [OF grows_finish_wave 2(5)] by (auto simp: grows_def)
  have same: "same_compared d d1" by (rule tx_keepsD [OF same_compared_finish 2(5)])
  have jobs: "\<forall>j \<in> set (control_jobs d1). \<not> in_wave run c (ep + 1) j"
    by (rule finish_wave_waves [OF 2(5) _ assms(4)]) (use assms(3) in \<open>simp add: comparable_def\<close>)
  have auth: "authorize sha v ev (fz_contract z) = Inr x" using 2(3) by (auto simp: compare_policy_def elim!: bind_result_InrE)
  have chosen: "tr_decision (trace_of sha None (map cf_sequence rows) ev x) = x" by (simp add: trace_of_def)
  have parts: "tr_evaluation (trace_of sha None (map cf_sequence rows) ev x) = ev"
    "tr_facts (trace_of sha None (map cf_sequence rows) ev x) = map cf_sequence rows" by (simp_all add: trace_of_def)
  obtain bytes where d2: "py_int (evaluation_config_bytes ev) = Inr bytes" "n = length (control_events d1) + 1"
    "d2 = d1\<lparr>control_events := control_events d1 @ [\<lparr>ce_run = run, ce_kind = ''comparison_failure_route_decision'', ce_job = None,
          ce_data = decision_event_value c ep x\<rparr>],
        comparison_decisions := comparison_decisions d1
          @ [comparison_row_of sha n run c ep arm v z (trace_of sha None (map cf_sequence rows) ev x) bytes],
        comparison_links := comparison_links d1
          @ map (\<lambda>(i, fact). \<lparr>lk_decision = n, lk_fact = fact, lk_ordinal = i\<rparr>) (enumerate 0 (map cf_sequence rows))\<rparr>"
    by (rule record_comparison_effect [OF 2(6), unfolded chosen parts]) (rule that; assumption)
  obtain es' where "control_events d' = control_events d2 @ es'" "same_comparisons d2 d'"
    "rt_fingerprint ` set (challenge_routes d' run c) = rt_fingerprint ` set (challenge_routes d1 run c)
       \<union> (case decided_successor x of None \<Rightarrow> {} | Some r \<Rightarrow> {fingerprint sha r})"
    "\<forall>y \<in> set (control_routes d'). y \<in> set (control_routes d1)
       \<or> (\<exists>r. decided_successor x = Some r \<and> rt_document y = route_as_dict r \<and> rt_fingerprint y = fingerprint sha r)"
    "\<forall>row. cd_run row = run \<and> cd_challenge row = c \<and> cd_episode row = ep \<longrightarrow> replay_lanes d' row x = Inr ()"
    by (rule recorded_store [OF 2(6,7) chosen auth jobs]) (rule that; assumption)
  with same d2 es n 2(1-4,8) show thesis
    by (intro that [of rows ev x es bytes es'])
      (simp_all add: same_compared_def same_comparisons_def challenge_routes_def)
qed

text \<open>The templates of the contract and the routes on record, the routes whose digests have to differ.\<close>

definition compared_routes :: "frozen_contract \<Rightarrow> db \<Rightarrow> string \<Rightarrow> int \<Rightarrow> route_spec set" where
  "compared_routes z d run c = snd ` set (route_templates (fz_contract z))
     \<union> {r. \<exists>x \<in> set (challenge_routes d run c). rt_document x = route_as_dict r}"

text \<open>C33. A comparison that is recorded can be replayed: when a wave is closed and compared and a decision, to contain
  or to dispatch, is recorded, the replay of that decision under the same contract returns the very trace
  the comparison returned. The store has distinct job ids, no job yet in the episode after the wave, routes
  stored under their own fingerprint, and comparison rows whose sequences are in the log; the input is one its
  constructor accepts; and no two of the routes involved have the same digest.\<close>

theorem recorded_comparison_replays:
  assumes "finish_and_compare_control_wave sha run c ep next_ep rank lanes v arm z d = (Inr tr, d')" "tr_sequence tr = Some seq"
    "comparable sha d" "\<forall>j \<in> set (control_jobs d). \<not> in_wave run c (ep + 1) j" "input_valid v"
    "inj_on sha (route_json ` compared_routes z d run c)"
  shows "replay_comparison_route_decision sha d' (Some seq) z = Inr tr"
proof -
  have wave: "compare_wave sha run c ep (ep + 1) rank 2 v arm z d = Inr (tr, d')"
    using assms(1) by (auto simp: finish_and_compare_control_wave_def transaction_def split: if_split_asm sum.split_asm)
  obtain rows ev x bytes es es' where
    facts: "comparison_fact_rows d run c ep v z = Inr rows" and src: "check_source sha d run c ep v z = Inr ()"
    and cmp: "compare_policy sha arm v z = Inr (ev, x)" and tr: "tr = trace_of sha (Some seq) (map cf_sequence rows) ev x"
    and seq: "seq = length (control_events d @ es) + 1" and bytes: "py_int (evaluation_config_bytes ev) = Inr bytes"
    and log: "control_events d' = (control_events d @ es)
       @ \<lparr>ce_run = run, ce_kind = ''comparison_failure_route_decision'', ce_job = None, ce_data = decision_event_value c ep x\<rparr> # es'"
    and fs: "comparison_facts d' = comparison_facts d"
    and ds: "comparison_decisions d' = comparison_decisions d
       @ [comparison_row_of sha seq run c ep arm v z (trace_of sha None (map cf_sequence rows) ev x) bytes]"
    and ls: "comparison_links d' = comparison_links d
       @ map (\<lambda>(i, fact). \<lparr>lk_decision = seq, lk_fact = fact, lk_ordinal = i\<rparr>) (enumerate 0 (map cf_sequence rows))"
    and fps: "rt_fingerprint ` set (challenge_routes d' run c) = rt_fingerprint ` set (challenge_routes d run c)
       \<union> (case decided_successor x of None \<Rightarrow> {} | Some r \<Rightarrow> {fingerprint sha r})"
    and rts: "\<forall>y \<in> set (control_routes d'). y \<in> set (control_routes d)
       \<or> (\<exists>r. decided_successor x = Some r \<and> rt_document y = route_as_dict r \<and> rt_fingerprint y = fingerprint sha r)"
    and lanes: "\<forall>row. cd_run row = run \<and> cd_challenge row = c \<and> cd_episode row = ep \<longrightarrow> replay_lanes d' row x = Inr ()"
    by (rule compared_store [OF wave assms(2-4)]) (rule that; assumption)
  define row where "row = comparison_row_of sha seq run c ep arm v z (trace_of sha None (map cf_sequence rows) ev x) bytes"
  note ds = ds [folded row_def]
  have row: "cd_sequence row = seq" "cd_run row = run" "cd_challenge row = c" "cd_episode row = ep" "cd_arm row = arm"
    "cd_input row = input_as_dict v" "cd_input_digest row = input_digest sha v" "cd_protocol row = fz_parent z"
    "cd_operation_protocol row = fz_operation z"
    by (simp_all add: row_def comparison_row_of_def Let_def)
  note old = assms(3) [unfolded comparable_def]
  have first: "first_row (\<lambda>y. cd_sequence y = seq) (comparison_decisions d') = Some row"
  proof -
    have "\<not> (\<exists>y \<in> set (comparison_decisions d). cd_sequence y = seq)" using old seq by (auto simp: list_all_iff)
    then show ?thesis unfolding ds using row(1) by (rule first_row_snoc)
  qed
  have rows: "comparison_fact_rows d' run c ep v z = Inr rows"
    using comparison_fact_rows_more [OF fs log [unfolded append_assoc]] old facts by simp
  have links: "replay_links d' seq (map cf_sequence rows) = Inr ()"
    by (rule replay_links_new [OF ls]) (use old seq in \<open>auto simp: list_all_iff\<close>)
  have event: "replay_event d' row x = Inr ()"
  proof -
    have "event_at d' seq = Some \<lparr>ce_run = run, ce_kind = ''comparison_failure_route_decision'', ce_job = None,
        ce_data = decision_event_value c ep x\<rparr>"
      using seq by (simp add: event_at_def log nth_append)
    then show ?thesis by (simp add: replay_event_def row ensure_def)
  qed
  have auth: "authorize sha v ev (fz_contract z) = Inr x" using cmp by (auto simp: compare_policy_def elim!: bind_result_InrE)
  obtain cur used where cur: "lookup (route_templates (fz_contract z)) (current_route_id v) = Inr cur" "used_templates v z = Inr used"
    and known: "rt_fingerprint ` set (challenge_routes d run c) = fingerprint sha ` set (cur # used)"
    using checked_routes [OF src] old by blast
  obtain expected more where exp: "expected_routes sha v z x = Inr expected"
    "set expected = (\<lambda>r. (fingerprint sha r, r)) ` set (cur # used @ more)"
    "set (cur # used @ more) \<subseteq> snd ` set (route_templates (fz_contract z))"
    "decided_successor x = (case more of [] \<Rightarrow> None | r # _ \<Rightarrow> Some r)" "length more \<le> 1"
    using expected_routes_ok [OF cur auth] by blast
  have routes: "replay_routes d' row expected = Inr ()"
  proof (rule replay_routes_honest [OF assms(6)], unfold row)
    fix y assume y: "y \<in> set (challenge_routes d' run c)"
    show "\<exists>r \<in> compared_routes z d run c. rt_document y = route_as_dict r \<and> rt_fingerprint y = fingerprint sha r"
    proof -
      have "y \<in> set (control_routes d')" using y by (simp add: challenge_routes_def)
      with rts consider (kept) "y \<in> set (control_routes d)"
        | (added) r where "decided_successor x = Some r" "rt_document y = route_as_dict r" "rt_fingerprint y = fingerprint sha r"
        by blast
      then show ?thesis
      proof cases
        case kept
        then have "honest_route sha y" "y \<in> set (challenge_routes d run c)"
          using old y by (auto simp: list_all_iff challenge_routes_def)
        then show ?thesis by (auto simp: honest_route_def compared_routes_def)
      next
        case (added r)
        then have "r \<in> set more" using exp(4) by (auto split: list.split_asm)
        with exp(3) added show ?thesis by (intro bexI [of _ r]) (auto simp: compared_routes_def)
      qed
    qed
  next
    show "r \<in> compared_routes z d run c \<and> fp = fingerprint sha r" if "(fp, r) \<in> set expected" for fp r
      using that exp(2,3) by (auto simp: compared_routes_def)
  next
    have "fst ` set expected = fingerprint sha ` set (cur # used @ more)" unfolding exp(2) by (simp add: image_image)
    moreover have "(case decided_successor x of None \<Rightarrow> {} | Some r \<Rightarrow> {fingerprint sha r}) = fingerprint sha ` set more"
      using exp(4,5) by (cases more) auto
    ultimately show "rt_fingerprint ` set (challenge_routes d' run c) = fst ` set expected"
      unfolding fps known by auto
  qed
  have agrees: "replay_agrees sha row v tr"
    by (simp add: replay_agrees_def row_def comparison_row_of_def trace_of_def tr bytes)
  have "ensure b e = Inr ()" if b for b e using that by (simp add: ensure_def)
  then show ?thesis
    using first row rows links event exp(1) routes lanes agrees cmp input_doc.dec_enc [OF assms(5)] tr
    by (simp add: replay_comparison_route_decision_def Let_def trace_of_def)
qed


section \<open>A recorded dispatch\<close>

definition sample_frozen :: frozen_contract where
  "sample_frozen = \<lparr>fz_contract = sample_contract, fz_parent = PARENT_PROTOCOL_SHA256, fz_operation = OPERATION_PROTOCOL_SHA256\<rparr>"

definition compared_plane :: db where
  "compared_plane = sample_plane
     \<lparr>control_routes := [\<lparr>rt_run = ''r'', rt_challenge = 7, rt_fingerprint = fingerprint id frozen_baseline, rt_first_episode = 0,
        rt_document = route_as_dict frozen_baseline\<rparr>],
      control_events := [\<lparr>ce_run = ''r'', ce_kind = ''comparison_route_fact_recorded'', ce_job = None,
          ce_data = fact_event_value 7 0 (sample_fact ''compatible_checkpoint'')\<rparr>,
        \<lparr>ce_run = ''r'', ce_kind = ''job_admitted'', ce_job = Some ''j'', ce_data = PNone\<rparr>],
      control_jobs := [sample_job (fingerprint id frozen_baseline) 0 0 (''lead'', ''m'', ''high'') 2],
      comparison_facts := [\<lparr>cf_sequence = 1, cf_run = ''r'', cf_challenge = 7, cf_episode = 0, cf_fact_id = ''f1'',
        cf_type = ''compatible_checkpoint'', cf_scope = ''same_run_challenge_episode'', cf_value = ''observed'', cf_event = 4,
        cf_origin = ''comparison_fixture'', cf_protocol = PARENT_PROTOCOL_SHA256\<rparr>]\<rparr>"

lemmas compared_plane_defs = compared_plane_def sample_plane_defs

lemma baseline_valid: "route_valid frozen_baseline"
  by (simp add: frozen_baseline_def sample_route_def route_valid_def bounded_text_def ROLES_def)

lemma compared_facts: "comparison_fact_rows compared_plane ''r'' 7 0 stalled_input sample_frozen = Inr (comparison_facts compared_plane)"
  by (simp add: comparison_fact_rows_def fact_rows_def event_at_def in_fact_wave_def compared_plane_defs sample_input_def sample_fact_def
      check_fact_def fact_of_row_def sample_frozen_def ensure_def)

lemma compared_source: "check_source id compared_plane ''r'' 7 0 stalled_input sample_frozen = Inr ()"
proof -
  have "comparison_source_route compared_plane ''r'' 7 0 = Inr frozen_baseline"
    using route_doc.dec_enc [OF baseline_valid]
    by (simp add: comparison_source_route_def compared_plane_defs in_wave_def route_of_job_def first_row_def same_route_def)
  moreover have "map_of (route_templates sample_contract) ''baseline_v1'' = Some frozen_baseline"
    by (simp add: sample_contract_def unsealed_contract_def)
  ultimately show ?thesis
    by (simp add: check_source_def sample_frozen_def used_templates_def sample_input_def challenge_routes_def compared_plane_defs ensure_def)
qed

lemma compared_decision:
  obtains ev where "compare_policy id ''graph_reducer'' stalled_input sample_frozen = Inr (ev,
      dispatch id stalled_input frozen_baseline ''timeout_checkpoint_resume_v1'' frozen_timeout_route [''tactic''])"
    "evaluation_config_bytes ev = PInt 2"
proof -
  have config: "map_of (policy_configs sample_contract) ''graph_reducer'' = Some (PDict [(''transitions'', PList (map entry_doc sample_rules))])"
    by (simp add: sample_contract_def unsealed_contract_def)
  have "chosen stalled_input sample_rules = Some ''timeout_checkpoint_resume_v1''"
    by (simp add: chosen_def rule_matches_def sample_rules_def sample_input_def sample_fact_def fact_types_def)
  with arm_choice_chosen [OF sample_aligned config, of stalled_input] obtain n where
    "arm_choice ''graph_reducer'' stalled_input (PDict [(''transitions'', PList (map entry_doc sample_rules))]) sample_contract
       = Inr (Some ''timeout_checkpoint_resume_v1'', n)" by auto
  moreover have "''graph_reducer'' \<in> set (arms sample_contract)"
    "map_of (policy_config_bytes sample_contract) ''graph_reducer'' = Some (PInt 2)"
    by (simp_all add: sample_contract_def unsealed_contract_def POLICY_ARMS_def)
  ultimately obtain ev where ev: "evaluate_policy (\<lambda>s. s) ''graph_reducer'' stalled_input sample_contract = Inr ev" "invoked ev"
    "evaluation_recipe ev = Some ''timeout_checkpoint_resume_v1''" "evaluation_config_bytes ev = PInt 2"
    using config sample_not_precontained by (simp add: evaluate_policy_def lookup_def)
  have "map_of (route_templates sample_contract) (current_route_id stalled_input) = Some frozen_baseline"
    by (simp add: sample_contract_def unsealed_contract_def sample_input_def)
  moreover have "frozen_authority frozen_timeout_route" "model frozen_timeout_route = model frozen_baseline"
    "effort frozen_timeout_route = effort frozen_baseline" "effect_policy frozen_timeout_route = effect_policy frozen_baseline"
    by (simp_all add: frozen_authority_def frozen_timeout_route_def frozen_baseline_def sample_route_def)
  moreover have "failure_kind stalled_input = Some ''timeout''" "input_effects_safe stalled_input"
    "input_instances_safe stalled_input" "input_remaining_milliseconds stalled_input = 60000"
    by (simp_all add: sample_input_def)
  ultimately have "authorize (\<lambda>s. s) stalled_input ev sample_contract = Inr (dispatch (\<lambda>s. s) stalled_input frozen_baseline
      ''timeout_checkpoint_resume_v1'' frozen_timeout_route [''tactic''])"
    using ev by (simp add: authorize_def sample_choice)
  with ev show thesis by (intro that [of ev]) (simp_all add: compare_policy_def sample_frozen_def id_def)
qed

lemma compared_finish:
  obtains d where "finish_wave ''r'' 7 0 ''error'' compared_plane = Inr ((), d)" "runs d = runs compared_plane"
    "challenges d = challenges compared_plane" "comparison_decisions d = []" "comparison_links d = []"
    "comparison_facts d = comparison_facts compared_plane" "control_routes d = control_routes compared_plane"
    "length (control_events d) = 3" "map jb_id (control_jobs d) = map jb_id (control_jobs compared_plane)"
    "\<forall>j \<in> set (control_jobs d). jb_episode j = 0"
  by (simp add: finish_wave_def open_jobs_def compared_plane_defs in_wave_def open_state_def close_job_def closed_lane_state_def
      attempt_status_def first_row_def insert_control_event_def set_job_def run_tx foreign_key_def has_run_def where_update_def Let_def)

lemma compared_recorded:
  assumes "runs d = runs compared_plane" "challenges d = challenges compared_plane" "comparison_decisions d = []"
    "comparison_links d = []" "comparison_facts d = comparison_facts compared_plane" "length (control_events d) = 3"
    "tr_facts tr = [1]" "decided (tr_decision tr) = ''dispatch''" "evaluation_config_bytes (tr_evaluation tr) = PInt 2"
  obtains d' where "record_comparison id ''r'' 7 0 arm v z tr d = Inr (4, d')" "runs d' = runs d" "challenges d' = challenges d"
    "control_routes d' = control_routes d" "control_jobs d' = control_jobs d"
  using assms
  by (simp add: record_comparison_def insert_control_event_def tx_read_def run_tx foreign_key_def unique_key_def has_run_def
      has_challenge_def insert_comparison_def comparison_row_of_def Let_def insert_link_def compared_plane_defs)

lemma compared_admitted:
  assumes "runs d = runs compared_plane" "challenges d = challenges compared_plane" "control_routes d = control_routes compared_plane"
    "map jb_id (control_jobs d) = map jb_id (control_jobs compared_plane)" "\<forall>j \<in> set (control_jobs d). jb_episode j = 0"
  obtains d' where "admit_wave id ''r'' 7 1 1 2 frozen_timeout_route None True d = Inr ((), d')"
proof -
  have "frozen_timeout_route \<noteq> frozen_baseline"
    by (simp add: frozen_timeout_route_def frozen_baseline_def sample_route_def)
  then have fp: "fingerprint id frozen_timeout_route \<noteq> fingerprint id frozen_baseline"
    by (auto simp: fingerprint_def dest: route_json_inject)
  have digits: "dec_digits (Suc 0) = ''1''" "dec_digits 0 = ''0''" by code_simp+
  have ids: "job_id ''r'' 7 1 x 1 \<noteq> job_id ''r'' 7 1 x 0" "job_id ''r'' 7 1 x i \<noteq> job_id ''r'' 7 0 x j" for x i j
    using digits by (simp_all add: job_id_def show_int_def)
  have lane: "role frozen_timeout_route = role sample_route" "assignment_ok (role frozen_timeout_route, model frozen_timeout_route, effort frozen_timeout_route)"
    by (simp_all add: frozen_timeout_route_def frozen_baseline_def sample_route_def assignment_ok_def AGENT_ROLES_def)
  have jobs: "jb_id ` set (control_jobs d) = {job_id ''r'' 7 0 (role sample_route) 0}"
    using arg_cong [OF assms(4), of set] by (simp add: compared_plane_defs)
  show thesis
    using assms(1-3,5) fp ids lane jobs that
    by (simp add: admit_wave_def wave_assignments_def numeral_2_eq_2 insert_route_def admit_lane_def insert_control_event_def insert_job_def
        run_tx has_run_def has_challenge_def foreign_key_def unique_key_def same_route_def in_wave_def compared_plane_defs)
qed

lemma recorded_comparison_replays_witness:
  "\<exists>tr d. finish_and_compare_control_wave id ''r'' 7 0 1 1 2 stalled_input ''graph_reducer'' sample_frozen compared_plane = (Inr tr, d)
     \<and> decided (tr_decision tr) = ''dispatch'' \<and> replay_comparison_route_decision id d (Some 4) sample_frozen = Inr tr"
proof -
  obtain ev where ev: "compare_policy id ''graph_reducer'' stalled_input sample_frozen = Inr (ev,
      dispatch id stalled_input frozen_baseline ''timeout_checkpoint_resume_v1'' frozen_timeout_route [''tactic''])"
    "evaluation_config_bytes ev = PInt 2" using compared_decision .
  define x where "x = dispatch id stalled_input frozen_baseline ''timeout_checkpoint_resume_v1'' frozen_timeout_route [''tactic'']"
  have x: "decided x = ''dispatch''" "decided_successor x = Some frozen_timeout_route" by (simp_all add: x_def dispatch_def)
  define tr where "tr = trace_of id None (map cf_sequence (comparison_facts compared_plane)) ev x"
  have tr: "tr_facts tr = [1]" "tr_decision tr = x" "tr_evaluation tr = ev"
    by (simp_all add: tr_def trace_of_def compared_plane_def)
  obtain d1 where d1: "finish_wave ''r'' 7 0 ''error'' compared_plane = Inr ((), d1)" "runs d1 = runs compared_plane"
    "challenges d1 = challenges compared_plane" "comparison_decisions d1 = []" "comparison_links d1 = []"
    "comparison_facts d1 = comparison_facts compared_plane" "control_routes d1 = control_routes compared_plane"
    "length (control_events d1) = 3" "map jb_id (control_jobs d1) = map jb_id (control_jobs compared_plane)"
    "\<forall>j \<in> set (control_jobs d1). jb_episode j = 0" using compared_finish .
  obtain d2 where d2: "record_comparison id ''r'' 7 0 ''graph_reducer'' stalled_input sample_frozen tr d1 = Inr (4, d2)"
    "runs d2 = runs d1" "challenges d2 = challenges d1" "control_routes d2 = control_routes d1" "control_jobs d2 = control_jobs d1"
    by (rule compared_recorded [OF d1(2-6,8) tr(1)]) (simp_all add: tr x ev)
  obtain d3 where d3: "admit_wave id ''r'' 7 1 1 2 frozen_timeout_route None True d2 = Inr ((), d3)"
    by (rule compared_admitted [of d2]) (simp_all add: d1 d2)
  have wave: "compare_wave id ''r'' 7 0 1 1 2 stalled_input ''graph_reducer'' sample_frozen compared_plane
      = Inr (tr\<lparr>tr_sequence := Some 4\<rparr>, d3)"
    using d1(1) d2(1) d3 x
    by (simp add: compare_wave_def tx_read_def tx_bind_def tx_return_def compared_facts compared_source ev(1) x_def [symmetric]
        tr_def [symmetric] admit_compared_def Let_def)
  then have run: "finish_and_compare_control_wave id ''r'' 7 0 1 1 2 stalled_input ''graph_reducer'' sample_frozen compared_plane
      = (Inr (tr\<lparr>tr_sequence := Some 4\<rparr>), d3)"
    by (simp add: finish_and_compare_control_wave_def transaction_def sample_frozen_def)
  have "comparable id compared_plane"
    using baseline_valid by (auto simp: comparable_def honest_route_def compared_plane_defs)
  moreover have "\<forall>j \<in> set (control_jobs compared_plane). \<not> in_wave ''r'' 7 (0 + 1) j" by (simp add: compared_plane_defs in_wave_def)
  moreover have "input_valid stalled_input" by (rule sample_input_valid) (simp_all add: bounded_text_def)
  moreover have "inj_on id (route_json ` compared_routes sample_frozen compared_plane ''r'' 7)" by simp
  ultimately have "replay_comparison_route_decision id d3 (Some 4) sample_frozen = Inr (tr\<lparr>tr_sequence := Some 4\<rparr>)"
    using recorded_comparison_replays [OF run, of 4] by simp
  with run tr(2) x(1) show ?thesis by (intro exI [of _ "tr\<lparr>tr_sequence := Some 4\<rparr>"] exI [of _ d3]) simp
qed

end
