(* ===== verification/Exact_Arithmetic.thy ===== *)
theory Exact_Arithmetic
  imports Prelude "HOL-Library.Word"
begin

unbundle bit_operations_syntax

text \<open>
  The arithmetic kernels of \<^verbatim>\<open>rapido/exact_tools.py\<close>: the extended Euclidean loop, the bisecting
  integer root with its early-exit power test, the incremental Chinese remainder solver, the
  rotation and the fixed-width integer packing. Python integers are \<^typ>\<open>int\<close>; \<open>//\<close> and \<open>%\<close> are
  the floored \<open>div\<close> and \<open>mod\<close> of HOL; bytes are \<open>8 word\<close>s.

  Every loop of the source is a terminating function, so each result below is also the proof that
  the kernel returns.
\<close>

named_theorems kernel_simps \<open>definitions of the arithmetic kernels\<close>

section \<open>Limits\<close>

definition MAX_INTEGER_DIGITS :: nat where "MAX_INTEGER_DIGITS = 2048"
definition MAX_OUTPUT_DIGITS :: nat where "MAX_OUTPUT_DIGITS = 4096"
definition MAX_OPERANDS :: nat where "MAX_OPERANDS = 64"
definition MAX_LIST_ITEMS :: nat where "MAX_LIST_ITEMS = 256"
definition MAX_DATA_BYTES :: nat where "MAX_DATA_BYTES = 1024 * 1024"
definition MAX_OUTPUT_BYTES :: nat where "MAX_OUTPUT_BYTES = 128 * 1024"
definition MAX_ROTATE_WIDTH :: int where "MAX_ROTATE_WIDTH = 16 * 1024"
definition MAX_PACK_WIDTH :: int where "MAX_PACK_WIDTH = 16"
definition MAX_RESULT_BITS :: nat where "MAX_RESULT_BITS = MAX_OUTPUT_DIGITS * 4"

lemmas exact_limits =
  MAX_INTEGER_DIGITS_def MAX_OUTPUT_DIGITS_def MAX_OPERANDS_def MAX_LIST_ITEMS_def
  MAX_DATA_BYTES_def MAX_OUTPUT_BYTES_def MAX_ROTATE_WIDTH_def MAX_PACK_WIDTH_def
  MAX_RESULT_BITS_def

section \<open>The extended Euclidean loop\<close>

function xgcd_loop :: "int \<Rightarrow> int \<Rightarrow> int \<Rightarrow> int \<Rightarrow> int \<Rightarrow> int \<Rightarrow> int \<times> int \<times> int" where
  "xgcd_loop old_r r old_s s old_t t =
     (if r = 0 then (old_r, old_s, old_t)
      else let q = old_r div r
           in xgcd_loop r (old_r - q * r) s (old_s - q * s) t (old_t - q * t))"
  by pat_completeness auto

lemma euclid_step: "(r :: int) \<noteq> 0 \<Longrightarrow> \<bar>a - a div r * r\<bar> < \<bar>r\<bar>"
  using abs_mod_less [of r a] by (simp add: minus_div_mult_eq_mod)

termination xgcd_loop
  by (relation "measure (\<lambda>(old_r, r, _). nat \<bar>r\<bar>)") (auto simp: euclid_step)

declare xgcd_loop.simps [simp del]

definition xgcd :: "int \<Rightarrow> int \<Rightarrow> int \<times> int \<times> int" where
  "xgcd a b =
     (let (g, s, t) = xgcd_loop a b 1 0 0 1 in
      if g = 0 then (0, 0, 0) else if g < 0 then (- g, - s, - t) else (g, s, t))"

lemma xgcd_loop_correct:
  assumes "a * old_s + b * old_t = old_r" "a * s + b * t = r" "gcd old_r r = gcd a b"
    and "xgcd_loop old_r r old_s s old_t t = (g, x, y)"
  shows "a * x + b * y = g \<and> \<bar>g\<bar> = gcd a b"
  using assms
proof (induction old_r r old_s s old_t t rule: xgcd_loop.induct)
  case (1 old_r r old_s s old_t t)
  show ?case
  proof (cases "r = 0")
    case True
    with "1.prems" show ?thesis by (simp add: xgcd_loop.simps)
  next
    case False
    let ?q = "old_r div r"
    have "a * (old_s - ?q * s) + b * (old_t - ?q * t) = old_r - ?q * r"
      by (simp add: "1.prems"(1,2) [symmetric] algebra_simps)
    moreover have "gcd r (old_r - ?q * r) = gcd a b"
      using "1.prems"(3) by (simp add: minus_div_mult_eq_mod gcd_red_int [symmetric] gcd.commute)
    moreover have "xgcd_loop r (old_r - ?q * r) s (old_s - ?q * s) t (old_t - ?q * t) = (g, x, y)"
      using "1.prems"(4) False by (subst (asm) xgcd_loop.simps) (simp add: Let_def)
    ultimately show ?thesis using "1.IH" [OF False refl] "1.prems"(2) by blast
  qed
qed

lemma xgcd_correct:
  assumes "xgcd a b = (g, x, y)"
  shows "g = gcd a b \<and> a * x + b * y = g"
proof -
  obtain h s t where loop: "xgcd_loop a b 1 0 0 1 = (h, s, t)" by (cases "xgcd_loop a b 1 0 0 1")
  then have "a * s + b * t = h" "\<bar>h\<bar> = gcd a b"
    using xgcd_loop_correct [of a 1 b 0 a 0 1 b h s t] by simp_all
  with assms loop show ?thesis by (auto simp: xgcd_def split: if_splits)
qed

section \<open>The integer root\<close>

fun bit_length :: "nat \<Rightarrow> nat" where
  "bit_length n = (if n = 0 then 0 else Suc (bit_length (n div 2)))"

declare bit_length.simps [simp del]

lemma less_two_power_bit_length: "n < 2 ^ bit_length n"
proof (induction n rule: bit_length.induct)
  case (1 n)
  then show ?case by (subst bit_length.simps) auto
qed

text \<open>\<open>power_at_most\<close>: square-and-multiply that stops as soon as the answer is known.\<close>

function power_loop :: "nat \<Rightarrow> nat \<Rightarrow> nat \<Rightarrow> nat \<Rightarrow> bool" where
  "power_loop bound acc rest factor =
     (if rest = 0 then True
      else let acc' = (if odd rest then acc * factor else acc) in
        if odd rest \<and> bound < acc' then False
        else let rest' = rest div 2 in
          if rest' \<noteq> 0
          then let factor' = factor * factor in
            if bound < factor' \<and> rest' \<noteq> 0 then False else power_loop bound acc' rest' factor'
          else power_loop bound acc' rest' factor)"
  by pat_completeness auto

termination power_loop
  by (relation "measure (\<lambda>(_, _, rest, _). rest)") auto

declare power_loop.simps [simp del]

definition power_at_most :: "nat \<Rightarrow> nat \<Rightarrow> nat \<Rightarrow> bool" where
  "power_at_most bound degree base = power_loop bound 1 degree base"

function root_bisect :: "nat \<Rightarrow> nat \<Rightarrow> nat \<Rightarrow> nat \<Rightarrow> nat" where
  "root_bisect bound degree low high =
     (if low + 1 < high
      then let middle = (low + high) div 2 in
        if power_at_most bound degree middle then root_bisect bound degree middle high
        else root_bisect bound degree low middle
      else low)"
  by pat_completeness auto

termination root_bisect
  by (relation "measure (\<lambda>(_, _, low, high). high - low)") auto

declare root_bisect.simps [simp del]

definition positive_nth_root :: "int \<Rightarrow> int \<Rightarrow> (int \<times> bool) result" where
  "positive_nth_root v degree =
     (if v < 0 \<or> degree < 1 then Inl (AssertionError ''internal root precondition'')
      else if v = 0 \<or> v = 1 \<or> degree = 1 then Inr (v, True)
      else let n = nat v; d = nat degree;
               high = 2 ^ ((bit_length n + d - 1) div d);
               low = root_bisect n d 0 high
           in Inr (int low, low ^ d = n))"

lemma power_loop_correct:
  "acc \<le> bound \<Longrightarrow> 1 \<le> acc \<Longrightarrow> 1 \<le> factor \<Longrightarrow>
     power_loop bound acc rest factor \<longleftrightarrow> acc * factor ^ rest \<le> bound"
proof (induction bound acc rest factor rule: power_loop.induct)
  case (1 bound acc rest factor)
  let ?acc = "if odd rest then acc * factor else acc"
  show ?case
  proof (cases "rest = 0")
    case True
    with "1.prems" show ?thesis by (simp add: power_loop.simps)
  next
    case nz: False
    have split: "acc * factor ^ rest = ?acc * (factor * factor) ^ (rest div 2)"
    proof (cases "odd rest")
      case True
      then have "rest = Suc (2 * (rest div 2))" by simp
      then have "factor ^ rest = factor * (factor ^ 2) ^ (rest div 2)"
        by (metis power_Suc power_mult)
      with True show ?thesis by (simp add: power2_eq_square)
    next
      case False
      then have "factor ^ rest = (factor ^ 2) ^ (rest div 2)"
        by (metis dvd_mult_div_cancel power_mult)
      with False show ?thesis by (simp add: power2_eq_square)
    qed
    have acc1: "1 \<le> ?acc" and sq1: "1 \<le> factor * factor" using "1.prems" by (simp_all add: Suc_leI)
    have pow1: "1 \<le> (factor * factor) ^ m" for m using sq1 by (rule one_le_power)
    show ?thesis
    proof (cases "odd rest \<and> bound < ?acc")
      case True
      then have "bound < ?acc * (factor * factor) ^ (rest div 2)"
        using pow1 [of "rest div 2"] by (metis less_le_trans mult.right_neutral mult_le_mono2)
      then have "bound < acc * factor ^ rest" using split by simp
      moreover have "\<not> power_loop bound acc rest factor"
        using True nz by (subst power_loop.simps) (auto simp: Let_def split: if_splits)
      ultimately show ?thesis by simp
    next
      case False
      then have le: "?acc \<le> bound" using "1.prems"(1) by auto
      show ?thesis
      proof (cases "rest div 2 = 0")
        case True
        then show ?thesis using nz False split le
          by (subst power_loop.simps) (simp add: Let_def power_loop.simps)
      next
        case half: False
        show ?thesis
        proof (cases "bound < factor * factor")
          case True
          have "factor * factor \<le> (factor * factor) ^ (rest div 2)"
            using half sq1 by (intro self_le_power) simp_all
          also have "\<dots> \<le> ?acc * (factor * factor) ^ (rest div 2)" using acc1 by simp
          finally have "bound < acc * factor ^ rest" using True split by simp
          then show ?thesis using True half nz False
            by (subst power_loop.simps) (simp add: Let_def not_le)
        next
          case sq: False
          have "power_loop bound ?acc (rest div 2) (factor * factor) \<longleftrightarrow>
              ?acc * (factor * factor) ^ (rest div 2) \<le> bound"
            using "1.IH"(1) [OF nz refl False refl half refl] sq half le acc1 sq1 by simp
          moreover have "power_loop bound acc rest factor =
              power_loop bound ?acc (rest div 2) (factor * factor)"
            using nz False half sq by (subst power_loop.simps) (auto simp: Let_def split: if_splits)
          ultimately show ?thesis by (simp add: split)
        qed
      qed
    qed
  qed
qed

lemma power_at_most_correct:
  "1 \<le> bound \<Longrightarrow> 1 \<le> base \<Longrightarrow> power_at_most bound degree base \<longleftrightarrow> base ^ degree \<le> bound"
  by (simp add: power_at_most_def power_loop_correct)

lemma root_bisect_correct:
  "1 \<le> bound \<Longrightarrow> low ^ degree \<le> bound \<Longrightarrow> bound < high ^ degree \<Longrightarrow> low < high \<Longrightarrow>
     root_bisect bound degree low high ^ degree \<le> bound
     \<and> bound < (root_bisect bound degree low high + 1) ^ degree"
proof (induction bound degree low high rule: root_bisect.induct)
  case (1 bound degree low high)
  let ?middle = "(low + high) div 2"
  show ?case
  proof (cases "low + 1 < high")
    case True
    then have middle: "1 \<le> ?middle" "low < ?middle" "?middle < high" by auto
    show ?thesis
    proof (cases "power_at_most bound degree ?middle")
      case p: True
      then show ?thesis
        using "1.IH"(1) [OF True refl p] "1.prems" middle True
        by (subst (1 2) root_bisect.simps) (simp add: Let_def power_at_most_correct)
    next
      case p: False
      then show ?thesis
        using "1.IH"(2) [OF True refl p] "1.prems" middle True
        by (subst (1 2) root_bisect.simps) (simp add: Let_def power_at_most_correct)
    qed
  next
    case False
    with "1.prems" have "high = low + 1" by simp
    with False "1.prems" show ?thesis by (simp add: root_bisect.simps)
  qed
qed

lemma root_upper_bound:
  assumes "1 \<le> d"
  shows "n < (2 ^ ((bit_length n + d - 1) div d)) ^ d"
proof -
  let ?k = "(bit_length n + d - 1) div d"
  have "bit_length n + d - 1 < d * (?k + 1)"
    using assms by (metis Suc_eq_plus1 dividend_less_times_div less_le_trans mult_Suc_right
        add.commute le_refl zero_less_one)
  then have "bit_length n \<le> ?k * d" using assms by (simp add: algebra_simps)
  then have "(2::nat) ^ bit_length n \<le> 2 ^ (?k * d)" by (rule power_increasing) simp
  with less_two_power_bit_length [of n] show ?thesis by (simp add: power_mult)
qed

lemma positive_nth_root_correct:
  assumes "0 \<le> v" "1 \<le> degree"
  shows "\<exists>r. positive_nth_root v degree = Inr (r, r ^ nat degree = v)
    \<and> 0 \<le> r \<and> r ^ nat degree \<le> v \<and> v < (r + 1) ^ nat degree"
proof (cases "v = 0 \<or> v = 1 \<or> degree = 1")
  case True
  have "v < (v + 1) ^ nat degree"
  proof -
    have "v + 1 \<le> (v + 1) ^ nat degree" using assms by (intro self_le_power) simp_all
    then show ?thesis by simp
  qed
  moreover have "v ^ nat degree = v" using True assms by (auto simp: zero_power)
  ultimately show ?thesis using True assms by (auto simp: positive_nth_root_def)
next
  case False
  define n d where nd: "n = nat v" "d = nat degree"
  define r where "r = root_bisect n d 0 (2 ^ ((bit_length n + d - 1) div d))"
  from False assms nd have "1 \<le> n" "1 \<le> d" by auto
  then have r: "r ^ d \<le> n" "n < (r + 1) ^ d"
    using root_bisect_correct [of n 0 d "2 ^ ((bit_length n + d - 1) div d)"] root_upper_bound [of d n]
    by (simp_all add: r_def zero_power)
  have v: "v = int n" using assms nd by simp
  have "int r ^ d \<le> v" "v < (int r + 1) ^ d" "(r ^ d = n) = (int r ^ d = v)"
  proof -
    have "(int r + 1) ^ d = int ((r + 1) ^ d)" by (simp add: add.commute)
    with r(2) show "v < (int r + 1) ^ d" unfolding v by (metis of_nat_less_iff)
    show "int r ^ d \<le> v" "(r ^ d = n) = (int r ^ d = v)"
      using r(1) unfolding v by (simp_all flip: of_nat_power)
  qed
  with False assms show ?thesis
    by (auto simp: positive_nth_root_def Let_def nd r_def)
qed

section \<open>The Chinese remainder solver\<close>

definition int_bits :: "int \<Rightarrow> nat" where
  "int_bits n = bit_length (nat \<bar>n\<bar>)"

definition tool_error :: "string \<Rightarrow> string \<Rightarrow> 'a result" where
  "tool_error code message = Inl (ToolError code message)"

fun crt_loop :: "int \<Rightarrow> int \<Rightarrow> (int \<times> int) list \<Rightarrow> (int \<times> int) result" where
  "crt_loop current modulus [] = Inr (current, modulus)"
| "crt_loop current modulus ((residue, n) # system) =
     (if n \<le> 0 then tool_error ''invalid_modulus'' ''CRT moduli must be positive''
      else let residue = residue mod n;
               common = gcd modulus n;
               difference = residue - current in
        if difference mod common \<noteq> 0
        then tool_error ''inconsistent_system''
               ''CRT congruences are inconsistent for their non-coprime moduli''
        else let reduced = n div common;
                 step = (if reduced = 1 then 0
                   else difference div common * fst (snd (xgcd (modulus div common) reduced)) mod reduced);
                 modulus' = modulus div common * n;
                 current' = (current + modulus * step) mod modulus' in
          if MAX_RESULT_BITS < int_bits modulus'
          then tool_error ''limit_exceeded'' ''CRT modulus exceeds the result digit limit''
          else crt_loop current' modulus' system)"

definition crt :: "(int \<times> int) list \<Rightarrow> (int \<times> int) result" where
  "crt system = crt_loop 0 1 system"

text \<open>One step merges two congruences: its solutions are the common solutions.\<close>

lemma crt_step:
  fixes m n x r :: int
  defines "g \<equiv> gcd m n"
  defines "step \<equiv> (if n div g = 1 then 0 else (r - x) div g * fst (snd (xgcd (m div g) (n div g))) mod (n div g))"
  assumes "0 < m" "0 < n" "(r - x) mod g = 0"
  shows "(x + m * step) mod n = r mod n" "m div g * n = lcm m n"
proof -
  have g: "0 < g" using assms(3) by (simp add: g_def)
  have m: "m = g * (m div g)" and n: "n = g * (n div g)" by (simp_all add: g_def)
  have d: "r - x = g * ((r - x) div g)" using assms(5) by auto
  have coprime: "coprime (m div g) (n div g)"
    unfolding g_def using assms(3) by (intro div_gcd_coprime) simp
  have "m div g * step mod (n div g) = (r - x) div g mod (n div g)"
  proof (cases "n div g = 1")
    case False
    obtain h y z where xg: "xgcd (m div g) (n div g) = (h, y, z)" by (cases "xgcd (m div g) (n div g)")
    then have "m div g * y + n div g * z = 1"
      using xgcd_correct [OF xg] coprime by simp
    then have inv: "m div g * y mod (n div g) = 1 mod (n div g)"
      by (metis mod_mult_self2)
    have "m div g * step mod (n div g) = m div g * ((r - x) div g * y) mod (n div g)"
      using False xg by (simp add: step_def mod_mult_right_eq)
    also have "\<dots> = (r - x) div g * (m div g * y mod (n div g)) mod (n div g)"
      by (simp add: mod_mult_right_eq algebra_simps)
    also have "\<dots> = (r - x) div g mod (n div g)" by (simp add: inv mod_mult_right_eq)
    finally show ?thesis .
  qed (simp add: step_def)
  then have "g * (m div g * step) mod (g * (n div g)) = g * ((r - x) div g) mod (g * (n div g))"
    by (simp add: mult_mod_right [symmetric])
  then have "m * step mod n = (r - x) mod n"
    by (metis m n d mult.assoc)
  then have "(x + m * step) mod n = (x + (r - x)) mod n" by (rule mod_add_cong [OF refl])
  then show "(x + m * step) mod n = r mod n" by simp
  have "0 \<le> m * n div g" using g assms(3,4) by (simp add: pos_imp_zdiv_nonneg_iff)
  then show "m div g * n = lcm m n"
    using assms(3,4) by (simp add: lcm_gcd g_def div_mult_swap mult.commute)
qed

definition solves :: "int \<Rightarrow> (int \<times> int) list \<Rightarrow> bool" where
  "solves x system \<longleftrightarrow> (\<forall>(r, n) \<in> set system. x mod n = r mod n)"

fun moduli_lcm :: "(int \<times> int) list \<Rightarrow> int" where
  "moduli_lcm [] = 1"
| "moduli_lcm ((r, n) # system) = lcm n (moduli_lcm system)"

lemma cong_lcm:
  fixes x y m n :: int
  shows "x mod m = y mod m \<Longrightarrow> x mod n = y mod n \<Longrightarrow> x mod lcm m n = y mod lcm m n"
  by (simp add: mod_eq_dvd_iff lcm_least)

lemma mod_dvd_cong:
  fixes x y d m :: int
  shows "x mod m = y mod m \<Longrightarrow> d dvd m \<Longrightarrow> x mod d = y mod d"
  by (metis mod_mod_cancel)

lemma crt_loop_sound:
  "crt_loop x m system = Inr (y, k) \<Longrightarrow> 0 < m \<Longrightarrow> 0 \<le> x \<Longrightarrow> x < m \<Longrightarrow>
     y mod m = x mod m \<and> k = lcm m (moduli_lcm system) \<and> solves y system \<and> 0 \<le> y \<and> y < k
     \<and> (\<forall>(r, n) \<in> set system. 0 < n)"
proof (induction x m system rule: crt_loop.induct)
  case (1 x m)
  then show ?case by (simp add: solves_def)
next
  case (2 x m r n system)
  let ?g = "gcd m n"
  let ?step = "if n div ?g = 1 then 0
    else (r mod n - x) div ?g * fst (snd (xgcd (m div ?g) (n div ?g))) mod (n div ?g)"
  let ?m' = "m div ?g * n"
  let ?x' = "(x + m * ?step) mod ?m'"
  from "2.prems"(1) have n: "0 < n" and c: "(r mod n - x) mod ?g = 0"
    and loop: "crt_loop ?x' ?m' system = Inr (y, k)" and bits: "\<not> MAX_RESULT_BITS < int_bits ?m'"
    by (auto simp: Let_def tool_error_def split: if_split_asm)
  note step = crt_step [OF "2.prems"(2) n c]
  have m': "?m' = lcm m n" by (rule step(2))
  then have pos: "0 < ?m'" using "2.prems"(2) n by (simp add: lcm_pos_int)
  have IH: "y mod ?m' = ?x' mod ?m' \<and> k = lcm ?m' (moduli_lcm system) \<and> solves y system \<and> 0 \<le> y
      \<and> y < k \<and> (\<forall>(r, n) \<in> set system. 0 < n)"
    using n c bits loop pos by (intro "2.IH" [OF _ refl refl refl _ refl refl refl refl]) simp_all
  then have y: "y mod lcm m n = (x + m * ?step) mod lcm m n" by (simp add: m')
  have "y mod m = x mod m" using mod_dvd_cong [OF y dvd_lcm1] by simp
  moreover have "y mod n = r mod n" using mod_dvd_cong [OF y dvd_lcm2] step(1) by simp
  ultimately show ?case using IH n by (simp add: solves_def m' lcm.assoc)
qed

lemma crt_loop_complete:
  assumes "z mod m = x mod m" "solves z system" "\<forall>(r, n) \<in> set system. 0 < n" "0 < m"
    and "crt_loop x m system = Inl e"
  shows "e = ToolError ''limit_exceeded'' ''CRT modulus exceeds the result digit limit''"
  using assms
proof (induction x m system rule: crt_loop.induct)
  case (1 x m)
  then show ?case by simp
next
  case (2 x m r n system)
  let ?g = "gcd m n"
  let ?step = "if n div ?g = 1 then 0
    else (r mod n - x) div ?g * fst (snd (xgcd (m div ?g) (n div ?g))) mod (n div ?g)"
  let ?m' = "m div ?g * n"
  let ?x' = "(x + m * ?step) mod ?m'"
  from "2.prems" have n: "0 < n" and zn: "z mod n = r mod n" and rest: "solves z system"
    "\<forall>(r, n) \<in> set system. 0 < n"
    by (auto simp: solves_def)
  have "z mod ?g = x mod ?g" by (rule mod_dvd_cong [OF "2.prems"(1) gcd_dvd1])
  moreover have "z mod ?g = r mod ?g" by (rule mod_dvd_cong [OF zn gcd_dvd2])
  ultimately have "r mod n mod ?g = x mod ?g" by (simp add: mod_mod_cancel del: gcd_dvd1 gcd_dvd2) (simp add: mod_mod_cancel)
  then have c: "(r mod n - x) mod ?g = 0" by (simp only: mod_eq_dvd_iff dvd_imp_mod_0)
  note step = crt_step [OF "2.prems"(4) n c]
  have m': "?m' = lcm m n" by (rule step(2))
  then have pos: "0 < ?m'" using "2.prems"(4) n by (simp add: lcm_pos_int)
  have "z mod m = (x + m * ?step) mod m" using "2.prems"(1) by simp
  moreover have "z mod n = (x + m * ?step) mod n" using zn step(1) by simp
  ultimately have z: "z mod ?m' = ?x' mod ?m'" unfolding m' by (simp add: cong_lcm)
  show ?case
  proof (cases "MAX_RESULT_BITS < int_bits ?m'")
    case True
    with "2.prems"(5) n c show ?thesis by (simp add: Let_def tool_error_def)
  next
    case bits: False
    with "2.prems"(5) n c have "crt_loop ?x' ?m' system = Inl e" by (simp add: Let_def)
    with n c bits z rest pos show ?thesis
      by (intro "2.IH" [OF _ refl refl refl _ refl refl refl refl]) simp_all
  qed
qed

lemma moduli_lcm_nonneg [simp]: "0 \<le> moduli_lcm system"
  by (cases system rule: moduli_lcm.cases) simp_all

lemma crt_sound:
  "crt system = Inr (y, k) \<Longrightarrow> k = moduli_lcm system \<and> solves y system \<and> 0 \<le> y \<and> y < k
     \<and> (\<forall>(r, n) \<in> set system. 0 < n)"
  using crt_loop_sound [of 0 1 system y k] by (auto simp: crt_def)

lemma crt_complete:
  "solves z system \<Longrightarrow> \<forall>(r, n) \<in> set system. 0 < n \<Longrightarrow> crt system = Inl e \<Longrightarrow>
     e = ToolError ''limit_exceeded'' ''CRT modulus exceeds the result digit limit''"
  using crt_loop_complete [of z 1 0 system e] by (simp add: crt_def)

section \<open>Rotation\<close>

definition rotate_bits :: "nat \<Rightarrow> nat \<Rightarrow> int \<Rightarrow> int" where
  "rotate_bits width amount v =
     (if amount = 0 then v
      else (push_bit amount v OR drop_bit (width - amount) v) AND (push_bit width 1 - 1))"

lemma div_less_of_less_mult:
  fixes v a b :: int
  assumes "v < a * b" "0 < b"
  shows "v div b < a"
proof (rule ccontr)
  assume "\<not> v div b < a"
  then have "a * b \<le> v div b * b" using assms(2) by (intro mult_right_mono) simp_all
  also have "\<dots> \<le> v" using assms(2) by (simp flip: minus_mod_eq_div_mult)
  finally show False using assms(1) by simp
qed

lemma rotate_bits_split:
  assumes "0 \<le> v" "v < 2 ^ w" "0 < a" "a < w"
  shows "rotate_bits w a v = 2 ^ a * (v mod 2 ^ (w - a)) + v div 2 ^ (w - a)"
proof -
  have q: "0 \<le> v div 2 ^ (w - a)" "v div 2 ^ (w - a) < 2 ^ a"
  proof -
    have "v < 2 ^ a * 2 ^ (w - a)" using assms by (simp flip: power_add)
    then show "v div 2 ^ (w - a) < 2 ^ a" by (rule div_less_of_less_mult) simp
  qed (use assms(1) in \<open>simp add: pos_imp_zdiv_nonneg_iff\<close>)
  have le: "(2 :: int) ^ a \<le> 2 ^ w" using assms by (intro power_increasing) simp_all
  have "rotate_bits w a v = take_bit w (push_bit a v OR drop_bit (w - a) v)"
    using assms by (simp add: rotate_bits_def flip: mask_eq_exp_minus_1 take_bit_eq_mask)
  also have "\<dots> = push_bit a (take_bit (w - a) v) OR drop_bit (w - a) v"
  proof -
    have "v div 2 ^ (w - a) < 2 ^ w" using q(2) le by (rule less_le_trans)
    with q(1) have "take_bit w (v div 2 ^ (w - a)) = v div 2 ^ (w - a)" by (rule take_bit_int_eq_self)
    then show ?thesis by (simp add: take_bit_push_bit drop_bit_eq_div)
  qed
  also have "\<dots> = push_bit a (take_bit (w - a) v) + drop_bit (w - a) v"
  proof (rule disjunctive_add_eq_or [symmetric], rule bit_eqI)
    fix n
    have "drop_bit (w - a) v = take_bit a (drop_bit (w - a) v)"
      using q by (simp add: drop_bit_eq_div take_bit_int_eq_self)
    then have "bit (drop_bit (w - a) v) n \<Longrightarrow> n < a" by (metis bit_take_bit_iff)
    then show "bit (push_bit a (take_bit (w - a) v) AND drop_bit (w - a) v) n \<longleftrightarrow> bit 0 n"
      by (auto simp: bit_and_iff bit_push_bit_iff)
  qed
  finally show ?thesis by (simp add: push_bit_eq_mult take_bit_eq_mod drop_bit_eq_div mult.commute)
qed

lemma rotate_bits_range:
  assumes "0 \<le> v" "v < 2 ^ w" "a < w"
  shows "0 \<le> rotate_bits w a v \<and> rotate_bits w a v < 2 ^ w"
proof (cases "a = 0")
  case False
  then have "rotate_bits w a v = take_bit w (push_bit a v OR drop_bit (w - a) v)"
    by (simp add: rotate_bits_def flip: mask_eq_exp_minus_1 take_bit_eq_mask)
  then show ?thesis by (simp only: take_bit_nonnegative take_bit_int_less_exp simp_thms)
qed (use assms in \<open>simp add: rotate_bits_def\<close>)

lemma rotate_bits_inverse:
  assumes "0 \<le> v" "v < 2 ^ w" "0 < a" "a < w"
  shows "rotate_bits w (w - a) (rotate_bits w a v) = v"
proof -
  define q r where "q = v div 2 ^ (w - a)" and "r = v mod 2 ^ (w - a)"
  have rot: "rotate_bits w a v = 2 ^ a * r + q" using rotate_bits_split [OF assms] by (simp add: q_def r_def)
  have "v < 2 ^ a * 2 ^ (w - a)" using assms by (simp flip: power_add)
  then have "q < 2 ^ a" unfolding q_def by (rule div_less_of_less_mult) simp
  moreover have "0 \<le> q" using assms(1) by (simp add: q_def pos_imp_zdiv_nonneg_iff)
  ultimately have q: "0 \<le> q" "q < 2 ^ a" by simp_all
  have range: "0 \<le> rotate_bits w a v" "rotate_bits w a v < 2 ^ w"
    using rotate_bits_range [of v w a] assms by simp_all
  have "rotate_bits w (w - a) (rotate_bits w a v) =
      2 ^ (w - a) * ((2 ^ a * r + q) mod 2 ^ a) + (2 ^ a * r + q) div 2 ^ a"
    using rotate_bits_split [OF range, of "w - a"] assms by (simp add: rot)
  also have "\<dots> = 2 ^ (w - a) * q + r" using q by simp
  also have "\<dots> = v" by (simp add: q_def r_def)
  finally show ?thesis .
qed

text \<open>The amount the operation computes from a signed shift and a direction.\<close>

definition rotate_amount :: "int \<Rightarrow> int \<Rightarrow> bool \<Rightarrow> int" where
  "rotate_amount shift width right =
     (let amount = shift mod width in if right then (- amount) mod width else amount)"

definition rotate_value :: "int \<Rightarrow> int \<Rightarrow> int \<Rightarrow> bool \<Rightarrow> int" where
  "rotate_value v shift width right =
     rotate_bits (nat width) (nat (rotate_amount shift width right)) v"

lemma rotate_amount_range: "0 < w \<Longrightarrow> 0 \<le> rotate_amount s w d \<and> rotate_amount s w d < w"
  by (simp add: rotate_amount_def Let_def)

lemma rotate_amount_opposite:
  assumes "0 < w"
  shows "rotate_amount s w (\<not> d) = (if rotate_amount s w d = 0 then 0 else w - rotate_amount s w d)"
proof -
  have "s mod w \<noteq> w" using pos_mod_bound [OF assms, of s] by linarith
  then show ?thesis
    using assms by (cases d) (auto simp: rotate_amount_def zmod_zminus1_eq_if Let_def)
qed

lemma rotate_value_range:
  "0 < w \<Longrightarrow> 0 \<le> v \<Longrightarrow> v < 2 ^ nat w \<Longrightarrow>
     0 \<le> rotate_value v s w d \<and> rotate_value v s w d < 2 ^ nat w"
  unfolding rotate_value_def using rotate_amount_range [of w s d]
  by (intro rotate_bits_range) auto

lemma rotate_value_opposite:
  assumes "0 < w" "0 \<le> v" "v < 2 ^ nat w"
  shows "rotate_value (rotate_value v s w d) s w (\<not> d) = v"
proof -
  let ?a = "rotate_amount s w d"
  have a: "0 \<le> ?a" "?a < w" using rotate_amount_range [OF assms(1)] by auto
  show ?thesis
  proof (cases "?a = 0")
    case True
    then show ?thesis using rotate_amount_opposite [OF assms(1), of s d]
      by (simp add: rotate_value_def rotate_bits_def)
  next
    case False
    then have "nat (w - ?a) = nat w - nat ?a" using a by simp
    then show ?thesis
      using rotate_bits_inverse [of v "nat w" "nat ?a"] assms a False
        rotate_amount_opposite [OF assms(1), of s d]
      by (simp add: rotate_value_def)
  qed
qed

section \<open>Fixed-width packing\<close>

text \<open>\<open>int.to_bytes\<close> and \<open>int.from_bytes\<close>: two's complement in the given byte order.\<close>

fun le_bytes :: "nat \<Rightarrow> int \<Rightarrow> 8 word list" where
  "le_bytes 0 v = []"
| "le_bytes (Suc w) v = word_of_int v # le_bytes w (v div 256)"

fun le_value :: "8 word list \<Rightarrow> int" where
  "le_value [] = 0"
| "le_value (b # bs) = uint b + 256 * le_value bs"

definition to_bytes :: "nat \<Rightarrow> bool \<Rightarrow> int \<Rightarrow> 8 word list" where
  "to_bytes width little v = (if little then le_bytes width v else rev (le_bytes width v))"

definition from_bytes :: "bool \<Rightarrow> bool \<Rightarrow> 8 word list \<Rightarrow> int" where
  "from_bytes little is_signed bs =
     (let n = le_value (if little then bs else rev bs); bits = 8 * length bs in
      if is_signed \<and> bits \<noteq> 0 \<and> 2 ^ (bits - 1) \<le> n then n - 2 ^ bits else n)"

definition pack_lower :: "nat \<Rightarrow> bool \<Rightarrow> int" where
  "pack_lower width is_signed = (if is_signed then - (2 ^ (8 * width - 1)) else 0)"

definition pack_upper :: "nat \<Rightarrow> bool \<Rightarrow> int" where
  "pack_upper width is_signed = (if is_signed then 2 ^ (8 * width - 1) - 1 else 2 ^ (8 * width) - 1)"

lemma length_le_bytes [simp]: "length (le_bytes w v) = w"
  by (induction w v rule: le_bytes.induct) simp_all

lemma length_to_bytes [simp]: "length (to_bytes w little v) = w"
  by (simp add: to_bytes_def)

lemma le_value_le_bytes: "le_value (le_bytes w v) = v mod 2 ^ (8 * w)"
proof (induction w v rule: le_bytes.induct)
  case (1 v)
  then show ?case by simp
next
  case (2 w v)
  have "v mod (256 * 2 ^ (8 * w)) = 256 * (v div 256 mod 2 ^ (8 * w)) + v mod 256"
    by (rule zmod_zmult2_eq) simp
  then show ?case using 2 by (simp add: uint_word_of_int power_add)
qed

lemma from_to_bytes:
  assumes "1 \<le> w" "pack_lower w is_signed \<le> v" "v \<le> pack_upper w is_signed"
  shows "from_bytes little is_signed (to_bytes w little v) = v"
proof -
  let ?N = "2 ^ (8 * w) :: int"
  have half: "2 * 2 ^ (8 * w - 1) = ?N"
    using assms(1) by (simp flip: power_Suc)
  have n: "le_value (if little then to_bytes w little v else rev (to_bytes w little v)) = v mod ?N"
    by (simp add: to_bytes_def le_value_le_bytes)
  show ?thesis
  proof (cases "0 \<le> v")
    case True
    with assms half have "v mod ?N = v" "is_signed \<Longrightarrow> v < 2 ^ (8 * w - 1)"
      by (auto simp: pack_upper_def intro!: mod_pos_pos_trivial split: if_splits)
    with n show ?thesis by (auto simp: from_bytes_def Let_def)
  next
    case False
    with assms have is_signed: "is_signed" by (auto simp: pack_lower_def split: if_splits)
    with assms have low: "- (2 ^ (8 * w - 1)) \<le> v" by (simp add: pack_lower_def)
    have "(v + ?N) mod ?N = v + ?N" using False low half by (intro mod_pos_pos_trivial) auto
    then have "v mod ?N = v + ?N" by simp
    with n is_signed low half assms(1) show ?thesis by (auto simp: from_bytes_def Let_def)
  qed
qed

text \<open>The byte string is read in chunks of the width.\<close>

function chunks :: "nat \<Rightarrow> 'a list \<Rightarrow> 'a list list" where
  "chunks w xs = (if w = 0 \<or> xs = [] then [] else take w xs # chunks w (drop w xs))"
  by pat_completeness auto

termination chunks
  by (relation "measure (\<lambda>(_, xs). length xs)") auto

declare chunks.simps [simp del]

lemma chunks_concat:
  "0 < w \<Longrightarrow> \<forall>x \<in> set xss. length x = w \<Longrightarrow> chunks w (concat xss) = xss"
proof (induction xss)
  case Nil
  then show ?case by (simp add: chunks.simps)
next
  case (Cons x xss)
  then show ?case by (subst chunks.simps) auto
qed

lemma length_concat_const: "\<forall>x \<in> set xss. length x = w \<Longrightarrow> length (concat xss) = length xss * w"
  by (induction xss) simp_all

end
