(* ===== verification/Exact_Tools.thy ===== *)
theory Exact_Tools
  imports Exact_Arithmetic
begin

unbundle bit_operations_syntax

text \<open>
  \<^verbatim>\<open>rapido/exact_tools.py\<close>: the closed arithmetic tool of the solver. Argument documents are
  validated field by field, integers are decimal or hexadecimal strings of bounded length, byte
  values are strict hex or base64 objects, and \<open>compute_exact\<close> dispatches to the kernels of
  \<open>Exact_Arithmetic\<close>. A refused call is a \<open>ToolError\<close> with its code and message (the optional
  detail fields of the error are not modelled); strings are sequences of the characters 0 to 255.
  The JSON schema of the tool is data and not modelled.
\<close>

section \<open>Arguments\<close>

type_synonym arguments = "(string \<times> pyval) list"

definition mapping :: "pyval \<Rightarrow> string \<Rightarrow> arguments result" where
  "mapping v name =
     (case v of PDict d \<Rightarrow> Inr d
      | _ \<Rightarrow> tool_error ''invalid_argument'' (name @ '' must be an object''))"

definition check_keys :: "arguments \<Rightarrow> string set \<Rightarrow> unit result" where
  "check_keys args allowed =
     (if set (map fst args) \<subseteq> allowed then Inr ()
      else tool_error ''invalid_argument'' ''unsupported exact-tool argument'')"

definition required :: "arguments \<Rightarrow> string \<Rightarrow> pyval result" where
  "required args name =
     (if has_key args name then Inr (dict_get args name)
      else tool_error ''invalid_argument'' (name @ '' is required''))"

section \<open>Integers\<close>

definition is_hex_digit :: "char \<Rightarrow> bool" where
  "is_hex_digit c \<longleftrightarrow>
     (let n = of_char c :: nat in 48 \<le> n \<and> n \<le> 57 \<or> 97 \<le> n \<and> n \<le> 102 \<or> 65 \<le> n \<and> n \<le> 70)"

definition hex_digit_value :: "char \<Rightarrow> nat" where
  "hex_digit_value c =
     (let n = of_char c :: nat in if n \<le> 57 then n - 48 else if n \<le> 70 then n - 55 else n - 87)"

definition hex_text_value :: "string \<Rightarrow> nat" where
  "hex_text_value s = foldl (\<lambda>acc c. acc * 16 + hex_digit_value c) 0 s"

definition split_sign :: "string \<Rightarrow> bool \<times> string" where
  "split_sign s =
     (case s of [] \<Rightarrow> (False, [])
      | c # r \<Rightarrow> if c = CHR ''-'' then (True, r) else if c = CHR ''+'' then (False, r) else (False, s))"

definition hex_prefixed :: "string \<Rightarrow> bool" where
  "hex_prefixed body \<longleftrightarrow> take 2 body = ''0x'' \<or> take 2 body = ''0X''"

definition integer_body :: "string \<Rightarrow> bool" where
  "integer_body body \<longleftrightarrow>
     hex_prefixed body \<and> drop 2 body \<noteq> [] \<and> (\<forall>c \<in> set (drop 2 body). is_hex_digit c)
     \<or> body \<noteq> [] \<and> (\<forall>c \<in> set body. is_digit c)"

definition parse_integer :: "pyval \<Rightarrow> string \<Rightarrow> int result" where
  "parse_integer v name =
     (case v of
        PStr s \<Rightarrow>
          let (negative, body) = split_sign s in
          if \<not> integer_body body
          then tool_error ''invalid_integer'' (name @ '' is not a decimal or 0x integer'')
          else let digits = (if hex_prefixed body then drop 2 body else body) in
            if MAX_INTEGER_DIGITS < length digits
            then tool_error ''limit_exceeded'' (name @ '' exceeds the integer digit limit'')
            else let parsed = int (if hex_prefixed body then hex_text_value digits else dec_value digits)
              in Inr (if negative then - parsed else parsed)
      | _ \<Rightarrow> tool_error ''invalid_argument'' (name @ '' must be a decimal or 0x integer string''))"

definition small_integer :: "pyval \<Rightarrow> string \<Rightarrow> int \<Rightarrow> int \<Rightarrow> int result" where
  "small_integer v name low high =
     bind_result (case v of PInt i \<Rightarrow> Inr i | PStr s \<Rightarrow> parse_integer v name
                  | _ \<Rightarrow> tool_error ''invalid_argument'' (name @ '' must be an integer'')) (\<lambda>parsed.
     if low \<le> parsed \<and> parsed \<le> high then Inr parsed
     else tool_error ''limit_exceeded''
       (name @ '' must be between '' @ show_int low @ '' and '' @ show_int high))"

text \<open>\<open>str(value)\<close> itself refuses integers beyond Python's conversion limit, which is larger than
  the output limit, so both refusals are the same error.\<close>

definition format_integer :: "int \<Rightarrow> pyval result" where
  "format_integer v =
     (if MAX_OUTPUT_DIGITS < length (dec_digits (nat \<bar>v\<bar>))
      then tool_error ''output_too_large'' ''result exceeds the output digit limit''
      else Inr (PStr (show_int v)))"

definition operand_list :: "arguments \<Rightarrow> nat \<Rightarrow> nat \<Rightarrow> pyval list result" where
  "operand_list args minimum maximum =
     (if \<not> has_key args ''operands''
      then tool_error ''invalid_argument'' ''operands is required''
      else case dict_get args ''operands'' of
        PList raw \<Rightarrow>
          if minimum \<le> length raw \<and> length raw \<le> maximum then Inr raw
          else tool_error ''limit_exceeded'' ''operand list length is out of bounds''
      | _ \<Rightarrow> tool_error ''invalid_argument'' ''operands must be a list'')"

definition named_or_operands :: "arguments \<Rightarrow> string list \<Rightarrow> nat \<Rightarrow> nat \<Rightarrow> pyval list result" where
  "named_or_operands args names minimum maximum =
     (if \<exists>n \<in> set names. has_key args n
      then if \<not> (\<forall>n \<in> set names. has_key args n) \<or> has_key args ''operands''
        then tool_error ''invalid_argument'' ''use either named operands or operands, not both''
        else Inr (map (dict_get args) names)
      else operand_list args minimum maximum)"

definition indexed_integers :: "string \<Rightarrow> pyval list \<Rightarrow> int list result" where
  "indexed_integers label raw =
     traverse (\<lambda>(index, v). parse_integer v (label @ ''['' @ show_int (int index) @ '']''))
       (zip [0..<length raw] raw)"

section \<open>Byte values\<close>

type_synonym byte = "8 word"

definition utf8_length :: "string \<Rightarrow> nat" where
  "utf8_length s = sum_list (map (\<lambda>c. if (of_char c :: nat) < 128 then 1 else 2) s)"

fun unhex :: "string \<Rightarrow> byte list option" where
  "unhex [] = Some []"
| "unhex [c] = None"
| "unhex (a # b # s) =
     (if is_hex_digit a \<and> is_hex_digit b
      then (case unhex s of None \<Rightarrow> None
            | Some bs \<Rightarrow> Some (word_of_nat (16 * hex_digit_value a + hex_digit_value b) # bs))
      else None)"

definition b64_value :: "char \<Rightarrow> nat option" where
  "b64_value c =
     (let n = of_char c :: nat in
      if 65 \<le> n \<and> n \<le> 90 then Some (n - 65)
      else if 97 \<le> n \<and> n \<le> 122 then Some (n - 71)
      else if 48 \<le> n \<and> n \<le> 57 then Some (n + 4)
      else if n = 43 then Some 62 else if n = 47 then Some 63 else None)"

definition b64_bytes :: "nat \<Rightarrow> nat \<Rightarrow> nat \<Rightarrow> nat \<Rightarrow> byte list" where
  "b64_bytes a b c d =
     (let n = ((a * 64 + b) * 64 + c) * 64 + d
      in [word_of_nat (n div 65536), word_of_nat (n div 256), word_of_nat n])"

text \<open>Strict base64: quadruples of the alphabet, padding only in the last one.\<close>

fun unbase64 :: "string \<Rightarrow> byte list option" where
  "unbase64 [] = Some []"
| "unbase64 (p # q # r # s # rest) =
     (case (b64_value p, b64_value q) of
        (Some a, Some b) \<Rightarrow>
          if rest = [] \<and> s = CHR ''='' then
            (if r = CHR ''='' then Some (take 1 (b64_bytes a b 0 0))
             else case b64_value r of None \<Rightarrow> None
               | Some c \<Rightarrow> Some (take 2 (b64_bytes a b c 0)))
          else (case (b64_value r, b64_value s, unbase64 rest) of
              (Some c, Some d, Some bs) \<Rightarrow> Some (b64_bytes a b c d @ bs)
            | _ \<Rightarrow> None)
      | _ \<Rightarrow> None)"
| "unbase64 _ = None"

definition byte_value :: "pyval \<Rightarrow> string \<Rightarrow> byte list result" where
  "byte_value v name =
     bind_result (mapping v name) (\<lambda>obj.
     bind_result (check_keys obj {''encoding'', ''data'', ''length''}) (\<lambda>_.
     bind_result (required obj ''encoding'') (\<lambda>encoding.
     bind_result (required obj ''data'') (\<lambda>data.
     if encoding \<noteq> PStr ''hex'' \<and> encoding \<noteq> PStr ''base64''
     then tool_error ''invalid_encoding'' (name @ ''.encoding must be hex or base64'')
     else case data of
       PStr text \<Rightarrow>
         let hex = (encoding = PStr ''hex'') in
         if MAX_DATA_BYTES * (if hex then 2 else 4) + 16 < utf8_length text
         then tool_error ''limit_exceeded'' (name @ ''.data exceeds the byte limit'')
         else (case (if hex then unhex text else unbase64 text) of
             None \<Rightarrow> tool_error ''invalid_encoding''
               (name @ ''.data is not valid '' @ (if hex then ''hex'' else ''base64''))
           | Some decoded \<Rightarrow>
               if MAX_DATA_BYTES < length decoded
               then tool_error ''limit_exceeded'' (name @ ''.data exceeds the byte limit'')
               else if has_key obj ''length'' \<and> dict_get obj ''length'' \<noteq> PInt (int (length decoded))
               then tool_error ''invalid_argument'' (name @ ''.length does not match decoded data'')
               else Inr decoded)
     | _ \<Rightarrow> tool_error ''invalid_argument'' (name @ ''.data must be a string'')))))"

definition hex_text :: "byte list \<Rightarrow> string" where
  "hex_text bs = concat (map (\<lambda>b. [hex_char (unat b div 16), hex_char (unat b mod 16)]) bs)"

definition byte_result :: "byte list \<Rightarrow> bool option \<Rightarrow> pyval result" where
  "byte_result data repeat =
     (if MAX_DATA_BYTES < length data
      then tool_error ''limit_exceeded'' ''byte result exceeds the data limit''
      else Inr (PDict ([(''encoding'', PStr ''hex''), (''data'', PStr (hex_text data)),
                        (''length'', PInt (int (length data)))]
                       @ (case repeat of None \<Rightarrow> [] | Some b \<Rightarrow> [(''repeat'', PBool b)]))))"

definition little_endian :: "arguments \<Rightarrow> bool result" where
  "little_endian args =
     bind_result (required args ''endianness'') (\<lambda>v.
       if v = PStr ''little'' then Inr True else if v = PStr ''big'' then Inr False
       else tool_error ''invalid_argument'' ''endianness must be little or big'')"

definition signed_flag :: "arguments \<Rightarrow> bool result" where
  "signed_flag args =
     bind_result (required args ''signed'') (\<lambda>v. case v of PBool b \<Rightarrow> Inr b
       | _ \<Rightarrow> tool_error ''invalid_argument'' ''signed must be a boolean'')"

definition pack_width :: "arguments \<Rightarrow> int result" where
  "pack_width args = bind_result (required args ''width'') (\<lambda>v. small_integer v ''width'' 1 MAX_PACK_WIDTH)"

definition finalize :: "string \<Rightarrow> pyval \<Rightarrow> pyval result" where
  "finalize operation r =
     (let payload = PDict [(''operation'', PStr operation), (''result'', r),
                           (''model_derived'', PBool True), (''candidate_eligible'', PBool False)] in
      if MAX_OUTPUT_BYTES < length (json_dumps payload)
      then tool_error ''output_too_large'' ''exact-tool output exceeds the byte limit''
      else Inr payload)"

section \<open>The congruence system\<close>

definition crt_pair :: "pyval \<times> string \<Rightarrow> pyval \<times> string \<Rightarrow> (int \<times> int) result" where
  "crt_pair r m =
     bind_result (parse_integer (fst r) (snd r)) (\<lambda>residue.
     bind_result (parse_integer (fst m) (snd m)) (\<lambda>modulus. Inr (residue, modulus)))"

definition crt_operand :: "nat \<times> pyval \<Rightarrow> (int \<times> int) result" where
  "crt_operand = (\<lambda>(index, pair).
     let i = show_int (int index);
         named = (\<lambda>r m. crt_pair (r, ''residue['' @ i @ '']'') (m, ''modulus['' @ i @ '']'')) in
     case pair of
       PList [r, m] \<Rightarrow> named r m
     | _ \<Rightarrow> bind_result (mapping pair (''operands['' @ i @ '']'')) (\<lambda>obj.
         if keys_are obj {''remainder'', ''modulus''}
         then named (dict_get obj ''remainder'') (dict_get obj ''modulus'')
         else if keys_are obj {''residue'', ''modulus''}
         then named (dict_get obj ''residue'') (dict_get obj ''modulus'')
         else tool_error ''invalid_argument'' ''each CRT operand must contain remainder and modulus''))"

definition crt_system :: "arguments \<Rightarrow> (int \<times> int) list result" where
  "crt_system args =
     (if has_key args ''residues'' \<or> has_key args ''moduli''
      then if has_key args ''operands'' \<or> \<not> (has_key args ''residues'' \<and> has_key args ''moduli'')
        then tool_error ''invalid_argument'' ''CRT requires residues and moduli together''
        else (case (dict_get args ''residues'', dict_get args ''moduli'') of
            (PList rs, PList ms) \<Rightarrow>
              if length rs \<noteq> length ms \<or> rs = [] \<or> MAX_LIST_ITEMS < length rs
              then tool_error ''limit_exceeded'' ''CRT system length is out of bounds''
              else traverse (\<lambda>(r, m). crt_pair (r, ''residue'') (m, ''modulus'')) (zip rs ms)
          | _ \<Rightarrow> tool_error ''invalid_argument'' ''CRT residues and moduli must be lists'')
      else bind_result (operand_list args 1 MAX_LIST_ITEMS) (\<lambda>pairs.
        traverse crt_operand (zip [0..<length pairs] pairs)))"

section \<open>The operations\<close>

definition op_gcd :: "arguments \<Rightarrow> pyval result" where
  "op_gcd args =
     bind_result (check_keys args {''operation'', ''operands'', ''a'', ''b''}) (\<lambda>_.
     bind_result (named_or_operands args [''a'', ''b''] 2 MAX_OPERANDS) (\<lambda>raw.
     bind_result (indexed_integers ''operand'' raw) (\<lambda>values.
     bind_result (format_integer (fold gcd values 0)) (finalize ''gcd''))))"

definition op_xgcd :: "arguments \<Rightarrow> pyval result" where
  "op_xgcd args =
     bind_result (check_keys args {''operation'', ''operands'', ''a'', ''b''}) (\<lambda>_.
     bind_result (named_or_operands args [''a'', ''b''] 2 MAX_OPERANDS) (\<lambda>raw.
     bind_result (indexed_integers ''operand'' raw) (\<lambda>values.
     case values of
       [a, b] \<Rightarrow>
         let (g, x, y) = xgcd a b in
         bind_result (format_integer g) (\<lambda>tg.
         bind_result (format_integer x) (\<lambda>tx.
         bind_result (format_integer y) (\<lambda>ty.
         finalize ''xgcd'' (PDict [(''gcd'', tg), (''x'', tx), (''y'', ty)]))))
     | _ \<Rightarrow> tool_error ''invalid_argument'' ''xgcd requires exactly two operands'')))"

definition mod_inverse :: "int \<Rightarrow> int \<Rightarrow> int result" where
  "mod_inverse v modulus =
     (if modulus \<le> 1 then tool_error ''invalid_modulus'' ''modulus must be greater than one''
      else let (g, c, _) = xgcd v modulus in
        if g \<noteq> 1 then tool_error ''not_invertible'' ''value has no modular inverse''
        else Inr (c mod modulus))"

definition op_mod_inverse :: "arguments \<Rightarrow> pyval result" where
  "op_mod_inverse args =
     bind_result (check_keys args {''operation'', ''operands'', ''a'', ''modulus''}) (\<lambda>_.
     bind_result (named_or_operands args [''a'', ''modulus''] 2 2) (\<lambda>raw.
     bind_result (parse_integer (raw ! 0) ''a'') (\<lambda>v.
     bind_result (parse_integer (raw ! 1) ''modulus'') (\<lambda>modulus.
     bind_result (bind_result (mod_inverse v modulus) format_integer) (finalize ''mod_inverse'')))))"

text \<open>The built-in \<open>pow(base, exponent, modulus)\<close> by repeated squaring, for a positive modulus.\<close>

fun mod_power :: "int \<Rightarrow> nat \<Rightarrow> int \<Rightarrow> int" where
  "mod_power b e m =
     (if e = 0 then 1 mod m
      else let h = mod_power (b * b mod m) (e div 2) m in if odd e then b * h mod m else h)"

declare mod_power.simps [simp del]

definition op_mod_pow :: "arguments \<Rightarrow> pyval result" where
  "op_mod_pow args =
     bind_result (check_keys args {''operation'', ''operands'', ''base'', ''exponent'', ''modulus''}) (\<lambda>_.
     bind_result (named_or_operands args [''base'', ''exponent'', ''modulus''] 3 3) (\<lambda>raw.
     bind_result (parse_integer (raw ! 0) ''base'') (\<lambda>b.
     bind_result (parse_integer (raw ! 1) ''exponent'') (\<lambda>e.
     bind_result (parse_integer (raw ! 2) ''modulus'') (\<lambda>m.
     if e < 0 then tool_error ''invalid_argument'' ''exponent must be non-negative''
     else if m \<le> 0 then tool_error ''invalid_modulus'' ''modulus must be positive''
     else bind_result (format_integer (mod_power b (nat e) m)) (finalize ''mod_pow''))))))"

definition op_crt :: "arguments \<Rightarrow> pyval result" where
  "op_crt args =
     bind_result (check_keys args {''operation'', ''operands'', ''residues'', ''moduli''}) (\<lambda>_.
     bind_result (bind_result (crt_system args) crt) (\<lambda>(v, modulus).
     bind_result (format_integer v) (\<lambda>tv.
     bind_result (format_integer modulus) (\<lambda>tm.
     finalize ''crt'' (PDict [(''value'', tv), (''modulus'', tm)])))))"

definition integer_root :: "int \<Rightarrow> int \<Rightarrow> (int \<times> bool) result" where
  "integer_root v degree =
     (if degree < 1 \<or> int MAX_INTEGER_DIGITS < degree
      then tool_error ''limit_exceeded'' ''degree is out of bounds''
      else if v < 0 \<and> even degree
      then tool_error ''root_domain'' ''an even root of a negative integer is undefined''
      else bind_result (positive_nth_root \<bar>v\<bar> degree) (\<lambda>(magnitude, exact).
        let magnitude = (if v < 0 \<and> \<not> exact then magnitude + 1 else magnitude)
        in Inr (if v < 0 then - magnitude else magnitude, exact)))"

definition op_integer_root :: "arguments \<Rightarrow> pyval result" where
  "op_integer_root args =
     bind_result (check_keys args {''operation'', ''operands'', ''value'', ''degree''}) (\<lambda>_.
     bind_result (named_or_operands args [''value'', ''degree''] 2 2) (\<lambda>raw.
     bind_result (parse_integer (raw ! 0) ''value'') (\<lambda>v.
     bind_result (parse_integer (raw ! 1) ''degree'') (\<lambda>degree.
     bind_result (integer_root v degree) (\<lambda>(root, exact).
     bind_result (format_integer root) (\<lambda>t.
     finalize ''integer_root'' (PDict [(''root'', t), (''exact'', PBool exact)])))))))"

definition xor_bytes :: "byte list \<Rightarrow> byte list \<Rightarrow> bool \<Rightarrow> byte list" where
  "xor_bytes left right repeat =
     (if repeat then map (\<lambda>i. left ! i XOR right ! (i mod length right)) [0..<length left]
      else map2 (XOR) left right)"

definition op_xor :: "arguments \<Rightarrow> pyval result" where
  "op_xor args =
     bind_result (check_keys args {''operation'', ''left'', ''right'', ''repeat''}) (\<lambda>_.
     bind_result (bind_result (required args ''left'') (\<lambda>v. byte_value v ''left'')) (\<lambda>left.
     bind_result (bind_result (required args ''right'') (\<lambda>v. byte_value v ''right'')) (\<lambda>right.
     bind_result (required args ''repeat'') (\<lambda>flag.
     case flag of
       PBool repeat \<Rightarrow>
         if \<not> repeat \<and> length left \<noteq> length right
         then tool_error ''length_mismatch'' ''non-repeating XOR inputs must have equal lengths''
         else if repeat \<and> (left = [] \<or> right = [])
         then tool_error ''invalid_argument'' ''repeating XOR inputs must be non-empty''
         else bind_result (byte_result (xor_bytes left right repeat) (Some repeat)) (finalize ''xor'')
     | _ \<Rightarrow> tool_error ''invalid_argument'' ''repeat must be a boolean''))))"

definition op_rotate :: "arguments \<Rightarrow> pyval result" where
  "op_rotate args =
     bind_result (check_keys args {''operation'', ''value'', ''shift'', ''width'', ''direction''}) (\<lambda>_.
     bind_result (bind_result (required args ''value'') (\<lambda>v. parse_integer v ''value'')) (\<lambda>v.
     bind_result (bind_result (required args ''shift'')
       (\<lambda>s. small_integer s ''shift'' (- MAX_ROTATE_WIDTH) MAX_ROTATE_WIDTH)) (\<lambda>shift.
     bind_result (bind_result (required args ''width'')
       (\<lambda>w. small_integer w ''width'' 1 MAX_ROTATE_WIDTH)) (\<lambda>width.
     bind_result (required args ''direction'') (\<lambda>direction.
     if direction \<noteq> PStr ''left'' \<and> direction \<noteq> PStr ''right''
     then tool_error ''invalid_argument'' ''direction must be left or right''
     else if v < 0 \<or> 2 ^ nat width \<le> v
     then tool_error ''value_out_of_range'' ''value does not fit the requested rotate width''
     else bind_result (format_integer (rotate_value v shift width (direction = PStr ''right'')))
       (finalize ''rotate''))))))"

definition pack_item :: "nat \<Rightarrow> bool \<Rightarrow> bool \<Rightarrow> nat \<times> pyval \<Rightarrow> byte list result" where
  "pack_item width little is_signed = (\<lambda>(index, raw).
     bind_result (parse_integer raw (''values['' @ show_int (int index) @ '']'')) (\<lambda>v.
     if pack_lower width is_signed \<le> v \<and> v \<le> pack_upper width is_signed
     then Inr (to_bytes width little v)
     else tool_error ''value_out_of_range'' ''value does not fit the requested pack width''))"

definition pack_values :: "nat \<Rightarrow> bool \<Rightarrow> bool \<Rightarrow> pyval list \<Rightarrow> byte list result" where
  "pack_values width little is_signed raw =
     bind_result (traverse (pack_item width little is_signed) (zip [0..<length raw] raw)) (\<lambda>bss.
     Inr (concat bss))"

definition op_pack :: "arguments \<Rightarrow> pyval result" where
  "op_pack args =
     bind_result (check_keys args
       {''operation'', ''values'', ''width'', ''endianness'', ''signed'', ''operands''}) (\<lambda>_.
     if has_key args ''values'' \<and> has_key args ''operands''
     then tool_error ''invalid_argument'' ''use values or operands, not both''
     else (case (if has_key args ''values'' then dict_get args ''values'' else dict_get args ''operands'') of
         PList raw \<Rightarrow>
           if raw = [] \<or> MAX_LIST_ITEMS < length raw
           then tool_error ''limit_exceeded'' ''values list length is out of bounds''
           else bind_result (pack_width args) (\<lambda>width.
             bind_result (little_endian args) (\<lambda>little.
             bind_result (signed_flag args) (\<lambda>is_signed.
             bind_result (pack_values (nat width) little is_signed raw) (\<lambda>packed.
             bind_result (byte_result packed None) (finalize ''pack'')))))
       | _ \<Rightarrow> tool_error ''invalid_argument'' ''values must be a list''))"

definition unpack_values :: "nat \<Rightarrow> bool \<Rightarrow> bool \<Rightarrow> byte list \<Rightarrow> pyval list result" where
  "unpack_values width little is_signed data =
     traverse (\<lambda>bs. format_integer (from_bytes little is_signed bs)) (chunks width data)"

definition op_unpack :: "arguments \<Rightarrow> pyval result" where
  "op_unpack args =
     bind_result (check_keys args {''operation'', ''data'', ''width'', ''endianness'', ''signed''}) (\<lambda>_.
     bind_result (bind_result (required args ''data'') (\<lambda>v. byte_value v ''data'')) (\<lambda>data.
     bind_result (pack_width args) (\<lambda>width.
     bind_result (little_endian args) (\<lambda>little.
     bind_result (signed_flag args) (\<lambda>is_signed.
     if length data mod nat width \<noteq> 0
     then tool_error ''length_mismatch'' ''unpack data length must be a multiple of width''
     else if MAX_LIST_ITEMS < length data div nat width
     then tool_error ''limit_exceeded'' ''unpack result list is too large''
     else bind_result (unpack_values (nat width) little is_signed data)
       (\<lambda>values. finalize ''unpack'' (PList values)))))))"

definition OPERATIONS :: "(string \<times> (arguments \<Rightarrow> pyval result)) list" where
  "OPERATIONS =
     [(''gcd'', op_gcd), (''xgcd'', op_xgcd), (''mod_inverse'', op_mod_inverse),
      (''mod_pow'', op_mod_pow), (''crt'', op_crt), (''integer_root'', op_integer_root),
      (''xor'', op_xor), (''rotate'', op_rotate), (''pack'', op_pack), (''unpack'', op_unpack)]"

definition compute_exact :: "pyval \<Rightarrow> pyval result" where
  "compute_exact v =
     bind_result (mapping v ''arguments'') (\<lambda>args.
     bind_result (required args ''operation'') (\<lambda>operation.
     case operation of
       PStr name \<Rightarrow> (case map_of OPERATIONS name of
           None \<Rightarrow> tool_error ''unsupported_operation'' ''unsupported exact operation''
         | Some run \<Rightarrow> run args)
     | _ \<Rightarrow> tool_error ''invalid_argument'' ''operation must be a string''))"

section \<open>Kernel results\<close>

lemma mod_inverse_correct:
  assumes "mod_inverse v m = Inr r"
  shows "0 \<le> r \<and> r < m \<and> v * r mod m = 1"
proof -
  obtain g c d where xg: "xgcd v m = (g, c, d)" by (cases "xgcd v m")
  with assms have m: "1 < m" and g: "g = 1" and r: "r = c mod m"
    by (auto simp: mod_inverse_def tool_error_def split: if_splits)
  have "v * c + m * d = 1" using xgcd_correct [OF xg] g by simp
  then have "v * c mod m = 1 mod m" by (metis mod_mult_self2)
  with m r show ?thesis by (simp add: mod_mult_right_eq)
qed

lemma mod_inverse_defined: "1 < m \<Longrightarrow> coprime v m \<Longrightarrow> \<exists>r. mod_inverse v m = Inr r"
  using xgcd_correct [of v m] by (cases "xgcd v m") (auto simp: mod_inverse_def)

lemma mod_inverse_refused: "1 < m \<Longrightarrow> \<not> coprime v m \<Longrightarrow>
    mod_inverse v m = tool_error ''not_invertible'' ''value has no modular inverse''"
  using xgcd_correct [of v m] by (cases "xgcd v m") (auto simp: mod_inverse_def coprime_iff_gcd_eq_1)

lemma mod_power_correct: "mod_power b e m = b ^ e mod m"
proof (induction b e m rule: mod_power.induct)
  case (1 b e m)
  show ?case
  proof (cases "e = 0")
    case True
    then show ?thesis by (simp add: mod_power.simps)
  next
    case False
    have IH: "mod_power (b * b mod m) (e div 2) m = (b * b) ^ (e div 2) mod m"
      using "1.IH" [OF False] by (simp add: power_mod)
    show ?thesis
    proof (cases "odd e")
      case True
      then have "b ^ e = b * (b * b) ^ (e div 2)"
        by (metis odd_two_times_div_two_succ power_Suc power_mult Suc_eq_plus1 power2_eq_square)
      then show ?thesis using False True IH
        by (subst mod_power.simps) (simp add: Let_def mod_mult_right_eq)
    next
      case even: False
      then have "b ^ e = (b * b) ^ (e div 2)"
        by (metis dvd_mult_div_cancel power_mult power2_eq_square)
      then show ?thesis using False even IH
        by (subst mod_power.simps) (simp add: Let_def)
    qed
  qed
qed

lemma integer_root_correct:
  assumes "integer_root v degree = Inr (r, exact)"
  shows "r ^ nat degree \<le> v \<and> v < (r + 1) ^ nat degree \<and> (exact \<longleftrightarrow> r ^ nat degree = v)"
proof -
  from assms have deg: "1 \<le> degree" and parity: "v < 0 \<longrightarrow> odd degree"
    by (auto simp: integer_root_def tool_error_def split: if_splits)
  let ?d = "nat degree"
  obtain m where m: "positive_nth_root \<bar>v\<bar> degree = Inr (m, m ^ ?d = \<bar>v\<bar>)" "0 \<le> m"
    "m ^ ?d \<le> \<bar>v\<bar>" "\<bar>v\<bar> < (m + 1) ^ ?d"
    using positive_nth_root_correct [of "\<bar>v\<bar>" degree] deg by auto
  show ?thesis
  proof (cases "v < 0")
    case False
    with assms m deg show ?thesis
      by (auto simp: integer_root_def tool_error_def Let_def split: if_splits)
  next
    case True
    with parity deg have odd: "odd ?d" by (simp add: even_nat_iff)
    have r: "r = (if exact then - m else - (m + 1))" "exact \<longleftrightarrow> m ^ ?d = - v"
      using assms m(1) True parity deg
      by (auto simp: integer_root_def tool_error_def Let_def split: if_splits)
    show ?thesis
    proof (cases exact)
      case True
      with r have "r = - m" "m ^ ?d = - v" by simp_all
      moreover have "m \<noteq> 0"
      proof
        assume "m = 0"
        with \<open>m ^ ?d = - v\<close> deg \<open>v < 0\<close> show False by (simp add: zero_power)
      qed
      moreover have "(m - 1) ^ ?d < m ^ ?d"
        using \<open>m \<noteq> 0\<close> m(2) deg by (intro power_strict_mono) simp_all
      moreover note power_minus_odd [OF odd, of "m - 1"] power_minus_odd [OF odd, of m]
      moreover have "r + 1 = - (m - 1)" using \<open>r = - m\<close> by simp
      ultimately show ?thesis using True by simp
    next
      case False
      with r m \<open>v < 0\<close> have "r = - (m + 1)" "m ^ ?d < - v" "- v < (m + 1) ^ ?d" by auto
      moreover have "r + 1 = - m" using \<open>r = - (m + 1)\<close> by simp
      moreover have "r ^ ?d = - ((m + 1) ^ ?d)"
        unfolding \<open>r = - (m + 1)\<close> by (rule power_minus_odd [OF odd])
      moreover have "(r + 1) ^ ?d = - (m ^ ?d)"
        unfolding \<open>r + 1 = - m\<close> by (rule power_minus_odd [OF odd])
      ultimately show ?thesis using False by linarith
    qed
  qed
qed

section \<open>Text forms\<close>

lemma digit_not_prefix: "is_digit c \<Longrightarrow> c \<noteq> CHR ''x'' \<and> c \<noteq> CHR ''X'' \<and> c \<noteq> CHR ''+'' \<and> c \<noteq> CHR ''-''"
  by (auto simp: is_digit_def)

lemma dec_digits_not_hex: "\<not> hex_prefixed (dec_digits n)"
proof
  assume "hex_prefixed (dec_digits n)"
  then have "CHR ''x'' \<in> set (take 2 (dec_digits n)) \<or> CHR ''X'' \<in> set (take 2 (dec_digits n))"
    by (auto simp: hex_prefixed_def)
  then show False by (auto dest!: in_set_takeD dec_digits_all_digits digit_not_prefix)
qed

lemma parse_show_int:
  assumes "length (dec_digits (nat \<bar>i\<bar>)) \<le> MAX_INTEGER_DIGITS"
  shows "parse_integer (PStr (show_int i)) name = Inr i"
proof -
  let ?n = "nat \<bar>i\<bar>"
  have body: "integer_body (dec_digits ?n)"
    using dec_digits_all_digits by (auto simp: integer_body_def)
  obtain c r where cr: "dec_digits ?n = c # r" by (cases "dec_digits ?n") auto
  have "is_digit c" using dec_digits_all_digits [of c ?n] cr by simp
  then have "split_sign (dec_digits ?n) = (False, dec_digits ?n)"
    using digit_not_prefix [of c] by (simp add: split_sign_def cr)
  moreover have "split_sign (CHR ''-'' # s) = (True, s)" for s by (simp add: split_sign_def)
  ultimately show ?thesis using body assms dec_digits_not_hex
    by (cases "i < 0") (simp_all add: parse_integer_def show_int_def Let_def)
qed

lemma hex_char_facts: "n < 16 \<Longrightarrow> is_hex_digit (hex_char n) \<and> hex_digit_value (hex_char n) = n"
  by (auto simp: is_hex_digit_def hex_digit_value_def of_hex_char Let_def)

lemma hex_char_ascii: "n < 16 \<Longrightarrow> (of_char (hex_char n) :: nat) < 128"
  by (simp add: of_hex_char)

lemma unhex_hex_text: "unhex (hex_text bs) = Some bs"
proof (induction bs)
  case Nil
  then show ?case by (simp add: hex_text_def)
next
  case (Cons b bs)
  have "unat b < 256" using unsigned_less [of b] by simp
  then have "unat b div 16 < 16" "unat b mod 16 < 16" by simp_all
  moreover have "word_of_nat (16 * (unat b div 16) + unat b mod 16) = b" by simp
  ultimately show ?case using Cons hex_char_facts by (simp add: hex_text_def)
qed

lemma utf8_length_hex_text: "utf8_length (hex_text bs) = 2 * length bs"
proof (induction bs)
  case Nil
  then show ?case by (simp add: hex_text_def utf8_length_def)
next
  case (Cons b bs)
  have "unat b < 256" using unsigned_less [of b] by simp
  then have "(of_char (hex_char (unat b div 16)) :: nat) < 128"
    "(of_char (hex_char (unat b mod 16)) :: nat) < 128" by (intro hex_char_ascii; simp)+
  with Cons show ?case by (simp add: hex_text_def utf8_length_def)
qed

lemma byte_result_read:
  assumes "byte_result bs None = Inr doc"
  shows "byte_value doc name = Inr bs"
proof -
  have doc: "doc = PDict [(''encoding'', PStr ''hex''), (''data'', PStr (hex_text bs)),
      (''length'', PInt (int (length bs)))]" and len: "length bs \<le> MAX_DATA_BYTES"
    using assms by (auto simp: byte_result_def tool_error_def split: if_splits)
  show ?thesis unfolding doc using len
    by (simp add: byte_value_def mapping_def check_keys_def required_def has_key_def
        utf8_length_hex_text unhex_hex_text)
qed

section \<open>Packing and unpacking\<close>

lemma pack_item_Inr:
  "pack_item w l s (i, raw) = Inr bs \<longleftrightarrow>
     (\<exists>v. parse_integer raw (''values'' @ ''['' @ show_int (int i) @ '']'') = Inr v
        \<and> pack_lower w s \<le> v \<and> v \<le> pack_upper w s \<and> bs = to_bytes w l v)"
  by (auto simp: pack_item_def bind_result_Inr_iff tool_error_def)

lemma pack_range_digits:
  assumes "w \<le> 16" "pack_lower w s \<le> v" "v \<le> pack_upper w s"
  shows "format_integer v = Inr (PStr (show_int v))"
proof -
  have "(2 :: int) ^ (8 * w) \<le> 2 ^ 128" "(2 :: int) ^ (8 * w - 1) \<le> 2 ^ 128"
    using assms(1) by (intro power_increasing; simp)+
  then have "\<bar>v\<bar> \<le> 2 ^ 128"
    using assms(2,3) by (auto simp: pack_lower_def pack_upper_def split: if_splits)
  also have "\<dots> < 10 ^ 128" by simp
  finally have "nat \<bar>v\<bar> < 10 ^ 128" by (simp add: nat_less_iff)
  then have "length (dec_digits (nat \<bar>v\<bar>)) \<le> 128" by (rule length_dec_digits_bound) simp
  then show ?thesis by (simp add: format_integer_def exact_limits)
qed

lemma pack_items_values:
  "traverse (pack_item w l s) xs = Inr bss \<Longrightarrow>
     \<exists>vs. traverse (\<lambda>(i, v). parse_integer v (''values'' @ ''['' @ show_int (int i) @ '']'')) xs = Inr vs
       \<and> bss = map (to_bytes w l) vs \<and> (\<forall>v \<in> set vs. pack_lower w s \<le> v \<and> v \<le> pack_upper w s)"
proof (induction xs arbitrary: bss)
  case Nil
  then show ?case by simp
next
  case (Cons x xs)
  obtain i raw where x: "x = (i, raw)" by (cases x)
  from Cons.prems obtain bs rest where "pack_item w l s (i, raw) = Inr bs"
    "traverse (pack_item w l s) xs = Inr rest" "bss = bs # rest"
    by (auto simp: x split: sum.splits)
  with Cons.IH [OF this(2)] show ?case by (auto simp: x pack_item_Inr)
qed

lemma unpack_packed:
  assumes "1 \<le> w" "w \<le> 16" "\<forall>v \<in> set vs. pack_lower w s \<le> v \<and> v \<le> pack_upper w s"
  shows "unpack_values w l s (concat (map (to_bytes w l) vs)) = Inr (map (\<lambda>v. PStr (show_int v)) vs)"
proof -
  have "chunks w (concat (map (to_bytes w l) vs)) = map (to_bytes w l) vs"
    using assms(1) by (intro chunks_concat) auto
  moreover have "traverse (\<lambda>bs. format_integer (from_bytes l s bs)) (map (to_bytes w l) vs) =
      Inr (map (\<lambda>v. PStr (show_int v)) vs)"
    using assms(3) by (induction vs) (simp_all add: from_to_bytes [OF assms(1)] pack_range_digits [OF assms(2), of s])
  ultimately show ?thesis by (simp add: unpack_values_def)
qed

lemma xor_bytes_cancel:
  assumes "if repeat then right \<noteq> [] else length left = length right"
  shows "xor_bytes (xor_bytes left right repeat) right repeat = left"
proof (cases repeat)
  case True
  then show ?thesis by (intro nth_equalityI) (simp_all add: xor_bytes_def xor.assoc)
next
  case False
  with assms show ?thesis by (intro nth_equalityI) (simp_all add: xor_bytes_def xor.assoc)
qed

section \<open>Results\<close>

lemma finalize_Inr:
  "finalize operation r = Inr p \<longleftrightarrow>
     p = PDict [(''operation'', PStr operation), (''result'', r), (''model_derived'', PBool True),
                (''candidate_eligible'', PBool False)]
     \<and> length (json_dumps p) \<le> MAX_OUTPUT_BYTES"
  by (auto simp: finalize_def tool_error_def Let_def)

definition finalized :: "pyval result \<Rightarrow> bool" where
  "finalized r \<longleftrightarrow> (\<forall>p. r = Inr p \<longrightarrow> (\<exists>operation x. finalize operation x = Inr p))"

lemma finalized_bind: "(\<And>x. finalized (f x)) \<Longrightarrow> finalized (bind_result m f)"
  by (auto simp: finalized_def bind_result_Inr_iff)

lemma finalized_if: "finalized x \<Longrightarrow> finalized y \<Longrightarrow> finalized (if b then x else y)"
  by simp

lemma finalized_leaves [simp]:
  "finalized (tool_error c msg)" "finalized (finalize operation x)"
  by (auto simp: finalized_def tool_error_def)

lemmas finalized_intros = finalized_bind finalized_if finalized_leaves

lemma finalized_operations:
  "finalized (op_gcd a)" "finalized (op_xgcd a)" "finalized (op_mod_inverse a)" "finalized (op_mod_pow a)"
  "finalized (op_crt a)" "finalized (op_integer_root a)" "finalized (op_xor a)" "finalized (op_rotate a)"
  "finalized (op_pack a)" "finalized (op_unpack a)"
  unfolding op_gcd_def op_xgcd_def op_mod_inverse_def op_mod_pow_def op_crt_def op_integer_root_def
    op_xor_def op_rotate_def op_pack_def op_unpack_def
  by (intro finalized_intros; (simp split: list.split pyval.split prod.split)?;
      intro allI impI conjI finalized_intros)+

lemma compute_exact_finalized: "finalized (compute_exact v)"
proof -
  have "\<forall>(name, run) \<in> set OPERATIONS. \<forall>args. finalized (run args)"
    by (simp add: OPERATIONS_def finalized_operations)
  then have "finalized (run args)" if "map_of OPERATIONS name = Some run" for name run args
    using map_of_SomeD [OF that] by blast
  then show ?thesis
    unfolding compute_exact_def
    by (intro finalized_bind) (simp split: pyval.split option.split)
qed
section \<open>Properties\<close>

lemma moduli_dvd: "(r, n) \<in> set system \<Longrightarrow> n dvd moduli_lcm system"
  by (induction system rule: moduli_lcm.induct) (auto intro: dvd_trans [OF _ dvd_lcm2])

lemma cong_moduli_lcm:
  "\<forall>(r, n) \<in> set system. x mod n = y mod n \<Longrightarrow> x mod moduli_lcm system = y mod moduli_lcm system"
  by (induction system rule: moduli_lcm.induct) (auto intro: cong_lcm)

lemma solutions_cong:
  assumes "solves x system"
  shows "solves z system \<longleftrightarrow> z mod moduli_lcm system = x mod moduli_lcm system"
proof
  assume "solves z system"
  with assms show "z mod moduli_lcm system = x mod moduli_lcm system"
    by (intro cong_moduli_lcm) (fastforce simp: solves_def)
next
  assume z: "z mod moduli_lcm system = x mod moduli_lcm system"
  have "z mod n = x mod n" if "(r, n) \<in> set system" for r n
    using mod_dvd_cong [OF z moduli_dvd [OF that]] .
  with assms show "solves z system" by (fastforce simp: solves_def)
qed

text \<open>C34. The incremental Chinese remainder solver is sound and its answer is the whole solution set:
  when it returns a value and a modulus, every modulus of the system was positive, the modulus is
  the least common multiple of them all (coprime or not), the value is the reduced solution, and
  the solutions of the system are exactly the integers congruent to it.\<close>

theorem crt_solution_set:
  assumes "crt system = Inr (x, m)"
  shows "(\<forall>(r, n) \<in> set system. 0 < n) \<and> m = moduli_lcm system \<and> 0 \<le> x \<and> x < m
    \<and> (\<forall>z. solves z system \<longleftrightarrow> z mod m = x)"
proof -
  have *: "m = moduli_lcm system" "solves x system" "0 \<le> x" "x < m" "\<forall>(r, n) \<in> set system. 0 < n"
    using crt_sound [OF assms] by auto
  have "solves z system \<longleftrightarrow> z mod m = x mod m" for z using solutions_cong [OF *(2)] *(1) by simp
  with * show ?thesis by (simp add: mod_pos_pos_trivial)
qed

lemma sample_crt: "crt [(2, 4), (4, 6)] = Inr (10, 12)"
proof -
  have "gcd 4 6 = (2 :: int)" by (simp add: gcd_non_0_int)
  moreover have "int_bits 4 = 3" "int_bits 12 = 4"
    by (simp_all add: int_bits_def bit_length.simps)
  moreover have "xgcd 2 3 = (1, - 1, 1)" "xgcd 1 4 = (1, 1, 0)"
    by (simp_all add: xgcd_def xgcd_loop.simps)
  ultimately show ?thesis by (simp add: crt_def Let_def exact_limits)
qed

theorem crt_solution_set_witness:
  "\<forall>z. solves z [(2, 4), (4, 6)] \<longleftrightarrow> z mod 12 = 10"
  using crt_solution_set [OF sample_crt] by simp

text \<open>The solver never refuses a solvable system on arithmetic grounds: when all moduli are
  positive and some integer satisfies every congruence, the only possible refusal is the bound on
  the size of the combined modulus.\<close>

theorem crt_refuses_only_size:
  assumes "solves z system" "\<forall>(r, n) \<in> set system. 0 < n" "crt system = Inl e"
  shows "e = ToolError ''limit_exceeded'' ''CRT modulus exceeds the result digit limit''"
  using assms by (rule crt_complete)

lemma bit_length_two_power: "bit_length (2 ^ k) = Suc k"
proof (induction k)
  case 0
  show ?case by (subst bit_length.simps, simp, subst bit_length.simps, simp)
next
  case (Suc k)
  then show ?case by (subst bit_length.simps) simp
qed

lemma sample_huge_crt:
  "crt [(0, 2 ^ 16384)] = Inl (ToolError ''limit_exceeded'' ''CRT modulus exceeds the result digit limit'')"
proof -
  define N :: int where "N = 2 ^ 16384"
  have "int_bits N = 16385"
    using bit_length_two_power [of 16384] by (simp add: int_bits_def N_def nat_power_eq)
  moreover have "0 < N" by (simp add: N_def)
  ultimately show ?thesis unfolding N_def [symmetric]
    by (simp add: crt_def Let_def tool_error_def exact_limits)
qed

theorem crt_refuses_only_size_witness:
  "\<exists>e. crt [(0, 2 ^ 16384)] = Inl e
     \<and> e = ToolError ''limit_exceeded'' ''CRT modulus exceeds the result digit limit''"
proof -
  have "solves 0 [(0, 2 ^ 16384)]" by (simp add: solves_def)
  moreover have "\<forall>(r, n) \<in> set [(0 :: int, 2 ^ 16384 :: int)]. 0 < n"
    unfolding list.set by (simp only: ball_simps split_def) simp
  ultimately show ?thesis using crt_refuses_only_size sample_huge_crt by blast
qed

text \<open>The integer root is the floor of the real root for every degree, and for negative values of
  odd degree too: its power does not exceed the value, the power of its successor does, and the
  exact flag says precisely whether the value is a perfect power.\<close>

theorem integer_root_is_floor:
  assumes "integer_root v degree = Inr (r, exact)"
  shows "r ^ nat degree \<le> v \<and> v < (r + 1) ^ nat degree \<and> (exact \<longleftrightarrow> r ^ nat degree = v)"
  using assms by (rule integer_root_correct)

theorem integer_root_is_floor_witness:
  "(- 4 :: int) ^ nat 3 \<le> - 30 \<and> - 30 < ((- 4 :: int) + 1) ^ nat 3"
proof -
  have "integer_root (- 30) 3 = Inr (- 4, False)"
    by (simp add: integer_root_def positive_nth_root_def bit_length.simps root_bisect.simps
        power_at_most_def power_loop.simps exact_limits)
  from integer_root_is_floor [OF this] show ?thesis by simp
qed

text \<open>Modular inversion decides invertibility: for a modulus above one it returns the reduced
  inverse of every unit and refuses every other value.\<close>

theorem mod_inverse_decides:
  assumes "1 < m"
  shows "(case mod_inverse v m of
      Inr r \<Rightarrow> coprime v m \<and> 0 \<le> r \<and> r < m \<and> v * r mod m = 1
    | Inl e \<Rightarrow> \<not> coprime v m \<and> e = ToolError ''not_invertible'' ''value has no modular inverse'')"
proof (cases "coprime v m")
  case True
  then obtain r where "mod_inverse v m = Inr r" using mod_inverse_defined assms by blast
  with True mod_inverse_correct show ?thesis by simp
next
  case False
  with mod_inverse_refused [OF assms] show ?thesis by (simp add: tool_error_def)
qed

theorem mod_inverse_decides_witness: "coprime (3 :: int) 7 \<and> 3 * 5 mod 7 = (1 :: int)"
proof -
  have "mod_inverse 3 7 = Inr 5" by (simp add: mod_inverse_def xgcd_def xgcd_loop.simps Let_def)
  then show ?thesis using mod_inverse_decides [of 7 3] by simp
qed

text \<open>Rotation is reversible: a value of the width rotated by any signed shift in one direction
  stays within the width, and rotating the result by the same shift in the other direction
  restores the value.\<close>

theorem rotate_opposite_restores:
  assumes "0 < width" "0 \<le> v" "v < 2 ^ nat width"
  shows "0 \<le> rotate_value v shift width right \<and> rotate_value v shift width right < 2 ^ nat width
    \<and> rotate_value (rotate_value v shift width right) shift width (\<not> right) = v"
  using rotate_value_range [OF assms] rotate_value_opposite [OF assms] by blast

theorem rotate_opposite_restores_witness:
  "rotate_value (rotate_value 0xB1 (- 11) 8 False) (- 11) 8 True = 0xB1"
  using rotate_opposite_restores [of 8 "0xB1" "- 11" False] by simp

text \<open>Packing and unpacking are inverse through the tool's own documents: the byte object that
  packing produces is read back as the packed bytes, and unpacking them with the same width, byte
  order and signedness yields the decimal texts of the packed integers, in order.\<close>

theorem pack_unpack_roundtrip:
  assumes "pack_values width little is_signed raw = Inr packed" "1 \<le> width" "width \<le> 16"
    and "byte_result packed None = Inr doc"
  shows "\<exists>vs. indexed_integers ''values'' raw = Inr vs \<and> byte_value doc ''data'' = Inr packed
    \<and> unpack_values width little is_signed packed = Inr (map (\<lambda>v. PStr (show_int v)) vs)"
proof -
  from assms(1) obtain bss where items: "traverse (pack_item width little is_signed)
      (zip [0..<length raw] raw) = Inr bss" "packed = concat bss"
    by (auto simp: pack_values_def bind_result_Inr_iff)
  obtain vs where "indexed_integers ''values'' raw = Inr vs" "bss = map (to_bytes width little) vs"
    "\<forall>v \<in> set vs. pack_lower width is_signed \<le> v \<and> v \<le> pack_upper width is_signed"
    using pack_items_values [OF items(1)] by (auto simp: indexed_integers_def)
  with unpack_packed [OF assms(2,3)] byte_result_read [OF assms(4)] items(2) show ?thesis by auto
qed

lemma le_bytes_2: "le_bytes 2 v = [word_of_int v, word_of_int (v div 256)]"
  by (simp add: numeral_2_eq_2)

lemma sample_packed:
  "pack_values 2 False True [PStr ''-2'', PStr ''0x102''] = Inr [0xFF, 0xFE, 1, 2]"
  by (simp add: pack_values_def pack_item_def parse_integer_def split_sign_def integer_body_def
      hex_prefixed_def is_digit_def is_hex_digit_def Let_def exact_limits dec_value_def
      hex_text_value_def hex_digit_value_def pack_lower_def pack_upper_def to_bytes_def
      le_bytes_2 upt_rec)

theorem pack_unpack_roundtrip_witness:
  "\<exists>vs. unpack_values 2 False True [0xFF, 0xFE, 1, 2] = Inr (map (\<lambda>v. PStr (show_int v)) vs)"
proof -
  obtain doc where "byte_result [0xFF, 0xFE, 1, 2] None = Inr doc"
    by (simp add: byte_result_def exact_limits)
  with pack_unpack_roundtrip [OF sample_packed] show ?thesis by auto
qed

text \<open>No result of the exact tool can become a candidate: whatever arguments it is given, a
  successful call returns exactly the four-field payload marked as model-derived and not candidate
  eligible, and its JSON text is within the output limit.\<close>

theorem compute_exact_never_eligible:
  assumes "compute_exact v = Inr payload"
  shows "\<exists>operation r. payload = PDict [(''operation'', PStr operation), (''result'', r),
      (''model_derived'', PBool True), (''candidate_eligible'', PBool False)]
    \<and> length (json_dumps payload) \<le> MAX_OUTPUT_BYTES"
  using compute_exact_finalized [of v] assms by (auto simp: finalized_def finalize_Inr)

definition sample_gcd_call :: pyval where
  "sample_gcd_call = PDict [(''operation'', PStr ''gcd''), (''a'', PStr ''12''), (''b'', PStr ''0x12'')]"

lemma sample_gcd: "\<exists>p. compute_exact sample_gcd_call = Inr p"
proof -
  have "named_or_operands [(''operation'', PStr ''gcd''), (''a'', PStr ''12''), (''b'', PStr ''0x12'')]
      [''a'', ''b''] 2 MAX_OPERANDS = Inr [PStr ''12'', PStr ''0x12'']"
    by (auto simp: named_or_operands_def has_key_def)
  moreover have "indexed_integers ''operand'' [PStr ''12'', PStr ''0x12''] = Inr [12, 18]"
    by (simp add: indexed_integers_def parse_integer_def split_sign_def integer_body_def
        hex_prefixed_def is_digit_def is_hex_digit_def Let_def exact_limits dec_value_def
        hex_text_value_def hex_digit_value_def upt_rec)
  moreover have "format_integer 6 = Inr (PStr ''6'')"
  proof -
    have "char_of (54 :: nat) = CHR ''6''" by (rule char_eq_of_char [symmetric]) simp
    then show ?thesis
      by (simp add: format_integer_def dec_digits.simps digit_char_def show_int_def exact_limits)
  qed
  ultimately show ?thesis
    by (simp add: compute_exact_def sample_gcd_call_def mapping_def required_def has_key_def
        OPERATIONS_def op_gcd_def check_keys_def finalize_def exact_limits gcd_non_0_int Let_def
        json_string_def json_escape_def join_def)
qed

theorem compute_exact_never_eligible_witness:
  "\<exists>p. compute_exact sample_gcd_call = Inr p \<and> length (json_dumps p) \<le> MAX_OUTPUT_BYTES"
  using sample_gcd compute_exact_never_eligible by blast

end
