(* ===== verification/Receipt_Accounting.thy ===== *)
theory Receipt_Accounting
  imports Prelude "HOL-Library.Product_Lexorder"
begin

text \<open>
  The counting parts of \<^verbatim>\<open>rapido/native_receipts.py\<close>: the union of activity intervals, the
  classification of native tool calls by stage, and the FIFO accounting of argument repairs.

  A native call is a dictionary whose host observation may be a mapping, an object with \<open>tool\<close> and
  \<open>facts\<close> attributes, or anything else; the record below holds what the code reads of it.
\<close>

section \<open>Interval union\<close>

text \<open>The merged list is kept with its last interval first.\<close>

fun merge_intervals :: "(int \<times> int) list \<Rightarrow> (int \<times> int) list \<Rightarrow> (int \<times> int) list" where
  "merge_intervals merged [] = merged"
| "merge_intervals [] ((s, e) # xs) = merge_intervals [(s, e)] xs"
| "merge_intervals ((a, b) # merged) ((s, e) # xs) =
     (if b < s then merge_intervals ((s, e) # (a, b) # merged) xs
      else merge_intervals ((a, max b e) # merged) xs)"

definition interval_union :: "(int \<times> int) list \<Rightarrow> int" where
  "interval_union intervals =
     sum_list (map (\<lambda>(s, e). e - s) (merge_intervals [] (sort intervals)))"

definition points :: "(int \<times> int) list \<Rightarrow> int set" where
  "points xs = (\<Union>(s, e) \<in> set xs. {s..<e})"

text \<open>A merged list is separated: every interval ends before the one after it starts.\<close>

fun separated :: "(int \<times> int) list \<Rightarrow> bool" where
  "separated [] \<longleftrightarrow> True"
| "separated [(a, b)] \<longleftrightarrow> a \<le> b"
| "separated ((a, b) # (c, d) # xs) \<longleftrightarrow> a \<le> b \<and> d < a \<and> separated ((c, d) # xs)"

lemma points_simps [simp]:
  "points [] = {}" "points ((s, e) # xs) = {s..<e} \<union> points xs"
  by (auto simp: points_def)

lemma separated_tl: "separated (x # xs) \<Longrightarrow> separated xs"
  by (cases x; cases xs) auto

lemma separated_below: "separated ((a, b) # xs) \<Longrightarrow> p \<in> points xs \<Longrightarrow> p < a"
proof (induction xs arbitrary: a b)
  case Nil
  then show ?case by simp
next
  case (Cons x xs)
  obtain c d where x: "x = (c, d)" by (cases x)
  with Cons.prems have "c \<le> d" "d < a" "separated ((c, d) # xs)"
    by (cases xs; auto)+
  with Cons.IH [of c d] Cons.prems(2) x show ?case by fastforce
qed

lemma finite_points [simp]: "finite (points xs)"
  by (auto simp: points_def)

lemma card_separated: "separated xs \<Longrightarrow> int (card (points xs)) = sum_list (map (\<lambda>(s, e). e - s) xs)"
proof (induction xs)
  case Nil
  then show ?case by simp
next
  case (Cons x xs)
  obtain a b where x: "x = (a, b)" by (cases x)
  have ab: "a \<le> b" using Cons.prems x by (cases xs) auto
  have "{a..<b} \<inter> points xs = {}" using separated_below Cons.prems x by fastforce
  then have "card (points (x # xs)) = card {a..<b} + card (points xs)"
    by (simp add: x card_Un_disjoint)
  with Cons.IH separated_tl [OF Cons.prems] x ab show ?case by simp
qed

lemma merge_intervals_invariant:
  assumes "sorted (map fst xs)" "\<forall>(s, e) \<in> set xs. s \<le> e" "separated merged"
    and "\<forall>(a, b) \<in> set (take 1 merged). \<forall>s \<in> fst ` set xs. a \<le> s"
  shows "separated (merge_intervals merged xs) \<and>
    points (merge_intervals merged xs) = points merged \<union> points xs"
  using assms
proof (induction merged xs rule: merge_intervals.induct)
  case (1 merged)
  then show ?case by simp
next
  case (2 s e xs)
  then show ?case by (auto simp: )
next
  case (3 a b merged s e xs)
  have le: "s \<le> e" "a \<le> s" using "3.prems"(2,4) by auto
  have ab: "a \<le> b" using "3.prems"(3) by (cases merged) auto
  show ?case
  proof (cases "b < s")
    case True
    then have "separated ((s, e) # (a, b) # merged)" using "3.prems"(3) le by simp
    with True "3.IH"(1) "3.prems" show ?thesis by auto
  next
    case False
    have "separated ((a, max b e) # merged)" using "3.prems"(3) ab by (cases merged) auto
    moreover have "{a..<max b e} = {a..<b} \<union> {s..<e}" using False le by auto
    ultimately show ?thesis using False "3.IH"(2) "3.prems" by (auto simp: Un_assoc)
  qed
qed

lemma interval_union_card:
  assumes "\<forall>(s, e) \<in> set xs. s \<le> e"
  shows "interval_union xs = int (card (points xs))"
proof -
  have "sorted_wrt (\<le>) (sort xs)" by simp
  then have "sorted (map fst (sort xs))"
    unfolding sorted_map by (rule sorted_wrt_mono_rel [rotated]) (auto simp: less_eq_prod_def)
  then have "separated (merge_intervals [] (sort xs)) \<and> points (merge_intervals [] (sort xs)) = points xs"
    using merge_intervals_invariant [of "sort xs" "[]"] assms by (simp add: points_def)
  then show ?thesis using card_separated by (metis interval_union_def)
qed

lemma interval_union_le_sum:
  assumes "\<forall>(s, e) \<in> set xs. s \<le> e"
  shows "interval_union xs \<le> sum_list (map (\<lambda>(s, e). e - s) xs)"
proof -
  have "int (card (points ys)) \<le> sum_list (map (\<lambda>(s, e). e - s) ys)"
    if "\<forall>(s, e) \<in> set ys. s \<le> e" for ys :: "(int \<times> int) list"
    using that
  proof (induction ys)
    case Nil
    then show ?case by simp
  next
    case (Cons y ys)
    obtain s e where y: "y = (s, e)" by (cases y)
    have "card (points (y # ys)) \<le> card {s..<e} + card (points ys)"
      unfolding y points_simps by (rule card_Un_le)
    with Cons y show ?case by auto
  qed
  with assms show ?thesis by (simp add: interval_union_card)
qed

section \<open>Native tool calls\<close>

datatype observation =
    NoObservation
  | ObjectObservation (object_tool: pyval) (object_facts: pyval)
  | MappingObservation "(string \<times> pyval) list"

record native_call =
  call_success :: pyval
  call_host :: observation
  call_name :: pyval
  call_duration :: pyval

definition FAILURE_STAGES :: "string list" where
  "FAILURE_STAGES = [''arguments'', ''execution'', ''result'']"

definition observed_facts :: "observation \<Rightarrow> pyval" where
  "observed_facts h =
     (case h of ObjectObservation _ facts \<Rightarrow> facts | MappingObservation d \<Rightarrow> dict_get d ''facts''
      | NoObservation \<Rightarrow> PNone)"

definition call_stage :: "native_call \<Rightarrow> string result" where
  "call_stage c =
     (if call_success c = PBool True then Inr ''successful''
      else if call_success c \<noteq> PBool False then Inr ''untyped''
      else let stage = (case observed_facts (call_host c) of PDict d \<Rightarrow> dict_get d ''failure_stage''
                        | _ \<Rightarrow> PNone) in
        if \<not> py_hashable stage then Inl (TypeError ''unhashable'')
        else (case stage of PStr s \<Rightarrow> if s \<in> set FAILURE_STAGES then Inr s else Inr ''untyped''
              | _ \<Rightarrow> Inr ''untyped''))"

definition tool_char :: "char \<Rightarrow> bool" where
  "tool_char ch \<longleftrightarrow>
     (let n = of_char ch :: nat in 97 \<le> n \<and> n \<le> 122 \<or> 48 \<le> n \<and> n \<le> 57 \<or> n = 95)"

definition tool_id :: "string \<Rightarrow> bool" where
  "tool_id s \<longleftrightarrow> s \<noteq> [] \<and> length s \<le> 96 \<and> (\<forall>ch \<in> set s. tool_char ch)"

definition call_tool :: "native_call \<Rightarrow> string" where
  "call_tool c =
     (let t = (case call_host c of
                 ObjectObservation (PStr s) _ \<Rightarrow> PStr s
               | _ \<Rightarrow> call_name c)
      in case t of PStr s \<Rightarrow> if tool_id s then s else ''unknown_tool'' | _ \<Rightarrow> ''unknown_tool'')"

definition valid_duration :: "pyval \<Rightarrow> bool" where
  "valid_duration v = (case v of PInt n \<Rightarrow> 0 \<le> n \<and> n \<le> 2 ^ 63 - 1 | _ \<Rightarrow> False)"

section \<open>Repair accounting\<close>

text \<open>The pending failures per tool are the lengths of the deques of the code.\<close>

fun collect_failures ::
  "(string \<Rightarrow> nat) \<times> int \<Rightarrow> native_call list \<Rightarrow> ((string \<Rightarrow> nat) \<times> int) result" where
  "collect_failures st [] = Inr st"
| "collect_failures (pending, eligible) (c # cs) =
     bind_result (call_stage c) (\<lambda>stage.
       if stage \<noteq> ''arguments'' then collect_failures (pending, eligible) cs
       else collect_failures (pending(call_tool c := Suc (pending (call_tool c))), eligible + 1) cs)"

fun close_failures ::
  "(string \<Rightarrow> nat) \<times> int \<times> int \<Rightarrow> native_call list \<Rightarrow> (int \<times> int) result" where
  "close_failures (pending, closures, successes) [] = Inr (closures, successes)"
| "close_failures (pending, closures, successes) (c # cs) =
     bind_result (call_stage c) (\<lambda>stage.
       if stage \<noteq> ''successful'' then close_failures (pending, closures, successes) cs
       else if 0 < pending (call_tool c)
       then close_failures (pending(call_tool c := pending (call_tool c) - 1), closures + 1, successes + 1) cs
       else close_failures (pending, closures, successes + 1) cs)"

text \<open>The loop over the cumulative calls: stage counts, and the durations of the successes.\<close>

record call_totals =
  stage_count :: "string \<Rightarrow> int"
  observed_calls :: int
  missing_calls :: int
  observed_milliseconds :: int

definition add_call :: "native_call \<Rightarrow> string \<Rightarrow> call_totals \<Rightarrow> call_totals" where
  "add_call c stage t =
     (let t = t\<lparr>stage_count := (stage_count t)(stage := stage_count t stage + 1)\<rparr> in
      if stage \<noteq> ''successful'' then t
      else case call_duration c of
        PInt n \<Rightarrow> if valid_duration (PInt n)
          then t\<lparr>observed_calls := observed_calls t + 1,
                 observed_milliseconds := observed_milliseconds t + n\<rparr>
          else t\<lparr>missing_calls := missing_calls t + 1\<rparr>
      | _ \<Rightarrow> t\<lparr>missing_calls := missing_calls t + 1\<rparr>)"

fun total_calls :: "call_totals \<Rightarrow> native_call list \<Rightarrow> call_totals result" where
  "total_calls t [] = Inr t"
| "total_calls t (c # cs) = bind_result (call_stage c) (\<lambda>stage. total_calls (add_call c stage t) cs)"

definition no_calls :: call_totals where
  "no_calls = \<lparr>stage_count = (\<lambda>_. 0), observed_calls = 0, missing_calls = 0, observed_milliseconds = 0\<rparr>"

definition STAGES :: "string list" where
  "STAGES = [''successful'', ''arguments'', ''execution'', ''result'', ''untyped'']"

definition SEMANTICS :: string where
  "SEMANTICS = ''fifo_one_success_closes_one_prior_same_tool_arguments_failure''"

definition tool_accounting ::
  "native_call list \<Rightarrow> native_call list \<Rightarrow> native_call list \<Rightarrow> pyval result" where
  "tool_accounting first_calls repair_calls cumulative =
     bind_result (total_calls no_calls cumulative) (\<lambda>t.
     bind_result (collect_failures (\<lambda>_. 0, 0) first_calls) (\<lambda>(pending, eligible).
     bind_result (close_failures (pending, 0, 0) repair_calls) (\<lambda>(closures, successes).
     if sum_list (map (stage_count t) STAGES) \<noteq> int (length cumulative)
     then Inl (ValueError ''tool-call stage counts do not reconcile'')
     else Inr (PDict
       [(''counts'', PDict
          [(''first_turn'', PInt (int (length first_calls))),
           (''repair_turn'', PInt (int (length repair_calls))),
           (''cumulative'', PInt (int (length cumulative))),
           (''by_stage'', PDict (map (\<lambda>s. (s, PInt (stage_count t s))) STAGES))]),
        (''argument_repair'', PDict
          [(''eligible_failures'', PInt eligible),
           (''repair_successful_calls'', PInt successes),
           (''closures'', PInt closures),
           (''unclosed'', PInt (eligible - closures)),
           (''semantics'', PStr SEMANTICS)]),
        (''successful_call_timing'', PDict
          [(''observed_call_count'', PInt (observed_calls t)),
           (''missing_call_count'', PInt (missing_calls t)),
           (''observed_total_milliseconds'', PInt (observed_milliseconds t)),
           (''total_milliseconds'',
             if missing_calls t = 0 then PInt (observed_milliseconds t) else PNone)])]))))"

section \<open>What the loops count\<close>

definition staged :: "string \<Rightarrow> native_call list \<Rightarrow> native_call list" where
  "staged stage cs = filter (\<lambda>c. call_stage c = Inr stage) cs"

definition tool_calls :: "string \<Rightarrow> string \<Rightarrow> native_call list \<Rightarrow> nat" where
  "tool_calls stage tool cs = length (filter (\<lambda>c. call_tool c = tool) (staged stage cs))"

definition all_staged :: "native_call list \<Rightarrow> bool" where
  "all_staged cs \<longleftrightarrow> (\<forall>c \<in> set cs. is_ok (call_stage c))"

lemma staged_simps [simp]:
  "staged stage [] = []"
  "staged stage (c # cs) = (if call_stage c = Inr stage then c # staged stage cs else staged stage cs)"
  by (simp_all add: staged_def)

lemma tool_calls_simps [simp]:
  "tool_calls stage tool [] = 0"
  "tool_calls stage tool (c # cs) =
     (if call_stage c = Inr stage \<and> call_tool c = tool then 1 else 0) + tool_calls stage tool cs"
  by (simp_all add: tool_calls_def)

lemma collect_failures_counts:
  "collect_failures (p, n) cs = Inr (p', n') \<Longrightarrow>
     p' = (\<lambda>t. p t + tool_calls ''arguments'' t cs) \<and> n' = n + int (length (staged ''arguments'' cs))"
  by (induction "(p, n)" cs arbitrary: p n rule: collect_failures.induct)
    (auto elim!: bind_result_InrE split: if_split_asm)

lemma sum_point_update:
  fixes f g :: "'a \<Rightarrow> int"
  assumes "finite T" "x \<in> T" "f x = g x + k" "\<And>y. y \<noteq> x \<Longrightarrow> f y = g y"
  shows "sum f T = sum g T + k"
proof -
  have "sum f (T - {x}) = sum g (T - {x})" using assms(4) by (intro sum.cong) auto
  then show ?thesis using assms(1-3) by (simp add: sum.remove [of T x])
qed

lemma close_failures_counts:
  assumes "close_failures (p, k, s) cs = Inr (k', s')" "finite T" "call_tool ` set cs \<subseteq> T"
  shows "k' = k + (\<Sum>t \<in> T. int (min (p t) (tool_calls ''successful'' t cs)))
    \<and> s' = s + int (length (staged ''successful'' cs))"
  using assms
proof (induction cs arbitrary: p k s)
  case Nil
  then show ?case by simp
next
  case (Cons c cs)
  from Cons.prems(1) obtain stage where stage: "call_stage c = Inr stage"
    by (auto elim!: bind_result_InrE)
  have T: "call_tool c \<in> T" "call_tool ` set cs \<subseteq> T" using Cons.prems(3) by auto
  show ?case
  proof (cases "stage = ''successful''")
    case False
    with stage Cons T show ?thesis by simp
  next
    case True
    let ?t = "call_tool c"
    let ?n = "\<lambda>t. tool_calls ''successful'' t cs"
    show ?thesis
    proof (cases "0 < p ?t")
      case pos: True
      have "(\<Sum>t \<in> T. int (min (p t) (tool_calls ''successful'' t (c # cs)))) =
          (\<Sum>t \<in> T. int (min ((p(?t := p ?t - 1)) t) (?n t))) + 1"
        using pos stage True T(1) Cons.prems(2) by (intro sum_point_update [of _ ?t]) auto
      moreover have "close_failures (p(?t := p ?t - 1), k + 1, s + 1) cs = Inr (k', s')"
        using Cons.prems(1) stage True pos by simp
      note Cons.IH [OF this Cons.prems(2) T(2)]
      moreover have "staged ''successful'' (c # cs) = c # staged ''successful'' cs"
        using stage True by simp
      ultimately show ?thesis by (simp only: length_Cons) simp
    next
      case zero: False
      have "(\<Sum>t \<in> T. int (min (p t) (tool_calls ''successful'' t (c # cs)))) =
          (\<Sum>t \<in> T. int (min (p t) (?n t)))"
        using zero stage True by (intro sum.cong) auto
      with Cons.IH [of p k "s + 1"] Cons.prems stage True zero T show ?thesis by simp
    qed
  qed
qed

lemma total_calls_counts:
  assumes "total_calls t cs = Inr t'"
  shows "stage_count t' stage = stage_count t stage + int (length (staged stage cs))
    \<and> observed_calls t' + missing_calls t' =
        observed_calls t + missing_calls t + int (length (staged ''successful'' cs))
    \<and> observed_calls t \<le> observed_calls t' \<and> missing_calls t \<le> missing_calls t'
    \<and> observed_milliseconds t \<le> observed_milliseconds t'"
  using assms
proof (induction cs arbitrary: t)
  case Nil
  then show ?case by simp
next
  case (Cons c cs)
  from Cons.prems obtain s where "call_stage c = Inr s" "total_calls (add_call c s t) cs = Inr t'"
    by (auto elim!: bind_result_InrE)
  with Cons.IH [of "add_call c s t"] show ?case
    by (auto simp: add_call_def valid_duration_def Let_def split: pyval.splits if_splits)
qed

lemma length_staged_le: "length (staged stage cs) \<le> length cs"
  by (simp add: staged_def)

lemma sum_min_le:
  fixes p n :: "'a \<Rightarrow> nat"
  shows "(\<Sum>t \<in> T. int (min (p t) (n t))) \<le> (\<Sum>t \<in> T. int (p t))
    \<and> (\<Sum>t \<in> T. int (min (p t) (n t))) \<le> (\<Sum>t \<in> T. int (n t))"
  by (intro conjI sum_mono) simp_all

lemma sum_tool_calls:
  assumes "finite T"
  shows "(\<Sum>t \<in> T. int (tool_calls stage t cs)) \<le> int (length (staged stage cs))"
proof (induction cs)
  case Nil
  then show ?case by simp
next
  case (Cons c cs)
  show ?case
  proof (cases "call_stage c = Inr stage \<and> call_tool c \<in> T")
    case True
    then have "(\<Sum>t \<in> T. int (tool_calls stage t (c # cs))) = (\<Sum>t \<in> T. int (tool_calls stage t cs)) + 1"
      using assms by (intro sum_point_update [of _ "call_tool c"]) auto
    with Cons True show ?thesis by simp
  next
    case False
    then have "(\<Sum>t \<in> T. int (tool_calls stage t (c # cs))) = (\<Sum>t \<in> T. int (tool_calls stage t cs))"
      by (intro sum.cong) auto
    with Cons show ?thesis by simp
  qed
qed

end
