(* ===== verification/Native_Receipts.thy ===== *)
theory Native_Receipts
  imports Receipt_Accounting
begin

text \<open>
  \<^verbatim>\<open>rapido/native_receipts.py\<close>: privacy-closed attempt receipts and their summary. A receipt is
  built from validated spans, a budget, two cumulative usage snapshots and the calls of the two
  turns; the summary re-validates every receipt it is given and joins them one to one with the
  expected attempt keys.

  Receipts and native events are decoded documents; in a comparison of documents a boolean equals
  the integer it stands for, as in Python. Floats keep their text and are never equal to integers
  here; \<open>str()\<close> of a stage that is no string is only known not to be a registered stage.
\<close>

section \<open>Identities and vocabularies\<close>

datatype attempt_key = AttemptKey (task_id: string) (arm_id: string)

instantiation attempt_key :: linorder
begin

definition less_eq_attempt_key :: "attempt_key \<Rightarrow> attempt_key \<Rightarrow> bool" where
  "less_eq_attempt_key k l \<longleftrightarrow> (task_id k, arm_id k) \<le> (task_id l, arm_id l)"

definition less_attempt_key :: "attempt_key \<Rightarrow> attempt_key \<Rightarrow> bool" where
  "less_attempt_key k l \<longleftrightarrow> (task_id k, arm_id k) < (task_id l, arm_id l)"

instance
  by standard
    (auto simp: less_eq_attempt_key_def less_attempt_key_def attempt_key.expand)

end

definition id_start :: "char \<Rightarrow> bool" where
  "id_start ch \<longleftrightarrow> (let n = of_char ch :: nat in 97 \<le> n \<and> n \<le> 122 \<or> 48 \<le> n \<and> n \<le> 57)"

definition id_char :: "char \<Rightarrow> bool" where
  "id_char ch \<longleftrightarrow> id_start ch \<or> ch \<in> set ''_.:-''"

definition public_id :: "string \<Rightarrow> bool" where
  "public_id s \<longleftrightarrow> s \<noteq> [] \<and> length s \<le> 96 \<and> id_start (hd s) \<and> (\<forall>ch \<in> set (tl s). id_char ch)"

definition key_validated :: "attempt_key \<Rightarrow> attempt_key result" where
  "key_validated k =
     (if \<not> public_id (task_id k) then Inl (ValueError ''task_id is not a public receipt identity'')
      else if \<not> public_id (arm_id k) then Inl (ValueError ''arm_id is not a public receipt identity'')
      else Inr k)"

definition ATTEMPT_RECEIPT_SCHEMA :: string where
  "ATTEMPT_RECEIPT_SCHEMA = ''rapido-native-attempt-receipt-v1''"

definition SUMMARY_RECEIPT_SCHEMA :: string where
  "SUMMARY_RECEIPT_SCHEMA = ''rapido-native-receipt-summary-v1''"

definition OUTCOMES :: "string list" where
  "OUTCOMES = [''completed'', ''timeout'', ''provider_failure'', ''cancelled'', ''inconclusive'']"

definition SPAN_STATUSES :: "string list" where
  "SPAN_STATUSES = [''completed'', ''failed'', ''cancelled'', ''not_run'']"

definition SPAN_STAGES :: "string list" where
  "SPAN_STAGES = [''cleanup'', ''evidence'', ''first_turn'', ''fixture_setup'', ''model_validation'',
     ''queue'', ''repair_turn'', ''startup'']"

definition USAGE_FIELDS :: "string list" where
  "USAGE_FIELDS = [''input_tokens'', ''output_tokens'', ''cached_input_tokens'', ''reasoning_tokens'']"

definition USAGE_POLICY :: string where
  "USAGE_POLICY = ''policy.native_attempt_usage.v1''"

definition USAGE_SEMANTICS :: string where
  "USAGE_SEMANTICS = ''cumulative_final_snapshot_counted_once''"

definition usage_aliases :: "string \<Rightarrow> string list" where
  "usage_aliases f =
     (if f = ''input_tokens'' then [''input_tokens'', ''inputTokens'']
      else if f = ''output_tokens'' then [''output_tokens'', ''outputTokens'']
      else if f = ''cached_input_tokens'' then [''cached_input_tokens'', ''cachedInputTokens'']
      else [''reasoning_tokens'', ''reasoningTokens'', ''reasoning_output_tokens'', ''reasoningOutputTokens''])"

section \<open>Spans and budgets\<close>

definition nonnegative :: "pyval \<Rightarrow> string \<Rightarrow> int result" where
  "nonnegative v name =
     (case v of PInt n \<Rightarrow> if n < 0 then Inl (TypeError (name @ '' must be a nonnegative integer'')) else Inr n
      | _ \<Rightarrow> Inl (TypeError (name @ '' must be a nonnegative integer'')))"

definition optional_nonnegative :: "pyval \<Rightarrow> string \<Rightarrow> int option result" where
  "optional_nonnegative v name =
     (if v = PNone then Inr None else bind_result (nonnegative v name) (\<lambda>n. Inr (Some n)))"

definition opt_int :: "int option \<Rightarrow> pyval" where
  "opt_int x = (case x of None \<Rightarrow> PNone | Some n \<Rightarrow> PInt n)"

record span =
  span_stage :: string
  span_status :: pyval
  span_start :: pyval
  span_end :: pyval

definition span_doc :: "string \<Rightarrow> pyval \<Rightarrow> int option \<Rightarrow> int option \<Rightarrow> int option \<Rightarrow> (string \<times> pyval) list" where
  "span_doc stage status s e d =
     [(''stage'', PStr stage), (''status'', status), (''start_offset_milliseconds'', opt_int s),
      (''end_offset_milliseconds'', opt_int e), (''duration_milliseconds'', opt_int d)]"

definition span_public :: "span \<Rightarrow> (string \<times> pyval) list result" where
  "span_public sp =
     (if span_stage sp \<notin> set SPAN_STAGES then Inl (ValueError ''span stage is not registered'')
      else if \<not> py_hashable (span_status sp) then Inl (TypeError ''unhashable'')
      else if span_status sp \<notin> PStr ` set SPAN_STATUSES
      then Inl (ValueError ''span status is not registered'')
      else bind_result (optional_nonnegative (span_start sp) ''span start'') (\<lambda>s.
        bind_result (optional_nonnegative (span_end sp) ''span end'') (\<lambda>e.
        if span_status sp = PStr ''not_run''
        then if s \<noteq> None \<or> e \<noteq> None
          then Inl (ValueError ''not-run spans cannot contain an interval'')
          else Inr (span_doc (span_stage sp) (span_status sp) s e None)
        else (case (s, e) of
            (Some a, Some b) \<Rightarrow>
              if b < a then Inl (ValueError ''observed span requires one monotonic interval'')
              else Inr (span_doc (span_stage sp) (span_status sp) s e (Some (b - a)))
          | _ \<Rightarrow> Inl (ValueError ''observed span requires one monotonic interval'')))))"

record budget =
  configured_milliseconds :: pyval
  granted_milliseconds :: pyval
  remaining_after_first :: pyval
  remaining_terminal :: pyval

definition exceeds :: "int option \<Rightarrow> int \<Rightarrow> bool" where
  "exceeds x n = (case x of None \<Rightarrow> False | Some m \<Rightarrow> n < m)"

definition budget_public :: "budget \<Rightarrow> pyval result" where
  "budget_public b =
     bind_result (nonnegative (configured_milliseconds b) ''configured budget'') (\<lambda>configured.
     bind_result (nonnegative (granted_milliseconds b) ''granted budget'') (\<lambda>granted.
     bind_result (optional_nonnegative (remaining_after_first b) ''remaining first-turn budget'') (\<lambda>after_first.
     bind_result (optional_nonnegative (remaining_terminal b) ''remaining terminal budget'') (\<lambda>terminal.
     if configured < granted then Inl (ValueError ''granted budget exceeds configured budget'')
     else if exceeds after_first granted
     then Inl (ValueError ''remaining first-turn budget exceeds grant'')
     else if exceeds terminal granted
     then Inl (ValueError ''remaining terminal budget exceeds grant'')
     else if (case after_first of None \<Rightarrow> False | Some n \<Rightarrow> exceeds terminal n)
     then Inl (ValueError ''terminal budget increased after the first turn'')
     else Inr (PDict [(''configured_milliseconds'', PInt configured),
                      (''granted_milliseconds'', PInt granted),
                      (''remaining_after_first_milliseconds'', opt_int after_first),
                      (''remaining_terminal_milliseconds'', opt_int terminal)])))))"

section \<open>Usage\<close>

definition usage_source :: "pyval \<Rightarrow> (string \<times> pyval) list option" where
  "usage_source event =
     (case event of
        PDict d \<Rightarrow> (case filter (\<lambda>v. case v of PDict _ \<Rightarrow> True | _ \<Rightarrow> False)
                     (map (dict_get d) [''usage'', ''tokenUsage'', ''token_usage'']) of
            PDict s # _ \<Rightarrow> Some s
          | _ \<Rightarrow> None)
      | _ \<Rightarrow> None)"

definition usage_snapshot :: "pyval \<Rightarrow> string \<Rightarrow> int option" where
  "usage_snapshot event f =
     (let v = (case usage_source event of None \<Rightarrow> PNone
               | Some s \<Rightarrow> (case filter (has_key s) (usage_aliases f) of [] \<Rightarrow> PNone | n # _ \<Rightarrow> dict_get s n))
      in case v of PInt n \<Rightarrow> if valid_duration (PInt n) then Some n else None | _ \<Rightarrow> None)"

definition monotonic :: "int option \<Rightarrow> int option \<Rightarrow> bool" where
  "monotonic first final = (case (first, final) of (Some a, Some b) \<Rightarrow> a \<le> b | _ \<Rightarrow> True)"

definition accounted_usage :: "int option \<Rightarrow> int option \<Rightarrow> int option" where
  "accounted_usage first final = (if monotonic first final then final else None)"

definition repair_delta :: "bool \<Rightarrow> int option \<Rightarrow> int option \<Rightarrow> int option \<times> string" where
  "repair_delta repaired first final =
     (case (first, final) of
        (Some a, Some b) \<Rightarrow>
          if \<not> repaired then (None, ''not_applicable'')
          else if a \<le> b then (Some (b - a), ''monotone'') else (None, ''nonmonotone'')
      | _ \<Rightarrow> (None, if repaired then ''incomplete'' else ''not_applicable''))"

definition field_doc :: "(string \<Rightarrow> pyval) \<Rightarrow> pyval" where
  "field_doc g = PDict (map (\<lambda>f. (f, g f)) USAGE_FIELDS)"

definition usage_doc :: "bool \<Rightarrow> pyval \<Rightarrow> pyval \<Rightarrow> pyval" where
  "usage_doc repaired first_event final_event =
     (let first = usage_snapshot first_event; final = usage_snapshot final_event in
      PDict [(''policy_version'', PStr USAGE_POLICY), (''semantics'', PStr USAGE_SEMANTICS),
             (''first'', field_doc (\<lambda>f. opt_int (first f))),
             (''final'', field_doc (\<lambda>f. opt_int (final f))),
             (''accounted'', field_doc (\<lambda>f. opt_int (accounted_usage (first f) (final f)))),
             (''repair_delta'', field_doc (\<lambda>f. opt_int (fst (repair_delta repaired (first f) (final f))))),
             (''repair_delta_status'', field_doc (\<lambda>f. PStr (snd (repair_delta repaired (first f) (final f)))))])"

section \<open>Building a receipt\<close>

definition stage_of :: "(string \<times> pyval) list \<Rightarrow> pyval" where
  "stage_of d = dict_get d ''stage''"

definition build_receipt ::
  "attempt_key \<Rightarrow> string \<Rightarrow> span list \<Rightarrow> budget \<Rightarrow> pyval \<Rightarrow> pyval
     \<Rightarrow> native_call list \<Rightarrow> native_call list \<Rightarrow> native_call list \<Rightarrow> bool \<Rightarrow> pyval result" where
  "build_receipt key outcome spans bud first_event final_event first_calls repair_calls cumulative repaired =
     bind_result (key_validated key) (\<lambda>_.
     if outcome \<notin> set OUTCOMES then Inl (ValueError ''native outcome is not registered'')
     else bind_result (traverse span_public spans) (\<lambda>public_spans.
     if \<not> distinct (map stage_of public_spans)
     then Inl (ValueError ''attempt contains duplicate span stages'')
     else if \<not> repaired \<and> repair_calls \<noteq> []
     then Inl (ValueError ''non-repair attempt contains repair calls'')
     else if length cumulative \<noteq> length first_calls + length repair_calls
     then Inl (ValueError ''cumulative call count does not reconcile to turn calls'')
     else bind_result (tool_accounting first_calls repair_calls cumulative) (\<lambda>tools.
     bind_result (budget_public bud) (\<lambda>budget_doc.
     Inr (PDict
       [(''schema'', PStr ATTEMPT_RECEIPT_SCHEMA),
        (''attempt'', PDict [(''task_id'', PStr (task_id key)), (''arm_id'', PStr (arm_id key))]),
        (''outcome'', PStr outcome), (''spans'', PList (map PDict public_spans)),
        (''budget'', budget_doc), (''usage'', usage_doc repaired first_event final_event),
        (''tools'', tools)])))))"

section \<open>Validating receipts\<close>

definition exact_keys :: "(string \<times> pyval) list \<Rightarrow> string list \<Rightarrow> string \<Rightarrow> unit result" where
  "exact_keys d expected name =
     ensure (keys_are d (set expected)) (ValueError (name @ '' fields differ''))"

definition RECEIPT_FIELDS :: "string list" where
  "RECEIPT_FIELDS = [''schema'', ''attempt'', ''outcome'', ''spans'', ''budget'', ''usage'', ''tools'']"

definition SPAN_FIELDS :: "string list" where
  "SPAN_FIELDS = [''stage'', ''status'', ''start_offset_milliseconds'', ''end_offset_milliseconds'',
     ''duration_milliseconds'']"

definition BUDGET_FIELDS :: "string list" where
  "BUDGET_FIELDS = [''configured_milliseconds'', ''granted_milliseconds'',
     ''remaining_after_first_milliseconds'', ''remaining_terminal_milliseconds'']"

definition receipt_key :: "(string \<times> pyval) list \<Rightarrow> attempt_key result" where
  "receipt_key d =
     (if dict_get d ''schema'' \<noteq> PStr ATTEMPT_RECEIPT_SCHEMA
      then Inl (ValueError ''native attempt receipt schema is invalid'')
      else case dict_get d ''attempt'' of
        PDict a \<Rightarrow>
          if \<not> keys_are a {''task_id'', ''arm_id''}
          then Inl (ValueError ''native receipt attempt identity is invalid'')
          else (case (dict_get a ''task_id'', dict_get a ''arm_id'') of
              (PStr t, PStr m) \<Rightarrow> key_validated (AttemptKey t m)
            | _ \<Rightarrow> Inl (TypeError ''native receipt attempt identities must be strings''))
      | _ \<Rightarrow> Inl (ValueError ''native receipt attempt identity is invalid''))"

text \<open>One of the four usage sections: its field values, each absent or nonnegative.\<close>

definition check_values :: "(string \<times> pyval) list \<Rightarrow> string \<Rightarrow> (string \<Rightarrow> int option) result" where
  "check_values usage name =
     (case dict_get usage name of
        PDict d \<Rightarrow>
          if \<not> keys_are d (set USAGE_FIELDS)
          then Inl (ValueError (''native receipt '' @ name @ '' usage fields are invalid''))
          else bind_result (traverse (\<lambda>(f, v). bind_result
              (optional_nonnegative v (name @ '' '' @ f @ '' usage'')) (\<lambda>x. Inr (f, x))) d) (\<lambda>kvs.
            Inr (\<lambda>f. case map_of kvs f of Some x \<Rightarrow> x | None \<Rightarrow> None))
      | _ \<Rightarrow> Inl (ValueError (''native receipt '' @ name @ '' usage fields are invalid'')))"

definition DELTA_STATUSES :: "string list" where
  "DELTA_STATUSES = [''not_applicable'', ''incomplete'', ''monotone'', ''nonmonotone'']"

definition check_status :: "string \<times> pyval \<Rightarrow> (string \<times> string) result" where
  "check_status = (\<lambda>(f, v).
     if \<not> py_hashable v then Inl (TypeError ''unhashable'')
     else (case v of
         PStr s \<Rightarrow> if s \<in> set DELTA_STATUSES then Inr (f, s)
                   else Inl (ValueError ''native receipt repair delta status is invalid'')
       | _ \<Rightarrow> Inl (ValueError ''native receipt repair delta status is invalid'')))"

definition check_field ::
  "string \<Rightarrow> int option \<Rightarrow> int option \<Rightarrow> int option \<Rightarrow> int option \<Rightarrow> unit result" where
  "check_field status first final accounted delta =
     bind_result
       (if status = ''not_applicable'' then Inr (None, final)
        else case (first, final) of
          (Some a, Some b) \<Rightarrow>
            if b < a
            then if status \<noteq> ''nonmonotone''
              then Inl (ValueError ''native receipt nonmonotone repair usage status is invalid'')
              else Inr (None, None)
            else if status \<noteq> ''monotone''
            then Inl (ValueError ''native receipt monotone repair usage status is invalid'')
            else Inr (Some (b - a), final)
        | _ \<Rightarrow>
            if status \<noteq> ''incomplete''
            then Inl (ValueError ''native receipt incomplete repair usage status is invalid'')
            else Inr (None, final))
       (\<lambda>(expected_delta, expected_accounted).
          ensure (delta = expected_delta \<and> accounted = expected_accounted)
            (ValueError ''native receipt usage accounting is inconsistent''))"

definition check_usage :: "pyval \<Rightarrow> (string \<Rightarrow> int option) result" where
  "check_usage v =
     (case v of
        PDict u \<Rightarrow>
          bind_result (exact_keys u [''policy_version'', ''semantics'', ''first'', ''final'', ''accounted'',
              ''repair_delta'', ''repair_delta_status''] ''native receipt usage'') (\<lambda>_.
          if dict_get u ''policy_version'' \<noteq> PStr USAGE_POLICY
             \<or> dict_get u ''semantics'' \<noteq> PStr USAGE_SEMANTICS
          then Inl (ValueError ''native receipt usage policy is invalid'')
          else bind_result (check_values u ''first'') (\<lambda>first.
            bind_result (check_values u ''final'') (\<lambda>final.
            bind_result (check_values u ''accounted'') (\<lambda>accounted.
            bind_result (check_values u ''repair_delta'') (\<lambda>delta.
            case dict_get u ''repair_delta_status'' of
              PDict sd \<Rightarrow>
                if \<not> keys_are sd (set USAGE_FIELDS)
                then Inl (ValueError ''native receipt repair delta statuses are invalid'')
                else bind_result (traverse check_status sd) (\<lambda>statuses.
                  let values = set (map snd statuses);
                      status = (\<lambda>f. case map_of statuses f of Some s \<Rightarrow> s | None \<Rightarrow> []) in
                  if ''not_applicable'' \<in> values \<and> values \<noteq> {''not_applicable''}
                  then Inl (ValueError ''native receipt mixes repair and non-repair usage statuses'')
                  else bind_result (traverse (\<lambda>f. check_field (status f) (first f) (final f)
                      (accounted f) (delta f)) USAGE_FIELDS) (\<lambda>_. Inr accounted))
            | _ \<Rightarrow> Inl (ValueError ''native receipt repair delta statuses are invalid''))))))
      | _ \<Rightarrow> Inl (TypeError ''native receipt usage must be an object''))"

text \<open>Equality of the values of two span documents: a boolean equals its integer.\<close>

definition py_scalar :: "pyval \<Rightarrow> pyval" where
  "py_scalar v = (case v of PBool b \<Rightarrow> PInt (if b then 1 else 0) | _ \<Rightarrow> v)"

definition stage_text :: "pyval \<Rightarrow> string" where
  "stage_text v = (case v of PStr s \<Rightarrow> s | _ \<Rightarrow> [])"

text \<open>One span: its stage, and its interval when it was observed. The duplicate check comes
  between the comparison with the validated span and the reading of the interval.\<close>

definition check_span :: "string list \<Rightarrow> pyval \<Rightarrow> (string \<times> (int \<times> int) option) result" where
  "check_span seen v =
     (case v of
        PDict d \<Rightarrow>
          if \<not> keys_are d (set SPAN_FIELDS)
          then Inl (ValueError ''native receipt span fields are invalid'')
          else bind_result (span_public
              \<lparr>span_stage = stage_text (dict_get d ''stage''), span_status = dict_get d ''status'',
               span_start = dict_get d ''start_offset_milliseconds'',
               span_end = dict_get d ''end_offset_milliseconds''\<rparr>) (\<lambda>validated.
            if \<exists>f \<in> set SPAN_FIELDS. py_scalar (dict_get d f) \<noteq> py_scalar (dict_get validated f)
            then Inl (ValueError ''native receipt span is inconsistent'')
            else let stage = stage_text (dict_get d ''stage'') in
              if stage \<in> set seen
              then Inl (ValueError ''native receipt contains duplicate span stages'')
              else if dict_get d ''duration_milliseconds'' = PNone then Inr (stage, None)
              else bind_result (nonnegative (dict_get d ''start_offset_milliseconds'') ''span start'') (\<lambda>s.
                bind_result (nonnegative (dict_get d ''end_offset_milliseconds'') ''span end'') (\<lambda>e.
                bind_result (nonnegative (dict_get d ''duration_milliseconds'') ''span duration'') (\<lambda>n.
                if e - s \<noteq> n then Inl (ValueError ''native receipt span duration is inconsistent'')
                else Inr (stage, Some (s, e))))))
      | _ \<Rightarrow> Inl (ValueError ''native receipt span fields are invalid''))"

fun check_spans :: "string list \<Rightarrow> pyval list \<Rightarrow> (int \<times> int) list result" where
  "check_spans seen [] = Inr []"
| "check_spans seen (v # vs) =
     bind_result (check_span seen v) (\<lambda>(stage, interval).
       bind_result (check_spans (stage # seen) vs) (\<lambda>intervals.
         Inr (case interval of None \<Rightarrow> intervals | Some i \<Rightarrow> i # intervals)))"

definition check_budget :: "pyval \<Rightarrow> unit result" where
  "check_budget v =
     (case v of
        PDict d \<Rightarrow> bind_result (exact_keys d BUDGET_FIELDS ''native receipt budget'') (\<lambda>_.
          bind_result (budget_public
            \<lparr>configured_milliseconds = dict_get d ''configured_milliseconds'',
             granted_milliseconds = dict_get d ''granted_milliseconds'',
             remaining_after_first = dict_get d ''remaining_after_first_milliseconds'',
             remaining_terminal = dict_get d ''remaining_terminal_milliseconds''\<rparr>) (\<lambda>_. Inr ()))
      | _ \<Rightarrow> Inl (TypeError ''native receipt budget must be an object''))"

definition count_of :: "pyval \<Rightarrow> int result" where
  "count_of v =
     (case v of PInt n \<Rightarrow> if n < 0 then Inl (TypeError ''native receipt tool counts must be nonnegative integers'')
                         else Inr n
      | _ \<Rightarrow> Inl (TypeError ''native receipt tool counts must be nonnegative integers''))"

definition check_counts :: "(string \<times> pyval) list \<Rightarrow> (int \<times> int \<times> int) result" where
  "check_counts counts =
     bind_result (exact_keys counts [''first_turn'', ''repair_turn'', ''cumulative'', ''by_stage'']
       ''native receipt tool counts'') (\<lambda>_.
     case dict_get counts ''by_stage'' of
       PDict stages \<Rightarrow>
         if \<not> keys_are stages (set STAGES)
         then Inl (ValueError ''native receipt tool stages are invalid'')
         else bind_result (count_of (dict_get counts ''first_turn'')) (\<lambda>first.
           bind_result (count_of (dict_get counts ''repair_turn'')) (\<lambda>repair.
           bind_result (count_of (dict_get counts ''cumulative'')) (\<lambda>total.
           bind_result (traverse (\<lambda>(k, v). count_of v) stages) (\<lambda>ns.
           if total \<noteq> first + repair
           then Inl (ValueError ''native receipt turn call counts do not reconcile'')
           else if total \<noteq> sum_list ns
           then Inl (ValueError ''native receipt stage call counts do not reconcile'')
           else bind_result (count_of (dict_get stages ''successful'')) (\<lambda>successful.
             Inr (repair, successful, total))))))
     | _ \<Rightarrow> Inl (ValueError ''native receipt tool stages are invalid''))"

definition check_repair :: "int \<Rightarrow> int \<Rightarrow> (string \<times> pyval) list \<Rightarrow> unit result" where
  "check_repair repair_turn successful r =
     bind_result (exact_keys r [''eligible_failures'', ''repair_successful_calls'', ''closures'',
       ''unclosed'', ''semantics''] ''native receipt argument repair'') (\<lambda>_.
     if dict_get r ''semantics'' \<noteq> PStr SEMANTICS
     then Inl (ValueError ''native receipt argument repair semantics are invalid'')
     else bind_result (nonnegative (dict_get r ''eligible_failures'') ''eligible argument failures'') (\<lambda>eligible.
       bind_result (nonnegative (dict_get r ''repair_successful_calls'') ''successful repair calls'') (\<lambda>succ.
       bind_result (nonnegative (dict_get r ''closures'') ''argument repair closures'') (\<lambda>closures.
       bind_result (nonnegative (dict_get r ''unclosed'') ''unclosed argument failures'') (\<lambda>unclosed.
       if closures + unclosed \<noteq> eligible
       then Inl (ValueError ''native receipt argument repair counts do not reconcile'')
       else if repair_turn < succ \<or> successful < succ
       then Inl (ValueError ''native receipt successful repair calls do not reconcile'')
       else if eligible < closures \<or> succ < closures
       then Inl (ValueError ''native receipt argument repair closures exceed eligible successes'')
       else Inr ())))))"

definition check_timing :: "int \<Rightarrow> (string \<times> pyval) list \<Rightarrow> unit result" where
  "check_timing successful t =
     bind_result (exact_keys t [''observed_call_count'', ''missing_call_count'',
       ''observed_total_milliseconds'', ''total_milliseconds''] ''native receipt successful timing'') (\<lambda>_.
     bind_result (nonnegative (dict_get t ''observed_call_count'') ''observed successful calls'') (\<lambda>calls.
     bind_result (nonnegative (dict_get t ''missing_call_count'') ''missing successful calls'') (\<lambda>missing.
     bind_result (nonnegative (dict_get t ''observed_total_milliseconds'') ''observed successful milliseconds'')
       (\<lambda>observed.
     if calls + missing \<noteq> successful
     then Inl (ValueError ''native receipt successful timing call counts do not reconcile'')
     else bind_result (optional_nonnegative (dict_get t ''total_milliseconds'') ''total successful milliseconds'')
       (\<lambda>total.
     ensure (\<not> (missing = 0 \<and> total \<noteq> Some observed \<or> 0 < missing \<and> total \<noteq> None))
       (ValueError ''native receipt successful timing missingness is inconsistent''))))))"

definition check_tools :: "pyval \<Rightarrow> unit result" where
  "check_tools v =
     (case v of
        PDict d \<Rightarrow> bind_result (exact_keys d [''counts'', ''argument_repair'', ''successful_call_timing'']
            ''native receipt tools'') (\<lambda>_.
          case (dict_get d ''counts'', dict_get d ''argument_repair'', dict_get d ''successful_call_timing'') of
            (PDict counts, PDict repair, PDict timing) \<Rightarrow>
              bind_result (check_counts counts) (\<lambda>(repair_turn, successful, _).
              bind_result (check_repair repair_turn successful repair) (\<lambda>_.
              check_timing successful timing))
          | _ \<Rightarrow> Inl (TypeError ''native receipt tool sections must be objects''))
      | _ \<Rightarrow> Inl (TypeError ''native receipt tools must be an object''))"

section \<open>The summary\<close>

record receipt_row =
  row_key :: attempt_key
  row_outcome :: string
  row_usage :: "string \<Rightarrow> int option"
  row_intervals :: "(int \<times> int) list"

definition check_receipt :: "attempt_key list \<Rightarrow> pyval \<Rightarrow> receipt_row result" where
  "check_receipt seen v =
     bind_result (py_items v) (\<lambda>d.
     bind_result (exact_keys d RECEIPT_FIELDS ''native attempt receipt'') (\<lambda>_.
     bind_result (receipt_key d) (\<lambda>key.
     if key \<in> set seen then Inl (ValueError ''native receipts contain a duplicate attempt key'')
     else if \<not> py_hashable (dict_get d ''outcome'') then Inl (TypeError ''unhashable'')
     else if dict_get d ''outcome'' \<notin> PStr ` set OUTCOMES
     then Inl (ValueError ''native receipt contains an invalid outcome'')
     else bind_result (check_usage (dict_get d ''usage'')) (\<lambda>usage.
       case dict_get d ''spans'' of
         PList spans \<Rightarrow> bind_result (check_spans [] spans) (\<lambda>intervals.
           bind_result (check_budget (dict_get d ''budget'')) (\<lambda>_.
           bind_result (check_tools (dict_get d ''tools'')) (\<lambda>_.
           Inr \<lparr>row_key = key, row_outcome = stage_text (dict_get d ''outcome''), row_usage = usage,
                row_intervals = intervals\<rparr>)))
       | _ \<Rightarrow> Inl (TypeError ''native receipt spans must be a list'')))))"

fun check_receipts :: "attempt_key list \<Rightarrow> pyval list \<Rightarrow> receipt_row list result" where
  "check_receipts seen [] = Inr []"
| "check_receipts seen (v # vs) =
     bind_result (check_receipt seen v) (\<lambda>row.
     bind_result (check_receipts (row_key row # seen) vs) (\<lambda>rows. Inr (row # rows)))"

definition usage_summary :: "receipt_row list \<Rightarrow> string \<Rightarrow> pyval" where
  "usage_summary rows f =
     (let values = map (\<lambda>r. row_usage r f) rows;
          observed = map the (filter (\<lambda>x. x \<noteq> None) values);
          missing = length values - length observed in
      PDict [(''total'', if missing = 0 then PInt (sum_list observed) else PNone),
             (''observed_total'', PInt (sum_list observed)),
             (''observed_attempt_count'', PInt (int (length observed))),
             (''missing_attempt_count'', PInt (int missing))])"

definition lane_milliseconds :: "receipt_row list \<Rightarrow> int" where
  "lane_milliseconds rows = sum_list (map (\<lambda>(s, e). e - s) (concat (map row_intervals rows)))"

definition wall_milliseconds :: "receipt_row list \<Rightarrow> int" where
  "wall_milliseconds rows =
     interval_union (filter (\<lambda>(s, e). s < e) (concat (map row_intervals rows)))"

definition outcome_count :: "receipt_row list \<Rightarrow> string \<Rightarrow> int" where
  "outcome_count rows name = int (length (filter (\<lambda>r. row_outcome r = name) rows))"

definition summarize_rows :: "receipt_row list \<Rightarrow> pyval" where
  "summarize_rows rows = PDict
     [(''schema'', PStr SUMMARY_RECEIPT_SCHEMA), (''attempt_count'', PInt (int (length rows))),
      (''outcomes'', PDict (map (\<lambda>n. (n, PInt (outcome_count rows n))) (sort OUTCOMES))),
      (''usage'', PDict [(''policy_version'', PStr USAGE_POLICY),
         (''fields'', PDict (map (\<lambda>f. (f, usage_summary rows f)) USAGE_FIELDS))]),
      (''timing'', PDict
        [(''origin'', PStr ''benchmark_global_monotonic_t0''),
         (''lane_milliseconds'', PInt (lane_milliseconds rows)),
         (''wall_active_milliseconds'', PInt (wall_milliseconds rows)),
         (''concurrent_lane_milliseconds'', PInt (lane_milliseconds rows - wall_milliseconds rows)),
         (''semantics'', PStr ''relative intervals; lane time additive; wall time interval union'')])]"

definition summarize_receipts :: "attempt_key list \<Rightarrow> pyval list \<Rightarrow> pyval result" where
  "summarize_receipts expected receipts =
     bind_result (traverse key_validated expected) (\<lambda>keys.
     if \<not> distinct keys then Inl (ValueError ''expected receipt keys contain duplicates'')
     else bind_result (check_receipts [] receipts) (\<lambda>rows.
       if set (map row_key rows) \<noteq> set keys
       then Inl (ValueError ''native receipt keys do not match the expected one-to-one join'')
       else Inr (summarize_rows rows)))"

section \<open>What the builder writes, the validator accepts\<close>

lemma nonnegative_PInt [simp]: "nonnegative (PInt n) name = (if n < 0
    then Inl (TypeError (name @ '' must be a nonnegative integer'')) else Inr n)"
  by (simp add: nonnegative_def)

lemma nonnegative_InrE:
  assumes "nonnegative v name = Inr n"
  obtains "v = PInt n" "0 \<le> n"
  using assms by (auto simp: nonnegative_def split: pyval.splits if_splits)

definition opt_nonneg :: "int option \<Rightarrow> bool" where
  "opt_nonneg x \<longleftrightarrow> (\<forall>n. x = Some n \<longrightarrow> 0 \<le> n)"

lemma optional_nonnegative_Inr_iff:
  "optional_nonnegative v name = Inr x \<longleftrightarrow> v = opt_int x \<and> opt_nonneg x"
  by (cases x) (auto simp: optional_nonnegative_def opt_int_def opt_nonneg_def bind_result_Inr_iff
      nonnegative_def split: pyval.splits if_splits)

lemma optional_nonnegative_opt_int [simp]: "opt_nonneg x \<Longrightarrow> optional_nonnegative (opt_int x) name = Inr x"
  by (simp add: optional_nonnegative_Inr_iff)

lemma opt_nonneg_simps [simp]: "opt_nonneg None" "opt_nonneg (Some n) \<longleftrightarrow> 0 \<le> n"
  by (simp_all add: opt_nonneg_def)

lemma opt_int_simps [simp]: "opt_int None = PNone" "opt_int (Some n) = PInt n"
  by (simp_all add: opt_int_def)

lemma span_public_check:
  assumes "span_public sp = Inr d" "span_stage sp \<notin> set seen"
  shows "\<exists>i. check_span seen (PDict d) = Inr (span_stage sp, i) \<and> stage_of d = PStr (span_stage sp)"
proof -
  have keys: "keys_are (span_doc st w s e n) (set SPAN_FIELDS)" for st w s e n
    by (simp add: keys_are_def span_doc_def SPAN_FIELDS_def)
  from assms(1) obtain s e n where d: "d = span_doc (span_stage sp) (span_status sp) s e n"
    and se: "span_start sp = opt_int s" "span_end sp = opt_int e" "opt_nonneg s" "opt_nonneg e"
    and n: "n = None \<or> (\<exists>a b. s = Some a \<and> e = Some b \<and> n = Some (b - a) \<and> a \<le> b)"
    by (auto simp: span_public_def optional_nonnegative_Inr_iff elim!: bind_result_InrE
        split: if_split_asm option.split_asm)
  have read: "span_public \<lparr>span_stage = stage_text (dict_get d ''stage''),
      span_status = dict_get d ''status'', span_start = dict_get d ''start_offset_milliseconds'',
      span_end = dict_get d ''end_offset_milliseconds''\<rparr> = Inr d"
  proof -
    have "\<lparr>span_stage = stage_text (dict_get d ''stage''),
      span_status = dict_get d ''status'', span_start = dict_get d ''start_offset_milliseconds'',
      span_end = dict_get d ''end_offset_milliseconds''\<rparr> = sp"
      using se by (simp add: d span_doc_def stage_text_def)
    with assms(1) show ?thesis by simp
  qed
  have "stage_text (dict_get d ''stage'') = span_stage sp" "stage_of d = PStr (span_stage sp)"
    by (simp_all add: d span_doc_def stage_text_def stage_of_def)
  moreover have "dict_get d ''duration_milliseconds'' = opt_int n"
    "dict_get d ''start_offset_milliseconds'' = opt_int s" "dict_get d ''end_offset_milliseconds'' = opt_int e"
    by (simp_all add: d span_doc_def)
  moreover have "keys_are d (set SPAN_FIELDS)" by (simp add: d keys)
  ultimately show ?thesis using assms(2) n se read
    by (auto simp: check_span_def)
qed

lemma check_spans_built:
  "list_all2 (\<lambda>sp d. span_public sp = Inr d) sps ds \<Longrightarrow> distinct (map stage_of ds) \<Longrightarrow>
     (\<forall>st \<in> set seen. PStr st \<notin> set (map stage_of ds)) \<Longrightarrow>
     \<exists>ivs. check_spans seen (map PDict ds) = Inr ivs"
proof (induction sps ds arbitrary: seen rule: list_all2_induct)
  case Nil
  then show ?case by simp
next
  case (Cons sp sps d ds)
  have stage: "stage_of d = PStr (span_stage sp)"
    using span_public_check [OF Cons.hyps(1), of "[]"] by auto
  then have "span_stage sp \<notin> set seen" using Cons.prems(2) by auto
  then obtain i where "check_span seen (PDict d) = Inr (span_stage sp, i)"
    using span_public_check [OF Cons.hyps(1)] by auto
  moreover obtain js where "check_spans (span_stage sp # seen) (map PDict ds) = Inr js"
    using Cons.IH [of "span_stage sp # seen"] Cons.prems stage by auto
  ultimately show ?case by simp
qed

lemma budget_public_check: "budget_public b = Inr doc \<Longrightarrow> check_budget doc = Inr ()"
  by (auto simp: budget_public_def check_budget_def exact_keys_def keys_are_def BUDGET_FIELDS_def
      optional_nonnegative_Inr_iff elim!: bind_result_InrE nonnegative_InrE split: if_split_asm)

lemma field_doc_keys: "keys_are (map (\<lambda>f. (f, g f)) USAGE_FIELDS) (set USAGE_FIELDS)"
  by (simp add: keys_are_def)

lemma map_of_fields: "f \<in> set USAGE_FIELDS \<Longrightarrow> map_of (map (\<lambda>f. (f, g f)) USAGE_FIELDS) f = Some (g f)"
  by (auto simp: USAGE_FIELDS_def)

lemma check_values_built:
  assumes "dict_get u name = field_doc (\<lambda>f. opt_int (g f))" "\<And>f. opt_nonneg (g f)"
  shows "\<exists>h. check_values u name = Inr h \<and> (\<forall>f \<in> set USAGE_FIELDS. h f = g f)"
proof -
  have "traverse (\<lambda>(f, v). bind_result (optional_nonnegative v (name @ '' '' @ f @ '' usage'')) (\<lambda>x. Inr (f, x)))
      (map (\<lambda>f. (f, opt_int (g f))) USAGE_FIELDS) = Inr (map (\<lambda>f. (f, g f)) USAGE_FIELDS)"
    using assms(2) by (simp add: USAGE_FIELDS_def)
  then show ?thesis using assms(1) field_doc_keys
    by (auto simp: check_values_def field_doc_def map_of_fields)
qed

lemma usage_snapshot_nonneg: "opt_nonneg (usage_snapshot ev f)"
  by (auto simp: usage_snapshot_def Let_def valid_duration_def opt_nonneg_def split: pyval.splits if_splits)

lemma repair_delta_nonneg: "opt_nonneg (fst (repair_delta r x y))"
  by (auto simp: repair_delta_def split: option.splits)

lemma repair_delta_status: "snd (repair_delta r x y) \<in> set DELTA_STATUSES"
  by (auto simp: repair_delta_def DELTA_STATUSES_def split: option.splits)

lemma repair_delta_mixed:
  "snd (repair_delta r x y) = ''not_applicable'' \<longleftrightarrow> \<not> r"
  by (auto simp: repair_delta_def split: option.splits)

lemma check_field_built:
  "check_field (snd (repair_delta r x y)) x y (accounted_usage x y) (fst (repair_delta r x y)) =
     (if r \<or> monotonic x y then Inr ()
      else Inl (ValueError ''native receipt usage accounting is inconsistent''))"
  by (cases x; cases y; cases r)
    (auto simp: check_field_def repair_delta_def accounted_usage_def monotonic_def)

lemma check_usage_built:
  "\<exists>h. check_usage (usage_doc repaired ev1 ev2) =
     (if repaired \<or> (\<forall>f \<in> set USAGE_FIELDS. monotonic (usage_snapshot ev1 f) (usage_snapshot ev2 f))
      then Inr h else Inl (ValueError ''native receipt usage accounting is inconsistent''))"
proof -
  let ?x = "usage_snapshot ev1" and ?y = "usage_snapshot ev2"
  obtain u where u: "usage_doc repaired ev1 ev2 = PDict u" by (simp add: usage_doc_def Let_def)
  have get: "dict_get u ''policy_version'' = PStr USAGE_POLICY" "dict_get u ''semantics'' = PStr USAGE_SEMANTICS"
    "dict_get u ''first'' = field_doc (\<lambda>f. opt_int (?x f))"
    "dict_get u ''final'' = field_doc (\<lambda>f. opt_int (?y f))"
    "dict_get u ''accounted'' = field_doc (\<lambda>f. opt_int (accounted_usage (?x f) (?y f)))"
    "dict_get u ''repair_delta'' = field_doc (\<lambda>f. opt_int (fst (repair_delta repaired (?x f) (?y f))))"
    "dict_get u ''repair_delta_status'' = field_doc (\<lambda>f. PStr (snd (repair_delta repaired (?x f) (?y f))))"
    "exact_keys u [''policy_version'', ''semantics'', ''first'', ''final'', ''accounted'',
       ''repair_delta'', ''repair_delta_status''] ''native receipt usage'' = Inr ()"
    using u by (auto simp: usage_doc_def Let_def exact_keys_def keys_are_def)
  have acc: "opt_nonneg (accounted_usage (?x f) (?y f))" for f
    using usage_snapshot_nonneg by (simp add: accounted_usage_def)
  obtain h1 where h1: "check_values u ''first'' = Inr h1" "\<forall>f \<in> set USAGE_FIELDS. h1 f = ?x f"
    using check_values_built [OF get(3)] usage_snapshot_nonneg by blast
  obtain h2 where h2: "check_values u ''final'' = Inr h2" "\<forall>f \<in> set USAGE_FIELDS. h2 f = ?y f"
    using check_values_built [OF get(4)] usage_snapshot_nonneg by blast
  obtain h3 where h3: "check_values u ''accounted'' = Inr h3"
    "\<forall>f \<in> set USAGE_FIELDS. h3 f = accounted_usage (?x f) (?y f)"
    using check_values_built [OF get(5)] acc by blast
  obtain h4 where h4: "check_values u ''repair_delta'' = Inr h4"
    "\<forall>f \<in> set USAGE_FIELDS. h4 f = fst (repair_delta repaired (?x f) (?y f))"
    using check_values_built [OF get(6)] repair_delta_nonneg by blast
  let ?st = "\<lambda>f. snd (repair_delta repaired (?x f) (?y f))"
  have status: "traverse check_status (map (\<lambda>f. (f, PStr (?st f))) USAGE_FIELDS) =
      Inr (map (\<lambda>f. (f, ?st f)) USAGE_FIELDS)"
    using repair_delta_status by (simp add: USAGE_FIELDS_def check_status_def py_hashable_def)
  have mixed: "\<not> (''not_applicable'' \<in> set (map ?st USAGE_FIELDS) \<and> set (map ?st USAGE_FIELDS) \<noteq> {''not_applicable''})"
  proof (cases repaired)
    case True
    then have "?st f \<noteq> ''not_applicable''" for f using repair_delta_mixed by simp
    then show ?thesis by fastforce
  next
    case False
    then have "?st f = ''not_applicable''" for f using repair_delta_mixed by blast
    then show ?thesis by (simp add: USAGE_FIELDS_def)
  qed
  let ?ok = "\<lambda>f. repaired \<or> monotonic (?x f) (?y f)"
  have field: "check_field (case map_of (map (\<lambda>f. (f, ?st f)) USAGE_FIELDS) f of Some s \<Rightarrow> s | None \<Rightarrow> [])
      (h1 f) (h2 f) (h3 f) (h4 f) = (if ?ok f then Inr () else
        Inl (ValueError ''native receipt usage accounting is inconsistent''))"
    if "f \<in> set USAGE_FIELDS" for f
    using that h1(2) h2(2) h3(2) h4(2) check_field_built [of repaired "?x f" "?y f"]
      map_of_fields [OF that, of ?st] by simp
  have loop: "traverse (\<lambda>f. check_field (case map_of (map (\<lambda>f. (f, ?st f)) USAGE_FIELDS) f of Some s \<Rightarrow> s | None \<Rightarrow> [])
      (h1 f) (h2 f) (h3 f) (h4 f)) fs =
      (if \<forall>f \<in> set fs. ?ok f then Inr (map (\<lambda>_. ()) fs)
       else Inl (ValueError ''native receipt usage accounting is inconsistent''))"
    if "set fs \<subseteq> set USAGE_FIELDS" for fs
    using that by (induction fs) (auto simp: field)
  have "check_usage (PDict u) = bind_result (traverse (\<lambda>f. check_field
      (case map_of (map (\<lambda>f. (f, ?st f)) USAGE_FIELDS) f of Some s \<Rightarrow> s | None \<Rightarrow> [])
      (h1 f) (h2 f) (h3 f) (h4 f)) USAGE_FIELDS) (\<lambda>_. Inr h3)"
    using get h1(1) h2(1) h3(1) h4(1) status mixed field_doc_keys
    by (auto simp: check_usage_def field_doc_def comp_def image_image)
  then have "check_usage (PDict u) =
      (if \<forall>f \<in> set USAGE_FIELDS. ?ok f then Inr h3
       else Inl (ValueError ''native receipt usage accounting is inconsistent''))"
    unfolding loop [OF order_refl] by simp
  then show ?thesis by (auto simp: u)
qed
lemma count_of_PInt [simp]: "0 \<le> n \<Longrightarrow> count_of (PInt n) = Inr n"
  by (simp add: count_of_def)

definition successes :: "native_call list \<Rightarrow> int" where
  "successes cs = int (length (staged ''successful'' cs))"

lemma tool_accounting_cases:
  assumes "tool_accounting first repair cumulative = Inr doc"
  obtains t eligible closures where
    "total_calls no_calls cumulative = Inr t" "eligible = int (length (staged ''arguments'' first))"
    "closures = (\<Sum>tool \<in> call_tool ` set repair.
       int (min (tool_calls ''arguments'' tool first) (tool_calls ''successful'' tool repair)))"
    "sum_list (map (stage_count t) STAGES) = int (length cumulative)"
    "doc = PDict
       [(''counts'', PDict
          [(''first_turn'', PInt (int (length first))), (''repair_turn'', PInt (int (length repair))),
           (''cumulative'', PInt (int (length cumulative))),
           (''by_stage'', PDict (map (\<lambda>s. (s, PInt (stage_count t s))) STAGES))]),
        (''argument_repair'', PDict
          [(''eligible_failures'', PInt eligible), (''repair_successful_calls'', PInt (successes repair)),
           (''closures'', PInt closures), (''unclosed'', PInt (eligible - closures)),
           (''semantics'', PStr SEMANTICS)]),
        (''successful_call_timing'', PDict
          [(''observed_call_count'', PInt (observed_calls t)), (''missing_call_count'', PInt (missing_calls t)),
           (''observed_total_milliseconds'', PInt (observed_milliseconds t)),
           (''total_milliseconds'',
             if missing_calls t = 0 then PInt (observed_milliseconds t) else PNone)])]"
proof -
  from assms obtain t p e k s where *: "total_calls no_calls cumulative = Inr t"
    "collect_failures (\<lambda>_. 0, 0) first = Inr (p, e)" "close_failures (p, 0, 0) repair = Inr (k, s)"
    "sum_list (map (stage_count t) STAGES) = int (length cumulative)"
    and doc: "doc = PDict
       [(''counts'', PDict
          [(''first_turn'', PInt (int (length first))), (''repair_turn'', PInt (int (length repair))),
           (''cumulative'', PInt (int (length cumulative))),
           (''by_stage'', PDict (map (\<lambda>s. (s, PInt (stage_count t s))) STAGES))]),
        (''argument_repair'', PDict
          [(''eligible_failures'', PInt e), (''repair_successful_calls'', PInt s),
           (''closures'', PInt k), (''unclosed'', PInt (e - k)), (''semantics'', PStr SEMANTICS)]),
        (''successful_call_timing'', PDict
          [(''observed_call_count'', PInt (observed_calls t)), (''missing_call_count'', PInt (missing_calls t)),
           (''observed_total_milliseconds'', PInt (observed_milliseconds t)),
           (''total_milliseconds'',
             if missing_calls t = 0 then PInt (observed_milliseconds t) else PNone)])]"
    unfolding tool_accounting_def
    by (elim bind_result_InrE) (auto elim!: bind_result_InrE split: prod.split_asm if_split_asm)
  have "p = (\<lambda>t. tool_calls ''arguments'' t first)" "e = int (length (staged ''arguments'' first))"
    using collect_failures_counts [OF *(2)] by simp_all
  moreover from this have "k = (\<Sum>tool \<in> call_tool ` set repair.
       int (min (tool_calls ''arguments'' tool first) (tool_calls ''successful'' tool repair)))"
    "s = successes repair"
    using close_failures_counts [OF *(3), of "call_tool ` set repair"] by (simp_all add: successes_def)
  ultimately show ?thesis using that [OF *(1) _ _ *(4)] doc by simp
qed

lemma stages_keys: "keys_are (map (\<lambda>s. (s, g s)) STAGES) (set STAGES)"
  by (simp add: keys_are_def)

lemma tool_accounting_check:
  assumes "tool_accounting first repair cumulative = Inr doc"
    and "length cumulative = length first + length repair"
  shows "check_tools doc = (if successes repair \<le> successes cumulative then Inr ()
    else Inl (ValueError ''native receipt successful repair calls do not reconcile''))"
proof -
  from assms(1) obtain t eligible closures where *:
    "total_calls no_calls cumulative = Inr t" "eligible = int (length (staged ''arguments'' first))"
    "closures = (\<Sum>tool \<in> call_tool ` set repair.
       int (min (tool_calls ''arguments'' tool first) (tool_calls ''successful'' tool repair)))"
    "sum_list (map (stage_count t) STAGES) = int (length cumulative)"
    and doc: "doc = PDict
       [(''counts'', PDict
          [(''first_turn'', PInt (int (length first))), (''repair_turn'', PInt (int (length repair))),
           (''cumulative'', PInt (int (length cumulative))),
           (''by_stage'', PDict (map (\<lambda>s. (s, PInt (stage_count t s))) STAGES))]),
        (''argument_repair'', PDict
          [(''eligible_failures'', PInt eligible), (''repair_successful_calls'', PInt (successes repair)),
           (''closures'', PInt closures), (''unclosed'', PInt (eligible - closures)),
           (''semantics'', PStr SEMANTICS)]),
        (''successful_call_timing'', PDict
          [(''observed_call_count'', PInt (observed_calls t)), (''missing_call_count'', PInt (missing_calls t)),
           (''observed_total_milliseconds'', PInt (observed_milliseconds t)),
           (''total_milliseconds'',
             if missing_calls t = 0 then PInt (observed_milliseconds t) else PNone)])]"
    by (rule tool_accounting_cases)
  have t: "stage_count t s = int (length (staged s cumulative))"
    "observed_calls t + missing_calls t = successes cumulative"
    "0 \<le> observed_calls t" "0 \<le> missing_calls t" "0 \<le> observed_milliseconds t" for s
    using total_calls_counts [OF *(1), of s] by (simp_all add: no_calls_def successes_def)
  have k: "0 \<le> closures" "closures \<le> eligible" "closures \<le> successes repair"
  proof -
    note le = sum_min_le [of "\<lambda>t. tool_calls ''arguments'' t first" "\<lambda>t. tool_calls ''successful'' t repair"
      "call_tool ` set repair"]
    show "0 \<le> closures" unfolding *(3) by (simp add: sum_nonneg)
    show "closures \<le> eligible" using le sum_tool_calls [of "call_tool ` set repair" "''arguments''" first]
      unfolding *(2,3) by simp
    show "closures \<le> successes repair"
      using le sum_tool_calls [of "call_tool ` set repair" "''successful''" repair]
      unfolding *(3) successes_def by simp
  qed
  have succ: "successes repair \<le> int (length repair)" "0 \<le> successes repair"
    using length_staged_le [of "''successful''" repair] by (simp_all add: successes_def)
  have counts: "check_counts [(''first_turn'', PInt (int (length first))),
      (''repair_turn'', PInt (int (length repair))), (''cumulative'', PInt (int (length cumulative))),
      (''by_stage'', PDict (map (\<lambda>s. (s, PInt (stage_count t s))) STAGES))] =
      Inr (int (length repair), successes cumulative, int (length cumulative))"
  proof -
    have "traverse (\<lambda>(k, v). count_of v) (map (\<lambda>s. (s, PInt (stage_count t s))) STAGES) =
        Inr (map (stage_count t) STAGES)"
      using t(1) by (simp add: STAGES_def count_of_def)
    moreover have "dict_get (map (\<lambda>s. (s, PInt (stage_count t s))) STAGES) ''successful'' =
        PInt (successes cumulative)"
      by (simp add: STAGES_def t(1) successes_def)
    ultimately show ?thesis using *(4) assms(2) stages_keys
      by (simp add: check_counts_def exact_keys_def keys_are_def successes_def)
  qed
  have repair: "check_repair (int (length repair)) (successes cumulative)
      [(''eligible_failures'', PInt eligible), (''repair_successful_calls'', PInt (successes repair)),
       (''closures'', PInt closures), (''unclosed'', PInt (eligible - closures)),
       (''semantics'', PStr SEMANTICS)] = (if successes repair \<le> successes cumulative then Inr ()
      else Inl (ValueError ''native receipt successful repair calls do not reconcile''))"
    using k succ *(2) by (simp add: check_repair_def exact_keys_def keys_are_def)
  have timing: "check_timing (successes cumulative)
      [(''observed_call_count'', PInt (observed_calls t)), (''missing_call_count'', PInt (missing_calls t)),
       (''observed_total_milliseconds'', PInt (observed_milliseconds t)),
       (''total_milliseconds'', if missing_calls t = 0 then PInt (observed_milliseconds t) else PNone)] = Inr ()"
    using t(2-5) by (auto simp: check_timing_def exact_keys_def keys_are_def optional_nonnegative_def)
  show ?thesis unfolding doc
    by (simp add: check_tools_def exact_keys_def keys_are_def counts repair timing)
qed
lemma build_receipt_cases:
  assumes "build_receipt key outcome spans bud ev1 ev2 first repair cumulative repaired = Inr doc"
  obtains d where "doc = PDict d" "exact_keys d RECEIPT_FIELDS ''native attempt receipt'' = Inr ()"
    "receipt_key d = Inr key" "dict_get d ''outcome'' = PStr outcome" "outcome \<in> set OUTCOMES"
    "dict_get d ''usage'' = usage_doc repaired ev1 ev2"
    "\<exists>ds ivs. dict_get d ''spans'' = PList ds \<and> check_spans [] ds = Inr ivs"
    "check_budget (dict_get d ''budget'') = Inr ()"
    "tool_accounting first repair cumulative = Inr (dict_get d ''tools'')"
    "length cumulative = length first + length repair"
proof -
  from assms obtain ds tools bdoc where *: "key_validated key = Inr key" "outcome \<in> set OUTCOMES"
    "traverse span_public spans = Inr ds" "distinct (map stage_of ds)"
    "length cumulative = length first + length repair"
    "tool_accounting first repair cumulative = Inr tools" "budget_public bud = Inr bdoc"
    and doc: "doc = PDict
       [(''schema'', PStr ATTEMPT_RECEIPT_SCHEMA),
        (''attempt'', PDict [(''task_id'', PStr (task_id key)), (''arm_id'', PStr (arm_id key))]),
        (''outcome'', PStr outcome), (''spans'', PList (map PDict ds)),
        (''budget'', bdoc), (''usage'', usage_doc repaired ev1 ev2), (''tools'', tools)]"
    by (auto simp: build_receipt_def key_validated_def elim!: bind_result_InrE split: if_split_asm)
  from *(3) have "list_all2 (\<lambda>sp d. span_public sp = Inr d) spans ds"
    by (simp add: traverse_Inr_iff)
  then obtain ivs where "check_spans [] (map PDict ds) = Inr ivs"
    using check_spans_built *(4) by fastforce
  moreover have "check_budget bdoc = Inr ()" using budget_public_check *(7) .
  ultimately show ?thesis using * that [OF doc]
    by (simp add: exact_keys_def keys_are_def RECEIPT_FIELDS_def receipt_key_def insert_commute)
qed

text \<open>Usage is regular when it was repaired or no counter falls.\<close>

definition usage_regular :: "bool \<Rightarrow> pyval \<Rightarrow> pyval \<Rightarrow> bool" where
  "usage_regular repaired ev1 ev2 \<longleftrightarrow>
     repaired \<or> (\<forall>f \<in> set USAGE_FIELDS. monotonic (usage_snapshot ev1 f) (usage_snapshot ev2 f))"

lemma built_receipt_checked:
  assumes "build_receipt key outcome spans bud ev1 ev2 first repair cumulative repaired = Inr doc" "key \<notin> set seen"
  shows "\<exists>row. check_receipt seen doc =
    (if \<not> usage_regular repaired ev1 ev2 then Inl (ValueError ''native receipt usage accounting is inconsistent'')
     else if \<not> successes repair \<le> successes cumulative
     then Inl (ValueError ''native receipt successful repair calls do not reconcile'')
     else Inr row)
    \<and> row_key row = key \<and> row_outcome row = outcome"
proof -
  from assms(1) obtain d where d: "doc = PDict d"
    "exact_keys d RECEIPT_FIELDS ''native attempt receipt'' = Inr ()"
    "receipt_key d = Inr key" "dict_get d ''outcome'' = PStr outcome" "outcome \<in> set OUTCOMES"
    "dict_get d ''usage'' = usage_doc repaired ev1 ev2"
    "\<exists>ds ivs. dict_get d ''spans'' = PList ds \<and> check_spans [] ds = Inr ivs"
    "check_budget (dict_get d ''budget'') = Inr ()"
    "tool_accounting first repair cumulative = Inr (dict_get d ''tools'')"
    "length cumulative = length first + length repair"
    by (rule build_receipt_cases)
  obtain h where h: "check_usage (usage_doc repaired ev1 ev2) =
     (if usage_regular repaired ev1 ev2
      then Inr h else Inl (ValueError ''native receipt usage accounting is inconsistent''))"
    using check_usage_built unfolding usage_regular_def by blast
  from d(7) obtain ds ivs where spans: "dict_get d ''spans'' = PList ds" "check_spans [] ds = Inr ivs" by blast
  let ?row = "\<lparr>row_key = key, row_outcome = outcome, row_usage = h, row_intervals = ivs\<rparr>"
  note tools = tool_accounting_check [OF d(9,10)]
  have "check_receipt seen doc =
    (if \<not> usage_regular repaired ev1 ev2 then Inl (ValueError ''native receipt usage accounting is inconsistent'')
     else if \<not> successes repair \<le> successes cumulative
     then Inl (ValueError ''native receipt successful repair calls do not reconcile'')
     else Inr ?row)"
    using d(2-6,8) spans assms(2)
    by (simp add: check_receipt_def d(1) h tools py_hashable_def stage_text_def)
  then show ?thesis by (intro exI [of _ ?row]) simp
qed

lemma check_spans_ordered:
  "check_spans seen ds = Inr ivs \<Longrightarrow> \<forall>(s, e) \<in> set ivs. s \<le> e"
proof (induction ds arbitrary: seen ivs)
  case Nil
  then show ?case by simp
next
  case (Cons v ds)
  from Cons.prems obtain stage i js where *: "check_span seen v = Inr (stage, i)"
    "check_spans (stage # seen) ds = Inr js" "ivs = (case i of None \<Rightarrow> js | Some x \<Rightarrow> x # js)"
    by (auto elim!: bind_result_InrE)
  have "\<forall>s e. i = Some (s, e) \<longrightarrow> s \<le> e"
    using *(1) by (auto simp: check_span_def Let_def elim!: bind_result_InrE nonnegative_InrE
        split: pyval.split_asm if_split_asm)
  with Cons.IH [OF *(2)] *(3) show ?case by (auto split: option.splits)
qed
text \<open>The arguments of the builder for one attempt, and when its receipt is consistent.\<close>

record attempt_facts =
  af_key :: attempt_key
  af_outcome :: string
  af_spans :: "span list"
  af_budget :: budget
  af_first_event :: pyval
  af_final_event :: pyval
  af_first_calls :: "native_call list"
  af_repair_calls :: "native_call list"
  af_cumulative_calls :: "native_call list"
  af_repaired :: bool

definition receipt_of :: "attempt_facts \<Rightarrow> pyval result" where
  "receipt_of x = build_receipt (af_key x) (af_outcome x) (af_spans x) (af_budget x) (af_first_event x) (af_final_event x)
     (af_first_calls x) (af_repair_calls x) (af_cumulative_calls x) (af_repaired x)"

definition consistent_facts :: "attempt_facts \<Rightarrow> bool" where
  "consistent_facts x \<longleftrightarrow> usage_regular (af_repaired x) (af_first_event x) (af_final_event x)
     \<and> successes (af_repair_calls x) \<le> successes (af_cumulative_calls x)"

lemma key_validated_public: "key_validated k = Inr k' \<Longrightarrow> k' = k \<and> public_id (task_id k) \<and> public_id (arm_id k)"
  by (auto simp: key_validated_def split: if_splits)

lemma built_key_validated: "build_receipt key outcome spans bud ev1 ev2 first repair cumulative repaired = Inr doc
    \<Longrightarrow> key_validated key = Inr key"
  by (auto simp: build_receipt_def key_validated_def elim!: bind_result_InrE split: if_splits)

lemma receipt_of_key: "receipt_of x = Inr doc \<Longrightarrow> key_validated (af_key x) = Inr (af_key x)"
  unfolding receipt_of_def by (rule built_key_validated)

lemma receipt_of_checked:
  assumes "receipt_of x = Inr doc" "af_key x \<notin> set seen"
  shows "if consistent_facts x then \<exists>row. check_receipt seen doc = Inr row \<and> row_key row = af_key x
    else \<exists>e. check_receipt seen doc = Inl e"
  using built_receipt_checked [OF assms(1) [unfolded receipt_of_def] assms(2)]
  by (auto simp: consistent_facts_def)

lemma check_receipts_built:
  "list_all2 (\<lambda>x doc. receipt_of x = Inr doc) xs docs \<Longrightarrow> distinct (map af_key xs) \<Longrightarrow> set (map af_key xs) \<inter> set seen = {} \<Longrightarrow>
     if list_all consistent_facts xs then \<exists>rows. check_receipts seen docs = Inr rows \<and> map row_key rows = map af_key xs
     else \<exists>e. check_receipts seen docs = Inl e"
proof (induction xs docs arbitrary: seen rule: list_all2_induct)
  case Nil
  then show ?case by simp
next
  case (Cons x xs doc docs)
  have new: "af_key x \<notin> set seen" using Cons.prems(2) by simp
  show ?case
  proof (cases "consistent_facts x")
    case False
    with receipt_of_checked [OF Cons.hyps(1) new] obtain e where "check_receipt seen doc = Inl e" by auto
    with False show ?thesis by (simp add: bind_result_def)
  next
    case True
    with receipt_of_checked [OF Cons.hyps(1) new] obtain row where row: "check_receipt seen doc = Inr row" "row_key row = af_key x"
      by auto
    with Cons.IH [of "af_key x # seen"] Cons.prems True show ?thesis by (auto simp: bind_result_def)
  qed
qed

lemma check_receipts_ordered:
  "check_receipts seen docs = Inr rows \<Longrightarrow>
     (\<forall>r \<in> set rows. \<forall>(s, e) \<in> set (row_intervals r). s \<le> e)
     \<and> distinct (map row_key rows) \<and> set (map row_key rows) \<inter> set seen = {} \<and> length rows = length docs"
proof (induction docs arbitrary: seen rows)
  case Nil
  then show ?case by simp
next
  case (Cons v docs)
  from Cons.prems obtain row rest where *: "check_receipt seen v = Inr row"
    "check_receipts (row_key row # seen) docs = Inr rest" "rows = row # rest"
    by (auto elim!: bind_result_InrE)
  have "row_key row \<notin> set seen \<and> (\<exists>ds. check_spans [] ds = Inr (row_intervals row))"
    using *(1) unfolding check_receipt_def
    by (elim bind_result_InrE; auto elim!: bind_result_InrE split: if_split_asm pyval.split_asm; blast)
  then have "row_key row \<notin> set seen" "\<forall>(s, e) \<in> set (row_intervals row). s \<le> e"
    using check_spans_ordered by blast+
  with Cons.IH [OF *(2)] *(3) show ?case by auto
qed

lemma concat_intervals_ordered:
  "\<forall>r \<in> set rows. \<forall>(s, e) \<in> set (row_intervals r). s \<le> e \<Longrightarrow>
     \<forall>(s, e) \<in> set (concat (map row_intervals rows)). s \<le> e"
  by auto

lemma nonempty_points: "points (filter (\<lambda>(s, e). s < e) xs) = points xs"
  by (fastforce simp: points_def)

lemma wall_le_lane:
  assumes "\<forall>(s, e) \<in> set xs. s \<le> e"
  shows "interval_union (filter (\<lambda>(s, e). s < e) xs) \<le> sum_list (map (\<lambda>(s, e). e - s) xs)"
proof -
  have "interval_union (filter (\<lambda>(s, e). s < e) xs) = interval_union xs"
    using assms by (subst (1 2) interval_union_card) (auto simp: nonempty_points)
  with interval_union_le_sum [OF assms] show ?thesis by simp
qed

section \<open>Properties\<close>

text \<open>C35. The summary accepts exactly the consistent receipts among those the builder writes. For any list of
  attempts with distinct keys whose receipts were built, in any outcomes, spans, budgets and calls: when in
  every attempt the successful calls of the repair are at most the cumulative ones and no usage counter
  falls unless there was a repair, the summary of the receipts against their keys succeeds and every row is
  joined; when in one of them either fails, which the builder does not check, the summary is refused.\<close>

theorem built_receipts_summarize:
  assumes "traverse receipt_of xs = Inr docs" "distinct (map af_key xs)"
  shows "if \<forall>x \<in> set xs. usage_regular (af_repaired x) (af_first_event x) (af_final_event x)
        \<and> successes (af_repair_calls x) \<le> successes (af_cumulative_calls x)
    then \<exists>rows. summarize_receipts (map af_key xs) docs = Inr (summarize_rows rows) \<and> map row_key rows = map af_key xs
    else \<exists>e. summarize_receipts (map af_key xs) docs = Inl e"
proof -
  have built: "list_all2 (\<lambda>x doc. receipt_of x = Inr doc) xs docs" using assms(1) by (simp add: traverse_Inr_iff)
  have "\<forall>x \<in> set xs. key_validated (af_key x) = Inr (af_key x)"
    using built by (induction rule: list_all2_induct) (simp_all add: receipt_of_key)
  then have "traverse key_validated (map af_key xs) = Inr (map af_key xs)"
    using traverse_map_Inr [of "map af_key xs" key_validated "\<lambda>k. k"] by auto
  then have sum: "summarize_receipts (map af_key xs) docs = bind_result (check_receipts [] docs) (\<lambda>rows.
      if set (map row_key rows) \<noteq> set (map af_key xs)
      then Inl (ValueError ''native receipt keys do not match the expected one-to-one join'')
      else Inr (summarize_rows rows))"
    using assms(2) by (simp add: summarize_receipts_def bind_result_def)
  have all: "(\<forall>x \<in> set xs. usage_regular (af_repaired x) (af_first_event x) (af_final_event x)
      \<and> successes (af_repair_calls x) \<le> successes (af_cumulative_calls x)) \<longleftrightarrow> list_all consistent_facts xs"
    by (simp add: list_all_iff consistent_facts_def)
  note checked = check_receipts_built [OF built assms(2), of "[]"]
  show ?thesis
  proof (cases "list_all consistent_facts xs")
    case True
    with checked obtain rows where rows: "check_receipts [] docs = Inr rows" "map row_key rows = map af_key xs" by auto
    have "summarize_receipts (map af_key xs) docs = Inr (summarize_rows rows)"
      using arg_cong [OF rows(2), of set] by (simp add: sum rows(1) bind_result_def)
    then show ?thesis unfolding all if_P [OF True] using rows(2) by blast
  next
    case False
    with checked obtain e where "check_receipts [] docs = Inl e" by auto
    then have "summarize_receipts (map af_key xs) docs = Inl e" unfolding sum by (simp add: bind_result_def)
    then show ?thesis unfolding all if_not_P [OF False] by blast
  qed
qed

definition sample_key :: attempt_key where
  "sample_key = AttemptKey ''t1'' ''arm''"

definition sample_budget :: budget where
  "sample_budget = \<lparr>configured_milliseconds = PInt 10, granted_milliseconds = PInt 8,
     remaining_after_first = PInt 5, remaining_terminal = PNone\<rparr>"

definition sample_span :: span where
  "sample_span = \<lparr>span_stage = ''queue'', span_status = PStr ''completed'', span_start = PInt 3,
     span_end = PInt 9\<rparr>"

definition usage_event :: "int \<Rightarrow> pyval" where
  "usage_event n = PDict [(''usage'', PDict [(''inputTokens'', PInt n)])]"

lemma sample_built:
  "\<exists>doc. build_receipt sample_key ''completed'' [sample_span] sample_budget (usage_event a) (usage_event b)
     [] [] [] False = Inr doc"
proof -
  have "key_validated sample_key = Inr sample_key"
    by (simp add: sample_key_def key_validated_def public_id_def id_start_def id_char_def)
  moreover obtain d where "traverse span_public [sample_span] = Inr [d]"
    by (simp add: sample_span_def span_public_def SPAN_STAGES_def SPAN_STATUSES_def py_hashable_def
        optional_nonnegative_def stage_of_def span_doc_def)
  moreover obtain t where "tool_accounting [] [] [] = Inr t"
    by (simp add: tool_accounting_def no_calls_def STAGES_def)
  moreover obtain b where "budget_public sample_budget = Inr b"
    by (simp add: sample_budget_def budget_public_def exceeds_def optional_nonnegative_def)
  ultimately show ?thesis by (simp add: build_receipt_def OUTCOMES_def)
qed

lemma usage_event_snapshot:
  "0 \<le> n \<Longrightarrow> n \<le> 100 \<Longrightarrow> usage_snapshot (usage_event n) ''input_tokens'' = Some n"
  "f \<in> set USAGE_FIELDS \<Longrightarrow> f \<noteq> ''input_tokens'' \<Longrightarrow> usage_snapshot (usage_event n) f = None"
  by (auto simp: usage_snapshot_def usage_event_def usage_source_def usage_aliases_def has_key_def
      valid_duration_def USAGE_FIELDS_def)

lemma sample_monotonic:
  "monotonic (usage_snapshot (usage_event 4) f) (usage_snapshot (usage_event 7) f)" if "f \<in> set USAGE_FIELDS"
  using usage_event_snapshot(1) [of 4] usage_event_snapshot(1) [of 7] usage_event_snapshot(2) [OF that]
  by (cases "f = ''input_tokens''") (simp_all add: monotonic_def)

definition sample_facts :: "int \<Rightarrow> int \<Rightarrow> attempt_facts" where
  "sample_facts a b = \<lparr>af_key = sample_key, af_outcome = ''completed'', af_spans = [sample_span], af_budget = sample_budget,
     af_first_event = usage_event a, af_final_event = usage_event b, af_first_calls = [], af_repair_calls = [],
     af_cumulative_calls = [], af_repaired = False\<rparr>"

lemma sample_receipt: "\<exists>doc. receipt_of (sample_facts a b) = Inr doc"
  using sample_built by (simp add: receipt_of_def sample_facts_def)

lemma sample_regular: "usage_regular False (usage_event 4) (usage_event 7)"
  by (simp add: usage_regular_def sample_monotonic)

lemma sample_falling: "\<not> usage_regular False (usage_event 7) (usage_event 4)"
proof -
  have "\<not> monotonic (usage_snapshot (usage_event 7) ''input_tokens'') (usage_snapshot (usage_event 4) ''input_tokens'')"
    by (simp add: usage_event_snapshot monotonic_def)
  moreover have "''input_tokens'' \<in> set USAGE_FIELDS" by (simp add: USAGE_FIELDS_def)
  ultimately show ?thesis unfolding usage_regular_def by blast
qed

theorem built_receipts_summarize_witness:
  "\<exists>good bad rows e. traverse receipt_of [sample_facts 4 7] = Inr [good] \<and> traverse receipt_of [sample_facts 7 4] = Inr [bad]
     \<and> summarize_receipts [sample_key] [good] = Inr (summarize_rows rows) \<and> summarize_receipts [sample_key] [bad] = Inl e"
proof -
  obtain good bad where "receipt_of (sample_facts 4 7) = Inr good" "receipt_of (sample_facts 7 4) = Inr bad"
    using sample_receipt by blast
  then have built: "traverse receipt_of [sample_facts 4 7] = Inr [good]" "traverse receipt_of [sample_facts 7 4] = Inr [bad]"
    by (simp_all add: bind_result_def)
  have key: "map af_key [sample_facts a b] = [sample_key]" "distinct (map af_key [sample_facts a b])" for a b
    by (simp_all add: sample_facts_def)
  show ?thesis
    using built_receipts_summarize [OF built(1) key(2)] built_receipts_summarize [OF built(2) key(2)] built sample_regular
      sample_falling unfolding key(1) by (auto simp: sample_facts_def)
qed

text \<open>C36. The builder never looks at whether usage falls, and the summary never accepts a fall in an attempt that was not
  repaired. If the builder accepts such an attempt with some pair of usage events, then it builds a receipt
  with any other pair too; when a counter of the final event is below the first one, no summary that contains
  this receipt succeeds, whatever keys are expected and whatever other receipts come with it, and
  the summary of this receipt alone is refused for inconsistent accounting.\<close>

theorem falling_usage_rejected:
  assumes "build_receipt key outcome spans bud ev1 ev2 first repair cumulative False = Inr doc0"
    and "f \<in> set USAGE_FIELDS" "usage_snapshot fall1 f = Some a" "usage_snapshot fall2 f = Some b" "b < a"
  shows "\<exists>doc. build_receipt key outcome spans bud fall1 fall2 first repair cumulative False = Inr doc
    \<and> (\<forall>expected docs s. doc \<in> set docs \<longrightarrow> summarize_receipts expected docs \<noteq> Inr s)
    \<and> summarize_receipts [key] [doc] = Inl (ValueError ''native receipt usage accounting is inconsistent'')"
proof -
  obtain doc where doc: "build_receipt key outcome spans bud fall1 fall2 first repair cumulative False = Inr doc"
    using assms(1) by (auto simp: build_receipt_def elim!: bind_result_InrE split: if_split_asm)
  have fall: "\<not> usage_regular False fall1 fall2"
    using assms(2-5) by (auto simp: usage_regular_def monotonic_def intro!: bexI [of _ f])
  have refused: "check_receipt seen doc = Inl (ValueError ''native receipt usage accounting is inconsistent'')"
    if "key \<notin> set seen" for seen using built_receipt_checked [OF doc that] fall by auto
  have never: "check_receipts seen docs \<noteq> Inr rows" if "doc \<in> set docs" for seen docs rows
    using that
  proof (induction docs arbitrary: seen rows)
    case (Cons v docs)
    have "check_receipt seen doc \<noteq> Inr row" for row
    proof (cases "key \<in> set seen")
      case True
      from doc obtain d where "doc = PDict d" "receipt_key d = Inr key" by (rule build_receipt_cases)
      with True show ?thesis by (auto simp: check_receipt_def elim!: bind_result_InrE)
    qed (simp add: refused)
    with Cons show ?case by (auto elim!: bind_result_InrE)
  qed simp
  have "summarize_receipts expected docs \<noteq> Inr s" if "doc \<in> set docs" for expected docs s
    using never [OF that] by (auto simp: summarize_receipts_def elim!: bind_result_InrE split: if_split_asm)
  moreover have "summarize_receipts [key] [doc] = Inl (ValueError ''native receipt usage accounting is inconsistent'')"
    using refused [of "[]"] built_key_validated [OF doc] by (simp add: summarize_receipts_def bind_result_def)
  ultimately show ?thesis using doc by blast
qed

theorem falling_usage_rejected_witness:
  "\<exists>doc. build_receipt sample_key ''completed'' [sample_span] sample_budget (usage_event 7) (usage_event 4)
      [] [] [] False = Inr doc
    \<and> summarize_receipts [sample_key] [doc] =
        Inl (ValueError ''native receipt usage accounting is inconsistent'')"
proof -
  obtain doc0 where built: "build_receipt sample_key ''completed'' [sample_span] sample_budget
      (usage_event 4) (usage_event 7) [] [] [] False = Inr doc0" using sample_built by blast
  have "''input_tokens'' \<in> set USAGE_FIELDS" by (simp add: USAGE_FIELDS_def)
  from falling_usage_rejected [OF built this, of "usage_event 7" 7 "usage_event 4" 4] show ?thesis
    by (auto simp: usage_event_snapshot)
qed

text \<open>C37. Timing of every accepted summary: the rows are joined one to one with the expected keys, the
  wall time is the number of milliseconds covered by at least one observed span, and it never
  exceeds the additive lane time, so the concurrent time is never negative.\<close>

theorem summary_timing:
  assumes "summarize_receipts expected docs = Inr s"
  shows "\<exists>rows. s = summarize_rows rows \<and> distinct (map row_key rows) \<and> length rows = length docs
    \<and> set (map row_key rows) = set expected
    \<and> wall_milliseconds rows = int (card (points (concat (map row_intervals rows))))
    \<and> wall_milliseconds rows \<le> lane_milliseconds rows"
proof -
  from assms obtain keys rows where *: "traverse key_validated expected = Inr keys"
    "check_receipts [] docs = Inr rows" "set (map row_key rows) = set keys" "s = summarize_rows rows"
    by (auto simp: summarize_receipts_def elim!: bind_result_InrE split: if_split_asm)
  have "keys = expected" using *(1)
    by (induction expected arbitrary: keys) (auto dest: key_validated_public split: sum.splits)
  moreover have ordered: "\<forall>(s, e) \<in> set (concat (map row_intervals rows)). s \<le> e"
    by (rule concat_intervals_ordered) (use check_receipts_ordered [OF *(2)] in blast)
  moreover have "wall_milliseconds rows = int (card (points (concat (map row_intervals rows))))"
    unfolding wall_milliseconds_def by (subst interval_union_card) (auto simp: nonempty_points)
  moreover have "wall_milliseconds rows \<le> lane_milliseconds rows"
    unfolding wall_milliseconds_def lane_milliseconds_def by (rule wall_le_lane [OF ordered])
  ultimately show ?thesis using * check_receipts_ordered [OF *(2)] by blast
qed

theorem summary_timing_witness:
  "\<exists>docs rows. summarize_receipts [sample_key] docs = Inr (summarize_rows rows)
     \<and> wall_milliseconds rows \<le> lane_milliseconds rows"
proof -
  obtain doc where doc: "receipt_of (sample_facts 4 7) = Inr doc" using sample_receipt by blast
  have "consistent_facts (sample_facts 4 7)" by (simp add: consistent_facts_def sample_facts_def sample_regular)
  then obtain row where "check_receipt [] doc = Inr row" "row_key row = sample_key"
    using receipt_of_checked [OF doc, of "[]"] by (auto simp: sample_facts_def)
  moreover have "key_validated sample_key = Inr sample_key" using receipt_of_key [OF doc] by (simp add: sample_facts_def)
  ultimately have "summarize_receipts [sample_key] [doc] = Inr (summarize_rows [row])"
    by (simp add: summarize_receipts_def bind_result_def)
  from summary_timing [OF this] this show ?thesis by metis
qed

text \<open>FIFO repair accounting closes, for every tool, as many earlier argument failures as that tool
  has later successes, and no more: the number of closures is the sum over the tools of the
  smaller of the two counts, and the unclosed failures are what remains.\<close>

theorem repair_closures_per_tool:
  assumes "tool_accounting first repair cumulative = Inr doc"
  shows "\<exists>r closures. py_item doc ''argument_repair'' = Inr r
    \<and> closures = (\<Sum>tool \<in> call_tool ` set repair.
        int (min (tool_calls ''arguments'' tool first) (tool_calls ''successful'' tool repair)))
    \<and> py_item r ''closures'' = Inr (PInt closures)
    \<and> py_item r ''unclosed'' = Inr (PInt (int (length (staged ''arguments'' first)) - closures))"
  using tool_accounting_cases [OF assms] by fastforce

definition failed_call :: "string \<Rightarrow> native_call" where
  "failed_call tool = \<lparr>call_success = PBool False, call_host = MappingObservation
     [(''facts'', PDict [(''failure_stage'', PStr ''arguments'')])], call_name = PStr tool, call_duration = PNone\<rparr>"

definition good_call :: "string \<Rightarrow> native_call" where
  "good_call tool = \<lparr>call_success = PBool True, call_host = NoObservation, call_name = PStr tool,
     call_duration = PInt 5\<rparr>"

theorem repair_closures_per_tool_witness:
  "\<exists>doc r. tool_accounting [failed_call ''a'', failed_call ''a''] [good_call ''a''] 
      [failed_call ''a'', failed_call ''a'', good_call ''a''] = Inr doc
    \<and> py_item doc ''argument_repair'' = Inr r \<and> py_item r ''closures'' = Inr (PInt 1)"
proof -
  have stages: "call_stage (failed_call t) = Inr ''arguments''" "call_stage (good_call t) = Inr ''successful''" for t
    by (simp_all add: call_stage_def failed_call_def good_call_def observed_facts_def py_hashable_def
        FAILURE_STAGES_def)
  have tool: "call_tool (failed_call ''a'') = ''a''" "call_tool (good_call ''a'') = ''a''"
    by (simp_all add: call_tool_def failed_call_def good_call_def tool_id_def tool_char_def)
  have duration: "call_duration (good_call t) = PInt 5" for t by (simp add: good_call_def)
  have "\<exists>doc. tool_accounting [failed_call ''a'', failed_call ''a''] [good_call ''a'']
      [failed_call ''a'', failed_call ''a'', good_call ''a''] = Inr doc"
    by (simp add: tool_accounting_def stages tool duration no_calls_def STAGES_def add_call_def
        valid_duration_def)
  then obtain doc where doc: "tool_accounting [failed_call ''a'', failed_call ''a''] [good_call ''a'']
      [failed_call ''a'', failed_call ''a'', good_call ''a''] = Inr doc" by blast
  from repair_closures_per_tool [OF doc] doc show ?thesis by (auto simp: stages tool)
qed

end
