(* ===== verification/Py_Text.thy ===== *)
theory Py_Text
  imports Prelude
begin

text \<open>
  The parts of Python's standard library that read settings: \<open>str.strip\<close>, \<open>str.lower\<close>,
  \<open>str.split\<close>, \<open>int(str)\<close>, pure POSIX paths and \<open>urllib.parse.urlsplit\<close>, on the code points 0 to
  255. The check of an IP literal in the brackets of a URL is a parameter. The lemmas show that
  splitting is inverted by joining and that \<open>int(str(n))\<close> is \<open>n\<close>.
\<close>

section \<open>Text of the standard library\<close>

definition is_space :: "char \<Rightarrow> bool" where
  "is_space c \<longleftrightarrow> (let n = (of_char c :: nat) in
     9 \<le> n \<and> n \<le> 13 \<or> 28 \<le> n \<and> n \<le> 32 \<or> n = 133 \<or> n = 160)"

definition py_strip :: "string \<Rightarrow> string" where
  "py_strip s = rev (dropWhile is_space (rev (dropWhile is_space s)))"

definition is_ascii :: "string \<Rightarrow> bool" where
  "is_ascii s = list_all (\<lambda>c. (of_char c :: nat) < 128) s"

definition lower_char :: "char \<Rightarrow> char" where
  "lower_char c = (let n = (of_char c :: nat) in
     if 65 \<le> n \<and> n \<le> 90 \<or> 192 \<le> n \<and> n \<le> 222 \<and> n \<noteq> 215 then char_of (n + 32) else c)"

definition py_lower :: "string \<Rightarrow> string" where
  "py_lower s = map lower_char s"

fun split_on :: "char \<Rightarrow> string \<Rightarrow> string list" where
  "split_on c [] = [[]]"
| "split_on c (x # xs) =
     (if x = c then [] # split_on c xs
      else case split_on c xs of [] \<Rightarrow> [[x]] | w # ws \<Rightarrow> (x # w) # ws)"

definition before :: "char \<Rightarrow> string \<Rightarrow> string" where
  "before c s = takeWhile (\<lambda>x. x \<noteq> c) s"

definition after :: "char \<Rightarrow> string \<Rightarrow> string" where
  "after c s = tl (dropWhile (\<lambda>x. x \<noteq> c) s)"

text \<open>\<open>int(text)\<close> of a stripped text: an optional sign, digits with single underscores between
  them, and the interpreter's limit of 4300 digits.\<close>

definition int_digits :: "string \<Rightarrow> nat option" where
  "int_digits s =
     (let digits = filter (\<lambda>c. c \<noteq> CHR ''_'') s in
      if list_all (\<lambda>w. w \<noteq> [] \<and> list_all is_digit w) (split_on (CHR ''_'') s) \<and> length digits \<le> 4300
      then Some (dec_value digits) else None)"

definition int_of_text :: "string \<Rightarrow> int option" where
  "int_of_text s =
     (case s of
        c # r \<Rightarrow> if c = CHR ''-'' then map_option (\<lambda>n. - int n) (int_digits r)
                 else if c = CHR ''+'' then map_option int (int_digits r)
                 else map_option int (int_digits s)
      | [] \<Rightarrow> None)"

text \<open>A pure POSIX path: its root (empty, one slash, or exactly two) and its parts.\<close>

datatype path = Path (path_root: string) (path_parts: "string list")

definition path_of :: "string \<Rightarrow> path" where
  "path_of s = Path
     (if take 2 s = ''//'' \<and> take 3 s \<noteq> ''///'' then ''//'' else if take 1 s = ''/'' then ''/'' else [])
     (filter (\<lambda>p. p \<noteq> [] \<and> p \<noteq> ''.'') (split_on (CHR ''/'') s))"

definition path_str :: "path \<Rightarrow> string" where
  "path_str p = (let s = path_root p @ join ''/'' (path_parts p) in if s = [] then ''.'' else s)"

definition is_absolute :: "path \<Rightarrow> bool" where
  "is_absolute p \<longleftrightarrow> path_root p \<noteq> []"

text \<open>\<open>urlsplit\<close> with the \<open>hostname\<close>, \<open>username\<close>, \<open>password\<close> and \<open>port\<close> views of its network location.\<close>

record split_url =
  url_scheme :: string
  url_netloc :: string
  url_path :: string
  url_query :: string
  url_fragment :: string

definition is_letter :: "char \<Rightarrow> bool" where
  "is_letter c \<longleftrightarrow> (let n = (of_char c :: nat) in 65 \<le> n \<and> n \<le> 90 \<or> 97 \<le> n \<and> n \<le> 122)"

definition scheme_char :: "char \<Rightarrow> bool" where
  "scheme_char c \<longleftrightarrow> is_letter c \<or> is_digit c \<or> c \<in> set ''+-.''"

definition take_scheme :: "string \<Rightarrow> string \<times> string" where
  "take_scheme url =
     (let s = before (CHR '':'') url in
      if s \<noteq> url \<and> s \<noteq> [] \<and> is_letter (hd s) \<and> list_all scheme_char s
      then (py_lower s, after (CHR '':'') url) else ([], url))"

definition urlsplit :: "(string \<Rightarrow> bool) \<Rightarrow> string \<Rightarrow> split_url result" where
  "urlsplit ip_literal text =
     (let (scheme, url) = take_scheme text;
          rest = drop 2 url;
          (netloc, tail_text) = (if take 2 url = ''//''
             then (takeWhile (\<lambda>c. c \<notin> set ''/?#'') rest, dropWhile (\<lambda>c. c \<notin> set ''/?#'') rest)
             else ([], url));
          opened = CHR ''['' \<in> set netloc; closed = CHR '']'' \<in> set netloc in
      if opened \<noteq> closed then Inl (ValueError ''Invalid IPv6 URL'')
      else if opened \<and> \<not> ip_literal (before (CHR '']'') (after (CHR ''['') netloc))
      then Inl (ValueError ''not an IP literal'')
      else let unfragmented = before (CHR ''#'') tail_text in
      Inr \<lparr>url_scheme = scheme, url_netloc = netloc, url_path = before (CHR ''?'') unfragmented,
           url_query = after (CHR ''?'') unfragmented, url_fragment = after (CHR ''#'') tail_text\<rparr>)"

definition host_info :: "split_url \<Rightarrow> string \<times> string" where
  "host_info u =
     (let info = last (split_on (CHR ''@'') (url_netloc u)) in
      if CHR ''['' \<in> set info
      then let b = after (CHR ''['') info in
           (before (CHR '']'') b, after (CHR '':'') (after (CHR '']'') b))
      else (before (CHR '':'') info, after (CHR '':'') info))"

definition url_hostname :: "split_url \<Rightarrow> string option" where
  "url_hostname u =
     (let h = fst (host_info u) in
      if h = [] then None
      else Some (py_lower (before (CHR 0x25) h) @ dropWhile (\<lambda>x. x \<noteq> CHR 0x25) h))"

definition user_info :: "split_url \<Rightarrow> string" where
  "user_info u = join ''@'' (butlast (split_on (CHR ''@'') (url_netloc u)))"

definition url_username :: "split_url \<Rightarrow> string" where
  "url_username u = before (CHR '':'') (user_info u)"

definition url_password :: "split_url \<Rightarrow> string" where
  "url_password u = after (CHR '':'') (user_info u)"

definition url_port :: "split_url \<Rightarrow> nat option result" where
  "url_port u =
     (let p = snd (host_info u) in
      if p = [] then Inr None
      else if \<not> list_all is_digit p \<or> 4300 < length p
      then Inl (ValueError ''Port could not be cast to integer value'')
      else if 65535 < dec_value p then Inl (ValueError ''Port out of range 0-65535'')
      else Inr (Some (dec_value p)))"

lemma split_on_not_Nil [simp]: "split_on c s \<noteq> []"
  by (induction c s rule: split_on.induct) (auto split: list.splits)

lemma split_on_absent: "c \<notin> set s \<Longrightarrow> split_on c s = [s]"
  by (induction c s rule: split_on.induct) (auto split: list.splits)

lemma join_Cons: "ys \<noteq> [] \<Longrightarrow> join sep (y # ys) = y @ sep @ join sep ys"
  by (cases ys) (simp_all add: join_def)

lemma join_split_on [simp]: "join [c] (split_on c s) = s"
proof (induction c s rule: split_on.induct)
  case (1 c)
  then show ?case by (simp add: join_def)
next
  case (2 c x xs)
  then show ?case
    by (cases "split_on c xs"; cases "tl (split_on c xs)") (auto simp: join_def split: list.splits)
qed

lemma split_on_no_sep: "w \<in> set (split_on c s) \<Longrightarrow> c \<notin> set w"
  by (induction c s arbitrary: w rule: split_on.induct) (auto split: list.splits if_splits)

lemma split_on_join:
  "ws \<noteq> [] \<Longrightarrow> \<forall>w \<in> set ws. c \<notin> set w \<Longrightarrow> split_on c (join [c] ws) = ws"
proof (induction ws)
  case (Cons w ws)
  have step: "split_on c (w @ c # r) = w # split_on c r" if "c \<notin> set w" for w r
    using that by (induction w) auto
  show ?case
  proof (cases ws)
    case Nil
    then show ?thesis using Cons.prems by (simp add: join_def split_on_absent)
  next
    case (Cons v vs)
    with Cons.IH Cons.prems step show ?thesis by (simp add: join_Cons)
  qed
qed simp

lemma digit_not_space: "is_digit c \<Longrightarrow> \<not> is_space c"
  by (simp add: is_digit_def is_space_def Let_def)

lemma minus_not_space: "\<not> is_space (CHR ''-'')"
  by (simp add: is_space_def)

lemma py_strip_no_space: "\<forall>c \<in> set s. \<not> is_space c \<Longrightarrow> py_strip s = s"
proof -
  have same: "dropWhile is_space t = t" if "\<forall>c \<in> set t. \<not> is_space c" for t
    using that by (cases t) auto
  assume "\<forall>c \<in> set s. \<not> is_space c"
  then show ?thesis by (simp add: py_strip_def same)
qed

lemma py_strip_show_int [simp]: "py_strip (show_int n) = show_int n"
  by (rule py_strip_no_space) (auto dest: show_int_chars digit_not_space simp: minus_not_space)

text \<open>The exponent is kept symbolic: a numeral for the interpreter's bound would be evaluated.\<close>

lemma int_digits_dec_digits:
  assumes "n < 10 ^ k" "0 < k" "k \<le> 4300"
  shows "int_digits (dec_digits n) = Some n"
proof -
  have "length (dec_digits n) \<le> 4300"
    using length_dec_digits_bound [OF assms(1,2)] assms(3) by linarith
  moreover have "\<forall>c \<in> set (dec_digits n). is_digit c" using dec_digits_all_digits by blast
  moreover from this have "\<forall>c \<in> set (dec_digits n). c \<noteq> CHR ''_''" by (auto simp: is_digit_def)
  moreover from this have "CHR ''_'' \<notin> set (dec_digits n)" "filter (\<lambda>c. c \<noteq> CHR ''_'') (dec_digits n) = dec_digits n"
    by (auto simp: filter_id_conv)
  ultimately show ?thesis by (simp add: int_digits_def split_on_absent list_all_iff)
qed

lemma int_of_text_show_int:
  assumes "nat \<bar>n\<bar> < 10 ^ k" "0 < k" "k \<le> 4300"
  shows "int_of_text (show_int n) = Some n"
proof (cases "n < 0")
  case True
  with assms(1) have "nat (- n) < 10 ^ k" by simp
  from True int_digits_dec_digits [OF this assms(2,3)] show ?thesis
    by (simp add: show_int_def int_of_text_def)
next
  case False
  with assms(1) have "nat n < 10 ^ k" by simp
  note digits = int_digits_dec_digits [OF this assms(2,3)]
  obtain c r where cr: "dec_digits (nat n) = c # r" by (cases "dec_digits (nat n)") auto
  then have "is_digit c" by (metis dec_digits_all_digits list.set_intros(1))
  then have "c \<noteq> CHR ''-''" "c \<noteq> CHR ''+''" by (auto simp: is_digit_def)
  with cr digits False show ?thesis by (simp add: show_int_def int_of_text_def)
qed

end
