(* ===== verification/Config.thy ===== *)
theory Config
  imports Py_Text
begin

unbundle bit_operations_syntax

text \<open>
  \<open>src/rapido/config.py\<close>: the strict runtime configuration read from the environment, its public
  record, and the validation of the native client's home. The environment is a map from names to
  strings; every reader raises a configuration error on the first value that is missing, unsafe or
  out of bounds. The file system behind \<open>validate_codex_home\<close> is a parameter: the results of
  \<open>lstat\<close>, \<open>access\<close> and \<open>exists\<close>. The locale of admitted configurations states what every accepted
  configuration promises about artifact and workspace sizes.
\<close>

section \<open>Readers\<close>

type_synonym environment = "string \<Rightarrow> string option"

definition env_get :: "environment \<Rightarrow> string \<Rightarrow> string \<Rightarrow> string" where
  "env_get env name default_value = (case env name of None \<Rightarrow> default_value | Some v \<Rightarrow> v)"

definition printable :: "string \<Rightarrow> bool" where
  "printable s = list_all (\<lambda>c. 32 \<le> (of_char c :: nat)) s"

definition env_text :: "environment \<Rightarrow> string \<Rightarrow> string \<Rightarrow> string result" where
  "env_text env name default_value =
     (let v = py_strip (env_get env name default_value) in
      if v = [] \<or> \<not> printable v then Inl (ConfigError (name @ '' must be non-empty printable text''))
      else Inr v)"

definition env_integer :: "environment \<Rightarrow> string \<Rightarrow> int \<Rightarrow> int \<Rightarrow> int \<Rightarrow> int result" where
  "env_integer env name default_value minimum maximum =
     (case int_of_text (py_strip (env_get env name (show_int default_value))) of
        None \<Rightarrow> Inl (ConfigError (name @ '' must be an integer''))
      | Some v \<Rightarrow>
          if minimum \<le> v \<and> v \<le> maximum then Inr v
          else Inl (ConfigError (name @ '' must be between '' @ show_int minimum @ '' and '' @ show_int maximum)))"

definition env_path :: "environment \<Rightarrow> string \<Rightarrow> string \<Rightarrow> path result" where
  "env_path env name default_value =
     bind_result (env_text env name default_value) (\<lambda>raw.
     if is_absolute (path_of raw) then Inr (path_of raw)
     else Inl (ConfigError (name @ '' must be an absolute path'')))"

definition env_boolean :: "environment \<Rightarrow> string \<Rightarrow> bool \<Rightarrow> bool result" where
  "env_boolean env name default_value =
     (let raw = py_lower (py_strip (env_get env name (if default_value then ''true'' else ''false''))) in
      if raw = ''true'' then Inr True else if raw = ''false'' then Inr False
      else Inl (ConfigError (name @ '' must be true or false'')))"

definition env_id_list :: "environment \<Rightarrow> string \<Rightarrow> int list result" where
  "env_id_list env name =
     (let raw = py_strip (env_get env name []); parts = split_on (CHR '','') raw in
      if raw = [] then Inr []
      else if 1000 < length parts then Inl (ConfigError (name @ '' exceeds the challenge limit''))
      else case those (map (\<lambda>p. int_of_text (py_strip p)) parts) of
        None \<Rightarrow> Inl (ConfigError (name @ '' must be comma-separated integers''))
      | Some values \<Rightarrow>
          if (\<exists>v \<in> set values. v \<le> 0) \<or> \<not> distinct values
          then Inl (ConfigError (name @ '' must contain unique positive integers''))
          else Inr values)"

definition OFFICIAL_HOST :: string where
  "OFFICIAL_HOST = ''hackathon.in-cypher.com''"

definition env_origin :: "(string \<Rightarrow> bool) \<Rightarrow> environment \<Rightarrow> string result" where
  "env_origin ip_literal env =
     bind_result (env_text env ''CTFD_URL'' ''https://hackathon.in-cypher.com'') (\<lambda>text.
     let url = rev (dropWhile (\<lambda>c. c = CHR ''/'') (rev text)) in
     bind_result (urlsplit ip_literal url) (\<lambda>parsed.
     case url_port parsed of
       Inl _ \<Rightarrow> Inl (ConfigError ''CTFD_URL contains an invalid port'')
     | Inr port \<Rightarrow>
         if url_scheme parsed \<noteq> ''https'' \<or> url_hostname parsed \<noteq> Some OFFICIAL_HOST
            \<or> url_username parsed \<noteq> [] \<or> url_password parsed \<noteq> []
            \<or> port \<notin> {None, Some 443} \<or> url_path parsed \<notin> {'''', ''/''}
            \<or> url_query parsed \<noteq> [] \<or> url_fragment parsed \<noteq> []
         then Inl (ConfigError ''CTFD_URL must be the credential-free official HTTPS origin'')
         else Inr url))"

section \<open>The configuration\<close>

record runtime_config =
  board_url :: string
  board_token :: string
  team_key :: string
  board_timeout_seconds :: int
  cfg_model :: string
  reasoning_effort :: string
  specialist_model :: string
  specialist_efforts :: "string list"
  lead_lanes :: int
  peer_profile :: string
  concurrency :: int
  active_challenges :: int
  episodes_per_challenge :: int
  dynamic_concurrency :: int
  attempts_per_challenge :: int
  attempt_seconds :: int
  instance_ready_seconds :: int
  instance_cleanup_seconds :: int
  run_seconds :: int
  max_artifact_bytes :: int
  max_challenge_bytes :: int
  max_workspace_bytes :: int
  state_path :: path
  work_root :: path
  codex_home :: path
  codex_binary :: string
  cfg_profile :: string
  memory_arm :: string
  challenge_ids :: "int list"
  focus_challenge_ids :: "int list"
  submit_candidates :: bool
  manage_dynamic_instances :: bool
  watch_board :: bool
  board_watch_seconds :: int
  board_full_refresh_seconds :: int

text \<open>The two properties of the class; Python's \<open>//\<close> is \<open>div\<close>.\<close>

definition max_challenge_workspace_bytes :: "'a runtime_config_scheme \<Rightarrow> int" where
  "max_challenge_workspace_bytes c = max_workspace_bytes c div active_challenges c"

definition max_lane_workspace_bytes :: "'a runtime_config_scheme \<Rightarrow> int" where
  "max_lane_workspace_bytes c =
     (max_challenge_workspace_bytes c - max_challenge_bytes c) div attempts_per_challenge c"

section \<open>Reading the environment\<close>

definition secret_ok :: "string \<Rightarrow> bool" where
  "secret_ok v \<longleftrightarrow> v = [] \<or> length v \<le> 1024 \<and> is_ascii v \<and> \<not> list_ex is_space v"

definition env_secrets :: "environment \<Rightarrow> bool \<Rightarrow> (string \<times> string) result" where
  "env_secrets env require_auth =
     (let token = py_strip (env_get env ''CTFD_API_TOKEN'' []); team = py_strip (env_get env ''TEAM_KEY'' []) in
      if require_auth \<and> token = []
      then Inl (ConfigError ''CTFD_API_TOKEN is required for authenticated Board work'')
      else if \<not> secret_ok token
      then Inl (ConfigError ''CTFD_API_TOKEN must be bounded ASCII without whitespace'')
      else if \<not> secret_ok team
      then Inl (ConfigError ''TEAM_KEY must be bounded ASCII without whitespace'')
      else Inr (token, team))"

definition EFFORTS :: "string list" where
  "EFFORTS = [''low'', ''medium'', ''high'', ''xhigh'', ''max'', ''ultra'']"

definition env_efforts :: "environment \<Rightarrow> (string \<times> string list) result" where
  "env_efforts env =
     bind_result (env_text env ''RAPIDO_REASONING_EFFORT'' ''xhigh'') (\<lambda>effort.
     bind_result (env_text env ''RAPIDO_SPECIALIST_REASONING_EFFORTS'' ''max,xhigh,max'') (\<lambda>text.
     let specialist = map py_strip (split_on (CHR '','') text) in
     if effort \<notin> set EFFORTS \<or> specialist = [] \<or> 8 < length specialist
        \<or> (\<exists>e \<in> set specialist. e \<notin> set EFFORTS)
     then Inl (ConfigError ''reasoning effort must be low, medium, high, xhigh, max, or ultra'')
     else Inr (effort, specialist)))"

definition env_choice :: "environment \<Rightarrow> string \<Rightarrow> string \<Rightarrow> string list \<Rightarrow> string \<Rightarrow> string result" where
  "env_choice env name default_value choices message =
     bind_result (env_text env name default_value) (\<lambda>v.
     if v \<in> set choices then Inr v else Inl (ConfigError message))"

definition env_profiles :: "environment \<Rightarrow> (string \<times> string \<times> string) result" where
  "env_profiles env =
     bind_result (env_choice env ''RAPIDO_PROFILE'' ''practice'' [''economy'', ''practice'', ''competition'']
       ''RAPIDO_PROFILE must be economy, practice, or competition'') (\<lambda>profile.
     bind_result (env_choice env ''RAPIDO_PEER_PROFILE'' ''mixed_v1'' [''mixed_v1'', ''uniform_v1'']
       ''RAPIDO_PEER_PROFILE must be mixed_v1 or uniform_v1'') (\<lambda>peer.
     bind_result (env_choice env ''RAPIDO_MEMORY_ARM'' ''typed_challenge_v1'' [''lane_local_v1'', ''typed_challenge_v1'']
       ''RAPIDO_MEMORY_ARM must be lane_local_v1 or typed_challenge_v1'') (\<lambda>arm.
     Inr (profile, peer, arm))))"

text \<open>The waves and the timing of instances: active challenges, episodes, dynamic concurrency, Board
  timeout, instance ready and cleanup seconds.\<close>

definition env_timing :: "environment \<Rightarrow> (int \<times> int \<times> int \<times> int \<times> int \<times> int) result" where
  "env_timing env =
     bind_result (env_integer env ''RAPIDO_ACTIVE_CHALLENGES'' 5 1 8) (\<lambda>active.
     bind_result (env_integer env ''RAPIDO_EPISODES_PER_CHALLENGE'' 3 1 4) (\<lambda>episodes.
     bind_result (env_integer env ''RAPIDO_DYNAMIC_CONCURRENCY'' 1 1 1) (\<lambda>dynamic.
     bind_result (env_integer env ''RAPIDO_BOARD_TIMEOUT_SECONDS'' 15 1 120) (\<lambda>timeout.
     bind_result (env_integer env ''RAPIDO_INSTANCE_READY_SECONDS'' 120 2 600) (\<lambda>ready.
     bind_result (env_integer env ''RAPIDO_INSTANCE_CLEANUP_SECONDS'' 45 3 600) (\<lambda>cleanup.
     if ready \<le> timeout
     then Inl (ConfigError ''RAPIDO_INSTANCE_READY_SECONDS must exceed the Board timeout'')
     else if cleanup < timeout * 3
     then Inl (ConfigError ''RAPIDO_INSTANCE_CLEANUP_SECONDS must cover three Board requests'')
     else Inr (active, episodes, dynamic, timeout, ready, cleanup)))))))"

text \<open>Sizes and lanes: artifact and challenge bytes, attempts, lead lanes, concurrency, workspace bytes.\<close>

definition env_capacity :: "environment \<Rightarrow> int \<Rightarrow> (int \<times> int \<times> int \<times> int \<times> int \<times> int) result" where
  "env_capacity env active =
     bind_result (env_integer env ''RAPIDO_MAX_ARTIFACT_BYTES'' (64 * 1024 * 1024) 1024 (2 * 1024 * 1024 * 1024)) (\<lambda>artifact.
     bind_result (env_integer env ''RAPIDO_MAX_CHALLENGE_BYTES'' (128 * 1024 * 1024) 1024 (2 * 1024 * 1024 * 1024)) (\<lambda>challenge.
     if challenge < artifact
     then Inl (ConfigError ''RAPIDO_MAX_CHALLENGE_BYTES must cover one maximum artifact'')
     else
     bind_result (env_integer env ''RAPIDO_ATTEMPTS_PER_CHALLENGE'' 4 2 8) (\<lambda>attempts.
     bind_result (env_integer env ''RAPIDO_LEAD_LANES'' 2 1 attempts) (\<lambda>lanes.
     bind_result (env_integer env ''RAPIDO_CONCURRENCY'' 20 2 32) (\<lambda>conc.
     if conc < active * attempts
     then Inl (ConfigError (''RAPIDO_CONCURRENCY must cover every lane in each active challenge wave (''
       @ show_int (active * attempts) @ '' required)''))
     else
     bind_result (env_integer env ''RAPIDO_MAX_WORKSPACE_BYTES'' (500 * 1024 * 1024 * 1024) (3 * 1024) (500 * 1024 * 1024 * 1024)) (\<lambda>workspace.
     if workspace < active * challenge * (attempts + 1)
     then Inl (ConfigError (''RAPIDO_MAX_WORKSPACE_BYTES must cover source plus every lane artifact copy ''
       @ ''for all active challenges''))
     else Inr (artifact, challenge, attempts, lanes, conc, workspace)))))))"

definition env_watch :: "environment \<Rightarrow> (int \<times> int \<times> int list \<times> int list) result" where
  "env_watch env =
     bind_result (env_integer env ''RAPIDO_BOARD_WATCH_SECONDS'' 60 15 900) (\<lambda>watch.
     bind_result (env_integer env ''RAPIDO_BOARD_FULL_REFRESH_SECONDS'' 900 60 3600) (\<lambda>refresh.
     if refresh < watch
     then Inl (ConfigError ''RAPIDO_BOARD_FULL_REFRESH_SECONDS must cover one watch interval'')
     else
     bind_result (env_id_list env ''RAPIDO_CHALLENGE_IDS'') (\<lambda>ids.
     bind_result (env_id_list env ''RAPIDO_FOCUS_CHALLENGE_IDS'') (\<lambda>focus.
     if ids \<noteq> [] \<and> focus \<noteq> []
     then Inl (ConfigError ''RAPIDO_CHALLENGE_IDS and RAPIDO_FOCUS_CHALLENGE_IDS are mutually exclusive'')
     else Inr (watch, refresh, ids, focus)))))"

definition from_env :: "(string \<Rightarrow> bool) \<Rightarrow> environment \<Rightarrow> bool \<Rightarrow> runtime_config result" where
  "from_env ip_literal env require_auth =
     bind_result (env_secrets env require_auth) (\<lambda>(token, team).
     bind_result (env_efforts env) (\<lambda>(effort, specialist).
     bind_result (env_profiles env) (\<lambda>(profile, peer, arm).
     bind_result (env_timing env) (\<lambda>(active, episodes, dynamic, timeout, ready, cleanup).
     bind_result (env_capacity env active) (\<lambda>(artifact, challenge, attempts, lanes, conc, workspace).
     bind_result (env_watch env) (\<lambda>(watch, refresh, ids, focus).
     bind_result (env_origin ip_literal env) (\<lambda>url.
     bind_result (env_text env ''RAPIDO_MODEL'' ''gpt-daybreak-blue-latest'') (\<lambda>lead.
     bind_result (env_text env ''RAPIDO_SPECIALIST_MODEL'' ''gpt-5.6-luna'') (\<lambda>spec.
     bind_result (env_integer env ''RAPIDO_ATTEMPT_SECONDS'' 800 600 7200) (\<lambda>seconds.
     bind_result (env_integer env ''RAPIDO_RUN_SECONDS'' 19800 60 172800) (\<lambda>running.
     bind_result (env_path env ''RAPIDO_STATE_PATH'' ''/state/rapido.sqlite3'') (\<lambda>state.
     bind_result (env_path env ''RAPIDO_WORK_ROOT'' ''/state/work'') (\<lambda>work.
     bind_result (env_path env ''RAPIDO_CODEX_HOME'' ''/auth/codex'') (\<lambda>codex.
     bind_result (env_text env ''RAPIDO_CODEX_BINARY'' ''codex'') (\<lambda>binary.
     bind_result (env_boolean env ''RAPIDO_SUBMIT_CANDIDATES'' True) (\<lambda>submit.
     bind_result (env_boolean env ''RAPIDO_MANAGE_DYNAMIC_INSTANCES'' True) (\<lambda>manage.
     bind_result (env_boolean env ''RAPIDO_WATCH_BOARD'' True) (\<lambda>watching.
     Inr \<lparr>board_url = url, board_token = token, team_key = team, board_timeout_seconds = timeout,
       cfg_model = lead, reasoning_effort = effort, specialist_model = spec, specialist_efforts = specialist,
       lead_lanes = lanes, peer_profile = peer, concurrency = conc, active_challenges = active,
       episodes_per_challenge = episodes, dynamic_concurrency = dynamic, attempts_per_challenge = attempts,
       attempt_seconds = seconds, instance_ready_seconds = ready, instance_cleanup_seconds = cleanup,
       run_seconds = running, max_artifact_bytes = artifact, max_challenge_bytes = challenge,
       max_workspace_bytes = workspace, state_path = state, work_root = work, codex_home = codex,
       codex_binary = binary, cfg_profile = profile, memory_arm = arm, challenge_ids = ids,
       focus_challenge_ids = focus, submit_candidates = submit, manage_dynamic_instances = manage,
       watch_board = watching, board_watch_seconds = watch, board_full_refresh_seconds = refresh\<rparr>))))))))))))))))))"

definition public_record :: "runtime_config \<Rightarrow> pyval" where
  "public_record c = PDict
     [(''board_url'', PStr (board_url c)), (''board_timeout_seconds'', PInt (board_timeout_seconds c)),
      (''model'', PStr (cfg_model c)), (''reasoning_effort'', PStr (reasoning_effort c)),
      (''specialist_model'', PStr (specialist_model c)),
      (''specialist_reasoning_efforts'', PList (map PStr (specialist_efforts c))),
      (''lead_lanes'', PInt (lead_lanes c)), (''peer_profile'', PStr (peer_profile c)),
      (''concurrency'', PInt (concurrency c)), (''active_challenges'', PInt (active_challenges c)),
      (''episodes_per_challenge'', PInt (episodes_per_challenge c)),
      (''dynamic_concurrency'', PInt (dynamic_concurrency c)),
      (''attempts_per_challenge'', PInt (attempts_per_challenge c)),
      (''attempt_seconds'', PInt (attempt_seconds c)),
      (''instance_ready_seconds'', PInt (instance_ready_seconds c)),
      (''instance_cleanup_seconds'', PInt (instance_cleanup_seconds c)),
      (''run_seconds'', PInt (run_seconds c)), (''max_artifact_bytes'', PInt (max_artifact_bytes c)),
      (''max_challenge_bytes'', PInt (max_challenge_bytes c)),
      (''max_workspace_bytes'', PInt (max_workspace_bytes c)),
      (''max_challenge_workspace_bytes'', PInt (max_challenge_workspace_bytes c)),
      (''max_lane_workspace_bytes'', PInt (max_lane_workspace_bytes c)),
      (''state_path'', PStr (path_str (state_path c))), (''work_root'', PStr (path_str (work_root c))),
      (''codex_home'', PStr (path_str (codex_home c))), (''codex_binary'', PStr (codex_binary c)),
      (''profile'', PStr (cfg_profile c)), (''memory_arm'', PStr (memory_arm c)),
      (''challenge_ids'', PList (map PInt (challenge_ids c))),
      (''focus_challenge_ids'', PList (map PInt (focus_challenge_ids c))),
      (''submit_candidates'', PBool (submit_candidates c)),
      (''manage_dynamic_instances'', PBool (manage_dynamic_instances c)),
      (''watch_board'', PBool (watch_board c)), (''board_watch_seconds'', PInt (board_watch_seconds c)),
      (''board_full_refresh_seconds'', PInt (board_full_refresh_seconds c)),
      (''board_token_present'', PBool (board_token c \<noteq> [])), (''team_key_present'', PBool (team_key c \<noteq> []))]"

section \<open>The native client's home\<close>

record file_meta =
  st_mode :: nat
  st_uid :: nat

record file_system =
  fs_lstat :: "path \<Rightarrow> file_meta option"
  fs_access :: "path \<Rightarrow> nat \<Rightarrow> bool"
  fs_exists :: "path \<Rightarrow> bool"
  fs_symlink :: "path \<Rightarrow> bool"
  fs_euid :: nat

definition path_join :: "path \<Rightarrow> string \<Rightarrow> path" where
  "path_join p name = Path (path_root p) (path_parts p @ [name])"

definition S_IFMT :: "nat \<Rightarrow> nat" where
  "S_IFMT mode = mode AND 0xF000"

definition S_ISLNK :: "nat \<Rightarrow> bool" where
  "S_ISLNK mode \<longleftrightarrow> S_IFMT mode = 0xA000"

definition S_ISDIR :: "nat \<Rightarrow> bool" where
  "S_ISDIR mode \<longleftrightarrow> S_IFMT mode = 0x4000"

definition S_ISREG :: "nat \<Rightarrow> bool" where
  "S_ISREG mode \<longleftrightarrow> S_IFMT mode = 0x8000"

definition S_IMODE :: "nat \<Rightarrow> nat" where
  "S_IMODE mode = mode AND 0xFFF"

text \<open>The octal masks of the source are \<open>0o077 = 0x3F\<close> and \<open>0o600 = 0x180\<close>; the access masks are
  \<open>R_OK = 4\<close>, \<open>W_OK = 2\<close>, \<open>X_OK = 1\<close>.\<close>

definition validate_codex_home :: "file_system \<Rightarrow> path \<Rightarrow> path result" where
  "validate_codex_home fs home =
     (let auth_file = path_join home ''auth.json'' in
      case fs_lstat fs home of
        None \<Rightarrow> Inl (ConfigError ''RAPIDO_CODEX_HOME is not accessible'')
      | Some directory \<Rightarrow>
      if S_ISLNK (st_mode directory) \<or> \<not> S_ISDIR (st_mode directory) \<or> st_uid directory \<notin> {0, fs_euid fs}
      then Inl (ConfigError ''RAPIDO_CODEX_HOME must be a real directory'')
      else if st_mode directory AND 0x3F \<noteq> 0
      then Inl (ConfigError ''RAPIDO_CODEX_HOME must not grant group or other access'')
      else if \<not> fs_access fs home 7
      then Inl (ConfigError ''RAPIDO_CODEX_HOME must be readable and writable'')
      else case fs_lstat fs auth_file of
        None \<Rightarrow> Inl (ConfigError ''native Codex auth.json is missing'')
      | Some auth \<Rightarrow>
      if S_ISLNK (st_mode auth) \<or> \<not> S_ISREG (st_mode auth) \<or> st_uid auth \<notin> {0, fs_euid fs}
      then Inl (ConfigError ''native Codex auth.json must be a regular file'')
      else if st_mode auth AND 0x3F \<noteq> 0
      then Inl (ConfigError ''native Codex auth.json must have mode 0600 or stricter'')
      else if S_IMODE (st_mode auth) AND 0x180 \<noteq> 0x180 \<or> \<not> fs_access fs auth_file 6
      then Inl (ConfigError ''native Codex auth.json must be owner-readable and writable'')
      else if \<exists>name \<in> {''config.toml'', ''config.json'', ''mcp.json''}.
                fs_exists fs (path_join home name) \<or> fs_symlink fs (path_join home name)
      then Inl (ConfigError ''dedicated native Codex home must not contain capability config'')
      else Inr auth_file)"

lemma mode_masks:
  "mode AND 0x3F = mode mod 64" "S_IMODE mode = mode mod 4096" "S_IFMT mode = (mode div 4096 mod 16) * 4096"
proof -
  show "mode AND 0x3F = mode mod 64" using take_bit_eq_mask [of 6 mode] by (simp add: take_bit_eq_mod mask_eq_exp_minus_1)
  show "S_IMODE mode = mode mod 4096"
    using take_bit_eq_mask [of 12 mode] by (simp add: S_IMODE_def take_bit_eq_mod mask_eq_exp_minus_1)
  have "(0xF000::nat) = push_bit 12 (mask 4)" by (simp add: mask_eq_exp_minus_1 push_bit_eq_mult)
  then have "S_IFMT mode = push_bit 12 (take_bit 4 (drop_bit 12 mode))"
    by (auto simp: S_IFMT_def bit_eq_iff bit_simps)
  then show "S_IFMT mode = (mode div 4096 mod 16) * 4096"
    by (simp add: push_bit_eq_mult take_bit_eq_mod drop_bit_eq_div)
qed

lemma owner_bits:
  assumes "mode mod 64 = (0::nat)" "S_IMODE mode AND 0x180 = 0x180"
  shows "mode mod 512 \<in> {0x180, 0x1C0}"
proof -
  have bits: "bit mode 7" "bit mode 8"
    using arg_cong [OF assms(2), of "\<lambda>n. bit n 7"] arg_cong [OF assms(2), of "\<lambda>n. bit n 8"]
    by (auto simp: S_IMODE_def bit_simps)
  define q where "q = mode div 64"
  have "mode div 128 = q div 2" "mode div 256 = q div 4"
    by (simp_all add: q_def div_mult2_eq [symmetric])
  then have "odd (q div 2)" "odd (q div 4)" using bits by (simp_all add: bit_iff_odd)
  then have "q mod 8 = 6 \<or> q mod 8 = 7" by presburger
  moreover have "mode mod 512 = 64 * (q mod 8) + mode mod 64"
    using mod_mult2_eq [of mode 64 8] by (simp add: q_def)
  ultimately show ?thesis using assms(1) by auto
qed

text \<open>The native home is accepted only as a private real directory with a private regular
  credential file: both carry no group or other permission bit, the permission bits of the file are
  exactly 0600 or 0700, both belong to root or the effective user, and no capability configuration
  sits beside them.\<close>

theorem codex_home_private:
  assumes "validate_codex_home fs home = Inr auth_file"
  shows "\<exists>d a. fs_lstat fs home = Some d \<and> fs_lstat fs auth_file = Some a
    \<and> st_mode d div 4096 mod 16 = 4 \<and> st_mode d mod 64 = 0 \<and> st_uid d \<in> {0, fs_euid fs}
    \<and> st_mode a div 4096 mod 16 = 8 \<and> st_mode a mod 512 \<in> {0x180, 0x1C0} \<and> st_uid a \<in> {0, fs_euid fs}
    \<and> (\<forall>name \<in> {''config.toml'', ''config.json'', ''mcp.json''}. \<not> fs_exists fs (path_join home name))"
proof -
  from assms obtain d a where *: "fs_lstat fs home = Some d" "S_ISDIR (st_mode d)" "st_uid d \<in> {0, fs_euid fs}"
    "st_mode d mod 64 = 0" "fs_lstat fs auth_file = Some a" "S_ISREG (st_mode a)" "st_uid a \<in> {0, fs_euid fs}"
    "st_mode a mod 64 = 0" "S_IMODE (st_mode a) AND 0x180 = 0x180"
    "\<forall>name \<in> {''config.toml'', ''config.json'', ''mcp.json''}. \<not> fs_exists fs (path_join home name)"
    by (auto simp: validate_codex_home_def Let_def mode_masks(1) split: option.split_asm if_split_asm)
  have "st_mode a mod 512 \<in> {0x180, 0x1C0}" by (rule owner_bits) (use * in auto)
  moreover have "st_mode d div 4096 mod 16 = 4" "st_mode a div 4096 mod 16 = 8"
    using *(2,6) by (simp_all add: S_ISDIR_def S_ISREG_def mode_masks)
  ultimately show ?thesis using * by (intro exI [of _ d] exI [of _ a]) simp
qed

definition sample_file_system :: file_system where
  "sample_file_system = \<lparr>fs_lstat = (\<lambda>p. if p = path_of ''/auth/codex'' then Some \<lparr>st_mode = 0x41C0, st_uid = 0\<rparr>
       else if p = path_of ''/auth/codex/auth.json'' then Some \<lparr>st_mode = 0x8180, st_uid = 7\<rparr> else None),
     fs_access = (\<lambda>_ _. True), fs_exists = (\<lambda>_. False), fs_symlink = (\<lambda>_. False), fs_euid = 7\<rparr>"

lemma sample_home:
  "validate_codex_home sample_file_system (path_of ''/auth/codex'') = Inr (path_of ''/auth/codex/auth.json'')"
  by (simp add: validate_codex_home_def sample_file_system_def path_of_def path_join_def S_ISLNK_def S_ISDIR_def
      S_ISREG_def mode_masks Let_def) 

theorem codex_home_private_witness:
  "\<exists>a. fs_lstat sample_file_system (path_of ''/auth/codex/auth.json'') = Some a \<and> st_mode a mod 512 = 0x180"
  using codex_home_private [OF sample_home] by (auto simp: sample_file_system_def path_of_def)

section \<open>What an accepted configuration promises\<close>

lemma env_integer_bounds: "env_integer env name d lo hi = Inr v \<Longrightarrow> lo \<le> v \<and> v \<le> hi"
  by (auto simp: env_integer_def split: option.split_asm if_split_asm)

lemma env_text_printable: "env_text env name d = Inr v \<Longrightarrow> v \<noteq> [] \<and> printable v"
  by (auto simp: env_text_def Let_def split: if_split_asm)

lemma env_choice_member: "env_choice env name d choices m = Inr v \<Longrightarrow> v \<in> set choices"
  by (auto simp: env_choice_def elim!: bind_result_InrE split: if_split_asm)

lemma env_id_list_positive:
  "env_id_list env name = Inr ids \<Longrightarrow> distinct ids \<and> (\<forall>i \<in> set ids. 0 < i) \<and> length ids \<le> 1000"
proof -
  have "length vs = length xs" if "those xs = Some vs" for xs :: "int option list" and vs
    using that by (induction xs arbitrary: vs) (auto split: option.split_asm)
  then show "env_id_list env name = Inr ids \<Longrightarrow> ?thesis"
    by (fastforce simp: env_id_list_def Let_def not_le split: if_split_asm option.split_asm)
qed

lemma env_secrets_ok: "env_secrets env req = Inr (t, k) \<Longrightarrow> secret_ok t \<and> secret_ok k \<and> (req \<longrightarrow> t \<noteq> [])"
  by (auto simp: env_secrets_def Let_def split: if_split_asm)

lemma env_efforts_ok:
  "env_efforts env = Inr (e, es) \<Longrightarrow> e \<in> set EFFORTS \<and> set es \<subseteq> set EFFORTS \<and> es \<noteq> [] \<and> length es \<le> 8"
  by (auto simp: env_efforts_def Let_def elim!: bind_result_InrE split: if_split_asm)

lemma env_profiles_ok:
  "env_profiles env = Inr (profile, peer, arm) \<Longrightarrow> profile \<in> {''economy'', ''practice'', ''competition''}
     \<and> peer \<in> {''mixed_v1'', ''uniform_v1''} \<and> arm \<in> {''lane_local_v1'', ''typed_challenge_v1''}"
  by (auto simp: env_profiles_def elim!: bind_result_InrE dest!: env_choice_member)

lemma env_timing_ok:
  "env_timing env = Inr (active, episodes, dynamic, timeout, ready, cleanup) \<Longrightarrow>
     1 \<le> active \<and> active \<le> 8 \<and> 1 \<le> episodes \<and> episodes \<le> 4 \<and> dynamic = 1 \<and> 1 \<le> timeout \<and> timeout \<le> 120
     \<and> timeout < ready \<and> 2 \<le> ready \<and> ready \<le> 600 \<and> 3 * timeout \<le> cleanup \<and> 3 \<le> cleanup \<and> cleanup \<le> 600"
  by (auto simp: env_timing_def elim!: bind_result_InrE split: if_split_asm dest!: env_integer_bounds)

lemma env_capacity_ok:
  "env_capacity env active = Inr (artifact, challenge, attempts, lanes, conc, workspace) \<Longrightarrow>
     1024 \<le> artifact \<and> artifact \<le> challenge \<and> challenge \<le> 2 * 1024 * 1024 * 1024
     \<and> 2 \<le> attempts \<and> attempts \<le> 8 \<and> 1 \<le> lanes \<and> lanes \<le> attempts
     \<and> active * attempts \<le> conc \<and> 2 \<le> conc \<and> conc \<le> 32 \<and> active * challenge * (attempts + 1) \<le> workspace
     \<and> 3 * 1024 \<le> workspace \<and> workspace \<le> 500 * 1024 * 1024 * 1024"
  by (auto simp: env_capacity_def not_less elim!: bind_result_InrE split: if_split_asm dest!: env_integer_bounds)

lemma env_watch_ok:
  "env_watch env = Inr (watch, refresh, ids, focus) \<Longrightarrow>
     15 \<le> watch \<and> watch \<le> 900 \<and> watch \<le> refresh \<and> 60 \<le> refresh \<and> refresh \<le> 3600 \<and> (ids = [] \<or> focus = [])
     \<and> distinct ids \<and> (\<forall>i \<in> set ids. 0 < i) \<and> length ids \<le> 1000
     \<and> distinct focus \<and> (\<forall>i \<in> set focus. 0 < i) \<and> length focus \<le> 1000"
  by (auto simp: env_watch_def not_less elim!: bind_result_InrE split: if_split_asm
      dest!: env_integer_bounds env_id_list_positive)

lemma times_div_le: "b * (a div b) \<le> a" if "0 < b" for a b :: int
  using pos_mod_sign [OF that, of a] mult_div_mod_eq [of b a] by linarith

locale admitted_configuration =
  fixes accept :: "'r \<Rightarrow> 'a runtime_config_scheme result"
  assumes lanes: "accept r = Inr c \<Longrightarrow>
      1 \<le> active_challenges c \<and> 2 \<le> attempts_per_challenge c \<and> 1 \<le> lead_lanes c
      \<and> lead_lanes c \<le> attempts_per_challenge c
      \<and> active_challenges c * attempts_per_challenge c \<le> concurrency c"
    and sizes: "accept r = Inr c \<Longrightarrow>
      1024 \<le> max_artifact_bytes c \<and> max_artifact_bytes c \<le> max_challenge_bytes c
      \<and> active_challenges c * max_challenge_bytes c * (attempts_per_challenge c + 1) \<le> max_workspace_bytes c"
begin

lemma challenge_workspace:
  assumes "accept r = Inr c"
  shows "max_challenge_bytes c * (attempts_per_challenge c + 1) \<le> max_challenge_workspace_bytes c"
proof -
  have "0 < active_challenges c" using lanes [OF assms] by simp
  moreover have "max_challenge_bytes c * (attempts_per_challenge c + 1) * active_challenges c \<le> max_workspace_bytes c"
    using sizes [OF assms] by (simp add: mult.commute mult.left_commute)
  ultimately show ?thesis
    unfolding max_challenge_workspace_bytes_def
    using zdiv_mono1 [of "max_challenge_bytes c * (attempts_per_challenge c + 1) * active_challenges c"
        "max_workspace_bytes c" "active_challenges c"] by simp
qed

lemma lane_workspace:
  assumes "accept r = Inr c"
  shows "max_artifact_bytes c \<le> max_challenge_bytes c \<and> max_challenge_bytes c \<le> max_lane_workspace_bytes c"
proof -
  have pos: "0 < attempts_per_challenge c" using lanes [OF assms] by simp
  have "max_challenge_bytes c * attempts_per_challenge c \<le> max_challenge_workspace_bytes c - max_challenge_bytes c"
    using challenge_workspace [OF assms] by (simp add: distrib_left)
  then have "max_challenge_bytes c \<le> max_lane_workspace_bytes c"
    unfolding max_lane_workspace_bytes_def
    using zdiv_mono1 [of "max_challenge_bytes c * attempts_per_challenge c"
        "max_challenge_workspace_bytes c - max_challenge_bytes c" "attempts_per_challenge c"] pos by simp
  with sizes [OF assms] show ?thesis by simp
qed

lemma run_fits:
  assumes "accept r = Inr c"
  shows "active_challenges c * (max_challenge_bytes c + attempts_per_challenge c * max_lane_workspace_bytes c)
    \<le> max_workspace_bytes c"
proof -
  have pos: "0 < active_challenges c" "0 < attempts_per_challenge c" using lanes [OF assms] by simp_all
  have "attempts_per_challenge c * max_lane_workspace_bytes c
      \<le> max_challenge_workspace_bytes c - max_challenge_bytes c"
    unfolding max_lane_workspace_bytes_def by (rule times_div_le [OF pos(2)])
  then have "active_challenges c * (max_challenge_bytes c + attempts_per_challenge c * max_lane_workspace_bytes c)
      \<le> active_challenges c * max_challenge_workspace_bytes c"
    using pos(1) by (intro mult_left_mono) simp_all
  also have "\<dots> \<le> max_workspace_bytes c"
    unfolding max_challenge_workspace_bytes_def by (rule times_div_le [OF pos(1)])
  finally show ?thesis .
qed

end

definition production_config :: "(string \<Rightarrow> bool) \<Rightarrow> environment \<times> bool \<Rightarrow> runtime_config result" where
  "production_config ip r = from_env ip (fst r) (snd r)"

lemma from_env_parts:
  assumes "from_env ip env req = Inr c"
  shows "env_secrets env req = Inr (board_token c, team_key c)"
    and "env_efforts env = Inr (reasoning_effort c, specialist_efforts c)"
    and "env_profiles env = Inr (cfg_profile c, peer_profile c, memory_arm c)"
    and "env_timing env = Inr (active_challenges c, episodes_per_challenge c, dynamic_concurrency c,
          board_timeout_seconds c, instance_ready_seconds c, instance_cleanup_seconds c)"
    and "env_capacity env (active_challenges c) = Inr (max_artifact_bytes c, max_challenge_bytes c,
          attempts_per_challenge c, lead_lanes c, concurrency c, max_workspace_bytes c)"
    and "env_watch env = Inr (board_watch_seconds c, board_full_refresh_seconds c, challenge_ids c,
          focus_challenge_ids c)"
    and "env_origin ip env = Inr (board_url c)"
    and "env_integer env ''RAPIDO_ATTEMPT_SECONDS'' 800 600 7200 = Inr (attempt_seconds c)"
    and "env_integer env ''RAPIDO_RUN_SECONDS'' 19800 60 172800 = Inr (run_seconds c)"
    and "is_absolute (state_path c) \<and> is_absolute (work_root c) \<and> is_absolute (codex_home c)"
    and "env_text env ''RAPIDO_MODEL'' ''gpt-daybreak-blue-latest'' = Inr (cfg_model c)"
    and "env_text env ''RAPIDO_SPECIALIST_MODEL'' ''gpt-5.6-luna'' = Inr (specialist_model c)"
    and "env_text env ''RAPIDO_CODEX_BINARY'' ''codex'' = Inr (codex_binary c)"
  using assms unfolding from_env_def
  by (auto elim!: bind_result_InrE simp: env_path_def split: if_split_asm)

lemma production_admitted: "admitted_configuration (production_config ip)"
proof
  fix r and c :: runtime_config
  assume "production_config ip r = Inr c"
  then have "from_env ip (fst r) (snd r) = Inr c" by (simp add: production_config_def)
  note parts = from_env_parts [OF this]
  show "1 \<le> active_challenges c \<and> 2 \<le> attempts_per_challenge c \<and> 1 \<le> lead_lanes c
      \<and> lead_lanes c \<le> attempts_per_challenge c
      \<and> active_challenges c * attempts_per_challenge c \<le> concurrency c"
    using env_timing_ok [OF parts(4)] env_capacity_ok [OF parts(5)] by simp
  show "1024 \<le> max_artifact_bytes c \<and> max_artifact_bytes c \<le> max_challenge_bytes c
      \<and> active_challenges c * max_challenge_bytes c * (attempts_per_challenge c + 1) \<le> max_workspace_bytes c"
    using env_capacity_ok [OF parts(5)] by simp
qed

interpretation production: admitted_configuration "production_config ip" for ip
  by (rule production_admitted)

text \<open>C38. Every configuration read from the environment respects the workspace budget: a lane may
  hold at least one full copy of a challenge's artifacts, and the sources together with every lane
  of every active challenge fit in the run-wide workspace.\<close>

theorem env_workspace_budget:
  assumes "from_env ip env req = Inr c"
  shows "max_artifact_bytes c \<le> max_lane_workspace_bytes c \<and> max_challenge_bytes c \<le> max_lane_workspace_bytes c
    \<and> active_challenges c * (max_challenge_bytes c + attempts_per_challenge c * max_lane_workspace_bytes c)
      \<le> max_workspace_bytes c"
  using production.lane_workspace [of ip "(env, req)" c] production.run_fits [of ip "(env, req)" c] assms
  by (simp add: production_config_def)

section \<open>The default configuration\<close>

definition default_config :: runtime_config where
  "default_config = \<lparr>board_url = ''https://hackathon.in-cypher.com'', board_token = [], team_key = [],
     board_timeout_seconds = 15, cfg_model = ''gpt-daybreak-blue-latest'', reasoning_effort = ''xhigh'',
     specialist_model = ''gpt-5.6-luna'', specialist_efforts = [''max'', ''xhigh'', ''max''], lead_lanes = 2,
     peer_profile = ''mixed_v1'', concurrency = 20, active_challenges = 5, episodes_per_challenge = 3,
     dynamic_concurrency = 1, attempts_per_challenge = 4, attempt_seconds = 800, instance_ready_seconds = 120,
     instance_cleanup_seconds = 45, run_seconds = 19800, max_artifact_bytes = 67108864,
     max_challenge_bytes = 134217728, max_workspace_bytes = 536870912000,
     state_path = Path ''/'' [''state'', ''rapido.sqlite3''], work_root = Path ''/'' [''state'', ''work''],
     codex_home = Path ''/'' [''auth'', ''codex''], codex_binary = ''codex'', cfg_profile = ''practice'',
     memory_arm = ''typed_challenge_v1'', challenge_ids = [], focus_challenge_ids = [],
     submit_candidates = True, manage_dynamic_instances = True, watch_board = True,
     board_watch_seconds = 60, board_full_refresh_seconds = 900\<rparr>"

lemma env_integer_default:
  assumes "env name = None" "lo \<le> d" "d \<le> hi" "nat \<bar>d\<bar> < 10 ^ 18"
  shows "env_integer env name d lo hi = Inr d"
  using int_of_text_show_int [OF assms(4)] assms(1-3) by (simp add: env_integer_def env_get_def)

lemma env_text_default:
  "env name = None \<Longrightarrow> py_strip d = d \<Longrightarrow> d \<noteq> [] \<Longrightarrow> printable d \<Longrightarrow> env_text env name d = Inr d"
  by (simp add: env_text_def env_get_def)

lemma default_stages:
  assumes "env = (\<lambda>_. None)"
  shows "env_secrets env False = Inr ([], [])"
    "env_efforts env = Inr (''xhigh'', [''max'', ''xhigh'', ''max''])"
    "env_profiles env = Inr (''practice'', ''mixed_v1'', ''typed_challenge_v1'')"
    "env_timing env = Inr (5, 3, 1, 15, 120, 45)"
    "env_capacity env 5 = Inr (67108864, 134217728, 4, 2, 20, 536870912000)"
    "env_watch env = Inr (60, 900, [], [])"
    "env_origin ip env = Inr ''https://hackathon.in-cypher.com''"
    "env_path env ''RAPIDO_STATE_PATH'' ''/state/rapido.sqlite3'' = Inr (Path ''/'' [''state'', ''rapido.sqlite3''])"
    "env_path env ''RAPIDO_WORK_ROOT'' ''/state/work'' = Inr (Path ''/'' [''state'', ''work''])"
    "env_path env ''RAPIDO_CODEX_HOME'' ''/auth/codex'' = Inr (Path ''/'' [''auth'', ''codex''])"
    "env_boolean env n True = Inr True"
proof -
  show "env_secrets env False = Inr ([], [])"
    by (simp add: assms env_secrets_def env_get_def py_strip_def secret_ok_def)
  show "env_efforts env = Inr (''xhigh'', [''max'', ''xhigh'', ''max''])"
    by (simp add: assms env_efforts_def env_text_default py_strip_def is_space_def printable_def EFFORTS_def)
  show "env_profiles env = Inr (''practice'', ''mixed_v1'', ''typed_challenge_v1'')"
    by (simp add: assms env_profiles_def env_choice_def env_text_default py_strip_def is_space_def printable_def)
  show "env_timing env = Inr (5, 3, 1, 15, 120, 45)"
    by (simp add: assms env_timing_def env_integer_default)
  show "env_capacity env 5 = Inr (67108864, 134217728, 4, 2, 20, 536870912000)"
    by (simp add: assms env_capacity_def env_integer_default)
  show "env_watch env = Inr (60, 900, [], [])"
    by (simp add: assms env_watch_def env_integer_default env_id_list_def env_get_def py_strip_def)
  show "env_origin ip env = Inr ''https://hackathon.in-cypher.com''"
    by (simp add: assms env_origin_def env_text_default py_strip_def is_space_def printable_def urlsplit_def
        take_scheme_def before_def after_def is_letter_def scheme_char_def py_lower_def lower_char_def
        url_port_def host_info_def url_hostname_def OFFICIAL_HOST_def url_username_def url_password_def
        user_info_def join_def is_digit_def)
  show "env_path env ''RAPIDO_STATE_PATH'' ''/state/rapido.sqlite3'' = Inr (Path ''/'' [''state'', ''rapido.sqlite3''])"
    "env_path env ''RAPIDO_WORK_ROOT'' ''/state/work'' = Inr (Path ''/'' [''state'', ''work''])"
    "env_path env ''RAPIDO_CODEX_HOME'' ''/auth/codex'' = Inr (Path ''/'' [''auth'', ''codex''])"
    by (simp_all add: assms env_path_def env_text_default py_strip_def is_space_def printable_def path_of_def
        is_absolute_def)
  show "env_boolean env n True = Inr True"
    by (simp add: assms env_boolean_def env_get_def py_strip_def is_space_def py_lower_def lower_char_def)
qed

lemma default_read: "from_env ip (\<lambda>_. None) False = Inr default_config"
  unfolding from_env_def
  by (simp add: default_stages [OF refl] env_text_default env_integer_default py_strip_def is_space_def
      printable_def default_config_def)

text \<open>With nothing set in the environment the program runs with its documented defaults: every
  default passes the checks of its own reader and the checks across fields, and authenticated work
  is refused for the missing token.\<close>

theorem defaults_accepted:
  "from_env ip (\<lambda>_. None) False = Inr default_config
   \<and> from_env ip (\<lambda>_. None) True = Inl (ConfigError ''CTFD_API_TOKEN is required for authenticated Board work'')"
  by (simp add: default_read) (simp add: from_env_def env_secrets_def env_get_def py_strip_def)

theorem env_workspace_budget_witness:
  "max_lane_workspace_bytes default_config \<ge> 134217728"
  using env_workspace_budget [OF default_read] by (simp add: default_config_def)

definition origin_env :: "string \<Rightarrow> environment" where
  "origin_env url = (\<lambda>n. if n = ''CTFD_URL'' then Some url else None)"

lemma official_text:
  "env_text (origin_env ''https://hackathon.in-cypher.com?'') ''CTFD_URL'' d = Inr ''https://hackathon.in-cypher.com?''"
  "env_text (origin_env ''https://[hackathon.in-cypher.com'') ''CTFD_URL'' d = Inr ''https://[hackathon.in-cypher.com''"
  by (simp_all add: env_text_def env_get_def origin_env_def py_strip_def is_space_def printable_def)

text \<open>Two boundaries of the origin check: an empty query delimiter after the official host passes
  it, although every request path is then appended behind the question mark; and a URL with an
  unbalanced bracket escapes as a plain value error of the standard library, not as the configuration
  error that every other rejected setting raises.\<close>

theorem origin_boundaries:
  "env_origin ip (origin_env ''https://hackathon.in-cypher.com?'') = Inr ''https://hackathon.in-cypher.com?''
   \<and> env_origin ip (origin_env ''https://[hackathon.in-cypher.com'') = Inl (ValueError ''Invalid IPv6 URL'')"
  unfolding env_origin_def official_text
  by (simp add: urlsplit_def take_scheme_def before_def after_def is_letter_def scheme_char_def py_lower_def
      lower_char_def url_port_def host_info_def url_hostname_def OFFICIAL_HOST_def url_username_def
      url_password_def user_info_def join_def is_digit_def)

text \<open>C39. Every setting but the Board URL that the environment can make the program accept lies within its declared
  range (the switches are booleans), the cross-field constraints included: the instance deadlines cover the Board requests, an
  artifact fits a challenge and every copy of the challenges fits the workspace, the lanes of a wave fit
  the concurrency, a full refresh covers a watch interval, the two challenge lists hold at most a thousand
  distinct positive ids and exclude each other, the profiles, memory arm and efforts are among the declared
  ones, models and binary are printable and not empty, the secrets are bounded ASCII with a token when one
  is required, and the three paths are absolute.\<close>

theorem env_config_ranges:
  assumes "from_env ip env req = Inr c"
  shows "active_challenges c \<in> {1..8} \<and> episodes_per_challenge c \<in> {1..4} \<and> dynamic_concurrency c = 1
    \<and> attempts_per_challenge c \<in> {2..8} \<and> lead_lanes c \<in> {1..attempts_per_challenge c}
    \<and> concurrency c \<in> {max 2 (active_challenges c * attempts_per_challenge c)..32}
    \<and> board_timeout_seconds c \<in> {1..120} \<and> instance_ready_seconds c \<in> {2..600} \<and> instance_cleanup_seconds c \<in> {3..600}
    \<and> board_timeout_seconds c < instance_ready_seconds c \<and> 3 * board_timeout_seconds c \<le> instance_cleanup_seconds c
    \<and> attempt_seconds c \<in> {600..7200} \<and> run_seconds c \<in> {60..172800}
    \<and> max_artifact_bytes c \<in> {1024..max_challenge_bytes c} \<and> max_challenge_bytes c \<le> 2 * 1024 * 1024 * 1024
    \<and> max_workspace_bytes c \<in> {max (3 * 1024) (active_challenges c * max_challenge_bytes c * (attempts_per_challenge c + 1))
         ..500 * 1024 * 1024 * 1024}
    \<and> board_watch_seconds c \<in> {15..min 900 (board_full_refresh_seconds c)} \<and> board_full_refresh_seconds c \<in> {60..3600}
    \<and> (challenge_ids c = [] \<or> focus_challenge_ids c = [])
    \<and> distinct (challenge_ids c) \<and> (\<forall>i \<in> set (challenge_ids c). 0 < i) \<and> length (challenge_ids c) \<le> 1000
    \<and> distinct (focus_challenge_ids c) \<and> (\<forall>i \<in> set (focus_challenge_ids c). 0 < i) \<and> length (focus_challenge_ids c) \<le> 1000
    \<and> secret_ok (board_token c) \<and> secret_ok (team_key c) \<and> (req \<longrightarrow> board_token c \<noteq> [])
    \<and> reasoning_effort c \<in> set EFFORTS \<and> set (specialist_efforts c) \<subseteq> set EFFORTS \<and> length (specialist_efforts c) \<in> {1..8}
    \<and> cfg_profile c \<in> {''economy'', ''practice'', ''competition''} \<and> peer_profile c \<in> {''mixed_v1'', ''uniform_v1''}
    \<and> memory_arm c \<in> {''lane_local_v1'', ''typed_challenge_v1''}
    \<and> (\<forall>v \<in> {cfg_model c, specialist_model c, codex_binary c}. v \<noteq> [] \<and> printable v)
    \<and> is_absolute (state_path c) \<and> is_absolute (work_root c) \<and> is_absolute (codex_home c)"
proof -
  note parts = from_env_parts [OF assms]
  have "0 < length (specialist_efforts c)" using env_efforts_ok [OF parts(2)] by simp
  then have efforts: "reasoning_effort c \<in> set EFFORTS \<and> set (specialist_efforts c) \<subseteq> set EFFORTS
      \<and> length (specialist_efforts c) \<in> {1..8}"
    using env_efforts_ok [OF parts(2)] by (simp add: Suc_le_eq)
  note watch = env_watch_ok [OF parts(6)] and timing = env_timing_ok [OF parts(4)] and sizes = env_capacity_ok [OF parts(5)]
  have texts: "\<forall>v \<in> {cfg_model c, specialist_model c, codex_binary c}. v \<noteq> [] \<and> printable v"
    using env_text_printable [OF parts(11)] env_text_printable [OF parts(12)] env_text_printable [OF parts(13)] by simp
  show ?thesis
    using efforts texts watch timing sizes env_profiles_ok [OF parts(3)] env_secrets_ok [OF parts(1)] parts(10)
      env_integer_bounds [OF parts(8)] env_integer_bounds [OF parts(9)] by simp
qed

theorem env_config_ranges_witness: "concurrency default_config \<in> {20..32}"
  using env_config_ranges [OF default_read] by (simp add: default_config_def)

text \<open>The public record is a function of the non-secret settings and of the presence of the two
  secrets: replacing a token or a team key by another non-empty one leaves the record unchanged.\<close>

theorem public_record_hides_secrets:
  assumes "(t = []) = (board_token c = [])" "(k = []) = (team_key c = [])"
  shows "public_record (c\<lparr>board_token := t, team_key := k\<rparr>) = public_record c"
  using assms by (simp add: public_record_def max_lane_workspace_bytes_def max_challenge_workspace_bytes_def)

theorem public_record_hides_secrets_witness:
  "public_record (default_config\<lparr>board_token := ''ctfd_b'', team_key := []\<rparr>)
   = public_record (default_config\<lparr>board_token := ''ctfd_a''\<rparr>)"
  using public_record_hides_secrets [of "''ctfd_b''" "default_config\<lparr>board_token := ''ctfd_a''\<rparr>" "[]"]
  by (simp add: default_config_def)

end
