(* ===== verification/Offline_Profile.thy ===== *)
theory Offline_Profile
  imports Config
begin

text \<open>
  \<open>src/rapido/offline_profile.py\<close>: the offline capability profile, built from a frozen registration
  and never from the Board environment. The keyword arguments of \<open>OfflineRuntimeConfig.build\<close> are a
  record whose fields have the annotated types, so the run-time type tests on them always pass; the
  subclass of the runtime configuration is a record extension. The builder is a second instance of
  the locale of admitted configurations.
\<close>

section \<open>Identifiers and the environment\<close>

definition lower_alnum :: "char \<Rightarrow> bool" where
  "lower_alnum c \<longleftrightarrow> is_digit c \<or> (97 \<le> (of_char c :: nat) \<and> (of_char c :: nat) \<le> 122)"

text \<open>The patterns \<open>[a-z0-9][a-z0-9._-]{0,63}\<close>, \<open>[A-Za-z0-9][A-Za-z0-9._-]{0,63}\<close> and
  \<open>sha256:[0-9a-f]{64}\<close>.\<close>

definition IDENTIFIER :: "string \<Rightarrow> bool" where
  "IDENTIFIER s = (case s of [] \<Rightarrow> False
     | c # r \<Rightarrow> lower_alnum c \<and> length r \<le> 63 \<and> list_all (\<lambda>x. lower_alnum x \<or> x \<in> set ''._-'') r)"

definition TASK_IDENTIFIER :: "string \<Rightarrow> bool" where
  "TASK_IDENTIFIER s = (case s of [] \<Rightarrow> False
     | c # r \<Rightarrow> (is_letter c \<or> is_digit c) \<and> length r \<le> 63
         \<and> list_all (\<lambda>x. is_letter x \<or> is_digit x \<or> x \<in> set ''._-'') r)"

definition IMAGE_DIGEST :: "string \<Rightarrow> bool" where
  "IMAGE_DIGEST s \<longleftrightarrow> take 7 s = ''sha256:'' \<and> length s = 71
     \<and> list_all (\<lambda>c. is_digit c \<or> (97 \<le> (of_char c :: nat) \<and> (of_char c :: nat) \<le> 102)) (drop 7 s)"

definition check_identifier :: "string \<Rightarrow> string \<Rightarrow> string result" where
  "check_identifier v label =
     (if IDENTIFIER v then Inr v else Inl (ConfigError (label @ '' is not a closed identifier'')))"

definition check_task_identifier :: "string \<Rightarrow> string result" where
  "check_task_identifier v =
     (if TASK_IDENTIFIER v then Inr v else Inl (ConfigError ''offline task id is not a closed identifier''))"

definition PRODUCTION_AUTHORITY_ENV :: "string list" where
  "PRODUCTION_AUTHORITY_ENV = [''CTFD_URL'', ''CTFD_API_TOKEN'', ''TEAM_KEY'']"

definition assert_offline_environment :: "environment \<Rightarrow> unit result" where
  "assert_offline_environment env =
     ensure (\<forall>n \<in> set PRODUCTION_AUTHORITY_ENV. env n = None)
       (ConfigError ''production Board authority variables are forbidden offline'')"

definition offline_child_env :: "'a runtime_config_scheme \<Rightarrow> environment \<Rightarrow> (string \<times> string) list result" where
  "offline_child_env c env =
     bind_result (assert_offline_environment env) (\<lambda>_.
     Inr [(''CODEX_HOME'', path_str (codex_home c)), (''HOME'', path_str (codex_home c)),
          (''PATH'', ''/usr/local/bin:/usr/bin:/bin''), (''TERM'', ''dumb''), (''NO_COLOR'', ''1'')])"

section \<open>Registrations and the profile\<close>

record task_registration =
  tr_board_id :: int
  tr_task_id :: string
  generator_version :: string
  checker_version :: string
  service_version :: string

definition registration_record :: "task_registration \<Rightarrow> pyval" where
  "registration_record t = PDict
     [(''board_id'', PInt (tr_board_id t)), (''task_id'', PStr (tr_task_id t)),
      (''generator_version'', PStr (generator_version t)), (''checker_version'', PStr (checker_version t)),
      (''service_version'', PStr (service_version t))]"

record offline_config = runtime_config +
  offline_profile_id :: string
  catalogue_version :: string
  board_implementation_version :: string
  runner_image :: string
  task_registrations :: "task_registration list"

text \<open>The keyword arguments of the builder, with the defaults of the optional ones.\<close>

record build_request =
  rq_profile_id :: string
  rq_catalogue :: string
  rq_implementation :: string
  rq_state_path :: path
  rq_work_root :: path
  rq_codex_home :: path
  rq_runner_image :: string
  rq_tasks :: "task_registration list"
  rq_model :: string
  rq_effort :: string
  rq_specialist_model :: string
  rq_specialist_efforts :: "string list"
  rq_lead_lanes :: int
  rq_peer_profile :: string
  rq_active :: int
  rq_episodes :: int
  rq_attempts :: int
  rq_attempt_seconds :: int
  rq_run_seconds :: int
  rq_artifact_bytes :: int
  rq_challenge_bytes :: int
  rq_workspace_bytes :: int
  rq_codex_binary :: string
  rq_memory_arm :: string

definition request_defaults ::
  "string \<Rightarrow> string \<Rightarrow> string \<Rightarrow> path \<Rightarrow> path \<Rightarrow> path \<Rightarrow> string \<Rightarrow> task_registration list \<Rightarrow> build_request" where
  "request_defaults profile_id catalogue implementation state work codex digest tasks =
     \<lparr>rq_profile_id = profile_id, rq_catalogue = catalogue, rq_implementation = implementation,
      rq_state_path = state, rq_work_root = work, rq_codex_home = codex, rq_runner_image = digest,
      rq_tasks = tasks, rq_model = ''gpt-daybreak-blue-latest'', rq_effort = ''xhigh'',
      rq_specialist_model = ''gpt-5.6-luna'', rq_specialist_efforts = [''max'', ''xhigh'', ''max''],
      rq_lead_lanes = 2, rq_peer_profile = ''mixed_v1'', rq_active = 5, rq_episodes = 3, rq_attempts = 4,
      rq_attempt_seconds = 800, rq_run_seconds = 3600, rq_artifact_bytes = 64 * 1024 * 1024,
      rq_challenge_bytes = 128 * 1024 * 1024, rq_workspace_bytes = 500 * 1024 * 1024 * 1024,
      rq_codex_binary = ''codex'', rq_memory_arm = ''typed_challenge_v1''\<rparr>"

definition service_versions :: "task_registration list \<Rightarrow> string list" where
  "service_versions tasks = remdups (filter (\<lambda>v. v \<noteq> ''none'') (map service_version tasks))"

definition check_task :: "task_registration \<Rightarrow> unit result" where
  "check_task t =
     bind_result (check_task_identifier (tr_task_id t)) (\<lambda>_.
     bind_result (check_identifier (generator_version t) ''offline generator version'') (\<lambda>_.
     bind_result (check_identifier (checker_version t) ''offline checker version'') (\<lambda>_.
     bind_result (check_identifier (service_version t) ''offline service version'') (\<lambda>_. Inr ()))))"

definition check_tasks :: "task_registration list \<Rightarrow> unit result" where
  "check_tasks tasks =
     (let ids = map tr_board_id tasks in
      if tasks = [] then Inl (ConfigError ''offline task registrations are invalid'')
      else if (\<exists>i \<in> set ids. i \<le> 0) \<or> \<not> distinct ids \<or> \<not> distinct (map tr_task_id tasks)
      then Inl (ConfigError ''offline task registrations must have unique positive identities'')
      else bind_result (traverse check_task tasks) (\<lambda>_.
      if 1 < length (service_versions tasks)
      then Inl (ConfigError ''offline dynamic tasks require one registered service source'')
      else Inr ()))"

definition descriptor_ok :: "string \<Rightarrow> bool" where
  "descriptor_ok s \<longleftrightarrow> s \<noteq> [] \<and> length s \<le> 256 \<and> printable s"

definition check_knobs :: "build_request \<Rightarrow> unit result" where
  "check_knobs r =
     (if \<not> (1 \<le> rq_active r \<and> rq_active r \<le> min 8 (int (length (rq_tasks r))))
      then Inl (ConfigError ''offline active challenge count is invalid'')
      else if \<not> (1 \<le> rq_episodes r \<and> rq_episodes r \<le> 4)
      then Inl (ConfigError ''offline episode count is invalid'')
      else if \<not> (2 \<le> rq_attempts r \<and> rq_attempts r \<le> 8)
      then Inl (ConfigError ''offline lane count is invalid'')
      else if \<not> (1 \<le> rq_lead_lanes r \<and> rq_lead_lanes r \<le> rq_attempts r)
      then Inl (ConfigError ''offline lead lane count is invalid'')
      else if rq_peer_profile r \<notin> {''mixed_v1'', ''uniform_v1''}
      then Inl (ConfigError ''offline peer profile is invalid'')
      else if rq_specialist_efforts r = [] \<or> 8 < length (rq_specialist_efforts r)
      then Inl (ConfigError ''offline specialist efforts are invalid'')
      else if rq_attempt_seconds r < 600 \<or> rq_run_seconds r < 60
      then Inl (ConfigError ''offline time budget is below the supported floor'')
      else if rq_artifact_bytes r < 1024 \<or> rq_challenge_bytes r < rq_artifact_bytes r
      then Inl (ConfigError ''offline artifact budget is invalid'')
      else if rq_workspace_bytes r < rq_active r * rq_challenge_bytes r * (rq_attempts r + 1)
      then Inl (ConfigError ''offline workspace budget cannot cover admitted lane copies'')
      else if \<not> set (rq_effort r # rq_specialist_efforts r) \<subseteq> set EFFORTS
      then Inl (ConfigError ''offline reasoning effort is invalid'')
      else if \<not> list_all descriptor_ok [rq_model r, rq_specialist_model r, rq_codex_binary r]
      then Inl (ConfigError ''offline model and binary descriptors must be explicit'')
      else if rq_memory_arm r \<notin> {''lane_local_v1'', ''typed_challenge_v1''}
      then Inl (ConfigError ''offline memory arm is invalid'')
      else Inr ())"

definition offline_build :: "build_request \<Rightarrow> offline_config result" where
  "offline_build r =
     bind_result (check_identifier (rq_profile_id r) ''offline profile id'') (\<lambda>profile_id.
     bind_result (check_identifier (rq_catalogue r) ''catalogue version'') (\<lambda>catalogue.
     bind_result (check_identifier (rq_implementation r) ''Board implementation version'') (\<lambda>implementation.
     if \<not> IMAGE_DIGEST (rq_runner_image r)
     then Inl (ConfigError ''offline runner image must be an exact digest'')
     else if \<not> list_all is_absolute [rq_state_path r, rq_work_root r, rq_codex_home r]
     then Inl (ConfigError ''offline runtime paths must be absolute Path values'')
     else bind_result (check_tasks (rq_tasks r)) (\<lambda>_.
     bind_result (check_knobs r) (\<lambda>_.
     Inr \<lparr>board_url = [], board_token = [], team_key = [], board_timeout_seconds = 1, cfg_model = rq_model r,
       reasoning_effort = rq_effort r, specialist_model = rq_specialist_model r,
       specialist_efforts = rq_specialist_efforts r, lead_lanes = rq_lead_lanes r,
       peer_profile = rq_peer_profile r, concurrency = rq_active r * rq_attempts r,
       active_challenges = rq_active r, episodes_per_challenge = rq_episodes r, dynamic_concurrency = 1,
       attempts_per_challenge = rq_attempts r, attempt_seconds = rq_attempt_seconds r,
       instance_ready_seconds = 6, instance_cleanup_seconds = 3, run_seconds = rq_run_seconds r,
       max_artifact_bytes = rq_artifact_bytes r, max_challenge_bytes = rq_challenge_bytes r,
       max_workspace_bytes = rq_workspace_bytes r, state_path = rq_state_path r, work_root = rq_work_root r,
       codex_home = rq_codex_home r, codex_binary = rq_codex_binary r, cfg_profile = profile_id,
       memory_arm = rq_memory_arm r, challenge_ids = map tr_board_id (rq_tasks r), focus_challenge_ids = [],
       submit_candidates = True, manage_dynamic_instances = True, watch_board = False,
       board_watch_seconds = 15, board_full_refresh_seconds = 60, offline_profile_id = profile_id,
       catalogue_version = catalogue, board_implementation_version = implementation,
       runner_image = rq_runner_image r, task_registrations = rq_tasks r\<rparr>)))))"

definition service_runtime :: "offline_config \<Rightarrow> string \<Rightarrow> pyval" where
  "service_runtime c version = PDict
     [(''backend'', PStr ''docker-service-v1''), (''runner_image'', PStr (runner_image c)),
      (''source_version'', PStr version), (''profile_id'', PStr ''small-v1''), (''cpu_cores'', PFloat ''1.0''),
      (''memory_bytes'', PInt (256 * 1024 * 1024)), (''pids_limit'', PInt 64),
      (''writable_tmpfs_bytes'', PInt (64 * 1024 * 1024)), (''internal_port'', PInt 8080),
      (''hard_lifetime_seconds'', PInt 900), (''internal_network'', PBool True),
      (''arbitrary_egress'', PBool False), (''published_loopback_only'', PBool True)]"

definition offline_board_registration :: "offline_config \<Rightarrow> (string \<times> pyval) list result" where
  "offline_board_registration c =
     (let versions = service_versions (task_registrations c) in
      if 1 < length versions
      then Inl (ConfigError ''offline dynamic tasks require one registered service source'')
      else Inr
        [(''offline_profile_id'', PStr (offline_profile_id c)), (''catalogue_version'', PStr (catalogue_version c)),
         (''implementation_version'', PStr (board_implementation_version c)),
         (''task_registrations'', PList (map registration_record (task_registrations c))),
         (''service_runtime'', case versions of [] \<Rightarrow> PNone | v # _ \<Rightarrow> service_runtime c v)])"

definition OFFLINE_PROFILE_SCHEMA :: string where
  "OFFLINE_PROFILE_SCHEMA = ''rapido-offline-profile-v1''"

definition offline_public_record :: "offline_config \<Rightarrow> pyval result" where
  "offline_public_record c =
     bind_result (offline_board_registration c) (\<lambda>registration. Inr (PDict
       [(''schema'', PStr OFFLINE_PROFILE_SCHEMA), (''offline_profile_id'', PStr (offline_profile_id c)),
        (''catalogue_version'', PStr (catalogue_version c)),
        (''board_implementation_version'', PStr (board_implementation_version c)),
        (''runner_image'', PStr (runner_image c)),
        (''task_registrations'', PList (map registration_record (task_registrations c))),
        (''service_runtime'', dict_get registration ''service_runtime''),
        (''model'', PStr (cfg_model c)), (''reasoning_effort'', PStr (reasoning_effort c)),
        (''specialist_model'', PStr (specialist_model c)),
        (''specialist_reasoning_efforts'', PList (map PStr (specialist_efforts c))),
        (''lead_lanes'', PInt (lead_lanes c)), (''peer_profile'', PStr (peer_profile c)),
        (''concurrency'', PInt (concurrency c)), (''active_challenges'', PInt (active_challenges c)),
        (''episodes_per_challenge'', PInt (episodes_per_challenge c)),
        (''dynamic_concurrency'', PInt (dynamic_concurrency c)),
        (''attempts_per_challenge'', PInt (attempts_per_challenge c)),
        (''attempt_seconds'', PInt (attempt_seconds c)),
        (''board_timeout_seconds'', PInt (board_timeout_seconds c)),
        (''instance_ready_seconds'', PInt (instance_ready_seconds c)),
        (''instance_cleanup_seconds'', PInt (instance_cleanup_seconds c)),
        (''run_seconds'', PInt (run_seconds c)), (''max_artifact_bytes'', PInt (max_artifact_bytes c)),
        (''max_challenge_bytes'', PInt (max_challenge_bytes c)),
        (''max_workspace_bytes'', PInt (max_workspace_bytes c)),
        (''max_challenge_workspace_bytes'', PInt (max_challenge_workspace_bytes c)),
        (''max_lane_workspace_bytes'', PInt (max_lane_workspace_bytes c)),
        (''memory_arm'', PStr (memory_arm c)),
        (''selected_challenge_count'', PInt (int (length (challenge_ids c)))),
        (''submit_candidates'', PBool (submit_candidates c)),
        (''manage_dynamic_instances'', PBool (manage_dynamic_instances c)),
        (''watch_board'', PBool (watch_board c))]))"

section \<open>What a built profile promises\<close>

lemma check_knobs_ok:
  "check_knobs r = Inr u \<Longrightarrow>
     1 \<le> rq_active r \<and> rq_active r \<le> int (length (rq_tasks r)) \<and> 2 \<le> rq_attempts r \<and> 1 \<le> rq_lead_lanes r
     \<and> rq_lead_lanes r \<le> rq_attempts r \<and> 1024 \<le> rq_artifact_bytes r
     \<and> rq_artifact_bytes r \<le> rq_challenge_bytes r
     \<and> rq_active r * rq_challenge_bytes r * (rq_attempts r + 1) \<le> rq_workspace_bytes r"
  unfolding check_knobs_def by (simp split: if_split_asm)

lemma check_tasks_ok:
  "check_tasks tasks = Inr u \<Longrightarrow>
     distinct (map tr_board_id tasks) \<and> (\<forall>t \<in> set tasks. 0 < tr_board_id t)
     \<and> length (service_versions tasks) \<le> 1"
  by (auto simp: check_tasks_def Let_def not_le not_less elim!: bind_result_InrE split: if_split_asm)

lemma offline_build_parts:
  assumes "offline_build r = Inr c"
  shows "check_tasks (rq_tasks r) = Inr ()" "check_knobs r = Inr ()"
    and "active_challenges c = rq_active r" "attempts_per_challenge c = rq_attempts r"
    "lead_lanes c = rq_lead_lanes r" "concurrency c = rq_active r * rq_attempts r"
    "max_artifact_bytes c = rq_artifact_bytes r" "max_challenge_bytes c = rq_challenge_bytes r"
    "max_workspace_bytes c = rq_workspace_bytes r" "task_registrations c = rq_tasks r"
    "challenge_ids c = map tr_board_id (rq_tasks r)" "board_url c = []" "board_token c = []" "team_key c = []"
  using assms unfolding offline_build_def
  by (auto elim!: bind_result_InrE split: if_split_asm)

interpretation offline: admitted_configuration offline_build
proof
  fix r c assume "offline_build r = Inr c"
  note parts = offline_build_parts [OF this]
  show "1 \<le> active_challenges c \<and> 2 \<le> attempts_per_challenge c \<and> 1 \<le> lead_lanes c
      \<and> lead_lanes c \<le> attempts_per_challenge c
      \<and> active_challenges c * attempts_per_challenge c \<le> concurrency c"
    using check_knobs_ok [OF parts(2)] parts by simp
  show "1024 \<le> max_artifact_bytes c \<and> max_artifact_bytes c \<le> max_challenge_bytes c
      \<and> active_challenges c * max_challenge_bytes c * (attempts_per_challenge c + 1) \<le> max_workspace_bytes c"
    using check_knobs_ok [OF parts(2)] parts by simp
qed

text \<open>The offline builder gives the same workspace promise as the production reader, by the same
  contract: a lane may hold a full copy of a challenge's artifacts, the run fits in the workspace,
  and the concurrency is exactly the number of lanes of a full wave.\<close>

theorem offline_workspace_budget:
  assumes "offline_build r = Inr c"
  shows "max_artifact_bytes c \<le> max_lane_workspace_bytes c \<and> max_challenge_bytes c \<le> max_lane_workspace_bytes c
    \<and> active_challenges c * (max_challenge_bytes c + attempts_per_challenge c * max_lane_workspace_bytes c)
      \<le> max_workspace_bytes c
    \<and> concurrency c = active_challenges c * attempts_per_challenge c
    \<and> active_challenges c \<le> int (length (challenge_ids c))"
  using offline.lane_workspace [OF assms] offline.run_fits [OF assms] offline_build_parts [OF assms]
    check_knobs_ok [OF offline_build_parts(2) [OF assms]] by simp

definition sample_task :: task_registration where
  "sample_task = \<lparr>tr_board_id = 7, tr_task_id = ''task-7'', generator_version = ''g1'', checker_version = ''c1'',
     service_version = ''svc-1''\<rparr>"

definition sample_request :: build_request where
  "sample_request = (request_defaults ''p1'' ''cat1'' ''impl1'' (Path ''/'' [''s'']) (Path ''/'' [''w''])
     (Path ''/'' [''h'']) (''sha256:'' @ replicate 64 (CHR ''a'')) [sample_task])\<lparr>rq_active := 1\<rparr>"

lemma sample_offline:
  "\<exists>c. offline_build sample_request = Inr c \<and> service_versions (task_registrations c) = [''svc-1'']"
proof -
  have "check_tasks [sample_task] = Inr ()"
    by (simp add: check_tasks_def check_task_def check_task_identifier_def check_identifier_def IDENTIFIER_def
        TASK_IDENTIFIER_def lower_alnum_def is_letter_def is_digit_def service_versions_def sample_task_def)
  moreover have "check_knobs sample_request = Inr ()"
    by (simp add: check_knobs_def sample_request_def request_defaults_def EFFORTS_def descriptor_ok_def printable_def)
  moreover have "IMAGE_DIGEST (''sha256:'' @ replicate 64 (CHR ''a''))"
    by (simp add: IMAGE_DIGEST_def list_all_iff is_digit_def)
  moreover have "check_identifier ''p1'' l = Inr ''p1''" "check_identifier ''cat1'' l = Inr ''cat1''"
    "check_identifier ''impl1'' l = Inr ''impl1''" for l
    by (simp_all add: check_identifier_def IDENTIFIER_def lower_alnum_def is_digit_def)
  ultimately show ?thesis
    by (simp add: offline_build_def sample_request_def request_defaults_def is_absolute_def
        service_versions_def sample_task_def)
qed

theorem offline_workspace_budget_witness:
  "\<exists>c. offline_build sample_request = Inr c \<and> concurrency c = active_challenges c * attempts_per_challenge c"
  using sample_offline offline_workspace_budget by blast

text \<open>A built profile always has a Board registration and a public record: the one service source
  the registration needs was already checked by the builder. The service runtime is absent exactly
  when no task is dynamic, and no Board authority enters the configuration.\<close>

theorem offline_registration_total:
  assumes "offline_build r = Inr c"
  shows "\<exists>registration doc. offline_board_registration c = Inr registration \<and> offline_public_record c = Inr doc
    \<and> (dict_get registration ''service_runtime'' = PNone \<longleftrightarrow> (\<forall>t \<in> set (rq_tasks r). service_version t = ''none''))
    \<and> board_url c = [] \<and> board_token c = [] \<and> team_key c = []"
proof -
  have tasks: "task_registrations c = rq_tasks r" "length (service_versions (rq_tasks r)) \<le> 1"
    using check_tasks_ok [OF offline_build_parts(1) [OF assms]] offline_build_parts [OF assms] by auto
  have none: "service_versions (rq_tasks r) = [] \<longleftrightarrow> (\<forall>t \<in> set (rq_tasks r). service_version t = ''none'')"
    by (auto simp: service_versions_def filter_empty_conv)
  have "board_url c = [] \<and> board_token c = [] \<and> team_key c = []"
    using offline_build_parts [OF assms] by simp
  with tasks none show ?thesis
    by (auto simp: offline_public_record_def offline_board_registration_def service_runtime_def Let_def
        split: list.splits)
qed

theorem offline_registration_total_witness:
  "\<exists>c registration. offline_build sample_request = Inr c \<and> offline_board_registration c = Inr registration
     \<and> dict_get registration ''service_runtime'' \<noteq> PNone"
proof -
  obtain c where c: "offline_build sample_request = Inr c" using sample_offline by blast
  moreover have "\<not> (\<forall>t \<in> set (rq_tasks sample_request). service_version t = ''none'')"
    by (simp add: sample_request_def request_defaults_def sample_task_def)
  ultimately show ?thesis using offline_registration_total [OF c] by blast
qed

text \<open>The native client's environment offline is refused whenever any Board authority variable is
  present, and otherwise consists of five settings that depend on the configured home alone: no
  variable of the process environment is passed on.\<close>

theorem offline_child_env_isolated:
  "(is_ok (offline_child_env c env) \<longleftrightarrow> (\<forall>n \<in> {''CTFD_URL'', ''CTFD_API_TOKEN'', ''TEAM_KEY''}. env n = None))
   \<and> (\<forall>vars. offline_child_env c env = Inr vars \<longrightarrow>
        offline_child_env c (\<lambda>_. None) = Inr vars \<and> map fst vars = [''CODEX_HOME'', ''HOME'', ''PATH'', ''TERM'', ''NO_COLOR''])"
  by (auto simp: offline_child_env_def assert_offline_environment_def PRODUCTION_AUTHORITY_ENV_def ensure_def)

theorem offline_child_env_isolated_witness:
  "\<exists>vars. offline_child_env default_config (\<lambda>n. if n = ''PATH'' then Some ''/evil'' else None) = Inr vars
     \<and> offline_child_env default_config (\<lambda>_. None) = Inr vars"
proof -
  let ?env = "\<lambda>n. if n = ''PATH'' then Some ''/evil'' else None"
  have "is_ok (offline_child_env default_config ?env)"
    using offline_child_env_isolated [of default_config ?env] by simp
  then obtain vars where "offline_child_env default_config ?env = Inr vars"
    by (cases "offline_child_env default_config ?env") auto
  with offline_child_env_isolated [of default_config ?env] show ?thesis by blast
qed

end
