(* ===== verification/Control_Decisions.thy ===== *)
theory Control_Decisions
  imports Control_Catalogue
begin

text \<open>
  The successor decision of \<open>src/rapido/state.py\<close>: what the store knows of a closed wave is turned into
  one request to the router of \<open>src/rapido/routing.py\<close>, the decision is recorded once per wave, and a
  dispatched successor is admitted, all in the transaction of the caller. \<open>finish_and_decide_control_wave\<close>
  closes a wave and decides; \<open>resume_control_waves\<close> decides for every wave a restart interrupted. The
  private candidate tables are only read here. Keys are texts of hexadecimal digits.
\<close>

section \<open>What the store knows of a candidate\<close>

definition material_identity :: "catalogue_row \<Rightarrow> string" where
  "material_identity r = (case ct_context r of Some x \<Rightarrow> x | None \<Rightarrow> ''episode:'' @ show_int (ct_episode r))"

definition has_proof :: "db \<Rightarrow> string \<Rightarrow> string \<Rightarrow> int \<Rightarrow> string \<Rightarrow> bool" where
  "has_proof d attempt run c key = list_ex (\<lambda>p. pf_attempt p = attempt \<and> pf_run p = run \<and> pf_challenge p = c
     \<and> pf_key p = key) (proofs d)"

definition proposal_of :: "db \<Rightarrow> string \<Rightarrow> proposal_row option" where
  "proposal_of d attempt = first_row (\<lambda>p. pp_attempt p = attempt) (proposals d)"

definition sha_opt :: "string option \<Rightarrow> bool" where
  "sha_opt x = (case x of None \<Rightarrow> False | Some s \<Rightarrow> sha_text s)"

definition scope_current :: "db \<Rightarrow> challenge_row \<Rightarrow> verification_row \<Rightarrow> proposal_row \<Rightarrow> proposal_row \<Rightarrow> bool" where
  "scope_current d x v p q =
     (if ch_type x \<noteq> ''dynamic_iac''
      then vf_scope v = ''static_material'' \<and> vf_receipt v = None \<and> pp_receipt p = None \<and> pp_receipt q = None
      else vf_scope v = ''dynamic_instance'' \<and> sha_opt (vf_receipt v) \<and> sha_opt (pp_receipt p)
        \<and> pp_receipt q = vf_receipt v
        \<and> list_ex (\<lambda>i. in_run i = vf_run v \<and> in_challenge i = vf_challenge v
            \<and> in_status i \<in> {''owned'', ''cleanup_pending'', ''removed''} \<and> in_receipt i = vf_receipt v) (instances d))"

text \<open>The rows of the view \<open>current_candidate_verifications\<close>.\<close>

definition current_verification :: "db \<Rightarrow> verification_row \<Rightarrow> bool" where
  "current_verification d v =
     (case (proposal_of d (vf_producer v), proposal_of d (vf_verifier v), catalogued d (vf_run v) (vf_challenge v),
            challenge_by_id d (vf_challenge v)) of
        (Some p, Some q, Some r, Some x) \<Rightarrow>
          has_proof d (vf_producer v) (vf_run v) (vf_challenge v) (vf_key v)
          \<and> has_proof d (vf_verifier v) (vf_run v) (vf_challenge v) (vf_key v)
          \<and> vf_context v = material_identity r \<and> pp_context p = vf_context v \<and> pp_context q = vf_context v
          \<and> pp_episode p < pp_episode q \<and> scope_current d x v p q
      | _ \<Rightarrow> False)"

definition open_proposal :: "db \<Rightarrow> string \<Rightarrow> int \<Rightarrow> catalogue_row \<Rightarrow> proposal_row \<Rightarrow> bool" where
  "open_proposal d run c r p \<longleftrightarrow> pp_run p = run \<and> pp_challenge p = c
     \<and> has_proof d (pp_attempt p) run c (pp_key p)
     \<and> list_ex (\<lambda>a. at_id a = pp_attempt p \<and> at_run a = run \<and> at_challenge a = c \<and> at_status a = ''candidate'') (attempts d)
     \<and> ct_episode r \<le> pp_episode p \<and> pp_context p = material_identity r
     \<and> pp_role p \<in> {''specialist'', ''recovery''}
     \<and> \<not> list_ex (\<lambda>i. it_challenge i = c \<and> it_sha i = pp_key p \<and> it_run i = run
          \<and> (ct_context r \<noteq> None \<and> it_context i = ct_context r \<or> it_episode i = ct_episode r \<and> it_context i = ct_context r)
          \<and> it_status i \<in> {''correct'', ''incorrect''}) (intents d)
     \<and> \<not> list_ex (\<lambda>v. vf_run v = run \<and> vf_challenge v = c \<and> vf_key v = pp_key p \<and> current_verification d v) (verifications d)"

definition candidate_identity_count :: "db \<Rightarrow> string \<Rightarrow> int \<Rightarrow> nat" where
  "candidate_identity_count d run c =
     (case catalogued d run c of
        None \<Rightarrow> 0
      | Some r \<Rightarrow> length (remdups (map pp_key (filter (open_proposal d run c r) (proposals d)))))"

definition current_wave_wrong :: "db \<Rightarrow> string \<Rightarrow> int \<Rightarrow> int \<Rightarrow> bool" where
  "current_wave_wrong d run c ep =
     (case catalogued d run c of
        None \<Rightarrow> False
      | Some r \<Rightarrow> list_ex (\<lambda>p. pp_run p = run \<and> pp_challenge p = c \<and> pp_episode p = ep
          \<and> pp_role p \<in> {''specialist'', ''recovery''}
          \<and> list_ex (\<lambda>i. it_challenge i = c \<and> it_sha i = pp_key p \<and> it_run i = run \<and> it_episode i = ct_episode r
              \<and> it_context i = ct_context r \<and> it_status i = ''incorrect'') (intents d)) (proposals d))"

section \<open>The request to the router\<close>

definition wave_jobs :: "db \<Rightarrow> string \<Rightarrow> int \<Rightarrow> int \<Rightarrow> job_row list" where
  "wave_jobs d run c ep = filter (in_wave run c ep) (control_jobs d)"

definition source_route :: "db \<Rightarrow> string \<Rightarrow> int \<Rightarrow> int \<Rightarrow> route_spec result" where
  "source_route d run c ep =
     (let documents = remdups (concat (map (\<lambda>j. case route_of_job d j of None \<Rightarrow> [] | Some r \<Rightarrow> [rt_document r])
            (wave_jobs d run c ep))) in
      case documents of
        [document] \<Rightarrow> (case route_from_dict document of
            Inl _ \<Rightarrow> Inl (ValueError ''source control route is invalid'') | Inr r \<Rightarrow> Inr r)
      | _ \<Rightarrow> Inl (ValueError ''source control wave has no unique durable route''))"

definition wave_attempts :: "db \<Rightarrow> string \<Rightarrow> int \<Rightarrow> int \<Rightarrow> attempt_row list" where
  "wave_attempts d run c ep = filter (\<lambda>a. at_run a = run \<and> at_challenge a = c \<and> at_episode a = ep) (attempts d)"

definition wave_signal :: "db \<Rightarrow> string \<Rightarrow> int \<Rightarrow> int \<Rightarrow> string \<Rightarrow> failure_signal option result" where
  "wave_signal d run c ep terminal =
     (let rows = wave_attempts d run c ep;
          row = first_row (same_origin run c ep) (failure_origins d);
          restart = (case row of None \<Rightarrow> False | Some x \<Rightarrow> og_reason x = ''process_restart'') in
      bind_result (classify_failure terminal
        (if restart then None else map_option og_origin row)
        (if restart then {''process_restart''} else set (concat (map (\<lambda>a. case at_failure a of None \<Rightarrow> [] | Some f \<Rightarrow> [f]) rows)))
        (int (candidate_identity_count d run c)) (int (length rows))) (\<lambda>signal.
      if terminal \<in> {''candidate'', ''unsolved''} \<and> current_wave_wrong d run c ep
      then bind_result (construct_signal ''disagreement'' ''board_rejected_candidate'') (\<lambda>s. Inr (Some s))
      else Inr signal))"

definition timeout_recovered :: "db \<Rightarrow> string \<Rightarrow> int \<Rightarrow> bool" where
  "timeout_recovered d run c =
     (case catalogued d run c of
        None \<Rightarrow> False
      | Some r \<Rightarrow> list_ex (\<lambda>x. dc_run x = run \<and> dc_challenge x = c \<and> ct_episode r \<le> dc_episode x
          \<and> dc_rule x = ''typed_timeout_recovery_v1'' \<and> dc_disposition x = ''dispatch'') (route_decisions d))"

record decision_budget =
  bd_attempts :: bool
  bd_milliseconds :: int
  bd_unresolved :: int
  bd_parallel :: int

definition wave_request ::
  "db \<Rightarrow> string \<Rightarrow> int \<Rightarrow> int \<Rightarrow> decision_budget \<Rightarrow> route_spec \<Rightarrow> failure_signal \<Rightarrow> route_request" where
  "wave_request d run c ep b r signal =
     (let rows = (if kind signal = ''timeout'' then manifests d else None) in
      \<lparr>failure = signal, current = r,
       used_fingerprints = set (map rt_fingerprint (filter (\<lambda>x. rt_run x = run \<and> rt_challenge x = c) (control_routes d))),
       attempts_remaining = bd_attempts b, remaining_milliseconds = bd_milliseconds b,
       effects_safe = (count_rows (unresolved_of c) (intents d) = 0),
       instances_safe = (count_rows (\<lambda>i. in_status i \<in> {''creating'', ''cleanup_pending''}) (instances d) = 0),
       durable_observation_count = (case rows of None \<Rightarrow> 0
         | Some ms \<Rightarrow> sum_list (map mf_committed (filter (\<lambda>m. mf_run m = run \<and> mf_challenge m = c \<and> mf_episode m = ep) ms))),
       timeout_recovery_used = (rows \<noteq> None \<and> timeout_recovered d run c),
       unresolved_challenge_count = bd_unresolved b, parallel_challenge_count = bd_parallel b\<rparr>)"

section \<open>The record of a decision\<close>

definition disposition_text :: "disposition \<Rightarrow> string" where
  "disposition_text x = (case x of Dispatch \<Rightarrow> ''dispatch'' | Contain \<Rightarrow> ''contain'')"

definition same_decision :: "string \<Rightarrow> int \<Rightarrow> int \<Rightarrow> decision_row \<Rightarrow> bool" where
  "same_decision run c ep x \<longleftrightarrow> dc_run x = run \<and> dc_challenge x = c \<and> dc_episode x = ep"

definition insert_decision :: "decision_row \<Rightarrow> unit tx" where
  "insert_decision x d =
     bind_result (unique_key (\<not> list_ex (same_decision (dc_run x) (dc_challenge x) (dc_episode x)) (route_decisions d))) (\<lambda>_.
     bind_result (foreign_key (has_run d (dc_run x) \<and> has_challenge d (dc_challenge x))) (\<lambda>_.
     Inr ((), d\<lparr>route_decisions := route_decisions d @ [x]\<rparr>)))"

definition opt_text :: "string option \<Rightarrow> pyval" where
  "opt_text x = (case x of None \<Rightarrow> PNone | Some s \<Rightarrow> PStr s)"

definition record_decision :: "digest_fn \<Rightarrow> string \<Rightarrow> int \<Rightarrow> int \<Rightarrow> failure_signal \<Rightarrow> route_decision \<Rightarrow> unit tx" where
  "record_decision sha run c ep signal dec =
     (let fp = map_option (fingerprint sha) (successor dec) in
      tx_bind (insert_control_event run ''failure_route_decision'' None
        (PDict [(''challenge_id'', PInt c), (''changed_axes'', PList (map PStr (decision_axes dec))),
          (''disposition'', PStr (disposition_text (disposition dec))), (''failure_kind'', PStr (kind signal)),
          (''failure_subreason'', PStr (subreason signal)), (''rule_id'', PStr (rule_id dec)),
          (''source_episode'', PInt ep), (''source_route_fingerprint'', PStr (source_fingerprint dec)),
          (''successor_route_fingerprint'', opt_text fp)])) (\<lambda>seq.
      insert_decision \<lparr>dc_sequence = seq, dc_run = run, dc_challenge = c, dc_episode = ep, dc_kind = kind signal,
        dc_subreason = subreason signal, dc_disposition = disposition_text (disposition dec), dc_rule = rule_id dec,
        dc_source = source_fingerprint dec, dc_successor = fp, dc_axes = decision_axes dec, dc_reason = reason dec\<rparr>))"

section \<open>The lanes of the successor\<close>

definition peer_assignments :: "route_spec \<Rightarrow> assignment list \<Rightarrow> assignment list option" where
  "peer_assignments r rows =
     (case (find (\<lambda>(agent, m, e). agent = ''lead'' \<or> m = model r \<and> e = effort r) rows,
            find (\<lambda>(agent, m, e). agent = ''specialist'' \<or> m \<noteq> model r \<or> e \<noteq> effort r) rows) of
        (Some (_, m, e), Some (_, m', e')) \<Rightarrow> Some (replicate 3 (''recovery'', m, e) @ [(''recovery'', m', e')])
      | _ \<Rightarrow> None)"

definition successor_lanes ::
  "db \<Rightarrow> string \<Rightarrow> int \<Rightarrow> int \<Rightarrow> nat \<Rightarrow> route_spec \<Rightarrow> string \<Rightarrow> route_spec \<Rightarrow> nat \<times> assignment list option" where
  "successor_lanes d run c ep lanes r rule next =
     (let rows = map (\<lambda>j. (jb_agent_role j, jb_model j, jb_effort j)) (sort_key jb_lane (wave_jobs d run c ep)) in
      if role next = ''verifier'' then (1, None)
      else if role next = ''recovery''
      then let xs = (case (if rule = ''typed_timeout_recovery_v1'' \<and> length rows = 4 then peer_assignments r rows else None) of
               Some xs \<Rightarrow> xs | None \<Rightarrow> map (\<lambda>(_, m, e). (''recovery'', m, e)) rows) in
           (length xs, Some xs)
      else (lanes, Some rows))"

section \<open>Deciding\<close>

definition dispatch_successor ::
  "digest_fn \<Rightarrow> string \<Rightarrow> int \<Rightarrow> int \<Rightarrow> int \<Rightarrow> int \<Rightarrow> nat \<Rightarrow> route_spec \<Rightarrow> route_decision \<Rightarrow> unit tx" where
  "dispatch_successor sha run c ep next_ep rank lanes r dec d =
     (if disposition dec \<noteq> Dispatch then Inr ((), d)
      else case successor dec of
        None \<Rightarrow> Inl (AssertionError ''dispatch requires a successor route'')
      | Some next \<Rightarrow> (case successor_lanes d run c ep lanes r (rule_id dec) next of (n, xs) \<Rightarrow>
          admit_wave sha run c next_ep rank n next xs True d))"

definition decide_control_successor ::
  "digest_fn \<Rightarrow> string \<Rightarrow> int \<Rightarrow> int \<Rightarrow> int \<Rightarrow> int \<Rightarrow> nat \<Rightarrow> string \<Rightarrow> decision_budget \<Rightarrow> route_decision option tx" where
  "decide_control_successor sha run c ep next_ep rank lanes terminal b d =
     bind_result (source_route d run c ep) (\<lambda>r.
     bind_result (wave_signal d run c ep terminal) (\<lambda>signal.
     case signal of
       None \<Rightarrow> Inr (None, d)
     | Some s \<Rightarrow> bind_result (route_failure sha (wave_request d run c ep b r s)) (\<lambda>dec.
         tx_bind (record_decision sha run c ep s dec) (\<lambda>_.
         tx_bind (dispatch_successor sha run c ep next_ep rank lanes r dec) (\<lambda>_.
         tx_return (Some dec))) d)))"

definition dispatched :: "route_decision option \<Rightarrow> bool" where
  "dispatched x = (case x of None \<Rightarrow> False | Some dec \<Rightarrow> disposition dec = Dispatch)"

text \<open>\<open>continuation_assignments\<close> may be absent or empty; then every lane takes the route's own.\<close>

definition continue_wave ::
  "digest_fn \<Rightarrow> string \<Rightarrow> int \<Rightarrow> int \<Rightarrow> int \<Rightarrow> int \<Rightarrow> nat \<Rightarrow> route_spec \<Rightarrow> assignment list \<Rightarrow> unit tx" where
  "continue_wave sha run c ep next_ep rank lanes r assignments =
     (let xs = (if assignments = [] then replicate lanes (role r, model r, effort r) else assignments) in
      tx_bind (insert_control_event run ''phase_transition'' None
        (PDict [(''challenge_id'', PInt c), (''source_episode'', PInt ep), (''next_episode'', PInt next_ep),
          (''reason'', PStr ''unresolved_requeued_with_orthogonal_strategy''),
          (''successor_route_fingerprint'', PStr (fingerprint sha r))])) (\<lambda>_.
      admit_wave sha run c next_ep rank (length xs) r (Some xs) True))"

definition finish_and_decide_control_wave ::
  "digest_fn \<Rightarrow> string \<Rightarrow> int \<Rightarrow> int \<Rightarrow> int \<Rightarrow> int \<Rightarrow> nat \<Rightarrow> string \<Rightarrow> decision_budget
     \<Rightarrow> (route_spec \<times> assignment list) option \<Rightarrow> db \<Rightarrow> route_decision option result \<times> db" where
  "finish_and_decide_control_wave sha run c ep next_ep rank lanes terminal b continuation =
     transaction
       (tx_bind (finish_wave run c ep terminal) (\<lambda>_.
        tx_bind (decide_control_successor sha run c ep next_ep rank lanes terminal b) (\<lambda>dec.
        tx_bind (case continuation of
            None \<Rightarrow> tx_return ()
          | Some (r, xs) \<Rightarrow> if dispatched dec then tx_return () else continue_wave sha run c ep next_ep rank lanes r xs) (\<lambda>_.
        tx_return dec))))"

section \<open>Resuming interrupted waves\<close>

definition decided :: "db \<Rightarrow> origin_row \<Rightarrow> bool" where
  "decided d o' = list_ex (same_decision (og_run o') (og_challenge o') (og_episode o')) (route_decisions d)"

definition unrouted :: "db \<Rightarrow> string \<Rightarrow> origin_row \<Rightarrow> bool" where
  "unrouted d run o' =
     (og_run o' = run \<and> \<not> decided d o'
      \<and> (case catalogued d run (og_challenge o') of
           None \<Rightarrow> False | Some r \<Rightarrow> ct_episode r \<le> og_episode o' \<and> \<not> correct_in_context d r))"

definition has_unrouted_control_failure :: "db \<Rightarrow> string \<Rightarrow> bool" where
  "has_unrouted_control_failure d run = list_ex (unrouted d run) (failure_origins d)"

definition origin_jobs :: "db \<Rightarrow> origin_row \<Rightarrow> job_row list" where
  "origin_jobs d o' = wave_jobs d (og_run o') (og_challenge o') (og_episode o')"

definition interrupted_waves :: "db \<Rightarrow> string \<Rightarrow> origin_row list" where
  "interrupted_waves d run =
     sort_key (\<lambda>o'. Min (set (map jb_admitted (origin_jobs d o'))))
       (filter (\<lambda>o'. unrouted d run o' \<and> origin_jobs d o' \<noteq> []) (failure_origins d))"

definition mark_challenge :: "string \<Rightarrow> string \<Rightarrow> int \<Rightarrow> unit tx" where
  "mark_challenge stamp status c = tx_modify (\<lambda>d. d\<lparr>challenges := where_update (\<lambda>r. ch_id r = c)
     (\<lambda>r. r\<lparr>ch_status := status, ch_updated := stamp\<rparr>) (challenges d)\<rparr>)"

text \<open>Rank, lanes and the pending submission are read by the query, before the loop.\<close>

definition resume_wave :: "digest_fn \<Rightarrow> string \<Rightarrow> string \<Rightarrow> int \<Rightarrow> origin_row \<Rightarrow> int \<Rightarrow> nat \<Rightarrow> bool \<Rightarrow> nat tx" where
  "resume_wave sha stamp run ms o' rank lanes pending d =
     (let c = og_challenge o' in
      if pending then tx_bind (mark_challenge stamp ''candidate'' c) (\<lambda>_. tx_return 0) d
      else tx_bind (decide_control_successor sha run c (og_episode o') (next_episode d run c) rank lanes ''error''
             \<lparr>bd_attempts = (1000 \<le> ms), bd_milliseconds = ms, bd_unresolved = 1, bd_parallel = 1\<rparr>) (\<lambda>dec.
           if dispatched dec then tx_return 1
           else tx_bind (mark_challenge stamp ''error'' c) (\<lambda>_. tx_return 0)) d)"

fun resume_waves ::
  "digest_fn \<Rightarrow> clock \<Rightarrow> nat \<Rightarrow> string \<Rightarrow> int \<Rightarrow> (origin_row \<times> int \<times> nat \<times> bool) list \<Rightarrow> nat tx" where
  "resume_waves sha now i run ms [] = tx_return 0"
| "resume_waves sha now i run ms ((o', rank, lanes, pending) # rows) =
     tx_bind (resume_wave sha (now i) run ms o' rank lanes pending) (\<lambda>n.
     tx_bind (resume_waves sha now (i + 1) run ms rows) (\<lambda>m. tx_return (n + m)))"

definition resume_rows :: "db \<Rightarrow> string \<Rightarrow> (origin_row \<times> int \<times> nat \<times> bool) list" where
  "resume_rows d run = map (\<lambda>o'. (o', Min (set (map jb_rank (origin_jobs d o'))), length (origin_jobs d o'),
     list_ex (unresolved_of (og_challenge o')) (intents d))) (interrupted_waves d run)"

definition resume_control_waves :: "digest_fn \<Rightarrow> clock \<Rightarrow> string \<Rightarrow> int \<Rightarrow> db \<Rightarrow> nat result \<times> db" where
  "resume_control_waves sha now run ms d =
     (if ms < 0 then (Inl (ValueError ''remaining_milliseconds is invalid''), d)
      else transaction (\<lambda>d. resume_waves sha now 0 run ms (resume_rows d run) d) d)"

definition recovery_dispatch_count :: "db \<Rightarrow> string \<Rightarrow> int \<Rightarrow> nat" where
  "recovery_dispatch_count d run c =
     (case catalogued d run c of
        None \<Rightarrow> 0
      | Some r \<Rightarrow> count_rows (\<lambda>x. dc_run x = run \<and> dc_challenge x = c \<and> ct_episode r \<le> dc_episode x
          \<and> dc_kind x = ''container'' \<and> dc_subreason x = ''process_restart'' \<and> dc_disposition x = ''dispatch'')
          (route_decisions d))"

section \<open>What a decision changes\<close>

text \<open>Deciding appends jobs, routes, decisions and log entries, and may change the status of challenges.\<close>

definition decides :: "db \<Rightarrow> db \<Rightarrow> bool" where
  "decides d d' \<longleftrightarrow> catalogue d' = catalogue d \<and> intents d' = intents d \<and> submissions d' = submissions d
     \<and> failure_origins d' = failure_origins d \<and> instances d' = instances d \<and> attempts d' = attempts d
     \<and> (\<exists>js. control_jobs d' = control_jobs d @ js) \<and> (\<exists>rs. control_routes d' = control_routes d @ rs)
     \<and> (\<exists>xs. route_decisions d' = route_decisions d @ xs)"

lemma decides_refl: "decides d d"
  by (simp add: decides_def)

lemma decides_trans: "decides a b \<Longrightarrow> decides b c \<Longrightarrow> decides a c"
  by (auto simp: decides_def)

lemma decides_admit:
  assumes "admit_wave sha run c ep rank lanes r xs unused d = Inr (u, d')"
  shows "decides d d' \<and> route_decisions d' = route_decisions d"
  using admit_wave_effect [OF assms] tx_keepsD [OF grows_admit_wave assms] by (auto simp: grows_def decides_def)

lemma record_decision_effect:
  assumes "record_decision sha run c ep s dec d = Inr (u, d')"
  shows "decides d d' \<and> control_jobs d' = control_jobs d \<and> control_routes d' = control_routes d
    \<and> \<not> list_ex (same_decision run c ep) (route_decisions d)
    \<and> (\<exists>x. route_decisions d' = route_decisions d @ [x] \<and> same_decision run c ep x \<and> dc_rule x = rule_id dec \<and> dc_kind x = kind s
         \<and> dc_disposition x = disposition_text (disposition dec)
         \<and> dc_successor x = map_option (fingerprint sha) (successor dec))"
  using assms by (auto simp: record_decision_def insert_decision_def insert_control_event_def decides_def Let_def
      same_decision_def elim!: tx_bind_InrE bind_result_InrE)

lemma decide_effect:
  assumes "decide_control_successor sha run c ep next_ep rank lanes terminal b d = Inr (res, d')"
  obtains (undecided) "res = None" "d' = d" "wave_signal d run c ep terminal = Inr None"
  | (decided) r s dec x where "res = Some dec" "source_route d run c ep = Inr r" "wave_signal d run c ep terminal = Inr (Some s)"
      "route_failure sha (wave_request d run c ep b r s) = Inr dec" "decides d d'"
      "\<not> list_ex (same_decision run c ep) (route_decisions d)" "route_decisions d' = route_decisions d @ [x]"
      "same_decision run c ep x" "dc_rule x = rule_id dec" "dc_kind x = kind s" "dc_disposition x = disposition_text (disposition dec)"
      "dc_successor x = map_option (fingerprint sha) (successor dec)"
      "if disposition dec = Dispatch
       then \<exists>next new n xs. successor dec = Some next \<and> control_jobs d' = control_jobs d @ new
         \<and> successor_lanes d run c ep lanes r (rule_id dec) next = (n, xs)
         \<and> list_all2 (lane_row run c next_ep rank (fingerprint sha next)) (enumerate 0 (wave_assignments n next xs)) new
         \<and> length (wave_assignments n next xs) = n
         \<and> \<not> (\<exists>y \<in> set (control_routes d). same_route run c (fingerprint sha next) y)
       else control_jobs d' = control_jobs d"
proof -
  from assms obtain r signal where r: "source_route d run c ep = Inr r" and s: "wave_signal d run c ep terminal = Inr signal"
    by (auto simp: decide_control_successor_def elim!: bind_result_InrE)
  show ?thesis
  proof (cases signal)
    case None
    with assms r s show ?thesis by (intro undecided) (auto simp: decide_control_successor_def)
  next
    case (Some sg)
    with assms r s obtain dec d1 u v where dec: "route_failure sha (wave_request d run c ep b r sg) = Inr dec"
      and d1: "record_decision sha run c ep sg dec d = Inr (u, d1)"
      and d': "dispatch_successor sha run c ep next_ep rank lanes r dec d1 = Inr (v, d')" and res: "res = Some dec"
      by (auto simp: decide_control_successor_def tx_return_Inr elim!: bind_result_InrE tx_bind_InrE)
    note e = record_decision_effect [OF d1]
    have eq: "successor_lanes d1 = successor_lanes d" using e by (simp add: fun_eq_iff successor_lanes_def wave_jobs_def)
    have step: "decides d1 d' \<and> route_decisions d' = route_decisions d1 \<and> (if disposition dec = Dispatch
       then \<exists>next new n xs. successor dec = Some next \<and> control_jobs d' = control_jobs d1 @ new
         \<and> successor_lanes d run c ep lanes r (rule_id dec) next = (n, xs)
         \<and> list_all2 (lane_row run c next_ep rank (fingerprint sha next)) (enumerate 0 (wave_assignments n next xs)) new
         \<and> length (wave_assignments n next xs) = n
         \<and> \<not> (\<exists>y \<in> set (control_routes d1). same_route run c (fingerprint sha next) y)
       else control_jobs d' = control_jobs d1)"
    proof (cases "disposition dec = Dispatch")
      case False
      with d' show ?thesis by (simp add: dispatch_successor_def decides_refl)
    next
      case True
      with d' obtain nx n xs where nx: "successor dec = Some nx"
        "successor_lanes d run c ep lanes r (rule_id dec) nx = (n, xs)"
        and ad: "admit_wave sha run c next_ep rank n nx xs True d1 = Inr (v, d')"
        by (auto simp: dispatch_successor_def eq split: option.split_asm prod.split_asm)
      have "length (wave_assignments n nx xs) = n"
        using ad by (auto simp: admit_wave_def Let_def tx_check_Inr ensure_def elim!: tx_bind_InrE split: if_split_asm)
      with nx True decides_admit [OF ad] admit_wave_effect [OF ad] show ?thesis by auto
    qed
    from e obtain x where x: "route_decisions d1 = route_decisions d @ [x]" "same_decision run c ep x"
      "dc_rule x = rule_id dec" "dc_kind x = kind sg" "dc_disposition x = disposition_text (disposition dec)"
      "dc_successor x = map_option (fingerprint sha) (successor dec)" by blast
    have same: "control_jobs d1 = control_jobs d" "control_routes d1 = control_routes d" and
      first: "\<not> list_ex (same_decision run c ep) (route_decisions d)" using e by blast+
    have dd: "decides d d'" using e step decides_trans by blast
    have rd: "route_decisions d' = route_decisions d @ [x]" using step x(1) by simp
    show ?thesis
      by (rule decided [OF res r s [unfolded Some] dec dd first rd x(2-6)
            conjunct2 [OF conjunct2 [OF step], unfolded same]])
  qed
qed

lemma finish_wave_routes:
  assumes "finish_wave run c ep terminal d = Inr (u, d')"
  shows "control_routes d' = control_routes d"
proof -
  define R where "R d d' \<longleftrightarrow> control_routes d' = control_routes d" for d d' :: db
  have R: "reflp R" "transp R" by (auto simp: R_def reflp_def transp_def)
  have "tx_keeps R (close_job run c ep terminal j)" for j
    by (rule tx_keepsI) (auto simp: R_def close_job_def Let_def set_job_def tx_modify_Inr
        elim!: tx_bind_InrE dest!: control_event_tables)
  then have "tx_keeps R (tx_each (close_job run c ep terminal) rows)" for rows by (rule tx_keeps_each [OF R])
  from tx_keepsD [OF this] assms show ?thesis by (auto simp: finish_wave_def Let_def R_def split: if_split_asm)
qed

lemma source_route_kept:
  assumes "control_jobs d' = map g (control_jobs d)" "\<And>k. same_job (g k) k" "control_routes d' = control_routes d"
  shows "source_route d' run c ep = source_route d run c ep"
proof -
  have g: "in_wave run c ep (g k) = in_wave run c ep k" "route_of_job d' (g k) = route_of_job d k" for k
    using assms(2) [of k] by (simp_all add: in_wave_def route_of_job_def same_job_def assms(3))
  show ?thesis
    by (simp add: source_route_def wave_jobs_def assms(1) filter_map comp_def g)
qed

section \<open>A dispatched successor\<close>

text \<open>The lanes of a wave in order, and how closing a wave leaves them.\<close>

definition wave_lanes :: "db \<Rightarrow> string \<Rightarrow> int \<Rightarrow> int \<Rightarrow> assignment list" where
  "wave_lanes d run c ep = map (\<lambda>j. (jb_agent_role j, jb_model j, jb_effort j)) (sort_key jb_lane (wave_jobs d run c ep))"

lemma wave_lanes_kept:
  assumes "control_jobs d1 = map g (control_jobs d)" "\<And>k. same_job (g k) k"
  shows "wave_lanes d1 run c ep = wave_lanes d run c ep"
proof -
  have same: "in_wave run c ep (g k) = in_wave run c ep k" "jb_lane (g k) = jb_lane k"
    "(jb_agent_role (g k), jb_model (g k), jb_effort (g k)) = (jb_agent_role k, jb_model k, jb_effort k)" for k
    using assms(2) [of k] by (simp_all add: same_job_def in_wave_def)
  have "wave_jobs d1 run c ep = map g (wave_jobs d run c ep)"
    by (simp add: wave_jobs_def assms(1) filter_map comp_def same(1))
  moreover have "sort_key jb_lane (map g xs) = map g (sort_key jb_lane xs)" for xs
  proof -
    have "insort_key jb_lane (g x) (map g ys) = map g (insort_key jb_lane x ys)" for x ys
      by (induction ys) (simp_all add: same(2))
    then show ?thesis by (induction xs) simp_all
  qed
  ultimately show ?thesis by (simp add: wave_lanes_def comp_def same(3))
qed

lemma find_member: "find P xs = Some x \<Longrightarrow> x \<in> set xs"
  by (induction xs) (auto split: if_split_asm)

lemma successor_lanes_planned:
  assumes "successor_lanes d run c ep lanes r rule s = (n, xs)" "rows = wave_lanes d run c ep"
  shows "(role s = ''verifier'' \<longrightarrow> n = 1 \<and> xs = None)
    \<and> (role s = ''recovery'' \<longrightarrow> (\<exists>ys. xs = Some ys \<and> n = length ys \<and> length ys = length rows \<and> (\<forall>(agent, m, e) \<in> set ys. agent = ''recovery''
          \<and> (\<exists>a. (a, m, e) \<in> set rows))
        \<and> (rule \<noteq> ''typed_timeout_recovery_v1'' \<or> length rows \<noteq> 4 \<longrightarrow> ys = map (\<lambda>(_, m, e). (''recovery'', m, e)) rows)))
    \<and> (role s \<notin> {''verifier'', ''recovery''} \<longrightarrow> n = lanes \<and> xs = Some rows)"
proof (cases "role s = ''recovery''")
  case True
  define peers where "peers = (if rule = ''typed_timeout_recovery_v1'' \<and> length rows = 4 then peer_assignments r rows else None)"
  define ys where "ys = (case peers of Some ys \<Rightarrow> ys | None \<Rightarrow> map (\<lambda>(_, m, e). (''recovery'', m, e)) rows)"
  have "successor_lanes d run c ep lanes r rule s = (length ys, Some ys)"
    unfolding successor_lanes_def Let_def True ys_def peers_def assms(2) wave_lanes_def by simp
  then have nx: "n = length ys" "xs = Some ys" using assms(1) by simp_all
  have "length ys = length rows \<and> (\<forall>(agent, m, e) \<in> set ys. agent = ''recovery'' \<and> (\<exists>a. (a, m, e) \<in> set rows))
      \<and> (rule \<noteq> ''typed_timeout_recovery_v1'' \<or> length rows \<noteq> 4 \<longrightarrow> ys = map (\<lambda>(_, m, e). (''recovery'', m, e)) rows)"
  proof (cases peers)
    case None
    then show ?thesis by (auto simp: ys_def)
  next
    case (Some zs)
    then have four: "length rows = 4" "rule = ''typed_timeout_recovery_v1''" and zs: "peer_assignments r rows = Some zs"
      by (auto simp: peers_def split: if_splits)
    from zs obtain a m e a' m' e' where "(a, m, e) \<in> set rows" "(a', m', e') \<in> set rows"
      "zs = replicate 3 (''recovery'', m, e) @ [(''recovery'', m', e')]"
      by (auto simp: peer_assignments_def split: option.split_asm prod.split_asm dest!: find_member)
    with four show ?thesis by (auto simp: ys_def Some)
  qed
  with nx True show ?thesis by auto
next
  case False
  with assms show ?thesis by (auto simp: successor_lanes_def Let_def wave_lanes_def split: if_splits)
qed

lemma lane_rows_planned:
  assumes "list_all2 (lane_row run c ep rank fp) (enumerate k ys) new"
  shows "list_all (\<lambda>j. in_wave run c ep j \<and> jb_rank j = rank \<and> jb_fingerprint j = fp \<and> jb_state j = ''queued'') new
    \<and> map jb_lane new = map int [k..<k + length new] \<and> map (\<lambda>j. (jb_agent_role j, jb_model j, jb_effort j)) new = ys"
  using assms
proof (induction ys arbitrary: k new)
  case (Cons y ys)
  then obtain j js where "new = j # js" "lane_row run c ep rank fp (k, y) j"
    "list_all2 (lane_row run c ep rank fp) (enumerate (Suc k) ys) js" by (auto simp: list_all2_Cons1)
  moreover have "[k..<k + length (j # js)] = k # [Suc k..<Suc k + length js]" by (simp add: upt_conv_Cons del: upt_Suc)
  moreover have "list_all (\<lambda>j. in_wave run c ep j \<and> jb_rank j = rank \<and> jb_fingerprint j = fp \<and> jb_state j = ''queued'') js
      \<and> map jb_lane js = map int [Suc k..<Suc k + length js] \<and> map (\<lambda>j. (jb_agent_role j, jb_model j, jb_effort j)) js = ys"
    by (rule Cons.IH) fact
  ultimately show ?case by (simp add: lane_row_def del: upt_Suc)
qed simp


section \<open>Resuming routes every wave once\<close>

lemma restart_classified: "first_group FAILURE_GROUPS {''process_restart''} \<noteq> None"
  by (simp add: FAILURE_GROUPS_def failure_vocabulary)

lemma error_signal:
  assumes "wave_signal d run c ep ''error'' = Inr sg" "first_row (same_origin run c ep) (failure_origins d) \<noteq> None"
  shows "sg \<noteq> None"
proof -
  obtain x where x: "first_row (same_origin run c ep) (failure_origins d) = Some x" using assms(2) by blast
  show ?thesis
  proof (cases "og_reason x = ''process_restart''")
    case True
    obtain k m where "first_group FAILURE_GROUPS {''process_restart''} = Some (k, m)" using restart_classified by auto
    with assms(1) x True show ?thesis
      by (auto simp: wave_signal_def Let_def classify_failure_def split: if_split_asm elim!: bind_result_InrE)
  next
    case False
    with assms(1) x show ?thesis
      by (auto simp: wave_signal_def Let_def classify_failure_def split: if_split_asm elim!: bind_result_InrE)
  qed
qed

definition is_dispatch :: "decision_row \<Rightarrow> bool" where
  "is_dispatch x \<longleftrightarrow> dc_disposition x = ''dispatch''"

lemma disposition_text_dispatch [simp]: "disposition_text x = ''dispatch'' \<longleftrightarrow> x = Dispatch"
  by (cases x) (simp_all add: disposition_text_def)

lemma decides_mark: "mark_challenge stamp status c d = Inr (u, d') \<Longrightarrow>
    decides d d' \<and> route_decisions d' = route_decisions d \<and> control_jobs d' = control_jobs d"
  by (auto simp: mark_challenge_def tx_modify_Inr decides_def)

text \<open>The row of a challenge as a resumption with an unsettled submission rewrites it.\<close>

definition kept_candidate :: "int set \<Rightarrow> challenge_row \<Rightarrow> challenge_row \<Rightarrow> bool" where
  "kept_candidate cs r r' \<longleftrightarrow> r' = r \<or> ch_id r \<in> cs \<and> (\<exists>t. r' = r\<lparr>ch_status := ''candidate'', ch_updated := t\<rparr>)"

lemma resume_wave_pending:
  "resume_wave sha stamp run ms o' rank lanes True d = Inr (0, d\<lparr>challenges := where_update (\<lambda>r. ch_id r = og_challenge o')
     (\<lambda>r. r\<lparr>ch_status := ''candidate'', ch_updated := stamp\<rparr>) (challenges d)\<rparr>)"
  by (simp add: resume_wave_def mark_challenge_def run_tx)

lemma resume_wave_decides:
  assumes "resume_wave sha stamp run ms o' rank lanes False d = Inr (n, d')"
    "first_row (same_origin run (og_challenge o') (og_episode o')) (failure_origins d) \<noteq> None"
  shows "decides d d' \<and> (\<exists>x. route_decisions d' = route_decisions d @ [x]
    \<and> same_decision run (og_challenge o') (og_episode o') x \<and> n = (if is_dispatch x then 1 else 0))"
proof -
  let ?c = "og_challenge o'" and ?ep = "og_episode o'"
  obtain dec d1 where d1: "decide_control_successor sha run ?c ?ep (next_episode d run ?c) rank lanes ''error''
      \<lparr>bd_attempts = (1000 \<le> ms), bd_milliseconds = ms, bd_unresolved = 1, bd_parallel = 1\<rparr> d = Inr (dec, d1)"
    and tl: "(if dispatched dec then tx_return 1 else tx_bind (mark_challenge stamp ''error'' ?c) (\<lambda>_. tx_return 0)) d1 = Inr (n, d')"
    using assms(1) by (auto simp: resume_wave_def Let_def elim!: tx_bind_InrE)
  have tail: "decides d1 d' \<and> route_decisions d' = route_decisions d1 \<and> n = (if dispatched dec then 1 else 0)"
    using tl by (auto simp: tx_return_Inr decides_refl elim!: tx_bind_InrE dest!: decides_mark split: if_split_asm)
  from d1 show ?thesis
  proof (cases rule: decide_effect)
    case undecided
    with error_signal [OF undecided(3) assms(2)] show ?thesis by simp
  next
    case (decided r s dec' x)
    have "decides d d'" using decided(5) tail decides_trans by blast
    with decided(1,7,8,11) tail show ?thesis
      by (intro conjI exI [of _ x]) (simp_all add: dispatched_def is_dispatch_def)
  qed
qed

definition routes_wave :: "string \<Rightarrow> origin_row \<times> int \<times> nat \<times> bool \<Rightarrow> decision_row \<Rightarrow> bool" where
  "routes_wave run row x \<longleftrightarrow> same_decision run (og_challenge (fst row)) (og_episode (fst row)) x"

definition row_pending :: "origin_row \<times> int \<times> nat \<times> bool \<Rightarrow> bool" where
  "row_pending row \<longleftrightarrow> snd (snd (snd row))"

lemma resume_waves_effect:
  assumes "resume_waves sha now i run ms rows d = Inr (n, d')"
    "\<forall>row \<in> set rows. first_row (same_origin run (og_challenge (fst row)) (og_episode (fst row))) (failure_origins d) \<noteq> None"
  shows "decides d d' \<and> (\<exists>xs. route_decisions d' = route_decisions d @ xs \<and> n = count_rows is_dispatch xs
    \<and> list_all2 (routes_wave run) (filter (\<lambda>row. \<not> row_pending row) rows) xs)"
  using assms
proof (induction rows arbitrary: i d n)
  case Nil
  then show ?case by (simp add: tx_return_Inr decides_refl)
next
  case (Cons row rows)
  obtain o' rank lanes pending where row: "row = (o', rank, lanes, pending)" by (metis prod_cases4)
  from Cons.prems(1) obtain n1 d1 n2 where n1: "resume_wave sha (now i) run ms o' rank lanes pending d = Inr (n1, d1)"
    and n2: "resume_waves sha now (i + 1) run ms rows d1 = Inr (n2, d')" and n: "n = n1 + n2"
    by (auto simp: row tx_return_Inr elim!: tx_bind_InrE)
  have "decides d d1 \<and> (\<exists>ys. route_decisions d1 = route_decisions d @ ys \<and> n1 = count_rows is_dispatch ys
      \<and> list_all2 (routes_wave run) (filter (\<lambda>row. \<not> row_pending row) [row]) ys)"
  proof (cases pending)
    case True
    with n1 have "n1 = 0" "decides d d1" "route_decisions d1 = route_decisions d"
      by (auto simp: resume_wave_pending decides_def)
    with True show ?thesis by (intro conjI exI [of _ "[]"]) (simp_all add: row row_pending_def)
  next
    case False
    then have "resume_wave sha (now i) run ms o' rank lanes False d = Inr (n1, d1)" using n1 by simp
    from resume_wave_decides [OF this] Cons.prems(2) False show ?thesis
      by (auto simp: row row_pending_def routes_wave_def)
  qed
  then obtain ys where ys: "decides d d1" "route_decisions d1 = route_decisions d @ ys" "n1 = count_rows is_dispatch ys"
    "list_all2 (routes_wave run) (filter (\<lambda>row. \<not> row_pending row) [row]) ys" by blast
  then have "failure_origins d1 = failure_origins d" by (simp add: decides_def)
  with Cons.IH [OF n2] Cons.prems(2) obtain zs where zs: "decides d1 d'" "route_decisions d' = route_decisions d1 @ zs"
    "n2 = count_rows is_dispatch zs" "list_all2 (routes_wave run) (filter (\<lambda>row. \<not> row_pending row) rows) zs" by auto
  have "list_all2 (routes_wave run) (filter (\<lambda>row. \<not> row_pending row) [row] @ filter (\<lambda>row. \<not> row_pending row) rows) (ys @ zs)"
    using ys(4) zs(4) by (rule list_all2_appendI)
  then have "list_all2 (routes_wave run) (filter (\<lambda>row. \<not> row_pending row) (row # rows)) (ys @ zs)"
    by (cases "row_pending row") simp_all
  then show ?case using ys zs n decides_trans by (intro conjI exI [of _ "ys @ zs"]) auto
qed

lemma kept_candidates_trans:
  assumes "list_all2 (kept_candidate cs) xs ys" "list_all2 (kept_candidate cs) ys zs"
  shows "list_all2 (kept_candidate cs) xs zs"
proof (rule list_all2_trans [OF _ assms])
  fix a b c assume "kept_candidate cs a b" "kept_candidate cs b c"
  then show "kept_candidate cs a c" by (auto simp: kept_candidate_def)
qed

lemma resume_waves_pending:
  assumes "\<forall>row \<in> set rows. row_pending row \<and> og_challenge (fst row) \<in> cs"
  shows "\<exists>xs. resume_waves sha now i run ms rows d = Inr (0, d\<lparr>challenges := xs\<rparr>) \<and> list_all2 (kept_candidate cs) (challenges d) xs"
  using assms
proof (induction rows arbitrary: i d)
  case Nil
  then show ?case by (intro exI [of _ "challenges d"]) (simp add: tx_return_def kept_candidate_def list_all2_refl)
next
  case (Cons row rows)
  obtain o' rank lanes where row: "row = (o', rank, lanes, True)"
    using Cons.prems by (cases row) (auto simp: row_pending_def)
  define ys where "ys = where_update (\<lambda>r. ch_id r = og_challenge o')
     (\<lambda>r. r\<lparr>ch_status := ''candidate'', ch_updated := now i\<rparr>) (challenges d)"
  have "og_challenge o' \<in> cs" using Cons.prems by (simp add: row)
  then have ys: "list_all2 (kept_candidate cs) (challenges d) ys"
    by (auto simp: ys_def where_update_def list_all2_map2 kept_candidate_def intro!: list_all2_refl)
  obtain xs where xs: "resume_waves sha now (i + 1) run ms rows (d\<lparr>challenges := ys\<rparr>) = Inr (0, d\<lparr>challenges := xs\<rparr>)"
    "list_all2 (kept_candidate cs) ys xs"
    using Cons.IH [of "i + 1" "d\<lparr>challenges := ys\<rparr>"] Cons.prems by auto
  have "resume_wave sha (now i) run ms o' rank lanes True d = Inr (0, d\<lparr>challenges := ys\<rparr>)"
    by (simp add: resume_wave_pending ys_def)
  with xs(1) kept_candidates_trans [OF ys xs(2)] show ?case
    by (intro exI [of _ xs]) (simp add: row tx_bind_def tx_return_def bind_result_def)
qed

lemma interrupted_origin:
  assumes "o' \<in> set (interrupted_waves d run)"
  shows "unrouted d run o' \<and> o' \<in> set (failure_origins d) \<and> og_run o' = run"
  using assms by (simp add: interrupted_waves_def unrouted_def)

lemma unrouted_before:
  assumes "decides d d'" "unrouted d' run o'"
  shows "unrouted d run o'"
proof -
  obtain xs where xs: "route_decisions d' = route_decisions d @ xs" using assms(1) by (auto simp: decides_def)
  have "\<not> decided d o'" using assms(2) by (auto simp: unrouted_def decided_def xs)
  moreover have "catalogued d' = catalogued d" "correct_in_context d' = correct_in_context d"
    using assms(1) by (simp_all add: fun_eq_iff catalogued_def correct_in_context_def decides_def)
  ultimately show ?thesis using assms(2)
    by (cases "catalogued d run (og_challenge o')") (simp_all add: unrouted_def)
qed

lemma resumed_rows_pending:
  assumes "decides d d'" "route_decisions d' = route_decisions d @ xs"
    "list_all2 (routes_wave run) (filter (\<lambda>row. \<not> row_pending row) (resume_rows d run)) xs"
    "\<forall>o' \<in> set (failure_origins d). origin_jobs d o' \<noteq> []"
  shows "\<forall>row \<in> set (resume_rows d' run). row_pending row \<and> list_ex (unresolved_of (og_challenge (fst row))) (intents d')"
proof
  fix row assume "row \<in> set (resume_rows d' run)"
  then obtain o' where o': "o' \<in> set (interrupted_waves d' run)" and row: "fst row = o'"
    "row_pending row = list_ex (unresolved_of (og_challenge o')) (intents d')"
    by (auto simp: resume_rows_def row_pending_def)
  note now = interrupted_origin [OF o'(1)]
  have old: "unrouted d run o'" using unrouted_before [OF assms(1)] now by blast
  have "o' \<in> set (failure_origins d)" using now assms(1) by (simp add: decides_def)
  with old assms(4) have "o' \<in> set (interrupted_waves d run)" by (simp add: interrupted_waves_def)
  define row0 where "row0 = (o', Min (set (map jb_rank (origin_jobs d o'))), length (origin_jobs d o'),
     list_ex (unresolved_of (og_challenge o')) (intents d))"
  have row0: "row0 \<in> set (resume_rows d run)" "fst row0 = o'"
    "row_pending row0 = list_ex (unresolved_of (og_challenge o')) (intents d)"
    using \<open>o' \<in> set (interrupted_waves d run)\<close> by (simp_all add: resume_rows_def row_pending_def row0_def image_iff)
  have "row_pending row0"
  proof (rule ccontr)
    assume "\<not> row_pending row0"
    then have "row0 \<in> set (filter (\<lambda>row. \<not> row_pending row) (resume_rows d run))" using row0(1) by simp
    from all2_left [OF assms(3) this] obtain x where "x \<in> set xs" "routes_wave run row0 x" by blast
    then have "decided d' o'" using now row0(2) by (auto simp: decided_def assms(2) routes_wave_def list_ex_iff)
    with now show False by (simp add: unrouted_def)
  qed
  then show "row_pending row \<and> list_ex (unresolved_of (og_challenge (fst row))) (intents d')"
    using row row0(3) assms(1) by (simp add: decides_def)
qed

text \<open>C18. Where every failure origin of the store has jobs, resuming records one decision for every wave a
  failure left without one, except those of a challenge with an unsettled submission, and returns how many
  were dispatched. Resuming again, whenever and with whatever time is left, succeeds, dispatches nothing and
  leaves every table but \<open>challenges\<close> as it was; there only the rows of challenges with an unsettled
  submission are touched, which are stamped and marked as candidates once more.\<close>

theorem resume_routes_once:
  assumes "resume_control_waves sha now run ms d = (Inr n, d')" "0 \<le> ms'"
    "\<forall>o' \<in> set (failure_origins d). origin_jobs d o' \<noteq> []"
  shows "(\<exists>xs. route_decisions d' = route_decisions d @ xs \<and> n = count_rows (\<lambda>x. dc_disposition x = ''dispatch'') xs
      \<and> list_all2 (\<lambda>o' x. same_decision run (og_challenge o') (og_episode o') x)
          (filter (\<lambda>o'. \<not> list_ex (unresolved_of (og_challenge o')) (intents d)) (interrupted_waves d run)) xs)
    \<and> (\<exists>cs. resume_control_waves sha now' run ms' d' = (Inr 0, d'\<lparr>challenges := cs\<rparr>)
         \<and> list_all2 (\<lambda>r r'. r' = r \<or> list_ex (unresolved_of (ch_id r)) (intents d')
              \<and> (\<exists>t. r' = r\<lparr>ch_status := ''candidate'', ch_updated := t\<rparr>)) (challenges d') cs)"
proof -
  from assms(1) have body: "resume_waves sha now 0 run ms (resume_rows d run) d = Inr (n, d')"
    by (auto simp: resume_control_waves_def transaction_def split: if_split_asm sum.split_asm)
  have "first_row (same_origin run (og_challenge (fst row)) (og_episode (fst row))) (failure_origins d) \<noteq> None"
    if "row \<in> set (resume_rows d run)" for row
  proof -
    from that obtain o' where "o' \<in> set (interrupted_waves d run)" "fst row = o'" by (auto simp: resume_rows_def)
    with interrupted_origin [of o' d run] show ?thesis by (auto simp: first_row_None same_origin_def)
  qed
  then have "\<forall>row \<in> set (resume_rows d run).
      first_row (same_origin run (og_challenge (fst row)) (og_episode (fst row))) (failure_origins d) \<noteq> None" by blast
  from resume_waves_effect [OF body this] obtain xs where d: "decides d d'"
    and xs: "route_decisions d' = route_decisions d @ xs" "n = count_rows is_dispatch xs"
    "list_all2 (routes_wave run) (filter (\<lambda>row. \<not> row_pending row) (resume_rows d run)) xs" by blast
  have "filter (\<lambda>row. \<not> row_pending row) (resume_rows d run) = map (\<lambda>o'. (o', Min (set (map jb_rank (origin_jobs d o'))),
      length (origin_jobs d o'), list_ex (unresolved_of (og_challenge o')) (intents d)))
      (filter (\<lambda>o'. \<not> list_ex (unresolved_of (og_challenge o')) (intents d)) (interrupted_waves d run))"
    by (simp add: resume_rows_def filter_map comp_def row_pending_def)
  with xs(3) have "list_all2 (\<lambda>o' x. same_decision run (og_challenge o') (og_episode o') x)
      (filter (\<lambda>o'. \<not> list_ex (unresolved_of (og_challenge o')) (intents d)) (interrupted_waves d run)) xs"
    by (simp add: list_all2_map1 routes_wave_def)
  moreover have "n = count_rows (\<lambda>x. dc_disposition x = ''dispatch'') xs"
  proof -
    have "is_dispatch = (\<lambda>x. dc_disposition x = ''dispatch'')" by (simp add: fun_eq_iff is_dispatch_def)
    with xs(2) show ?thesis by simp
  qed
  moreover have "\<exists>cs. resume_control_waves sha now' run ms' d' = (Inr 0, d'\<lparr>challenges := cs\<rparr>)
      \<and> list_all2 (\<lambda>r r'. r' = r \<or> list_ex (unresolved_of (ch_id r)) (intents d')
           \<and> (\<exists>t. r' = r\<lparr>ch_status := ''candidate'', ch_updated := t\<rparr>)) (challenges d') cs"
  proof -
    have "\<forall>row \<in> set (resume_rows d' run). row_pending row
        \<and> og_challenge (fst row) \<in> {c. list_ex (unresolved_of c) (intents d')}"
      using resumed_rows_pending [OF d xs(1,3) assms(3)] by simp
    from resume_waves_pending [OF this, of sha now' 0 run ms' d'] obtain cs where
      cs: "resume_waves sha now' 0 run ms' (resume_rows d' run) d' = Inr (0, d'\<lparr>challenges := cs\<rparr>)"
      "list_all2 (kept_candidate {c. list_ex (unresolved_of c) (intents d')}) (challenges d') cs" by blast
    have "resume_control_waves sha now' run ms' d' = (Inr 0, d'\<lparr>challenges := cs\<rparr>)"
      using cs(1) assms(2) by (simp add: resume_control_waves_def transaction_def)
    moreover have "list_all2 (\<lambda>r r'. r' = r \<or> list_ex (unresolved_of (ch_id r)) (intents d')
           \<and> (\<exists>t. r' = r\<lparr>ch_status := ''candidate'', ch_updated := t\<rparr>)) (challenges d') cs"
      by (rule list_all2_mono [OF cs(2)]) (simp add: kept_candidate_def)
    ultimately show ?thesis by blast
  qed
  ultimately show ?thesis using xs(1) by blast
qed

section \<open>A stalled wave and an interrupted one\<close>

definition sample_stalled :: "string \<Rightarrow> db" where
  "sample_stalled s = sample_queue\<lparr>control_jobs := control_jobs (sample_wave s),
     attempts := [sample_attempt\<lparr>at_status := ''unsolved''\<rparr>]\<rparr>"

definition sample_budget :: decision_budget where
  "sample_budget = \<lparr>bd_attempts = True, bd_milliseconds = 7200000, bd_unresolved = 1, bd_parallel = 1\<rparr>"

lemma sample_source:
  "source_route (sample_stalled s) ''r'' 7 0 = Inr sample_route"
proof -
  have "route_from_dict (route_as_dict sample_route) = Inr sample_route" by (rule route_doc.dec_enc) simp
  then show ?thesis
    by (simp add: source_route_def wave_jobs_def sample_stalled_def sample_queue_def sample_wave_def sample_job_def
        in_wave_def route_of_job_def first_row_def same_route_def)
qed

lemma sample_decide:
  assumes "wave_signal d ''r'' 7 0 terminal = Inr (Some sg)" "source_route d ''r'' 7 0 = Inr sample_route"
    "route_failure id (wave_request d ''r'' 7 0 b sample_route sg) = Inr dec" "disposition dec = Dispatch"
    "successor dec = Some nx" "role nx = ''recovery''" "rule_id dec \<noteq> ''typed_timeout_recovery_v1''"
    "has_run d ''r''" "has_challenge d 7" "route_decisions d = []" "j = control_jobs d ! 0" "control_jobs d = [j]"
    "in_wave ''r'' 7 0 j" "jb_model j = ''m''" "jb_effort j = ''high''" "jb_id j = job_id ''r'' 7 0 x 0"
    "\<forall>y \<in> set (control_routes d). rt_fingerprint y \<noteq> fingerprint id nx"
  shows "\<exists>d'. decide_control_successor id ''r'' 7 0 1 0 1 terminal b d = Inr (Some dec, d')"
proof -
  have ids: "job_id ''r'' 7 1 y i \<noteq> job_id ''r'' 7 0 z k" for y z i k
    by (simp add: job_id_def show_int_def sample_digits)
  have routes: "\<not> (\<exists>y \<in> set (control_routes d). same_route ''r'' 7 (fingerprint id nx) y)"
    using assms(17) by (auto simp: same_route_def)
  have "\<exists>d1. record_decision id ''r'' 7 0 sg dec d = Inr ((), d1) \<and> control_jobs d1 = control_jobs d
      \<and> control_routes d1 = control_routes d \<and> has_run d1 ''r'' \<and> has_challenge d1 7"
    using assms(8-10) by (simp add: record_decision_def insert_decision_def insert_control_event_def run_tx Let_def
        has_run_def has_challenge_def)
  then obtain d1 where d1: "record_decision id ''r'' 7 0 sg dec d = Inr ((), d1)" "control_jobs d1 = control_jobs d"
    "control_routes d1 = control_routes d" "has_run d1 ''r''" "has_challenge d1 7" by blast
  have lanes: "successor_lanes d1 ''r'' 7 0 1 sample_route (rule_id dec) nx = (1, Some [(''recovery'', ''m'', ''high'')])"
    using assms(6,7,12-15) by (simp add: successor_lanes_def wave_jobs_def d1)
  have "\<exists>d2. admit_wave id ''r'' 7 1 0 1 nx (Some [(''recovery'', ''m'', ''high'')]) True d1 = Inr ((), d2)"
    using d1(4,5) routes ids assms(12,13,16)
    by (simp add: admit_wave_def wave_assignments_def assignment_ok_def AGENT_ROLES_def insert_route_def d1(2,3)
        admit_lane_def insert_control_event_def insert_job_def run_tx Let_def has_run_def has_challenge_def
        enumerate_eq_zip in_wave_def same_route_def)
  then show ?thesis using assms(1-5) d1(1) lanes
    by (auto simp: decide_control_successor_def dispatch_successor_def run_tx)
qed

definition sample_ready :: "failure_signal \<Rightarrow> route_request" where
  "sample_ready sg = \<lparr>failure = sg, current = sample_route, used_fingerprints = {fingerprint id sample_route},
     attempts_remaining = True, remaining_milliseconds = 7200000, effects_safe = True, instances_safe = True,
     durable_observation_count = 0, timeout_recovery_used = False, unresolved_challenge_count = 1,
     parallel_challenge_count = 1\<rparr>"

definition sample_next :: "string \<Rightarrow> route_spec" where
  "sample_next t = sample_route\<lparr>role := ''recovery'', route_tactic := t, context_profile := ''durable_facts_only'',
     workspace_generation := 1\<rparr>"

lemma sample_next_fresh: "fingerprint id (sample_next t) \<noteq> fingerprint id sample_route"
  by (auto simp: fingerprint_def sample_next_def sample_route_def dest: route_json_inject)

lemma sample_ready_dispatch:
  assumes "propose_route (sample_ready sg) = Inr (Proposed rule (sample_next t))"
  shows "\<exists>dec. route_failure id (sample_ready sg) = Inr dec \<and> disposition dec = Dispatch
    \<and> successor dec = Some (sample_next t) \<and> rule_id dec = rule"
proof (rule dispatch_intro)
  show "propose_route (sample_ready sg) = Inr (Proposed rule (sample_next t))" by (rule assms)
  show "current (sample_ready sg) \<noteq> sample_next t" by (simp add: sample_ready_def sample_next_def sample_route_def)
  show "fingerprint id (sample_next t) \<notin> insert (fingerprint id (current (sample_ready sg))) (used_fingerprints (sample_ready sg))"
    using sample_next_fresh by (simp add: sample_ready_def)
qed (simp_all add: sample_ready_def request_check_def)

lemma sample_proposals:
  "propose_route (sample_ready \<lparr>kind = ''tool'', subreason = ''stalled_without_candidate''\<rparr>)
     = Inr (Proposed ''typed_peer_recovery_v1'' (sample_next ''typed_peer_recovery''))"
  "propose_route (sample_ready \<lparr>kind = ''container'', subreason = ''process_restart''\<rparr>)
     = Inr (Proposed ''container_fresh_workspace_v1'' (sample_next ''fresh_workspace_recovery''))"
proof -
  have "route_valid (sample_next ''typed_peer_recovery'')" "route_valid (sample_next ''fresh_workspace_recovery'')"
    by (simp_all add: sample_next_def sample_route_def route_valid_def bounded_text_def ROLES_def)
  then show "propose_route (sample_ready \<lparr>kind = ''tool'', subreason = ''stalled_without_candidate''\<rparr>)
      = Inr (Proposed ''typed_peer_recovery_v1'' (sample_next ''typed_peer_recovery''))"
    "propose_route (sample_ready \<lparr>kind = ''container'', subreason = ''process_restart''\<rparr>)
      = Inr (Proposed ''container_fresh_workspace_v1'' (sample_next ''fresh_workspace_recovery''))"
    by (simp_all add: propose_route_def propose_tool_def propose_container_def Let_def sample_ready_def sample_next_def
        UNSAFE_NATIVE_FAILURES_def) (simp_all add: sample_route_def)
qed

lemma sample_signal:
  assumes "attempts d = [sample_attempt\<lparr>at_status := ''unsolved''\<rparr>]" "failure_origins d = []" "proposals d = []"
  shows "wave_signal d ''r'' 7 0 ''unsolved'' = Inr (Some \<lparr>kind = ''tool'', subreason = ''stalled_without_candidate''\<rparr>)"
proof -
  have none: "first_group FAILURE_GROUPS {} = None" by (simp add: FAILURE_GROUPS_def)
  have "candidate_identity_count d ''r'' 7 = 0" "\<not> current_wave_wrong d ''r'' 7 0"
    using assms(3) by (auto simp: candidate_identity_count_def current_wave_wrong_def split: option.split)
  then show ?thesis using assms(1,2) none
    by (simp add: wave_signal_def wave_attempts_def sample_attempt_def first_row_def classify_failure_def
        bind_result_def construct_signal_def FAILURE_KINDS_def bounded_text_def)
qed

lemma sample_request:
  assumes "intents d = []" "instances d = []" "control_routes d = control_routes sample_queue" "kind sg \<noteq> ''timeout''"
  shows "wave_request d ''r'' 7 0 sample_budget sample_route sg = sample_ready sg"
proof -
  have "{x. x = row \<and> P x} = {row}" if "P row" for row and P :: "route_row \<Rightarrow> bool" using that by blast
  then show ?thesis using assms
    by (simp add: wave_request_def sample_ready_def sample_budget_def sample_queue_def count_rows_def)
qed

lemma sample_closed:
  "\<exists>d. finish_wave ''r'' 7 0 ''unsolved'' (sample_stalled ''running'') = Inr ((), d) \<and> proposals d = []
     \<and> (\<exists>st cl. control_jobs d = [(hd (control_jobs (sample_stalled ''running'')))\<lparr>jb_state := st, jb_closed := cl\<rparr>])"
  by (simp add: finish_wave_def open_jobs_def close_job_def sample_stalled_def sample_queue_def sample_wave_def
      sample_plane_defs in_wave_def open_state_def set_job_def insert_control_event_def run_tx Let_def has_run_def
      where_update_def)

lemma sample_dispatch:
  "\<exists>dec d. finish_and_decide_control_wave id ''r'' 7 0 1 0 1 ''unsolved'' sample_budget None (sample_stalled ''running'')
     = (Inr (Some dec), d) \<and> disposition dec = Dispatch"
proof -
  let ?s = "\<lparr>kind = ''tool'', subreason = ''stalled_without_candidate''\<rparr>"
  obtain j where j: "control_jobs (sample_stalled ''running'') = [j]" "in_wave ''r'' 7 0 j" "jb_model j = ''m''"
    "jb_effort j = ''high''" "jb_id j = job_id ''r'' 7 0 (role sample_route) 0"
    by (simp add: sample_stalled_def sample_wave_def sample_job_def in_wave_def)
  obtain d st cl where d: "finish_wave ''r'' 7 0 ''unsolved'' (sample_stalled ''running'') = Inr ((), d)" "proposals d = []"
    "control_jobs d = [j\<lparr>jb_state := st, jb_closed := cl\<rparr>]" using sample_closed j(1) by auto
  have routes: "control_routes d = control_routes sample_queue"
    using finish_wave_routes [OF d(1)] by (simp add: sample_stalled_def)
  have keep: "attempts d = [sample_attempt\<lparr>at_status := ''unsolved''\<rparr>]" "failure_origins d = []" "intents d = []"
    "instances d = []" "route_decisions d = []" "has_run d ''r''" "has_challenge d 7"
    using tx_keepsD [OF grows_finish_wave d(1)]
    by (simp_all add: grows_def sample_stalled_def sample_queue_def sample_wave_def sample_plane_defs has_run_def has_challenge_def)
  have "source_route d ''r'' 7 0 = source_route (sample_stalled ''running'') ''r'' 7 0"
    by (rule source_route_kept [where g = "\<lambda>k. k\<lparr>jb_state := st, jb_closed := cl\<rparr>"])
      (simp_all add: d(3) j(1) same_job_def routes, simp add: sample_stalled_def)
  then have source: "source_route d ''r'' 7 0 = Inr sample_route" by (simp add: sample_source)
  obtain dec where dec: "route_failure id (sample_ready ?s) = Inr dec" "disposition dec = Dispatch"
    "successor dec = Some (sample_next ''typed_peer_recovery'')" "rule_id dec = ''typed_peer_recovery_v1''"
    using sample_ready_dispatch [OF sample_proposals(1)] by blast
  have "\<exists>d'. decide_control_successor id ''r'' 7 0 1 0 1 ''unsolved'' sample_budget d = Inr (Some dec, d')"
  proof (rule sample_decide)
    show "wave_signal d ''r'' 7 0 ''unsolved'' = Inr (Some ?s)" using keep d(2) by (intro sample_signal)
    show "route_failure id (wave_request d ''r'' 7 0 sample_budget sample_route ?s) = Inr dec"
      using sample_request [OF keep(3,4) routes, of ?s] dec(1) by simp
    show "control_jobs d = [j\<lparr>jb_state := st, jb_closed := cl\<rparr>]" by (rule d(3))
    show "\<forall>y \<in> set (control_routes d). rt_fingerprint y \<noteq> fingerprint id (sample_next ''typed_peer_recovery'')"
      using sample_next_fresh [symmetric] by (simp add: routes sample_queue_def)
  qed (use j in \<open>simp_all add: keep source dec d(3) in_wave_def\<close>, simp add: sample_next_def)
  then show ?thesis using d(1) dec(2)
    by (auto simp: finish_and_decide_control_wave_def transaction_def tx_bind_def tx_return_def bind_result_def)
qed


definition sample_restart :: db where
  "sample_restart = (sample_stalled ''failed'')\<lparr>failure_origins := [\<lparr>og_run = ''r'', og_challenge = 7, og_episode = 0,
     og_origin = ''container'', og_reason = ''process_restart'', og_sequence = 1\<rparr>]\<rparr>"

lemma sample_restart_parts:
  "sample_restart = (sample_stalled ''failed'')\<lparr>failure_origins := failure_origins sample_restart\<rparr>"
  "proposals sample_restart = []" "intents sample_restart = []" "instances sample_restart = []"
  "route_decisions sample_restart = []" "has_run sample_restart ''r''" "has_challenge sample_restart 7"
  "control_routes sample_restart = control_routes sample_queue" "control_jobs sample_restart = control_jobs (sample_stalled ''failed'')"
  "attempts sample_restart = [sample_attempt\<lparr>at_status := ''unsolved''\<rparr>]"
  by (simp_all add: sample_restart_def sample_stalled_def sample_queue_def sample_wave_def sample_plane_defs has_run_def
      has_challenge_def)

lemma sample_restart_signal:
  "wave_signal sample_restart ''r'' 7 0 ''error'' = Inr (Some \<lparr>kind = ''container'', subreason = ''process_restart''\<rparr>)"
proof -
  have group: "first_group FAILURE_GROUPS {''process_restart''} = Some (''container'', ''process_restart'')"
    by (simp add: FAILURE_GROUPS_def failure_vocabulary)
  have "candidate_identity_count sample_restart ''r'' 7 = 0"
    by (simp add: candidate_identity_count_def sample_restart_parts(2) split: option.split)
  moreover have "first_row (same_origin ''r'' 7 0) (failure_origins sample_restart) = Some (hd (failure_origins sample_restart))"
    "og_reason (hd (failure_origins sample_restart)) = ''process_restart''"
    by (simp_all add: sample_restart_def first_row_def same_origin_def)
  ultimately show ?thesis using group
    by (simp add: wave_signal_def Let_def classify_failure_def KNOWN_FAILURE_CLASSES_def failure_vocabulary
        bind_result_def construct_signal_def FAILURE_KINDS_def bounded_text_def)
qed

lemma sample_restart_decide:
  "\<exists>dec d. decide_control_successor id ''r'' 7 0 1 0 1 ''error'' sample_budget sample_restart = Inr (Some dec, d)
     \<and> disposition dec = Dispatch"
proof -
  let ?s = "\<lparr>kind = ''container'', subreason = ''process_restart''\<rparr>"
  obtain j where j: "control_jobs (sample_stalled ''failed'') = [j]" "in_wave ''r'' 7 0 j" "jb_model j = ''m''"
    "jb_effort j = ''high''" "jb_id j = job_id ''r'' 7 0 (role sample_route) 0"
    by (simp add: sample_stalled_def sample_wave_def sample_job_def in_wave_def)
  have "source_route sample_restart ''r'' 7 0 = source_route (sample_stalled ''failed'') ''r'' 7 0"
    by (rule source_route_kept [where g = id]) (simp_all add: sample_restart_parts(9), simp add: sample_restart_def)
  then have source: "source_route sample_restart ''r'' 7 0 = Inr sample_route" by (simp add: sample_source)
  obtain dec where dec: "route_failure id (sample_ready ?s) = Inr dec" "disposition dec = Dispatch"
    "successor dec = Some (sample_next ''fresh_workspace_recovery'')" "rule_id dec = ''container_fresh_workspace_v1''"
    using sample_ready_dispatch [OF sample_proposals(2)] by blast
  have "\<exists>d'. decide_control_successor id ''r'' 7 0 1 0 1 ''error'' sample_budget sample_restart = Inr (Some dec, d')"
  proof (rule sample_decide)
    show "wave_signal sample_restart ''r'' 7 0 ''error'' = Inr (Some ?s)" by (rule sample_restart_signal)
    show "route_failure id (wave_request sample_restart ''r'' 7 0 sample_budget sample_route ?s) = Inr dec"
      using sample_request [OF sample_restart_parts(3,4,8), of ?s] dec(1) by simp
    show "control_jobs sample_restart = [j]" by (simp add: sample_restart_parts(9) j(1))
    show "\<forall>y \<in> set (control_routes sample_restart). rt_fingerprint y \<noteq> fingerprint id (sample_next ''fresh_workspace_recovery'')"
      using sample_next_fresh [symmetric] by (simp add: sample_restart_parts(8) sample_queue_def)
  qed (use j in \<open>simp_all add: sample_restart_parts(5-7,9) source dec\<close>, simp add: sample_next_def)
  with dec(2) show ?thesis by blast
qed

lemma sample_restart_rows:
  "resume_rows sample_restart ''r'' = [(hd (failure_origins sample_restart), 0, 1, False)]"
  by (simp add: resume_rows_def interrupted_waves_def unrouted_def decided_def origin_jobs_def wave_jobs_def catalogued_def
      correct_in_context_def first_row_def in_wave_def sample_restart_def sample_stalled_def sample_queue_def sample_wave_def
      sample_plane_defs)

lemma sample_resumed:
  "\<exists>d. resume_control_waves id now ''r'' 7200000 sample_restart = (Inr 1, d)"
proof -
  have "next_episode sample_restart ''r'' 7 = 1"
    by (simp add: next_episode_def sample_restart_parts(9)) (simp add: sample_stalled_def sample_wave_def sample_job_def)
  moreover have "og_challenge (hd (failure_origins sample_restart)) = 7" "og_episode (hd (failure_origins sample_restart)) = 0"
    by (simp_all add: sample_restart_def)
  moreover have "sample_budget = \<lparr>bd_attempts = (1000 \<le> (7200000 :: int)), bd_milliseconds = 7200000, bd_unresolved = 1,
      bd_parallel = 1\<rparr>" by (simp add: sample_budget_def)
  moreover obtain dec d where "decide_control_successor id ''r'' 7 0 1 0 1 ''error'' sample_budget sample_restart = Inr (Some dec, d)"
    "disposition dec = Dispatch" using sample_restart_decide by blast
  ultimately show ?thesis
    by (simp add: resume_control_waves_def sample_restart_rows resume_wave_def transaction_def run_tx Let_def dispatched_def)
qed

theorem resume_routes_once_witness:
  "\<exists>d xs d2. resume_control_waves id (\<lambda>_. ''t1'') ''r'' 7200000 sample_restart = (Inr 1, d)
     \<and> route_decisions d = route_decisions sample_restart @ xs \<and> count_rows (\<lambda>x. dc_disposition x = ''dispatch'') xs = 1
     \<and> resume_control_waves id (\<lambda>_. ''t2'') ''r'' 3600000 d = (Inr 0, d2)"
proof -
  obtain d where d: "resume_control_waves id (\<lambda>_. ''t1'') ''r'' 7200000 sample_restart = (Inr 1, d)"
    using sample_resumed by blast
  have "\<forall>o' \<in> set (failure_origins sample_restart). origin_jobs sample_restart o' \<noteq> []"
    by (simp add: origin_jobs_def wave_jobs_def in_wave_def sample_restart_def sample_stalled_def sample_wave_def sample_job_def)
  from resume_routes_once [OF d _ this, where ms' = 3600000 and now' = "\<lambda>_. ''t2''"] d show ?thesis by auto
qed

end
