(* ===== verification/Control_Plane.thy ===== *)
theory Control_Plane
  imports Control_Decisions Comparison_Store
begin

text \<open>
  The control plane of \<open>src/rapido/state.py\<close> as a whole: one step relation over every method that
  writes the tables \<open>control_jobs\<close>, \<open>control_routes\<close> or \<open>control_events\<close>, and the invariant they share.
  The migration of an old schema, which copies the tables before any method runs, is not a step.
\<close>

section \<open>The bodies keep the invariant\<close>

named_theorems plane_rules \<open>bodies that keep the invariant of the control plane\<close>

lemmas plane_basics [plane_rules] = inv_rules inv_admit_wave inv_finish_wave inv_insert_catalogue

lemma plane_modify:
  assumes "\<And>d. control_jobs (f d) = control_jobs d \<and> control_routes (f d) = control_routes d
      \<and> length (control_events (f d)) = length (control_events d)"
  shows "tx_keeps inv_kept (tx_modify f)"
  by (rule tx_keepsI) (use assms in \<open>auto simp: tx_modify_Inr inv_kept_def intro: control_inv_more\<close>)

lemma plane_same:
  assumes "\<And>d x d'. m d = Inr (x, d') \<Longrightarrow> control_jobs d' = control_jobs d \<and> control_routes d' = control_routes d
      \<and> control_events d' = control_events d"
  shows "tx_keeps inv_kept m"
proof (rule tx_keepsI)
  fix d x d' assume "m d = Inr (x, d')"
  from assms [OF this] show "inv_kept d d'" by (simp add: inv_kept_def control_inv_more)
qed

lemma plane_fail [plane_rules]: "tx_keeps inv_kept (\<lambda>d. Inl e)"
  by (simp add: tx_keeps_def)

lemma plane_read [plane_rules]: "tx_keeps inv_kept (tx_read f)"
  by (rule plane_same) (auto simp: tx_read_def elim!: bind_result_InrE)

lemma plane_if [plane_rules]: "tx_keeps inv_kept m \<Longrightarrow> tx_keeps inv_kept n \<Longrightarrow> tx_keeps inv_kept (if b then m else n)"
  by simp

text \<open>A body that first looks at the store.\<close>

lemma plane_look: "(\<And>s. tx_keeps inv_kept (g s)) \<Longrightarrow> tx_keeps inv_kept (\<lambda>d. g d d)"
  by (auto simp: tx_keeps_def)

lemma plane_collect:
  assumes "\<And>x. tx_keeps inv_kept (f x)"
  shows "tx_keeps inv_kept (tx_collect f xs)"
  by (induction xs) (auto intro!: plane_rules assms)

lemma plane_log_and_close [plane_rules]:
  "tx_keeps inv_kept (tx_bind (insert_control_event run w i data)
     (\<lambda>seq. set_job job (\<lambda>k. k\<lparr>jb_state := s, jb_closed := Some seq\<rparr>)))"
  by (rule inv_log_and_set) (simp add: same_job_def)

lemma plane_interrupt_job [plane_rules]: "tx_keeps inv_kept (interrupt_job run why j)"
  unfolding interrupt_job_def [abs_def] Let_def by (rule plane_look) (rule plane_rules)

lemma plane_interrupt_jobs [plane_rules]: "tx_keeps inv_kept (interrupt_control_jobs run why)"
  unfolding interrupt_control_jobs_def [abs_def] Let_def by (rule plane_look) (intro plane_rules)

lemma plane_interrupt_attempts [plane_rules]: "tx_keeps inv_kept (interrupt_attempts run stamp why cls)"
  unfolding interrupt_attempts_def by (rule plane_modify) simp

lemma plane_insert_event [plane_rules]: "tx_keeps inv_kept (insert_event run stamp what data)"
  by (rule plane_same) (auto simp: insert_event_def elim!: bind_result_InrE)

lemma plane_recovery_event [plane_rules]: "tx_keeps inv_kept (recovery_event stamp rc)"
  unfolding recovery_event_def by (intro plane_rules)

lemma plane_requeue [plane_rules]: "tx_keeps inv_kept (requeue_challenges stamp)"
  unfolding requeue_challenges_def by (rule plane_modify) simp

lemma plane_insert_origin [plane_rules]: "tx_keeps inv_kept (insert_origin x)"
  by (rule plane_same) (auto simp: insert_origin_def elim!: bind_result_InrE)

lemma plane_restart_origin [plane_rules]: "tx_keeps inv_kept (restart_origin run c ep)"
  unfolding restart_origin_def [abs_def] Let_def
  by (rule plane_look) (intro plane_rules plane_modify, simp)

lemma plane_seal_wave [plane_rules]: "tx_keeps inv_kept (seal_wave run w)"
  unfolding seal_wave_def by (intro plane_rules)

lemma plane_resume_run [plane_rules]: "tx_keeps inv_kept (resume_run stamp r)"
  unfolding resume_run_def [abs_def] Let_def by (rule plane_look) (intro plane_rules)

lemma plane_insert_run [plane_rules]: "tx_keeps inv_kept (insert_run r)"
  by (rule plane_same) (auto simp: insert_run_def elim!: bind_result_InrE)

lemma plane_start_or_resume: "tx_keeps inv_kept (start_or_resume_body now run config)"
proof (rule tx_keepsI)
  fix d x d' assume "start_or_resume_body now run config d = Inr (x, d')"
  moreover have "tx_keeps inv_kept (tx_bind (insert_run r) (\<lambda>_. tx_return s))" for r and s :: run_session
    by (intro plane_rules)
  ultimately show "inv_kept d d'"
    by (auto simp: start_or_resume_body_def split: list.split_asm if_split_asm elim!: bind_result_InrE
        intro: tx_keepsD tx_keepsD [OF plane_resume_run])
qed

lemma plane_operator_stop: "tx_keeps inv_kept (operator_stop_body now run)"
proof (rule tx_keepsI)
  fix d x d' assume step: "operator_stop_body now run d = Inr (x, d')"
  have change: "tx_keeps inv_kept (\<lambda>d. if p d then Inl e else Inr ((), d\<lparr>runs := f d\<rparr>))" for p e f
    by (rule plane_same) (auto split: if_split_asm)
  have "tx_keeps inv_kept
     (tx_bind (interrupt_attempts run (now 0) ENDED_TEXT ''interrupted'') (\<lambda>_.
      tx_bind (interrupt_control_jobs run ''operator_stop'') (\<lambda>_.
      tx_bind (\<lambda>d. if count_rows (live_run run) (runs d) \<noteq> 1
          then Inl (RuntimeError ''running run changed during operator stop finalization'')
          else Inr ((), d\<lparr>runs := where_update (live_run run) (end_run (now 0) ''interrupted'') (runs d)\<rparr>)) (\<lambda>_.
      tx_bind (insert_event run (now 0) ''operator_stop''
        (PDict [(''external_effects_settled'', PBool False), (''status'', PStr ''interrupted'')])) (\<lambda>_.
      tx_return ''interrupted'')))))"
    by (intro plane_rules change)
  from tx_keepsD [OF this] step show "inv_kept d d'"
    using reflp_inv_kept by (auto simp: operator_stop_body_def reflp_def split: option.split_asm if_split_asm)
qed

lemma plane_recover: "tx_keeps inv_kept (recover_body now)"
  unfolding recover_body_def [abs_def] Let_def
  by (rule plane_look, intro plane_rules, rule plane_look, intro plane_rules plane_modify) simp_all

text \<open>The catalogue.\<close>

lemma plane_bind_material: "tx_keeps inv_kept (bind_material_body run c expected material)"
proof (rule tx_keepsI)
  fix d x d' assume step: "bind_material_body run c expected material d = Inr (x, d')"
  have "tx_keeps inv_kept (tx_bind (tx_modify (\<lambda>d. d\<lparr>catalogue := f d\<rparr>)) (\<lambda>_.
      tx_bind (insert_control_event run w i data) (\<lambda>_. tx_return b)))" for f w i data and b :: bool
    by (intro plane_rules plane_modify) simp
  from tx_keepsD [OF this] step show "inv_kept d d'"
    using reflp_inv_kept by (auto simp: bind_material_body_def Let_def reflp_def split: option.split_asm if_split_asm)
qed

lemma plane_supersede [plane_rules]: "tx_keeps inv_kept (supersede_waves run c)"
  unfolding supersede_waves_def [abs_def] Let_def by (rule plane_look) (intro plane_rules)

lemma plane_retire [plane_rules]: "tx_keeps inv_kept (retire_verifications now n run c ep)"
  unfolding retire_verifications_def Let_def by (rule plane_modify) simp

lemma plane_revise [plane_rules]: "tx_keeps inv_kept (revise_catalogue now run v existing)"
proof (cases existing)
  case None
  then show ?thesis unfolding revise_catalogue_def by simp (intro plane_rules)
next
  case (Some row)
  then show ?thesis unfolding revise_catalogue_def Let_def
    by simp (rule plane_look, intro plane_rules plane_modify, simp)
qed

lemma plane_admit_revision [plane_rules]: "tx_keeps inv_kept (admit_revision sha run v ker)"
  by (auto simp: admit_revision_def split: prod.split sum.split if_split intro!: plane_rules)

lemma plane_change [plane_rules]: "tx_keeps inv_kept (change_catalogue sha now run v existing)"
proof -
  have tail: "tx_keeps inv_kept ((\<lambda>(k, ep, rank).
     tx_bind (admit_revision sha run v (k, ep, rank)) (\<lambda>_.
     tx_bind (insert_control_event run (''catalogue_'' @ k) None
       (PDict [(''challenge_id'', PInt (rv_challenge v)), (''catalogue_rank'', PInt rank),
         (''episode'', if rv_executable v then PInt ep else PNone), (''executable'', PBool (rv_executable v))])) (\<lambda>_.
     tx_return (k, if rv_executable v then Some ep else None, rank)))) x)" for x
    by (cases x) (simp only: prod.case, intro plane_rules)
  show ?thesis unfolding change_catalogue_def by (intro plane_rules plane_modify tail) simp
qed

lemma plane_revision: "tx_keeps inv_kept (revision_body sha now run v)"
proof (rule tx_keepsI)
  fix d x d' assume "revision_body sha now run v d = Inr (x, d')"
  then show "inv_kept d d'"
    using reflp_inv_kept
    by (auto simp: revision_body_def Let_def reflp_def split: option.split_asm if_split_asm
        dest: tx_keepsD [OF plane_change])
qed

text \<open>Decisions and resumption.\<close>

lemma plane_insert_decision [plane_rules]: "tx_keeps inv_kept (insert_decision x)"
  by (rule plane_same) (auto simp: insert_decision_def elim!: bind_result_InrE)

lemma plane_record_decision [plane_rules]: "tx_keeps inv_kept (record_decision sha run c ep signal dec)"
  unfolding record_decision_def Let_def by (intro plane_rules)

lemma plane_dispatch [plane_rules]: "tx_keeps inv_kept (dispatch_successor sha run c ep next_ep rank lanes r dec)"
proof (rule tx_keepsI)
  fix d x d' assume "dispatch_successor sha run c ep next_ep rank lanes r dec d = Inr (x, d')"
  then show "inv_kept d d'"
    using reflp_inv_kept
    by (auto simp: dispatch_successor_def reflp_def split: option.split_asm if_split_asm prod.split_asm
        dest: tx_keepsD [OF inv_admit_wave])
qed

lemma plane_decide [plane_rules]:
  "tx_keeps inv_kept (decide_control_successor sha run c ep next_ep rank lanes terminal b)"
proof (rule tx_keepsI)
  fix d x d' assume step: "decide_control_successor sha run c ep next_ep rank lanes terminal b d = Inr (x, d')"
  have "tx_keeps inv_kept (tx_bind (record_decision sha run c ep s dec) (\<lambda>_.
      tx_bind (dispatch_successor sha run c ep next_ep rank lanes r dec) (\<lambda>_. tx_return (Some dec))))" for s dec r
    by (intro plane_rules)
  from tx_keepsD [OF this] step show "inv_kept d d'"
    using reflp_inv_kept
    by (auto simp: decide_control_successor_def reflp_def split: option.split_asm elim!: bind_result_InrE)
qed

lemma plane_continue [plane_rules]: "tx_keeps inv_kept (continue_wave sha run c ep next_ep rank lanes r xs)"
  unfolding continue_wave_def Let_def by (intro plane_rules)

lemma plane_mark [plane_rules]: "tx_keeps inv_kept (mark_challenge stamp status c)"
  unfolding mark_challenge_def by (rule plane_modify) simp

lemma plane_resume_wave [plane_rules]: "tx_keeps inv_kept (resume_wave sha stamp run ms o' rank lanes pending)"
  unfolding resume_wave_def [abs_def] Let_def
  by (rule plane_look, cases pending) (simp_all, (intro plane_rules)+)

lemma plane_resume_waves [plane_rules]: "tx_keeps inv_kept (resume_waves sha now i run ms rows)"
  by (induction sha now i run ms rows rule: resume_waves.induct) (simp_all, (intro plane_rules | assumption)+)

text \<open>Comparisons.\<close>

lemma plane_set_event_data [plane_rules]: "tx_keeps inv_kept (tx_modify (set_event_data seq data))"
  by (rule plane_modify) (simp add: set_event_data_def)

lemma plane_used_route: "tx_keeps inv_kept (used_route_body sha run c r)"
  unfolding used_route_body_def by (intro plane_rules)

lemma plane_record_fact: "tx_keeps inv_kept (record_fact run c ep digest f)"
proof -
  have "tx_keeps inv_kept (insert_fact x)" for x
    by (rule plane_same) (auto simp: insert_fact_def elim!: bind_result_InrE)
  then show ?thesis unfolding record_fact_def by (intro plane_rules)
qed

lemma plane_record_comparison [plane_rules]: "tx_keeps inv_kept (record_comparison sha run c ep arm v z tr)"
proof -
  have "tx_keeps inv_kept (insert_comparison x)" for x
    by (rule plane_same) (auto simp: insert_comparison_def elim!: bind_result_InrE)
  moreover have "tx_keeps inv_kept (insert_link x)" for x
    by (rule plane_same) (auto simp: insert_link_def elim!: bind_result_InrE)
  then have "tx_keeps inv_kept ((\<lambda>(i, fact). insert_link \<lparr>lk_decision = seq, lk_fact = fact, lk_ordinal = i\<rparr>) p)" for seq p
    by (cases p) simp
  ultimately show ?thesis unfolding record_comparison_def by (intro plane_rules)
qed

lemma plane_admit_compared [plane_rules]: "tx_keeps inv_kept (admit_compared sha run c next_ep rank lanes arm x)"
  by (auto simp: admit_compared_def split: option.split if_split intro: plane_rules)

lemma plane_compare: "tx_keeps inv_kept (compare_wave sha run c ep next_ep rank lanes v arm z)"
proof -
  have tail: "tx_keeps inv_kept ((\<lambda>(ev, x).
     tx_bind (finish_wave run c ep (if decided x = ''no_route'' then ''completed'' else ''error'')) (\<lambda>_.
     let tr = trace_of sha None (map cf_sequence rows) ev x in
     if decided x = ''no_route'' then tx_return tr
     else tx_bind (record_comparison sha run c ep arm v z tr) (\<lambda>seq.
       tx_bind (admit_compared sha run c next_ep rank lanes arm x) (\<lambda>_.
       tx_return (tr\<lparr>tr_sequence := Some seq\<rparr>))))) p)" for rows p
    unfolding Let_def by (cases p) (simp only: prod.case, intro plane_rules)
  show ?thesis unfolding compare_wave_def by (intro plane_rules tail)
qed

section \<open>The step relation\<close>

text \<open>Every method that writes \<open>control_jobs\<close>, \<open>control_routes\<close> or \<open>control_events\<close>, with its outcome \<open>r\<close>, be it a
  result or an exception. Every other method of the store is a step that leaves the three tables alone.\<close>

inductive control_step :: "digest_fn \<Rightarrow> db \<Rightarrow> db \<Rightarrow> bool" for sha where
  Initialize: "initialize_control_catalogue sha run entries lanes routes xs contexts d = (r, d') \<Longrightarrow> control_step sha d d'"
| Catalogue: "record_control_catalogue run entries d = (r, d') \<Longrightarrow> control_step sha d d'"
| Revise: "admit_control_catalogue_revision sha now run v d = (rv, d') \<Longrightarrow> control_step sha d d'"
| Bind: "bind_control_catalogue_material run c expected material d = (rb, d') \<Longrightarrow> control_step sha d d'"
| Admit: "admit_control_wave sha run c ep rank lanes route assignments d = (r, d') \<Longrightarrow> control_step sha d d'"
| Begin_Wave: "start_control_wave run c ep d = (rn, d') \<Longrightarrow> control_step sha d d'"
| Lane: "record_comparison_lane_completion run c ep lane d = (rn, d') \<Longrightarrow> control_step sha d d'"
| End_Wave: "finish_control_wave run c ep terminal d = (r, d') \<Longrightarrow> control_step sha d d'"
| Transition: "finish_and_admit_control_wave sha run c ep ep' rank terminal route ys why d = (r, d') \<Longrightarrow> control_step sha d d'"
| Origin: "record_control_failure_origin run c ep new_origin d = (r, d') \<Longrightarrow> control_step sha d d'"
| Decide: "finish_and_decide_control_wave sha run c ep ep' rank lanes terminal b continuation d = (rd, d')
    \<Longrightarrow> control_step sha d d'"
| Resume_Waves: "resume_control_waves sha now run ms d = (rn, d') \<Longrightarrow> control_step sha d d'"
| Used_Route: "record_comparison_used_route sha run c route d = (r, d') \<Longrightarrow> control_step sha d d'"
| Route_Facts: "record_comparison_route_facts run c ep fs digest d = (rf, d') \<Longrightarrow> control_step sha d d'"
| Compare: "finish_and_compare_control_wave sha run c ep ep' rank lanes v arm z d = (rt, d') \<Longrightarrow> control_step sha d d'"
| Resume_Run: "start_or_resume_run now run config d = (rs, d') \<Longrightarrow> control_step sha d d'"
| Interrupt_Run: "interrupt_control_run now run why d = (rn, d') \<Longrightarrow> control_step sha d d'"
| Stop_Run: "finalize_operator_stop now run d = (rt, d') \<Longrightarrow> control_step sha d d'"
| Recover: "recover_interrupted now d = (rn, d') \<Longrightarrow> control_step sha d d'"
| Other: "control_jobs d' = control_jobs d \<Longrightarrow> control_routes d' = control_routes d \<Longrightarrow> control_events d' = control_events d
    \<Longrightarrow> control_step sha d d'"

lemma inv_kept_refl: "inv_kept d d"
  by (simp add: inv_kept_def)

lemma plane_transaction: "transaction m d = (r, d') \<Longrightarrow> tx_keeps inv_kept m \<Longrightarrow> inv_kept d d'"
  by (rule transaction_keeps [OF reflp_inv_kept])

lemma initialize_inv: "initialize_control_catalogue sha run entries lanes routes xs contexts d = (r, d') \<Longrightarrow> inv_kept d d'"
proof -
  assume step: "initialize_control_catalogue sha run entries lanes routes xs contexts d = (r, d')"
  have "tx_keeps inv_kept (admit_entry sha run lanes routes xs e)" for e
    by (auto simp: admit_entry_def split: prod.split option.split if_split intro: plane_rules)
  then have "tx_keeps inv_kept (tx_bind (tx_each (\<lambda>e. insert_catalogue (entry_row run (map_of contexts) e)) entries) (\<lambda>_.
       tx_each (admit_entry sha run lanes routes xs) entries))"
    by (intro plane_rules)
  from plane_transaction [OF _ this] step show ?thesis
    by (auto simp: initialize_control_catalogue_def inv_kept_refl split: if_split_asm)
qed

lemma catalogue_inv: "record_control_catalogue run entries d = (r, d') \<Longrightarrow> inv_kept d d'"
  unfolding record_control_catalogue_def by (erule plane_transaction) (intro plane_rules)

lemma transition_inv:
  "finish_and_admit_control_wave sha run c ep ep' rank terminal route ys why d = (r, d') \<Longrightarrow> inv_kept d d'"
  unfolding finish_and_admit_control_wave_def by (erule plane_transaction) (intro plane_rules)

lemma decide_inv:
  "finish_and_decide_control_wave sha run c ep ep' rank lanes terminal b continuation d = (r, d') \<Longrightarrow> inv_kept d d'"
  unfolding finish_and_decide_control_wave_def
  by (erule plane_transaction) (auto split: option.split prod.split intro!: plane_rules)

lemma resume_waves_inv: "resume_control_waves sha now run ms d = (r, d') \<Longrightarrow> inv_kept d d'"
proof -
  assume step: "resume_control_waves sha now run ms d = (r, d')"
  have "tx_keeps inv_kept (\<lambda>d. resume_waves sha now 0 run ms (resume_rows d run) d)"
    by (rule plane_look) (rule plane_resume_waves)
  from plane_transaction [OF _ this] step show ?thesis
    by (auto simp: resume_control_waves_def inv_kept_refl split: if_split_asm)
qed

lemma route_facts_inv: "record_comparison_route_facts run c ep fs digest d = (r, d') \<Longrightarrow> inv_kept d d'"
  using plane_transaction [OF _ plane_collect [OF plane_record_fact]]
  by (auto simp: record_comparison_route_facts_def Let_def inv_kept_refl split: if_split_asm)

lemma interrupt_run_inv: "interrupt_control_run now run why d = (r, d') \<Longrightarrow> inv_kept d d'"
  unfolding interrupt_control_run_def by (erule plane_transaction) (intro plane_rules)

lemma lane_inv: "record_comparison_lane_completion run c ep lane d = (r, d') \<Longrightarrow> inv_kept d d'"
  using plane_transaction [OF _ inv_event]
  by (auto simp: record_comparison_lane_completion_def inv_kept_refl split: if_split_asm option.split_asm)

lemmas plane_steps = initialize_inv catalogue_inv transition_inv decide_inv resume_waves_inv route_facts_inv
  interrupt_run_inv lane_inv

text \<open>The operations that at most check their arguments and then run one body.\<close>

lemmas plane_bodies = plane_transaction [OF _ inv_admit_wave]
  plane_transaction [OF _ inv_start_wave]
  plane_transaction [OF _ inv_finish_wave]
  plane_transaction [OF _ inv_failure_origin]
  plane_transaction [OF _ plane_revision]
  plane_transaction [OF _ plane_bind_material]
  plane_transaction [OF _ plane_used_route]
  plane_transaction [OF _ plane_compare]
  plane_transaction [OF _ plane_start_or_resume]
  plane_transaction [OF _ plane_operator_stop]
  plane_transaction [OF _ plane_recover]

lemmas plane_operations = admit_control_wave_def start_control_wave_def finish_control_wave_def
  record_control_failure_origin_def admit_control_catalogue_revision_def bind_control_catalogue_material_def
  record_comparison_used_route_def finish_and_compare_control_wave_def start_or_resume_run_def
  finalize_operator_stop_def recover_interrupted_def

lemma control_step_inv: "control_step sha d d' \<Longrightarrow> inv_kept d d'"
proof (induction rule: control_step.induct)
  case (Other d d')
  then show ?case by (simp add: inv_kept_def control_inv_def route_known_def)
qed (auto simp: plane_operations inv_kept_refl split: if_split_asm
  intro: plane_steps plane_bodies)

interpretation control: guarded_store "\<lambda>d. control_jobs d = []" "control_step sha" control_inv for sha
proof
  show "control_jobs d = [] \<Longrightarrow> control_inv d" for d by (simp add: control_inv_def)
  show "control_inv d \<Longrightarrow> control_step sha d d' \<Longrightarrow> control_inv d'" for d d'
    using control_step_inv by (auto simp: inv_kept_def)
qed

text \<open>C23. From a store without jobs, after any sequence of operations, failed ones included - the catalogue
  is recorded, initialised or revised and its material bound; waves are admitted, started, finished, replaced
  or decided; lanes, failure origins, used routes and facts recorded; waves compared; waves and runs resumed;
  runs interrupted, stopped or recovered; or the store changed elsewhere - the job ids are distinct, every job
  was admitted before it was started or closed, all its sequences are positions of the log, and its route is
  on record for its challenge. The migration of an old schema is not among the operations.\<close>

theorem control_plane_sound:
  assumes "control_jobs d0 = []" "(control_step sha)\<^sup>*\<^sup>* d0 d"
  shows "distinct (map jb_id (control_jobs d))
    \<and> (\<forall>j \<in> set (control_jobs d). 1 \<le> jb_admitted j \<and> jb_admitted j \<le> length (control_events d)
         \<and> (\<forall>s. jb_started j = Some s \<longrightarrow> jb_admitted j < s \<and> s \<le> length (control_events d))
         \<and> (\<forall>t. jb_closed j = Some t \<longrightarrow> jb_admitted j < t \<and> t \<le> length (control_events d))
         \<and> (\<exists>r \<in> set (control_routes d). rt_run r = jb_run j \<and> rt_challenge r = jb_challenge j
              \<and> rt_fingerprint r = jb_fingerprint j))"
  using control.reachable_inv [OF assms] by (simp add: control_inv_def job_ok_def route_known_def same_route_def)

theorem control_plane_sound_witness:
  "\<exists>d. (control_step id)\<^sup>*\<^sup>* sample_plane d \<and> length (control_jobs d) = 2 \<and> distinct (map jb_id (control_jobs d))
    \<and> (\<forall>j \<in> set (control_jobs d). jb_admitted j \<le> length (control_events d)
        \<and> (\<exists>r \<in> set (control_routes d). rt_fingerprint r = jb_fingerprint j))"
proof -
  obtain d where d: "admit_control_wave id ''r'' 7 0 0 2 sample_route (Some sample_lanes) sample_plane = (Inr (), d)"
    "length (control_jobs d) = 2"
    using sample_admit [OF refl, of id] by auto
  have run: "(control_step id)\<^sup>*\<^sup>* sample_plane d"
    using control_step.Admit [OF d(1)] by simp
  have "control_jobs sample_plane = []" by (simp add: sample_plane_defs)
  from control_plane_sound [OF this run] run d(2) show ?thesis by (intro exI [of _ d]) auto
qed


end
