(* ===== verification/Utf8_Json.thy ===== *)
theory Utf8_Json
  imports Prelude
begin

text \<open>
  UTF-8 and the second canonical JSON of the program, \<open>json.dumps(..., ensure_ascii=False,
  sort_keys=True, separators=(",", ":"))\<close> encoded as UTF-8, on the code points 0 to 255. Bytes are
  characters too. The lemmas bound the length of an encoding and show that it can be decoded.
\<close>

section \<open>UTF-8\<close>

definition utf8_char :: "char \<Rightarrow> string" where
  "utf8_char c = (let n = of_char c :: nat in
     if n < 128 then [c] else [char_of (192 + n div 64), char_of (128 + n mod 64)])"

definition utf8_bytes :: "string \<Rightarrow> string" where
  "utf8_bytes s = concat (map utf8_char s)"

text \<open>\<open>bytes.decode("utf-8")\<close>: a lead byte \<open>C2\<close> or \<open>C3\<close> takes one continuation byte; other lead bytes are
  code points beyond the model or no UTF-8.\<close>

fun utf8_decode :: "string \<Rightarrow> string option" where
  "utf8_decode [] = Some []"
| "utf8_decode (b # r) =
     (let n = of_char b :: nat in
      if n < 128 then map_option (\<lambda>s. b # s) (utf8_decode r)
      else if n = 194 \<or> n = 195 then
        (case r of
           [] \<Rightarrow> None
         | x # r' \<Rightarrow> (let m = of_char x :: nat in
             if 128 \<le> m \<and> m < 192 then map_option (\<lambda>s. char_of ((n - 192) * 64 + (m - 128)) # s) (utf8_decode r')
             else None))
      else None)"

lemma utf8_bytes_simps [simp]:
  "utf8_bytes [] = []" "utf8_bytes (c # s) = utf8_char c @ utf8_bytes s" "utf8_bytes (s @ t) = utf8_bytes s @ utf8_bytes t"
  by (simp_all add: utf8_bytes_def)

lemma utf8_decode_char: "utf8_decode (utf8_char c @ r) = map_option (\<lambda>s. c # s) (utf8_decode r)"
proof -
  define n where "n = (of_char c :: nat)"
  have n256: "n < 256" by (simp add: n_def)
  have c: "c = char_of n" by (simp add: n_def)
  show ?thesis
  proof (cases "n < 128")
    case True
    then show ?thesis by (simp add: utf8_char_def n_def Let_def)
  next
    case False
    have lead: "n div 64 = 2 \<or> n div 64 = 3" using False n256 by linarith
    have mods: "(192 + n div 64) mod 256 = 192 + n div 64" "(128 + n mod 64) mod 256 = 128 + n mod 64"
      using lead mod_less_divisor [of 64 n] by auto
    have "n div 64 * 64 + n mod 64 = n" by simp
    with lead have again: "(192 + n div 64 - 192) * 64 + (128 + n mod 64 - 128) = n" by simp
    have "128 + n mod 64 < 192" using mod_less_divisor [of 64 n] by simp
    with lead False again show ?thesis
      by (auto simp: utf8_char_def Let_def n_def [symmetric] mods c)
  qed
qed

lemma utf8_decode_bytes [simp]: "utf8_decode (utf8_bytes s) = Some s"
  by (induction s) (simp_all add: utf8_decode_char)

lemma utf8_bytes_inject [simp]: "utf8_bytes s = utf8_bytes t \<longleftrightarrow> s = t"
  by (metis option.inject utf8_decode_bytes)

lemma utf8_bytes_Nil [simp]: "utf8_bytes s = [] \<longleftrightarrow> s = []"
  using utf8_bytes_inject [of s "[]"] by simp

lemma length_utf8_char: "length (utf8_char c) = (if (of_char c :: nat) < 128 then 1 else 2)"
  by (simp add: utf8_char_def Let_def)

lemma length_utf8_bytes: "length s \<le> length (utf8_bytes s)" "length (utf8_bytes s) \<le> 2 * length s"
  by (induction s) (auto simp: length_utf8_char)

section \<open>JSON text that keeps characters beyond ASCII\<close>

definition json_escape_utf8 :: "char \<Rightarrow> string" where
  "json_escape_utf8 c = (if 127 \<le> (of_char c :: nat) then utf8_char c else json_escape c)"

definition json_string_utf8 :: "string \<Rightarrow> string" where
  "json_string_utf8 s = CHR 0x22 # concat (map json_escape_utf8 s) @ [CHR 0x22]"

function json_utf8 :: "pyval \<Rightarrow> string" where
  "json_utf8 PNone = ''null''"
| "json_utf8 (PBool b) = (if b then ''true'' else ''false'')"
| "json_utf8 (PInt i) = show_int i"
| "json_utf8 (PFloat s) = s"
| "json_utf8 (PStr s) = json_string_utf8 s"
| "json_utf8 (PList xs) = ''['' @ join '','' (map json_utf8 xs) @ '']''"
| "json_utf8 (PDict kvs) =
     ''{'' @ join '','' (map (\<lambda>kv. json_string_utf8 (fst kv) @ '':'' @ json_utf8 (snd kv)) (sort_key fst kvs)) @ ''}''"
  by pat_completeness auto

termination json_utf8
proof (relation "measure size", goal_cases)
  case 1
  show ?case by simp
next
  case (2 xs x)
  then show ?case by (simp add: less_Suc_eq_le size_list_estimation')
next
  case (3 kvs kv)
  then have "kv \<in> set kvs" by simp
  then show ?case using size_snd_less_PDict by simp
qed

definition json_size :: "pyval \<Rightarrow> nat" where
  "json_size v = length (json_utf8 v)"

lemma length_json_escape_utf8: "length (json_escape_utf8 c) \<le> 6"
  by (simp add: json_escape_utf8_def json_escape_def length_utf8_char Let_def)

lemma length_json_string_utf8: "length (json_string_utf8 s) \<le> 6 * length s + 2"
proof -
  have "length (concat (map json_escape_utf8 s)) \<le> 6 * length s"
    using length_json_escape_utf8 by (induction s) (auto intro: add_mono)
  then show ?thesis by (simp add: json_string_utf8_def)
qed

lemma length_join: "length (join sep xs) \<le> sum_list (map length xs) + length sep * length xs"
proof (cases xs)
  case (Cons y ys)
  have "length (concat (map (\<lambda>x. sep @ x) ys)) = sum_list (map length ys) + length sep * length ys"
    by (induction ys) (simp_all add: algebra_simps)
  with Cons show ?thesis by (simp add: join_def)
qed (simp add: join_def)

text \<open>A list of texts within the limits of an attempt's evidence always fits the audit limit.\<close>

lemma json_size_strings:
  assumes "length xs \<le> n" "\<forall>x \<in> set xs. length x \<le> k"
  shows "json_size (PList (map PStr xs)) \<le> n * (6 * k + 3) + 2"
proof -
  have "sum_list (map (\<lambda>x. length (json_string_utf8 x)) xs) \<le> length xs * (6 * k + 2)"
    using assms(2)
  proof (induction xs)
    case (Cons x xs)
    then have "length (json_string_utf8 x) \<le> 6 * k + 2"
      using length_json_string_utf8 [of x] by (simp add: order_trans)
    with Cons show ?case by simp
  qed simp
  moreover have "length (join '','' (map (\<lambda>x. json_string_utf8 x) xs)) \<le>
      sum_list (map (\<lambda>x. length (json_string_utf8 x)) xs) + length xs"
    using length_join [of "'',''" "map json_string_utf8 xs"] by (simp add: comp_def)
  ultimately have "json_size (PList (map PStr xs)) \<le> length xs * (6 * k + 3) + 2"
    by (simp add: json_size_def comp_def algebra_simps)
  also have "\<dots> \<le> n * (6 * k + 3) + 2" using assms(1) by simp
  finally show ?thesis .
qed

end
