(* ===== verification/Evidence_Facts.thy ===== *)
theory Evidence_Facts
  imports Utf8_Json Py_Text
begin

text \<open>
  What host evidence retains of a tool result (\<open>src/rapido/evidence.py\<close>): the closed vocabularies, the
  recursive projection of typed metadata, the projection of target responses to their shape and a
  fingerprint of the payload, and the check for a candidate. A dictionary that the code builds is
  written with its keys in order, which is how it is compared and encoded. The digest, \<open>json.loads\<close> and
  the Base64 decoder are arguments. Retained texts are ASCII, where NFKC changes nothing, so the
  normalization before the search for a candidate is left out.
\<close>

section \<open>Vocabularies\<close>

definition PATH_KEYS :: "string list" where
  "PATH_KEYS = [''path'', ''destination'', ''member'', ''filename'', ''cwd'']"

definition INTEGER_KEYS :: "string list" where
  "INTEGER_KEYS = [''bits'', ''bytes'', ''channels'', ''count'', ''duration_milliseconds'', ''entry_count'', ''frame_count'',
     ''height'', ''index'', ''length'', ''machine'', ''offset'', ''page_count'', ''sample_rate'', ''samples'', ''size'', ''width'',
     ''actual_size'', ''contract_version'', ''limit'']"

definition BOOLEAN_KEYS :: "string list" where
  "BOOLEAN_KEYS = [''complete'', ''dynamic'', ''eof'', ''executable'', ''limited'', ''linked'', ''partial'', ''readable'',
     ''retryable'', ''signed'', ''slow'', ''supported'', ''timed_out'', ''truncated'', ''unsafe'', ''writable'']"

definition TOKEN_KEYS :: "string list" where
  "TOKEN_KEYS = [''action'', ''address'', ''architecture'', ''byte_order'', ''command'', ''compression'', ''coverage'',
     ''decoder'', ''endianness'', ''encoding'', ''error_code'', ''actual_kind'', ''constraint'', ''failure_stage'',
     ''field_path'', ''format'', ''inspector'', ''kind'', ''library'', ''mnemonic'', ''mode'', ''name'', ''operation'',
     ''protocol'', ''status'', ''stop_reason'', ''symbol'', ''type'', ''view'']"

definition TOKEN_LIST_KEYS :: "string list" where
  "TOKEN_LIST_KEYS = [''addresses'', ''libraries'', ''mnemonics'', ''names'', ''symbols'']"

definition CONTAINER_KEYS :: "string list" where
  "CONTAINER_KEYS = [''channels'', ''entries'', ''exports'', ''fields'', ''imports'', ''instructions'', ''libraries'',
     ''metadata'', ''pages'', ''pixel_signals'', ''records'', ''regions'', ''sections'', ''segments'', ''sources'',
     ''statistics'', ''streams'', ''symbols'', ''tables'', ''tags'']"

definition HASH_KEYS :: "string list" where
  "HASH_KEYS = [''sha256'', ''source_sha256'', ''source_range_sha256'', ''payload_sha256'']"

definition RAW_DIGEST_KEYS :: "string list" where
  "RAW_DIGEST_KEYS = [''body'', ''content'', ''data'', ''data_base64'', ''decoded'', ''matches'', ''output'', ''result'',
     ''strings'', ''text'', ''value'']"

definition NEVER_RETAIN_KEYS :: "string list" where
  "NEVER_RETAIN_KEYS = [''authority'', ''candidate'', ''connection_info'', ''credential'', ''endpoint'', ''headers'', ''host'',
     ''password'', ''secret'', ''token'', ''transcript'', ''url'']"

definition METADATA_TOOLS :: "string list" where
  "METADATA_TOOLS = [''audio_metadata'', ''dicom_metadata'', ''disassemble_elf'', ''elf_symbols'', ''image_metadata'',
     ''inspect_artifact'', ''inspect_binary'', ''inspect_elf'', ''inspect_file'', ''inspect_filesystem'', ''list_tar'',
     ''list_workspace'', ''list_zip'', ''search_text'', ''wav_analyze'']"

definition DERIVATION_TOOLS :: "string list" where
  "DERIVATION_TOOLS = [''compute_exact'', ''decode_base64'', ''decode_hex'', ''decode_url'', ''decompress_gzip'',
     ''derive_artifact'', ''extract_archive'', ''extract_strings'', ''read_bytes'', ''read_text'']"

definition TARGET_TOOLS :: "string list" where
  "TARGET_TOOLS = [''http_request'', ''run_target_script'', ''target_info'', ''tcp_close'', ''tcp_exchange'', ''tcp_open'']"

definition EXECUTION_TOOLS :: "string list" where
  "EXECUTION_TOOLS = [''run_shell'']"

definition KNOWN_TOOLS :: "string list" where
  "KNOWN_TOOLS = METADATA_TOOLS @ DERIVATION_TOOLS @ TARGET_TOOLS @ EXECUTION_TOOLS"

section \<open>Texts\<close>

definition ends_with :: "string \<Rightarrow> string \<Rightarrow> bool" where
  "ends_with suffix s \<longleftrightarrow> length suffix \<le> length s \<and> drop (length s - length suffix) s = suffix"

definition ends_with_any :: "string list \<Rightarrow> string \<Rightarrow> bool" where
  "ends_with_any suffixes s = list_ex (\<lambda>x. ends_with x s) suffixes"

definition starts_with :: "string \<Rightarrow> string \<Rightarrow> bool" where
  "starts_with p s \<longleftrightarrow> take (length p) s = p"

fun occurs :: "(string \<Rightarrow> bool) \<Rightarrow> string \<Rightarrow> bool" where
  "occurs p [] = p []"
| "occurs p (c # s) = (p (c # s) \<or> occurs p s)"

definition word_char :: "char \<Rightarrow> bool" where
  "word_char c \<longleftrightarrow> is_letter c \<or> is_digit c \<or> c = CHR ''_''"

definition key_text :: "string \<Rightarrow> bool" where
  "key_text s \<longleftrightarrow> 1 \<le> length s \<and> length s \<le> 64 \<and> list_all word_char s"

definition token_text :: "string \<Rightarrow> bool" where
  "token_text s \<longleftrightarrow> 1 \<le> length s \<and> length s \<le> 96 \<and> list_all (\<lambda>c. word_char c \<or> c \<in> set ''.:+-'') s"

definition label_text :: "string \<Rightarrow> bool" where
  "label_text s \<longleftrightarrow> 1 \<le> length s \<and> length s \<le> 160 \<and> list_all (\<lambda>c. word_char c \<or> c \<in> set ''.:+,; -'') s"

definition hex_lower :: "nat \<Rightarrow> nat \<Rightarrow> string \<Rightarrow> bool" where
  "hex_lower m n s \<longleftrightarrow> m \<le> length s \<and> length s \<le> n \<and> list_all (\<lambda>c. c \<in> set ''0123456789abcdef'') s"

text \<open>\<open>FLAG_RE\<close> of \<open>board.py\<close>, at the start of a text and anywhere in it.\<close>

definition flag_body :: "string \<Rightarrow> bool" where
  "flag_body s = (let b = takeWhile (\<lambda>c. c \<notin> {CHR ''{'', CHR ''}'', CHR 0x0D, CHR 0x0A}) s in
     1 \<le> length b \<and> length b \<le> 512 \<and> take 1 (drop (length b) s) = ''}'')"

definition flag_here :: "string \<Rightarrow> bool" where
  "flag_here s \<longleftrightarrow> starts_with ''INCYPHER{'' s \<and> flag_body (drop 9 s) \<or> starts_with ''flag{'' s \<and> flag_body (drop 5 s)"

definition SENSITIVE_WORDS :: "string list" where
  "SENSITIVE_WORDS = [''secret'', ''credential'', ''password'', ''bearer'', ''authorization'', ''apikey'', ''api_key'', ''api-key'',
     ''teamkey'', ''team_key'', ''team-key'', ''http://'', ''https://'', ''tcp://'']"

definition path_here :: "string \<Rightarrow> bool" where
  "path_here s = (starts_with ''/'' s \<and> (let b = takeWhile (\<lambda>c. \<not> is_space c \<and> c \<noteq> CHR ''/'') (drop 1 s) in
     b \<noteq> [] \<and> starts_with ''/'' (drop (length b) (drop 1 s))))"

definition sensitive_text :: "string \<Rightarrow> bool" where
  "sensitive_text s \<longleftrightarrow> list_ex (\<lambda>w. occurs (starts_with w) (py_lower s)) SENSITIVE_WORDS
     \<or> path_here s \<or> occurs (\<lambda>t. t \<noteq> [] \<and> is_space (hd t) \<and> path_here (tl t)) s"

definition drive_path :: "string \<Rightarrow> bool" where
  "drive_path s = (case s of a # b # c # _ \<Rightarrow> is_letter a \<and> b = CHR '':'' \<and> c \<in> {CHR 0x5C, CHR ''/''} | _ \<Rightarrow> False)"

definition safe_token :: "pyval \<Rightarrow> string option" where
  "safe_token v = (case v of
      PStr s \<Rightarrow> if \<not> token_text s \<or> occurs flag_here s \<or> sensitive_text s
        \<or> starts_with ''/'' s \<or> starts_with [CHR 0x5C] s \<or> drive_path s then None else Some s
    | _ \<Rightarrow> None)"

definition safe_label :: "pyval \<Rightarrow> string option" where
  "safe_label v = (case v of
      PStr s \<Rightarrow> if \<not> label_text s \<or> occurs flag_here s \<or> sensitive_text s then None else Some s
    | _ \<Rightarrow> None)"

definition safe_structural_label :: "pyval \<Rightarrow> string option" where
  "safe_structural_label v = (case safe_token v of Some s \<Rightarrow> Some s | None \<Rightarrow> safe_label v)"

section \<open>Dictionaries with their keys in order\<close>

fun put :: "string \<Rightarrow> 'a \<Rightarrow> (string \<times> 'a) list \<Rightarrow> (string \<times> 'a) list" where
  "put k v [] = [(k, v)]"
| "put k v ((l, w) # d) = (if k < l then (k, v) # (l, w) # d else if k = l then (k, v) # d else (l, w) # put k v d)"

definition put_all :: "(string \<times> 'a) list \<Rightarrow> (string \<times> 'a) list \<Rightarrow> (string \<times> 'a) list" where
  "put_all kvs d = fold (\<lambda>(k, v). put k v) kvs d"

section \<open>Recursive facts\<close>

fun canonical_ok :: "pyval \<Rightarrow> bool" where
  "canonical_ok (PFloat s) = False"
| "canonical_ok (PList xs) = (\<forall>x \<in> set xs. canonical_ok x)"
| "canonical_ok (PDict kvs) = (\<forall>kv \<in> set kvs. canonical_ok (snd kv))"
| "canonical_ok _ = True"

definition raw_digest :: "digest_fn \<Rightarrow> pyval \<Rightarrow> (string \<times> nat) option" where
  "raw_digest sha v = (if canonical_ok v then Some (sha (json_utf8 v), json_size v) else None)"

definition nonempty_fact :: "pyval \<Rightarrow> bool" where
  "nonempty_fact v \<longleftrightarrow> v \<notin> {PNone, PDict [], PList []}"

definition count_key :: "string \<Rightarrow> bool" where
  "count_key l \<longleftrightarrow> l \<in> set INTEGER_KEYS \<or> ends_with_any [''_bytes'', ''_count'', ''_length'', ''_offset'', ''_port''] l"

definition token_key :: "string \<Rightarrow> bool" where
  "token_key l \<longleftrightarrow> l \<in> set TOKEN_KEYS
     \<or> ends_with_any [''_address'', ''_encoding'', ''_format'', ''_kind'', ''_name'', ''_reason'', ''_type''] l"

definition is_count :: "pyval \<Rightarrow> bool" where
  "is_count v = (case v of PInt i \<Rightarrow> 0 \<le> i | _ \<Rightarrow> False)"

definition is_hash :: "pyval \<Rightarrow> bool" where
  "is_hash v = (case v of PStr s \<Rightarrow> hex_lower 64 64 s | _ \<Rightarrow> False)"

definition hash_entries :: "(string \<times> pyval) list \<Rightarrow> (string \<times> pyval) list" where
  "hash_entries kvs = filter (\<lambda>(name, v). token_text name \<and> (case v of PStr s \<Rightarrow> hex_lower 32 128 s | _ \<Rightarrow> False))
     (sort_key fst kvs)"

definition safe_labels :: "pyval \<Rightarrow> string list" where
  "safe_labels v = (case v of PList xs \<Rightarrow> List.map_filter safe_structural_label (take 64 xs) | _ \<Rightarrow> [])"

text \<open>One key of a dictionary: \<open>nested\<close> is the projection of the value one level deeper.\<close>

definition fact_entries :: "digest_fn \<Rightarrow> pyval \<Rightarrow> string \<Rightarrow> pyval \<Rightarrow> (string \<times> pyval) list" where
  "fact_entries sha nested k v =
     (let l = py_lower k in
      if \<not> key_text k \<or> l \<in> set NEVER_RETAIN_KEYS \<or> l \<in> set PATH_KEYS then []
      else if l \<in> set RAW_DIGEST_KEYS then
        (case raw_digest sha v of
           None \<Rightarrow> []
         | Some (h, n) \<Rightarrow> [(l @ ''_sha256'', PStr h), (l @ ''_bytes'', PInt (int n))])
      else if count_key l \<and> is_count v then [(l, v)]
      else if l = ''returncode'' \<and> (case v of PInt _ \<Rightarrow> True | _ \<Rightarrow> False) then [(l, v)]
      else if l \<in> set BOOLEAN_KEYS \<and> (case v of PBool _ \<Rightarrow> True | _ \<Rightarrow> False) then [(l, v)]
      else if token_key l then (case safe_structural_label v of None \<Rightarrow> [] | Some s \<Rightarrow> [(l, PStr s)])
      else if (l \<in> set HASH_KEYS \<or> ends_with ''_sha256'' l) \<and> is_hash v then [(l, v)]
      else if l = ''hashes'' \<and> (case v of PDict _ \<Rightarrow> True | _ \<Rightarrow> False) then
        (case v of PDict kvs \<Rightarrow> (let hs = hash_entries kvs in if hs = [] then [] else [(''hashes'', PDict hs)]) | _ \<Rightarrow> [])
      else if l \<in> set TOKEN_LIST_KEYS \<and> safe_labels v \<noteq> [] then [(l, PList (map PStr (safe_labels v)))]
      else if l \<in> set CONTAINER_KEYS \<and> (case v of PDict _ \<Rightarrow> True | PList _ \<Rightarrow> True | _ \<Rightarrow> False) \<and> nonempty_fact nested
      then [(l, nested)]
      else [])"

function recursive_facts :: "digest_fn \<Rightarrow> nat \<Rightarrow> pyval \<Rightarrow> pyval" where
  "recursive_facts sha depth PNone = PNone"
| "recursive_facts sha depth (PFloat s) = PNone"
| "recursive_facts sha depth (PStr s) = PNone"
| "recursive_facts sha depth (PBool b) = (if 8 < depth then PNone else PBool b)"
| "recursive_facts sha depth (PInt i) = (if 8 < depth \<or> i < 0 then PNone else PInt i)"
| "recursive_facts sha depth (PList xs) =
     (if 8 < depth then PNone
      else PList (filter nonempty_fact (map (recursive_facts sha (depth + 1)) (take 64 xs))))"
| "recursive_facts sha depth (PDict kvs) =
     (if 8 < depth then PNone
      else PDict (put_all (concat (map (\<lambda>kv. fact_entries sha (recursive_facts sha (depth + 1) (snd kv)) (fst kv) (snd kv))
        (sort_key fst kvs))) []))"
  by pat_completeness auto

termination recursive_facts
proof (relation "measure (\<lambda>(_, _, v). size v)", goal_cases)
  case 1
  show ?case by simp
next
  case (2 sha depth xs x)
  then have "x \<in> set xs" by (auto dest: in_set_takeD)
  then show ?case by (simp add: less_Suc_eq_le size_list_estimation')
next
  case (3 sha depth kvs kv)
  then have "kv \<in> set kvs" by simp
  then show ?case using size_snd_less_PDict by simp
qed

definition dict_items :: "pyval \<Rightarrow> (string \<times> pyval) list" where
  "dict_items v = (case v of PDict kvs \<Rightarrow> kvs | _ \<Rightarrow> [])"

definition metadata_facts :: "digest_fn \<Rightarrow> (string \<times> pyval) list \<Rightarrow> (string \<times> pyval) list" where
  "metadata_facts sha result =
     (let top = dict_items (recursive_facts sha 0 (PDict (filter (\<lambda>kv. fst kv \<noteq> ''data'') result)));
          nested = recursive_facts sha 1 (dict_get result ''data'') in
      if (case dict_get result ''data'' of PDict _ \<Rightarrow> True | PList _ \<Rightarrow> True | _ \<Rightarrow> False) \<and> nonempty_fact nested
      then put ''data'' nested top else top)"

section \<open>Target responses\<close>

definition shape_text :: "string \<Rightarrow> bool" where
  "shape_text s \<longleftrightarrow> 1 \<le> length s \<and> length s \<le> 64 \<and> is_letter (hd s) \<and> list_all word_char s"

definition safe_shape_field :: "pyval \<Rightarrow> string option" where
  "safe_shape_field v = (case v of
      PStr s \<Rightarrow> (let l = py_lower s in
        if \<not> shape_text s \<or> l \<in> set NEVER_RETAIN_KEYS \<or> l \<in> set PATH_KEYS then None else Some l)
    | _ \<Rightarrow> None)"

definition sorted_set :: "string list \<Rightarrow> string list" where
  "sorted_set xs = sort (remdups xs)"

definition shape_fields :: "(string \<times> pyval) list \<Rightarrow> string list" where
  "shape_fields kvs = take 64 (sorted_set (List.map_filter (\<lambda>kv. safe_shape_field (PStr (fst kv))) kvs))"

definition kind_shape :: "string \<Rightarrow> pyval" where
  "kind_shape x = PDict [(''kind'', PStr x)]"

definition payload_shape :: "pyval \<Rightarrow> pyval" where
  "payload_shape v = (case v of
      PDict kvs \<Rightarrow> PDict [(''field_count'', PInt (int (length kvs))), (''fields'', PList (map PStr (shape_fields kvs))),
        (''kind'', PStr ''object'')]
    | PList xs \<Rightarrow> PDict [(''item_count'', PInt (int (length xs))), (''kind'', PStr ''array'')]
    | PNone \<Rightarrow> kind_shape ''null'' | PBool _ \<Rightarrow> kind_shape ''boolean'' | PInt _ \<Rightarrow> kind_shape ''integer''
    | PStr _ \<Rightarrow> kind_shape ''string'' | PFloat _ \<Rightarrow> kind_shape ''bytes'')"

definition sorted_fields :: "pyval list \<Rightarrow> bool" where
  "sorted_fields xs \<longleftrightarrow> list_all (\<lambda>x. safe_shape_field x \<noteq> None) xs
     \<and> (let ss = List.map_filter (\<lambda>x. case x of PStr s \<Rightarrow> Some s | _ \<Rightarrow> None) xs in ss = sorted_set ss)"

definition SHAPE_KINDS :: "string list" where
  "SHAPE_KINDS = [''array'', ''boolean'', ''bytes'', ''integer'', ''null'', ''object'', ''string'', ''text'']"

definition validated_payload_shape :: "pyval \<Rightarrow> pyval option" where
  "validated_payload_shape v = (case v of
      PDict kvs \<Rightarrow>
        if \<not> fst ` set kvs \<subseteq> {''field_count'', ''fields'', ''item_count'', ''kind''} then None
        else (case dict_get kvs ''kind'' of
            PStr x \<Rightarrow>
              if x \<notin> set SHAPE_KINDS then None
              else if x = ''object'' then
                (case (dict_get kvs ''field_count'', dict_get kvs ''fields'') of
                   (PInt n, PList xs) \<Rightarrow> if n < 0 \<or> \<not> sorted_fields xs then None
                     else Some (PDict [(''field_count'', PInt n), (''fields'', PList xs), (''kind'', PStr x)])
                 | _ \<Rightarrow> None)
              else if x = ''array'' then
                (case dict_get kvs ''item_count'' of
                   PInt n \<Rightarrow> if n < 0 then None else Some (PDict [(''item_count'', PInt n), (''kind'', PStr x)])
                 | _ \<Rightarrow> None)
              else if length kvs \<noteq> 1 then None else Some (kind_shape x)
          | _ \<Rightarrow> None)
    | _ \<Rightarrow> None)"

definition target_payload ::
  "(string \<Rightarrow> pyval option) \<Rightarrow> (string \<Rightarrow> string option) \<Rightarrow> (string \<times> pyval) list \<Rightarrow> (string \<times> string \<times> pyval) option" where
  "target_payload loads b64 result =
     (case dict_get result ''text'' of
        PStr t \<Rightarrow> Some (utf8_bytes t, ''utf8'', case loads t of None \<Rightarrow> kind_shape ''text'' | Some v \<Rightarrow> payload_shape v)
      | _ \<Rightarrow> (case dict_get result ''data_base64'' of
          PStr e \<Rightarrow> map_option (\<lambda>p. (p, ''base64-decoded'', kind_shape ''bytes'')) (b64 e)
        | _ \<Rightarrow> (case find (has_key result) [''body'', ''content'', ''data'', ''output'', ''result''] of
            None \<Rightarrow> None
          | Some name \<Rightarrow> (case dict_get result name of
              PStr s \<Rightarrow> Some (utf8_bytes s, ''utf8'', kind_shape ''text'')
            | v \<Rightarrow> if canonical_ok v then Some (json_utf8 v, ''canonical-json'', payload_shape v) else None))))"

definition TARGET_PAYLOAD_DOMAIN_LABEL :: string where
  "TARGET_PAYLOAD_DOMAIN_LABEL = ''rapido-target-response-payload-v1''"

definition TARGET_PAYLOAD_DOMAIN :: string where
  "TARGET_PAYLOAD_DOMAIN = TARGET_PAYLOAD_DOMAIN_LABEL @ [CHR 0x00]"

definition domain_digest :: "digest_fn \<Rightarrow> string \<Rightarrow> string \<Rightarrow> string" where
  "domain_digest sha domain payload = sha (domain @ payload)"

definition target_entries :: "string \<Rightarrow> pyval \<Rightarrow> (string \<times> pyval) list" where
  "target_entries k v =
     (let l = py_lower k in
      if l \<in> set NEVER_RETAIN_KEYS \<or> l \<in> set PATH_KEYS then []
      else if (l \<in> set INTEGER_KEYS \<or> l = ''status'' \<or> ends_with_any [''_bytes'', ''_count'', ''_index'', ''_length''] l) \<and> is_count v
        \<or> l \<in> set BOOLEAN_KEYS \<and> (case v of PBool _ \<Rightarrow> True | _ \<Rightarrow> False) then [(l, v)]
      else if l \<in> {''encoding'', ''status'', ''type''} then (case safe_token v of None \<Rightarrow> [] | Some s \<Rightarrow> [(l, PStr s)])
      else if l = ''payload_sha256'' \<and> is_hash v \<or> l = ''payload_digest_domain'' \<and> v = PStr TARGET_PAYLOAD_DOMAIN_LABEL
        \<or> l = ''payload_representation'' \<and> v \<in> {PStr ''base64-decoded'', PStr ''canonical-json'', PStr ''utf8''} then [(l, v)]
      else if l = ''payload_shape'' then (case validated_payload_shape v of None \<Rightarrow> [] | Some x \<Rightarrow> [(l, x)])
      else if l = ''response_fields'' \<and> (case v of PList xs \<Rightarrow> sorted_fields xs | _ \<Rightarrow> False) then [(l, v)]
      else [])"

definition target_metadata ::
  "digest_fn \<Rightarrow> (string \<Rightarrow> pyval option) \<Rightarrow> (string \<Rightarrow> string option) \<Rightarrow> (string \<times> pyval) list \<Rightarrow> (string \<times> pyval) list" where
  "target_metadata sha loads b64 result =
     (let base = put_all (concat (map (\<lambda>kv. target_entries (fst kv) (snd kv)) (sort_key fst result))) [];
          fields = shape_fields result;
          named = (if has_key base ''response_fields'' \<or> fields = [] then base
                   else put ''response_fields'' (PList (map PStr fields)) base) in
      case target_payload loads b64 result of
        None \<Rightarrow> named
      | Some (payload, representation, shape) \<Rightarrow>
          put_all [(''payload_bytes'', PInt (int (length payload))),
            (''payload_digest_domain'', PStr TARGET_PAYLOAD_DOMAIN_LABEL),
            (''payload_representation'', PStr representation),
            (''payload_sha256'', PStr (domain_digest sha TARGET_PAYLOAD_DOMAIN payload)),
            (''payload_shape'', shape)] named)"

section \<open>Observations\<close>

text \<open>The texts of a document in the order of a visit, dictionaries by their keys.\<close>

function texts_of :: "pyval \<Rightarrow> string list" where
  "texts_of (PStr s) = [s]"
| "texts_of (PList xs) = concat (map texts_of xs)"
| "texts_of (PDict kvs) = concat (map (\<lambda>kv. texts_of (snd kv)) (sort_key fst kvs))"
| "texts_of PNone = []"
| "texts_of (PBool b) = []"
| "texts_of (PInt i) = []"
| "texts_of (PFloat s) = []"
  by pat_completeness auto

termination texts_of
proof (relation "measure size", goal_cases)
  case 1
  show ?case by simp
next
  case (2 xs x)
  then show ?case by (simp add: less_Suc_eq_le size_list_estimation')
next
  case (3 kvs kv)
  then have "kv \<in> set kvs" by simp
  then show ?case using size_snd_less_PDict by simp
qed

definition contains_candidate :: "pyval \<Rightarrow> bool" where
  "contains_candidate v = occurs flag_here (concat (texts_of v))"

record stdlib =
  lib_sha :: digest_fn
  lib_loads :: "string \<Rightarrow> pyval option"
  lib_b64 :: "string \<Rightarrow> string option"

definition facts_for_tool :: "stdlib \<Rightarrow> string \<Rightarrow> (string \<times> pyval) list \<Rightarrow> (string \<times> pyval) list" where
  "facts_for_tool lib tool facts =
     (if tool = ''unknown_tool'' then []
      else if tool \<in> set TARGET_TOOLS then target_metadata (lib_sha lib) (lib_loads lib) (lib_b64 lib) facts
      else if tool \<in> set METADATA_TOOLS then metadata_facts (lib_sha lib) facts
      else dict_items (recursive_facts (lib_sha lib) 0 (PDict facts)))"

definition canonical_tool :: "string \<Rightarrow> string" where
  "canonical_tool tool = (if tool \<in> set KNOWN_TOOLS then tool else ''unknown_tool'')"

record host_observation =
  ob_tool :: string
  ob_success :: "bool option"
  ob_source_bound :: bool
  ob_facts :: "(string \<times> pyval) list"
  ob_hashes :: "string list"
  ob_supplied :: "string list"
  ob_sensitive :: bool

definition observed_facts :: "stdlib \<Rightarrow> bool option \<Rightarrow> string \<Rightarrow> (string \<times> pyval) list \<Rightarrow> (string \<times> pyval) list" where
  "observed_facts lib success tool facts =
     (if success = Some False then dict_items (recursive_facts (lib_sha lib) 0 (PDict facts)) else facts_for_tool lib tool facts)"

definition validated_facts :: "stdlib \<Rightarrow> host_observation \<Rightarrow> (string \<times> pyval) list" where
  "validated_facts lib o' =
     (let facts = observed_facts lib (ob_success o') (canonical_tool (ob_tool o')) (ob_facts o') in
      if contains_candidate (PDict facts) then [] else facts)"

definition MAX_HOST_RESULT_BYTES :: nat where
  "MAX_HOST_RESULT_BYTES = 128 * 1024"

definition first_error :: "unit result list \<Rightarrow> unit result" where
  "first_error rs = (case find (\<lambda>r. \<not> is_ok r) rs of None \<Rightarrow> Inr () | Some r \<Rightarrow> r)"

text \<open>Freezing copies a value; what matters is whether and how it is refused.\<close>

function freeze_json :: "nat \<Rightarrow> pyval \<Rightarrow> unit result" where
  "freeze_json depth PNone = ensure (depth \<le> 32) (ValueError ''host observation exceeds the nesting limit'')"
| "freeze_json depth (PBool b) = ensure (depth \<le> 32) (ValueError ''host observation exceeds the nesting limit'')"
| "freeze_json depth (PInt i) = ensure (depth \<le> 32) (ValueError ''host observation exceeds the nesting limit'')"
| "freeze_json depth (PStr s) = ensure (depth \<le> 32) (ValueError ''host observation exceeds the nesting limit'')"
| "freeze_json depth (PFloat s) =
     (if 32 < depth then Inl (ValueError ''host observation exceeds the nesting limit'')
      else Inl (TypeError ''host observation floats are not canonical evidence''))"
| "freeze_json depth (PDict kvs) =
     (if 32 < depth then Inl (ValueError ''host observation exceeds the nesting limit'')
      else if 512 < length kvs then Inl (ValueError ''host observation contains invalid object keys'')
      else first_error (map (\<lambda>kv. freeze_json (depth + 1) (snd kv)) kvs))"
| "freeze_json depth (PList xs) =
     (if 32 < depth then Inl (ValueError ''host observation exceeds the nesting limit'')
      else if 2000 < length xs then Inl (ValueError ''host observation contains an oversized sequence'')
      else first_error (map (freeze_json (depth + 1)) xs))"
  by pat_completeness auto

termination freeze_json
proof (relation "measure (\<lambda>(_, v). size v)", goal_cases)
  case 1
  show ?case by simp
next
  case (2 depth kvs kv)
  then show ?case using size_snd_less_PDict by simp
next
  case (3 depth xs x)
  then show ?case by (simp add: less_Suc_eq_le size_list_estimation')
qed

definition tool_text :: "string \<Rightarrow> bool" where
  "tool_text s \<longleftrightarrow> 1 \<le> length s \<and> length s \<le> 96
     \<and> list_all (\<lambda>c. 97 \<le> (of_char c :: nat) \<and> (of_char c :: nat) \<le> 122 \<or> is_digit c \<or> c = CHR ''_'') s"

definition check_hashes :: "string \<Rightarrow> string list \<Rightarrow> unit result" where
  "check_hashes name hashes = ensure (length hashes \<le> 20 \<and> list_all (hex_lower 64 64) hashes)
     (ValueError (name @ '' must contain at most 20 lowercase SHA-256 digests''))"

definition construct_observation :: "host_observation \<Rightarrow> host_observation result" where
  "construct_observation o' =
     (if \<not> tool_text (ob_tool o') then Inl (ValueError ''host observation tool name is invalid'')
      else bind_result (freeze_json 0 (PDict (ob_facts o'))) (\<lambda>_.
        if MAX_HOST_RESULT_BYTES < json_size (PDict (ob_facts o'))
        then Inl (ValueError ''host observation facts exceed the bounded result limit'')
        else bind_result (check_hashes ''candidate_sha256s'' (ob_hashes o')) (\<lambda>_.
          bind_result (check_hashes ''supplied_candidate_sha256s'' (ob_supplied o')) (\<lambda>_.
          Inr (o'\<lparr>ob_sensitive := ob_sensitive o' \<or> ob_hashes o' \<noteq> [] \<or> ob_supplied o' \<noteq> []\<rparr>)))))"

definition project_tool_observation ::
  "stdlib \<Rightarrow> string \<Rightarrow> bool option \<Rightarrow> bool \<Rightarrow> (string \<times> pyval) list option \<Rightarrow> string list \<Rightarrow> string list \<Rightarrow> bool
     \<Rightarrow> host_observation result" where
  "project_tool_observation lib name success source_bound result hashes supplied sensitive =
     (let tool = canonical_tool name;
          unless_candidate = (\<lambda>facts. if contains_candidate (PDict facts) then [] else facts);
          facts = (case result of
              None \<Rightarrow> []
            | Some r \<Rightarrow>
                if success = Some False then dict_items (recursive_facts (lib_sha lib) 0 (PDict r))
                else if success = Some True \<and> source_bound then
                  (if tool \<in> set TARGET_TOOLS then target_metadata (lib_sha lib) (lib_loads lib) (lib_b64 lib) r
                   else if tool \<in> set METADATA_TOOLS then unless_candidate (metadata_facts (lib_sha lib) r)
                   else if tool \<in> set (DERIVATION_TOOLS @ EXECUTION_TOOLS)
                   then unless_candidate (dict_items (recursive_facts (lib_sha lib) 0 (PDict r)))
                   else [])
                else []) in
      if \<not> tool_text name then Inl (ValueError ''tool name is invalid'')
      else construct_observation \<lparr>ob_tool = tool, ob_success = success, ob_source_bound = source_bound, ob_facts = facts,
        ob_hashes = hashes, ob_supplied = supplied, ob_sensitive = sensitive\<rparr>)"

end
