(* ===== verification/Evidence_Projection.thy ===== *)
theory Evidence_Projection
  imports Evidence_Facts
begin

text \<open>
  Projecting evidence twice is projecting it once, for the recursive projection and for target responses, and what
  a projection can hold. Both rest on the case rules \<open>fact_entry_cases\<close> and \<open>target_entry_cases\<close>, which say what
  the entry of one key is. A stored observation is validated again when it is loaded, so the first is what lets
  a manifest be read back.
\<close>

section \<open>Ordered dictionaries\<close>

lemma set_fst_put: "fst ` set (put k v d) = insert k (fst ` set d)"
proof (induction d)
  case (Cons lw d)
  then show ?case by (cases lw) (simp split: if_split, blast)
qed simp

lemma set_put: "set (put k v d) \<subseteq> insert (k, v) (set d)"
proof (induction d)
  case (Cons lw d)
  then show ?case by (cases lw) (auto split: if_split_asm)
qed simp

definition ordered :: "(string \<times> 'a) list \<Rightarrow> bool" where
  "ordered d \<longleftrightarrow> sorted_wrt (<) (map fst d)"

lemma ordered_simps [simp]:
  "ordered []"
  "ordered (kv # d) \<longleftrightarrow> (\<forall>l \<in> fst ` set d. fst kv < l) \<and> ordered d"
  by (simp_all add: ordered_def)

lemma ordered_append: "ordered (d @ e) \<longleftrightarrow> ordered d \<and> ordered e \<and> (\<forall>k \<in> fst ` set d. \<forall>l \<in> fst ` set e. k < l)"
  by (auto simp: ordered_def sorted_wrt_append)

lemma ordered_put: "ordered d \<Longrightarrow> ordered (put k v d)"
proof (induction d)
  case (Cons lw d)
  obtain l w where lw: "lw = (l, w)" by (cases lw)
  consider "k < l" | "k = l" | "l < k" by (rule linorder_cases)
  then show ?case
  proof cases
    case 1
    then have "\<forall>x \<in> fst ` set d. k < x" using Cons.prems lw by auto
    with 1 Cons.prems show ?thesis by (simp add: lw)
  next
    case 3
    then have "put k v (lw # d) = lw # put k v d" by (cases "k < l") (auto simp: lw dest: order.asym)
    moreover have "ordered (put k v d)" using Cons by simp
    ultimately show ?thesis using 3 Cons.prems by (simp add: lw set_fst_put)
  qed (use Cons.prems lw in simp)
qed simp

lemma put_all_Nil [simp]: "put_all [] d = d"
  by (simp add: put_all_def)

lemma put_all_Cons [simp]: "put_all ((k, v) # kvs) d = put_all kvs (put k v d)"
  by (simp add: put_all_def)

lemma put_all_append: "put_all (xs @ ys) d = put_all ys (put_all xs d)"
  by (simp add: put_all_def)

lemma set_put_all: "set (put_all kvs d) \<subseteq> set kvs \<union> set d"
proof (induction kvs arbitrary: d)
  case (Cons kv kvs)
  obtain k v where kv: "kv = (k, v)" by (cases kv)
  have "set (put_all kvs (put k v d)) \<subseteq> set kvs \<union> set (put k v d)" by (rule Cons.IH)
  with set_put [of k v d] kv show ?case by auto
qed simp

lemma keys_put_all: "fst ` set (put_all kvs d) = fst ` set kvs \<union> fst ` set d"
proof (induction kvs arbitrary: d)
  case (Cons kv kvs)
  then show ?case by (cases kv) (simp add: set_fst_put)
qed simp

lemma ordered_put_all: "ordered d \<Longrightarrow> ordered (put_all kvs d)"
proof (induction kvs arbitrary: d)
  case (Cons kv kvs)
  then show ?case by (cases kv) (simp add: ordered_put)
qed simp

lemma put_snoc: "\<forall>x \<in> fst ` set d. x < k \<Longrightarrow> put k v d = d @ [(k, v)]"
proof (induction d)
  case (Cons lw d)
  then show ?case by (cases lw) auto
qed simp

lemma put_all_ordered: "ordered (d @ kvs) \<Longrightarrow> put_all kvs d = d @ kvs"
proof (induction kvs arbitrary: d)
  case (Cons kv kvs)
  obtain k v where kv: "kv = (k, v)" by (cases kv)
  have "\<forall>x \<in> fst ` set d. x < k"
    using Cons.prems kv by (simp add: ordered_append)
  then have "put k v d = d @ [(k, v)]" by (rule put_snoc)
  with Cons.IH [of "d @ [(k, v)]"] Cons.prems kv show ?case by simp
qed simp

lemma put_all_id: "ordered d \<Longrightarrow> put_all d [] = d"
  using put_all_ordered [of "[]" d] by simp

lemma sort_key_id: "sorted (map f xs) \<Longrightarrow> sort_key f xs = xs"
  by (induction xs) (auto simp: insort_is_Cons)

text \<open>A dictionary all of whose entries reproduce themselves is reproduced.\<close>

lemma ordered_sorted: "ordered d \<Longrightarrow> sorted (map fst d)"
  unfolding ordered_def by (rule strict_sorted_imp_sorted)

lemma put_all_reproduces:
  assumes "ordered d" "\<And>kv. kv \<in> set d \<Longrightarrow> f kv = [kv]"
  shows "put_all (concat (map f (sort_key fst d))) [] = d"
proof -
  have "concat (map f d) = d" using assms(2) by (induction d) auto
  then show ?thesis using assms(1) by (simp add: sort_key_id put_all_id ordered_sorted)
qed

section \<open>Projected keys and values are projected to themselves\<close>

lemma lower_word_char:
  assumes "word_char c"
  shows "lower_char (lower_char c) = lower_char c \<and> word_char (lower_char c)"
proof -
  define n where "n = (of_char c :: nat)"
  have c: "c = char_of n" by (simp add: n_def)
  have us: "(of_char CHR ''_'' :: nat) = 95" by simp
  have "n = 95" if "c = CHR ''_''" using that us by (simp only: n_def)
  then have "n = 95 \<or> 65 \<le> n \<and> n \<le> 90 \<or> 97 \<le> n \<and> n \<le> 122 \<or> 48 \<le> n \<and> n \<le> 57"
    using assms by (auto simp: word_char_def is_letter_def is_digit_def n_def Let_def)
  moreover have "c = CHR ''_''" if "n = 95"
    using that us of_char_eq_iff [where 'a = nat, of c "CHR ''_''"] by (simp add: n_def del: of_char_eq_iff)
  ultimately show ?thesis
    by (auto simp: lower_char_def word_char_def is_letter_def is_digit_def Let_def n_def [symmetric])
qed

lemma lower_key:
  assumes "list_all word_char k"
  shows "py_lower (py_lower k) = py_lower k" "list_all word_char (py_lower k)" "length (py_lower k) = length k"
  using assms lower_word_char by (auto simp: py_lower_def list_all_iff)

lemma key_text_lower: "key_text k \<Longrightarrow> key_text (py_lower k) \<and> py_lower (py_lower k) = py_lower k"
  using lower_key by (simp add: key_text_def)

lemma safe_token_Some: "safe_token v = Some s \<Longrightarrow> v = PStr s"
  by (auto simp: safe_token_def split: pyval.split_asm if_split_asm)

lemma safe_label_Some: "safe_label v = Some s \<Longrightarrow> v = PStr s"
  by (auto simp: safe_label_def split: pyval.split_asm if_split_asm)

lemma safe_structural_label_Some: "safe_structural_label v = Some s \<Longrightarrow> v = PStr s"
  by (auto simp: safe_structural_label_def dest: safe_token_Some safe_label_Some split: option.split_asm)

lemma map_filter_labels:
  "List.map_filter safe_structural_label (map PStr (List.map_filter safe_structural_label xs))
   = List.map_filter safe_structural_label xs"
proof (induction xs)
  case (Cons x xs)
  then show ?case
  proof (cases "safe_structural_label x")
    case (Some a)
    with safe_structural_label_Some [OF Some] have "safe_structural_label (PStr a) = Some a" by simp
    with Cons Some show ?thesis by (simp add: List.map_filter_simps)
  qed (simp add: List.map_filter_simps)
qed (simp add: List.map_filter_simps)

lemma length_map_filter: "length (List.map_filter f xs) \<le> length xs"
  by (induction xs) (auto simp: List.map_filter_simps split: option.split)

lemma safe_labels_again: "safe_labels (PList (map PStr (safe_labels v))) = safe_labels v"
proof (cases v)
  case (PList xs)
  have "length (List.map_filter safe_structural_label (take 64 xs)) \<le> 64"
    using length_map_filter [of safe_structural_label "take 64 xs"] by simp
  with PList show ?thesis by (simp add: safe_labels_def take_map map_filter_labels)
qed (simp_all add: safe_labels_def List.map_filter_simps)

lemma recursive_facts_not_text: "recursive_facts sha depth v \<noteq> PStr s"
  by (cases v) simp_all

lemma map_filter_none: "\<forall>x \<in> set xs. f x = None \<Longrightarrow> List.map_filter f xs = []"
  by (induction xs) (simp_all add: List.map_filter_simps)

lemma safe_labels_projected:
  "safe_labels (recursive_facts sha depth v) = []"
proof (cases "recursive_facts sha depth v")
  case (PList ys)
  have "\<exists>xs. ys = filter nonempty_fact (map (recursive_facts sha (depth + 1)) xs)"
    using PList by (cases v) (auto split: if_split_asm)
  then obtain xs where ys: "ys = filter nonempty_fact (map (recursive_facts sha (depth + 1)) xs)" by blast
  have "safe_structural_label y = None" if "y \<in> set ys" for y
  proof (rule ccontr)
    assume "safe_structural_label y \<noteq> None"
    then obtain s where "y = PStr s" using safe_structural_label_Some by blast
    moreover have "y \<in> recursive_facts sha (depth + 1) ` set xs" using that ys by (simp add: image_iff)
    then obtain x where "y = recursive_facts sha (depth + 1) x" by blast
    ultimately show False using recursive_facts_not_text by metis
  qed
  then have "\<forall>y \<in> set (take 64 ys). safe_structural_label y = None" by (blast dest: in_set_takeD)
  with PList show ?thesis by (simp add: safe_labels_def map_filter_none)
qed (simp_all add: safe_labels_def)

lemma hash_entries_again: "hash_entries (hash_entries kvs) = hash_entries kvs"
proof -
  have "sorted (map fst (hash_entries kvs))"
    unfolding hash_entries_def by (rule sorted_filter) simp
  then show ?thesis by (subst hash_entries_def) (simp add: sort_key_id hash_entries_def)
qed


section \<open>Projection is stable\<close>

definition hex_digests :: "digest_fn \<Rightarrow> bool" where
  "hex_digests sha \<longleftrightarrow> (\<forall>x. hex_lower 64 64 (sha x))"

text \<open>The keys under which the digest and the length of a value are kept are of their own kinds only.\<close>

definition plain_key :: "string \<Rightarrow> bool" where
  "plain_key l \<longleftrightarrow> key_text l \<and> py_lower l = l \<and> l \<notin> set NEVER_RETAIN_KEYS \<and> l \<notin> set PATH_KEYS \<and> l \<notin> set RAW_DIGEST_KEYS"

lemma raw_key_kinds:
  assumes "l \<in> set RAW_DIGEST_KEYS"
  shows "plain_key (l @ ''_sha256'')" "plain_key (l @ ''_bytes'')"
    "\<not> count_key (l @ ''_sha256'')" "l @ ''_sha256'' \<noteq> ''returncode''" "\<not> token_key (l @ ''_sha256'')"
    "ends_with ''_sha256'' (l @ ''_sha256'')" "count_key (l @ ''_bytes'')"
proof -
  have "list_all (\<lambda>l. plain_key (l @ ''_sha256'') \<and> plain_key (l @ ''_bytes'') \<and> \<not> count_key (l @ ''_sha256'')
      \<and> l @ ''_sha256'' \<noteq> ''returncode'' \<and> \<not> token_key (l @ ''_sha256'') \<and> ends_with ''_sha256'' (l @ ''_sha256'')
      \<and> count_key (l @ ''_bytes'')) RAW_DIGEST_KEYS" by code_simp
  with assms show "plain_key (l @ ''_sha256'')" "plain_key (l @ ''_bytes'')"
    "\<not> count_key (l @ ''_sha256'')" "l @ ''_sha256'' \<noteq> ''returncode''" "\<not> token_key (l @ ''_sha256'')"
    "ends_with ''_sha256'' (l @ ''_sha256'')" "count_key (l @ ''_bytes'')"
    by (simp_all add: list_all_iff)
qed

lemma raw_entries:
  assumes "l \<in> set RAW_DIGEST_KEYS"
  shows "hex_lower 64 64 h \<Longrightarrow> fact_entries sha w (l @ ''_sha256'') (PStr h) = [(l @ ''_sha256'', PStr h)]"
    "fact_entries sha w (l @ ''_bytes'') (PInt (int n)) = [(l @ ''_bytes'', PInt (int n))]"
  using raw_key_kinds [OF assms] by (simp_all add: fact_entries_def plain_key_def is_count_def is_hash_def)

lemma hashes_key: "\<not> count_key ''hashes''" "\<not> token_key ''hashes''" "''hashes'' \<notin> set BOOLEAN_KEYS"
  "\<not> ends_with ''_sha256'' ''hashes''" "''hashes'' \<notin> set HASH_KEYS" "plain_key ''hashes''"
  "''hashes'' \<notin> set CONTAINER_KEYS" "''hashes'' \<notin> set TOKEN_LIST_KEYS" 
  by code_simp+

lemma list_keys: "l \<in> set TOKEN_LIST_KEYS \<Longrightarrow> l \<noteq> ''hashes''" "l \<in> set CONTAINER_KEYS \<Longrightarrow> l \<noteq> ''hashes''"
  using hashes_key by auto

text \<open>What an entry is, by the branch that makes it.\<close>

lemma fact_entry_cases [consumes 1]:
  assumes "(m, x) \<in> set (fact_entries sha w k v)"
  obtains (digest) l h where "l \<in> set RAW_DIGEST_KEYS" "m = l @ ''_sha256''" "x = PStr (sha h)"
  | (length) l n where "l \<in> set RAW_DIGEST_KEYS" "m = l @ ''_bytes''" "x = PInt (int n)"
  | (count) "plain_key m" "count_key m" "is_count x" "x = v"
  | (returned) i where "plain_key m" "m = ''returncode''" "x = PInt i" "v = x" "\<not> (count_key m \<and> is_count x)"
  | (flag) b where "plain_key m" "m \<in> set BOOLEAN_KEYS" "x = PBool b" "v = x"
  | (label) s where "plain_key m" "token_key m" "x = PStr s" "safe_structural_label x = Some s" "v = x"
  | (hash) s where "plain_key m" "\<not> token_key m" "m \<in> set HASH_KEYS \<or> ends_with ''_sha256'' m" "x = PStr s" "hex_lower 64 64 s" "v = x"
  | (hashes) kvs where "m = ''hashes''" "v = PDict kvs" "x = PDict (hash_entries kvs)" "hash_entries kvs \<noteq> []"
  | (labels) "plain_key m" "\<not> token_key m" "m \<in> set TOKEN_LIST_KEYS" "x = PList (map PStr (safe_labels v))" "safe_labels v \<noteq> []"
  | (container) "plain_key m" "\<not> token_key m" "m \<in> set CONTAINER_KEYS" "x = w" "nonempty_fact w"
      "(\<exists>kvs. v = PDict kvs) \<or> (\<exists>xs. v = PList xs)"
proof -
  define l where "l = py_lower k"
  note e = assms [unfolded fact_entries_def Let_def, folded l_def]
  have key: "key_text k" "l \<notin> set NEVER_RETAIN_KEYS" "l \<notin> set PATH_KEYS" using e by (auto split: if_split_asm)
  show thesis
  proof (cases "l \<in> set RAW_DIGEST_KEYS")
    case True
    with e key digest [OF True] length [OF True] show thesis
      by (auto simp: raw_digest_def split: option.split_asm if_split_asm)
  next
    case raw: False
    then have plain: "plain_key l" using key key_text_lower [of k] by (simp add: plain_key_def l_def)
    show thesis
    proof (cases "count_key l \<and> is_count v")
      case True
      with e key raw plain show thesis by (intro count) auto
    next
      case c: False
      note e1 = e [simplified key raw c if_False if_True not_True_eq_False simp_thms]
      show thesis
      proof (cases "token_key l")
        case True
        note e2 = e1 [simplified True if_False if_True simp_thms]
        show thesis
        proof (cases "safe_structural_label v")
          case None
          with e2 c plain show thesis by (auto intro: returned flag split: if_split_asm pyval.split_asm)
        next
          case (Some s)
          note v = safe_structural_label_Some [OF Some]
          have "m = l" "x = PStr s" using e2 Some v by auto
          then show thesis using Some v plain True by (intro label) simp_all
        qed
      next
        case t: False
        note e2 = e1 [simplified t if_False if_True simp_thms]
        from e2 c plain t show thesis
          by (auto intro: returned flag hash hashes labels container simp: is_hash_def Let_def
              split: if_split_asm pyval.split_asm)
      qed
    qed
  qed
qed


text \<open>Projected entries are projected to themselves.\<close>

lemma entry_again:
  assumes m: "(m, x) \<in> set (fact_entries sha (recursive_facts sha depth v) k v)" and sha: "hex_digests sha"
    and again: "recursive_facts sha depth (recursive_facts sha depth v) = recursive_facts sha depth v"
  shows "fact_entries sha (recursive_facts sha depth x) m x = [(m, x)]"
  using m
proof (cases rule: fact_entry_cases)
  case (digest l h)
  with raw_entries(1) [OF digest(1)] sha show ?thesis by (simp add: hex_digests_def)
next
  case (length l n)
  with raw_entries(2) [OF length(1)] show ?thesis by simp
next
  case (hashes kvs)
  with hashes_key show ?thesis
    by (simp add: fact_entries_def plain_key_def is_hash_def hash_entries_again)
next
  case labels
  with list_keys(1) [OF labels(3)] show ?thesis
    by (simp add: fact_entries_def plain_key_def is_count_def is_hash_def safe_labels_again)
next
  case container
  have "(\<exists>kvs. x = PDict kvs) \<or> (\<exists>xs. x = PList xs)"
    using container by (auto simp: nonempty_fact_def split: if_split_asm)
  with container again list_keys(2) [OF container(3)] show ?thesis
    by (auto simp: fact_entries_def plain_key_def is_count_def is_hash_def safe_labels_projected)
qed (auto simp: fact_entries_def plain_key_def is_count_def is_hash_def)

lemma concat_entry: "kv \<in> set (put_all (concat (map f kvs)) []) \<Longrightarrow> \<exists>k' \<in> set kvs. kv \<in> set (f k')"
  using set_put_all [of "concat (map f kvs)" "[]"] by auto

lemma recursive_facts_stable:
  assumes "hex_digests sha"
  shows "recursive_facts sha depth (recursive_facts sha depth v) = recursive_facts sha depth v"
  using assms
proof (induction sha depth v rule: recursive_facts.induct)
  case (6 sha depth xs)
  show ?case
  proof (cases "8 < depth")
    case False
    let ?ys = "filter nonempty_fact (map (recursive_facts sha (depth + 1)) (take 64 xs))"
    have "length ?ys \<le> 64" using length_filter_le [of nonempty_fact "map (recursive_facts sha (depth + 1)) (take 64 xs)"] by simp
    moreover have "recursive_facts sha (depth + 1) y = y" if y: "y \<in> set ?ys" for y
    proof -
      obtain x where x: "x \<in> set (take 64 xs)" "y = recursive_facts sha (depth + 1) x" using y by auto
      from 6(1) [OF False x(1) 6(2)] show ?thesis by (simp only: x(2))
    qed
    then have "map (recursive_facts sha (depth + 1)) ?ys = ?ys" by (rule map_idI)
    moreover have "filter nonempty_fact ?ys = ?ys" by simp
    ultimately show ?thesis using False by simp
  qed simp
next
  case (7 sha depth kvs)
  show ?case
  proof (cases "8 < depth")
    case False
    let ?f = "\<lambda>kv. fact_entries sha (recursive_facts sha (depth + 1) (snd kv)) (fst kv) (snd kv)"
    let ?d = "put_all (concat (map ?f (sort_key fst kvs))) []"
    have "?f kv = [kv]" if entry: "kv \<in> set ?d" for kv
    proof -
      obtain k' where k': "k' \<in> set kvs" "kv \<in> set (?f k')" using concat_entry [OF entry] by auto
      obtain m x where kv: "kv = (m, x)" by (cases kv)
      have "recursive_facts sha (depth + 1) (recursive_facts sha (depth + 1) (snd k')) = recursive_facts sha (depth + 1) (snd k')"
        using 7 False k'(1) by simp
      from entry_again [OF _ 7(2) this] k'(2) kv show ?thesis by simp
    qed
    moreover have "ordered ?d" by (rule ordered_put_all) simp
    ultimately have "put_all (concat (map ?f (sort_key fst ?d))) [] = ?d" by (intro put_all_reproduces) auto
    with False show ?thesis by simp
  qed simp
qed simp_all


lemma fact_entry_key:
  assumes "(m, x) \<in> set (fact_entries sha w k v)"
  shows "plain_key m"
  using assms by (cases rule: fact_entry_cases) (auto simp: raw_key_kinds hashes_key)

lemma projected_dict: "recursive_facts sha 0 (PDict kvs) = PDict (dict_items (recursive_facts sha 0 (PDict kvs)))"
  by (simp add: dict_items_def)

lemma projected_keys:
  assumes "kv \<in> set (dict_items (recursive_facts sha 0 (PDict kvs)))"
  shows "plain_key (fst kv)"
proof -
  obtain k' where "kv \<in> set (fact_entries sha (recursive_facts sha 1 (snd k')) (fst k') (snd k'))"
    using concat_entry [OF assms [unfolded dict_items_def, simplified]] by auto
  then show ?thesis using fact_entry_key [of "fst kv" "snd kv"] by simp
qed

lemma ordered_projected: "ordered (dict_items (recursive_facts sha 0 (PDict kvs)))"
  by (simp add: dict_items_def ordered_put_all)

text \<open>The key \<open>data\<close> is a raw key, so the projection of the other keys never holds it.\<close>

lemma projected_without_data:
  "filter (\<lambda>kv. fst kv \<noteq> ''data'') (dict_items (recursive_facts sha 0 (PDict kvs))) = dict_items (recursive_facts sha 0 (PDict kvs))"
proof -
  have "\<not> plain_key ''data''" by code_simp
  then show ?thesis using projected_keys by (fastforce simp: filter_id_conv)
qed

lemma filter_put: "\<forall>kv \<in> set d. fst kv \<noteq> k \<Longrightarrow> filter (\<lambda>kv. fst kv \<noteq> k) (put k v d) = d"
proof (induction d)
  case (Cons lw d)
  then show ?case by (cases lw) (auto simp: filter_id_conv)
qed simp

lemma dict_get_put: "dict_get (put k v d) k = v"
proof (induction d)
  case (Cons lw d)
  then show ?case by (cases lw) (simp add: dict_get_def)
qed (simp add: dict_get_def)

lemma dict_get_absent: "\<forall>kv \<in> set d. fst kv \<noteq> k \<Longrightarrow> dict_get d k = PNone"
  by (induction d) (auto simp: dict_get_def)

lemma metadata_facts_stable:
  assumes "hex_digests sha"
  shows "metadata_facts sha (metadata_facts sha result) = metadata_facts sha result"
proof -
  define top where "top = dict_items (recursive_facts sha 0 (PDict (filter (\<lambda>kv. fst kv \<noteq> ''data'') result)))"
  define nested where "nested = recursive_facts sha 1 (dict_get result ''data'')"
  have out: "filter (\<lambda>kv. fst kv \<noteq> ''data'') top = top" unfolding top_def by (rule projected_without_data)
  have none: "\<forall>kv \<in> set top. fst kv \<noteq> ''data''" using out by (simp add: filter_id_conv)
  have top: "dict_items (recursive_facts sha 0 (PDict top)) = top"
    unfolding top_def projected_dict [symmetric] recursive_facts_stable [OF assms] ..
  have nested: "recursive_facts sha 1 nested = nested"
    unfolding nested_def by (rule recursive_facts_stable [OF assms])
  show ?thesis
  proof (cases "(case dict_get result ''data'' of PDict _ \<Rightarrow> True | PList _ \<Rightarrow> True | _ \<Rightarrow> False) \<and> nonempty_fact nested")
    case True
    have m: "metadata_facts sha result = put ''data'' nested top"
      unfolding metadata_facts_def Let_def top_def [symmetric] nested_def [symmetric] by (rule if_P [OF True])
    have "case nested of PDict _ \<Rightarrow> True | PList _ \<Rightarrow> True | _ \<Rightarrow> False"
      using True unfolding nested_def by (auto simp: nonempty_fact_def split: pyval.split_asm)
    moreover have "dict_get (put ''data'' nested top) ''data'' = nested"
      by (rule dict_get_put)
    ultimately show ?thesis
      unfolding m unfolding metadata_facts_def Let_def filter_put [OF none] top using True nested by simp
  next
    case False
    have m: "metadata_facts sha result = top"
      unfolding metadata_facts_def Let_def top_def [symmetric] nested_def [symmetric] by (rule if_not_P [OF False])
    show ?thesis
      unfolding m unfolding metadata_facts_def Let_def out top dict_get_absent [OF none] by simp
  qed
qed


section \<open>Target responses are stable\<close>

lemma lower_code:
  "(of_char (lower_char c) :: nat) = (let n = of_char c in
     if 65 \<le> n \<and> n \<le> 90 \<or> 192 \<le> n \<and> n \<le> 222 \<and> n \<noteq> 215 then n + 32 else n)"
  by (simp add: lower_char_def Let_def)

lemma underscore: "c = CHR ''_'' \<longleftrightarrow> (of_char c :: nat) = 95"
proof -
  have "(of_char CHR ''_'' :: nat) = 95" by simp
  then show ?thesis using of_char_eq_iff [where 'a = nat, of c "CHR ''_''"] by (simp del: of_char_eq_iff)
qed

lemma lower_letter: "is_letter (lower_char c) = is_letter c"
  by (auto simp: is_letter_def lower_code Let_def split: if_splits)

lemma lower_word: "word_char (lower_char c) = word_char c"
  by (auto simp: word_char_def is_letter_def is_digit_def underscore lower_code Let_def split: if_splits)

lemma shape_text_lower: "shape_text (py_lower k) = shape_text k"
proof (cases k)
  case (Cons c cs)
  then show ?thesis by (simp add: shape_text_def py_lower_def lower_letter list_all_iff lower_word)
qed (simp add: shape_text_def py_lower_def)

lemma shape_text_words: "shape_text k \<Longrightarrow> list_all word_char k"
  by (simp add: shape_text_def)

lemma safe_shape_field_lower:
  assumes "shape_text k"
  shows "safe_shape_field (PStr (py_lower k)) = safe_shape_field (PStr k)"
  using lower_key(1) [OF shape_text_words [OF assms]] by (simp add: safe_shape_field_def shape_text_lower)

lemma safe_shape_field_Some:
  assumes "safe_shape_field v = Some l"
  obtains s where "v = PStr s" "shape_text s" "l = py_lower s" "l \<notin> set NEVER_RETAIN_KEYS" "l \<notin> set PATH_KEYS"
  using assms by (cases v) (auto simp: safe_shape_field_def Let_def split: if_split_asm)

lemma safe_shape_field_again: "safe_shape_field v = Some l \<Longrightarrow> safe_shape_field (PStr l) = Some l"
  by (erule safe_shape_field_Some) (simp add: safe_shape_field_def shape_text_lower lower_key(1) shape_text_words)

lemma sorted_set_props: "sorted (sorted_set xs)" "distinct (sorted_set xs)" "set (sorted_set xs) = set xs"
  by (simp_all add: sorted_set_def)

lemma sorted_set_id: "sorted xs \<Longrightarrow> distinct xs \<Longrightarrow> sorted_set xs = xs"
  by (simp add: sorted_set_def sort_key_id [where f = "\<lambda>x. x"])

lemma map_filter_texts: "List.map_filter (\<lambda>x. case x of PStr s \<Rightarrow> Some s | _ \<Rightarrow> None) (map PStr ss) = ss"
  by (induction ss) (simp_all add: List.map_filter_simps)

lemma sorted_fields_shape: "sorted_fields (map PStr (shape_fields kvs))"
proof -
  let ?xs = "List.map_filter (\<lambda>kv. safe_shape_field (PStr (fst kv))) kvs"
  have "safe_shape_field (PStr l) \<noteq> None" if "l \<in> set (shape_fields kvs)" for l
  proof -
    have "l \<in> set ?xs" using that in_set_takeD [of l 64] sorted_set_props(3) [of ?xs] unfolding shape_fields_def by blast
    then show ?thesis using safe_shape_field_again by (fastforce simp: List.map_filter_def)
  qed
  moreover have "sorted_set (shape_fields kvs) = shape_fields kvs"
    unfolding shape_fields_def by (intro sorted_set_id sorted_wrt_take distinct_take sorted_set_props)
  ultimately show ?thesis by (simp add: sorted_fields_def map_filter_texts list_all_iff)
qed

lemma kind_shape_valid: "x \<in> set SHAPE_KINDS \<Longrightarrow> x \<noteq> ''object'' \<Longrightarrow> x \<noteq> ''array''
    \<Longrightarrow> validated_payload_shape (kind_shape x) = Some (kind_shape x)"
  by (simp add: validated_payload_shape_def kind_shape_def dict_get_def)

lemma shape_kinds: "''array'' \<in> set SHAPE_KINDS" "''object'' \<in> set SHAPE_KINDS" "''null'' \<in> set SHAPE_KINDS"
   "''boolean'' \<in> set SHAPE_KINDS" "''integer'' \<in> set SHAPE_KINDS" "''string'' \<in> set SHAPE_KINDS"
   "''bytes'' \<in> set SHAPE_KINDS" "''text'' \<in> set SHAPE_KINDS"
  by code_simp+

lemma object_shape_valid: "0 \<le> n \<Longrightarrow> sorted_fields xs \<Longrightarrow>
   validated_payload_shape (PDict [(''field_count'', PInt n), (''fields'', PList xs), (''kind'', PStr ''object'')])
   = Some (PDict [(''field_count'', PInt n), (''fields'', PList xs), (''kind'', PStr ''object'')])"
  by (simp add: validated_payload_shape_def dict_get_def shape_kinds)

lemma array_shape_valid: "0 \<le> n \<Longrightarrow>
   validated_payload_shape (PDict [(''item_count'', PInt n), (''kind'', PStr ''array'')])
   = Some (PDict [(''item_count'', PInt n), (''kind'', PStr ''array'')])"
  by (simp add: validated_payload_shape_def dict_get_def shape_kinds)

lemma payload_shape_valid: "validated_payload_shape (payload_shape v) = Some (payload_shape v)"
  by (cases v) (simp_all add: payload_shape_def kind_shape_valid object_shape_valid array_shape_valid shape_kinds sorted_fields_shape)

lemma validated_shape_cases [consumes 1]:
  assumes "validated_payload_shape v = Some x"
  obtains (object) n xs where "x = PDict [(''field_count'', PInt n), (''fields'', PList xs), (''kind'', PStr ''object'')]"
      "0 \<le> n" "sorted_fields xs"
    | (array) n where "x = PDict [(''item_count'', PInt n), (''kind'', PStr ''array'')]" "0 \<le> n"
    | (plain) s where "x = kind_shape s" "s \<in> set SHAPE_KINDS" "s \<noteq> ''object''" "s \<noteq> ''array''"
proof -
  obtain kvs where v: "v = PDict kvs" using assms by (cases v) (simp_all add: validated_payload_shape_def)
  note e = assms [unfolded validated_payload_shape_def v pyval.case]
  have sub: "fst ` set kvs \<subseteq> {''field_count'', ''fields'', ''item_count'', ''kind''}" using e by (auto split: if_split_asm)
  note e1 = e [simplified sub simp_thms if_False]
  obtain s where s: "dict_get kvs ''kind'' = PStr s" using e1 by (cases "dict_get kvs ''kind''") simp_all
  note e2 = e1 [unfolded s pyval.case]
  have k: "s \<in> set SHAPE_KINDS" using e2 by (auto split: if_split_asm)
  note e3 = e2 [simplified k simp_thms if_False]
  show thesis
  proof (cases "s = ''object''")
    case True
    note e4 = e3 [unfolded if_P [OF True]]
    obtain n where n: "dict_get kvs ''field_count'' = PInt n" using e4 by (cases "dict_get kvs ''field_count''") simp_all
    obtain xs where xs: "dict_get kvs ''fields'' = PList xs" using e4 n by (cases "dict_get kvs ''fields''") simp_all
    from e4 n xs True show thesis by (intro object [of n xs]) (simp_all split: if_split_asm)
  next
    case o: False
    note e4 = e3 [unfolded if_not_P [OF o]]
    show thesis
    proof (cases "s = ''array''")
      case True
      note e5 = e4 [unfolded if_P [OF True]]
      obtain n where n: "dict_get kvs ''item_count'' = PInt n" using e5 by (cases "dict_get kvs ''item_count''") simp_all
      from e5 n True show thesis by (intro array [of n]) (simp_all split: if_split_asm)
    next
      case False
      note e5 = e4 [unfolded if_not_P [OF False]]
      from e5 k o False show thesis by (intro plain [of s]) (simp_all split: if_split_asm)
    qed
  qed
qed

lemma validated_payload_shape_again: "validated_payload_shape v = Some x \<Longrightarrow> validated_payload_shape x = Some x"
  by (erule validated_shape_cases) (simp_all add: object_shape_valid array_shape_valid kind_shape_valid)

lemma validated_shape_dict: "validated_payload_shape v = Some x \<Longrightarrow> \<exists>kvs. x = PDict kvs"
  by (erule validated_shape_cases) (simp_all add: kind_shape_def)

lemma target_key:
  assumes "(m, x) \<in> set (target_entries k v)"
  shows "m = py_lower k" "m \<notin> set NEVER_RETAIN_KEYS" "m \<notin> set PATH_KEYS"
  using assms by (auto simp: target_entries_def Let_def split: if_split_asm option.split_asm)

lemma three_tests: "(P \<Longrightarrow> R) \<Longrightarrow> (\<not> P \<Longrightarrow> Q \<Longrightarrow> R) \<Longrightarrow> (\<not> P \<Longrightarrow> \<not> Q \<Longrightarrow> D \<Longrightarrow> R)
    \<Longrightarrow> (\<not> P \<Longrightarrow> \<not> Q \<Longrightarrow> \<not> D \<Longrightarrow> R) \<Longrightarrow> R"
  by blast

lemma target_entry_cases [consumes 1]:
  assumes "(m, x) \<in> set (target_entries k v)"
  obtains (kept) "x = v" "(m \<in> set INTEGER_KEYS \<or> m = ''status'' \<or> ends_with_any [''_bytes'', ''_count'', ''_index'', ''_length''] m) \<and> is_count v
        \<or> m \<in> set BOOLEAN_KEYS \<and> (case v of PBool _ \<Rightarrow> True | _ \<Rightarrow> False)"
  | (token) s where "m \<in> {''encoding'', ''status'', ''type''}" "x = PStr s" "safe_token v = Some s"
  | (digest) "x = v" "m \<notin> {''encoding'', ''status'', ''type''}" "m = ''payload_sha256'' \<and> is_hash v \<or> m = ''payload_digest_domain'' \<and> v = PStr TARGET_PAYLOAD_DOMAIN_LABEL
        \<or> m = ''payload_representation'' \<and> v \<in> {PStr ''base64-decoded'', PStr ''canonical-json'', PStr ''utf8''}"
  | (shape) "m = ''payload_shape''" "validated_payload_shape v = Some x"
  | (fields) xs where "m = ''response_fields''" "x = v" "v = PList xs" "sorted_fields xs"
proof -
  define l where "l = py_lower k"
  note e = assms [unfolded target_entries_def Let_def, folded l_def]
  have m: "m = l" and free: "\<not> (l \<in> set NEVER_RETAIN_KEYS \<or> l \<in> set PATH_KEYS)"
    using target_key [OF assms] by (simp_all add: l_def)
  note e0 = e [unfolded if_not_P [OF free]]
  let ?kept = "(l \<in> set INTEGER_KEYS \<or> l = ''status'' \<or> ends_with_any [''_bytes'', ''_count'', ''_index'', ''_length''] l) \<and> is_count v
    \<or> l \<in> set BOOLEAN_KEYS \<and> (case v of PBool _ \<Rightarrow> True | _ \<Rightarrow> False)"
  let ?digest = "l = ''payload_sha256'' \<and> is_hash v \<or> l = ''payload_digest_domain'' \<and> v = PStr TARGET_PAYLOAD_DOMAIN_LABEL
    \<or> l = ''payload_representation'' \<and> v \<in> {PStr ''base64-decoded'', PStr ''canonical-json'', PStr ''utf8''}"
  consider "?kept" | "\<not> ?kept" "l \<in> {''encoding'', ''status'', ''type''}"
    | "\<not> ?kept" "l \<notin> {''encoding'', ''status'', ''type''}" "?digest"
    | "\<not> ?kept" "l \<notin> {''encoding'', ''status'', ''type''}" "\<not> ?digest" by (rule three_tests)
  then show thesis
  proof cases
    case 1
    from e0 [unfolded if_P [OF 1]] have "x = v" by simp
    then show thesis using 1 unfolding m [symmetric] by (rule kept)
  next
    case 2
    note e2 = e0 [unfolded if_not_P [OF 2(1)] if_P [OF 2(2)]]
    from e2 obtain s where "x = PStr s" "safe_token v = Some s" by (cases "safe_token v") auto
    then show thesis using 2(2) unfolding m [symmetric] by (intro token)
  next
    case 3
    note e3 = e0 [unfolded if_not_P [OF 3(1)] if_not_P [OF 3(2)] if_P [OF 3(3)]]
    from e3 have "x = v" by simp
    then show thesis using 3(2,3) unfolding m [symmetric] by (rule digest)
  next
    case 4
    note e4 = e0 [unfolded if_not_P [OF 4(1)] if_not_P [OF 4(2)] if_not_P [OF 4(3)]]
    show thesis
    proof (cases "l = ''payload_shape''")
      case True
      with e4 m show thesis by (cases "validated_payload_shape v") (auto intro: shape)
    next
      case False
      with e4 m show thesis by (cases v) (auto intro: fields split: if_split_asm)
    qed
  qed
qed

lemma lower_again: "py_lower (py_lower k) = py_lower k"
proof -
  have "lower_char (lower_char c) = lower_char c" for c
  proof -
    have "(of_char (lower_char (lower_char c)) :: nat) = of_char (lower_char c)"
      by (auto simp: lower_code Let_def)
    then show ?thesis by simp
  qed
  then show ?thesis by (simp add: py_lower_def)
qed

lemma target_names:
  "''payload_shape'' \<notin> set INTEGER_KEYS" "''payload_shape'' \<notin> set BOOLEAN_KEYS" "''response_fields'' \<notin> set BOOLEAN_KEYS"
  "\<not> ends_with_any [''_bytes'', ''_count'', ''_index'', ''_length''] ''payload_shape''"
  by code_simp+

lemma target_entry_again:
  assumes "(m, x) \<in> set (target_entries k v)"
  shows "target_entries m x = [(m, x)]"
proof -
  have lower: "py_lower m = m" using target_key(1) [OF assms] lower_again by simp
  have head: "target_entries m x =
      (if (m \<in> set INTEGER_KEYS \<or> m = ''status'' \<or> ends_with_any [''_bytes'', ''_count'', ''_index'', ''_length''] m) \<and> is_count x
        \<or> m \<in> set BOOLEAN_KEYS \<and> (case x of PBool _ \<Rightarrow> True | _ \<Rightarrow> False) then [(m, x)]
      else if m \<in> {''encoding'', ''status'', ''type''} then (case safe_token x of None \<Rightarrow> [] | Some s \<Rightarrow> [(m, PStr s)])
      else if m = ''payload_sha256'' \<and> is_hash x \<or> m = ''payload_digest_domain'' \<and> x = PStr TARGET_PAYLOAD_DOMAIN_LABEL
        \<or> m = ''payload_representation'' \<and> x \<in> {PStr ''base64-decoded'', PStr ''canonical-json'', PStr ''utf8''} then [(m, x)]
      else if m = ''payload_shape'' then (case validated_payload_shape x of None \<Rightarrow> [] | Some x \<Rightarrow> [(m, x)])
      else if m = ''response_fields'' \<and> (case x of PList xs \<Rightarrow> sorted_fields xs | _ \<Rightarrow> False) then [(m, x)]
      else [])"
    using target_key(2,3) [OF assms] unfolding target_entries_def Let_def lower by (simp only: if_False simp_thms)
  from assms show ?thesis
  proof (cases rule: target_entry_cases)
    case kept
    then show ?thesis unfolding head by (simp only: if_True)
  next
    case (token s)
    then have "safe_token x = Some s" using safe_token_Some [of v s] by simp
    with token show ?thesis unfolding head by (simp add: is_count_def)
  next
    case digest
    show ?thesis unfolding head using digest(2,3) unfolding digest(1) by (simp only: if_True if_False if_cancel simp_thms)
  next
    case shape
    then obtain kvs where "x = PDict kvs" using validated_shape_dict by blast
    with shape validated_payload_shape_again [OF shape(2)] show ?thesis
      unfolding head by (simp add: is_hash_def is_count_def)
  next
    case fields
    then show ?thesis unfolding head by (simp add: is_hash_def is_count_def)
  qed
qed


definition target_name :: "string \<Rightarrow> bool" where
  "target_name m \<longleftrightarrow> m \<in> set INTEGER_KEYS \<or> m \<in> set BOOLEAN_KEYS
     \<or> ends_with_any [''_bytes'', ''_count'', ''_index'', ''_length''] m
     \<or> m \<in> {''encoding'', ''status'', ''type'', ''payload_sha256'', ''payload_digest_domain'', ''payload_representation'',
          ''payload_shape'', ''response_fields''}"

lemma target_entry_name: "(m, x) \<in> set (target_entries k v) \<Longrightarrow> target_name m"
  by (cases rule: target_entry_cases) (auto simp: target_name_def)

definition PAYLOAD_KEYS :: "string list" where
  "PAYLOAD_KEYS = [''text'', ''data_base64'', ''body'', ''content'', ''data'', ''output'', ''result'']"

lemma payload_names:
  "n \<in> set PAYLOAD_KEYS \<Longrightarrow> \<not> target_name n \<and> safe_shape_field (PStr n) = Some n"
proof -
  have "list_all (\<lambda>n. \<not> target_name n \<and> safe_shape_field (PStr n) = Some n) PAYLOAD_KEYS" by code_simp
  then show "n \<in> set PAYLOAD_KEYS \<Longrightarrow> \<not> target_name n \<and> safe_shape_field (PStr n) = Some n" by (simp add: list_all_iff)
qed

lemma no_key_get: "k \<notin> fst ` set d \<Longrightarrow> dict_get d k = PNone"
  by (rule dict_get_absent) auto

lemma target_payload_None:
  assumes "\<And>n. n \<in> set PAYLOAD_KEYS \<Longrightarrow> n \<notin> fst ` set d"
  shows "target_payload loads b64 d = None"
proof -
  have "dict_get d ''text'' = PNone" "dict_get d ''data_base64'' = PNone"
    by (rule no_key_get, rule assms, simp add: PAYLOAD_KEYS_def)+
  moreover have "find (has_key d) [''body'', ''content'', ''data'', ''output'', ''result''] = None"
    using assms unfolding find_None_iff by (auto simp: has_key_def PAYLOAD_KEYS_def)
  ultimately show ?thesis by (simp add: target_payload_def)
qed

lemma dict_get_key: "dict_get d k \<noteq> PNone \<Longrightarrow> k \<in> fst ` set d"
  using no_key_get by blast

lemma target_payload_Some:
  assumes "target_payload loads b64 d = Some p"
  shows "\<exists>n \<in> set PAYLOAD_KEYS. n \<in> fst ` set d"
proof (rule ccontr)
  assume "\<not> (\<exists>n \<in> set PAYLOAD_KEYS. n \<in> fst ` set d)"
  then have "target_payload loads b64 d = None" by (intro target_payload_None) blast
  with assms show False by simp
qed

lemma shape_fields_Nil: "shape_fields kvs = [] \<longleftrightarrow> (\<forall>kv \<in> set kvs. safe_shape_field (PStr (fst kv)) = None)"
proof -
  have "shape_fields kvs = [] \<longleftrightarrow> set (sorted_set (List.map_filter (\<lambda>kv. safe_shape_field (PStr (fst kv))) kvs)) = {}"
    by (simp add: shape_fields_def)
  then show ?thesis by (auto simp: sorted_set_props List.map_filter_def)
qed

lemma safe_shape_field_key: "safe_shape_field (PStr (py_lower k)) = safe_shape_field (PStr k)"
  by (simp add: safe_shape_field_def shape_text_lower lower_again)

lemma shape_fields_base:
  assumes "shape_fields result = []"
  shows "shape_fields (put_all (concat (map (\<lambda>kv. target_entries (fst kv) (snd kv)) (sort_key fst result))) []) = []"
  unfolding shape_fields_Nil
proof
  fix kv assume entry: "kv \<in> set (put_all (concat (map (\<lambda>kv. target_entries (fst kv) (snd kv)) (sort_key fst result))) [])"
  then obtain k' where k': "k' \<in> set result" "kv \<in> set (target_entries (fst k') (snd k'))"
    using concat_entry [OF entry] by auto
  then have "fst kv = py_lower (fst k')" using target_key(1) [of "fst kv" "snd kv"] by simp
  then show "safe_shape_field (PStr (fst kv)) = None"
    using assms k'(1) by (simp add: shape_fields_Nil safe_shape_field_key)
qed

lemma target_payload_cases:
  assumes "target_payload loads b64 result = Some (payload, representation, shape)"
  shows "representation \<in> {''base64-decoded'', ''canonical-json'', ''utf8''}
    \<and> (shape \<in> {kind_shape ''text'', kind_shape ''bytes''} \<or> (\<exists>v. shape = payload_shape v))"
proof -
  let ?goal = "representation \<in> {''base64-decoded'', ''canonical-json'', ''utf8''}
    \<and> (shape \<in> {kind_shape ''text'', kind_shape ''bytes''} \<or> (\<exists>v. shape = payload_shape v))"
  consider (t) t where "dict_get result ''text'' = PStr t"
    | (b) e where "\<forall>t. dict_get result ''text'' \<noteq> PStr t" "dict_get result ''data_base64'' = PStr e"
    | (named) "\<forall>t. dict_get result ''text'' \<noteq> PStr t" "\<forall>t. dict_get result ''data_base64'' \<noteq> PStr t" by blast
  then show ?goal
  proof cases
    case (t t)
    with assms show ?thesis by (cases "loads t") (auto simp: target_payload_def)
  next
    case (b e)
    with assms show ?thesis
      by (cases "dict_get result ''text''") (auto simp: target_payload_def)
  next
    case named
    let ?names = "[''body'', ''content'', ''data'', ''output'', ''result'']"
    have "target_payload loads b64 result = (case find (has_key result) ?names of
            None \<Rightarrow> None
          | Some name \<Rightarrow> (case dict_get result name of
              PStr s \<Rightarrow> Some (utf8_bytes s, ''utf8'', kind_shape ''text'')
            | v \<Rightarrow> if canonical_ok v then Some (json_utf8 v, ''canonical-json'', payload_shape v) else None))"
      using named by (cases "dict_get result ''text''"; cases "dict_get result ''data_base64''") (simp_all add: target_payload_def)
    then obtain name where "find (has_key result) ?names = Some name"
      "(case dict_get result name of
              PStr s \<Rightarrow> Some (utf8_bytes s, ''utf8'', kind_shape ''text'')
            | v \<Rightarrow> if canonical_ok v then Some (json_utf8 v, ''canonical-json'', payload_shape v) else None)
       = Some (payload, representation, shape)"
      using assms by (cases "find (has_key result) ?names") simp_all
    then show ?thesis by (cases "dict_get result name") (auto split: if_split_asm)
  qed
qed

lemma target_payload_shapes:
  assumes "target_payload loads b64 result = Some (payload, representation, shape)"
  shows "representation \<in> {''base64-decoded'', ''canonical-json'', ''utf8''}" "validated_payload_shape shape = Some shape"
proof -
  have plain: "validated_payload_shape (kind_shape ''text'') = Some (kind_shape ''text'')"
    "validated_payload_shape (kind_shape ''bytes'') = Some (kind_shape ''bytes'')"
    by (rule kind_shape_valid; simp add: shape_kinds)+
  show "representation \<in> {''base64-decoded'', ''canonical-json'', ''utf8''}" "validated_payload_shape shape = Some shape"
    using target_payload_cases [OF assms] plain payload_shape_valid by auto
qed

lemma payload_plain:
  "py_lower ''payload_bytes'' = ''payload_bytes''" "''payload_bytes'' \<notin> set NEVER_RETAIN_KEYS" "''payload_bytes'' \<notin> set PATH_KEYS"
  "ends_with_any [''_bytes'', ''_count'', ''_index'', ''_length''] ''payload_bytes''"
  "py_lower ''payload_digest_domain'' = ''payload_digest_domain''" "''payload_digest_domain'' \<notin> set NEVER_RETAIN_KEYS"
  "''payload_digest_domain'' \<notin> set PATH_KEYS" "''payload_digest_domain'' \<notin> set BOOLEAN_KEYS"
  "py_lower ''payload_representation'' = ''payload_representation''" "''payload_representation'' \<notin> set NEVER_RETAIN_KEYS"
  "''payload_representation'' \<notin> set PATH_KEYS" "''payload_representation'' \<notin> set BOOLEAN_KEYS"
  "py_lower ''payload_sha256'' = ''payload_sha256''" "''payload_sha256'' \<notin> set NEVER_RETAIN_KEYS"
  "''payload_sha256'' \<notin> set PATH_KEYS" "''payload_sha256'' \<notin> set BOOLEAN_KEYS"
  "py_lower ''payload_shape'' = ''payload_shape''" "''payload_shape'' \<notin> set NEVER_RETAIN_KEYS"
  "''payload_shape'' \<notin> set PATH_KEYS" "''payload_shape'' \<notin> set BOOLEAN_KEYS"
  "py_lower ''response_fields'' = ''response_fields''" "''response_fields'' \<notin> set NEVER_RETAIN_KEYS"
  "''response_fields'' \<notin> set PATH_KEYS"
  by code_simp+

lemma payload_entries:
  assumes "hex_digests sha" "target_payload loads b64 result = Some (payload, representation, shape)"
  shows "target_entries ''payload_bytes'' (PInt (int n)) = [(''payload_bytes'', PInt (int n))]"
    "target_entries ''payload_digest_domain'' (PStr TARGET_PAYLOAD_DOMAIN_LABEL) = [(''payload_digest_domain'', PStr TARGET_PAYLOAD_DOMAIN_LABEL)]"
    "target_entries ''payload_representation'' (PStr representation) = [(''payload_representation'', PStr representation)]"
    "target_entries ''payload_sha256'' (PStr (sha y)) = [(''payload_sha256'', PStr (sha y))]"
    "target_entries ''payload_shape'' shape = [(''payload_shape'', shape)]"
proof -
  obtain kvs where kvs: "shape = PDict kvs" using validated_shape_dict [OF target_payload_shapes(2) [OF assms(2)]] by blast
  note plain = target_entries_def Let_def payload_plain is_count_def is_hash_def
  show "target_entries ''payload_bytes'' (PInt (int n)) = [(''payload_bytes'', PInt (int n))]" by (simp add: plain)
  show "target_entries ''payload_digest_domain'' (PStr TARGET_PAYLOAD_DOMAIN_LABEL) = [(''payload_digest_domain'', PStr TARGET_PAYLOAD_DOMAIN_LABEL)]"
    by (simp add: plain)
  show "target_entries ''payload_representation'' (PStr representation) = [(''payload_representation'', PStr representation)]"
    using target_payload_shapes(1) [OF assms(2)] by (auto simp add: plain)
  show "target_entries ''payload_sha256'' (PStr (sha y)) = [(''payload_sha256'', PStr (sha y))]"
    using assms(1) by (simp add: plain hex_digests_def)
  show "target_entries ''payload_shape'' shape = [(''payload_shape'', shape)]"
    using target_payload_shapes(2) [OF assms(2)] kvs by (simp add: plain)
qed

lemma fields_entry: "target_entries ''response_fields'' (PList (map PStr (shape_fields kvs)))
    = [(''response_fields'', PList (map PStr (shape_fields kvs)))]"
  by (simp add: target_entries_def Let_def payload_plain is_count_def is_hash_def sorted_fields_shape)

lemma target_metadata_stable:
  assumes sha: "hex_digests sha"
  shows "target_metadata sha loads b64 (target_metadata sha loads b64 result) = target_metadata sha loads b64 result"
proof -
  define base where "base = put_all (concat (map (\<lambda>kv. target_entries (fst kv) (snd kv)) (sort_key fst result))) []"
  define named where "named = (if has_key base ''response_fields'' \<or> shape_fields result = [] then base
      else put ''response_fields'' (PList (map PStr (shape_fields result))) base)"
  define extra where "extra = (case target_payload loads b64 result of None \<Rightarrow> []
    | Some (payload, representation, shape) \<Rightarrow> [(''payload_bytes'', PInt (int (length payload))),
            (''payload_digest_domain'', PStr TARGET_PAYLOAD_DOMAIN_LABEL),
            (''payload_representation'', PStr representation),
            (''payload_sha256'', PStr (domain_digest sha TARGET_PAYLOAD_DOMAIN payload)),
            (''payload_shape'', shape)])"
  let ?r = "put_all extra named"
  have r: "target_metadata sha loads b64 result = ?r"
    by (simp add: target_metadata_def base_def named_def extra_def Let_def split: option.split)
  have ordered: "ordered ?r" unfolding named_def base_def by (auto intro!: ordered_put_all ordered_put)
  have entries: "target_entries (fst kv) (snd kv) = [kv]" if entry: "kv \<in> set ?r" for kv
  proof -
    consider "kv \<in> set extra" | "kv = (''response_fields'', PList (map PStr (shape_fields result)))" | "kv \<in> set base"
      using entry set_put_all [of extra named] set_put [of "''response_fields''" "PList (map PStr (shape_fields result))" base]
      unfolding named_def by (auto split: if_split_asm)
    then show ?thesis
    proof cases
      case 1
      then obtain payload representation shape where
        "target_payload loads b64 result = Some (payload, representation, shape)"
        by (cases "target_payload loads b64 result") (auto simp: extra_def)
      with 1 payload_entries [OF sha this] show ?thesis
        by (auto simp: extra_def domain_digest_def)
    next
      case 2
      then show ?thesis by (simp add: fields_entry)
    next
      case 3
      then obtain k' where "kv \<in> set (target_entries (fst k') (snd k'))"
        unfolding base_def using concat_entry by blast
      then show ?thesis using target_entry_again [of "fst kv" "snd kv"] by simp
    qed
  qed
  have base': "put_all (concat (map (\<lambda>kv. target_entries (fst kv) (snd kv)) (sort_key fst ?r))) [] = ?r"
    by (rule put_all_reproduces [OF ordered entries])
  have "target_payload loads b64 ?r = None"
  proof (rule target_payload_None)
    fix n assume n: "n \<in> set PAYLOAD_KEYS"
    show "n \<notin> fst ` set ?r"
    proof
      assume "n \<in> fst ` set ?r"
      then obtain kv where kv: "kv \<in> set ?r" "fst kv = n" by auto
      then have "target_name n" using entries [OF kv(1)] target_entry_name [of n "snd kv" n "snd kv"] by (metis list.set_intros(1) prod.collapse)
      with payload_names [OF n] show False by simp
    qed
  qed
  moreover have "has_key ?r ''response_fields'' \<or> shape_fields ?r = []"
  proof (cases "has_key named ''response_fields''")
    case True
    then show ?thesis by (simp add: has_key_def keys_put_all)
  next
    case False
    then have empty: "shape_fields result = []" "named = base" 
      by (auto simp: named_def has_key_def set_fst_put split: if_split_asm)
    have "target_payload loads b64 result = None"
    proof (rule ccontr)
      assume "target_payload loads b64 result \<noteq> None"
      then obtain p where p: "target_payload loads b64 result = Some p" by auto
      from target_payload_Some [OF p] obtain n where n: "n \<in> set PAYLOAD_KEYS" "n \<in> fst ` set result" by blast
      then obtain v where "(n, v) \<in> set result" by auto
      with bspec [OF empty(1) [unfolded shape_fields_Nil] this] have "safe_shape_field (PStr n) = None" by simp
      with payload_names [OF n(1)] show False by simp
    qed
    then show ?thesis using shape_fields_base [OF empty(1)] empty(2) by (simp add: extra_def base_def)
  qed
  ultimately show ?thesis
    unfolding r unfolding target_metadata_def Let_def base' by simp
qed


lemma put_all_concat_Nil: "put_all (concat (map f (sort_key fst []))) [] = []"
  by simp

lemma facts_for_tool_stable:
  assumes "hex_digests (lib_sha lib)"
  shows "facts_for_tool lib tool (facts_for_tool lib tool facts) = facts_for_tool lib tool facts"
  using target_metadata_stable [OF assms] metadata_facts_stable [OF assms]
    recursive_facts_stable [OF assms, of 0 "PDict facts"] projected_dict [of "lib_sha lib" facts]
  by (simp add: facts_for_tool_def del: recursive_facts.simps)

lemma empty_facts: "observed_facts lib success tool [] = []"
  by (simp add: observed_facts_def facts_for_tool_def dict_items_def metadata_facts_def target_metadata_def
      target_payload_def has_key_def shape_fields_Nil)

lemma observed_facts_stable:
  assumes "hex_digests (lib_sha lib)"
  shows "observed_facts lib success tool (observed_facts lib success tool facts) = observed_facts lib success tool facts"
  using facts_for_tool_stable [OF assms] recursive_facts_stable [OF assms, of 0 "PDict facts"] projected_dict [of "lib_sha lib" facts]
  by (simp add: observed_facts_def del: recursive_facts.simps)

text \<open>What is retained of an observation is retained again unchanged: projecting validated facts a second time, under the same
  tool and outcome, gives the same facts, whatever the tool returned.\<close>

theorem validated_facts_stable:
  assumes "hex_digests (lib_sha lib)"
  shows "validated_facts lib (o'\<lparr>ob_facts := validated_facts lib o'\<rparr>) = validated_facts lib o'"
  using observed_facts_stable [OF assms] empty_facts
  by (simp add: validated_facts_def Let_def)


definition sample_lib :: stdlib where
  "sample_lib = \<lparr>lib_sha = (\<lambda>_. replicate 64 CHR ''0''), lib_loads = (\<lambda>_. None), lib_b64 = (\<lambda>_. None)\<rparr>"

definition sample_observation :: host_observation where
  "sample_observation = \<lparr>ob_tool = ''inspect_elf'', ob_success = Some True, ob_source_bound = True,
     ob_facts = [(''data'', PDict [(''sections'', PList [PDict [(''Name'', PStr ''.text''), (''size'', PInt 12)]])]),
       (''path'', PStr ''/home/user/x''), (''status'', PStr ''ok''), (''text'', PStr ''flag{x}'')],
     ob_hashes = [], ob_supplied = [], ob_sensitive = False\<rparr>"

lemma sample_lib_hex: "hex_digests (lib_sha sample_lib)"
  by (simp add: hex_digests_def hex_lower_def sample_lib_def list_all_iff)

lemma sample_facts: "validated_facts sample_lib sample_observation =
  [(''data'', PDict [(''sections'', PList [PDict [(''name'', PStr ''.text''), (''size'', PInt 12)]])]),
   (''status'', PStr ''ok''), (''text_bytes'', PInt 9), (''text_sha256'', PStr (replicate 64 CHR ''0''))]"
  by code_simp

lemma validated_facts_stable_witness:
  "validated_facts sample_lib (sample_observation\<lparr>ob_facts :=
  [(''data'', PDict [(''sections'', PList [PDict [(''name'', PStr ''.text''), (''size'', PInt 12)]])]),
   (''status'', PStr ''ok''), (''text_bytes'', PInt 9), (''text_sha256'', PStr (replicate 64 CHR ''0''))]\<rparr>)
   = [(''data'', PDict [(''sections'', PList [PDict [(''name'', PStr ''.text''), (''size'', PInt 12)]])]),
   (''status'', PStr ''ok''), (''text_bytes'', PInt 9), (''text_sha256'', PStr (replicate 64 CHR ''0''))]"
  using validated_facts_stable [OF sample_lib_hex, of sample_observation] unfolding sample_facts .

section \<open>What a projection can contain\<close>

definition retained_text :: "string \<Rightarrow> bool" where
  "retained_text s \<longleftrightarrow> hex_lower 32 128 s \<or> safe_structural_label (PStr s) = Some s"

lemma texts_of_dict: "set (texts_of (PDict kvs)) = (\<Union>kv \<in> set kvs. set (texts_of (snd kv)))"
  by simp

lemma safe_labels_members: "s \<in> set (safe_labels v) \<Longrightarrow> safe_structural_label (PStr s) = Some s"
proof (cases v)
  case (PList xs)
  assume "s \<in> set (safe_labels v)"
  then obtain x where x: "safe_structural_label x = Some s" using PList by (auto simp: safe_labels_def List.map_filter_def)
  with safe_structural_label_Some [OF x] show ?thesis by simp
qed (simp_all add: safe_labels_def)

lemma hash_text: "hex_lower 64 64 s \<Longrightarrow> retained_text s"
  by (simp add: retained_text_def hex_lower_def)

lemma entry_texts:
  assumes m: "(m, x) \<in> set (fact_entries sha w k v)" and sha: "hex_digests sha"
    and w: "\<And>s. s \<in> set (texts_of w) \<Longrightarrow> retained_text s" and s: "s \<in> set (texts_of x)"
  shows "retained_text s"
  using m
proof (cases rule: fact_entry_cases)
  case (digest l h)
  with s sha show ?thesis by (simp add: hex_digests_def hash_text)
next
  case count
  with s show ?thesis by (cases v) (auto simp: is_count_def)
next
  case (hash h)
  with s show ?thesis by (simp add: hash_text)
next
  case (hashes kvs)
  then obtain kv where kv: "kv \<in> set (hash_entries kvs)" "s \<in> set (texts_of (snd kv))" using s by auto
  then show ?thesis by (cases "snd kv") (auto simp: hash_entries_def retained_text_def)
next
  case labels
  with s safe_labels_members show ?thesis by (auto simp: retained_text_def)
next
  case container
  with w s show ?thesis by simp
qed (use s in \<open>auto simp: retained_text_def\<close>)

lemma recursive_texts:
  assumes "hex_digests sha" "s \<in> set (texts_of (recursive_facts sha depth v))"
  shows "retained_text s"
  using assms
proof (induction sha depth v arbitrary: s rule: recursive_facts.induct)
  case (6 sha depth xs)
  then show ?case by (fastforce split: if_split_asm)
next
  case (7 sha depth kvs)
  let ?f = "\<lambda>kv. fact_entries sha (recursive_facts sha (depth + 1) (snd kv)) (fst kv) (snd kv)"
  have d: "\<not> 8 < depth" using 7(3) by (auto split: if_split_asm)
  then obtain kv where kv: "kv \<in> set (put_all (concat (map ?f (sort_key fst kvs))) [])" "s \<in> set (texts_of (snd kv))"
    using 7(3) by auto
  obtain k' where k': "k' \<in> set kvs" "kv \<in> set (?f k')" using concat_entry [OF kv(1)] by auto
  from k'(2) have "(fst kv, snd kv) \<in> set (?f k')" by simp
  then show ?case
  proof (rule entry_texts [OF _ 7(2) _ kv(2)])
    have "k' \<in> set (sort_key fst kvs)" using k'(1) by simp
    from 7(1) [OF d this 7(2)]
    show "retained_text s" if "s \<in> set (texts_of (recursive_facts sha (depth + 1) (snd k')))" for s using that .
  qed
qed (auto split: if_split_asm)

text \<open>The names of the fields of a value, each with the name of the field whose value it is in.\<close>

function names_in :: "string \<Rightarrow> pyval \<Rightarrow> (string \<times> string) list" where
  "names_in p (PDict kvs) = concat (map (\<lambda>kv. (p, fst kv) # names_in (fst kv) (snd kv)) kvs)"
| "names_in p (PList xs) = concat (map (names_in p) xs)"
| "names_in p PNone = []"
| "names_in p (PBool b) = []"
| "names_in p (PInt i) = []"
| "names_in p (PFloat s) = []"
| "names_in p (PStr s) = []"
  by pat_completeness auto

termination names_in
proof (relation "measure (\<lambda>(_, v). size v)", goal_cases)
  case 1
  show ?case by simp
next
  case (2 p kvs kv)
  moreover obtain m x where "kv = (m, x)" by (cases kv)
  ultimately show ?case using size_snd_less_PDict [of kv kvs] by simp
next
  case (3 p xs x)
  then show ?case by (simp add: less_Suc_eq_le size_list_estimation')
qed

text \<open>The vocabulary of the projection: what names a count, a token, a flag, a digest, a list of labels or a container.\<close>

definition known_name :: "string \<Rightarrow> bool" where
  "known_name m \<longleftrightarrow> count_key m \<or> token_key m \<or> ends_with ''_sha256'' m
     \<or> m \<in> set ([''returncode'', ''hashes''] @ BOOLEAN_KEYS @ HASH_KEYS @ TOKEN_LIST_KEYS @ CONTAINER_KEYS)"

definition retained_name :: "string \<times> string \<Rightarrow> bool" where
  "retained_name pm \<longleftrightarrow> (if fst pm = ''hashes'' then token_text (snd pm) else plain_key (snd pm) \<and> known_name (snd pm))"

lemma entry_known:
  assumes "(m, x) \<in> set (fact_entries sha w k v)"
  shows "known_name m"
  using assms by (cases rule: fact_entry_cases) (auto simp: known_name_def raw_key_kinds)

lemma names_of_texts: "names_in p (PList (map PStr ss)) = []"
  by (induction ss) simp_all

lemma entry_names:
  assumes m: "(m, x) \<in> set (fact_entries sha w k v)"
    and w: "\<And>p pm. p \<noteq> ''hashes'' \<Longrightarrow> pm \<in> set (names_in p w) \<Longrightarrow> retained_name pm"
    and pm: "pm \<in> set (names_in m x)"
  shows "retained_name pm"
  using m
proof (cases rule: fact_entry_cases)
  case count
  with pm show ?thesis by (cases v) (simp_all add: is_count_def)
next
  case (hashes kvs)
  then obtain kv where kv: "kv \<in> set (hash_entries kvs)" "pm = (''hashes'', fst kv) \<or> pm \<in> set (names_in (fst kv) (snd kv))"
    using pm by auto
  from kv(1) obtain s where "token_text (fst kv)" "snd kv = PStr s"
    by (cases "snd kv") (auto simp: hash_entries_def)
  with kv(2) show ?thesis by (auto simp: retained_name_def)
next
  case labels
  with pm show ?thesis by (simp only: names_of_texts) simp
next
  case container
  with list_keys(2) [of m] pm w [of m] show ?thesis by blast
qed (use pm in simp_all)

lemma recursive_names:
  assumes "p \<noteq> ''hashes''" "pm \<in> set (names_in p (recursive_facts sha depth v))"
  shows "retained_name pm"
  using assms
proof (induction sha depth v arbitrary: p pm rule: recursive_facts.induct)
  case (6 sha depth xs)
  have d: "\<not> 8 < depth" using 6(3) by (auto split: if_split_asm)
  then obtain x where "x \<in> set (take 64 xs)" "pm \<in> set (names_in p (recursive_facts sha (depth + 1) x))"
    using 6(3) by auto
  from 6(1) [OF d this(1) 6(2) this(2)] show ?case .
next
  case (7 sha depth kvs)
  let ?f = "\<lambda>kv. fact_entries sha (recursive_facts sha (depth + 1) (snd kv)) (fst kv) (snd kv)"
  have d: "\<not> 8 < depth" using 7(3) by (auto split: if_split_asm)
  then obtain kv where kv: "kv \<in> set (put_all (concat (map ?f (sort_key fst kvs))) [])"
      "pm = (p, fst kv) \<or> pm \<in> set (names_in (fst kv) (snd kv))"
    using 7(3) by auto
  obtain k' where k': "k' \<in> set kvs" "kv \<in> set (?f k')" using concat_entry [OF kv(1)] by auto
  then have entry: "(fst kv, snd kv) \<in> set (?f k')" by simp
  from kv(2) show ?case
  proof
    assume "pm = (p, fst kv)"
    with 7(2) fact_entry_key [OF entry] entry_known [OF entry] show ?thesis by (simp add: retained_name_def)
  next
    assume inner: "pm \<in> set (names_in (fst kv) (snd kv))"
    have "k' \<in> set (sort_key fst kvs)" using k'(1) by simp
    from entry_names [OF entry 7(1) [OF d this] inner] show ?thesis .
  qed
qed (auto split: if_split_asm)

text \<open>C40. Whatever a tool returns, and whatever the digest function, as long as its digests are written in hexadecimal: every text
  that is a value of the recursive projection is a hexadecimal digest or a label of the closed alphabet that holds no flag, no
  credential word and no path. Every field name it keeps is a lowercase name of its vocabulary (a listed name, or a name with a listed
  suffix) that is none of the names never retained - except the names inside a field \<open>hashes\<close>, which are tokens of the closed
  alphabet and nothing more: neither those names nor the stems before a listed suffix are screened for credential words.\<close>

theorem retained_texts_are_safe:
  assumes "hex_digests sha" "facts = recursive_facts sha depth v"
  shows "(\<forall>s \<in> set (texts_of facts). hex_lower 32 128 s \<or> label_text s \<and> \<not> occurs flag_here s \<and> \<not> sensitive_text s
        \<or> token_text s \<and> \<not> occurs flag_here s \<and> \<not> sensitive_text s \<and> \<not> starts_with ''/'' s \<and> \<not> drive_path s)
    \<and> (\<forall>(field, m) \<in> set (names_in '''' facts). if field = ''hashes'' then token_text m
        else key_text m \<and> py_lower m = m \<and> m \<notin> set (NEVER_RETAIN_KEYS @ PATH_KEYS @ RAW_DIGEST_KEYS) \<and> known_name m)"
  using recursive_texts [OF assms(1), of _ depth v] recursive_names [of "''''" _ sha depth v] assms(2)
  by (fastforce simp: retained_text_def safe_structural_label_def safe_token_def safe_label_def retained_name_def plain_key_def
      split: option.split_asm if_split_asm)

lemma retained_texts_are_safe_witness:
  "(let facts = recursive_facts (lib_sha sample_lib) 0 (PDict [(''Name'', PStr ''.text''), (''password'', PStr ''x''), (''size'', PInt 12)])
    in texts_of facts = [''.text''] \<and> names_in '''' facts = [('''', ''name''), ('''', ''size'')])
   \<and> label_text ''.text'' \<and> \<not> occurs flag_here ''.text'' \<and> known_name ''name'' \<and> ''name'' \<notin> set NEVER_RETAIN_KEYS"
proof -
  define facts where
    "facts = recursive_facts (lib_sha sample_lib) 0 (PDict [(''Name'', PStr ''.text''), (''password'', PStr ''x''), (''size'', PInt 12)])"
  have t: "texts_of facts = [''.text'']" "names_in '''' facts = [('''', ''name''), ('''', ''size'')]"
    unfolding facts_def by code_simp+
  have u: "\<not> hex_lower 32 128 ''.text''" "label_text ''.text''" by code_simp+
  have "known_name ''name''" "''name'' \<notin> set NEVER_RETAIN_KEYS" "\<not> occurs flag_here ''.text''"
    using retained_texts_are_safe [OF sample_lib_hex facts_def] t u by auto
  then show ?thesis using t u unfolding Let_def facts_def [symmetric] by blast
qed

text \<open>A name inside \<open>hashes\<close> is kept whatever it says.\<close>

lemma hash_names_unscreened:
  "recursive_facts sha 0 (PDict [(''hashes'', PDict [(''password.hunter2'', PStr (replicate 32 CHR ''a''))])])
     = PDict [(''hashes'', PDict [(''password.hunter2'', PStr (replicate 32 CHR ''a''))])]"
  using hashes_key by (simp add: fact_entries_def is_hash_def hash_entries_def plain_key_def token_text_def hex_lower_def
      word_char_def is_letter_def is_digit_def key_text_def list_all_iff)

end
