(* ===== verification/Evidence_Store.thy ===== *)
theory Evidence_Store
  imports Evidence_Projection Control_Waves
begin

text \<open>
  The durable evidence of \<open>src/rapido/evidence.py\<close>: the limits a run is opened with, the batch of observations
  that an attempt commits, the content-addressed objects and the manifest that it becomes, the checks that
  every load makes, and what may be built on a loaded manifest: the attestation of a candidate and the
  evidence carried into the next episode. A \<open>BLOB\<close> is compared by its bytes. Loading an \<open>Opaque\<close> blob is
  refused: its bytes are the canonical text of no document.
\<close>

section \<open>Limits and batches\<close>

definition EVIDENCE_VERSION :: int where
  "EVIDENCE_VERSION = 3"

definition OBJECT_DOMAIN :: string where
  "OBJECT_DOMAIN = ''rapido-host-evidence-object-v1'' @ [CHR 0x00]"

definition MANIFEST_DOMAIN :: string where
  "MANIFEST_DOMAIN = ''rapido-host-evidence-manifest-v1'' @ [CHR 0x00]"

definition CONFIG_DOMAIN :: string where
  "CONFIG_DOMAIN = ''rapido-host-evidence-config-v1'' @ [CHR 0x00]"

definition GAPS :: "string list" where
  "GAPS = [''process_interrupted'', ''turn_timeout'', ''turn_no_progress'', ''turn_cancelled'', ''turn_failed'',
     ''provenance_incomplete'', ''quota_omitted'', ''legacy_unavailable'']"

record evidence_limits =
  lim_observations :: int
  lim_object :: int
  lim_attempt :: int
  lim_carry :: int

definition default_limits :: evidence_limits where
  "default_limits = \<lparr>lim_observations = 10000, lim_object = 16 * 1024, lim_attempt = 64 * 1024 * 1024, lim_carry = 64 * 1024\<rparr>"

definition construct_limits :: "evidence_limits \<Rightarrow> evidence_limits result" where
  "construct_limits l =
     (if lim_observations l \<le> 0 then Inl (ValueError ''max_observations must be a positive integer'')
      else if lim_object l \<le> 0 then Inl (ValueError ''max_object_bytes must be a positive integer'')
      else if lim_attempt l \<le> 0 then Inl (ValueError ''max_attempt_bytes must be a positive integer'')
      else if lim_carry l \<le> 0 then Inl (ValueError ''max_carry_bytes must be a positive integer'')
      else if 10000 < lim_observations l then Inl (ValueError ''max_observations exceeds 10000'')
      else if 16 * 1024 < lim_object l then Inl (ValueError ''max_object_bytes exceeds 16 KiB'')
      else if 64 * 1024 * 1024 < lim_attempt l then Inl (ValueError ''max_attempt_bytes exceeds 64 MiB'')
      else if 64 * 1024 < lim_carry l then Inl (ValueError ''max_carry_bytes exceeds 64 KiB'')
      else Inr l)"

definition limits_dict :: "evidence_limits \<Rightarrow> pyval" where
  "limits_dict l = PDict [(''max_attempt_bytes'', PInt (lim_attempt l)), (''max_carry_bytes'', PInt (lim_carry l)),
     (''max_object_bytes'', PInt (lim_object l)), (''max_observations'', PInt (lim_observations l))]"

definition limits_record :: "digest_fn \<Rightarrow> evidence_limits \<Rightarrow> string \<times> pyval" where
  "limits_record sha l =
     (let payload = PDict [(''limits'', limits_dict l), (''schema_version'', PInt EVIDENCE_VERSION)] in
      (domain_digest sha CONFIG_DOMAIN (json_utf8 payload), payload))"

record evidence_batch =
  ba_observations :: "host_observation list"
  ba_complete :: bool
  ba_gap :: "string option"

definition construct_batch :: "evidence_batch \<Rightarrow> evidence_batch result" where
  "construct_batch b =
     (if ba_complete b \<and> ba_gap b \<noteq> None then Inl (ValueError ''complete evidence batch cannot have a gap'')
      else if \<not> ba_complete b \<and> (case ba_gap b of None \<Rightarrow> True | Some g \<Rightarrow> g \<notin> set GAPS)
      then Inl (ValueError ''incomplete evidence batch requires one closed gap'')
      else Inr b)"

section \<open>The tables\<close>

definition blob_bytes :: "blob \<Rightarrow> string" where
  "blob_bytes b = (case b of Canonical v \<Rightarrow> json_utf8 v | Opaque s \<Rightarrow> s)"

definition null_text :: "string option \<Rightarrow> pyval" where
  "null_text x = (case x of None \<Rightarrow> PNone | Some s \<Rightarrow> PStr s)"

definition manifest_rows :: "db \<Rightarrow> manifest_row list" where
  "manifest_rows d = (case manifests d of None \<Rightarrow> [] | Some ms \<Rightarrow> ms)"

definition ensure_evidence_schema :: "db \<Rightarrow> db" where
  "ensure_evidence_schema d = d\<lparr>manifests := Some (manifest_rows d)\<rparr>"

definition tamper :: "string \<Rightarrow> 'a result" where
  "tamper m = Inl (EvidenceTamperError m)"

definition run_row_of :: "db \<Rightarrow> string \<Rightarrow> evidence_run_row option" where
  "run_row_of d run = first_row (\<lambda>r. er_run r = run) (evidence_runs d)"

definition same_limits :: "digest_fn \<Rightarrow> evidence_limits \<Rightarrow> evidence_run_row \<Rightarrow> bool" where
  "same_limits sha l r \<longleftrightarrow> (case limits_record sha l of (dg, payload) \<Rightarrow>
     er_version r = EVIDENCE_VERSION \<and> er_digest r = dg \<and> blob_bytes (er_limits r) = json_utf8 payload)"

definition limits_row :: "digest_fn \<Rightarrow> string \<Rightarrow> string \<Rightarrow> evidence_limits \<Rightarrow> evidence_run_row" where
  "limits_row sha stamp run l = (case limits_record sha l of (dg, payload) \<Rightarrow>
     \<lparr>er_run = run, er_version = EVIDENCE_VERSION, er_digest = dg, er_limits = Canonical payload, er_created = stamp\<rparr>)"

definition open_body :: "digest_fn \<Rightarrow> clock \<Rightarrow> string \<Rightarrow> evidence_limits \<Rightarrow> unit tx" where
  "open_body sha now run l d =
     (if \<not> has_run d run then Inl (ValueError ''run is absent'')
      else case run_row_of d run of
        None \<Rightarrow> Inr ((), d\<lparr>evidence_runs := evidence_runs d @ [limits_row sha (now 0) run l]\<rparr>)
      | Some r \<Rightarrow> if same_limits sha l r then Inr ((), d)
          else Inl (EvidenceConflictError ''run evidence limits or schema conflict''))"

definition open_evidence :: "digest_fn \<Rightarrow> clock \<Rightarrow> string \<Rightarrow> evidence_limits option \<Rightarrow> db \<Rightarrow> evidence_limits result \<times> db" where
  "open_evidence sha now run limits d =
     (if run = [] \<or> 256 < length run then (Inl (ValueError ''run_id is invalid''), d)
      else let l = (case limits of None \<Rightarrow> default_limits | Some l \<Rightarrow> l) in
        case transaction (open_body sha now run l) (ensure_evidence_schema d) of
          (Inl e, d') \<Rightarrow> (Inl e, d')
        | (Inr _, d') \<Rightarrow> (Inr l, d'))"

definition verify_run :: "digest_fn \<Rightarrow> string \<Rightarrow> evidence_limits \<Rightarrow> db \<Rightarrow> unit result" where
  "verify_run sha run l d =
     (case run_row_of d run of
        None \<Rightarrow> tamper ''run evidence configuration changed''
      | Some r \<Rightarrow> if same_limits sha l r then Inr () else tamper ''run evidence configuration changed'')"

definition attempt_in_run :: "string \<Rightarrow> string \<Rightarrow> db \<Rightarrow> attempt_row result" where
  "attempt_in_run run i d =
     (if i = [] \<or> 512 < length i then Inl (ValueError ''attempt_id is invalid'')
      else case first_row (\<lambda>a. at_id a = i) (attempts d) of
        None \<Rightarrow> Inl (ValueError ''attempt is absent or belongs to another run'')
      | Some a \<Rightarrow> if at_run a \<noteq> run then Inl (ValueError ''attempt is absent or belongs to another run'') else Inr a)"

section \<open>Observations as documents\<close>

definition opt_bool :: "bool option \<Rightarrow> pyval" where
  "opt_bool x = (case x of None \<Rightarrow> PNone | Some b \<Rightarrow> PBool b)"

definition project_observation :: "stdlib \<Rightarrow> host_observation \<Rightarrow> string \<times> pyval" where
  "project_observation lib o' =
     (let tool = canonical_tool (ob_tool o');
          facts = (if ob_success o' = Some False \<or> ob_success o' = Some True \<and> ob_source_bound o'
                   then validated_facts lib o' else []) in
      (tool, PDict [
        (''candidate_sensitive'', PBool (ob_sensitive o')),
        (''candidate_sha256s'', PList (map PStr (ob_hashes o'))),
        (''facts'', PDict facts),
        (''schema_version'', PInt EVIDENCE_VERSION),
        (''source_bound'', PBool (ob_source_bound o')),
        (''success'', opt_bool (ob_success o')),
        (''supplied_candidate_sha256s'', PList (map PStr (ob_supplied o'))),
        (''tool'', PStr tool)]))"

text \<open>What is admitted of a batch, and how many observations each limit leaves out.\<close>

record omissions =
  om_attempt :: nat
  om_object :: nat
  om_observation :: nat

record admitted_object =
  ao_ordinal :: nat
  ao_digest :: string
  ao_tool :: string
  ao_payload :: pyval

fun admit :: "stdlib \<Rightarrow> evidence_limits \<Rightarrow> nat \<Rightarrow> nat \<Rightarrow> host_observation list \<Rightarrow> admitted_object list \<times> omissions" where
  "admit lib l ordinal bytes [] = ([], \<lparr>om_attempt = 0, om_object = 0, om_observation = 0\<rparr>)"
| "admit lib l ordinal bytes (ob # obs) =
     (if lim_observations l \<le> int ordinal
      then (case admit lib l (ordinal + 1) bytes obs of (os, m) \<Rightarrow> (os, m\<lparr>om_observation := om_observation m + 1\<rparr>))
      else case project_observation lib ob of (tool, payload) \<Rightarrow>
        (let n = json_size payload in
         if lim_object l < int n
         then (case admit lib l (ordinal + 1) bytes obs of (os, m) \<Rightarrow> (os, m\<lparr>om_object := om_object m + 1\<rparr>))
         else if lim_attempt l < int (bytes + n)
         then (case admit lib l (ordinal + 1) bytes obs of (os, m) \<Rightarrow> (os, m\<lparr>om_attempt := om_attempt m + 1\<rparr>))
         else (case admit lib l (ordinal + 1) (bytes + n) obs of (os, m) \<Rightarrow>
           (\<lparr>ao_ordinal = ordinal, ao_digest = domain_digest (lib_sha lib) OBJECT_DOMAIN (json_utf8 payload),
             ao_tool = tool, ao_payload = payload\<rparr> # os, m))))"

definition omitted :: "omissions \<Rightarrow> nat" where
  "omitted m = om_attempt m + om_object m + om_observation m"

definition admitted_bytes :: "admitted_object list \<Rightarrow> nat" where
  "admitted_bytes os = sum_list (map (\<lambda>x. json_size (ao_payload x)) os)"

section \<open>Manifests\<close>

definition omissions_dict :: "omissions \<Rightarrow> (string \<times> pyval) list" where
  "omissions_dict m = [(''attempt_bytes'', PInt (int (om_attempt m))), (''object_bytes'', PInt (int (om_object m))),
     (''observation_limit'', PInt (int (om_observation m)))]"

definition item_document :: "admitted_object \<Rightarrow> pyval" where
  "item_document x = PDict [(''object_digest'', PStr (ao_digest x)), (''ordinal'', PInt (int (ao_ordinal x)))]"

definition manifest_document ::
  "string \<Rightarrow> attempt_row \<Rightarrow> bool \<Rightarrow> bool \<Rightarrow> string option \<Rightarrow> nat \<Rightarrow> admitted_object list \<Rightarrow> omissions \<Rightarrow> pyval" where
  "manifest_document run a sensitive whole gap observations os m = PDict [
     (''attempt_id'', PStr (at_id a)),
     (''candidate_sensitive'', PBool sensitive),
     (''challenge_id'', PInt (at_challenge a)),
     (''committed_count'', PInt (int (length os))),
     (''complete'', PBool whole),
     (''episode'', PInt (at_episode a)),
     (''gap'', null_text gap),
     (''item_bytes'', PInt (int (admitted_bytes os))),
     (''items'', PList (map item_document os)),
     (''lane'', PInt (at_lane a)),
     (''observation_count'', PInt (int observations)),
     (''omissions'', PDict (omissions_dict m)),
     (''omitted_count'', PInt (int (omitted m))),
     (''run_id'', PStr run),
     (''schema_version'', PInt EVIDENCE_VERSION)]"

definition manifest_row_for ::
  "digest_fn \<Rightarrow> string \<Rightarrow> string \<Rightarrow> attempt_row \<Rightarrow> bool \<Rightarrow> bool \<Rightarrow> string option \<Rightarrow> nat \<Rightarrow> admitted_object list \<Rightarrow> omissions
     \<Rightarrow> manifest_row" where
  "manifest_row_for sha stamp run a sensitive whole gap observations os m =
     (let payload = manifest_document run a sensitive whole gap observations os m in
      \<lparr>mf_run = run, mf_attempt = at_id a, mf_digest = domain_digest sha MANIFEST_DOMAIN (json_utf8 payload),
        mf_challenge = at_challenge a, mf_episode = at_episode a, mf_lane = at_lane a, mf_complete = whole, mf_gap = gap,
        mf_observations = int observations, mf_committed = int (length os), mf_omitted = int (omitted m),
        mf_bytes = int (admitted_bytes os), mf_payload = Canonical payload, mf_created = stamp\<rparr>)"

definition manifest_of :: "db \<Rightarrow> string \<Rightarrow> string \<Rightarrow> manifest_row option" where
  "manifest_of d run i = first_row (\<lambda>m. mf_run m = run \<and> mf_attempt m = i) (manifest_rows d)"

definition object_of :: "db \<Rightarrow> string \<Rightarrow> string \<Rightarrow> object_row option" where
  "object_of d run dg = first_row (\<lambda>x. eo_run x = run \<and> eo_digest x = dg) (evidence_objects d)"

text \<open>The trigger on the manifests compares the identity of the attempt.\<close>

definition insert_manifest :: "manifest_row \<Rightarrow> unit tx" where
  "insert_manifest m d =
     bind_result (ensure (list_ex (\<lambda>a. at_id a = mf_attempt m \<and> at_run a = mf_run m \<and> at_challenge a = mf_challenge m
         \<and> at_episode a = mf_episode m \<and> at_lane a = mf_lane m) (attempts d))
       (IntegrityError ''evidence attempt identity mismatch'')) (\<lambda>_.
     bind_result (unique_key (list_all (\<lambda>n. \<not> (mf_run n = mf_run m \<and> (mf_attempt n = mf_attempt m \<or> mf_digest n = mf_digest m)))
       (manifest_rows d))) (\<lambda>_.
     bind_result (foreign_key (run_row_of d (mf_run m) \<noteq> None)) (\<lambda>_.
     Inr ((), d\<lparr>manifests := Some (manifest_rows d @ [m])\<rparr>))))"

section \<open>Verification of what is stored\<close>

definition verify_canonical :: "digest_fn \<Rightarrow> blob \<Rightarrow> string \<Rightarrow> string \<Rightarrow> (string \<times> pyval) list result" where
  "verify_canonical sha payload domain expected =
     (case payload of
        Opaque s \<Rightarrow> tamper ''evidence payload is not valid JSON''
      | Canonical v \<Rightarrow>
          if \<not> canonical_ok v then tamper ''evidence payload is not canonicalizable''
          else if domain_digest sha domain (json_utf8 v) \<noteq> expected
          then tamper ''evidence payload digest or canonical form changed''
          else (case canonical_value v of PDict kvs \<Rightarrow> Inr kvs | _ \<Rightarrow> tamper ''evidence payload is not an object''))"

definition hash_list :: "pyval \<Rightarrow> bool" where
  "hash_list v = (case v of PList xs \<Rightarrow> length xs \<le> 20 \<and> list_all is_hash xs | _ \<Rightarrow> False)"

definition OBJECT_KEYS :: "string set" where
  "OBJECT_KEYS = {''candidate_sha256s'', ''candidate_sensitive'', ''facts'', ''schema_version'', ''source_bound'', ''success'',
     ''supplied_candidate_sha256s'', ''tool''}"

definition is_bool :: "pyval \<Rightarrow> bool" where
  "is_bool v = (case v of PBool _ \<Rightarrow> True | _ \<Rightarrow> False)"

definition stored_facts_ok :: "stdlib \<Rightarrow> (string \<times> pyval) list \<Rightarrow> bool" where
  "stored_facts_ok lib decoded =
     (case (dict_get decoded ''tool'', dict_get decoded ''facts'') of
        (PStr tool, PDict facts) \<Rightarrow>
          canonical_value (if dict_get decoded ''success'' = PBool False then recursive_facts (lib_sha lib) 0 (PDict facts)
            else PDict (facts_for_tool lib tool facts)) = PDict facts
          \<and> \<not> contains_candidate (PDict facts)
      | _ \<Rightarrow> False)"

text \<open>\<open>True\<close> equals \<open>1\<close> and \<open>False\<close> equals \<open>0\<close> in the test for the outcome, and a value that is not hashable
  raises there.\<close>

definition verify_object_row :: "stdlib \<Rightarrow> object_row \<Rightarrow> (string \<times> pyval) list result" where
  "verify_object_row lib row =
     (if eo_version row \<noteq> EVIDENCE_VERSION \<or> eo_bytes row \<noteq> int (length (blob_bytes (eo_payload row)))
      then tamper ''evidence object metadata changed''
      else bind_result (verify_canonical (lib_sha lib) (eo_payload row) OBJECT_DOMAIN (eo_digest row)) (\<lambda>decoded.
        if fst ` set decoded \<noteq> OBJECT_KEYS \<or> dict_get decoded ''tool'' \<noteq> PStr (eo_tool row)
          \<or> dict_get decoded ''schema_version'' \<noteq> PInt EVIDENCE_VERSION
        then tamper ''evidence object columns disagree with payload''
        else if \<not> py_hashable (dict_get decoded ''success'') then Inl (TypeError ''unhashable'')
        else if dict_get decoded ''success'' \<notin> {PBool True, PBool False, PNone, PInt 1, PInt 0}
          \<or> \<not> is_bool (dict_get decoded ''source_bound'') \<or> \<not> is_bool (dict_get decoded ''candidate_sensitive'')
          \<or> \<not> hash_list (dict_get decoded ''candidate_sha256s'') \<or> \<not> hash_list (dict_get decoded ''supplied_candidate_sha256s'')
          \<or> (dict_get decoded ''candidate_sha256s'' \<noteq> PList [] \<or> dict_get decoded ''supplied_candidate_sha256s'' \<noteq> PList [])
            \<and> dict_get decoded ''candidate_sensitive'' \<noteq> PBool True
          \<or> \<not> stored_facts_ok lib decoded
        then tamper ''evidence object columns disagree with payload''
        else Inr decoded))"

record item_view =
  iv_ordinal :: int
  iv_digest :: string
  iv_tool :: string
  iv_bytes :: int
  iv_payload :: "(string \<times> pyval) list"
  iv_redact :: bool

record manifest_view =
  mv_run :: string
  mv_attempt :: string
  mv_digest :: string
  mv_challenge :: int
  mv_episode :: int
  mv_lane :: int
  mv_complete :: bool
  mv_gap :: "string option"
  mv_observations :: int
  mv_committed :: int
  mv_omitted :: int
  mv_bytes :: int
  mv_omissions :: "(string \<times> pyval) list"
  mv_items :: "item_view list"
  mv_sensitive :: bool
  mv_carry_omitted :: nat
  mv_redact :: bool

definition MANIFEST_DOCUMENT_KEYS :: "string set" where
  "MANIFEST_DOCUMENT_KEYS = {''attempt_id'', ''candidate_sensitive'', ''challenge_id'', ''committed_count'', ''complete'', ''episode'',
     ''gap'', ''item_bytes'', ''items'', ''lane'', ''observation_count'', ''omissions'', ''omitted_count'', ''run_id'', ''schema_version''}"

definition is_text :: "pyval \<Rightarrow> bool" where
  "is_text v = (case v of PStr _ \<Rightarrow> True | _ \<Rightarrow> False)"

definition manifest_shape_ok :: "(string \<times> pyval) list \<Rightarrow> bool" where
  "manifest_shape_ok doc \<longleftrightarrow> fst ` set doc = MANIFEST_DOCUMENT_KEYS \<and> dict_get doc ''schema_version'' = PInt EVIDENCE_VERSION
     \<and> is_text (dict_get doc ''attempt_id'') \<and> is_text (dict_get doc ''run_id'')
     \<and> is_bool (dict_get doc ''candidate_sensitive'') \<and> is_bool (dict_get doc ''complete'')
     \<and> list_all (\<lambda>k. is_count (dict_get doc k))
       [''challenge_id'', ''committed_count'', ''episode'', ''item_bytes'', ''lane'', ''observation_count'', ''omitted_count'']
     \<and> dict_get doc ''challenge_id'' \<noteq> PInt 0"

definition manifest_gap_ok :: "(string \<times> pyval) list \<Rightarrow> bool" where
  "manifest_gap_ok doc \<longleftrightarrow> (if dict_get doc ''complete'' = PBool True then dict_get doc ''gap'' = PNone
     else (case dict_get doc ''gap'' of PStr g \<Rightarrow> g \<in> set GAPS | _ \<Rightarrow> False))"

definition manifest_columns_ok :: "manifest_row \<Rightarrow> (string \<times> pyval) list \<Rightarrow> bool" where
  "manifest_columns_ok row doc \<longleftrightarrow> list_all (\<lambda>(k, v). dict_get doc k = v) [
     (''attempt_id'', PStr (mf_attempt row)), (''challenge_id'', PInt (mf_challenge row)),
     (''committed_count'', PInt (mf_committed row)), (''complete'', PBool (mf_complete row)),
     (''episode'', PInt (mf_episode row)), (''gap'', null_text (mf_gap row)), (''item_bytes'', PInt (mf_bytes row)),
     (''lane'', PInt (mf_lane row)), (''observation_count'', PInt (mf_observations row)),
     (''omitted_count'', PInt (mf_omitted row)), (''run_id'', PStr (mf_run row))]"

definition int_of :: "pyval \<Rightarrow> int" where
  "int_of v = (case v of PInt i \<Rightarrow> i | _ \<Rightarrow> 0)"

definition text_of :: "pyval \<Rightarrow> string" where
  "text_of v = (case v of PStr s \<Rightarrow> s | _ \<Rightarrow> [])"

definition declared_item_ok :: "pyval \<Rightarrow> bool" where
  "declared_item_ok v = (case v of
      PDict kvs \<Rightarrow> fst ` set kvs = {''object_digest'', ''ordinal''} \<and> is_count (dict_get kvs ''ordinal'')
        \<and> is_hash (dict_get kvs ''object_digest'')
    | _ \<Rightarrow> False)"

definition manifest_counts_ok :: "manifest_row \<Rightarrow> (string \<times> pyval) list \<Rightarrow> bool" where
  "manifest_counts_ok row doc \<longleftrightarrow> (case (dict_get doc ''omissions'', dict_get doc ''items'') of
      (PDict os, PList xs) \<Rightarrow> fst ` set os = {''attempt_bytes'', ''object_bytes'', ''observation_limit''}
        \<and> list_all (\<lambda>kv. is_count (snd kv)) os \<and> sum_list (map (\<lambda>kv. int_of (snd kv)) os) = mf_omitted row
        \<and> int (length xs) = mf_committed row
        \<and> int_of (dict_get doc ''observation_count'') = int_of (dict_get doc ''committed_count'') + int_of (dict_get doc ''omitted_count'')
        \<and> list_all declared_item_ok xs
    | _ \<Rightarrow> False)"

definition declared_items :: "(string \<times> pyval) list \<Rightarrow> (int \<times> string) list" where
  "declared_items doc = (case dict_get doc ''items'' of
      PList xs \<Rightarrow> map (\<lambda>x. (int_of (dict_get (dict_items x) ''ordinal''), text_of (dict_get (dict_items x) ''object_digest''))) xs
    | _ \<Rightarrow> [])"

definition item_rows :: "db \<Rightarrow> string \<Rightarrow> string \<Rightarrow> (int \<times> string) list" where
  "item_rows d run dg = map (\<lambda>i. (ei_ordinal i, ei_object i))
     (sort_key ei_ordinal (filter (\<lambda>i. ei_run i = run \<and> ei_manifest i = dg) (evidence_items d)))"

definition load_item :: "stdlib \<Rightarrow> string \<Rightarrow> db \<Rightarrow> int \<times> string \<Rightarrow> item_view result" where
  "load_item lib run d = (\<lambda>(ordinal, dg).
     case object_of d run dg of
       None \<Rightarrow> tamper ''manifest references a missing evidence object''
     | Some row \<Rightarrow> bind_result (verify_object_row lib row) (\<lambda>decoded.
         Inr \<lparr>iv_ordinal = ordinal, iv_digest = dg, iv_tool = eo_tool row, iv_bytes = eo_bytes row, iv_payload = decoded,
           iv_redact = False\<rparr>))"

definition manifest_view_of :: "string \<Rightarrow> string \<Rightarrow> manifest_row \<Rightarrow> (string \<times> pyval) list \<Rightarrow> item_view list \<Rightarrow> manifest_view" where
  "manifest_view_of run i row doc items =
     \<lparr>mv_run = run, mv_attempt = i, mv_digest = mf_digest row, mv_challenge = mf_challenge row, mv_episode = mf_episode row,
       mv_lane = mf_lane row, mv_complete = mf_complete row, mv_gap = mf_gap row, mv_observations = mf_observations row,
       mv_committed = mf_committed row, mv_omitted = mf_omitted row, mv_bytes = mf_bytes row,
       mv_omissions = dict_items (dict_get doc ''omissions''), mv_items = items,
       mv_sensitive = (dict_get doc ''candidate_sensitive'' = PBool True), mv_carry_omitted = 0, mv_redact = False\<rparr>"

definition load_manifest :: "stdlib \<Rightarrow> string \<Rightarrow> string \<Rightarrow> db \<Rightarrow> manifest_view result" where
  "load_manifest lib run i d =
     (case manifest_of d run i of
        None \<Rightarrow> tamper ''committed evidence manifest is missing''
      | Some row \<Rightarrow>
          bind_result (verify_canonical (lib_sha lib) (mf_payload row) MANIFEST_DOMAIN (mf_digest row)) (\<lambda>doc.
          if \<not> manifest_shape_ok doc then tamper ''manifest document shape or schema version changed''
          else if \<not> manifest_gap_ok doc then tamper ''manifest completeness and gap disagree''
          else if \<not> manifest_columns_ok row doc then tamper ''manifest columns disagree with payload''
          else if \<not> manifest_counts_ok row doc then tamper ''manifest counts or item declaration changed''
          else if item_rows d run (mf_digest row) \<noteq> declared_items doc then tamper ''manifest item rows disagree with payload''
          else bind_result (traverse (load_item lib run d) (declared_items doc)) (\<lambda>items.
            if sum_list (map iv_bytes items) \<noteq> mf_bytes row then tamper ''manifest item byte accounting changed''
            else bind_result (attempt_in_run run i d) (\<lambda>a.
              if at_run a \<noteq> mf_run row \<or> at_challenge a \<noteq> mf_challenge row \<or> at_episode a \<noteq> mf_episode row \<or> at_lane a \<noteq> mf_lane row
              then tamper ''attempt identity changed after evidence commit''
              else Inr (manifest_view_of run i row doc items)))))"

section \<open>Committing a batch\<close>

definition attempt_identity :: "attempt_row \<Rightarrow> attempt_row \<Rightarrow> bool" where
  "attempt_identity a b \<longleftrightarrow> at_id a = at_id b \<and> at_run a = at_run b \<and> at_challenge a = at_challenge b
     \<and> at_episode a = at_episode b \<and> at_lane a = at_lane b"

definition store_object :: "stdlib \<Rightarrow> clock \<Rightarrow> string \<Rightarrow> admitted_object \<Rightarrow> unit tx" where
  "store_object lib now run x d =
     (case object_of d run (ao_digest x) of
        None \<Rightarrow> bind_result (foreign_key (run_row_of d run \<noteq> None)) (\<lambda>_.
          Inr ((), d\<lparr>evidence_objects := evidence_objects d @ [\<lparr>eo_run = run, eo_digest = ao_digest x,
            eo_version = EVIDENCE_VERSION, eo_tool = ao_tool x, eo_bytes = int (json_size (ao_payload x)),
            eo_payload = Canonical (ao_payload x), eo_created = now (ao_ordinal x)\<rparr>]\<rparr>))
      | Some row \<Rightarrow> bind_result (verify_object_row lib row) (\<lambda>_.
          if blob_bytes (eo_payload row) \<noteq> json_utf8 (ao_payload x) \<or> eo_tool row \<noteq> ao_tool x
          then tamper ''content-addressed object collision or tamper'' else Inr ((), d)))"

definition insert_item :: "string \<Rightarrow> string \<Rightarrow> admitted_object \<Rightarrow> unit tx" where
  "insert_item run dg x d =
     bind_result (unique_key (list_all (\<lambda>i. \<not> (ei_run i = run \<and> ei_manifest i = dg \<and> ei_ordinal i = int (ao_ordinal x)))
       (evidence_items d))) (\<lambda>_.
     bind_result (foreign_key (list_ex (\<lambda>m. mf_run m = run \<and> mf_digest m = dg) (manifest_rows d)
         \<and> object_of d run (ao_digest x) \<noteq> None)) (\<lambda>_.
     Inr ((), d\<lparr>evidence_items := evidence_items d @ [\<lparr>ei_run = run, ei_manifest = dg, ei_ordinal = int (ao_ordinal x),
       ei_object = ao_digest x\<rparr>]\<rparr>)))"

text \<open>The transaction of a commit. \<open>a\<close> is the attempt as it was read before the transaction began.\<close>

definition commit_body :: "stdlib \<Rightarrow> clock \<Rightarrow> string \<Rightarrow> attempt_row \<Rightarrow> admitted_object list \<Rightarrow> manifest_row \<Rightarrow> unit tx" where
  "commit_body lib now run a os m d =
     (case first_row (\<lambda>b. at_id b = at_id a) (attempts d) of
        None \<Rightarrow> Inl (EvidenceConflictError ''attempt identity changed during evidence commit'')
      | Some b \<Rightarrow>
          if \<not> attempt_identity b a then Inl (EvidenceConflictError ''attempt identity changed during evidence commit'')
          else case manifest_of d run (at_id a) of
            Some old \<Rightarrow>
              if mf_digest old \<noteq> mf_digest m \<or> blob_bytes (mf_payload old) \<noteq> blob_bytes (mf_payload m)
              then Inl (EvidenceConflictError ''attempt evidence was already committed differently'') else Inr ((), d)
          | None \<Rightarrow>
              if at_status b \<noteq> ''running'' then Inl (ValueError ''first evidence commit requires a running attempt'')
              else tx_bind (tx_each (store_object lib now run) os) (\<lambda>_.
                tx_bind (insert_manifest m) (\<lambda>_. tx_each (insert_item run (mf_digest m)) os)) d)"

definition batch_manifest :: "stdlib \<Rightarrow> clock \<Rightarrow> string \<Rightarrow> evidence_limits \<Rightarrow> attempt_row \<Rightarrow> evidence_batch \<Rightarrow> manifest_row" where
  "batch_manifest lib now run l a b =
     (case admit lib l 0 0 (ba_observations b) of (os, m) \<Rightarrow>
        manifest_row_for (lib_sha lib) (now (length (ba_observations b))) run a (list_ex ob_sensitive (ba_observations b))
          (ba_complete b \<and> omitted m = 0)
          (if ba_gap b \<noteq> None then ba_gap b else if omitted m \<noteq> 0 then Some ''quota_omitted'' else None)
          (length (ba_observations b)) os m)"

definition commit :: "stdlib \<Rightarrow> clock \<Rightarrow> string \<Rightarrow> evidence_limits \<Rightarrow> string \<Rightarrow> evidence_batch \<Rightarrow> db \<Rightarrow> manifest_view result \<times> db" where
  "commit lib now run l i b d =
     (case bind_result (verify_run (lib_sha lib) run l d) (\<lambda>_. attempt_in_run run i d) of
        Inl e \<Rightarrow> (Inl e, d)
      | Inr a \<Rightarrow>
          (case transaction (commit_body lib now run a (fst (admit lib l 0 0 (ba_observations b)))
                  (batch_manifest lib now run l a b)) d of
             (Inl e, d') \<Rightarrow> (Inl e, d')
           | (Inr _, d') \<Rightarrow> (load_manifest lib run i d', d')))"

section \<open>Sealing attempts without evidence\<close>

definition unsealed :: "db \<Rightarrow> attempt_row list" where
  "unsealed d = sort_key at_run (sort_key at_id (filter (\<lambda>a. at_status a \<noteq> ''running'' \<and> manifest_of d (at_run a) (at_id a) = None)
     (attempts d)))"

definition seal_gap :: "attempt_row \<Rightarrow> string" where
  "seal_gap a = (if at_status a = ''interrupted'' then ''process_interrupted'' else ''legacy_unavailable'')"

definition seal_attempt :: "digest_fn \<Rightarrow> string \<Rightarrow> string \<Rightarrow> attempt_row \<Rightarrow> unit tx" where
  "seal_attempt sha stamp stamp' a d =
     (let d1 = (if run_row_of d (at_run a) = None
        then d\<lparr>evidence_runs := evidence_runs d @ [limits_row sha stamp (at_run a) default_limits]\<rparr> else d) in
      bind_result (foreign_key (has_run d (at_run a))) (\<lambda>_.
      insert_manifest (manifest_row_for sha stamp' (at_run a) a False False (Some (seal_gap a)) 0 []
        \<lparr>om_attempt = 0, om_object = 0, om_observation = 0\<rparr>) d1))"

definition seal_body :: "digest_fn \<Rightarrow> clock \<Rightarrow> nat tx" where
  "seal_body sha now d =
     (let rows = unsealed d in
      tx_bind (tx_each (\<lambda>(k, a). seal_attempt sha (now (2 * k)) (now (2 * k + 1)) a) (zip [0..<length rows] rows))
        (\<lambda>_. tx_return (length rows)) d)"

definition seal_unavailable_attempt_evidence :: "digest_fn \<Rightarrow> clock \<Rightarrow> db \<Rightarrow> nat result \<times> db" where
  "seal_unavailable_attempt_evidence sha now d = transaction (seal_body sha now) (ensure_evidence_schema d)"

end
