(* ===== verification/Evidence_Use.thy ===== *)
theory Evidence_Use
  imports Evidence_Store Control_Decisions
begin

text \<open>
  What the host builds on a loaded manifest (\<open>src/rapido/evidence.py\<close>): the view without digests for the memory
  of the run, the attestation that binds one candidate to the manifest in which it was observed, and the
  bundle of earlier evidence that the next episode of a lane carries, within a byte limit that its
  own \<open>encoded_bytes\<close> field counts towards.
\<close>

section \<open>The view without digests\<close>

lemma traverse_cong [fundef_cong]:
  "xs = ys \<Longrightarrow> (\<And>x. x \<in> set ys \<Longrightarrow> f x = g x) \<Longrightarrow> traverse f xs = traverse g ys"
  by (induction xs arbitrary: ys) (auto split: sum.splits)

definition DIGEST_WORDS :: "string list" where
  "DIGEST_WORDS = [''sha1'', ''sha224'', ''sha256'', ''sha384'', ''sha512'', ''hash'', ''hashes'', ''digest'', ''checksum'']"

definition digest_key :: "string \<Rightarrow> bool" where
  "digest_key lowered \<longleftrightarrow> list_ex (\<lambda>w. w \<in> set DIGEST_WORDS) (split_on CHR ''_'' lowered)"

definition digest_value :: "string \<Rightarrow> bool" where
  "digest_value s \<longleftrightarrow> 32 \<le> length s \<and> length s \<le> 128 \<and> list_all (\<lambda>c. c \<in> set ''0123456789abcdefABCDEF'') s"

text \<open>A value that is left out is \<^term>\<open>None\<close>.\<close>

function digest_free :: "nat \<Rightarrow> pyval \<Rightarrow> pyval option result" where
  "digest_free depth (PDict kvs) =
     (if 32 < depth then Inl (ValueError ''memory observation exceeds the nesting limit'')
      else bind_result (traverse (\<lambda>kv. if digest_key (py_lower (fst kv)) then Inr None
            else bind_result (digest_free (depth + 1) (snd kv)) (\<lambda>r. Inr (map_option (Pair (fst kv)) r))) kvs)
        (\<lambda>rs. Inr (Some (PDict (List.map_filter (\<lambda>r. r) rs)))))"
| "digest_free depth (PList xs) =
     (if 32 < depth then Inl (ValueError ''memory observation exceeds the nesting limit'')
      else bind_result (traverse (digest_free (depth + 1)) xs) (\<lambda>rs. Inr (Some (PList (List.map_filter (\<lambda>r. r) rs)))))"
| "digest_free depth (PStr s) =
     (if 32 < depth then Inl (ValueError ''memory observation exceeds the nesting limit'')
      else Inr (if digest_value s then None else Some (PStr s)))"
| "digest_free depth PNone =
     (if 32 < depth then Inl (ValueError ''memory observation exceeds the nesting limit'') else Inr (Some PNone))"
| "digest_free depth (PBool b) =
     (if 32 < depth then Inl (ValueError ''memory observation exceeds the nesting limit'') else Inr (Some (PBool b)))"
| "digest_free depth (PInt i) =
     (if 32 < depth then Inl (ValueError ''memory observation exceeds the nesting limit'') else Inr (Some (PInt i)))"
| "digest_free depth (PFloat s) =
     (if 32 < depth then Inl (ValueError ''memory observation exceeds the nesting limit'') else Inr (Some (PFloat s)))"
  by pat_completeness auto

termination digest_free
proof (relation "measure (\<lambda>(_, v). size v)", goal_cases)
  case 1
  show ?case by simp
next
  case (2 depth kvs kv)
  then show ?case using size_snd_less_PDict by simp
next
  case (3 depth xs x)
  then show ?case by (simp add: less_Suc_eq_le size_list_estimation')
qed

record memory_observation =
  mo_ordinal :: int
  mo_tool :: string
  mo_success :: pyval
  mo_source_bound :: pyval
  mo_facts :: pyval

record memory_source =
  ms_run :: string
  ms_attempt :: string
  ms_challenge :: int
  ms_episode :: int
  ms_lane :: int
  ms_complete :: bool
  ms_gap :: "string option"
  ms_observations :: "memory_observation list"
  ms_observed :: bool
  ms_supplied :: bool

definition in_list :: "string \<Rightarrow> pyval \<Rightarrow> bool" where
  "in_list h v = (case v of PList xs \<Rightarrow> PStr h \<in> set xs | _ \<Rightarrow> False)"

definition item_supplies :: "string \<Rightarrow> item_view \<Rightarrow> bool" where
  "item_supplies h x = in_list h (dict_get (iv_payload x) ''supplied_candidate_sha256s'')"

definition item_observes :: "string \<Rightarrow> item_view \<Rightarrow> bool" where
  "item_observes h x \<longleftrightarrow> dict_get (iv_payload x) ''success'' = PBool True
     \<and> dict_get (iv_payload x) ''source_bound'' = PBool True \<and> in_list h (dict_get (iv_payload x) ''candidate_sha256s'')"

definition memory_observation_of :: "item_view \<Rightarrow> memory_observation result" where
  "memory_observation_of x =
     bind_result (digest_free 0 (dict_get (iv_payload x) ''facts'')) (\<lambda>r.
       let facts = (case r of None \<Rightarrow> PNone | Some v \<Rightarrow> v) in
       bind_result (freeze_json 0 facts) (\<lambda>_.
       Inr \<lparr>mo_ordinal = iv_ordinal x, mo_tool = iv_tool x, mo_success = dict_get (iv_payload x) ''success'',
         mo_source_bound = dict_get (iv_payload x) ''source_bound'', mo_facts = facts\<rparr>))"

definition memory_source_of :: "stdlib \<Rightarrow> string \<Rightarrow> evidence_limits \<Rightarrow> string \<Rightarrow> string option \<Rightarrow> db \<Rightarrow> memory_source result" where
  "memory_source_of lib run l i candidate d =
     (if i = [] then Inl (ValueError ''attempt_id must be nonempty'')
      else if (case candidate of None \<Rightarrow> False | Some h \<Rightarrow> \<not> hex_lower 64 64 h)
      then Inl (ValueError ''candidate_sha256 must be lowercase SHA-256'')
      else bind_result (verify_run (lib_sha lib) run l d) (\<lambda>_.
        bind_result (load_manifest lib run i d) (\<lambda>m.
        bind_result (traverse memory_observation_of (mv_items m)) (\<lambda>obs.
        Inr \<lparr>ms_run = run, ms_attempt = mv_attempt m, ms_challenge = mv_challenge m, ms_episode = mv_episode m,
          ms_lane = mv_lane m, ms_complete = mv_complete m, ms_gap = mv_gap m, ms_observations = obs,
          ms_observed = (case candidate of None \<Rightarrow> False | Some h \<Rightarrow> list_ex (item_observes h) (mv_items m)),
          ms_supplied = (case candidate of None \<Rightarrow> False | Some h \<Rightarrow> list_ex (item_supplies h) (mv_items m))\<rparr>))))"

section \<open>Attesting a candidate\<close>

definition rejection_of :: "bool \<Rightarrow> string \<Rightarrow> memory_source \<Rightarrow> manifest_view \<Rightarrow> string option" where
  "rejection_of require_fixed h s m =
     (if \<not> ms_complete s \<or> ms_gap s \<noteq> None then Some ''candidate_evidence_incomplete''
      else if ms_supplied s then Some ''candidate_supplied''
      else if \<not> ms_observed s then Some ''candidate_unobserved''
      else if require_fixed \<and> \<not> list_ex (\<lambda>x. iv_tool x \<noteq> ''run_shell'' \<and> item_observes h x) (mv_items m)
      then Some ''verifier_requires_fixed_observation''
      else None)"

definition insert_proof :: "proof_row \<Rightarrow> unit tx" where
  "insert_proof f d =
     bind_result (ensure (list_ex (\<lambda>a. at_id a = pf_attempt f \<and> at_run a = pf_run f \<and> at_challenge a = pf_challenge f
         \<and> at_status a = ''running'') (attempts d)) (IntegrityError ''candidate evidence proof identity mismatch'')) (\<lambda>_.
     bind_result (foreign_key (has_run d (pf_run f) \<and> has_challenge d (pf_challenge f))) (\<lambda>_.
     Inr ((), d\<lparr>proofs := proofs d @ [f]\<rparr>)))"

definition attest_body :: "proof_row \<Rightarrow> unit tx" where
  "attest_body f d =
     (case first_row (\<lambda>p. pf_attempt p = pf_attempt f) (proofs d) of
        None \<Rightarrow> insert_proof f d
      | Some p \<Rightarrow> if p\<lparr>pf_at := pf_at f\<rparr> \<noteq> f then Inl (EvidenceConflictError ''candidate evidence proof changed'') else Inr ((), d))"

definition attest_candidate_with_reason ::
  "stdlib \<Rightarrow> clock \<Rightarrow> string \<Rightarrow> evidence_limits \<Rightarrow> string \<Rightarrow> string \<Rightarrow> bool \<Rightarrow> db \<Rightarrow> (memory_source + string) result \<times> db" where
  "attest_candidate_with_reason lib now run l i h require_fixed d =
     (case bind_result (memory_source_of lib run l i (Some h) d) (\<lambda>s. bind_result (load_manifest lib run i d) (\<lambda>m. Inr (s, m))) of
        Inl e \<Rightarrow> (Inl e, d)
      | Inr (s, m) \<Rightarrow>
          (case rejection_of require_fixed h s m of
             Some r \<Rightarrow> (Inr (Inr r), d)
           | None \<Rightarrow>
               (case attempt_in_run run i d of
                  Inl e \<Rightarrow> (Inl e, d)
                | Inr a \<Rightarrow>
                    (case transaction (attest_body \<lparr>pf_attempt = i, pf_run = run, pf_challenge = at_challenge a, pf_key = h,
                        pf_manifest = mv_digest m, pf_at = now 0\<rparr>) d of
                       (Inl e, d') \<Rightarrow> (Inl e, d')
                     | (Inr _, d') \<Rightarrow> (Inr (Inl s), d')))))"

definition attest_candidate ::
  "stdlib \<Rightarrow> clock \<Rightarrow> string \<Rightarrow> evidence_limits \<Rightarrow> string \<Rightarrow> string \<Rightarrow> bool \<Rightarrow> db \<Rightarrow> memory_source option result \<times> db" where
  "attest_candidate lib now run l i h require_fixed d =
     (case attest_candidate_with_reason lib now run l i h require_fixed d of
        (Inl e, d') \<Rightarrow> (Inl e, d')
      | (Inr (Inl s), d') \<Rightarrow> (Inr (Some s), d')
      | (Inr (Inr r), d') \<Rightarrow> (Inr None, d'))"

section \<open>The carried bundle\<close>

definition stripped_key :: "string \<Rightarrow> bool" where
  "stripped_key k \<longleftrightarrow> py_lower k = ''hashes'' \<or> occurs (starts_with ''digest'') (py_lower k) \<or> ends_with ''sha256'' (py_lower k)"

function strip_payload_digests :: "pyval \<Rightarrow> pyval" where
  "strip_payload_digests (PDict kvs) =
     PDict (map (\<lambda>kv. (fst kv, strip_payload_digests (snd kv))) (filter (\<lambda>kv. \<not> stripped_key (fst kv)) kvs))"
| "strip_payload_digests (PList xs) = PList (map strip_payload_digests xs)"
| "strip_payload_digests PNone = PNone"
| "strip_payload_digests (PBool b) = PBool b"
| "strip_payload_digests (PInt i) = PInt i"
| "strip_payload_digests (PFloat s) = PFloat s"
| "strip_payload_digests (PStr s) = PStr s"
  by pat_completeness auto

termination strip_payload_digests
proof (relation "measure size", goal_cases)
  case 1
  show ?case by simp
next
  case (2 kvs kv)
  then have "kv \<in> set kvs" by simp
  then show ?case using size_snd_less_PDict by simp
next
  case (3 xs x)
  then show ?case by (simp add: less_Suc_eq_le size_list_estimation')
qed

definition PRIVATE_KEYS :: "string list" where
  "PRIVATE_KEYS = [''candidate_sha256s'', ''supplied_candidate_sha256s'', ''candidate_sensitive'']"

definition public_payload :: "item_view \<Rightarrow> pyval" where
  "public_payload x =
     (let payload = PDict (filter (\<lambda>kv. fst kv \<notin> set PRIVATE_KEYS) (iv_payload x)) in
      if iv_redact x then strip_payload_digests payload else payload)"

definition item_dict :: "item_view \<Rightarrow> pyval" where
  "item_dict x = PDict ([(''byte_count'', PInt (iv_bytes x))]
     @ (if iv_redact x then [] else [(''digest'', PStr (iv_digest x))])
     @ [(''ordinal'', PInt (iv_ordinal x)), (''payload'', public_payload x), (''tool'', PStr (iv_tool x))])"

definition manifest_dict :: "manifest_view \<Rightarrow> pyval" where
  "manifest_dict m = PDict ([
      (''attempt_id'', PStr (mv_attempt m)), (''carry_omitted_items'', PInt (int (mv_carry_omitted m))),
      (''challenge_id'', PInt (mv_challenge m)), (''committed_count'', PInt (mv_committed m)), (''complete'', PBool (mv_complete m))]
     @ (if mv_redact m then [] else [(''digest'', PStr (mv_digest m))])
     @ [(''episode'', PInt (mv_episode m)), (''gap'', null_text (mv_gap m)), (''item_bytes'', PInt (mv_bytes m)),
      (''items'', PList (map item_dict (mv_items m))), (''lane'', PInt (mv_lane m)),
      (''observation_count'', PInt (mv_observations m)), (''omissions'', PDict (mv_omissions m)),
      (''omitted_count'', PInt (mv_omitted m))])"

record bundle_view =
  bd_run :: string
  bd_challenge :: int
  bd_lane :: int
  bd_before :: int
  bd_manifests :: "manifest_view list"
  bd_omitted_manifests :: int
  bd_omitted_items :: int
  bd_encoded :: int

definition bundle_dict :: "bundle_view \<Rightarrow> pyval" where
  "bundle_dict b = PDict [(''before_episode'', PInt (bd_before b)), (''challenge_id'', PInt (bd_challenge b)),
     (''encoded_bytes'', PInt (bd_encoded b)), (''lane'', PInt (bd_lane b)), (''manifests'', PList (map manifest_dict (bd_manifests b))),
     (''omitted_items'', PInt (bd_omitted_items b)), (''omitted_manifests'', PInt (bd_omitted_manifests b)),
     (''run_id'', PStr (bd_run b))]"

definition measured :: "bundle_view \<Rightarrow> int" where
  "measured b = int (json_size (bundle_dict b))"

text \<open>The size of a bundle counts the digits of the size: it is measured until it no longer changes, at most
  eight times. \<open>known\<close> is the measure before.\<close>

fun bundle_loop :: "nat \<Rightarrow> int \<Rightarrow> bundle_view \<Rightarrow> bundle_view \<times> int" where
  "bundle_loop 0 known b = (b\<lparr>bd_encoded := measured b\<rparr>, measured b)"
| "bundle_loop (Suc n) known b =
     (if measured b = known \<and> bd_encoded b = measured b then (b, measured b)
      else bundle_loop n (measured b) (b\<lparr>bd_encoded := measured b\<rparr>))"

definition bundle_size :: "bundle_view \<Rightarrow> bundle_view \<times> int" where
  "bundle_size b = bundle_loop 8 (-1) b"

definition CARRIED_STATUS :: "string list" where
  "CARRIED_STATUS = [''candidate'', ''unsolved'', ''timeout'', ''cancelled'', ''interrupted'', ''failed'', ''unsupported'']"

definition carried_rows :: "string \<Rightarrow> int \<Rightarrow> int \<Rightarrow> int \<Rightarrow> db \<Rightarrow> (string \<times> string) list" where
  "carried_rows run c lane bef d =
     concat (map (\<lambda>m. map (\<lambda>a. (mf_attempt m, at_status a))
         (filter (\<lambda>a. at_id a = mf_attempt m \<and> at_run a = mf_run m \<and> at_status a \<in> set CARRIED_STATUS) (attempts d)))
       (rev (sort_key mf_episode (sort_key mf_attempt
         (filter (\<lambda>m. mf_run m = run \<and> mf_challenge m = c \<and> mf_lane m = lane \<and> mf_episode m < bef) (manifest_rows d))))))"

definition sensitive_item :: "item_view \<Rightarrow> bool" where
  "sensitive_item x \<longleftrightarrow> dict_get (iv_payload x) ''candidate_sensitive'' = PBool True"

definition redact_if_sensitive :: "string \<Rightarrow> manifest_view \<Rightarrow> manifest_view" where
  "redact_if_sensitive status m =
     (if status = ''candidate'' \<or> mv_sensitive m \<or> list_ex sensitive_item (mv_items m)
      then m\<lparr>mv_items := map (\<lambda>x. x\<lparr>iv_redact := True\<rparr>) (mv_items m), mv_redact := True\<rparr> else m)"

definition candidate_bundle :: "string \<Rightarrow> int \<Rightarrow> int \<Rightarrow> int \<Rightarrow> manifest_view list \<Rightarrow> manifest_view list \<Rightarrow> bundle_view" where
  "candidate_bundle run c lane bef available ms =
     fst (bundle_size \<lparr>bd_run = run, bd_challenge = c, bd_lane = lane, bd_before = bef, bd_manifests = ms,
       bd_omitted_manifests = int (length available) - int (length ms),
       bd_omitted_items = int (sum_list (map (\<lambda>m. length (mv_items m)) available)) - int (sum_list (map (\<lambda>m. length (mv_items m)) ms)),
       bd_encoded = 0\<rparr>)"

text \<open>One manifest is offered without its items, then its items one by one; what does not fit is passed over.\<close>

fun admit_items :: "(manifest_view list \<Rightarrow> bool) \<Rightarrow> manifest_view list \<Rightarrow> manifest_view \<Rightarrow> item_view list \<Rightarrow> manifest_view
     \<Rightarrow> item_view list \<Rightarrow> manifest_view" where
  "admit_items fits selected m admitted chosen [] = chosen"
| "admit_items fits selected m admitted chosen (x # xs) =
     (let proposed = m\<lparr>mv_items := admitted @ [x], mv_carry_omitted := length (mv_items m) - length admitted - 1\<rparr> in
      if fits (selected @ [proposed]) then admit_items fits selected m (admitted @ [x]) proposed xs
      else admit_items fits selected m admitted chosen xs)"

fun carry_manifests :: "(manifest_view list \<Rightarrow> bool) \<Rightarrow> manifest_view list \<Rightarrow> manifest_view list \<Rightarrow> manifest_view list" where
  "carry_manifests fits selected [] = selected"
| "carry_manifests fits selected (m # ms) =
     (let base = m\<lparr>mv_items := [], mv_carry_omitted := length (mv_items m)\<rparr> in
      if fits (selected @ [base])
      then carry_manifests fits (selected @ [admit_items fits selected m [] base (mv_items m)]) ms
      else carry_manifests fits selected ms)"

definition carry :: "stdlib \<Rightarrow> string \<Rightarrow> evidence_limits \<Rightarrow> int \<Rightarrow> int \<Rightarrow> int \<Rightarrow> db \<Rightarrow> bundle_view result" where
  "carry lib run l c lane bef d =
     bind_result (verify_run (lib_sha lib) run l d) (\<lambda>_.
     if c \<le> 0 then Inl (ValueError ''challenge_id must be a valid nonnegative integer'')
     else if lane < 0 then Inl (ValueError ''lane must be a valid nonnegative integer'')
     else if bef < 0 then Inl (ValueError ''before_episode must be a valid nonnegative integer'')
     else bind_result (traverse (\<lambda>(i, status). bind_result (load_manifest lib run i d) (\<lambda>m. Inr (redact_if_sensitive status m)))
         (carried_rows run c lane bef d)) (\<lambda>available.
       let bundle = candidate_bundle run c lane bef available
         (carry_manifests (\<lambda>ms. bd_encoded (candidate_bundle run c lane bef available ms) \<le> lim_carry l) [] available) in
       if lim_carry l < bd_encoded bundle then tamper ''empty evidence bundle exceeds its configured carry limit''
       else Inr bundle))"

end
