(* ===== verification/Evidence_Commit.thy ===== *)
theory Evidence_Commit
  imports Evidence_Use
begin

text \<open>
  Committing evidence: what a batch is reduced to, why every projected observation passes the checks that a
  load makes, and so why a commit can be read back and never changes.
\<close>

section \<open>Canonical documents\<close>

definition canonical_doc :: "pyval \<Rightarrow> bool" where
  "canonical_doc v \<longleftrightarrow> canonical_ok v \<and> canonical_value v = v"

lemma canonical_doc_scalars [simp]:
  "canonical_doc PNone" "canonical_doc (PBool b)" "canonical_doc (PInt i)" "canonical_doc (PStr s)"
  by (simp_all add: canonical_doc_def)

lemma canonical_doc_list [simp]: "canonical_doc (PList xs) \<longleftrightarrow> (\<forall>x \<in> set xs. canonical_doc x)"
proof -
  have "map canonical_value xs = xs \<longleftrightarrow> (\<forall>x \<in> set xs. canonical_value x = x)" by (induction xs) auto
  then show ?thesis by (auto simp: canonical_doc_def)
qed

lemma canonical_doc_dict:
  assumes "sorted (map fst kvs)" "\<forall>kv \<in> set kvs. canonical_doc (snd kv)"
  shows "canonical_doc (PDict kvs)"
proof -
  have "map (\<lambda>kv. (fst kv, canonical_value (snd kv))) kvs = kvs"
    using assms(2) by (induction kvs) (auto simp: canonical_doc_def)
  then show ?thesis using assms by (auto simp: canonical_doc_def sort_key_id)
qed

lemma canonical_texts: "canonical_doc (PList (map PStr ss))"
  by simp

lemma fact_entry_canonical:
  assumes m: "(m, x) \<in> set (fact_entries sha w k v)" and w: "canonical_doc w"
  shows "canonical_doc x"
  using m
proof (cases rule: fact_entry_cases)
  case count
  then show ?thesis by (cases v) (simp_all add: is_count_def)
next
  case (hashes kvs)
  have "canonical_doc (snd kv)" if "kv \<in> set (hash_entries kvs)" for kv
    using that by (cases "snd kv") (auto simp: hash_entries_def)
  moreover have "sorted (map fst (hash_entries kvs))" unfolding hash_entries_def by (rule sorted_filter) simp
  ultimately show ?thesis using hashes canonical_doc_dict by simp
next
  case container
  with w show ?thesis by simp
qed auto

lemma recursive_facts_canonical: "canonical_doc (recursive_facts sha depth v)"
proof (induction sha depth v rule: recursive_facts.induct)
  case (7 sha depth kvs)
  let ?f = "\<lambda>kv. fact_entries sha (recursive_facts sha (depth + 1) (snd kv)) (fst kv) (snd kv)"
  show ?case
  proof (cases "8 < depth")
    case False
    have "canonical_doc (snd kv)" if entry: "kv \<in> set (put_all (concat (map ?f (sort_key fst kvs))) [])" for kv
    proof -
      obtain k' where k': "k' \<in> set kvs" "kv \<in> set (?f k')" using concat_entry [OF entry] by auto
      then have "(fst kv, snd kv) \<in> set (?f k')" by simp
      moreover have "k' \<in> set (sort_key fst kvs)" using k'(1) by simp
      ultimately show ?thesis using 7 [OF False] fact_entry_canonical by blast
    qed
    moreover have "ordered (put_all (concat (map ?f (sort_key fst kvs))) [])" by (rule ordered_put_all) simp
    ultimately have "canonical_doc (PDict (put_all (concat (map ?f (sort_key fst kvs))) []))"
      by (intro canonical_doc_dict ordered_sorted) simp_all
    with False show ?thesis by simp
  qed simp
qed auto

lemma canonical_dict_items: "canonical_doc v \<Longrightarrow> canonical_doc (PDict (dict_items v))"
  by (cases v) (simp_all add: dict_items_def canonical_doc_dict)

lemma canonical_put:
  assumes "canonical_doc (PDict d)" "ordered d" "canonical_doc v"
  shows "canonical_doc (PDict (put k v d))"
proof (rule canonical_doc_dict)
  show "sorted (map fst (put k v d))" using ordered_put [OF assms(2)] by (rule ordered_sorted)
  have "canonical_doc (snd kv)" if "kv \<in> set d" for kv
  proof -
    have "map (\<lambda>kv. (fst kv, canonical_value (snd kv))) d = d" "\<forall>kv \<in> set d. canonical_ok (snd kv)"
      using assms(1,2) by (simp_all add: canonical_doc_def sort_key_id ordered_sorted)
    with that show ?thesis unfolding canonical_doc_def by (auto simp: map_eq_conv [where f = "\<lambda>kv. (fst kv, canonical_value (snd kv))" and g = "\<lambda>x. x", simplified] prod_eq_iff)
  qed
  then show "\<forall>kv \<in> set (put k v d). canonical_doc (snd kv)" using set_put [of k v d] assms(3) by auto
qed

lemma metadata_facts_canonical: "canonical_doc (PDict (metadata_facts sha facts))"
proof -
  let ?top = "dict_items (recursive_facts sha 0 (PDict (filter (\<lambda>kv. fst kv \<noteq> ''data'') facts)))"
  have "canonical_doc (PDict ?top)" by (rule canonical_dict_items) (rule recursive_facts_canonical)
  moreover have "canonical_doc (PDict (put ''data'' (recursive_facts sha 1 (dict_get facts ''data'')) ?top))"
    by (rule canonical_put [OF calculation ordered_projected recursive_facts_canonical])
  ultimately show ?thesis by (simp add: metadata_facts_def Let_def del: recursive_facts.simps)
qed


lemma sorted_fields_texts: "sorted_fields xs \<Longrightarrow> canonical_doc (PList xs)"
proof -
  assume "sorted_fields xs"
  then have "\<forall>x \<in> set xs. safe_shape_field x \<noteq> None" by (simp add: sorted_fields_def list_all_iff)
  moreover have "canonical_doc x" if "safe_shape_field x \<noteq> None" for x
    using that by (cases x) (simp_all add: safe_shape_field_def)
  ultimately show ?thesis by simp
qed

lemma kind_shape_canonical: "canonical_doc (kind_shape s)"
  unfolding kind_shape_def by (rule canonical_doc_dict) simp_all

lemma validated_shape_canonical:
  assumes "validated_payload_shape v = Some x"
  shows "canonical_doc x"
  using assms
proof (cases rule: validated_shape_cases)
  case (object n xs)
  then show ?thesis using sorted_fields_texts by (auto intro!: canonical_doc_dict simp del: canonical_doc_list)
next
  case (array n)
  then show ?thesis by (auto intro!: canonical_doc_dict)
next
  case (plain s)
  then show ?thesis by (simp add: kind_shape_canonical)
qed

lemma target_entry_canonical:
  assumes "(m, x) \<in> set (target_entries k v)"
  shows "canonical_doc x"
  using assms
proof (cases rule: target_entry_cases)
  case kept
  then show ?thesis by (cases v) (auto simp: is_count_def)
next
  case digest
  then show ?thesis by (cases v) (auto simp: is_hash_def)
next
  case shape
  then show ?thesis using validated_shape_canonical by blast
next
  case (fields xs)
  then show ?thesis using sorted_fields_texts by simp
qed simp

lemma canonical_put_all:
  assumes "\<forall>kv \<in> set kvs. canonical_doc (snd kv)" "canonical_doc (PDict d)" "ordered d"
  shows "canonical_doc (PDict (put_all kvs d))"
  using assms
proof (induction kvs arbitrary: d)
  case (Cons kv kvs)
  then show ?case by (cases kv) (simp add: canonical_put ordered_put)
qed simp

lemma empty_dict_canonical [simp]: "canonical_doc (PDict [])"
  by (rule canonical_doc_dict) simp_all

lemma target_metadata_canonical: "canonical_doc (PDict (target_metadata sha loads b64 facts))"
proof -
  define base where "base = put_all (concat (map (\<lambda>kv. target_entries (fst kv) (snd kv)) (sort_key fst facts))) []"
  have base: "canonical_doc (PDict base)" "ordered base"
    unfolding base_def
    by (intro canonical_put_all; auto intro: target_entry_canonical) (rule ordered_put_all, simp)
  define named where "named = (if has_key base ''response_fields'' \<or> shape_fields facts = [] then base
      else put ''response_fields'' (PList (map PStr (shape_fields facts))) base)"
  have named: "canonical_doc (PDict named)" "ordered named"
    using base by (simp_all add: named_def canonical_put ordered_put)
  show ?thesis
  proof (cases "target_payload loads b64 facts")
    case None
    show ?thesis
      unfolding target_metadata_def Let_def base_def [symmetric] named_def [symmetric] None option.case by (rule named(1))
  next
    case (Some p)
    obtain payload representation shape where p: "p = (payload, representation, shape)" by (cases p)
    have "canonical_doc shape" using target_payload_shapes(2) Some p validated_shape_canonical by blast
    then have "canonical_doc (PDict (put_all [(''payload_bytes'', PInt (int (length payload))),
            (''payload_digest_domain'', PStr TARGET_PAYLOAD_DOMAIN_LABEL),
            (''payload_representation'', PStr representation),
            (''payload_sha256'', PStr (domain_digest sha TARGET_PAYLOAD_DOMAIN payload)),
            (''payload_shape'', shape)] named))"
      using named by (intro canonical_put_all) auto
    then show ?thesis
      unfolding target_metadata_def Let_def base_def [symmetric] named_def [symmetric] Some p option.case prod.case .
  qed
qed

lemma facts_for_tool_canonical: "canonical_doc (PDict (facts_for_tool lib tool facts))"
  using target_metadata_canonical metadata_facts_canonical canonical_dict_items [OF recursive_facts_canonical]
  by (simp add: facts_for_tool_def del: recursive_facts.simps)

lemma validated_facts_canonical: "canonical_doc (PDict (validated_facts lib ob))"
  using facts_for_tool_canonical canonical_dict_items [OF recursive_facts_canonical]
  by (simp add: validated_facts_def observed_facts_def Let_def del: recursive_facts.simps)

section \<open>A projected observation verifies\<close>

definition well_formed :: "host_observation \<Rightarrow> bool" where
  "well_formed ob \<longleftrightarrow> construct_observation ob = Inr ob"

lemma well_formed_hashes:
  assumes "well_formed ob"
  shows "length (ob_hashes ob) \<le> 20" "\<forall>h \<in> set (ob_hashes ob). hex_lower 64 64 h"
    "length (ob_supplied ob) \<le> 20" "\<forall>h \<in> set (ob_supplied ob). hex_lower 64 64 h"
    "ob_hashes ob \<noteq> [] \<or> ob_supplied ob \<noteq> [] \<Longrightarrow> ob_sensitive ob"
proof -
  have "check_hashes ''candidate_sha256s'' (ob_hashes ob) = Inr ()" "check_hashes ''supplied_candidate_sha256s'' (ob_supplied ob) = Inr ()"
    and same: "ob\<lparr>ob_sensitive := ob_sensitive ob \<or> ob_hashes ob \<noteq> [] \<or> ob_supplied ob \<noteq> []\<rparr> = ob"
    using assms by (auto simp: well_formed_def construct_observation_def split: if_split_asm elim!: bind_result_InrE)
  then show "length (ob_hashes ob) \<le> 20" "\<forall>h \<in> set (ob_hashes ob). hex_lower 64 64 h"
    "length (ob_supplied ob) \<le> 20" "\<forall>h \<in> set (ob_supplied ob). hex_lower 64 64 h"
    by (simp_all add: check_hashes_def list_all_iff)
  show "ob_hashes ob \<noteq> [] \<or> ob_supplied ob \<noteq> [] \<Longrightarrow> ob_sensitive ob"
    using arg_cong [OF same, of ob_sensitive] by simp
qed

definition observation_facts :: "stdlib \<Rightarrow> host_observation \<Rightarrow> (string \<times> pyval) list" where
  "observation_facts lib ob = (if ob_success ob = Some False \<or> ob_success ob = Some True \<and> ob_source_bound ob
     then validated_facts lib ob else [])"

lemma validated_no_candidate: "\<not> contains_candidate (PDict (validated_facts lib ob))"
proof -
  have "\<not> contains_candidate (PDict [])" by code_simp
  then show ?thesis by (simp add: validated_facts_def Let_def)
qed

lemma empty_no_candidate: "\<not> contains_candidate (PDict [])"
  by code_simp

lemma no_facts_for_tool: "facts_for_tool lib tool [] = []"
  using empty_facts [of lib None tool] by (simp add: observed_facts_def)

lemma observation_facts_stored:
  assumes "hex_digests (lib_sha lib)"
  shows "canonical_value (if ob_success ob = Some False then recursive_facts (lib_sha lib) 0 (PDict (observation_facts lib ob))
     else PDict (facts_for_tool lib (canonical_tool (ob_tool ob)) (observation_facts lib ob))) = PDict (observation_facts lib ob)
   \<and> \<not> contains_candidate (PDict (observation_facts lib ob))"
proof -
  let ?f = "observation_facts lib ob"
  let ?obs = "observed_facts lib (ob_success ob) (canonical_tool (ob_tool ob))"
  have again: "?obs ?f = ?f"
    unfolding observation_facts_def validated_facts_def Let_def
    using observed_facts_stable [OF assms] empty_facts by simp
  have "PDict (?obs ?f) = (if ob_success ob = Some False then recursive_facts (lib_sha lib) 0 (PDict ?f)
     else PDict (facts_for_tool lib (canonical_tool (ob_tool ob)) ?f))"
    using projected_dict [of "lib_sha lib" ?f] by (simp add: observed_facts_def del: recursive_facts.simps)
  moreover have "canonical_value (PDict ?f) = PDict ?f"
    using validated_facts_canonical [of lib ob] empty_dict_canonical
    by (simp add: observation_facts_def canonical_doc_def del: canonical_value.simps)
  moreover have "\<not> contains_candidate (PDict ?f)"
    using validated_no_candidate empty_no_candidate by (simp add: observation_facts_def)
  ultimately show ?thesis using again by simp
qed


definition observation_entries :: "stdlib \<Rightarrow> host_observation \<Rightarrow> (string \<times> pyval) list" where
  "observation_entries lib ob = [
        (''candidate_sensitive'', PBool (ob_sensitive ob)),
        (''candidate_sha256s'', PList (map PStr (ob_hashes ob))),
        (''facts'', PDict (observation_facts lib ob)),
        (''schema_version'', PInt EVIDENCE_VERSION),
        (''source_bound'', PBool (ob_source_bound ob)),
        (''success'', opt_bool (ob_success ob)),
        (''supplied_candidate_sha256s'', PList (map PStr (ob_supplied ob))),
        (''tool'', PStr (canonical_tool (ob_tool ob)))]"

lemma project_observation_entries:
  "project_observation lib ob = (canonical_tool (ob_tool ob), PDict (observation_entries lib ob))"
  by (simp add: project_observation_def observation_entries_def observation_facts_def Let_def)

lemma observation_canonical: "canonical_doc (PDict (observation_entries lib ob))"
proof (rule canonical_doc_dict)
  show "sorted (map fst (observation_entries lib ob))" by (simp add: observation_entries_def)
  have "canonical_doc (PDict (observation_facts lib ob))"
    using validated_facts_canonical by (simp add: observation_facts_def)
  moreover have "canonical_doc (opt_bool (ob_success ob))" by (cases "ob_success ob") (simp_all add: opt_bool_def)
  ultimately show "\<forall>kv \<in> set (observation_entries lib ob). canonical_doc (snd kv)"
    by (auto simp: observation_entries_def)
qed

lemma verify_canonical_doc:
  assumes "canonical_doc (PDict kvs)" "expected = domain_digest sha domain (json_utf8 (PDict kvs))"
  shows "verify_canonical sha (Canonical (PDict kvs)) domain expected = Inr kvs"
proof -
  have ok: "canonical_ok (PDict kvs)" and v: "canonical_value (PDict kvs) = PDict kvs"
    using assms(1) unfolding canonical_doc_def by blast+
  show ?thesis
    unfolding verify_canonical_def blob.case v assms(2) using ok by (simp del: canonical_ok.simps json_utf8.simps)
qed

lemma entry_gets:
  "dict_get (observation_entries lib ob) ''tool'' = PStr (canonical_tool (ob_tool ob))"
  "dict_get (observation_entries lib ob) ''schema_version'' = PInt EVIDENCE_VERSION"
  "dict_get (observation_entries lib ob) ''success'' = opt_bool (ob_success ob)"
  "dict_get (observation_entries lib ob) ''source_bound'' = PBool (ob_source_bound ob)"
  "dict_get (observation_entries lib ob) ''candidate_sensitive'' = PBool (ob_sensitive ob)"
  "dict_get (observation_entries lib ob) ''candidate_sha256s'' = PList (map PStr (ob_hashes ob))"
  "dict_get (observation_entries lib ob) ''supplied_candidate_sha256s'' = PList (map PStr (ob_supplied ob))"
  "dict_get (observation_entries lib ob) ''facts'' = PDict (observation_facts lib ob)"
  "fst ` set (observation_entries lib ob) = OBJECT_KEYS"
  by (simp_all add: observation_entries_def OBJECT_KEYS_def insert_commute)

lemma hash_list_texts: "length hs \<le> 20 \<Longrightarrow> \<forall>h \<in> set hs. hex_lower 64 64 h \<Longrightarrow> hash_list (PList (map PStr hs))"
  by (simp add: hash_list_def list_all_iff is_hash_def)

lemma stored_facts_projected:
  assumes "hex_digests (lib_sha lib)"
  shows "stored_facts_ok lib (observation_entries lib ob)"
proof -
  have "opt_bool (ob_success ob) = PBool False \<longleftrightarrow> ob_success ob = Some False"
    by (cases "ob_success ob") (simp_all add: opt_bool_def)
  then show ?thesis
    using observation_facts_stored [OF assms, of ob]
    unfolding stored_facts_ok_def entry_gets prod.case pyval.case by (simp only: simp_thms)
qed

definition stored_as :: "admitted_object \<Rightarrow> string \<Rightarrow> string \<Rightarrow> object_row" where
  "stored_as x run stamp = \<lparr>eo_run = run, eo_digest = ao_digest x, eo_version = EVIDENCE_VERSION, eo_tool = ao_tool x,
     eo_bytes = int (json_size (ao_payload x)), eo_payload = Canonical (ao_payload x), eo_created = stamp\<rparr>"

definition admitted_from :: "stdlib \<Rightarrow> host_observation \<Rightarrow> admitted_object \<Rightarrow> bool" where
  "admitted_from lib ob x \<longleftrightarrow> ao_tool x = canonical_tool (ob_tool ob) \<and> ao_payload x = PDict (observation_entries lib ob)
     \<and> ao_digest x = domain_digest (lib_sha lib) OBJECT_DOMAIN (json_utf8 (ao_payload x))"

lemma projected_verifies:
  assumes lib: "hex_digests (lib_sha lib)" and ob: "well_formed ob" and x: "admitted_from lib ob x"
    and row: "eo_version row = EVIDENCE_VERSION" "eo_bytes row = int (json_size (ao_payload x))"
      "eo_payload row = Canonical (ao_payload x)" "eo_digest row = ao_digest x" "eo_tool row = ao_tool x"
  shows "verify_object_row lib row = Inr (observation_entries lib ob)"
proof -
  note hs = well_formed_hashes [OF ob]
  have x': "ao_payload x = PDict (observation_entries lib ob)" "ao_tool x = canonical_tool (ob_tool ob)"
    using x by (simp_all add: admitted_from_def)
  have v: "verify_canonical (lib_sha lib) (eo_payload row) OBJECT_DOMAIN (eo_digest row) = Inr (observation_entries lib ob)"
    unfolding row(3,4) x'(1) by (rule verify_canonical_doc [OF observation_canonical])
      (use x in \<open>simp only: admitted_from_def x'(1)\<close>)
  have bytes: "eo_bytes row = int (length (blob_bytes (eo_payload row)))"
    by (simp add: row(2,3) blob_bytes_def json_size_def)
  have success: "py_hashable (opt_bool (ob_success ob))" "opt_bool (ob_success ob) \<in> {PBool True, PBool False, PNone, PInt 1, PInt 0}"
    by (cases "ob_success ob"; simp add: opt_bool_def py_hashable_def)+
  have checks: "hash_list (PList (map PStr (ob_hashes ob)))" "hash_list (PList (map PStr (ob_supplied ob)))"
    using hs by (simp_all add: hash_list_texts)
  have sens: "PList (map PStr (ob_hashes ob)) \<noteq> PList [] \<or> PList (map PStr (ob_supplied ob)) \<noteq> PList [] \<Longrightarrow> ob_sensitive ob"
    using hs(5) by auto
  show ?thesis
    unfolding verify_object_row_def v bind_result_simps entry_gets
    using bytes row(1,5) x'(2) success checks sens stored_facts_projected [OF lib, of ob]
    by (auto simp: is_bool_def)
qed


section \<open>What is admitted\<close>

definition object_for :: "stdlib \<Rightarrow> nat \<Rightarrow> host_observation \<Rightarrow> admitted_object" where
  "object_for lib k ob = \<lparr>ao_ordinal = k,
     ao_digest = domain_digest (lib_sha lib) OBJECT_DOMAIN (json_utf8 (PDict (observation_entries lib ob))),
     ao_tool = canonical_tool (ob_tool ob), ao_payload = PDict (observation_entries lib ob)\<rparr>"

lemma admit_Cons_cases:
  fixes lib l k bytes ob obs
  defines "n \<equiv> json_size (PDict (observation_entries lib ob))"
  obtains (omit) os m m' where "admit lib l k bytes (ob # obs) = (os, m')" "admit lib l (k + 1) bytes obs = (os, m)"
      "omitted m' = omitted m + 1"
    | (keep) os m where "admit lib l k bytes (ob # obs) = (object_for lib k ob # os, m)"
      "admit lib l (k + 1) (bytes + n) obs = (os, m)" "int k < lim_observations l" "int n \<le> lim_object l"
      "int (bytes + n) \<le> lim_attempt l"
proof -
  obtain os m where a: "admit lib l (k + 1) bytes obs = (os, m)" by (cases "admit lib l (k + 1) bytes obs")
  obtain os' m' where b: "admit lib l (k + 1) (bytes + n) obs = (os', m')" by (cases "admit lib l (k + 1) (bytes + n) obs")
  note step = admit.simps(2) [of lib l k bytes ob obs, unfolded project_observation_entries prod.case Let_def, folded n_def]
  consider (limit) "lim_observations l \<le> int k" | (big) "\<not> lim_observations l \<le> int k" "lim_object l < int n"
    | (total) "\<not> lim_observations l \<le> int k" "\<not> lim_object l < int n" "lim_attempt l < int (bytes + n)"
    | (kept) "\<not> lim_observations l \<le> int k" "\<not> lim_object l < int n" "\<not> lim_attempt l < int (bytes + n)" by blast
  then show thesis
  proof cases
    case limit
    with step a show thesis
      by (intro omit [of os "m\<lparr>om_observation := om_observation m + 1\<rparr>" m]) (simp_all add: omitted_def)
  next
    case big
    with step a show thesis
      by (intro omit [of os "m\<lparr>om_object := om_object m + 1\<rparr>" m]) (simp_all add: omitted_def)
  next
    case total
    with step a show thesis
      by (intro omit [of os "m\<lparr>om_attempt := om_attempt m + 1\<rparr>" m]) (simp_all add: omitted_def)
  next
    case kept
    with step b show thesis by (intro keep [OF _ b]) (simp_all add: object_for_def)
  qed
qed

lemma admit_entry:
  assumes "x \<in> set (fst (admit lib l k bytes obs))"
  shows "\<exists>i < length obs. x = object_for lib (k + i) (obs ! i) \<and> int (k + i) < lim_observations l
    \<and> int (json_size (ao_payload x)) \<le> lim_object l"
  using assms
proof (induction obs arbitrary: k bytes)
  case (Cons ob obs)
  have later: ?case if ex: "\<exists>i < length obs. x = object_for lib (k + 1 + i) (obs ! i) \<and> int (k + 1 + i) < lim_observations l
    \<and> int (json_size (ao_payload x)) \<le> lim_object l"
  proof -
    obtain i where i: "i < length obs" "x = object_for lib (k + 1 + i) (obs ! i)" "int (k + 1 + i) < lim_observations l"
      "int (json_size (ao_payload x)) \<le> lim_object l" using ex by (elim exE conjE)
    then show ?thesis by (intro exI [of _ "Suc i"] conjI) simp_all
  qed
  show ?case
  proof (cases rule: admit_Cons_cases [of lib l k bytes ob obs])
    case (omit os m m')
    have "x \<in> set (fst (admit lib l (k + 1) bytes obs))" using Cons.prems omit(1,2) by simp
    from Cons.IH [OF this] show ?thesis by (rule later)
  next
    case (keep os m)
    show ?thesis
    proof (cases "x = object_for lib k ob")
      case True
      with keep show ?thesis by (intro exI [of _ 0]) (simp add: object_for_def)
    next
      case False
      then have "x \<in> set (fst (admit lib l (k + 1) (bytes + json_size (PDict (observation_entries lib ob))) obs))"
        using Cons.prems keep(1,2) by simp
      from Cons.IH [OF this] show ?thesis by (rule later)
    qed
  qed
qed simp

lemma admit_ordered: "sorted_wrt (<) (map ao_ordinal (fst (admit lib l k bytes obs)))"
proof (induction obs arbitrary: k bytes)
  case (Cons ob obs)
  show ?case
  proof (cases rule: admit_Cons_cases [of lib l k bytes ob obs])
    case (omit os m m')
    with Cons [of "k + 1" bytes] show ?thesis by simp
  next
    case (keep os m)
    have "k < ao_ordinal x" if "x \<in> set os" for x
    proof -
      have "x \<in> set (fst (admit lib l (k + 1) (bytes + json_size (PDict (observation_entries lib ob))) obs))"
        using that keep(2) by simp
      from admit_entry [OF this] obtain i where "x = object_for lib (k + 1 + i) (obs ! i)" by blast
      then show ?thesis by (simp add: object_for_def)
    qed
    moreover have "sorted_wrt (<) (map ao_ordinal os)"
      using Cons [of "k + 1" "bytes + json_size (PDict (observation_entries lib ob))"] keep(2) by simp
    ultimately show ?thesis using keep(1) by (auto simp: object_for_def)
  qed
qed simp

lemma admit_counts:
  assumes "admit lib l k bytes obs = (os, m)"
  shows "length os + omitted m = length obs \<and> (int bytes \<le> lim_attempt l \<longrightarrow> int (bytes + admitted_bytes os) \<le> lim_attempt l)"
  using assms
proof (induction obs arbitrary: k bytes os m)
  case Nil
  then show ?case by (auto simp: omitted_def admitted_bytes_def)
next
  case (Cons ob obs)
  show ?case
  proof (cases rule: admit_Cons_cases [of lib l k bytes ob obs])
    case (omit os' m' m'')
    with Cons.prems Cons.IH [OF omit(2)] show ?thesis by simp
  next
    case (keep os' m')
    with Cons.prems Cons.IH [OF keep(2)] show ?thesis by (auto simp: admitted_bytes_def object_for_def)
  qed
qed

lemma admit_few: "int (length (fst (admit lib l k bytes obs))) + int k \<le> max (int k) (lim_observations l)"
proof (induction obs arbitrary: k bytes)
  case (Cons ob obs)
  show ?case
  proof (cases rule: admit_Cons_cases [of lib l k bytes ob obs])
    case (omit os m m')
    show ?thesis
    proof (cases "lim_observations l \<le> int k")
      case True
      have "os = []"
      proof (rule ccontr)
        assume "os \<noteq> []"
        then have "hd os \<in> set (fst (admit lib l (k + 1) bytes obs))" using omit(2) by simp
        from admit_entry [OF this] True show False by auto
      qed
      with omit(1) show ?thesis by simp
    next
      case False
      with omit Cons [of "k + 1" bytes] show ?thesis by simp
    qed
  next
    case (keep os m)
    with Cons [of "k + 1" "bytes + json_size (PDict (observation_entries lib ob))"] show ?thesis by simp
  qed
qed simp

text \<open>C10. The quotas of a commit: of a batch, every observation is either admitted or counted in exactly one kind of omission, the
  admitted ones are at most \<open>max_observations\<close>, each of them at most \<open>max_object_bytes\<close> long and together at
  most \<open>max_attempt_bytes\<close>; they keep their positions in the batch, in order.\<close>

theorem admitted_within_quotas:
  assumes "admit lib l 0 0 obs = (os, m)" "0 \<le> lim_attempt l" "0 \<le> lim_observations l"
  shows "length os + om_attempt m + om_object m + om_observation m = length obs \<and> int (length os) \<le> lim_observations l
    \<and> int (admitted_bytes os) \<le> lim_attempt l \<and> (\<forall>x \<in> set os. int (json_size (ao_payload x)) \<le> lim_object l)
    \<and> sorted_wrt (<) (map ao_ordinal os)
    \<and> (\<forall>x \<in> set os. ao_ordinal x < length obs \<and> x = object_for lib (ao_ordinal x) (obs ! ao_ordinal x))"
proof -
  have "x = object_for lib (ao_ordinal x) (obs ! ao_ordinal x) \<and> ao_ordinal x < length obs
      \<and> int (json_size (ao_payload x)) \<le> lim_object l" if "x \<in> set os" for x
  proof -
    have "x \<in> set (fst (admit lib l 0 0 obs))" using that assms(1) by simp
    from admit_entry [OF this] obtain i where i: "i < length obs" "x = object_for lib (0 + i) (obs ! i)"
      "int (json_size (ao_payload x)) \<le> lim_object l" by blast
    then have "ao_ordinal x = i" by (simp add: object_for_def)
    with i show ?thesis by simp
  qed
  moreover have "sorted_wrt (<) (map ao_ordinal os)" using admit_ordered [of lib l 0 0 obs] assms(1) by simp
  moreover have "int (length os) \<le> lim_observations l" using admit_few [of lib l 0 0 obs] assms(1,3) by simp
  ultimately show ?thesis using admit_counts [OF assms(1)] assms(2) by (simp add: omitted_def)
qed


section \<open>Storing objects\<close>

definition good_row :: "admitted_object \<Rightarrow> object_row \<Rightarrow> bool" where
  "good_row x row \<longleftrightarrow> eo_version row = EVIDENCE_VERSION \<and> eo_bytes row = int (json_size (ao_payload x))
     \<and> eo_payload row = Canonical (ao_payload x) \<and> eo_digest row = ao_digest x \<and> eo_tool row = ao_tool x"

definition objects_sound :: "stdlib \<Rightarrow> db \<Rightarrow> bool" where
  "objects_sound lib d \<longleftrightarrow> (\<forall>row \<in> set (evidence_objects d). is_ok (verify_object_row lib row))"

definition collision_free :: "db \<Rightarrow> string \<Rightarrow> admitted_object list \<Rightarrow> bool" where
  "collision_free d run os \<longleftrightarrow> (\<forall>x \<in> set os. \<forall>y \<in> set os. ao_digest x = ao_digest y \<longrightarrow> ao_payload x = ao_payload y)
     \<and> (\<forall>x \<in> set os. \<forall>row \<in> set (evidence_objects d). eo_run row = run \<and> eo_digest row = ao_digest x
          \<longrightarrow> eo_payload row = Canonical (ao_payload x))"

lemma collision_free_pair: "collision_free d run os \<Longrightarrow> x \<in> set os \<Longrightarrow> y \<in> set os \<Longrightarrow> ao_digest x = ao_digest y \<Longrightarrow> ao_payload x = ao_payload y"
  and collision_free_row: "collision_free d run os \<Longrightarrow> x \<in> set os \<Longrightarrow> row \<in> set (evidence_objects d) \<Longrightarrow> eo_run row = run
    \<Longrightarrow> eo_digest row = ao_digest x \<Longrightarrow> eo_payload row = Canonical (ao_payload x)"
  unfolding collision_free_def by blast+

definition projected :: "stdlib \<Rightarrow> admitted_object \<Rightarrow> bool" where
  "projected lib x \<longleftrightarrow> (\<exists>ob. well_formed ob \<and> admitted_from lib ob x)"

lemma projected_good_verifies:
  assumes "hex_digests (lib_sha lib)" "projected lib x" "good_row x row"
  shows "verify_object_row lib row = Inr (dict_items (ao_payload x))"
proof -
  obtain ob where ob: "well_formed ob" "admitted_from lib ob x" using assms(2) by (auto simp: projected_def)
  have "verify_object_row lib row = Inr (observation_entries lib ob)"
    by (rule projected_verifies [OF assms(1) ob]) (use assms(3) in \<open>simp_all add: good_row_def\<close>)
  with ob(2) show ?thesis by (simp add: admitted_from_def dict_items_def)
qed

lemma sound_row_good:
  assumes "projected lib x" "is_ok (verify_object_row lib row)" "eo_payload row = Canonical (ao_payload x)" "eo_digest row = ao_digest x"
  shows "good_row x row"
proof -
  obtain ob where ob: "admitted_from lib ob x" using assms(1) by (auto simp: projected_def)
  then have p: "ao_payload x = PDict (observation_entries lib ob)" "ao_tool x = canonical_tool (ob_tool ob)" by (simp_all add: admitted_from_def)
  have v: "canonical_value (PDict (observation_entries lib ob)) = PDict (observation_entries lib ob)"
    using observation_canonical [of lib ob] unfolding canonical_doc_def by blast
  obtain decoded where ok: "verify_object_row lib row = Inr decoded" using assms(2) by (cases "verify_object_row lib row") simp_all
  then have row: "eo_version row = EVIDENCE_VERSION" "eo_bytes row = int (length (blob_bytes (eo_payload row)))"
    and decoded: "verify_canonical (lib_sha lib) (eo_payload row) OBJECT_DOMAIN (eo_digest row) = Inr decoded"
    and tool: "dict_get decoded ''tool'' = PStr (eo_tool row)"
    by (auto simp: verify_object_row_def tamper_def split: if_split_asm elim!: bind_result_InrE)
  have "decoded = observation_entries lib ob"
    using decoded unfolding assms(3) p(1) verify_canonical_def blob.case v
    by (simp add: tamper_def split: if_split_asm)
  then have "eo_tool row = ao_tool x" using tool by (simp add: entry_gets p(2))
  then show ?thesis using row assms(3,4) by (simp add: good_row_def blob_bytes_def json_size_def)
qed

lemma object_of_append: "object_of d run dg = Some row \<Longrightarrow> object_of (d\<lparr>evidence_objects := evidence_objects d @ new\<rparr>) run dg = Some row"
  by (simp add: object_of_def first_row_append)

lemma run_row_objects [simp]: "run_row_of (d\<lparr>evidence_objects := xs\<rparr>) run = run_row_of d run"
  by (simp add: run_row_of_def)

lemma store_one:
  assumes "hex_digests (lib_sha lib)" "projected lib x" "objects_sound lib d" "collision_free d run (x # os)" "run_row_of d run \<noteq> None"
  obtains new row where "store_object lib now run x d = Inr ((), d\<lparr>evidence_objects := evidence_objects d @ new\<rparr>)"
    "object_of (d\<lparr>evidence_objects := evidence_objects d @ new\<rparr>) run (ao_digest x) = Some row" "good_row x row"
    "\<forall>r \<in> set new. r = stored_as x run (now (ao_ordinal x))"
proof (cases "object_of d run (ao_digest x)")
  case None
  let ?r = "stored_as x run (now (ao_ordinal x))"
  show thesis
  proof (rule that [of "[?r]" ?r])
    show "store_object lib now run x d = Inr ((), d\<lparr>evidence_objects := evidence_objects d @ [?r]\<rparr>)"
      using None assms(5) by (simp add: store_object_def stored_as_def)
    show "object_of (d\<lparr>evidence_objects := evidence_objects d @ [?r]\<rparr>) run (ao_digest x) = Some ?r"
      using None by (simp add: object_of_def first_row_append) (simp add: first_row_def stored_as_def)
    show "good_row x ?r" by (simp add: good_row_def stored_as_def)
  qed simp
next
  case (Some row)
  have row: "row \<in> set (evidence_objects d)" "eo_run row = run" "eo_digest row = ao_digest x"
    using first_row_Some [OF Some [unfolded object_of_def]] by simp_all
  have "eo_payload row = Canonical (ao_payload x)" using row by (intro collision_free_row [OF assms(4)]) simp_all
  moreover have "is_ok (verify_object_row lib row)" using assms(3) row(1) by (simp add: objects_sound_def)
  ultimately have good: "good_row x row" by (intro sound_row_good [OF assms(2) _ _ row(3)])
  have d: "d\<lparr>evidence_objects := evidence_objects d @ []\<rparr> = d" by simp
  show thesis
  proof (rule that [of "[]" row])
    show "store_object lib now run x d = Inr ((), d\<lparr>evidence_objects := evidence_objects d @ []\<rparr>)"
      using Some good projected_good_verifies [OF assms(1,2) good] by (simp add: store_object_def good_row_def blob_bytes_def)
    show "object_of (d\<lparr>evidence_objects := evidence_objects d @ []\<rparr>) run (ao_digest x) = Some row" using Some by simp
  qed (simp_all add: good)
qed

lemma store_all:
  assumes "hex_digests (lib_sha lib)" "\<forall>x \<in> set os. projected lib x" "objects_sound lib d" "collision_free d run os"
    "run_row_of d run \<noteq> None"
  shows "\<exists>new. tx_each (store_object lib now run) os d = Inr ((), d\<lparr>evidence_objects := evidence_objects d @ new\<rparr>)
    \<and> (\<forall>x \<in> set os. \<exists>row. object_of (d\<lparr>evidence_objects := evidence_objects d @ new\<rparr>) run (ao_digest x) = Some row \<and> good_row x row)
    \<and> objects_sound lib (d\<lparr>evidence_objects := evidence_objects d @ new\<rparr>)"
  using assms(2-5)
proof (induction os arbitrary: d)
  case Nil
  show ?case by (rule exI [of _ "[]"]) (simp add: Nil.prems tx_return_def)
next
  case (Cons x os)
  have x: "projected lib x" using Cons.prems(1) by simp
  obtain new row where st: "store_object lib now run x d = Inr ((), d\<lparr>evidence_objects := evidence_objects d @ new\<rparr>)"
    "object_of (d\<lparr>evidence_objects := evidence_objects d @ new\<rparr>) run (ao_digest x) = Some row" "good_row x row"
    "\<forall>r \<in> set new. r = stored_as x run (now (ao_ordinal x))"
    using store_one [OF assms(1) x Cons.prems(2-4)] .
  let ?d = "d\<lparr>evidence_objects := evidence_objects d @ new\<rparr>"
  have good: "good_row x (stored_as x run (now (ao_ordinal x)))" by (simp add: good_row_def stored_as_def)
  have sound: "objects_sound lib ?d"
    unfolding objects_sound_def
  proof
    fix r assume "r \<in> set (evidence_objects ?d)"
    then consider "r \<in> set (evidence_objects d)" | "r \<in> set new" by auto
    then show "is_ok (verify_object_row lib r)"
    proof cases
      case 1
      with Cons.prems(2) show ?thesis by (simp add: objects_sound_def)
    next
      case 2
      with st(4) have "r = stored_as x run (now (ao_ordinal x))" by (rule bspec)
      then show ?thesis using projected_good_verifies [OF assms(1) x good] by simp
    qed
  qed
  have free: "collision_free ?d run os"
    unfolding collision_free_def
  proof (intro conjI ballI impI)
    fix y z assume "y \<in> set os" "z \<in> set os" "ao_digest y = ao_digest z"
    then show "ao_payload y = ao_payload z" by (intro collision_free_pair [OF Cons.prems(3)]) simp_all
  next
    fix y r assume y: "y \<in> set os" and r: "r \<in> set (evidence_objects ?d)" "eo_run r = run \<and> eo_digest r = ao_digest y"
    show "eo_payload r = Canonical (ao_payload y)"
    proof (cases "r \<in> set (evidence_objects d)")
      case True
      then show ?thesis using y r(2) by (intro collision_free_row [OF Cons.prems(3)]) simp_all
    next
      case False
      then have "r \<in> set new" using r(1) by simp
      with st(4) have "r = stored_as x run (now (ao_ordinal x))" by (rule bspec)
      moreover have "ao_payload x = ao_payload y"
        using calculation y r(2) by (intro collision_free_pair [OF Cons.prems(3)]) (simp_all add: stored_as_def)
      ultimately show ?thesis by (simp add: stored_as_def)
    qed
  qed
  have more: "\<forall>x \<in> set os. projected lib x" "run_row_of ?d run \<noteq> None" using Cons.prems(1,4) by simp_all
  from Cons.IH [of ?d, OF more(1) sound free more(2)] obtain new' where rest: "tx_each (store_object lib now run) os ?d = Inr ((), ?d\<lparr>evidence_objects := evidence_objects ?d @ new'\<rparr>)"
    "\<forall>x \<in> set os. \<exists>row. object_of (?d\<lparr>evidence_objects := evidence_objects ?d @ new'\<rparr>) run (ao_digest x) = Some row \<and> good_row x row"
    "objects_sound lib (?d\<lparr>evidence_objects := evidence_objects ?d @ new'\<rparr>)"
    by (elim exE conjE)
  have d: "?d\<lparr>evidence_objects := evidence_objects ?d @ new'\<rparr> = d\<lparr>evidence_objects := evidence_objects d @ (new @ new')\<rparr>" by simp
  have "object_of (?d\<lparr>evidence_objects := evidence_objects ?d @ new'\<rparr>) run (ao_digest x) = Some row"
    by (rule object_of_append [OF st(2)])
  then have "\<forall>y \<in> set (x # os). \<exists>row. object_of (d\<lparr>evidence_objects := evidence_objects d @ (new @ new')\<rparr>) run (ao_digest y) = Some row
      \<and> good_row y row"
    using rest(2) st(3) unfolding d by auto
  moreover have "tx_each (store_object lib now run) (x # os) d = Inr ((), d\<lparr>evidence_objects := evidence_objects d @ (new @ new')\<rparr>)"
    using st(1) rest(1) unfolding d by (simp add: tx_bind_def)
  moreover have "objects_sound lib (d\<lparr>evidence_objects := evidence_objects d @ (new @ new')\<rparr>)" using rest(3) unfolding d .
  ultimately show ?case by blast
qed


section \<open>Items and manifests\<close>

definition item_row_for :: "string \<Rightarrow> string \<Rightarrow> admitted_object \<Rightarrow> item_row" where
  "item_row_for run dg x = \<lparr>ei_run = run, ei_manifest = dg, ei_ordinal = int (ao_ordinal x), ei_object = ao_digest x\<rparr>"

lemma object_of_items [simp]: "object_of (d\<lparr>evidence_items := xs\<rparr>) run dg = object_of d run dg"
  by (simp add: object_of_def)

lemma manifest_rows_items [simp]: "manifest_rows (d\<lparr>evidence_items := xs\<rparr>) = manifest_rows d"
  by (simp add: manifest_rows_def)

lemma insert_items:
  assumes "sorted_wrt (<) (map ao_ordinal os)" "\<forall>x \<in> set os. object_of d run (ao_digest x) \<noteq> None"
    "list_ex (\<lambda>m. mf_run m = run \<and> mf_digest m = dg) (manifest_rows d)"
    "\<forall>i \<in> set (evidence_items d). \<forall>x \<in> set os. \<not> (ei_run i = run \<and> ei_manifest i = dg \<and> ei_ordinal i = int (ao_ordinal x))"
  shows "tx_each (insert_item run dg) os d = Inr ((), d\<lparr>evidence_items := evidence_items d @ map (item_row_for run dg) os\<rparr>)"
  using assms
proof (induction os arbitrary: d)
  case Nil
  show ?case by (simp add: tx_return_def)
next
  case (Cons x os)
  let ?d = "d\<lparr>evidence_items := evidence_items d @ [item_row_for run dg x]\<rparr>"
  have "\<forall>i \<in> set (evidence_items d). \<not> (ei_run i = run \<and> ei_manifest i = dg \<and> ei_ordinal i = int (ao_ordinal x))"
    using Cons.prems(4) by (metis list.set_intros(1))
  then have one: "insert_item run dg x d = Inr ((), ?d)"
    using Cons.prems(2,3) by (simp add: insert_item_def item_row_for_def list_all_iff)
  have "tx_each (insert_item run dg) os ?d = Inr ((), ?d\<lparr>evidence_items := evidence_items ?d @ map (item_row_for run dg) os\<rparr>)"
  proof (rule Cons.IH)
    show "sorted_wrt (<) (map ao_ordinal os)" using Cons.prems(1) by simp
    show "\<forall>y \<in> set os. object_of ?d run (ao_digest y) \<noteq> None" using Cons.prems(2) by simp
    show "list_ex (\<lambda>m. mf_run m = run \<and> mf_digest m = dg) (manifest_rows ?d)" using Cons.prems(3) by simp
    show "\<forall>i \<in> set (evidence_items ?d). \<forall>y \<in> set os. \<not> (ei_run i = run \<and> ei_manifest i = dg \<and> ei_ordinal i = int (ao_ordinal y))"
      using Cons.prems(1,4) by (auto simp: item_row_for_def)
  qed
  with one show ?case by (simp add: tx_bind_def)
qed

definition manifest_entries ::
  "string \<Rightarrow> attempt_row \<Rightarrow> bool \<Rightarrow> bool \<Rightarrow> string option \<Rightarrow> nat \<Rightarrow> admitted_object list \<Rightarrow> omissions \<Rightarrow> (string \<times> pyval) list" where
  "manifest_entries run a sensitive whole gap observations os m =
     dict_items (manifest_document run a sensitive whole gap observations os m)"

lemma manifest_document_entries:
  "manifest_document run a sensitive whole gap observations os m = PDict (manifest_entries run a sensitive whole gap observations os m)"
  by (simp add: manifest_entries_def manifest_document_def dict_items_def)

lemma item_document_canonical: "canonical_doc (item_document x)"
  unfolding item_document_def by (rule canonical_doc_dict) simp_all

lemma omissions_canonical: "canonical_doc (PDict (omissions_dict m))"
  by (rule canonical_doc_dict) (simp_all add: omissions_dict_def)

lemma null_text_canonical: "canonical_doc (null_text x)"
  by (cases x) (simp_all add: null_text_def)

lemma manifest_canonical: "canonical_doc (PDict (manifest_entries run a sensitive whole gap observations os m))"
proof (rule canonical_doc_dict)
  show "sorted (map fst (manifest_entries run a sensitive whole gap observations os m))"
    by (simp add: manifest_entries_def manifest_document_def dict_items_def)
  have "canonical_doc (PList (map item_document os))" by (simp add: item_document_canonical)
  then show "\<forall>kv \<in> set (manifest_entries run a sensitive whole gap observations os m). canonical_doc (snd kv)"
    using omissions_canonical null_text_canonical
    by (simp add: manifest_entries_def manifest_document_def dict_items_def del: canonical_doc_list)
qed

lemma manifest_gets:
  fixes run a sensitive whole gap observations os m
  defines "doc \<equiv> manifest_entries run a sensitive whole gap observations os m"
  shows "dict_get doc ''attempt_id'' = PStr (at_id a)" "dict_get doc ''candidate_sensitive'' = PBool sensitive"
    "dict_get doc ''challenge_id'' = PInt (at_challenge a)" "dict_get doc ''committed_count'' = PInt (int (length os))"
    "dict_get doc ''complete'' = PBool whole" "dict_get doc ''episode'' = PInt (at_episode a)" "dict_get doc ''gap'' = null_text gap"
    "dict_get doc ''item_bytes'' = PInt (int (admitted_bytes os))" "dict_get doc ''items'' = PList (map item_document os)"
    "dict_get doc ''lane'' = PInt (at_lane a)" "dict_get doc ''observation_count'' = PInt (int observations)"
    "dict_get doc ''omissions'' = PDict (omissions_dict m)" "dict_get doc ''omitted_count'' = PInt (int (omitted m))"
    "dict_get doc ''run_id'' = PStr run" "dict_get doc ''schema_version'' = PInt EVIDENCE_VERSION"
    "fst ` set doc = MANIFEST_DOCUMENT_KEYS"
  unfolding doc_def by (simp_all add: manifest_entries_def manifest_document_def dict_items_def MANIFEST_DOCUMENT_KEYS_def)

lemma declared_items_for:
  "declared_items (manifest_entries run a sensitive whole gap observations os m) = map (\<lambda>x. (int (ao_ordinal x), ao_digest x)) os"
  unfolding declared_items_def manifest_gets pyval.case
  by (simp add: item_document_def dict_items_def int_of_def text_of_def comp_def)

lemma declared_ok: "hex_lower 64 64 (ao_digest x) \<Longrightarrow> declared_item_ok (item_document x)"
  by (auto simp: declared_item_ok_def item_document_def is_count_def is_hash_def)

lemma omissions_ok: "list_all (\<lambda>kv. is_count (snd kv)) (omissions_dict m)"
  "sum_list (map (\<lambda>kv. int_of (snd kv)) (omissions_dict m)) = int (omitted m)"
  "fst ` set (omissions_dict m) = {''attempt_bytes'', ''object_bytes'', ''observation_limit''}"
  by (simp_all add: omissions_dict_def is_count_def int_of_def omitted_def)

definition item_view_for :: "admitted_object \<Rightarrow> item_view" where
  "item_view_for x = \<lparr>iv_ordinal = int (ao_ordinal x), iv_digest = ao_digest x, iv_tool = ao_tool x,
     iv_bytes = int (json_size (ao_payload x)), iv_payload = dict_items (ao_payload x), iv_redact = False\<rparr>"

definition gap_fits :: "bool \<Rightarrow> string option \<Rightarrow> bool" where
  "gap_fits whole gap \<longleftrightarrow> (if whole then gap = None else (case gap of None \<Rightarrow> False | Some g \<Rightarrow> g \<in> set GAPS))"

definition attempt_counts :: "attempt_row \<Rightarrow> bool" where
  "attempt_counts a \<longleftrightarrow> 0 < at_challenge a \<and> 0 \<le> at_episode a \<and> 0 \<le> at_lane a"

lemma load_written:
  assumes lib: "hex_digests (lib_sha lib)" and os: "\<forall>x \<in> set os. projected lib x"
    and row: "manifest_of d run (at_id a) = Some (manifest_row_for (lib_sha lib) stamp run a sensitive whole gap n os m)"
    and n: "n = length os + omitted m" and gap: "gap_fits whole gap" and counts: "attempt_counts a"
    and items: "item_rows d run (mf_digest (manifest_row_for (lib_sha lib) stamp run a sensitive whole gap n os m))
      = map (\<lambda>x. (int (ao_ordinal x), ao_digest x)) os"
    and objects: "\<forall>x \<in> set os. \<exists>r. object_of d run (ao_digest x) = Some r \<and> good_row x r"
    and attempt: "attempt_in_run run (at_id a) d = Inr b" "attempt_identity b a" "at_run a = run"
  shows "load_manifest lib run (at_id a) d = Inr (manifest_view_of run (at_id a)
     (manifest_row_for (lib_sha lib) stamp run a sensitive whole gap n os m) (manifest_entries run a sensitive whole gap n os m)
     (map item_view_for os))"
proof -
  let ?doc = "manifest_entries run a sensitive whole gap n os m"
  let ?row = "manifest_row_for (lib_sha lib) stamp run a sensitive whole gap n os m"
  have fields: "mf_payload ?row = Canonical (PDict ?doc)" "mf_digest ?row = domain_digest (lib_sha lib) MANIFEST_DOMAIN (json_utf8 (PDict ?doc))"
    "mf_attempt ?row = at_id a" "mf_challenge ?row = at_challenge a" "mf_committed ?row = int (length os)" "mf_complete ?row = whole"
    "mf_episode ?row = at_episode a" "mf_gap ?row = gap" "mf_bytes ?row = int (admitted_bytes os)" "mf_lane ?row = at_lane a"
    "mf_observations ?row = int n" "mf_omitted ?row = int (omitted m)" "mf_run ?row = run"
    by (simp_all add: manifest_row_for_def Let_def manifest_document_entries)
  have v: "verify_canonical (lib_sha lib) (mf_payload ?row) MANIFEST_DOMAIN (mf_digest ?row) = Inr ?doc"
    unfolding fields by (rule verify_canonical_doc [OF manifest_canonical refl])
  have shape: "manifest_shape_ok ?doc"
    using counts unfolding manifest_shape_ok_def manifest_gets
    by (simp add: is_text_def is_bool_def is_count_def attempt_counts_def manifest_gets)
  have gap': "manifest_gap_ok ?doc"
    using gap by (cases gap) (simp_all add: manifest_gap_ok_def manifest_gets gap_fits_def null_text_def split: if_split_asm)
  have columns: "manifest_columns_ok ?row ?doc"
    by (simp add: manifest_columns_ok_def manifest_gets fields)
  have hex: "hex_lower 64 64 (ao_digest x)" if "x \<in> set os" for x
  proof -
    from bspec [OF os that] obtain ob where "admitted_from lib ob x" unfolding projected_def by (elim exE conjE)
    then have "ao_digest x = lib_sha lib (OBJECT_DOMAIN @ json_utf8 (ao_payload x))" by (simp only: admitted_from_def domain_digest_def)
    then show ?thesis using lib by (simp only: hex_digests_def simp_thms)
  qed
  have counts': "manifest_counts_ok ?row ?doc"
    unfolding manifest_counts_ok_def manifest_gets prod.case pyval.case fields
    using hex omissions_ok [of m] by (simp add: int_of_def n list_all_iff declared_ok)
  have load: "load_item lib run d (int (ao_ordinal x), ao_digest x) = Inr (item_view_for x)" if "x \<in> set os" for x
  proof -
    from bspec [OF objects that] obtain r where r: "object_of d run (ao_digest x) = Some r" "good_row x r" by (elim exE conjE)
    from projected_good_verifies [OF lib bspec [OF os that] r(2)] r show ?thesis
      by (simp add: load_item_def item_view_for_def good_row_def)
  qed
  have loads: "traverse (load_item lib run d) (map (\<lambda>x. (int (ao_ordinal x), ao_digest x)) os) = Inr (map item_view_for os)"
    using load by (induction os) simp_all
  have bytes: "sum_list (map iv_bytes (map item_view_for os)) = int (admitted_bytes os)"
    by (induction os) (simp_all add: item_view_for_def admitted_bytes_def)
  have b: "at_run b = run" "at_challenge b = at_challenge a" "at_episode b = at_episode a" "at_lane b = at_lane a"
    using attempt by (simp_all add: attempt_identity_def)
  show ?thesis
    unfolding load_manifest_def row option.case v bind_result_simps
    using shape gap' columns counts' items loads bytes attempt(1) b
    by (simp add: declared_items_for fields del: traverse.simps)
qed


section \<open>Committing a batch\<close>

definition items_sound :: "db \<Rightarrow> bool" where
  "items_sound d \<longleftrightarrow> (\<forall>i \<in> set (evidence_items d). list_ex (\<lambda>m. mf_run m = ei_run i \<and> mf_digest m = ei_manifest i) (manifest_rows d))"

text \<open>When a first commit is in order: the run is opened with these limits, the attempt is running and has no
  manifest, the batch was accepted by its constructors, what is stored verifies, and the digests do
  not collide, which is the documented property of SHA-256 that a content address relies on.\<close>

definition commit_ready :: "stdlib \<Rightarrow> clock \<Rightarrow> string \<Rightarrow> evidence_limits \<Rightarrow> evidence_batch \<Rightarrow> attempt_row \<Rightarrow> db \<Rightarrow> bool" where
  "commit_ready lib now run l b a d \<longleftrightarrow> verify_run (lib_sha lib) run l d = Inr () \<and> attempt_in_run run (at_id a) d = Inr a
     \<and> at_status a = ''running'' \<and> attempt_counts a \<and> manifest_of d run (at_id a) = None
     \<and> construct_batch b = Inr b \<and> list_all well_formed (ba_observations b) \<and> objects_sound lib d \<and> items_sound d
     \<and> collision_free d run (fst (admit lib l 0 0 (ba_observations b)))
     \<and> list_all (\<lambda>n. \<not> (mf_run n = run \<and> mf_digest n = mf_digest (batch_manifest lib now run l a b))) (manifest_rows d)"

lemma attempt_in_run_Inr:
  assumes "attempt_in_run run i d = Inr a"
  shows "first_row (\<lambda>b. at_id b = i) (attempts d) = Some a" "at_id a = i" "at_run a = run" "a \<in> set (attempts d)"
  using assms first_row_Some [of "\<lambda>b. at_id b = i" "attempts d" a]
  by (auto simp: attempt_in_run_def split: if_split_asm option.split_asm)

lemma verify_run_row: "verify_run sha run l d = Inr u \<Longrightarrow> run_row_of d run \<noteq> None"
  by (auto simp: verify_run_def tamper_def split: option.split_asm)

lemma batch_gap_fits:
  assumes "construct_batch b = Inr b"
  shows "gap_fits (ba_complete b \<and> omitted m = 0) (if ba_gap b \<noteq> None then ba_gap b else if omitted m \<noteq> 0 then Some ''quota_omitted'' else None)"
proof -
  have "''quota_omitted'' \<in> set GAPS" by (simp add: GAPS_def)
  with assms show ?thesis
    by (cases "ba_complete b"; cases "ba_gap b") (auto simp: construct_batch_def gap_fits_def split: if_split_asm)
qed

lemma admitted_projected:
  assumes "list_all well_formed obs" "x \<in> set (fst (admit lib l 0 0 obs))"
  shows "projected lib x"
proof -
  obtain i where "i < length obs" "x = object_for lib (0 + i) (obs ! i)" using admit_entry [OF assms(2)] by (elim exE conjE)
  moreover from this assms(1) have "well_formed (obs ! i)" by (simp add: list_all_length)
  ultimately show ?thesis by (auto simp: projected_def admitted_from_def object_for_def)
qed

lemma insert_manifest_ok:
  assumes "a \<in> set (attempts d)" "mf_run m = at_run a" "mf_attempt m = at_id a" "mf_challenge m = at_challenge a"
    "mf_episode m = at_episode a" "mf_lane m = at_lane a" "manifest_of d (mf_run m) (mf_attempt m) = None"
    "list_all (\<lambda>n. \<not> (mf_run n = mf_run m \<and> mf_digest n = mf_digest m)) (manifest_rows d)" "run_row_of d (mf_run m) \<noteq> None"
  shows "insert_manifest m d = Inr ((), d\<lparr>manifests := Some (manifest_rows d @ [m])\<rparr>)"
proof -
  have "list_ex (\<lambda>a. at_id a = mf_attempt m \<and> at_run a = mf_run m \<and> at_challenge a = mf_challenge m
         \<and> at_episode a = mf_episode m \<and> at_lane a = mf_lane m) (attempts d)"
    unfolding list_ex_iff using assms(1-6) by (intro bexI [of _ a]) simp_all
  moreover have "list_all (\<lambda>n. \<not> (mf_run n = mf_run m \<and> (mf_attempt n = mf_attempt m \<or> mf_digest n = mf_digest m))) (manifest_rows d)"
    using assms(7,8) by (auto simp: manifest_of_def first_row_None list_all_iff)
  ultimately show ?thesis using assms(9) by (simp add: insert_manifest_def)
qed

lemma manifest_rows_some [simp]: "manifest_rows (d\<lparr>manifests := Some ms\<rparr>) = ms"
  by (simp add: manifest_rows_def)

lemma manifest_rows_objects [simp]: "manifest_rows (d\<lparr>evidence_objects := xs\<rparr>) = manifest_rows d"
  by (simp add: manifest_rows_def)

lemma object_of_manifests [simp]: "object_of (d\<lparr>manifests := ms\<rparr>) run dg = object_of d run dg"
  by (simp add: object_of_def)

lemma new_item_rows:
  assumes "items_sound d" "list_all (\<lambda>n. \<not> (mf_run n = run \<and> mf_digest n = dg)) (manifest_rows d)"
    "sorted_wrt (<) (map ao_ordinal os)" "evidence_items d' = evidence_items d @ map (item_row_for run dg) os"
  shows "item_rows d' run dg = map (\<lambda>x. (int (ao_ordinal x), ao_digest x)) os"
proof -
  have "filter (\<lambda>i. ei_run i = run \<and> ei_manifest i = dg) (evidence_items d) = []"
    using assms(1,2) by (auto simp: filter_empty_conv items_sound_def list_ex_iff list_all_iff)
  moreover have "filter (\<lambda>i. ei_run i = run \<and> ei_manifest i = dg) (map (item_row_for run dg) os) = map (item_row_for run dg) os"
    by (simp add: filter_id_conv item_row_for_def)
  moreover have "sorted (map ei_ordinal (map (item_row_for run dg) os))"
    using assms(3) by (induction os) (auto simp: item_row_for_def)
  ultimately show ?thesis
    by (simp add: item_rows_def assms(4) sort_key_id comp_def item_row_for_def)
qed

definition committed_view :: "stdlib \<Rightarrow> clock \<Rightarrow> string \<Rightarrow> evidence_limits \<Rightarrow> attempt_row \<Rightarrow> evidence_batch \<Rightarrow> manifest_view" where
  "committed_view lib now run l a b =
     (case admit lib l 0 0 (ba_observations b) of (os, m) \<Rightarrow>
       manifest_view_of run (at_id a) (batch_manifest lib now run l a b)
         (manifest_entries run a (list_ex ob_sensitive (ba_observations b)) (ba_complete b \<and> omitted m = 0)
           (if ba_gap b \<noteq> None then ba_gap b else if omitted m \<noteq> 0 then Some ''quota_omitted'' else None)
           (length (ba_observations b)) os m)
         (map item_view_for os))"

lemma commit_effect:
  fixes d :: db
  assumes lib: "hex_digests (lib_sha lib)" and ready: "commit_ready lib now run l b a d"
  obtains new where
    "commit lib now run l (at_id a) b d = (Inr (committed_view lib now run l a b),
      d\<lparr>evidence_objects := evidence_objects d @ new,
        manifests := Some (manifest_rows d @ [batch_manifest lib now run l a b]),
        evidence_items := evidence_items d @ map (item_row_for run (mf_digest (batch_manifest lib now run l a b)))
          (fst (admit lib l 0 0 (ba_observations b)))\<rparr>)"
    "load_manifest lib run (at_id a) (d\<lparr>evidence_objects := evidence_objects d @ new,
        manifests := Some (manifest_rows d @ [batch_manifest lib now run l a b]),
        evidence_items := evidence_items d @ map (item_row_for run (mf_digest (batch_manifest lib now run l a b)))
          (fst (admit lib l 0 0 (ba_observations b)))\<rparr>) = Inr (committed_view lib now run l a b)"
    "objects_sound lib (d\<lparr>evidence_objects := evidence_objects d @ new\<rparr>)"
proof -
  obtain os m where admit: "admit lib l 0 0 (ba_observations b) = (os, m)" by (cases "admit lib l 0 0 (ba_observations b)")
  define whole where "whole \<longleftrightarrow> ba_complete b \<and> omitted m = 0"
  define gap where "gap = (if ba_gap b \<noteq> None then ba_gap b else if omitted m \<noteq> 0 then Some ''quota_omitted'' else None)"
  define sens where "sens = list_ex ob_sensitive (ba_observations b)"
  define n where "n = length (ba_observations b)"
  define row where "row = manifest_row_for (lib_sha lib) (now n) run a sens whole gap n os m"
  have batch: "batch_manifest lib now run l a b = row"
    by (simp add: batch_manifest_def admit row_def whole_def gap_def sens_def n_def)
  have view: "committed_view lib now run l a b = manifest_view_of run (at_id a) row (manifest_entries run a sens whole gap n os m) (map item_view_for os)"
    by (simp add: committed_view_def admit batch whole_def gap_def sens_def n_def)
  have r: "verify_run (lib_sha lib) run l d = Inr ()" "attempt_in_run run (at_id a) d = Inr a" "at_status a = ''running''" "attempt_counts a"
    "manifest_of d run (at_id a) = None" "construct_batch b = Inr b" "list_all well_formed (ba_observations b)" "objects_sound lib d"
    "items_sound d" "collision_free d run os" "list_all (\<lambda>n. \<not> (mf_run n = run \<and> mf_digest n = mf_digest row)) (manifest_rows d)"
    using ready by (simp_all add: commit_ready_def admit batch)
  note at = attempt_in_run_Inr [OF r(2)]
  have run_row: "run_row_of d run \<noteq> None" by (rule verify_run_row [OF r(1)])
  have os: "\<forall>x \<in> set os. projected lib x" using admitted_projected [OF r(7), of _ lib l] admit by simp
  have ordered: "sorted_wrt (<) (map ao_ordinal os)" using admit_ordered [of lib l 0 0 "ba_observations b"] admit by simp
  have n: "n = length os + omitted m" using admit_counts [OF admit] by (simp add: n_def)
  obtain new where st: "tx_each (store_object lib now run) os d = Inr ((), d\<lparr>evidence_objects := evidence_objects d @ new\<rparr>)"
    and found: "\<forall>x \<in> set os. \<exists>r. object_of (d\<lparr>evidence_objects := evidence_objects d @ new\<rparr>) run (ao_digest x) = Some r \<and> good_row x r"
    and sound: "objects_sound lib (d\<lparr>evidence_objects := evidence_objects d @ new\<rparr>)"
    using store_all [where now = now, OF lib os r(8,10) run_row] by (elim exE conjE)
  let ?d1 = "d\<lparr>evidence_objects := evidence_objects d @ new\<rparr>"
  let ?d2 = "?d1\<lparr>manifests := Some (manifest_rows d @ [row])\<rparr>"
  let ?d3 = "?d2\<lparr>evidence_items := evidence_items d @ map (item_row_for run (mf_digest row)) os\<rparr>"
  have fields: "mf_run row = run" "mf_attempt row = at_id a" "mf_challenge row = at_challenge a" "mf_episode row = at_episode a" "mf_lane row = at_lane a"
    by (simp_all add: row_def manifest_row_for_def Let_def)
  have ins: "insert_manifest row ?d1 = Inr ((), ?d2)"
  proof -
    have "insert_manifest row ?d1 = Inr ((), ?d1\<lparr>manifests := Some (manifest_rows ?d1 @ [row])\<rparr>)"
      by (rule insert_manifest_ok [of a]) (use at r(5,11) run_row in \<open>simp_all add: fields manifest_of_def\<close>)
    then show ?thesis by simp
  qed
  have items: "tx_each (insert_item run (mf_digest row)) os ?d2 = Inr ((), ?d3)"
  proof -
    have "tx_each (insert_item run (mf_digest row)) os ?d2
      = Inr ((), ?d2\<lparr>evidence_items := evidence_items ?d2 @ map (item_row_for run (mf_digest row)) os\<rparr>)"
    proof (rule insert_items [OF ordered])
      show "\<forall>x \<in> set os. object_of ?d2 run (ao_digest x) \<noteq> None" using found by fastforce
      show "list_ex (\<lambda>m. mf_run m = run \<and> mf_digest m = mf_digest row) (manifest_rows ?d2)" by (simp add: fields)
      show "\<forall>i \<in> set (evidence_items ?d2). \<forall>x \<in> set os. \<not> (ei_run i = run \<and> ei_manifest i = mf_digest row \<and> ei_ordinal i = int (ao_ordinal x))"
        using r(9,11) by (auto simp: items_sound_def list_ex_iff list_all_iff)
    qed
    then show ?thesis by simp
  qed
  have body: "commit_body lib now run a os row d = Inr ((), ?d3)"
    using at(1) r(3,5) st ins items at(2,3)
    by (simp add: commit_body_def attempt_identity_def tx_bind_def)
  have "load_manifest lib run (at_id a) ?d3 = Inr (manifest_view_of run (at_id a)
      (manifest_row_for (lib_sha lib) (now n) run a sens whole gap n os m) (manifest_entries run a sens whole gap n os m) (map item_view_for os))"
  proof (rule load_written [OF lib os _ n _ r(4)])
    show "manifest_of (?d2\<lparr>evidence_items := evidence_items d @ map (item_row_for run (mf_digest row)) os\<rparr>) run (at_id a)
      = Some (manifest_row_for (lib_sha lib) (now n) run a sens whole gap n os m)"
      using r(5) by (simp add: manifest_of_def first_row_append row_def [symmetric]) (simp add: first_row_def fields)
    show "gap_fits whole gap" unfolding whole_def gap_def by (rule batch_gap_fits [OF r(6)])
    show "item_rows ?d3 run (mf_digest (manifest_row_for (lib_sha lib) (now n) run a sens whole gap n os m))
        = map (\<lambda>x. (int (ao_ordinal x), ao_digest x)) os"
      unfolding row_def [symmetric] by (rule new_item_rows [OF r(9,11) ordered]) simp
    show "\<forall>x \<in> set os. \<exists>r. object_of ?d3 run (ao_digest x) = Some r \<and> good_row x r" using found by simp
    have "attempt_in_run run (at_id a) ?d3 = attempt_in_run run (at_id a) d" by (simp add: attempt_in_run_def)
    with r(2) show "attempt_in_run run (at_id a) ?d3 = Inr a" by simp
    show "attempt_identity a a" by (simp add: attempt_identity_def)
    show "at_run a = run" by (rule at(3))
  qed
  then have load: "load_manifest lib run (at_id a) ?d3 = Inr (committed_view lib now run l a b)"
    unfolding view row_def [symmetric] .
  have "commit lib now run l (at_id a) b d = (Inr (committed_view lib now run l a b), ?d3)"
    using r(1,2) body load by (simp add: commit_def admit batch)
  then show thesis using load sound by (intro that [of new]) (simp_all add: admit batch)
qed


text \<open>C9. A commit can be read back: the first commit of a batch for a running attempt succeeds, and what it returns is what any
  later load of that manifest returns, although the load recomputes every digest and projects the facts
  again. The manifest holds exactly the admitted observations, in order, and it is complete precisely when
  the batch was and nothing was left out.\<close>

theorem commit_can_be_loaded:
  fixes d :: db
  assumes "hex_digests (lib_sha lib)" "commit_ready lib now run l b a d"
  shows "\<exists>v d'. commit lib now run l (at_id a) b d = (Inr v, d') \<and> load_manifest lib run (at_id a) d' = Inr v
    \<and> mv_items v = map item_view_for (fst (admit lib l 0 0 (ba_observations b)))
    \<and> mv_observations v = int (length (ba_observations b)) \<and> mv_committed v = int (length (mv_items v))
    \<and> mv_complete v = (ba_complete b \<and> length (mv_items v) = length (ba_observations b)) \<and> (mv_complete v \<longrightarrow> mv_gap v = None)"
proof -
  let ?v = "committed_view lib now run l a b"
  obtain os m where admit: "admit lib l 0 0 (ba_observations b) = (os, m)" by (cases "admit lib l 0 0 (ba_observations b)")
  have counts: "length os + omitted m = length (ba_observations b)" using admit_counts [OF admit] by simp
  have ok: "construct_batch b = Inr b" using assms(2) by (simp add: commit_ready_def)
  have v: "mv_items ?v = map item_view_for os" "mv_observations ?v = int (length (ba_observations b))" "mv_committed ?v = int (length os)"
    "mv_complete ?v = (ba_complete b \<and> omitted m = 0)"
    "mv_gap ?v = (if ba_gap b \<noteq> None then ba_gap b else if omitted m \<noteq> 0 then Some ''quota_omitted'' else None)"
    by (simp_all add: committed_view_def admit manifest_view_of_def batch_manifest_def manifest_row_for_def Let_def)
  have gap: "mv_complete ?v \<longrightarrow> mv_gap ?v = None"
    using ok unfolding v by (cases "ba_gap b") (auto simp: construct_batch_def split: if_split_asm)
  have whole: "mv_complete ?v = (ba_complete b \<and> length (mv_items ?v) = length (ba_observations b))"
    using counts unfolding v by auto
  show ?thesis
    using commit_effect [OF assms] v(1-3) gap whole admit by (metis (no_types, lifting) fst_conv length_map)
qed

text \<open>Evidence is immutable: once an attempt has a manifest, committing for it again changes nothing, whatever the batch and
  whether or not the attempt still runs. A batch with the same encoding returns the stored manifest, any other is
  refused as a conflict.\<close>

theorem evidence_is_immutable:
  fixes d :: db
  assumes "verify_run (lib_sha lib) run l d = Inr ()" "attempt_in_run run i d = Inr a" "manifest_of d run i = Some old"
  shows "commit lib now run l i b d = (if mf_digest (batch_manifest lib now run l a b) = mf_digest old
       \<and> blob_bytes (mf_payload (batch_manifest lib now run l a b)) = blob_bytes (mf_payload old)
     then (load_manifest lib run i d, d)
     else (Inl (EvidenceConflictError ''attempt evidence was already committed differently''), d))"
proof -
  note at = attempt_in_run_Inr [OF assms(2)]
  have "commit_body lib now run a (fst (admit lib l 0 0 (ba_observations b))) (batch_manifest lib now run l a b) d =
    (if mf_digest (batch_manifest lib now run l a b) = mf_digest old
       \<and> blob_bytes (mf_payload (batch_manifest lib now run l a b)) = blob_bytes (mf_payload old)
     then Inr ((), d) else Inl (EvidenceConflictError ''attempt evidence was already committed differently''))"
    using at assms(3) by (auto simp: commit_body_def attempt_identity_def)
  then show ?thesis using assms(1,2) by (simp add: commit_def)
qed

end
