(* ===== verification/Evidence_Carry.thy ===== *)
theory Evidence_Carry
  imports Evidence_Use "HOL-Library.Sublist"
begin

text \<open>
  What a carried bundle is: its size is a fixed point that four measures reach, it stays within the limit, it
  is made of verified manifests in part, and what could betray a candidate is redacted.
\<close>

section \<open>The size of a bundle\<close>

lemma dec_digits_upper: "n < 10 ^ length (dec_digits n)"
proof (induction n rule: dec_digits.induct)
  case (1 n)
  show ?case
  proof (cases "n < 10")
    case True
    then show ?thesis by (subst dec_digits.simps) simp
  next
    case False
    with 1 have "n div 10 < 10 ^ length (dec_digits (n div 10))" by simp
    then have "n < 10 * 10 ^ length (dec_digits (n div 10))" by linarith
    with False show ?thesis by (subst dec_digits.simps) simp
  qed
qed

lemma length_dec_digits_mono: "m \<le> n \<Longrightarrow> length (dec_digits m) \<le> length (dec_digits n)"
  using dec_digits_upper [of n] by (intro length_dec_digits_bound) (auto intro: le_less_trans)

lemma less_ten_power: "k < (10::nat) ^ k"
  by (induction k) auto

lemma length_dec_digits_add:
  assumes "k \<le> length (dec_digits n)"
  shows "length (dec_digits (n + k)) \<le> length (dec_digits n) + 1"
proof (rule length_dec_digits_bound)
  have "k < 10 ^ k" by (rule less_ten_power)
  also have "(10::nat) ^ k \<le> 10 ^ length (dec_digits n)" using assms by (intro power_increasing) auto
  finally show "n + k < 10 ^ (length (dec_digits n) + 1)" using dec_digits_upper [of n] by simp
qed simp

text \<open>Only the digits of \<open>encoded_bytes\<close> depend on it.\<close>

lemma sorted_bundle_keys: "sort_key fst [(''before_episode'', a), (''challenge_id'', b),
     (''encoded_bytes'', c), (''lane'', e), (''manifests'', f), (''omitted_items'', g), (''omitted_manifests'', h), (''run_id'', i)]
   = [(''before_episode'', a), (''challenge_id'', b :: pyval),
     (''encoded_bytes'', c), (''lane'', e), (''manifests'', f), (''omitted_items'', g), (''omitted_manifests'', h), (''run_id'', i)]"
  by (rule sort_key_id) simp

lemma bundle_json: "json_utf8 (bundle_dict b) =
    ''{'' @ json_string_utf8 ''before_episode'' @ '':'' @ show_int (bd_before b) @ '','' @ json_string_utf8 ''challenge_id'' @ '':''
    @ show_int (bd_challenge b) @ '','' @ json_string_utf8 ''encoded_bytes'' @ '':'' @ show_int (bd_encoded b) @ '',''
    @ json_string_utf8 ''lane'' @ '':'' @ show_int (bd_lane b) @ '','' @ json_string_utf8 ''manifests'' @ '':''
    @ json_utf8 (PList (map manifest_dict (bd_manifests b))) @ '','' @ json_string_utf8 ''omitted_items'' @ '':''
    @ show_int (bd_omitted_items b) @ '','' @ json_string_utf8 ''omitted_manifests'' @ '':'' @ show_int (bd_omitted_manifests b) @ '',''
    @ json_string_utf8 ''run_id'' @ '':'' @ json_string_utf8 (bd_run b) @ ''}''"
  unfolding bundle_dict_def json_utf8.simps(7) sorted_bundle_keys by (simp add: join_def)

lemma one_digit: "length (dec_digits 0) = 1"
  by (subst dec_digits.simps) simp

lemma measured_split: "\<exists>k. \<forall>e. measured (b\<lparr>bd_encoded := e\<rparr>) = int (k + length (show_int e))"
proof -
  obtain x y where "\<And>e. json_utf8 (bundle_dict (b\<lparr>bd_encoded := e\<rparr>)) = x @ show_int e @ y"
  proof (rule that)
    show "json_utf8 (bundle_dict (b\<lparr>bd_encoded := e\<rparr>)) =
      (''{'' @ json_string_utf8 ''before_episode'' @ '':'' @ show_int (bd_before b) @ '','' @ json_string_utf8 ''challenge_id'' @ '':''
    @ show_int (bd_challenge b) @ '','' @ json_string_utf8 ''encoded_bytes'' @ '':'') @ show_int e @ ('',''
    @ json_string_utf8 ''lane'' @ '':'' @ show_int (bd_lane b) @ '','' @ json_string_utf8 ''manifests'' @ '':''
    @ json_utf8 (PList (map manifest_dict (bd_manifests b))) @ '','' @ json_string_utf8 ''omitted_items'' @ '':''
    @ show_int (bd_omitted_items b) @ '','' @ json_string_utf8 ''omitted_manifests'' @ '':'' @ show_int (bd_omitted_manifests b) @ '',''
    @ json_string_utf8 ''run_id'' @ '':'' @ json_string_utf8 (bd_run b) @ ''}'')" for e
      unfolding bundle_json by simp
  qed
  then have "measured (b\<lparr>bd_encoded := e\<rparr>) = int ((length x + length y) + length (show_int e))" for e
    by (simp add: measured_def json_size_def)
  then show ?thesis by blast
qed

lemma bundle_loop_stop: "measured b = e \<Longrightarrow> bd_encoded b = e \<Longrightarrow> bundle_loop (Suc n) e b = (b, e)"
  by simp

lemma bundle_loop_step:
  "\<not> (measured b = e \<and> bd_encoded b = measured b) \<Longrightarrow> bundle_loop (Suc n) e b = bundle_loop n (measured b) (b\<lparr>bd_encoded := measured b\<rparr>)"
  unfolding bundle_loop.simps by (rule if_not_P)

text \<open>Four measures are enough: the second and the third number of digits differ by at most one, and then
  adding one to the size adds no further digit.\<close>

lemma bundle_size_fixed:
  assumes "bd_encoded b = 0"
  obtains e where "bundle_size b = (b\<lparr>bd_encoded := e\<rparr>, e)" "measured (b\<lparr>bd_encoded := e\<rparr>) = e"
proof -
  obtain k where k: "\<And>e. measured (b\<lparr>bd_encoded := e\<rparr>) = int (k + length (show_int e))" using measured_split [of b] by blast
  let ?m = "\<lambda>n. k + length (dec_digits n)"
  have m: "measured (b\<lparr>bd_encoded := int n\<rparr>) = int (?m n)" for n by (simp add: k show_int_def)
  define n1 where "n1 = ?m 0"
  define n2 where "n2 = ?m n1"
  define n3 where "n3 = ?m n2"
  have b0: "b\<lparr>bd_encoded := 0\<rparr> = b" using assms by simp
  have m0: "measured b = int n1" using m [of 0] b0 by (simp add: n1_def)
  have m1: "measured (b\<lparr>bd_encoded := int n1\<rparr>) = int n2" by (simp add: m n2_def)
  have m2: "measured (b\<lparr>bd_encoded := int n2\<rparr>) = int n3" by (simp add: m n3_def)
  note one = one_digit
  have pos: "0 < length (dec_digits n1)" by simp
  have n2: "n2 = n1 + (length (dec_digits n1) - 1)" using pos by (simp add: n2_def n1_def one)
  have d2: "length (dec_digits n2) \<le> length (dec_digits n1) + 1" unfolding n2 by (rule length_dec_digits_add) simp
  have d12: "length (dec_digits n1) \<le> length (dec_digits n2)" by (rule length_dec_digits_mono) (simp add: n2)
  have n3: "n3 = n2 + (length (dec_digits n2) - length (dec_digits n1))" using d12 by (simp add: n3_def n2_def)
  have m3: "measured (b\<lparr>bd_encoded := int n3\<rparr>) = int n3"
  proof -
    have "length (dec_digits n3) = length (dec_digits n2)"
    proof (cases "length (dec_digits n2) = length (dec_digits n1)")
      case True
      then show ?thesis by (simp add: n3)
    next
      case False
      have lt: "n2 + 1 < 10 ^ length (dec_digits n2)"
      proof -
        have dn: "length (dec_digits n2) = length (dec_digits n1) + 1" using False d12 d2 by simp
        have "length (dec_digits n1) < 10 ^ length (dec_digits n1)" by (rule less_ten_power)
        then have "n1 + length (dec_digits n1) < 2 * 10 ^ length (dec_digits n1)" using dec_digits_upper [of n1] by linarith
        moreover have "n2 + 1 = n1 + length (dec_digits n1)" unfolding n2 using pos by linarith
        ultimately have "n2 + 1 < 10 * 10 ^ length (dec_digits n1)" by linarith
        then show ?thesis unfolding dn by simp
      qed
      have "length (dec_digits (n2 + 1)) \<le> length (dec_digits n2)" by (rule length_dec_digits_bound [OF lt]) simp
      moreover have "length (dec_digits n2) \<le> length (dec_digits (n2 + 1))" by (rule length_dec_digits_mono) simp
      moreover have "n3 = n2 + 1" using False d12 d2 by (simp add: n3)
      ultimately show ?thesis by simp
    qed
    then have "?m n3 = n3" by (simp add: n3_def)
    then show ?thesis using m [of n3] by (simp only:)
  qed
  have l8: "bundle_size b = bundle_loop 7 (int n1) (b\<lparr>bd_encoded := int n1\<rparr>)"
    unfolding bundle_size_def numeral_eq_Suc pred_numeral_simps using m0 by (subst bundle_loop_step) auto
  show thesis
  proof (cases "n2 = n1")
    case True
    have "bundle_size b = (b\<lparr>bd_encoded := int n1\<rparr>, int n1)"
      unfolding l8 numeral_eq_Suc pred_numeral_simps by (rule bundle_loop_stop) (simp_all add: m1 True)
    then show thesis by (rule that) (simp add: m1 True)
  next
    case False
    have l7: "bundle_size b = bundle_loop 6 (int n2) (b\<lparr>bd_encoded := int n2\<rparr>)"
      unfolding l8 numeral_eq_Suc pred_numeral_simps using False by (subst bundle_loop_step) (auto simp: m1)
    show thesis
    proof (cases "n3 = n2")
      case True
      have "bundle_size b = (b\<lparr>bd_encoded := int n2\<rparr>, int n2)"
        unfolding l7 numeral_eq_Suc pred_numeral_simps by (rule bundle_loop_stop) (simp_all add: m2 True)
      then show thesis by (rule that) (simp add: m2 True)
    next
      case False
      have l6: "bundle_size b = bundle_loop 5 (int n3) (b\<lparr>bd_encoded := int n3\<rparr>)"
        unfolding l7 numeral_eq_Suc pred_numeral_simps using False by (subst bundle_loop_step) (auto simp: m2)
      have "bundle_size b = (b\<lparr>bd_encoded := int n3\<rparr>, int n3)"
        unfolding l6 numeral_eq_Suc pred_numeral_simps by (rule bundle_loop_stop) (simp_all add: m3)
      then show thesis by (rule that) (rule m3)
    qed
  qed
qed


section \<open>What is carried\<close>

lemma traverse_member: "traverse f xs = Inr ys \<Longrightarrow> y \<in> set ys \<Longrightarrow> \<exists>x \<in> set xs. f x = Inr y"
  by (induction xs arbitrary: ys) (auto split: sum.split_asm)

lemma candidate_bundle_measured: "bd_encoded (candidate_bundle run c lane bef available ms) = measured (candidate_bundle run c lane bef available ms)"
  unfolding candidate_bundle_def by (rule bundle_size_fixed [of "\<lparr>bd_run = run, bd_challenge = c, bd_lane = lane, bd_before = bef, bd_manifests = ms,
       bd_omitted_manifests = int (length available) - int (length ms),
       bd_omitted_items = int (sum_list (map (\<lambda>m. length (mv_items m)) available)) - int (sum_list (map (\<lambda>m. length (mv_items m)) ms)),
       bd_encoded = 0\<rparr>"]) simp_all

lemma candidate_bundle_manifests: "bd_manifests (candidate_bundle run c lane bef available ms) = ms"
  unfolding candidate_bundle_def by (rule bundle_size_fixed [of "\<lparr>bd_run = run, bd_challenge = c, bd_lane = lane, bd_before = bef, bd_manifests = ms,
       bd_omitted_manifests = int (length available) - int (length ms),
       bd_omitted_items = int (sum_list (map (\<lambda>m. length (mv_items m)) available)) - int (sum_list (map (\<lambda>m. length (mv_items m)) ms)),
       bd_encoded = 0\<rparr>"]) simp_all

text \<open>A selected manifest is an available one with some of its items left out, in order.\<close>

definition part_of :: "manifest_view \<Rightarrow> manifest_view \<Rightarrow> bool" where
  "part_of n m \<longleftrightarrow> subseq (mv_items n) (mv_items m) \<and> mv_carry_omitted n = length (mv_items m) - length (mv_items n)
     \<and> n = m\<lparr>mv_items := mv_items n, mv_carry_omitted := mv_carry_omitted n\<rparr>"

lemma admit_items_part:
  assumes "mv_items m = pre @ rest" "subseq admitted pre" "part_of chosen m"
  shows "part_of (admit_items fits selected m admitted chosen rest) m"
  using assms
proof (induction rest arbitrary: pre admitted chosen)
  case (Cons x rest)
  let ?p = "m\<lparr>mv_items := admitted @ [x], mv_carry_omitted := length (mv_items m) - length admitted - 1\<rparr>"
  have split: "mv_items m = (pre @ [x]) @ rest" using Cons.prems by simp
  have sub: "subseq (admitted @ [x]) (pre @ [x])" using Cons.prems(2) by simp
  moreover have "subseq (pre @ [x]) (mv_items m)" unfolding split by (rule list_emb_prefix) simp
  ultimately have "subseq (admitted @ [x]) (mv_items m)" by (rule subseq_order.trans)
  then have "part_of ?p m" by (simp add: part_of_def)
  moreover have "subseq admitted (pre @ [x])" using Cons.prems(2) by (rule list_emb_prefix)
  ultimately show ?case using Cons.IH [OF split] sub Cons.prems(3) by (simp add: Let_def)
qed simp

lemma carry_manifests_part:
  assumes "\<forall>n \<in> set selected. \<exists>m \<in> set all. part_of n m" "set ms \<subseteq> set all"
  shows "\<forall>n \<in> set (carry_manifests fits selected ms). \<exists>m \<in> set all. part_of n m"
  using assms
proof (induction ms arbitrary: selected)
  case (Cons m ms)
  let ?base = "m\<lparr>mv_items := [], mv_carry_omitted := length (mv_items m)\<rparr>"
  have "part_of ?base m" by (simp add: part_of_def)
  then have part: "part_of (admit_items fits selected m [] ?base (mv_items m)) m"
    by (intro admit_items_part [where pre = "[]"]) simp_all
  have m: "m \<in> set all" "set ms \<subseteq> set all" using Cons.prems(2) by simp_all
  show ?case
  proof (cases "fits (selected @ [?base])")
    case True
    have "\<forall>n \<in> set (selected @ [admit_items fits selected m [] ?base (mv_items m)]). \<exists>m \<in> set all. part_of n m"
      using Cons.prems(1) part m(1) by auto
    from Cons.IH [OF this m(2)] True show ?thesis by (simp add: Let_def)
  next
    case False
    with Cons.IH [OF Cons.prems(1) m(2)] show ?thesis by (simp add: Let_def)
  qed
qed simp

lemma load_manifest_row:
  assumes "load_manifest lib run i d = Inr m"
  shows "mv_run m = run" "mv_attempt m = i" "mv_redact m = False"
    "\<exists>row. manifest_of d run i = Some row \<and> mv_challenge m = mf_challenge row \<and> mv_episode m = mf_episode row
      \<and> mv_lane m = mf_lane row \<and> mv_complete m = mf_complete row \<and> mv_gap m = mf_gap row \<and> mv_digest m = mf_digest row"
  using assms by (auto simp: load_manifest_def manifest_view_of_def tamper_def split: option.split_asm if_split_asm elim!: bind_result_InrE)

lemma carried_rows_members:
  assumes "(i, status) \<in> set (carried_rows run c lane bef d)"
  obtains m where "m \<in> set (manifest_rows d)" "mf_attempt m = i" "mf_run m = run" "mf_challenge m = c" "mf_lane m = lane"
    "mf_episode m < bef" "status \<in> set CARRIED_STATUS"
    "\<exists>a \<in> set (attempts d). at_id a = i \<and> at_run a = run \<and> at_status a = status"
  using assms by (auto simp: carried_rows_def)


lemma carry_effect:
  assumes "carry lib run l c lane bef d = Inr b"
  obtains available where
    "traverse (\<lambda>(i, status). bind_result (load_manifest lib run i d) (\<lambda>m. Inr (redact_if_sensitive status m)))
       (carried_rows run c lane bef d) = Inr available"
    "b = candidate_bundle run c lane bef available (bd_manifests b)" "bd_encoded b \<le> lim_carry l"
    "\<forall>n \<in> set (bd_manifests b). \<exists>m \<in> set available. part_of n m"
proof -
  obtain available where available: "traverse (\<lambda>(i, status). bind_result (load_manifest lib run i d) (\<lambda>m. Inr (redact_if_sensitive status m)))
       (carried_rows run c lane bef d) = Inr available"
    and b: "b = candidate_bundle run c lane bef available
         (carry_manifests (\<lambda>ms. bd_encoded (candidate_bundle run c lane bef available ms) \<le> lim_carry l) [] available)"
    and limit: "bd_encoded b \<le> lim_carry l"
    using assms by (auto simp: carry_def tamper_def Let_def split: if_split_asm elim!: bind_result_InrE)
  show thesis
  proof (rule that [OF available])
    show "b = candidate_bundle run c lane bef available (bd_manifests b)" by (simp add: b candidate_bundle_manifests)
    show "\<forall>n \<in> set (bd_manifests b). \<exists>m \<in> set available. part_of n m"
      unfolding b candidate_bundle_manifests by (rule carry_manifests_part) simp_all
  qed (rule limit)
qed

lemma carried_manifest_source:
  assumes "carry lib run l c lane bef d = Inr b" "n \<in> set (bd_manifests b)"
  obtains i status m where "(i, status) \<in> set (carried_rows run c lane bef d)" "load_manifest lib run i d = Inr m"
    "part_of n (redact_if_sensitive status m)"
proof -
  obtain available where available: "traverse (\<lambda>(i, status). bind_result (load_manifest lib run i d) (\<lambda>m. Inr (redact_if_sensitive status m)))
       (carried_rows run c lane bef d) = Inr available"
    and parts: "\<forall>n \<in> set (bd_manifests b). \<exists>m \<in> set available. part_of n m"
    using assms(1) by (rule carry_effect)
  obtain v where v: "v \<in> set available" "part_of n v" using parts assms(2) by blast
  from traverse_member [OF available v(1)] obtain i status where row: "(i, status) \<in> set (carried_rows run c lane bef d)"
    and "bind_result (load_manifest lib run i d) (\<lambda>m. Inr (redact_if_sensitive status m)) = Inr v" by auto
  then obtain m where "load_manifest lib run i d = Inr m" "v = redact_if_sensitive status m" by (elim bind_result_InrE) simp
  with row v(2) show thesis by (intro that) simp_all
qed

lemma carry_measured:
  assumes "carry lib run l c lane bef d = Inr b"
  shows "bd_encoded b = measured b" "bd_encoded b \<le> lim_carry l"
proof -
  obtain available where b: "b = candidate_bundle run c lane bef available (bd_manifests b)" and limit: "bd_encoded b \<le> lim_carry l"
    using assms by (rule carry_effect)
  show "bd_encoded b = measured b" by (subst (1 2) b) (rule candidate_bundle_measured)
  show "bd_encoded b \<le> lim_carry l" by (rule limit)
qed

text \<open>C11. Carried evidence fits: a bundle's \<open>encoded_bytes\<close> is exactly the length of its own encoding, that field included, and
  is at most the limit of the run; each manifest in it is one that an earlier episode committed and that passed
  every check when it was loaded, with a subsequence of its items and the count of those left out.\<close>

theorem carry_is_exact_and_bounded:
  assumes "carry lib run l c lane bef d = Inr b"
  shows "bd_encoded b = int (json_size (bundle_dict b)) \<and> bd_encoded b \<le> lim_carry l
    \<and> (\<forall>n \<in> set (bd_manifests b). \<exists>i status m. (i, status) \<in> set (carried_rows run c lane bef d)
        \<and> load_manifest lib run i d = Inr m \<and> part_of n (redact_if_sensitive status m))"
proof (intro conjI ballI)
  show "bd_encoded b = int (json_size (bundle_dict b))" using carry_measured(1) [OF assms] by (simp only: measured_def)
  show "bd_encoded b \<le> lim_carry l" by (rule carry_measured(2) [OF assms])
next
  fix n assume "n \<in> set (bd_manifests b)"
  from carried_manifest_source [OF assms this] obtain i status m where
    "(i, status) \<in> set (carried_rows run c lane bef d)" "load_manifest lib run i d = Inr m" "part_of n (redact_if_sensitive status m)" .
  then show "\<exists>i status m. (i, status) \<in> set (carried_rows run c lane bef d)
      \<and> load_manifest lib run i d = Inr m \<and> part_of n (redact_if_sensitive status m)" by blast
qed

section \<open>Redaction\<close>

function doc_keys :: "pyval \<Rightarrow> string list" where
  "doc_keys (PDict kvs) = concat (map (\<lambda>kv. fst kv # doc_keys (snd kv)) kvs)"
| "doc_keys (PList xs) = concat (map doc_keys xs)"
| "doc_keys PNone = []"
| "doc_keys (PBool b) = []"
| "doc_keys (PInt i) = []"
| "doc_keys (PFloat s) = []"
| "doc_keys (PStr s) = []"
  by pat_completeness auto

termination doc_keys
proof (relation "measure size", goal_cases)
  case 1
  show ?case by simp
next
  case (2 kvs kv)
  then show ?case using size_snd_less_PDict by simp
next
  case (3 xs x)
  then show ?case by (simp add: less_Suc_eq_le size_list_estimation')
qed

lemma stripped_keys: "k \<in> set (doc_keys (strip_payload_digests v)) \<Longrightarrow> \<not> stripped_key k"
proof (induction v rule: strip_payload_digests.induct)
  case (1 kvs)
  then obtain kv where kv: "kv \<in> set kvs" "\<not> stripped_key (fst kv)"
    "k = fst kv \<or> k \<in> set (doc_keys (strip_payload_digests (snd kv)))" by auto
  with 1(1) [of kv] show ?case by auto
qed auto

definition PUBLIC_NAMES :: "string list" where
  "PUBLIC_NAMES = [''byte_count'', ''ordinal'', ''payload'', ''tool'', ''attempt_id'', ''carry_omitted_items'', ''challenge_id'', ''committed_count'', ''complete'', ''episode'',
     ''gap'', ''item_bytes'', ''items'', ''lane'', ''observation_count'', ''omissions'', ''omitted_count'', ''attempt_bytes'', ''object_bytes'', ''observation_limit'']"

lemma public_names: "k \<in> set PUBLIC_NAMES \<Longrightarrow> \<not> stripped_key k"
proof -
  have "list_all (\<lambda>k. \<not> stripped_key k) PUBLIC_NAMES" by code_simp
  then show "k \<in> set PUBLIC_NAMES \<Longrightarrow> \<not> stripped_key k" by (simp add: list_all_iff)
qed

lemma item_keys: "set (doc_keys (item_dict x)) \<subseteq> set PUBLIC_NAMES \<union> set (doc_keys (public_payload x))" if "iv_redact x"
  using that by (auto simp: item_dict_def PUBLIC_NAMES_def)

lemma redacted_item: "iv_redact x \<Longrightarrow> k \<in> set (doc_keys (item_dict x)) \<Longrightarrow> \<not> stripped_key k"
  using item_keys [of x] public_names [of k] stripped_keys [of k]
  by (auto simp: public_payload_def Let_def simp del: strip_payload_digests.simps)

definition closed_omissions :: "manifest_view \<Rightarrow> bool" where
  "closed_omissions m \<longleftrightarrow> fst ` set (mv_omissions m) = {''attempt_bytes'', ''object_bytes'', ''observation_limit''}
     \<and> (\<forall>kv \<in> set (mv_omissions m). is_count (snd kv))"

lemma closed_omissions_cong: "mv_omissions n = mv_omissions m \<Longrightarrow> closed_omissions n \<longleftrightarrow> closed_omissions m"
  unfolding closed_omissions_def by (simp only:)

lemma count_keys: "is_count v \<Longrightarrow> doc_keys v = []"
  by (cases v) (simp_all add: is_count_def)

lemma keys_Cons: "doc_keys (PDict ((k, v) # kvs)) = k # doc_keys v @ doc_keys (PDict kvs)"
  and keys_append: "doc_keys (PDict (xs @ ys)) = doc_keys (PDict xs) @ doc_keys (PDict ys)"
  and keys_Nil: "doc_keys (PDict []) = []"
  and keys_items: "set (doc_keys (PList (map f xs'))) = (\<Union>x \<in> set xs'. set (doc_keys (f x)))"
  by simp_all

lemma flat_keys: "\<forall>kv \<in> set kvs. is_count (snd kv) \<Longrightarrow> doc_keys (PDict kvs) = map fst kvs"
  by (induction kvs) (simp_all add: count_keys)

lemma manifest_keys:
  assumes "mv_redact m"
  shows "set (doc_keys (manifest_dict m)) \<subseteq> set PUBLIC_NAMES \<union> (\<Union>x \<in> set (mv_items m). set (doc_keys (item_dict x)))
    \<union> set (doc_keys (PDict (mv_omissions m)))"
proof -
  have "doc_keys (null_text (mv_gap m)) = []" by (cases "mv_gap m") (simp_all add: null_text_def)
  then show ?thesis
    unfolding manifest_dict_def keys_append keys_Cons if_P [OF assms] keys_Nil set_append list.set keys_items doc_keys.simps(4-7)
    by (simp add: PUBLIC_NAMES_def del: doc_keys.simps(1,2)) (intro conjI subsetI; simp del: doc_keys.simps(1,2) UN_iff)
qed

lemma redacted_manifest:
  assumes "mv_redact m" "\<forall>x \<in> set (mv_items m). iv_redact x" "closed_omissions m" "k \<in> set (doc_keys (manifest_dict m))"
  shows "\<not> stripped_key k"
proof -
  consider "k \<in> set PUBLIC_NAMES" | x where "x \<in> set (mv_items m)" "k \<in> set (doc_keys (item_dict x))"
    | "k \<in> set (doc_keys (PDict (mv_omissions m)))"
    using manifest_keys [OF assms(1)] assms(4) by blast
  then show ?thesis
  proof cases
    case 1
    then show ?thesis by (rule public_names)
  next
    case (2 x)
    with assms(2) show ?thesis using redacted_item by blast
  next
    case 3
    have "doc_keys (PDict (mv_omissions m)) = map fst (mv_omissions m)"
      using assms(3) unfolding closed_omissions_def by (intro flat_keys) blast
    with 3 assms(3) have "k \<in> {''attempt_bytes'', ''object_bytes'', ''observation_limit''}"
      unfolding closed_omissions_def by (simp del: doc_keys.simps(1))
    then have "k \<in> set PUBLIC_NAMES" by (auto simp: PUBLIC_NAMES_def)
    then show ?thesis by (rule public_names)
  qed
qed

lemma load_manifest_omissions:
  assumes "load_manifest lib run i d = Inr m"
  shows "closed_omissions m"
proof -
  obtain row doc items where doc: "manifest_counts_ok row doc" and m: "m = manifest_view_of run i row doc items"
    using assms by (auto simp: load_manifest_def tamper_def split: option.split_asm if_split_asm elim!: bind_result_InrE)
  obtain os where "dict_get doc ''omissions'' = PDict os" "fst ` set os = {''attempt_bytes'', ''object_bytes'', ''observation_limit''}"
    "list_all (\<lambda>kv. is_count (snd kv)) os"
    using doc by (auto simp: manifest_counts_ok_def split: pyval.split_asm)
  then show ?thesis by (simp add: m manifest_view_of_def closed_omissions_def dict_items_def list_all_iff)
qed

lemma subseq_members: "subseq xs ys \<Longrightarrow> set xs \<subseteq> set ys"
  by (auto elim: list_emb_set)

lemma part_of_fields:
  assumes "part_of n m"
  shows "mv_attempt n = mv_attempt m" "mv_redact n = mv_redact m" "mv_sensitive n = mv_sensitive m" "mv_omissions n = mv_omissions m"
    "set (mv_items n) \<subseteq> set (mv_items m)"
proof -
  have "n = m\<lparr>mv_items := mv_items n, mv_carry_omitted := mv_carry_omitted n\<rparr>" using assms unfolding part_of_def by blast
  from arg_cong [OF this, of mv_attempt] arg_cong [OF this, of mv_redact] arg_cong [OF this, of mv_sensitive]
    arg_cong [OF this, of mv_omissions]
  show "mv_attempt n = mv_attempt m" "mv_redact n = mv_redact m" "mv_sensitive n = mv_sensitive m" "mv_omissions n = mv_omissions m"
    by simp_all
  show "set (mv_items n) \<subseteq> set (mv_items m)" using assms subseq_members unfolding part_of_def by blast
qed

definition holds_candidate :: "db \<Rightarrow> manifest_view \<Rightarrow> bool" where
  "holds_candidate d n \<longleftrightarrow> mv_sensitive n \<or> list_ex sensitive_item (mv_items n)
     \<or> list_ex (\<lambda>a. at_id a = mv_attempt n \<and> at_status a = ''candidate'') (attempts d)"

text \<open>C12. Carried evidence never betrays a candidate: a carried manifest of an attempt that ended with a candidate, or that holds
  a candidate-sensitive observation, is encoded without any digest, at whatever depth: no key of it is \<open>hashes\<close>, holds
  \<open>digest\<close> or ends with \<open>sha256\<close>, so neither the candidate's hash nor the address of its evidence can be read off it.\<close>

theorem carried_candidates_redacted:
  assumes "carry lib run l c lane bef d = Inr b" "n \<in> set (bd_manifests b)" "holds_candidate d n"
    and "distinct (map at_id (attempts d))" "k \<in> set (doc_keys (manifest_dict n))"
  shows "py_lower k \<noteq> ''hashes'' \<and> \<not> occurs (starts_with ''digest'') (py_lower k) \<and> \<not> ends_with ''sha256'' (py_lower k)"
proof -
  obtain i status m where row: "(i, status) \<in> set (carried_rows run c lane bef d)" and m: "load_manifest lib run i d = Inr m"
    and part: "part_of n (redact_if_sensitive status m)"
    using carried_manifest_source [OF assms(1,2)] .
  obtain a where a: "a \<in> set (attempts d)" "at_id a = i" "at_status a = status" using carried_rows_members [OF row] by metis
  let ?r = "redact_if_sensitive status m"
  have i: "mv_attempt n = i" using part_of_fields(1) [OF part] load_manifest_row(2) [OF m] by (simp add: redact_if_sensitive_def)
  have "status = ''candidate''" if "b' \<in> set (attempts d)" "at_id b' = mv_attempt n" "at_status b' = ''candidate''" for b'
  proof -
    have "b' = a" using that a i assms(4) by (auto simp: distinct_map inj_on_def)
    with that a show ?thesis by simp
  qed
  moreover have "list_ex sensitive_item (mv_items m)" if "x \<in> set (mv_items n)" "sensitive_item x" for x
  proof -
    have "x \<in> set (mv_items ?r)" using that part_of_fields(5) [OF part] by blast
    with that(2) show ?thesis by (auto simp: redact_if_sensitive_def list_ex_iff sensitive_item_def split: if_split_asm)
  qed
  moreover have "mv_sensitive n = mv_sensitive m" using part_of_fields(3) [OF part] by (simp add: redact_if_sensitive_def)
  ultimately have "status = ''candidate'' \<or> mv_sensitive m \<or> list_ex sensitive_item (mv_items m)"
    using assms(3) unfolding holds_candidate_def by (auto simp: list_ex_iff)
  then have r: "?r = m\<lparr>mv_items := map (\<lambda>x. x\<lparr>iv_redact := True\<rparr>) (mv_items m), mv_redact := True\<rparr>"
    by (simp add: redact_if_sensitive_def)
  have "mv_redact n" using part_of_fields(2) [OF part] by (simp add: r)
  moreover have "\<forall>x \<in> set (mv_items n). iv_redact x"
  proof
    fix x assume "x \<in> set (mv_items n)"
    then have "x \<in> set (mv_items ?r)" using part_of_fields(5) [OF part] by blast
    then show "iv_redact x" unfolding r by auto
  qed
  moreover have "mv_omissions n = mv_omissions m" using part_of_fields(4) [OF part] by (simp add: r)
  then have "closed_omissions n" using load_manifest_omissions [OF m] by (rule closed_omissions_cong [THEN iffD2])
  ultimately show ?thesis using redacted_manifest assms(5) unfolding stripped_key_def by blast
qed

end
