(* ===== verification/Candidate_Vault.thy ===== *)
theory Candidate_Vault
  imports Control_Decisions Utf8_Json
begin

text \<open>
  The end of an attempt and the private candidate tables of \<open>src/rapido/state.py\<close>: checkpoints, the
  final record of an attempt, the proposals with the keys of their bytes, the independent verification
  that a later verifier wave adds, and the queries on them. A candidate key is the lower case
  hexadecimal text of the digest; a candidate is kept as its UTF-8 bytes. The proofs and the manifests
  that a verification needs are written by \<open>src/rapido/evidence.py\<close>.
\<close>

section \<open>The record of an attempt\<close>

definition MAX_EVENT_BYTES :: nat where
  "MAX_EVENT_BYTES = 128 * 1024"

definition MAX_SQLITE_INTEGER :: int where
  "MAX_SQLITE_INTEGER = 2 ^ 63 - 1"

definition MAX_ATTEMPT_EVIDENCE_ITEMS :: nat where
  "MAX_ATTEMPT_EVIDENCE_ITEMS = 20"

definition MAX_ATTEMPT_EVIDENCE_ITEM_CHARS :: nat where
  "MAX_ATTEMPT_EVIDENCE_ITEM_CHARS = 1000"

definition encode_attempt_evidence :: "string \<Rightarrow> string list \<Rightarrow> string list result" where
  "encode_attempt_evidence name xs =
     (if MAX_ATTEMPT_EVIDENCE_ITEMS < length xs \<or> list_ex (\<lambda>x. MAX_ATTEMPT_EVIDENCE_ITEM_CHARS < length x) xs
      then Inl (ValueError (name @ '' must contain at most 20 strings of at most 1000 characters''))
      else if MAX_EVENT_BYTES < json_size (PList (map PStr xs))
      then Inl (ValueError (name @ '' exceeds the durable audit limit''))
      else Inr xs)"

definition check_tool_count :: "int \<Rightarrow> unit result" where
  "check_tool_count n = ensure (0 \<le> n \<and> n \<le> MAX_SQLITE_INTEGER)
     (ValueError ''tool_count must be a nonnegative SQLite integer'')"

definition ATTEMPT_END :: "string list" where
  "ATTEMPT_END = [''candidate'', ''unsolved'', ''timeout'', ''cancelled'', ''interrupted'', ''failed'', ''unsupported'']"

definition running_attempt :: "string \<Rightarrow> attempt_row \<Rightarrow> bool" where
  "running_attempt i a \<longleftrightarrow> at_id a = i \<and> at_status a = ''running''"

section \<open>Retaining a candidate\<close>

definition running_route :: "db \<Rightarrow> string \<Rightarrow> int \<Rightarrow> int \<Rightarrow> int \<Rightarrow> (string \<times> pyval) option" where
  "running_route d run c ep lane =
     (case filter (\<lambda>j. running_lane run c ep lane j \<and> route_of_job d j \<noteq> None) (control_jobs d) of
        [] \<Rightarrow> None
      | j # _ \<Rightarrow> map_option (\<lambda>r. (jb_role j, rt_document r)) (route_of_job d j))"

definition candidate_recipe :: "string \<Rightarrow> pyval \<Rightarrow> string result" where
  "candidate_recipe job_role document =
     (case route_from_dict document of
        Inl _ \<Rightarrow> Inl (ValueError ''private candidate route is invalid'')
      | Inr r \<Rightarrow>
          if role r \<noteq> job_role then Inl (ValueError ''private candidate route role changed'')
          else if job_role = ''verifier''
          then (if verification_recipe r \<noteq> ''fresh_source_reobservation_v1''
                then Inl (ValueError ''verifier candidate lacks the approved recipe'')
                else Inr ''fresh_source_reobservation_v1'')
          else if job_role \<in> {''specialist'', ''recovery''} then Inr ''source_bound_tool_observation_v1''
          else Inl (ValueError ''private candidate role is invalid''))"

definition instance_of :: "db \<Rightarrow> int \<Rightarrow> instance_row option" where
  "instance_of d c = first_row (\<lambda>i. in_challenge i = c) (instances d)"

definition owned_receipt :: "db \<Rightarrow> string \<Rightarrow> int \<Rightarrow> string \<Rightarrow> string option" where
  "owned_receipt d run c ctype =
     (case instance_of d c of
        None \<Rightarrow> None
      | Some i \<Rightarrow> if ctype = ''dynamic_iac'' \<and> in_run i = run \<and> in_status i = ''owned'' \<and> sha_opt (in_receipt i)
          then in_receipt i else None)"

definition same_attempt :: "proposal_row \<Rightarrow> attempt_row \<Rightarrow> bool" where
  "same_attempt p a \<longleftrightarrow> at_id a = pp_attempt p \<and> at_run a = pp_run p \<and> at_challenge a = pp_challenge p
     \<and> at_episode a = pp_episode p \<and> at_lane a = pp_lane p"

definition insert_proposal :: "proposal_row \<Rightarrow> unit tx" where
  "insert_proposal p d =
     bind_result (unique_key (pp_attempt p \<notin> set (map pp_attempt (proposals d)))) (\<lambda>_.
     bind_result (foreign_key (has_run d (pp_run p) \<and> has_challenge d (pp_challenge p) \<and> list_ex (same_attempt p) (attempts d))) (\<lambda>_.
     Inr ((), d\<lparr>proposals := proposals d @ [p]\<rparr>)))"

text \<open>The comparison of an earlier proposal leaves out when it was retained.\<close>

definition keep_proposal :: "proposal_row \<Rightarrow> unit tx" where
  "keep_proposal p d =
     (case proposal_of d (pp_attempt p) of
        None \<Rightarrow> insert_proposal p d
      | Some q \<Rightarrow> if q\<lparr>pp_at := pp_at p\<rparr> \<noteq> p
          then Inl (ValueError ''checkpoint candidate changed before attempt completion'') else Inr ((), d))"

definition complete_manifest :: "proof_row \<Rightarrow> manifest_row \<Rightarrow> bool" where
  "complete_manifest f m \<longleftrightarrow> mf_run m = pf_run f \<and> mf_attempt m = pf_attempt f \<and> mf_digest m = pf_manifest f
     \<and> mf_complete m \<and> mf_gap m = None \<and> mf_omitted m = 0"

definition complete_proof :: "db \<Rightarrow> manifest_row list \<Rightarrow> string \<Rightarrow> string \<Rightarrow> int \<Rightarrow> string \<Rightarrow> bool" where
  "complete_proof d ms attempt run c key = list_ex (\<lambda>f. pf_attempt f = attempt \<and> pf_run f = run \<and> pf_challenge f = c
     \<and> pf_key f = key \<and> list_ex (complete_manifest f) ms) (proofs d)"

definition verification_scope :: "string \<Rightarrow> string" where
  "verification_scope ctype = (if ctype = ''dynamic_iac'' then ''dynamic_instance'' else ''static_material'')"

definition producer_ok :: "db \<Rightarrow> manifest_row list \<Rightarrow> catalogue_row \<Rightarrow> string \<Rightarrow> proposal_row \<Rightarrow> proposal_row \<Rightarrow> bool" where
  "producer_ok d ms r scope q p \<longleftrightarrow> pp_run p = pp_run q \<and> pp_challenge p = pp_challenge q
     \<and> ct_episode r \<le> pp_episode p \<and> pp_episode p < pp_episode q \<and> pp_context p = pp_context q
     \<and> (scope = ''static_material'' \<and> pp_receipt p = None \<or> scope = ''dynamic_instance'' \<and> sha_opt (pp_receipt p))
     \<and> pp_role p \<in> {''specialist'', ''recovery''} \<and> pp_key p = pp_key q \<and> pp_candidate p = pp_candidate q
     \<and> list_ex (\<lambda>a. at_id a = pp_attempt p \<and> at_status a = ''candidate'') (attempts d)
     \<and> complete_proof d ms (pp_attempt p) (pp_run q) (pp_challenge q) (pp_key q)
     \<and> complete_proof d ms (pp_attempt q) (pp_run q) (pp_challenge q) (pp_key q)"

definition first_producer :: "db \<Rightarrow> manifest_row list \<Rightarrow> catalogue_row \<Rightarrow> string \<Rightarrow> proposal_row \<Rightarrow> proposal_row option" where
  "first_producer d ms r scope q =
     (case sort_key pp_episode (sort_key pp_attempt (filter (producer_ok d ms r scope q) (proposals d))) of
        [] \<Rightarrow> None | p # _ \<Rightarrow> Some p)"

text \<open>\<open>INSERT OR IGNORE\<close>: a row that would repeat a key is left out; a foreign key is still enforced.\<close>

definition insert_verification :: "verification_row \<Rightarrow> unit tx" where
  "insert_verification v d =
     (if list_ex (\<lambda>w. vf_run w = vf_run v \<and> vf_challenge w = vf_challenge v \<and> vf_key w = vf_key v
           \<or> vf_verifier w = vf_verifier v) (verifications d)
      then Inr ((), d)
      else bind_result (foreign_key (list_ex (\<lambda>p. pp_attempt p = vf_producer v \<and> pp_run p = vf_run v
               \<and> pp_challenge p = vf_challenge v \<and> pp_role p = vf_producer_role v \<and> pp_key p = vf_key v) (proposals d)
           \<and> list_ex (\<lambda>p. pp_attempt p = vf_verifier v \<and> pp_run p = vf_run v
               \<and> pp_challenge p = vf_challenge v \<and> pp_role p = vf_verifier_role v \<and> pp_key p = vf_key v) (proposals d))) (\<lambda>_.
        Inr ((), d\<lparr>verifications := verifications d @ [v]\<rparr>)))"

definition proven :: "db \<Rightarrow> verification_row \<Rightarrow> bool" where
  "proven d v \<longleftrightarrow> has_proof d (vf_producer v) (vf_run v) (vf_challenge v) (vf_key v)
     \<and> has_proof d (vf_verifier v) (vf_run v) (vf_challenge v) (vf_key v)"

definition verify_candidate :: "string \<Rightarrow> catalogue_row \<Rightarrow> string \<Rightarrow> proposal_row \<Rightarrow> unit tx" where
  "verify_candidate stamp r ctype q d =
     (let scope = verification_scope ctype in
      if scope = ''dynamic_instance'' \<and> pp_receipt q = None then Inr ((), d)
      else case manifests d of
        None \<Rightarrow> Inr ((), d)
      | Some ms \<Rightarrow>
          (case first_producer d ms r scope q of
             None \<Rightarrow> Inr ((), d)
           | Some p \<Rightarrow>
               insert_verification
                 \<lparr>vf_run = pp_run q, vf_challenge = pp_challenge q, vf_key = pp_key q, vf_producer = pp_attempt p,
                  vf_producer_role = pp_role p, vf_verifier = pp_attempt q, vf_verifier_role = ''verifier'',
                  vf_recipe = pp_recipe q, vf_scope = scope, vf_context = pp_context q, vf_receipt = pp_receipt q,
                  vf_at = stamp\<rparr>
                 (d\<lparr>verifications := filter (\<lambda>v. \<not> (vf_run v = pp_run q \<and> vf_challenge v = pp_challenge q
                      \<and> vf_key v = pp_key q \<and> \<not> proven d v)) (verifications d)\<rparr>)))"

definition retain_candidate :: "digest_fn \<Rightarrow> clock \<Rightarrow> string \<Rightarrow> string \<Rightarrow> int \<Rightarrow> int \<Rightarrow> int \<Rightarrow> string \<Rightarrow> unit tx" where
  "retain_candidate sha now attempt run c ep lane candidate d =
     (if candidate = [] \<or> 600 < length candidate then Inl (ValueError ''invalid private candidate'')
      else case running_route d run c ep lane of
        None \<Rightarrow> Inl (ValueError ''private candidate has no running control job'')
      | Some (job_role, document) \<Rightarrow>
          bind_result (candidate_recipe job_role document) (\<lambda>recipe.
          case (catalogued d run c, challenge_by_id d c) of
            (Some r, Some x) \<Rightarrow>
              (let q = \<lparr>pp_attempt = attempt, pp_run = run, pp_challenge = c, pp_episode = ep, pp_lane = lane,
                     pp_role = job_role, pp_recipe = recipe, pp_context = material_identity r,
                     pp_receipt = owned_receipt d run c (ch_type x), pp_key = sha (utf8_bytes candidate),
                     pp_candidate = utf8_bytes candidate, pp_at = now 1\<rparr> in
               tx_bind (keep_proposal q) (\<lambda>_.
                 if job_role \<noteq> ''verifier'' then tx_return () else verify_candidate (now 2) r (ch_type x) q) d)
          | _ \<Rightarrow> Inl (ValueError ''private candidate has no material context'')))"

section \<open>Ending and checkpointing an attempt\<close>

definition end_attempt ::
  "string \<Rightarrow> string \<Rightarrow> string \<Rightarrow> string option \<Rightarrow> rat option \<Rightarrow> string list \<Rightarrow> string list \<Rightarrow> int \<Rightarrow> string option
     \<Rightarrow> attempt_row \<Rightarrow> attempt_row" where
  "end_attempt stamp status summary candidate confidence evidence next_steps tools failure_class a =
     a\<lparr>at_finished := Some stamp, at_status := status, at_summary := take 4000 summary, at_candidate := candidate,
       at_confidence := confidence, at_evidence := evidence, at_next_steps := next_steps, at_observations := [],
       at_tool_count := max (at_tool_count a) tools, at_failure := failure_class\<rparr>"

text \<open>A timeout keeps the text of the last checkpoint.\<close>

definition time_out_attempt :: "string \<Rightarrow> rat option \<Rightarrow> int \<Rightarrow> string option \<Rightarrow> attempt_row \<Rightarrow> attempt_row" where
  "time_out_attempt stamp confidence tools failure_class a =
     a\<lparr>at_finished := Some stamp, at_status := ''timeout'', at_candidate := None, at_confidence := confidence,
       at_tool_count := max (at_tool_count a) tools, at_failure := failure_class\<rparr>"

definition finish_attempt_body ::
  "digest_fn \<Rightarrow> clock \<Rightarrow> string \<Rightarrow> string \<Rightarrow> string \<Rightarrow> string option \<Rightarrow> rat option \<Rightarrow> string list \<Rightarrow> string list
     \<Rightarrow> int \<Rightarrow> string option \<Rightarrow> bool \<Rightarrow> unit tx" where
  "finish_attempt_body sha now i status summary candidate confidence evidence next_steps tools failure_class retain d =
     (case first_row (running_attempt i) (attempts d) of
        None \<Rightarrow> Inl (ValueError ''attempt is absent or not running'')
      | Some a \<Rightarrow>
          (let keep = status = ''timeout'' \<and> proposal_of d i = None \<and> at_observations a \<noteq> [];
               f = (if keep then time_out_attempt (now 0) confidence tools failure_class
                    else end_attempt (now 0) status summary (if retain then None else candidate) confidence evidence
                      next_steps tools failure_class);
               d' = d\<lparr>attempts := where_update (running_attempt i) f (attempts d)\<rparr> in
           if count_rows (running_attempt i) (attempts d) \<noteq> 1
           then Inl (ValueError ''attempt is absent or not running'')
           else case candidate of
             Some x \<Rightarrow> if retain then retain_candidate sha now i (at_run a) (at_challenge a) (at_episode a) (at_lane a) x d'
                 else Inr ((), d')
           | None \<Rightarrow> if retain then Inl (AssertionError []) else Inr ((), d')))"

definition finish_attempt ::
  "digest_fn \<Rightarrow> clock \<Rightarrow> string \<Rightarrow> string \<Rightarrow> string \<Rightarrow> string option \<Rightarrow> rat option \<Rightarrow> string list \<Rightarrow> string list
     \<Rightarrow> int \<Rightarrow> string option \<Rightarrow> bool \<Rightarrow> db \<Rightarrow> unit result \<times> db" where
  "finish_attempt sha now i status summary candidate confidence evidence next_steps tools failure_class retain d =
     (if status \<notin> set ATTEMPT_END then (Inl (ValueError ''invalid attempt status''), d)
      else if (case confidence of None \<Rightarrow> False | Some x \<Rightarrow> \<not> (0 \<le> x \<and> x \<le> 1))
      then (Inl (ValueError ''confidence must be in [0, 1]''), d)
      else case bind_result (encode_attempt_evidence ''evidence'' evidence) (\<lambda>es.
             bind_result (encode_attempt_evidence ''next_steps'' next_steps) (\<lambda>ns.
             bind_result (check_tool_count tools) (\<lambda>_. Inr (es, ns)))) of
        Inl e \<Rightarrow> (Inl e, d)
      | Inr (es, ns) \<Rightarrow>
          if (case failure_class of None \<Rightarrow> False | Some x \<Rightarrow> x \<notin> KNOWN_FAILURE_CLASSES)
          then (Inl (ValueError ''failure_class is not a recognized closed class''), d)
          else if retain \<and> (status \<noteq> ''candidate'' \<or> candidate = None)
          then (Inl (ValueError ''private candidate retention requires a candidate attempt''), d)
          else transaction (finish_attempt_body sha now i status summary candidate confidence es ns tools failure_class retain) d)"

definition is_dict :: "pyval \<Rightarrow> bool" where
  "is_dict v = (case v of PDict _ \<Rightarrow> True | _ \<Rightarrow> False)"

definition checkpoint_row :: "string \<Rightarrow> string list \<Rightarrow> string list \<Rightarrow> pyval list \<Rightarrow> int \<Rightarrow> attempt_row \<Rightarrow> attempt_row" where
  "checkpoint_row summary evidence next_steps observations tools a =
     a\<lparr>at_summary := take 4000 summary, at_evidence := evidence, at_next_steps := next_steps,
       at_observations := observations, at_tool_count := max (at_tool_count a) tools\<rparr>"

definition checkpoint_body ::
  "digest_fn \<Rightarrow> clock \<Rightarrow> string \<Rightarrow> string \<Rightarrow> string option \<Rightarrow> string list \<Rightarrow> string list \<Rightarrow> pyval list \<Rightarrow> int \<Rightarrow> unit tx" where
  "checkpoint_body sha now i summary candidate evidence next_steps observations tools d =
     (let d' = d\<lparr>attempts := where_update (running_attempt i)
            (checkpoint_row summary evidence next_steps observations tools) (attempts d)\<rparr> in
      if count_rows (running_attempt i) (attempts d) \<noteq> 1 then Inl (ValueError ''attempt is absent or not running'')
      else case candidate of
        None \<Rightarrow> Inr ((), d')
      | Some x \<Rightarrow>
          (case first_row (\<lambda>a. at_id a = i) (attempts d') of
             None \<Rightarrow> Inl (AssertionError [])
           | Some a \<Rightarrow> retain_candidate sha now i (at_run a) (at_challenge a) (at_episode a) (at_lane a) x d'))"

definition checkpoint_attempt ::
  "digest_fn \<Rightarrow> clock \<Rightarrow> string \<Rightarrow> string \<Rightarrow> string option \<Rightarrow> string list \<Rightarrow> string list \<Rightarrow> pyval list \<Rightarrow> int
     \<Rightarrow> db \<Rightarrow> unit result \<times> db" where
  "checkpoint_attempt sha now i summary candidate evidence next_steps observations tools d =
     (case bind_result (encode_attempt_evidence ''evidence'' evidence) (\<lambda>es.
           bind_result (encode_attempt_evidence ''next_steps'' next_steps) (\<lambda>ns.
           if 100 < length observations \<or> \<not> list_all is_dict observations
           then Inl (ValueError ''checkpoint observations are invalid or unbounded'')
           else if MAX_EVENT_BYTES < json_size (PList observations)
           then Inl (ValueError ''checkpoint observations exceed the durable audit limit'')
           else bind_result (check_tool_count tools) (\<lambda>_. Inr (es, ns)))) of
        Inl e \<Rightarrow> (Inl e, d)
      | Inr (es, ns) \<Rightarrow> transaction (checkpoint_body sha now i summary candidate es ns observations tools) d)"

definition event :: "clock \<Rightarrow> string \<Rightarrow> string \<Rightarrow> (string \<times> pyval) list \<Rightarrow> db \<Rightarrow> nat result \<times> db" where
  "event now run what data d =
     (if what = [] \<or> 100 < length what then (Inl (ValueError ''invalid event kind''), d)
      else if MAX_EVENT_BYTES < json_size (PDict data)
      then (Inl (ValueError ''event data exceeds the durable audit limit''), d)
      else transaction (insert_event run (now 0) what (PDict data)) d)"

section \<open>Reading the vault\<close>

definition candidate_counts :: "db \<Rightarrow> string \<Rightarrow> nat \<times> nat" where
  "candidate_counts d run =
     (length (remdups (map (\<lambda>p. (pp_challenge p, pp_key p))
        (filter (\<lambda>p. case catalogued d run (pp_challenge p) of
            None \<Rightarrow> False | Some r \<Rightarrow> open_proposal d run (pp_challenge p) r p) (proposals d)))),
      count_rows (\<lambda>v. vf_run v = run \<and> current_verification d v) (verifications d))"

definition pending_candidate_count :: "db \<Rightarrow> string \<Rightarrow> int \<Rightarrow> nat" where
  "pending_candidate_count d run c =
     (case catalogued d run c of
        None \<Rightarrow> 0
      | Some r \<Rightarrow> length (remdups (map pp_key (filter (open_proposal d run c r) (proposals d)))))"

text \<open>The producer of a verification, joined with the material it was observed in.\<close>

definition verified_producer :: "db \<Rightarrow> verification_row \<Rightarrow> proposal_row option" where
  "verified_producer d v =
     (case proposal_of d (vf_producer v) of
        None \<Rightarrow> None
      | Some p \<Rightarrow> (case catalogued d (pp_run p) (pp_challenge p) of
          None \<Rightarrow> None
        | Some r \<Rightarrow> if ct_episode r \<le> pp_episode p then Some p else None))"

definition verified_rows :: "db \<Rightarrow> string \<Rightarrow> int \<Rightarrow> (verification_row \<times> proposal_row) list" where
  "verified_rows d run c =
     concat (map (\<lambda>v. case verified_producer d v of None \<Rightarrow> [] | Some p \<Rightarrow> [(v, p)])
       (filter (\<lambda>v. vf_run v = run \<and> vf_challenge v = c \<and> current_verification d v)
         (sort_key vf_at (sort_key vf_key (verifications d)))))"

definition verified_candidate :: "db \<Rightarrow> string \<Rightarrow> int \<Rightarrow> string option result" where
  "verified_candidate d run c =
     (case verified_rows d run c of
        [(v, p)] \<Rightarrow>
          (case utf8_decode (pp_candidate p) of
             None \<Rightarrow> Inl (ValueError ''verified private candidate is invalid'')
           | Some s \<Rightarrow> Inr (Some s))
      | _ \<Rightarrow> Inr None)"

definition candidate_is_verified :: "digest_fn \<Rightarrow> db \<Rightarrow> string \<Rightarrow> int \<Rightarrow> string \<Rightarrow> bool result" where
  "candidate_is_verified sha d run c candidate =
     (if candidate = [] \<or> 600 < length candidate then Inl (ValueError ''invalid private candidate'')
      else let rows = verified_rows d run c in
        Inr (length rows = 1 \<and> count_rows (\<lambda>(v, p). vf_key v = sha (utf8_bytes candidate)
          \<and> pp_candidate p = utf8_bytes candidate) rows = 1))"

definition MAX_PRIVATE_INCORRECT_CANDIDATES :: nat where
  "MAX_PRIVATE_INCORRECT_CANDIDATES = 64"

definition MAX_PRIVATE_INCORRECT_CANDIDATE_BYTES :: nat where
  "MAX_PRIVATE_INCORRECT_CANDIDATE_BYTES = 64 * 1024"

definition intent_in_context :: "catalogue_row \<Rightarrow> intent_row \<Rightarrow> bool" where
  "intent_in_context r i \<longleftrightarrow> ct_context r \<noteq> None \<and> it_context i = ct_context r
     \<or> it_episode i = ct_episode r \<and> it_context i = ct_context r"

definition incorrect_rows :: "db \<Rightarrow> string \<Rightarrow> int \<Rightarrow> (string \<times> string) list" where
  "incorrect_rows d run c =
     (case catalogued d run c of
        None \<Rightarrow> []
      | Some r \<Rightarrow> take MAX_PRIVATE_INCORRECT_CANDIDATES (sort (remdups (map (\<lambda>p. (pp_key p, pp_candidate p))
          (filter (\<lambda>p. pp_run p = run \<and> pp_challenge p = c \<and> ct_episode r \<le> pp_episode p
             \<and> list_ex (\<lambda>i. it_run i = run \<and> it_challenge i = c \<and> it_sha i = pp_key p \<and> it_status i = ''incorrect''
                  \<and> intent_in_context r i) (intents d)) (proposals d))))))"

fun take_within :: "digest_fn \<Rightarrow> nat \<Rightarrow> (string \<times> string) list \<Rightarrow> string list result" where
  "take_within sha used [] = Inr []"
| "take_within sha used ((key, candidate) # rows) =
     (if candidate = [] \<or> sha candidate \<noteq> key then Inl (ValueError ''private incorrect candidate identity changed'')
      else if MAX_PRIVATE_INCORRECT_CANDIDATE_BYTES < used + length candidate then Inr []
      else bind_result (take_within sha (used + length candidate) rows) (\<lambda>xs. Inr (candidate # xs)))"

definition private_incorrect_candidate_bytes :: "digest_fn \<Rightarrow> db \<Rightarrow> string \<Rightarrow> int \<Rightarrow> string list result" where
  "private_incorrect_candidate_bytes sha d run c =
     (if run = [] then Inl (ValueError ''run_id must be nonempty'')
      else if c \<le> 0 then Inl (ValueError ''challenge_id must be positive'')
      else take_within sha 0 (incorrect_rows d run c))"

section \<open>The evaluation of a run\<close>

record evaluation_counts =
  ec_correct :: nat
  ec_http_200 :: nat
  ec_reconciled :: nat
  ec_already_solved :: nat
  ec_incorrect :: nat
  ec_source_observed :: nat
  ec_board_origin :: nat
  ec_unknown_origin :: nat
  ec_independently_verified :: nat
  ec_run_local_verified :: nat
  ec_unverified :: nat

definition independently_verified :: "db \<Rightarrow> string \<Rightarrow> int list" where
  "independently_verified d run = remdups (map vf_challenge
     (filter (\<lambda>v. vf_run v = run \<and> current_verification d v \<and> verified_producer d v \<noteq> None) (verifications d)))"

definition unverified_challenges :: "db \<Rightarrow> string \<Rightarrow> int list" where
  "unverified_challenges d run = remdups (map pp_challenge
     (filter (\<lambda>p. case catalogued d run (pp_challenge p) of
         None \<Rightarrow> False | Some r \<Rightarrow> open_proposal d run (pp_challenge p) r p) (proposals d)))"

definition correct_by :: "db \<Rightarrow> string \<Rightarrow> string \<Rightarrow> int list" where
  "correct_by d run provenance = remdups (map sb_challenge
     (filter (\<lambda>s. sb_run s = run \<and> sb_outcome s = ''correct'' \<and> sb_provenance s = provenance) (submissions d)))"

definition run_evaluation_counts :: "db \<Rightarrow> string \<Rightarrow> evaluation_counts" where
  "run_evaluation_counts d run =
     (let rows = filter (\<lambda>s. sb_run s = run) (submissions d);
          outcome = (\<lambda>x. count_rows (\<lambda>s. sb_outcome s = x) rows);
          source = correct_by d run ''source_observed_candidate'';
          board = correct_by d run ''board_description_candidate'';
          verified = independently_verified d run in
      \<lparr>ec_correct = outcome ''correct'',
       ec_http_200 = count_rows (\<lambda>s. sb_outcome s = ''correct'' \<and> sb_http s = 200) rows,
       ec_reconciled = count_rows (\<lambda>s. sb_outcome s = ''correct'' \<and> sb_http s = 0) rows,
       ec_already_solved = outcome ''already_solved'', ec_incorrect = outcome ''incorrect'',
       ec_source_observed = length source, ec_board_origin = length board,
       ec_unknown_origin = outcome ''correct'' - (length source + length board),
       ec_independently_verified = length verified,
       ec_run_local_verified = length (remdups (source @ verified)),
       ec_unverified = length (unverified_challenges d run)\<rparr>)"

section \<open>What an operation of the vault changes\<close>

text \<open>Only proposals are added, and verifications change; everything else of the store stays.\<close>

definition vault_frame :: "db \<Rightarrow> db \<Rightarrow> bool" where
  "vault_frame d d' \<longleftrightarrow> (\<exists>ps vs. d' = d\<lparr>proposals := ps, verifications := vs\<rparr>)"

lemma vault_frame_same: "vault_frame d d"
proof -
  have "d = d\<lparr>proposals := proposals d, verifications := verifications d\<rparr>" by simp
  then show ?thesis unfolding vault_frame_def by blast
qed

lemma vault_frame_proposals: "vault_frame d (d\<lparr>proposals := ps\<rparr>)"
proof -
  have "d\<lparr>proposals := ps\<rparr> = d\<lparr>proposals := ps, verifications := verifications d\<rparr>" by simp
  then show ?thesis unfolding vault_frame_def by blast
qed

lemma vault_frame_verifications: "vault_frame d (d\<lparr>verifications := vs\<rparr>)"
proof -
  have "d\<lparr>verifications := vs\<rparr> = d\<lparr>proposals := proposals d, verifications := vs\<rparr>" by simp
  then show ?thesis unfolding vault_frame_def by blast
qed

lemma vault_frame_trans: "vault_frame a b \<Longrightarrow> vault_frame b c \<Longrightarrow> vault_frame a c"
  unfolding vault_frame_def by (elim exE, simp) blast

lemma vault_frame_fields:
  assumes "vault_frame d d'"
  shows "attempts d' = attempts d" "proofs d' = proofs d" "manifests d' = manifests d" "catalogue d' = catalogue d"
    "challenges d' = challenges d" "instances d' = instances d" "control_jobs d' = control_jobs d"
    "control_routes d' = control_routes d" "runs d' = runs d" "evidence_objects d' = evidence_objects d"
    "evidence_items d' = evidence_items d" "evidence_runs d' = evidence_runs d" "intents d' = intents d"
  using assms by (auto simp: vault_frame_def)

lemma keep_proposal_effect:
  assumes "keep_proposal q d = Inr (u, d')"
  obtains (new) "proposal_of d (pp_attempt q) = None" "d' = d\<lparr>proposals := proposals d @ [q]\<rparr>"
      "pp_attempt q \<notin> set (map pp_attempt (proposals d))" "list_ex (same_attempt q) (attempts d)"
  | (same) p where "proposal_of d (pp_attempt q) = Some p" "p\<lparr>pp_at := pp_at q\<rparr> = q" "d' = d" "p \<in> set (proposals d)"
proof (cases "proposal_of d (pp_attempt q)")
  case None
  with assms new show ?thesis
    by (auto simp: keep_proposal_def insert_proposal_def elim!: bind_result_InrE)
next
  case (Some p)
  then have "p \<in> set (proposals d)" by (auto simp: proposal_of_def dest: first_row_Some)
  with assms same Some show ?thesis by (auto simp: keep_proposal_def split: if_split_asm)
qed

lemma first_producer_sound:
  assumes "first_producer d ms r scope q = Some p"
  shows "p \<in> set (proposals d) \<and> producer_ok d ms r scope q p"
proof -
  from assms have "p \<in> set (sort_key pp_episode (sort_key pp_attempt (filter (producer_ok d ms r scope q) (proposals d))))"
    unfolding first_producer_def by (cases "sort_key pp_episode (sort_key pp_attempt (filter (producer_ok d ms r scope q) (proposals d)))") auto
  then show ?thesis by simp
qed

text \<open>The verification that a verifier's candidate adds to a store.\<close>

definition verifies :: "db \<Rightarrow> proposal_row \<Rightarrow> string \<Rightarrow> verification_row \<Rightarrow> bool" where
  "verifies d q scope v \<longleftrightarrow> (\<exists>p ms r. manifests d = Some ms \<and> p \<in> set (proposals d) \<and> producer_ok d ms r scope q p
     \<and> vf_run v = pp_run q \<and> vf_challenge v = pp_challenge q \<and> vf_key v = pp_key q \<and> vf_producer v = pp_attempt p
     \<and> vf_producer_role v = pp_role p \<and> vf_verifier v = pp_attempt q \<and> vf_verifier_role v = ''verifier''
     \<and> vf_recipe v = pp_recipe q \<and> vf_scope v = scope \<and> vf_context v = pp_context q \<and> vf_receipt v = pp_receipt q)"

definition same_identity :: "verification_row \<Rightarrow> verification_row \<Rightarrow> bool" where
  "same_identity v w \<longleftrightarrow> vf_run w = vf_run v \<and> vf_challenge w = vf_challenge v \<and> vf_key w = vf_key v
     \<or> vf_verifier w = vf_verifier v"

lemma verify_candidate_effect:
  assumes "verify_candidate stamp r ctype q d = Inr (u, d')"
  obtains (none) "d' = d"
  | (kept) P where "d' = d\<lparr>verifications := filter P (verifications d)\<rparr>"
  | (added) P v where "d' = d\<lparr>verifications := filter P (verifications d) @ [v]\<rparr>"
      "\<forall>w \<in> set (filter P (verifications d)). \<not> same_identity v w" "verifies d q (verification_scope ctype) v"
proof -
  let ?scope = "verification_scope ctype"
  let ?P = "\<lambda>v. \<not> (vf_run v = pp_run q \<and> vf_challenge v = pp_challenge q \<and> vf_key v = pp_key q \<and> \<not> proven d v)"
  consider "d' = d"
    | ms p where "manifests d = Some ms" "first_producer d ms r ?scope q = Some p"
        "insert_verification
           \<lparr>vf_run = pp_run q, vf_challenge = pp_challenge q, vf_key = pp_key q, vf_producer = pp_attempt p,
            vf_producer_role = pp_role p, vf_verifier = pp_attempt q, vf_verifier_role = ''verifier'',
            vf_recipe = pp_recipe q, vf_scope = ?scope, vf_context = pp_context q, vf_receipt = pp_receipt q,
            vf_at = stamp\<rparr> (d\<lparr>verifications := filter ?P (verifications d)\<rparr>) = Inr (u, d')"
    using assms by (auto simp: verify_candidate_def Let_def split: if_split_asm option.split_asm)
  then show ?thesis
  proof cases
    case 1
    then show ?thesis by (rule none)
  next
    case 2
    let ?v = "\<lparr>vf_run = pp_run q, vf_challenge = pp_challenge q, vf_key = pp_key q, vf_producer = pp_attempt p,
            vf_producer_role = pp_role p, vf_verifier = pp_attempt q, vf_verifier_role = ''verifier'',
            vf_recipe = pp_recipe q, vf_scope = ?scope, vf_context = pp_context q, vf_receipt = pp_receipt q,
            vf_at = stamp\<rparr>"
    have "verifies d q ?scope ?v"
      using first_producer_sound [OF 2(2)] 2(1) by (auto simp: verifies_def)
    moreover consider "d' = d\<lparr>verifications := filter ?P (verifications d)\<rparr>"
      | "\<forall>w \<in> set (filter ?P (verifications d)). \<not> same_identity ?v w"
        "d' = d\<lparr>verifications := filter ?P (verifications d) @ [?v]\<rparr>"
      using 2(3) by (auto simp: insert_verification_def list_ex_iff same_identity_def split: if_split_asm
          elim!: bind_result_InrE)
    ultimately show ?thesis using kept added by cases blast+
  qed
qed

lemma retain_candidate_effect:
  assumes "retain_candidate sha now attempt run c ep lane candidate d = Inr (u, d')"
  obtains q r x d1 job_role document where
    "candidate \<noteq> []" "length candidate \<le> 600" "running_route d run c ep lane = Some (job_role, document)"
    "candidate_recipe job_role document = Inr (pp_recipe q)" "catalogued d run c = Some r" "challenge_by_id d c = Some x"
    "q = \<lparr>pp_attempt = attempt, pp_run = run, pp_challenge = c, pp_episode = ep, pp_lane = lane, pp_role = job_role,
       pp_recipe = pp_recipe q, pp_context = material_identity r, pp_receipt = owned_receipt d run c (ch_type x),
       pp_key = sha (utf8_bytes candidate), pp_candidate = utf8_bytes candidate, pp_at = now 1\<rparr>"
    "keep_proposal q d = Inr ((), d1)"
    "if job_role = ''verifier'' then verify_candidate (now 2) r (ch_type x) q d1 = Inr ((), d') else d' = d1"
proof -
  from assms obtain job_role document recipe r x where a: "candidate \<noteq> []" "length candidate \<le> 600"
    "running_route d run c ep lane = Some (job_role, document)" "candidate_recipe job_role document = Inr recipe"
    "catalogued d run c = Some r" "challenge_by_id d c = Some x"
    by (auto simp: retain_candidate_def split: if_split_asm option.split_asm prod.split_asm elim!: bind_result_InrE)
  define q where "q = \<lparr>pp_attempt = attempt, pp_run = run, pp_challenge = c, pp_episode = ep, pp_lane = lane, pp_role = job_role,
       pp_recipe = recipe, pp_context = material_identity r, pp_receipt = owned_receipt d run c (ch_type x),
       pp_key = sha (utf8_bytes candidate), pp_candidate = utf8_bytes candidate, pp_at = now 1\<rparr>"
  have "tx_bind (keep_proposal q) (\<lambda>_. if job_role \<noteq> ''verifier'' then tx_return () else verify_candidate (now 2) r (ch_type x) q) d
      = Inr (u, d')"
    using assms a by (cases "job_role = ''verifier''") (simp_all add: retain_candidate_def q_def Let_def)
  then obtain d1 where "keep_proposal q d = Inr ((), d1)"
    "if job_role = ''verifier'' then verify_candidate (now 2) r (ch_type x) q d1 = Inr ((), d') else d' = d1"
    by (auto simp: tx_return_Inr split: if_split_asm elim!: tx_bind_InrE)
  with a show ?thesis by (intro that [of job_role document q r x d1]) (simp_all add: q_def)
qed

section \<open>The invariant of the vault\<close>

definition proposal_sound :: "digest_fn \<Rightarrow> db \<Rightarrow> proposal_row \<Rightarrow> bool" where
  "proposal_sound sha d p \<longleftrightarrow> (\<exists>s. pp_candidate p = utf8_bytes s \<and> s \<noteq> [] \<and> length s \<le> 600)
     \<and> pp_key p = sha (pp_candidate p) \<and> list_ex (same_attempt p) (attempts d)
     \<and> (pp_role p, pp_recipe p) \<in> {(''verifier'', ''fresh_source_reobservation_v1''),
          (''specialist'', ''source_bound_tool_observation_v1''), (''recovery'', ''source_bound_tool_observation_v1'')}"

text \<open>Two attempts of different episodes retained the same bytes for the same material, and both were
  attested.\<close>

definition verified_by :: "db \<Rightarrow> verification_row \<Rightarrow> proposal_row \<Rightarrow> proposal_row \<Rightarrow> bool" where
  "verified_by d v p q \<longleftrightarrow> p \<in> set (proposals d) \<and> q \<in> set (proposals d)
     \<and> pp_attempt p = vf_producer v \<and> pp_attempt q = vf_verifier v
     \<and> pp_run p = vf_run v \<and> pp_run q = vf_run v \<and> pp_challenge p = vf_challenge v \<and> pp_challenge q = vf_challenge v
     \<and> pp_key p = vf_key v \<and> pp_key q = vf_key v \<and> pp_candidate p = pp_candidate q
     \<and> pp_role p \<in> {''specialist'', ''recovery''} \<and> pp_role q = ''verifier'' \<and> pp_episode p < pp_episode q
     \<and> pp_context p = vf_context v \<and> pp_context q = vf_context v \<and> proven d v"

definition vault_sound :: "digest_fn \<Rightarrow> db \<Rightarrow> bool" where
  "vault_sound sha d \<longleftrightarrow> distinct (map pp_attempt (proposals d))
     \<and> (\<forall>p \<in> set (proposals d). proposal_sound sha d p)
     \<and> distinct (map (\<lambda>v. (vf_run v, vf_challenge v, vf_key v)) (verifications d)) \<and> distinct (map vf_verifier (verifications d))
     \<and> (\<forall>v \<in> set (verifications d). \<exists>p q. verified_by d v p q)"

lemma vault_soundI:
  assumes "distinct (map pp_attempt (proposals d))" "\<And>p. p \<in> set (proposals d) \<Longrightarrow> proposal_sound sha d p"
    "distinct (map (\<lambda>v. (vf_run v, vf_challenge v, vf_key v)) (verifications d))" "distinct (map vf_verifier (verifications d))"
    "\<And>v. v \<in> set (verifications d) \<Longrightarrow> \<exists>p q. verified_by d v p q"
  shows "vault_sound sha d"
  using assms by (simp add: vault_sound_def)

lemma has_proof_mono: "set (proofs d) \<subseteq> set (proofs d') \<Longrightarrow> has_proof d i run c key \<Longrightarrow> has_proof d' i run c key"
  by (auto simp: has_proof_def list_ex_iff)

lemma proven_mono: "set (proofs d) \<subseteq> set (proofs d') \<Longrightarrow> proven d v \<Longrightarrow> proven d' v"
  by (auto simp: proven_def dest: has_proof_mono)

text \<open>Every operation outside the vault keeps the proposals and the identities of attempts, only adds
  proofs, and only removes verifications.\<close>

definition same_lane :: "attempt_row \<Rightarrow> attempt_row \<Rightarrow> bool" where
  "same_lane a b \<longleftrightarrow> at_id b = at_id a \<and> at_run b = at_run a \<and> at_challenge b = at_challenge a
     \<and> at_episode b = at_episode a \<and> at_lane b = at_lane a"

definition keeps_vault :: "db \<Rightarrow> db \<Rightarrow> bool" where
  "keeps_vault d d' \<longleftrightarrow> proposals d' = proposals d \<and> set (proofs d) \<subseteq> set (proofs d')
     \<and> (\<exists>P. verifications d' = filter P (verifications d))
     \<and> (\<forall>a \<in> set (attempts d). \<exists>b \<in> set (attempts d'). same_lane a b)"

lemma keeps_vault_refl: "keeps_vault d d"
proof -
  have "verifications d = filter (\<lambda>_. True) (verifications d)" by simp
  then show ?thesis unfolding keeps_vault_def same_lane_def by blast
qed

lemma same_attempt_lane: "same_attempt p a \<Longrightarrow> same_lane a b \<Longrightarrow> same_attempt p b"
  by (simp add: same_attempt_def same_lane_def)

lemma proposal_sound_mono:
  assumes "proposal_sound sha d p" "\<forall>a \<in> set (attempts d). \<exists>b \<in> set (attempts d'). same_lane a b"
  shows "proposal_sound sha d' p"
  using assms by (auto simp: proposal_sound_def list_ex_iff dest: same_attempt_lane)

lemma keeps_vault_sound:
  assumes "vault_sound sha d" "keeps_vault d d'"
  shows "vault_sound sha d'"
proof -
  from assms(2) obtain P where P: "verifications d' = filter P (verifications d)" "proposals d' = proposals d"
    "set (proofs d) \<subseteq> set (proofs d')" "\<forall>a \<in> set (attempts d). \<exists>b \<in> set (attempts d'). same_lane a b"
    by (auto simp: keeps_vault_def)
  show ?thesis
  proof (rule vault_soundI)
    fix p assume "p \<in> set (proposals d')"
    with assms(1) P(2,4) show "proposal_sound sha d' p" by (auto simp: vault_sound_def intro: proposal_sound_mono)
  next
    fix v assume "v \<in> set (verifications d')"
    with assms(1) P(1) obtain p q where "verified_by d v p q" by (auto simp: vault_sound_def)
    with P(2,3) have "verified_by d' v p q" by (auto simp: verified_by_def intro: proven_mono)
    then show "\<exists>p q. verified_by d' v p q" by blast
  qed (use assms(1) P(1,2) in \<open>auto simp: vault_sound_def distinct_map_filter\<close>)
qed

lemma proposal_of_Some:
  assumes "distinct (map pp_attempt (proposals d))"
  shows "proposal_of d i = Some p \<longleftrightarrow> p \<in> set (proposals d) \<and> pp_attempt p = i"
  unfolding proposal_of_def by (rule first_row_key [OF assms])

lemma keep_proposal_sound:
  assumes "keep_proposal q d = Inr (u, d')" "vault_sound sha d"
    "\<And>d. list_ex (same_attempt q) (attempts d) \<Longrightarrow> proposal_sound sha d q"
  shows "vault_sound sha d'" "\<exists>q' \<in> set (proposals d'). q'\<lparr>pp_at := pp_at q\<rparr> = q" "vault_frame d d'"
    "verifications d' = verifications d" "set (proposals d) \<subseteq> set (proposals d')"
proof -
  have "vault_sound sha d' \<and> (\<exists>q' \<in> set (proposals d'). q'\<lparr>pp_at := pp_at q\<rparr> = q) \<and> vault_frame d d'
      \<and> verifications d' = verifications d \<and> set (proposals d) \<subseteq> set (proposals d')"
    using assms(1)
  proof (cases rule: keep_proposal_effect)
    case new
    have old: "proposal_sound sha d' p" if "proposal_sound sha d p" for p
      using that new by (simp add: proposal_sound_def)
    have ver: "verified_by d' v p r" if "verified_by d v p r" for v p r
      using that new by (simp add: verified_by_def proven_def has_proof_def)
    have "vault_sound sha d'"
      using assms(2) new assms(3) [of d'] old ver by (auto simp: vault_sound_def) blast
    with new show ?thesis by (auto simp: vault_frame_proposals)
  next
    case same
    with assms(2) show ?thesis by (auto simp: vault_frame_same)
  qed
  then show "vault_sound sha d'" "\<exists>q' \<in> set (proposals d'). q'\<lparr>pp_at := pp_at q\<rparr> = q" "vault_frame d d'"
    "verifications d' = verifications d" "set (proposals d) \<subseteq> set (proposals d')" by blast+
qed

lemma complete_proof_has: "complete_proof d ms i run c key \<Longrightarrow> has_proof d i run c key"
  by (auto simp: complete_proof_def has_proof_def list_ex_iff)

lemma same_retained:
  assumes "q'\<lparr>pp_at := pp_at q\<rparr> = q"
  shows "pp_attempt q' = pp_attempt q" "pp_run q' = pp_run q" "pp_challenge q' = pp_challenge q" "pp_episode q' = pp_episode q"
    "pp_role q' = pp_role q" "pp_recipe q' = pp_recipe q" "pp_context q' = pp_context q" "pp_receipt q' = pp_receipt q"
    "pp_key q' = pp_key q" "pp_candidate q' = pp_candidate q" "pp_lane q' = pp_lane q"
  using assms [THEN arg_cong, of pp_attempt] assms [THEN arg_cong, of pp_run] assms [THEN arg_cong, of pp_challenge]
    assms [THEN arg_cong, of pp_episode] assms [THEN arg_cong, of pp_role] assms [THEN arg_cong, of pp_recipe]
    assms [THEN arg_cong, of pp_context] assms [THEN arg_cong, of pp_receipt] assms [THEN arg_cong, of pp_key]
    assms [THEN arg_cong, of pp_candidate] assms [THEN arg_cong, of pp_lane]
  by simp_all

lemma verify_candidate_sound:
  assumes "verify_candidate stamp r ctype q d = Inr (u, d')" "vault_sound sha d"
    "q' \<in> set (proposals d)" "q'\<lparr>pp_at := pp_at q\<rparr> = q" "pp_role q = ''verifier''"
  shows "vault_sound sha d' \<and> vault_frame d d' \<and> proposals d' = proposals d"
  using assms(1)
proof (cases rule: verify_candidate_effect)
  case none
  with assms(2) show ?thesis by (simp add: vault_frame_same)
next
  case (kept P)
  have "keeps_vault d d'" using kept unfolding keeps_vault_def same_lane_def by auto
  with keeps_vault_sound [OF assms(2)] kept show ?thesis by (simp add: vault_frame_verifications)
next
  case (added P v)
  have mid: "vault_sound sha (d\<lparr>verifications := filter P (verifications d)\<rparr>)"
    by (rule keeps_vault_sound [OF assms(2)]) (auto simp: keeps_vault_def same_lane_def)
  from added(3) obtain p ms s where p: "p \<in> set (proposals d)" "producer_ok d ms s (verification_scope ctype) q p"
    "vf_run v = pp_run q" "vf_challenge v = pp_challenge q" "vf_key v = pp_key q" "vf_producer v = pp_attempt p"
    "vf_verifier v = pp_attempt q" "vf_context v = pp_context q"
    by (auto simp: verifies_def)
  have "verified_by d' v p q'"
    using p assms(3,5) same_retained [OF assms(4)] added(1)
    by (auto simp: verified_by_def producer_ok_def proven_def has_proof_def dest!: complete_proof_has)
  note new = this
  have kept: "verified_by d' w a b" if "verified_by (d\<lparr>verifications := filter P (verifications d)\<rparr>) w a b" for w a b
    using that added(1) by (simp add: verified_by_def proven_def has_proof_def)
  have props: "proposal_sound sha d' a" if "proposal_sound sha (d\<lparr>verifications := filter P (verifications d)\<rparr>) a" for a
    using that added(1) by (simp add: proposal_sound_def)
  have "vault_sound sha d'"
  proof (rule vault_soundI)
    show "\<exists>a b. verified_by d' w a b" if "w \<in> set (verifications d')" for w
    proof (cases "w = v")
      case True
      with new show ?thesis by blast
    next
      case False
      with that added(1) have "w \<in> set (filter P (verifications d))" by auto
      with mid obtain a b where "verified_by (d\<lparr>verifications := filter P (verifications d)\<rparr>) w a b"
        by (auto simp: vault_sound_def)
      with kept show ?thesis by blast
    qed
  qed (use mid added(1,2) props in \<open>auto simp: vault_sound_def same_identity_def\<close>)
  with added(1) show ?thesis by (simp add: vault_frame_verifications)
qed

lemma candidate_recipe_cases:
  assumes "candidate_recipe job_role document = Inr recipe"
  shows "(job_role, recipe) \<in> {(''verifier'', ''fresh_source_reobservation_v1''),
          (''specialist'', ''source_bound_tool_observation_v1''), (''recovery'', ''source_bound_tool_observation_v1'')}"
  using assms by (auto simp: candidate_recipe_def split: sum.split_asm if_split_asm)

lemma retain_candidate_sound:
  assumes "retain_candidate sha now attempt run c ep lane candidate d = Inr (u, d')" "vault_sound sha d"
  shows "vault_sound sha d' \<and> vault_frame d d'"
proof -
  from assms(1) obtain q r x d1 job_role document where e:
    "candidate \<noteq> []" "length candidate \<le> 600" "running_route d run c ep lane = Some (job_role, document)"
    "candidate_recipe job_role document = Inr (pp_recipe q)" "catalogued d run c = Some r" "challenge_by_id d c = Some x"
    "q = \<lparr>pp_attempt = attempt, pp_run = run, pp_challenge = c, pp_episode = ep, pp_lane = lane, pp_role = job_role,
       pp_recipe = pp_recipe q, pp_context = material_identity r, pp_receipt = owned_receipt d run c (ch_type x),
       pp_key = sha (utf8_bytes candidate), pp_candidate = utf8_bytes candidate, pp_at = now 1\<rparr>"
    "keep_proposal q d = Inr ((), d1)"
    "if job_role = ''verifier'' then verify_candidate (now 2) r (ch_type x) q d1 = Inr ((), d') else d' = d1"
    by (rule retain_candidate_effect)
  note e = e(1,2,4,7-9)
  have role: "pp_role q = job_role" "pp_candidate q = utf8_bytes candidate" "pp_key q = sha (utf8_bytes candidate)"
    using e(4) [THEN arg_cong, of pp_role] e(4) [THEN arg_cong, of pp_candidate] e(4) [THEN arg_cong, of pp_key] by simp_all
  have "proposal_sound sha d2 q" if "list_ex (same_attempt q) (attempts d2)" for d2
    using that e(1,2) role candidate_recipe_cases [OF e(3)] unfolding proposal_sound_def by auto
  from keep_proposal_sound [OF e(5) assms(2) this] obtain q' where one: "vault_sound sha d1" "vault_frame d d1"
    "q' \<in> set (proposals d1)" "q'\<lparr>pp_at := pp_at q\<rparr> = q" by blast
  show ?thesis
  proof (cases "job_role = ''verifier''")
    case True
    with e(6) have "verify_candidate (now 2) r (ch_type x) q d1 = Inr ((), d')" by simp
    from verify_candidate_sound [OF this one(1,3,4)] True role(1) have two: "vault_sound sha d'" "vault_frame d1 d'"
      by blast+
    with vault_frame_trans [OF one(2)] show ?thesis by blast
  next
    case False
    with e(6) one show ?thesis by simp
  qed
qed

text \<open>A record of an attempt never changes who ran it.\<close>

lemma where_update_lanes:
  assumes "\<And>a. same_lane a (f a)"
  shows "\<forall>a \<in> set rows. \<exists>b \<in> set (where_update p f rows). same_lane a b"
  using assms by (auto simp: where_update_def same_lane_def)

lemma keeps_vault_attempts:
  assumes "\<And>a. same_lane a (f a)"
  shows "keeps_vault d (d\<lparr>attempts := where_update p f (attempts d)\<rparr>)"
  using where_update_lanes [OF assms] keeps_vault_refl [of d] by (simp add: keeps_vault_def)

lemma attempt_records_lane:
  "same_lane a (time_out_attempt stamp confidence tools fc a)"
  "same_lane a (end_attempt stamp status summary cand confidence es ns tools fc a)"
  "same_lane a (checkpoint_row summary es ns obs tools a)"
  by (simp_all add: same_lane_def time_out_attempt_def end_attempt_def checkpoint_row_def)

lemma finish_attempt_cases:
  assumes "finish_attempt sha now i status summary candidate confidence es ns tools fc retain d = (r, d')"
  obtains (error) e where "r = Inl e" "d' = d"
  | (ok) "r = Inr ()" "status \<in> set ATTEMPT_END" "retain \<longrightarrow> status = ''candidate'' \<and> candidate \<noteq> None"
      "finish_attempt_body sha now i status summary candidate confidence es ns tools fc retain d = Inr ((), d')"
proof -
  have "bind_result (encode_attempt_evidence ''evidence'' es) (\<lambda>es. bind_result (encode_attempt_evidence ''next_steps'' ns)
      (\<lambda>ns. bind_result (check_tool_count tools) (\<lambda>_. Inr (es, ns)))) = Inr (es', ns') \<Longrightarrow> es' = es \<and> ns' = ns" for es' ns'
    by (auto simp: encode_attempt_evidence_def split: if_split_asm elim!: bind_result_InrE)
  with assms error ok show ?thesis
    by (auto simp: finish_attempt_def transaction_def split: if_split_asm sum.split_asm)
qed

lemma checkpoint_attempt_cases:
  assumes "checkpoint_attempt sha now i summary candidate es ns obs tools d = (r, d')"
  obtains (error) e where "r = Inl e" "d' = d"
  | (ok) "r = Inr ()" "checkpoint_body sha now i summary candidate es ns obs tools d = Inr ((), d')"
proof -
  have "bind_result (encode_attempt_evidence ''evidence'' es) (\<lambda>es. bind_result (encode_attempt_evidence ''next_steps'' ns)
      (\<lambda>ns. if 100 < length obs \<or> \<not> list_all is_dict obs
           then Inl (ValueError ''checkpoint observations are invalid or unbounded'')
           else if MAX_EVENT_BYTES < json_size (PList obs)
           then Inl (ValueError ''checkpoint observations exceed the durable audit limit'')
           else bind_result (check_tool_count tools) (\<lambda>_. Inr (es, ns)))) = Inr (es', ns') \<Longrightarrow> es' = es \<and> ns' = ns" for es' ns'
    by (auto simp: encode_attempt_evidence_def split: if_split_asm elim!: bind_result_InrE)
  with assms error ok show ?thesis
    by (auto simp: checkpoint_attempt_def transaction_def split: sum.split_asm)
qed

definition finished_row :: "clock \<Rightarrow> db \<Rightarrow> string \<Rightarrow> string \<Rightarrow> string \<Rightarrow> string option \<Rightarrow> rat option \<Rightarrow> string list \<Rightarrow> string list
     \<Rightarrow> int \<Rightarrow> string option \<Rightarrow> bool \<Rightarrow> attempt_row \<Rightarrow> attempt_row" where
  "finished_row now d i status summary candidate confidence es ns tools fc retain a =
     (if status = ''timeout'' \<and> proposal_of d i = None \<and> at_observations a \<noteq> []
      then time_out_attempt (now 0) confidence tools fc a
      else end_attempt (now 0) status summary (if retain then None else candidate) confidence es ns tools fc a)"

lemma finished_row_lane: "same_lane a (finished_row now d i status summary candidate confidence es ns tools fc retain b)
    \<longleftrightarrow> same_lane a b"
  by (simp add: finished_row_def same_lane_def time_out_attempt_def end_attempt_def)

lemma finish_body_effect:
  assumes "finish_attempt_body sha now i status summary candidate confidence es ns tools fc retain d = Inr ((), d')"
    "retain \<longrightarrow> candidate \<noteq> None"
  obtains a d1 where "a \<in> set (attempts d)" "running_attempt i a" "count_rows (running_attempt i) (attempts d) = 1"
    "d1 = d\<lparr>attempts := where_update (running_attempt i)
        (finished_row now d i status summary candidate confidence es ns tools fc retain) (attempts d)\<rparr>"
    "if retain then retain_candidate sha now i (at_run a) (at_challenge a) (at_episode a) (at_lane a) (the candidate) d1 = Inr ((), d')
     else d' = d1"
proof -
  from assms(1) obtain a where a: "first_row (running_attempt i) (attempts d) = Some a"
    "count_rows (running_attempt i) (attempts d) = 1"
    by (auto simp: finish_attempt_body_def Let_def split: option.split_asm if_split_asm)
  then have one: "b = a" if "b \<in> set (attempts d)" "running_attempt i b" for b
  proof -
    from a(2) obtain z where "filter (running_attempt i) (attempts d) = [z]"
      by (auto simp: count_rows_def length_Suc_conv)
    moreover from that have "b \<in> set (filter (running_attempt i) (attempts d))" by simp
    moreover from a(1) have "a \<in> set (filter (running_attempt i) (attempts d))" using first_row_Some by fastforce
    ultimately show "b = a" by simp
  qed
  let ?f = "if status = ''timeout'' \<and> proposal_of d i = None \<and> at_observations a \<noteq> []
      then time_out_attempt (now 0) confidence tools fc
      else end_attempt (now 0) status summary (if retain then None else candidate) confidence es ns tools fc"
  have rows: "where_update (running_attempt i) ?f (attempts d) = where_update (running_attempt i)
      (finished_row now d i status summary candidate confidence es ns tools fc retain) (attempts d)"
    unfolding where_update_def by (rule map_cong [OF refl]) (auto simp: finished_row_def dest: one)
  show ?thesis
  proof (rule that)
    show "a \<in> set (attempts d)" "running_attempt i a" using first_row_Some [OF a(1)] by simp_all
    show "if retain then retain_candidate sha now i (at_run a) (at_challenge a) (at_episode a) (at_lane a) (the candidate)
        (d\<lparr>attempts := where_update (running_attempt i)
        (finished_row now d i status summary candidate confidence es ns tools fc retain) (attempts d)\<rparr>) = Inr ((), d')
     else d' = d\<lparr>attempts := where_update (running_attempt i)
        (finished_row now d i status summary candidate confidence es ns tools fc retain) (attempts d)\<rparr>"
      unfolding rows [symmetric] using assms a by (auto simp: finish_attempt_body_def Let_def split: option.split_asm if_split_asm)
  qed (simp_all add: a(2))
qed

lemma vault_frame_attempts: "vault_frame d d' \<Longrightarrow> attempts d' = attempts d"
  by (rule vault_frame_fields)

lemma finish_attempt_sound:
  assumes "finish_attempt sha now i status summary candidate confidence es ns tools fc retain d = (r, d')" "vault_sound sha d"
  shows "vault_sound sha d'"
  using assms(1)
proof (cases rule: finish_attempt_cases)
  case error
  with assms(2) show ?thesis by simp
next
  case ok
  then have "retain \<longrightarrow> candidate \<noteq> None" by blast
  from finish_body_effect [OF ok(4) this] obtain a d1 where "a \<in> set (attempts d)" "running_attempt i a"
    "count_rows (running_attempt i) (attempts d) = 1" and d1: "d1 = d\<lparr>attempts := where_update (running_attempt i)
        (finished_row now d i status summary candidate confidence es ns tools fc retain) (attempts d)\<rparr>"
    "if retain then retain_candidate sha now i (at_run a) (at_challenge a) (at_episode a) (at_lane a) (the candidate) d1 = Inr ((), d')
     else d' = d1" .
  have "vault_sound sha d1" unfolding d1(1)
    by (rule keeps_vault_sound [OF assms(2) keeps_vault_attempts]) (simp add: finished_row_lane, simp add: same_lane_def)
  with d1(2) retain_candidate_sound show ?thesis by (auto split: if_split_asm)
qed

lemma checkpoint_body_effect:
  assumes "checkpoint_body sha now i summary candidate es ns obs tools d = Inr ((), d')"
  obtains d1 a where "count_rows (running_attempt i) (attempts d) = 1"
    "d1 = d\<lparr>attempts := where_update (running_attempt i) (checkpoint_row summary es ns obs tools) (attempts d)\<rparr>"
    "case candidate of None \<Rightarrow> d' = d1
     | Some x \<Rightarrow> first_row (\<lambda>a. at_id a = i) (attempts d1) = Some a
         \<and> retain_candidate sha now i (at_run a) (at_challenge a) (at_episode a) (at_lane a) x d1 = Inr ((), d')"
  using assms by (auto simp: checkpoint_body_def Let_def split: if_split_asm option.split_asm)

lemma checkpoint_attempt_sound:
  assumes "checkpoint_attempt sha now i summary candidate es ns obs tools d = (r, d')" "vault_sound sha d"
  shows "vault_sound sha d'"
  using assms(1)
proof (cases rule: checkpoint_attempt_cases)
  case error
  with assms(2) show ?thesis by simp
next
  case ok
  then obtain d1 a where d1:
    "d1 = d\<lparr>attempts := where_update (running_attempt i) (checkpoint_row summary es ns obs tools) (attempts d)\<rparr>"
    "case candidate of None \<Rightarrow> d' = d1
     | Some x \<Rightarrow> first_row (\<lambda>a. at_id a = i) (attempts d1) = Some a
         \<and> retain_candidate sha now i (at_run a) (at_challenge a) (at_episode a) (at_lane a) x d1 = Inr ((), d')"
    by (auto elim: checkpoint_body_effect)
  have "vault_sound sha d1" unfolding d1(1)
    by (rule keeps_vault_sound [OF assms(2) keeps_vault_attempts]) (rule attempt_records_lane)
  with d1(2) retain_candidate_sound show ?thesis by (auto split: option.split_asm)
qed

lemma retain_candidate_attempts:
  assumes "retain_candidate sha now i run c ep lane x d = Inr (u, d')"
  shows "attempts d' = attempts d"
proof -
  from assms obtain q r y d1 job_role document where
    "x \<noteq> []" "length x \<le> 600" "running_route d run c ep lane = Some (job_role, document)"
    "candidate_recipe job_role document = Inr (pp_recipe q)" "catalogued d run c = Some r" "challenge_by_id d c = Some y"
    "q = \<lparr>pp_attempt = i, pp_run = run, pp_challenge = c, pp_episode = ep, pp_lane = lane, pp_role = job_role,
       pp_recipe = pp_recipe q, pp_context = material_identity r, pp_receipt = owned_receipt d run c (ch_type y),
       pp_key = sha (utf8_bytes x), pp_candidate = utf8_bytes x, pp_at = now 1\<rparr>"
    and steps: "keep_proposal q d = Inr ((), d1)"
    "if job_role = ''verifier'' then verify_candidate (now 2) r (ch_type y) q d1 = Inr ((), d') else d' = d1"
    by (rule retain_candidate_effect)
  have "attempts d1 = attempts d" using steps(1) by (cases rule: keep_proposal_effect) simp_all
  moreover have "attempts d' = attempts d1"
  proof (cases "job_role = ''verifier''")
    case True
    with steps(2) have "verify_candidate (now 2) r (ch_type y) q d1 = Inr ((), d')" by simp
    then show ?thesis by (cases rule: verify_candidate_effect) simp_all
  qed (use steps(2) in simp)
  ultimately show ?thesis by simp
qed

lemma finish_attempt_rows:
  assumes "finish_attempt sha now i status summary candidate confidence es ns tools fc retain d = (Inr (), d')"
  shows "count_rows (running_attempt i) (attempts d) = 1
    \<and> attempts d' = where_update (running_attempt i)
        (finished_row now d i status summary candidate confidence es ns tools fc retain) (attempts d)
    \<and> status \<in> set ATTEMPT_END"
  using assms
proof (cases rule: finish_attempt_cases)
  case ok
  from ok(3) have "retain \<longrightarrow> candidate \<noteq> None" by blast
  from finish_body_effect [OF ok(4) this] obtain a d1 where "a \<in> set (attempts d)" "running_attempt i a"
    and d1: "count_rows (running_attempt i) (attempts d) = 1" "d1 = d\<lparr>attempts := where_update (running_attempt i)
        (finished_row now d i status summary candidate confidence es ns tools fc retain) (attempts d)\<rparr>"
    "if retain then retain_candidate sha now i (at_run a) (at_challenge a) (at_episode a) (at_lane a) (the candidate) d1 = Inr ((), d')
     else d' = d1" .
  have "attempts d' = attempts d1"
  proof (cases retain)
    case True
    with d1(3) show ?thesis by (simp add: retain_candidate_attempts)
  qed (use d1(3) in simp)
  then show ?thesis using d1 ok(2) by simp
qed simp

lemma not_running_finish:
  assumes "count_rows (running_attempt i) (attempts d) = 0"
  shows "\<exists>e. finish_attempt sha now i status summary candidate confidence es ns tools fc retain d = (Inl e, d)"
    "\<exists>e. checkpoint_attempt sha now i summary candidate es ns obs tools d = (Inl e, d)"
proof -
  have none: "first_row (running_attempt i) (attempts d) = None"
    using assms by (simp add: count_rows_0_iff first_row_None)
  obtain r d' where f: "finish_attempt sha now i status summary candidate confidence es ns tools fc retain d = (r, d')"
    by fastforce
  then show "\<exists>e. finish_attempt sha now i status summary candidate confidence es ns tools fc retain d = (Inl e, d)"
    by (cases rule: finish_attempt_cases) (auto simp: finish_attempt_body_def none f)
  obtain r d' where c: "checkpoint_attempt sha now i summary candidate es ns obs tools d = (r, d')" by fastforce
  then show "\<exists>e. checkpoint_attempt sha now i summary candidate es ns obs tools d = (Inl e, d)"
    by (cases rule: checkpoint_attempt_cases) (auto simp: checkpoint_body_def assms Let_def c)
qed

lemma finished_not_running:
  assumes "status \<in> set ATTEMPT_END"
  shows "\<not> running_attempt i (finished_row now d i status summary candidate confidence es ns tools fc retain a)"
  using assms by (auto simp: running_attempt_def finished_row_def time_out_attempt_def end_attempt_def ATTEMPT_END_def)

text \<open>An attempt ends once: ending it succeeds only while it runs, changes exactly its own row, keeps
  who ran it and never lowers its tool count; a private candidate is not written into the row. Afterwards
  no call ends it again or adds a checkpoint, whatever its arguments, and such a call changes nothing.\<close>

theorem attempt_ends_once:
  assumes "finish_attempt sha now i status summary candidate confidence es ns tools fc retain d = (Inr (), d')"
  shows "(\<exists>f. attempts d' = where_update (running_attempt i) f (attempts d)
      \<and> (\<forall>a. same_lane a (f a) \<and> at_status (f a) = status \<and> at_finished (f a) = Some (now 0)
           \<and> at_tool_count a \<le> at_tool_count (f a) \<and> (retain \<longrightarrow> at_candidate (f a) = None)))
    \<and> count_rows (running_attempt i) (attempts d) = 1
    \<and> (\<exists>e. finish_attempt sha' now' i status' summary' candidate' confidence' es' ns' tools' fc' retain' d' = (Inl e, d'))
    \<and> (\<exists>e. checkpoint_attempt sha' now' i summary' candidate' es' ns' obs' tools' d' = (Inl e, d'))"
proof -
  let ?f = "finished_row now d i status summary candidate confidence es ns tools fc retain"
  note rows = finish_attempt_rows [OF assms]
  have row: "same_lane a (?f a) \<and> at_status (?f a) = status \<and> at_finished (?f a) = Some (now 0)
      \<and> at_tool_count a \<le> at_tool_count (?f a) \<and> (retain \<longrightarrow> at_candidate (?f a) = None)" for a
    by (simp add: finished_row_lane) (simp add: same_lane_def finished_row_def time_out_attempt_def end_attempt_def)
  have over: "count_rows (running_attempt i) (attempts d') = 0"
    using rows finished_not_running by (auto simp: count_rows_0_iff set_where_update)
  show ?thesis
    by (intro conjI exI [of _ ?f] allI not_running_finish [OF over]) (use row rows in blast)+
qed

text \<open>A timeout keeps the last checkpoint: when an attempt with no private candidate is checkpointed with
  observations and then times out, its row still holds the summary, the evidence, the next steps and the
  observations of the checkpoint, whatever the call that ended it was given.\<close>

theorem timeout_keeps_checkpoint:
  assumes "checkpoint_attempt sha now i summary None es ns obs tools d = (Inr (), d1)" "obs \<noteq> []"
    "proposal_of d i = None" "distinct (map at_id (attempts d))"
    "finish_attempt sha now' i ''timeout'' summary' candidate' confidence' es' ns' tools' fc' False d1 = (Inr (), d2)"
  shows "\<exists>a \<in> set (attempts d2). at_id a = i \<and> at_status a = ''timeout'' \<and> at_summary a = take 4000 summary
      \<and> at_evidence a = es \<and> at_next_steps a = ns \<and> at_observations a = obs \<and> at_candidate a = None
      \<and> tools \<le> at_tool_count a \<and> tools' \<le> at_tool_count a"
proof -
  let ?g = "checkpoint_row summary es ns obs tools"
  from assms(1) have d1: "count_rows (running_attempt i) (attempts d) = 1"
    "d1 = d\<lparr>attempts := where_update (running_attempt i) ?g (attempts d)\<rparr>"
    by (auto elim!: checkpoint_attempt_cases checkpoint_body_effect)
  then obtain a where a: "a \<in> set (attempts d)" "running_attempt i a"
    using count_rows_0_iff [of "running_attempt i" "attempts d"] by auto
  have b: "?g a \<in> set (attempts d1)" "running_attempt i (?g a)"
    using a d1(2) by (force simp: set_where_update, simp add: running_attempt_def checkpoint_row_def)
  let ?f = "finished_row now' d1 i ''timeout'' summary' candidate' confidence' es' ns' tools' fc' False"
  have "?f (?g a) \<in> set (attempts d2)"
    using finish_attempt_rows [OF assms(5)] b by (force simp: set_where_update)
  moreover have "proposal_of d1 i = None" using assms(3) d1(2) by (simp add: proposal_of_def)
  then have "?f (?g a) = time_out_attempt (now' 0) confidence' tools' fc' (?g a)"
    using assms(2) by (simp add: finished_row_def checkpoint_row_def)
  ultimately show ?thesis
    using a(2) by (intro bexI [of _ "?f (?g a)"])
      (simp_all add: time_out_attempt_def checkpoint_row_def running_attempt_def)
qed

section \<open>The verified candidate of a challenge\<close>

lemma verified_rows_iff:
  "(v, p) \<in> set (verified_rows d run c) \<longleftrightarrow> v \<in> set (verifications d) \<and> vf_run v = run \<and> vf_challenge v = c
     \<and> current_verification d v \<and> verified_producer d v = Some p"
  by (auto simp: verified_rows_def split: option.split)

lemma verified_producer_Some:
  assumes "verified_producer d v = Some p"
  shows "proposal_of d (vf_producer v) = Some p"
  using assms by (auto simp: verified_producer_def split: option.split_asm if_split_asm)

lemma proposal_unique:
  fixes d :: db
  assumes "distinct (map pp_attempt (proposals d))" "p \<in> set (proposals d)" "q \<in> set (proposals d)" "pp_attempt p = pp_attempt q"
  shows "p = q"
  using proposal_of_Some [OF assms(1), of "pp_attempt q" p] proposal_of_Some [OF assms(1), of "pp_attempt q" q] assms(2-4) by simp

lemma verified_row_sound:
  assumes "vault_sound sha d" "(v, p) \<in> set (verified_rows d run c)"
  obtains q s where "verified_by d v p q" "vf_run v = run" "vf_challenge v = c" "pp_candidate p = utf8_bytes s" "s \<noteq> []"
    "length s \<le> 600" "vf_key v = sha (utf8_bytes s)" "pp_attempt p \<noteq> pp_attempt q" "current_verification d v"
proof -
  note row = assms(2) [unfolded verified_rows_iff]
  from assms(1) row obtain p' q where both: "verified_by d v p' q" by (auto simp: vault_sound_def)
  have dist: "distinct (map pp_attempt (proposals d))" using assms(1) by (simp add: vault_sound_def)
  have "p \<in> set (proposals d) \<and> pp_attempt p = vf_producer v"
    using row verified_producer_Some proposal_of_Some [OF dist] by blast
  with both have "p' = p" using proposal_unique [OF dist, of p' p] by (simp add: verified_by_def)
  with both have both: "verified_by d v p q" by simp
  then have "p \<in> set (proposals d)" by (simp add: verified_by_def)
  with assms(1) obtain s where s: "pp_candidate p = utf8_bytes s" "s \<noteq> []" "length s \<le> 600" "pp_key p = sha (pp_candidate p)"
    by (auto simp: vault_sound_def proposal_sound_def)
  moreover have "pp_attempt p \<noteq> pp_attempt q"
  proof
    assume "pp_attempt p = pp_attempt q"
    with both have "p = q" using proposal_unique [OF dist, of p q] by (simp add: verified_by_def)
    with both show False by (simp add: verified_by_def)
  qed
  moreover have "pp_key p = vf_key v" using both by (simp add: verified_by_def)
  with s(1,4) have "vf_key v = sha (utf8_bytes s)" by simp
  ultimately show ?thesis using that [OF both] row by blast
qed

lemma verified_candidate_total:
  assumes "vault_sound sha d"
  shows "\<exists>x. verified_candidate d run c = Inr x"
proof -
  have "\<exists>s. utf8_decode (pp_candidate p) = Some s" if "(v, p) \<in> set (verified_rows d run c)" for v p
    using verified_row_sound [OF assms that] by (metis utf8_decode_bytes)
  then show ?thesis
    by (auto simp: verified_candidate_def split: list.split prod.split option.split)
qed

lemma verified_candidate_Some:
  "verified_candidate d run c = Inr (Some s) \<longleftrightarrow>
     (\<exists>v p. verified_rows d run c = [(v, p)] \<and> utf8_decode (pp_candidate p) = Some s)"
  by (auto simp: verified_candidate_def split: list.split prod.split option.split)

lemma verified_agrees:
  assumes "vault_sound sha d" "s \<noteq> []" "length s \<le> 600"
  shows "candidate_is_verified sha d run c s = Inr (verified_candidate d run c = Inr (Some s))"
proof -
  have "(length (verified_rows d run c) = 1 \<and> count_rows (\<lambda>(v, p). vf_key v = sha (utf8_bytes s)
      \<and> pp_candidate p = utf8_bytes s) (verified_rows d run c) = 1) \<longleftrightarrow> verified_candidate d run c = Inr (Some s)"
  proof (cases "\<exists>v p. verified_rows d run c = [(v, p)]")
    case True
    then obtain v p where rows: "verified_rows d run c = [(v, p)]" by blast
    then have "(v, p) \<in> set (verified_rows d run c)" by simp
    with assms(1) obtain q t where t: "verified_by d v p q" "pp_candidate p = utf8_bytes t" "vf_key v = sha (utf8_bytes t)"
      by (rule verified_row_sound)
    then show ?thesis by (auto simp: verified_candidate_Some rows)
  next
    case False
    then show ?thesis
      by (auto simp: verified_candidate_Some length_Suc_conv)
  qed
  with assms(2,3) show ?thesis by (simp add: candidate_is_verified_def Let_def)
qed

section \<open>The counts\<close>

lemma length_remdups_pairs:
  "length (remdups (map (\<lambda>p. (f p, g p)) xs)) = (\<Sum>c \<in> f ` set xs. length (remdups (map g (filter (\<lambda>p. f p = c) xs))))"
proof -
  have fin: "finite (f ` set xs)" by simp
  have "set (map (\<lambda>p. (f p, g p)) xs) = Sigma (f ` set xs) (\<lambda>c. set (map g (filter (\<lambda>p. f p = c) xs)))"
    by (auto simp: image_iff) metis
  then have "card (set (map (\<lambda>p. (f p, g p)) xs)) = (\<Sum>c \<in> f ` set xs. card (set (map g (filter (\<lambda>p. f p = c) xs))))"
    by (simp only: card_SigmaI [OF fin]) simp
  then show ?thesis by (simp only: length_remdups_card_conv)
qed

lemma open_proposal_challenge: "open_proposal d run c r p \<Longrightarrow> pp_challenge p = c"
  by (simp add: open_proposal_def)

lemma pending_rows:
  "filter (\<lambda>p. pp_challenge p = c) (filter (\<lambda>p. case catalogued d run (pp_challenge p) of
     None \<Rightarrow> False | Some r \<Rightarrow> open_proposal d run (pp_challenge p) r p) (proposals d))
   = (case catalogued d run c of None \<Rightarrow> [] | Some r \<Rightarrow> filter (open_proposal d run c r) (proposals d))"
proof (cases "catalogued d run c")
  case None
  then show ?thesis by (auto simp: filter_empty_conv)
next
  case (Some r)
  have row: "((case catalogued d run (pp_challenge p) of None \<Rightarrow> False | Some r \<Rightarrow> open_proposal d run (pp_challenge p) r p)
      \<and> pp_challenge p = c) = open_proposal d run c r p" for p
    using Some open_proposal_challenge [of d run c r p] by (cases "pp_challenge p = c") auto
  show ?thesis unfolding filter_filter row using Some by simp
qed

lemma pending_candidate_identity: "pending_candidate_count d run c = candidate_identity_count d run c"
  by (simp add: pending_candidate_count_def candidate_identity_count_def)

text \<open>The pending count of a run is the sum of the counts of the challenges it finds unverified.\<close>

lemma pending_counts_sum:
  "fst (candidate_counts d run) = (\<Sum>c \<leftarrow> unverified_challenges d run. pending_candidate_count d run c)"
proof -
  let ?rows = "filter (\<lambda>p. case catalogued d run (pp_challenge p) of
     None \<Rightarrow> False | Some r \<Rightarrow> open_proposal d run (pp_challenge p) r p) (proposals d)"
  have one: "length (remdups (map pp_key (filter (\<lambda>p. pp_challenge p = c) ?rows))) = pending_candidate_count d run c" for c
    unfolding pending_rows by (simp add: pending_candidate_count_def split: option.split)
  have "fst (candidate_counts d run) = (\<Sum>c \<in> pp_challenge ` set ?rows. pending_candidate_count d run c)"
    unfolding candidate_counts_def fst_conv length_remdups_pairs one ..
  also have "\<dots> = (\<Sum>c \<leftarrow> unverified_challenges d run. pending_candidate_count d run c)"
    unfolding unverified_challenges_def by (subst sum_list_distinct_conv_sum_set) simp_all
  finally show ?thesis .
qed

lemma unverified_iff: "c \<in> set (unverified_challenges d run) \<longleftrightarrow> 0 < pending_candidate_count d run c"
proof -
  have "c \<in> set (unverified_challenges d run) \<longleftrightarrow> filter (\<lambda>p. pp_challenge p = c) (filter (\<lambda>p. case catalogued d run (pp_challenge p) of
     None \<Rightarrow> False | Some r \<Rightarrow> open_proposal d run (pp_challenge p) r p) (proposals d)) \<noteq> []"
    by (auto simp: unverified_challenges_def filter_empty_conv)
  then show ?thesis unfolding pending_rows
    by (auto simp: pending_candidate_count_def split: option.split)
qed

section \<open>Rejected values\<close>

lemma take_within_bound:
  assumes "take_within sha used rows = Inr xs" "used \<le> MAX_PRIVATE_INCORRECT_CANDIDATE_BYTES"
  shows "used + sum_list (map length xs) \<le> MAX_PRIVATE_INCORRECT_CANDIDATE_BYTES
    \<and> length xs \<le> length rows \<and> xs = take (length xs) (map snd rows)"
  using assms
proof (induction sha used rows arbitrary: xs rule: take_within.induct)
  case (2 sha used key candidate rows)
  from 2(2) consider "xs = []"
    | ys where "take_within sha (used + length candidate) rows = Inr ys" "xs = candidate # ys" "candidate \<noteq> []" "sha candidate = key"
        "used + length candidate \<le> MAX_PRIVATE_INCORRECT_CANDIDATE_BYTES"
    by (auto split: if_split_asm elim!: bind_result_InrE)
  then show ?case
  proof cases
    case 2
    with "2.IH" [OF _ _ 2(1,5)] show ?thesis by simp
  qed (use 2(3) in simp)
qed simp

lemma take_within_total:
  assumes "\<forall>(key, x) \<in> set rows. x \<noteq> [] \<and> sha x = key"
  shows "\<exists>xs. take_within sha used rows = Inr xs"
  using assms
proof (induction sha used rows rule: take_within.induct)
  case (2 sha used key candidate rows)
  then show ?case by (cases "MAX_PRIVATE_INCORRECT_CANDIDATE_BYTES < used + length candidate") auto
qed simp

lemma incorrect_rows_elem:
  assumes "(key, x) \<in> set (incorrect_rows d run c)"
  obtains p i where "p \<in> set (proposals d)" "pp_key p = key" "pp_candidate p = x" "pp_run p = run" "pp_challenge p = c"
    "i \<in> set (intents d)" "it_run i = run" "it_challenge i = c" "it_sha i = key" "it_status i = ''incorrect''"
proof (cases "catalogued d run c")
  case None
  with assms show ?thesis by (simp add: incorrect_rows_def)
next
  case (Some r)
  let ?ps = "filter (\<lambda>p. pp_run p = run \<and> pp_challenge p = c \<and> ct_episode r \<le> pp_episode p
     \<and> list_ex (\<lambda>i. it_run i = run \<and> it_challenge i = c \<and> it_sha i = pp_key p \<and> it_status i = ''incorrect''
          \<and> intent_in_context r i) (intents d)) (proposals d)"
  from assms Some have "(key, x) \<in> set (take MAX_PRIVATE_INCORRECT_CANDIDATES (sort (remdups (map (\<lambda>p. (pp_key p, pp_candidate p)) ?ps))))"
    by (simp add: incorrect_rows_def)
  then have "(key, x) \<in> set (sort (remdups (map (\<lambda>p. (pp_key p, pp_candidate p)) ?ps)))" by (rule in_set_takeD)
  then obtain p where "p \<in> set ?ps" "key = pp_key p" "x = pp_candidate p" by auto
  with that show ?thesis by (auto simp: list_ex_iff)
qed

lemma incorrect_rows_sound:
  assumes "vault_sound sha d" "(key, x) \<in> set (incorrect_rows d run c)"
  shows "x \<noteq> [] \<and> sha x = key"
  using assms(2)
proof (rule incorrect_rows_elem)
  fix p assume "p \<in> set (proposals d)" "pp_key p = key" "pp_candidate p = x"
  with assms(1) show ?thesis by (auto simp: vault_sound_def proposal_sound_def)
qed

lemma rejected_values_bounded:
  assumes "vault_sound sha d" "run \<noteq> []" "0 < c"
  obtains xs where "private_incorrect_candidate_bytes sha d run c = Inr xs" "length xs \<le> 64"
    "sum_list (map length xs) \<le> 65536"
    "\<forall>x \<in> set xs. \<exists>p \<in> set (proposals d). pp_run p = run \<and> pp_challenge p = c \<and> pp_candidate p = x
      \<and> (\<exists>i \<in> set (intents d). it_run i = run \<and> it_challenge i = c \<and> it_sha i = sha x \<and> it_status i = ''incorrect'')"
proof -
  have "\<forall>(key, x) \<in> set (incorrect_rows d run c). x \<noteq> [] \<and> sha x = key"
    using incorrect_rows_sound [OF assms(1)] by blast
  from take_within_total [OF this] obtain xs where xs: "take_within sha 0 (incorrect_rows d run c) = Inr xs" by blast
  note bound = take_within_bound [OF xs]
  have "length (incorrect_rows d run c) \<le> 64"
    by (simp add: incorrect_rows_def MAX_PRIVATE_INCORRECT_CANDIDATES_def split: option.split)
  moreover have "\<exists>p \<in> set (proposals d). pp_run p = run \<and> pp_challenge p = c \<and> pp_candidate p = x
      \<and> (\<exists>i \<in> set (intents d). it_run i = run \<and> it_challenge i = c \<and> it_sha i = sha x \<and> it_status i = ''incorrect'')"
    if "x \<in> set xs" for x
  proof -
    from that bound have "x \<in> set (map snd (incorrect_rows d run c))" by (metis in_set_takeD le0)
    then obtain key where k: "(key, x) \<in> set (incorrect_rows d run c)" by auto
    then have "sha x = key" using incorrect_rows_sound [OF assms(1)] by blast
    then show ?thesis using incorrect_rows_elem [OF k] by metis
  qed
  ultimately show ?thesis
    using that [of xs] xs bound assms(2,3)
    by (auto simp: private_incorrect_candidate_bytes_def MAX_PRIVATE_INCORRECT_CANDIDATE_BYTES_def)
qed

end
