(* ===== verification/Evidence_Attest.thy ===== *)
theory Evidence_Attest
  imports Evidence_Commit Evidence_Carry Candidate_Vault
begin

text \<open>
  What a proof in the table of candidate proofs rests on: the manifest it names is complete and loads with
  every check, one of its observations is a source-bound success that holds the hash of the candidate, and
  none was made with the candidate supplied. The invariant of the proofs, and its preservation by the
  operations of the evidence store (\<open>src/rapido/evidence.py\<close>).
\<close>

section \<open>What a proof rests on\<close>

definition row_payload :: "object_row \<Rightarrow> (string \<times> pyval) list" where
  "row_payload row = (case eo_payload row of Canonical v \<Rightarrow> dict_items (canonical_value v) | Opaque s \<Rightarrow> [])"

definition payload_observes :: "string \<Rightarrow> (string \<times> pyval) list \<Rightarrow> bool" where
  "payload_observes h kvs \<longleftrightarrow> dict_get kvs ''success'' = PBool True \<and> dict_get kvs ''source_bound'' = PBool True
     \<and> in_list h (dict_get kvs ''candidate_sha256s'')"

definition payload_supplies :: "string \<Rightarrow> (string \<times> pyval) list \<Rightarrow> bool" where
  "payload_supplies h kvs = in_list h (dict_get kvs ''supplied_candidate_sha256s'')"

text \<open>An object that a manifest lists has a property.\<close>

definition listed :: "db \<Rightarrow> string \<Rightarrow> string \<Rightarrow> ((string \<times> pyval) list \<Rightarrow> bool) \<Rightarrow> bool" where
  "listed d run dg P = list_ex (\<lambda>i. ei_run i = run \<and> ei_manifest i = dg
     \<and> (case object_of d run (ei_object i) of None \<Rightarrow> False | Some row \<Rightarrow> P (row_payload row))) (evidence_items d)"

text \<open>Every object that a manifest lists is stored and has a property.\<close>

definition listed_all :: "db \<Rightarrow> string \<Rightarrow> string \<Rightarrow> ((string \<times> pyval) list \<Rightarrow> bool) \<Rightarrow> bool" where
  "listed_all d run dg P = list_all (\<lambda>i. ei_run i = run \<and> ei_manifest i = dg
     \<longrightarrow> (case object_of d run (ei_object i) of None \<Rightarrow> False | Some row \<Rightarrow> P (row_payload row))) (evidence_items d)"

text \<open>The manifest of a proof is complete, one of its observations is a source-bound success that holds the
  candidate, and in none the candidate had been supplied.\<close>

definition attested :: "db \<Rightarrow> proof_row \<Rightarrow> bool" where
  "attested d f \<longleftrightarrow> list_ex (complete_manifest f) (manifest_rows d)
     \<and> listed d (pf_run f) (pf_manifest f) (payload_observes (pf_key f))
     \<and> listed_all d (pf_run f) (pf_manifest f) (\<lambda>p. \<not> payload_supplies (pf_key f) p)"

definition proofs_sound :: "db \<Rightarrow> bool" where
  "proofs_sound d \<longleftrightarrow> (\<forall>m \<in> set (manifest_rows d). mf_complete m \<longrightarrow> mf_gap m = None \<and> mf_omitted m = 0)
     \<and> (\<forall>f \<in> set (proofs d). attested d f)"

lemma verify_payload:
  assumes "verify_object_row lib row = Inr decoded"
  shows "decoded = row_payload row"
proof -
  have "verify_canonical (lib_sha lib) (eo_payload row) OBJECT_DOMAIN (eo_digest row) = Inr decoded"
    using assms by (auto simp: verify_object_row_def tamper_def split: if_split_asm elim!: bind_result_InrE)
  then show ?thesis
    by (auto simp: verify_canonical_def row_payload_def tamper_def dict_items_def split: blob.split_asm if_split_asm pyval.split_asm)
qed

lemma item_observes_payload: "item_observes h = (\<lambda>x. payload_observes h (iv_payload x))"
  "item_supplies h = (\<lambda>x. payload_supplies h (iv_payload x))"
  by (intro ext, simp add: item_observes_def payload_observes_def item_supplies_def payload_supplies_def)+

lemma load_item_row:
  assumes "load_item lib run d (ordinal, dg) = Inr x"
  shows "\<exists>row. object_of d run dg = Some row \<and> iv_payload x = row_payload row"
  using assms verify_payload by (auto simp: load_item_def tamper_def split: option.split_asm elim!: bind_result_InrE)

lemma loaded_payloads:
  assumes "traverse (load_item lib run d) ps = Inr items"
  shows "list_ex (\<lambda>x. P (iv_payload x)) items
      = list_ex (\<lambda>p. case object_of d run (snd p) of None \<Rightarrow> False | Some r \<Rightarrow> P (row_payload r)) ps"
    "list_all (\<lambda>x. P (iv_payload x)) items
      = list_all (\<lambda>p. case object_of d run (snd p) of None \<Rightarrow> False | Some r \<Rightarrow> P (row_payload r)) ps"
  using assms
proof (induction ps arbitrary: items)
  case (Cons p ps)
  case 1
  from this(1) obtain x xs where x: "load_item lib run d p = Inr x" "traverse (load_item lib run d) ps = Inr xs" "items = x # xs"
    by (auto simp only: traverse_Cons_Inr_iff)
  obtain row where "object_of d run (snd p) = Some row" "iv_payload x = row_payload row"
    using load_item_row [of lib run d "fst p" "snd p" x] x(1) by auto
  with Cons.IH(1) [OF x(2)] x(3) show ?case by simp
next
  case (Cons p ps)
  case 2
  from this(1) obtain x xs where x: "load_item lib run d p = Inr x" "traverse (load_item lib run d) ps = Inr xs" "items = x # xs"
    by (auto simp only: traverse_Cons_Inr_iff)
  obtain row where "object_of d run (snd p) = Some row" "iv_payload x = row_payload row"
    using load_item_row [of lib run d "fst p" "snd p" x] x(1) by auto
  with Cons.IH(2) [OF x(2)] x(3) show ?case by simp
qed simp_all

text \<open>The items of a loaded manifest are the objects that its rows list.\<close>

lemma loaded_items:
  assumes "load_manifest lib run i d = Inr m"
  shows "list_ex (\<lambda>x. P (iv_payload x)) (mv_items m) = listed d run (mv_digest m) P"
    "list_all (\<lambda>x. P (iv_payload x)) (mv_items m) = listed_all d run (mv_digest m) P"
proof -
  obtain row doc items where rows: "item_rows d run (mf_digest row) = declared_items doc"
    and items: "traverse (load_item lib run d) (declared_items doc) = Inr items" and m: "m = manifest_view_of run i row doc items"
    using assms by (auto simp: load_manifest_def tamper_def split: option.split_asm if_split_asm elim!: bind_result_InrE)
  have "list_ex (\<lambda>p. case object_of d run (snd p) of None \<Rightarrow> False | Some r \<Rightarrow> P (row_payload r)) (declared_items doc)
      = listed d run (mf_digest row) P"
    "list_all (\<lambda>p. case object_of d run (snd p) of None \<Rightarrow> False | Some r \<Rightarrow> P (row_payload r)) (declared_items doc)
      = listed_all d run (mf_digest row) P"
    unfolding rows [symmetric] by (auto simp: item_rows_def listed_def listed_all_def list_ex_iff list_all_iff)
  with loaded_payloads [OF items, of P] show "list_ex (\<lambda>x. P (iv_payload x)) (mv_items m) = listed d run (mv_digest m) P"
    "list_all (\<lambda>x. P (iv_payload x)) (mv_items m) = listed_all d run (mv_digest m) P"
    by (simp_all add: m manifest_view_of_def)
qed

section \<open>Attestation\<close>

lemma memory_source_fields:
  assumes "memory_source_of lib run l i (Some h) d = Inr s"
  shows "\<exists>m. load_manifest lib run i d = Inr m \<and> ms_complete s = mv_complete m \<and> ms_gap s = mv_gap m
    \<and> ms_observed s = list_ex (item_observes h) (mv_items m) \<and> ms_supplied s = list_ex (item_supplies h) (mv_items m)"
    "hex_lower 64 64 h"
  using assms by (auto simp: memory_source_of_def split: if_split_asm elim!: bind_result_InrE)

lemma attest_effect:
  assumes "attest_candidate_with_reason lib now run l i h require_fixed d = (Inr (Inl s), d')"
  obtains m a where "load_manifest lib run i d = Inr m" "attempt_in_run run i d = Inr a" "mv_complete m" "mv_gap m = None"
    "list_ex (item_observes h) (mv_items m)" "\<not> list_ex (item_supplies h) (mv_items m)"
    "require_fixed \<longrightarrow> list_ex (\<lambda>x. iv_tool x \<noteq> ''run_shell'' \<and> item_observes h x) (mv_items m)"
    "attest_body \<lparr>pf_attempt = i, pf_run = run, pf_challenge = at_challenge a, pf_key = h, pf_manifest = mv_digest m, pf_at = now 0\<rparr> d
     = Inr ((), d')" "hex_lower 64 64 h"
proof -
  obtain s' m where s': "memory_source_of lib run l i (Some h) d = Inr s'" and m: "load_manifest lib run i d = Inr m"
    and rest: "(case rejection_of require_fixed h s' m of
             Some r \<Rightarrow> (Inr (Inr r), d)
           | None \<Rightarrow>
               (case attempt_in_run run i d of
                  Inl e \<Rightarrow> (Inl e, d)
                | Inr a \<Rightarrow>
                    (case transaction (attest_body \<lparr>pf_attempt = i, pf_run = run, pf_challenge = at_challenge a, pf_key = h,
                        pf_manifest = mv_digest m, pf_at = now 0\<rparr>) d of
                       (Inl e, d') \<Rightarrow> (Inl e, d')
                     | (Inr _, d') \<Rightarrow> (Inr (Inl s'), d')))) = (Inr (Inl s), d')"
    using assms unfolding attest_candidate_with_reason_def
    by (auto split: sum.split_asm elim!: bind_result_InrE)
  obtain m' where m': "load_manifest lib run i d = Inr m'" "ms_complete s' = mv_complete m'" "ms_gap s' = mv_gap m'"
    "ms_observed s' = list_ex (item_observes h) (mv_items m')" "ms_supplied s' = list_ex (item_supplies h) (mv_items m')"
    using memory_source_fields [OF s'] by (elim exE conjE)
  have same: "m' = m" using m m'(1) by simp
  have none: "rejection_of require_fixed h s' m = None" using rest by (cases "rejection_of require_fixed h s' m") simp_all
  obtain a where a: "attempt_in_run run i d = Inr a" using rest none by (cases "attempt_in_run run i d") simp_all
  have body: "attest_body \<lparr>pf_attempt = i, pf_run = run, pf_challenge = at_challenge a, pf_key = h, pf_manifest = mv_digest m, pf_at = now 0\<rparr> d
     = Inr ((), d')"
    using rest none a by (auto simp: transaction_def split: sum.split_asm)
  show thesis
    by (rule that [OF m a _ _ _ _ _ body memory_source_fields(2) [OF s']])
      (use none m' same in \<open>auto simp: rejection_of_def split: if_split_asm\<close>)
qed

lemma listed_proofs [simp]: "listed (d\<lparr>proofs := ps\<rparr>) run dg P = listed d run dg P"
  "listed_all (d\<lparr>proofs := ps\<rparr>) run dg P = listed_all d run dg P"
  by (simp_all add: listed_def listed_all_def object_of_def)

lemma manifest_rows_proofs [simp]: "manifest_rows (d\<lparr>proofs := ps\<rparr>) = manifest_rows d"
  by (simp add: manifest_rows_def)

lemma attested_proofs [simp]: "attested (d\<lparr>proofs := ps\<rparr>) f = attested d f"
  by (simp add: attested_def)

lemma attested_at: "attested d (f\<lparr>pf_at := t\<rparr>) = attested d f"
proof -
  have "complete_manifest (f\<lparr>pf_at := t\<rparr>) = complete_manifest f" by (intro ext) (simp add: complete_manifest_def)
  then show ?thesis by (simp add: attested_def)
qed

lemma loaded_attested:
  assumes "load_manifest lib run i d = Inr m" "mv_complete m" "mv_gap m = None" "list_ex (item_observes h) (mv_items m)"
    "\<not> list_ex (item_supplies h) (mv_items m)" "proofs_sound d"
  shows "attested d \<lparr>pf_attempt = i, pf_run = run, pf_challenge = c, pf_key = h, pf_manifest = mv_digest m, pf_at = t\<rparr>"
proof -
  obtain row where row: "manifest_of d run i = Some row" "mv_complete m = mf_complete row" "mv_gap m = mf_gap row" "mv_digest m = mf_digest row"
    using load_manifest_row(4) [OF assms(1)] by (elim exE conjE)
  have r: "row \<in> set (manifest_rows d)" "mf_run row = run" "mf_attempt row = i"
    using first_row_Some [OF row(1) [unfolded manifest_of_def]] by simp_all
  then have "mf_omitted row = 0" using assms(2,6) row(2) by (simp add: proofs_sound_def)
  then have "list_ex (complete_manifest \<lparr>pf_attempt = i, pf_run = run, pf_challenge = c, pf_key = h, pf_manifest = mv_digest m, pf_at = t\<rparr>)
      (manifest_rows d)"
    unfolding list_ex_iff using r row(2-4) assms(2,3) by (intro bexI [of _ row]) (simp_all add: complete_manifest_def)
  moreover have "listed d run (mv_digest m) (payload_observes h)"
    using loaded_items(1) [OF assms(1), of "payload_observes h"] assms(4) by (simp add: item_observes_payload(1))
  moreover have "listed_all d run (mv_digest m) (\<lambda>p. \<not> payload_supplies h p)"
    using loaded_items(2) [OF assms(1), of "\<lambda>p. \<not> payload_supplies h p"] assms(5)
    by (simp add: item_observes_payload(2) list_ex_iff list_all_iff)
  ultimately show ?thesis by (simp add: attested_def)
qed


lemma attest_body_cases:
  assumes "attest_body f d = Inr ((), d')"
  obtains (kept) p where "p \<in> set (proofs d)" "p\<lparr>pf_at := pf_at f\<rparr> = f" "d' = d"
    | (added) "\<forall>p \<in> set (proofs d). pf_attempt p \<noteq> pf_attempt f" "d' = d\<lparr>proofs := proofs d @ [f]\<rparr>"
      "list_ex (\<lambda>a. at_id a = pf_attempt f \<and> at_run a = pf_run f \<and> at_challenge a = pf_challenge f \<and> at_status a = ''running'') (attempts d)"
proof (cases "first_row (\<lambda>p. pf_attempt p = pf_attempt f) (proofs d)")
  case None
  with assms show thesis
    by (intro added) (auto simp: attest_body_def insert_proof_def first_row_None ensure_def foreign_key_def elim!: bind_result_InrE split: if_split_asm)
next
  case (Some p)
  with assms first_row_Some [OF Some] show thesis by (intro kept [of p]) (auto simp: attest_body_def split: if_split_asm)
qed

lemma proofs_sound_added:
  assumes "proofs_sound d" "attested d f"
  shows "proofs_sound (d\<lparr>proofs := proofs d @ [f]\<rparr>)"
  using assms by (auto simp: proofs_sound_def)

text \<open>C8. A candidate is attested only on evidence: when the host attests a candidate hash, the committed manifest of the attempt
  loads with every check, is complete and without a gap, one of its source-bound successful observations holds the hash
  (one outside the shell, where the caller asks for it), and in none of them the hash had been supplied to the tool. The
  proof is then in the store, once; and every proof in the store stays backed by such a manifest.\<close>

theorem attestation_needs_evidence:
  assumes "attest_candidate_with_reason lib now run l i h require_fixed d = (Inr (Inl s), d')"
  shows "(\<exists>m. load_manifest lib run i d = Inr m \<and> mv_complete m \<and> mv_gap m = None
      \<and> (\<exists>x \<in> set (mv_items m). item_observes h x \<and> (require_fixed \<longrightarrow> iv_tool x \<noteq> ''run_shell''))
      \<and> (\<forall>x \<in> set (mv_items m). \<not> item_supplies h x)
      \<and> (\<exists>f \<in> set (proofs d'). pf_attempt f = i \<and> pf_run f = run \<and> pf_key f = h \<and> pf_manifest f = mv_digest m
           \<and> (d' = d \<or> (\<forall>p \<in> set (proofs d). pf_attempt p \<noteq> i) \<and> d' = d\<lparr>proofs := proofs d @ [f]\<rparr>)))
      \<and> (proofs_sound d \<longrightarrow> proofs_sound d')"
proof -
  obtain m and a :: attempt_row where m: "load_manifest lib run i d = Inr m" "mv_complete m" "mv_gap m = None"
    "list_ex (item_observes h) (mv_items m)" "\<not> list_ex (item_supplies h) (mv_items m)"
    "require_fixed \<longrightarrow> list_ex (\<lambda>x. iv_tool x \<noteq> ''run_shell'' \<and> item_observes h x) (mv_items m)"
    and body: "attest_body \<lparr>pf_attempt = i, pf_run = run, pf_challenge = at_challenge a, pf_key = h, pf_manifest = mv_digest m, pf_at = now 0\<rparr> d
     = Inr ((), d')"
    by (rule attest_effect [OF assms]) (rule that; assumption)
  let ?f = "\<lparr>pf_attempt = i, pf_run = run, pf_challenge = at_challenge a, pf_key = h, pf_manifest = mv_digest m, pf_at = now 0\<rparr>"
  have proof_kept: "\<exists>f \<in> set (proofs d'). pf_attempt f = i \<and> pf_run f = run \<and> pf_key f = h \<and> pf_manifest f = mv_digest m
           \<and> (d' = d \<or> (\<forall>p \<in> set (proofs d). pf_attempt p \<noteq> i) \<and> d' = d\<lparr>proofs := proofs d @ [f]\<rparr>)"
    using body
  proof (cases rule: attest_body_cases)
    case (kept p)
    have "pf_attempt p = i" "pf_run p = run" "pf_key p = h" "pf_manifest p = mv_digest m"
      using arg_cong [OF kept(2), of pf_attempt] arg_cong [OF kept(2), of pf_run] arg_cong [OF kept(2), of pf_key]
        arg_cong [OF kept(2), of pf_manifest] by simp_all
    with kept(1,3) show ?thesis by (intro bexI [of _ p]) simp_all
  next
    case added
    then show ?thesis by (intro bexI [of _ ?f]) simp_all
  qed
  have "\<exists>x \<in> set (mv_items m). item_observes h x \<and> (require_fixed \<longrightarrow> iv_tool x \<noteq> ''run_shell'')"
    using m(4,6) by (cases require_fixed) (auto simp: list_ex_iff)
  moreover have "\<forall>x \<in> set (mv_items m). \<not> item_supplies h x" using m(5) by (auto simp: list_ex_iff)
  ultimately have "\<exists>m. load_manifest lib run i d = Inr m \<and> mv_complete m \<and> mv_gap m = None
      \<and> (\<exists>x \<in> set (mv_items m). item_observes h x \<and> (require_fixed \<longrightarrow> iv_tool x \<noteq> ''run_shell''))
      \<and> (\<forall>x \<in> set (mv_items m). \<not> item_supplies h x)
      \<and> (\<exists>f \<in> set (proofs d'). pf_attempt f = i \<and> pf_run f = run \<and> pf_key f = h \<and> pf_manifest f = mv_digest m
           \<and> (d' = d \<or> (\<forall>p \<in> set (proofs d). pf_attempt p \<noteq> i) \<and> d' = d\<lparr>proofs := proofs d @ [f]\<rparr>))"
    using m(1-3) proof_kept by blast
  moreover have "proofs_sound d \<longrightarrow> proofs_sound d'"
    using body
  proof (cases rule: attest_body_cases)
    case added
    then show ?thesis using loaded_attested [OF m(1-5)] proofs_sound_added by blast
  qed simp
  ultimately show ?thesis by (rule conjI)
qed


section \<open>The evidence tables only grow\<close>

text \<open>Objects are appended, manifests are appended, and a new item belongs to no earlier manifest. A new
  manifest that says it is complete has no gap and no omission.\<close>

definition evidence_grows :: "db \<Rightarrow> db \<Rightarrow> bool" where
  "evidence_grows d d' \<longleftrightarrow> (\<exists>objs ms its. evidence_objects d' = evidence_objects d @ objs
     \<and> manifest_rows d' = manifest_rows d @ ms \<and> evidence_items d' = evidence_items d @ its
     \<and> (\<forall>i \<in> set its. \<forall>m \<in> set (manifest_rows d). \<not> (mf_run m = ei_run i \<and> mf_digest m = ei_manifest i))
     \<and> (\<forall>m \<in> set ms. mf_complete m \<longrightarrow> mf_gap m = None \<and> mf_omitted m = 0))"

definition same_evidence :: "db \<Rightarrow> db \<Rightarrow> bool" where
  "same_evidence d d' \<longleftrightarrow> evidence_objects d' = evidence_objects d \<and> manifest_rows d' = manifest_rows d
     \<and> evidence_items d' = evidence_items d"

lemma same_evidence_grows: "same_evidence d d' \<Longrightarrow> evidence_grows d d'"
  by (simp add: same_evidence_def evidence_grows_def)

lemma evidence_growsI:
  assumes "evidence_objects d' = evidence_objects d @ objs" "manifest_rows d' = manifest_rows d @ ms"
    "evidence_items d' = evidence_items d @ its"
    "\<And>i m. i \<in> set its \<Longrightarrow> m \<in> set (manifest_rows d) \<Longrightarrow> \<not> (mf_run m = ei_run i \<and> mf_digest m = ei_manifest i)"
    "\<And>m. m \<in> set ms \<Longrightarrow> mf_complete m \<Longrightarrow> mf_gap m = None \<and> mf_omitted m = 0"
  shows "evidence_grows d d'"
  unfolding evidence_grows_def using assms by blast

lemma grown_object: "evidence_grows d d' \<Longrightarrow> object_of d run dg = Some row \<Longrightarrow> object_of d' run dg = Some row"
  by (auto simp: evidence_grows_def object_of_def first_row_append)

text \<open>What backs a proof is never taken away, and nothing is added to it.\<close>

lemma attested_grows:
  assumes "evidence_grows d d'" "attested d f"
  shows "attested d' f"
proof -
  obtain objs ms its where g: "manifest_rows d' = manifest_rows d @ ms" "evidence_items d' = evidence_items d @ its"
    "\<forall>i \<in> set its. \<forall>m \<in> set (manifest_rows d). \<not> (mf_run m = ei_run i \<and> mf_digest m = ei_manifest i)"
    using assms(1) by (auto simp: evidence_grows_def)
  obtain m where m: "m \<in> set (manifest_rows d)" "complete_manifest f m" using assms(2) by (auto simp: attested_def list_ex_iff)
  have new: "\<not> (ei_run i = pf_run f \<and> ei_manifest i = pf_manifest f)" if "i \<in> set its" for i
    using bspec [OF bspec [OF g(3) that] m(1)] m(2) by (auto simp: complete_manifest_def)
  have "list_ex (complete_manifest f) (manifest_rows d')" using m g(1) by (auto simp: list_ex_iff)
  moreover have "listed d' (pf_run f) (pf_manifest f) (payload_observes (pf_key f))"
  proof -
    obtain i row where "i \<in> set (evidence_items d)" "ei_run i = pf_run f" "ei_manifest i = pf_manifest f"
      "object_of d (pf_run f) (ei_object i) = Some row" "payload_observes (pf_key f) (row_payload row)"
      using assms(2) by (auto simp: attested_def listed_def list_ex_iff split: option.split_asm)
    with grown_object [OF assms(1)] show ?thesis
      unfolding listed_def list_ex_iff g(2) by (intro bexI [of _ i]) auto
  qed
  moreover have "listed_all d' (pf_run f) (pf_manifest f) (\<lambda>p. \<not> payload_supplies (pf_key f) p)"
    unfolding listed_all_def list_all_iff g(2)
  proof (intro ballI impI)
    fix i assume i: "i \<in> set (evidence_items d @ its)" "ei_run i = pf_run f \<and> ei_manifest i = pf_manifest f"
    then have "i \<in> set (evidence_items d)" using new by auto
    with i(2) assms(2) obtain row where "object_of d (pf_run f) (ei_object i) = Some row" "\<not> payload_supplies (pf_key f) (row_payload row)"
      by (auto simp: attested_def listed_all_def list_all_iff split: option.split_asm)
    with grown_object [OF assms(1)] show "case object_of d' (pf_run f) (ei_object i) of None \<Rightarrow> False
        | Some row \<Rightarrow> \<not> payload_supplies (pf_key f) (row_payload row)" by simp
  qed
  ultimately show ?thesis by (simp add: attested_def)
qed

lemma proofs_sound_grows:
  assumes "evidence_grows d d'" "proofs d' = proofs d" "proofs_sound d"
  shows "proofs_sound d'"
  using assms attested_grows [OF assms(1)]
  by (auto simp: proofs_sound_def evidence_grows_def)

section \<open>Commits\<close>

lemma store_object_effect:
  assumes "store_object lib now run x d = Inr (u, d')"
  shows "\<exists>objs. d' = d\<lparr>evidence_objects := evidence_objects d @ objs\<rparr>"
proof (cases "object_of d run (ao_digest x)")
  case None
  with assms show ?thesis by (auto simp: store_object_def elim!: bind_result_InrE)
next
  case (Some row)
  with assms have "d' = d\<lparr>evidence_objects := evidence_objects d @ []\<rparr>"
    by (auto simp: store_object_def tamper_def split: if_split_asm elim!: bind_result_InrE)
  then show ?thesis by blast
qed

lemma store_objects_effect:
  "tx_each (store_object lib now run) os d = Inr (u, d') \<Longrightarrow> \<exists>objs. d' = d\<lparr>evidence_objects := evidence_objects d @ objs\<rparr>"
proof (induction os arbitrary: d)
  case Nil
  then have "d' = d\<lparr>evidence_objects := evidence_objects d @ []\<rparr>" by (simp add: tx_return_Inr)
  then show ?case by blast
next
  case (Cons x os)
  then obtain v d1 where 1: "store_object lib now run x d = Inr (v, d1)" "tx_each (store_object lib now run) os d1 = Inr (u, d')"
    by (auto elim!: tx_bind_InrE)
  obtain objs where d1: "d1 = d\<lparr>evidence_objects := evidence_objects d @ objs\<rparr>" using store_object_effect [OF 1(1)] by blast
  obtain objs' where "d' = d1\<lparr>evidence_objects := evidence_objects d1 @ objs'\<rparr>" using Cons.IH [OF 1(2)] by blast
  then have "d' = d\<lparr>evidence_objects := evidence_objects d @ (objs @ objs')\<rparr>" by (simp add: d1)
  then show ?case by blast
qed

lemma insert_items_effect:
  "tx_each (insert_item run dg) os d = Inr (u, d')
     \<Longrightarrow> d' = d\<lparr>evidence_items := evidence_items d @ map (item_row_for run dg) os\<rparr>"
proof (induction os arbitrary: d)
  case (Cons x os)
  then obtain v d1 where 1: "insert_item run dg x d = Inr (v, d1)" "tx_each (insert_item run dg) os d1 = Inr (u, d')"
    by (auto elim!: tx_bind_InrE)
  have d1: "d1 = d\<lparr>evidence_items := evidence_items d @ [item_row_for run dg x]\<rparr>"
    using 1(1) by (auto simp: insert_item_def item_row_for_def elim!: bind_result_InrE)
  show ?case using Cons.IH [OF 1(2)] by (simp add: d1)
qed (simp add: tx_return_Inr)

lemma insert_manifest_effect:
  assumes "insert_manifest m d = Inr (u, d')"
  shows "d' = d\<lparr>manifests := Some (manifest_rows d @ [m])\<rparr>"
    "\<forall>n \<in> set (manifest_rows d). \<not> (mf_run n = mf_run m \<and> (mf_attempt n = mf_attempt m \<or> mf_digest n = mf_digest m))"
  using assms by (auto simp: insert_manifest_def list_all_iff elim!: bind_result_InrE)

definition evidence_frame :: "db \<Rightarrow> db \<Rightarrow> bool" where
  "evidence_frame d d' \<longleftrightarrow> (\<exists>objs ms its. d' = d\<lparr>evidence_objects := objs, manifests := ms, evidence_items := its\<rparr>)"

lemma evidence_frame_refl: "evidence_frame d d \<and> evidence_grows d d"
proof
  have "d = d\<lparr>evidence_objects := evidence_objects d, manifests := manifests d, evidence_items := evidence_items d\<rparr>" by simp
  then show "evidence_frame d d" unfolding evidence_frame_def by blast
  show "evidence_grows d d" by (rule same_evidence_grows) (simp add: same_evidence_def)
qed

text \<open>A commit writes only the three tables, and what it writes belongs to its own manifest.\<close>

lemma commit_body_effect:
  assumes "commit_body lib now run a os m d = Inr (u, d')" "mf_run m = run" "mf_complete m \<longrightarrow> mf_gap m = None \<and> mf_omitted m = 0"
  shows "evidence_frame d d' \<and> evidence_grows d d'"
proof -
  consider "d' = d"
    | d1 d2 where "tx_each (store_object lib now run) os d = Inr ((), d1)"
      "insert_manifest m d1 = Inr ((), d2)" "tx_each (insert_item run (mf_digest m)) os d2 = Inr ((), d')"
    using assms(1) by (auto simp: commit_body_def split: option.split_asm if_split_asm elim!: tx_bind_InrE)
  then show ?thesis
  proof cases
    case 1
    then show ?thesis using evidence_frame_refl by simp
  next
    case 2
    obtain objs where d1: "d1 = d\<lparr>evidence_objects := evidence_objects d @ objs\<rparr>" using store_objects_effect [OF 2(1)] by blast
    note d2 = insert_manifest_effect [OF 2(2)]
    have d': "d' = d\<lparr>evidence_objects := evidence_objects d @ objs, manifests := Some (manifest_rows d @ [m]),
        evidence_items := evidence_items d @ map (item_row_for run (mf_digest m)) os\<rparr>"
      using insert_items_effect [OF 2(3)] by (simp add: d1 d2(1))
    have new: "\<not> (mf_run n = mf_run m \<and> mf_digest n = mf_digest m)" if "n \<in> set (manifest_rows d)" for n
      using bspec [OF d2(2), of n] that by (simp add: d1)
    have "evidence_grows d d'"
      by (rule evidence_growsI [of d' d objs "[m]" "map (item_row_for run (mf_digest m)) os"])
        (use new assms(2,3) in \<open>auto simp: d' item_row_for_def\<close>)
    moreover have "evidence_frame d d'" unfolding evidence_frame_def using d' by blast
    ultimately show ?thesis by simp
  qed
qed

lemma batch_manifest_complete:
  assumes "construct_batch b = Inr b" "mf_complete (batch_manifest lib now run l a b)"
  shows "mf_gap (batch_manifest lib now run l a b) = None \<and> mf_omitted (batch_manifest lib now run l a b) = 0"
  using assms by (auto simp: batch_manifest_def manifest_row_for_def construct_batch_def Let_def split: prod.split_asm if_split_asm)

lemma commit_frame:
  assumes "commit lib now run l i b d = (r, d')" "construct_batch b = Inr b"
  shows "evidence_frame d d' \<and> evidence_grows d d'"
proof -
  consider "d' = d"
    | a u where "commit_body lib now run a (fst (admit lib l 0 0 (ba_observations b))) (batch_manifest lib now run l a b) d = Inr (u, d')"
  proof (cases "bind_result (verify_run (lib_sha lib) run l d) (\<lambda>_. attempt_in_run run i d)")
    case (Inl e)
    with assms(1) show ?thesis by (intro that(1)) (simp add: commit_def)
  next
    case (Inr a)
    let ?body = "commit_body lib now run a (fst (admit lib l 0 0 (ba_observations b))) (batch_manifest lib now run l a b) d"
    show ?thesis
    proof (cases ?body)
      case (Inl e)
      with assms(1) Inr show ?thesis by (intro that(1)) (simp add: commit_def transaction_def)
    next
      case (Inr x)
      have "d' = snd x" using assms(1) unfolding commit_def \<open>bind_result _ _ = Inr a\<close> by (cases x) (simp add: transaction_def Inr)
      with Inr show ?thesis by (intro that(2) [of a "()"]) (cases x, simp)
    qed
  qed
  then show ?thesis
  proof cases
    case 1
    then show ?thesis using evidence_frame_refl by simp
  next
    case 2
    have "mf_run (batch_manifest lib now run l a b) = run"
      by (simp add: batch_manifest_def manifest_row_for_def Let_def split: prod.split)
    then show ?thesis using commit_body_effect [OF 2] batch_manifest_complete [OF assms(2), of lib now run l a] by blast
  qed
qed


section \<open>Sealing\<close>

text \<open>The manifest of a sealed attempt claims nothing.\<close>

definition seals :: "attempt_row \<Rightarrow> manifest_row \<Rightarrow> bool" where
  "seals a m \<longleftrightarrow> mf_run m = at_run a \<and> mf_attempt m = at_id a \<and> \<not> mf_complete m \<and> mf_gap m = Some (seal_gap a)
     \<and> mf_observations m = 0 \<and> mf_committed m = 0"

lemma seal_attempt_effect:
  assumes "seal_attempt sha stamp stamp' a d = Inr (u, d')"
  shows "\<exists>ers m. d' = d\<lparr>evidence_runs := ers, manifests := Some (manifest_rows d @ [m])\<rparr> \<and> seals a m"
proof -
  let ?m = "manifest_row_for sha stamp' (at_run a) a False False (Some (seal_gap a)) 0 [] \<lparr>om_attempt = 0, om_object = 0, om_observation = 0\<rparr>"
  obtain ers where "insert_manifest ?m (d\<lparr>evidence_runs := ers\<rparr>) = Inr (u, d')"
  proof (cases "run_row_of d (at_run a) = None")
    case True
    with assms show ?thesis by (intro that) (auto simp: seal_attempt_def Let_def elim!: bind_result_InrE)
  next
    case False
    with assms show ?thesis by (intro that [of "evidence_runs d"]) (auto simp: seal_attempt_def Let_def elim!: bind_result_InrE)
  qed
  from insert_manifest_effect(1) [OF this] have "d' = d\<lparr>evidence_runs := ers, manifests := Some (manifest_rows d @ [?m])\<rparr>"
    by (simp add: manifest_rows_def)
  moreover have "seals a ?m" by (simp add: seals_def manifest_row_for_def Let_def)
  ultimately show ?thesis by blast
qed

lemma seal_loop_effect:
  "tx_each (\<lambda>(k, a). seal_attempt sha (f k) (g k) a) ps d = Inr (u, d') \<Longrightarrow> manifests d = Some rows \<Longrightarrow>
     \<exists>ers ms. d' = d\<lparr>evidence_runs := ers, manifests := Some (rows @ ms)\<rparr> \<and> list_all2 seals (map snd ps) ms"
proof (induction ps arbitrary: d rows)
  case Nil
  then have "d' = d\<lparr>evidence_runs := evidence_runs d, manifests := Some (rows @ [])\<rparr>" by (simp add: tx_return_Inr)
  then show ?case by (intro exI [of _ "evidence_runs d"] exI [of _ "[]"]) simp
next
  case (Cons p ps)
  obtain k a where p: "p = (k, a)" by (cases p)
  obtain v d1 where 1: "seal_attempt sha (f k) (g k) a d = Inr (v, d1)"
    "tx_each (\<lambda>(k, a). seal_attempt sha (f k) (g k) a) ps d1 = Inr (u, d')"
    using Cons.prems(1) by (auto simp: p elim!: tx_bind_InrE)
  obtain ers m where d1: "d1 = d\<lparr>evidence_runs := ers, manifests := Some (rows @ [m])\<rparr>" "seals a m"
    using seal_attempt_effect [OF 1(1)] Cons.prems(2) by (auto simp: manifest_rows_def)
  have "manifests d1 = Some (rows @ [m])" by (simp add: d1(1))
  from Cons.IH [OF 1(2) this] obtain ers' ms where d': "d' = d1\<lparr>evidence_runs := ers', manifests := Some ((rows @ [m]) @ ms)\<rparr>"
    "list_all2 seals (map snd ps) ms"
    by (elim exE conjE)
  have "d' = d\<lparr>evidence_runs := ers', manifests := Some (rows @ (m # ms))\<rparr>" using d'(1) by (simp add: d1(1))
  then show ?case using d'(2) d1(2) p by (intro exI [of _ ers'] exI [of _ "m # ms"]) simp
qed

lemma seal_effect:
  assumes "seal_unavailable_attempt_evidence sha now d = (Inr n, d')"
  shows "\<exists>ers ms. d' = d\<lparr>evidence_runs := ers, manifests := Some (manifest_rows d @ ms)\<rparr>
    \<and> list_all2 seals (unsealed d) ms \<and> n = length (unsealed d)"
proof -
  have schema: "ensure_evidence_schema d = d\<lparr>manifests := Some (manifest_rows d)\<rparr>"
    by (simp add: ensure_evidence_schema_def)
  let ?d = "ensure_evidence_schema d"
  have rows: "manifests ?d = Some (manifest_rows d)" "manifest_rows ?d = manifest_rows d" by (simp_all add: schema)
  have u: "unsealed ?d = unsealed d" unfolding unsealed_def manifest_of_def rows(2) by (simp add: schema)
  obtain v where "tx_each (\<lambda>(k, a). seal_attempt sha (now (2 * k)) (now (2 * k + 1)) a) (zip [0..<length (unsealed d)] (unsealed d)) ?d = Inr (v, d')"
    and n: "n = length (unsealed d)"
    using assms by (auto simp: seal_unavailable_attempt_evidence_def transaction_def seal_body_def u Let_def tx_return_Inr
        split: sum.split_asm elim!: tx_bind_InrE)
  from seal_loop_effect [OF this(1) rows(1)] obtain ers ms where d': "d' = ?d\<lparr>evidence_runs := ers, manifests := Some (manifest_rows d @ ms)\<rparr>"
    "list_all2 seals (map snd (zip [0..<length (unsealed d)] (unsealed d))) ms"
    by (elim exE conjE)
  from d'(1) have "d' = d\<lparr>evidence_runs := ers, manifests := Some (manifest_rows d @ ms)\<rparr>" by (simp add: schema)
  then show ?thesis using d'(2) n by (intro exI [of _ ers] exI [of _ ms]) simp
qed

lemma unsealed_Nil: "unsealed d = [] \<longleftrightarrow> (\<forall>a \<in> set (attempts d). at_status a \<noteq> ''running'' \<longrightarrow> manifest_of d (at_run a) (at_id a) \<noteq> None)"
proof -
  have "set (unsealed d) = {a \<in> set (attempts d). at_status a \<noteq> ''running'' \<and> manifest_of d (at_run a) (at_id a) = None}"
    by (auto simp: unsealed_def)
  moreover have "unsealed d = [] \<longleftrightarrow> set (unsealed d) = {}" by simp
  ultimately show ?thesis by auto
qed

text \<open>Sealing closes every gap of the evidence and invents nothing: afterwards every attempt that has ended has a manifest, those
  that had none got one that says it is incomplete and lists no observation, earlier manifests and all other tables but the
  opened runs are as they were, and sealing again does nothing.\<close>

theorem sealing_invents_nothing:
  assumes "seal_unavailable_attempt_evidence sha now d = (Inr n, d')"
  shows "(\<forall>a \<in> set (attempts d'). at_status a \<noteq> ''running'' \<longrightarrow> (\<exists>m \<in> set (manifest_rows d'). mf_run m = at_run a \<and> mf_attempt m = at_id a))
    \<and> (\<exists>ers ms. d' = d\<lparr>evidence_runs := ers, manifests := Some (manifest_rows d @ ms)\<rparr> \<and> length ms = n \<and> list_all2 seals (unsealed d) ms)
    \<and> seal_unavailable_attempt_evidence sha now' d' = (Inr 0, d')"
proof -
  obtain ers ms where d': "d' = d\<lparr>evidence_runs := ers, manifests := Some (manifest_rows d @ ms)\<rparr>"
    "list_all2 seals (unsealed d) ms" "n = length (unsealed d)"
    using seal_effect [OF assms] by (elim exE conjE)
  have at: "attempts d' = attempts d" and rows: "manifest_rows d' = manifest_rows d @ ms" using d'(1) by (simp_all add: manifest_rows_def)
  have sealed: "\<exists>m \<in> set (manifest_rows d'). mf_run m = at_run a \<and> mf_attempt m = at_id a"
    if "a \<in> set (attempts d')" "at_status a \<noteq> ''running''" for a
  proof (cases "manifest_of d (at_run a) (at_id a)")
    case None
    with that have "a \<in> set (unsealed d)" by (simp add: at unsealed_def)
    then obtain i where i: "i < length (unsealed d)" "unsealed d ! i = a" by (auto simp: in_set_conv_nth)
    with d'(2) have "seals a (ms ! i)" "ms ! i \<in> set ms" by (auto simp: list_all2_conv_all_nth)
    then show ?thesis unfolding rows by (intro bexI [of _ "ms ! i"]) (simp_all add: seals_def)
  next
    case (Some m)
    from first_row_Some [OF Some [unfolded manifest_of_def]] show ?thesis unfolding rows by (intro bexI [of _ m]) simp_all
  qed
  have none: "unsealed d' = []"
    unfolding unsealed_Nil using sealed by (auto simp: manifest_of_def first_row_None)
  have "ensure_evidence_schema d' = d'" unfolding ensure_evidence_schema_def rows using d'(1) by simp
  then have "seal_unavailable_attempt_evidence sha now' d' = (Inr 0, d')"
    by (simp add: seal_unavailable_attempt_evidence_def transaction_def seal_body_def none tx_bind_def tx_return_def)
  moreover have "length ms = n" using list_all2_lengthD [OF d'(2)] d'(3) by simp
  ultimately show ?thesis using sealed d'(1,2) by blast
qed

end
