(* ===== verification/Vault_Lifecycle.thy ===== *)
theory Vault_Lifecycle
  imports Evidence_Attest
begin

text \<open>
  The life of the candidates over every operation of the store: the start and the end of attempts and their
  checkpoints, the events, the instances, the evidence that is opened, committed, attested and sealed, and
  everything else that leaves these tables alone (\<open>src/rapido/state.py\<close>, \<open>src/rapido/evidence.py\<close>).
  In every store that they reach a verified candidate was written by two different attempts and both saw it.
\<close>

section \<open>What the other operations leave alone\<close>

definition outside :: "db \<Rightarrow> db \<Rightarrow> bool" where
  "outside d d' \<longleftrightarrow> keeps_vault d d' \<and> same_evidence d d' \<and> proofs d' = proofs d"

definition vault_inv :: "digest_fn \<Rightarrow> db \<Rightarrow> bool" where
  "vault_inv sha d \<longleftrightarrow> vault_sound sha d \<and> proofs_sound d"

lemma outside_refl: "outside d d"
  by (simp add: outside_def keeps_vault_refl same_evidence_def)

lemma outside_inv: "outside d d' \<Longrightarrow> vault_inv sha d \<Longrightarrow> vault_inv sha d'"
  using keeps_vault_sound proofs_sound_grows same_evidence_grows unfolding outside_def vault_inv_def by blast

lemma keeps_vault_filter:
  assumes "proposals d' = proposals d" "proofs d' = proofs d" "verifications d' = filter P (verifications d)" "attempts d' = attempts d @ as"
  shows "keeps_vault d d'"
proof -
  have "\<forall>a \<in> set (attempts d). \<exists>b \<in> set (attempts d'). same_lane a b"
    unfolding assms(4) same_lane_def by auto
  moreover have "set (proofs d) \<subseteq> set (proofs d')" using assms(2) by simp
  ultimately show ?thesis unfolding keeps_vault_def using assms(1,3) by blast
qed

lemma keeps_vault_tables:
  assumes "proposals d' = proposals d" "proofs d' = proofs d" "verifications d' = verifications d" "attempts d' = attempts d @ as"
  shows "keeps_vault d d'"
  by (rule keeps_vault_filter [where P = "\<lambda>_. True"]) (simp_all add: assms)

lemma outside_tables:
  assumes "proposals d' = proposals d" "proofs d' = proofs d" "verifications d' = verifications d" "attempts d' = attempts d @ as"
    "evidence_objects d' = evidence_objects d" "manifest_rows d' = manifest_rows d" "evidence_items d' = evidence_items d"
  shows "outside d d'"
  unfolding outside_def same_evidence_def using keeps_vault_tables [OF assms(1-4)] assms(2,5-7) by blast

lemma start_attempt_outside:
  assumes "start_attempt now i run c ep lane m e require d = (r, d')"
  shows "outside d d'"
proof -
  let ?tx = "tx_bind (if require then check_assignment run c ep lane m e else tx_return ()) (\<lambda>_.
         insert_attempt \<lparr>at_id = i, at_run = run, at_challenge = c, at_episode = ep, at_lane = lane,
           at_started = now 0, at_finished = None, at_status = ''running'', at_model = m, at_effort = e,
           at_summary = [], at_candidate = None, at_confidence = None, at_evidence = [], at_next_steps = [],
           at_observations = [], at_tool_count = 0, at_failure = None\<rparr>) d"
  consider "d' = d" | u where "?tx = Inr (u, d')"
    using assms by (auto simp: start_attempt_def transaction_def split: if_split_asm sum.split_asm prod.split_asm)
  then show ?thesis
  proof cases
    case 1
    then show ?thesis by (simp add: outside_refl)
  next
    case 2
    then obtain a where "d' = d\<lparr>attempts := attempts d @ [a]\<rparr>"
      by (auto simp: check_assignment_def tx_return_Inr insert_attempt_def split: if_split_asm option.split_asm
          elim!: tx_bind_InrE bind_result_InrE)
    then show ?thesis by (intro outside_tables [where as = "[a]"]) (simp_all add: manifest_rows_def)
  qed
qed

lemma event_outside:
  assumes "event now run what data d = (r, d')"
  shows "outside d d'"
proof -
  consider "d' = d" | u where "insert_event run (now 0) what (PDict data) d = Inr (u, d')"
    using assms by (auto simp: event_def transaction_def split: if_split_asm sum.split_asm prod.split_asm)
  then show ?thesis
  proof cases
    case 2
    then show ?thesis
      by (intro outside_tables [where as = "[]"]) (auto simp: insert_event_def manifest_rows_def elim!: bind_result_InrE)
  qed (simp add: outside_refl)
qed

text \<open>A new generation of an instance takes verifications away, and adds none.\<close>

lemma mark_instance_outside:
  assumes "mark_instance now run c status receipt d = (r, d')"
  shows "outside d d'"
  using assms
proof (cases rule: mark_instance_cases)
  case 1
  then show ?thesis by (simp add: outside_refl)
next
  case 2
  have same: "proposals d' = proposals d" "proofs d' = proofs d" "attempts d' = attempts d" "evidence_objects d' = evidence_objects d"
    "manifests d' = manifests d" "evidence_items d' = evidence_items d"
    and vs: "verifications d' = verifications d \<or> verifications d' = filter (\<lambda>v. \<not> (vf_run v = run \<and> vf_challenge v = c)) (verifications d)"
    using 2(3) by (auto simp: mark_instance_body_def Let_def elim!: bind_result_InrE)
  have at: "attempts d' = attempts d @ []" using same(3) by simp
  from vs have "keeps_vault d d'"
    using keeps_vault_tables [OF same(1,2) _ at] keeps_vault_filter [OF same(1,2) _ at] by blast
  then show ?thesis using same by (simp add: outside_def same_evidence_def manifest_rows_def)
qed

lemma open_evidence_outside:
  assumes "open_evidence sha now run limits d = (r, d')"
  shows "outside d d'"
proof -
  let ?d = "ensure_evidence_schema d"
  have schema: "outside d ?d"
    by (rule outside_tables [where as = "[]"]) (simp_all add: ensure_evidence_schema_def manifest_rows_def)
  have opened: "outside d x" if ok: "open_body sha now run l ?d = Inr (u, x)" for l u x
  proof -
    obtain ers where "x = ?d\<lparr>evidence_runs := ers\<rparr>"
    proof (cases "run_row_of ?d run")
      case None
      with ok show ?thesis by (intro that) (auto simp: open_body_def split: if_split_asm)
    next
      case (Some r)
      then have "x = ?d" using ok by (auto simp: open_body_def split: if_split_asm)
      then show ?thesis by (intro that [of "evidence_runs ?d"]) simp
    qed
    then show ?thesis by (intro outside_tables [where as = "[]"]) (simp_all add: ensure_evidence_schema_def manifest_rows_def)
  qed
  show ?thesis
  proof (cases "run = [] \<or> 256 < length run")
    case True
    with assms show ?thesis by (simp add: open_evidence_def outside_refl)
  next
    case False
    let ?l = "case limits of None \<Rightarrow> default_limits | Some l \<Rightarrow> l"
    show ?thesis
    proof (cases "open_body sha now run ?l ?d")
      case (Inl e)
      with assms False schema show ?thesis by (simp add: open_evidence_def transaction_def)
    next
      case (Inr x)
      then have "d' = snd x" using assms False by (cases x) (simp add: open_evidence_def transaction_def)
      with Inr opened [of ?l "()" "snd x"] show ?thesis by (cases x) simp
    qed
  qed
qed

section \<open>Every history of the vault\<close>

text \<open>Everything that the program does to the candidate and evidence tables, with any arguments, and any
  operation that leaves them alone.\<close>

inductive vault_step :: "stdlib \<Rightarrow> db \<Rightarrow> db \<Rightarrow> bool" for lib where
  Start: "start_attempt now i run c ep lane m e require d = (r, d') \<Longrightarrow> vault_step lib d d'"
| Checkpoint: "checkpoint_attempt (lib_sha lib) now i summary candidate es ns obs tools d = (r, d') \<Longrightarrow> vault_step lib d d'"
| Finish: "finish_attempt (lib_sha lib) now i status summary candidate confidence es ns tools fc retain d = (r, d') \<Longrightarrow> vault_step lib d d'"
| Event: "event now run what data d = (n, d') \<Longrightarrow> vault_step lib d d'"
| Instance: "mark_instance now run c status receipt d = (r, d') \<Longrightarrow> vault_step lib d d'"
| Open: "open_evidence (lib_sha lib) now run limits d = (l, d') \<Longrightarrow> vault_step lib d d'"
| Commit: "construct_batch b = Inr b \<Longrightarrow> commit lib now run l i b d = (v, d') \<Longrightarrow> vault_step lib d d'"
| Attest: "attest_candidate_with_reason lib now run l i h require_fixed d = (s, d') \<Longrightarrow> vault_step lib d d'"
| Seal: "seal_unavailable_attempt_evidence (lib_sha lib) now d = (n, d') \<Longrightarrow> vault_step lib d d'"
| Elsewhere: "outside d d' \<Longrightarrow> vault_step lib d d'"

lemma retain_evidence:
  assumes "retain_candidate sha now i run c ep lane x d = Inr (u, d')" "vault_sound sha d"
  shows "same_evidence d d' \<and> proofs d' = proofs d"
  using vault_frame_fields [of d d'] retain_candidate_sound [OF assms] by (simp add: same_evidence_def manifest_rows_def)

lemma attempts_evidence: "same_evidence d (d\<lparr>attempts := as\<rparr>) \<and> proofs (d\<lparr>attempts := as\<rparr>) = proofs d"
  by (simp add: same_evidence_def manifest_rows_def)

lemma same_evidence_trans: "same_evidence a b \<Longrightarrow> same_evidence b c \<Longrightarrow> same_evidence a c"
  by (simp add: same_evidence_def)

lemma same_evidence_inv: "same_evidence d d' \<and> proofs d' = proofs d \<Longrightarrow> proofs_sound d \<Longrightarrow> proofs_sound d'"
  using proofs_sound_grows same_evidence_grows by blast

lemma finish_evidence:
  assumes "finish_attempt sha now i status summary candidate confidence es ns tools fc retain d = (r, d')" "vault_sound sha d"
  shows "same_evidence d d' \<and> proofs d' = proofs d"
  using assms(1)
proof (cases rule: finish_attempt_cases)
  case error
  then show ?thesis by (simp add: same_evidence_def)
next
  case ok
  then have "retain \<longrightarrow> candidate \<noteq> None" by blast
  from finish_body_effect [OF ok(4) this] obtain a d1 where "a \<in> set (attempts d)" "running_attempt i a"
    "count_rows (running_attempt i) (attempts d) = 1" and d1: "d1 = d\<lparr>attempts := where_update (running_attempt i)
        (finished_row now d i status summary candidate confidence es ns tools fc retain) (attempts d)\<rparr>"
    "if retain then retain_candidate sha now i (at_run a) (at_challenge a) (at_episode a) (at_lane a) (the candidate) d1 = Inr ((), d')
     else d' = d1" .
  have v1: "vault_sound sha d1" unfolding d1(1)
    by (rule keeps_vault_sound [OF assms(2) keeps_vault_attempts]) (simp add: finished_row_lane, simp add: same_lane_def)
  have "same_evidence d d1 \<and> proofs d1 = proofs d" unfolding d1(1) by (rule attempts_evidence)
  moreover have "same_evidence d1 d' \<and> proofs d' = proofs d1"
    using d1(2) retain_evidence [OF _ v1] by (cases retain) (auto simp: same_evidence_def)
  ultimately show ?thesis using same_evidence_trans by fastforce
qed

lemma checkpoint_evidence:
  assumes "checkpoint_attempt sha now i summary candidate es ns obs tools d = (r, d')" "vault_sound sha d"
  shows "same_evidence d d' \<and> proofs d' = proofs d"
  using assms(1)
proof (cases rule: checkpoint_attempt_cases)
  case error
  then show ?thesis by (simp add: same_evidence_def)
next
  case ok
  then obtain d1 a where d1:
    "d1 = d\<lparr>attempts := where_update (running_attempt i) (checkpoint_row summary es ns obs tools) (attempts d)\<rparr>"
    "case candidate of None \<Rightarrow> d' = d1
     | Some x \<Rightarrow> first_row (\<lambda>a. at_id a = i) (attempts d1) = Some a
         \<and> retain_candidate sha now i (at_run a) (at_challenge a) (at_episode a) (at_lane a) x d1 = Inr ((), d')"
    by (auto elim: checkpoint_body_effect)
  have v1: "vault_sound sha d1" unfolding d1(1)
    by (rule keeps_vault_sound [OF assms(2) keeps_vault_attempts]) (rule attempt_records_lane)
  have "same_evidence d d1 \<and> proofs d1 = proofs d" unfolding d1(1) by (rule attempts_evidence)
  moreover have "same_evidence d1 d' \<and> proofs d' = proofs d1"
    using d1(2) retain_evidence [OF _ v1] by (cases candidate) (auto simp: same_evidence_def)
  ultimately show ?thesis using same_evidence_trans by fastforce
qed

lemma commit_inv:
  assumes "construct_batch b = Inr b" "commit lib now run l i b d = (v, d')" "vault_inv sha d"
  shows "vault_inv sha d'"
proof -
  note frame = commit_frame [OF assms(2,1)]
  then obtain objs ms its where d': "d' = d\<lparr>evidence_objects := objs, manifests := ms, evidence_items := its\<rparr>"
    unfolding evidence_frame_def by blast
  have "keeps_vault d d'" by (rule keeps_vault_tables [where as = "[]"]) (simp_all add: d')
  then have "vault_sound sha d'" using keeps_vault_sound assms(3) unfolding vault_inv_def by blast
  moreover have "proofs d' = proofs d" by (simp add: d')
  then have "proofs_sound d'" using frame assms(3) proofs_sound_grows unfolding vault_inv_def by blast
  ultimately show ?thesis by (simp add: vault_inv_def)
qed

lemma attest_inv:
  assumes "attest_candidate_with_reason lib now run l i h require_fixed d = (s, d')" "vault_inv sha d"
  shows "vault_inv sha d'"
proof -
  consider "d' = d" | m where "s = Inr (Inl m)"
    using assms(1) by (cases s; cases "projr s")
      (auto simp: attest_candidate_with_reason_def transaction_def split: sum.split_asm option.split_asm prod.split_asm)
  then show ?thesis
  proof cases
    case 1
    with assms(2) show ?thesis by simp
  next
    case 2
    obtain m and a :: attempt_row where m: "load_manifest lib run i d = Inr m" "mv_complete m" "mv_gap m = None"
      "list_ex (item_observes h) (mv_items m)" "\<not> list_ex (item_supplies h) (mv_items m)"
      and body: "attest_body \<lparr>pf_attempt = i, pf_run = run, pf_challenge = at_challenge a, pf_key = h, pf_manifest = mv_digest m, pf_at = now 0\<rparr> d
       = Inr ((), d')"
      by (rule attest_effect [OF assms(1) [unfolded 2]]) (rule that; assumption)
    show ?thesis
      using body
    proof (cases rule: attest_body_cases)
      case added
      have "keeps_vault d d'" unfolding keeps_vault_def using added(2) keeps_vault_refl [of d] by (auto simp: keeps_vault_def)
      then have "vault_sound sha d'" using keeps_vault_sound assms(2) unfolding vault_inv_def by blast
      moreover have "proofs_sound d'"
        unfolding added(2) using assms(2) by (intro proofs_sound_added loaded_attested [OF m]) (simp_all add: vault_inv_def)
      ultimately show ?thesis by (simp add: vault_inv_def)
    qed (use assms(2) in simp)
  qed
qed

lemma seal_inv:
  assumes "seal_unavailable_attempt_evidence sha now d = (n, d')" "vault_inv sha' d"
  shows "vault_inv sha' d'"
proof (cases n)
  case (Inl e)
  then have "d' = ensure_evidence_schema d" using assms(1)
    by (auto simp: seal_unavailable_attempt_evidence_def transaction_def split: sum.split_asm prod.split_asm)
  then have "outside d d'"
    by (intro outside_tables [where as = "[]"]) (simp_all add: ensure_evidence_schema_def manifest_rows_def)
  then show ?thesis using outside_inv assms(2) by blast
next
  case (Inr k)
  obtain ers ms where d': "d' = d\<lparr>evidence_runs := ers, manifests := Some (manifest_rows d @ ms)\<rparr>" "list_all2 seals (unsealed d) ms"
    using seal_effect [OF assms(1) [unfolded Inr]] by (elim exE conjE)
  have "\<not> mf_complete m" if "m \<in> set ms" for m
    using d'(2) that by (auto simp: list_all2_conv_all_nth in_set_conv_nth seals_def)
  then have "evidence_grows d d'" by (intro evidence_growsI [where objs = "[]" and ms = ms and its = "[]"]) (simp_all add: d'(1) manifest_rows_def)
  moreover have "keeps_vault d d'" by (rule keeps_vault_tables [where as = "[]"]) (simp_all add: d'(1))
  moreover have "proofs d' = proofs d" by (simp add: d'(1))
  ultimately show ?thesis using assms(2) keeps_vault_sound proofs_sound_grows unfolding vault_inv_def by blast
qed

lemma vault_step_inv: "vault_step lib d d' \<Longrightarrow> vault_inv (lib_sha lib) d \<Longrightarrow> vault_inv (lib_sha lib) d'"
proof (induction rule: vault_step.induct)
  case (Start now i run c ep lane m e require d r d')
  then show ?case using start_attempt_outside outside_inv by blast
next
  case (Checkpoint now i summary candidate es ns obs tools d r d')
  then have "vault_sound (lib_sha lib) d" "proofs_sound d" by (simp_all add: vault_inv_def)
  with checkpoint_attempt_sound [OF Checkpoint(1)] checkpoint_evidence [OF Checkpoint(1)] same_evidence_inv show ?case
    unfolding vault_inv_def by blast
next
  case (Finish now i status summary candidate confidence es ns tools fc retain d r d')
  then have "vault_sound (lib_sha lib) d" "proofs_sound d" by (simp_all add: vault_inv_def)
  with finish_attempt_sound [OF Finish(1)] finish_evidence [OF Finish(1)] same_evidence_inv show ?case
    unfolding vault_inv_def by blast
next
  case (Event now run what data d n d')
  then show ?case using event_outside outside_inv by blast
next
  case (Instance now run c status receipt d r d')
  then show ?case using mark_instance_outside outside_inv by blast
next
  case (Open now run limits d l d')
  then show ?case using open_evidence_outside outside_inv by blast
next
  case (Commit b now run l i d v d')
  then show ?case using commit_inv by blast
next
  case (Attest now run l i h require_fixed d s d')
  then show ?case using attest_inv by blast
next
  case (Seal now d n d')
  then show ?case using seal_inv by blast
next
  case (Elsewhere d d')
  then show ?case using outside_inv by blast
qed

definition fresh_vault :: "db \<Rightarrow> bool" where
  "fresh_vault d \<longleftrightarrow> proposals d = [] \<and> verifications d = [] \<and> proofs d = [] \<and> manifest_rows d = []"

interpretation vault_store: guarded_store fresh_vault "vault_step lib" "vault_inv (lib_sha lib)" for lib
proof
  show "fresh_vault d \<Longrightarrow> vault_inv (lib_sha lib) d" for d
    by (simp add: fresh_vault_def vault_inv_def vault_sound_def proofs_sound_def)
  show "vault_inv (lib_sha lib) d \<Longrightarrow> vault_step lib d d' \<Longrightarrow> vault_inv (lib_sha lib) d'" for d d'
    by (rule vault_step_inv)
qed

section \<open>A verified candidate is one that two attempts observed\<close>

text \<open>C7. The invariant of the vault holds in every store the program can reach: proposals are keyed by their attempt
  and their candidate's digest, a verification joins a producer with a later verifier of the same bytes, and every proof is
  backed by a complete manifest that observed the candidate and was not supplied it.\<close>

theorem vault_always_sound:
  assumes "fresh_vault d0" "(vault_step lib)\<^sup>*\<^sup>* d0 d"
  shows "vault_sound (lib_sha lib) d \<and> proofs_sound d"
  using vault_store.reachable_inv [OF assms] by (simp add: vault_inv_def)

lemma proof_of_proven:
  assumes "has_proof d i run c h" "proofs_sound d"
  shows "\<exists>f \<in> set (proofs d). pf_attempt f = i \<and> pf_run f = run \<and> pf_key f = h \<and> attested d f"
  using assms by (auto simp: has_proof_def list_ex_iff proofs_sound_def)

text \<open>A candidate that is handed to the controller as verified was found twice: two different attempts of the run, the
  verifier's in a later episode and on the same material, retained these very bytes, and for each of them there is a proof
  whose complete manifest holds a source-bound observation of the candidate and none into which it had been put.\<close>

theorem verified_candidates_independent:
  assumes "vault_sound (lib_sha lib) d" "proofs_sound d" "verified_candidate d run c = Inr (Some s)"
  shows "\<exists>p \<in> set (proposals d). \<exists>q \<in> set (proposals d). \<exists>f \<in> set (proofs d). \<exists>g \<in> set (proofs d).
    pp_attempt p \<noteq> pp_attempt q \<and> pp_run p = run \<and> pp_run q = run \<and> pp_challenge p = c \<and> pp_challenge q = c
    \<and> pp_role p \<in> {''specialist'', ''recovery''} \<and> pp_role q = ''verifier'' \<and> pp_episode p < pp_episode q
    \<and> pp_context p = pp_context q \<and> pp_candidate p = utf8_bytes s \<and> pp_candidate q = utf8_bytes s
    \<and> pf_attempt f = pp_attempt p \<and> pf_attempt g = pp_attempt q
    \<and> pf_key f = lib_sha lib (utf8_bytes s) \<and> pf_key g = lib_sha lib (utf8_bytes s) \<and> attested d f \<and> attested d g"
proof -
  obtain v p where rows: "verified_rows d run c = [(v, p)]" "utf8_decode (pp_candidate p) = Some s"
    using assms(3) unfolding verified_candidate_Some by (elim exE conjE)
  then have mem: "(v, p) \<in> set (verified_rows d run c)" by simp
  obtain q t where q: "verified_by d v p q" "vf_run v = run" "vf_challenge v = c" "pp_candidate p = utf8_bytes t"
    "vf_key v = lib_sha lib (utf8_bytes t)" "pp_attempt p \<noteq> pp_attempt q"
    using verified_row_sound [OF assms(1) mem] by metis
  have t: "t = s" using rows(2) q(4) by simp
  have "proven d v" using q(1) by (simp add: verified_by_def)
  then have has: "has_proof d (vf_producer v) run c (vf_key v)" "has_proof d (vf_verifier v) run c (vf_key v)"
    using q(2,3) by (simp_all add: proven_def)
  obtain f g where f: "f \<in> set (proofs d)" "pf_attempt f = vf_producer v" "pf_key f = vf_key v" "attested d f"
    and g: "g \<in> set (proofs d)" "pf_attempt g = vf_verifier v" "pf_key g = vf_key v" "attested d g"
    using proof_of_proven [OF has(1) assms(2)] proof_of_proven [OF has(2) assms(2)] by blast
  show ?thesis
    by (rule bexI [of _ p], rule bexI [of _ q], rule bexI [OF _ f(1)], rule bexI [OF _ g(1)])
      (use q f g t in \<open>simp_all add: verified_by_def\<close>)
qed

text \<open>The two views of the vault agree: asking whether a value is verified gives true exactly for the one value that is
  returned as the verified candidate.\<close>

theorem verified_views_agree:
  assumes "vault_sound (lib_sha lib) d" "s \<noteq> []" "length s \<le> 600"
  shows "candidate_is_verified (lib_sha lib) d run c s = Inr (verified_candidate d run c = Inr (Some s))"
  by (rule verified_agrees [OF assms])

text \<open>What the run reports of its candidates is consistent: the pending count of a run is the sum over the challenges it
  finds unverified of their own counts, and those challenges are exactly the ones with something pending.\<close>

theorem candidate_counts_agree:
  "fst (candidate_counts d run) = (\<Sum>c \<leftarrow> unverified_challenges d run. pending_candidate_count d run c)
   \<and> set (unverified_challenges d run) = {c. 0 < pending_candidate_count d run c}
   \<and> ec_unverified (run_evaluation_counts d run) = card {c. 0 < pending_candidate_count d run c}
   \<and> ec_run_local_verified (run_evaluation_counts d run) \<le> ec_source_observed (run_evaluation_counts d run)
       + ec_independently_verified (run_evaluation_counts d run)"
proof -
  have set: "set (unverified_challenges d run) = {c. 0 < pending_candidate_count d run c}" using unverified_iff by blast
  have "distinct (unverified_challenges d run)" by (simp add: unverified_challenges_def)
  then have "length (unverified_challenges d run) = card {c. 0 < pending_candidate_count d run c}"
    using distinct_card set by metis
  moreover have "length (remdups (xs @ ys)) \<le> length xs + length ys" for xs ys :: "int list"
    using length_remdups_leq [of "xs @ ys"] by simp
  ultimately show ?thesis using pending_counts_sum [of d run] set by (simp add: run_evaluation_counts_def Let_def)
qed

text \<open>The rejected values given to later prompts are bounded and genuine: at most 64 values of at most 65536 bytes together,
  each retained by an attempt of this run for this challenge and reported incorrect by the Board, and the read never fails.\<close>

theorem rejected_values_genuine:
  assumes "vault_sound (lib_sha lib) d" "run \<noteq> []" "0 < c"
  shows "\<exists>xs. private_incorrect_candidate_bytes (lib_sha lib) d run c = Inr xs \<and> length xs \<le> 64 \<and> sum_list (map length xs) \<le> 65536
    \<and> (\<forall>x \<in> set xs. \<exists>p \<in> set (proposals d). pp_run p = run \<and> pp_challenge p = c \<and> pp_candidate p = x
      \<and> (\<exists>i \<in> set (intents d). it_run i = run \<and> it_challenge i = c \<and> it_sha i = lib_sha lib x \<and> it_status i = ''incorrect''))"
  using rejected_values_bounded [OF assms] by metis

end
