(* ===== verification/Vault_Examples.thy ===== *)
theory Vault_Examples
  imports Vault_Lifecycle
begin

text \<open>
  Concrete stores of the candidates and of the evidence: a store with a verified candidate, a history that
  commits and attests an observation, and a store whose evidence is carried to another lane. Each witness
  applies a theorem of the candidates or of the evidence there.
\<close>

section \<open>A store with a verified candidate\<close>

definition zeros :: string where
  "zeros = replicate 64 CHR ''0''"

definition verified_attempt :: "string \<Rightarrow> int \<Rightarrow> attempt_row" where
  "verified_attempt i ep = \<lparr>at_id = i, at_run = ''r'', at_challenge = 7, at_episode = ep, at_lane = 0, at_started = ''t'',
     at_finished = Some ''t'', at_status = ''candidate'', at_model = ''m'', at_effort = ''high'', at_summary = [], at_candidate = None,
     at_confidence = None, at_evidence = [], at_next_steps = [], at_observations = [], at_tool_count = 1, at_failure = None\<rparr>"

definition verified_manifest :: "string \<Rightarrow> int \<Rightarrow> manifest_row" where
  "verified_manifest i ep = \<lparr>mf_run = ''r'', mf_attempt = i, mf_digest = i, mf_challenge = 7, mf_episode = ep, mf_lane = 0,
     mf_complete = True, mf_gap = None, mf_observations = 1, mf_committed = 1, mf_omitted = 0, mf_bytes = 9, mf_payload = Opaque [],
     mf_created = ''t''\<rparr>"

definition verified_proposal :: "string \<Rightarrow> int \<Rightarrow> string \<Rightarrow> string \<Rightarrow> proposal_row" where
  "verified_proposal i ep r recipe = \<lparr>pp_attempt = i, pp_run = ''r'', pp_challenge = 7, pp_episode = ep, pp_lane = 0, pp_role = r,
     pp_recipe = recipe, pp_context = ''c'', pp_receipt = None, pp_key = zeros, pp_candidate = ''flag{x}'', pp_at = ''t''\<rparr>"

definition verified_store :: db where
  "verified_store = empty_db\<lparr>
     challenges := [\<lparr>ch_id = 7, ch_name = ''n'', ch_category = ''misc'', ch_type = ''static'', ch_value = 1, ch_status = ''running'', ch_updated = ''t''\<rparr>],
     catalogue := [\<lparr>ct_run = ''r'', ct_challenge = 7, ct_rank = 1, ct_executable = True, ct_context = Some ''c'', ct_episode = 0\<rparr>],
     attempts := [verified_attempt ''a'' 0, verified_attempt ''b'' 1],
     intents := [\<lparr>it_challenge = 7, it_sha = zeros, it_run = ''r'', it_episode = 0, it_context = Some ''c'', it_provenance = ''p'',
       it_reserved = ''t'', it_status = ''incorrect'', it_updated = ''t''\<rparr>],
     proposals := [verified_proposal ''a'' 0 ''specialist'' ''source_bound_tool_observation_v1'',
       verified_proposal ''b'' 1 ''verifier'' ''fresh_source_reobservation_v1''],
     proofs := [\<lparr>pf_attempt = ''a'', pf_run = ''r'', pf_challenge = 7, pf_key = zeros, pf_manifest = ''a'', pf_at = ''t''\<rparr>,
       \<lparr>pf_attempt = ''b'', pf_run = ''r'', pf_challenge = 7, pf_key = zeros, pf_manifest = ''b'', pf_at = ''t''\<rparr>],
     verifications := [\<lparr>vf_run = ''r'', vf_challenge = 7, vf_key = zeros, vf_producer = ''a'', vf_producer_role = ''specialist'',
       vf_verifier = ''b'', vf_verifier_role = ''verifier'', vf_recipe = ''fresh_source_reobservation_v1'',
       vf_scope = ''static_material'', vf_context = ''c'', vf_receipt = None, vf_at = ''t''\<rparr>],
     manifests := Some [verified_manifest ''a'' 0, verified_manifest ''b'' 1],
     evidence_objects := [\<lparr>eo_run = ''r'', eo_digest = ''o'', eo_version = 3, eo_tool = ''inspect_elf'', eo_bytes = 9,
       eo_payload = Canonical (PDict [(''candidate_sha256s'', PList [PStr zeros]), (''source_bound'', PBool True),
         (''success'', PBool True), (''supplied_candidate_sha256s'', PList [])]), eo_created = ''t''\<rparr>],
     evidence_items := [\<lparr>ei_run = ''r'', ei_manifest = ''a'', ei_ordinal = 0, ei_object = ''o''\<rparr>,
       \<lparr>ei_run = ''r'', ei_manifest = ''b'', ei_ordinal = 0, ei_object = ''o''\<rparr>]\<rparr>"

lemmas verified_store_defs = verified_store_def empty_db_def verified_attempt_def verified_manifest_def verified_proposal_def

lemma sample_key: "lib_sha sample_lib x = zeros"
  by (simp add: sample_lib_def zeros_def)

lemma sample_candidate: "utf8_bytes ''flag{x}'' = ''flag{x}''"
  by code_simp

lemma verified_store_sound: "vault_sound (lib_sha sample_lib) verified_store"
proof -
  have "proposal_sound (lib_sha sample_lib) verified_store p" if "p \<in> set (proposals verified_store)" for p
    using that unfolding proposal_sound_def sample_key
    by (auto simp: verified_store_defs same_attempt_def utf8_char_def intro!: exI [of _ "''flag{x}''"])
  moreover have "\<exists>p q. verified_by verified_store v p q" if "v \<in> set (verifications verified_store)" for v
    using that by (intro exI [of _ "verified_proposal ''a'' 0 ''specialist'' ''source_bound_tool_observation_v1''"]
        exI [of _ "verified_proposal ''b'' 1 ''verifier'' ''fresh_source_reobservation_v1''"])
      (auto simp: verified_by_def verified_store_defs proven_def has_proof_def)
  ultimately show ?thesis
    by (intro vault_soundI) (auto simp: verified_store_defs)
qed

lemma verified_payload: "row_payload \<lparr>eo_run = ''r'', eo_digest = ''o'', eo_version = 3, eo_tool = ''inspect_elf'', eo_bytes = 9,
       eo_payload = Canonical (PDict [(''candidate_sha256s'', PList [PStr zeros]), (''source_bound'', PBool True),
         (''success'', PBool True), (''supplied_candidate_sha256s'', PList [])]), eo_created = ''t''\<rparr>
   = [(''candidate_sha256s'', PList [PStr zeros]), (''source_bound'', PBool True),
         (''success'', PBool True), (''supplied_candidate_sha256s'', PList [])]"
  by (simp add: row_payload_def dict_items_def)

lemma verified_proofs_sound: "proofs_sound verified_store"
  by (simp add: proofs_sound_def attested_def manifest_rows_def verified_store_defs complete_manifest_def listed_def listed_all_def
      object_of_def first_row_def verified_payload payload_observes_def payload_supplies_def in_list_def)

lemma verified_sample: "verified_candidate verified_store ''r'' 7 = Inr (Some ''flag{x}'')"
proof -
  have d: "utf8_decode ''flag{x}'' = Some ''flag{x}''" by code_simp
  show ?thesis
    by (simp add: verified_candidate_def verified_rows_def verified_store_defs current_verification_def proposal_of_def first_row_def
        catalogued_def challenge_by_id_def has_proof_def material_identity_def scope_current_def verified_producer_def d)
qed

lemma verified_candidates_independent_witness:
  "\<exists>f \<in> set (proofs verified_store). \<exists>g \<in> set (proofs verified_store). pf_attempt f \<noteq> pf_attempt g
     \<and> attested verified_store f \<and> attested verified_store g"
proof -
  have T: "\<exists>p :: proposal_row. \<exists>q :: proposal_row. \<exists>f \<in> set (proofs verified_store). \<exists>g \<in> set (proofs verified_store). pp_attempt p \<noteq> pp_attempt q
      \<and> pf_attempt f = pp_attempt p \<and> pf_attempt g = pp_attempt q \<and> attested verified_store f \<and> attested verified_store g"
    using verified_candidates_independent [OF verified_store_sound verified_proofs_sound verified_sample] by blast
  then obtain p q :: proposal_row and f g where "f \<in> set (proofs verified_store)" "g \<in> set (proofs verified_store)"
    "pp_attempt p \<noteq> pp_attempt q \<and> pf_attempt f = pp_attempt p \<and> pf_attempt g = pp_attempt q \<and> attested verified_store f \<and> attested verified_store g"
    by (elim exE bexE)
  then show ?thesis by (intro bexI [of _ f] bexI [of _ g]) simp_all
qed

lemma verified_views_agree_witness:
  "candidate_is_verified (lib_sha sample_lib) verified_store ''r'' 7 ''flag{x}'' = Inr True
   \<and> candidate_is_verified (lib_sha sample_lib) verified_store ''r'' 7 ''flag{y}'' = Inr False"
  using verified_views_agree [OF verified_store_sound, of "''flag{x}''" "''r''" 7]
    verified_views_agree [OF verified_store_sound, of "''flag{y}''" "''r''" 7]
  by (simp add: verified_sample)

lemma rejected_values_genuine_witness:
  "private_incorrect_candidate_bytes (lib_sha sample_lib) verified_store ''r'' 7 = Inr [''flag{x}'']"
proof -
  have "remdups [(zeros, ''flag{x}''), (zeros, ''flag{x}'')] = [(zeros, ''flag{x}'')]" by simp
  then have rows: "incorrect_rows verified_store ''r'' 7 = [(zeros, ''flag{x}'')]"
    by (simp add: incorrect_rows_def catalogued_def first_row_def verified_store_defs intent_in_context_def
        MAX_PRIVATE_INCORRECT_CANDIDATES_def)
  obtain xs where "private_incorrect_candidate_bytes (lib_sha sample_lib) verified_store ''r'' 7 = Inr xs" "length xs \<le> 64"
    using rejected_values_genuine [OF verified_store_sound, of "''r''" 7] by auto
  then show ?thesis
    by (simp add: private_incorrect_candidate_bytes_def rows sample_key MAX_PRIVATE_INCORRECT_CANDIDATE_BYTES_def)
qed


section \<open>A history that attests a candidate\<close>

definition observed_attempt :: attempt_row where
  "observed_attempt = (verified_attempt ''a'' 0)\<lparr>at_status := ''running'', at_finished := None\<rparr>"

definition observed_store :: db where
  "observed_store = empty_db\<lparr>
     runs := [\<lparr>rn_id = ''r'', rn_started = ''t'', rn_finished = None, rn_status = ''running'', rn_config = None\<rparr>],
     challenges := [\<lparr>ch_id = 7, ch_name = ''n'', ch_category = ''misc'', ch_type = ''static'', ch_value = 1, ch_status = ''running'', ch_updated = ''t''\<rparr>],
     attempts := [observed_attempt],
     evidence_runs := [limits_row (lib_sha sample_lib) ''t'' ''r'' default_limits]\<rparr>"

definition observed_batch :: evidence_batch where
  "observed_batch = \<lparr>ba_observations = [\<lparr>ob_tool = ''inspect_elf'', ob_success = Some True, ob_source_bound = True,
     ob_facts = [], ob_hashes = [zeros], ob_supplied = [], ob_sensitive = True\<rparr>], ba_complete = True, ba_gap = None\<rparr>"

lemma zeros_hex: "hex_lower 64 64 zeros"
  by (simp add: zeros_def hex_lower_def list_all_iff)

lemma json_size_str: "json_size (PStr s) \<le> 6 * length s + 2"
  using length_json_string_utf8 [of s] by (simp add: json_size_def)

lemma sum_list_plus_one: "sum_list (map (\<lambda>x. f x + (1 :: nat)) xs) = sum_list (map f xs) + length xs"
  by (induction xs) simp_all

lemma sum_list_insort: "sum_list (map f (insort_key k x xs)) = f x + sum_list (map f xs)" for f :: "'a \<Rightarrow> nat"
  by (induction xs) simp_all

lemma sum_list_sort: "sum_list (map f (sort_key k xs)) = sum_list (map f xs)" for f :: "'a \<Rightarrow> nat"
  by (induction xs) (simp_all add: sum_list_insort)

lemma json_size_list: "json_size (PList xs) \<le> 2 + sum_list (map (\<lambda>x. json_size x + 1) xs)"
  using length_join [of "'',''" "map json_utf8 xs"] sum_list_plus_one [of "\<lambda>x. length (json_utf8 x)" xs]
  by (simp add: json_size_def comp_def)

lemma json_size_dict: "json_size (PDict kvs) \<le> 2 + sum_list (map (\<lambda>kv. 6 * length (fst kv) + 4 + json_size (snd kv)) kvs)"
proof -
  let ?t = "\<lambda>kv. json_string_utf8 (fst kv) @ '':'' @ json_utf8 (snd kv)"
  have "length (?t kv) + 1 \<le> 6 * length (fst kv) + 4 + json_size (snd kv)" for kv :: "string \<times> pyval"
    using length_json_string_utf8 [of "fst kv"] by (simp add: json_size_def)
  then have "sum_list (map (\<lambda>kv. length (?t kv) + 1) kvs) \<le> sum_list (map (\<lambda>kv. 6 * length (fst kv) + 4 + json_size (snd kv)) kvs)"
    by (rule sum_list_mono)
  moreover note sum_list_sort [of "\<lambda>kv. length (?t kv) + 1" fst kvs]
  moreover have "json_size (PDict kvs) \<le> 2 + sum_list (map (\<lambda>kv. length (?t kv) + 1) (sort_key fst kvs))"
    using length_join [of "'',''" "map ?t (sort_key fst kvs)"] sum_list_plus_one [of "\<lambda>kv. length (?t kv)" "sort_key fst kvs"]
    by (simp add: json_size_def comp_def)
  ultimately show ?thesis by linarith
qed

lemma json_size_scalars: "json_size PNone = 4" "json_size (PBool b) \<le> 5" "json_size (PInt i) = length (show_int i)"
  by (simp_all add: json_size_def)

lemma limits_row_run: "er_run (limits_row sha stamp run l) = run"
  by (simp add: limits_row_def split: prod.split)

lemma limits_row_verifies:
  assumes "evidence_runs d = [limits_row sha stamp run l]"
  shows "verify_run sha run l d = Inr ()"
  using assms by (simp add: verify_run_def run_row_of_def first_row_def limits_row_def same_limits_def blob_bytes_def split: prod.splits)

lemma observed_well_formed: "list_all well_formed (ba_observations observed_batch)"
  by (simp add: observed_batch_def well_formed_def construct_observation_def check_hashes_def zeros_hex tool_text_def first_error_def
      json_size_def join_def MAX_HOST_RESULT_BYTES_def)

lemma observed_ready: "commit_ready sample_lib (\<lambda>_. ''t'') ''r'' default_limits observed_batch observed_attempt observed_store"
proof -
  let ?os = "fst (admit sample_lib default_limits 0 0 (ba_observations observed_batch))"
  have "length ?os \<le> 1"
    using admit_counts [of sample_lib default_limits 0 0 "ba_observations observed_batch"]
    by (cases "admit sample_lib default_limits 0 0 (ba_observations observed_batch)") (auto simp: observed_batch_def)
  then have "collision_free observed_store ''r'' ?os"
    by (cases ?os) (auto simp: collision_free_def observed_store_def empty_db_def)
  moreover have "construct_batch observed_batch = Inr observed_batch"
    by (simp add: construct_batch_def observed_batch_def)
  moreover have "verify_run (lib_sha sample_lib) ''r'' default_limits observed_store = Inr ()"
    by (rule limits_row_verifies [where stamp = "''t''"]) (simp add: observed_store_def)
  ultimately show ?thesis
    using observed_well_formed
    by (simp add: commit_ready_def attempt_in_run_def attempt_counts_def manifest_of_def manifest_rows_def objects_sound_def items_sound_def
        first_row_def observed_store_def empty_db_def observed_attempt_def verified_attempt_def)
qed


definition observation :: host_observation where
  "observation = hd (ba_observations observed_batch)"

lemma observation_empty: "observation_entries sample_lib observation = [
        (''candidate_sensitive'', PBool True), (''candidate_sha256s'', PList [PStr zeros]), (''facts'', PDict []),
        (''schema_version'', PInt 3), (''source_bound'', PBool True), (''success'', PBool True),
        (''supplied_candidate_sha256s'', PList []), (''tool'', PStr ''inspect_elf'')]"
proof -
  have "observation_facts sample_lib observation = []"
    using empty_facts [of sample_lib "Some True" "''inspect_elf''"]
    by (simp add: observation_facts_def validated_facts_def observation_def observed_batch_def canonical_tool_def Let_def
        KNOWN_TOOLS_def METADATA_TOOLS_def)
  then show ?thesis
    by (simp add: observation_entries_def observation_def observed_batch_def EVIDENCE_VERSION_def opt_bool_def canonical_tool_def
        KNOWN_TOOLS_def METADATA_TOOLS_def)
qed

lemma observation_small: "json_size (PDict (observation_entries sample_lib observation)) \<le> 2000"
proof -
  have "json_size (PInt 3) = 1" by (simp add: json_size_def show_int_def) (subst dec_digits.simps, simp)
  moreover have "json_size (PDict []) = 2" "json_size (PList []) = 2" by (simp_all add: json_size_def join_def)
  moreover have "json_size (PBool True) = 4" by (simp add: json_size_def)
  moreover have "json_size (PList [PStr zeros]) \<le> 400" using json_size_list [of "[PStr zeros]"] json_size_str [of zeros] by (simp add: zeros_def)
  moreover have "json_size (PStr ''inspect_elf'') \<le> 68" using json_size_str [of "''inspect_elf''"] by simp
  ultimately show ?thesis
    using json_size_dict [of "observation_entries sample_lib observation"] unfolding observation_empty by simp
qed

lemma observed_admitted: "fst (admit sample_lib default_limits 0 0 (ba_observations observed_batch)) = [object_for sample_lib 0 observation]"
proof -
  have "ba_observations observed_batch = [observation]" by (simp add: observation_def observed_batch_def)
  then show ?thesis
    using observation_small by (simp add: project_observation_entries object_for_def default_limits_def Let_def)
qed

text \<open>The attempt commits its one observation, and the host attests the candidate it holds.\<close>

lemma observed_committed:
  obtains d v where "commit sample_lib (\<lambda>_. ''t'') ''r'' default_limits ''a'' observed_batch observed_store = (Inr v, d)"
    "load_manifest sample_lib ''r'' ''a'' d = Inr v" "mv_items v = [item_view_for (object_for sample_lib 0 observation)]"
    "mv_complete v" "mv_gap v = None" "attempts d = attempts observed_store" "proofs d = []"
    "evidence_runs d = evidence_runs observed_store" "runs d = runs observed_store" "challenges d = challenges observed_store"
    "manifest_rows d = [batch_manifest sample_lib (\<lambda>_. ''t'') ''r'' default_limits observed_attempt observed_batch]"
proof -
  have id: "at_id observed_attempt = ''a''" by (simp add: observed_attempt_def verified_attempt_def)
  have one: "length (ba_observations observed_batch) = 1" "ba_complete observed_batch" "ba_gap observed_batch = None"
    by (simp_all add: observed_batch_def)
  obtain m where admit: "admit sample_lib default_limits 0 0 (ba_observations observed_batch) = ([object_for sample_lib 0 observation], m)"
    using observed_admitted by (cases "admit sample_lib default_limits 0 0 (ba_observations observed_batch)") simp
  then have m: "omitted m = 0" using admit_counts [OF admit] one by simp
  let ?v = "committed_view sample_lib (\<lambda>_. ''t'') ''r'' default_limits observed_attempt observed_batch"
  have v: "mv_items ?v = [item_view_for (object_for sample_lib 0 observation)]" "mv_complete ?v" "mv_gap ?v = None"
    by (simp_all add: committed_view_def admit manifest_view_of_def batch_manifest_def manifest_row_for_def Let_def m one)
  from commit_effect [OF sample_lib_hex observed_ready] obtain new where
    "commit sample_lib (\<lambda>_. ''t'') ''r'' default_limits (at_id observed_attempt) observed_batch observed_store = (Inr ?v,
      observed_store\<lparr>evidence_objects := evidence_objects observed_store @ new,
        manifests := Some (manifest_rows observed_store @ [batch_manifest sample_lib (\<lambda>_. ''t'') ''r'' default_limits observed_attempt observed_batch]),
        evidence_items := evidence_items observed_store @ map (item_row_for ''r'' (mf_digest (batch_manifest sample_lib (\<lambda>_. ''t'') ''r'' default_limits observed_attempt observed_batch)))
          (fst (admit sample_lib default_limits 0 0 (ba_observations observed_batch)))\<rparr>)"
    "load_manifest sample_lib ''r'' (at_id observed_attempt) (observed_store\<lparr>evidence_objects := evidence_objects observed_store @ new,
        manifests := Some (manifest_rows observed_store @ [batch_manifest sample_lib (\<lambda>_. ''t'') ''r'' default_limits observed_attempt observed_batch]),
        evidence_items := evidence_items observed_store @ map (item_row_for ''r'' (mf_digest (batch_manifest sample_lib (\<lambda>_. ''t'') ''r'' default_limits observed_attempt observed_batch)))
          (fst (admit sample_lib default_limits 0 0 (ba_observations observed_batch)))\<rparr>) = Inr ?v" by metis
  from this [unfolded id] show thesis
    by (rule that) (use v in \<open>simp_all add: observed_store_def empty_db_def manifest_rows_def\<close>)
qed

lemma observed_attested:
  assumes "load_manifest sample_lib ''r'' ''a'' d = Inr v" "mv_items v = [item_view_for (object_for sample_lib 0 observation)]"
    "mv_complete v" "mv_gap v = None" "attempts d = attempts observed_store" "proofs d = []"
    "evidence_runs d = evidence_runs observed_store" "runs d = runs observed_store" "challenges d = challenges observed_store"
  shows "\<exists>s. attest_candidate_with_reason sample_lib (\<lambda>_. ''t'') ''r'' default_limits ''a'' zeros True d = (Inr (Inl s),
    d\<lparr>proofs := [\<lparr>pf_attempt = ''a'', pf_run = ''r'', pf_challenge = 7, pf_key = zeros, pf_manifest = mv_digest v, pf_at = ''t''\<rparr>]\<rparr>)"
proof -
  let ?x = "item_view_for (object_for sample_lib 0 observation)"
  have payload: "iv_payload ?x = observation_entries sample_lib observation" "iv_tool ?x = ''inspect_elf''"
    by (simp_all add: item_view_for_def object_for_def dict_items_def observation_def observed_batch_def canonical_tool_def
        KNOWN_TOOLS_def METADATA_TOOLS_def)
  have obs: "item_observes zeros ?x" "\<not> item_supplies zeros ?x"
    by (simp_all add: item_observes_def item_supplies_def payload observation_empty in_list_def)
  have mem: "\<exists>m. memory_observation_of ?x = Inr m"
    by (simp add: memory_observation_of_def payload observation_empty first_error_def)
  then obtain m where m: "memory_observation_of ?x = Inr m" ..
  have run: "verify_run (lib_sha sample_lib) ''r'' default_limits d = Inr ()"
    by (rule limits_row_verifies [where stamp = "''t''"]) (simp add: assms observed_store_def)
  have at: "attempt_in_run ''r'' ''a'' d = Inr observed_attempt"
    by (simp add: attempt_in_run_def assms observed_store_def first_row_def observed_attempt_def verified_attempt_def)
  have ins: "attest_body \<lparr>pf_attempt = ''a'', pf_run = ''r'', pf_challenge = 7, pf_key = zeros, pf_manifest = mv_digest v, pf_at = ''t''\<rparr> d
      = Inr ((), d\<lparr>proofs := [\<lparr>pf_attempt = ''a'', pf_run = ''r'', pf_challenge = 7, pf_key = zeros, pf_manifest = mv_digest v, pf_at = ''t''\<rparr>]\<rparr>)"
    by (simp add: attest_body_def insert_proof_def assms first_row_def has_run_def has_challenge_def observed_store_def empty_db_def
        observed_attempt_def verified_attempt_def)
  have c: "at_challenge observed_attempt = 7" by (simp add: observed_attempt_def verified_attempt_def)
  show ?thesis
    by (simp add: attest_candidate_with_reason_def memory_source_of_def run assms zeros_hex m obs rejection_of_def at c ins transaction_def payload)
qed

lemma vault_always_sound_witness:
  "\<exists>d. (vault_step sample_lib)\<^sup>*\<^sup>* observed_store d \<and> proofs d \<noteq> [] \<and> (\<forall>f \<in> set (proofs d). attested d f)"
proof -
  obtain d v where d: "commit sample_lib (\<lambda>_. ''t'') ''r'' default_limits ''a'' observed_batch observed_store = (Inr v, d)"
    "load_manifest sample_lib ''r'' ''a'' d = Inr v" "mv_items v = [item_view_for (object_for sample_lib 0 observation)]"
    "mv_complete v" "mv_gap v = None" "attempts d = attempts observed_store" "proofs d = []"
    "evidence_runs d = evidence_runs observed_store" "runs d = runs observed_store" "challenges d = challenges observed_store"
    using observed_committed by metis
  obtain s d' where d': "attest_candidate_with_reason sample_lib (\<lambda>_. ''t'') ''r'' default_limits ''a'' zeros True d = (Inr (Inl s), d')"
    "proofs d' \<noteq> []"
    using observed_attested [OF d(2-)] by auto
  have "construct_batch observed_batch = Inr observed_batch" by (simp add: construct_batch_def observed_batch_def)
  then have steps: "(vault_step sample_lib)\<^sup>*\<^sup>* observed_store d'"
    using vault_step.Commit [OF _ d(1)] vault_step.Attest [OF d'(1)] by (meson converse_rtranclp_into_rtranclp r_into_rtranclp)
  have "fresh_vault observed_store" by (simp add: fresh_vault_def observed_store_def empty_db_def manifest_rows_def)
  from vault_always_sound [OF this steps] have "\<forall>f \<in> set (proofs d'). attested d' f" by (simp add: proofs_sound_def)
  with steps d'(2) show ?thesis by blast
qed

lemma attestation_needs_evidence_witness:
  "\<exists>d m. load_manifest sample_lib ''r'' ''a'' d = Inr m \<and> (\<exists>x \<in> set (mv_items m). item_observes zeros x \<and> iv_tool x \<noteq> ''run_shell'')"
proof -
  obtain d v where d: "load_manifest sample_lib ''r'' ''a'' d = Inr v" "mv_items v = [item_view_for (object_for sample_lib 0 observation)]"
    "mv_complete v" "mv_gap v = None" "attempts d = attempts observed_store" "proofs d = []"
    "evidence_runs d = evidence_runs observed_store" "runs d = runs observed_store" "challenges d = challenges observed_store"
    using observed_committed by metis
  obtain s d' where "attest_candidate_with_reason sample_lib (\<lambda>_. ''t'') ''r'' default_limits ''a'' zeros True d = (Inr (Inl s), d')"
    using observed_attested [OF d] by auto
  from attestation_needs_evidence [OF this] show ?thesis by blast
qed

lemma commit_can_be_loaded_witness:
  "\<exists>v d. commit sample_lib (\<lambda>_. ''t'') ''r'' default_limits ''a'' observed_batch observed_store = (Inr v, d)
     \<and> load_manifest sample_lib ''r'' ''a'' d = Inr v \<and> length (mv_items v) = 1 \<and> mv_complete v"
proof -
  have id: "at_id observed_attempt = ''a''" by (simp add: observed_attempt_def verified_attempt_def)
  show ?thesis
    using commit_can_be_loaded [OF sample_lib_hex observed_ready] unfolding observed_admitted id
    by (auto simp: observed_batch_def)
qed

lemma admitted_within_quotas_witness:
  "length (fst (admit sample_lib default_limits 0 0 (ba_observations observed_batch))) = 1
   \<and> admitted_bytes (fst (admit sample_lib default_limits 0 0 (ba_observations observed_batch))) \<le> 67108864"
proof -
  obtain m where admit: "admit sample_lib default_limits 0 0 (ba_observations observed_batch) = ([object_for sample_lib 0 observation], m)"
    using observed_admitted by (cases "admit sample_lib default_limits 0 0 (ba_observations observed_batch)") simp
  from admitted_within_quotas [OF admit] have "admitted_bytes [object_for sample_lib 0 observation] \<le> 67108864"
    by (simp add: default_limits_def)
  then show ?thesis unfolding observed_admitted by simp
qed

text \<open>An attempt that is interrupted is sealed.\<close>

lemma sealing_invents_nothing_witness:
  "\<exists>d. seal_unavailable_attempt_evidence (lib_sha sample_lib) (\<lambda>_. ''t'')
       (observed_store\<lparr>attempts := [observed_attempt\<lparr>at_status := ''interrupted''\<rparr>], evidence_runs := []\<rparr>) = (Inr 1, d)
     \<and> (\<exists>m \<in> set (manifest_rows d). mf_attempt m = ''a'')
     \<and> seal_unavailable_attempt_evidence (lib_sha sample_lib) (\<lambda>_. ''u'') d = (Inr 0, d)"
proof -
  let ?a = "observed_attempt\<lparr>at_status := ''interrupted''\<rparr>"
  let ?d = "observed_store\<lparr>attempts := [?a], evidence_runs := []\<rparr>"
  have u: "unsealed (ensure_evidence_schema ?d) = [?a]"
    by (simp add: unsealed_def manifest_of_def manifest_rows_def first_row_def ensure_evidence_schema_def observed_store_def empty_db_def)
  obtain d where d': "seal_attempt (lib_sha sample_lib) ''t'' ''t'' ?a (ensure_evidence_schema ?d) = Inr ((), d)" "attempts d = [?a]"
    by (simp add: seal_attempt_def Let_def insert_manifest_def has_run_def run_row_of_def first_row_def ensure_evidence_schema_def
        observed_store_def empty_db_def manifest_rows_def manifest_row_for_def limits_row_run observed_attempt_def verified_attempt_def)
  have d: "seal_unavailable_attempt_evidence (lib_sha sample_lib) (\<lambda>_. ''t'') ?d = (Inr 1, d)" "attempts d = [?a]"
    using d' by (simp_all only: seal_unavailable_attempt_evidence_def transaction_def seal_body_def u Let_def tx_bind_def tx_return_def)
      (simp add: tx_bind_def tx_return_def)
  have "at_id ?a = ''a'' \<and> at_status ?a \<noteq> ''running''" by (simp add: observed_attempt_def verified_attempt_def)
  with sealing_invents_nothing [OF d(1)] d show ?thesis by (metis list.set_intros(1))
qed

section \<open>Carrying evidence of a candidate\<close>

lemma load_manifest_attempts:
  fixes d :: db
  assumes "attempt_in_run run i d = Inr a" "attempt_in_run run i (d\<lparr>attempts := as\<rparr>) = Inr b" "attempt_identity b a"
  shows "load_manifest lib run i (d\<lparr>attempts := as\<rparr>) = load_manifest lib run i d"
proof -
  have same: "manifest_of (d\<lparr>attempts := as\<rparr>) = manifest_of d" "object_of (d\<lparr>attempts := as\<rparr>) = object_of d"
    "item_rows (d\<lparr>attempts := as\<rparr>) = item_rows d"
    by (intro ext, simp add: manifest_of_def manifest_rows_def object_of_def item_rows_def)+
  have item: "load_item lib run (d\<lparr>attempts := as\<rparr>) = load_item lib run d" by (intro ext) (auto simp: load_item_def same)
  have row: "at_run b = at_run a" "at_challenge b = at_challenge a" "at_episode b = at_episode a" "at_lane b = at_lane a"
    using assms(3) by (simp_all add: attempt_identity_def)
  show ?thesis unfolding load_manifest_def same item assms(1,2) bind_result_simps row ..
qed

lemma small_int: "0 \<le> i \<Longrightarrow> i < 10 ^ k \<Longrightarrow> 0 < k \<Longrightarrow> json_size (PInt i) \<le> k"
  using length_dec_digits_bound [of "nat i" k] by (simp add: json_size_def show_int_def nat_less_iff)

lemma digits_half: "length (dec_digits n) \<le> n div 2 + 1"
proof (rule length_dec_digits_bound)
  have "n div 2 + 1 \<le> 10 ^ (n div 2)" using less_ten_power [of "n div 2"] by simp
  then have "10 * (n div 2 + 1) \<le> (10 :: nat) ^ (n div 2 + 1)" by simp
  moreover have "n < 2 * (n div 2 + 1)" by presburger
  ultimately show "n < 10 ^ (n div 2 + 1)" by linarith
qed simp

lemma halving_bound:
  fixes n k :: nat
  assumes "n \<le> n div 2 + k"
  shows "n \<le> 2 * k"
proof -
  have "2 * (n div 2) \<le> n" by simp
  with assms show ?thesis by linarith
qed

definition carried_attempt :: attempt_row where
  "carried_attempt = observed_attempt\<lparr>at_status := ''candidate''\<rparr>"

lemma carried_loaded:
  obtains d m where "load_manifest sample_lib ''r'' ''a'' d = Inr m" "attempts d = [carried_attempt]"
    "verify_run (lib_sha sample_lib) ''r'' default_limits d = Inr ()" "carried_rows ''r'' 7 0 1 d = [(''a'', ''candidate'')]"
    "mv_attempt m = ''a''" "mv_challenge m = 7" "mv_committed m = 1" "mv_complete m" "mv_episode m = 0" "mv_gap m = None"
    "0 \<le> mv_bytes m" "mv_bytes m < 10 ^ 4" "length (mv_items m) = 1" "mv_lane m = 0" "mv_observations m = 1"
    "mv_omissions m = [(''attempt_bytes'', PInt 0), (''object_bytes'', PInt 0), (''observation_limit'', PInt 0)]" "mv_omitted m = 0"
proof -
  obtain d v where d: "commit sample_lib (\<lambda>_. ''t'') ''r'' default_limits ''a'' observed_batch observed_store = (Inr v, d)"
    "load_manifest sample_lib ''r'' ''a'' d = Inr v" "attempts d = attempts observed_store"
    "evidence_runs d = evidence_runs observed_store" 
    "manifest_rows d = [batch_manifest sample_lib (\<lambda>_. ''t'') ''r'' default_limits observed_attempt observed_batch]"
    using observed_committed by metis
  let ?d = "d\<lparr>attempts := [carried_attempt]\<rparr>"
  have id: "at_id observed_attempt = ''a''" by (simp add: observed_attempt_def verified_attempt_def)
  let ?v = "committed_view sample_lib (\<lambda>_. ''t'') ''r'' default_limits observed_attempt observed_batch"
  have v: "v = ?v"
    using commit_effect [OF sample_lib_hex observed_ready] d(1) unfolding id by (metis Inr_inject Pair_inject)
  obtain m where admit: "admit sample_lib default_limits 0 0 (ba_observations observed_batch) = ([object_for sample_lib 0 observation], m)"
    using observed_admitted by (cases "admit sample_lib default_limits 0 0 (ba_observations observed_batch)") simp
  have one: "length (ba_observations observed_batch) = 1" "ba_complete observed_batch" "ba_gap observed_batch = None"
    by (simp_all add: observed_batch_def)
  then have m: "om_attempt m = 0" "om_object m = 0" "om_observation m = 0" using admit_counts [OF admit] by (simp_all add: omitted_def)
  have load: "load_manifest sample_lib ''r'' ''a'' ?d = Inr v"
  proof -
    have "attempt_in_run ''r'' ''a'' d = Inr observed_attempt" "attempt_in_run ''r'' ''a'' ?d = Inr carried_attempt"
      "attempt_identity carried_attempt observed_attempt"
      by (simp_all add: attempt_in_run_def d observed_store_def first_row_def carried_attempt_def observed_attempt_def verified_attempt_def
          attempt_identity_def)
    from load_manifest_attempts [OF this] d(2) show ?thesis by simp
  qed
  have rows: "carried_rows ''r'' 7 0 1 ?d = [(''a'', ''candidate'')]"
  proof -
    have "manifest_rows ?d = manifest_rows d" by (simp add: manifest_rows_def)
    then show ?thesis
      by (simp add: carried_rows_def d(5) batch_manifest_def admit manifest_row_for_def Let_def carried_attempt_def observed_attempt_def
          verified_attempt_def CARRIED_STATUS_def)
  qed
  have size: "json_size (PDict (observation_entries sample_lib observation)) < 10 ^ 4" using observation_small by simp
  show thesis
  proof (rule that [of ?d v])
    show "verify_run (lib_sha sample_lib) ''r'' default_limits ?d = Inr ()"
      by (rule limits_row_verifies [where stamp = "''t''"]) (simp add: d observed_store_def)
  qed (use load rows size in \<open>simp_all add: v committed_view_def admit manifest_view_of_def batch_manifest_def manifest_row_for_def Let_def one m
      omitted_def observed_attempt_def verified_attempt_def manifest_gets omissions_dict_def dict_items_def admitted_bytes_def object_for_def\<close>)
qed


lemma carried_bundle:
  obtains d b n where "carry sample_lib ''r'' default_limits 7 0 1 d = Inr b" "bd_manifests b = [n]" "attempts d = [carried_attempt]"
    "mv_attempt n = ''a''"
proof -
  obtain d m where d: "load_manifest sample_lib ''r'' ''a'' d = Inr m" "attempts d = [carried_attempt]"
    "verify_run (lib_sha sample_lib) ''r'' default_limits d = Inr ()" "carried_rows ''r'' 7 0 1 d = [(''a'', ''candidate'')]"
    and m: "mv_attempt m = ''a''" "mv_challenge m = 7" "mv_committed m = 1" "mv_complete m" "mv_episode m = 0" "mv_gap m = None"
    "0 \<le> mv_bytes m" "mv_bytes m < 10 ^ 4" "length (mv_items m) = 1" "mv_lane m = 0" "mv_observations m = 1"
    "mv_omissions m = [(''attempt_bytes'', PInt 0), (''object_bytes'', PInt 0), (''observation_limit'', PInt 0)]" "mv_omitted m = 0"
    using carried_loaded .
  define r where "r = redact_if_sensitive ''candidate'' m"
  define base where "base = r\<lparr>mv_items := [], mv_carry_omitted := length (mv_items r)\<rparr>"
  let ?pack = "candidate_bundle ''r'' 7 0 1 [r]"
  let ?fits = "\<lambda>ms. bd_encoded (?pack ms) \<le> lim_carry default_limits"
  have r: "r = m\<lparr>mv_items := map (\<lambda>x. x\<lparr>iv_redact := True\<rparr>) (mv_items m), mv_redact := True\<rparr>"
    by (simp add: r_def redact_if_sensitive_def)
  note one = small_int [of _ 1, simplified]
  have base_size: "json_size (manifest_dict base) \<le> 1500"
  proof -
    have "json_size (PInt (mv_bytes m)) \<le> 4" using small_int [OF m(7,8)] by simp
    moreover have "json_size (PDict (mv_omissions m)) \<le> 400"
      using json_size_dict [of "mv_omissions m"] one [of 0] by (simp add: m)
    moreover have "json_size (PStr ''a'') \<le> 8" using json_size_str [of "''a''"] by simp
    moreover have "json_size (PList []) = 2" by (simp add: json_size_def join_def)
    ultimately show ?thesis
      using json_size_dict [of "dict_items (manifest_dict base)"] one [of 0] one [of 1] one [of 7] json_size_scalars(2) [of True]
      by (simp add: manifest_dict_def base_def r m dict_items_def json_size_scalars(1) null_text_def)
  qed
  have fits: "?fits [base]"
  proof -
    obtain e where e: "?pack [base] = \<lparr>bd_run = ''r'', bd_challenge = 7, bd_lane = 0, bd_before = 1, bd_manifests = [base],
        bd_omitted_manifests = 0, bd_omitted_items = 1, bd_encoded = e\<rparr>"
      unfolding candidate_bundle_def
      by (rule bundle_size_fixed [of "\<lparr>bd_run = ''r'', bd_challenge = 7, bd_lane = 0, bd_before = 1, bd_manifests = [base],
          bd_omitted_manifests = 0, bd_omitted_items = 1, bd_encoded = 0\<rparr>"]) (simp_all add: base_def r m)
    have "e = measured (?pack [base])" using candidate_bundle_measured [of "''r''" 7 0 1 "[r]" "[base]"] by (simp add: e)
    also have "\<dots> = int (json_size (bundle_dict (?pack [base])))" by (simp add: measured_def)
    finally have ee: "e = int (json_size (bundle_dict (?pack [base])))" .
    have "json_size (PInt e) \<le> nat e div 2 + 1" using digits_half [of "nat e"] ee by (simp add: json_size_def show_int_def)
    moreover have "json_size (PList [manifest_dict base]) \<le> 1503" using json_size_list [of "[manifest_dict base]"] base_size by simp
    moreover have "json_size (PStr ''r'') \<le> 8" using json_size_str [of "''r''"] by simp
    ultimately have "json_size (bundle_dict (?pack [base])) \<le> nat e div 2 + 4000"
      using json_size_dict [of "dict_items (bundle_dict (?pack [base]))"] one [of 0] one [of 1] one [of 7]
      by (simp add: e bundle_dict_def dict_items_def)
    then have "nat e \<le> nat e div 2 + 4000" using ee by simp
    then have "nat e \<le> 2 * 4000" by (rule halving_bound)
    moreover have "bd_encoded (?pack [base]) = e" by (simp add: e)
    ultimately show ?thesis by (simp add: default_limits_def)
  qed
  obtain x where x: "mv_items r = [x]" using m(9) by (cases "mv_items m") (auto simp: r)
  define n where "n = admit_items ?fits [] r [] base (mv_items r)"
  have sel: "carry_manifests ?fits [] [r] = [n]"
    using fits by (simp add: Let_def base_def [symmetric] n_def)
  have base_at: "mv_attempt base = ''a''" "mv_attempt r = ''a''" by (simp_all add: base_def r m)
  have n: "?fits [n]" using fits unfolding n_def x by (simp add: Let_def)
  have na: "mv_attempt n = ''a''" unfolding n_def x by (simp add: Let_def base_at)
  have "carry sample_lib ''r'' default_limits 7 0 1 d = Inr (?pack [n])"
    using n by (simp add: carry_def d r_def [symmetric] sel Let_def del: carry_manifests.simps)
  from that [OF this _ d(2) na] show thesis by (simp add: candidate_bundle_manifests)
qed

lemma carry_is_exact_and_bounded_witness:
  "\<exists>d b. carry sample_lib ''r'' default_limits 7 0 1 d = Inr b \<and> length (bd_manifests b) = 1
     \<and> bd_encoded b = int (json_size (bundle_dict b)) \<and> bd_encoded b \<le> 65536"
proof -
  obtain d b n where b: "carry sample_lib ''r'' default_limits 7 0 1 d = Inr b" "bd_manifests b = [n]" using carried_bundle by metis
  from carry_is_exact_and_bounded [OF b(1)] have "bd_encoded b = int (json_size (bundle_dict b))" "bd_encoded b \<le> 65536"
    by (simp_all add: default_limits_def)
  with b show ?thesis by (intro exI [of _ d] exI [of _ b]) simp
qed

lemma carried_candidates_redacted_witness:
  "\<exists>d b n. carry sample_lib ''r'' default_limits 7 0 1 d = Inr b \<and> n \<in> set (bd_manifests b)
     \<and> (\<forall>k \<in> set (doc_keys (manifest_dict n)). \<not> ends_with ''sha256'' (py_lower k) \<and> k \<noteq> ''digest'')"
proof -
  obtain d b n where b: "carry sample_lib ''r'' default_limits 7 0 1 d = Inr b" "bd_manifests b = [n]" "attempts d = [carried_attempt]"
    "mv_attempt n = ''a''" using carried_bundle .
  have h: "holds_candidate d n" "distinct (map at_id (attempts d))" "n \<in> set (bd_manifests b)"
    by (simp_all add: holds_candidate_def b carried_attempt_def observed_attempt_def verified_attempt_def)
  have dg: "occurs (starts_with ''digest'') (py_lower ''digest'')" by code_simp
  have "\<not> ends_with ''sha256'' (py_lower k) \<and> k \<noteq> ''digest''" if "k \<in> set (doc_keys (manifest_dict n))" for k
    using carried_candidates_redacted [OF b(1) h(3,1,2) that] dg by auto
  with b(1) h(3) show ?thesis by blast
qed

end
