(* ===== verification/Memory_Text.thy ===== *)
theory Memory_Text
  imports Evidence_Carry
begin

text \<open>
  What the memory of a run may say (\<open>src/rapido/memory.py\<close>): the search for candidates and credential
  words, the encodings of the standard library under which a private value is recognised, and the
  recursive removal of everything unsafe from a value. The Unicode tables are an argument; texts are
  code points 0 to 255. The lemmas show that what is kept is clean and that the usual encodings of a
  candidate are refused.
\<close>

section \<open>Candidates and credentials in a text\<close>

text \<open>The Unicode tables of the interpreter: \<open>unicodedata.normalize("NFKC", s)\<close> and \<open>str.casefold\<close>.\<close>

record unicode =
  uni_nfkc :: "string \<Rightarrow> string"
  uni_fold :: "string \<Rightarrow> string"

definition body_char :: "char \<Rightarrow> bool" where
  "body_char c \<longleftrightarrow> c \<notin> {CHR ''{'', CHR ''}'', CHR 0x0D, CHR 0x0A}"

definition candidate_prefix :: "string \<Rightarrow> nat option" where
  "candidate_prefix s =
     (if py_lower (take 9 s) = ''incypher{'' then Some 9 else if py_lower (take 5 s) = ''flag{'' then Some 5 else None)"

definition candidate_at :: "string \<Rightarrow> string option" where
  "candidate_at s =
     (case candidate_prefix s of
        None \<Rightarrow> None
      | Some k \<Rightarrow> (let n = length (takeWhile body_char (drop k s)) in
          if 1 \<le> n \<and> n \<le> 512 \<and> take 1 (drop (k + n) s) = ''}'' then Some (take (k + n + 1) s) else None))"

text \<open>The matches of \<open>_CANDIDATE.finditer\<close>; two of them never overlap, since the body has no brace.\<close>

fun candidates_in :: "string \<Rightarrow> string list" where
  "candidates_in [] = []"
| "candidates_in (c # s) = (case candidate_at (c # s) of None \<Rightarrow> candidates_in s | Some x \<Rightarrow> x # candidates_in s)"

definition has_candidate :: "string \<Rightarrow> bool" where
  "has_candidate s = occurs (\<lambda>t. candidate_at t \<noteq> None) s"

definition full_candidate :: "string \<Rightarrow> bool" where
  "full_candidate s \<longleftrightarrow> candidate_at s = Some s"

definition CREDENTIAL_WORDS :: "string list" where
  "CREDENTIAL_WORDS = [''credential'', ''password'', ''secret'', ''token'']"

definition separator :: "char \<Rightarrow> bool" where
  "separator c \<longleftrightarrow> c \<in> set ''_:=-'' \<or> is_space c"

definition credential_here :: "string \<Rightarrow> bool" where
  "credential_here s = list_ex (\<lambda>w. starts_with w s
     \<and> (case drop (length w) s of [] \<Rightarrow> True | c # _ \<Rightarrow> separator c)) CREDENTIAL_WORDS"

definition credential_marker :: "string \<Rightarrow> bool" where
  "credential_marker s = (let l = py_lower s in
     credential_here l \<or> occurs (\<lambda>t. case t of [] \<Rightarrow> False | c # r \<Rightarrow> separator c \<and> credential_here r) l)"

section \<open>Encodings of the standard library\<close>

definition upper_hex_char :: "nat \<Rightarrow> char" where
  "upper_hex_char n = (if n < 10 then char_of (48 + n) else char_of (55 + n))"

definition bytes_hex :: "string \<Rightarrow> string" where
  "bytes_hex s = concat (map (\<lambda>c. [hex_char (of_char c div 16), hex_char (of_char c mod 16)]) s)"

definition bytes_hex_upper :: "string \<Rightarrow> string" where
  "bytes_hex_upper s = concat (map (\<lambda>c. [upper_hex_char (of_char c div 16), upper_hex_char (of_char c mod 16)]) s)"

definition hex_digit :: "char \<Rightarrow> nat option" where
  "hex_digit c = (let n = of_char c :: nat in
     if 48 \<le> n \<and> n \<le> 57 then Some (n - 48)
     else if 97 \<le> n \<and> n \<le> 102 then Some (n - 87)
     else if 65 \<le> n \<and> n \<le> 70 then Some (n - 55) else None)"

fun from_hex :: "string \<Rightarrow> string option" where
  "from_hex [] = Some []"
| "from_hex [a] = None"
| "from_hex (a # b # r) =
     (case (hex_digit a, hex_digit b, from_hex r) of
        (Some x, Some y, Some s) \<Rightarrow> Some (char_of (16 * x + y) # s)
      | _ \<Rightarrow> None)"

definition url_safe :: "char \<Rightarrow> bool" where
  "url_safe c \<longleftrightarrow> is_letter c \<or> is_digit c \<or> c \<in> set ''_.-~/''"

definition quote_bytes :: "string \<Rightarrow> string" where
  "quote_bytes s = concat (map (\<lambda>c. if url_safe c then [c]
     else [CHR 0x25, upper_hex_char (of_char c div 16), upper_hex_char (of_char c mod 16)]) s)"

fun unquote_bytes :: "string \<Rightarrow> string" where
  "unquote_bytes (p # a # b # r) =
     (if p = CHR 0x25 then
        (case (hex_digit a, hex_digit b) of
           (Some x, Some y) \<Rightarrow> char_of (16 * x + y) # unquote_bytes r
         | _ \<Rightarrow> p # unquote_bytes (a # b # r))
      else p # unquote_bytes (a # b # r))"
| "unquote_bytes s = s"

definition b64_char :: "char \<Rightarrow> char \<Rightarrow> nat \<Rightarrow> char" where
  "b64_char c62 c63 n =
     (if n < 26 then char_of (65 + n) else if n < 52 then char_of (71 + n) else if n < 62 then char_of (n - 4)
      else if n = 62 then c62 else c63)"

text \<open>\<open>base64.b64encode\<close> with the last two characters of the alphabet given.\<close>

fun b64_encode :: "(nat \<Rightarrow> char) \<Rightarrow> string \<Rightarrow> string" where
  "b64_encode e [] = []"
| "b64_encode e [a] = (let n = of_char a * 16 in [e (n div 64), e (n mod 64), CHR ''='', CHR ''=''])"
| "b64_encode e [a, b] = (let n = (of_char a * 256 + of_char b) * 4 in
     [e (n div 4096), e (n div 64 mod 64), e (n mod 64), CHR ''=''])"
| "b64_encode e (a # b # c # r) = (let n = (of_char a * 256 + of_char b) * 256 + of_char c in
     [e (n div 262144), e (n div 4096 mod 64), e (n div 64 mod 64), e (n mod 64)] @ b64_encode e r)"

definition b64_standard :: "nat \<Rightarrow> char" where
  "b64_standard = b64_char (CHR ''+'') (CHR ''/'')"

definition b64_urlsafe :: "nat \<Rightarrow> char" where
  "b64_urlsafe = b64_char (CHR ''-'') (CHR ''_'')"

definition b64_value :: "char \<Rightarrow> nat option" where
  "b64_value c = (let n = of_char c :: nat in
     if 65 \<le> n \<and> n \<le> 90 then Some (n - 65)
     else if 97 \<le> n \<and> n \<le> 122 then Some (n - 71)
     else if 48 \<le> n \<and> n \<le> 57 then Some (n + 4)
     else if c = CHR ''+'' then Some 62 else if c = CHR ''/'' then Some 63 else None)"

text \<open>\<open>base64.b64decode(s, validate=True)\<close> of a text whose length is a multiple of four.\<close>

fun b64_decode :: "string \<Rightarrow> string option" where
  "b64_decode [] = Some []"
| "b64_decode (a # b # c # d # r) =
     (case (b64_value a, b64_value b) of
        (Some x, Some y) \<Rightarrow>
          if r = [] \<and> d = CHR ''='' \<and> c = CHR ''='' then Some [char_of ((x * 64 + y) div 16)]
          else (case b64_value c of
             None \<Rightarrow> None
           | Some z \<Rightarrow>
               if r = [] \<and> d = CHR ''='' then
                 (let n = ((x * 64 + y) * 64 + z) div 4 in Some [char_of (n div 256), char_of (n mod 256)])
               else (case (b64_value d, b64_decode r) of
                  (Some w, Some s) \<Rightarrow> (let n = ((x * 64 + y) * 64 + z) * 64 + w in
                    Some (char_of (n div 65536) # char_of (n div 256 mod 256) # char_of (n mod 256) # s))
                | _ \<Rightarrow> None))
      | _ \<Rightarrow> None)"
| "b64_decode _ = None"

definition from_urlsafe :: "string \<Rightarrow> string" where
  "from_urlsafe s = map (\<lambda>c. if c = CHR ''-'' then CHR ''+'' else if c = CHR ''_'' then CHR ''/'' else c) s"

definition pad_b64 :: "string \<Rightarrow> string" where
  "pad_b64 s = s @ replicate ((4 - length s mod 4) mod 4) (CHR ''='')"

definition b64_text :: "string \<Rightarrow> bool" where
  "b64_text s \<longleftrightarrow> s \<noteq> [] \<and> list_all (\<lambda>c. word_char c \<or> c \<in> set ''+/=-'') s"

definition strip_pad :: "string \<Rightarrow> string" where
  "strip_pad s = rev (dropWhile (\<lambda>c. c = CHR ''='') (rev s))"

section \<open>Texts that are never given to a model\<close>

definition payloads :: "string \<Rightarrow> string list" where
  "payloads s =
     (if CHR 0x25 \<in> set s then [unquote_bytes (utf8_bytes s)] else [])
     @ (case from_hex s of Some b \<Rightarrow> if s \<noteq> [] then [b] else [] | None \<Rightarrow> [])
     @ (if b64_text s then List.map_filter b64_decode [pad_b64 s, from_urlsafe (pad_b64 s)] else [])"

definition decoded_candidate :: "unicode \<Rightarrow> string \<Rightarrow> bool" where
  "decoded_candidate u s = list_ex (\<lambda>p. case utf8_decode p of None \<Rightarrow> False | Some t \<Rightarrow> has_candidate (uni_nfkc u t)) (payloads s)"

text \<open>\<open>urlsplit(s).netloc\<close> is not empty or the call raises; \<open>urlsplit\<close> drops leading control characters and
  blanks, tabs and line ends.\<close>

definition url_clean :: "string \<Rightarrow> string" where
  "url_clean s = filter (\<lambda>c. c \<notin> {CHR 0x09, CHR 0x0A, CHR 0x0D}) (dropWhile (\<lambda>c. (of_char c :: nat) \<le> 32) s)"

definition has_authority :: "string \<Rightarrow> bool" where
  "has_authority s = (let url = snd (take_scheme (url_clean s)) in
     take 2 url = ''//'' \<and> takeWhile (\<lambda>c. c \<notin> set ''/?#'') (drop 2 url) \<noteq> [])"

definition unsafe_text :: "unicode \<Rightarrow> string set \<Rightarrow> string \<Rightarrow> bool" where
  "unsafe_text u forms s = (let n = uni_nfkc u s in
     n \<in> forms \<or> has_candidate n \<or> credential_marker n \<or> decoded_candidate u n \<or> hex_lower 64 64 n
     \<or> starts_with ''/'' n \<or> has_authority n)"

text \<open>Every spelling under which a private value is refused. The values are given as bytes.\<close>

definition forms_of :: "unicode \<Rightarrow> digest_fn \<Rightarrow> string \<Rightarrow> string list" where
  "forms_of u sha raw =
     (let encoded = b64_encode b64_standard raw; safe = b64_encode b64_urlsafe raw in
      map (uni_nfkc u) (filter (\<lambda>x. x \<noteq> [])
        [case utf8_decode raw of None \<Rightarrow> [] | Some t \<Rightarrow> t, bytes_hex raw, bytes_hex_upper raw, encoded, strip_pad encoded,
         safe, strip_pad safe, quote_bytes raw, sha raw]))"

definition sensitive_forms :: "unicode \<Rightarrow> digest_fn \<Rightarrow> string list \<Rightarrow> string set" where
  "sensitive_forms u sha raws = set (concat (map (forms_of u sha) raws))"

function discover :: "unicode \<Rightarrow> nat \<Rightarrow> pyval \<Rightarrow> string list" where
  "discover u depth (PStr s) =
     (if 64 < depth then []
      else (let n = uni_nfkc u s in candidates_in n @ (if credential_marker n then [n] else [])))"
| "discover u depth (PList xs) = (if 64 < depth then [] else concat (map (discover u (depth + 1)) xs))"
| "discover u depth (PDict kvs) =
     (if 64 < depth then []
      else concat (map (\<lambda>kv. discover u (depth + 1) (PStr (fst kv))) kvs) @ concat (map (\<lambda>kv. discover u (depth + 1) (snd kv)) kvs))"
| "discover u depth PNone = []"
| "discover u depth (PBool b) = []"
| "discover u depth (PInt i) = []"
| "discover u depth (PFloat f) = []"
  by pat_completeness auto

termination discover
proof (relation "measure (\<lambda>(u, d, v). 65 - d)")
qed auto

definition FORBIDDEN_FRAGMENTS :: "string list" where
  "FORBIDDEN_FRAGMENTS = [''authority'', ''candidate'', ''credential'', ''digest'', ''endpoint'', ''key'', ''password'',
     ''path'', ''receipt'', ''secret'', ''token'']"

definition forbidden_key :: "unicode \<Rightarrow> string set \<Rightarrow> string \<Rightarrow> bool" where
  "forbidden_key u forms k \<longleftrightarrow> list_ex (\<lambda>w. occurs (starts_with w) (uni_fold u (uni_nfkc u k))) FORBIDDEN_FRAGMENTS
     \<or> unsafe_text u forms k"

definition finite_float :: "string \<Rightarrow> bool" where
  "finite_float f \<longleftrightarrow> f \<notin> {''NaN'', ''Infinity'', ''-Infinity''}"

text \<open>\<open>_sanitize\<close>: what is kept of a value, \<open>None\<close> where it is rejected.\<close>

function sanitize :: "unicode \<Rightarrow> string set \<Rightarrow> nat \<Rightarrow> pyval \<Rightarrow> pyval option" where
  "sanitize u forms depth PNone = (if 64 < depth then None else Some PNone)"
| "sanitize u forms depth (PBool b) = (if 64 < depth then None else Some (PBool b))"
| "sanitize u forms depth (PInt i) = (if 64 < depth then None else Some (PInt i))"
| "sanitize u forms depth (PFloat f) = (if 64 < depth \<or> \<not> finite_float f then None else Some (PFloat f))"
| "sanitize u forms depth (PStr s) = (if 64 < depth \<or> unsafe_text u forms s then None else Some (PStr s))"
| "sanitize u forms depth (PList xs) =
     (if 64 < depth then None else Some (PList (List.map_filter (sanitize u forms (depth + 1)) xs)))"
| "sanitize u forms depth (PDict kvs) =
     (if 64 < depth then None
      else Some (PDict (List.map_filter (\<lambda>kv. if forbidden_key u forms (fst kv) then None
        else map_option (\<lambda>v. (fst kv, v)) (sanitize u forms (depth + 1) (snd kv))) (sort_key fst kvs))))"
  by pat_completeness auto

termination sanitize
proof (relation "measure (\<lambda>(u, f, d, v). 65 - d)")
qed auto

definition sanitize_public_value :: "unicode \<Rightarrow> digest_fn \<Rightarrow> string list \<Rightarrow> pyval \<Rightarrow> pyval" where
  "sanitize_public_value u sha private v =
     (case sanitize u (sensitive_forms u sha (private @ map utf8_bytes (discover u 0 v))) 0 v of None \<Rightarrow> PNone | Some w \<Rightarrow> w)"

section \<open>What is kept is clean\<close>

lemma sanitize_clean:
  "sanitize u forms depth v = Some w \<Longrightarrow>
     (\<forall>s \<in> set (texts_of w). \<not> unsafe_text u forms s) \<and> (\<forall>k \<in> set (doc_keys w). \<not> forbidden_key u forms k)"
proof (induction u forms depth v arbitrary: w rule: sanitize.induct)
  case (6 u forms depth xs)
  then have d: "\<not> 64 < depth" and w: "w = PList (List.map_filter (sanitize u forms (depth + 1)) xs)"
    by (auto split: if_splits)
  have entry: "(\<forall>s \<in> set (texts_of y). \<not> unsafe_text u forms s) \<and> (\<forall>k \<in> set (doc_keys y). \<not> forbidden_key u forms k)"
    if "y \<in> set (List.map_filter (sanitize u forms (depth + 1)) xs)" for y
    using that "6.IH" [OF d] by (auto simp: map_filter_def)
  then show ?case unfolding w by simp
next
  case (7 u forms depth kvs)
  let ?f = "\<lambda>kv. if forbidden_key u forms (fst kv) then None
    else map_option (\<lambda>v. (fst kv, v)) (sanitize u forms (depth + 1) (snd kv))"
  obtain es where d: "\<not> 64 < depth" and w: "w = PDict es" and es: "es = List.map_filter ?f (sort_key fst kvs)"
    using "7.prems" by (auto split: if_splits)
  have entry: "\<not> forbidden_key u forms (fst y) \<and> (\<forall>s \<in> set (texts_of (snd y)). \<not> unsafe_text u forms s)
      \<and> (\<forall>l \<in> set (doc_keys (snd y)). \<not> forbidden_key u forms l)"
    if "y \<in> set es" for y
  proof -
    from that obtain kv where kv: "kv \<in> set kvs" "?f kv = Some y" by (auto simp: es map_filter_def split: if_splits)
    then have "\<not> forbidden_key u forms (fst kv)" "fst y = fst kv" "sanitize u forms (depth + 1) (snd kv) = Some (snd y)"
      by (auto split: if_splits)
    with "7.IH" [OF d this(1,3)] kv(1) show ?thesis by simp
  qed
  have texts: "\<not> unsafe_text u forms s" if "s \<in> set (texts_of w)" for s
    using that entry unfolding w by (fastforce simp only: texts_of.simps set_concat set_map set_sort UN_iff)
  have keys: "\<not> forbidden_key u forms k" if "k \<in> set (doc_keys w)" for k
    using that entry unfolding w by (fastforce simp only: doc_keys.simps set_concat set_map UN_iff list.set insert_iff)
  show ?case using texts keys by blast
qed (auto split: if_splits)

lemma forbidden_unsafe: "\<not> forbidden_key u forms k \<Longrightarrow> \<not> unsafe_text u forms k"
  by (simp add: forbidden_key_def)

section \<open>Encodings are undone\<close>

lemma hex_digit_chars [simp]: "n < 16 \<Longrightarrow> hex_digit (hex_char n) = Some n" "n < 16 \<Longrightarrow> hex_digit (upper_hex_char n) = Some n"
  by (auto simp: hex_digit_def hex_char_def upper_hex_char_def Let_def)

lemma char_div_mod [simp]: "(of_char c :: nat) div 16 < 16" "char_of (16 * ((of_char c :: nat) div 16) + of_char c mod 16) = c"
proof -
  have "(of_char c :: nat) < 256" by simp
  then show "(of_char c :: nat) div 16 < 16" by linarith
  have "16 * ((of_char c :: nat) div 16) + of_char c mod 16 = of_char c" by simp
  then show "char_of (16 * ((of_char c :: nat) div 16) + of_char c mod 16) = c" by simp
qed

lemma from_hex_bytes_hex: "from_hex (bytes_hex s) = Some s" "from_hex (bytes_hex_upper s) = Some s"
  by (induction s) (simp_all add: bytes_hex_def bytes_hex_upper_def)

lemma url_safe_percent: "url_safe c \<Longrightarrow> c \<noteq> CHR 0x25"
  by (auto simp: url_safe_def is_letter_def is_digit_def Let_def)

lemma unquote_plain: "c \<noteq> CHR 0x25 \<Longrightarrow> unquote_bytes (c # s) = c # unquote_bytes s"
  by (cases s; cases "tl s") auto

lemma unquote_quote: "unquote_bytes (quote_bytes s) = s"
proof (induction s)
  case (Cons c s)
  have "unquote_bytes (quote_bytes (c # s)) = c # unquote_bytes (quote_bytes s)"
    by (cases "url_safe c") (simp_all add: quote_bytes_def unquote_plain url_safe_percent)
  with Cons show ?case by simp
qed (simp add: quote_bytes_def)

lemma of_char_small: "n < 256 \<Longrightarrow> (of_char (char_of n :: char) :: nat) = n"
  by simp

lemma sextet_cases:
  assumes "n < (64 :: nat)"
  obtains "n < 26" | "26 \<le> n" "n < 52" | "52 \<le> n" "n < 62" | "n = 62" | "n = 63"
  using assms by linarith

lemma b64_value_char: "n < 64 \<Longrightarrow> b64_value (b64_standard n) = Some n"
  by (erule sextet_cases) (auto simp add: b64_value_def b64_standard_def b64_char_def Let_def)

lemma b64_standard_pad: "n < 64 \<Longrightarrow> b64_standard n \<noteq> CHR ''=''"
  using b64_value_char [of n] by (auto simp: b64_value_def Let_def)

lemma b64_urlsafe_standard: "n < 64 \<Longrightarrow> from_urlsafe [b64_urlsafe n] = [b64_standard n]"
proof (erule sextet_cases)
  have plain: "char_of m \<noteq> CHR ''-''" "char_of m \<noteq> CHR ''_''" if "m < 256" "m \<noteq> 45" "m \<noteq> 95" for m :: nat
    using of_char_small [OF that(1)] that(2,3) by (auto dest!: arg_cong [where f = "of_char :: char \<Rightarrow> nat"])
  show "from_urlsafe [b64_urlsafe n] = [b64_standard n]" if "n < 26"
    using that plain [of "65 + n"] by (simp add: from_urlsafe_def b64_standard_def b64_urlsafe_def b64_char_def)
  show "from_urlsafe [b64_urlsafe n] = [b64_standard n]" if "26 \<le> n" "n < 52"
    using that plain [of "71 + n"] by (simp add: from_urlsafe_def b64_standard_def b64_urlsafe_def b64_char_def)
  show "from_urlsafe [b64_urlsafe n] = [b64_standard n]" if "52 \<le> n" "n < 62"
    using that plain [of "n - 4"] by (simp add: from_urlsafe_def b64_standard_def b64_urlsafe_def b64_char_def)
qed (simp_all add: from_urlsafe_def b64_standard_def b64_urlsafe_def b64_char_def)

lemma byte_bounds:
  fixes x y z :: nat
  assumes "x < 256" "y < 256" "z < 256"
  shows "x * 16 < 4096" "(x * 256 + y) * 4 < 262144" "(x * 256 + y) * 256 + z < 16777216"
proof -
  have "x \<le> 255" "y \<le> 255" "z \<le> 255" using assms by simp_all
  then show "x * 16 < 4096" "(x * 256 + y) * 4 < 262144" "(x * 256 + y) * 256 + z < 16777216" by simp_all
qed

lemma two_bytes: "(x * 256 + y) div 256 = x" "(x * 256 + y) mod 256 = y" if "y < 256" for x y :: nat
  using that by simp_all

lemma sextets:
  fixes n :: nat
  shows "(n div 64) * 64 + n mod 64 = n" "((n div 4096) * 64 + n div 64 mod 64) * 64 + n mod 64 = n"
    "(((n div 262144) * 64 + n div 4096 mod 64) * 64 + n div 64 mod 64) * 64 + n mod 64 = n"
proof -
  have step: "m div 64 * 64 + m mod 64 = m" for m :: nat by simp
  have d: "n div 64 div 64 = n div 4096" "n div 4096 div 64 = n div 262144" by (simp_all add: div_mult2_eq [symmetric])
  show "(n div 64) * 64 + n mod 64 = n" by simp
  have two: "n div 4096 * 64 + n div 64 mod 64 = n div 64" using step [of "n div 64"] unfolding d .
  then show "((n div 4096) * 64 + n div 64 mod 64) * 64 + n mod 64 = n" by simp
  have three: "n div 262144 * 64 + n div 4096 mod 64 = n div 4096" using step [of "n div 4096"] unfolding d .
  show "(((n div 262144) * 64 + n div 4096 mod 64) * 64 + n div 64 mod 64) * 64 + n mod 64 = n"
    unfolding three two by simp
qed

lemma b64_groups:
  fixes n :: nat
  shows "n < 4096 \<Longrightarrow> b64_decode [b64_standard (n div 64), b64_standard (n mod 64), CHR ''='', CHR ''='']
      = Some [char_of (n div 16)]"
    "n < 262144 \<Longrightarrow> b64_decode [b64_standard (n div 4096), b64_standard (n div 64 mod 64), b64_standard (n mod 64), CHR ''='']
      = Some [char_of (n div 4 div 256), char_of (n div 4 mod 256)]"
    "n < 16777216 \<Longrightarrow> b64_decode (b64_standard (n div 262144) # b64_standard (n div 4096 mod 64) # b64_standard (n div 64 mod 64)
        # b64_standard (n mod 64) # r)
      = map_option (\<lambda>s. char_of (n div 65536) # char_of (n div 256 mod 256) # char_of (n mod 256) # s) (b64_decode r)"
proof -
  have mods: "m mod 64 < 64" for m :: nat by simp
  note pads = b64_standard_pad [OF mods] b64_value_char [OF mods]
  assume "n < 4096"
  then have "n div 64 < 64" by (simp add: less_mult_imp_div_less)
  then show "b64_decode [b64_standard (n div 64), b64_standard (n mod 64), CHR ''='', CHR ''='']
      = Some [char_of (n div 16)]"
    by (simp add: pads b64_value_char sextets)
next
  have mods: "m mod 64 < 64" for m :: nat by simp
  note pads = b64_standard_pad [OF mods] b64_value_char [OF mods]
  assume "n < 262144"
  then have "n div 4096 < 64" by (simp add: less_mult_imp_div_less)
  then show "b64_decode [b64_standard (n div 4096), b64_standard (n div 64 mod 64), b64_standard (n mod 64), CHR ''='']
      = Some [char_of (n div 4 div 256), char_of (n div 4 mod 256)]"
    using sextets(2) [of n] by (simp add: pads b64_value_char Let_def)
next
  have mods: "m mod 64 < 64" for m :: nat by simp
  note pads = b64_standard_pad [OF mods] b64_value_char [OF mods]
  assume "n < 16777216"
  then have "n div 262144 < 64" by (simp add: less_mult_imp_div_less)
  then show "b64_decode (b64_standard (n div 262144) # b64_standard (n div 4096 mod 64) # b64_standard (n div 64 mod 64)
        # b64_standard (n mod 64) # r)
      = map_option (\<lambda>s. char_of (n div 65536) # char_of (n div 256 mod 256) # char_of (n mod 256) # s) (b64_decode r)"
    using sextets(3) [of n] by (simp add: pads b64_value_char Let_def option.case_eq_if map_option_case)
qed

lemma b64_decode_encode: "b64_decode (b64_encode b64_standard s) = Some s"
proof (induction b64_standard s rule: b64_encode.induct)
  case (2 a)
  have "(of_char a * 16 :: nat) < 4096" by (rule byte_bounds(1) [where y = 0 and z = 0]) simp_all
  from b64_groups(1) [OF this] show ?case by (simp add: Let_def)
next
  case (3 a b)
  have "((of_char a * 256 + of_char b) * 4 :: nat) < 262144" by (rule byte_bounds(2) [where z = 0]) simp_all
  from b64_groups(2) [OF this] show ?case by (simp only: b64_encode.simps Let_def) (simp add: two_bytes)
next
  case (4 a b c r)
  define n where "n = ((of_char a :: nat) * 256 + of_char b) * 256 + of_char c"
  have "n < 16777216" unfolding n_def by (rule byte_bounds(3)) simp_all
  note step = b64_groups(3) [OF this]
  have q: "n div 256 = of_char a * 256 + of_char b" unfolding n_def by (rule two_bytes(1)) simp
  have last: "n mod 256 = of_char c" unfolding n_def by (rule two_bytes(2)) simp
  have "n div 65536 = n div 256 div 256" by (simp add: div_mult2_eq [symmetric])
  then have bytes: "char_of (n div 65536) = a" "char_of (n div 256 mod 256) = b" "char_of (n mod 256) = c"
    unfolding q last by (simp_all add: two_bytes)
  show ?case using 4 unfolding b64_encode.simps Let_def n_def [symmetric] append.simps step bytes by simp
qed simp


text \<open>The same sextets for every alphabet.\<close>

lemma b64_shape_ex:
  "\<exists>p k. (\<forall>e. b64_encode e s = map e p @ replicate k (CHR ''='')) \<and> (\<forall>n \<in> set p. n < 64) \<and> k \<le> 2 \<and> (length p + k) mod 4 = 0"
proof (induction "undefined :: nat \<Rightarrow> char" s rule: b64_encode.induct)
  case (2 a)
  define n where "n = (of_char a :: nat) * 16"
  have "n < 4096" unfolding n_def by (rule byte_bounds(1) [where y = 0 and z = 0]) simp_all
  then have "n div 64 < 64" by (simp add: less_mult_imp_div_less)
  moreover have "b64_encode e [a] = map e [n div 64, n mod 64] @ replicate 2 (CHR ''='')" for e
    unfolding b64_encode.simps Let_def n_def [symmetric] by (simp add: numeral_2_eq_2)
  ultimately show ?case by (intro exI [of _ "[n div 64, n mod 64]"] exI [of _ 2]) simp
next
  case (3 a b)
  define n where "n = ((of_char a :: nat) * 256 + of_char b) * 4"
  have "n < 262144" unfolding n_def by (rule byte_bounds(2) [where z = 0]) simp_all
  then have "n div 4096 < 64" by (simp add: less_mult_imp_div_less)
  moreover have "b64_encode e [a, b] = map e [n div 4096, n div 64 mod 64, n mod 64] @ replicate 1 (CHR ''='')" for e
    unfolding b64_encode.simps Let_def n_def [symmetric] by simp
  ultimately show ?case by (intro exI [of _ "[n div 4096, n div 64 mod 64, n mod 64]"] exI [of _ 1]) simp
next
  case (4 a b c r)
  define n where "n = ((of_char a :: nat) * 256 + of_char b) * 256 + of_char c"
  have "n < 16777216" unfolding n_def by (rule byte_bounds(3)) simp_all
  then have lt: "n div 262144 < 64" by (simp add: less_mult_imp_div_less)
  obtain p k where p: "\<forall>e. b64_encode e r = map e p @ replicate k (CHR ''='')" "\<forall>n \<in> set p. n < 64" "k \<le> 2"
    "(length p + k) mod 4 = 0"
    using 4 [OF refl] by (elim exE conjE) (rule that)
  define q where "q = [n div 262144, n div 4096 mod 64, n div 64 mod 64, n mod 64] @ p"
  have "b64_encode e (a # b # c # r) = map e q @ replicate k (CHR ''='')" for e
    unfolding b64_encode.simps Let_def n_def [symmetric] by (simp add: p(1) q_def)
  moreover have "\<forall>m \<in> set q. m < 64" using p(2) lt by (simp add: q_def)
  moreover have "(length q + k) mod 4 = 0"
  proof -
    have "length q + k = 4 + (length p + k)" by (simp add: q_def)
    then show ?thesis using p(4) by (metis mod_add_self1)
  qed
  ultimately show ?case using p(3) by (intro exI [of _ q] exI [of _ k]) simp
qed (intro exI [of _ "[]"] exI [of _ 0], simp)

lemma b64_shape:
  obtains p k where "\<And>e. b64_encode e s = map e p @ replicate k (CHR ''='')" "\<And>n. n \<in> set p \<Longrightarrow> n < 64" "k \<le> 2"
    "(length p + k) mod 4 = 0"
proof -
  obtain p k where p: "\<forall>e. b64_encode e s = map e p @ replicate k (CHR ''='')" "\<forall>n \<in> set p. n < 64" "k \<le> 2"
    "(length p + k) mod 4 = 0"
    using b64_shape_ex [of s] by (elim exE conjE) (rule that)
  show thesis by (rule that [OF p(1) [rule_format] p(2) [rule_format] p(3,4)])
qed

lemma b64_value_plain: "b64_value c = Some n \<Longrightarrow> word_char c \<or> c \<in> set ''+/''"
  by (auto simp: b64_value_def word_char_def is_letter_def is_digit_def Let_def split: if_splits)

lemma b64_chars_plain:
  assumes "n < 64"
  shows "word_char (b64_standard n) \<or> b64_standard n \<in> set ''+/''" "word_char (b64_urlsafe n) \<or> b64_urlsafe n \<in> set ''+/-_''"
    "b64_urlsafe n \<noteq> CHR ''=''"
proof -
  show std: "word_char (b64_standard n) \<or> b64_standard n \<in> set ''+/''" by (rule b64_value_plain [OF b64_value_char [OF assms]])
  have same: "b64_urlsafe n \<in> set ''-_'' \<or> b64_urlsafe n = b64_standard n"
    using b64_urlsafe_standard [OF assms] by (simp add: from_urlsafe_def split: if_splits)
  then show "word_char (b64_urlsafe n) \<or> b64_urlsafe n \<in> set ''+/-_''" using std by auto
  show "b64_urlsafe n \<noteq> CHR ''=''" using same b64_standard_pad [OF assms] by auto
qed

lemma from_urlsafe_encode: "from_urlsafe (b64_encode b64_urlsafe s) = b64_encode b64_standard s"
proof -
  obtain p k where p: "\<And>e. b64_encode e s = map e p @ replicate k (CHR ''='')" "\<And>n. n \<in> set p \<Longrightarrow> n < 64"
    using b64_shape [of s] by metis
  have "from_urlsafe (map b64_urlsafe p) = map b64_standard p"
    using p(2) b64_urlsafe_standard by (simp add: from_urlsafe_def)
  moreover have "from_urlsafe (replicate k (CHR ''='')) = replicate k (CHR ''='')" by (simp add: from_urlsafe_def map_replicate_const)
  ultimately show ?thesis by (simp add: p(1) from_urlsafe_def)
qed

lemma strip_pad_append: "list_all (\<lambda>c. c \<noteq> CHR ''='') s \<Longrightarrow> strip_pad (s @ replicate k (CHR ''='')) = s"
proof -
  assume s: "list_all (\<lambda>c. c \<noteq> CHR ''='') s"
  have "dropWhile (\<lambda>c. c = CHR ''='') (replicate k (CHR ''='') @ rev s) = rev s"
    using s by (cases "rev s") (auto simp: list_all_iff dropWhile_append)
  then show "strip_pad (s @ replicate k (CHR ''='')) = s" by (simp add: strip_pad_def)
qed

lemma missing_pad:
  fixes l k :: nat
  assumes "k \<le> 2" "(l + k) mod 4 = 0"
  shows "(4 - l mod 4) mod 4 = k"
proof -
  consider "k = 0" | "k = 1" | "k = 2" using assms(1) by linarith
  then show ?thesis
  proof cases
    case 2
    then have "l mod 4 = 3" using assms(2) by presburger
    with 2 show ?thesis by simp
  next
    case 3
    then have "l mod 4 = 2" using assms(2) by presburger
    with 3 show ?thesis by simp
  qed (use assms(2) in simp)
qed

lemma b64_pad:
  assumes "e = b64_standard \<or> e = b64_urlsafe"
  shows "pad_b64 (b64_encode e s) = b64_encode e s" "pad_b64 (strip_pad (b64_encode e s)) = b64_encode e s"
proof -
  obtain p k where p: "b64_encode e s = map e p @ replicate k (CHR ''='')" "\<And>n. n \<in> set p \<Longrightarrow> n < 64" "k \<le> 2"
    "(length p + k) mod 4 = 0" using b64_shape [of s] by metis
  show "pad_b64 (b64_encode e s) = b64_encode e s" using p(4) by (simp add: pad_b64_def p(1))
  have "list_all (\<lambda>c. c \<noteq> CHR ''='') (map e p)"
    using assms p(2) b64_standard_pad b64_chars_plain(3) by (auto simp: list_all_iff)
  moreover have "(4 - length p mod 4) mod 4 = k" by (rule missing_pad [OF p(3,4)])
  ultimately show "pad_b64 (strip_pad (b64_encode e s)) = b64_encode e s" by (simp add: p(1) strip_pad_append pad_b64_def)
qed

section \<open>A candidate is recognised under its usual encodings\<close>

lemma word_char_ascii: "word_char c \<Longrightarrow> (of_char c :: nat) < 128"
  by (auto simp: word_char_def is_letter_def is_digit_def Let_def)

lemma utf8_ascii: "is_ascii s \<Longrightarrow> utf8_bytes s = s"
  by (induction s) (simp_all add: is_ascii_def utf8_char_def)

lemma hex_digit_ascii: "n < 16 \<Longrightarrow> (of_char (hex_char n) :: nat) < 128" "n < 16 \<Longrightarrow> (of_char (upper_hex_char n) :: nat) < 128"
  by (auto simp: hex_char_def upper_hex_char_def)

lemma encodings_ascii:
  "is_ascii (bytes_hex s)" "is_ascii (bytes_hex_upper s)" "is_ascii (quote_bytes s)"
  by (induction s) (auto simp: is_ascii_def bytes_hex_def bytes_hex_upper_def quote_bytes_def hex_digit_ascii url_safe_def
      is_letter_def is_digit_def Let_def)

lemma b64_encode_text:
  assumes "e = b64_standard \<or> e = b64_urlsafe" "s \<noteq> []"
  shows "b64_text (b64_encode e s)" "b64_text (strip_pad (b64_encode e s))" "is_ascii (b64_encode e s)"
    "is_ascii (strip_pad (b64_encode e s))"
proof -
  obtain p k where p: "b64_encode e s = map e p @ replicate k (CHR ''='')" "\<And>n. n \<in> set p \<Longrightarrow> n < 64" "k \<le> 2"
    "(length p + k) mod 4 = 0" using b64_shape [of s] by metis
  have plain: "word_char (e n) \<or> e n \<in> set ''+/-_''" "e n \<noteq> CHR ''=''" if "n < 64" for n
    using assms(1) b64_chars_plain [OF that] b64_standard_pad [OF that] by auto
  have ne: "b64_encode e s \<noteq> []" using assms(2) by (cases "(e, s)" rule: b64_encode.cases) (simp_all add: Let_def)
  have strip: "strip_pad (b64_encode e s) = map e p"
    unfolding p(1) by (rule strip_pad_append) (use p(2) plain(2) in \<open>auto simp: list_all_iff\<close>)
  have "p \<noteq> []"
  proof
    assume "p = []"
    with p(3,4) have "k = 0" by (cases k) (auto simp: mod_Suc split: if_splits)
    with \<open>p = []\<close> ne show False by (simp add: p(1))
  qed
  moreover have plain_all: "list_all (\<lambda>c. word_char c \<or> c \<in> set ''+/=-'') (map e p)"
    using plain(1) p(2) by (auto simp: list_all_iff word_char_def)
  ultimately show "b64_text (strip_pad (b64_encode e s))" "b64_text (b64_encode e s)"
    unfolding strip by (auto simp: b64_text_def p(1) list_all_iff)
  have "list_all (\<lambda>c. (of_char c :: nat) < 128) (map e p)"
    using plain_all by (rule list.pred_mono_strong) (auto dest: word_char_ascii)
  then show "is_ascii (strip_pad (b64_encode e s))" "is_ascii (b64_encode e s)"
    unfolding strip by (auto simp: is_ascii_def p(1) list_all_iff)
qed

lemma payload_unsafe:
  assumes "uni_nfkc u s = s" "utf8_bytes c \<in> set (payloads s)" "has_candidate (uni_nfkc u c)"
  shows "unsafe_text u forms s"
  using assms by (auto simp: unsafe_text_def decoded_candidate_def list_ex_iff Let_def intro!: bexI [of _ "utf8_bytes c"])

lemma nonempty_candidate: "has_candidate s \<Longrightarrow> s \<noteq> []"
  by (auto simp: has_candidate_def candidate_at_def candidate_prefix_def py_lower_def)

lemma url_safe_ascii: "url_safe c \<Longrightarrow> (of_char c :: nat) < 128"
  by (auto simp: url_safe_def is_letter_def is_digit_def Let_def)

lemma url_safe_utf8: "list_all url_safe (utf8_bytes s) \<Longrightarrow> list_all url_safe s \<and> is_ascii s"
proof (induction s)
  case (Cons c s)
  have "(of_char c :: nat) < 128"
  proof (rule ccontr)
    assume "\<not> (of_char c :: nat) < 128"
    then have "url_safe (char_of (192 + (of_char c :: nat) div 64))" using Cons.prems by (simp add: utf8_char_def Let_def)
    then have "(192 + (of_char c :: nat) div 64) mod 256 < 128" using url_safe_ascii by fastforce
    moreover have "192 + (of_char c :: nat) div 64 < 256"
    proof -
      have "(of_char c :: nat) < 256" by simp
      then show ?thesis by linarith
    qed
    ultimately show False by simp
  qed
  with Cons show ?case by (simp add: utf8_char_def is_ascii_def)
qed (simp add: is_ascii_def)

lemma lower_brace: "lower_char x = CHR ''{'' \<longleftrightarrow> x = CHR ''{''"
proof
  assume "lower_char x = CHR ''{''"
  then have "(of_char (lower_char x) :: nat) = 123" by simp
  moreover have "(of_char x :: nat) < 256" by simp
  ultimately have "(of_char x :: nat) = 123" by (auto simp: lower_char_def Let_def split: if_splits)
  then have "(of_char x :: nat) = of_char (CHR ''{'')" by simp
  then show "x = CHR ''{''" by (simp only: of_char_eq_iff)
qed (simp add: lower_char_def)

lemma candidate_brace: "has_candidate s \<Longrightarrow> CHR ''{'' \<in> set s"
proof -
  have "CHR ''{'' \<in> set t" if "candidate_at t \<noteq> None" for t
  proof -
    have "CHR ''{'' \<in> set (py_lower (take 9 t)) \<or> CHR ''{'' \<in> set (py_lower (take 5 t))"
      using that by (auto simp: candidate_at_def candidate_prefix_def split: option.splits if_splits)
    then have "CHR ''{'' \<in> set (take 9 t) \<or> CHR ''{'' \<in> set (take 5 t)"
      by (auto simp: py_lower_def) (metis lower_brace)+
    then show ?thesis using in_set_takeD by metis
  qed
  note brace = this
  have "occurs (\<lambda>t. candidate_at t \<noteq> None) s \<Longrightarrow> CHR ''{'' \<in> set s"
  proof (induction s)
    case (Cons c s)
    then consider "candidate_at (c # s) \<noteq> None" | "occurs (\<lambda>t. candidate_at t \<noteq> None) s" by auto
    then show ?case
    proof cases
      case 1
      then show ?thesis by (rule brace)
    next
      case 2
      then show ?thesis using Cons.IH by simp
    qed
  qed (use brace [of "[]"] in simp)
  then show "has_candidate s \<Longrightarrow> CHR ''{'' \<in> set s" by (simp add: has_candidate_def)
qed

text \<open>C14. A text that holds a candidate is refused in hexadecimal, in Base64 with or without padding and in its URL-safe form, and
  percent-encoded, whether or not the value is among the known private ones; normalisation changes no ASCII text.\<close>

theorem encoded_candidates_refused:
  assumes "\<And>s. is_ascii s \<Longrightarrow> uni_nfkc u s = s" "has_candidate (uni_nfkc u c)"
  shows "\<forall>e \<in> {bytes_hex, bytes_hex_upper, quote_bytes, b64_encode b64_standard, b64_encode b64_urlsafe,
      strip_pad \<circ> b64_encode b64_standard, strip_pad \<circ> b64_encode b64_urlsafe}. unsafe_text u forms (e (utf8_bytes c))"
proof -
  have ne: "utf8_bytes c \<noteq> []"
    using nonempty_candidate [OF assms(2)] assms(1) [of "[]"] by (auto simp: is_ascii_def)
  note refuse = payload_unsafe [OF assms(1) _ assms(2)]
  have nonempty: "bytes_hex b \<noteq> []" "bytes_hex_upper b \<noteq> []" if "b \<noteq> []" for b
    using that by (cases b; simp add: bytes_hex_def bytes_hex_upper_def)+
  have hex: "unsafe_text u forms (bytes_hex (utf8_bytes c))" "unsafe_text u forms (bytes_hex_upper (utf8_bytes c))"
    using nonempty [OF ne] by (auto intro!: refuse simp: encodings_ascii payloads_def from_hex_bytes_hex)
  have b64: "unsafe_text u forms (b64_encode e (utf8_bytes c))" "unsafe_text u forms (strip_pad (b64_encode e (utf8_bytes c)))"
    if e: "e = b64_standard \<or> e = b64_urlsafe" for e
  proof -
    have dec: "b64_decode (b64_encode e (utf8_bytes c)) = Some (utf8_bytes c)
        \<or> b64_decode (from_urlsafe (b64_encode e (utf8_bytes c))) = Some (utf8_bytes c)"
      using e by (auto simp: b64_decode_encode from_urlsafe_encode)
    note is_b64 = b64_encode_text [OF e ne]
    show "unsafe_text u forms (b64_encode e (utf8_bytes c))"
      by (rule refuse [OF is_b64(3)]) (use dec is_b64(1) in \<open>auto simp: payloads_def b64_pad [OF e] map_filter_def\<close>)
    show "unsafe_text u forms (strip_pad (b64_encode e (utf8_bytes c)))"
      by (rule refuse [OF is_b64(4)]) (use dec is_b64(2) in \<open>auto simp: payloads_def b64_pad [OF e] map_filter_def\<close>)
  qed
  have "\<not> list_all url_safe (utf8_bytes c)"
  proof
    assume "list_all url_safe (utf8_bytes c)"
    then have safe: "list_all url_safe c" "is_ascii c" using url_safe_utf8 by blast+
    then have "has_candidate c" using assms by simp
    from candidate_brace [OF this] safe(1) show False by (auto simp: list_all_iff url_safe_def is_letter_def is_digit_def)
  qed
  then have "CHR 0x25 \<in> set (quote_bytes (utf8_bytes c))" by (auto simp: quote_bytes_def list_all_iff)
  then have "unsafe_text u forms (quote_bytes (utf8_bytes c))"
    by (intro refuse) (simp_all add: encodings_ascii payloads_def utf8_ascii unquote_quote)
  with hex b64 show ?thesis by simp
qed


lemma encoded_candidates_refused_witness:
  "unsafe_text \<lparr>uni_nfkc = \<lambda>s. s, uni_fold = py_lower\<rparr> {} (bytes_hex (utf8_bytes ''flag{x}''))"
proof -
  let ?u = "\<lparr>uni_nfkc = \<lambda>s. s, uni_fold = py_lower\<rparr>"
  have "has_candidate (uni_nfkc ?u ''flag{x}'')" by code_simp
  from encoded_candidates_refused [OF _ this, of "{}"] show ?thesis by simp
qed

section \<open>The public part of a value\<close>

lemma has_authority_urlsplit:
  "has_authority s \<longleftrightarrow> (case urlsplit ip (url_clean s) of Inl _ \<Rightarrow> True | Inr x \<Rightarrow> url_netloc x \<noteq> [])"
  by (auto simp: has_authority_def urlsplit_def Let_def split: prod.split)

text \<open>What the memory gives to a model of any value: no text and no key of it holds a candidate or a credential word, is a digest,
  a path or an address, or spells a private value, or a candidate found anywhere in the value, in one of the known encodings.\<close>

theorem public_values_hide_secrets:
  "\<forall>s \<in> set (texts_of (sanitize_public_value u sha private v)) \<union> set (doc_keys (sanitize_public_value u sha private v)).
     \<not> has_candidate (uni_nfkc u s) \<and> \<not> credential_marker (uni_nfkc u s) \<and> \<not> hex_lower 64 64 (uni_nfkc u s)
     \<and> \<not> starts_with ''/'' (uni_nfkc u s) \<and> \<not> has_authority (uni_nfkc u s)
     \<and> (\<forall>x \<in> set (private @ map utf8_bytes (discover u 0 v)). uni_nfkc u s \<notin> set (forms_of u sha x))"
proof
  let ?F = "sensitive_forms u sha (private @ map utf8_bytes (discover u 0 v))"
  fix s
  assume s: "s \<in> set (texts_of (sanitize_public_value u sha private v)) \<union> set (doc_keys (sanitize_public_value u sha private v))"
  have "\<not> unsafe_text u ?F s"
  proof (cases "sanitize u ?F 0 v")
    case None
    with s show ?thesis by (simp add: sanitize_public_value_def)
  next
    case (Some w)
    with s have "s \<in> set (texts_of w) \<union> set (doc_keys w)" by (simp add: sanitize_public_value_def)
    with sanitize_clean [OF Some] forbidden_unsafe show ?thesis by blast
  qed
  then show "\<not> has_candidate (uni_nfkc u s) \<and> \<not> credential_marker (uni_nfkc u s) \<and> \<not> hex_lower 64 64 (uni_nfkc u s)
     \<and> \<not> starts_with ''/'' (uni_nfkc u s) \<and> \<not> has_authority (uni_nfkc u s)
     \<and> (\<forall>x \<in> set (private @ map utf8_bytes (discover u 0 v)). uni_nfkc u s \<notin> set (forms_of u sha x))"
    by (auto simp: unsafe_text_def sensitive_forms_def Let_def)
qed

end
