(* ===== verification/Memory_Projection.thy ===== *)
theory Memory_Projection
  imports Memory_Text "HOL-Library.Product_Lexorder"
begin

text \<open>
  The typed memory of a run (\<open>src/rapido/memory.py\<close>): the four kinds of records with the checks of their
  constructors, the private contexts of candidates and their counts, and the projection of the records
  for one lane: scope, sanitation, repetition, order and the budget of bytes.
\<close>

section \<open>Records\<close>

definition MEMORY_ARMS :: "string list" where
  "MEMORY_ARMS = [''lane_local_v1'', ''typed_challenge_v1'']"

definition MEMORY_ROLES :: "string list" where
  "MEMORY_ROLES = [''recovery'', ''specialist'', ''verifier'']"

definition MEMORY_FAILURE_KINDS :: "string list" where
  "MEMORY_FAILURE_KINDS = [''board'', ''container'', ''disagreement'', ''policy'', ''provenance'', ''quota'', ''timeout'', ''tool'']"

definition PROJECTION_BYTES :: int where
  "PROJECTION_BYTES = 24 * 1024"

definition invalid :: "string \<Rightarrow> bool \<Rightarrow> unit result" where
  "invalid label ok = ensure ok (ValueError (''memory '' @ label @ '' is invalid''))"

definition memory_text :: "unicode \<Rightarrow> string \<Rightarrow> nat \<Rightarrow> string \<Rightarrow> unit result" where
  "memory_text u label maximum s = invalid label (s \<noteq> [] \<and> length (utf8_bytes s) \<le> maximum
     \<and> list_all (\<lambda>c. 32 \<le> (of_char c :: nat)) s \<and> \<not> unsafe_text u {} s)"

definition optional_text :: "unicode \<Rightarrow> string \<Rightarrow> nat \<Rightarrow> string option \<Rightarrow> unit result" where
  "optional_text u label maximum x = (case x of None \<Rightarrow> Inr () | Some s \<Rightarrow> memory_text u label maximum s)"

definition nonnegative :: "string \<Rightarrow> int \<Rightarrow> unit result" where
  "nonnegative label i = invalid label (0 \<le> i)"

text \<open>The checks of a constructor, in order.\<close>

fun checks :: "unit result list \<Rightarrow> unit result" where
  "checks [] = Inr ()"
| "checks (c # cs) = bind_result c (\<lambda>_. checks cs)"

record memory_target =
  mt_run :: string
  mt_challenge :: int
  mt_episode :: int
  mt_lane :: int
  mt_role :: string

definition construct_target :: "unicode \<Rightarrow> memory_target \<Rightarrow> memory_target result" where
  "construct_target u t = bind_result (checks
     [memory_text u ''target run id'' 200 (mt_run t), nonnegative ''target challenge id'' (mt_challenge t),
      nonnegative ''target episode'' (mt_episode t), nonnegative ''target lane'' (mt_lane t),
      invalid ''target role'' (mt_role t \<in> set MEMORY_ROLES)]) (\<lambda>_. Inr t)"

record record_scope =
  sc_id :: string
  sc_run :: string
  sc_challenge :: int
  sc_episode :: int
  sc_lane :: int
  sc_attempt :: string

datatype memory_record =
    AnalysisClaim record_scope (claim_status: string) (claim_summary: string) (claim_evidence: "string list")
      (claim_steps: "string list") (claim_tools: int)
  | HostObservation record_scope (obs_complete: bool) (obs_gap: "string option") (obs_tool: string)
      (obs_success: "bool option") (obs_source_bound: bool) (obs_facts: "(string \<times> pyval) list")
  | TacticOutcome record_scope (tactic_role: string) (tactic_name: string) (tactic_profile: string) (tactic_status: string)
  | FailureRecord record_scope (failure_class: string) (failure_subreason: string)

fun memory_scope :: "memory_record \<Rightarrow> record_scope" where
  "memory_scope (AnalysisClaim s _ _ _ _ _) = s"
| "memory_scope (HostObservation s _ _ _ _ _ _) = s"
| "memory_scope (TacticOutcome s _ _ _ _) = s"
| "memory_scope (FailureRecord s _ _) = s"

fun kind_of :: "memory_record \<Rightarrow> string" where
  "kind_of (AnalysisClaim _ _ _ _ _ _) = ''analysis_claim''"
| "kind_of (HostObservation _ _ _ _ _ _ _) = ''host_observation''"
| "kind_of (TacticOutcome _ _ _ _ _) = ''tactic_outcome''"
| "kind_of (FailureRecord _ _ _) = ''failure''"

definition scope_checks :: "unicode \<Rightarrow> record_scope \<Rightarrow> unit result list" where
  "scope_checks u s =
     [memory_text u ''record id'' 200 (sc_id s), memory_text u ''record run id'' 200 (sc_run s),
      nonnegative ''record challenge id'' (sc_challenge s), nonnegative ''record source episode'' (sc_episode s),
      nonnegative ''record source lane'' (sc_lane s), memory_text u ''record source attempt id'' 200 (sc_attempt s)]"

fun body_checks :: "unicode \<Rightarrow> memory_record \<Rightarrow> unit result list" where
  "body_checks u (AnalysisClaim s st sm ev ns tools) =
     [memory_text u ''analysis status'' 100 st, nonnegative ''analysis tool count'' tools]"
| "body_checks u (HostObservation s c gap tool ok bound facts) =
     [optional_text u ''observation gap'' 100 gap, memory_text u ''observation tool'' 100 tool]"
| "body_checks u (TacticOutcome s r t p st) =
     [invalid ''tactic role'' (r \<in> set MEMORY_ROLES), memory_text u ''tactic'' 200 t,
      memory_text u ''tactic tool profile'' 200 p, memory_text u ''tactic status'' 100 st]"
| "body_checks u (FailureRecord s k r) =
     [invalid ''failure kind'' (k \<in> set MEMORY_FAILURE_KINDS), memory_text u ''failure subreason'' 200 r]"

definition construct_record :: "unicode \<Rightarrow> memory_record \<Rightarrow> memory_record result" where
  "construct_record u r = bind_result (checks (scope_checks u (memory_scope r) @ body_checks u r)) (\<lambda>_. Inr r)"

definition opt_text :: "string option \<Rightarrow> pyval" where
  "opt_text x = (case x of None \<Rightarrow> PNone | Some s \<Rightarrow> PStr s)"

definition opt_bool :: "bool option \<Rightarrow> pyval" where
  "opt_bool x = (case x of None \<Rightarrow> PNone | Some b \<Rightarrow> PBool b)"

fun public_record :: "memory_record \<Rightarrow> (string \<times> pyval) list" where
  "public_record (AnalysisClaim s st sm ev ns tools) =
     [(''kind'', PStr ''analysis_claim''), (''record_id'', PStr (sc_id s)), (''source_episode'', PInt (sc_episode s)),
      (''source_lane'', PInt (sc_lane s)), (''status'', PStr st), (''summary'', PStr sm), (''evidence'', PList (map PStr ev)),
      (''next_steps'', PList (map PStr ns)), (''tool_count'', PInt tools)]"
| "public_record (HostObservation s c gap tool ok bound facts) =
     [(''kind'', PStr ''host_observation''), (''record_id'', PStr (sc_id s)), (''source_episode'', PInt (sc_episode s)),
      (''source_lane'', PInt (sc_lane s)), (''complete'', PBool c), (''gap'', opt_text gap), (''tool'', PStr tool),
      (''success'', opt_bool ok), (''source_bound'', PBool bound), (''facts'', PDict facts)]"
| "public_record (TacticOutcome s r t p st) =
     [(''kind'', PStr ''tactic_outcome''), (''record_id'', PStr (sc_id s)), (''source_episode'', PInt (sc_episode s)),
      (''source_lane'', PInt (sc_lane s)), (''role'', PStr r), (''tactic'', PStr t), (''tool_profile'', PStr p), (''status'', PStr st)]"
| "public_record (FailureRecord s k r) =
     [(''record_id'', PStr (sc_id s)), (''source_episode'', PInt (sc_episode s)), (''source_lane'', PInt (sc_lane s)),
      (''kind'', PStr ''failure''), (''failure_kind'', PStr k), (''subreason'', PStr r)]"

fun kind_rank :: "memory_record \<Rightarrow> nat" where
  "kind_rank (HostObservation _ _ _ _ _ _ _) = 0"
| "kind_rank (TacticOutcome _ _ _ _ _) = 1"
| "kind_rank (FailureRecord _ _ _) = 2"
| "kind_rank (AnalysisClaim _ _ _ _ _ _) = 3"

definition record_order :: "memory_record \<Rightarrow> int \<times> int \<times> string \<times> nat \<times> string" where
  "record_order r = (let s = memory_scope r in (- sc_episode s, sc_lane s, sc_attempt s, kind_rank r, sc_id s))"

definition FINGERPRINT_FIELDS :: "string \<Rightarrow> string list option" where
  "FINGERPRINT_FIELDS k =
     (if k = ''host_observation'' then Some [''kind'', ''complete'', ''gap'', ''tool'', ''source_bound'', ''success'', ''facts'']
      else if k = ''tactic_outcome'' then Some [''kind'', ''role'', ''tactic'', ''tool_profile'', ''status'']
      else if k = ''failure'' then Some [''kind'', ''failure_kind'', ''subreason'']
      else if k = ''analysis_claim'' then Some [''kind'', ''status'', ''summary'', ''evidence'', ''next_steps'', ''tool_count'']
      else None)"

definition repeated_fingerprint :: "(string \<times> pyval) list \<Rightarrow> string option" where
  "repeated_fingerprint d =
     (case dict_get d ''kind'' of
        PStr k \<Rightarrow> (case FINGERPRINT_FIELDS k of
            None \<Rightarrow> None
          | Some names \<Rightarrow> if list_all (has_key d) names then Some (json_dumps (PList (map (dict_get d) names))) else None)
      | _ \<Rightarrow> None)"

section \<open>Candidate contexts, which stay with the controller\<close>

record candidate_evidence =
  cx_run :: string
  cx_challenge :: int
  cx_episode :: int
  cx_lane :: int
  cx_attempt :: string
  cx_role :: string
  cx_recipe :: string
  cx_manifest_complete :: bool
  cx_gap :: "string option"
  cx_observed :: bool
  cx_supplied :: bool

definition construct_candidate_evidence :: "unicode \<Rightarrow> candidate_evidence \<Rightarrow> candidate_evidence result" where
  "construct_candidate_evidence u e = bind_result (checks
     [memory_text u ''candidate evidence run id'' 200 (cx_run e),
      nonnegative ''candidate evidence challenge id'' (cx_challenge e),
      nonnegative ''candidate evidence source episode'' (cx_episode e),
      nonnegative ''candidate evidence source lane'' (cx_lane e),
      memory_text u ''candidate evidence attempt id'' 200 (cx_attempt e),
      invalid ''candidate evidence role'' (cx_role e \<in> set MEMORY_ROLES),
      memory_text u ''candidate evidence recipe'' 200 (cx_recipe e),
      optional_text u ''candidate manifest gap'' 100 (cx_gap e),
      invalid ''candidate evidence recipe'' (cx_recipe e = (if cx_role e = ''verifier''
        then ''fresh_source_reobservation_v1'' else ''source_bound_tool_observation_v1''))]) (\<lambda>_. Inr e)"

definition evidence_complete :: "candidate_evidence \<Rightarrow> bool" where
  "evidence_complete e \<longleftrightarrow> cx_manifest_complete e \<and> cx_gap e = None \<and> cx_observed e \<and> \<not> cx_supplied e"

record candidate_verification =
  cv_run :: string
  cv_challenge :: int
  cv_producer :: string
  cv_verifier :: string
  cv_recipe :: string
  cv_candidate :: string
  cv_evidence :: candidate_evidence

definition construct_verification :: "unicode \<Rightarrow> candidate_verification \<Rightarrow> candidate_verification result" where
  "construct_verification u v = bind_result (checks
     [memory_text u ''verification run id'' 200 (cv_run v), nonnegative ''verification challenge id'' (cv_challenge v),
      memory_text u ''verification producer attempt id'' 200 (cv_producer v),
      memory_text u ''verification verifier attempt id'' 200 (cv_verifier v),
      memory_text u ''verification recipe'' 200 (cv_recipe v),
      ensure (cv_producer v \<noteq> cv_verifier v) (ValueError ''memory verification attempts are not independent''),
      invalid ''private verification candidate'' (full_candidate (cv_candidate v)),
      ensure (cx_role (cv_evidence v) = ''verifier'' \<and> cv_recipe v = cx_recipe (cv_evidence v)
          \<and> cx_run (cv_evidence v) = cv_run v \<and> cx_challenge (cv_evidence v) = cv_challenge v
          \<and> cx_attempt (cv_evidence v) = cv_verifier v) (ValueError ''memory verification evidence does not match'')])
     (\<lambda>_. Inr v)"

record candidate_context =
  cc_run :: string
  cc_challenge :: int
  cc_episode :: int
  cc_lane :: int
  cc_attempt :: string
  cc_role :: string
  cc_recipe :: string
  cc_candidate :: string
  cc_evidence :: candidate_evidence
  cc_verification :: "candidate_verification option"

definition construct_context :: "unicode \<Rightarrow> candidate_context \<Rightarrow> candidate_context result" where
  "construct_context u c = bind_result (checks
     [memory_text u ''candidate run id'' 200 (cc_run c), nonnegative ''candidate challenge id'' (cc_challenge c),
      nonnegative ''candidate source episode'' (cc_episode c), nonnegative ''candidate source lane'' (cc_lane c),
      memory_text u ''candidate source attempt id'' 200 (cc_attempt c),
      invalid ''candidate role'' (cc_role c \<in> {''specialist'', ''recovery''}),
      memory_text u ''candidate recipe'' 200 (cc_recipe c),
      invalid ''private candidate'' (full_candidate (cc_candidate c)),
      ensure (cx_role (cc_evidence c) = cc_role c \<and> cx_recipe (cc_evidence c) = cc_recipe c
          \<and> cx_run (cc_evidence c) = cc_run c \<and> cx_challenge (cc_evidence c) = cc_challenge c
          \<and> cx_episode (cc_evidence c) = cc_episode c \<and> cx_lane (cc_evidence c) = cc_lane c
          \<and> cx_attempt (cc_evidence c) = cc_attempt c) (ValueError ''memory candidate evidence does not match'')])
     (\<lambda>_. Inr c)"

definition context_complete :: "candidate_context \<Rightarrow> bool" where
  "context_complete c \<longleftrightarrow> evidence_complete (cc_evidence c)"

definition context_verified :: "candidate_context \<Rightarrow> bool" where
  "context_verified c \<longleftrightarrow> context_complete c
     \<and> (case cc_verification c of
          None \<Rightarrow> False
        | Some v \<Rightarrow> evidence_complete (cv_evidence v) \<and> cv_run v = cc_run c \<and> cv_challenge v = cc_challenge c
            \<and> cv_producer v = cc_attempt c \<and> cc_episode c < cx_episode (cv_evidence v) \<and> cv_candidate v = cc_candidate c)"

record candidate_aggregate =
  ca_contexts :: "candidate_context list"
  ca_invalid :: int
  ca_rejected :: int

definition count_of :: "('a \<Rightarrow> bool) \<Rightarrow> 'a list \<Rightarrow> int" where
  "count_of p xs = int (length (filter p xs))"

definition aggregate_contexts :: "candidate_context list \<Rightarrow> int \<Rightarrow> int \<Rightarrow> candidate_aggregate result" where
  "aggregate_contexts cs bad rejected = bind_result (checks
     [nonnegative ''invalid candidate context count'' bad, nonnegative ''rejected candidate context count'' rejected]) (\<lambda>_.
     Inr \<lparr>ca_contexts = cs, ca_invalid = bad + count_of (\<lambda>c. cc_verification c \<noteq> None \<and> \<not> context_verified c) cs,
          ca_rejected = rejected + count_of (\<lambda>c. \<not> context_complete c) cs\<rparr>)"

definition complete_contexts :: "candidate_aggregate \<Rightarrow> int" where
  "complete_contexts a = count_of context_complete (ca_contexts a)"

definition pending_contexts :: "candidate_aggregate \<Rightarrow> int" where
  "pending_contexts a = count_of (\<lambda>c. context_complete c \<and> cc_verification c = None) (ca_contexts a)"

definition verified_contexts :: "candidate_aggregate \<Rightarrow> int" where
  "verified_contexts a = count_of (\<lambda>c. context_complete c \<and> context_verified c) (ca_contexts a)"

definition public_counts :: "candidate_aggregate \<Rightarrow> (string \<times> pyval) list" where
  "public_counts a =
     [(''complete_context_count'', PInt (complete_contexts a)), (''invalid_context_count'', PInt (ca_invalid a)),
      (''rejected_context_count'', PInt (ca_rejected a)), (''pending_count'', PInt (pending_contexts a)),
      (''verified_count'', PInt (verified_contexts a))]"

definition aggregate_secrets :: "candidate_aggregate \<Rightarrow> string list" where
  "aggregate_secrets a = concat (map (\<lambda>c. cc_candidate c # (case cc_verification c of None \<Rightarrow> [] | Some v \<Rightarrow> [cv_candidate v]))
     (ca_contexts a))"

section \<open>The projection\<close>

type_synonym memory_entry = "memory_record \<times> (string \<times> pyval) list"

definition in_scope :: "memory_target \<Rightarrow> string \<Rightarrow> memory_record \<Rightarrow> bool" where
  "in_scope t arm r = (let s = memory_scope r in
     sc_run s = mt_run t \<and> sc_challenge s = mt_challenge t \<and> sc_episode s < mt_episode t
     \<and> (sc_lane s = mt_lane t \<or> arm = ''typed_challenge_v1'' \<and> kind_of r \<noteq> ''analysis_claim''))"

text \<open>The longest prefix of some bytes that is a text.\<close>

function text_prefix :: "string \<Rightarrow> string" where
  "text_prefix p = (if p = [] then [] else case utf8_decode p of Some t \<Rightarrow> t | None \<Rightarrow> text_prefix (butlast p))"
  by pat_completeness auto

termination text_prefix
  by (relation "measure length") auto

declare text_prefix.simps [simp del]

definition utf8_prefix :: "string \<Rightarrow> nat \<Rightarrow> string" where
  "utf8_prefix s maximum =
     (if length (utf8_bytes s) \<le> maximum then s else text_prefix (take (maximum - 3) (utf8_bytes s)) @ ''...'')"

definition compact_texts :: "pyval \<Rightarrow> nat \<Rightarrow> nat \<Rightarrow> pyval" where
  "compact_texts v items maximum =
     (case v of
        PList xs \<Rightarrow> PList (map PStr (take items (map (\<lambda>s. utf8_prefix s maximum)
          (List.map_filter (\<lambda>x. case x of PStr s \<Rightarrow> Some s | _ \<Rightarrow> None) xs))))
      | _ \<Rightarrow> PList [])"

text \<open>\<open>d[k] = v\<close>.\<close>

definition set_item :: "string \<Rightarrow> pyval \<Rightarrow> (string \<times> pyval) list \<Rightarrow> (string \<times> pyval) list" where
  "set_item k v d = (if has_key d k then map (\<lambda>(l, w). (l, if l = k then v else w)) d else d @ [(k, v)])"

definition truthy :: "pyval \<Rightarrow> bool" where
  "truthy v \<longleftrightarrow> v \<notin> {PNone, PBool False, PInt 0, PStr [], PList [], PDict []}"

definition compact_analysis :: "unicode \<Rightarrow> string set \<Rightarrow> (string \<times> pyval) list \<Rightarrow> (string \<times> pyval) list option" where
  "compact_analysis u forms d =
     (let d1 = set_item ''summary'' (case dict_get d ''summary'' of PStr s \<Rightarrow> PStr (utf8_prefix s 1024) | _ \<Rightarrow> PStr []) d;
          d2 = set_item ''evidence'' (compact_texts (dict_get d1 ''evidence'') 3 256) d1;
          d3 = set_item ''next_steps'' (compact_texts (dict_get d2 ''next_steps'') 3 512) d2 in
      case sanitize u forms 0 (PDict d3) of
        Some (PDict e) \<Rightarrow>
          (let e' = if has_key e ''summary'' then e else set_item ''summary'' (PStr []) e in
           if truthy (dict_get e' ''summary'') \<or> truthy (dict_get e' ''evidence'') \<or> truthy (dict_get e' ''next_steps'')
           then Some e' else None)
      | _ \<Rightarrow> None)"

definition eligible_entry :: "unicode \<Rightarrow> string set \<Rightarrow> memory_record \<Rightarrow> memory_entry option" where
  "eligible_entry u forms r =
     (case sanitize u forms 0 (PDict (public_record r)) of
        Some (PDict d) \<Rightarrow>
          if kind_of r = ''analysis_claim'' then map_option (\<lambda>e. (r, e)) (compact_analysis u forms d) else Some (r, d)
      | _ \<Rightarrow> None)"

definition semantic_order :: "memory_target \<Rightarrow> memory_entry \<Rightarrow> int \<times> nat \<times> int \<times> string \<times> nat \<times> string" where
  "semantic_order t e = (let s = memory_scope (fst e) in
     (- sc_episode s, if sc_lane s = mt_lane t then 0 else 1, sc_lane s, sc_attempt s, kind_rank (fst e), sc_id s))"

fun drop_repeated :: "string list \<Rightarrow> memory_entry list \<Rightarrow> memory_entry list \<times> nat" where
  "drop_repeated seen [] = ([], 0)"
| "drop_repeated seen (e # es) =
     (case repeated_fingerprint (snd e) of
        None \<Rightarrow> (case drop_repeated seen es of (us, n) \<Rightarrow> (e # us, n))
      | Some f \<Rightarrow>
          if f \<in> set seen then (case drop_repeated seen es of (us, n) \<Rightarrow> (us, n + 1))
          else (case drop_repeated (f # seen) es of (us, n) \<Rightarrow> (e # us, n)))"

fun first_of_lane :: "int list \<Rightarrow> memory_entry list \<Rightarrow> memory_entry list" where
  "first_of_lane lanes [] = []"
| "first_of_lane lanes (e # es) =
     (let l = sc_lane (memory_scope (fst e)) in
      if l \<in> set lanes then first_of_lane lanes es else e # first_of_lane (l # lanes) es)"

definition newest_analysis :: "memory_target \<Rightarrow> memory_entry list \<Rightarrow> memory_entry list" where
  "newest_analysis t es =
     (let newest = first_of_lane [] (filter (\<lambda>e. kind_of (fst e) = ''analysis_claim'') (sort_key (semantic_order t) es));
          own = (\<lambda>e. sc_lane (memory_scope (fst e)) = mt_lane t) in
      filter own newest @ sort_key (semantic_order t) (filter (\<lambda>e. \<not> own e) newest))"

definition episode_signals :: "memory_target \<Rightarrow> memory_entry list \<Rightarrow> memory_entry list" where
  "episode_signals t es =
     concat (map (\<lambda>ep. concat (map (\<lambda>k.
         take 1 (sort_key (semantic_order t) (filter (\<lambda>e. sc_episode (memory_scope (fst e)) = ep \<and> kind_of (fst e) = k) es)))
         [''failure'', ''tactic_outcome'']))
       (rev (sort (remdups (map (\<lambda>e. sc_episode (memory_scope (fst e))) es)))))"

definition source_observation :: "memory_entry \<Rightarrow> bool" where
  "source_observation e = (case fst e of
     HostObservation s c gap tool ok bound facts \<Rightarrow> bound \<and> length (json_dumps (PDict (snd e))) \<le> 4096
   | _ \<Rightarrow> False)"

text \<open>One entry of each lane in turn.\<close>

function interleave :: "'a list list \<Rightarrow> 'a list" where
  "interleave qs = (if \<forall>q \<in> set qs. q = [] then []
     else map hd (filter (\<lambda>q. q \<noteq> []) qs) @ interleave (map tl qs))"
  by pat_completeness auto

lemma interleave_shrinks:
  assumes "\<not> (\<forall>q \<in> set qs. q = [])"
  shows "(\<Sum>q \<leftarrow> qs. length q - Suc 0) < sum_list (map length qs)"
  using assms
proof (induction qs)
  case (Cons q qs)
  have "(\<Sum>q \<leftarrow> qs. length q - Suc 0) \<le> sum_list (map length qs)" by (rule sum_list_mono) simp
  with Cons show ?case by (cases q) auto
qed simp

termination interleave
  by (relation "measure (\<lambda>qs. sum_list (map length qs))") (use interleave_shrinks in \<open>auto simp: comp_def\<close>)

declare interleave.simps [simp del]

definition observation_turns :: "memory_target \<Rightarrow> memory_entry list \<Rightarrow> memory_entry list" where
  "observation_turns t es =
     (let obs = filter source_observation (sort_key (semantic_order t) es);
          lanes = sort (remdups (map (\<lambda>e. sc_lane (memory_scope (fst e))) obs));
          turn = (if mt_lane t \<in> set lanes then mt_lane t # filter (\<lambda>l. l \<noteq> mt_lane t) lanes else lanes) in
      interleave (map (\<lambda>l. filter (\<lambda>e. sc_lane (memory_scope (fst e)) = l) obs) turn))"

definition semantic_projection_order :: "memory_target \<Rightarrow> memory_entry list \<Rightarrow> memory_entry list" where
  "semantic_projection_order t es = newest_analysis t es @ episode_signals t es @ observation_turns t es"

definition rejection_ledger :: "candidate_aggregate option \<Rightarrow> memory_target \<Rightarrow> (string \<times> pyval) list option" where
  "rejection_ledger cm t =
     (case cm of
        None \<Rightarrow> None
      | Some a \<Rightarrow>
          if ca_invalid a = 0 \<and> ca_rejected a = 0 then None
          else Some [(''kind'', PStr ''host_observation''), (''record_id'', PStr ''rejection-ledger''),
            (''source_episode'', PInt (max 0 (mt_episode t - 1))), (''source_lane'', PInt (mt_lane t)), (''complete'', PBool True),
            (''gap'', PNone), (''tool'', PStr ''controller_rejection_ledger''), (''success'', PNone), (''source_bound'', PBool False),
            (''facts'', PDict (public_counts a))])"

fun admit_records :: "int \<Rightarrow> (string \<times> pyval) list list \<Rightarrow> (memory_record option \<times> (string \<times> pyval) list) list
     \<Rightarrow> (string \<times> pyval) list list \<times> nat" where
  "admit_records budget selected [] = (selected, 0)"
| "admit_records budget selected ((r, d) # es) =
     (if budget < int (length (json_dumps (PList (map PDict (selected @ [d]))))) then admit_records budget selected es
      else (case admit_records budget (selected @ [d]) es of (ds, n) \<Rightarrow> (ds, if r = None then n else n + 1)))"

record memory_projection =
  mp_deduplicated :: nat
  mp_omitted :: int
  mp_target :: memory_target
  mp_arm :: string
  mp_records :: "(string \<times> pyval) list list"

definition mp_encoded :: "memory_projection \<Rightarrow> string" where
  "mp_encoded p = json_dumps (PList (map PDict (mp_records p)))"

definition memory_forms :: "unicode \<Rightarrow> digest_fn \<Rightarrow> candidate_aggregate option \<Rightarrow> string list \<Rightarrow> memory_record list \<Rightarrow> string set" where
  "memory_forms u sha cm private rs = sensitive_forms u sha
     (map utf8_bytes (case cm of None \<Rightarrow> [] | Some a \<Rightarrow> aggregate_secrets a) @ private
      @ map utf8_bytes (concat (map (\<lambda>r. discover u 0 (PDict (public_record r))) rs)))"

definition eligible_entries :: "unicode \<Rightarrow> string set \<Rightarrow> memory_target \<Rightarrow> string \<Rightarrow> memory_record list \<Rightarrow> memory_entry list" where
  "eligible_entries u forms t arm rs =
     List.map_filter (\<lambda>r. if in_scope t arm r then eligible_entry u forms r else None) (sort_key record_order rs)"

definition offered :: "candidate_aggregate option \<Rightarrow> memory_target \<Rightarrow> memory_entry list
     \<Rightarrow> (memory_record option \<times> (string \<times> pyval) list) list" where
  "offered cm t us =
     (let semantic = map (\<lambda>(r, d). (Some r, d)) (semantic_projection_order t us);
          claims = length (filter (\<lambda>(r, d). case r of None \<Rightarrow> False | Some x \<Rightarrow> kind_of x = ''analysis_claim'') semantic) in
      case rejection_ledger cm t of
        None \<Rightarrow> semantic
      | Some ledger \<Rightarrow> take claims semantic @ [(None, ledger)] @ drop claims semantic)"

definition project_memory :: "unicode \<Rightarrow> digest_fn \<Rightarrow> memory_record list \<Rightarrow> memory_target \<Rightarrow> string \<Rightarrow> candidate_aggregate option
     \<Rightarrow> string list \<Rightarrow> int \<Rightarrow> memory_projection result" where
  "project_memory u sha rs t arm cm private budget =
     bind_result (ensure (arm \<in> set MEMORY_ARMS) (ValueError ''memory arm is invalid'')) (\<lambda>_.
     bind_result (ensure (2 \<le> budget \<and> budget \<le> PROJECTION_BYTES) (ValueError ''memory projection byte budget is invalid'')) (\<lambda>_.
     if mt_role t = ''verifier''
     then Inr \<lparr>mp_deduplicated = 0, mp_omitted = 0, mp_target = t, mp_arm = arm, mp_records = []\<rparr>
     else
       (let forms = memory_forms u sha cm private rs;
            (us, repeated) = drop_repeated [] (sort_key (semantic_order t) (eligible_entries u forms t arm rs));
            (ds, n) = admit_records budget [] (offered cm t us);
            omitted = int (length us) - int n in
        bind_result (ensure (0 \<le> omitted) (ValueError ''memory projection counts are invalid'')) (\<lambda>_.
        Inr \<lparr>mp_deduplicated = repeated, mp_omitted = omitted, mp_target = t, mp_arm = arm, mp_records = ds\<rparr>))))"

end
