(* ===== verification/Memory_Bounds.thy ===== *)
theory Memory_Bounds
  imports Memory_Projection "HOL-Library.Multiset"
begin

text \<open>
  What a projection of the memory holds (\<open>src/rapido/memory.py\<close>): it fits its budget, it takes records of
  its scope only and leaves nothing unsafe in them, its counts account for every record, and it does not
  depend on the order of the records. At the end a concrete projection.
\<close>

section \<open>The budget\<close>

lemma admit_fits:
  "admit_records budget selected es = (ds, n) \<Longrightarrow> int (length (json_dumps (PList (map PDict selected)))) \<le> budget
     \<Longrightarrow> int (length (json_dumps (PList (map PDict ds)))) \<le> budget"
  by (induction budget selected es arbitrary: ds n rule: admit_records.induct) (auto split: if_splits prod.splits)

lemma admit_members:
  "admit_records budget selected es = (ds, n) \<Longrightarrow> set ds \<subseteq> set selected \<union> set (map snd es)"
  by (induction budget selected es arbitrary: ds n rule: admit_records.induct) (auto split: if_splits prod.splits)

lemma admit_records_counts:
  "admit_records budget selected es = (ds, n) \<Longrightarrow> n \<le> length (filter (\<lambda>e. fst e \<noteq> None) es)
     \<and> length ds \<le> length selected + n + length (filter (\<lambda>e. fst e = None) es) \<and> length selected + n \<le> length ds"
proof (induction budget selected es arbitrary: ds n rule: admit_records.induct)
  case (2 budget selected r d es)
  show ?case
  proof (cases "budget < int (length (json_dumps (PList (map PDict (selected @ [d])))))")
    case True
    with 2 show ?thesis by force
  next
    case False
    obtain ds' m where m: "admit_records budget (selected @ [d]) es = (ds', m)" by fastforce
    with "2.prems" False have "ds = ds'" "n = (if r = None then m else m + 1)" by simp_all
    with "2.IH"(2) [OF False m] show ?thesis by (auto split: if_splits)
  qed
qed simp

lemma project_memory_cases:
  assumes "project_memory u sha rs t arm cm private budget = Inr p"
  obtains "mt_role t = ''verifier''" "mp_records p = []" "2 \<le> budget" "mp_deduplicated p = 0" "mp_omitted p = 0"
  | us repeated n where "mt_role t \<noteq> ''verifier''" "2 \<le> budget"
      "drop_repeated [] (sort_key (semantic_order t) (eligible_entries u (memory_forms u sha cm private rs) t arm rs)) = (us, repeated)"
      "admit_records budget [] (offered cm t us) = (mp_records p, n)" "mp_deduplicated p = repeated"
      "mp_omitted p = int (length us) - int n"
proof -
  have ok: "arm \<in> set MEMORY_ARMS" "2 \<le> budget" "budget \<le> PROJECTION_BYTES"
    using assms by (auto simp: project_memory_def bind_result_Inr_iff)
  show thesis
  proof (cases "mt_role t = ''verifier''")
    case True
    with assms ok have "p = \<lparr>mp_deduplicated = 0, mp_omitted = 0, mp_target = t, mp_arm = arm, mp_records = []\<rparr>"
      by (simp add: project_memory_def)
    then show thesis using that(1) True ok by simp
  next
    case False
    obtain us repeated where us: "drop_repeated [] (sort_key (semantic_order t)
      (eligible_entries u (memory_forms u sha cm private rs) t arm rs)) = (us, repeated)" by fastforce
    obtain ds n where ds: "admit_records budget [] (offered cm t us) = (ds, n)" by fastforce
    have "p = \<lparr>mp_deduplicated = repeated, mp_omitted = int (length us) - int n, mp_target = t, mp_arm = arm, mp_records = ds\<rparr>"
      using assms ok False unfolding project_memory_def Let_def us ds by (simp add: us ds bind_result_Inr_iff)
    then show thesis using that(2) [OF False ok(2) us] ds by simp
  qed
qed

lemma memory_target: "project_memory u sha rs t arm cm private budget = Inr p \<Longrightarrow> mp_target p = t"
  by (auto simp: project_memory_def bind_result_Inr_iff Let_def split: if_splits prod.splits)

lemma memory_budget:
  assumes "project_memory u sha rs t arm cm private budget = Inr p"
  shows "int (length (mp_encoded p)) \<le> budget"
proof -
  have "json_dumps (PList (map PDict [])) = ''[]''" by (simp add: join_def)
  then have empty: "int (length (json_dumps (PList (map PDict [])))) = 2" by simp
  show ?thesis
    using assms
  proof (cases rule: project_memory_cases)
    case 1
    then show ?thesis using empty by (simp add: mp_encoded_def del: json_dumps.simps)
  next
    case (2 us repeated n)
    from admit_fits [OF 2(4)] show ?thesis using empty 2(2) by (simp add: mp_encoded_def del: json_dumps.simps)
  qed
qed

text \<open>The projection fits its budget.\<close>

theorem projection_fits:
  assumes "project_memory u sha rs t arm cm private budget = Inr p"
  shows "int (length (mp_encoded p)) \<le> budget"
  by (rule memory_budget [OF assms])

section \<open>What may be in it\<close>

lemma drop_repeated_set: "drop_repeated seen es = (us, n) \<Longrightarrow> set us \<subseteq> set es"
  by (induction seen es arbitrary: us n rule: drop_repeated.induct) (fastforce split: option.splits if_splits prod.splits)+

lemma drop_repeated_length: "drop_repeated seen es = (us, n) \<Longrightarrow> length us + n = length es"
  by (induction seen es arbitrary: us n rule: drop_repeated.induct) (fastforce split: option.splits if_splits prod.splits)+

lemma first_of_lane_sub: "mset (first_of_lane lanes es) \<subseteq># mset es"
  by (induction lanes es rule: first_of_lane.induct) (auto simp: Let_def intro: subset_mset.order_trans)

lemma newest_sub: "mset (newest_analysis t es) \<subseteq># filter_mset (\<lambda>e. kind_of (fst e) = ''analysis_claim'') (mset es)"
proof -
  define xs where "xs = first_of_lane [] (filter (\<lambda>e. kind_of (fst e) = ''analysis_claim'') (sort_key (semantic_order t) es))"
  have "mset (newest_analysis t es) = mset xs"
    by (simp add: newest_analysis_def xs_def [symmetric] Let_def)
  also have "\<dots> \<subseteq># mset (filter (\<lambda>e. kind_of (fst e) = ''analysis_claim'') (sort_key (semantic_order t) es))"
    unfolding xs_def by (rule first_of_lane_sub)
  finally show ?thesis by simp
qed

lemma groups_sub:
  assumes "distinct ks" "\<And>k. k \<in> set ks \<Longrightarrow> mset (g k) \<subseteq># filter_mset (\<lambda>e. f e = k) M"
  shows "mset (concat (map g ks)) \<subseteq># filter_mset (\<lambda>e. f e \<in> set ks) M"
  using assms
proof (induction ks)
  case (Cons k ks)
  have split: "filter_mset (\<lambda>e. f e \<in> set (k # ks)) M = filter_mset (\<lambda>e. f e = k) M + filter_mset (\<lambda>e. f e \<in> set ks) M"
  proof (rule multiset_eqI)
    fix x
    show "count (filter_mset (\<lambda>e. f e \<in> set (k # ks)) M) x
        = count (filter_mset (\<lambda>e. f e = k) M + filter_mset (\<lambda>e. f e \<in> set ks) M) x"
      using Cons.prems(1) by auto
  qed
  have "mset (g k) \<subseteq># filter_mset (\<lambda>e. f e = k) M" using Cons.prems(2) by simp
  moreover have "mset (concat (map g ks)) \<subseteq># filter_mset (\<lambda>e. f e \<in> set ks) M" using Cons by simp
  ultimately show ?case unfolding split by (simp add: subset_mset.add_mono)
qed simp

lemma take_sort_sub: "mset (take n (sort_key k xs)) \<subseteq># mset xs"
proof -
  have "mset (take n (sort_key k xs)) + mset (drop n (sort_key k xs)) = mset xs"
    by (metis append_take_drop_id mset_append mset_sort)
  then show ?thesis by (metis mset_subset_eq_add_left)
qed

lemma signals_sub:
  "mset (episode_signals t es) \<subseteq># filter_mset (\<lambda>e. kind_of (fst e) \<in> {''failure'', ''tactic_outcome''}) (mset es)"
proof -
  let ?signal = "\<lambda>e. kind_of (fst e) \<in> set [''failure'', ''tactic_outcome'']"
  let ?ep = "\<lambda>e :: memory_entry. sc_episode (memory_scope (fst e))"
  let ?pick = "\<lambda>ep k. take 1 (sort_key (semantic_order t) (filter (\<lambda>e. ?ep e = ep \<and> kind_of (fst e) = k) es))"
  define eps where "eps = rev (sort (remdups (map ?ep es)))"
  have "mset (concat (map (?pick ep) [''failure'', ''tactic_outcome''])) \<subseteq># filter_mset (\<lambda>e. ?ep e = ep) (filter_mset ?signal (mset es))"
    for ep
  proof -
    have "mset (concat (map (?pick ep) [''failure'', ''tactic_outcome'']))
        \<subseteq># filter_mset ?signal (filter_mset (\<lambda>e. ?ep e = ep) (mset es))"
    proof (rule groups_sub)
      show "mset (?pick ep k) \<subseteq># filter_mset (\<lambda>e. kind_of (fst e) = k) (filter_mset (\<lambda>e. ?ep e = ep) (mset es))" for k
        using take_sort_sub [of 1 "semantic_order t" "filter (\<lambda>e. ?ep e = ep \<and> kind_of (fst e) = k) es"]
        by (simp add: filter_filter_mset conj_commute)
    qed simp
    then show ?thesis by (simp add: filter_filter_mset conj_commute)
  qed
  then have "mset (concat (map (\<lambda>ep. concat (map (?pick ep) [''failure'', ''tactic_outcome''])) eps))
      \<subseteq># filter_mset (\<lambda>e. ?ep e \<in> set eps) (filter_mset ?signal (mset es))"
    by (intro groups_sub) (simp_all add: eps_def)
  moreover have "\<dots> \<subseteq># filter_mset ?signal (mset es)" by (rule multiset_filter_subset)
  ultimately have "mset (episode_signals t es) \<subseteq># filter_mset ?signal (mset es)"
    unfolding episode_signals_def eps_def using subset_mset.order_trans by blast
  then show ?thesis by simp
qed

lemma interleave_mset: "mset (interleave qs) = mset (concat qs)"
proof (induction qs rule: interleave.induct)
  case (1 qs)
  show ?case
  proof (cases "\<forall>q \<in> set qs. q = []")
    case True
    then show ?thesis by (subst interleave.simps) simp
  next
    case False
    have "mset (map hd (filter (\<lambda>q. q \<noteq> []) qs)) + mset (concat (map tl qs)) = mset (concat qs)"
    proof (induction qs)
      case (Cons q qs)
      then show ?case by (cases q) auto
    qed simp
    with 1 [OF False] False show ?thesis by (subst interleave.simps) simp
  qed
qed

lemma turns_sub: "mset (observation_turns t es) \<subseteq># filter_mset source_observation (mset es)"
proof -
  let ?lane = "\<lambda>e :: memory_entry. sc_lane (memory_scope (fst e))"
  define obs where "obs = filter source_observation (sort_key (semantic_order t) es)"
  define lanes where "lanes = sort (remdups (map ?lane obs))"
  define turn where "turn = (if mt_lane t \<in> set lanes then mt_lane t # filter (\<lambda>l. l \<noteq> mt_lane t) lanes else lanes)"
  have "distinct turn" by (simp add: turn_def lanes_def)
  then have "mset (concat (map (\<lambda>l. filter (\<lambda>e. ?lane e = l) obs) turn)) \<subseteq># filter_mset (\<lambda>e. ?lane e \<in> set turn) (mset obs)"
    by (intro groups_sub) simp_all
  also have "\<dots> \<subseteq># mset obs" by (rule multiset_filter_subset)
  finally have "mset (observation_turns t es) \<subseteq># mset obs"
    unfolding observation_turns_def Let_def obs_def [symmetric] lanes_def [symmetric] turn_def [symmetric] interleave_mset .
  moreover have "mset obs = filter_mset source_observation (mset es)" by (simp add: obs_def)
  ultimately show ?thesis by simp
qed

lemma semantic_sub: "mset (semantic_projection_order t es) \<subseteq># mset es"
proof -
  let ?M = "mset es"
  have "mset (semantic_projection_order t es) \<subseteq># filter_mset (\<lambda>e. kind_of (fst e) = ''analysis_claim'') ?M
      + (filter_mset (\<lambda>e. kind_of (fst e) \<in> {''failure'', ''tactic_outcome''}) ?M + filter_mset source_observation ?M)"
    unfolding semantic_projection_order_def mset_append
    by (intro subset_mset.add_mono newest_sub signals_sub turns_sub)
  also have "\<dots> \<subseteq># ?M"
  proof (rule mset_subset_eqI)
    fix x
    have "kind_of (fst x) = ''host_observation''" if "source_observation x"
      using that by (cases "fst x") (simp_all add: source_observation_def)
    then show "count (filter_mset (\<lambda>e. kind_of (fst e) = ''analysis_claim'') ?M
        + (filter_mset (\<lambda>e. kind_of (fst e) \<in> {''failure'', ''tactic_outcome''}) ?M + filter_mset source_observation ?M)) x
      \<le> count ?M x"
      by auto
  qed
  finally show ?thesis .
qed

lemma semantic_members: "set (semantic_projection_order t es) \<subseteq> set es"
  using set_mset_mono [OF semantic_sub] by simp

lemma semantic_length: "length (semantic_projection_order t es) \<le> length es"
  using size_mset_mono [OF semantic_sub] by simp

lemma ledger_among:
  fixes xs :: "memory_entry list"
  shows "length (filter (\<lambda>e. fst e \<noteq> None) (map (\<lambda>(r, d). (Some r, d)) xs)) = length xs"
    "length (filter (\<lambda>e. fst e \<noteq> None) (take k (map (\<lambda>(r, d). (Some r, d)) xs) @ [(None, l)] @ drop k (map (\<lambda>(r, d). (Some r, d)) xs)))
       = length xs"
proof -
  let ?ys = "map (\<lambda>(r, d). (Some r, d)) xs"
  have all: "filter (\<lambda>e. fst e \<noteq> None) ?ys = ?ys" by (induction xs) auto
  then show "length (filter (\<lambda>e. fst e \<noteq> None) ?ys) = length xs" by simp
  have "filter (\<lambda>e. fst e \<noteq> None) (take k ?ys) @ filter (\<lambda>e. fst e \<noteq> None) (drop k ?ys) = ?ys"
    unfolding filter_append [symmetric] append_take_drop_id by (rule all)
  then have "length (filter (\<lambda>e. fst e \<noteq> None) (take k ?ys)) + length (filter (\<lambda>e. fst e \<noteq> None) (drop k ?ys)) = length ?ys"
    unfolding length_append [symmetric] by (rule arg_cong)
  then show "length (filter (\<lambda>e. fst e \<noteq> None) (take k ?ys @ [(None, l)] @ drop k ?ys)) = length xs"
    unfolding filter_append length_append by simp
qed

lemma offered_length: "length (filter (\<lambda>e. fst e \<noteq> None) (offered cm t us)) = length (semantic_projection_order t us)"
  unfolding offered_def Let_def by (cases "rejection_ledger cm t") (simp_all only: option.case ledger_among)

lemma offered_members:
  assumes "d \<in> snd ` set (offered cm t us)"
  shows "rejection_ledger cm t = Some d \<or> (\<exists>r. (r, d) \<in> set us)"
proof -
  let ?ys = "map (\<lambda>(r, d). (Some r, d)) (semantic_projection_order t us)"
  have parts: "set (take k ?ys) \<subseteq> set ?ys" "set (drop k ?ys) \<subseteq> set ?ys" for k
    by (rule set_take_subset, rule set_drop_subset)
  have "set (offered cm t us) \<subseteq> set ?ys \<union> {(None, x) | x. rejection_ledger cm t = Some x}"
  proof (cases "rejection_ledger cm t")
    case None
    then show ?thesis unfolding offered_def Let_def by (simp only: option.case) blast
  next
    case (Some ledger)
    then show ?thesis unfolding offered_def Let_def using parts by (simp only: option.case set_append) (auto simp del: set_map)
  qed
  moreover obtain x where x: "(x, d) \<in> set (offered cm t us)" using assms by force
  ultimately consider "(x, d) \<in> set ?ys" | "rejection_ledger cm t = Some d" by blast
  then show ?thesis
  proof cases
    case 1
    then obtain e where "e \<in> set (semantic_projection_order t us)" "snd e = d" by force
    with semantic_members [of t us] show ?thesis by (metis prod.collapse subsetD)
  qed simp
qed

lemma eligible_entry_cases:
  assumes "eligible_entry u forms r = Some e"
  obtains d where "sanitize u forms 0 (PDict (public_record r)) = Some (PDict d)" "kind_of r \<noteq> ''analysis_claim''" "e = (r, d)"
  | d d' where "sanitize u forms 0 (PDict (public_record r)) = Some (PDict d)" "kind_of r = ''analysis_claim''"
      "compact_analysis u forms d = Some d'" "e = (r, d')"
proof -
  obtain d where d: "sanitize u forms 0 (PDict (public_record r)) = Some (PDict d)" by simp
  then have "(if kind_of r = ''analysis_claim'' then map_option (\<lambda>e. (r, e)) (compact_analysis u forms d) else Some (r, d)) = Some e"
    using assms unfolding eligible_entry_def by (simp only: option.case pyval.case)
  then show thesis using that(1) [OF d] that(2) [OF d] by (auto split: if_splits)
qed

lemma eligible_members:
  assumes "(r, d) \<in> set (eligible_entries u forms t arm rs)"
  shows "r \<in> set rs \<and> in_scope t arm r \<and> eligible_entry u forms r = Some (r, d)"
proof -
  obtain r' where r': "r' \<in> set rs" "in_scope t arm r'" "eligible_entry u forms r' = Some (r, d)"
    using assms by (auto simp: eligible_entries_def map_filter_def split: if_splits)
  from r'(3) have "r = r'" by (cases rule: eligible_entry_cases) simp_all
  with r' show ?thesis by simp
qed

definition clean_document :: "unicode \<Rightarrow> string set \<Rightarrow> (string \<times> pyval) list \<Rightarrow> bool" where
  "clean_document u forms d \<longleftrightarrow> (\<forall>s \<in> set (texts_of (PDict d)). s = [] \<or> \<not> unsafe_text u forms s)
     \<and> (\<forall>k \<in> set (doc_keys (PDict d)). k = ''summary'' \<or> \<not> forbidden_key u forms k)"

lemma clean_sanitized: "sanitize u forms n v = Some (PDict d) \<Longrightarrow> clean_document u forms d"
  using sanitize_clean [of u forms n v "PDict d"] unfolding clean_document_def by blast

lemma compact_cases:
  assumes "compact_analysis u forms d = Some e"
  obtains d' e' where "sanitize u forms 0 (PDict d') = Some (PDict e')"
    "e = (if has_key e' ''summary'' then e' else set_item ''summary'' (PStr []) e')"
proof -
  define d1 where "d1 = set_item ''summary'' (case dict_get d ''summary'' of PStr s \<Rightarrow> PStr (utf8_prefix s 1024) | _ \<Rightarrow> PStr []) d"
  define d2 where "d2 = set_item ''evidence'' (compact_texts (dict_get d1 ''evidence'') 3 256) d1"
  define d3 where "d3 = set_item ''next_steps'' (compact_texts (dict_get d2 ''next_steps'') 3 512) d2"
  obtain e' where e': "sanitize u forms 0 (PDict d3) = Some (PDict e')" by simp
  have "e = (if has_key e' ''summary'' then e' else set_item ''summary'' (PStr []) e')"
    using assms unfolding compact_analysis_def d1_def [symmetric] d2_def [symmetric] d3_def [symmetric] Let_def e'
    by (auto split: if_splits)
  with e' show thesis by (rule that)
qed

definition clean_item :: "unicode \<Rightarrow> string set \<Rightarrow> string \<times> pyval \<Rightarrow> bool" where
  "clean_item u forms kv \<longleftrightarrow> (fst kv = ''summary'' \<or> \<not> forbidden_key u forms (fst kv))
     \<and> (\<forall>s \<in> set (texts_of (snd kv)). s = [] \<or> \<not> unsafe_text u forms s)
     \<and> (\<forall>k \<in> set (doc_keys (snd kv)). k = ''summary'' \<or> \<not> forbidden_key u forms k)"

lemma clean_document_items: "clean_document u forms d \<longleftrightarrow> (\<forall>kv \<in> set d. clean_item u forms kv)"
  unfolding clean_document_def clean_item_def by auto

lemma clean_summary: "clean_document u forms e \<Longrightarrow> clean_document u forms (set_item ''summary'' (PStr []) e)"
proof -
  have "set (set_item ''summary'' (PStr []) e) \<subseteq> set e \<union> {(''summary'', PStr [])}" by (auto simp: set_item_def split: if_splits)
  moreover have "clean_item u forms (''summary'', PStr [])" by (simp add: clean_item_def)
  moreover assume "clean_document u forms e"
  ultimately show ?thesis unfolding clean_document_items by blast
qed

lemma clean_entry:
  assumes "eligible_entry u forms r = Some (r', d)"
  shows "r' = r \<and> clean_document u forms d"
  using assms
proof (cases rule: eligible_entry_cases)
  case (1 d0)
  with clean_sanitized [OF 1(1)] show ?thesis by simp
next
  case (2 d0 d1)
  obtain d' e where e: "sanitize u forms 0 (PDict d') = Some (PDict e)"
    "d1 = (if has_key e ''summary'' then e else set_item ''summary'' (PStr []) e)"
    by (rule compact_cases [OF 2(3)])
  have "clean_document u forms d1" using clean_sanitized [OF e(1)] clean_summary e(2) by simp
  with 2 show ?thesis by simp
qed

lemma memory_member:
  assumes "project_memory u sha rs t arm cm private budget = Inr p" "d \<in> set (mp_records p)"
  shows "mt_role t \<noteq> ''verifier'' \<and> (rejection_ledger cm t = Some d
      \<or> (\<exists>r \<in> set rs. in_scope t arm r \<and> eligible_entry u (memory_forms u sha cm private rs) r = Some (r, d)
          \<and> clean_document u (memory_forms u sha cm private rs) d))"
  using assms(1)
proof (cases rule: project_memory_cases)
  case 1
  then show ?thesis using assms(2) by simp
next
  case (2 us repeated n)
  have "d \<in> snd ` set (offered cm t us)" using admit_members [OF 2(4)] assms(2) by auto
  then have "rejection_ledger cm t = Some d \<or> (\<exists>r. (r, d) \<in> set us)" by (rule offered_members)
  moreover have ?thesis if "(r, d) \<in> set us" for r
  proof -
    have "(r, d) \<in> set (eligible_entries u (memory_forms u sha cm private rs) t arm rs)"
      using drop_repeated_set [OF 2(3)] that by auto
    from eligible_members [OF this] have r: "r \<in> set rs" "in_scope t arm r"
      "eligible_entry u (memory_forms u sha cm private rs) r = Some (r, d)" by simp_all
    with 2(1) clean_entry [OF r(3)] show ?thesis by blast
  qed
  ultimately show ?thesis using 2(1) by blast
qed

text \<open>What another lane sees: every record of a projection is the ledger of rejections, which holds counts only, or the public
  form of a record of the same run and challenge from an earlier episode, whose text and keys are clean of every known secret;
  the prose of a model is never passed to another lane, and a verifier is given nothing at all.\<close>

theorem projection_scoped:
  assumes "project_memory u sha rs t arm cm private budget = Inr p" "d \<in> set (mp_records p)"
  shows "mt_role t \<noteq> ''verifier''
    \<and> (rejection_ledger cm t = Some d
      \<or> (\<exists>r \<in> set rs. sc_run (memory_scope r) = mt_run t \<and> sc_challenge (memory_scope r) = mt_challenge t
          \<and> sc_episode (memory_scope r) < mt_episode t
          \<and> (kind_of r = ''analysis_claim'' \<or> arm = ''lane_local_v1'' \<longrightarrow> sc_lane (memory_scope r) = mt_lane t)
          \<and> eligible_entry u (memory_forms u sha cm private rs) r = Some (r, d)
          \<and> clean_document u (memory_forms u sha cm private rs) d))"
  using memory_member [OF assms] by (auto simp: in_scope_def Let_def)

lemma offered_bounds:
  assumes "admit_records budget [] (offered cm t us) = (ds, n)"
  shows "n \<le> length us" "n \<le> length ds" "length ds - n \<le> 1" "rejection_ledger cm t = None \<Longrightarrow> length ds = n"
proof -
  have counts: "n \<le> length (filter (\<lambda>e. fst e \<noteq> None) (offered cm t us))"
    "length ds \<le> n + length (filter (\<lambda>e. fst e = None) (offered cm t us))" "n \<le> length ds"
    using admit_records_counts [OF assms] by simp_all
  then show "n \<le> length us" "n \<le> length ds"
    using offered_length [of cm t us] semantic_length [of t us] by linarith+
  have total: "length (filter (\<lambda>e. fst e \<noteq> None) (offered cm t us)) + length (filter (\<lambda>e. fst e = None) (offered cm t us))
      = length (offered cm t us)"
    using sum_length_filter_compl [of "\<lambda>e. fst e \<noteq> None" "offered cm t us"] by simp
  have "length (offered cm t us) = length (semantic_projection_order t us) + (if rejection_ledger cm t = None then 0 else 1)"
    by (simp add: offered_def Let_def split: option.split)
  with total offered_length [of cm t us]
  have none: "length (filter (\<lambda>e. fst e = None) (offered cm t us)) = (if rejection_ledger cm t = None then 0 else 1)" by simp
  show "length ds - n \<le> 1" using counts(2) none by (simp split: if_splits)
  show "length ds = n" if "rejection_ledger cm t = None" using counts(2,3) none that by simp
qed

text \<open>C16. The projection never fails on a budget in range, and its counts account for every record in scope: what is not in the
  projection was repeated or is counted as omitted.\<close>

theorem projection_accounts:
  "(is_ok (project_memory u sha rs t arm cm private budget) \<longleftrightarrow> arm \<in> set MEMORY_ARMS \<and> 2 \<le> budget \<and> budget \<le> PROJECTION_BYTES)
   \<and> (case project_memory u sha rs t arm cm private budget of
        Inl _ \<Rightarrow> True
      | Inr p \<Rightarrow> 0 \<le> mp_omitted p \<and> (mt_role t = ''verifier'' \<or>
           (\<exists>source ledger. length (mp_records p) = source + ledger \<and> ledger \<le> (if rejection_ledger cm t = None then 0 else 1)
             \<and> int (length (eligible_entries u (memory_forms u sha cm private rs) t arm rs))
               = int source + int (mp_deduplicated p) + mp_omitted p)))"
proof (intro conjI)
  obtain us repeated where us: "drop_repeated [] (sort_key (semantic_order t)
    (eligible_entries u (memory_forms u sha cm private rs) t arm rs)) = (us, repeated)" by fastforce
  obtain ds n where ds: "admit_records budget [] (offered cm t us) = (ds, n)" by fastforce
  show "is_ok (project_memory u sha rs t arm cm private budget) \<longleftrightarrow> arm \<in> set MEMORY_ARMS \<and> 2 \<le> budget \<and> budget \<le> PROJECTION_BYTES"
    using offered_bounds(1) [OF ds]
    by (auto simp: project_memory_def us ds Let_def ensure_def is_ok_def)
  show "case project_memory u sha rs t arm cm private budget of
        Inl _ \<Rightarrow> True
      | Inr p \<Rightarrow> 0 \<le> mp_omitted p \<and> (mt_role t = ''verifier'' \<or>
           (\<exists>source ledger. length (mp_records p) = source + ledger \<and> ledger \<le> (if rejection_ledger cm t = None then 0 else 1)
             \<and> int (length (eligible_entries u (memory_forms u sha cm private rs) t arm rs))
               = int source + int (mp_deduplicated p) + mp_omitted p))"
  proof (cases "project_memory u sha rs t arm cm private budget")
    case (Inr p)
    show ?thesis
      using Inr
    proof (cases rule: project_memory_cases)
      case 1
      then show ?thesis by (simp add: Inr)
    next
      case (2 vs k m)
      note b = offered_bounds [OF 2(4)]
      have "length vs + k = length (eligible_entries u (memory_forms u sha cm private rs) t arm rs)"
        using drop_repeated_length [OF 2(3)] by simp
      moreover have "length (mp_records p) - m \<le> (if rejection_ledger cm t = None then 0 else 1)" using b(3,4) by simp
      ultimately show ?thesis using b(1,2) 2(5,6) unfolding Inr sum.case
        by (intro conjI disjI2 exI [of _ m] exI [of _ "length (mp_records p) - m"]) simp_all
    qed
  qed simp
qed

section \<open>The order of the records\<close>

lemma sort_key_permuted:
  assumes "mset xs = mset ys" "inj_on f (set xs)"
  shows "sort_key f xs = sort_key f ys"
  by (rule sort_key_inj_key_eq) (use assms in simp_all)

lemma record_order_id: "record_order r = record_order s \<Longrightarrow> sc_id (memory_scope r) = sc_id (memory_scope s)"
  by (simp add: record_order_def Let_def)

text \<open>C15. When no two different records have the same record id, the order in which the store hands the records over makes no
  difference to what a model reads.\<close>

theorem projection_order_independent:
  assumes "mset rs = mset rs'" "\<forall>r \<in> set rs. \<forall>s \<in> set rs. sc_id (memory_scope r) = sc_id (memory_scope s) \<longrightarrow> r = s"
  shows "project_memory u sha rs t arm cm private budget = project_memory u sha rs' t arm cm private budget"
proof -
  have inj: "inj_on record_order (set rs)" using assms(2) by (auto intro!: inj_onI dest!: record_order_id)
  have "set rs = set rs'" using assms(1) by (rule mset_eq_setD)
  then have forms: "memory_forms u sha cm private rs = memory_forms u sha cm private rs'"
    by (simp add: memory_forms_def sensitive_forms_def)
  have "eligible_entries u forms t arm rs = eligible_entries u forms t arm rs'" for forms
    unfolding eligible_entries_def sort_key_permuted [OF assms(1) inj] ..
  then show ?thesis unfolding project_memory_def forms by simp
qed

section \<open>Texts that are cut\<close>

lemma utf8_bytes_decoded: "utf8_decode p = Some t \<Longrightarrow> utf8_bytes t = p"
proof (induction p arbitrary: t rule: utf8_decode.induct)
  case (2 b r)
  define n where "n = (of_char b :: nat)"
  consider "n < 128" | "n = 194 \<or> n = 195" using "2.prems" by (auto simp: Let_def n_def split: if_splits)
  then show ?case
  proof cases
    case 1
    then obtain s where "utf8_decode r = Some s" "t = b # s" using "2.prems" by (auto simp: n_def)
    with "2.IH"(1) [OF n_def] 1 show ?thesis by (simp add: utf8_char_def n_def)
  next
    case 2
    then obtain x r' where r: "r = x # r'" using "2.prems" by (auto simp: Let_def n_def split: list.splits if_splits)
    define m where "m = (of_char x :: nat)"
    obtain s where s: "utf8_decode r' = Some s" "t = char_of ((n - 192) * 64 + (m - 128)) # s" "128 \<le> m" "m < 192"
      using "2.prems" 2 by (auto simp: Let_def n_def [symmetric] m_def [symmetric] r split: if_splits)
    have "utf8_bytes s = r'"
    proof (rule "2.IH"(2) [OF n_def _ 2 r m_def])
      show "\<not> n < 128" using 2 by auto
    qed (use s in simp_all)
    moreover have "utf8_char (char_of ((n - 192) * 64 + (m - 128))) = [b, x]"
    proof -
      define k where "k = (n - 192) * 64 + (m - 128)"
      have low: "m mod 64 = m - 128"
      proof -
        have "m = (m - 128) + 2 * 64" using s(3) by simp
        then have "m mod 64 = (m - 128) mod 64" by (metis mod_mult_self1)
        then show ?thesis using s(3,4) by simp
      qed
      have k: "128 \<le> k" "k < 256" "k div 64 = n - 192" "k mod 64 = m - 128" using 2 s(3,4) low by (auto simp: k_def)
      then have "192 + k div 64 = n" "128 + k mod 64 = m" using 2 s(3) by auto
      then show ?thesis unfolding k_def [symmetric] using k by (simp add: utf8_char_def n_def m_def)
    qed
    ultimately show ?thesis using r s(2) by simp
  qed
qed simp

lemma text_prefix_bytes: "\<exists>k. utf8_bytes (text_prefix p) = take k p"
proof (induction p rule: text_prefix.induct)
  case (1 p)
  show ?case
  proof (cases "p = []")
    case False
    show ?thesis
    proof (cases "utf8_decode p")
      case None
      with 1 False obtain k where "utf8_bytes (text_prefix (butlast p)) = take k (butlast p)" by blast
      then show ?thesis using None False by (subst text_prefix.simps) (auto simp: butlast_conv_take min_def)
    next
      case (Some t)
      then show ?thesis using False utf8_bytes_decoded [OF Some]
        by (subst text_prefix.simps) (simp, metis order_refl take_all)
    qed
  qed (subst text_prefix.simps, simp)
qed

text \<open>A text that is cut stays within its bound, and only its end is lost.\<close>

theorem cut_text_bounded:
  assumes "3 \<le> maximum"
  shows "length (utf8_bytes (utf8_prefix s maximum)) \<le> maximum
    \<and> (utf8_prefix s maximum = s
      \<or> (\<exists>k. utf8_bytes (utf8_prefix s maximum) = take k (utf8_bytes s) @ ''...'' \<and> maximum < length (utf8_bytes s)))"
proof (cases "length (utf8_bytes s) \<le> maximum")
  case False
  obtain k where k: "utf8_bytes (text_prefix (take (maximum - 3) (utf8_bytes s))) = take k (take (maximum - 3) (utf8_bytes s))"
    using text_prefix_bytes by blast
  have dots: "utf8_bytes ''...'' = ''...''" by (rule utf8_ascii) (simp add: is_ascii_def)
  have cut: "utf8_bytes (utf8_prefix s maximum) = take (min k (maximum - 3)) (utf8_bytes s) @ ''...''"
    using False k dots by (simp add: utf8_prefix_def del: utf8_bytes_simps(2))
  with False assms show ?thesis by auto
qed (simp add: utf8_prefix_def)

section \<open>A projection\<close>

definition plain_unicode :: unicode where
  "plain_unicode = \<lparr>uni_nfkc = \<lambda>s. s, uni_fold = py_lower\<rparr>"

definition sample_target :: memory_target where
  "sample_target = \<lparr>mt_run = ''r'', mt_challenge = 7, mt_episode = 2, mt_lane = 1, mt_role = ''specialist''\<rparr>"

definition sample_scope :: record_scope where
  "sample_scope = \<lparr>sc_id = ''failure:1:lane:0'', sc_run = ''r'', sc_challenge = 7, sc_episode = 1, sc_lane = 0, sc_attempt = ''a''\<rparr>"

definition sample_failure :: memory_record where
  "sample_failure = FailureRecord sample_scope ''tool'' ''stalled''"

definition sample_records :: "memory_record list" where
  "sample_records = [sample_failure, AnalysisClaim (sample_scope\<lparr>sc_id := ''c''\<rparr>) ''unsolved'' ''prose'' [] [] 3]"

definition no_contexts :: candidate_aggregate where
  "no_contexts = \<lparr>ca_contexts = [], ca_invalid = 0, ca_rejected = 0\<rparr>"

definition sample_words :: "string list" where
  "sample_words = [''failure_kind'', ''kind'', ''record_id'', ''source_episode'', ''source_lane'', ''subreason'', ''tool'', ''failure'',
     ''failure:1:lane:0'', ''stalled'', ''r'', ''a'']"

lemma few_pads: "replicate 2 x = [x, x]" "replicate 3 x = [x, x, x]"
  by (simp_all add: numeral_2_eq_2 numeral_3_eq_3)

lemma sample_words_opaque: "list_all (\<lambda>s. \<not> decoded_candidate plain_unicode s) sample_words"
  by (simp add: sample_words_def decoded_candidate_def payloads_def b64_text_def word_char_def is_letter_def is_digit_def pad_b64_def
      from_urlsafe_def b64_value_def hex_digit_def map_filter_simps plain_unicode_def few_pads Let_def has_candidate_def candidate_at_def
      candidate_prefix_def py_lower_def lower_char_def)

lemma sample_words_plain:
  "list_all (\<lambda>s. \<not> has_candidate s \<and> \<not> credential_marker s \<and> \<not> hex_lower 64 64 s \<and> \<not> starts_with ''/'' s \<and> \<not> has_authority s) sample_words"
  by code_simp

lemma sample_words_keys: "list_all (\<lambda>s. \<not> list_ex (\<lambda>w. occurs (starts_with w) (py_lower s)) FORBIDDEN_FRAGMENTS) sample_words"
  by code_simp

lemma sample_words_safe:
  assumes "s \<in> set sample_words"
  shows "\<not> unsafe_text plain_unicode {} s" "\<not> forbidden_key plain_unicode {} s"
proof -
  show safe: "\<not> unsafe_text plain_unicode {} s"
    using assms sample_words_opaque sample_words_plain by (auto simp: unsafe_text_def Let_def list_all_iff plain_unicode_def)
  show "\<not> forbidden_key plain_unicode {} s"
    using assms safe sample_words_keys by (auto simp: forbidden_key_def list_all_iff plain_unicode_def)
qed

definition sample_document :: "(string \<times> pyval) list" where
  "sample_document = [(''failure_kind'', PStr ''tool''), (''kind'', PStr ''failure''), (''record_id'', PStr ''failure:1:lane:0''),
     (''source_episode'', PInt 1), (''source_lane'', PInt 0), (''subreason'', PStr ''stalled'')]"

lemma sample_sorted: "sort_key fst (public_record sample_failure) = sample_document"
  by code_simp

lemma sample_eligible: "eligible_entry plain_unicode {} sample_failure = Some (sample_failure, sample_document)"
proof -
  have "sanitize plain_unicode {} 0 (PDict (public_record sample_failure)) = Some (PDict sample_document)"
    unfolding sanitize.simps sample_sorted
    by (simp add: sample_document_def map_filter_simps sample_words_safe sample_words_def)
  then show ?thesis by (simp add: eligible_entry_def sample_failure_def)
qed

lemma sample_forms:
  assumes "cm = None \<or> cm = Some no_contexts"
  shows "memory_forms plain_unicode sha cm [] [sample_failure] = {}"
proof -
  have "discover plain_unicode 0 (PDict (public_record sample_failure)) = []" by code_simp
  then show ?thesis using assms by (auto simp: memory_forms_def sensitive_forms_def aggregate_secrets_def no_contexts_def)
qed

lemma sample_projection:
  assumes "cm = None \<or> cm = Some no_contexts"
  shows "project_memory plain_unicode sha [sample_failure] sample_target ''typed_challenge_v1'' cm [] 24576
     = Inr \<lparr>mp_deduplicated = 0, mp_omitted = 0, mp_target = sample_target, mp_arm = ''typed_challenge_v1'', mp_records = [sample_document]\<rparr>"
proof -
  have "in_scope sample_target ''typed_challenge_v1'' sample_failure" by code_simp
  then have e: "eligible_entries plain_unicode {} sample_target ''typed_challenge_v1'' [sample_failure] = [(sample_failure, sample_document)]"
    by (simp add: eligible_entries_def map_filter_simps sample_eligible)
  have f: "memory_scope sample_failure = sample_scope"
    "kind_of sample_failure = ''failure''" "\<not> source_observation (sample_failure, sample_document)"
    by (simp_all add: sample_failure_def source_observation_def)
  have us: "drop_repeated [] [(sample_failure, sample_document)] = ([(sample_failure, sample_document)], 0)"
    by (cases "repeated_fingerprint sample_document") simp_all
  have order: "semantic_projection_order sample_target [(sample_failure, sample_document)] = [(sample_failure, sample_document)]"
    by (simp add: semantic_projection_order_def newest_analysis_def episode_signals_def observation_turns_def f interleave.simps [of "[]"])
  have size: "int (length (json_dumps (PList [PDict sample_document]))) \<le> 24576" by code_simp
  have "offered cm sample_target [(sample_failure, sample_document)] = [(Some sample_failure, sample_document)]"
    using assms by (auto simp: offered_def order rejection_ledger_def no_contexts_def)
  then show ?thesis
    using size by (simp add: project_memory_def MEMORY_ARMS_def PROJECTION_BYTES_def sample_target_def [THEN arg_cong, of mt_role] sample_forms [OF assms] e us
        del: json_dumps.simps drop_repeated.simps)
qed

lemma projection_fits_witness: "\<exists>p. project_memory plain_unicode (\<lambda>_. ''d'') [sample_failure] sample_target ''typed_challenge_v1'' None [] 24576 = Inr p
    \<and> int (length (mp_encoded p)) \<le> 24576"
  using projection_fits [OF sample_projection [OF disjI1 [OF refl]]] sample_projection [OF disjI1 [OF refl]] by blast

lemma projection_scoped_witness: "\<exists>p d. project_memory plain_unicode (\<lambda>_. ''d'') [sample_failure] sample_target ''typed_challenge_v1'' None [] 24576 = Inr p
    \<and> d \<in> set (mp_records p) \<and> eligible_entry plain_unicode {} sample_failure = Some (sample_failure, d)
    \<and> clean_document plain_unicode {} d"
proof -
  have "sample_document \<in> set (mp_records \<lparr>mp_deduplicated = 0, mp_omitted = 0, mp_target = sample_target,
    mp_arm = ''typed_challenge_v1'', mp_records = [sample_document]\<rparr>)" by simp
  note d = projection_scoped [OF sample_projection [OF disjI1 [OF refl]] this] this
  have "eligible_entry plain_unicode {} sample_failure = Some (sample_failure, sample_document)"
    and "clean_document plain_unicode {} sample_document"
    using d(1) by (auto simp: rejection_ledger_def sample_forms [OF disjI1 [OF refl]])
  with d(2) sample_projection [OF disjI1 [OF refl]] show ?thesis by blast
qed

lemma projection_order_independent_witness:
  "project_memory plain_unicode (\<lambda>_. ''d'') sample_records sample_target ''typed_challenge_v1'' None [] 24576
   = project_memory plain_unicode (\<lambda>_. ''d'') (rev sample_records) sample_target ''typed_challenge_v1'' None [] 24576"
proof (rule projection_order_independent)
  show "\<forall>r \<in> set sample_records. \<forall>s \<in> set sample_records. sc_id (memory_scope r) = sc_id (memory_scope s) \<longrightarrow> r = s"
    by (auto simp: sample_records_def sample_failure_def sample_scope_def)
qed simp

lemma projection_accounts_witness: "is_ok (project_memory plain_unicode (\<lambda>_. ''d'') [sample_failure] sample_target ''typed_challenge_v1'' None [] 24576)"
  using projection_accounts [of plain_unicode "\<lambda>_. ''d''" "[sample_failure]" sample_target "''typed_challenge_v1''" None "[]" 24576]
  by (simp add: MEMORY_ARMS_def PROJECTION_BYTES_def)

lemma cut_text_bounded_witness: "length (utf8_bytes (utf8_prefix ''INCYPHER'' 5)) \<le> 5"
  using cut_text_bounded [of 5 "''INCYPHER''"] by simp

end
