(* ===== verification/Memory_Sources.thy ===== *)
theory Memory_Sources
  imports Memory_Bounds Candidate_Vault Evidence_Use
begin

text \<open>
  Where the memory of a lane comes from: the queries of the store (\<open>src/rapido/state.py\<close>) for earlier
  attempts, failures and private candidates, and their assembly with the evidence of each attempt into
  one projection (\<open>_typed_same_run_memory\<close> of \<open>src/rapido/orchestrator.py\<close>).
\<close>

section \<open>What the store keeps of earlier attempts\<close>

text \<open>The lists of texts are stored as JSON; a value outside the limits of the attempt reads as an empty list.\<close>

definition decode_attempt_evidence :: "string list option \<Rightarrow> string list" where
  "decode_attempt_evidence x =
     (case x of
        None \<Rightarrow> []
      | Some xs \<Rightarrow> if MAX_ATTEMPT_EVIDENCE_ITEMS < length xs \<or> list_ex (\<lambda>s. MAX_ATTEMPT_EVIDENCE_ITEM_CHARS < length s) xs
          then [] else xs)"

definition decode_checkpoint_observations :: "pyval list \<Rightarrow> pyval list" where
  "decode_checkpoint_observations xs =
     (if 100 < length xs \<or> list_ex (\<lambda>x. case x of PDict _ \<Rightarrow> False | _ \<Rightarrow> True) xs then [] else xs)"

record prior_attempt =
  pa_episode :: int
  pa_status :: string
  pa_summary :: string
  pa_evidence :: "string list"
  pa_steps :: "string list"
  pa_tools :: int
  pa_failure :: "string option"

definition prior_attempt_of :: "attempt_row \<Rightarrow> prior_attempt" where
  "prior_attempt_of a = \<lparr>pa_episode = at_episode a, pa_status = at_status a, pa_summary = at_summary a,
     pa_evidence = decode_attempt_evidence (Some (at_evidence a)), pa_steps = decode_attempt_evidence (Some (at_next_steps a)),
     pa_tools = at_tool_count a, pa_failure = at_failure a\<rparr>"

text \<open>Newest first, so that a limit keeps the newest, and then turned round.\<close>

definition prior_rows :: "db \<Rightarrow> string \<Rightarrow> int \<Rightarrow> int \<Rightarrow> int option \<Rightarrow> attempt_row list" where
  "prior_rows d run c lane bef =
     rev (sort_key (\<lambda>a. (at_episode a, at_started a, at_id a))
       (filter (\<lambda>a. at_run a = run \<and> at_challenge a = c \<and> at_lane a = lane \<and> at_status a \<notin> {''running'', ''candidate''}
         \<and> (case bef of None \<Rightarrow> True | Some e \<Rightarrow> at_episode a < e)) (attempts d)))"

definition prior_attempts_for_lane :: "db \<Rightarrow> string \<Rightarrow> int \<Rightarrow> int \<Rightarrow> int option \<Rightarrow> int option \<Rightarrow> prior_attempt list result" where
  "prior_attempts_for_lane d run c lane bef limit =
     bind_result (ensure (case bef of None \<Rightarrow> True | Some e \<Rightarrow> 0 \<le> e) (ValueError ''before_episode must be a nonnegative integer'')) (\<lambda>_.
     bind_result (ensure (case limit of None \<Rightarrow> True | Some n \<Rightarrow> 1 \<le> n \<and> n \<le> 100)
       (ValueError ''limit must be an integer in [1, 100]'')) (\<lambda>_.
     let rows = prior_rows d run c lane bef in
     Inr (map prior_attempt_of (rev (case limit of None \<Rightarrow> rows | Some n \<Rightarrow> take (nat n) rows)))))"

definition check_scope :: "string \<Rightarrow> int \<Rightarrow> int \<Rightarrow> unit result" where
  "check_scope run c bef =
     bind_result (ensure (run \<noteq> []) (ValueError ''run_id must be nonempty'')) (\<lambda>_.
     bind_result (ensure (0 < c) (ValueError ''challenge_id must be positive'')) (\<lambda>_.
     ensure (0 \<le> bef) (ValueError ''before_episode must be nonnegative'')))"

record source_row =
  mq_attempt :: string
  mq_episode :: int
  mq_lane :: int
  mq_status :: string
  mq_summary :: "string option"
  mq_evidence :: "string list"
  mq_steps :: "string list"
  mq_checkpoints :: "pyval list"
  mq_tools :: int
  mq_role :: "string option"
  mq_tactic :: "string option"
  mq_profile :: "string option"

text \<open>The joins: every ended attempt with each job of its lane, or with none.\<close>

definition attempt_jobs :: "db \<Rightarrow> attempt_row \<Rightarrow> job_row option list" where
  "attempt_jobs d a =
     (let js = filter (\<lambda>j. jb_run j = at_run a \<and> jb_challenge j = at_challenge a \<and> jb_episode j = at_episode a
        \<and> jb_lane j = at_lane a) (control_jobs d) in
      if js = [] then [None] else map Some js)"

definition ended_rows :: "db \<Rightarrow> string \<Rightarrow> int \<Rightarrow> int \<Rightarrow> (attempt_row \<times> job_row option) list" where
  "ended_rows d run c bef =
     concat (map (\<lambda>a. map (\<lambda>j. (a, j)) (attempt_jobs d a))
       (sort_key (\<lambda>a. (- at_episode a, at_lane a, at_id a))
         (filter (\<lambda>a. at_run a = run \<and> at_challenge a = c \<and> at_episode a < bef \<and> at_status a \<noteq> ''running'') (attempts d))))"

definition job_route :: "digest_fn \<Rightarrow> db \<Rightarrow> job_row option \<Rightarrow> route_spec option result" where
  "job_route sha d j =
     (case j of
        None \<Rightarrow> Inr None
      | Some x \<Rightarrow> (case route_of_job d x of
          None \<Rightarrow> Inr None
        | Some row \<Rightarrow> (case route_from_dict (rt_document row) of
            Inl _ \<Rightarrow> Inl (ValueError ''terminal attempt route is invalid'')
          | Inr r \<Rightarrow>
              if role r \<noteq> jb_role x then Inl (ValueError ''terminal attempt route role changed'')
              else if fingerprint sha r \<noteq> jb_fingerprint x then Inl (ValueError ''terminal attempt route fingerprint changed'')
              else Inr (Some r))))"

definition source_of :: "digest_fn \<Rightarrow> db \<Rightarrow> int \<Rightarrow> attempt_row \<times> job_row option \<Rightarrow> source_row result" where
  "source_of sha d lane = (\<lambda>(a, j).
     bind_result (job_route sha d j) (\<lambda>r.
     let own = (\<lambda>x. if at_lane a = lane then Some x else None) in
     Inr \<lparr>mq_attempt = at_id a, mq_episode = at_episode a, mq_lane = at_lane a, mq_status = at_status a,
       mq_summary = (if at_lane a = lane then Some (at_summary a) else None),
       mq_evidence = decode_attempt_evidence (own (at_evidence a)), mq_steps = decode_attempt_evidence (own (at_next_steps a)),
       mq_checkpoints = decode_checkpoint_observations (at_observations a), mq_tools = at_tool_count a,
       mq_role = map_option jb_role j, mq_tactic = map_option route_tactic r, mq_profile = map_option tool_policy r\<rparr>))"

definition same_run_memory_sources :: "digest_fn \<Rightarrow> db \<Rightarrow> string \<Rightarrow> int \<Rightarrow> int \<Rightarrow> int \<Rightarrow> source_row list result" where
  "same_run_memory_sources sha d run c lane bef =
     bind_result (ensure (run \<noteq> []) (ValueError ''run_id must be nonempty'')) (\<lambda>_.
     bind_result (ensure (0 < c) (ValueError ''challenge_id must be positive'')) (\<lambda>_.
     bind_result (ensure (0 \<le> lane) (ValueError ''target_lane must be nonnegative'')) (\<lambda>_.
     bind_result (ensure (0 \<le> bef) (ValueError ''before_episode must be nonnegative'')) (\<lambda>_.
     let rows = ended_rows d run c bef in
     bind_result (ensure (distinct (map (at_id \<circ> fst) rows)) (ValueError ''terminal attempt maps to multiple control jobs'')) (\<lambda>_.
     traverse (source_of sha d lane) rows)))))"

record failure_source =
  fs_record :: string
  fs_episode :: int
  fs_lane :: int
  fs_attempt :: string
  fs_kind :: string
  fs_subreason :: string

definition failure_rows :: "db \<Rightarrow> string \<Rightarrow> int \<Rightarrow> int \<Rightarrow> (decision_row \<times> job_row) list" where
  "failure_rows d run c bef =
     sort_key (\<lambda>(x, j). (- dc_episode x, jb_lane j, dc_sequence x))
       (concat (map (\<lambda>x. map (\<lambda>j. (x, j)) (filter (\<lambda>j. in_wave run c (dc_episode x) j) (control_jobs d)))
         (filter (\<lambda>x. dc_run x = run \<and> dc_challenge x = c \<and> dc_episode x < bef) (route_decisions d))))"

definition failure_of :: "decision_row \<times> job_row \<Rightarrow> failure_source result" where
  "failure_of = (\<lambda>(x, j).
     bind_result (ensure (dc_kind x \<in> FAILURE_KINDS) (ValueError ''durable memory failure kind is invalid'')) (\<lambda>_.
     Inr \<lparr>fs_record = ''failure:'' @ show_int (int (dc_sequence x)) @ '':lane:'' @ show_int (jb_lane j), fs_episode = dc_episode x,
       fs_lane = jb_lane j, fs_attempt = jb_id j, fs_kind = dc_kind x, fs_subreason = dc_subreason x\<rparr>))"

definition same_run_memory_failures :: "db \<Rightarrow> string \<Rightarrow> int \<Rightarrow> int \<Rightarrow> failure_source list result" where
  "same_run_memory_failures d run c bef = bind_result (check_scope run c bef) (\<lambda>_. traverse failure_of (failure_rows d run c bef))"

record verifier_source =
  xv_attempt :: string
  xv_episode :: int
  xv_lane :: int
  xv_candidate :: string
  xv_role :: string
  xv_route_recipe :: string

record context_source =
  xs_attempt :: string
  xs_episode :: int
  xs_lane :: int
  xs_role :: string
  xs_recipe :: string
  xs_candidate :: string
  xs_route_role :: string
  xs_verifier :: "verifier_source option"
  xs_verification_recipe :: "string option"

definition proposal_job :: "db \<Rightarrow> proposal_row \<Rightarrow> job_row option" where
  "proposal_job d p = first_row (\<lambda>j. in_wave (pp_run p) (pp_challenge p) (pp_episode p) j \<and> jb_lane j = pp_lane p
     \<and> jb_role j = pp_role p) (control_jobs d)"

text \<open>The route of the job of a proposal; a missing job or route reads as a text that is no route.\<close>

definition proposal_route :: "digest_fn \<Rightarrow> string \<Rightarrow> string \<Rightarrow> db \<Rightarrow> proposal_row \<Rightarrow> route_spec result" where
  "proposal_route sha who expected d p =
     (case proposal_job d p of
        None \<Rightarrow> Inl (ValueError (''private '' @ who @ '' route is invalid''))
      | Some j \<Rightarrow> (case route_of_job d j of
          None \<Rightarrow> Inl (ValueError (''private '' @ who @ '' route is invalid''))
        | Some row \<Rightarrow> (case route_from_dict (rt_document row) of
            Inl _ \<Rightarrow> Inl (ValueError (''private '' @ who @ '' route is invalid''))
          | Inr r \<Rightarrow>
              if role r \<noteq> expected then Inl (ValueError (''private '' @ who @ '' route role changed''))
              else if fingerprint sha r \<noteq> jb_fingerprint j then Inl (ValueError (''private '' @ who @ '' route fingerprint changed''))
              else Inr r)))"

definition proposal_verifications :: "db \<Rightarrow> proposal_row \<Rightarrow> verification_row option list" where
  "proposal_verifications d p =
     (let vs = filter (\<lambda>v. vf_run v = pp_run p \<and> vf_challenge v = pp_challenge p \<and> vf_producer v = pp_attempt p
        \<and> current_verification d v) (verifications d) in
      if vs = [] then [None] else map Some vs)"

definition verifier_proposal :: "db \<Rightarrow> int \<Rightarrow> proposal_row \<Rightarrow> verification_row \<Rightarrow> proposal_row option" where
  "verifier_proposal d bef p v =
     (case proposal_of d (vf_verifier v) of
        None \<Rightarrow> None
      | Some q \<Rightarrow> if pp_run q = pp_run p \<and> pp_challenge q = pp_challenge p \<and> pp_episode q < bef then Some q else None)"

definition verifier_source_of :: "digest_fn \<Rightarrow> db \<Rightarrow> proposal_row option \<Rightarrow> verifier_source option result" where
  "verifier_source_of sha d q =
     (case q of
        None \<Rightarrow> Inr None
      | Some x \<Rightarrow> bind_result (proposal_route sha ''verifier'' ''verifier'' d x) (\<lambda>r.
          Inr (Some \<lparr>xv_attempt = pp_attempt x, xv_episode = pp_episode x, xv_lane = pp_lane x, xv_candidate = pp_candidate x,
            xv_role = role r, xv_route_recipe = verification_recipe r\<rparr>)))"

definition context_source_of :: "digest_fn \<Rightarrow> db \<Rightarrow> int \<Rightarrow> proposal_row \<times> verification_row option \<Rightarrow> context_source result" where
  "context_source_of sha d bef = (\<lambda>(p, v).
     bind_result (proposal_route sha ''candidate'' (pp_role p) d p) (\<lambda>r.
     bind_result (verifier_source_of sha d (case v of None \<Rightarrow> None | Some x \<Rightarrow> verifier_proposal d bef p x)) (\<lambda>q.
     Inr \<lparr>xs_attempt = pp_attempt p, xs_episode = pp_episode p, xs_lane = pp_lane p, xs_role = pp_role p, xs_recipe = pp_recipe p,
       xs_candidate = pp_candidate p, xs_route_role = role r, xs_verifier = q, xs_verification_recipe = map_option vf_recipe v\<rparr>)))"

definition context_rows :: "db \<Rightarrow> string \<Rightarrow> int \<Rightarrow> int \<Rightarrow> (proposal_row \<times> verification_row option) list" where
  "context_rows d run c bef =
     concat (map (\<lambda>p. map (\<lambda>v. (p, v)) (proposal_verifications d p))
       (sort_key (\<lambda>p. (pp_episode p, pp_lane p, pp_attempt p))
         (filter (\<lambda>p. pp_run p = run \<and> pp_challenge p = c \<and> pp_role p \<in> {''specialist'', ''recovery''} \<and> pp_episode p < bef)
           (proposals d))))"

definition private_candidate_context_sources :: "digest_fn \<Rightarrow> db \<Rightarrow> string \<Rightarrow> int \<Rightarrow> int \<Rightarrow> context_source list result" where
  "private_candidate_context_sources sha d run c bef =
     bind_result (check_scope run c bef) (\<lambda>_. traverse (context_source_of sha d bef) (context_rows d run c bef))"

section \<open>Memory of one lane\<close>

definition bool_of :: "string \<Rightarrow> pyval \<Rightarrow> bool result" where
  "bool_of label v = (case v of PBool b \<Rightarrow> Inr b | _ \<Rightarrow> Inl (TypeError label))"

definition opt_bool_of :: "string \<Rightarrow> pyval \<Rightarrow> bool option result" where
  "opt_bool_of label v = (case v of PNone \<Rightarrow> Inr None | PBool b \<Rightarrow> Inr (Some b) | _ \<Rightarrow> Inl (TypeError label))"

text \<open>The constructor of an observation, given the dynamic values of the evidence.\<close>

definition observation_record :: "unicode \<Rightarrow> record_scope \<Rightarrow> bool \<Rightarrow> string option \<Rightarrow> string \<Rightarrow> pyval \<Rightarrow> pyval \<Rightarrow> pyval
     \<Rightarrow> memory_record result" where
  "observation_record u s whole_manifest gap tool success bound facts =
     bind_result (checks (scope_checks u s)) (\<lambda>_.
     bind_result (bool_of ''memory observation flags are invalid'' bound) (\<lambda>b.
     bind_result (opt_bool_of ''memory observation success is invalid'' success) (\<lambda>ok.
     bind_result (optional_text u ''observation gap'' 100 gap) (\<lambda>_.
     bind_result (memory_text u ''observation tool'' 100 tool) (\<lambda>_.
     case facts of
       PDict kvs \<Rightarrow> Inr (HostObservation s whole_manifest gap tool ok b kvs)
     | _ \<Rightarrow> Inl (TypeError ''memory observation facts are invalid''))))))"

definition candidate_evidence_of :: "unicode \<Rightarrow> string \<Rightarrow> string \<Rightarrow> memory_source \<Rightarrow> candidate_evidence result" where
  "candidate_evidence_of u job_role recipe s =
     construct_candidate_evidence u \<lparr>cx_run = ms_run s, cx_challenge = ms_challenge s, cx_episode = ms_episode s,
       cx_lane = ms_lane s, cx_attempt = ms_attempt s, cx_role = job_role, cx_recipe = recipe,
       cx_manifest_complete = ms_complete s, cx_gap = ms_gap s, cx_observed = ms_observed s, cx_supplied = ms_supplied s\<rparr>"

definition verification_of_source ::
  "unicode \<Rightarrow> stdlib \<Rightarrow> evidence_limits \<Rightarrow> db \<Rightarrow> string \<Rightarrow> int \<Rightarrow> context_source \<Rightarrow> string \<Rightarrow> string \<Rightarrow> candidate_verification option result" where
  "verification_of_source u lib l d run c x candidate h =
     (case xs_verifier x of
        None \<Rightarrow> Inr None
      | Some v \<Rightarrow> (case utf8_decode (xv_candidate v) of
          None \<Rightarrow> Inl (EvidenceError ''private verifier candidate encoding changed'')
        | Some other \<Rightarrow>
            if other \<noteq> candidate \<or> xv_role v \<noteq> ''verifier'' \<or> xs_verification_recipe x \<noteq> Some ''fresh_source_reobservation_v1''
              \<or> xv_route_recipe v \<noteq> ''fresh_source_reobservation_v1''
            then Inl (EvidenceError ''private verifier linkage changed'')
            else bind_result (memory_source_of lib run l (xv_attempt v) (Some h) d) (\<lambda>s.
              bind_result (candidate_evidence_of u ''verifier'' ''fresh_source_reobservation_v1'' s) (\<lambda>e.
              map_sum id Some (construct_verification u \<lparr>cv_run = run, cv_challenge = c, cv_producer = xs_attempt x,
                cv_verifier = xv_attempt v, cv_recipe = ''fresh_source_reobservation_v1'', cv_candidate = candidate,
                cv_evidence = e\<rparr>)))))"

definition context_of_source ::
  "unicode \<Rightarrow> stdlib \<Rightarrow> evidence_limits \<Rightarrow> db \<Rightarrow> string \<Rightarrow> int \<Rightarrow> context_source \<Rightarrow> candidate_context result" where
  "context_of_source u lib l d run c x =
     (case utf8_decode (xs_candidate x) of
        None \<Rightarrow> Inl (EvidenceError ''private candidate encoding changed'')
      | Some candidate \<Rightarrow>
          if xs_route_role x \<noteq> xs_role x \<or> xs_recipe x \<noteq> ''source_bound_tool_observation_v1''
          then Inl (EvidenceError ''private producer route or recipe changed'')
          else
            (let h = lib_sha lib (utf8_bytes candidate) in
             bind_result (memory_source_of lib run l (xs_attempt x) (Some h) d) (\<lambda>s.
             bind_result (candidate_evidence_of u (xs_route_role x) (xs_recipe x) s) (\<lambda>e.
             bind_result (verification_of_source u lib l d run c x candidate h) (\<lambda>v.
             construct_context u \<lparr>cc_run = run, cc_challenge = c, cc_episode = xs_episode x, cc_lane = xs_lane x,
               cc_attempt = xs_attempt x, cc_role = xs_role x, cc_recipe = xs_recipe x, cc_candidate = candidate,
               cc_evidence = e, cc_verification = v\<rparr>)))))"

definition record_scope_of :: "string \<Rightarrow> int \<Rightarrow> source_row \<Rightarrow> string \<Rightarrow> record_scope" where
  "record_scope_of run c x ending = \<lparr>sc_id = mq_attempt x @ ending, sc_run = run, sc_challenge = c, sc_episode = mq_episode x,
     sc_lane = mq_lane x, sc_attempt = mq_attempt x\<rparr>"

definition claim_records :: "unicode \<Rightarrow> string \<Rightarrow> int \<Rightarrow> source_row \<Rightarrow> memory_record list result" where
  "claim_records u run c x =
     (case mq_summary x of
        None \<Rightarrow> Inr []
      | Some summary \<Rightarrow> traverse (construct_record u) [AnalysisClaim (record_scope_of run c x '':analysis'') (mq_status x) summary
          (mq_evidence x) (mq_steps x) (mq_tools x)])"

definition tactic_records :: "unicode \<Rightarrow> string \<Rightarrow> int \<Rightarrow> source_row \<Rightarrow> memory_record list result" where
  "tactic_records u run c x =
     (case (mq_role x, mq_tactic x, mq_profile x) of
        (Some job_role, Some tactic, Some profile) \<Rightarrow>
          traverse (construct_record u) [TacticOutcome (record_scope_of run c x '':tactic'') job_role tactic profile (mq_status x)]
      | _ \<Rightarrow> Inr [])"

definition host_records :: "unicode \<Rightarrow> string \<Rightarrow> int \<Rightarrow> source_row \<Rightarrow> memory_source \<Rightarrow> memory_record list result" where
  "host_records u run c x s =
     traverse (\<lambda>ob. observation_record u (record_scope_of run c x ('':host:'' @ show_int (mo_ordinal ob))) (ms_complete s) (ms_gap s)
       (mo_tool ob) (mo_success ob) (mo_source_bound ob) (mo_facts ob)) (ms_observations s)"

definition checkpoint_record :: "unicode \<Rightarrow> string \<Rightarrow> int \<Rightarrow> source_row \<Rightarrow> pyval \<Rightarrow> memory_record result" where
  "checkpoint_record u run c x v =
     (case v of
        PDict ob \<Rightarrow>
          (case (dict_get ob ''ordinal'', dict_get ob ''complete'', dict_get ob ''gap'', dict_get ob ''tool'', dict_get ob ''facts'') of
             (PInt i, PBool whole, gap, PStr tool, PDict facts) \<Rightarrow>
               if (case gap of PNone \<Rightarrow> True | PStr _ \<Rightarrow> True | _ \<Rightarrow> False)
                 \<and> (case dict_get ob ''success'' of PNone \<Rightarrow> True | PBool _ \<Rightarrow> True | _ \<Rightarrow> False)
                 \<and> (case dict_get ob ''source_bound'' of PBool _ \<Rightarrow> True | _ \<Rightarrow> False)
               then bind_result (py_item v ''gap'') (\<lambda>_. bind_result (py_item v ''success'') (\<lambda>ok.
                 observation_record u (record_scope_of run c x ('':checkpoint:'' @ show_int i)) whole
                   (case gap of PStr s \<Rightarrow> Some s | _ \<Rightarrow> None) tool ok (dict_get ob ''source_bound'') (PDict facts)))
               else Inl (EvidenceError ''durable primary checkpoint observation is invalid'')
           | _ \<Rightarrow> Inl (EvidenceError ''durable primary checkpoint observation is invalid''))
      | _ \<Rightarrow> Inl (EvidenceError ''durable primary checkpoint observation is invalid''))"

definition records_of_source ::
  "unicode \<Rightarrow> stdlib \<Rightarrow> evidence_limits \<Rightarrow> db \<Rightarrow> string \<Rightarrow> int \<Rightarrow> source_row \<Rightarrow> memory_record list result" where
  "records_of_source u lib l d run c x =
     bind_result (memory_source_of lib run l (mq_attempt x) None d) (\<lambda>s.
     bind_result (claim_records u run c x) (\<lambda>as.
     bind_result (tactic_records u run c x) (\<lambda>ts.
     bind_result (host_records u run c x s) (\<lambda>hs.
     bind_result (traverse (checkpoint_record u run c x) (mq_checkpoints x)) (\<lambda>cs. Inr (as @ ts @ hs @ cs))))))"

definition failure_record :: "unicode \<Rightarrow> string \<Rightarrow> int \<Rightarrow> failure_source \<Rightarrow> memory_record result" where
  "failure_record u run c f =
     construct_record u (FailureRecord \<lparr>sc_id = fs_record f, sc_run = run, sc_challenge = c, sc_episode = fs_episode f,
       sc_lane = fs_lane f, sc_attempt = fs_attempt f\<rparr> (fs_kind f) (fs_subreason f))"

definition candidate_memory_of ::
  "unicode \<Rightarrow> stdlib \<Rightarrow> evidence_limits \<Rightarrow> db \<Rightarrow> string \<Rightarrow> int \<Rightarrow> int \<Rightarrow> int \<Rightarrow> candidate_aggregate result" where
  "candidate_memory_of u lib l d run c from_ep ep =
     bind_result (private_candidate_context_sources (lib_sha lib) d run c ep) (\<lambda>xs.
     bind_result (traverse (context_of_source u lib l d run c) (filter (\<lambda>x. from_ep \<le> xs_episode x) xs)) (\<lambda>cs.
     aggregate_contexts cs 0 0))"

definition memory_records_of ::
  "unicode \<Rightarrow> stdlib \<Rightarrow> evidence_limits \<Rightarrow> db \<Rightarrow> string \<Rightarrow> int \<Rightarrow> int \<Rightarrow> int \<Rightarrow> int \<Rightarrow> memory_record list result" where
  "memory_records_of u lib l d run c from_ep ep lane =
     bind_result (same_run_memory_sources (lib_sha lib) d run c lane ep) (\<lambda>xs.
     bind_result (traverse (records_of_source u lib l d run c) (filter (\<lambda>x. from_ep \<le> mq_episode x) xs)) (\<lambda>rss.
     bind_result (same_run_memory_failures d run c ep) (\<lambda>fs.
     bind_result (traverse (failure_record u run c) (filter (\<lambda>f. from_ep \<le> fs_episode f) fs)) (\<lambda>frs.
     Inr (concat rss @ frs)))))"

text \<open>\<open>_typed_same_run_memory\<close> of the orchestrator: the projection for one lane and the private candidates.\<close>

definition typed_same_run_memory ::
  "unicode \<Rightarrow> stdlib \<Rightarrow> evidence_limits \<Rightarrow> string \<Rightarrow> db \<Rightarrow> string \<Rightarrow> int \<Rightarrow> int \<Rightarrow> int \<Rightarrow> string
     \<Rightarrow> (memory_projection \<times> candidate_aggregate) result" where
  "typed_same_run_memory u lib l arm d run c ep lane job_role =
     bind_result (construct_target u \<lparr>mt_run = run, mt_challenge = c, mt_episode = ep, mt_lane = lane, mt_role = job_role\<rparr>) (\<lambda>t.
     bind_result (control_catalogue_context_episode d run c) (\<lambda>from_ep.
     bind_result (candidate_memory_of u lib l d run c from_ep ep) (\<lambda>cm.
     bind_result (if job_role = ''verifier'' then Inr [] else memory_records_of u lib l d run c from_ep ep lane) (\<lambda>rs.
     bind_result (project_memory u (lib_sha lib) rs t arm (Some cm) [] PROJECTION_BYTES) (\<lambda>p. Inr (p, cm))))))"

section \<open>What a lane is given\<close>

text \<open>A record that the store backs: it is of this run and challenge and of an episode in a range, and says what a row says. A
  failure is a recorded decision with a job of its wave; everything else comes from an attempt that has ended, a claim in the
  words of its summary, an observation from its manifest or from its last checkpoint.\<close>

definition said_by :: "stdlib \<Rightarrow> evidence_limits \<Rightarrow> db \<Rightarrow> string \<Rightarrow> attempt_row \<Rightarrow> memory_record \<Rightarrow> bool" where
  "said_by lib l d run a r =
     (case r of
        AnalysisClaim _ status summary _ _ tools \<Rightarrow> status = at_status a \<and> summary = at_summary a \<and> tools = at_tool_count a
      | TacticOutcome _ _ _ _ status \<Rightarrow> status = at_status a
      | HostObservation _ _ _ tool _ _ facts \<Rightarrow>
          (\<exists>s. memory_source_of lib run l (at_id a) None d = Inr s
             \<and> (\<exists>ob \<in> set (ms_observations s). mo_tool ob = tool \<and> mo_facts ob = PDict facts))
          \<or> (\<exists>ob. PDict ob \<in> set (at_observations a) \<and> dict_get ob ''tool'' = PStr tool \<and> dict_get ob ''facts'' = PDict facts)
      | FailureRecord _ _ _ \<Rightarrow> False)"

definition stored_record ::
  "stdlib \<Rightarrow> evidence_limits \<Rightarrow> db \<Rightarrow> string \<Rightarrow> int \<Rightarrow> int \<Rightarrow> int \<Rightarrow> memory_record \<Rightarrow> bool" where
  "stored_record lib l d run c from_ep ep r \<longleftrightarrow> (let s = memory_scope r in
     sc_run s = run \<and> sc_challenge s = c \<and> from_ep \<le> sc_episode s \<and> sc_episode s < ep
     \<and> (case r of
          FailureRecord _ fkind sub \<Rightarrow> \<exists>x \<in> set (route_decisions d). \<exists>j \<in> set (control_jobs d).
            dc_run x = run \<and> dc_challenge x = c \<and> dc_episode x = sc_episode s \<and> dc_kind x = fkind \<and> dc_subreason x = sub
            \<and> in_wave run c (sc_episode s) j \<and> jb_id j = sc_attempt s \<and> jb_lane j = sc_lane s
        | _ \<Rightarrow> \<exists>a \<in> set (attempts d). at_run a = run \<and> at_challenge a = c \<and> at_status a \<noteq> ''running'' \<and> at_id a = sc_attempt s
            \<and> at_episode a = sc_episode s \<and> at_lane a = sc_lane s \<and> said_by lib l d run a r))"

lemma construct_record_same: "construct_record u r = Inr r' \<Longrightarrow> r' = r"
  by (auto simp: construct_record_def bind_result_Inr_iff)

lemma observation_record_shape:
  assumes "observation_record u s w gap tool ok b facts = Inr r"
  obtains ok' b' kvs where "r = HostObservation s w gap tool ok' b' kvs" "facts = PDict kvs"
  using assms by (cases facts) (auto simp: observation_record_def bind_result_Inr_iff)

lemma checkpoint_record_shape:
  assumes "checkpoint_record u run c x v = Inr r"
  obtains i w gap tool ok b kvs ob where "v = PDict ob" "dict_get ob ''tool'' = PStr tool" "dict_get ob ''facts'' = PDict kvs"
    "r = HostObservation (record_scope_of run c x ('':checkpoint:'' @ show_int i)) w gap tool ok b kvs"
proof -
  from assms obtain ob i w tool facts gap ok b where v: "v = PDict ob" "dict_get ob ''tool'' = PStr tool" "dict_get ob ''facts'' = PDict facts"
    and r: "observation_record u (record_scope_of run c x ('':checkpoint:'' @ show_int i)) w gap tool ok b (PDict facts) = Inr r"
    by (auto simp: checkpoint_record_def bind_result_Inr_iff split: pyval.splits if_splits)
  from r show thesis by (rule observation_record_shape) (use that [OF v] in simp)
qed

text \<open>A source is one ended attempt, with its prose when it is of the lane itself.\<close>

definition source_of_attempt :: "db \<Rightarrow> string \<Rightarrow> int \<Rightarrow> int \<Rightarrow> int \<Rightarrow> source_row \<Rightarrow> attempt_row \<Rightarrow> bool" where
  "source_of_attempt d run c ep lane x a \<longleftrightarrow> a \<in> set (attempts d) \<and> at_run a = run \<and> at_challenge a = c \<and> at_status a \<noteq> ''running''
     \<and> at_episode a < ep \<and> mq_attempt x = at_id a \<and> mq_episode x = at_episode a \<and> mq_lane x = at_lane a \<and> mq_status x = at_status a
     \<and> mq_tools x = at_tool_count a \<and> mq_checkpoints x = decode_checkpoint_observations (at_observations a)
     \<and> mq_summary x = (if at_lane a = lane then Some (at_summary a) else None)"

lemma source_attempt:
  assumes "same_run_memory_sources sha d run c lane ep = Inr xs" "x \<in> set xs"
  shows "\<exists>a. source_of_attempt d run c ep lane x a"
proof -
  have "traverse (source_of sha d lane) (ended_rows d run c ep) = Inr xs"
    using assms(1) by (auto simp: same_run_memory_sources_def bind_result_Inr_iff Let_def)
  then obtain a j where "(a, j) \<in> set (ended_rows d run c ep)" "source_of sha d lane (a, j) = Inr x"
    using assms(2) by (metis surj_pair traverse_member)
  then show ?thesis
    by (intro exI [of _ a]) (auto simp: source_of_attempt_def ended_rows_def source_of_def bind_result_Inr_iff Let_def)
qed

lemma source_records:
  assumes "records_of_source u lib l d run c x = Inr rs" "r \<in> set rs" "source_of_attempt d run c ep lane x a"
  shows "said_by lib l d run a r \<and> (\<exists>e. memory_scope r = record_scope_of run c x e)"
proof -
  obtain s as ts hs cs where parts: "memory_source_of lib run l (mq_attempt x) None d = Inr s" "claim_records u run c x = Inr as"
    "tactic_records u run c x = Inr ts" "host_records u run c x s = Inr hs"
    "traverse (checkpoint_record u run c x) (mq_checkpoints x) = Inr cs" "rs = as @ ts @ hs @ cs"
    using assms(1) by (auto simp: records_of_source_def bind_result_Inr_iff)
  note a = assms(3) [unfolded source_of_attempt_def]
  from parts(6) assms(2) consider "r \<in> set as" | "r \<in> set ts" | "r \<in> set hs" | "r \<in> set cs" by auto
  then show ?thesis
  proof cases
    case 1
    with parts(2) a show ?thesis
      by (auto simp: claim_records_def said_by_def dest!: construct_record_same split: option.splits sum.splits if_splits)
  next
    case 2
    with parts(3) a show ?thesis
      by (auto simp: tactic_records_def said_by_def dest!: construct_record_same split: option.splits sum.splits)
  next
    case 3
    from traverse_member [OF parts(4) [unfolded host_records_def] 3] obtain ob where ob: "ob \<in> set (ms_observations s)"
      "observation_record u (record_scope_of run c x ('':host:'' @ show_int (mo_ordinal ob))) (ms_complete s) (ms_gap s)
         (mo_tool ob) (mo_success ob) (mo_source_bound ob) (mo_facts ob) = Inr r" by blast
    from ob(2) show ?thesis
      by (rule observation_record_shape) (use ob(1) parts(1) a in \<open>auto simp: said_by_def\<close>)
  next
    case 4
    from traverse_member [OF parts(5) 4] obtain v where v: "v \<in> set (mq_checkpoints x)" "checkpoint_record u run c x v = Inr r" by blast
    have "v \<in> set (at_observations a)" using v(1) a by (auto simp: decode_checkpoint_observations_def split: if_splits)
    with v(2) show ?thesis by (elim checkpoint_record_shape) (auto simp: said_by_def)
  qed
qed

lemma failures_stored:
  assumes "same_run_memory_failures d run c ep = Inr xs" "x \<in> set xs" "failure_record u run c x = Inr r" "from_ep \<le> fs_episode x"
  shows "stored_record lib l d run c from_ep ep r"
proof -
  have "traverse failure_of (failure_rows d run c ep) = Inr xs"
    using assms(1) by (auto simp: same_run_memory_failures_def bind_result_Inr_iff)
  then obtain y j where "(y, j) \<in> set (failure_rows d run c ep)" "failure_of (y, j) = Inr x"
    using assms(2) by (metis surj_pair traverse_member)
  with assms(3,4) show ?thesis
    by (auto simp: failure_rows_def failure_of_def bind_result_Inr_iff failure_record_def stored_record_def in_wave_def
        intro!: bexI [of _ y] bexI [of _ j] dest!: construct_record_same)
qed

lemma records_stored:
  assumes "memory_records_of u lib l d run c from_ep ep lane = Inr rs" "r \<in> set rs"
  shows "stored_record lib l d run c from_ep ep r"
proof -
  obtain xs rss fs frs where parts: "same_run_memory_sources (lib_sha lib) d run c lane ep = Inr xs"
    "traverse (records_of_source u lib l d run c) (filter (\<lambda>x. from_ep \<le> mq_episode x) xs) = Inr rss"
    "same_run_memory_failures d run c ep = Inr fs"
    "traverse (failure_record u run c) (filter (\<lambda>f. from_ep \<le> fs_episode f) fs) = Inr frs" "rs = concat rss @ frs"
    using assms(1) by (auto simp: memory_records_of_def bind_result_Inr_iff)
  with assms(2) consider ys where "ys \<in> set rss" "r \<in> set ys" | "r \<in> set frs" by auto
  then show ?thesis
  proof cases
    case 1
    obtain x where x: "x \<in> set xs" "from_ep \<le> mq_episode x" "records_of_source u lib l d run c x = Inr ys"
      using traverse_member [OF parts(2) 1(1)] by auto
    obtain a where a: "source_of_attempt d run c ep lane x a" using source_attempt [OF parts(1) x(1)] ..
    from source_records [OF x(3) 1(2) a] obtain e where said: "said_by lib l d run a r"
      and scope: "memory_scope r = record_scope_of run c x e" by blast
    show ?thesis unfolding stored_record_def Let_def scope
      using said a x(2) by (cases r) (auto simp: record_scope_of_def source_of_attempt_def said_by_def)
  next
    case 2
    obtain f where "f \<in> set fs" "from_ep \<le> fs_episode f" "failure_record u run c f = Inr r"
      using traverse_member [OF parts(4) 2] by auto
    with failures_stored [OF parts(3)] show ?thesis by blast
  qed
qed


section \<open>A store whose failure is remembered\<close>

definition memory_store :: db where
  "memory_store = empty_db\<lparr>
     catalogue := [\<lparr>ct_run = ''r'', ct_challenge = 7, ct_rank = 1, ct_executable = True, ct_context = None, ct_episode = 0\<rparr>],
     control_jobs := [\<lparr>jb_id = ''a'', jb_run = ''r'', jb_challenge = 7, jb_episode = 1, jb_rank = 1, jb_phase = ''retry'',
       jb_role = ''specialist'', jb_agent_role = ''specialist'', jb_model = ''m'', jb_effort = ''high'', jb_lane = 0,
       jb_state = ''error'', jb_fingerprint = ''f'', jb_admitted = 1, jb_started = None, jb_closed = Some 2\<rparr>],
     route_decisions := [\<lparr>dc_sequence = 1, dc_run = ''r'', dc_challenge = 7, dc_episode = 1, dc_kind = ''tool'',
       dc_subreason = ''stalled'', dc_disposition = ''contain'', dc_rule = ''x'', dc_source = ''f'', dc_successor = None,
       dc_axes = [], dc_reason = ''y''\<rparr>]\<rparr>"

lemma sample_text: "s \<in> set sample_words \<Longrightarrow> memory_text plain_unicode label 200 s = Inr ()"
proof -
  assume s: "s \<in> set sample_words"
  have "list_all (\<lambda>s. s \<noteq> [] \<and> length (utf8_bytes s) \<le> 200 \<and> list_all (\<lambda>c. 32 \<le> (of_char c :: nat)) s) sample_words"
    by code_simp
  with s sample_words_safe(1) [OF s] show ?thesis by (auto simp: memory_text_def invalid_def list_all_iff)
qed

lemma sample_memory:
  "typed_same_run_memory plain_unicode lib l ''typed_challenge_v1'' memory_store ''r'' 7 2 1 ''specialist''
     = Inr (\<lparr>mp_deduplicated = 0, mp_omitted = 0, mp_target = sample_target, mp_arm = ''typed_challenge_v1'',
         mp_records = [sample_document]\<rparr>, no_contexts)"
proof -
  have words: "''r'' \<in> set sample_words" "''a'' \<in> set sample_words" "''stalled'' \<in> set sample_words"
    "''failure:1:lane:0'' \<in> set sample_words"
    by (simp_all add: sample_words_def)
  have "construct_target plain_unicode sample_target = Inr sample_target"
    by (simp add: construct_target_def sample_target_def sample_text [OF words(1)] nonnegative_def invalid_def MEMORY_ROLES_def)
  moreover have "control_catalogue_context_episode memory_store ''r'' 7 = Inr 0"
    by (simp add: control_catalogue_context_episode_def memory_store_def catalogued_def first_row_def)
  moreover have "candidate_memory_of plain_unicode lib l memory_store ''r'' 7 0 2 = Inr no_contexts"
    by (simp add: candidate_memory_of_def private_candidate_context_sources_def check_scope_def context_rows_def memory_store_def
        empty_db_def aggregate_contexts_def count_of_def nonnegative_def invalid_def no_contexts_def)
  moreover have "memory_records_of plain_unicode lib l memory_store ''r'' 7 0 2 1 = Inr [sample_failure]"
  proof -
    have "show_int 1 = ''1''" "show_int 0 = ''0''" by code_simp+
    moreover have "''tool'' \<in> FAILURE_KINDS" by code_simp
    ultimately have "same_run_memory_failures memory_store ''r'' 7 2 = Inr [\<lparr>fs_record = ''failure:1:lane:0'', fs_episode = 1, fs_lane = 0,
        fs_attempt = ''a'', fs_kind = ''tool'', fs_subreason = ''stalled''\<rparr>]"
      by (simp add: same_run_memory_failures_def check_scope_def failure_rows_def memory_store_def empty_db_def in_wave_def failure_of_def)
    moreover have "construct_record plain_unicode sample_failure = Inr sample_failure"
      by (simp add: construct_record_def sample_failure_def sample_scope_def scope_checks_def sample_text words nonnegative_def
          invalid_def MEMORY_FAILURE_KINDS_def)
    moreover have "same_run_memory_sources (lib_sha lib) memory_store ''r'' 7 1 2 = Inr []"
      by (simp add: same_run_memory_sources_def ended_rows_def memory_store_def empty_db_def)
    ultimately show ?thesis
      by (simp add: memory_records_of_def failure_record_def sample_failure_def sample_scope_def)
  qed
  moreover have "project_memory plain_unicode (lib_sha lib) [sample_failure] sample_target ''typed_challenge_v1'' (Some no_contexts) []
      PROJECTION_BYTES = Inr \<lparr>mp_deduplicated = 0, mp_omitted = 0, mp_target = sample_target, mp_arm = ''typed_challenge_v1'',
        mp_records = [sample_document]\<rparr>"
    using sample_projection [OF disjI2 [OF refl]] by (simp add: PROJECTION_BYTES_def)
  ultimately show ?thesis by (simp add: typed_same_run_memory_def sample_target_def [symmetric])
qed


text \<open>An attempt reads its own lane's history in order, at most as much as it asked for and the newest of it, and none of it was
  left running or ended with a candidate.\<close>

theorem prior_attempts_recent:
  assumes "prior_attempts_for_lane d run c lane bef (Some n) = Inr ps"
  shows "length ps \<le> nat n \<and> sorted (map pa_episode ps)
    \<and> (\<forall>p \<in> set ps. pa_status p \<notin> {''running'', ''candidate''} \<and> (case bef of None \<Rightarrow> True | Some e \<Rightarrow> pa_episode p < e)
        \<and> length (pa_evidence p) \<le> 20 \<and> length (pa_steps p) \<le> 20)
    \<and> (\<forall>a \<in> set (prior_rows d run c lane bef). prior_attempt_of a \<notin> set ps \<longrightarrow> length ps = nat n \<and> (\<forall>p \<in> set ps. at_episode a \<le> pa_episode p))"
proof -
  define rows where "rows = prior_rows d run c lane bef"
  have ps: "ps = map prior_attempt_of (rev (take (nat n) rows))"
    using assms by (auto simp: prior_attempts_for_lane_def bind_result_Inr_iff Let_def rows_def)
  have desc: "sorted (map at_episode (rev rows))"
  proof -
    have key: "sorted (map (\<lambda>a. (at_episode a, at_started a, at_id a)) (rev rows))"
      unfolding rows_def prior_rows_def rev_rev_ident by (rule sorted_sort_key)
    define before_or_same where "before_or_same = (\<lambda>(x :: attempt_row) (y :: attempt_row). (at_episode x, at_started x, at_id x) \<le> (at_episode y, at_started y, at_id y))"
    have "sorted_wrt before_or_same (rev rows)" using key by (simp only: sorted_map before_or_same_def)
    moreover have "before_or_same x y \<Longrightarrow> at_episode x \<le> at_episode y" for x y by (auto simp: before_or_same_def)
    ultimately have "sorted_wrt (\<lambda>x y. at_episode x \<le> at_episode y) (rev rows)" by (rule sorted_wrt_mono_rel [rotated])
    then show ?thesis by (simp only: sorted_map)
  qed
  have eps: "map pa_episode ps = map at_episode (rev (take (nat n) rows))" by (simp add: ps prior_attempt_of_def comp_def)
  have split: "rev rows = rev (drop (nat n) rows) @ rev (take (nat n) rows)" by (metis append_take_drop_id rev_append)
  have "sorted (map pa_episode ps)" using desc unfolding eps split by (simp add: sorted_append)
  moreover have "length ps \<le> nat n" by (simp add: ps)
  moreover have "\<forall>p \<in> set ps. pa_status p \<notin> {''running'', ''candidate''} \<and> (case bef of None \<Rightarrow> True | Some e \<Rightarrow> pa_episode p < e)
      \<and> length (pa_evidence p) \<le> 20 \<and> length (pa_steps p) \<le> 20"
    by (auto simp: ps rows_def prior_rows_def prior_attempt_of_def decode_attempt_evidence_def MAX_ATTEMPT_EVIDENCE_ITEMS_def
        dest!: in_set_takeD split: option.splits)
  moreover have "length ps = nat n \<and> (\<forall>p \<in> set ps. at_episode a \<le> pa_episode p)"
    if a: "a \<in> set rows" "prior_attempt_of a \<notin> set ps" for a
  proof -
    have "a \<notin> set (take (nat n) rows)" using a(2) by (auto simp: ps)
    then have d: "a \<in> set (drop (nat n) rows)" using a(1) by (metis append_take_drop_id Un_iff set_append)
    then have "nat n \<le> length rows" by (cases "nat n \<le> length rows") auto
    then have "length ps = nat n" by (simp add: ps)
    moreover have "\<forall>p \<in> set ps. at_episode a \<le> pa_episode p"
      using desc d unfolding split by (auto simp: ps prior_attempt_of_def sorted_append)
    ultimately show ?thesis by blast
  qed
  ultimately show ?thesis unfolding rows_def by blast
qed

lemma prior_attempts_recent_witness:
  "\<exists>ps. prior_attempts_for_lane memory_store ''r'' 7 0 (Some 2) (Some 4) = Inr ps \<and> length ps \<le> 4"
proof -
  have "prior_attempts_for_lane memory_store ''r'' 7 0 (Some 2) (Some 4) = Inr []"
    by (simp add: prior_attempts_for_lane_def prior_rows_def memory_store_def empty_db_def)
  from prior_attempts_recent [OF this] this show ?thesis by auto
qed

end
