(* ===== verification/Spec2Isabelle.thy ===== *)
theory Spec2Isabelle
  imports Comparison_Replay Exact_Tools Native_Receipts Offline_Profile Submission_Ledger Run_Lifecycle Control_Plane
    Vault_Examples Memory_Sources
begin

text \<open>
  A verification development of Rapido, the runtime that works on security challenges with several
  model lanes at a time. The program keeps everything it may not lose in one SQLite store
  (\<open>src/rapido/state.py\<close>): the runs, the frozen catalogue of challenges with its waves of jobs, the
  attempts of the lanes, and the external effects on the Board, which are reserved before they are
  performed. Around the store, pure modules decide what may happen next: which configuration a process
  starts with, which route follows a failure, what an exact tool call returns, and what the usage
  receipts of a native session add up to. The orchestrator calls the decisions and writes their outcome
  to the store in one transaction each. The development follows that shape.

  Theories, and what of the program each models:

  \<^item> \<open>Prelude\<close>: results (a Python exception is the left of a sum, with its class and message), dynamic
    values with their canonical JSON, decimal text, and two interfaces used throughout: a document codec
    (reading back what was written) and an injective canonical text.
  \<^item> \<open>Py_Text\<close>: what the configuration uses of the string methods and of \<open>urlsplit\<close>.
  \<^item> \<open>Config\<close> (\<open>config.py\<close>) and \<open>Offline_Profile\<close> (\<open>offline_profile.py\<close>): the two ways to build a
    configuration. Both admit only configurations with the workspace and concurrency contract of the
    locale \<open>admitted_configuration\<close>, interpreted once for each.
  \<^item> \<open>Routing\<close> (\<open>routing.py\<close>): routes, their documents and fingerprints, failure classification and the
    rules from a failure to a successor route. \<open>Float_Division\<close> holds the one use of floating point, the
    rounded quotient whose ceiling shares out the time of a run. \<open>Routing_Policy\<close> and \<open>Routing_Comparison\<close>
    (\<open>routing_policy.py\<close>): the frozen comparison of four routing policies.
  \<^item> \<open>Exact_Arithmetic\<close> and \<open>Exact_Tools\<close> (\<open>exact_tools.py\<close>): the arithmetic kernels and the tool call
    with its validation of arguments.
  \<^item> \<open>Receipt_Accounting\<close> and \<open>Native_Receipts\<close> (\<open>native_receipts.py\<close>): interval union and repair
    accounting, and the builder, the validator and the summary of receipts.
  \<^item> \<open>State_Tables\<close> (\<open>state.py\<close>): one record per table of the schema, \<open>db\<close> for the whole store, transactions
    that commit or roll back, and the locale \<open>guarded_store\<close>: a start state, steps, and an invariant no
    sequence of steps loses.
  \<^item> \<open>Submission_Ledger\<close> (\<open>state.py\<close>): reservation, settlement and reconciliation of flag submissions, the
    queries on them, and the ownership of instances.
  \<^item> \<open>Control_Waves\<close> (\<open>state.py\<close>): the control log, admission, start, finish and transition of waves and the
    failure origins. \<open>Run_Lifecycle\<close> (\<open>state.py\<close>): start, resumption, end, operator stop, interruption and
    recovery of runs, the Board identity, and the start of attempts. \<open>Control_Catalogue\<close> (\<open>state.py\<close>):
    catalogue queries, material revisions, the rebuilt queue and the terminal outcomes. \<open>Control_Decisions\<close>
    (\<open>state.py\<close>): the decision after a closed wave, composed of \<open>Routing\<close> and \<open>Control_Waves\<close>, and the
    resumption of the waves a restart interrupted. \<open>Comparison_Store\<close> (\<open>state.py\<close>): the recorded facts and
    routes of a policy comparison, the transaction that closes, compares and continues a wave, and the replay
    of a recorded decision, whose round trip is in \<open>Comparison_Replay\<close>. \<open>Control_Plane\<close>: one step relation over all methods that write the jobs, the
    routes or the control log, and their invariant.
  \<^item> \<open>Candidate_Vault\<close> (\<open>state.py\<close>): the end of attempts, checkpoints and events, the retention of a
    candidate with its independent verification, and the queries on candidates.
  \<^item> \<open>Utf8_Json\<close>, \<open>Evidence_Facts\<close>, \<open>Evidence_Store\<close> and \<open>Evidence_Use\<close> (\<open>evidence.py\<close>): the encoded
    size of canonical JSON; the projection of a tool result to facts that may be kept; opening, committing,
    loading with every check, and sealing the evidence of attempts; and its three uses: memory sources, the
    attestation of a candidate, and the bundle carried to a later lane. \<open>Evidence_Projection\<close>,
    \<open>Evidence_Commit\<close>, \<open>Evidence_Carry\<close> and \<open>Evidence_Attest\<close> hold the theorems on each.
  \<^item> \<open>Vault_Lifecycle\<close>: the candidates and the evidence together, over the step relation \<open>vault_step\<close>.
    \<open>Vault_Examples\<close>: concrete stores where the hypotheses of those theorems hold.
  \<^item> \<open>Memory_Text\<close> and \<open>Memory_Projection\<close> (\<open>memory.py\<close>): which texts may be shown to a model, with the search
    for encoded candidates and secrets, the typed records with their checks, the private candidates, and the
    projection of records into a budget of bytes; \<open>Memory_Bounds\<close> holds the theorems on the projection.
    \<open>Memory_Sources\<close> (\<open>state.py\<close> and \<open>_typed_same_run_memory\<close> of \<open>orchestrator.py\<close>): the queries for the
    memory of a lane and their assembly with the evidence of each attempt into one projection.

  How state and operations correspond. A row is a record with the columns of its table, a table a list in
  row order, \<open>NULL\<close> is \<open>None\<close>. A statement is a filter, a map or an append after the constraint checks of
  the schema; an \<open>AUTOINCREMENT\<close> sequence is one more than the number of rows, since no row of such a table is
  deleted. A private method that runs in its caller's transaction has the type \<open>'a tx\<close>; a public method
  wraps it in \<open>transaction\<close>, so an error leaves the store as it was. The clock is a function from the number
  of the reading in an operation to its text; digests are an uninterpreted function argument.

  What the lemmas show. Ledger: an effect is started once more than it was reported undelivered at most,
  stated outcomes never change, and the store refines an abstract gate with one effect in flight per
  challenge. Lifecycle: a supervisor that starts or resumes a run holds the only running run of the store and
  every run has its scope, until some caller records a run directly by \<open>start_run\<close>, which checks nothing; an
  operator stop and a resumption leave nothing of the run behind, recovery is idempotent. Control plane: an
  invariant over every method that writes its jobs, routes or log, the atomic transition between waves, the
  bounded drain of admitted waves as long as no attempt is open, an exact queue, and a material refresh that
  replaces every open wave of a challenge without open attempts; a dispatched decision admits exactly the
  lanes planned for it - one verifier, the recovery of the closed wave's lanes, or those lanes again - on an unused
  route, and every interrupted wave is decided once, unless a submission of its challenge is unsettled. Routing: a dispatched route is valid, unused, materially changed
  and no wider in authority, the router is total on well-formed requests below the last workspace generation and
  within the range of floats, and fences unsafe effects; the
  comparison arms agree on aligned contracts, and a recorded comparison is replayed to the same trace. Tools: solution sets of congruences, floor roots and round
  trips. Receipts: exactly which built receipts are accepted, what wall time measures, and an equivalent closed
  form of the repair accounting. Configuration: ranges, the workspace budget and the private native home.
  Evidence: the values the projection keeps are safe and its names are of a closed vocabulary, except inside
  \<open>hashes\<close>; a batch stays within its quotas and what it commits is loaded
  back with every check, a carried bundle states its exact size, fits the limit and betrays no candidate, and
  sealing leaves no ended attempt without a manifest. Candidates: in every reachable store a verified candidate
  was retained by two attempts of different episodes and each of them observed it without having supplied it.
  Memory: what a lane is given fits the budget; every record of it is the count of rejected candidates, a
  recorded failure of a wave, or repeats an ended attempt of the same run and challenge in an earlier episode
  that is not before the material; it contains prose of its own lane only and no form of a candidate;
  it does not depend on the order of the records as long as their ids differ, and every record left out is
  counted.

  The properties quantify over reachable stores by the step relations \<open>ledger_step\<close>, \<open>control_step\<close>,
  \<open>run_step\<close>, \<open>supervised_step\<close> and \<open>vault_step\<close>, or assume the part of the invariant they need (distinct
  job ids, no attempt \<open>queued\<close> or \<open>running\<close>), which the text before each property names. No fuel is used: loops are structural or have a measure.

  Not modelled: the files of the store, its migrations and its lock, whose ownership is the field
  \<open>leased\<close>; the checks of \<open>ensure_evidence_schema\<close> on existing SQL objects;
  the scheduling of the orchestrator, the native client, transports, workers and
  supervisor, which are input and output of processes, sockets and files around the parts above; the
  offline experiments and scripts. Arguments have the types of their annotations, so the dynamic type
  checks of the source are modelled only where a document is read. The legacy positional form of
  \<open>start_attempt\<close> is left out. NFKC normalisation changes no retained token or label, which are ASCII; the
  search of a whole result for a candidate leaves it out. In the memory theories NFKC and case folding are the
  argument \<open>unicode\<close>, about which the theorems assume at most that ASCII text is left as it is; texts there have code
  points up to 255, and values that are bytes or cyclic are left out. Decoding of JSON text and Base64 is an argument, and an \<open>Opaque\<close> blob is one that
  is not the canonical encoding of a value.
\<close>

end
